(* ===== verification/Prelude.thy ===== *)
theory Prelude
  imports Main "HOL-Library.AList" "HOL-Library.Multiset" "HOL-Library.List_Lexorder"
    "HOL-Library.Char_ord" "HOL-Library.Product_Lexorder"
begin

text \<open>
  Shared vocabulary of the development.

  \<^item> Results. A call that can throw returns \<open>'e + 'a\<close>: \<open>Inl e\<close> is the thrown error,
    \<open>Inr a\<close> the value. \<open>bind_result\<close> is sequencing, \<open>sequence_results\<close> runs a list of
    results from left to right and stops at the first error.
  \<^item> JavaScript containers. A \<open>Map\<close> is an association list in insertion order
    (\<open>AList.update\<close> overwrites in place or appends), \<open>js_uniq\<close> is
    \<open>[...new Set(xs)]\<close>, which keeps the first occurrence of each element.
  \<^item> SQL tables. A table is a list of rows; \<open>update_where\<close> is \<open>UPDATE .. SET .. WHERE\<close>
    and \<open>row_by\<close> is a \<open>SELECT\<close> by primary key.
  \<^item> The locales \<open>keyed_table\<close> and \<open>event_reducer\<close> state the two interfaces
    that several components share: a table with a primary key, and a reducer over an
    event log that sorts its input itself.
\<close>

named_theorems result_simps \<open>unfolding rules of the result combinators\<close>
named_theorems table_simps \<open>reading a table after an update or an insert\<close>

section \<open>Results\<close>

definition bind_result :: "'e + 'a \<Rightarrow> ('a \<Rightarrow> 'e + 'b) \<Rightarrow> 'e + 'b" where
  "bind_result m f = (case m of Inl e \<Rightarrow> Inl e | Inr a \<Rightarrow> f a)"

lemma bind_result_simps [simp, result_simps]:
  "bind_result (Inl e) f = Inl e"
  "bind_result (Inr a) f = f a"
  by (simp_all add: bind_result_def)

lemma bind_result_Inr_iff [result_simps]:
  "bind_result m f = Inr y \<longleftrightarrow> (\<exists>x. m = Inr x \<and> f x = Inr y)"
  by (cases m) auto

lemma bind_result_Inl_iff [result_simps]:
  "bind_result m f = Inl e \<longleftrightarrow> m = Inl e \<or> (\<exists>x. m = Inr x \<and> f x = Inl e)"
  by (cases m) auto

lemma bind_result_cong [fundef_cong]:
  "m = n \<Longrightarrow> (\<And>x. n = Inr x \<Longrightarrow> f x = g x) \<Longrightarrow> bind_result m f = bind_result n g"
  by (cases n) auto

fun sequence_results :: "('e + 'a) list \<Rightarrow> 'e + 'a list" where
  "sequence_results [] = Inr []"
| "sequence_results (r # rs) =
     bind_result r (\<lambda>a. bind_result (sequence_results rs) (\<lambda>as. Inr (a # as)))"

lemma sequence_results_Inr_iff:
  "sequence_results rs = Inr as \<longleftrightarrow> rs = map Inr as"
proof (induction rs arbitrary: as)
  case Nil
  then show ?case by auto
next
  case (Cons r rs)
  then show ?case by (cases r; cases as) (auto simp: bind_result_Inr_iff)
qed

lemma sequence_results_map_Inr [simp]: "sequence_results (map (Inr \<circ> f) xs) = Inr (map f xs)"
  by (induction xs) auto

text \<open>Reading a string of decimal digits.\<close>

fun digits_value :: "nat \<Rightarrow> string \<Rightarrow> nat option" where
  "digits_value acc [] = Some acc"
| "digits_value acc (c # cs) =
     (if 48 \<le> (of_char c :: nat) \<and> (of_char c :: nat) \<le> 57
      then digits_value (10 * acc + (of_char c - 48)) cs else None)"

section \<open>JavaScript sets and orderings\<close>

fun js_uniq_aux :: "'a list \<Rightarrow> 'a list \<Rightarrow> 'a list" where
  "js_uniq_aux seen [] = []"
| "js_uniq_aux seen (x # xs) =
     (if x \<in> set seen then js_uniq_aux seen xs else x # js_uniq_aux (x # seen) xs)"

definition js_uniq :: "'a list \<Rightarrow> 'a list" where
  "js_uniq xs = js_uniq_aux [] xs"

lemma set_js_uniq_aux: "set (js_uniq_aux seen xs) = set xs - set seen"
  by (induction seen xs rule: js_uniq_aux.induct) auto

lemma distinct_js_uniq_aux: "distinct (js_uniq_aux seen xs)"
  by (induction seen xs rule: js_uniq_aux.induct) (auto simp: set_js_uniq_aux)

lemma js_uniq_aux_id: "distinct xs \<Longrightarrow> set xs \<inter> set seen = {} \<Longrightarrow> js_uniq_aux seen xs = xs"
  by (induction seen xs rule: js_uniq_aux.induct) auto

lemma set_js_uniq [simp]: "set (js_uniq xs) = set xs"
  by (simp add: js_uniq_def set_js_uniq_aux)

lemma distinct_js_uniq [simp]: "distinct (js_uniq xs)"
  by (simp add: js_uniq_def distinct_js_uniq_aux)

lemma js_uniq_id: "distinct xs \<Longrightarrow> js_uniq xs = xs"
  by (simp add: js_uniq_def js_uniq_aux_id)

text \<open>
  Sorting with a comparator that is a strict total order on the keys is \<open>sort_key\<close>;
  when no two elements share a key, the result depends on the multiset only.
\<close>

lemma sort_key_perm:
  assumes "mset xs = mset ys" and "inj_on k (set xs)"
  shows "sort_key k xs = sort_key k ys"
  using assms by (intro sort_key_inj_key_eq) auto

lemma sorted_distinct_eq:
  assumes "sorted (map k xs)" "sorted (map k ys)" "distinct (map k xs)" "distinct (map k ys)"
    and "set xs = set ys"
  shows "xs = ys"
proof -
  have "set (map k xs) = set (map k ys)" using assms(5) by simp
  then have "map k xs = map k ys"
    using assms(1-4) by (intro sorted_distinct_set_unique) auto
  moreover have "inj_on k (set xs \<union> set ys)"
    using assms(3,5) by (simp add: distinct_map)
  ultimately show ?thesis
    by (rule map_inj_on)
qed

text \<open>The maximum of a column, as a fold.\<close>

lemma foldl_max_start: "x \<le> foldl max x xs" for x :: int
proof (induction xs arbitrary: x)
  case (Cons a xs)
  have "max x a \<le> foldl max (max x a) xs" by (rule Cons.IH)
  then show ?case by simp
qed simp

lemma foldl_max_mem: "y \<in> set xs \<Longrightarrow> y \<le> foldl max x xs" for x :: int
proof (induction xs arbitrary: x)
  case (Cons a xs)
  then show ?case using foldl_max_start [of "max x a" xs] by auto
qed simp

section \<open>Tables\<close>

definition row_by :: "('r \<Rightarrow> 'k) \<Rightarrow> 'k \<Rightarrow> 'r list \<Rightarrow> 'r option" where
  "row_by key k rs = find (\<lambda>r. key r = k) rs"

definition update_where :: "('r \<Rightarrow> bool) \<Rightarrow> ('r \<Rightarrow> 'r) \<Rightarrow> 'r list \<Rightarrow> 'r list" where
  "update_where p f rs = map (\<lambda>r. if p r then f r else r) rs"

lemma update_where_simps [simp]:
  "update_where p f [] = []"
  "update_where p f (r # rs) = (if p r then f r else r) # update_where p f rs"
  by (simp_all add: update_where_def)

lemma list_ex_key: "list_ex (\<lambda>r. key r = k) rs \<longleftrightarrow> k \<in> key ` set rs"
  by (auto simp: list_ex_iff image_iff)

lemma length_update_where [simp]: "length (update_where p f rs) = length rs"
  by (simp add: update_where_def)

lemma set_update_where:
  "set (update_where p f rs) = (\<lambda>r. if p r then f r else r) ` set rs"
  by (simp add: update_where_def)

lemma update_where_none: "\<forall>r \<in> set rs. \<not> p r \<Longrightarrow> update_where p f rs = rs"
  by (induction rs) auto

lemma map_key_update_where:
  "(\<And>r. r \<in> set rs \<Longrightarrow> p r \<Longrightarrow> key (f r) = key r) \<Longrightarrow>
     map key (update_where p f rs) = map key rs"
  by (induction rs) auto

lemma row_by_SomeD: "row_by key k rs = Some r \<Longrightarrow> r \<in> set rs \<and> key r = k"
  by (auto simp: row_by_def find_Some_iff)

lemma row_by_None_iff: "row_by key k rs = None \<longleftrightarrow> k \<notin> key ` set rs"
  by (auto simp: row_by_def find_None_iff)

text \<open>
  The interface of a table with a primary key: a component that reads and writes rows by
  key relies on these laws only.
\<close>

locale keyed_table =
  fixes key :: "'r \<Rightarrow> 'k"
begin

definition wf :: "'r list \<Rightarrow> bool" where
  "wf rs \<longleftrightarrow> distinct (map key rs)"

lemma wf_same_row: "wf rs \<Longrightarrow> r \<in> set rs \<Longrightarrow> r' \<in> set rs \<Longrightarrow> key r = key r' \<Longrightarrow> r = r'"
  by (auto simp: wf_def distinct_map inj_on_def)

lemma row_by_eq: "wf rs \<Longrightarrow> r \<in> set rs \<Longrightarrow> row_by key (key r) rs = Some r"
proof -
  assume wf: "wf rs" and r: "r \<in> set rs"
  then obtain r' where r': "row_by key (key r) rs = Some r'"
    by (cases "row_by key (key r) rs") (auto simp: row_by_None_iff)
  then have "r' \<in> set rs" "key r' = key r" by (auto dest: row_by_SomeD)
  with wf r r' show ?thesis by (auto dest: wf_same_row)
qed

lemma row_by_iff: "wf rs \<Longrightarrow> row_by key k rs = Some r \<longleftrightarrow> r \<in> set rs \<and> key r = k"
  using row_by_SomeD row_by_eq by metis

lemma wf_Nil [simp]: "wf []"
  by (simp add: wf_def)

lemma wf_insert: "wf rs \<Longrightarrow> row_by key (key r) rs = None \<Longrightarrow> wf (rs @ [r])"
  by (auto simp: wf_def row_by_None_iff)

lemma wf_update:
  "wf rs \<Longrightarrow> (\<And>r. r \<in> set rs \<Longrightarrow> p r \<Longrightarrow> key (f r) = key r) \<Longrightarrow> wf (update_where p f rs)"
  by (simp add: wf_def map_key_update_where)

lemma row_by_insert_other:
  "k \<noteq> key r \<Longrightarrow> row_by key k (rs @ [r]) = row_by key k rs"
  by (induction rs) (auto simp: row_by_def)

lemma row_by_insert_same:
  "row_by key (key r) rs = None \<Longrightarrow> row_by key (key r) (rs @ [r]) = Some r"
  by (induction rs) (auto simp: row_by_def split: if_splits)

lemma row_by_update:
  "(\<And>r. r \<in> set rs \<Longrightarrow> p r \<Longrightarrow> key (f r) = key r) \<Longrightarrow>
     row_by key k (update_where p f rs) =
       map_option (\<lambda>r. if p r then f r else r) (row_by key k rs)"
  by (induction rs) (auto simp: row_by_def)

end

section \<open>Reducers over an event log\<close>

text \<open>
  A reducer sorts the events it is given by a key and folds a step over them. Its callers
  rely on two laws: the row does not depend on the order in which the database returns the
  events, and events the step ignores may be present or absent.
\<close>

locale event_reducer =
  fixes ekey :: "'e \<Rightarrow> 'k::linorder"
    and estep :: "'s \<Rightarrow> 'e \<Rightarrow> 's"
    and start :: 's
    and relevant :: "'e \<Rightarrow> bool"
  assumes irrelevant_skip: "\<not> relevant e \<Longrightarrow> estep s e = s"
begin

definition project :: "'e list \<Rightarrow> 's" where
  "project es = foldl estep start (sort_key ekey es)"

lemma foldl_filter: "foldl estep s (filter relevant es) = foldl estep s es"
  by (induction es arbitrary: s) (auto simp: irrelevant_skip)

lemma project_perm:
  assumes "mset es = mset es'" and "inj_on ekey (set es)"
  shows "project es = project es'"
  using sort_key_perm [OF assms] by (simp add: project_def)

lemma project_superset:
  assumes "filter relevant es = filter relevant es'"
  shows "project es = project es'"
proof -
  have "filter relevant (sort_key ekey es) = filter relevant (sort_key ekey es')"
    using assms by (simp add: filter_sort)
  then show ?thesis
    by (metis project_def foldl_filter)
qed

lemma project_invariant:
  assumes "P start" and "\<And>s e. e \<in> set es \<Longrightarrow> P s \<Longrightarrow> P (estep s e)"
  shows "P (project es)"
proof -
  have "P (foldl estep s xs)" if "P s" "set xs \<subseteq> set es" for s xs
    using that by (induction xs arbitrary: s) (auto intro: assms(2))
  then show ?thesis using assms(1) by (simp add: project_def)
qed

end

end
