(* ===== verification/CanonicalJson.thy ===== *)
theory CanonicalJson
  imports Prelude
begin

text \<open>
  Canonical JSON of \<open>src/src/core/paid-work/protocol/paid-effect-protocol.ts\<close>
  (\<open>canonicalValue\<close>, \<open>canonicalizePaidEffectJson\<close>, \<open>paidEffectJsonEquals\<close>,
  \<open>computePaidEffectInputDigest\<close>): the text every paid-effect digest and every receipt
  comparison is made of.

  A JavaScript value is a \<open>jsval\<close>. A finite number other than \<open>-0\<close> is represented by its
  \<open>Number::toString\<close> text, which determines it; \<open>NaN\<close> and the infinities are \<open>JNonFinite\<close>.
  A plain object is its list of own enumerable entries in insertion order; any object whose
  \<open>Object.prototype.toString\<close> tag is not \<open>[object Object]\<close> is \<open>JExotic\<close> with that tag.
  Strings are lists of code units below 256.
\<close>

section \<open>JavaScript values\<close>

datatype jsval =
    JNull
  | JBool bool
  | JNum string
  | JNegZero
  | JNonFinite
  | JStr string
  | JUndefined
  | JBigint
  | JSymbol
  | JFunction
  | JArr "jsval list"
  | JObj "(string \<times> jsval) list"
  | JExotic string

datatype path_seg = AtIndex nat | AtKey string

text \<open>The thrown \<open>PaidEffectProtocolError\<close>s of \<open>canonicalValue\<close>, with the path they name.\<close>

datatype canon_error =
    NonFiniteNumber "path_seg list"
  | NotJson string "path_seg list"
  | UndefinedProperty string "path_seg list"

section \<open>canonicalValue\<close>

fun canonicalValue :: "path_seg list \<Rightarrow> jsval \<Rightarrow> canon_error + jsval"
  and canonicalItems :: "path_seg list \<Rightarrow> nat \<Rightarrow> jsval list \<Rightarrow> canon_error + jsval list"
  and canonicalEntries ::
    "path_seg list \<Rightarrow> (string \<times> jsval) list \<Rightarrow> (string \<times> (canon_error + jsval)) list"
where
  "canonicalValue p JNull = Inr JNull"
| "canonicalValue p (JStr s) = Inr (JStr s)"
| "canonicalValue p (JBool b) = Inr (JBool b)"
| "canonicalValue p JNonFinite = Inl (NonFiniteNumber p)"
| "canonicalValue p JNegZero = Inr (JNum ''0'')"
| "canonicalValue p (JNum t) = Inr (JNum t)"
| "canonicalValue p JBigint = Inl (NotJson ''bigint'' p)"
| "canonicalValue p JSymbol = Inl (NotJson ''symbol'' p)"
| "canonicalValue p JFunction = Inl (NotJson ''function'' p)"
| "canonicalValue p JUndefined = Inl (NotJson ''undefined'' p)"
| "canonicalValue p (JArr xs) =
     bind_result (canonicalItems p 0 xs) (\<lambda>ys. Inr (JArr ys))"
| "canonicalValue p (JExotic tag) = Inl (NotJson tag p)"
| "canonicalValue p (JObj es) =
     bind_result
       (sequence_results
         (map (\<lambda>(k, r). bind_result r (\<lambda>v. Inr (k, v))) (sort_key fst (canonicalEntries p es))))
       (\<lambda>entries. Inr (JObj entries))"
| "canonicalItems p i [] = Inr []"
| "canonicalItems p i (x # xs) =
     bind_result (canonicalValue (p @ [AtIndex i]) x) (\<lambda>y.
     bind_result (canonicalItems p (Suc i) xs) (\<lambda>ys. Inr (y # ys)))"
| "canonicalEntries p [] = []"
| "canonicalEntries p ((k, v) # es) =
     (k, if v = JUndefined then Inl (UndefinedProperty k p)
         else canonicalValue (p @ [AtKey k]) v) # canonicalEntries p es"

section \<open>JSON.stringify\<close>

text \<open>
  \<open>JSON.stringify\<close> of the standard library, on the values \<open>canonicalValue\<close> can return:
  string quoting, and own-property order (array indices ascending, then insertion order).
\<close>

definition hex_digit :: "nat \<Rightarrow> char" where
  "hex_digit n = (if n < 10 then char_of (48 + n) else char_of (87 + n))"

definition quote_char :: "char \<Rightarrow> string" where
  "quote_char c =
     (if c = CHR 0x22 then [CHR 0x5C, CHR 0x22]
      else if c = CHR 0x5C then [CHR 0x5C, CHR 0x5C]
      else if c = CHR 0x08 then [CHR 0x5C, CHR ''b'']
      else if c = CHR 0x0C then [CHR 0x5C, CHR ''f'']
      else if c = CHR 0x0A then [CHR 0x5C, CHR ''n'']
      else if c = CHR 0x0D then [CHR 0x5C, CHR ''r'']
      else if c = CHR 0x09 then [CHR 0x5C, CHR ''t'']
      else if of_char c < (32::nat) then
        [CHR 0x5C, CHR ''u'', CHR ''0'', CHR ''0'',
         hex_digit (of_char c div 16), hex_digit (of_char c mod 16)]
      else [c])"

definition json_quote :: "string \<Rightarrow> string" where
  "json_quote s = CHR 0x22 # concat (map quote_char s) @ [CHR 0x22]"

fun join_comma :: "string list \<Rightarrow> string" where
  "join_comma [] = []"
| "join_comma [x] = x"
| "join_comma (x # xs) = x @ CHR '','' # join_comma xs"

definition decimal_digit :: "char \<Rightarrow> bool" where
  "decimal_digit c \<longleftrightarrow> 48 \<le> (of_char c :: nat) \<and> (of_char c :: nat) \<le> 57"

definition canonical_decimal :: "string \<Rightarrow> bool" where
  "canonical_decimal s \<longleftrightarrow> s = ''0'' \<or>
     (s \<noteq> [] \<and> hd s \<noteq> CHR ''0'' \<and> list_all decimal_digit s)"

definition decimal_value :: "string \<Rightarrow> nat" where
  "decimal_value s = foldl (\<lambda>n c. 10 * n + (of_char c - 48)) 0 s"

definition array_index_key :: "string \<Rightarrow> bool" where
  "array_index_key k \<longleftrightarrow> canonical_decimal k \<and> decimal_value k < 4294967295"

definition own_property_order :: "(string \<times> 'a) list \<Rightarrow> (string \<times> 'a) list" where
  "own_property_order es =
     sort_key (decimal_value \<circ> fst) (filter (array_index_key \<circ> fst) es) @
     filter (Not \<circ> array_index_key \<circ> fst) es"

fun json_stringify :: "jsval \<Rightarrow> string"
  and stringify_items :: "jsval list \<Rightarrow> string list"
  and stringify_entries :: "(string \<times> jsval) list \<Rightarrow> (string \<times> string) list"
where
  "json_stringify JNull = ''null''"
| "json_stringify (JBool b) = (if b then ''true'' else ''false'')"
| "json_stringify (JNum t) = t"
| "json_stringify JNegZero = ''0''"
| "json_stringify JNonFinite = ''null''"
| "json_stringify (JStr s) = json_quote s"
| "json_stringify (JArr xs) = CHR ''['' # join_comma (stringify_items xs) @ '']''"
| "json_stringify (JObj es) =
     CHR ''{'' # join_comma (map snd (own_property_order (stringify_entries es))) @ ''}''"
| "json_stringify _ = []"
| "stringify_items [] = []"
| "stringify_items (x # xs) = json_stringify x # stringify_items xs"
| "stringify_entries [] = []"
| "stringify_entries ((k, v) # es) =
     (k, json_quote k @ CHR '':'' # json_stringify v) # stringify_entries es"

section \<open>The exported functions\<close>

definition canonicalizePaidEffectJson :: "jsval \<Rightarrow> canon_error + string" where
  "canonicalizePaidEffectJson v =
     bind_result (canonicalValue [] v) (\<lambda>c. Inr (json_stringify c))"

definition paidEffectJsonEquals :: "jsval \<Rightarrow> jsval \<Rightarrow> bool" where
  "paidEffectJsonEquals a b =
     (case (canonicalizePaidEffectJson a, canonicalizePaidEffectJson b) of
        (Inr s, Inr t) \<Rightarrow> s = t
      | _ \<Rightarrow> False)"

text \<open>\<open>h\<close> is \<open>createHash('sha256') .. digest('hex')\<close> of Node's crypto module.\<close>

definition computePaidEffectInputDigest :: "(string \<Rightarrow> string) \<Rightarrow> jsval \<Rightarrow> canon_error + string" where
  "computePaidEffectInputDigest h v =
     bind_result (canonicalizePaidEffectJson v) (\<lambda>s. Inr (''sha256:'' @ h s))"

end
