(* ===== verification/PaidEffectProtocol.thy ===== *)
theory PaidEffectProtocol
  imports CanonicalJson
begin

text \<open>
  The shared paid-effect protocol, \<open>src/src/core/paid-work/protocol/paid-effect-protocol.ts\<close>:
  states, effect identity, entity gate, delivery and control vocabulary, the pure control
  admission and the switch gate. No database here; the store is \<open>PaidEffectStore\<close>.
\<close>

section \<open>States and backends\<close>

datatype PaidEffectBackend = PgBoss | Dbos

datatype PaidEffectState =
    Pending | Sending | Unknown | ReceiptReady | Applied | Voided | Cancelled

instantiation PaidEffectState :: linorder
begin

fun state_rank :: "PaidEffectState \<Rightarrow> nat" where
  "state_rank Pending = 0"
| "state_rank Sending = 1"
| "state_rank Unknown = 2"
| "state_rank ReceiptReady = 3"
| "state_rank Applied = 4"
| "state_rank Voided = 5"
| "state_rank Cancelled = 6"

definition less_eq_PaidEffectState :: "PaidEffectState \<Rightarrow> PaidEffectState \<Rightarrow> bool" where
  "less_eq_PaidEffectState s t \<longleftrightarrow> state_rank s \<le> state_rank t"

definition less_PaidEffectState :: "PaidEffectState \<Rightarrow> PaidEffectState \<Rightarrow> bool" where
  "less_PaidEffectState s t \<longleftrightarrow> state_rank s < state_rank t"

instance
proof
  fix s t u :: PaidEffectState
  show "s < t \<longleftrightarrow> s \<le> t \<and> \<not> t \<le> s"
    by (auto simp: less_eq_PaidEffectState_def less_PaidEffectState_def)
  show "s \<le> s" by (simp add: less_eq_PaidEffectState_def)
  show "s \<le> t \<Longrightarrow> t \<le> u \<Longrightarrow> s \<le> u" by (simp add: less_eq_PaidEffectState_def)
  show "s \<le> t \<Longrightarrow> t \<le> s \<Longrightarrow> s = t"
    by (cases s; cases t) (simp_all add: less_eq_PaidEffectState_def)
  show "s \<le> t \<or> t \<le> s" by (auto simp: less_eq_PaidEffectState_def)
qed

end

definition PAID_EFFECT_AUTHORIZATION_OPEN_STATES :: "PaidEffectState list" where
  "PAID_EFFECT_AUTHORIZATION_OPEN_STATES = [Pending, Sending, Unknown, ReceiptReady]"

definition DEFAULT_PAID_EFFECT_BACKEND :: PaidEffectBackend where
  "DEFAULT_PAID_EFFECT_BACKEND = PgBoss"

definition DEFAULT_PAID_EFFECT_GENERATION :: int where
  "DEFAULT_PAID_EFFECT_GENERATION = 0"

definition PAID_EFFECT_DIGEST_PREFIX :: string where
  "PAID_EFFECT_DIGEST_PREFIX = ''sha256:''"

definition PAID_EFFECT_OBLIGATION_STATES :: "PaidEffectState list" where
  "PAID_EFFECT_OBLIGATION_STATES = [Pending, Sending, Unknown, ReceiptReady]"

definition PAID_EFFECT_SWITCH_BLOCKING_STATES :: "PaidEffectState list" where
  "PAID_EFFECT_SWITCH_BLOCKING_STATES = [Pending, Sending, Unknown, ReceiptReady]"

definition PAID_EFFECT_ENTITY_GATE_STATES :: "PaidEffectState list" where
  "PAID_EFFECT_ENTITY_GATE_STATES = [Sending, Unknown]"

section \<open>Effect identity\<close>

record PaidEffectIdentity =
  pe_family :: string
  pe_entityId :: string
  pe_entityRevision :: string
  pe_unit :: string
  pe_inputDigest :: string

record PaidEffectInput =
  in_family :: string
  in_entityId :: string
  in_entityRevision :: string
  in_unit :: string
  in_input :: jsval

definition hex_char :: "char \<Rightarrow> bool" where
  "hex_char c \<longleftrightarrow> decimal_digit c \<or> (97 \<le> (of_char c :: nat) \<and> (of_char c :: nat) \<le> 102)"

text \<open>The pattern \<open>^sha256:[0-9a-f]{64}$\<close>.\<close>

definition digest_text :: "string \<Rightarrow> bool" where
  "digest_text d \<longleftrightarrow>
     take 7 d = PAID_EFFECT_DIGEST_PREFIX \<and> length d = 71 \<and> list_all hex_char (drop 7 d)"

definition paidEffectIdentitySchema :: "PaidEffectIdentity \<Rightarrow> bool" where
  "paidEffectIdentitySchema i \<longleftrightarrow>
     pe_family i \<noteq> [] \<and> pe_entityId i \<noteq> [] \<and> pe_entityRevision i \<noteq> [] \<and> pe_unit i \<noteq> [] \<and>
     digest_text (pe_inputDigest i)"

section \<open>The entity gate\<close>

text \<open>The pattern \<open>^feature/rep:(0|[1-9][0-9]*)$\<close>.\<close>

definition parallelRepUnit :: "string \<Rightarrow> bool" where
  "parallelRepUnit u \<longleftrightarrow> take 12 u = ''feature/rep:'' \<and> canonical_decimal (drop 12 u)"

definition paidEffectGateBlocks :: "PaidEffectIdentity \<Rightarrow> PaidEffectIdentity \<Rightarrow> bool" where
  "paidEffectGateBlocks blocker claim \<longleftrightarrow>
     \<not> (pe_family blocker = ''item_prior_backfill'' \<and>
        pe_family claim = ''item_prior_backfill'' \<and>
        parallelRepUnit (pe_unit blocker) \<and>
        parallelRepUnit (pe_unit claim) \<and>
        pe_entityRevision blocker = pe_entityRevision claim \<and>
        pe_unit blocker \<noteq> pe_unit claim)"

definition paidEffectGateLockKey :: "PaidEffectIdentity \<Rightarrow> string" where
  "paidEffectGateLockKey i = ''paid-effect:gate:v1:'' @ pe_family i @ '':'' @ pe_entityId i"

definition paidEffectControlLockKey :: "string \<Rightarrow> string" where
  "paidEffectControlLockKey fam = ''paid-effect:control:v1:'' @ fam"

section \<open>Deliveries, control and authorisations\<close>

record PaidEffectDeliveryRef =
  ref_backend :: PaidEffectBackend
  ref_deliveryId :: string
  ref_tickId :: "string option"
  ref_generation :: "int option"

definition paidEffectDispatchRefSchema :: "PaidEffectDeliveryRef \<Rightarrow> bool" where
  "paidEffectDispatchRefSchema r \<longleftrightarrow>
     ref_deliveryId r \<noteq> [] \<and> ref_tickId r \<noteq> Some [] \<and>
     (case ref_generation r of None \<Rightarrow> False | Some g \<Rightarrow> 0 \<le> g \<and> g \<le> 9007199254740991)"

record PaidEffectControlSnapshot =
  ctl_family :: string
  ctl_backend :: PaidEffectBackend
  ctl_generation :: int
  ctl_explicit :: bool

datatype fence_reason = BackendMismatch | StaleGeneration | MissingGeneration

datatype PaidEffectControlAdmission =
    Admitted PaidEffectControlSnapshot
  | Fenced fence_reason PaidEffectBackend int

record PaidEffectSuccessorDelivery =
  sd_backend :: PaidEffectBackend
  sd_deliveryId :: string

record PaidEffectVoidAuthorization =
  va_authorizationId :: string
  va_reason :: string
  va_operator :: string
  va_basis :: string
  va_successorInput :: PaidEffectInput
  va_successorDelivery :: PaidEffectSuccessorDelivery

text \<open>\<open>voidedFromState\<close> and \<open>cancelledFromState\<close> are literal types with one value each.\<close>

record PaidEffectVoidReceipt =
  vr_authorizationId :: string
  vr_reason :: string
  vr_operator :: string
  vr_basis :: string
  vr_previousFence :: int
  vr_successor :: PaidEffectIdentity
  vr_successorDelivery :: PaidEffectSuccessorDelivery

record PaidEffectCancelRequest =
  cq_requestId :: string
  cq_reason :: string
  cq_operator :: string
  cq_basis :: string

record PaidEffectCancelReceipt =
  cr_requestId :: string
  cr_reason :: string
  cr_operator :: string
  cr_basis :: string
  cr_previousFence :: int
  cr_identity :: PaidEffectIdentity
  cr_cancelledAt :: int

record switch_blocking =
  blk_pending :: nat
  blk_sending :: nat
  blk_unknown :: nat
  blk_receipt_ready :: nat

section \<open>Errors\<close>

text \<open>
  The error classes of the protocol, and the constraint violations with which PostgreSQL
  aborts a transaction (the constraint's name is the argument). \<open>ZodError\<close> is a failed schema parse.
\<close>

datatype pe_error =
    PaidEffectProtocolError string
  | PaidEffectCanonicalError canon_error
  | PaidEffectIdentityConflictError PaidEffectIdentity
  | PaidEffectReceiptConflictError PaidEffectIdentity
  | PaidEffectApplicationConflictError PaidEffectIdentity
  | PaidEffectDeliveryConflictError string
  | PaidEffectAuthorizationError string
  | PaidEffectCancellationError string
  | PaidEffectControlFencedError string fence_reason PaidEffectBackend
  | PaidEffectSwitchBlockedError string switch_blocking
  | PaidEffectSwitchUnsupportedError string
  | CheckViolation string
  | UniqueViolation string
  | NotNullViolation string
  | ForeignKeyViolation string
  | ZodError string
  | NumericOutOfRange

definition PAID_EFFECT_SWITCH_UNSUPPORTED_FAMILIES :: "string list" where
  "PAID_EFFECT_SWITCH_UNSUPPORTED_FAMILIES = [''item_prior_backfill'', ''judge_calibration_sample'']"

section \<open>Computing an identity\<close>

definition requireIdentityString :: "string \<Rightarrow> string \<Rightarrow> pe_error + string" where
  "requireIdentityString value field =
     (if value = [] then Inl (PaidEffectProtocolError (''paid-effect '' @ field @ '' must be a non-empty string''))
      else Inr value)"

definition computePaidEffectIdentity ::
  "(string \<Rightarrow> string) \<Rightarrow> PaidEffectInput \<Rightarrow> pe_error + PaidEffectIdentity" where
  "computePaidEffectIdentity h input =
     bind_result (requireIdentityString (in_family input) ''family'') (\<lambda>fam.
     bind_result (requireIdentityString (in_entityId input) ''entityId'') (\<lambda>ent.
     bind_result (requireIdentityString (in_entityRevision input) ''entityRevision'') (\<lambda>rev.
     bind_result (requireIdentityString (in_unit input) ''unit'') (\<lambda>un.
     case computePaidEffectInputDigest h (in_input input) of
       Inl e \<Rightarrow> Inl (PaidEffectCanonicalError e)
     | Inr d \<Rightarrow>
         Inr \<lparr>pe_family = fam, pe_entityId = ent, pe_entityRevision = rev, pe_unit = un,
              pe_inputDigest = d\<rparr>))))"

section \<open>Control admission and the switch gate\<close>

definition decidePaidEffectControlAdmission ::
  "PaidEffectControlSnapshot \<Rightarrow> PaidEffectDeliveryRef \<Rightarrow> PaidEffectControlAdmission" where
  "decidePaidEffectControlAdmission control ref =
     (let fenced = (\<lambda>reason. Fenced reason (ctl_backend control) (ctl_generation control));
          bootstrap = (ctl_backend control = DEFAULT_PAID_EFFECT_BACKEND \<and>
                       ctl_generation control = DEFAULT_PAID_EFFECT_GENERATION)
      in if ref_backend ref \<noteq> ctl_backend control then fenced BackendMismatch
         else if \<not> bootstrap \<and> ref_generation ref = None then fenced MissingGeneration
         else case ref_generation ref of
                Some g \<Rightarrow> if g \<noteq> ctl_generation control then fenced StaleGeneration
                          else Admitted control
              | None \<Rightarrow> Admitted control)"

definition summarizePaidEffectSwitchBlocking ::
  "(PaidEffectState \<Rightarrow> nat option) \<Rightarrow> bool \<times> switch_blocking" where
  "summarizePaidEffectSwitchBlocking countsByState =
     (let count = (\<lambda>s. case countsByState s of None \<Rightarrow> 0 | Some n \<Rightarrow> n);
          p = count Pending; s = count Sending; u = count Unknown; r = count ReceiptReady
      in (0 < p + s + u + r,
          \<lparr>blk_pending = p, blk_sending = s, blk_unknown = u, blk_receipt_ready = r\<rparr>))"

section \<open>The reserve discrimination\<close>

datatype PaidEffectReservation =
    Winner int
  | Held PaidEffectState "PaidEffectIdentity option"
  | Completed PaidEffectState "jsval option" "jsval option" bool

section \<open>Facts about the pure decisions\<close>

lemma admission_Admitted_iff:
  "(\<exists>c. decidePaidEffectControlAdmission control ref = Admitted c) \<longleftrightarrow>
     ref_backend ref = ctl_backend control \<and>
     (ref_generation ref = Some (ctl_generation control) \<or>
      (ref_generation ref = None \<and> ctl_backend control = PgBoss \<and> ctl_generation control = 0))"
  by (auto simp: decidePaidEffectControlAdmission_def Let_def DEFAULT_PAID_EFFECT_BACKEND_def
        DEFAULT_PAID_EFFECT_GENERATION_def split: option.splits if_splits)

lemma admission_Admitted_same:
  "decidePaidEffectControlAdmission control ref = Admitted c \<Longrightarrow> c = control"
  by (auto simp: decidePaidEffectControlAdmission_def Let_def split: option.splits if_splits)

lemma gateBlocks_sym: "paidEffectGateBlocks a b \<longleftrightarrow> paidEffectGateBlocks b a"
  by (auto simp: paidEffectGateBlocks_def)

lemma computePaidEffectIdentity_Inr:
  "computePaidEffectIdentity h input = Inr i \<Longrightarrow>
     pe_family i = in_family input \<and> pe_entityId i = in_entityId input \<and>
     pe_entityRevision i = in_entityRevision input \<and> pe_unit i = in_unit input \<and>
     in_family input \<noteq> [] \<and> in_entityId input \<noteq> [] \<and> in_entityRevision input \<noteq> [] \<and>
     in_unit input \<noteq> [] \<and>
     computePaidEffectInputDigest h (in_input input) = Inr (pe_inputDigest i)"
  by (auto simp: computePaidEffectIdentity_def requireIdentityString_def bind_result_Inr_iff
        split: if_splits sum.splits)

end
