(* ===== verification/PaidEffectStore.thy ===== *)
theory PaidEffectStore
  imports PaidEffectProtocol
begin

text \<open>
  The transactional store of paid effects: \<open>src/src/core/paid-work/server/paid-effect-store.ts\<close>,
  \<open>paid-effect-control.ts\<close> and \<open>paid-effect-backend-switch.ts\<close>, over the tables of
  \<open>src/src/db/schema/paid-effects.ts\<close>.

  An operation takes the database and returns either the error that aborts the caller's
  transaction or the new database with the operation's value. Every operation that reads before it
  writes first takes the family's advisory lock, so two operations on one family never interleave:
  an operation is one atomic step; lease recovery is a single \<open>UPDATE\<close>. The tables are lists of rows in physical order; a \<open>SELECT .. LIMIT 1\<close>
  without \<open>ORDER BY\<close> reads the first match. An \<open>UPDATE\<close> or \<open>INSERT\<close> evaluates the
  table's constraints and aborts when one fails. Wall-clock time is the parameter \<open>now\<close>.
\<close>

section \<open>Tables\<close>

record effect_row =
  r_identity :: PaidEffectIdentity
  r_input_json :: jsval
  r_state :: PaidEffectState
  r_fence :: int
  r_delivery_id :: "string option"
  r_delivery_backend :: "PaidEffectBackend option"
  r_delivery_tick :: "string option"
  r_send_lease_expires_at :: "int option"
  r_result_json :: "jsval option"
  r_result_recorded_at :: "int option"
  r_application_json :: "jsval option"
  r_applied_at :: "int option"
  r_application_attempts :: int
  r_last_application_error :: "string option"
  r_unresolved_reason :: "string option"
  r_voided_at :: "int option"
  r_void_json :: "PaidEffectVoidReceipt option"
  r_cancelled_at :: "int option"
  r_cancel_json :: "PaidEffectCancelReceipt option"
  r_created_at :: int
  r_updated_at :: int

record authorization_row =
  au_family :: string
  au_entity_id :: string
  au_entity_revision :: string
  au_unit :: string
  au_input_digest :: string
  au_authorization_id :: string
  au_successor_entity_revision :: string
  au_successor_unit :: string
  au_successor_input_digest :: string
  au_successor_delivery_backend :: PaidEffectBackend
  au_successor_delivery_id :: string
  au_reason :: string
  au_operator :: string
  au_basis :: string
  au_consumed_delivery_id :: "string option"
  au_consumed_at :: "int option"

record cancellation_row =
  ca_identity :: PaidEffectIdentity
  ca_request_id :: string
  ca_reason :: string
  ca_operator :: string
  ca_basis :: string
  ca_previous_fence :: int

record control_row =
  cw_family :: string
  cw_backend :: PaidEffectBackend
  cw_generation :: int

text \<open>
  The scheduler and event tables that only \<open>evaluatePaidEffectCancelEligibility\<close> reads;
  \<open>pgboss_job\<close> is \<open>None\<close> when the table does not exist.
\<close>

record boss_job =
  job_id :: string
  job_name :: string
  job_state :: string
  job_data_text :: string

record event_row =
  ev_id :: string
  ev_dispatch_seq :: int
  ev_action :: string
  ev_subject_id :: string
  ev_payload_text :: string

record subscription_delivery =
  sub_subscriber_id :: string
  sub_subscriber_version :: int
  sub_source_event_id :: string
  sub_source_dispatch_seq :: int
  sub_status :: string

record store =
  effects :: "effect_row list"
  authorizations :: "authorization_row list"
  cancellations :: "cancellation_row list"
  controls :: "control_row list"
  pgboss_job :: "boss_job list option"
  event_table :: "event_row list"
  subscription_deliveries :: "subscription_delivery list"

section \<open>Constraints\<close>

text \<open>The shape constraint \<open>paid_effect_state_shape_ck\<close>.\<close>

definition paid_effect_state_shape_ck :: "effect_row \<Rightarrow> bool" where
  "paid_effect_state_shape_ck r \<longleftrightarrow>
     (case r_state r of
        Pending \<Rightarrow>
          r_delivery_id r = None \<and> r_delivery_backend r = None \<and>
          r_send_lease_expires_at r = None \<and> r_result_json r = None \<and> r_applied_at r = None
      | Sending \<Rightarrow>
          r_delivery_id r \<noteq> None \<and> r_delivery_backend r \<noteq> None \<and>
          r_send_lease_expires_at r \<noteq> None \<and> r_result_json r = None \<and> r_applied_at r = None
      | Unknown \<Rightarrow>
          r_delivery_id r \<noteq> None \<and> r_delivery_backend r \<noteq> None \<and>
          r_send_lease_expires_at r = None \<and> r_result_json r = None \<and> r_applied_at r = None \<and>
          r_unresolved_reason r \<noteq> None
      | ReceiptReady \<Rightarrow>
          r_result_json r \<noteq> None \<and> r_result_recorded_at r \<noteq> None \<and>
          r_send_lease_expires_at r = None \<and> r_applied_at r = None
      | Applied \<Rightarrow>
          r_result_json r \<noteq> None \<and> r_applied_at r \<noteq> None \<and> r_application_json r \<noteq> None \<and>
          r_send_lease_expires_at r = None
      | Voided \<Rightarrow>
          r_delivery_id r \<noteq> None \<and> r_delivery_backend r \<noteq> None \<and> r_unresolved_reason r \<noteq> None \<and>
          r_send_lease_expires_at r = None \<and> r_result_json r = None \<and> r_applied_at r = None \<and>
          r_voided_at r \<noteq> None \<and> r_void_json r \<noteq> None
      | Cancelled \<Rightarrow>
          r_delivery_id r = None \<and> r_delivery_backend r = None \<and> r_delivery_tick r = None \<and>
          r_send_lease_expires_at r = None \<and> r_result_json r = None \<and>
          r_result_recorded_at r = None \<and> r_application_json r = None \<and> r_applied_at r = None \<and>
          r_unresolved_reason r = None \<and> r_voided_at r = None \<and> r_void_json r = None \<and>
          r_cancelled_at r \<noteq> None \<and> r_cancel_json r \<noteq> None)"

definition paid_effect_checks :: "effect_row \<Rightarrow> bool" where
  "paid_effect_checks r \<longleftrightarrow>
     digest_text (pe_inputDigest (r_identity r)) \<and>
     0 \<le> r_fence r \<and>
     pe_entityId (r_identity r) \<noteq> [] \<and> pe_entityRevision (r_identity r) \<noteq> [] \<and>
     pe_unit (r_identity r) \<noteq> [] \<and>
     paid_effect_state_shape_ck r \<and>
     0 \<le> r_application_attempts r"

definition authorization_checks :: "authorization_row \<Rightarrow> bool" where
  "authorization_checks a \<longleftrightarrow>
     digest_text (au_input_digest a) \<and> digest_text (au_successor_input_digest a) \<and>
     au_entity_id a \<noteq> [] \<and> au_entity_revision a \<noteq> [] \<and> au_unit a \<noteq> [] \<and>
     au_authorization_id a \<noteq> [] \<and> au_successor_entity_revision a \<noteq> [] \<and>
     au_successor_unit a \<noteq> [] \<and> au_successor_delivery_id a \<noteq> [] \<and>
     au_reason a \<noteq> [] \<and> au_operator a \<noteq> [] \<and> au_basis a \<noteq> []"

definition cancellation_checks :: "cancellation_row \<Rightarrow> bool" where
  "cancellation_checks c \<longleftrightarrow>
     digest_text (pe_inputDigest (ca_identity c)) \<and>
     pe_entityId (ca_identity c) \<noteq> [] \<and> pe_entityRevision (ca_identity c) \<noteq> [] \<and>
     pe_unit (ca_identity c) \<noteq> [] \<and> ca_request_id c \<noteq> [] \<and> ca_reason c \<noteq> [] \<and>
     ca_operator c \<noteq> [] \<and> ca_basis c \<noteq> [] \<and> ca_previous_fence c = 0"

text \<open>A \<open>jsonb\<close> parameter: the value \<open>null\<close> becomes SQL \<open>NULL\<close>, and reads back as \<open>null\<close>.\<close>

definition jsonb_param :: "jsval \<Rightarrow> jsval option" where
  "jsonb_param v = (if v = JNull then None else Some v)"

definition jsonb_read :: "jsval option \<Rightarrow> jsval" where
  "jsonb_read c = (case c of None \<Rightarrow> JNull | Some v \<Rightarrow> v)"

definition int4_ok :: "int \<Rightarrow> bool" where
  "int4_ok n \<longleftrightarrow> - 2147483648 \<le> n \<and> n \<le> 2147483647"

section \<open>Statements\<close>

definition effect_by :: "PaidEffectIdentity \<Rightarrow> store \<Rightarrow> effect_row option" where
  "effect_by i st = row_by r_identity i (effects st)"

definition update_effects ::
  "(effect_row \<Rightarrow> bool) \<Rightarrow> (effect_row \<Rightarrow> effect_row) \<Rightarrow> store \<Rightarrow> pe_error + store \<times> nat" where
  "update_effects p f st =
     (let hit = filter p (effects st)
      in if list_all (\<lambda>r. paid_effect_checks (f r)) hit
         then Inr (st\<lparr>effects := update_where p f (effects st)\<rparr>, length hit)
         else Inl (CheckViolation ''paid_effect''))"

definition fresh_effect :: "PaidEffectIdentity \<Rightarrow> jsval \<Rightarrow> int \<Rightarrow> effect_row" where
  "fresh_effect i input now =
     \<lparr>r_identity = i, r_input_json = input, r_state = Pending, r_fence = 0,
      r_delivery_id = None, r_delivery_backend = None, r_delivery_tick = None,
      r_send_lease_expires_at = None, r_result_json = None, r_result_recorded_at = None,
      r_application_json = None, r_applied_at = None, r_application_attempts = 0,
      r_last_application_error = None, r_unresolved_reason = None, r_voided_at = None,
      r_void_json = None, r_cancelled_at = None, r_cancel_json = None,
      r_created_at = now, r_updated_at = now\<rparr>"

definition auth_key :: "authorization_row \<Rightarrow> PaidEffectIdentity" where
  "auth_key a = \<lparr>pe_family = au_family a, pe_entityId = au_entity_id a,
     pe_entityRevision = au_entity_revision a, pe_unit = au_unit a,
     pe_inputDigest = au_input_digest a\<rparr>"

definition insert_authorization :: "authorization_row \<Rightarrow> store \<Rightarrow> pe_error + store" where
  "insert_authorization a st =
     (if \<not> authorization_checks a then Inl (CheckViolation ''paid_effect_authorization'')
      else if row_by auth_key (auth_key a) (authorizations st) \<noteq> None
      then Inl (UniqueViolation ''paid_effect_authorization_pk'')
      else if effect_by (auth_key a) st = None
      then Inl (ForeignKeyViolation ''paid_effect_authorization_old_effect_fk'')
      else Inr (st\<lparr>authorizations := authorizations st @ [a]\<rparr>))"

definition insert_cancellation :: "cancellation_row \<Rightarrow> store \<Rightarrow> pe_error + store" where
  "insert_cancellation c st =
     (if \<not> cancellation_checks c then Inl (CheckViolation ''paid_effect_cancellation'')
      else if row_by ca_identity (ca_identity c) (cancellations st) \<noteq> None
      then Inl (UniqueViolation ''paid_effect_cancellation_pk'')
      else if effect_by (ca_identity c) st = None
      then Inl (ForeignKeyViolation ''paid_effect_cancellation_old_effect_fk'')
      else Inr (st\<lparr>cancellations := cancellations st @ [c]\<rparr>))"

text \<open>The row lock of \<open>SELECT .. FOR UPDATE\<close>: the current row of the identity.\<close>

definition lockRow :: "store \<Rightarrow> PaidEffectIdentity \<Rightarrow> effect_row option" where
  "lockRow st i = effect_by i st"

section \<open>Backend control\<close>

definition defaultControl :: "string \<Rightarrow> PaidEffectControlSnapshot" where
  "defaultControl fam =
     \<lparr>ctl_family = fam, ctl_backend = DEFAULT_PAID_EFFECT_BACKEND,
      ctl_generation = DEFAULT_PAID_EFFECT_GENERATION, ctl_explicit = False\<rparr>"

definition rowToControl :: "string \<Rightarrow> control_row \<Rightarrow> PaidEffectControlSnapshot" where
  "rowToControl fam row =
     \<lparr>ctl_family = fam, ctl_backend = cw_backend row, ctl_generation = cw_generation row,
      ctl_explicit = True\<rparr>"

definition readPaidEffectControl :: "store \<Rightarrow> string \<Rightarrow> PaidEffectControlSnapshot" where
  "readPaidEffectControl st fam =
     (case row_by cw_family fam (controls st) of
        Some row \<Rightarrow> rowToControl fam row
      | None \<Rightarrow> defaultControl fam)"

definition admitPaidEffectDeliveryControl ::
  "store \<Rightarrow> string \<Rightarrow> PaidEffectDeliveryRef \<Rightarrow> PaidEffectControlAdmission" where
  "admitPaidEffectDeliveryControl st fam ref =
     decidePaidEffectControlAdmission (readPaidEffectControl st fam) ref"

section \<open>Admitting an intent\<close>

datatype PaidEffectIntentAdmission = AdmittedIntent | ExistingIntent PaidEffectState

text \<open>
  \<open>parsedInput\<close> is \<open>JSON.parse\<close> of the canonical text, that is the canonical value itself. A
  \<open>null\<close> input violates the \<open>NOT NULL\<close> of \<open>input_json\<close>.
\<close>

definition insert_effect_on_conflict_do_nothing ::
  "PaidEffectIdentity \<Rightarrow> jsval \<Rightarrow> int \<Rightarrow> store \<Rightarrow> pe_error + store \<times> bool" where
  "insert_effect_on_conflict_do_nothing i input now st =
     (if jsonb_param input = None then Inl (NotNullViolation ''input_json'')
      else if \<not> paid_effect_checks (fresh_effect i input now) then Inl (CheckViolation ''paid_effect'')
      else if effect_by i st \<noteq> None then Inr (st, False)
      else Inr (st\<lparr>effects := effects st @ [fresh_effect i input now]\<rparr>, True))"

definition admitPaidEffectIntent ::
  "(string \<Rightarrow> string) \<Rightarrow> int \<Rightarrow> PaidEffectInput \<Rightarrow> store \<Rightarrow>
     pe_error + store \<times> PaidEffectIntentAdmission" where
  "admitPaidEffectIntent h now raw st =
     bind_result (computePaidEffectIdentity h raw) (\<lambda>i.
     case canonicalValue [] (in_input raw) of
       Inl e \<Rightarrow> Inl (PaidEffectCanonicalError e)
     | Inr parsedInput \<Rightarrow>
         bind_result (insert_effect_on_conflict_do_nothing i parsedInput now st) (\<lambda>(st', inserted).
         if inserted then Inr (st', AdmittedIntent)
         else case lockRow st' i of
                None \<Rightarrow> Inl (PaidEffectProtocolError ''paid-effect intent admission did not persist'')
              | Some row \<Rightarrow>
                  if \<not> paidEffectJsonEquals (r_input_json row) parsedInput
                  then Inl (PaidEffectIdentityConflictError i)
                  else Inr (st', ExistingIntent (r_state row))))"

section \<open>The gate scan and the successor authorisations\<close>

record PaidEffectSendClaimDelivery =
  dl_backend :: PaidEffectBackend
  dl_deliveryId :: string
  dl_tickId :: "string option"
  dl_leaseExpiresAt :: int
  dl_generation :: "int option"

text \<open>The \<open>WHERE\<close> of the gate scan, as the SQL states it.\<close>

definition gate_scan_where :: "PaidEffectIdentity \<Rightarrow> effect_row \<Rightarrow> bool" where
  "gate_scan_where i r \<longleftrightarrow>
     pe_family (r_identity r) = pe_family i \<and>
     pe_entityId (r_identity r) = pe_entityId i \<and>
     r_state r \<in> set PAID_EFFECT_ENTITY_GATE_STATES \<and>
     (pe_entityRevision (r_identity r) \<noteq> pe_entityRevision i \<or>
      pe_unit (r_identity r) \<noteq> pe_unit i \<or>
      pe_inputDigest (r_identity r) \<noteq> pe_inputDigest i) \<and>
     \<not> (pe_family (r_identity r) = ''item_prior_backfill'' \<and>
        pe_family i = ''item_prior_backfill'' \<and>
        parallelRepUnit (pe_unit (r_identity r)) \<and>
        parallelRepUnit (pe_unit i) \<and>
        pe_entityRevision (r_identity r) = pe_entityRevision i \<and>
        pe_unit (r_identity r) \<noteq> pe_unit i)"

definition parse_identity :: "PaidEffectIdentity \<Rightarrow> pe_error + PaidEffectIdentity" where
  "parse_identity i =
     (if paidEffectIdentitySchema i then Inr i else Inl (ZodError ''paidEffectIdentitySchema''))"

definition findGateBlocker :: "store \<Rightarrow> PaidEffectIdentity \<Rightarrow> pe_error + PaidEffectIdentity option" where
  "findGateBlocker st i =
     (case find (gate_scan_where i) (effects st) of
        None \<Rightarrow> Inr None
      | Some blocker \<Rightarrow> bind_result (parse_identity (r_identity blocker)) (\<lambda>b. Inr (Some b)))"

definition successorIdentityOf :: "authorization_row \<Rightarrow> PaidEffectIdentity" where
  "successorIdentityOf a =
     \<lparr>pe_family = au_family a, pe_entityId = au_entity_id a,
      pe_entityRevision = au_successor_entity_revision a, pe_unit = au_successor_unit a,
      pe_inputDigest = au_successor_input_digest a\<rparr>"

definition voidedIdentityOf :: "authorization_row \<Rightarrow> PaidEffectIdentity" where
  "voidedIdentityOf a =
     \<lparr>pe_family = au_family a, pe_entityId = au_entity_id a,
      pe_entityRevision = au_entity_revision a, pe_unit = au_unit a,
      pe_inputDigest = au_input_digest a\<rparr>"

definition sameIdentity :: "PaidEffectIdentity \<Rightarrow> PaidEffectIdentity \<Rightarrow> bool" where
  "sameIdentity a b \<longleftrightarrow>
     pe_family a = pe_family b \<and> pe_entityId a = pe_entityId b \<and>
     pe_entityRevision a = pe_entityRevision b \<and> pe_unit a = pe_unit b \<and>
     pe_inputDigest a = pe_inputDigest b"

definition successor_open :: "store \<Rightarrow> authorization_row \<Rightarrow> bool" where
  "successor_open st a =
     (case effect_by (successorIdentityOf a) st of
        None \<Rightarrow> True
      | Some succ \<Rightarrow> r_state succ \<in> set PAID_EFFECT_AUTHORIZATION_OPEN_STATES)"

fun scan_authorizations ::
  "store \<Rightarrow> PaidEffectIdentity \<Rightarrow> PaidEffectSendClaimDelivery \<Rightarrow> authorization_row list \<Rightarrow>
     pe_error + PaidEffectIdentity option" where
  "scan_authorizations st i d [] = Inr None"
| "scan_authorizations st i d (a # as) =
     (if \<not> successor_open st a then scan_authorizations st i d as
      else if sameIdentity i (successorIdentityOf a)
      then (if dl_backend d \<noteq> au_successor_delivery_backend a \<or>
               dl_deliveryId d \<noteq> au_successor_delivery_id a
            then Inl (PaidEffectAuthorizationError ''not the authorized successor delivery'')
            else scan_authorizations st i d as)
      else Inr (Some (voidedIdentityOf a)))"

definition checkSuccessorAuthorization ::
  "store \<Rightarrow> PaidEffectIdentity \<Rightarrow> PaidEffectSendClaimDelivery \<Rightarrow> pe_error + PaidEffectIdentity option"
where
  "checkSuccessorAuthorization st i d =
     scan_authorizations st i d
       (filter (\<lambda>a. au_family a = pe_family i \<and> au_entity_id a = pe_entityId i) (authorizations st))"

definition binds_successor :: "PaidEffectIdentity \<Rightarrow> authorization_row \<Rightarrow> bool" where
  "binds_successor i a \<longleftrightarrow>
     au_family a = pe_family i \<and> au_entity_id a = pe_entityId i \<and>
     au_successor_entity_revision a = pe_entityRevision i \<and>
     au_successor_unit a = pe_unit i \<and> au_successor_input_digest a = pe_inputDigest i"

definition markAuthorizationConsumed ::
  "int \<Rightarrow> PaidEffectIdentity \<Rightarrow> PaidEffectSendClaimDelivery \<Rightarrow> store \<Rightarrow> store" where
  "markAuthorizationConsumed now i d st =
     st\<lparr>authorizations :=
          update_where (\<lambda>a. binds_successor i a \<and> au_consumed_at a = None)
            (\<lambda>a. a\<lparr>au_consumed_at := Some now, au_consumed_delivery_id := Some (dl_deliveryId d)\<rparr>)
            (authorizations st)\<rparr>"

section \<open>Claiming the send\<close>

datatype claim_outcome = ClaimFence int | ClaimBlocked PaidEffectIdentity

definition claimLockedRow ::
  "int \<Rightarrow> effect_row \<Rightarrow> PaidEffectIdentity \<Rightarrow> PaidEffectSendClaimDelivery \<Rightarrow> store \<Rightarrow>
     pe_error + store \<times> claim_outcome" where
  "claimLockedRow now row i d st =
     (case admitPaidEffectDeliveryControl st (pe_family i)
             \<lparr>ref_backend = dl_backend d, ref_deliveryId = dl_deliveryId d, ref_tickId = dl_tickId d,
              ref_generation = dl_generation d\<rparr> of
        Fenced reason owner _ \<Rightarrow> Inl (PaidEffectControlFencedError (pe_family i) reason owner)
      | Admitted _ \<Rightarrow>
          bind_result (findGateBlocker st i) (\<lambda>blockedBy.
          case blockedBy of
             Some b \<Rightarrow> Inr (st, ClaimBlocked b)
           | None \<Rightarrow>
               bind_result (checkSuccessorAuthorization st i d) (\<lambda>authBlocker.
               case authBlocker of
                 Some b \<Rightarrow> Inr (st, ClaimBlocked b)
               | None \<Rightarrow>
                   let fence = r_fence row + 1 in
                   bind_result
                     (update_effects (\<lambda>r. r_identity r = i \<and> r_state r = Pending)
                        (\<lambda>r. r\<lparr>r_state := Sending, r_fence := fence,
                               r_delivery_id := Some (dl_deliveryId d),
                               r_delivery_backend := Some (dl_backend d),
                               r_delivery_tick := dl_tickId d,
                               r_send_lease_expires_at := Some (dl_leaseExpiresAt d),
                               r_unresolved_reason := None, r_updated_at := now\<rparr>) st)
                     (\<lambda>(st', claimed).
                       if claimed \<noteq> 1
                       then Inl (PaidEffectProtocolError ''paid-effect claim CAS did not apply'')
                       else Inr (markAuthorizationConsumed now i d st', ClaimFence fence)))))"

datatype PaidEffectSendClaim =
    Claimed int
  | Missing
  | Refused PaidEffectState bool "PaidEffectIdentity option"

definition claimPaidEffectSend ::
  "int \<Rightarrow> PaidEffectIdentity \<Rightarrow> PaidEffectSendClaimDelivery \<Rightarrow> store \<Rightarrow>
     pe_error + store \<times> PaidEffectSendClaim" where
  "claimPaidEffectSend now i d st =
     (case lockRow st i of
        None \<Rightarrow> Inr (st, Missing)
      | Some row \<Rightarrow>
          if r_state row \<noteq> Pending
          then Inr (st, Refused (r_state row) (r_state row = ReceiptReady \<or> r_state row = Applied) None)
          else bind_result (claimLockedRow now row i d st) (\<lambda>(st', outcome).
               case outcome of
                 ClaimBlocked b \<Rightarrow> Inr (st', Refused Pending False (Some b))
               | ClaimFence fence \<Rightarrow> Inr (st', Claimed fence)))"

definition reservePaidEffect ::
  "(string \<Rightarrow> string) \<Rightarrow> int \<Rightarrow> PaidEffectInput \<Rightarrow> PaidEffectSendClaimDelivery \<Rightarrow> store \<Rightarrow>
     pe_error + store \<times> PaidEffectIdentity \<times> PaidEffectReservation" where
  "reservePaidEffect h now input d st =
     bind_result (computePaidEffectIdentity h input) (\<lambda>i.
     bind_result (admitPaidEffectIntent h now input st) (\<lambda>(st', _).
     case lockRow st' i of
       None \<Rightarrow> Inl (PaidEffectProtocolError ''paid-effect reservation lost its row'')
     | Some row \<Rightarrow>
         if r_state row = ReceiptReady \<or> r_state row = Applied
         then Inr (st', i, Completed (r_state row) (r_result_json row) (r_application_json row)
                             (r_state row = Applied))
         else if r_state row \<in> {Sending, Unknown, Voided, Cancelled}
         then Inr (st', i, Held (r_state row) None)
         else bind_result (claimLockedRow now row i d st') (\<lambda>(st'', outcome).
              case outcome of
                ClaimBlocked b \<Rightarrow> Inr (st'', i, Held Pending (Some b))
              | ClaimFence fence \<Rightarrow> Inr (st'', i, Winner fence))))"

section \<open>Recording the outcome\<close>

definition requireOwnerDelivery :: "effect_row \<Rightarrow> string \<Rightarrow> int \<Rightarrow> pe_error + unit" where
  "requireOwnerDelivery row deliveryId expectedFence =
     (if r_delivery_id row \<noteq> Some deliveryId
      then Inl (PaidEffectDeliveryConflictError ''delivery does not own the admitted send'')
      else if r_fence row \<noteq> expectedFence
      then Inl (PaidEffectDeliveryConflictError ''delivery fence is stale'')
      else Inr ())"

datatype record_result = Recorded | IdempotentReceipt

definition recordPaidEffectResult ::
  "int \<Rightarrow> PaidEffectIdentity \<Rightarrow> string \<Rightarrow> jsval \<Rightarrow> int \<Rightarrow> store \<Rightarrow> pe_error + store \<times> record_result"
where
  "recordPaidEffectResult now i deliveryId receipt fence st =
     (case canonicalizePaidEffectJson receipt of
        Inl e \<Rightarrow> Inl (PaidEffectCanonicalError e)
      | Inr _ \<Rightarrow>
      (case lockRow st i of
         None \<Rightarrow> Inl (PaidEffectProtocolError ''paid-effect row missing'')
       | Some row \<Rightarrow>
           if r_state row = ReceiptReady \<or> r_state row = Applied
           then bind_result (requireOwnerDelivery row deliveryId fence) (\<lambda>_.
                if paidEffectJsonEquals (jsonb_read (r_result_json row)) receipt
                then Inr (st, IdempotentReceipt)
                else Inl (PaidEffectReceiptConflictError i))
           else if r_state row = Pending
           then Inl (PaidEffectProtocolError ''cannot record a result without an admitted send'')
           else bind_result (requireOwnerDelivery row deliveryId fence) (\<lambda>_.
                bind_result
                  (update_effects (\<lambda>r. r_identity r = i \<and> r_state r \<in> {Sending, Unknown})
                     (\<lambda>r. r\<lparr>r_state := ReceiptReady, r_result_json := jsonb_param receipt,
                            r_result_recorded_at := Some now, r_send_lease_expires_at := None,
                            r_unresolved_reason := None, r_updated_at := now\<rparr>) st)
                  (\<lambda>(st', _). Inr (st', Recorded)))))"

definition markPaidEffectUnknown ::
  "int \<Rightarrow> PaidEffectIdentity \<Rightarrow> string \<Rightarrow> string \<Rightarrow> int \<Rightarrow> store \<Rightarrow> pe_error + store" where
  "markPaidEffectUnknown now i deliveryId reason fence st =
     (case lockRow st i of
        None \<Rightarrow> Inl (PaidEffectProtocolError ''paid-effect row missing'')
      | Some row \<Rightarrow>
          if r_state row = Unknown
          then bind_result (requireOwnerDelivery row deliveryId fence) (\<lambda>_. Inr st)
          else if r_state row = ReceiptReady \<or> r_state row = Applied
          then Inl (PaidEffectProtocolError ''outcome already known; refusing to mark unknown'')
          else if r_state row = Pending
          then Inl (PaidEffectProtocolError ''no send admitted; nothing to mark unknown'')
          else bind_result (requireOwnerDelivery row deliveryId fence) (\<lambda>_.
               bind_result
                 (update_effects (\<lambda>r. r_identity r = i \<and> r_state r = Sending)
                    (\<lambda>r. r\<lparr>r_state := Unknown, r_send_lease_expires_at := None,
                           r_unresolved_reason := Some reason, r_updated_at := now\<rparr>) st)
                 (\<lambda>(st', _). Inr st')))"

definition degradePaidEffectReceiptToUnknown ::
  "int \<Rightarrow> PaidEffectIdentity \<Rightarrow> int \<Rightarrow> string \<Rightarrow> store \<Rightarrow> pe_error + store \<times> bool" where
  "degradePaidEffectReceiptToUnknown now i expectedFence unresolvedReason st =
     bind_result
       (update_effects
          (\<lambda>r. r_identity r = i \<and> r_state r = ReceiptReady \<and> r_fence r = expectedFence)
          (\<lambda>r. r\<lparr>r_state := Unknown, r_result_json := None, r_result_recorded_at := None,
                 r_unresolved_reason := Some unresolvedReason, r_updated_at := now\<rparr>) st)
       (\<lambda>(st', updated). Inr (st', updated = 1))"

section \<open>Voiding an unknown obligation\<close>

datatype PaidEffectVoidOutcome =
    VoidedOutcome string PaidEffectIdentity PaidEffectIdentity int int
  | AlreadyVoided string PaidEffectIdentity PaidEffectIdentity

definition authorization_of ::
  "PaidEffectIdentity \<Rightarrow> PaidEffectIdentity \<Rightarrow> PaidEffectVoidAuthorization \<Rightarrow> authorization_row" where
  "authorization_of i successor auth =
     \<lparr>au_family = pe_family i, au_entity_id = pe_entityId i,
      au_entity_revision = pe_entityRevision i, au_unit = pe_unit i,
      au_input_digest = pe_inputDigest i,
      au_authorization_id = va_authorizationId auth,
      au_successor_entity_revision = pe_entityRevision successor,
      au_successor_unit = pe_unit successor,
      au_successor_input_digest = pe_inputDigest successor,
      au_successor_delivery_backend = sd_backend (va_successorDelivery auth),
      au_successor_delivery_id = sd_deliveryId (va_successorDelivery auth),
      au_reason = va_reason auth, au_operator = va_operator auth, au_basis = va_basis auth,
      au_consumed_delivery_id = None, au_consumed_at = None\<rparr>"

text \<open>
  The successor must be free: either this authorization already bound it and it is still
  pending, or no authorization binds it and no effect row has its identity.
\<close>

definition check_successor_free ::
  "PaidEffectIdentity \<Rightarrow> PaidEffectIdentity \<Rightarrow> PaidEffectVoidAuthorization \<Rightarrow> store \<Rightarrow>
     pe_error + authorization_row option" where
  "check_successor_free i successor auth st =
     (let succRow = effect_by successor st;
          priorBinding = find (binds_successor successor) (authorizations st)
      in case priorBinding of
           Some prior \<Rightarrow>
             let ours = (au_authorization_id prior = va_authorizationId auth \<and>
                         au_successor_delivery_backend prior = sd_backend (va_successorDelivery auth) \<and>
                         au_successor_delivery_id prior = sd_deliveryId (va_successorDelivery auth))
             in if \<not> ours \<or> map_option r_state succRow \<noteq> Some Pending
                then Inl (PaidEffectAuthorizationError ''successor already bound or no longer pending'')
                else Inr priorBinding
         | None \<Rightarrow>
             if succRow \<noteq> None
             then Inl (PaidEffectAuthorizationError ''successor identity already has an effect row'')
             else Inr None)"

definition voidPaidEffectWithSuccessor ::
  "(string \<Rightarrow> string) \<Rightarrow> int \<Rightarrow> PaidEffectIdentity \<Rightarrow> int \<Rightarrow> PaidEffectVoidAuthorization \<Rightarrow> store \<Rightarrow>
     pe_error + store \<times> PaidEffectVoidOutcome" where
  "voidPaidEffectWithSuccessor h now i expectedFence auth st =
     bind_result (computePaidEffectIdentity h (va_successorInput auth)) (\<lambda>successor.
     if pe_family successor \<noteq> pe_family i \<or> pe_entityId successor \<noteq> pe_entityId i
     then Inl (PaidEffectAuthorizationError ''successor must stay within the same family and entity'')
     else if sameIdentity successor i
     then Inl (PaidEffectAuthorizationError ''successor must be a different identity'')
     else case lockRow st i of
       None \<Rightarrow> Inl (PaidEffectProtocolError ''paid-effect row missing'')
     | Some row \<Rightarrow>
         if r_state row = Voided
         then (case r_void_json row of
                 Some existing \<Rightarrow>
                   if vr_authorizationId existing = va_authorizationId auth
                   then Inr (st, AlreadyVoided (va_authorizationId auth) i (vr_successor existing))
                   else Inl (PaidEffectAuthorizationError ''already voided under another authorization'')
               | None \<Rightarrow> Inl (PaidEffectAuthorizationError ''already voided under another authorization''))
         else if r_state row \<noteq> Unknown
         then Inl (PaidEffectProtocolError ''void requires an explicit unknown obligation'')
         else if r_fence row \<noteq> expectedFence
         then Inl (PaidEffectDeliveryConflictError ''void fence is stale'')
         else
           bind_result (check_successor_free i successor auth st) (\<lambda>priorBinding.
           bind_result (insert_authorization (authorization_of i successor auth) st) (\<lambda>st1.
           bind_result
             (if priorBinding = None
              then bind_result (admitPaidEffectIntent h now (va_successorInput auth) st1)
                     (\<lambda>(st2, admission).
                        if admission \<noteq> AdmittedIntent
                        then Inl (PaidEffectProtocolError ''successor intent was not freshly admitted'')
                        else Inr st2)
              else Inr st1)
             (\<lambda>st2.
             let receipt = \<lparr>vr_authorizationId = va_authorizationId auth, vr_reason = va_reason auth,
                     vr_operator = va_operator auth, vr_basis = va_basis auth,
                     vr_previousFence = r_fence row, vr_successor = successor,
                     vr_successorDelivery = va_successorDelivery auth\<rparr>;
                 fence = r_fence row + 1
             in bind_result
                  (update_effects
                     (\<lambda>r. r_identity r = i \<and> r_state r = Unknown \<and> r_fence r = expectedFence)
                     (\<lambda>r. r\<lparr>r_state := Voided, r_fence := fence, r_voided_at := Some now,
                            r_void_json := Some receipt, r_updated_at := now\<rparr>) st2)
                  (\<lambda>(st3, updated).
                    if updated \<noteq> 1
                    then Inl (PaidEffectDeliveryConflictError ''void CAS did not apply'')
                    else Inr (st3, VoidedOutcome (va_authorizationId auth) i successor now fence))))))"

definition readPaidEffectAuthorizations :: "store \<Rightarrow> string \<Rightarrow> string \<Rightarrow> authorization_row list" where
  "readPaidEffectAuthorizations st fam ent =
     filter (\<lambda>a. au_family a = fam \<and> au_entity_id a = ent) (authorizations st)"

section \<open>Cancelling an intent that was never sent\<close>

datatype PaidEffectCancelOutcome =
    CancelledOutcome string PaidEffectIdentity int int
  | AlreadyCancelled string PaidEffectIdentity PaidEffectCancelReceipt

definition cancel_replay_matches ::
  "PaidEffectCancelReceipt \<Rightarrow> PaidEffectCancelRequest \<Rightarrow> PaidEffectIdentity \<Rightarrow> int \<Rightarrow> bool" where
  "cancel_replay_matches existing request i expectedFence \<longleftrightarrow>
     cr_requestId existing = cq_requestId request \<and>
     cr_reason existing = cq_reason request \<and>
     cr_operator existing = cq_operator request \<and>
     cr_basis existing = cq_basis request \<and>
     cr_previousFence existing = expectedFence \<and>
     sameIdentity (cr_identity existing) i"

definition sent_evidence :: "effect_row \<Rightarrow> string list" where
  "sent_evidence r =
     (if r_delivery_id r \<noteq> None then [''delivery_id''] else []) @
     (if r_delivery_backend r \<noteq> None then [''delivery_backend''] else []) @
     (if r_delivery_tick r \<noteq> None then [''delivery_tick''] else []) @
     (if r_send_lease_expires_at r \<noteq> None then [''send_lease_expires_at''] else []) @
     (if r_result_json r \<noteq> None then [''result_json''] else []) @
     (if r_result_recorded_at r \<noteq> None then [''result_recorded_at''] else []) @
     (if r_application_json r \<noteq> None then [''application_json''] else []) @
     (if r_applied_at r \<noteq> None then [''applied_at''] else [])"

definition cancelPaidEffectUnsentIntent ::
  "int \<Rightarrow> PaidEffectIdentity \<Rightarrow> int \<Rightarrow> PaidEffectCancelRequest \<Rightarrow> store \<Rightarrow>
     pe_error + store \<times> PaidEffectCancelOutcome" where
  "cancelPaidEffectUnsentIntent now i expectedFence request st =
     (if expectedFence \<noteq> 0
      then Inl (PaidEffectCancellationError ''cancel requires the literal never-sent fence 0'')
      else case lockRow st i of
        None \<Rightarrow> Inl (PaidEffectProtocolError ''paid-effect row missing'')
      | Some row \<Rightarrow>
          if r_state row = Cancelled
          then (case r_cancel_json row of
                  Some existing \<Rightarrow>
                    if cancel_replay_matches existing request i expectedFence
                    then Inr (st, AlreadyCancelled (cq_requestId request) i existing)
                    else Inl (PaidEffectCancellationError ''already cancelled and the replay diverges'')
                | None \<Rightarrow> Inl (PaidEffectCancellationError ''already cancelled and the replay diverges''))
          else if r_state row \<noteq> Pending
          then Inl (PaidEffectProtocolError ''cancel requires a never-sent pending intent'')
          else if r_fence row \<noteq> 0
          then Inl (PaidEffectDeliveryConflictError ''cancel requires fence 0'')
          else if sent_evidence row \<noteq> []
          then Inl (PaidEffectProtocolError ''cancel found send or receipt evidence'')
          else case find (binds_successor i) (authorizations st) of
            Some binding \<Rightarrow>
              Inl (PaidEffectAuthorizationError ''bound successor; refusing to cancel an authorized send'')
          | None \<Rightarrow>
              let receipt = \<lparr>cr_requestId = cq_requestId request, cr_reason = cq_reason request,
                      cr_operator = cq_operator request, cr_basis = cq_basis request,
                      cr_previousFence = r_fence row, cr_identity = i, cr_cancelledAt = now\<rparr>;
                  fence = r_fence row + 1
              in bind_result
                   (insert_cancellation
                      \<lparr>ca_identity = i, ca_request_id = cq_requestId request,
                       ca_reason = cq_reason request, ca_operator = cq_operator request,
                       ca_basis = cq_basis request, ca_previous_fence = r_fence row\<rparr> st)
                   (\<lambda>st1.
                   bind_result
                     (update_effects
                        (\<lambda>r. r_identity r = i \<and> r_state r = Pending \<and> r_fence r = expectedFence)
                        (\<lambda>r. r\<lparr>r_state := Cancelled, r_fence := fence, r_cancelled_at := Some now,
                               r_cancel_json := Some receipt, r_updated_at := now\<rparr>) st1)
                     (\<lambda>(st2, updated).
                       if updated \<noteq> 1
                       then Inl (PaidEffectDeliveryConflictError ''cancel CAS did not apply'')
                       else Inr (st2, CancelledOutcome (cq_requestId request) i now fence))))"

section \<open>The cancel eligibility gate\<close>

text \<open>SQL \<open>LIKE\<close>: percent, underscore and the backslash escape.\<close>

fun sql_like :: "string \<Rightarrow> string \<Rightarrow> bool" where
  "sql_like [] s = (s = [])"
| "sql_like (x # p) s =
     (if x = CHR ''%'' then sql_like p s \<or> (case s of [] \<Rightarrow> False | c # s' \<Rightarrow> sql_like (x # p) s')
      else if x = CHR ''_'' then (case s of [] \<Rightarrow> False | c # s' \<Rightarrow> sql_like p s')
      else if x = CHR 0x5C
      then (case p of [] \<Rightarrow> False
            | e # p' \<Rightarrow> (case s of [] \<Rightarrow> False | c # s' \<Rightarrow> c = e \<and> sql_like p' s'))
      else (case s of [] \<Rightarrow> False | c # s' \<Rightarrow> c = x \<and> sql_like p s'))"

definition references_entity :: "string \<Rightarrow> string \<Rightarrow> bool" where
  "references_entity text ent = sql_like (CHR ''%'' # ent @ ''%'') text"

record cancel_watch =
  w_action :: string
  w_subscriberId :: string
  w_subscriberVersion :: int

datatype cancel_failure =
    ExpectedFenceNotZero int
  | RowMissing
  | StateNotPending PaidEffectState
  | FenceNotZero int
  | FenceMismatch int int
  | SentEvidence "string list"
  | BoundSuccessor string
  | InFlightSiblings "(string \<times> string) list"
  | BossTableAbsent
  | LiveJobs "(string \<times> string) list"
  | UnsettledDeliveries "(string \<times> string \<times> string) list"
  | UndeliveredEvents string string "string list"

definition event_references :: "string \<Rightarrow> event_row \<Rightarrow> bool" where
  "event_references ent e \<longleftrightarrow> ev_subject_id e = ent \<or> references_entity (ev_payload_text e) ent"

definition eligibility_row_failures :: "store \<Rightarrow> PaidEffectIdentity \<Rightarrow> int \<Rightarrow> cancel_failure list" where
  "eligibility_row_failures st i expectedFence =
     (case effect_by i st of
        None \<Rightarrow> [RowMissing]
      | Some row \<Rightarrow>
          (if r_state row \<noteq> Pending then [StateNotPending (r_state row)] else []) @
          (if r_fence row \<noteq> 0 then [FenceNotZero (r_fence row)]
           else if r_fence row \<noteq> expectedFence then [FenceMismatch (r_fence row) expectedFence]
           else []) @
          (if sent_evidence row \<noteq> [] then [SentEvidence (sent_evidence row)] else []))"

definition eligibility_entity_failures :: "store \<Rightarrow> PaidEffectIdentity \<Rightarrow> cancel_failure list" where
  "eligibility_entity_failures st i =
     (case find (binds_successor i) (authorizations st) of
        Some binding \<Rightarrow> [BoundSuccessor (au_authorization_id binding)]
      | None \<Rightarrow> []) @
     (let inFlight = take 10 (filter (\<lambda>r. pe_family (r_identity r) = pe_family i \<and>
                pe_entityId (r_identity r) = pe_entityId i \<and> r_state r = Sending) (effects st))
      in if inFlight \<noteq> []
         then [InFlightSiblings (map (\<lambda>r. (pe_unit (r_identity r), pe_inputDigest (r_identity r))) inFlight)]
         else [])"

definition eligibility_job_failures :: "store \<Rightarrow> PaidEffectIdentity \<Rightarrow> cancel_failure list" where
  "eligibility_job_failures st i =
     (case pgboss_job st of
        None \<Rightarrow> [BossTableAbsent]
      | Some jobs \<Rightarrow>
          let liveJobs = filter (\<lambda>j. job_name j = pe_family i \<and>
                 job_state j \<in> {''created'', ''retry'', ''active''} \<and>
                 references_entity (job_data_text j) (pe_entityId i)) jobs
          in if liveJobs \<noteq> [] then [LiveJobs (map (\<lambda>j. (job_id j, job_state j)) liveJobs)] else [])"

definition eligibility_delivery_failures :: "store \<Rightarrow> PaidEffectIdentity \<Rightarrow> cancel_failure list" where
  "eligibility_delivery_failures st i =
     (let unsettled = take 20 [d. d \<leftarrow> subscription_deliveries st, e \<leftarrow> event_table st,
              ev_id e = sub_source_event_id d \<and> ev_dispatch_seq e = sub_source_dispatch_seq d \<and>
              sub_status d \<in> {''pending'', ''claimed'', ''retry_wait''} \<and>
              event_references (pe_entityId i) e]
      in if unsettled \<noteq> []
         then [UnsettledDeliveries
                 (map (\<lambda>d. (sub_subscriber_id d, sub_source_event_id d, sub_status d)) unsettled)]
         else [])"

definition delivered_at :: "store \<Rightarrow> cancel_watch \<Rightarrow> event_row \<Rightarrow> bool" where
  "delivered_at st w e \<longleftrightarrow>
     list_ex (\<lambda>d. sub_subscriber_id d = w_subscriberId w \<and>
        sub_subscriber_version d = w_subscriberVersion w \<and>
        sub_source_event_id d = ev_id e \<and> sub_source_dispatch_seq d = ev_dispatch_seq e)
       (subscription_deliveries st)"

definition eligibility_watch_failures :: "store \<Rightarrow> PaidEffectIdentity \<Rightarrow> cancel_watch \<Rightarrow> cancel_failure list"
where
  "eligibility_watch_failures st i w =
     (let undelivered = take 10 (filter (\<lambda>e. ev_action e = w_action w \<and>
              event_references (pe_entityId i) e \<and> \<not> delivered_at st w e) (event_table st))
      in if undelivered \<noteq> []
         then [UndeliveredEvents (w_action w) (w_subscriberId w) (map ev_id undelivered)]
         else [])"

definition evaluatePaidEffectCancelEligibility ::
  "store \<Rightarrow> PaidEffectIdentity \<Rightarrow> int \<Rightarrow> cancel_watch list \<Rightarrow>
     bool \<times> cancel_failure list \<times> (PaidEffectState \<times> int \<times> int \<times> int) option" where
  "evaluatePaidEffectCancelEligibility st i expectedFence watch =
     (let failures =
            (if expectedFence \<noteq> 0 then [ExpectedFenceNotZero expectedFence] else []) @
            eligibility_row_failures st i expectedFence @
            eligibility_entity_failures st i @
            eligibility_job_failures st i @
            eligibility_delivery_failures st i @
            concat (map (eligibility_watch_failures st i) watch)
      in (failures = [], failures,
          map_option (\<lambda>r. (r_state r, r_fence r, r_created_at r, r_updated_at r)) (effect_by i st)))"

definition readPaidEffectCancellations :: "store \<Rightarrow> string \<Rightarrow> string \<Rightarrow> cancellation_row list" where
  "readPaidEffectCancellations st fam ent =
     filter (\<lambda>c. pe_family (ca_identity c) = fam \<and> pe_entityId (ca_identity c) = ent) (cancellations st)"

section \<open>Recovery, application and reads\<close>

definition settleExpiredPaidEffectSends ::
  "string option \<Rightarrow> int \<Rightarrow> store \<Rightarrow> pe_error + store \<times> nat" where
  "settleExpiredPaidEffectSends fam now st =
     update_effects
       (\<lambda>r. r_state r = Sending \<and>
            (case r_send_lease_expires_at r of None \<Rightarrow> False | Some t \<Rightarrow> t < now) \<and>
            (case fam of None \<Rightarrow> True | Some f \<Rightarrow> pe_family (r_identity r) = f))
       (\<lambda>r. r\<lparr>r_state := Unknown, r_send_lease_expires_at := None,
              r_unresolved_reason := Some ''send_lease_expired'', r_updated_at := now\<rparr>) st"

definition notePaidEffectApplicationFailure ::
  "int \<Rightarrow> PaidEffectIdentity \<Rightarrow> string \<Rightarrow> store \<Rightarrow> pe_error + store" where
  "notePaidEffectApplicationFailure now i error st =
     (case lockRow st i of
        None \<Rightarrow> Inl (PaidEffectProtocolError ''paid-effect row missing'')
      | Some row \<Rightarrow>
          if r_state row \<noteq> ReceiptReady
          then Inl (PaidEffectProtocolError ''application failure noted only in receipt_ready'')
          else if \<not> int4_ok (r_application_attempts row + 1) then Inl NumericOutOfRange
          else bind_result
                 (update_effects (\<lambda>r. r_identity r = i \<and> r_state r = ReceiptReady)
                    (\<lambda>r. r\<lparr>r_application_attempts := r_application_attempts row + 1,
                           r_last_application_error := Some (take 500 error), r_updated_at := now\<rparr>) st)
                 (\<lambda>(st', _). Inr st'))"

datatype application_result = AppliedNow | IdempotentApplication

definition recordPaidEffectApplication ::
  "int \<Rightarrow> PaidEffectIdentity \<Rightarrow> jsval \<Rightarrow> store \<Rightarrow> pe_error + store \<times> application_result" where
  "recordPaidEffectApplication now i application st =
     (case canonicalizePaidEffectJson application of
        Inl e \<Rightarrow> Inl (PaidEffectCanonicalError e)
      | Inr _ \<Rightarrow>
      (case lockRow st i of
         None \<Rightarrow> Inl (PaidEffectProtocolError ''paid-effect row missing'')
       | Some row \<Rightarrow>
           if r_state row = Applied
           then (if paidEffectJsonEquals (jsonb_read (r_application_json row)) application
                 then Inr (st, IdempotentApplication)
                 else Inl (PaidEffectApplicationConflictError i))
           else if r_state row \<noteq> ReceiptReady
           then Inl (PaidEffectProtocolError ''application requires a recorded receipt'')
           else bind_result
                  (update_effects (\<lambda>r. r_identity r = i \<and> r_state r = ReceiptReady)
                     (\<lambda>r. r\<lparr>r_state := Applied, r_application_json := jsonb_param application,
                            r_applied_at := Some now, r_updated_at := now\<rparr>) st)
                  (\<lambda>(st', _). Inr (st', AppliedNow))))"

record PaidEffectSnapshot =
  sn_identity :: PaidEffectIdentity
  sn_state :: PaidEffectState
  sn_fence :: int
  sn_delivery :: "PaidEffectBackend option \<times> string option \<times> string option"
  sn_sendLeaseExpiresAt :: "int option"
  sn_result :: jsval
  sn_resultRecordedAt :: "int option"
  sn_application :: jsval
  sn_appliedAt :: "int option"
  sn_applicationAttempts :: int
  sn_lastApplicationError :: "string option"
  sn_unresolvedReason :: "string option"
  sn_voidedAt :: "int option"
  sn_voidReceipt :: "PaidEffectVoidReceipt option"
  sn_cancelledAt :: "int option"
  sn_cancelReceipt :: "PaidEffectCancelReceipt option"
  sn_createdAt :: int
  sn_updatedAt :: int

definition toSnapshot :: "effect_row \<Rightarrow> pe_error + PaidEffectSnapshot" where
  "toSnapshot row =
     bind_result (parse_identity (r_identity row)) (\<lambda>i.
     Inr \<lparr>sn_identity = i, sn_state = r_state row, sn_fence = r_fence row,
          sn_delivery = (r_delivery_backend row, r_delivery_id row, r_delivery_tick row),
          sn_sendLeaseExpiresAt = r_send_lease_expires_at row,
          sn_result = jsonb_read (r_result_json row),
          sn_resultRecordedAt = r_result_recorded_at row,
          sn_application = jsonb_read (r_application_json row),
          sn_appliedAt = r_applied_at row,
          sn_applicationAttempts = r_application_attempts row,
          sn_lastApplicationError = r_last_application_error row,
          sn_unresolvedReason = r_unresolved_reason row,
          sn_voidedAt = r_voided_at row, sn_voidReceipt = r_void_json row,
          sn_cancelledAt = r_cancelled_at row, sn_cancelReceipt = r_cancel_json row,
          sn_createdAt = r_created_at row, sn_updatedAt = r_updated_at row\<rparr>)"

definition readPaidEffect :: "store \<Rightarrow> PaidEffectIdentity \<Rightarrow> pe_error + PaidEffectSnapshot option" where
  "readPaidEffect st i =
     (case effect_by i st of
        None \<Rightarrow> Inr None
      | Some row \<Rightarrow> bind_result (toSnapshot row) (\<lambda>s. Inr (Some s)))"

definition listPaidEffectObligations ::
  "string option \<Rightarrow> PaidEffectState list option \<Rightarrow> nat option \<Rightarrow> store \<Rightarrow>
     pe_error + PaidEffectSnapshot list" where
  "listPaidEffectObligations fam states limit st =
     (let ss = (case states of None \<Rightarrow> PAID_EFFECT_OBLIGATION_STATES | Some xs \<Rightarrow> xs);
          n = (case limit of None \<Rightarrow> 1000 | Some k \<Rightarrow> k)
      in sequence_results (map toSnapshot (take n
           (sort_key (\<lambda>r. (pe_family (r_identity r), r_created_at r, pe_entityId (r_identity r)))
             (filter (\<lambda>r. r_state r \<in> set ss \<and>
                (case fam of None \<Rightarrow> True | Some f \<Rightarrow> pe_family (r_identity r) = f)) (effects st))))))"

section \<open>Switching the backend\<close>

definition count_by_state :: "string \<Rightarrow> store \<Rightarrow> PaidEffectState \<Rightarrow> nat option" where
  "count_by_state fam st s =
     (let n = length (filter (\<lambda>r. pe_family (r_identity r) = fam \<and> r_state r = s \<and>
                 r_state r \<in> set PAID_EFFECT_SWITCH_BLOCKING_STATES) (effects st))
      in if n = 0 then None else Some n)"

definition materialize_control :: "string \<Rightarrow> store \<Rightarrow> store" where
  "materialize_control fam st =
     (case row_by cw_family fam (controls st) of
        Some _ \<Rightarrow> st
      | None \<Rightarrow> st\<lparr>controls := controls st @
                  [\<lparr>cw_family = fam, cw_backend = DEFAULT_PAID_EFFECT_BACKEND,
                    cw_generation = DEFAULT_PAID_EFFECT_GENERATION\<rparr>]\<rparr>)"

definition switchPaidEffectBackend ::
  "string \<Rightarrow> PaidEffectBackend \<Rightarrow> store \<Rightarrow> pe_error + store \<times> PaidEffectControlSnapshot" where
  "switchPaidEffectBackend fam to st =
     (let st1 = materialize_control fam st;
          (blocked, blocking) = summarizePaidEffectSwitchBlocking (count_by_state fam st1);
          current = readPaidEffectControl st1 fam
      in if blocked then Inl (PaidEffectSwitchBlockedError fam blocking)
         else if ctl_backend current = to then Inr (st1, current)
         else if fam \<in> set PAID_EFFECT_SWITCH_UNSUPPORTED_FAMILIES
         then Inl (PaidEffectSwitchUnsupportedError fam)
         else let generation = ctl_generation current + 1 in
           if \<not> int4_ok generation then Inl NumericOutOfRange
           else Inr (st1\<lparr>controls :=
                     update_where (\<lambda>c. cw_family c = fam)
                       (\<lambda>c. c\<lparr>cw_backend := to, cw_generation := generation\<rparr>) (controls st1)\<rparr>,
                   \<lparr>ctl_family = fam, ctl_backend = to, ctl_generation = generation,
                    ctl_explicit = True\<rparr>))"

end
