(* ===== verification/CanonicalJsonFacts.thy ===== *)
theory CanonicalJsonFacts
  imports CanonicalJson
begin

text \<open>
  What the canonical text decides. \<open>meaning\<close> is the abstract specification: a JSON document
  in which an object is a finite map. Serialisation is uniquely decodable on canonical values,
  so two values have the same canonical text exactly when they mean the same document.
\<close>

section \<open>Well-formed and canonical values\<close>

definition number_char :: "char \<Rightarrow> bool" where
  "number_char c \<longleftrightarrow> decimal_digit c \<or> c \<in> {CHR ''+'', CHR ''-'', CHR ''.'', CHR ''e''}"

definition number_text :: "string \<Rightarrow> bool" where
  "number_text t \<longleftrightarrow> t \<noteq> [] \<and> list_all number_char t \<and> (decimal_digit (hd t) \<or> hd t = CHR ''-'')"

fun wf_js :: "jsval \<Rightarrow> bool" where
  "wf_js (JNum t) = number_text t"
| "wf_js (JArr xs) = list_all wf_js xs"
| "wf_js (JObj es) = (distinct (map fst es) \<and> list_all (\<lambda>e. wf_js (snd e)) es)"
| "wf_js _ = True"

fun canonical :: "jsval \<Rightarrow> bool" where
  "canonical JNull = True"
| "canonical (JBool b) = True"
| "canonical (JNum t) = number_text t"
| "canonical (JStr s) = True"
| "canonical (JArr xs) = list_all canonical xs"
| "canonical (JObj es) =
     (sorted (map fst es) \<and> distinct (map fst es) \<and> list_all (\<lambda>e. canonical (snd e)) es)"
| "canonical _ = False"

lemma number_text_zero [simp]: "number_text ''0''"
  by (simp add: number_text_def number_char_def decimal_digit_def)

section \<open>String quoting is uniquely decodable\<close>

definition unhex :: "char \<Rightarrow> nat" where
  "unhex c = (if (of_char c :: nat) < 58 then of_char c - 48 else of_char c - 87)"

lemma unhex_hex_digit: "n < 16 \<Longrightarrow> unhex (hex_digit n) = n"
  by (simp add: unhex_def hex_digit_def)

definition unquote_char :: "string \<Rightarrow> char \<times> string" where
  "unquote_char s =
     (case s of
        c # d # e # f # g # i # rest \<Rightarrow>
          if c \<noteq> CHR 0x5C then (c, d # e # f # g # i # rest)
          else if d = CHR ''b'' then (CHR 0x08, e # f # g # i # rest)
          else if d = CHR ''f'' then (CHR 0x0C, e # f # g # i # rest)
          else if d = CHR ''n'' then (CHR 0x0A, e # f # g # i # rest)
          else if d = CHR ''r'' then (CHR 0x0D, e # f # g # i # rest)
          else if d = CHR ''t'' then (CHR 0x09, e # f # g # i # rest)
          else if d = CHR ''u'' then (char_of (16 * unhex g + unhex i), rest)
          else (d, e # f # g # i # rest)
      | _ \<Rightarrow> (CHR 0x00, []))"

lemma control_char_code: "of_char c < (32::nat) \<Longrightarrow> char_of (16 * (of_char c div 16) + of_char c mod (16::nat)) = c"
  by simp

lemma unquote_quote_char:
  "length x \<ge> 6 \<Longrightarrow> unquote_char (quote_char c @ x) = (c, x)"
proof -
  assume "length x \<ge> 6"
  then obtain a1 a2 a3 a4 a5 a6 y where x: "x = a1 # a2 # a3 # a4 # a5 # a6 # y"
    by (auto simp: Suc_le_length_iff numeral_eq_Suc)
  have hex: "char_of (16 * unhex (hex_digit (of_char c div 16)) + unhex (hex_digit (of_char c mod 16))) = c"
    if "of_char c < (32::nat)"
  proof -
    have "of_char c div 16 < (16::nat)" "of_char c mod 16 < (16::nat)" using that by auto
    then show ?thesis by (simp add: unhex_hex_digit)
  qed
  show ?thesis
    by (auto simp: x quote_char_def unquote_char_def hex)
qed

lemma quote_char_prefix_free:
  "quote_char c @ x = quote_char d @ y \<Longrightarrow> c = d \<and> x = y"
proof -
  let ?z = "replicate 6 CHR 0x00"
  assume "quote_char c @ x = quote_char d @ y"
  then have "quote_char c @ (x @ ?z) = quote_char d @ (y @ ?z)" by (metis append.assoc)
  then have "unquote_char (quote_char c @ (x @ ?z)) = unquote_char (quote_char d @ (y @ ?z))"
    by (rule arg_cong)
  then show ?thesis by (simp add: unquote_quote_char)
qed

lemma quote_char_hd: "quote_char c \<noteq> [] \<and> hd (quote_char c) \<noteq> CHR 0x22"
  by (simp add: quote_char_def)

lemma quoted_body_decode:
  "concat (map quote_char s) @ CHR 0x22 # x = concat (map quote_char t) @ CHR 0x22 # y \<Longrightarrow>
     s = t \<and> x = y"
proof (induction s arbitrary: t)
  case Nil
  show ?case
  proof (cases t)
    case Nil
    then show ?thesis using Nil.prems by simp
  next
    case (Cons d t')
    with Nil.prems have "CHR 0x22 = hd (quote_char d @ concat (map quote_char t') @ CHR 0x22 # y)"
      by (metis append.assoc append_Nil concat.simps(1,2) list.map(1,2) list.sel(1))
    then show ?thesis using quote_char_hd [of d] by simp
  qed
next
  case (Cons c s)
  show ?case
  proof (cases t)
    case Nil
    with Cons.prems have "CHR 0x22 = hd (quote_char c @ concat (map quote_char s) @ CHR 0x22 # x)"
      by (metis append.assoc append_Nil concat.simps(1,2) list.map(1,2) list.sel(1))
    then show ?thesis using quote_char_hd [of c] by simp
  next
    case (Cons d t')
    with Cons.prems have
      "quote_char c @ (concat (map quote_char s) @ CHR 0x22 # x) =
       quote_char d @ (concat (map quote_char t') @ CHR 0x22 # y)" by simp
    from quote_char_prefix_free [OF this] Cons.IH Cons show ?thesis by auto
  qed
qed

lemma json_quote_decode: "json_quote s @ x = json_quote t @ y \<Longrightarrow> s = t \<and> x = y"
  by (auto simp: json_quote_def dest: quoted_body_decode)

section \<open>Serialisation is uniquely decodable\<close>

text \<open>What may follow a value inside a document: nothing, a comma or a closing bracket.\<close>

definition stop :: "string \<Rightarrow> bool" where
  "stop r \<longleftrightarrow> r = [] \<or> hd r \<in> {CHR '','', CHR '']'', CHR ''}''}"

definition decodes :: "jsval \<Rightarrow> bool" where
  "decodes v \<longleftrightarrow> (\<forall>w r s. canonical w \<longrightarrow> stop r \<longrightarrow> stop s \<longrightarrow>
     json_stringify v @ r = json_stringify w @ s \<longrightarrow> v = w \<and> r = s)"

definition commas :: "string list \<Rightarrow> string" where
  "commas ts = concat (map (\<lambda>t. CHR '','' # t) ts)"

lemma commas_simps [simp]: "commas [] = []" "commas (t # ts) = CHR '','' # t @ commas ts"
  by (simp_all add: commas_def)

lemma join_comma_Cons: "join_comma (t # ts) = t @ commas ts"
  by (induction ts arbitrary: t) auto

lemma stop_simps [simp]:
  "stop []" "stop (CHR '','' # r)" "stop (CHR '']'' # r)" "stop (CHR ''}'' # r)"
  by (simp_all add: stop_def)

lemma stop_commas: "stop r \<Longrightarrow> stop (commas ts @ r)"
  by (cases ts) auto

lemma not_number_char [simp]:
  "\<not> number_char CHR '',''" "\<not> number_char CHR '']''" "\<not> number_char CHR ''}''"
  "\<not> number_char CHR ''n''" "\<not> number_char CHR ''t''" "\<not> number_char CHR ''f''"
  "\<not> number_char CHR ''[''" "\<not> number_char CHR ''{''" "\<not> number_char CHR 0x22"
  by (simp_all add: number_char_def decimal_digit_def)

lemma number_char_not:
  "number_char c \<Longrightarrow> c \<noteq> CHR ''n'' \<and> c \<noteq> CHR ''t'' \<and> c \<noteq> CHR ''f'' \<and> c \<noteq> CHR ''['' \<and> c \<noteq> CHR ''{'' \<and> c \<noteq> CHR 0x22"
  by auto

text \<open>The first character of a canonical text tells which kind of value it is.\<close>

lemma stringify_hd:
  "canonical v \<Longrightarrow> json_stringify v \<noteq> [] \<and>
     (case v of JNull \<Rightarrow> hd (json_stringify v) = CHR ''n''
      | JBool b \<Rightarrow> hd (json_stringify v) = (if b then CHR ''t'' else CHR ''f'')
      | JNum t \<Rightarrow> number_char (hd (json_stringify v))
      | JStr s \<Rightarrow> hd (json_stringify v) = CHR 0x22
      | JArr xs \<Rightarrow> hd (json_stringify v) = CHR ''[''
      | JObj es \<Rightarrow> hd (json_stringify v) = CHR ''{''
      | _ \<Rightarrow> False)"
  by (cases v) (auto simp: number_text_def json_quote_def list_all_iff)

lemma stringify_not_stop: "canonical v \<Longrightarrow> \<not> stop (json_stringify v @ r)"
  using stringify_hd [of v] by (cases v) (auto simp: stop_def number_char_def decimal_digit_def)

lemma number_decode:
  "list_all number_char t \<Longrightarrow> list_all number_char u \<Longrightarrow> stop r \<Longrightarrow> stop s \<Longrightarrow> t @ r = u @ s \<Longrightarrow>
     t = u \<and> r = s"
proof (induction t arbitrary: u)
  case Nil
  then show ?case by (cases u) (auto simp: stop_def)
next
  case (Cons c t)
  then show ?case by (cases u) (auto simp: stop_def)
qed

lemma same_hd: "xs @ r = ys @ s \<Longrightarrow> xs \<noteq> [] \<Longrightarrow> ys \<noteq> [] \<Longrightarrow> hd xs = hd ys"
  by (metis hd_append2)

lemma decodes_scalar:
  assumes "canonical v" and "\<forall>xs. v \<noteq> JArr xs" and "\<forall>es. v \<noteq> JObj es"
  shows "decodes v"
  unfolding decodes_def
proof (intro allI impI)
  fix w r s
  assume w: "canonical w" and r: "stop r" and s: "stop s"
    and eq: "json_stringify v @ r = json_stringify w @ s"
  have "hd (json_stringify v) = hd (json_stringify w)"
    using same_hd [OF eq] stringify_hd assms(1) w by blast
  then show "v = w \<and> r = s"
    using assms w r s eq stringify_hd [OF assms(1)] stringify_hd [OF w]
    by (cases v; cases w)
       (auto dest: number_decode json_quote_decode number_char_not simp: number_text_def split: if_splits)
qed

lemma items_decode:
  assumes "\<forall>x \<in> set xs. decodes x" and "\<forall>y \<in> set ys. canonical y"
    and "commas (stringify_items xs) @ CHR '']'' # r = commas (stringify_items ys) @ CHR '']'' # s"
  shows "xs = ys \<and> r = s"
  using assms
proof (induction xs arbitrary: ys)
  case Nil
  then show ?case by (cases ys) auto
next
  case (Cons x xs)
  show ?case
  proof (cases ys)
    case Nil
    with Cons.prems show ?thesis by auto
  next
    case (Cons y ys')
    let ?r = "commas (stringify_items xs) @ CHR '']'' # r"
    let ?s = "commas (stringify_items ys') @ CHR '']'' # s"
    have "json_stringify x @ ?r = json_stringify y @ ?s" and "canonical y"
      using Cons.prems Cons by simp_all
    moreover have "stop ?r" "stop ?s" by (simp_all add: stop_commas)
    ultimately have "x = y \<and> ?r = ?s"
      using Cons.prems(1) by (auto simp: decodes_def)
    with Cons.IH [of ys'] Cons.prems Cons show ?thesis by auto
  qed
qed

lemma stringify_items_Cons_nonempty: "stringify_items xs = [] \<longleftrightarrow> xs = []"
  by (cases xs) auto

lemma array_decode:
  assumes xs: "\<forall>x \<in> set xs. decodes x \<and> canonical x" and ys: "\<forall>y \<in> set ys. canonical y"
    and eq: "join_comma (stringify_items xs) @ CHR '']'' # r = join_comma (stringify_items ys) @ CHR '']'' # s"
  shows "xs = ys \<and> r = s"
proof (cases xs; cases ys)
  fix x xs' y ys'
  assume c: "xs = x # xs'" "ys = y # ys'"
  then have "commas (stringify_items xs) @ CHR '']'' # r = commas (stringify_items ys) @ CHR '']'' # s"
    using eq by (simp add: join_comma_Cons)
  then show ?thesis using items_decode xs ys by blast
next
  fix y ys'
  assume c: "xs = []" "ys = y # ys'"
  with eq have "json_stringify y @ commas (stringify_items ys') @ CHR '']'' # s = CHR '']'' # r"
    by (simp add: join_comma_Cons)
  then show ?thesis using stringify_not_stop [of y] ys c by (metis list.set_intros(1) stop_simps(3))
next
  fix x xs'
  assume c: "xs = x # xs'" "ys = []"
  with eq have "json_stringify x @ commas (stringify_items xs') @ CHR '']'' # r = CHR '']'' # s"
    by (simp add: join_comma_Cons)
  then show ?thesis using stringify_not_stop [of x] xs c by (metis list.set_intros(1) stop_simps(3))
qed (use eq in auto)

section \<open>Objects\<close>

lemma stringify_entries_map:
  "stringify_entries es = map (\<lambda>(k, v). (k, json_quote k @ CHR '':'' # json_stringify v)) es"
  by (induction es) auto

lemma insort_key_map:
  "(\<And>x. g (m x) = f x) \<Longrightarrow> insort_key g (m x) (map m xs) = map m (insort_key f x xs)"
  by (induction xs) auto

lemma sort_key_map:
  "(\<And>x. g (m x) = f x) \<Longrightarrow> sort_key g (map m xs) = map m (sort_key f xs)"
  by (induction xs) (auto simp: insort_key_map)

lemma own_property_order_map:
  assumes "\<And>e. fst (m e) = fst e"
  shows "own_property_order (map m es) = map m (own_property_order es)"
proof -
  have "sort_key (decimal_value \<circ> fst) (map m xs) = map m (sort_key (decimal_value \<circ> fst) xs)" for xs
    by (rule sort_key_map) (simp add: assms)
  moreover have "filter (Q \<circ> fst) (map m xs) = map m (filter (Q \<circ> fst) xs)" for Q xs
    by (induction xs) (auto simp: assms)
  ultimately show ?thesis by (simp add: own_property_order_def)
qed

lemma set_own_property_order [simp]: "set (own_property_order es) = set es"
  by (auto simp: own_property_order_def)

lemma mset_own_property_order [simp]: "mset (own_property_order es) = mset es"
proof -
  have "mset (own_property_order es) =
      mset (filter (array_index_key \<circ> fst) es) + mset (filter (\<lambda>e. \<not> (array_index_key \<circ> fst) e) es)"
    by (simp add: own_property_order_def comp_def)
  then show ?thesis by (simp only: mset_filter multiset_partition [symmetric])
qed

definition entry_texts :: "(string \<times> jsval) list \<Rightarrow> string list" where
  "entry_texts es = map (\<lambda>(k, v). json_quote k @ CHR '':'' # json_stringify v) es"

lemma entry_texts_simps [simp]:
  "entry_texts [] = []"
  "entry_texts ((k, v) # es) = (json_quote k @ CHR '':'' # json_stringify v) # entry_texts es"
  by (simp_all add: entry_texts_def)

lemma stringify_object:
  "json_stringify (JObj es) = CHR ''{'' # join_comma (entry_texts (own_property_order es)) @ ''}''"
proof -
  have "own_property_order (stringify_entries es) = stringify_entries (own_property_order es)"
    unfolding stringify_entries_map by (rule own_property_order_map) auto
  then show ?thesis
    by (simp add: stringify_entries_map entry_texts_def comp_def case_prod_unfold)
qed

lemma entries_decode:
  assumes "\<forall>e \<in> set es. decodes (snd e)" and "\<forall>f \<in> set fs. canonical (snd f)"
    and "commas (entry_texts es) @ CHR ''}'' # r = commas (entry_texts fs) @ CHR ''}'' # s"
  shows "es = fs \<and> r = s"
  using assms
proof (induction es arbitrary: fs)
  case Nil
  then show ?case by (cases fs) auto
next
  case (Cons e es)
  obtain k v where e: "e = (k, v)" by force
  show ?case
  proof (cases fs)
    case Nil
    with Cons.prems e show ?thesis by auto
  next
    case (Cons f fs')
    obtain l w where f: "f = (l, w)" by force
    let ?r = "commas (entry_texts es) @ CHR ''}'' # r"
    let ?s = "commas (entry_texts fs') @ CHR ''}'' # s"
    have "json_quote k @ (CHR '':'' # json_stringify v @ ?r) = json_quote l @ (CHR '':'' # json_stringify w @ ?s)"
      using Cons.prems Cons e f by simp
    from json_quote_decode [OF this]
    have kl: "k = l" and "json_stringify v @ ?r = json_stringify w @ ?s" by auto
    moreover have "stop ?r" "stop ?s" by (simp_all add: stop_commas)
    moreover have "canonical w" "decodes v" using Cons.prems Cons e f by auto
    ultimately have "v = w \<and> ?r = ?s" by (auto simp: decodes_def)
    with Cons.IH [of fs'] Cons.prems Cons e f kl show ?thesis by auto
  qed
qed

lemma object_decode:
  assumes es: "\<forall>e \<in> set es. decodes (snd e)" and fs: "\<forall>f \<in> set fs. canonical (snd f)"
    and eq: "join_comma (entry_texts es) @ CHR ''}'' # r = join_comma (entry_texts fs) @ CHR ''}'' # s"
  shows "es = fs \<and> r = s"
proof (cases es; cases fs)
  fix e es' f fs'
  assume c: "es = e # es'" "fs = f # fs'"
  then have "commas (entry_texts es) @ CHR ''}'' # r = commas (entry_texts fs) @ CHR ''}'' # s"
    using eq by (cases e; cases f) (simp add: join_comma_Cons)
  then show ?thesis using entries_decode es fs by blast
next
  fix f fs'
  assume "es = []" "fs = f # fs'"
  with eq show ?thesis by (cases f) (simp add: join_comma_Cons json_quote_def)
next
  fix e es'
  assume "es = e # es'" "fs = []"
  with eq show ?thesis by (cases e) (simp add: join_comma_Cons json_quote_def)
qed (use eq in auto)

lemma own_property_order_inj:
  assumes "sorted (map fst es)" "sorted (map fst fs)" "distinct (map fst es)" "distinct (map fst fs)"
    and "own_property_order es = own_property_order fs"
  shows "es = fs"
  using assms set_own_property_order [of es] set_own_property_order [of fs]
  by (intro sorted_distinct_eq [where k = fst]) auto

lemma canonical_decodes: "canonical v \<Longrightarrow> decodes v"
proof (induction v)
  case (JArr xs)
  have sub: "\<forall>x \<in> set xs. decodes x \<and> canonical x"
    using JArr by (auto simp: list_all_iff)
  show ?case
    unfolding decodes_def
  proof (intro allI impI)
    fix w r s
    assume w: "canonical w" and eq: "json_stringify (JArr xs) @ r = json_stringify w @ s"
    have "hd (json_stringify w) = CHR ''[''"
      using same_hd [OF eq] stringify_hd [OF w] by simp
    then obtain ys where ys: "w = JArr ys"
      using stringify_hd [OF w] number_char_not by (cases w) (auto split: if_splits)
    then show "JArr xs = w \<and> r = s"
      using array_decode [OF sub, of ys r s] eq w by (auto simp: list_all_iff)
  qed
next
  case (JObj es)
  have sub: "\<forall>e \<in> set (own_property_order es). decodes (snd e)"
    using JObj by (force simp: list_all_iff)
  show ?case
    unfolding decodes_def
  proof (intro allI impI)
    fix w r s
    assume w: "canonical w" and eq: "json_stringify (JObj es) @ r = json_stringify w @ s"
    have "hd (json_stringify w) = CHR ''{''"
      using same_hd [OF eq] stringify_hd [OF w] by simp
    then obtain fs where fs: "w = JObj fs"
      using stringify_hd [OF w] number_char_not by (cases w) (auto split: if_splits)
    then have can: "\<forall>f \<in> set (own_property_order fs). canonical (snd f)"
      using w by (auto simp: list_all_iff)
    have "own_property_order es = own_property_order fs \<and> r = s"
      using object_decode [OF sub can, of r s] eq fs by (simp only: stringify_object) simp
    then show "JObj es = w \<and> r = s"
      using own_property_order_inj [of es fs] JObj.prems w fs by auto
  qed
qed (auto intro: decodes_scalar)

lemma json_stringify_inj:
  "canonical v \<Longrightarrow> canonical w \<Longrightarrow> json_stringify v = json_stringify w \<Longrightarrow> v = w"
  using canonical_decodes [of v] unfolding decodes_def by (metis stop_simps(1))

section \<open>The document a value means\<close>

datatype document =
    DNull
  | DBool bool
  | DNum string
  | DStr string
  | DArr "document list"
  | DObj "string \<Rightarrow> document option"

fun all_some :: "'a option list \<Rightarrow> 'a list option" where
  "all_some [] = Some []"
| "all_some (None # xs) = None"
| "all_some (Some x # xs) = map_option (Cons x) (all_some xs)"

fun meaning :: "jsval \<Rightarrow> document option"
  and meaning_items :: "jsval list \<Rightarrow> document option list"
  and meaning_entries :: "(string \<times> jsval) list \<Rightarrow> (string \<times> document) option list"
where
  "meaning JNull = Some DNull"
| "meaning (JBool b) = Some (DBool b)"
| "meaning (JNum t) = Some (DNum t)"
| "meaning JNegZero = Some (DNum ''0'')"
| "meaning (JStr s) = Some (DStr s)"
| "meaning (JArr xs) = map_option DArr (all_some (meaning_items xs))"
| "meaning (JObj es) = map_option (\<lambda>ds. DObj (map_of ds)) (all_some (meaning_entries es))"
| "meaning _ = None"
| "meaning_items [] = []"
| "meaning_items (x # xs) = meaning x # meaning_items xs"
| "meaning_entries [] = []"
| "meaning_entries ((k, v) # es) = map_option (Pair k) (meaning v) # meaning_entries es"

lemma all_some_iff: "all_some xs = Some ys \<longleftrightarrow> xs = map Some ys"
  by (induction xs arbitrary: ys rule: all_some.induct) (auto simp: Cons_eq_map_conv)

lemma meaning_items_map: "meaning_items xs = map meaning xs"
  by (induction xs) auto

lemma meaning_entries_map:
  "meaning_entries es = map (\<lambda>(k, v). map_option (Pair k) (meaning v)) es"
  by (induction es) auto

lemma all_some_map:
  "all_some (map f xs) = (if \<forall>x \<in> set xs. f x \<noteq> None then Some (map (the \<circ> f) xs) else None)"
proof (induction xs)
  case (Cons x xs)
  then show ?case by (cases "f x") auto
qed simp

definition entry_meaning :: "string \<times> jsval \<Rightarrow> (string \<times> document) option" where
  "entry_meaning e = map_option (Pair (fst e)) (meaning (snd e))"

lemma entry_meaning_simps [simp]:
  "entry_meaning e = None \<longleftrightarrow> meaning (snd e) = None"
  "meaning (snd e) \<noteq> None \<Longrightarrow> the (entry_meaning e) = (fst e, the (meaning (snd e)))"
  by (auto simp: entry_meaning_def)

lemma meaning_JObj:
  "meaning (JObj es) =
     (if \<forall>e \<in> set es. meaning (snd e) \<noteq> None
      then Some (DObj (map_of (map (\<lambda>e. (fst e, the (meaning (snd e)))) es))) else None)"
proof -
  have m: "meaning_entries es = map entry_meaning es"
    by (auto simp: meaning_entries_map entry_meaning_def)
  show ?thesis
  proof (cases "\<forall>e \<in> set es. meaning (snd e) \<noteq> None")
    case True
    then have "map (the \<circ> entry_meaning) es = map (\<lambda>e. (fst e, the (meaning (snd e)))) es"
      by (intro map_cong) auto
    moreover have "all_some (map entry_meaning es) = Some (map (the \<circ> entry_meaning) es)"
      using True by (subst all_some_map) auto
    ultimately have "all_some (map entry_meaning es) = Some (map (\<lambda>e. (fst e, the (meaning (snd e)))) es)"
      by (simp only:)
    then show ?thesis using True m by simp
  next
    case False
    then have "all_some (map entry_meaning es) = None"
      by (subst all_some_map) auto
    then show ?thesis using False m by (simp only: meaning.simps) auto
  qed
qed

lemma meaning_JArr:
  "meaning (JArr xs) =
     (if \<forall>x \<in> set xs. meaning x \<noteq> None then Some (DArr (map (the \<circ> meaning) xs)) else None)"
  by (simp add: meaning_items_map all_some_map)

declare meaning.simps(6,7) [simp del]

section \<open>canonicalValue computes the canonical form of the meaning\<close>

definition entry_result :: "path_seg list \<Rightarrow> string \<times> jsval \<Rightarrow> canon_error + string \<times> jsval" where
  "entry_result p e =
     bind_result (if snd e = JUndefined then Inl (UndefinedProperty (fst e) p)
                  else canonicalValue (p @ [AtKey (fst e)]) (snd e))
       (\<lambda>c. Inr (fst e, c))"

lemma canonicalValue_JObj:
  "canonicalValue p (JObj es) =
     bind_result (sequence_results (map (entry_result p) (sort_key fst es))) (\<lambda>cs. Inr (JObj cs))"
proof -
  let ?m = "\<lambda>e. (fst e, if snd e = JUndefined then Inl (UndefinedProperty (fst e) p)
                  else canonicalValue (p @ [AtKey (fst e)]) (snd e))"
  have "canonicalEntries p es = map ?m es"
    by (induction es) auto
  moreover have "sort_key fst (map ?m es) = map ?m (sort_key fst es)"
    by (rule sort_key_map) simp
  ultimately show ?thesis
    by (simp add: entry_result_def comp_def case_prod_unfold cong: map_cong)
qed

lemma canonicalItems_iff:
  "canonicalItems p i xs = Inr ys \<longleftrightarrow>
     length ys = length xs \<and>
     (\<forall>j < length xs. canonicalValue (p @ [AtIndex (i + j)]) (xs ! j) = Inr (ys ! j))"
proof (induction xs arbitrary: i ys)
  case Nil
  then show ?case by auto
next
  case (Cons x xs)
  show ?case
    by (cases ys) (auto simp: Cons.IH bind_result_Inr_iff less_Suc_eq_0_disj)
qed

lemma canonicalValue_sound:
  "wf_js v \<Longrightarrow> canonicalValue p v = Inr c \<Longrightarrow> canonical c \<and> meaning c = meaning v \<and> meaning v \<noteq> None"
proof (induction v arbitrary: p c)
  case (JArr xs)
  from JArr.prems(2) obtain ys where c: "c = JArr ys" and ys: "canonicalItems p 0 xs = Inr ys"
    by (auto simp: bind_result_Inr_iff)
  have sub: "canonical (ys ! j) \<and> meaning (ys ! j) = meaning (xs ! j) \<and> meaning (xs ! j) \<noteq> None"
    if "j < length xs" for j
    using JArr.IH [of "xs ! j"] JArr.prems(1) ys that
    by (auto simp: canonicalItems_iff list_all_iff)
  have len: "length ys = length xs" using ys by (simp add: canonicalItems_iff)
  then have "\<forall>y \<in> set ys. canonical y \<and> meaning y \<noteq> None"
    using sub by (auto simp: in_set_conv_nth)
  moreover have "\<forall>x \<in> set xs. meaning x \<noteq> None"
    using sub by (auto simp: in_set_conv_nth)
  moreover have "map (the \<circ> meaning) ys = map (the \<circ> meaning) xs"
    using sub len by (intro nth_equalityI) auto
  ultimately show ?case by (simp add: c meaning_JArr list_all_iff)
next
  case (JObj es)
  let ?es = "sort_key fst es"
  from JObj.prems(2) obtain cs where c: "c = JObj cs"
    and cs: "map (entry_result p) ?es = map Inr cs"
    unfolding canonicalValue_JObj by (auto simp: bind_result_Inr_iff sequence_results_Inr_iff)
  have len: "length cs = length ?es" using cs by (metis length_map)
  have sub: "fst (cs ! j) = fst (?es ! j) \<and> canonical (snd (cs ! j)) \<and>
      meaning (snd (cs ! j)) = meaning (snd (?es ! j)) \<and> meaning (snd (?es ! j)) \<noteq> None"
    if j: "j < length ?es" for j
  proof -
    obtain k v where e: "?es ! j = (k, v)" by force
    then have mem: "(k, v) \<in> set es" using j by (metis nth_mem set_sort)
    have "entry_result p (?es ! j) = Inr (cs ! j)"
      using cs j len by (metis nth_map)
    then obtain c' where "canonicalValue (p @ [AtKey k]) v = Inr c'" and "cs ! j = (k, c')"
      by (auto simp: entry_result_def e bind_result_Inr_iff split: if_splits)
    moreover have "wf_js v" using JObj.prems(1) mem by (auto simp: list_all_iff)
    ultimately show ?thesis
      using JObj.IH [of "(k, v)" v] mem e by auto
  qed
  have keys: "map fst cs = map fst ?es"
    using sub len by (intro nth_equalityI) auto
  have all: "\<forall>e \<in> set cs. canonical (snd e) \<and> meaning (snd e) \<noteq> None"
    using sub len by (fastforce simp: in_set_conv_nth)
  have all': "\<forall>e \<in> set es. meaning (snd e) \<noteq> None"
    using sub by (metis in_set_conv_nth set_sort)
  have "map (\<lambda>e. (fst e, the (meaning (snd e)))) cs = map (\<lambda>e. (fst e, the (meaning (snd e)))) ?es"
    using sub len by (intro nth_equalityI) auto
  moreover have "map_of (map (\<lambda>e. (fst e, the (meaning (snd e)))) ?es) =
      map_of (map (\<lambda>e. (fst e, the (meaning (snd e)))) es)"
    using JObj.prems(1)
    by (intro map_of_inject_set [THEN iffD2])
       (auto simp: comp_def distinct_map inj_on_def distinct_sort)
  moreover have "sorted (map fst cs)" "distinct (map fst cs)"
    using keys JObj.prems(1) by (auto simp: distinct_map)
  ultimately show ?case using all all' c by (simp add: meaning_JObj list_all_iff)
qed auto

lemma canonicalValue_complete:
  "wf_js v \<Longrightarrow> meaning v \<noteq> None \<Longrightarrow> \<exists>c. canonicalValue p v = Inr c"
proof (induction v arbitrary: p)
  case (JArr xs)
  have "\<exists>c. canonicalValue (p @ [AtIndex j]) (xs ! j) = Inr c" if "j < length xs" for j
    using JArr that by (auto simp: meaning_JArr list_all_iff split: if_splits)
  then obtain f where f: "\<forall>j < length xs. canonicalValue (p @ [AtIndex j]) (xs ! j) = Inr (f j)"
    by metis
  then have "canonicalItems p 0 xs = Inr (map f [0..<length xs])"
    by (simp add: canonicalItems_iff)
  then show ?case by simp
next
  case (JObj es)
  have "\<exists>c. entry_result p e = Inr c" if mem: "e \<in> set es" for e
  proof -
    obtain k v where e: "e = (k, v)" by force
    have m: "meaning v \<noteq> None"
      using JObj.prems(2) mem e by (auto simp: meaning_JObj split: if_splits)
    moreover have "wf_js v" using JObj.prems(1) mem e by (auto simp: list_all_iff)
    ultimately obtain c where "canonicalValue (p @ [AtKey k]) v = Inr c"
      using JObj.IH [of e v] mem e by auto
    moreover have "v \<noteq> JUndefined" using m by auto
    ultimately show ?thesis by (simp add: entry_result_def e)
  qed
  then obtain f where "\<forall>e \<in> set es. entry_result p e = Inr (f e)" by metis
  then have "map (entry_result p) (sort_key fst es) = map Inr (map f (sort_key fst es))" by simp
  then have "sequence_results (map (entry_result p) (sort_key fst es)) = Inr (map f (sort_key fst es))"
    by (simp only: sequence_results_Inr_iff)
  then show ?case unfolding canonicalValue_JObj by simp
qed auto

lemma map_of_SomeD_entry:
  assumes "map_of (map (\<lambda>e. (fst e, f (snd e))) es) = map_of (map (\<lambda>e. (fst e, f (snd e))) fs)"
    and "distinct (map fst es)" "distinct (map fst fs)" "(k, v) \<in> set es"
  shows "\<exists>w. (k, w) \<in> set fs \<and> f v = f w"
proof -
  have "set (map (\<lambda>e. (fst e, f (snd e))) es) = set (map (\<lambda>e. (fst e, f (snd e))) fs)"
    using assms(1-3) by (subst map_of_inject_set [symmetric]) (auto simp: comp_def)
  moreover have "(k, f v) \<in> set (map (\<lambda>e. (fst e, f (snd e))) es)"
    using assms(4) by force
  ultimately show ?thesis by force
qed

lemma meaning_canonical: "canonical c \<Longrightarrow> meaning c \<noteq> None"
proof (induction c)
  case (JObj es)
  then have "\<forall>e \<in> set es. meaning (snd e) \<noteq> None"
    by (metis list_all_iff canonical.simps(6) snds.intros)
  then show ?case unfolding meaning_JObj by simp
qed (auto simp: meaning_JArr list_all_iff)

lemma meaning_inj: "canonical c \<Longrightarrow> canonical d \<Longrightarrow> meaning c = meaning d \<Longrightarrow> c = d"
proof (induction c arbitrary: d)
  case (JArr xs)
  have "meaning d \<noteq> None" using meaning_canonical JArr.prems(2) .
  then obtain ys where d: "d = JArr ys"
    using JArr.prems by (cases d) (auto simp: meaning_JArr meaning_JObj split: if_splits)
  have m: "map (the \<circ> meaning) xs = map (the \<circ> meaning) ys"
    and all: "\<forall>x \<in> set xs. meaning x \<noteq> None" "\<forall>y \<in> set ys. meaning y \<noteq> None"
    using JArr.prems meaning_canonical d by (auto simp: meaning_JArr list_all_iff)
  have len: "length xs = length ys" using m by (metis length_map)
  have "xs ! j = ys ! j" if j: "j < length xs" for j
  proof -
    have "the (meaning (xs ! j)) = the (meaning (ys ! j))"
      using m j len by (metis comp_apply nth_map)
    then have "meaning (xs ! j) = meaning (ys ! j)"
      using all j len by (metis nth_mem option.expand)
    then show ?thesis
      using JArr.IH [of "xs ! j" "ys ! j"] JArr.prems d j len by (auto simp: list_all_iff)
  qed
  then show ?case using d len by (simp add: nth_equalityI)
next
  case (JObj es)
  have all: "\<forall>e \<in> set es. meaning (snd e) \<noteq> None"
    using JObj.prems(1) meaning_canonical by (auto simp: list_all_iff)
  obtain fs where d: "d = JObj fs"
    using JObj.prems all by (cases d) (auto simp: meaning_JArr meaning_JObj split: if_splits)
  have all': "\<forall>f \<in> set fs. meaning (snd f) \<noteq> None"
    using JObj.prems(2) meaning_canonical d by (auto simp: list_all_iff)
  have m: "map_of (map (\<lambda>e. (fst e, the (meaning (snd e)))) es) =
      map_of (map (\<lambda>e. (fst e, the (meaning (snd e)))) fs)"
    using JObj.prems(3) all all' unfolding d meaning_JObj by simp
  have dist: "distinct (map fst es)" "distinct (map fst fs)" "sorted (map fst es)" "sorted (map fst fs)"
    using JObj.prems d by auto
  have sub: "(k, v) \<in> set fs" if mem: "(k, v) \<in> set es" for k v
  proof -
    obtain w where w: "(k, w) \<in> set fs" "the (meaning v) = the (meaning w)"
      using map_of_SomeD_entry [OF m dist(1,2) mem] by auto
    then have "meaning v = meaning w"
      using all all' mem by (metis option.expand snd_conv)
    moreover have "canonical v" "canonical w"
      using JObj.prems mem w d by (auto simp: list_all_iff)
    ultimately have "v = w" using JObj.IH [of "(k, v)" v w] mem by auto
    then show ?thesis using w by simp
  qed
  have keys: "set (map fst es) = set (map fst fs)"
    using arg_cong [OF m, of dom] by (simp add: dom_map_of_conv_image_fst image_comp comp_def)
  have sup: "(k, v) \<in> set es" if "(k, v) \<in> set fs" for k v
  proof -
    have "k \<in> set (map fst es)" using that keys by force
    then obtain w where w: "(k, w) \<in> set es" by auto
    then have "(k, w) \<in> set fs" by (rule sub)
    then have "v = w" using that dist(2) by (metis eq_key_imp_eq_value)
    then show ?thesis using w by simp
  qed
  have "set es = set fs" using sub sup by auto
  then show ?case
    using dist d by (auto intro: sorted_distinct_eq [where k = fst])
next
  case JNull
  then show ?case by (cases d) (auto simp: meaning_JArr meaning_JObj split: if_splits)
next
  case (JBool b)
  then show ?case by (cases d) (auto simp: meaning_JArr meaning_JObj split: if_splits)
next
  case (JNum t)
  then show ?case by (cases d) (auto simp: meaning_JArr meaning_JObj split: if_splits)
next
  case (JStr s)
  then show ?case by (cases d) (auto simp: meaning_JArr meaning_JObj split: if_splits)
qed auto

section \<open>Equality of documents\<close>

lemma canonicalize_Inr_iff:
  "canonicalizePaidEffectJson v = Inr s \<longleftrightarrow> (\<exists>c. canonicalValue [] v = Inr c \<and> s = json_stringify c)"
  by (auto simp: canonicalizePaidEffectJson_def bind_result_Inr_iff)

lemma paidEffectJsonEquals_alt:
  "paidEffectJsonEquals a b \<longleftrightarrow>
     (\<exists>s. canonicalizePaidEffectJson a = Inr s \<and> canonicalizePaidEffectJson b = Inr s)"
  by (auto simp: paidEffectJsonEquals_def split: sum.splits)

lemma canonicalize_eq_iff:
  assumes "wf_js a" "wf_js b"
  shows "(\<exists>s. canonicalizePaidEffectJson a = Inr s \<and> canonicalizePaidEffectJson b = Inr s) \<longleftrightarrow>
    meaning a \<noteq> None \<and> meaning a = meaning b"
proof
  assume "\<exists>s. canonicalizePaidEffectJson a = Inr s \<and> canonicalizePaidEffectJson b = Inr s"
  then obtain c d where cd: "canonicalValue [] a = Inr c" "canonicalValue [] b = Inr d"
    and eq: "json_stringify c = json_stringify d"
    by (auto simp: canonicalize_Inr_iff)
  from canonicalValue_sound [OF assms(1) cd(1)] canonicalValue_sound [OF assms(2) cd(2)]
  show "meaning a \<noteq> None \<and> meaning a = meaning b"
    using json_stringify_inj [OF _ _ eq] by metis
next
  assume m: "meaning a \<noteq> None \<and> meaning a = meaning b"
  obtain c where c: "canonicalValue [] a = Inr c"
    using canonicalValue_complete assms(1) m by blast
  obtain d where d: "canonicalValue [] b = Inr d"
    using canonicalValue_complete assms(2) m by metis
  have "c = d"
    using canonicalValue_sound [OF assms(1) c] canonicalValue_sound [OF assms(2) d] m
    by (metis meaning_inj)
  then show "\<exists>s. canonicalizePaidEffectJson a = Inr s \<and> canonicalizePaidEffectJson b = Inr s"
    using c d by (auto simp: canonicalize_Inr_iff)
qed

end
