(* ===== verification/PaidEffectInvariants.thy ===== *)
theory PaidEffectInvariants
  imports PaidEffectStore CanonicalJsonFacts
begin

text \<open>
  The invariants of the paid-effect store. \<open>row_inv\<close> is the shape of one row: the table's
  constraints, and the fence as a function of the state, which says how often the identity was
  sent. \<open>store_inv\<close> relates the rows to each other, to the authorisations and to the
  cancellation events. Every operation preserves it, so it holds in every reachable database.
\<close>

interpretation eff: keyed_table r_identity by unfold_locales
interpretation aut: keyed_table auth_key by unfold_locales
interpretation can: keyed_table ca_identity by unfold_locales
interpretation ctl: keyed_table cw_family by unfold_locales

named_theorems state_lists \<open>the constant lists of states\<close>

declare PAID_EFFECT_AUTHORIZATION_OPEN_STATES_def [state_lists]
  PAID_EFFECT_OBLIGATION_STATES_def [state_lists]
  PAID_EFFECT_SWITCH_BLOCKING_STATES_def [state_lists]
  PAID_EFFECT_ENTITY_GATE_STATES_def [state_lists]

section \<open>Reading the statements\<close>

lemma sameIdentity_iff [simp]: "sameIdentity a b \<longleftrightarrow> a = b"
  by (auto simp: sameIdentity_def intro: PaidEffectIdentity.equality)

lemma binds_successor_iff: "binds_successor i a \<longleftrightarrow> successorIdentityOf a = i"
  by (auto simp: binds_successor_def successorIdentityOf_def intro: PaidEffectIdentity.equality)

lemma voidedIdentityOf_auth_key: "voidedIdentityOf a = auth_key a"
  by (simp add: voidedIdentityOf_def auth_key_def)

lemma auth_key_authorization_of [simp]:
  "auth_key (authorization_of i s auth) = i"
  by (simp add: auth_key_def authorization_of_def)

lemma successor_authorization_of:
  "pe_family s = pe_family i \<Longrightarrow> pe_entityId s = pe_entityId i \<Longrightarrow>
     successorIdentityOf (authorization_of i s auth) = s"
  by (simp add: successorIdentityOf_def authorization_of_def)

lemma gate_scan_where_iff:
  "gate_scan_where i r \<longleftrightarrow>
     pe_family (r_identity r) = pe_family i \<and> pe_entityId (r_identity r) = pe_entityId i \<and>
     r_state r \<in> {Sending, Unknown} \<and> r_identity r \<noteq> i \<and> paidEffectGateBlocks (r_identity r) i"
  by (auto simp: gate_scan_where_def paidEffectGateBlocks_def state_lists
        intro: PaidEffectIdentity.equality)

lemma update_effects_Inr:
  "update_effects p f st = Inr (st', n) \<longleftrightarrow>
     st' = st\<lparr>effects := update_where p f (effects st)\<rparr> \<and> n = length (filter p (effects st)) \<and>
     (\<forall>r \<in> set (effects st). p r \<longrightarrow> paid_effect_checks (f r))"
  by (auto simp: update_effects_def Let_def list_all_iff)

lemma findGateBlocker_None:
  "findGateBlocker st i = Inr None \<Longrightarrow> \<forall>r \<in> set (effects st). \<not> gate_scan_where i r"
  by (auto simp: findGateBlocker_def parse_identity_def find_None_iff split: option.splits if_splits)

lemma scan_authorizations_None:
  "scan_authorizations st i d as = Inr None \<Longrightarrow> a \<in> set as \<Longrightarrow> successor_open st a \<Longrightarrow>
     successorIdentityOf a = i \<and> dl_backend d = au_successor_delivery_backend a \<and>
     dl_deliveryId d = au_successor_delivery_id a"
  by (induction as) (auto split: if_splits)

lemma checkSuccessorAuthorization_None:
  assumes "checkSuccessorAuthorization st i d = Inr None" and "a \<in> set (authorizations st)"
    and "au_family a = pe_family i" "au_entity_id a = pe_entityId i" and "successor_open st a"
  shows "successorIdentityOf a = i \<and> dl_backend d = au_successor_delivery_backend a \<and>
     dl_deliveryId d = au_successor_delivery_id a"
  using scan_authorizations_None assms
  by (fastforce simp: checkSuccessorAuthorization_def)

lemma claimLockedRow_ClaimFence:
  assumes "claimLockedRow now row i d st = Inr (st', ClaimFence n)"
  shows "n = r_fence row + 1 \<and>
    (\<exists>c. admitPaidEffectDeliveryControl st (pe_family i)
      \<lparr>ref_backend = dl_backend d, ref_deliveryId = dl_deliveryId d, ref_tickId = dl_tickId d,
       ref_generation = dl_generation d\<rparr> = Admitted c) \<and>
    findGateBlocker st i = Inr None \<and> checkSuccessorAuthorization st i d = Inr None \<and>
    (\<exists>st1. update_effects (\<lambda>r. r_identity r = i \<and> r_state r = Pending)
        (\<lambda>r. r\<lparr>r_state := Sending, r_fence := n, r_delivery_id := Some (dl_deliveryId d),
               r_delivery_backend := Some (dl_backend d), r_delivery_tick := dl_tickId d,
               r_send_lease_expires_at := Some (dl_leaseExpiresAt d),
               r_unresolved_reason := None, r_updated_at := now\<rparr>) st = Inr (st1, 1) \<and>
      st' = markAuthorizationConsumed now i d st1)"
  using assms
  by (auto simp: claimLockedRow_def bind_result_Inr_iff Let_def
        split: PaidEffectControlAdmission.splits option.splits if_splits prod.splits)

lemma claimLockedRow_ClaimBlocked:
  "claimLockedRow now row i d st = Inr (st', ClaimBlocked b) \<Longrightarrow> st' = st"
  by (auto simp: claimLockedRow_def bind_result_Inr_iff Let_def
        split: PaidEffectControlAdmission.splits option.splits if_splits prod.splits)

section \<open>The shape of a row\<close>

fun expected_fence :: "PaidEffectState \<Rightarrow> int" where
  "expected_fence Pending = 0"
| "expected_fence Voided = 2"
| "expected_fence _ = 1"

definition row_inv :: "effect_row \<Rightarrow> bool" where
  "row_inv r \<longleftrightarrow>
     paid_effect_checks r \<and> paidEffectIdentitySchema (r_identity r) \<and>
     r_fence r = expected_fence (r_state r) \<and>
     (r_delivery_id r = None \<longleftrightarrow> r_state r \<in> {Pending, Cancelled}) \<and>
     (r_delivery_backend r = None \<longleftrightarrow> r_state r \<in> {Pending, Cancelled}) \<and>
     (r_state r \<in> {Pending, Cancelled} \<longrightarrow>
        sent_evidence r = [] \<and> r_unresolved_reason r = None \<and> r_voided_at r = None \<and>
        r_void_json r = None)"

lemma row_inv_fresh:
  assumes "paidEffectIdentitySchema i"
  shows "row_inv (fresh_effect i input now)"
  using assms
  by (simp add: row_inv_def fresh_effect_def paid_effect_checks_def paid_effect_state_shape_ck_def
        sent_evidence_def paidEffectIdentitySchema_def)

text \<open>
  A move of an admitted row that keeps its delivery and its fence: recording a receipt, an
  unknown outcome, an application or an application failure.
\<close>

definition outcome_move :: "effect_row \<Rightarrow> effect_row \<Rightarrow> bool" where
  "outcome_move r r' \<longleftrightarrow>
     r_state r \<in> {Sending, Unknown, ReceiptReady} \<and> r_state r' \<in> {Unknown, ReceiptReady, Applied} \<and>
     r_identity r' = r_identity r \<and> r_input_json r' = r_input_json r \<and> r_fence r' = r_fence r \<and>
     r_delivery_id r' = r_delivery_id r \<and> r_delivery_backend r' = r_delivery_backend r \<and>
     r_created_at r' = r_created_at r"

lemma outcome_move_row_inv:
  "row_inv r \<Longrightarrow> outcome_move r r' \<Longrightarrow> paid_effect_checks r' \<Longrightarrow> row_inv r'"
  unfolding row_inv_def outcome_move_def
  by (elim conjE, cases "r_state r"; cases "r_state r'"; simp)

section \<open>The store invariant\<close>

definition gate_exclusive :: "effect_row list \<Rightarrow> bool" where
  "gate_exclusive es \<longleftrightarrow>
     (\<forall>r \<in> set es. \<forall>q \<in> set es.
        r_state r = Sending \<longrightarrow> r_state q = Sending \<longrightarrow> r_identity r \<noteq> r_identity q \<longrightarrow>
        pe_family (r_identity r) = pe_family (r_identity q) \<longrightarrow>
        pe_entityId (r_identity r) = pe_entityId (r_identity q) \<longrightarrow>
        \<not> paidEffectGateBlocks (r_identity r) (r_identity q))"

definition voided_under :: "authorization_row \<Rightarrow> effect_row \<Rightarrow> bool" where
  "voided_under a v \<longleftrightarrow> r_state v = Voided \<and>
     (\<exists>rc. r_void_json v = Some rc \<and> vr_successor rc = successorIdentityOf a \<and>
           vr_authorizationId rc = au_authorization_id a)"

definition bound_successor :: "authorization_row \<Rightarrow> effect_row \<Rightarrow> bool" where
  "bound_successor a s \<longleftrightarrow> r_state s \<noteq> Cancelled \<and>
     (r_state s = Pending \<or>
      (r_delivery_id s = Some (au_successor_delivery_id a) \<and>
       r_delivery_backend s = Some (au_successor_delivery_backend a)))"

definition auth_inv :: "effect_row list \<Rightarrow> authorization_row \<Rightarrow> bool" where
  "auth_inv es a \<longleftrightarrow>
     (\<exists>v. row_by r_identity (voidedIdentityOf a) es = Some v \<and> voided_under a v) \<and>
     (\<exists>s. row_by r_identity (successorIdentityOf a) es = Some s \<and> bound_successor a s)"

definition same_binding :: "authorization_row \<Rightarrow> authorization_row \<Rightarrow> bool" where
  "same_binding a b \<longleftrightarrow>
     au_authorization_id a = au_authorization_id b \<and>
     au_successor_delivery_backend a = au_successor_delivery_backend b \<and>
     au_successor_delivery_id a = au_successor_delivery_id b"

definition bindings_agree :: "authorization_row list \<Rightarrow> bool" where
  "bindings_agree as \<longleftrightarrow>
     (\<forall>a \<in> set as. \<forall>b \<in> set as. successorIdentityOf a = successorIdentityOf b \<longrightarrow> same_binding a b)"

definition cancellations_match :: "effect_row list \<Rightarrow> cancellation_row list \<Rightarrow> bool" where
  "cancellations_match es cs \<longleftrightarrow>
     r_identity ` {r \<in> set es. r_state r = Cancelled} = ca_identity ` set cs"

text \<open>
  The control row of a family carries its switch count, so its backend is the parity of the
  generation. A row whose send was admitted and whose outcome is not settled belongs to the
  backend that owns the family now: the switch drains the family first.
\<close>

definition backend_of_generation :: "int \<Rightarrow> PaidEffectBackend" where
  "backend_of_generation g = (if even g then PgBoss else Dbos)"

definition control_inv :: "store \<Rightarrow> bool" where
  "control_inv st \<longleftrightarrow> ctl.wf (controls st) \<and>
     (\<forall>c \<in> set (controls st). 0 \<le> cw_generation c \<and>
        cw_backend c = backend_of_generation (cw_generation c))"

definition owned_by_current :: "store \<Rightarrow> effect_row \<Rightarrow> bool" where
  "owned_by_current st r \<longleftrightarrow>
     (r_state r \<in> {Sending, Unknown, ReceiptReady} \<longrightarrow>
        r_delivery_backend r = Some (ctl_backend (readPaidEffectControl st (pe_family (r_identity r)))))"

definition store_inv :: "store \<Rightarrow> bool" where
  "store_inv st \<longleftrightarrow>
     control_inv st \<and> (\<forall>r \<in> set (effects st). owned_by_current st r) \<and>
     eff.wf (effects st) \<and> (\<forall>r \<in> set (effects st). row_inv r) \<and> gate_exclusive (effects st) \<and>
     aut.wf (authorizations st) \<and> (\<forall>a \<in> set (authorizations st). auth_inv (effects st) a) \<and>
     bindings_agree (authorizations st) \<and>
     can.wf (cancellations st) \<and> cancellations_match (effects st) (cancellations st)"

lemma store_inv_cong:
  "effects st' = effects st \<Longrightarrow> authorizations st' = authorizations st \<Longrightarrow>
     cancellations st' = cancellations st \<Longrightarrow> controls st' = controls st \<Longrightarrow>
     store_inv st' = store_inv st"
  by (simp add: store_inv_def control_inv_def owned_by_current_def readPaidEffectControl_def)

lemma control_cong:
  assumes "controls st' = controls st"
  shows "control_inv st' = control_inv st" "owned_by_current st' r = owned_by_current st r"
    "readPaidEffectControl st' fam = readPaidEffectControl st fam"
  using assms by (simp_all add: control_inv_def owned_by_current_def readPaidEffectControl_def)

lemma store_invD:
  assumes "store_inv st"
  shows "eff.wf (effects st)" "\<And>r. r \<in> set (effects st) \<Longrightarrow> row_inv r"
    "gate_exclusive (effects st)" "aut.wf (authorizations st)"
    "\<And>a. a \<in> set (authorizations st) \<Longrightarrow> auth_inv (effects st) a"
    "bindings_agree (authorizations st)" "can.wf (cancellations st)"
    "cancellations_match (effects st) (cancellations st)" "control_inv st"
    "\<And>r. r \<in> set (effects st) \<Longrightarrow> owned_by_current st r"
  using assms by (simp_all add: store_inv_def)

section \<open>Outcome moves preserve the invariant\<close>

lemma outcome_move_simps:
  assumes "outcome_move r r'"
  shows "r_identity r' = r_identity r" "r_state r' \<noteq> Sending" "r_state r' \<noteq> Cancelled"
    "r_state r \<noteq> Cancelled" "r_state r \<noteq> Voided" "r_state r \<noteq> Pending"
    "r_delivery_id r' = r_delivery_id r" "r_delivery_backend r' = r_delivery_backend r"
  using assms by (auto simp: outcome_move_def)

lemma auth_inv_outcome:
  assumes inv: "auth_inv es a" and move: "\<And>r. r \<in> set es \<Longrightarrow> p r \<Longrightarrow> outcome_move r (f r)"
  shows "auth_inv (update_where p f es) a"
proof -
  have ident: "\<And>r. r \<in> set es \<Longrightarrow> p r \<Longrightarrow> r_identity (f r) = r_identity r"
    using move outcome_move_simps(1) by blast
  obtain v s where v: "row_by r_identity (voidedIdentityOf a) es = Some v" "voided_under a v"
    and s: "row_by r_identity (successorIdentityOf a) es = Some s" "bound_successor a s"
    using inv by (auto simp: auth_inv_def)
  have mem: "v \<in> set es" "s \<in> set es" using v(1) s(1) by (auto dest: row_by_SomeD)
  have "\<not> p v" using move [OF mem(1)] v(2) by (auto simp: voided_under_def outcome_move_def)
  moreover have "bound_successor a (f s)" if "p s"
    using outcome_move_simps [OF move [OF mem(2) that]] s(2) by (auto simp: bound_successor_def)
  ultimately show ?thesis
    using v s by (auto simp: auth_inv_def eff.row_by_update [OF ident])
qed

lemma cancellations_match_update:
  assumes match: "cancellations_match es cs"
    and keep: "\<And>r. r \<in> set es \<Longrightarrow> p r \<Longrightarrow>
      r_identity (f r) = r_identity r \<and> r_state r \<noteq> Cancelled \<and> r_state (f r) \<noteq> Cancelled"
  shows "cancellations_match (update_where p f es) cs"
proof -
  have "r_identity ` {r \<in> set (update_where p f es). r_state r = Cancelled} =
      r_identity ` {r \<in> set es. r_state r = Cancelled}"
    using keep by (force simp: set_update_where image_def)
  then show ?thesis using match by (simp add: cancellations_match_def)
qed

lemma store_inv_outcome:
  assumes inv: "store_inv st" and upd: "update_effects p f st = Inr (st', n)"
    and move: "\<And>r. r \<in> set (effects st) \<Longrightarrow> row_inv r \<Longrightarrow> p r \<Longrightarrow> outcome_move r (f r)"
  shows "store_inv st'"
proof -
  let ?es = "effects st"
  have st': "st' = st\<lparr>effects := update_where p f ?es\<rparr>"
    and checks: "\<forall>r \<in> set ?es. p r \<longrightarrow> paid_effect_checks (f r)"
    using upd by (auto simp: update_effects_Inr)
  have rows: "\<forall>r \<in> set ?es. row_inv r" using inv by (simp add: store_inv_def)
  have mv: "\<And>r. r \<in> set ?es \<Longrightarrow> p r \<Longrightarrow> outcome_move r (f r)" using move rows by blast
  have "eff.wf (update_where p f ?es)"
    using inv mv outcome_move_simps(1) by (intro eff.wf_update) (auto simp: store_inv_def)
  moreover have "\<forall>r \<in> set (update_where p f ?es). row_inv r"
    using rows checks mv outcome_move_row_inv by (fastforce simp: set_update_where)
  moreover have "gate_exclusive (update_where p f ?es)"
    using inv mv outcome_move_simps(2)
    by (fastforce simp: store_inv_def gate_exclusive_def set_update_where)
  moreover have "\<forall>r \<in> set (update_where p f ?es). owned_by_current st r"
    using store_invD(10) [OF inv] mv
    by (fastforce simp: set_update_where owned_by_current_def outcome_move_def)
  moreover have "\<forall>a \<in> set (authorizations st). auth_inv (update_where p f ?es) a"
    using inv mv by (auto simp: store_inv_def intro: auth_inv_outcome)
  moreover have "cancellations_match (update_where p f ?es) (cancellations st)"
  proof (rule cancellations_match_update)
    show "cancellations_match ?es (cancellations st)" using inv by (simp add: store_inv_def)
    show "r_identity (f r) = r_identity r \<and> r_state r \<noteq> Cancelled \<and> r_state (f r) \<noteq> Cancelled"
      if "r \<in> set ?es" "p r" for r
      using outcome_move_simps [OF mv [OF that]] by simp
  qed
  ultimately show ?thesis using inv st'
    by (simp add: store_inv_def control_cong [of "st\<lparr>effects := _\<rparr>" st])
qed

end
