(* ===== verification/PaidEffectPreservation.thy ===== *)
theory PaidEffectPreservation
  imports PaidEffectInvariants
begin

text \<open>
  Every operation of the paid-effect store preserves \<open>store_inv\<close>.
\<close>

section \<open>Inserting an intent\<close>

lemma row_by_append_Some: "row_by key k rs = Some r \<Longrightarrow> row_by key k (rs @ ss) = Some r"
  by (induction rs) (auto simp: row_by_def split: if_splits)

lemma auth_inv_append: "auth_inv es a \<Longrightarrow> auth_inv (es @ rs) a"
  unfolding auth_inv_def using row_by_append_Some by metis

lemma effect_by_iff:
  "store_inv st \<Longrightarrow> effect_by i st = Some r \<longleftrightarrow> r \<in> set (effects st) \<and> r_identity r = i"
  by (simp add: effect_by_def eff.row_by_iff store_inv_def)

lemma fresh_effect_simps [simp]:
  "r_identity (fresh_effect i v now) = i" "r_state (fresh_effect i v now) = Pending"
  "r_input_json (fresh_effect i v now) = v" "r_fence (fresh_effect i v now) = 0"
  by (simp_all add: fresh_effect_def)

lemma store_inv_fresh:
  assumes inv: "store_inv st" and i: "paidEffectIdentitySchema i" "effect_by i st = None"
  shows "store_inv (st\<lparr>effects := effects st @ [fresh_effect i v now]\<rparr>)"
proof -
  let ?r = "fresh_effect i v now"
  let ?st = "st\<lparr>effects := effects st @ [?r]\<rparr>"
  have "eff.wf (effects st @ [?r])"
    using store_invD(1) [OF inv] i(2) by (simp add: eff.wf_insert effect_by_def)
  moreover have "gate_exclusive (effects st @ [?r])"
    using store_invD(3) [OF inv] by (auto simp: gate_exclusive_def)
  moreover have "cancellations_match (effects st @ [?r]) (cancellations st)"
    using store_invD(8) [OF inv] by (auto simp: cancellations_match_def conj_disj_distribR Collect_disj_eq)
  moreover have "owned_by_current st ?r" by (simp add: owned_by_current_def)
  ultimately show ?thesis
    using store_invD [OF inv] row_inv_fresh [OF i(1)] auth_inv_append
    by (auto simp: store_inv_def control_cong [of ?st st])
qed

lemma digest_of_checks: "paid_effect_checks (fresh_effect i v now) \<Longrightarrow> digest_text (pe_inputDigest i)"
  by (simp add: paid_effect_checks_def)

lemma insert_effect_Inr:
  assumes "insert_effect_on_conflict_do_nothing i v now st = Inr (st', b)"
  shows "v \<noteq> JNull \<and> digest_text (pe_inputDigest i) \<and>
    (if effect_by i st = None then b \<and> st' = st\<lparr>effects := effects st @ [fresh_effect i v now]\<rparr>
     else \<not> b \<and> st' = st)"
  using assms digest_of_checks
  by (auto simp: insert_effect_on_conflict_do_nothing_def jsonb_param_def split: if_splits)

lemma admitPaidEffectIntent_Inr:
  assumes "admitPaidEffectIntent h now raw st = Inr (st', res)"
  obtains i v where "computePaidEffectIdentity h raw = Inr i" "canonicalValue [] (in_input raw) = Inr v"
    "v \<noteq> JNull" "paidEffectIdentitySchema i"
    "effect_by i st = None \<Longrightarrow> res = AdmittedIntent \<and> st' = st\<lparr>effects := effects st @ [fresh_effect i v now]\<rparr>"
    "\<And>r. effect_by i st = Some r \<Longrightarrow>
       st' = st \<and> res = ExistingIntent (r_state r) \<and> paidEffectJsonEquals (r_input_json r) v"
proof -
  obtain i where i: "computePaidEffectIdentity h raw = Inr i"
    using assms by (cases "computePaidEffectIdentity h raw") (auto simp: admitPaidEffectIntent_def)
  obtain v where v: "canonicalValue [] (in_input raw) = Inr v"
    using assms i by (cases "canonicalValue [] (in_input raw)") (auto simp: admitPaidEffectIntent_def)
  obtain st1 b where ins: "insert_effect_on_conflict_do_nothing i v now st = Inr (st1, b)"
    using assms i v by (cases "insert_effect_on_conflict_do_nothing i v now st")
      (auto simp: admitPaidEffectIntent_def)
  note ins' = insert_effect_Inr [OF ins]
  have "paidEffectIdentitySchema i"
    using computePaidEffectIdentity_Inr [OF i] ins' by (simp add: paidEffectIdentitySchema_def)
  then show thesis
    using that [OF i v] ins' assms i v ins
    by (cases "effect_by i st") (auto simp: admitPaidEffectIntent_def lockRow_def split: if_splits)
qed

lemma store_inv_admit:
  assumes "store_inv st" "admitPaidEffectIntent h now raw st = Inr (st', res)"
  shows "store_inv st'"
  using assms(2)
proof (rule admitPaidEffectIntent_Inr)
  fix i v
  assume "paidEffectIdentitySchema i"
    "effect_by i st = None \<Longrightarrow>
       res = AdmittedIntent \<and> st' = st\<lparr>effects := effects st @ [fresh_effect i v now]\<rparr>"
    "\<And>r. effect_by i st = Some r \<Longrightarrow>
       st' = st \<and> res = ExistingIntent (r_state r) \<and> paidEffectJsonEquals (r_input_json r) v"
  then show "store_inv st'"
    using assms(1) store_inv_fresh by (cases "effect_by i st") auto
qed

section \<open>Changing one row\<close>

text \<open>
  An update of the one row with identity \<open>i\<close>: it reaches exactly that row, every other row is
  untouched.
\<close>

lemma update_where_at:
  assumes wf: "eff.wf es" and r: "r \<in> set es" and p: "\<And>q. p q \<Longrightarrow> r_identity q = r_identity r"
    and pr: "p r"
  shows "set (update_where p f es) = insert (f r) (set es - {r})" "length (filter p es) = 1"
proof -
  have only: "\<And>q. q \<in> set es \<Longrightarrow> p q \<longleftrightarrow> q = r"
    using p pr eff.wf_same_row [OF wf _ r] by blast
  then show "set (update_where p f es) = insert (f r) (set es - {r})"
    using r by (auto simp: set_update_where image_iff)
  have "filter p es = filter (\<lambda>q. q = r) es" using only by (simp cong: filter_cong)
  moreover have "distinct es" using wf by (simp add: eff.wf_def distinct_map)
  ultimately show "length (filter p es) = 1"
    using r by (simp add: distinct_length_filter Int_def cong: conj_cong)
qed

lemma row_by_update_at:
  assumes wf: "eff.wf es" and r: "r \<in> set es" and p: "\<And>q. p q \<Longrightarrow> r_identity q = r_identity r"
    and pr: "p r" and keep: "r_identity (f r) = r_identity r"
  shows "row_by r_identity k (update_where p f es) =
    (if k = r_identity r then Some (f r) else row_by r_identity k es)"
proof -
  have only: "\<And>q. q \<in> set es \<Longrightarrow> p q \<Longrightarrow> q = r"
    using p eff.wf_same_row [OF wf _ r] by blast
  have "row_by r_identity k (update_where p f es) =
      map_option (\<lambda>r. if p r then f r else r) (row_by r_identity k es)"
    using only keep by (intro eff.row_by_update) auto
  also have "\<dots> = (if k = r_identity r then Some (f r) else row_by r_identity k es)"
  proof (cases "row_by r_identity k es")
    case None
    then show ?thesis using eff.row_by_eq [OF wf r] by (cases "k = r_identity r") simp_all
  next
    case (Some q)
    then have q: "q \<in> set es" "r_identity q = k" by (auto dest: row_by_SomeD)
    have "p q \<longleftrightarrow> k = r_identity r" using only [OF q(1)] q pr eff.wf_same_row [OF wf q(1) r] by blast
    moreover have "q = r" if eq: "k = r_identity r"
      using q eq eff.wf_same_row [OF wf q(1) r] by simp
    ultimately show ?thesis using Some by simp
  qed
  finally show ?thesis .
qed

lemma auth_inv_at:
  assumes inv: "auth_inv es a" and wf: "eff.wf es" and r: "r \<in> set es"
    and p: "\<And>q. p q \<Longrightarrow> r_identity q = r_identity r" "p r" "r_identity (f r) = r_identity r"
    and "r_state r \<noteq> Voided" and "successorIdentityOf a = r_identity r \<Longrightarrow> bound_successor a (f r)"
  shows "auth_inv (update_where p f es) a"
proof -
  have "voidedIdentityOf a \<noteq> r_identity r"
    using inv assms(7) eff.row_by_eq [OF wf r] by (auto simp: auth_inv_def voided_under_def)
  then show ?thesis
    using inv assms(8) by (auto simp: auth_inv_def row_by_update_at [where p = p and f = f, OF wf r p])
qed

lemma store_inv_at:
  assumes inv: "store_inv st" and r: "r \<in> set (effects st)"
    and p: "\<And>q. p q \<Longrightarrow> r_identity q = r_identity r" "p r" "r_identity (f r) = r_identity r"
    and new: "row_inv (f r)" "owned_by_current st (f r)" "r_state r \<noteq> Voided"
    and gate: "\<And>q. r_state (f r) = Sending \<Longrightarrow> q \<in> set (effects st) \<Longrightarrow> r_state q = Sending \<Longrightarrow>
       r_identity q \<noteq> r_identity r \<Longrightarrow> pe_family (r_identity q) = pe_family (r_identity r) \<Longrightarrow>
       pe_entityId (r_identity q) = pe_entityId (r_identity r) \<Longrightarrow>
       \<not> paidEffectGateBlocks (r_identity q) (r_identity r)"
    and auth: "\<And>a. a \<in> set (authorizations st) \<Longrightarrow> successorIdentityOf a = r_identity r \<Longrightarrow>
       bound_successor a (f r)"
    and cs: "can.wf cs" "cancellations_match (update_where p f (effects st)) cs"
  shows "store_inv (st\<lparr>effects := update_where p f (effects st), cancellations := cs\<rparr>)"
proof -
  let ?es = "update_where p f (effects st)"
  let ?st = "st\<lparr>effects := ?es, cancellations := cs\<rparr>"
  note wf = store_invD(1) [OF inv]
  have only: "\<And>q. q \<in> set (effects st) \<Longrightarrow> p q \<Longrightarrow> q = r"
    using p eff.wf_same_row [OF wf _ r] by blast
  have set: "set ?es = insert (f r) (set (effects st) - {r})"
    using update_where_at(1) [where p = p and f = f, OF wf r p(1,2)] .
  have "eff.wf ?es"
  proof (rule eff.wf_update [OF wf])
    fix q assume "q \<in> set (effects st)" "p q"
    then have "q = r" by (rule only)
    then show "r_identity (f q) = r_identity q" using p(3) by simp
  qed
  moreover have "gate_exclusive ?es"
    unfolding gate_exclusive_def set
  proof (intro ballI impI)
    fix x y
    assume xy: "x \<in> insert (f r) (set (effects st) - {r})" "y \<in> insert (f r) (set (effects st) - {r})"
      "r_state x = Sending" "r_state y = Sending" "r_identity x \<noteq> r_identity y"
      "pe_family (r_identity x) = pe_family (r_identity y)"
      "pe_entityId (r_identity x) = pe_entityId (r_identity y)"
    show "\<not> paidEffectGateBlocks (r_identity x) (r_identity y)"
    proof (cases "x = f r")
      case True
      have "y \<noteq> f r" using True xy(5) by blast
      then have y: "y \<in> set (effects st)" using xy(2) by blast
      have "r_identity x = r_identity r" using True p(3) by metis
      moreover have "\<not> paidEffectGateBlocks (r_identity y) (r_identity r)"
        using xy(3-7) y unfolding True p(3) by (intro gate) (erule not_sym | erule sym | assumption)+
      ultimately show ?thesis using gateBlocks_sym by metis
    next
      case x: False
      show ?thesis
      proof (cases "y = f r")
        case True
        have "x \<in> set (effects st)" using x xy(1) by blast
        then show ?thesis
          using xy(3-7) unfolding True p(3) by (intro gate) assumption+
      next
        case False
        then have "x \<in> set (effects st)" "y \<in> set (effects st)" using x xy(1,2) by blast+
        then show ?thesis using store_invD(3) [OF inv] xy(3-7) by (simp add: gate_exclusive_def)
      qed
    qed
  qed
  moreover have "\<forall>a \<in> set (authorizations st). auth_inv ?es a"
    using auth_inv_at [where p = p and f = f, OF store_invD(5) [OF inv] wf r p] new(3) auth by blast
  ultimately show ?thesis
    using store_invD [OF inv] new cs by (auto simp: store_inv_def control_cong [of ?st st] set)
qed

section \<open>Claiming and reserving\<close>

lemma consumed_simps [simp]:
  "successorIdentityOf (a\<lparr>au_consumed_at := t, au_consumed_delivery_id := d\<rparr>) = successorIdentityOf a"
  "voidedIdentityOf (a\<lparr>au_consumed_at := t, au_consumed_delivery_id := d\<rparr>) = voidedIdentityOf a"
  "auth_key (a\<lparr>au_consumed_at := t, au_consumed_delivery_id := d\<rparr>) = auth_key a"
  "auth_inv es (a\<lparr>au_consumed_at := t, au_consumed_delivery_id := d\<rparr>) = auth_inv es a"
  "same_binding (a\<lparr>au_consumed_at := t, au_consumed_delivery_id := d\<rparr>) b = same_binding a b"
  "same_binding b (a\<lparr>au_consumed_at := t, au_consumed_delivery_id := d\<rparr>) = same_binding b a"
  by (simp_all add: successorIdentityOf_def voidedIdentityOf_def auth_key_def auth_inv_def
      voided_under_def bound_successor_def same_binding_def)

lemma store_inv_consumed: "store_inv st \<Longrightarrow> store_inv (markAuthorizationConsumed now i d st)"
proof -
  assume inv: "store_inv st"
  let ?st = "markAuthorizationConsumed now i d st"
  have "aut.wf (authorizations ?st)"
    using store_invD(4) [OF inv] by (auto simp: markAuthorizationConsumed_def intro: aut.wf_update)
  moreover have "\<forall>a \<in> set (authorizations ?st). auth_inv (effects st) a"
    using store_invD(5) [OF inv] by (auto simp: markAuthorizationConsumed_def set_update_where)
  moreover have "bindings_agree (authorizations ?st)"
    using store_invD(6) [OF inv]
    unfolding markAuthorizationConsumed_def bindings_agree_def by (force simp: update_where_def)
  moreover have "controls ?st = controls st" "effects ?st = effects st" "cancellations ?st = cancellations st"
    by (simp_all add: markAuthorizationConsumed_def)
  ultimately show ?thesis
    using store_invD [OF inv] by (simp add: store_inv_def control_cong [of ?st st])
qed

definition sending_row :: "int \<Rightarrow> int \<Rightarrow> PaidEffectSendClaimDelivery \<Rightarrow> effect_row \<Rightarrow> effect_row" where
  "sending_row now fence d r = r\<lparr>r_state := Sending, r_fence := fence,
     r_delivery_id := Some (dl_deliveryId d), r_delivery_backend := Some (dl_backend d),
     r_delivery_tick := dl_tickId d, r_send_lease_expires_at := Some (dl_leaseExpiresAt d),
     r_unresolved_reason := None, r_updated_at := now\<rparr>"

lemma sending_row_simps [simp]:
  "r_identity (sending_row now n d r) = r_identity r" "r_state (sending_row now n d r) = Sending"
  "r_fence (sending_row now n d r) = n" "r_input_json (sending_row now n d r) = r_input_json r"
  "r_delivery_id (sending_row now n d r) = Some (dl_deliveryId d)"
  "r_delivery_backend (sending_row now n d r) = Some (dl_backend d)"
  by (simp_all add: sending_row_def)

lemma bound_successor_sending:
  "dl_backend d = au_successor_delivery_backend a \<Longrightarrow> dl_deliveryId d = au_successor_delivery_id a \<Longrightarrow>
     bound_successor a (sending_row now n d r)"
  by (simp add: bound_successor_def)

lemma row_inv_sending:
  "row_inv r \<Longrightarrow> r_state r = Pending \<Longrightarrow> paid_effect_checks (sending_row now 1 d r) \<Longrightarrow>
     row_inv (sending_row now 1 d r)"
  by (simp add: row_inv_def)

text \<open>What a won claim did: the conditions it found and the one row it changed.\<close>

lemma claim_won:
  assumes inv: "store_inv st" and r: "r \<in> set (effects st)" "r_identity r = i" "r_state r = Pending"
    and won: "claimLockedRow now r i d st = Inr (st', ClaimFence n)"
  shows "n = 1" and "effects st' = update_where (\<lambda>q. r_identity q = i \<and> r_state q = Pending)
      (sending_row now 1 d) (effects st)"
    and "st' = markAuthorizationConsumed now i d (st\<lparr>effects := effects st'\<rparr>)"
    and "paid_effect_checks (sending_row now 1 d r)"
    and "ctl_backend (readPaidEffectControl st (pe_family i)) = dl_backend d"
    and "\<And>q. q \<in> set (effects st) \<Longrightarrow> \<not> gate_scan_where i q"
    and "\<And>a. a \<in> set (authorizations st) \<Longrightarrow> successorIdentityOf a = i \<Longrightarrow>
       dl_backend d = au_successor_delivery_backend a \<and> dl_deliveryId d = au_successor_delivery_id a"
proof -
  obtain c st1 where n: "n = r_fence r + 1"
    and adm: "admitPaidEffectDeliveryControl st (pe_family i)
      \<lparr>ref_backend = dl_backend d, ref_deliveryId = dl_deliveryId d, ref_tickId = dl_tickId d,
       ref_generation = dl_generation d\<rparr> = Admitted c"
    and gate: "findGateBlocker st i = Inr None"
    and auth: "checkSuccessorAuthorization st i d = Inr None"
    and upd: "update_effects (\<lambda>q. r_identity q = i \<and> r_state q = Pending) (sending_row now n d) st =
        Inr (st1, 1)"
    and st': "st' = markAuthorizationConsumed now i d st1"
    using claimLockedRow_ClaimFence [OF won] unfolding sending_row_def by blast
  have "r_fence r = 0" using store_invD(2) [OF inv r(1)] r(3) by (simp add: row_inv_def)
  with n show n1: "n = 1" by simp
  have st1: "st1 = st\<lparr>effects := update_where (\<lambda>q. r_identity q = i \<and> r_state q = Pending)
      (sending_row now 1 d) (effects st)\<rparr>"
    using upd unfolding n1 by (simp only: update_effects_Inr)
  then show es: "effects st' = update_where (\<lambda>q. r_identity q = i \<and> r_state q = Pending)
      (sending_row now 1 d) (effects st)"
    using st' by (simp add: markAuthorizationConsumed_def)
  show "st' = markAuthorizationConsumed now i d (st\<lparr>effects := effects st'\<rparr>)"
    using st' unfolding es st1 by simp
  show "paid_effect_checks (sending_row now 1 d r)"
    using upd r unfolding n1 update_effects_Inr by blast
  show "ctl_backend (readPaidEffectControl st (pe_family i)) = dl_backend d"
    using adm unfolding admitPaidEffectDeliveryControl_def
    by (metis PaidEffectDeliveryRef.select_convs(1) admission_Admitted_iff)
  show "\<And>q. q \<in> set (effects st) \<Longrightarrow> \<not> gate_scan_where i q"
    using findGateBlocker_None [OF gate] by blast
  show "dl_backend d = au_successor_delivery_backend a \<and> dl_deliveryId d = au_successor_delivery_id a"
    if a: "a \<in> set (authorizations st)" and i: "successorIdentityOf a = i" for a
  proof -
    have "effect_by (successorIdentityOf a) st = Some r"
      using effect_by_iff [OF inv] r i by simp
    then have "successor_open st a" using r(3) by (simp add: successor_open_def state_lists)
    moreover have "au_family a = pe_family i" "au_entity_id a = pe_entityId i"
      using i by (auto simp: successorIdentityOf_def)
    ultimately show ?thesis using checkSuccessorAuthorization_None [OF auth a] by blast
  qed
qed

lemma store_inv_claim:
  assumes inv: "store_inv st" and r: "effect_by i st = Some r" "r_state r = Pending"
    and run: "claimLockedRow now r i d st = Inr (st', out)"
  shows "store_inv st'"
proof (cases out)
  case (ClaimBlocked b)
  then show ?thesis using run inv by (auto dest: claimLockedRow_ClaimBlocked)
next
  case (ClaimFence n)
  have r': "r \<in> set (effects st)" "r_identity r = i" using r(1) effect_by_iff [OF inv] by auto
  note won = claim_won [OF inv r' r(2) run [unfolded ClaimFence]]
  let ?p = "\<lambda>q. r_identity q = i \<and> r_state q = Pending" and ?f = "sending_row now 1 d"
  have "store_inv (st\<lparr>effects := update_where ?p ?f (effects st), cancellations := cancellations st\<rparr>)"
  proof (rule store_inv_at [OF inv r'(1)])
    show "cancellations_match (update_where ?p ?f (effects st)) (cancellations st)"
      by (rule cancellations_match_update [OF store_invD(8) [OF inv]]) auto
    show "row_inv (?f r)"
      using row_inv_sending [OF store_invD(2) [OF inv r'(1)] r(2) won(4)] .
    show "bound_successor a (?f r)" if "a \<in> set (authorizations st)" "successorIdentityOf a = r_identity r" for a
      using won(7) [OF that(1)] that(2) r'(2) by (intro bound_successor_sending) auto
    show "\<not> paidEffectGateBlocks (r_identity q) (r_identity r)"
      if "q \<in> set (effects st)" "r_state q = Sending" "r_identity q \<noteq> r_identity r"
        "pe_family (r_identity q) = pe_family (r_identity r)"
        "pe_entityId (r_identity q) = pe_entityId (r_identity r)" for q
      using won(6) [OF that(1)] that r'(2) by (auto simp: gate_scan_where_iff)
  qed (use r r' won(5) store_invD(7) [OF inv] in \<open>auto simp: owned_by_current_def\<close>)
  then have "store_inv (st\<lparr>effects := effects st'\<rparr>)" using won(2) by simp
  then show ?thesis using won(3) store_inv_consumed by metis
qed

lemma claimPaidEffectSend_Inr:
  assumes run: "claimPaidEffectSend now i d st = Inr (st', out)"
  shows "(st' = st \<and> (\<forall>n. out \<noteq> Claimed n)) \<or>
    (\<exists>r n. effect_by i st = Some r \<and> r_state r = Pending \<and> out = Claimed n \<and>
       claimLockedRow now r i d st = Inr (st', ClaimFence n))"
proof (cases "effect_by i st")
  case None
  then show ?thesis using run by (auto simp: claimPaidEffectSend_def lockRow_def)
next
  case (Some r)
  show ?thesis
  proof (cases "r_state r = Pending")
    case True
    then obtain res where c: "claimLockedRow now r i d st = Inr res"
      using run Some by (cases "claimLockedRow now r i d st") (auto simp: claimPaidEffectSend_def lockRow_def)
    obtain st1 o1 where res: "res = (st1, o1)" by (cases res)
    have "claimLockedRow now r i d st = Inr (st1, ClaimBlocked b) \<Longrightarrow> st1 = st" for b
      by (rule claimLockedRow_ClaimBlocked)
    then show ?thesis
      using run Some True c unfolding res
      by (cases o1) (auto simp: claimPaidEffectSend_def lockRow_def)
  next
    case False
    then show ?thesis using run Some by (auto simp: claimPaidEffectSend_def lockRow_def)
  qed
qed

lemma reservePaidEffect_Inr:
  assumes run: "reservePaidEffect h now input d st = Inr (st', i, out)"
  shows "\<exists>st1 res. computePaidEffectIdentity h input = Inr i \<and>
    admitPaidEffectIntent h now input st = Inr (st1, res) \<and>
    ((st' = st1 \<and> (\<forall>n. out \<noteq> Winner n)) \<or>
     (\<exists>r n. effect_by i st1 = Some r \<and> r_state r = Pending \<and> out = Winner n \<and>
        claimLockedRow now r i d st1 = Inr (st', ClaimFence n)))"
proof -
  obtain i' where i': "computePaidEffectIdentity h input = Inr i'"
    using run by (cases "computePaidEffectIdentity h input") (auto simp: reservePaidEffect_def)
  obtain st1 res where adm: "admitPaidEffectIntent h now input st = Inr (st1, res)"
    using run i' by (cases "admitPaidEffectIntent h now input st") (auto simp: reservePaidEffect_def)
  obtain r where r: "effect_by i' st1 = Some r"
    using run i' adm by (cases "effect_by i' st1") (auto simp: reservePaidEffect_def lockRow_def)
  show ?thesis
  proof (cases "r_state r = Pending")
    case True
    then obtain st2 o1 where c: "claimLockedRow now r i' d st1 = Inr (st2, o1)"
      using run i' adm r
      by (cases "claimLockedRow now r i' d st1") (auto simp: reservePaidEffect_def lockRow_def)
    have "claimLockedRow now r i' d st1 = Inr (st2, ClaimBlocked b) \<Longrightarrow> st2 = st1" for b
      by (rule claimLockedRow_ClaimBlocked)
    then show ?thesis
      using run i' adm r True c
      by (cases o1) (auto simp: reservePaidEffect_def lockRow_def)
  next
    case False
    then have "st' = st1 \<and> i = i' \<and> (\<forall>n. out \<noteq> Winner n)"
      using run i' adm r
      by (cases "r_state r") (auto simp: reservePaidEffect_def lockRow_def)
    then show ?thesis using i' adm by blast
  qed
qed

lemma store_inv_claimPaidEffectSend:
  assumes inv: "store_inv st" and run: "claimPaidEffectSend now i d st = Inr (st', out)"
  shows "store_inv st'"
  using claimPaidEffectSend_Inr [OF run] store_inv_claim [OF inv] inv by blast

lemma store_inv_reserve:
  assumes inv: "store_inv st" and run: "reservePaidEffect h now input d st = Inr (st', i, out)"
  shows "store_inv st'"
  using reservePaidEffect_Inr [OF run] store_inv_admit [OF inv] store_inv_claim by blast

section \<open>Recording, settling and applying\<close>

lemma recordPaidEffectResult_Inr:
  assumes "recordPaidEffectResult now i deliveryId receipt fence st = Inr (st', out)"
  shows "\<exists>c r. canonicalizePaidEffectJson receipt = Inr c \<and> effect_by i st = Some r \<and>
    r_state r \<noteq> Pending \<and> r_delivery_id r = Some deliveryId \<and> r_fence r = fence \<and>
    ((out = IdempotentReceipt \<and> st' = st \<and> r_state r \<in> {ReceiptReady, Applied} \<and>
      paidEffectJsonEquals (jsonb_read (r_result_json r)) receipt) \<or>
     (out = Recorded \<and> r_state r \<notin> {ReceiptReady, Applied} \<and>
      (\<exists>n. update_effects (\<lambda>r. r_identity r = i \<and> r_state r \<in> {Sending, Unknown})
         (\<lambda>r. r\<lparr>r_state := ReceiptReady, r_result_json := jsonb_param receipt,
                r_result_recorded_at := Some now, r_send_lease_expires_at := None,
                r_unresolved_reason := None, r_updated_at := now\<rparr>) st = Inr (st', n))))"
  using assms
  by (auto simp: recordPaidEffectResult_def requireOwnerDelivery_def lockRow_def bind_result_Inr_iff
        split: sum.splits option.splits if_splits)

lemma store_inv_record:
  assumes inv: "store_inv st" and run: "recordPaidEffectResult now i dl receipt fence st = Inr (st', out)"
  shows "store_inv st'"
  using recordPaidEffectResult_Inr [OF run] inv
  by (auto elim!: store_inv_outcome [rotated] simp: outcome_move_def)

lemma markPaidEffectUnknown_Inr:
  assumes "markPaidEffectUnknown now i deliveryId reason fence st = Inr st'"
  shows "\<exists>r. effect_by i st = Some r \<and> r_delivery_id r = Some deliveryId \<and> r_fence r = fence \<and>
    r_state r \<notin> {Pending, ReceiptReady, Applied} \<and>
    (st' = st \<and> r_state r = Unknown \<or>
     (\<exists>n. r_state r \<noteq> Unknown \<and> update_effects (\<lambda>r. r_identity r = i \<and> r_state r = Sending)
        (\<lambda>r. r\<lparr>r_state := Unknown, r_send_lease_expires_at := None,
               r_unresolved_reason := Some reason, r_updated_at := now\<rparr>) st = Inr (st', n)))"
  using assms
  by (auto simp: markPaidEffectUnknown_def requireOwnerDelivery_def lockRow_def bind_result_Inr_iff
        split: option.splits if_splits)

lemma store_inv_unknown:
  assumes inv: "store_inv st" and run: "markPaidEffectUnknown now i dl reason fence st = Inr st'"
  shows "store_inv st'"
  using markPaidEffectUnknown_Inr [OF run] inv
  by (auto elim!: store_inv_outcome [rotated] simp: outcome_move_def)

lemma store_inv_degrade:
  assumes inv: "store_inv st"
    and run: "degradePaidEffectReceiptToUnknown now i fence reason st = Inr (st', b)"
  shows "store_inv st'"
  using run inv
  by (auto elim!: store_inv_outcome [rotated]
      simp: outcome_move_def degradePaidEffectReceiptToUnknown_def bind_result_Inr_iff)

lemma store_inv_settle:
  assumes inv: "store_inv st" and run: "settleExpiredPaidEffectSends fam now st = Inr (st', n)"
  shows "store_inv st'"
  using run inv
  by (auto elim!: store_inv_outcome [rotated] simp: outcome_move_def settleExpiredPaidEffectSends_def)

lemma notePaidEffectApplicationFailure_Inr:
  assumes "notePaidEffectApplicationFailure now i error st = Inr st'"
  shows "\<exists>r n. effect_by i st = Some r \<and> r_state r = ReceiptReady \<and>
    int4_ok (r_application_attempts r + 1) \<and>
    update_effects (\<lambda>r. r_identity r = i \<and> r_state r = ReceiptReady)
      (\<lambda>q. q\<lparr>r_application_attempts := r_application_attempts r + 1,
             r_last_application_error := Some (take 500 error), r_updated_at := now\<rparr>) st = Inr (st', n)"
  using assms
  by (auto simp: notePaidEffectApplicationFailure_def lockRow_def bind_result_Inr_iff
        split: option.splits if_splits)

lemma store_inv_note:
  assumes inv: "store_inv st" and run: "notePaidEffectApplicationFailure now i error st = Inr st'"
  shows "store_inv st'"
  using notePaidEffectApplicationFailure_Inr [OF run] inv
  by (auto elim!: store_inv_outcome [rotated] simp: outcome_move_def)

lemma recordPaidEffectApplication_Inr:
  assumes "recordPaidEffectApplication now i application st = Inr (st', out)"
  shows "\<exists>c r. canonicalizePaidEffectJson application = Inr c \<and> effect_by i st = Some r \<and>
    ((out = IdempotentApplication \<and> st' = st \<and> r_state r = Applied \<and>
      paidEffectJsonEquals (jsonb_read (r_application_json r)) application) \<or>
     (out = AppliedNow \<and> r_state r = ReceiptReady \<and>
      (\<exists>n. update_effects (\<lambda>r. r_identity r = i \<and> r_state r = ReceiptReady)
         (\<lambda>r. r\<lparr>r_state := Applied, r_application_json := jsonb_param application,
                r_applied_at := Some now, r_updated_at := now\<rparr>) st = Inr (st', n))))"
  using assms
  by (auto simp: recordPaidEffectApplication_def lockRow_def bind_result_Inr_iff
        split: sum.splits option.splits if_splits)

lemma store_inv_apply:
  assumes inv: "store_inv st" and run: "recordPaidEffectApplication now i application st = Inr (st', out)"
  shows "store_inv st'"
  using recordPaidEffectApplication_Inr [OF run] inv
  by (auto elim!: store_inv_outcome [rotated] simp: outcome_move_def)

end
