(* ===== verification/PaidEffectSuccession.thy ===== *)
theory PaidEffectSuccession
  imports PaidEffectPreservation
begin

text \<open>
  The operations that end an obligation without a result (void and cancel) and the backend
  switch: what a successful call found and changed, and that each preserves \<open>store_inv\<close>.
\<close>

section \<open>Voiding\<close>

definition void_receipt ::
  "PaidEffectVoidAuthorization \<Rightarrow> PaidEffectIdentity \<Rightarrow> int \<Rightarrow> PaidEffectVoidReceipt" where
  "void_receipt auth successor fence =
     \<lparr>vr_authorizationId = va_authorizationId auth, vr_reason = va_reason auth,
      vr_operator = va_operator auth, vr_basis = va_basis auth, vr_previousFence = fence,
      vr_successor = successor, vr_successorDelivery = va_successorDelivery auth\<rparr>"

definition voided_row :: "int \<Rightarrow> int \<Rightarrow> PaidEffectVoidReceipt \<Rightarrow> effect_row \<Rightarrow> effect_row" where
  "voided_row now fence rc r = r\<lparr>r_state := Voided, r_fence := fence, r_voided_at := Some now,
     r_void_json := Some rc, r_updated_at := now\<rparr>"

lemma voided_row_simps [simp]:
  "r_identity (voided_row now n rc r) = r_identity r" "r_state (voided_row now n rc r) = Voided"
  "r_fence (voided_row now n rc r) = n" "r_void_json (voided_row now n rc r) = Some rc"
  "r_delivery_id (voided_row now n rc r) = r_delivery_id r"
  "r_delivery_backend (voided_row now n rc r) = r_delivery_backend r"
  "r_input_json (voided_row now n rc r) = r_input_json r"
  by (simp_all add: voided_row_def)

definition void_target :: "PaidEffectIdentity \<Rightarrow> int \<Rightarrow> effect_row \<Rightarrow> bool" where
  "void_target i fence r \<longleftrightarrow> r_identity r = i \<and> r_state r = Unknown \<and> r_fence r = fence"

lemma voidPaidEffectWithSuccessor_Inr:
  assumes run: "voidPaidEffectWithSuccessor h now i expectedFence auth st = Inr (st', out)"
  obtains successor r where "computePaidEffectIdentity h (va_successorInput auth) = Inr successor"
    "pe_family successor = pe_family i" "pe_entityId successor = pe_entityId i" "successor \<noteq> i"
    "effect_by i st = Some r"
    "(\<exists>rc. r_state r = Voided \<and> r_void_json r = Some rc \<and> vr_authorizationId rc = va_authorizationId auth \<and>
        st' = st \<and> out = AlreadyVoided (va_authorizationId auth) i (vr_successor rc)) \<or>
     (r_state r = Unknown \<and> r_fence r = expectedFence \<and>
      out = VoidedOutcome (va_authorizationId auth) i successor now (expectedFence + 1) \<and>
      (\<exists>prior st1 st2. check_successor_free i successor auth st = Inr prior \<and>
        insert_authorization (authorization_of i successor auth) st = Inr st1 \<and>
        (if prior = None
         then admitPaidEffectIntent h now (va_successorInput auth) st1 = Inr (st2, AdmittedIntent)
         else st2 = st1) \<and>
        update_effects (void_target i expectedFence)
          (voided_row now (expectedFence + 1) (void_receipt auth successor expectedFence)) st2 =
          Inr (st', 1)))"
proof -
  obtain successor where s: "computePaidEffectIdentity h (va_successorInput auth) = Inr successor"
    using run by (cases "computePaidEffectIdentity h (va_successorInput auth)")
      (auto simp: voidPaidEffectWithSuccessor_def)
  have scope: "pe_family successor = pe_family i" "pe_entityId successor = pe_entityId i" "successor \<noteq> i"
    using run s by (auto simp: voidPaidEffectWithSuccessor_def split: if_splits)
  obtain r where r: "effect_by i st = Some r"
    using run s scope by (auto simp: voidPaidEffectWithSuccessor_def lockRow_def split: option.splits)
  note rule = that [OF s scope r]
  note run' = run [unfolded voidPaidEffectWithSuccessor_def lockRow_def]
  show thesis
  proof (cases "r_state r = Voided")
    case True
    then show thesis
      using run' s scope r by (intro rule) (auto split: option.splits if_splits)
  next
    case False
    then have u: "r_state r = Unknown" "r_fence r = expectedFence"
      using run' s scope r by (auto split: if_splits)
    show thesis
    proof (rule rule, rule disjI2)
      show "r_state r = Unknown \<and> r_fence r = expectedFence \<and>
        out = VoidedOutcome (va_authorizationId auth) i successor now (expectedFence + 1) \<and>
        (\<exists>prior st1 st2. check_successor_free i successor auth st = Inr prior \<and>
          insert_authorization (authorization_of i successor auth) st = Inr st1 \<and>
          (if prior = None
           then admitPaidEffectIntent h now (va_successorInput auth) st1 = Inr (st2, AdmittedIntent)
           else st2 = st1) \<and>
          update_effects (void_target i expectedFence)
            (voided_row now (expectedFence + 1) (void_receipt auth successor expectedFence)) st2 =
            Inr (st', 1))"
        using run' s scope r u
        by (simp add: bind_result_Inr_iff void_target_def [abs_def] voided_row_def [abs_def]
            void_receipt_def Let_def split: if_splits) blast
    qed
  qed
qed

lemma insert_authorization_Inr:
  "insert_authorization a st = Inr st' \<longleftrightarrow>
     authorization_checks a \<and> row_by auth_key (auth_key a) (authorizations st) = None \<and>
     effect_by (auth_key a) st \<noteq> None \<and> st' = st\<lparr>authorizations := authorizations st @ [a]\<rparr>"
  by (auto simp: insert_authorization_def)

lemma insert_effect_authorizations:
  "insert_effect_on_conflict_do_nothing i v now (st\<lparr>authorizations := as\<rparr>) =
     (case insert_effect_on_conflict_do_nothing i v now st of
        Inl e \<Rightarrow> Inl e | Inr (st1, b) \<Rightarrow> Inr (st1\<lparr>authorizations := as\<rparr>, b))"
  by (simp add: insert_effect_on_conflict_do_nothing_def effect_by_def)

lemma admit_authorizations_commute:
  assumes "admitPaidEffectIntent h now raw (st\<lparr>authorizations := as\<rparr>) = Inr (st', res)"
  shows "\<exists>st1. admitPaidEffectIntent h now raw st = Inr (st1, res) \<and> st' = st1\<lparr>authorizations := as\<rparr>"
proof -
  obtain i where i: "computePaidEffectIdentity h raw = Inr i"
    using assms by (cases "computePaidEffectIdentity h raw") (auto simp: admitPaidEffectIntent_def)
  obtain v where v: "canonicalValue [] (in_input raw) = Inr v"
    using assms i by (cases "canonicalValue [] (in_input raw)") (auto simp: admitPaidEffectIntent_def)
  obtain st1 b where ins: "insert_effect_on_conflict_do_nothing i v now st = Inr (st1, b)"
    using assms i v by (cases "insert_effect_on_conflict_do_nothing i v now st")
      (auto simp: admitPaidEffectIntent_def insert_effect_authorizations)
  show ?thesis
    using assms i v ins
    by (auto simp: admitPaidEffectIntent_def insert_effect_authorizations lockRow_def effect_by_def
          split: if_splits option.splits)
qed

lemma admitted_fresh:
  assumes "admitPaidEffectIntent h now raw st = Inr (st', AdmittedIntent)"
    and "computePaidEffectIdentity h raw = Inr i"
  shows "\<exists>v. canonicalValue [] (in_input raw) = Inr v \<and> v \<noteq> JNull \<and> paidEffectIdentitySchema i \<and>
    effect_by i st = None \<and> st' = st\<lparr>effects := effects st @ [fresh_effect i v now]\<rparr>"
  using assms(1)
proof (rule admitPaidEffectIntent_Inr)
  fix j v
  assume j: "computePaidEffectIdentity h raw = Inr j" and v: "canonicalValue [] (in_input raw) = Inr v"
    "v \<noteq> JNull" "paidEffectIdentitySchema j"
    and new: "effect_by j st = None \<Longrightarrow>
       AdmittedIntent = AdmittedIntent \<and> st' = st\<lparr>effects := effects st @ [fresh_effect j v now]\<rparr>"
    and old: "\<And>r. effect_by j st = Some r \<Longrightarrow>
       st' = st \<and> AdmittedIntent = ExistingIntent (r_state r) \<and> paidEffectJsonEquals (r_input_json r) v"
  have "j = i" using j assms(2) by simp
  moreover have "effect_by j st = None" using old by (cases "effect_by j st") auto
  ultimately show ?thesis using v new by auto
qed

text \<open>
  A successful void in terms of the store before it: the successor row is pending, the old row
  is voided and the authorisation is appended.
\<close>

lemma store_inv_authorize:
  assumes inv: "store_inv st" and new: "auth_inv (effects st) a"
    and key: "row_by auth_key (auth_key a) (authorizations st) = None"
    and agree: "\<And>b. b \<in> set (authorizations st) \<Longrightarrow> successorIdentityOf b = successorIdentityOf a \<Longrightarrow>
       same_binding b a"
  shows "store_inv (st\<lparr>authorizations := authorizations st @ [a]\<rparr>)"
proof -
  let ?st = "st\<lparr>authorizations := authorizations st @ [a]\<rparr>"
  have "bindings_agree (authorizations st @ [a])"
    unfolding bindings_agree_def
  proof (intro ballI impI)
    fix x y
    assume x: "x \<in> set (authorizations st @ [a])" and y: "y \<in> set (authorizations st @ [a])"
      and eq: "successorIdentityOf x = successorIdentityOf y"
    have old: "same_binding b a" if "b \<in> set (authorizations st @ [a])"
      "successorIdentityOf b = successorIdentityOf a" for b
      using that agree by (cases "b = a") (simp_all add: same_binding_def)
    show "same_binding x y"
    proof (cases "x = a \<or> y = a")
      case True
      then have "same_binding x a" "same_binding y a" using old x y eq by metis+
      then show ?thesis by (simp add: same_binding_def)
    next
      case False
      then show ?thesis using store_invD(6) [OF inv] x y eq by (simp add: bindings_agree_def)
    qed
  qed
  then show ?thesis
    using store_invD [OF inv] new key
    by (auto simp: store_inv_def control_cong [of ?st st] aut.wf_insert)
qed

lemma check_successor_free_Inr:
  assumes inv: "store_inv st" and free: "check_successor_free i successor auth st = Inr prior"
    and scope: "pe_family successor = pe_family i" "pe_entityId successor = pe_entityId i"
  shows "prior = None \<longleftrightarrow> effect_by successor st = None"
    and "prior \<noteq> None \<Longrightarrow> \<exists>s. effect_by successor st = Some s \<and> r_state s = Pending"
    and "b \<in> set (authorizations st) \<Longrightarrow> successorIdentityOf b = successor \<Longrightarrow>
      same_binding b (authorization_of i successor auth)"
proof -
  show a: "prior = None \<longleftrightarrow> effect_by successor st = None"
    using free by (auto simp: check_successor_free_def Let_def split: option.splits if_splits)
  show "prior \<noteq> None \<Longrightarrow> \<exists>s. effect_by successor st = Some s \<and> r_state s = Pending"
    using free by (auto simp: check_successor_free_def Let_def split: option.splits if_splits)
  show "same_binding b (authorization_of i successor auth)"
    if b: "b \<in> set (authorizations st)" "successorIdentityOf b = successor"
  proof -
    obtain p where p: "find (binds_successor successor) (authorizations st) = Some p"
      using b by (cases "find (binds_successor successor) (authorizations st)")
        (auto simp: find_None_iff binds_successor_iff)
    then have "p \<in> set (authorizations st)" "successorIdentityOf p = successor"
      by (auto simp: find_Some_iff binds_successor_iff)
    then have "same_binding b p"
      using store_invD(6) [OF inv] b by (simp add: bindings_agree_def)
    moreover have "same_binding p (authorization_of i successor auth)"
      using free p
      by (auto simp: check_successor_free_def Let_def same_binding_def authorization_of_def split: if_splits)
    ultimately show ?thesis by (simp add: same_binding_def)
  qed
qed

lemma void_done:
  assumes inv: "store_inv st"
    and s: "computePaidEffectIdentity h (va_successorInput auth) = Inr successor"
    and scope: "pe_family successor = pe_family i" "pe_entityId successor = pe_entityId i"
    and r: "effect_by i st = Some r" "r_state r = Unknown" "r_fence r = fence"
    and free: "check_successor_free i successor auth st = Inr prior"
    and ins: "insert_authorization (authorization_of i successor auth) st = Inr st1"
    and adm: "if prior = None
         then admitPaidEffectIntent h now (va_successorInput auth) st1 = Inr (st2, AdmittedIntent)
         else st2 = st1"
    and upd: "update_effects (void_target i fence)
        (voided_row now (fence + 1) (void_receipt auth successor fence)) st2 = Inr (st', 1)"
  obtains es s where "store_inv (st\<lparr>effects := es\<rparr>)" "r \<in> set es"
    "es = effects st \<or> (\<exists>v. es = effects st @ [fresh_effect successor v now] \<and> effect_by successor st = None \<and>
        canonicalValue [] (in_input (va_successorInput auth)) = Inr v \<and> v \<noteq> JNull \<and>
        paidEffectIdentitySchema successor)"
    "s \<in> set es" "r_identity s = successor" "r_state s = Pending"
    "row_by auth_key i (authorizations st) = None"
    "paid_effect_checks (voided_row now 2 (void_receipt auth successor 1) r)" "fence = 1"
    "st' = st\<lparr>effects := update_where (void_target i 1)
            (voided_row now 2 (void_receipt auth successor 1)) es,
          authorizations := authorizations st @ [authorization_of i successor auth]\<rparr>"
proof -
  let ?a = "authorization_of i successor auth"
  have mem: "r \<in> set (effects st)" "r_identity r = i" using r(1) effect_by_iff [OF inv] by auto
  have f1: "fence = 1" using store_invD(2) [OF inv mem(1)] r(2,3) by (simp add: row_inv_def)
  have st1: "st1 = st\<lparr>authorizations := authorizations st @ [?a]\<rparr>"
    and key: "row_by auth_key i (authorizations st) = None"
    using ins by (simp_all add: insert_authorization_Inr)
  note fin = upd [unfolded update_effects_Inr f1, simplified]
  have target: "void_target i 1 r" using mem r f1 by (simp add: void_target_def)
  show thesis
  proof (cases "effect_by successor st")
    case None
    then have "prior = None" using check_successor_free_Inr(1) [OF inv free scope] by simp
    with adm st1 obtain st1' where a: "admitPaidEffectIntent h now (va_successorInput auth) st = Inr (st1', AdmittedIntent)"
      and st2: "st2 = st1'\<lparr>authorizations := authorizations st @ [?a]\<rparr>"
      using admit_authorizations_commute by fastforce
    obtain v where v: "canonicalValue [] (in_input (va_successorInput auth)) = Inr v" "v \<noteq> JNull"
      "paidEffectIdentitySchema successor"
      and st1': "st1' = st\<lparr>effects := effects st @ [fresh_effect successor v now]\<rparr>"
      using admitted_fresh [OF a s] by blast
    let ?es = "effects st @ [fresh_effect successor v now]"
    have es2: "effects st2 = ?es" by (simp add: st2 st1')
    show thesis
    proof (rule that [of ?es "fresh_effect successor v now"])
      show "store_inv (st\<lparr>effects := ?es\<rparr>)" using store_inv_fresh [OF inv v(3) None] .
      show "paid_effect_checks (voided_row now 2 (void_receipt auth successor 1) r)"
        using fin mem(1) target unfolding es2 by simp
    qed (use mem v None key f1 fin st2 st1' in simp_all)
  next
    case (Some s0)
    then have "prior \<noteq> None" using check_successor_free_Inr(1) [OF inv free scope] by simp
    then have st2: "st2 = st1" using adm by simp
    obtain s where s: "effect_by successor st = Some s" "r_state s = Pending"
      using check_successor_free_Inr(2) [OF inv free scope] \<open>prior \<noteq> None\<close> by blast
    show thesis
    proof (rule that [of "effects st" s])
      show "paid_effect_checks (voided_row now 2 (void_receipt auth successor 1) r)"
        using fin mem(1) target unfolding st2 st1 by simp
    qed (use mem s inv effect_by_iff [OF inv] key f1 fin st2 st1 in simp_all)
  qed
qed

text \<open>The two ways a void call returns: a replay of the same authorisation, or a fresh void.\<close>

lemma void_cases:
  assumes inv: "store_inv st"
    and run: "voidPaidEffectWithSuccessor h now i fence auth st = Inr (st', out)"
  obtains
    (replay) r rc where "effect_by i st = Some r" "r_state r = Voided" "r_void_json r = Some rc"
      "vr_authorizationId rc = va_authorizationId auth" "st' = st"
      "out = AlreadyVoided (va_authorizationId auth) i (vr_successor rc)"
  | (fresh) successor r es s where
      "computePaidEffectIdentity h (va_successorInput auth) = Inr successor"
      "pe_family successor = pe_family i" "pe_entityId successor = pe_entityId i" "successor \<noteq> i"
      "effect_by i st = Some r" "r_state r = Unknown" "r_fence r = 1" "fence = 1"
      "out = VoidedOutcome (va_authorizationId auth) i successor now 2"
      "\<And>b. b \<in> set (authorizations st) \<Longrightarrow> successorIdentityOf b = successor \<Longrightarrow>
         same_binding b (authorization_of i successor auth)"
      "store_inv (st\<lparr>effects := es\<rparr>)" "r \<in> set es" "r_identity r = i"
      "es = effects st \<or> (\<exists>v. es = effects st @ [fresh_effect successor v now] \<and>
         effect_by successor st = None \<and>
         canonicalValue [] (in_input (va_successorInput auth)) = Inr v \<and> v \<noteq> JNull \<and>
         paidEffectIdentitySchema successor)"
      "s \<in> set es" "r_identity s = successor" "r_state s = Pending"
      "row_by auth_key i (authorizations st) = None"
      "paid_effect_checks (voided_row now 2 (void_receipt auth successor 1) r)"
      "st' = st\<lparr>effects := update_where (void_target i 1)
              (voided_row now 2 (void_receipt auth successor 1)) es,
            authorizations := authorizations st @ [authorization_of i successor auth]\<rparr>"
  using run
proof (rule voidPaidEffectWithSuccessor_Inr)
  fix successor r
  assume s: "computePaidEffectIdentity h (va_successorInput auth) = Inr successor"
    and scope: "pe_family successor = pe_family i" "pe_entityId successor = pe_entityId i"
    and neq: "successor \<noteq> i" and r: "effect_by i st = Some r"
    and cases: "(\<exists>rc. r_state r = Voided \<and> r_void_json r = Some rc \<and>
        vr_authorizationId rc = va_authorizationId auth \<and>
        st' = st \<and> out = AlreadyVoided (va_authorizationId auth) i (vr_successor rc)) \<or>
     (r_state r = Unknown \<and> r_fence r = fence \<and>
      out = VoidedOutcome (va_authorizationId auth) i successor now (fence + 1) \<and>
      (\<exists>prior st1 st2. check_successor_free i successor auth st = Inr prior \<and>
        insert_authorization (authorization_of i successor auth) st = Inr st1 \<and>
        (if prior = None
         then admitPaidEffectIntent h now (va_successorInput auth) st1 = Inr (st2, AdmittedIntent)
         else st2 = st1) \<and>
        update_effects (void_target i fence)
          (voided_row now (fence + 1) (void_receipt auth successor fence)) st2 = Inr (st', 1)))"
  show thesis
  proof (cases "r_state r = Voided")
    case True
    then show thesis using cases replay [OF r True] by auto
  next
    case False
    then obtain prior st1 st2 where u: "r_state r = Unknown" "r_fence r = fence"
      and out: "out = VoidedOutcome (va_authorizationId auth) i successor now (fence + 1)"
      and free: "check_successor_free i successor auth st = Inr prior"
      and ops: "insert_authorization (authorization_of i successor auth) st = Inr st1"
        "if prior = None
         then admitPaidEffectIntent h now (va_successorInput auth) st1 = Inr (st2, AdmittedIntent)
         else st2 = st1"
        "update_effects (void_target i fence)
          (voided_row now (fence + 1) (void_receipt auth successor fence)) st2 = Inr (st', 1)"
      using cases by blast
    have ri: "r_identity r = i" using r effect_by_iff [OF inv] by simp
    show thesis
    proof (rule void_done [OF inv s scope r u free ops])
      fix es q
      assume q: "store_inv (st\<lparr>effects := es\<rparr>)" "r \<in> set es"
        "es = effects st \<or> (\<exists>v. es = effects st @ [fresh_effect successor v now] \<and>
           effect_by successor st = None \<and>
           canonicalValue [] (in_input (va_successorInput auth)) = Inr v \<and> v \<noteq> JNull \<and>
           paidEffectIdentitySchema successor)"
        "q \<in> set es" "r_identity q = successor" "r_state q = Pending"
        "row_by auth_key i (authorizations st) = None"
        "paid_effect_checks (voided_row now 2 (void_receipt auth successor 1) r)"
        and f1: "fence = 1"
        and st': "st' = st\<lparr>effects := update_where (void_target i 1)
              (voided_row now 2 (void_receipt auth successor 1)) es,
            authorizations := authorizations st @ [authorization_of i successor auth]\<rparr>"
      have out2: "out = VoidedOutcome (va_authorizationId auth) i successor now 2"
        using out f1 by simp
      have f: "r_fence r = 1" using u f1 by simp
      show thesis
        using check_successor_free_Inr(3) [OF inv free scope]
        by (rule fresh [OF s scope neq r u(1) f f1 out2 _ q(1,2) ri q(3-8) st'])
    qed
  qed
qed

lemma store_inv_void:
  assumes inv: "store_inv st" and run: "voidPaidEffectWithSuccessor h now i fence auth st = Inr (st', out)"
  shows "store_inv st'"
  using inv run
proof (cases rule: void_cases)
  case replay
  then show ?thesis using inv by simp
next
  case (fresh successor r es q)
  note scope = fresh(2,3) and neq = fresh(4) and u = fresh(6) and bind = fresh(10)
    and es = fresh(11,12) and ri = fresh(13) and q = fresh(15-17) and key = fresh(18)
    and checks = fresh(19) and st' = fresh(20)
  show ?thesis
  proof -
    let ?a = "authorization_of i successor auth"
    let ?f = "voided_row now 2 (void_receipt auth successor 1)"
    let ?es = "update_where (void_target i 1) ?f es"
    let ?st = "st\<lparr>effects := es\<rparr>"
    note wf = store_invD(1) [OF es(1), simplified]
    have p: "\<And>x. void_target i 1 x \<Longrightarrow> r_identity x = r_identity r" "void_target i 1 r"
      "r_identity (?f r) = r_identity r"
      using ri u fresh(7) by (auto simp: void_target_def)
    have "store_inv (?st\<lparr>effects := update_where (void_target i 1) ?f (effects ?st),
        cancellations := cancellations ?st\<rparr>)"
    proof (rule store_inv_at [where p = "void_target i 1" and f = ?f, OF es(1) _ p])
      show "row_inv (?f r)"
        using store_invD(2) [OF es(1), of r] es(2) checks u by (simp add: row_inv_def)
      show "bound_successor a (?f r)" if "a \<in> set (authorizations ?st)" "successorIdentityOf a = r_identity r" for a
      proof -
        have "auth_inv es a" using store_invD(5) [OF es(1)] that by simp
        then have "bound_successor a r" using that(2) eff.row_by_eq [OF wf es(2)] by (simp add: auth_inv_def)
        then show ?thesis using u by (simp add: bound_successor_def)
      qed
      show "cancellations_match (update_where (void_target i 1) ?f (effects ?st)) (cancellations ?st)"
        by (rule cancellations_match_update [OF store_invD(8) [OF es(1)]]) (auto simp: void_target_def)
    qed (use es u store_invD(7) [OF es(1)] in \<open>auto simp: owned_by_current_def\<close>)
    then have main: "store_inv (st\<lparr>effects := ?es\<rparr>)" by simp
    have sa: "successorIdentityOf ?a = successor" "voidedIdentityOf ?a = i"
      by (simp_all add: successor_authorization_of scope voidedIdentityOf_auth_key)
    have aid: "au_authorization_id ?a = va_authorizationId auth" by (simp add: authorization_of_def)
    have rb: "\<And>k. row_by r_identity k ?es = (if k = r_identity r then Some (?f r) else row_by r_identity k es)"
      using row_by_update_at [where p = "void_target i 1" and f = ?f, OF wf es(2) p] .
    have "auth_inv ?es ?a"
      unfolding auth_inv_def sa rb
      using neq ri eff.row_by_eq [OF wf q(1)] q
      by (simp add: voided_under_def bound_successor_def sa void_receipt_def aid)
    then have "store_inv ((st\<lparr>effects := ?es\<rparr>)\<lparr>authorizations := authorizations (st\<lparr>effects := ?es\<rparr>) @ [?a]\<rparr>)"
      using key bind sa
      by (intro store_inv_authorize [OF main]) auto
    then show ?thesis unfolding st' by simp
  qed
qed

section \<open>Cancelling\<close>

definition cancel_receipt ::
  "PaidEffectCancelRequest \<Rightarrow> PaidEffectIdentity \<Rightarrow> int \<Rightarrow> PaidEffectCancelReceipt" where
  "cancel_receipt request i now =
     \<lparr>cr_requestId = cq_requestId request, cr_reason = cq_reason request,
      cr_operator = cq_operator request, cr_basis = cq_basis request,
      cr_previousFence = 0, cr_identity = i, cr_cancelledAt = now\<rparr>"

definition cancelled_row :: "int \<Rightarrow> PaidEffectCancelReceipt \<Rightarrow> effect_row \<Rightarrow> effect_row" where
  "cancelled_row now rc r = r\<lparr>r_state := Cancelled, r_fence := 1, r_cancelled_at := Some now,
     r_cancel_json := Some rc, r_updated_at := now\<rparr>"

lemma cancelled_row_simps [simp]:
  "r_identity (cancelled_row now rc r) = r_identity r" "r_state (cancelled_row now rc r) = Cancelled"
  "r_fence (cancelled_row now rc r) = 1" "r_cancel_json (cancelled_row now rc r) = Some rc"
  "r_delivery_id (cancelled_row now rc r) = r_delivery_id r"
  "r_delivery_backend (cancelled_row now rc r) = r_delivery_backend r"
  "r_input_json (cancelled_row now rc r) = r_input_json r"
  by (simp_all add: cancelled_row_def)

definition cancel_target :: "PaidEffectIdentity \<Rightarrow> effect_row \<Rightarrow> bool" where
  "cancel_target i r \<longleftrightarrow> r_identity r = i \<and> r_state r = Pending \<and> r_fence r = 0"

definition cancellation_of ::
  "PaidEffectIdentity \<Rightarrow> PaidEffectCancelRequest \<Rightarrow> cancellation_row" where
  "cancellation_of i request =
     \<lparr>ca_identity = i, ca_request_id = cq_requestId request, ca_reason = cq_reason request,
      ca_operator = cq_operator request, ca_basis = cq_basis request, ca_previous_fence = 0\<rparr>"

lemma ca_identity_cancellation_of [simp]: "ca_identity (cancellation_of i request) = i"
  by (simp add: cancellation_of_def)

lemma insert_cancellation_Inr:
  "insert_cancellation c st = Inr st' \<longleftrightarrow>
     cancellation_checks c \<and> row_by ca_identity (ca_identity c) (cancellations st) = None \<and>
     effect_by (ca_identity c) st \<noteq> None \<and> st' = st\<lparr>cancellations := cancellations st @ [c]\<rparr>"
  by (auto simp: insert_cancellation_def)

lemma cancelPaidEffectUnsentIntent_Inr:
  assumes run: "cancelPaidEffectUnsentIntent now i expectedFence request st = Inr (st', out)"
  shows "expectedFence = 0 \<and> (\<exists>r. effect_by i st = Some r \<and>
    ((\<exists>rc. r_state r = Cancelled \<and> r_cancel_json r = Some rc \<and> cancel_replay_matches rc request i 0 \<and>
        st' = st \<and> out = AlreadyCancelled (cq_requestId request) i rc) \<or>
     (r_state r = Pending \<and> r_fence r = 0 \<and> sent_evidence r = [] \<and>
      find (binds_successor i) (authorizations st) = None \<and>
      out = CancelledOutcome (cq_requestId request) i now 1 \<and>
      (\<exists>st1. insert_cancellation (cancellation_of i request) st = Inr st1 \<and>
         update_effects (cancel_target i) (cancelled_row now (cancel_receipt request i now)) st1 =
           Inr (st', 1)))))"
proof -
  note run' = run [unfolded cancelPaidEffectUnsentIntent_def lockRow_def]
  have e: "expectedFence = 0" using run' by (simp split: if_splits)
  obtain r where r: "effect_by i st = Some r" using run' e by (auto split: option.splits)
  show ?thesis
  proof (cases "r_state r = Cancelled")
    case True
    then show ?thesis using run' e r by (auto split: option.splits if_splits)
  next
    case False
    then have "r_state r = Pending" "r_fence r = 0" "sent_evidence r = []"
      "find (binds_successor i) (authorizations st) = None"
      using run' e r by (auto split: option.splits if_splits)
    then show ?thesis
      using run' e r
      by (simp add: bind_result_Inr_iff cancel_target_def [abs_def] cancelled_row_def [abs_def]
          cancel_receipt_def cancellation_of_def Let_def split: if_splits)
  qed
qed

lemma store_inv_cancel:
  assumes inv: "store_inv st" and run: "cancelPaidEffectUnsentIntent now i fence request st = Inr (st', out)"
  shows "store_inv st'"
proof -
  obtain r where r: "effect_by i st = Some r"
    and cases: "st' = st \<or>
     (r_state r = Pending \<and> r_fence r = 0 \<and> sent_evidence r = [] \<and>
      find (binds_successor i) (authorizations st) = None \<and>
      (\<exists>st1. insert_cancellation (cancellation_of i request) st = Inr st1 \<and>
         update_effects (cancel_target i) (cancelled_row now (cancel_receipt request i now)) st1 =
           Inr (st', 1)))"
    using cancelPaidEffectUnsentIntent_Inr [OF run] by blast
  show ?thesis
  proof (cases "st' = st")
    case True
    then show ?thesis using inv by simp
  next
    case False
    let ?c = "cancellation_of i request"
    let ?f = "cancelled_row now (cancel_receipt request i now)"
    have u: "r_state r = Pending" "r_fence r = 0" "sent_evidence r = []"
      "find (binds_successor i) (authorizations st) = None"
      using cases False by auto
    obtain st1 where ins: "insert_cancellation ?c st = Inr st1"
      and upd: "update_effects (cancel_target i) ?f st1 = Inr (st', 1)"
      using cases False by blast
    have mem: "r \<in> set (effects st)" "r_identity r = i" using r effect_by_iff [OF inv] by auto
    have key: "row_by ca_identity i (cancellations st) = None"
      and st1: "st1 = st\<lparr>cancellations := cancellations st @ [?c]\<rparr>"
      using ins by (simp_all add: insert_cancellation_Inr)
    have st': "st' = st\<lparr>effects := update_where (cancel_target i) ?f (effects st),
        cancellations := cancellations st @ [?c]\<rparr>"
      using upd unfolding st1 update_effects_Inr by simp
    have p: "\<And>x. cancel_target i x \<Longrightarrow> r_identity x = r_identity r" "cancel_target i r"
      "r_identity (?f r) = r_identity r"
      using mem u by (auto simp: cancel_target_def)
    have checks: "paid_effect_checks (?f r)"
      using upd mem p(2) unfolding st1 update_effects_Inr by simp
    have unbound: "successorIdentityOf a \<noteq> i" if "a \<in> set (authorizations st)" for a
      using u(4) that by (auto simp: find_None_iff binds_successor_iff)
    have upd_set: "set (update_where (cancel_target i) ?f (effects st)) =
        insert (?f r) (set (effects st) - {r})"
      by (rule update_where_at(1) [where p = "cancel_target i" and f = ?f,
            OF store_invD(1) [OF inv] mem(1) p(1,2)])
    show ?thesis
      unfolding st'
    proof (rule store_inv_at [where p = "cancel_target i" and f = ?f, OF inv mem(1) p])
      show "row_inv (?f r)"
        using store_invD(2) [OF inv mem(1)] checks u
        by (auto simp: row_inv_def sent_evidence_def cancelled_row_def)
      show "can.wf (cancellations st @ [?c])"
        using store_invD(7) [OF inv] key by (simp add: can.wf_insert)
      have "r_identity ` {q \<in> set (update_where (cancel_target i) ?f (effects st)). r_state q = Cancelled}
          = insert i (r_identity ` {q \<in> set (effects st). r_state q = Cancelled})"
      proof -
        have "{q \<in> set (update_where (cancel_target i) ?f (effects st)). r_state q = Cancelled} =
            insert (?f r) {q \<in> set (effects st). r_state q = Cancelled}"
          using u(1) unfolding upd_set by auto
        then show ?thesis using mem(2) by simp
      qed
      then show "cancellations_match (update_where (cancel_target i) ?f (effects st))
          (cancellations st @ [?c])"
        using store_invD(8) [OF inv] by (simp add: cancellations_match_def)
    qed (use u mem unbound in \<open>auto simp: owned_by_current_def\<close>)
  qed
qed

section \<open>Switching\<close>

lemma count_by_state_None:
  "count_by_state fam st s = None \<longleftrightarrow>
     (\<forall>r \<in> set (effects st). pe_family (r_identity r) = fam \<and> r_state r = s \<longrightarrow>
        s \<notin> set PAID_EFFECT_SWITCH_BLOCKING_STATES)"
  by (auto simp: count_by_state_def Let_def filter_empty_conv)

lemma count_by_state_pos: "count_by_state fam st s = Some n \<Longrightarrow> 0 < n"
  by (auto simp: count_by_state_def Let_def split: if_splits)

definition family_drained :: "string \<Rightarrow> store \<Rightarrow> bool" where
  "family_drained fam st \<longleftrightarrow>
     (\<forall>r \<in> set (effects st). pe_family (r_identity r) = fam \<longrightarrow> r_state r \<in> {Applied, Voided, Cancelled})"

lemma not_blocked_iff:
  "fst (summarizePaidEffectSwitchBlocking (count_by_state fam st)) = False \<longleftrightarrow> family_drained fam st"
proof -
  have "fst (summarizePaidEffectSwitchBlocking (count_by_state fam st)) = False \<longleftrightarrow>
      (\<forall>s \<in> {Pending, Sending, Unknown, ReceiptReady}. count_by_state fam st s = None)"
    by (auto simp: summarizePaidEffectSwitchBlocking_def Let_def split: option.splits
          dest: count_by_state_pos)
  also have "\<dots> \<longleftrightarrow> (\<forall>r \<in> set (effects st). pe_family (r_identity r) = fam \<longrightarrow>
      r_state r \<notin> {Pending, Sending, Unknown, ReceiptReady})"
    by (auto simp: count_by_state_None state_lists)
  also have "\<dots> \<longleftrightarrow> family_drained fam st"
  proof -
    have "s \<notin> {Pending, Sending, Unknown, ReceiptReady} \<longleftrightarrow> s \<in> {Applied, Voided, Cancelled}" for s
      by (cases s) auto
    then show ?thesis by (simp add: family_drained_def)
  qed
  finally show ?thesis .
qed

lemma materialize_effects [simp]:
  "effects (materialize_control fam st) = effects st"
  "authorizations (materialize_control fam st) = authorizations st"
  "cancellations (materialize_control fam st) = cancellations st"
  by (auto simp: materialize_control_def split: option.splits)

lemma row_by_append_new:
  "row_by key k (rs @ [r]) =
     (case row_by key k rs of Some q \<Rightarrow> Some q | None \<Rightarrow> if key r = k then Some r else None)"
  by (induction rs) (auto simp: row_by_def)

lemma readControl_materialize:
  "ctl_backend (readPaidEffectControl (materialize_control fam st) f) = ctl_backend (readPaidEffectControl st f)"
  "ctl_generation (readPaidEffectControl (materialize_control fam st) f) =
     ctl_generation (readPaidEffectControl st f)"
  by (auto simp: materialize_control_def readPaidEffectControl_def defaultControl_def
        rowToControl_def row_by_append_new split: option.splits)

lemma control_inv_materialize: "control_inv st \<Longrightarrow> control_inv (materialize_control fam st)"
  by (auto simp: control_inv_def materialize_control_def backend_of_generation_def ctl.wf_insert
        DEFAULT_PAID_EFFECT_BACKEND_def DEFAULT_PAID_EFFECT_GENERATION_def split: option.splits)

lemma control_inv_read:
  assumes "control_inv st"
  shows "0 \<le> ctl_generation (readPaidEffectControl st fam)"
    "ctl_backend (readPaidEffectControl st fam) =
       backend_of_generation (ctl_generation (readPaidEffectControl st fam))"
  using assms
  by (auto simp: control_inv_def readPaidEffectControl_def defaultControl_def rowToControl_def
        backend_of_generation_def DEFAULT_PAID_EFFECT_BACKEND_def DEFAULT_PAID_EFFECT_GENERATION_def
        dest!: row_by_SomeD split: option.splits)

text \<open>What a successful switch found and did.\<close>

lemma readControl_update:
  "row_by cw_family fam (controls st) = Some c \<Longrightarrow>
     readPaidEffectControl (st\<lparr>controls := update_where (\<lambda>c. cw_family c = fam)
       (\<lambda>c. c\<lparr>cw_backend := b, cw_generation := g\<rparr>) (controls st)\<rparr>) f =
     (if f = fam then \<lparr>ctl_family = fam, ctl_backend = b, ctl_generation = g, ctl_explicit = True\<rparr>
      else readPaidEffectControl st f)"
proof -
  assume c: "row_by cw_family fam (controls st) = Some c"
  have "row_by cw_family f (update_where (\<lambda>c. cw_family c = fam)
       (\<lambda>c. c\<lparr>cw_backend := b, cw_generation := g\<rparr>) (controls st)) =
     map_option (\<lambda>c. if cw_family c = fam then c\<lparr>cw_backend := b, cw_generation := g\<rparr> else c)
       (row_by cw_family f (controls st))"
    by (rule ctl.row_by_update) simp
  then show ?thesis
    using c by (auto simp: readPaidEffectControl_def rowToControl_def dest!: row_by_SomeD split: option.splits)
qed

lemma materialized_row: "\<exists>c. row_by cw_family fam (controls (materialize_control fam st)) = Some c"
  by (auto simp: materialize_control_def row_by_append_new split: option.splits)

lemma switchPaidEffectBackend_Inr:
  assumes run: "switchPaidEffectBackend fam to st = Inr (st', snap)"
  shows "family_drained fam st" and "effects st' = effects st" "authorizations st' = authorizations st"
    "cancellations st' = cancellations st"
    and "ctl_backend (readPaidEffectControl st' fam) = to"
    and "ctl_generation (readPaidEffectControl st' fam) = ctl_generation (readPaidEffectControl st fam) +
      (if ctl_backend (readPaidEffectControl st fam) = to then 0 else 1)"
    and "\<And>f. f \<noteq> fam \<Longrightarrow> ctl_backend (readPaidEffectControl st' f) = ctl_backend (readPaidEffectControl st f) \<and>
      ctl_generation (readPaidEffectControl st' f) = ctl_generation (readPaidEffectControl st f)"
    and "snap = readPaidEffectControl st' fam"
    and "control_inv st \<Longrightarrow> control_inv st'"
proof -
  let ?m = "materialize_control fam st"
  let ?c = "readPaidEffectControl ?m fam"
  let ?g = "ctl_generation (readPaidEffectControl st fam) + 1"
  obtain b blk where blk: "summarizePaidEffectSwitchBlocking (count_by_state fam ?m) = (b, blk)"
    by (cases "summarizePaidEffectSwitchBlocking (count_by_state fam ?m)")
  note run' = run [unfolded switchPaidEffectBackend_def Let_def blk, simplified]
  have "b = False" using run' by (simp split: if_splits)
  then show drained: "family_drained fam st"
    using not_blocked_iff [of fam ?m] blk by (simp add: family_drained_def)
  obtain c where c: "row_by cw_family fam (controls ?m) = Some c" using materialized_row by blast
  have cases: "(ctl_backend (readPaidEffectControl st fam) = to \<and> st' = ?m \<and> snap = ?c) \<or>
     (ctl_backend (readPaidEffectControl st fam) \<noteq> to \<and>
      st' = ?m\<lparr>controls := update_where (\<lambda>c. cw_family c = fam)
         (\<lambda>c. c\<lparr>cw_backend := to, cw_generation := ?g\<rparr>) (controls ?m)\<rparr> \<and>
      snap = \<lparr>ctl_family = fam, ctl_backend = to, ctl_generation = ?g, ctl_explicit = True\<rparr>)"
    using run' by (auto simp: readControl_materialize split: if_splits)
  then show "effects st' = effects st" "authorizations st' = authorizations st"
    "cancellations st' = cancellations st"
    by auto
  note upd = readControl_update [where b = to and g = ?g, OF c]
  show "ctl_backend (readPaidEffectControl st' fam) = to" using cases by (auto simp: upd readControl_materialize)
  show "ctl_generation (readPaidEffectControl st' fam) = ctl_generation (readPaidEffectControl st fam) +
      (if ctl_backend (readPaidEffectControl st fam) = to then 0 else 1)"
    using cases by (auto simp: upd readControl_materialize)
  show "snap = readPaidEffectControl st' fam" using cases by (auto simp: upd)
  show "ctl_backend (readPaidEffectControl st' f) = ctl_backend (readPaidEffectControl st f) \<and>
      ctl_generation (readPaidEffectControl st' f) = ctl_generation (readPaidEffectControl st f)"
    if "f \<noteq> fam" for f
    using cases that by (auto simp: upd readControl_materialize)
  show "control_inv st'" if inv: "control_inv st"
  proof -
    note m = control_inv_materialize [OF inv, of fam]
    note read = control_inv_read [OF inv, of fam]
    have "to = backend_of_generation ?g" if "ctl_backend (readPaidEffectControl st fam) \<noteq> to"
      using read that by (cases to) (auto simp: backend_of_generation_def split: if_splits)
    moreover have "ctl.wf (update_where (\<lambda>c. cw_family c = fam)
        (\<lambda>c. c\<lparr>cw_backend := to, cw_generation := ?g\<rparr>) (controls ?m))"
      using m by (intro ctl.wf_update) (auto simp: control_inv_def)
    ultimately show ?thesis
      using cases m read by (auto simp: control_inv_def set_update_where)
  qed
qed

lemma store_inv_switch:
  assumes inv: "store_inv st" and run: "switchPaidEffectBackend fam to st = Inr (st', snap)"
  shows "store_inv st'"
proof -
  note sw = switchPaidEffectBackend_Inr [OF run]
  have "owned_by_current st' r" if r: "r \<in> set (effects st)" for r
  proof (cases "pe_family (r_identity r) = fam")
    case True
    then show ?thesis using sw(1) r by (auto simp: family_drained_def owned_by_current_def)
  next
    case False
    then show ?thesis
      using store_invD(10) [OF inv r] sw(7) [OF False] by (simp add: owned_by_current_def)
  qed
  then show ?thesis
    using store_invD [OF inv] sw by (simp add: store_inv_def)
qed

end
