(* ===== verification/PaidEffectRuns.thy ===== *)
theory PaidEffectRuns
  imports PaidEffectSuccession
begin

text \<open>
  The paid-effect store as a transition system. A step is one committed call; a call that
  throws rolls its transaction back and is no step. The label says what the step did to the
  outside: \<open>EvSend\<close> is the moment the caller is told it may send. A run is a list of labels.
  \<open>row_step\<close> is the abstract life of one obligation, which every step refines.
\<close>

section \<open>Steps\<close>

datatype pe_event =
    EvAdmit PaidEffectInput
  | EvSend PaidEffectIdentity PaidEffectSendClaimDelivery int
  | EvRefused PaidEffectIdentity
  | EvRecord PaidEffectIdentity
  | EvUnknown PaidEffectIdentity
  | EvDegrade PaidEffectIdentity
  | EvVoid PaidEffectIdentity
  | EvCancel PaidEffectIdentity
  | EvSettle
  | EvNote PaidEffectIdentity
  | EvApply PaidEffectIdentity
  | EvSwitch string PaidEffectBackend
  | EvEnvironment

text \<open>
  \<open>environment\<close> is everything other parts of the system do to the scheduler's and the event
  tables; they never write the protocol's own tables.
\<close>

inductive pe_step :: "(string \<Rightarrow> string) \<Rightarrow> store \<Rightarrow> pe_event \<Rightarrow> store \<Rightarrow> bool"
  for h :: "string \<Rightarrow> string" where
  admit: "admitPaidEffectIntent h now raw st = Inr (st', res) \<Longrightarrow> pe_step h st (EvAdmit raw) st'"
| claim: "claimPaidEffectSend now i d st = Inr (st', Claimed n) \<Longrightarrow> pe_step h st (EvSend i d n) st'"
| claim_refused: "claimPaidEffectSend now i d st = Inr (st', out) \<Longrightarrow> \<forall>n. out \<noteq> Claimed n \<Longrightarrow>
    pe_step h st (EvRefused i) st'"
| reserve: "reservePaidEffect h now raw d st = Inr (st', i, Winner n) \<Longrightarrow> pe_step h st (EvSend i d n) st'"
| reserve_other: "reservePaidEffect h now raw d st = Inr (st', i, out) \<Longrightarrow> \<forall>n. out \<noteq> Winner n \<Longrightarrow>
    pe_step h st (EvAdmit raw) st'"
| record_receipt: "recordPaidEffectResult now i delivery receipt fence st = Inr (st', out) \<Longrightarrow>
    pe_step h st (EvRecord i) st'"
| unknown: "markPaidEffectUnknown now i delivery reason fence st = Inr st' \<Longrightarrow>
    pe_step h st (EvUnknown i) st'"
| degrade: "degradePaidEffectReceiptToUnknown now i fence reason st = Inr (st', b) \<Longrightarrow>
    pe_step h st (EvDegrade i) st'"
| void: "voidPaidEffectWithSuccessor h now i fence auth st = Inr (st', out) \<Longrightarrow>
    pe_step h st (EvVoid i) st'"
| cancel: "cancelPaidEffectUnsentIntent now i fence request st = Inr (st', out) \<Longrightarrow>
    pe_step h st (EvCancel i) st'"
| settle: "settleExpiredPaidEffectSends fam now st = Inr (st', k) \<Longrightarrow> pe_step h st EvSettle st'"
| note_failure: "notePaidEffectApplicationFailure now i error st = Inr st' \<Longrightarrow>
    pe_step h st (EvNote i) st'"
| apply_receipt: "recordPaidEffectApplication now i application st = Inr (st', out) \<Longrightarrow>
    pe_step h st (EvApply i) st'"
| switch: "switchPaidEffectBackend fam to st = Inr (st', snap) \<Longrightarrow> pe_step h st (EvSwitch fam to) st'"
| environment: "pe_step h st EvEnvironment
    (st\<lparr>pgboss_job := jobs, event_table := evs, subscription_deliveries := subs\<rparr>)"

inductive_cases pe_step_SendE: "pe_step h st (EvSend i d n) st'"

inductive pe_run :: "(string \<Rightarrow> string) \<Rightarrow> store \<Rightarrow> pe_event list \<Rightarrow> store \<Rightarrow> bool"
  for h :: "string \<Rightarrow> string" where
  run_nil: "pe_run h st [] st"
| run_cons: "pe_step h st e st1 \<Longrightarrow> pe_run h st1 tr st' \<Longrightarrow> pe_run h st (e # tr) st'"

inductive_simps pe_run_Nil [simp]: "pe_run h st [] st'"
inductive_simps pe_run_Cons: "pe_run h st (e # tr) st'"

text \<open>The migration creates the protocol's tables empty.\<close>

definition empty_store :: "store \<Rightarrow> bool" where
  "empty_store st \<longleftrightarrow> effects st = [] \<and> authorizations st = [] \<and> cancellations st = [] \<and> controls st = []"

definition reachable :: "(string \<Rightarrow> string) \<Rightarrow> store \<Rightarrow> bool" where
  "reachable h st \<longleftrightarrow> (\<exists>st0 tr. empty_store st0 \<and> pe_run h st0 tr st)"

section \<open>The invariant holds in every reachable database\<close>

lemma store_inv_empty: "empty_store st \<Longrightarrow> store_inv st"
  by (simp add: empty_store_def store_inv_def control_inv_def gate_exclusive_def bindings_agree_def
      cancellations_match_def)

lemma store_inv_environment:
  "store_inv (st\<lparr>pgboss_job := jobs, event_table := evs, subscription_deliveries := subs\<rparr>) = store_inv st"
  by (rule store_inv_cong) simp_all

lemma store_inv_step: "pe_step h st e st' \<Longrightarrow> store_inv st \<Longrightarrow> store_inv st'"
proof (induction rule: pe_step.induct)
  case environment
  then show ?case by (simp only: store_inv_environment)
qed (blast intro: store_inv_admit store_inv_claimPaidEffectSend store_inv_reserve store_inv_record
       store_inv_unknown store_inv_degrade store_inv_void store_inv_cancel store_inv_settle
       store_inv_note store_inv_apply store_inv_switch)+

lemma store_inv_run: "pe_run h st tr st' \<Longrightarrow> store_inv st \<Longrightarrow> store_inv st'"
  by (induction rule: pe_run.induct) (auto intro: store_inv_step)

lemma reachable_inv: "reachable h st \<Longrightarrow> store_inv st"
  by (auto simp: reachable_def intro: store_inv_run store_inv_empty)

lemma pe_run_append: "pe_run h st tr st1 \<Longrightarrow> pe_run h st1 tr' st2 \<Longrightarrow> pe_run h st (tr @ tr') st2"
  by (induction rule: pe_run.induct) (auto intro: run_cons)

lemma reachable_step: "reachable h st \<Longrightarrow> pe_step h st e st' \<Longrightarrow> reachable h st'"
  unfolding reachable_def by (blast intro: pe_run_append run_cons run_nil)

lemma claimed_row:
  assumes "claimPaidEffectSend now i d st = Inr (st', Claimed n)"
  obtains r where "effect_by i st = Some r" "r_state r = Pending"
    "claimLockedRow now r i d st = Inr (st', ClaimFence n)"
  using claimPaidEffectSend_Inr [OF assms] by auto

lemma refused_same:
  "claimPaidEffectSend now i d st = Inr (st', out) \<Longrightarrow> \<forall>n. out \<noteq> Claimed n \<Longrightarrow> st' = st"
  using claimPaidEffectSend_Inr [of now i d st st' out] by auto

lemma winner_row:
  assumes "reservePaidEffect h now raw d st = Inr (st', i, Winner n)"
  obtains st1 res r where "computePaidEffectIdentity h raw = Inr i"
    "admitPaidEffectIntent h now raw st = Inr (st1, res)" "effect_by i st1 = Some r"
    "r_state r = Pending" "claimLockedRow now r i d st1 = Inr (st', ClaimFence n)"
  using reservePaidEffect_Inr [OF assms] by auto

lemma not_winner_admitted:
  assumes "reservePaidEffect h now raw d st = Inr (st', i, out)" "\<forall>n. out \<noteq> Winner n"
  shows "\<exists>res. admitPaidEffectIntent h now raw st = Inr (st', res)"
  using reservePaidEffect_Inr [OF assms(1)] assms(2) by auto

section \<open>The life of one obligation\<close>

inductive legal_move :: "PaidEffectState \<Rightarrow> PaidEffectState \<Rightarrow> bool" where
  "legal_move Pending Sending"
| "legal_move Pending Cancelled"
| "legal_move Sending Unknown"
| "legal_move Sending ReceiptReady"
| "legal_move Unknown ReceiptReady"
| "legal_move Unknown Voided"
| "legal_move ReceiptReady ReceiptReady"
| "legal_move ReceiptReady Unknown"
| "legal_move ReceiptReady Applied"

code_pred legal_move .

text \<open>
  A step of a row: nothing, or a legal move that keeps the identity, the input and the
  creation time, never takes the delivery away from an admitted send, and moves the fence as
  \<open>expected_fence\<close> says.
\<close>

definition row_step :: "effect_row \<Rightarrow> effect_row \<Rightarrow> bool" where
  "row_step r r' \<longleftrightarrow> r' = r \<or>
     (legal_move (r_state r) (r_state r') \<and>
      r_identity r' = r_identity r \<and> r_input_json r' = r_input_json r \<and>
      r_created_at r' = r_created_at r \<and>
      (r_state r \<noteq> Pending \<longrightarrow>
         r_delivery_id r' = r_delivery_id r \<and> r_delivery_backend r' = r_delivery_backend r) \<and>
      (r_state r = ReceiptReady \<and> r_state r' \<noteq> Unknown \<longrightarrow> r_result_json r' = r_result_json r))"

lemma legal_move_simps [simp]:
  "legal_move Pending s \<longleftrightarrow> s = Sending \<or> s = Cancelled"
  "legal_move Sending s \<longleftrightarrow> s = Unknown \<or> s = ReceiptReady"
  "legal_move Unknown s \<longleftrightarrow> s = ReceiptReady \<or> s = Voided"
  "legal_move ReceiptReady s \<longleftrightarrow> s = ReceiptReady \<or> s = Unknown \<or> s = Applied"
  "\<not> legal_move Applied s" "\<not> legal_move Voided s" "\<not> legal_move Cancelled s"
  by (auto simp: legal_move.simps)

lemma row_step_refl [simp]: "row_step r r"
  by (simp add: row_step_def)

lemma row_step_identity: "row_step r r' \<Longrightarrow> r_identity r' = r_identity r"
  by (auto simp: row_step_def)

text \<open>Every row of \<open>es\<close> is still there in \<open>es'\<close>, after at most one move.\<close>

definition rows_evolve :: "effect_row list \<Rightarrow> effect_row list \<Rightarrow> bool" where
  "rows_evolve es es' \<longleftrightarrow> (\<forall>r \<in> set es. \<exists>r' \<in> set es'. row_step r r')"

lemma rows_evolve_refl [simp]: "rows_evolve es es"
  unfolding rows_evolve_def using row_step_refl by blast

lemma rows_evolve_append: "rows_evolve es es' \<Longrightarrow> rows_evolve es (es' @ rs)"
  by (auto simp: rows_evolve_def)

lemma rows_evolve_update:
  "(\<And>r. r \<in> set es \<Longrightarrow> p r \<Longrightarrow> row_step r (f r)) \<Longrightarrow> rows_evolve es (update_where p f es)"
  unfolding rows_evolve_def
proof (rule ballI)
  fix r
  assume step: "\<And>r. r \<in> set es \<Longrightarrow> p r \<Longrightarrow> row_step r (f r)" and r: "r \<in> set es"
  then have "row_step r (if p r then f r else r)" by simp
  moreover have "(if p r then f r else r) \<in> set (update_where p f es)"
    unfolding set_update_where using r by (rule imageI)
  ultimately show "\<exists>r' \<in> set (update_where p f es). row_step r r'" by blast
qed

lemma rows_evolve_update_effects:
  "update_effects p f st = Inr (st', n) \<Longrightarrow> (\<And>r. p r \<Longrightarrow> row_step r (f r)) \<Longrightarrow>
     rows_evolve (effects st) (effects st')"
  by (auto simp: update_effects_Inr intro: rows_evolve_update)

lemma row_step_sending: "r_state r = Pending \<Longrightarrow> row_step r (sending_row now n d r)"
  by (simp add: row_step_def) (simp add: sending_row_def)

lemma row_step_voided: "r_state r = Unknown \<Longrightarrow> row_step r (voided_row now n rc r)"
  by (simp add: row_step_def) (simp add: voided_row_def)

lemma row_step_cancelled: "r_state r = Pending \<Longrightarrow> row_step r (cancelled_row now rc r)"
  by (simp add: row_step_def) (simp add: cancelled_row_def)

lemma rows_evolve_admit:
  "admitPaidEffectIntent h now raw st = Inr (st', res) \<Longrightarrow> rows_evolve (effects st) (effects st')"
proof (erule admitPaidEffectIntent_Inr)
  fix i v
  assume "effect_by i st = None \<Longrightarrow>
       res = AdmittedIntent \<and> st' = st\<lparr>effects := effects st @ [fresh_effect i v now]\<rparr>"
    "\<And>r. effect_by i st = Some r \<Longrightarrow>
       st' = st \<and> res = ExistingIntent (r_state r) \<and> paidEffectJsonEquals (r_input_json r) v"
  then show ?thesis by (cases "effect_by i st") (auto intro: rows_evolve_append)
qed

lemma rows_evolve_claim:
  assumes "store_inv st" "effect_by i st = Some r" "r_state r = Pending"
    and "claimLockedRow now r i d st = Inr (st', ClaimFence n)"
  shows "rows_evolve (effects st) (effects st')"
proof -
  have "r \<in> set (effects st)" "r_identity r = i" using assms(1,2) by (simp_all add: effect_by_iff)
  then have "effects st' = update_where (\<lambda>q. r_identity q = i \<and> r_state q = Pending)
      (sending_row now 1 d) (effects st)"
    using claim_won(2) assms by blast
  then show ?thesis by (auto intro!: rows_evolve_update row_step_sending)
qed

lemma row_step_update:
  "legal_move (r_state r) (r_state r') \<Longrightarrow> r_identity r' = r_identity r \<Longrightarrow> r_input_json r' = r_input_json r \<Longrightarrow>
     r_created_at r' = r_created_at r \<Longrightarrow> r_delivery_id r' = r_delivery_id r \<Longrightarrow>
     r_delivery_backend r' = r_delivery_backend r \<Longrightarrow>
     (r_state r = ReceiptReady \<Longrightarrow> r_state r' \<noteq> Unknown \<Longrightarrow> r_result_json r' = r_result_json r) \<Longrightarrow>
     row_step r r'"
  by (simp add: row_step_def)

lemma rows_evolve_void:
  assumes inv: "store_inv st" and run: "voidPaidEffectWithSuccessor h now i fence auth st = Inr (st', out)"
  shows "rows_evolve (effects st) (effects st')"
  using inv run
proof (cases rule: void_cases)
  case (fresh successor r es s)
  have "rows_evolve es (effects st')"
    unfolding fresh(20) by (auto intro!: rows_evolve_update row_step_voided simp: void_target_def)
  then show ?thesis using fresh(14) by (auto simp: rows_evolve_def)
qed simp

lemma rows_evolve_cancel:
  assumes run: "cancelPaidEffectUnsentIntent now i fence request st = Inr (st', out)"
  shows "rows_evolve (effects st) (effects st')"
  using cancelPaidEffectUnsentIntent_Inr [OF run]
  by (auto simp: insert_cancellation_Inr update_effects_Inr cancel_target_def
        intro!: rows_evolve_update row_step_cancelled)

text \<open>Every step refines the life of every obligation.\<close>

lemma rows_evolve_step:
  assumes "pe_step h st e st'" and "store_inv st"
  shows "rows_evolve (effects st) (effects st')"
  using assms
proof (induction rule: pe_step.induct)
  case (admit now raw st st' res)
  then show ?case by (blast intro: rows_evolve_admit)
next
  case (claim now i d st st' n)
  then show ?case by (blast elim: claimed_row intro: rows_evolve_claim)
next
  case (claim_refused now i d st st' out)
  then have "st' = st" using refused_same by blast
  then show ?case by simp
next
  case (reserve now raw d st st' i n)
  show ?case
  proof (rule winner_row [OF reserve(1)])
    fix st1 res r
    assume adm: "admitPaidEffectIntent h now raw st = Inr (st1, res)"
      and c: "effect_by i st1 = Some r" "r_state r = Pending"
        "claimLockedRow now r i d st1 = Inr (st', ClaimFence n)"
    have "rows_evolve (effects st1) (effects st')"
      using rows_evolve_claim [OF store_inv_admit [OF reserve(2) adm] c] .
    moreover have "set (effects st) \<subseteq> set (effects st1)"
      using adm
    proof (rule admitPaidEffectIntent_Inr)
      fix j v
      assume "effect_by j st = None \<Longrightarrow>
           res = AdmittedIntent \<and> st1 = st\<lparr>effects := effects st @ [fresh_effect j v now]\<rparr>"
        "\<And>r. effect_by j st = Some r \<Longrightarrow>
           st1 = st \<and> res = ExistingIntent (r_state r) \<and> paidEffectJsonEquals (r_input_json r) v"
      then show ?thesis by (cases "effect_by j st") auto
    qed
    ultimately show ?thesis by (auto simp: rows_evolve_def)
  qed
next
  case (reserve_other now raw d st st' i out)
  then show ?case using not_winner_admitted rows_evolve_admit by blast
next
  case (record_receipt now i delivery receipt fence st st' out)
  then show ?case
    using recordPaidEffectResult_Inr [OF record_receipt(1)]
    by (auto elim!: rows_evolve_update_effects intro!: row_step_update)
next
  case (unknown now i delivery reason fence st st')
  then show ?case
    using markPaidEffectUnknown_Inr [OF unknown(1)]
    by (auto elim!: rows_evolve_update_effects intro!: row_step_update)
next
  case (degrade now i fence reason st st' b)
  then show ?case
    by (auto simp: degradePaidEffectReceiptToUnknown_def bind_result_Inr_iff
          elim!: rows_evolve_update_effects intro!: row_step_update)
next
  case (void now i fence auth st st' out)
  then show ?case by (blast intro: rows_evolve_void)
next
  case (cancel now i fence request st st' out)
  then show ?case by (blast intro: rows_evolve_cancel)
next
  case (settle fam now st st' k)
  then show ?case
    by (auto simp: settleExpiredPaidEffectSends_def elim!: rows_evolve_update_effects intro!: row_step_update)
next
  case (note_failure now i error st st')
  then show ?case
    using notePaidEffectApplicationFailure_Inr [OF note_failure(1)]
    by (auto elim!: rows_evolve_update_effects intro!: row_step_update)
next
  case (apply_receipt now i application st st' out)
  then show ?case
    using recordPaidEffectApplication_Inr [OF apply_receipt(1)]
    by (auto elim!: rows_evolve_update_effects intro!: row_step_update)
next
  case (switch fam to st st' snap)
  then show ?case by (simp add: switchPaidEffectBackend_Inr(2))
next
  case environment
  then show ?case by simp
qed

lemma effect_by_step:
  assumes "pe_step h st e st'" "store_inv st" "effect_by i st = Some r"
  shows "\<exists>r'. effect_by i st' = Some r' \<and> row_step r r'"
proof -
  have r: "r \<in> set (effects st)" "r_identity r = i" using assms(2,3) by (simp_all add: effect_by_iff)
  then obtain r' where "r' \<in> set (effects st')" "row_step r r'"
    using rows_evolve_step [OF assms(1,2)] by (auto simp: rows_evolve_def)
  then show ?thesis
    using r row_step_identity effect_by_iff [OF store_inv_step [OF assms(1,2)]] by metis
qed

lemma effect_by_run:
  assumes "pe_run h st tr st'" "store_inv st" "effect_by i st = Some r"
  shows "\<exists>r'. effect_by i st' = Some r' \<and> row_step\<^sup>*\<^sup>* r r'"
  using assms
proof (induction arbitrary: r rule: pe_run.induct)
  case (run_cons st e st1 tr st')
  then obtain r1 where "effect_by i st1 = Some r1" "row_step r r1"
    using effect_by_step by blast
  then show ?case
    using run_cons store_inv_step by (meson converse_rtranclp_into_rtranclp)
qed auto

section \<open>Sends\<close>

text \<open>What a send label means: the row was absent or pending, and is now sending under fence 1.\<close>

lemma send_step:
  assumes inv: "store_inv st" and step: "pe_step h st (EvSend i d n) st'"
  shows "n = 1" and "(case effect_by i st of None \<Rightarrow> True | Some r \<Rightarrow> r_state r = Pending)"
    and "\<exists>r'. effect_by i st' = Some r' \<and> r_state r' = Sending \<and>
      r_delivery_id r' = Some (dl_deliveryId d) \<and> r_delivery_backend r' = Some (dl_backend d)"
    and "\<And>a. a \<in> set (authorizations st) \<Longrightarrow> successorIdentityOf a = i \<Longrightarrow>
      dl_backend d = au_successor_delivery_backend a \<and> dl_deliveryId d = au_successor_delivery_id a"
    and "\<exists>c. admitPaidEffectDeliveryControl st (pe_family i)
      \<lparr>ref_backend = dl_backend d, ref_deliveryId = dl_deliveryId d, ref_tickId = dl_tickId d,
       ref_generation = dl_generation d\<rparr> = Admitted c"
    and "\<And>q. q \<in> set (effects st) \<Longrightarrow> \<not> gate_scan_where i q"
proof -
  obtain st1 now r where pre: "effect_by i st = Some r \<and> st1 = st \<or>
      (\<exists>raw res. admitPaidEffectIntent h now raw st = Inr (st1, res) \<and> computePaidEffectIdentity h raw = Inr i)"
    and inv1: "store_inv st1" and r: "effect_by i st1 = Some r" "r_state r = Pending"
    and c: "claimLockedRow now r i d st1 = Inr (st', ClaimFence n)"
    using step
  proof (rule pe_step_SendE)
    fix now assume claim: "claimPaidEffectSend now i d st = Inr (st', Claimed n)"
    show ?thesis by (rule claimed_row [OF claim]) (use inv that in blast)
  next
    fix now raw assume reserve: "reservePaidEffect h now raw d st = Inr (st', i, Winner n)"
    show ?thesis by (rule winner_row [OF reserve]) (use inv that store_inv_admit in blast)
  qed
  have mem: "r \<in> set (effects st1)" "r_identity r = i" using r(1) effect_by_iff [OF inv1] by auto
  note won = claim_won [OF inv1 mem r(2) c]
  have old: "effect_by i st = Some r \<and> st1 = st \<or> (\<exists>v now. effect_by i st = None \<and>
      st1 = st\<lparr>effects := effects st @ [fresh_effect i v now]\<rparr>)"
    using pre
  proof
    assume "\<exists>raw res. admitPaidEffectIntent h now raw st = Inr (st1, res) \<and> computePaidEffectIdentity h raw = Inr i"
    then obtain raw res where adm: "admitPaidEffectIntent h now raw st = Inr (st1, res)"
      and i: "computePaidEffectIdentity h raw = Inr i" by blast
    show ?thesis
      using adm
    proof (rule admitPaidEffectIntent_Inr)
      fix j v
      assume "computePaidEffectIdentity h raw = Inr j"
        "effect_by j st = None \<Longrightarrow>
           res = AdmittedIntent \<and> st1 = st\<lparr>effects := effects st @ [fresh_effect j v now]\<rparr>"
        "\<And>r. effect_by j st = Some r \<Longrightarrow>
           st1 = st \<and> res = ExistingIntent (r_state r) \<and> paidEffectJsonEquals (r_input_json r) v"
      then show ?thesis using i r(1) by (cases "effect_by i st") auto
    qed
  qed simp
  have same: "authorizations st1 = authorizations st" "controls st1 = controls st"
    "set (effects st) \<subseteq> set (effects st1)"
    using old by auto
  show "n = 1" by (rule won(1))
  show "(case effect_by i st of None \<Rightarrow> True | Some r \<Rightarrow> r_state r = Pending)"
    using old r(2) by auto
  show "\<exists>r'. effect_by i st' = Some r' \<and> r_state r' = Sending \<and>
      r_delivery_id r' = Some (dl_deliveryId d) \<and> r_delivery_backend r' = Some (dl_backend d)"
  proof -
    have "effect_by i st' = Some (sending_row now 1 d r)"
      unfolding effect_by_def won(2)
      using row_by_update_at [where p = "\<lambda>q. r_identity q = i \<and> r_state q = Pending"
          and f = "sending_row now 1 d", OF store_invD(1) [OF inv1] mem(1)] mem(2) r(2) by simp
    then show ?thesis by simp
  qed
  show "dl_backend d = au_successor_delivery_backend a \<and> dl_deliveryId d = au_successor_delivery_id a"
    if "a \<in> set (authorizations st)" "successorIdentityOf a = i" for a
    using won(7) that same(1) by simp
  show "\<exists>c. admitPaidEffectDeliveryControl st (pe_family i)
      \<lparr>ref_backend = dl_backend d, ref_deliveryId = dl_deliveryId d, ref_tickId = dl_tickId d,
       ref_generation = dl_generation d\<rparr> = Admitted c"
    using claimLockedRow_ClaimFence [OF c] control_cong(3) [OF same(2)]
    by (auto simp: admitPaidEffectDeliveryControl_def)
  show "\<not> gate_scan_where i q" if "q \<in> set (effects st)" for q
    using won(6) that same(3) by blast
qed

end
