(* ===== verification/PaidEffectFixtures.thy ===== *)
theory PaidEffectFixtures
  imports PaidEffectRuns
begin

text \<open>
  Concrete databases for the witnesses of the paid-effect properties: one obligation that is
  reserved, recorded, lost and voided, and one that is cancelled before it is sent.
\<close>

definition demo_hash :: "string \<Rightarrow> string" where
  "demo_hash s = replicate 64 (CHR ''a'')"

definition demo_input :: "string \<Rightarrow> PaidEffectInput" where
  "demo_input u = \<lparr>in_family = ''grading'', in_entityId = ''answer-1'', in_entityRevision = ''1'',
     in_unit = u, in_input = JObj [(''prompt'', JStr ''2+2'')]\<rparr>"

definition demo_id :: "string \<Rightarrow> PaidEffectIdentity" where
  "demo_id u = \<lparr>pe_family = ''grading'', pe_entityId = ''answer-1'', pe_entityRevision = ''1'',
     pe_unit = u, pe_inputDigest = ''sha256:'' @ replicate 64 (CHR ''a'')\<rparr>"

definition demo_delivery :: PaidEffectSendClaimDelivery where
  "demo_delivery = \<lparr>dl_backend = PgBoss, dl_deliveryId = ''job-1'', dl_tickId = None,
     dl_leaseExpiresAt = 100, dl_generation = Some 0\<rparr>"

definition demo_store :: store where
  "demo_store = \<lparr>effects = [], authorizations = [], cancellations = [], controls = [],
     pgboss_job = Some [], event_table = [], subscription_deliveries = []\<rparr>"

definition demo_value :: jsval where
  "demo_value = JObj [(''prompt'', JStr ''2+2'')]"

definition demo_fresh :: "string \<Rightarrow> effect_row" where
  "demo_fresh u = fresh_effect (demo_id u) demo_value 1"

definition demo_pending :: store where
  "demo_pending = demo_store\<lparr>effects := [demo_fresh ''score'']\<rparr>"

definition demo_sending :: store where
  "demo_sending = demo_store\<lparr>effects := [sending_row 1 1 demo_delivery (demo_fresh ''score'')]\<rparr>"

lemma in_input_demo [simp]: "in_input (demo_input u) = demo_value"
  by (simp add: demo_input_def demo_value_def)

lemma demo_canonical [simp]: "canonicalValue [] demo_value = Inr demo_value"
  by (simp add: demo_value_def)

lemma demo_identity [simp]: "u \<noteq> [] \<Longrightarrow> computePaidEffectIdentity demo_hash (demo_input u) = Inr (demo_id u)"
  by (simp add: computePaidEffectIdentity_def requireIdentityString_def demo_input_def demo_id_def
      computePaidEffectInputDigest_def canonicalizePaidEffectJson_def demo_hash_def)

lemma demo_schema [simp]: "u \<noteq> [] \<Longrightarrow> paidEffectIdentitySchema (demo_id u)"
  by (simp add: paidEffectIdentitySchema_def demo_id_def digest_text_def hex_char_def
      decimal_digit_def PAID_EFFECT_DIGEST_PREFIX_def list_all_iff)

lemma demo_id_simps [simp]:
  "demo_id u = demo_id w \<longleftrightarrow> u = w" "pe_family (demo_id u) = ''grading''"
  "pe_entityId (demo_id u) = ''answer-1''" "pe_unit (demo_id u) = u" "pe_entityRevision (demo_id u) = ''1''"
  by (auto simp: demo_id_def)

lemma demo_checks [simp]:
  "u \<noteq> [] \<Longrightarrow> paid_effect_checks (demo_fresh u)"
  "u \<noteq> [] \<Longrightarrow> digest_text (pe_inputDigest (demo_id u))"
  using demo_schema [of u] row_inv_fresh [of "demo_id u" demo_value 1]
  by (simp_all add: row_inv_def demo_fresh_def paidEffectIdentitySchema_def)

lemma demo_admit:
  "admitPaidEffectIntent demo_hash 1 (demo_input ''score'') demo_store = Inr (demo_pending, AdmittedIntent)"
  using demo_checks(1) [of "''score''"]
  by (simp add: admitPaidEffectIntent_def insert_effect_on_conflict_do_nothing_def jsonb_param_def
      demo_pending_def demo_fresh_def demo_store_def effect_by_def row_by_def demo_value_def)

lemmas demo_tables = effect_by_def row_by_def update_effects_def lockRow_def bind_result_def
  demo_store_def demo_fresh_def fresh_effect_def sending_row_def

definition demo_sending_row :: effect_row where
  "demo_sending_row = sending_row 1 1 demo_delivery (demo_fresh ''score'')"

lemma demo_claim:
  "claimLockedRow 1 (demo_fresh ''score'') (demo_id ''score'') demo_delivery demo_pending =
     Inr (demo_sending, ClaimFence 1)"
  using demo_checks(1) [of "''score''"]
  by (simp add: claimLockedRow_def demo_pending_def demo_sending_def demo_tables
      admitPaidEffectDeliveryControl_def decidePaidEffectControlAdmission_def demo_delivery_def
      readPaidEffectControl_def defaultControl_def DEFAULT_PAID_EFFECT_BACKEND_def
      DEFAULT_PAID_EFFECT_GENERATION_def findGateBlocker_def gate_scan_where_def state_lists
      checkSuccessorAuthorization_def markAuthorizationConsumed_def paid_effect_checks_def
      paid_effect_state_shape_ck_def)

lemma demo_effect_by: "effect_by (demo_id ''score'') demo_pending = Some (demo_fresh ''score'')"
  by (simp add: effect_by_def row_by_def demo_pending_def demo_fresh_def)

lemma demo_reserve:
  "reservePaidEffect demo_hash 1 (demo_input ''score'') demo_delivery demo_store =
     Inr (demo_sending, demo_id ''score'', Winner 1)"
  by (simp add: reservePaidEffect_def demo_admit lockRow_def demo_effect_by demo_claim)
    (simp add: demo_fresh_def)

lemma demo_sending_row_checks: "paid_effect_checks demo_sending_row"
  using demo_checks(1) [of "''score''"]
  by (simp add: demo_sending_row_def paid_effect_checks_def paid_effect_state_shape_ck_def
      sending_row_def demo_fresh_def fresh_effect_def)

lemma demo_sending_effects: "effects demo_sending = [demo_sending_row]"
  by (simp add: demo_sending_def demo_sending_row_def)

lemma demo_sending_row_simps [simp]:
  "r_identity demo_sending_row = demo_id ''score''" "r_state demo_sending_row = Sending"
  "r_fence demo_sending_row = 1" "r_delivery_id demo_sending_row = Some ''job-1''"
  "r_delivery_backend demo_sending_row = Some PgBoss" "r_send_lease_expires_at demo_sending_row = Some 100"
  "r_result_json demo_sending_row = None" "r_applied_at demo_sending_row = None"
  by (simp_all add: demo_sending_row_def demo_fresh_def demo_delivery_def)
    (simp_all add: sending_row_def fresh_effect_def)

lemma demo_sending_by: "effect_by (demo_id ''score'') demo_sending = Some demo_sending_row"
  by (simp add: effect_by_def row_by_def demo_sending_effects)

definition demo_receipt :: jsval where
  "demo_receipt = JObj [(''score'', JNum ''1'')]"

definition demo_ready_row :: effect_row where
  "demo_ready_row = demo_sending_row\<lparr>r_state := ReceiptReady, r_result_json := Some demo_receipt,
     r_result_recorded_at := Some 2, r_send_lease_expires_at := None,
     r_unresolved_reason := None, r_updated_at := 2\<rparr>"

definition demo_ready :: store where
  "demo_ready = demo_sending\<lparr>effects := [demo_ready_row]\<rparr>"

lemma demo_receipt_canonical [simp]:
  "canonicalizePaidEffectJson demo_receipt = Inr (json_stringify demo_receipt)"
  by (simp add: canonicalizePaidEffectJson_def demo_receipt_def)

lemma checks_ready:
  "paid_effect_checks r \<Longrightarrow> r_state r = Sending \<Longrightarrow> v \<noteq> None \<Longrightarrow>
     paid_effect_checks (r\<lparr>r_state := ReceiptReady, r_result_json := v, r_result_recorded_at := Some t,
       r_send_lease_expires_at := None, r_unresolved_reason := None, r_updated_at := t\<rparr>)"
  by (simp add: paid_effect_checks_def paid_effect_state_shape_ck_def)

lemma demo_record:
  "recordPaidEffectResult 2 (demo_id ''score'') ''job-1'' demo_receipt 1 demo_sending =
     Inr (demo_ready, Recorded)"
  using checks_ready [where v = "Some demo_receipt" and t = 2, OF demo_sending_row_checks]
  by (simp add: recordPaidEffectResult_def lockRow_def demo_sending_by requireOwnerDelivery_def
      update_effects_def demo_sending_effects jsonb_param_def demo_receipt_def demo_ready_def
      demo_ready_row_def canonicalizePaidEffectJson_def)

definition demo_unknown_row :: effect_row where
  "demo_unknown_row = demo_sending_row\<lparr>r_state := Unknown, r_send_lease_expires_at := None,
     r_unresolved_reason := Some ''timeout'', r_updated_at := 2\<rparr>"

definition demo_unknown :: store where
  "demo_unknown = demo_sending\<lparr>effects := [demo_unknown_row]\<rparr>"

lemma checks_unknown:
  "paid_effect_checks r \<Longrightarrow> r_state r = Sending \<Longrightarrow>
     paid_effect_checks (r\<lparr>r_state := Unknown, r_send_lease_expires_at := None,
       r_unresolved_reason := Some x, r_updated_at := t\<rparr>)"
  by (simp add: paid_effect_checks_def paid_effect_state_shape_ck_def)

lemma demo_mark_unknown:
  "markPaidEffectUnknown 2 (demo_id ''score'') ''job-1'' ''timeout'' 1 demo_sending = Inr demo_unknown"
  using checks_unknown [where x = "''timeout''" and t = 2, OF demo_sending_row_checks]
  by (simp add: markPaidEffectUnknown_def lockRow_def demo_sending_by requireOwnerDelivery_def
      update_effects_def demo_sending_effects demo_unknown_def demo_unknown_row_def)

lemma demo_unknown_simps [simp]:
  "r_identity demo_unknown_row = demo_id ''score''" "r_state demo_unknown_row = Unknown"
  "r_fence demo_unknown_row = 1" "paid_effect_checks demo_unknown_row"
  "effect_by (demo_id ''score'') demo_unknown = Some demo_unknown_row"
  using checks_unknown [where x = "''timeout''" and t = 2, OF demo_sending_row_checks]
  by (simp_all add: demo_unknown_row_def effect_by_def row_by_def demo_unknown_def)

definition demo_authorization :: PaidEffectVoidAuthorization where
  "demo_authorization = \<lparr>va_authorizationId = ''auth-1'', va_reason = ''lost'', va_operator = ''ops'',
     va_basis = ''provider log'', va_successorInput = demo_input ''retry'',
     va_successorDelivery = \<lparr>sd_backend = PgBoss, sd_deliveryId = ''job-2''\<rparr>\<rparr>"

lemma checks_voided:
  "paid_effect_checks r \<Longrightarrow> r_state r = Unknown \<Longrightarrow> paid_effect_checks (voided_row t 2 rc r)"
  by (simp add: paid_effect_checks_def paid_effect_state_shape_ck_def voided_row_def)

lemma demo_authorization_simps [simp]:
  "va_successorInput demo_authorization = demo_input ''retry''"
  "va_authorizationId demo_authorization = ''auth-1''"
  by (simp_all add: demo_authorization_def)

lemma demo_authorization_checks:
  "authorization_checks (authorization_of (demo_id ''score'') (demo_id ''retry'') demo_authorization)"
  using demo_checks(2) [of "''retry''"] demo_checks(2) [of "''score''"]
  by (simp add: authorization_checks_def authorization_of_def demo_authorization_def)

definition demo_authorized :: store where
  "demo_authorized = demo_unknown\<lparr>authorizations :=
     [authorization_of (demo_id ''score'') (demo_id ''retry'') demo_authorization]\<rparr>"

lemma demo_insert_authorization:
  "insert_authorization (authorization_of (demo_id ''score'') (demo_id ''retry'') demo_authorization)
     demo_unknown = Inr demo_authorized"
  by (simp add: insert_authorization_Inr demo_authorization_checks demo_authorized_def)
    (simp add: demo_unknown_def demo_sending_def demo_store_def row_by_def)

lemma demo_retry_absent:
  "effect_by (demo_id ''retry'') demo_unknown = None" "effect_by (demo_id ''retry'') demo_authorized = None"
  by (simp_all add: demo_unknown_def demo_authorized_def effect_by_def row_by_def)

lemma demo_free:
  "check_successor_free (demo_id ''score'') (demo_id ''retry'') demo_authorization demo_unknown = Inr None"
  by (simp add: check_successor_free_def demo_retry_absent)
    (simp add: demo_unknown_def demo_sending_def demo_store_def)

definition demo_retry_row :: effect_row where
  "demo_retry_row = fresh_effect (demo_id ''retry'') demo_value 3"

definition demo_readmitted :: store where
  "demo_readmitted = demo_authorized\<lparr>effects := [demo_unknown_row, demo_retry_row]\<rparr>"

lemma demo_admit_retry:
  "admitPaidEffectIntent demo_hash 3 (demo_input ''retry'') demo_authorized =
     Inr (demo_readmitted, AdmittedIntent)"
  using row_inv_fresh [of "demo_id ''retry''" demo_value 3]
  by (simp add: admitPaidEffectIntent_def insert_effect_on_conflict_do_nothing_def jsonb_param_def
      demo_retry_absent demo_retry_row_def demo_readmitted_def row_inv_def demo_value_def)
    (simp add: demo_authorized_def demo_unknown_def)

definition demo_voided_row :: effect_row where
  "demo_voided_row = voided_row 3 2 (void_receipt demo_authorization (demo_id ''retry'') 1) demo_unknown_row"

definition demo_voided :: store where
  "demo_voided = demo_authorized\<lparr>effects := [demo_voided_row, demo_retry_row]\<rparr>"

lemma demo_void:
  "voidPaidEffectWithSuccessor demo_hash 3 (demo_id ''score'') 1 demo_authorization demo_unknown =
     Inr (demo_voided, VoidedOutcome ''auth-1'' (demo_id ''score'') (demo_id ''retry'') 3 2)"
  using checks_voided [of demo_unknown_row 3 "void_receipt demo_authorization (demo_id ''retry'') 1"]
  by (simp add: voidPaidEffectWithSuccessor_def lockRow_def demo_free demo_insert_authorization
      demo_admit_retry Let_def update_effects_def demo_readmitted_def demo_retry_row_def demo_voided_def
      demo_voided_row_def)
    (simp add: voided_row_def void_receipt_def demo_authorization_def)

definition demo_request :: PaidEffectCancelRequest where
  "demo_request = \<lparr>cq_requestId = ''c-1'', cq_reason = ''withdrawn'', cq_operator = ''ops'',
     cq_basis = ''ticket''\<rparr>"

definition demo_cancelled :: store where
  "demo_cancelled = demo_pending\<lparr>
     effects := [cancelled_row 2 (cancel_receipt demo_request (demo_id ''score'') 2) (demo_fresh ''score'')],
     cancellations := [cancellation_of (demo_id ''score'') demo_request]\<rparr>"

lemma checks_cancelled:
  "row_inv r \<Longrightarrow> r_state r = Pending \<Longrightarrow> r_delivery_tick r = None \<Longrightarrow>
     paid_effect_checks (cancelled_row t rc r)"
  by (simp add: row_inv_def paid_effect_checks_def paid_effect_state_shape_ck_def cancelled_row_def
      sent_evidence_def split: if_splits)

lemma demo_fresh_simps [simp]:
  "r_identity (demo_fresh u) = demo_id u" "r_state (demo_fresh u) = Pending" "r_fence (demo_fresh u) = 0"
  "sent_evidence (demo_fresh u) = []" "r_delivery_tick (demo_fresh u) = None"
  "u \<noteq> [] \<Longrightarrow> row_inv (demo_fresh u)"
  by (simp_all add: demo_fresh_def row_inv_fresh) (simp_all add: fresh_effect_def sent_evidence_def)

lemma demo_cancel:
  "cancelPaidEffectUnsentIntent 2 (demo_id ''score'') 0 demo_request demo_pending =
     Inr (demo_cancelled, CancelledOutcome ''c-1'' (demo_id ''score'') 2 1)"
  using checks_cancelled [of "demo_fresh ''score''" 2 "cancel_receipt demo_request (demo_id ''score'') 2"]
    demo_checks(2) [of "''score''"]
  by (simp add: cancelPaidEffectUnsentIntent_def lockRow_def demo_effect_by insert_cancellation_def
      cancellation_checks_def demo_request_def demo_cancelled_def update_effects_def demo_pending_def
      demo_store_def row_by_def effect_by_def cancellation_of_def cancelled_row_def cancel_receipt_def)

text \<open>The authorised delivery sends the successor; the next job is not that delivery.\<close>

definition demo_retry_delivery :: PaidEffectSendClaimDelivery where
  "demo_retry_delivery = demo_delivery\<lparr>dl_deliveryId := ''job-2''\<rparr>"

lemma demo_voided_row_simps [simp]:
  "r_identity demo_voided_row = demo_id ''score''" "r_state demo_voided_row = Voided"
  by (simp_all add: demo_voided_row_def voided_row_def)

lemma demo_retry_row_simps [simp]:
  "r_identity demo_retry_row = demo_id ''retry''" "r_state demo_retry_row = Pending"
  "r_fence demo_retry_row = 0"
  by (simp_all add: demo_retry_row_def fresh_effect_def)

lemma demo_retry_checks:
  "paid_effect_checks (sending_row 4 1 demo_retry_delivery demo_retry_row)"
  using demo_checks(1) [of "''retry''"]
  by (simp add: demo_retry_row_def paid_effect_checks_def paid_effect_state_shape_ck_def
      sending_row_def demo_fresh_def fresh_effect_def)

lemma demo_voided_tables:
  "effects demo_voided = [demo_voided_row, demo_retry_row]"
  "authorizations demo_voided = [authorization_of (demo_id ''score'') (demo_id ''retry'') demo_authorization]"
  "controls demo_voided = []"
  by (simp_all add: demo_voided_def demo_authorized_def demo_unknown_def demo_sending_def demo_store_def)

lemma demo_claim_retry:
  "\<exists>st'. claimLockedRow 4 demo_retry_row (demo_id ''retry'') demo_retry_delivery demo_voided =
     Inr (st', ClaimFence 1)"
  using demo_retry_checks
  by (simp add: claimLockedRow_def admitPaidEffectDeliveryControl_def decidePaidEffectControlAdmission_def
      readPaidEffectControl_def defaultControl_def DEFAULT_PAID_EFFECT_BACKEND_def demo_retry_delivery_def
      demo_delivery_def DEFAULT_PAID_EFFECT_GENERATION_def findGateBlocker_def gate_scan_where_def
      state_lists checkSuccessorAuthorization_def demo_voided_tables row_by_def successor_open_def
      effect_by_def sameIdentity_iff authorization_of_def demo_authorization_def update_effects_def
      sending_row_def successorIdentityOf_def)

lemma demo_send_retry:
  "\<exists>st'. claimPaidEffectSend 4 (demo_id ''retry'') demo_retry_delivery demo_voided = Inr (st', Claimed 1)"
  using demo_claim_retry
  by (auto simp: claimPaidEffectSend_def lockRow_def effect_by_def row_by_def demo_voided_tables)

section \<open>The databases are reachable\<close>

lemma reachable_demo_store: "reachable demo_hash demo_store"
  unfolding reachable_def
  by (intro exI [of _ demo_store] exI [of _ "[]"]) (simp add: empty_store_def demo_store_def)

lemmas reachable_demo_pending = reachable_step [OF reachable_demo_store admit [OF demo_admit]]
lemmas reachable_demo_sending = reachable_step [OF reachable_demo_store reserve [OF demo_reserve]]
lemmas reachable_demo_ready = reachable_step [OF reachable_demo_sending record_receipt [OF demo_record]]
lemmas reachable_demo_unknown = reachable_step [OF reachable_demo_sending unknown [OF demo_mark_unknown]]
lemmas reachable_demo_voided = reachable_step [OF reachable_demo_unknown void [OF demo_void]]
lemmas reachable_demo_cancelled = reachable_step [OF reachable_demo_pending cancel [OF demo_cancel]]

end
