(* ===== verification/PaidEffectProperties.thy ===== *)
theory PaidEffectProperties
  imports PaidEffectFixtures
begin

text \<open>
  The properties of the paid-effect protocol: sends, ownership, receipts, succession, switching.
  Each is stated over the operations of \<open>PaidEffectStore\<close> and the runs of \<open>PaidEffectRuns\<close>.
\<close>

section \<open>Sends\<close>

definition is_send :: "PaidEffectIdentity \<Rightarrow> pe_event \<Rightarrow> bool" where
  "is_send i e \<longleftrightarrow> (\<exists>d n. e = EvSend i d n)"

lemma is_send_EvSend [simp, code]:
  "is_send i (EvSend j d n) \<longleftrightarrow> j = i"
  by (auto simp: is_send_def)

text \<open>Once a row has left \<open>pending\<close>, no run sends it.\<close>

lemma row_step_not_pending: "row_step r r' \<Longrightarrow> r_state r \<noteq> Pending \<Longrightarrow> r_state r' \<noteq> Pending"
  by (cases "r_state r") (auto simp: row_step_def)

lemma no_send_after:
  assumes "pe_run h st tr st'" "store_inv st" "effect_by i st = Some r" "r_state r \<noteq> Pending"
  shows "filter (is_send i) tr = []"
  using assms
proof (induction arbitrary: r rule: pe_run.induct)
  case (run_cons st e st1 tr st')
  have "\<not> is_send i e"
  proof
    assume "is_send i e"
    then obtain d n where "e = EvSend i d n" by (auto simp: is_send_def)
    then show False using send_step(2) [of st h i d n st1] run_cons.hyps(1) run_cons.prems by auto
  qed
  moreover obtain r1 where "effect_by i st1 = Some r1" "row_step r r1"
    using effect_by_step run_cons.hyps(1) run_cons.prems by blast
  ultimately show ?case
    using run_cons row_step_not_pending store_inv_step by simp
qed simp

lemma sends_le_1:
  assumes "pe_run h st tr st'" "store_inv st"
  shows "length (filter (is_send i) tr) \<le> 1"
  using assms
proof (induction rule: pe_run.induct)
  case (run_cons st e st1 tr st')
  have inv1: "store_inv st1" using store_inv_step run_cons by blast
  show ?case
  proof (cases "is_send i e")
    case True
    then obtain d n where "e = EvSend i d n" by (auto simp: is_send_def)
    then obtain r where "effect_by i st1 = Some r" "r_state r = Sending"
      using send_step(3) run_cons by blast
    then have "filter (is_send i) tr = []" using no_send_after run_cons.hyps(2) inv1 by fastforce
    then show ?thesis by simp
  next
    case False
    then show ?thesis using run_cons.IH inv1 by simp
  qed
qed simp

text \<open>
  C1. In every run of the system from freshly migrated tables, through any interleaving of
  admissions, reservations, claims, receipts, voids, cancellations, recoveries and backend
  switches, a caller is told that it may send a given effect identity at most once.
\<close>

theorem send_admitted_at_most_once:
  assumes "empty_store st0" and "pe_run h st0 tr st"
  shows "length (filter (is_send i) tr) \<le> 1"
  using sends_le_1 [OF assms(2) store_inv_empty [OF assms(1)]] .

theorem send_admitted_at_most_once_witness:
  "length (filter (is_send (demo_id ''score'')) [EvSend (demo_id ''score'') demo_delivery 1]) \<le> 1"
proof (rule send_admitted_at_most_once)
  show "empty_store demo_store" by (simp add: empty_store_def demo_store_def)
  show "pe_run demo_hash demo_store [EvSend (demo_id ''score'') demo_delivery 1] demo_sending"
    by (rule run_cons [OF reserve [OF demo_reserve] run_nil])
qed

text \<open>
  C2. Every reachable database satisfies the store invariant: identities are unique; every row is
  within the table's constraints and has the fence its state determines; no two sending
  obligations of one family and entity block each other by the protocol's gate predicate (two
  different repetitions of one revision of the item prior backfill do not, and may be sending
  together); authorisations are tied to their voided and successor rows; cancellation events match
  the cancelled rows; and every row that is sending, unknown or receipt-ready carries the backend
  its family runs on now (of rows in the other states nothing is said here).
\<close>

theorem reachable_store_inv:
  assumes "reachable h st"
  shows "distinct (map r_identity (effects st)) \<and>
    (\<forall>r \<in> set (effects st). paid_effect_checks r \<and> r_fence r = expected_fence (r_state r)) \<and>
    gate_exclusive (effects st) \<and>
    (\<forall>a \<in> set (authorizations st). auth_inv (effects st) a) \<and>
    cancellations_match (effects st) (cancellations st) \<and>
    (\<forall>r \<in> set (effects st). owned_by_current st r)"
  using store_invD [OF reachable_inv [OF assms]] by (simp add: eff.wf_def row_inv_def)

theorem reachable_store_inv_witness:
  "auth_inv (effects demo_voided) (authorization_of (demo_id ''score'') (demo_id ''retry'') demo_authorization)"
  using reachable_store_inv [OF reachable_demo_voided]
  by (simp add: demo_voided_def demo_authorized_def)

text \<open>
  C3. Every committed step of the store refines the abstract life of every obligation: the row
  is still there and either untouched or moved along one legal edge of the state machine, with
  its identity, input and creation time unchanged, its admitted delivery kept, and its recorded
  receipt kept unless it is explicitly degraded.
\<close>

theorem step_refines_lifecycle:
  assumes "reachable h st" and "pe_step h st e st'" and "effect_by i st = Some r"
  shows "\<exists>r'. effect_by i st' = Some r' \<and> row_step r r'"
  using effect_by_step [OF assms(2) reachable_inv [OF assms(1)] assms(3)] .

theorem step_refines_lifecycle_witness:
  "\<exists>r'. effect_by (demo_id ''score'') demo_voided = Some r' \<and> row_step demo_unknown_row r'"
  by (rule step_refines_lifecycle [OF reachable_demo_unknown void [OF demo_void]]) simp

text \<open>
  C4. Mutual exclusion of the entity gate: while one obligation of a family and entity is
  sending, no other obligation of that entity is sending, unless the gate lets the two run in
  parallel (two different repetitions of one revision of the item prior backfill).
\<close>

theorem sending_mutual_exclusion:
  assumes "reachable h st" and "effect_by i st = Some r" "r_state r = Sending"
    and "effect_by j st = Some q" "i \<noteq> j" "pe_family i = pe_family j" "pe_entityId i = pe_entityId j"
    and "\<not> (pe_family i = ''item_prior_backfill'' \<and> parallelRepUnit (pe_unit i) \<and>
      parallelRepUnit (pe_unit j) \<and> pe_entityRevision i = pe_entityRevision j \<and> pe_unit i \<noteq> pe_unit j)"
  shows "r_state q \<noteq> Sending"
proof
  assume sending: "r_state q = Sending"
  have inv: "store_inv st" using reachable_inv [OF assms(1)] .
  have "paidEffectGateBlocks i j" using assms(6,8) unfolding paidEffectGateBlocks_def by metis
  moreover have "r \<in> set (effects st) \<and> r_identity r = i" "q \<in> set (effects st) \<and> r_identity q = j"
    using assms(2,4) inv by (simp_all add: effect_by_iff)
  ultimately show False
    using store_invD(3) [OF inv] assms(3,5-7) sending unfolding gate_exclusive_def by blast
qed

lemma demo_second_intent:
  "admitPaidEffectIntent demo_hash 3 (demo_input ''retry'') demo_sending =
     Inr (demo_sending\<lparr>effects := [demo_sending_row, demo_retry_row]\<rparr>, AdmittedIntent)"
  using row_inv_fresh [of "demo_id ''retry''" demo_value 3]
  by (simp add: admitPaidEffectIntent_def insert_effect_on_conflict_do_nothing_def jsonb_param_def
      demo_retry_row_def row_inv_def demo_value_def effect_by_def row_by_def demo_sending_effects)

theorem sending_mutual_exclusion_witness: "r_state demo_retry_row \<noteq> Sending"
  by (rule sending_mutual_exclusion [OF reachable_step [OF reachable_demo_sending
        admit [OF demo_second_intent]], of "demo_id ''score''" demo_sending_row "demo_id ''retry''"])
    (simp_all add: effect_by_def row_by_def demo_retry_row_def)

text \<open>
  C5. An authorised successor is sent only by the delivery its authorisation names: whenever a
  caller is told to send an identity that some authorisation binds as its successor, the
  delivery's backend and id are the ones the operator authorised. Every send also finds no other
  sending or unknown obligation of the entity that the gate refuses.
\<close>

theorem successor_sent_by_bound_delivery:
  assumes "reachable h st" and "pe_step h st (EvSend i d n) st'"
  shows "(\<forall>a \<in> set (authorizations st). successorIdentityOf a = i \<longrightarrow>
      dl_backend d = au_successor_delivery_backend a \<and> dl_deliveryId d = au_successor_delivery_id a) \<and>
    (\<forall>q \<in> set (effects st). \<not> gate_scan_where i q) \<and> n = 1"
  using send_step [OF reachable_inv [OF assms(1)] assms(2)] by blast

theorem successor_sent_by_bound_delivery_witness:
  "dl_deliveryId demo_retry_delivery =
     au_successor_delivery_id (authorization_of (demo_id ''score'') (demo_id ''retry'') demo_authorization)"
proof -
  let ?a = "authorization_of (demo_id ''score'') (demo_id ''retry'') demo_authorization"
  obtain st' where "claimPaidEffectSend 4 (demo_id ''retry'') demo_retry_delivery demo_voided = Inr (st', Claimed 1)"
    using demo_send_retry by blast
  from successor_sent_by_bound_delivery [OF reachable_demo_voided claim [OF this]]
  have "\<forall>a \<in> set (authorizations demo_voided). successorIdentityOf a = demo_id ''retry'' \<longrightarrow>
      dl_deliveryId demo_retry_delivery = au_successor_delivery_id a"
    by blast
  moreover have "?a \<in> set (authorizations demo_voided)" by (simp add: demo_voided_tables)
  ultimately show ?thesis by (auto simp: successor_authorization_of)
qed

text \<open>
  C6. Only a delivery of the backend that owns the family can be told to send: its backend is
  the family's current backend and it carries the current generation, or no generation at all
  while the family is still on its initial backend.
\<close>

theorem send_by_current_backend:
  assumes "reachable h st" and "pe_step h st (EvSend i d n) st'"
  shows "dl_backend d = ctl_backend (readPaidEffectControl st (pe_family i)) \<and>
    (dl_generation d = Some (ctl_generation (readPaidEffectControl st (pe_family i))) \<or>
     (dl_generation d = None \<and> ctl_generation (readPaidEffectControl st (pe_family i)) = 0))"
  using send_step(5) [OF reachable_inv [OF assms(1)] assms(2)]
  by (simp add: admitPaidEffectDeliveryControl_def admission_Admitted_iff) blast

theorem send_by_current_backend_witness:
  "dl_backend demo_delivery = ctl_backend (readPaidEffectControl demo_store ''grading'')"
  using send_by_current_backend [OF reachable_demo_store reserve [OF demo_reserve]] by simp

text \<open>
  C7. No live obligation belongs to a retired backend: in every reachable database, a row whose
  send was admitted and whose outcome is not yet applied is owned by the backend that owns its
  family now.
\<close>

theorem live_rows_owned_by_current_backend:
  assumes "reachable h st" and "effect_by i st = Some r" and "r_state r \<in> {Sending, Unknown, ReceiptReady}"
  shows "r_delivery_backend r = Some (ctl_backend (readPaidEffectControl st (pe_family i)))"
proof -
  have inv: "store_inv st" using reachable_inv [OF assms(1)] .
  then have "r \<in> set (effects st)" "r_identity r = i" using assms(2) by (simp_all add: effect_by_iff)
  then show ?thesis using store_invD(10) [OF inv] assms(3) unfolding owned_by_current_def by blast
qed

theorem live_rows_owned_by_current_backend_witness:
  "r_delivery_backend demo_sending_row = Some (ctl_backend (readPaidEffectControl demo_sending ''grading''))"
  using live_rows_owned_by_current_backend [OF reachable_demo_sending demo_sending_by] by simp

section \<open>Switching the backend\<close>

lemma controls_update_effects: "update_effects p f st = Inr (st', n) \<Longrightarrow> controls st' = controls st"
  by (auto simp: update_effects_Inr)

lemma controls_admit: "admitPaidEffectIntent h now raw st = Inr (st', res) \<Longrightarrow> controls st' = controls st"
proof (erule admitPaidEffectIntent_Inr)
  fix i v
  assume "effect_by i st = None \<Longrightarrow>
       res = AdmittedIntent \<and> st' = st\<lparr>effects := effects st @ [fresh_effect i v now]\<rparr>"
    "\<And>r. effect_by i st = Some r \<Longrightarrow>
       st' = st \<and> res = ExistingIntent (r_state r) \<and> paidEffectJsonEquals (r_input_json r) v"
  then show ?thesis by (cases "effect_by i st") auto
qed

lemma controls_claim: "claimLockedRow now r i d st = Inr (st', ClaimFence n) \<Longrightarrow> controls st' = controls st"
  by (drule claimLockedRow_ClaimFence) (auto simp: markAuthorizationConsumed_def controls_update_effects)

lemma controls_step:
  "pe_step h st e st' \<Longrightarrow> store_inv st \<Longrightarrow> (\<And>f b. e \<noteq> EvSwitch f b) \<Longrightarrow> controls st' = controls st"
proof (induction rule: pe_step.induct)
  case (claim now i d st st' n)
  then show ?case by (blast elim: claimed_row dest: controls_claim)
next
  case (claim_refused now i d st st' out)
  then show ?case using refused_same by blast
next
  case (reserve now raw d st st' i n)
  show ?case by (rule winner_row [OF reserve(1)]) (metis controls_admit controls_claim)
next
  case (reserve_other now raw d st st' i out)
  then show ?case using not_winner_admitted controls_admit by blast
next
  case (record_receipt now i delivery receipt fence st st' out)
  then show ?case using recordPaidEffectResult_Inr [OF record_receipt(1)] controls_update_effects by blast
next
  case (unknown now i delivery reason fence st st')
  then show ?case using markPaidEffectUnknown_Inr [OF unknown(1)] controls_update_effects by blast
next
  case (degrade now i fence reason st st' b)
  then show ?case
    by (auto simp: degradePaidEffectReceiptToUnknown_def bind_result_Inr_iff dest: controls_update_effects)
next
  case (void now i fence auth st st' out)
  show ?case by (rule void_cases [OF void(2,1)]) auto
next
  case (cancel now i fence request st st' out)
  then show ?case
    using cancelPaidEffectUnsentIntent_Inr [OF cancel(1)]
    by (auto simp: insert_cancellation_Inr update_effects_Inr)
next
  case (settle fam now st st' k)
  then show ?case by (auto simp: settleExpiredPaidEffectSends_def dest: controls_update_effects)
next
  case (note_failure now i error st st')
  then show ?case using notePaidEffectApplicationFailure_Inr [OF note_failure(1)] controls_update_effects by blast
next
  case (apply_receipt now i application st st' out)
  then show ?case using recordPaidEffectApplication_Inr [OF apply_receipt(1)] controls_update_effects by blast
qed (auto dest: controls_admit)

lemma generation_step:
  assumes "pe_step h st e st'" "store_inv st"
  shows "ctl_generation (readPaidEffectControl st fam) \<le> ctl_generation (readPaidEffectControl st' fam)"
proof (cases "\<exists>f b. e = EvSwitch f b")
  case True
  then obtain f b snap where "switchPaidEffectBackend f b st = Inr (st', snap)"
    using assms(1) by (auto elim: pe_step.cases)
  note sw = switchPaidEffectBackend_Inr [OF this]
  show ?thesis
  proof (cases "f = fam")
    case True
    then show ?thesis using sw(6) by simp
  next
    case False
    then show ?thesis using sw(7) by simp
  qed
next
  case False
  then show ?thesis using controls_step [OF assms] control_cong(3) by (metis order_refl)
qed

lemma generation_run:
  "pe_run h st tr st' \<Longrightarrow> store_inv st \<Longrightarrow>
     ctl_generation (readPaidEffectControl st fam) \<le> ctl_generation (readPaidEffectControl st' fam)"
  by (induction rule: pe_run.induct) (auto intro: order_trans generation_step store_inv_step)

text \<open>
  C8. A successful backend switch happens only over a drained family (every obligation applied,
  voided or cancelled), installs the requested backend, raises the generation by one exactly
  when the backend changes, and touches neither any other family's control nor any obligation,
  authorisation or cancellation.
\<close>

theorem switch_drains_and_counts:
  assumes "switchPaidEffectBackend fam to st = Inr (st', snap)"
  shows "(\<forall>r \<in> set (effects st). pe_family (r_identity r) = fam \<longrightarrow> r_state r \<in> {Applied, Voided, Cancelled}) \<and>
    ctl_backend snap = to \<and> snap = readPaidEffectControl st' fam \<and>
    ctl_generation snap = ctl_generation (readPaidEffectControl st fam) +
      (if ctl_backend (readPaidEffectControl st fam) = to then 0 else 1) \<and>
    (\<forall>f. f \<noteq> fam \<longrightarrow> ctl_backend (readPaidEffectControl st' f) = ctl_backend (readPaidEffectControl st f) \<and>
       ctl_generation (readPaidEffectControl st' f) = ctl_generation (readPaidEffectControl st f)) \<and>
    effects st' = effects st \<and> authorizations st' = authorizations st \<and> cancellations st' = cancellations st"
  using switchPaidEffectBackend_Inr [OF assms] by (simp add: family_drained_def)

definition demo_switched :: store where
  "demo_switched = demo_cancelled\<lparr>controls := [\<lparr>cw_family = ''grading'', cw_backend = Dbos, cw_generation = 1\<rparr>]\<rparr>"

lemma demo_switch:
  "switchPaidEffectBackend ''grading'' Dbos demo_cancelled =
     Inr (demo_switched, \<lparr>ctl_family = ''grading'', ctl_backend = Dbos, ctl_generation = 1, ctl_explicit = True\<rparr>)"
  by (simp add: switchPaidEffectBackend_def materialize_control_def demo_switched_def demo_cancelled_def
      demo_pending_def demo_store_def row_by_def summarizePaidEffectSwitchBlocking_def count_by_state_def
      readPaidEffectControl_def rowToControl_def DEFAULT_PAID_EFFECT_BACKEND_def state_lists int4_ok_def
      DEFAULT_PAID_EFFECT_GENERATION_def PAID_EFFECT_SWITCH_UNSUPPORTED_FAMILIES_def)

theorem switch_drains_and_counts_witness:
  "ctl_generation (readPaidEffectControl demo_switched ''grading'') = 1 \<and>
     {r_state r |r. r \<in> set (effects demo_cancelled) \<and> pe_family (r_identity r) = ''grading''}
       \<subseteq> {Applied, Voided, Cancelled}"
  using switch_drains_and_counts [OF demo_switch]
  by (auto simp: readPaidEffectControl_def demo_switched_def row_by_def rowToControl_def)

text \<open>
  C9. A delivery minted before a switch never gets in after it, even if the family has come back
  to its old backend: generations never decrease along a run, and once the generation has moved
  on, a delivery stamped with any earlier generation, or with none, is fenced.
\<close>

theorem old_deliveries_stay_fenced:
  assumes "reachable h st" and "pe_run h st tr st'"
    and "ctl_generation (readPaidEffectControl st fam) < ctl_generation (readPaidEffectControl st' fam)"
    and "pe_run h st' tr' st1"
    and "ref_generation ref = None \<or> (\<exists>g. ref_generation ref = Some g \<and> g \<le> ctl_generation (readPaidEffectControl st fam))"
  shows "ctl_generation (readPaidEffectControl st' fam) \<le> ctl_generation (readPaidEffectControl st1 fam) \<and>
    (\<nexists>c. admitPaidEffectDeliveryControl st1 fam ref = Admitted c)"
proof -
  note inv = reachable_inv [OF assms(1)]
  have mono: "ctl_generation (readPaidEffectControl st' fam) \<le> ctl_generation (readPaidEffectControl st1 fam)"
    using generation_run [OF assms(4) store_inv_run [OF assms(2) inv]] .
  have nonneg: "0 \<le> ctl_generation (readPaidEffectControl st fam)"
    using control_inv_read(1) store_invD(9) [OF inv] by blast
  have "\<nexists>c. admitPaidEffectDeliveryControl st1 fam ref = Admitted c"
  proof
    assume "\<exists>c. admitPaidEffectDeliveryControl st1 fam ref = Admitted c"
    then have "ref_generation ref = Some (ctl_generation (readPaidEffectControl st1 fam)) \<or>
        (ref_generation ref = None \<and> ctl_generation (readPaidEffectControl st1 fam) = 0)"
      by (simp add: admitPaidEffectDeliveryControl_def admission_Admitted_iff) blast
    then show False using assms(3,5) mono nonneg by auto
  qed
  then show ?thesis using mono by blast
qed

definition demo_ref :: PaidEffectDeliveryRef where
  "demo_ref = \<lparr>ref_backend = PgBoss, ref_deliveryId = ''job-1'', ref_tickId = None, ref_generation = Some 0\<rparr>"

lemma demo_generations:
  "ctl_generation (readPaidEffectControl demo_cancelled ''grading'') = 0"
  "ctl_generation (readPaidEffectControl demo_switched ''grading'') = 1"
  by (simp_all add: readPaidEffectControl_def demo_switched_def demo_cancelled_def demo_pending_def
      demo_store_def row_by_def defaultControl_def rowToControl_def DEFAULT_PAID_EFFECT_GENERATION_def)

theorem old_deliveries_stay_fenced_witness:
  "\<nexists>c. admitPaidEffectDeliveryControl demo_switched ''grading'' demo_ref = Admitted c"
proof -
  have "ctl_generation (readPaidEffectControl demo_switched ''grading'') \<le>
      ctl_generation (readPaidEffectControl demo_switched ''grading'') \<and>
      (\<nexists>c. admitPaidEffectDeliveryControl demo_switched ''grading'' demo_ref = Admitted c)"
    by (rule old_deliveries_stay_fenced [OF reachable_demo_cancelled
          run_cons [OF switch [OF demo_switch] run_nil] _ run_nil])
      (simp_all add: demo_generations demo_ref_def)
  then show ?thesis ..
qed

section \<open>Receipts\<close>

text \<open>The row at \<open>i\<close> after an update that targets it, and the rows elsewhere.\<close>

lemma effect_by_update_at:
  assumes "store_inv st" "effect_by i st = Some r" "p r" "\<And>q. p q \<Longrightarrow> r_identity q = i"
    and "r_identity (f r) = i"
  shows "effect_by j (st\<lparr>effects := update_where p f (effects st)\<rparr>) = (if j = i then Some (f r) else effect_by j st)"
proof -
  have r: "r \<in> set (effects st)" "r_identity r = i" using assms(1,2) by (simp_all add: effect_by_iff)
  show ?thesis
    unfolding effect_by_def
    using row_by_update_at [where p = p and f = f, OF store_invD(1) [OF assms(1)] r(1) _ assms(3)] assms(4,5) r(2)
    by simp
qed

lemma update_effects_at:
  assumes "store_inv st" "effect_by i st = Some r" "p r" "\<And>q. p q \<Longrightarrow> r_identity q = i"
    and "paid_effect_checks (f r)"
  shows "update_effects p f st = Inr (st\<lparr>effects := update_where p f (effects st)\<rparr>, 1)"
proof -
  have r: "r \<in> set (effects st)" "r_identity r = i" using assms(1,2) by (simp_all add: effect_by_iff)
  note wf = store_invD(1) [OF assms(1)]
  have "length (filter p (effects st)) = 1"
    using update_where_at(2) [where p = p, OF wf r(1) _ assms(3)] assms(4) r(2) by simp
  moreover have "q = r" if "q \<in> set (effects st)" "p q" for q
    using eff.wf_same_row [OF wf that(1) r(1)] assms(4) that(2) r(2) by simp
  ultimately show ?thesis
    using assms(5) by (auto simp: update_effects_Inr)
qed

lemma checks_receipt:
  "row_inv r \<Longrightarrow> r_state r \<in> {Sending, Unknown} \<Longrightarrow> v \<noteq> None \<Longrightarrow>
     paid_effect_checks (r\<lparr>r_state := ReceiptReady, r_result_json := v, r_result_recorded_at := Some t,
       r_send_lease_expires_at := None, r_unresolved_reason := None, r_updated_at := t\<rparr>)"
  by (auto simp: row_inv_def paid_effect_checks_def paid_effect_state_shape_ck_def)

text \<open>
  The delivery that was admitted to send can always record its receipt while the outcome is
  open, also after the send was classified as unknown: the call succeeds under fence 1, stores
  exactly that receipt, and changes no other obligation. Any other delivery, and any other
  fence, is refused.
\<close>

theorem owner_records_receipt:
  assumes "reachable h st" and "effect_by i st = Some r" and "r_state r \<in> {Sending, Unknown}"
    and "canonicalizePaidEffectJson receipt = Inr text" and "receipt \<noteq> JNull"
  shows "(\<exists>st' r'. recordPaidEffectResult now i (the (r_delivery_id r)) receipt 1 st = Inr (st', Recorded) \<and>
      effect_by i st' = Some r' \<and> r_state r' = ReceiptReady \<and> r_result_json r' = Some receipt \<and>
      (\<forall>j. j \<noteq> i \<longrightarrow> effect_by j st' = effect_by j st)) \<and>
    (\<forall>dl fence. dl \<noteq> the (r_delivery_id r) \<or> fence \<noteq> 1 \<longrightarrow>
      (\<exists>e. recordPaidEffectResult now i dl receipt fence st = Inl (PaidEffectDeliveryConflictError e)))"
proof -
  note inv = reachable_inv [OF assms(1)]
  have mem: "r \<in> set (effects st)" "r_identity r = i" using assms(2) inv by (simp_all add: effect_by_iff)
  have ri: "row_inv r" using store_invD(2) [OF inv mem(1)] .
  have own: "r_delivery_id r \<noteq> None" "r_fence r = 1" using ri assms(3) by (auto simp: row_inv_def)
  let ?p = "\<lambda>r. r_identity r = i \<and> r_state r \<in> {Sending, Unknown}"
  let ?f = "\<lambda>r. r\<lparr>r_state := ReceiptReady, r_result_json := jsonb_param receipt,
                r_result_recorded_at := Some now, r_send_lease_expires_at := None,
                r_unresolved_reason := None, r_updated_at := now\<rparr>"
  have "paid_effect_checks (?f r)"
    using checks_receipt [OF ri assms(3)] assms(5) by (simp add: jsonb_param_def)
  then have upd: "update_effects ?p ?f st = Inr (st\<lparr>effects := update_where ?p ?f (effects st)\<rparr>, 1)"
    using mem assms(2,3) by (intro update_effects_at [OF inv]) auto
  have at: "effect_by j (st\<lparr>effects := update_where ?p ?f (effects st)\<rparr>) =
      (if j = i then Some (?f r) else effect_by j st)" for j
    using mem assms(3) by (intro effect_by_update_at [OF inv assms(2)]) auto
  have "\<exists>st' r'. recordPaidEffectResult now i (the (r_delivery_id r)) receipt 1 st = Inr (st', Recorded) \<and>
      effect_by i st' = Some r' \<and> r_state r' = ReceiptReady \<and> r_result_json r' = Some receipt \<and>
      (\<forall>j. j \<noteq> i \<longrightarrow> effect_by j st' = effect_by j st)"
    using assms own upd at
    by (auto simp: recordPaidEffectResult_def lockRow_def requireOwnerDelivery_def jsonb_param_def)
  moreover have "\<exists>e. recordPaidEffectResult now i dl receipt fence st = Inl (PaidEffectDeliveryConflictError e)"
    if "dl \<noteq> the (r_delivery_id r) \<or> fence \<noteq> 1" for dl fence
    using assms own that by (auto simp: recordPaidEffectResult_def lockRow_def requireOwnerDelivery_def)
  ultimately show ?thesis by blast
qed

theorem owner_records_receipt_witness:
  "\<exists>st' r'. recordPaidEffectResult 5 (demo_id ''score'') (the (r_delivery_id demo_unknown_row)) demo_receipt 1
      demo_unknown = Inr (st', Recorded) \<and> effect_by (demo_id ''score'') st' = Some r' \<and>
      r_state r' = ReceiptReady \<and> r_result_json r' = Some demo_receipt"
  using owner_records_receipt [OF reachable_demo_unknown, of "demo_id ''score''" demo_unknown_row
      demo_receipt _ 5]
  by (auto simp: demo_receipt_def canonicalizePaidEffectJson_def)

text \<open>
  A recorded receipt is immutable. In every reachable database, when a row holds a receipt,
  the owner recording again gets \<open>idempotent\<close> exactly when the new payload is the same JSON
  document as the stored one, and otherwise a receipt conflict; either way nothing changes.
\<close>

theorem receipt_rewrite:
  assumes "reachable h st" and "effect_by i st = Some r" and "r_state r \<in> {ReceiptReady, Applied}"
    and "r_result_json r = Some old" and "wf_js old" "wf_js receipt" and "meaning receipt \<noteq> None"
    and "r_delivery_id r = Some dl"
  shows "recordPaidEffectResult now i dl receipt 1 st =
    (if meaning receipt = meaning old then Inr (st, IdempotentReceipt)
     else Inl (PaidEffectReceiptConflictError i))"
proof -
  note inv = reachable_inv [OF assms(1)]
  have mem: "r \<in> set (effects st)" using assms(2) inv by (simp add: effect_by_iff)
  have fence: "r_fence r = 1" using store_invD(2) [OF inv mem] assms(3) by (auto simp: row_inv_def)
  obtain c where "canonicalValue [] receipt = Inr c" using canonicalValue_complete assms(6,7) by blast
  then have canon: "canonicalizePaidEffectJson receipt = Inr (json_stringify c)"
    by (simp add: canonicalizePaidEffectJson_def)
  have "paidEffectJsonEquals old receipt \<longleftrightarrow> meaning receipt = meaning old"
    unfolding paidEffectJsonEquals_alt canonicalize_eq_iff [OF assms(5,6)] using assms(7) by auto
  then show ?thesis
    using assms(2,3,4,8) fence canon
    by (auto simp: recordPaidEffectResult_def lockRow_def requireOwnerDelivery_def jsonb_read_def)
qed

lemma demo_meanings:
  "meaning demo_receipt = Some (DObj [''score'' \<mapsto> DNum ''1''])"
  "meaning (JObj [(''score'', JNum ''2'')]) = Some (DObj [''score'' \<mapsto> DNum ''2''])"
  by (simp_all add: demo_receipt_def meaning_JObj)

lemma demo_ready_by: "effect_by (demo_id ''score'') demo_ready = Some demo_ready_row"
  "r_state demo_ready_row = ReceiptReady" "r_result_json demo_ready_row = Some demo_receipt"
  "r_delivery_id demo_ready_row = Some ''job-1''"
  by (simp_all add: demo_ready_def demo_ready_row_def effect_by_def row_by_def)

theorem receipt_rewrite_witness:
  "recordPaidEffectResult 9 (demo_id ''score'') ''job-1'' (JObj [(''score'', JNum ''2'')]) 1 demo_ready =
     Inl (PaidEffectReceiptConflictError (demo_id ''score''))"
proof -
  have wf: "wf_js demo_receipt" "wf_js (JObj [(''score'', JNum ''2'')])"
    by (simp_all add: demo_receipt_def number_text_def number_char_def decimal_digit_def)
  have "[''score'' \<mapsto> DNum ''2''] \<noteq> [''score'' \<mapsto> DNum ''1'']"
  proof
    assume "[''score'' \<mapsto> DNum ''2''] = [''score'' \<mapsto> DNum ''1'']"
    then have "[''score'' \<mapsto> DNum ''2''] ''score'' = [''score'' \<mapsto> DNum ''1''] ''score''"
      by (rule fun_cong)
    then show False by simp
  qed
  then show ?thesis
    using receipt_rewrite [OF reachable_demo_ready demo_ready_by(1) _ demo_ready_by(3) wf _ demo_ready_by(4)]
    by (simp add: demo_ready_by(2) demo_meanings)
qed

lemma entry_result_Inr:
  "entry_result p e = Inr e' \<longleftrightarrow>
     fst e' = fst e \<and> snd e \<noteq> JUndefined \<and> canonicalValue (p @ [AtKey (fst e)]) (snd e) = Inr (snd e')"
  by (cases e') (auto simp: entry_result_def bind_result_Inr_iff)

lemma canonicalValue_not_undefined: "canonicalValue p v = Inr c \<Longrightarrow> c \<noteq> JUndefined"
  by (cases v) (auto simp: bind_result_Inr_iff)

lemma canonicalValue_idem: "canonicalValue p v = Inr c \<Longrightarrow> canonicalValue p' c = Inr c"
proof (induction v arbitrary: p p' c)
  case (JArr xs)
  then obtain ys where c: "c = JArr ys" and ys: "canonicalItems p 0 xs = Inr ys"
    by (auto simp: bind_result_Inr_iff)
  have "canonicalValue q (ys ! j) = Inr (ys ! j)" if "j < length xs" for q j
    using JArr.IH [of "xs ! j"] ys that by (auto simp: canonicalItems_iff)
  then have "canonicalItems p' 0 ys = Inr ys" using ys by (simp add: canonicalItems_iff)
  then show ?case by (simp add: c)
next
  case (JObj es)
  let ?es = "sort_key fst es"
  from JObj.prems obtain cs where c: "c = JObj cs" and cs: "map (entry_result p) ?es = map Inr cs"
    unfolding canonicalValue_JObj by (auto simp: bind_result_Inr_iff sequence_results_Inr_iff)
  have len: "length cs = length ?es" using cs by (metis length_map)
  have sub: "fst (cs ! j) = fst (?es ! j) \<and> entry_result q (cs ! j) = Inr (cs ! j)"
    if j: "j < length ?es" for j q
  proof -
    obtain k v where e: "?es ! j = (k, v)" by force
    then have mem: "(k, v) \<in> set es" using j by (metis nth_mem set_sort)
    have "entry_result p (?es ! j) = Inr (cs ! j)" using cs j len by (metis nth_map)
    then have v: "fst (cs ! j) = k" "canonicalValue (p @ [AtKey k]) v = Inr (snd (cs ! j))"
      using e by (simp_all add: entry_result_Inr)
    have "canonicalValue (q @ [AtKey k]) (snd (cs ! j)) = Inr (snd (cs ! j))"
      using JObj.IH [of "(k, v)" v, OF mem _ v(2)] by simp
    then show ?thesis
      using v canonicalValue_not_undefined [OF v(2)] e by (simp add: entry_result_Inr)
  qed
  have "map fst cs = map fst ?es" using sub len by (intro nth_equalityI) auto
  then have "sort_key fst cs = cs" by (simp add: sort_key_id_if_sorted)
  moreover have "map (entry_result p') cs = map Inr cs"
    using sub len by (intro nth_equalityI) auto
  ultimately show ?case
    unfolding c canonicalValue_JObj by (simp add: sequence_results_Inr_iff bind_result_Inr_iff)
qed (auto simp: bind_result_Inr_iff)

lemma paidEffectJsonEquals_refl: "canonicalValue [] v = Inr c \<Longrightarrow> paidEffectJsonEquals c c"
  using canonicalValue_idem [of "[]" v c "[]"]
  by (auto simp: paidEffectJsonEquals_alt canonicalizePaidEffectJson_def)

lemma claimed_input:
  assumes "store_inv st" "effect_by i st = Some r" "r_state r = Pending"
    and "claimLockedRow now r i d st = Inr (st', ClaimFence n)"
  shows "effect_by i st' = Some (sending_row now 1 d r)"
proof -
  have r: "r \<in> set (effects st)" "r_identity r = i" using assms(1,2) by (simp_all add: effect_by_iff)
  show ?thesis
    unfolding effect_by_def claim_won(2) [OF assms(1) r assms(3,4)]
    using row_by_update_at [where p = "\<lambda>q. r_identity q = i \<and> r_state q = Pending"
        and f = "sending_row now 1 d", OF store_invD(1) [OF assms(1)] r(1)] r(2) assms(3) by simp
qed

text \<open>
  A reserved effect that has its receipt is never reserved again: after a reservation wins,
  and its delivery records the receipt, reserving the same input with any delivery returns
  \<open>completed\<close> with that receipt, leaves the database as it is, and admits no second send.
\<close>

theorem reserve_after_receipt:
  assumes "reachable h st" and "effect_by i st = None"
    and "reservePaidEffect h now raw d st = Inr (st1, i, Winner n)"
    and "recordPaidEffectResult now1 i (dl_deliveryId d) receipt n st1 = Inr (st2, out)"
    and "receipt \<noteq> JNull"
  shows "reservePaidEffect h now2 raw d' st2 =
    Inr (st2, i, Completed ReceiptReady (Some receipt) None False)"
proof (rule winner_row [OF assms(3)])
  fix st0 res r
  assume i: "computePaidEffectIdentity h raw = Inr i"
    and adm: "admitPaidEffectIntent h now raw st = Inr (st0, res)" and r: "effect_by i st0 = Some r"
    "r_state r = Pending" and c: "claimLockedRow now r i d st0 = Inr (st1, ClaimFence n)"
  note inv = reachable_inv [OF assms(1)]
  note inv0 = store_inv_admit [OF inv adm]
  note inv1 = store_inv_claim [OF inv0 r c]
  obtain v where v: "canonicalValue [] (in_input raw) = Inr v" "v \<noteq> JNull"
    and st0: "st0 = st\<lparr>effects := effects st @ [fresh_effect i v now]\<rparr>"
    using adm
  proof (rule admitPaidEffectIntent_Inr)
    fix j v
    assume "computePaidEffectIdentity h raw = Inr j" "canonicalValue [] (in_input raw) = Inr v" "v \<noteq> JNull"
      "effect_by j st = None \<Longrightarrow>
         res = AdmittedIntent \<and> st0 = st\<lparr>effects := effects st @ [fresh_effect j v now]\<rparr>"
    then show ?thesis using that i assms(2) by auto
  qed
  have "r = fresh_effect i v now"
    using r(1) assms(2) unfolding st0 effect_by_def by (simp add: row_by_append_new)
  then have in1: "\<exists>r1. effect_by i st1 = Some r1 \<and> r_input_json r1 = v \<and> r_state r1 = Sending \<and>
      r_application_json r1 = None"
    using claimed_input [OF inv0 r c] by (simp add: sending_row_def fresh_effect_def)
  then obtain r1 where r1: "effect_by i st1 = Some r1" "r_input_json r1 = v" "r_state r1 = Sending"
    "r_application_json r1 = None" by blast
  let ?p = "\<lambda>r. r_identity r = i \<and> r_state r \<in> {Sending, Unknown}"
  let ?f = "\<lambda>r. r\<lparr>r_state := ReceiptReady, r_result_json := jsonb_param receipt,
                r_result_recorded_at := Some now1, r_send_lease_expires_at := None,
                r_unresolved_reason := None, r_updated_at := now1\<rparr>"
  have mem: "r_identity r1 = i" using r1(1) inv1 by (simp add: effect_by_iff)
  have "st2 = st1\<lparr>effects := update_where ?p ?f (effects st1)\<rparr>"
    using recordPaidEffectResult_Inr [OF assms(4)] r1 by (auto simp: update_effects_Inr)
  then have r2: "effect_by i st2 = Some (?f r1)"
    using effect_by_update_at [where p = ?p and f = ?f and j = i, OF inv1 r1(1)] mem r1(3) by simp
  have schema: "paid_effect_checks (fresh_effect i v now2)"
    using adm
  proof (rule admitPaidEffectIntent_Inr)
    fix j assume "computePaidEffectIdentity h raw = Inr j" "paidEffectIdentitySchema j"
    then show ?thesis using i row_inv_fresh by (simp add: row_inv_def)
  qed
  have "admitPaidEffectIntent h now2 raw st2 = Inr (st2, ExistingIntent ReceiptReady)"
    using i v r2 r1(2) schema paidEffectJsonEquals_refl [OF v(1)]
    by (simp add: admitPaidEffectIntent_def insert_effect_on_conflict_do_nothing_def jsonb_param_def lockRow_def)
  then show ?thesis
    using i r2 r1(4) assms(5) by (simp add: reservePaidEffect_def lockRow_def jsonb_param_def)
qed

theorem reserve_after_receipt_witness:
  "reservePaidEffect demo_hash 9 (demo_input ''score'') demo_delivery demo_ready =
     Inr (demo_ready, demo_id ''score'', Completed ReceiptReady (Some demo_receipt) None False)"
  by (rule reserve_after_receipt [OF reachable_demo_store _ demo_reserve])
    (use demo_record in \<open>simp_all add: demo_value_def demo_store_def effect_by_def row_by_def demo_delivery_def
       demo_receipt_def\<close>)

section \<open>Voiding and cancelling\<close>

text \<open>
  Voiding hands the obligation over atomically: the unknown row becomes voided under a
  bumped fence with a receipt that names the successor, the successor is a pending intent, the
  authorisation row binds the two and the successor's delivery, no third obligation changes, and
  repeating the call with the same authorisation changes nothing and names the same successor.
\<close>

theorem void_hands_over:
  assumes "reachable h st"
    and "voidPaidEffectWithSuccessor h now i fence auth st = Inr (st', VoidedOutcome aid j s t f)"
  shows "\<exists>r v q a. effect_by i st = Some r \<and> r_state r = Unknown \<and> j = i \<and> aid = va_authorizationId auth \<and>
    effect_by i st' = Some v \<and> r_state v = Voided \<and> r_fence v = r_fence r + 1 \<and>
    r_void_json v = Some (void_receipt auth s (r_fence r)) \<and>
    effect_by s st' = Some q \<and> r_state q = Pending \<and>
    a \<in> set (authorizations st') \<and> voidedIdentityOf a = i \<and> successorIdentityOf a = s \<and>
    au_successor_delivery_id a = sd_deliveryId (va_successorDelivery auth) \<and>
    (\<forall>k. k \<noteq> i \<and> k \<noteq> s \<longrightarrow> effect_by k st' = effect_by k st) \<and>
    voidPaidEffectWithSuccessor h now' i fence auth st' = Inr (st', AlreadyVoided aid i s)"
  using reachable_inv [OF assms(1)] assms(2)
proof (cases rule: void_cases)
  case (fresh successor r es q)
  let ?f = "voided_row now 2 (void_receipt auth successor 1)"
  let ?a = "authorization_of i successor auth"
  note wf = store_invD(1) [OF fresh(11), simplified]
  have p: "\<And>x. void_target i 1 x \<Longrightarrow> r_identity x = r_identity r" "void_target i 1 r"
    "r_identity (?f r) = r_identity r"
    using fresh by (auto simp: void_target_def)
  have at: "effect_by k st' = (if k = i then Some (?f r) else row_by r_identity k es)" for k
    unfolding fresh(20) effect_by_def
    using row_by_update_at [where p = "void_target i 1" and f = ?f, OF wf fresh(12) p] fresh(13) by simp
  have s: "s = successor" "j = i" "aid = va_authorizationId auth" using fresh(9) by auto
  have q: "row_by r_identity s es = Some q" using eff.row_by_eq [OF wf fresh(15)] fresh(16) s by simp
  have other: "effect_by k st' = effect_by k st" if "k \<noteq> i" "k \<noteq> s" for k
    unfolding at [of k] using fresh(14) that s
    by (auto simp: effect_by_def row_by_append_new split: option.splits)
  have replay: "voidPaidEffectWithSuccessor h now' i fence auth st' = Inr (st', AlreadyVoided aid i s)"
    using fresh(1-4) at [of i] s
    by (simp add: voidPaidEffectWithSuccessor_def lockRow_def void_receipt_def)
  have a: "?a \<in> set (authorizations st')" "voidedIdentityOf ?a = i" "successorIdentityOf ?a = s"
    "au_successor_delivery_id ?a = sd_deliveryId (va_successorDelivery auth)"
    using fresh(20) s fresh(2,3) by (simp_all add: voidedIdentityOf_auth_key successor_authorization_of)
      (simp add: authorization_of_def)
  show ?thesis
    using fresh(5,6,7,17) s q at [of i] at [of s] fresh(4) a other replay
    by (intro exI [of _ r] exI [of _ "?f r"] exI [of _ q] exI [of _ ?a]) simp
qed simp

theorem void_hands_over_witness:
  "voidPaidEffectWithSuccessor demo_hash 7 (demo_id ''score'') 1 demo_authorization demo_voided =
     Inr (demo_voided, AlreadyVoided ''auth-1'' (demo_id ''score'') (demo_id ''retry''))"
  using void_hands_over [OF reachable_demo_unknown demo_void, of 7] by blast

lemma row_steps_closed:
  "row_step\<^sup>*\<^sup>* r r' \<Longrightarrow> r_state r \<in> {Applied, Voided, Cancelled} \<Longrightarrow> r' = r"
proof (induction rule: rtranclp_induct)
  case (step y z)
  then have "y = r" by simp
  then show ?case using step.hyps(2) step.prems by (auto simp: row_step_def)
qed simp

text \<open>
  C11. A closed obligation stays closed. An applied, voided or cancelled row never changes again
  in any run and is never sent, and for a voided or cancelled one every late receipt and every
  late unknown report under the fence of the admitted send is refused.
\<close>

theorem closed_obligations_stay_closed:
  assumes "reachable h st" and "effect_by i st = Some r" and "r_state r \<in> {Applied, Voided, Cancelled}"
    and "pe_run h st tr st'"
  shows "effect_by i st' = Some r \<and> filter (is_send i) tr = [] \<and>
    (r_state r \<noteq> Applied \<longrightarrow>
       (\<forall>now dl receipt. \<exists>e. recordPaidEffectResult now i dl receipt 1 st' = Inl e) \<and>
       (\<forall>now dl reason. \<exists>e. markPaidEffectUnknown now i dl reason 1 st' = Inl e))"
proof -
  note inv = reachable_inv [OF assms(1)]
  obtain r' where "effect_by i st' = Some r'" "row_step\<^sup>*\<^sup>* r r'"
    using effect_by_run [OF assms(4) inv assms(2)] by blast
  then have r': "effect_by i st' = Some r" using row_steps_closed assms(3) by blast
  have "r_state r \<noteq> Pending" using assms(3) by auto
  then have "filter (is_send i) tr = []" using no_send_after [OF assms(4) inv assms(2)] by blast
  moreover have "row_inv r" using store_invD(2) [OF inv] assms(2) inv by (simp add: effect_by_iff)
  then have "r_state r \<noteq> Applied \<Longrightarrow> r_fence r \<noteq> 1 \<or> r_delivery_id r = None"
    using assms(3) by (auto simp: row_inv_def)
  ultimately show ?thesis
    using r' assms(3)
    by (auto simp: recordPaidEffectResult_def markPaidEffectUnknown_def lockRow_def requireOwnerDelivery_def
          split: sum.splits)
qed

theorem closed_obligations_stay_closed_witness:
  "\<exists>e. recordPaidEffectResult 8 (demo_id ''score'') ''job-1'' demo_receipt 1 demo_voided = Inl e"
proof -
  have "effect_by (demo_id ''score'') demo_voided = Some demo_voided_row" "r_state demo_voided_row = Voided"
    by (simp_all add: demo_voided_def effect_by_def row_by_def demo_voided_row_def)
  then show ?thesis
    using closed_obligations_stay_closed [OF reachable_demo_voided _ _ run_nil] by simp
qed

lemma eligible_row:
  assumes "fst (evaluatePaidEffectCancelEligibility st i fence watch)"
  shows "fence = 0 \<and> (\<exists>r. effect_by i st = Some r \<and> r_state r = Pending \<and> r_fence r = 0 \<and> sent_evidence r = []) \<and>
    find (binds_successor i) (authorizations st) = None"
  using assms
  by (auto simp: evaluatePaidEffectCancelEligibility_def Let_def eligibility_row_failures_def
        eligibility_entity_failures_def split: option.splits if_splits)

text \<open>
  The cancel gate is sound for the cancel operation: when the eligibility evaluation reports
  no failure and the request's fields are not empty, cancelling succeeds, makes exactly that row
  cancelled and records the event, and repeating the same request afterwards is answered from
  the stored receipt without any change.
\<close>

theorem eligible_cancel_succeeds:
  assumes "reachable h st" and "fst (evaluatePaidEffectCancelEligibility st i fence watch)"
    and "cq_requestId request \<noteq> []" "cq_reason request \<noteq> []" "cq_operator request \<noteq> []" "cq_basis request \<noteq> []"
  shows "\<exists>st' r'. cancelPaidEffectUnsentIntent now i fence request st =
      Inr (st', CancelledOutcome (cq_requestId request) i now 1) \<and>
    effect_by i st' = Some r' \<and> r_state r' = Cancelled \<and>
    (\<forall>j. j \<noteq> i \<longrightarrow> effect_by j st' = effect_by j st) \<and>
    cancellations st' = cancellations st @ [cancellation_of i request] \<and>
    cancelPaidEffectUnsentIntent now' i fence request st' =
      Inr (st', AlreadyCancelled (cq_requestId request) i (cancel_receipt request i now))"
proof -
  note inv = reachable_inv [OF assms(1)]
  obtain r where z: "fence = 0" and r: "effect_by i st = Some r" "r_state r = Pending" "r_fence r = 0"
    "sent_evidence r = []" and free: "find (binds_successor i) (authorizations st) = None"
    using eligible_row [OF assms(2)] by blast
  have mem: "r \<in> set (effects st)" "r_identity r = i" using r(1) inv by (simp_all add: effect_by_iff)
  have ri: "row_inv r" using store_invD(2) [OF inv mem(1)] .
  let ?c = "cancellation_of i request"
  let ?f = "cancelled_row now (cancel_receipt request i now)"
  let ?st1 = "st\<lparr>cancellations := cancellations st @ [?c]\<rparr>"
  let ?st' = "?st1\<lparr>effects := update_where (cancel_target i) ?f (effects st)\<rparr>"
  have none: "row_by ca_identity i (cancellations st) = None"
  proof -
    have "i \<notin> r_identity ` {q \<in> set (effects st). r_state q = Cancelled}"
      using eff.wf_same_row [OF store_invD(1) [OF inv] _ mem(1)] mem(2) r(2) by auto
    then show ?thesis
      using store_invD(8) [OF inv] by (simp add: row_by_None_iff cancellations_match_def)
  qed
  have ins: "insert_cancellation ?c st = Inr ?st1"
    using none r(1) assms(3-6) ri mem(2)
    by (simp add: insert_cancellation_Inr cancellation_checks_def cancellation_of_def row_inv_def
        paidEffectIdentitySchema_def)
  have p: "cancel_target i r" using r mem by (simp add: cancel_target_def)
  have "r_delivery_tick r = None" using r(4) by (simp add: sent_evidence_def split: if_splits)
  then have "paid_effect_checks (?f r)" using checks_cancelled [OF ri r(2)] by blast
  then have "update_effects (cancel_target i) ?f st = Inr (st\<lparr>effects := update_where (cancel_target i) ?f (effects st)\<rparr>, 1)"
    using p by (intro update_effects_at [OF inv r(1)]) (auto simp: cancel_target_def)
  then have upd: "update_effects (cancel_target i) ?f ?st1 = Inr (?st', 1)"
    by (simp add: update_effects_def Let_def split: if_splits)
  have run: "cancelPaidEffectUnsentIntent now i fence request st =
      Inr (?st', CancelledOutcome (cq_requestId request) i now 1)"
    using r free ins upd z
    by (simp add: cancelPaidEffectUnsentIntent_def lockRow_def cancellation_of_def cancel_receipt_def
        cancelled_row_def [abs_def] cancel_target_def [abs_def])
  have "effect_by j (st\<lparr>effects := update_where (cancel_target i) ?f (effects st)\<rparr>) =
      (if j = i then Some (?f r) else effect_by j st)" for j
    using p mem by (intro effect_by_update_at [OF inv r(1)]) (auto simp: cancel_target_def)
  then have at: "effect_by j ?st' = (if j = i then Some (?f r) else effect_by j st)" for j
    by (simp add: effect_by_def)
  have "cancelPaidEffectUnsentIntent now' i fence request ?st' =
      Inr (?st', AlreadyCancelled (cq_requestId request) i (cancel_receipt request i now))"
    using at [of i] z
    by (simp add: cancelPaidEffectUnsentIntent_def lockRow_def cancel_replay_matches_def cancel_receipt_def)
  then show ?thesis using run at by (intro exI [of _ ?st'] exI [of _ "?f r"]) simp
qed

theorem eligible_cancel_succeeds_witness:
  "\<exists>st'. cancelPaidEffectUnsentIntent 2 (demo_id ''score'') 0 demo_request demo_pending =
      Inr (st', CancelledOutcome ''c-1'' (demo_id ''score'') 2 1)"
proof -
  have "fst (evaluatePaidEffectCancelEligibility demo_pending (demo_id ''score'') 0 [])"
    by (simp add: evaluatePaidEffectCancelEligibility_def eligibility_row_failures_def demo_effect_by
        eligibility_entity_failures_def eligibility_job_failures_def eligibility_delivery_failures_def)
      (simp add: demo_pending_def demo_store_def)
  then show ?thesis
    using eligible_cancel_succeeds [OF reachable_demo_pending, of "demo_id ''score''" 0 "[]" demo_request 2]
    by (auto simp: demo_request_def)
qed

section \<open>Recovery, reads and content addressing\<close>

definition lease_expired :: "string option \<Rightarrow> int \<Rightarrow> effect_row \<Rightarrow> bool" where
  "lease_expired fam now r \<longleftrightarrow> r_state r = Sending \<and>
     (\<exists>t. r_send_lease_expires_at r = Some t \<and> t < now) \<and>
     (fam = None \<or> fam = Some (pe_family (r_identity r)))"

text \<open>
  Lease recovery settles exactly the expired sends: in a reachable database it always
  succeeds, reports how many it settled, turns each sending row of the family whose lease ended
  before now into an unknown obligation, and leaves every other row untouched.
\<close>

theorem settle_expired_sends:
  assumes "reachable h st"
  shows "\<exists>st'. settleExpiredPaidEffectSends fam now st =
      Inr (st', length (filter (lease_expired fam now) (effects st))) \<and>
    (\<forall>i r. effect_by i st = Some r \<longrightarrow> (\<exists>r'. effect_by i st' = Some r' \<and>
       (if lease_expired fam now r
        then r_state r' = Unknown \<and> r_unresolved_reason r' = Some ''send_lease_expired'' \<and>
             r_delivery_id r' = r_delivery_id r \<and> r_fence r' = r_fence r
        else r' = r)))"
proof -
  note inv = reachable_inv [OF assms]
  let ?f = "\<lambda>r. r\<lparr>r_state := Unknown, r_send_lease_expires_at := None,
              r_unresolved_reason := Some ''send_lease_expired'', r_updated_at := now\<rparr>"
  let ?p = "lease_expired fam now"
  let ?st' = "st\<lparr>effects := update_where ?p ?f (effects st)\<rparr>"
  have p: "settleExpiredPaidEffectSends fam now st = update_effects ?p ?f st"
    unfolding settleExpiredPaidEffectSends_def
    by (intro arg_cong3 [where f = update_effects] ext) (auto simp: lease_expired_def split: option.splits)
  have "paid_effect_checks (?f r)" if "r \<in> set (effects st)" "?p r" for r
    using store_invD(2) [OF inv that(1)] that(2)
    by (auto simp: row_inv_def lease_expired_def paid_effect_checks_def paid_effect_state_shape_ck_def)
  then have "update_effects ?p ?f st = Inr (?st', length (filter ?p (effects st)))"
    by (simp add: update_effects_Inr)
  moreover have "effect_by i ?st' = map_option (\<lambda>r. if ?p r then ?f r else r) (effect_by i st)" for i
    unfolding effect_by_def by (simp add: eff.row_by_update)
  ultimately show ?thesis
    unfolding p by (intro exI [of _ ?st']) auto
qed

theorem settle_expired_sends_witness:
  "\<exists>st' r'. settleExpiredPaidEffectSends None 101 demo_sending = Inr (st', 1) \<and>
     effect_by (demo_id ''score'') st' = Some r' \<and> r_state r' = Unknown"
proof -
  have e: "lease_expired None 101 demo_sending_row" by (simp add: lease_expired_def)
  then have "length (filter (lease_expired None 101) (effects demo_sending)) = 1"
    by (simp add: demo_sending_effects)
  then show ?thesis
    using settle_expired_sends [OF reachable_demo_sending, of None 101] demo_sending_by e by fastforce
qed

text \<open>The stored input of every row is a canonical document whose digest is in its identity.\<close>

definition content_addressed :: "(string \<Rightarrow> string) \<Rightarrow> effect_row \<Rightarrow> bool" where
  "content_addressed h r \<longleftrightarrow>
     computePaidEffectInputDigest h (r_input_json r) = Inr (pe_inputDigest (r_identity r)) \<and>
     r_input_json r \<noteq> JNull"

lemma content_addressed_fresh:
  assumes "computePaidEffectIdentity h raw = Inr i" "canonicalValue [] (in_input raw) = Inr v" "v \<noteq> JNull"
  shows "content_addressed h (fresh_effect i v now)"
  using computePaidEffectIdentity_Inr [OF assms(1)] assms(2,3) canonicalValue_idem [OF assms(2)]
  by (simp add: content_addressed_def computePaidEffectInputDigest_def canonicalizePaidEffectJson_def)

lemma content_addressed_row_step: "row_step r r' \<Longrightarrow> content_addressed h r \<Longrightarrow> content_addressed h r'"
  by (auto simp: row_step_def content_addressed_def)

text \<open>Where the rows of a database come from: each was there before, or is a fresh intent, moved at most once.\<close>

definition rows_from :: "(string \<Rightarrow> string) \<Rightarrow> effect_row list \<Rightarrow> effect_row list \<Rightarrow> bool" where
  "rows_from h es es' \<longleftrightarrow> (\<forall>r' \<in> set es'. \<exists>r. row_step r r' \<and> (r \<in> set es \<or> content_addressed h r))"

lemma rows_from_refl [simp]: "rows_from h es es"
  unfolding rows_from_def using row_step_refl by blast

lemma rows_from_update:
  "(\<And>r. p r \<Longrightarrow> row_step r (f r)) \<Longrightarrow> rows_from h es (update_where p f es)"
  unfolding rows_from_def set_update_where
proof (rule ballI)
  fix r'
  assume step: "\<And>r. p r \<Longrightarrow> row_step r (f r)"
    and "r' \<in> (\<lambda>r. if p r then f r else r) ` set es"
  then obtain r where r: "r \<in> set es" "r' = (if p r then f r else r)" by blast
  then have "row_step r r'" using step by simp
  then show "\<exists>r. row_step r r' \<and> (r \<in> set es \<or> content_addressed h r)" using r(1) by blast
qed

lemma rows_from_update_effects:
  "update_effects p f st = Inr (st', n) \<Longrightarrow> (\<And>r. p r \<Longrightarrow> row_step r (f r)) \<Longrightarrow>
     rows_from h (effects st) (effects st')"
  by (auto simp: update_effects_Inr intro: rows_from_update)

lemma rows_from_trans_append:
  "rows_from h (es @ [r]) es' \<Longrightarrow> content_addressed h r \<Longrightarrow> rows_from h es es'"
  unfolding rows_from_def by (metis Un_iff empty_iff insert_iff list.set set_append)

lemma rows_from_admit:
  assumes "admitPaidEffectIntent h now raw st = Inr (st', res)"
  shows "effects st' = effects st \<or> (\<exists>r. effects st' = effects st @ [r] \<and> content_addressed h r)"
  using assms
proof (rule admitPaidEffectIntent_Inr)
  fix i v
  assume "computePaidEffectIdentity h raw = Inr i" "canonicalValue [] (in_input raw) = Inr v" "v \<noteq> JNull"
    "effect_by i st = None \<Longrightarrow>
       res = AdmittedIntent \<and> st' = st\<lparr>effects := effects st @ [fresh_effect i v now]\<rparr>"
    "\<And>r. effect_by i st = Some r \<Longrightarrow>
       st' = st \<and> res = ExistingIntent (r_state r) \<and> paidEffectJsonEquals (r_input_json r) v"
  then show ?thesis using content_addressed_fresh by (cases "effect_by i st") auto
qed

lemma rows_from_claim:
  assumes "store_inv st" "effect_by i st = Some r" "r_state r = Pending"
    and "claimLockedRow now r i d st = Inr (st', ClaimFence n)"
  shows "rows_from h (effects st) (effects st')"
proof -
  have "r \<in> set (effects st)" "r_identity r = i" using assms(1,2) by (simp_all add: effect_by_iff)
  then have "effects st' = update_where (\<lambda>q. r_identity q = i \<and> r_state q = Pending)
      (sending_row now 1 d) (effects st)"
    using claim_won(2) assms by blast
  then show ?thesis by (auto intro!: rows_from_update row_step_sending)
qed

lemma rows_from_self_append: "content_addressed h r \<Longrightarrow> rows_from h es (es @ [r])"
  by (rule rows_from_trans_append [OF rows_from_refl])

lemma rows_from_admitted:
  "admitPaidEffectIntent h now raw st = Inr (st', res) \<Longrightarrow> rows_from h (effects st') es' \<Longrightarrow>
     rows_from h (effects st) es'"
  using rows_from_admit rows_from_trans_append by metis

lemma rows_from_step:
  assumes "pe_step h st e st'" and "store_inv st"
  shows "rows_from h (effects st) (effects st')"
  using assms
proof (induction rule: pe_step.induct)
  case (admit now raw st st' res)
  then show ?case using rows_from_admitted rows_from_refl by blast
next
  case (claim now i d st st' n)
  then show ?case by (blast elim: claimed_row intro: rows_from_claim)
next
  case (claim_refused now i d st st' out)
  then have "st' = st" using refused_same by blast
  then show ?case by simp
next
  case (reserve now raw d st st' i n)
  show ?case
  proof (rule winner_row [OF reserve(1)])
    fix st1 res r
    assume adm: "admitPaidEffectIntent h now raw st = Inr (st1, res)"
      and c: "effect_by i st1 = Some r" "r_state r = Pending"
        "claimLockedRow now r i d st1 = Inr (st', ClaimFence n)"
    show ?thesis
      using rows_from_admitted [OF adm rows_from_claim [OF store_inv_admit [OF reserve(2) adm] c]] .
  qed
next
  case (reserve_other now raw d st st' i out)
  then show ?case using not_winner_admitted rows_from_admitted rows_from_refl by blast
next
  case (record_receipt now i delivery receipt fence st st' out)
  then show ?case
    using recordPaidEffectResult_Inr [OF record_receipt(1)]
    by (auto elim!: rows_from_update_effects intro!: row_step_update)
next
  case (unknown now i delivery reason fence st st')
  then show ?case
    using markPaidEffectUnknown_Inr [OF unknown(1)]
    by (auto elim!: rows_from_update_effects intro!: row_step_update)
next
  case (degrade now i fence reason st st' b)
  then show ?case
    by (auto simp: degradePaidEffectReceiptToUnknown_def bind_result_Inr_iff
          elim!: rows_from_update_effects intro!: row_step_update)
next
  case (void now i fence auth st st' out)
  show ?case
  proof (rule void_cases [OF void(2,1)])
    fix successor r es s
    assume id: "computePaidEffectIdentity h (va_successorInput auth) = Inr successor"
      and es: "es = effects st \<or> (\<exists>v. es = effects st @ [fresh_effect successor v now] \<and>
         effect_by successor st = None \<and>
         canonicalValue [] (in_input (va_successorInput auth)) = Inr v \<and> v \<noteq> JNull \<and>
         paidEffectIdentitySchema successor)"
      and st': "st' = st\<lparr>effects := update_where (void_target i 1)
              (voided_row now 2 (void_receipt auth successor 1)) es,
            authorizations := authorizations st @ [authorization_of i successor auth]\<rparr>"
    have "rows_from h es (effects st')"
      unfolding st' by (auto intro!: rows_from_update row_step_voided simp: void_target_def)
    then show ?thesis using es content_addressed_fresh [OF id] rows_from_trans_append by blast
  qed simp
next
  case (cancel now i fence request st st' out)
  then show ?case
    using cancelPaidEffectUnsentIntent_Inr [OF cancel(1)]
    by (auto simp: insert_cancellation_Inr update_effects_Inr cancel_target_def
          intro!: rows_from_update row_step_cancelled)
next
  case (settle fam now st st' k)
  then show ?case
    by (auto simp: settleExpiredPaidEffectSends_def elim!: rows_from_update_effects intro!: row_step_update)
next
  case (note_failure now i error st st')
  then show ?case
    using notePaidEffectApplicationFailure_Inr [OF note_failure(1)]
    by (auto elim!: rows_from_update_effects intro!: row_step_update)
next
  case (apply_receipt now i application st st' out)
  then show ?case
    using recordPaidEffectApplication_Inr [OF apply_receipt(1)]
    by (auto elim!: rows_from_update_effects intro!: row_step_update)
next
  case (switch fam to st st' snap)
  then show ?case by (simp add: switchPaidEffectBackend_Inr(2))
next
  case environment
  then show ?case by simp
qed

lemma content_addressed_run:
  "pe_run h st tr st' \<Longrightarrow> store_inv st \<Longrightarrow> \<forall>r \<in> set (effects st). content_addressed h r \<Longrightarrow>
     \<forall>r \<in> set (effects st'). content_addressed h r"
proof (induction rule: pe_run.induct)
  case (run_cons st e st1 tr st')
  have "\<forall>r \<in> set (effects st1). content_addressed h r"
    using rows_from_step [OF run_cons.hyps(1) run_cons.prems(1)] run_cons.prems(2)
      content_addressed_row_step unfolding rows_from_def by blast
  then show ?case using run_cons store_inv_step by blast
qed simp

text \<open>
  Content addressing: in every reachable database the input stored with an obligation is a
  document whose digest is the one in the obligation's identity, so a row can never hold an
  input other than the one its identity was computed from (up to collisions of the hash).
\<close>

theorem stored_input_matches_identity:
  assumes "reachable h st" and "effect_by i st = Some r"
  shows "computePaidEffectInputDigest h (r_input_json r) = Inr (pe_inputDigest i) \<and> r_input_json r \<noteq> JNull"
proof -
  obtain st0 tr where "empty_store st0" and run: "pe_run h st0 tr st"
    using assms(1) by (auto simp: reachable_def)
  then have "\<forall>r \<in> set (effects st). content_addressed h r"
    by (intro content_addressed_run [OF run store_inv_empty]) (simp_all add: empty_store_def)
  moreover have "r \<in> set (effects st)" "r_identity r = i"
    using assms(2) reachable_inv [OF assms(1)] by (simp_all add: effect_by_iff)
  ultimately show ?thesis by (auto simp: content_addressed_def)
qed

theorem stored_input_matches_identity_witness:
  "computePaidEffectInputDigest demo_hash (r_input_json demo_ready_row) = Inr (pe_inputDigest (demo_id ''score''))"
  using stored_input_matches_identity [OF reachable_demo_ready demo_ready_by(1)] by blast

text \<open>
  C13. The gate scan is the gate: in a reachable database the SQL scan never fails, and it names a
  blocker exactly when some other sending or unknown obligation of the same family and entity
  blocks the claim by the protocol's gate predicate; the one it names is such an obligation: another
  one, of the same family and entity, sending or unknown, and blocking the claim.
\<close>

theorem gate_scan_is_the_gate:
  assumes "reachable h st"
  shows "\<exists>b. findGateBlocker st i = Inr b \<and>
    (b = None \<longleftrightarrow> (\<nexists>j q. effect_by j st = Some q \<and> j \<noteq> i \<and> pe_family j = pe_family i \<and>
       pe_entityId j = pe_entityId i \<and> r_state q \<in> {Sending, Unknown} \<and> paidEffectGateBlocks j i)) \<and>
    (\<forall>j. b = Some j \<longrightarrow> (\<exists>q. effect_by j st = Some q \<and> j \<noteq> i \<and> pe_family j = pe_family i \<and>
       pe_entityId j = pe_entityId i \<and> r_state q \<in> {Sending, Unknown} \<and> paidEffectGateBlocks j i))"
proof -
  note inv = reachable_inv [OF assms]
  have gate: "(\<exists>q \<in> set (effects st). gate_scan_where i q) \<longleftrightarrow>
      (\<exists>j q. effect_by j st = Some q \<and> j \<noteq> i \<and> pe_family j = pe_family i \<and>
       pe_entityId j = pe_entityId i \<and> r_state q \<in> {Sending, Unknown} \<and> paidEffectGateBlocks j i)"
    unfolding gate_scan_where_iff effect_by_iff [OF inv] by blast
  show ?thesis
  proof (cases "find (gate_scan_where i) (effects st)")
    case None
    then have "\<not> (\<exists>q \<in> set (effects st). gate_scan_where i q)" by (simp add: find_None_iff)
    then show ?thesis unfolding gate using None by (simp add: findGateBlocker_def)
  next
    case (Some q)
    then have q: "q \<in> set (effects st)" "gate_scan_where i q" by (auto simp: find_Some_iff)
    then have "paidEffectIdentitySchema (r_identity q)"
      using store_invD(2) [OF inv q(1)] by (simp add: row_inv_def)
    then have "findGateBlocker st i = Inr (Some (r_identity q))"
      using Some by (simp add: findGateBlocker_def parse_identity_def)
    moreover have "effect_by (r_identity q) st = Some q" using q(1) by (simp add: effect_by_iff [OF inv])
    moreover have "r_identity q \<noteq> i \<and> pe_family (r_identity q) = pe_family i \<and>
        pe_entityId (r_identity q) = pe_entityId i \<and> r_state q \<in> {Sending, Unknown} \<and>
        paidEffectGateBlocks (r_identity q) i"
      using q(2) unfolding gate_scan_where_iff by blast
    moreover have "\<exists>q \<in> set (effects st). gate_scan_where i q" using q by blast
    ultimately show ?thesis unfolding gate by (intro exI [of _ "Some (r_identity q)"]) blast
  qed
qed

theorem gate_scan_is_the_gate_witness: "\<exists>b. findGateBlocker demo_sending (demo_id ''retry'') = Inr b"
  using gate_scan_is_the_gate [OF reachable_demo_sending] by blast

definition snapshot_of :: "effect_row \<Rightarrow> PaidEffectSnapshot" where
  "snapshot_of row =
     \<lparr>sn_identity = r_identity row, sn_state = r_state row, sn_fence = r_fence row,
      sn_delivery = (r_delivery_backend row, r_delivery_id row, r_delivery_tick row),
      sn_sendLeaseExpiresAt = r_send_lease_expires_at row,
      sn_result = jsonb_read (r_result_json row),
      sn_resultRecordedAt = r_result_recorded_at row,
      sn_application = jsonb_read (r_application_json row),
      sn_appliedAt = r_applied_at row,
      sn_applicationAttempts = r_application_attempts row,
      sn_lastApplicationError = r_last_application_error row,
      sn_unresolvedReason = r_unresolved_reason row,
      sn_voidedAt = r_voided_at row, sn_voidReceipt = r_void_json row,
      sn_cancelledAt = r_cancelled_at row, sn_cancelReceipt = r_cancel_json row,
      sn_createdAt = r_created_at row, sn_updatedAt = r_updated_at row\<rparr>"

lemma toSnapshot_Inr: "row_inv r \<Longrightarrow> toSnapshot r = Inr (snapshot_of r)"
  by (simp add: toSnapshot_def snapshot_of_def parse_identity_def row_inv_def)

definition open_rows :: "string option \<Rightarrow> store \<Rightarrow> effect_row list" where
  "open_rows fam st = filter (\<lambda>r. r_state r \<in> {Pending, Sending, Unknown, ReceiptReady} \<and>
     (fam = None \<or> fam = Some (pe_family (r_identity r)))) (effects st)"

text \<open>
  Reads never fail on stored rows: in a reachable database \<open>readPaidEffect\<close> returns the
  snapshot of exactly the stored row, and \<open>listPaidEffectObligations\<close> returns the snapshots of
  the open obligations, ordered by family, creation time and entity, cut at the limit.
\<close>

theorem reads_never_fail:
  assumes "reachable h st"
  shows "readPaidEffect st i = Inr (map_option snapshot_of (effect_by i st)) \<and>
    (\<exists>rs. listPaidEffectObligations fam None limit st =
        Inr (map snapshot_of (take (case limit of None \<Rightarrow> 1000 | Some k \<Rightarrow> k) rs)) \<and>
      mset rs = mset (open_rows fam st) \<and>
      sorted (map (\<lambda>r. (pe_family (r_identity r), r_created_at r, pe_entityId (r_identity r))) rs))"
proof
  note inv = reachable_inv [OF assms]
  have rows: "r \<in> set (effects st) \<Longrightarrow> toSnapshot r = Inr (snapshot_of r)" for r
    using store_invD(2) [OF inv] toSnapshot_Inr by blast
  show "readPaidEffect st i = Inr (map_option snapshot_of (effect_by i st))"
  proof (cases "effect_by i st")
    case (Some r)
    then have "r \<in> set (effects st)" using effect_by_iff [OF inv] by blast
    then show ?thesis using Some rows by (simp add: readPaidEffect_def)
  qed (simp add: readPaidEffect_def)
  let ?key = "\<lambda>r. (pe_family (r_identity r), r_created_at r, pe_entityId (r_identity r))"
  let ?rs = "sort_key ?key (open_rows fam st)"
  have filt: "filter (\<lambda>r. r_state r \<in> set PAID_EFFECT_OBLIGATION_STATES \<and>
      (case fam of None \<Rightarrow> True | Some f \<Rightarrow> pe_family (r_identity r) = f)) (effects st) = open_rows fam st"
    unfolding open_rows_def by (intro filter_cong refl) (auto simp: state_lists split: option.splits)
  have mapped: "map toSnapshot (take n ?rs) = map Inr (map snapshot_of (take n ?rs))" for n
  proof -
    have "set (take n ?rs) \<subseteq> set (effects st)"
      by (auto simp: open_rows_def dest!: in_set_takeD)
    then show ?thesis using rows by auto
  qed
  then have "listPaidEffectObligations fam None limit st =
      Inr (map snapshot_of (take (case limit of None \<Rightarrow> 1000 | Some k \<Rightarrow> k) ?rs))"
    unfolding listPaidEffectObligations_def Let_def using filt
    by (simp add: sequence_results_Inr_iff)
  then show "\<exists>rs. listPaidEffectObligations fam None limit st =
        Inr (map snapshot_of (take (case limit of None \<Rightarrow> 1000 | Some k \<Rightarrow> k) rs)) \<and>
      mset rs = mset (open_rows fam st) \<and> sorted (map ?key rs)"
    by (intro exI [of _ ?rs]) simp
qed

theorem reads_never_fail_witness:
  "readPaidEffect demo_ready (demo_id ''score'') = Inr (Some (snapshot_of demo_ready_row))"
  using reads_never_fail [OF reachable_demo_ready] by (simp add: demo_ready_by)

text \<open>
  C14. Semantic JSON equality: the protocol's comparison of two JSON values by their canonical
  texts holds exactly when both are JSON documents and denote the same document (property order,
  and the sign of zero, do not matter), so no two different documents share a canonical text.
\<close>

theorem json_equals_iff_same_document:
  assumes "wf_js a" "wf_js b"
  shows "paidEffectJsonEquals a b \<longleftrightarrow> meaning a \<noteq> None \<and> meaning a = meaning b"
  unfolding paidEffectJsonEquals_alt by (rule canonicalize_eq_iff [OF assms])

theorem json_equals_iff_same_document_witness:
  "paidEffectJsonEquals (JObj [(''b'', JNum ''1''), (''a'', JNegZero)])
     (JObj [(''a'', JNum ''0''), (''b'', JNum ''1'')])"
proof -
  have "meaning (JObj [(''b'', JNum ''1''), (''a'', JNegZero)]) =
      meaning (JObj [(''a'', JNum ''0''), (''b'', JNum ''1'')])"
    by (simp add: meaning_JObj fun_upd_twist)
  then show ?thesis
    by (subst json_equals_iff_same_document)
      (simp_all add: meaning_JObj number_text_def number_char_def decimal_digit_def)
qed

text \<open>
  A voided obligation answers a late caller that holds the voided fence with success: when
  the row is voided, the owning delivery reporting a receipt under the row's own fence is told
  \<open>recorded\<close>, although the update matches no row and the database is unchanged.
\<close>

theorem record_on_voided_reports_recorded:
  assumes "effect_by i st = Some r" "r_state r = Voided" "r_delivery_id r = Some dl"
    and "\<forall>q \<in> set (effects st). r_identity q = i \<longrightarrow> q = r"
    and "canonicalizePaidEffectJson receipt = Inr c"
  shows "recordPaidEffectResult now i dl receipt (r_fence r) st = Inr (st, Recorded)"
proof -
  have none: "filter (\<lambda>r. r_identity r = i \<and> r_state r \<in> {Sending, Unknown}) (effects st) = []"
    using assms(2,4) by (auto simp: filter_empty_conv)
  then have "update_where (\<lambda>r. r_identity r = i \<and> r_state r \<in> {Sending, Unknown}) f (effects st) = effects st" for f
    by (intro update_where_none) (auto simp: filter_empty_conv)
  then show ?thesis
    using assms none
    by (simp add: recordPaidEffectResult_def lockRow_def requireOwnerDelivery_def update_effects_def)
qed

theorem record_on_voided_reports_recorded_witness:
  "recordPaidEffectResult 9 (demo_id ''score'') ''job-1'' demo_receipt 2 demo_voided = Inr (demo_voided, Recorded)"
  using record_on_voided_reports_recorded [of "demo_id ''score''" demo_voided demo_voided_row "''job-1''"
      demo_receipt "json_stringify demo_receipt" 9]
  by (simp add: demo_voided_def effect_by_def row_by_def demo_voided_row_def demo_unknown_row_def
      demo_retry_row_def)

end
