(* ===== verification/Corrections.thy ===== *)
theory Corrections
  imports CanonicalJson
begin

text \<open>
  Corrections of the append-only event log: \<open>src/src/kernel/events/corrections.ts\<close>, the
  \<open>event\<close> table of \<open>src/src/db/schema/events.ts\<close> and the \<open>CorrectEvent\<close> schema of
  \<open>src/src/core/schema/event/known.ts\<close>.

  The log is the list of rows in the order the database holds them; \<open>payload\<close> is a \<open>jsonb\<close>
  value. \<open>ORDER BY\<close> on text uses code unit order. The optional envelope columns are always
  valid for the schema (their column types are its types) and are left out.
\<close>

section \<open>The event table\<close>

record log_event =
  e_id :: string
  e_dispatch_seq :: int
  e_actor_kind :: string
  e_actor_ref :: string
  e_action :: string
  e_subject_kind :: string
  e_subject_id :: string
  e_outcome :: "string option"
  e_payload :: jsval
  e_created_at :: int

text \<open>Primary key on \<open>id\<close>, unique index on \<open>dispatch_seq\<close>.\<close>

definition log_wf :: "log_event list \<Rightarrow> bool" where
  "log_wf es \<longleftrightarrow> distinct (map e_id es) \<and> distinct (map e_dispatch_seq es)"

text \<open>Reading a property of an object value; absent and \<open>undefined\<close> are the same.\<close>

definition js_field :: "string \<Rightarrow> jsval \<Rightarrow> jsval" where
  "js_field k v = (case v of
       JObj es \<Rightarrow> (case map_of es k of Some x \<Rightarrow> x | None \<Rightarrow> JUndefined)
     | _ \<Rightarrow> JUndefined)"

text \<open>\<open>payload ? 'key'\<close> and \<open>payload->>'key'\<close> of PostgreSQL.\<close>

definition jsonb_has :: "string \<Rightarrow> jsval \<Rightarrow> bool" where
  "jsonb_has k v = (case v of JObj es \<Rightarrow> map_of es k \<noteq> None | _ \<Rightarrow> False)"

definition jsonb_text :: "string \<Rightarrow> jsval \<Rightarrow> string option" where
  "jsonb_text k v = (case js_field k v of
       JUndefined \<Rightarrow> None | JNull \<Rightarrow> None | JStr s \<Rightarrow> Some s | x \<Rightarrow> Some (json_stringify x))"

section \<open>The CorrectEvent schema\<close>

datatype CorrectionKind = Supersede | Retract | MarkWrong | Restore

fun parse_correction_kind :: "jsval \<Rightarrow> CorrectionKind option" where
  "parse_correction_kind (JStr s) =
     (if s = ''supersede'' then Some Supersede
      else if s = ''retract'' then Some Retract
      else if s = ''mark_wrong'' then Some MarkWrong
      else if s = ''restore'' then Some Restore
      else None)"
| "parse_correction_kind _ = None"

definition activity_kinds :: "string list" where
  "activity_kinds = [''question'', ''question_part'', ''record'', ''recall_prompt'', ''practice_log'',
     ''project_milestone'', ''open_inquiry'']"

definition activity_ref_ok :: "jsval \<Rightarrow> bool" where
  "activity_ref_ok v \<longleftrightarrow>
     (case js_field ''kind'' v of JStr k \<Rightarrow> k \<in> set activity_kinds | _ \<Rightarrow> False) \<and>
     (case js_field ''id'' v of JStr s \<Rightarrow> s \<noteq> [] | _ \<Rightarrow> False)"

definition stableActorRefAllowed :: "string \<Rightarrow> string \<Rightarrow> bool" where
  "stableActorRefAllowed actorKind actorRef =
     (if actorKind = ''agent'' then actorRef \<noteq> [] \<and> actorRef \<noteq> ''self''
      else actorKind \<noteq> ''user'' \<or> actorRef = ''self'')"

record correct_event =
  ce_subject_id :: string
  ce_kind :: CorrectionKind
  ce_replacement :: "string option"

text \<open>\<open>CorrectEvent.safeParse(rowToCorrectEventInput(row))\<close>; \<open>None\<close> is a failed parse.\<close>

definition parse_replacement :: "jsval \<Rightarrow> string option option" where
  "parse_replacement v = (case v of JUndefined \<Rightarrow> Some None | JStr s \<Rightarrow> Some (Some s) | _ \<Rightarrow> None)"

definition replacement_set :: "string option \<Rightarrow> bool" where
  "replacement_set r = (case r of None \<Rightarrow> False | Some s \<Rightarrow> s \<noteq> [])"

definition CorrectEvent_parse :: "log_event \<Rightarrow> correct_event option" where
  "CorrectEvent_parse e =
     (if e_actor_kind e \<in> {''user'', ''agent''} \<and> e_actor_ref e \<noteq> [] \<and>
         e_action e = ''correct'' \<and> e_subject_kind e = ''event'' \<and> e_outcome e = Some ''success'' \<and>
         (case js_field ''reason_md'' (e_payload e) of
            JStr s \<Rightarrow> s \<noteq> [] \<and> length s \<le> 2000 | _ \<Rightarrow> False) \<and>
         (case js_field ''affected_refs'' (e_payload e) of
            JArr rs \<Rightarrow> rs \<noteq> [] \<and> list_all activity_ref_ok rs | _ \<Rightarrow> False) \<and>
         \<not> (e_actor_kind e = ''agent'' \<and> e_actor_ref e = ''self'') \<and>
         stableActorRefAllowed (e_actor_kind e) (e_actor_ref e)
      then (case (parse_correction_kind (js_field ''correction_kind'' (e_payload e)),
                  parse_replacement (js_field ''replacement_event_id'' (e_payload e))) of
              (Some k, Some r) \<Rightarrow>
                if (k = Supersede \<longrightarrow> replacement_set r) \<and> (k \<noteq> Supersede \<longrightarrow> \<not> replacement_set r)
                then Some \<lparr>ce_subject_id = e_subject_id e, ce_kind = k, ce_replacement = r\<rparr>
                else None
            | _ \<Rightarrow> None)
      else None)"

section \<open>Correction statuses\<close>

datatype CorrectionStatus =
    Active
  | Retracted string
  | MarkedWrong string
  | Superseded string string

definition activeCorrectionStatus :: CorrectionStatus where
  "activeCorrectionStatus = Active"

text \<open>One iteration of the loop over the rows, on the map of statuses.\<close>

definition apply_correction ::
  "(string \<times> CorrectionStatus) list \<Rightarrow> log_event \<Rightarrow> (string \<times> CorrectionStatus) list" where
  "apply_correction statuses row =
     (case CorrectEvent_parse row of
        None \<Rightarrow> statuses
      | Some c \<Rightarrow>
          if map_of statuses (ce_subject_id c) = None then statuses
          else case ce_kind c of
            Retract \<Rightarrow> AList.update (ce_subject_id c) (Retracted (e_id row)) statuses
          | MarkWrong \<Rightarrow> AList.update (ce_subject_id c) (MarkedWrong (e_id row)) statuses
          | Supersede \<Rightarrow>
              (if \<not> replacement_set (ce_replacement c) then statuses
               else AList.update (ce_subject_id c)
                      (Superseded (e_id row) (the (ce_replacement c))) statuses)
          | Restore \<Rightarrow> AList.update (ce_subject_id c) activeCorrectionStatus statuses)"

definition correction_order :: "log_event \<Rightarrow> int \<times> int \<times> string" where
  "correction_order e = (e_created_at e, e_dispatch_seq e, e_id e)"

definition correction_rows :: "log_event list \<Rightarrow> string list \<Rightarrow> int option \<Rightarrow> log_event list" where
  "correction_rows es ids createdBefore =
     sort_key correction_order
       (filter (\<lambda>e. e_action e = ''correct'' \<and> e_subject_kind e = ''event'' \<and>
            e_subject_id e \<in> set ids \<and>
            (case createdBefore of None \<Rightarrow> True | Some t \<Rightarrow> e_created_at e < t)) es)"

definition getCorrectionStatuses ::
  "log_event list \<Rightarrow> string list \<Rightarrow> int option \<Rightarrow> (string \<times> CorrectionStatus) list" where
  "getCorrectionStatuses es targetEventIds createdBefore =
     (let ids = js_uniq targetEventIds;
          statuses = map (\<lambda>i. (i, activeCorrectionStatus)) ids
      in if ids = [] then statuses
         else foldl apply_correction statuses (correction_rows es ids createdBefore))"

definition getCorrectionStatus :: "log_event list \<Rightarrow> string \<Rightarrow> CorrectionStatus" where
  "getCorrectionStatus es targetEventId =
     (case map_of (getCorrectionStatuses es [targetEventId] None) targetEventId of
        Some s \<Rightarrow> s | None \<Rightarrow> activeCorrectionStatus)"

section \<open>The SQL pre-filter\<close>

definition sql_kind_valid :: "log_event \<Rightarrow> bool" where
  "sql_kind_valid e \<longleftrightarrow>
     (jsonb_text ''correction_kind'' (e_payload e) = Some ''supersede'' \<and>
      (case jsonb_text ''replacement_event_id'' (e_payload e) of None \<Rightarrow> False | Some s \<Rightarrow> s \<noteq> [])) \<or>
     (jsonb_text ''correction_kind'' (e_payload e) \<in>
        {Some ''retract'', Some ''mark_wrong'', Some ''restore''} \<and>
      \<not> jsonb_has ''replacement_event_id'' (e_payload e))"

text \<open>The subquery's \<open>ORDER BY created_at DESC, id DESC LIMIT 1\<close> is the last row in ascending order.\<close>

definition sql_latest_kind :: "log_event list \<Rightarrow> string \<Rightarrow> string option" where
  "sql_latest_kind es target =
     (let rows = sort_key (\<lambda>e. (e_created_at e, e_id e))
            (filter (\<lambda>e. e_action e = ''correct'' \<and> e_subject_kind e = ''event'' \<and>
                e_subject_id e = target \<and> sql_kind_valid e) es)
      in if rows = [] then None else jsonb_text ''correction_kind'' (e_payload (last rows)))"

definition eventCorrectionActiveSql :: "log_event list \<Rightarrow> string \<Rightarrow> bool" where
  "eventCorrectionActiveSql es target \<longleftrightarrow>
     (case sql_latest_kind es target of None \<Rightarrow> [] | Some k \<Rightarrow> k) \<notin>
       {''retract'', ''mark_wrong'', ''supersede''}"

section \<open>Latest write wins\<close>

text \<open>The status one valid correction gives its target.\<close>

definition status_of :: "log_event \<Rightarrow> correct_event \<Rightarrow> CorrectionStatus" where
  "status_of row c =
     (case ce_kind c of
        Retract \<Rightarrow> Retracted (e_id row)
      | MarkWrong \<Rightarrow> MarkedWrong (e_id row)
      | Supersede \<Rightarrow> Superseded (e_id row) (the (ce_replacement c))
      | Restore \<Rightarrow> Active)"

definition correction_of :: "string \<Rightarrow> log_event \<Rightarrow> CorrectionStatus option" where
  "correction_of target row =
     (case CorrectEvent_parse row of
        None \<Rightarrow> None
      | Some c \<Rightarrow> if ce_subject_id c = target then Some (status_of row c) else None)"

text \<open>One target's view of the loop: a later valid correction replaces the status.\<close>

definition status_step :: "string \<Rightarrow> CorrectionStatus \<Rightarrow> log_event \<Rightarrow> CorrectionStatus" where
  "status_step target s row = (case correction_of target row of None \<Rightarrow> s | Some s' \<Rightarrow> s')"

interpretation corr: event_reducer correction_order "status_step target" Active
    "\<lambda>e. correction_of target e \<noteq> None" for target
  by unfold_locales (auto simp: status_step_def)

text \<open>The specification: the newest valid correction of the target decides.\<close>

definition latest_status :: "log_event list \<Rightarrow> string \<Rightarrow> CorrectionStatus" where
  "latest_status es target =
     (let cs = sort_key correction_order (filter (\<lambda>e. correction_of target e \<noteq> None) es)
      in if cs = [] then Active else the (correction_of target (last cs)))"

lemma parse_simps:
  "CorrectEvent_parse row = Some c \<Longrightarrow>
     ce_subject_id c = e_subject_id row \<and> e_action row = ''correct'' \<and> e_subject_kind row = ''event'' \<and>
     (ce_kind c = Supersede \<longrightarrow> replacement_set (ce_replacement c))"
  by (auto simp: CorrectEvent_parse_def split: if_splits option.splits)

lemma apply_correction_map:
  "map_of (apply_correction m row) i = map_option (\<lambda>s. status_step i s row) (map_of m i)"
proof (cases "CorrectEvent_parse row")
  case None
  then show ?thesis
    by (simp add: apply_correction_def status_step_def correction_of_def option.map_ident)
next
  case (Some c)
  note ps = parse_simps [OF Some]
  show ?thesis
  proof (cases "map_of m (ce_subject_id c)")
    case None
    then show ?thesis
      using Some
      by (cases "map_of m i") (auto simp: apply_correction_def status_step_def correction_of_def)
  next
    case (Some s)
    then show ?thesis
      using \<open>CorrectEvent_parse row = Some c\<close> ps
      by (cases "ce_kind c"; cases "i = ce_subject_id c"; cases "map_of m i")
        (auto simp: apply_correction_def status_step_def correction_of_def status_of_def
            activeCorrectionStatus_def update_conv)
  qed
qed

lemma foldl_apply_correction_map:
  "map_of (foldl apply_correction m rows) i = map_option (\<lambda>s. foldl (status_step i) s rows) (map_of m i)"
proof (induction rows arbitrary: m)
  case Nil
  then show ?case by (cases "map_of m i") auto
next
  case (Cons row rows)
  then show ?case by (cases "map_of m i") (auto simp: apply_correction_map)
qed

lemma foldl_status_step:
  "foldl (status_step i) s rows =
     (let cs = filter (\<lambda>e. correction_of i e \<noteq> None) rows
      in if cs = [] then s else the (correction_of i (last cs)))"
proof (induction rows arbitrary: s)
  case (Cons row rows)
  then show ?case by (cases "correction_of i row") (auto simp: status_step_def Let_def)
qed simp

lemma correction_of_SomeD:
  "correction_of i e = Some s \<Longrightarrow> e_action e = ''correct'' \<and> e_subject_kind e = ''event'' \<and> e_subject_id e = i"
  by (auto simp: correction_of_def dest: parse_simps split: option.splits if_splits)

definition before :: "int option \<Rightarrow> log_event list \<Rightarrow> log_event list" where
  "before t es = (case t of None \<Rightarrow> es | Some u \<Rightarrow> filter (\<lambda>e. e_created_at e < u) es)"

lemma getCorrectionStatuses_map:
  "map_of (getCorrectionStatuses es ids t) i =
     (if i \<in> set ids then Some (latest_status (before t es) i) else None)"
proof -
  let ?cut = "\<lambda>e. case t of None \<Rightarrow> True | Some u \<Rightarrow> e_created_at e < u"
  have init: "map_of (map (\<lambda>i. (i, activeCorrectionStatus)) (js_uniq ids)) i =
      (if i \<in> set ids then Some Active else None)"
    by (auto simp: map_of_map_restrict activeCorrectionStatus_def restrict_map_def)
  have "filter (\<lambda>e. correction_of i e \<noteq> None) (correction_rows es (js_uniq ids) t) =
      sort_key correction_order (filter (\<lambda>e. correction_of i e \<noteq> None) (before t es))"
    if "i \<in> set ids"
  proof -
    have "filter (\<lambda>e. correction_of i e \<noteq> None) (filter (\<lambda>e. e_action e = ''correct'' \<and>
        e_subject_kind e = ''event'' \<and> e_subject_id e \<in> set (js_uniq ids) \<and> ?cut e) es) =
        filter (\<lambda>e. correction_of i e \<noteq> None) (before t es)"
      using that
      by (cases t) (auto simp: before_def dest: correction_of_SomeD intro!: filter_cong)
    then show ?thesis by (simp add: correction_rows_def filter_sort)
  qed
  then show ?thesis
    using init
    by (auto simp: getCorrectionStatuses_def Let_def foldl_apply_correction_map foldl_status_step
          latest_status_def)
qed

lemma getCorrectionStatus_latest: "getCorrectionStatus es i = latest_status es i"
  by (simp add: getCorrectionStatus_def getCorrectionStatuses_map before_def)

lemma sort_key_Nil_iff: "sort_key k xs = [] \<longleftrightarrow> xs = []"
  by (metis set_empty set_sort)

lemma last_sort_key:
  assumes "e \<in> set xs" "\<And>x. x \<in> set xs \<Longrightarrow> k x \<le> k e" "\<And>x. x \<in> set xs \<Longrightarrow> k x = k e \<Longrightarrow> x = e"
  shows "last (sort_key k xs) = e"
proof -
  let ?ys = "sort_key k xs"
  have ne: "?ys \<noteq> []" using assms(1) by (metis empty_iff empty_set set_sort)
  have "k e \<le> k (last ?ys)"
  proof -
    have "e \<in> set ?ys" using assms(1) by simp
    then obtain j where j: "j < length ?ys" "?ys ! j = e" unfolding in_set_conv_nth by blast
    have "map k ?ys ! j \<le> map k ?ys ! (length ?ys - 1)"
      by (rule sorted_nth_mono) (use j in auto)
    then show ?thesis using j ne by (simp add: last_conv_nth)
  qed
  moreover have "last ?ys \<in> set xs" using ne last_in_set [of ?ys] by simp
  ultimately show ?thesis using assms(2,3) by (metis antisym)
qed

lemma latest_status_eq:
  assumes "e \<in> set es" "correction_of i e = Some s"
    and "\<And>x. x \<in> set es \<Longrightarrow> correction_of i x \<noteq> None \<Longrightarrow> correction_order x \<le> correction_order e"
    and "distinct (map e_dispatch_seq es)"
  shows "latest_status es i = s"
proof -
  let ?xs = "filter (\<lambda>e. correction_of i e \<noteq> None) es"
  have "last (sort_key correction_order ?xs) = e"
  proof (rule last_sort_key)
    show "x = e" if "x \<in> set ?xs" "correction_order x = correction_order e" for x
      using that assms(1,4) by (auto simp: correction_order_def distinct_map inj_on_def)
  qed (use assms in auto)
  moreover have "sort_key correction_order ?xs \<noteq> []"
    using assms(1,2) by (auto simp: sort_key_Nil_iff filter_empty_conv)
  ultimately show ?thesis using assms(2) by (simp add: latest_status_def Let_def)
qed

lemma latest_status_cases:
  assumes "distinct (map e_dispatch_seq es)"
  obtains (none) "\<And>e. e \<in> set es \<Longrightarrow> correction_of i e = None" "latest_status es i = Active"
  | (latest) e s where "e \<in> set es" "correction_of i e = Some s" "latest_status es i = s"
      "\<And>x. x \<in> set es \<Longrightarrow> correction_of i x \<noteq> None \<Longrightarrow> correction_order x \<le> correction_order e"
proof (cases "\<exists>e \<in> set es. correction_of i e \<noteq> None")
  case False
  then have "filter (\<lambda>e. correction_of i e \<noteq> None) es = []" by (auto simp: filter_empty_conv)
  then show thesis using none False by (simp add: latest_status_def)
next
  case True
  let ?S = "{e \<in> set es. correction_of i e \<noteq> None}"
  have "finite ?S" "?S \<noteq> {}" using True by auto
  then obtain e where e: "e \<in> ?S" "correction_order e = Max (correction_order ` ?S)"
    using Max_in [of "correction_order ` ?S"] by fastforce
  have max: "correction_order x \<le> correction_order e" if "x \<in> ?S" for x
    unfolding e(2) using \<open>finite ?S\<close> that by (intro Max_ge) auto
  obtain s where "correction_of i e = Some s" using e(1) by auto
  then show thesis
    using latest [of e s] e(1) max latest_status_eq [OF _ _ _ assms, of e i s] by simp
qed

section \<open>The properties\<close>

text \<open>
  C15. Latest write wins: for every target in a batch, and whatever other targets are asked for,
  the status is decided by the newest schema-valid correction of that target in
  (\<open>created_at\<close>, \<open>dispatch_seq\<close>, \<open>id\<close>) order; malformed corrections and corrections of other
  targets never matter, nor does the order in which the database returns the rows.
\<close>

theorem correction_latest_wins:
  assumes "log_wf es" and "i \<in> set ids" and "e \<in> set es" and "correction_of i e = Some s"
    and "\<forall>x \<in> set es. correction_of i x \<noteq> None \<longrightarrow> correction_order x \<le> correction_order e"
    and "mset es' = mset es"
  shows "map_of (getCorrectionStatuses es' ids None) i = Some s"
proof -
  have set: "set es' = set es" using assms(6) by (metis set_mset_mset)
  have "distinct (map e_dispatch_seq es')"
    using assms(1,6) unfolding log_wf_def by (metis mset_map mset_eq_imp_distinct_iff)
  then have "latest_status es' i = s"
    using latest_status_eq [of e es' i s] assms(3,4,5) set by simp
  then show ?thesis using assms(2) by (simp add: getCorrectionStatuses_map before_def)
qed

definition demo_correction :: "string \<Rightarrow> int \<Rightarrow> string \<Rightarrow> string \<Rightarrow> (string \<times> jsval) list \<Rightarrow> log_event" where
  "demo_correction i seq target kind extra =
     \<lparr>e_id = i, e_dispatch_seq = seq, e_actor_kind = ''user'', e_actor_ref = ''self'',
      e_action = ''correct'', e_subject_kind = ''event'', e_subject_id = target,
      e_outcome = Some ''success'',
      e_payload = JObj ([(''correction_kind'', JStr kind), (''reason_md'', JStr ''typo''),
        (''affected_refs'', JArr [JObj [(''kind'', JStr ''question''), (''id'', JStr ''q'')]])] @ extra),
      e_created_at = seq\<rparr>"

definition demo_log :: "log_event list" where
  "demo_log = [demo_correction ''c2'' 2 ''a'' ''restore'' [], demo_correction ''c1'' 1 ''a'' ''retract'' [],
     demo_correction ''c3'' 3 ''b'' ''supersede'' [(''replacement_event_id'', JStr ''a'')]]"

lemma demo_corrections:
  "correction_of ''a'' (demo_correction ''c2'' 2 ''a'' ''restore'' []) = Some Active"
  "correction_of ''a'' (demo_correction ''c1'' 1 ''a'' ''retract'' []) = Some (Retracted ''c1'')"
  "correction_of ''a'' (demo_correction ''c3'' 3 ''b'' ''supersede'' [(''replacement_event_id'', JStr ''a'')]) = None"
  "correction_of ''b'' (demo_correction ''c3'' 3 ''b'' ''supersede'' [(''replacement_event_id'', JStr ''a'')]) =
     Some (Superseded ''c3'' ''a'')"
  "correction_of ''b'' (demo_correction ''c2'' 2 ''a'' ''restore'' []) = None"
  "correction_of ''b'' (demo_correction ''c1'' 1 ''a'' ''retract'' []) = None"
  by (simp_all add: correction_of_def CorrectEvent_parse_def demo_correction_def js_field_def
      stableActorRefAllowed_def activity_ref_ok_def activity_kinds_def parse_replacement_def
      replacement_set_def status_of_def)

lemma demo_log_wf: "log_wf demo_log"
  by (simp add: log_wf_def demo_log_def demo_correction_def)

theorem correction_latest_wins_witness:
  "map_of (getCorrectionStatuses demo_log [''b'', ''a''] None) ''a'' = Some Active"
  by (rule correction_latest_wins [OF demo_log_wf, where e = "demo_correction ''c2'' 2 ''a'' ''restore'' []"])
    (auto simp: demo_log_def demo_corrections, auto simp: correction_order_def demo_correction_def)

lemma kind_text:
  assumes "correction_of i e = Some s"
  shows "\<exists>k. jsonb_text ''correction_kind'' (e_payload e) = Some k \<and>
    (k \<in> {''retract'', ''mark_wrong'', ''supersede''} \<longleftrightarrow> s \<noteq> Active) \<and> k \<noteq> []"
proof -
  obtain c where c: "CorrectEvent_parse e = Some c" "s = status_of e c"
    using assms by (auto simp: correction_of_def split: option.splits if_splits)
  then have "parse_correction_kind (js_field ''correction_kind'' (e_payload e)) = Some (ce_kind c)"
    by (auto simp: CorrectEvent_parse_def split: if_splits option.splits)
  then obtain k where k: "js_field ''correction_kind'' (e_payload e) = JStr k"
    "parse_correction_kind (JStr k) = Some (ce_kind c)"
    by (cases "js_field ''correction_kind'' (e_payload e)") auto
  then show ?thesis
    using c(2) by (cases "ce_kind c") (auto simp: jsonb_text_def status_of_def split: if_splits)
qed

text \<open>
  The SQL pre-filter agrees with the authoritative fold: when the rows the SQL counts as
  corrections of the target are exactly the schema-valid ones and no two of them share a
  timestamp, the SQL says active exactly when the fold does. (Outside these conditions they can
  differ: the SQL breaks timestamp ties by \<open>id\<close>, the fold by \<open>dispatch_seq\<close>.)
\<close>

theorem sql_prefilter_agrees:
  assumes "log_wf es"
    and "\<forall>e \<in> set es. e_action e = ''correct'' \<and> e_subject_kind e = ''event'' \<and> e_subject_id e = i \<longrightarrow>
      (sql_kind_valid e \<longleftrightarrow> correction_of i e \<noteq> None)"
    and "\<forall>e \<in> set es. \<forall>x \<in> set es. correction_of i e \<noteq> None \<longrightarrow> correction_of i x \<noteq> None \<longrightarrow>
      e_created_at e = e_created_at x \<longrightarrow> e = x"
  shows "eventCorrectionActiveSql es i \<longleftrightarrow> getCorrectionStatus es i = Active"
proof -
  let ?sql = "filter (\<lambda>e. e_action e = ''correct'' \<and> e_subject_kind e = ''event'' \<and>
      e_subject_id e = i \<and> sql_kind_valid e) es"
  have rows: "?sql = filter (\<lambda>e. correction_of i e \<noteq> None) es"
  proof (rule filter_cong [OF refl])
    fix e assume "e \<in> set es"
    then show "(e_action e = ''correct'' \<and> e_subject_kind e = ''event'' \<and> e_subject_id e = i \<and>
        sql_kind_valid e) \<longleftrightarrow> correction_of i e \<noteq> None"
      using assms(2) correction_of_SomeD [of i e] by (cases "correction_of i e") blast+
  qed
  have "distinct (map e_dispatch_seq es)" using assms(1) by (simp add: log_wf_def)
  then show ?thesis
  proof (cases rule: latest_status_cases [where i = i])
    case none
    then have "?sql = []" unfolding rows by (auto simp: filter_empty_conv)
    then show ?thesis
      using none by (simp add: eventCorrectionActiveSql_def sql_latest_kind_def getCorrectionStatus_latest)
  next
    case (latest e s)
    have "last (sort_key (\<lambda>e. (e_created_at e, e_id e)) ?sql) = e"
      unfolding rows
    proof (rule last_sort_key)
      fix x assume "x \<in> set (filter (\<lambda>e. correction_of i e \<noteq> None) es)"
      then have x: "x \<in> set es" "correction_of i x \<noteq> None" by auto
      then have "correction_order x \<le> correction_order e" by (rule latest(4))
      then have "e_created_at x \<le> e_created_at e" by (auto simp: correction_order_def)
      moreover have "e_created_at x = e_created_at e \<longrightarrow> x = e"
        using assms(3) x latest(1,2) by auto
      ultimately show "(e_created_at x, e_id x) \<le> (e_created_at e, e_id e)"
        "(e_created_at x, e_id x) = (e_created_at e, e_id e) \<Longrightarrow> x = e"
        by auto
    qed (use latest in auto)
    moreover have "?sql \<noteq> []" unfolding rows using latest by (auto simp: filter_empty_conv)
    then have "sort_key (\<lambda>e. (e_created_at e, e_id e)) ?sql \<noteq> []" by (simp add: sort_key_Nil_iff)
    ultimately have "sql_latest_kind es i = jsonb_text ''correction_kind'' (e_payload e)"
      by (simp add: sql_latest_kind_def Let_def)
    then show ?thesis
      using kind_text [OF latest(2)] latest(3)
      by (auto simp: eventCorrectionActiveSql_def getCorrectionStatus_latest)
  qed
qed

theorem sql_prefilter_agrees_witness: "eventCorrectionActiveSql demo_log ''a''"
proof -
  have "getCorrectionStatus demo_log ''a'' = Active"
    unfolding getCorrectionStatus_latest
    by (rule latest_status_eq [where e = "demo_correction ''c2'' 2 ''a'' ''restore'' []"])
      (auto simp: demo_log_def demo_corrections, auto simp: correction_order_def demo_correction_def)
  moreover have "eventCorrectionActiveSql demo_log ''a'' \<longleftrightarrow> getCorrectionStatus demo_log ''a'' = Active"
    by (rule sql_prefilter_agrees [OF demo_log_wf])
      (auto simp: demo_log_def demo_corrections, auto simp: demo_correction_def sql_kind_valid_def
        jsonb_text_def jsonb_has_def js_field_def)
  ultimately show ?thesis by simp
qed

end
