(* ===== verification/EffectiveTruth.thy ===== *)
theory EffectiveTruth
  imports Corrections
begin

text \<open>
  Resolving an event through supersede chains: \<open>src/src/kernel/events/effective-truth.ts\<close>.
  All rounds of one call read the same log. \<open>truth_round\<close> is one iteration of the \<open>while\<close>
  loop over the pending cursors, \<open>truth_loop\<close> the loop itself, which ends because every
  surviving cursor has seen one more event of the log.
\<close>

section \<open>The module\<close>

datatype step_state = StActive | StRetracted | StMarkedWrong | StSuperseded

datatype truth_state = TActive | TRetracted | TMarkedWrong | TSuperseded | TMissing | TCycle

record EffectiveTruthStep =
  st_event_id :: string
  st_state :: step_state
  st_correction_event_id :: "string option"
  st_replacement_event_id :: "string option"

record EffectiveTruth =
  t_original_event_id :: string
  t_state :: truth_state
  t_terminal_state :: truth_state
  t_effective_event_id :: "string option"
  t_correction_event_id :: "string option"
  t_replacement_event_id :: "string option"
  t_chain :: "EffectiveTruthStep list"

fun status_state :: "CorrectionStatus \<Rightarrow> step_state" where
  "status_state Active = StActive"
| "status_state (Retracted _) = StRetracted"
| "status_state (MarkedWrong _) = StMarkedWrong"
| "status_state (Superseded _ _) = StSuperseded"

fun status_correction :: "CorrectionStatus \<Rightarrow> string option" where
  "status_correction Active = None"
| "status_correction (Retracted c) = Some c"
| "status_correction (MarkedWrong c) = Some c"
| "status_correction (Superseded c _) = Some c"

fun status_replacement :: "CorrectionStatus \<Rightarrow> string option" where
  "status_replacement (Superseded _ r) = Some r"
| "status_replacement _ = None"

fun truth_of_step :: "step_state \<Rightarrow> truth_state" where
  "truth_of_step StActive = TActive"
| "truth_of_step StRetracted = TRetracted"
| "truth_of_step StMarkedWrong = TMarkedWrong"
| "truth_of_step StSuperseded = TSuperseded"

definition stepFromStatus :: "string \<Rightarrow> CorrectionStatus \<Rightarrow> EffectiveTruthStep" where
  "stepFromStatus eventId status =
     \<lparr>st_event_id = eventId, st_state = status_state status,
      st_correction_event_id = status_correction status,
      st_replacement_event_id = status_replacement status\<rparr>"

definition activeEffectiveTruth :: "string \<Rightarrow> EffectiveTruth" where
  "activeEffectiveTruth eventId =
     \<lparr>t_original_event_id = eventId, t_state = TActive, t_terminal_state = TActive,
      t_effective_event_id = Some eventId, t_correction_event_id = None,
      t_replacement_event_id = None, t_chain = [stepFromStatus eventId activeCorrectionStatus]\<rparr>"

definition missingEffectiveTruth :: "string \<Rightarrow> EffectiveTruthStep list \<Rightarrow> EffectiveTruth" where
  "missingEffectiveTruth originalEventId chain =
     \<lparr>t_original_event_id = originalEventId, t_state = TMissing, t_terminal_state = TMissing,
      t_effective_event_id = None, t_correction_event_id = None, t_replacement_event_id = None,
      t_chain = chain\<rparr>"

definition cycleEffectiveTruth :: "string \<Rightarrow> EffectiveTruthStep list \<Rightarrow> EffectiveTruth" where
  "cycleEffectiveTruth originalEventId chain =
     \<lparr>t_original_event_id = originalEventId, t_state = TCycle, t_terminal_state = TCycle,
      t_effective_event_id = None, t_correction_event_id = None, t_replacement_event_id = None,
      t_chain = chain\<rparr>"

definition find_last :: "('a \<Rightarrow> bool) \<Rightarrow> 'a list \<Rightarrow> 'a option" where
  "find_last p xs = find p (rev xs)"

definition finalTruth ::
  "string \<Rightarrow> string \<Rightarrow> CorrectionStatus \<Rightarrow> EffectiveTruthStep list \<Rightarrow> EffectiveTruth" where
  "finalTruth originalEventId effectiveEventId terminalStatus chain =
     (if status_state terminalStatus = StSuperseded
      then cycleEffectiveTruth originalEventId chain
      else
        let firstSupersede = find (\<lambda>s. st_state s = StSuperseded) chain;
            state = (if firstSupersede \<noteq> None \<and> status_state terminalStatus = StActive
                     then TSuperseded else truth_of_step (status_state terminalStatus));
            stateOwner = (if state = TSuperseded then firstSupersede
                          else find_last (\<lambda>s. st_state s = status_state terminalStatus) chain)
        in \<lparr>t_original_event_id = originalEventId, t_state = state,
            t_terminal_state = truth_of_step (status_state terminalStatus),
            t_effective_event_id = Some effectiveEventId,
            t_correction_event_id = (case stateOwner of None \<Rightarrow> None | Some s \<Rightarrow> st_correction_event_id s),
            t_replacement_event_id =
              (case firstSupersede of
                 Some s \<Rightarrow> (case st_replacement_event_id s of
                             Some r \<Rightarrow> Some r | None \<Rightarrow> status_replacement terminalStatus)
               | None \<Rightarrow> status_replacement terminalStatus),
            t_chain = chain\<rparr>)"

record truth_cursor =
  cu_original_event_id :: string
  cu_current_event_id :: string
  cu_seen :: "string list"
  cu_chain :: "EffectiveTruthStep list"

text \<open>One cursor in one round: either its result, or the advanced cursor.\<close>

definition cursor_step ::
  "string list \<Rightarrow> (string \<times> CorrectionStatus) list \<Rightarrow> truth_cursor \<Rightarrow> EffectiveTruth + truth_cursor" where
  "cursor_step existingIds statuses cursor =
     (let currentEventId = cu_current_event_id cursor;
          originalEventId = cu_original_event_id cursor
      in if currentEventId \<in> set (cu_seen cursor)
         then Inl (cycleEffectiveTruth originalEventId (cu_chain cursor))
         else if currentEventId \<notin> set existingIds
         then Inl (missingEffectiveTruth originalEventId (cu_chain cursor))
         else
           let status = (case map_of statuses currentEventId of
                           Some s \<Rightarrow> s | None \<Rightarrow> activeCorrectionStatus);
               chain = cu_chain cursor @ [stepFromStatus currentEventId status]
           in case status of
                Superseded _ replacement \<Rightarrow>
                  Inr (cursor\<lparr>cu_current_event_id := replacement,
                              cu_seen := currentEventId # cu_seen cursor, cu_chain := chain\<rparr>)
              | _ \<Rightarrow> Inl (finalTruth originalEventId currentEventId status chain))"

definition existing_ids :: "log_event list \<Rightarrow> string list \<Rightarrow> string list" where
  "existing_ids es ids = map e_id (filter (\<lambda>e. e_id e \<in> set ids) es)"

text \<open>
  One round: the reads, then every pending cursor in turn. Settled cursors leave \<open>pending\<close> and
  their result goes to \<open>out\<close> under the original id.
\<close>

definition truth_round ::
  "log_event list \<Rightarrow> truth_cursor list \<Rightarrow> (string \<times> EffectiveTruth) list \<Rightarrow>
     truth_cursor list \<times> (string \<times> EffectiveTruth) list" where
  "truth_round es pending out =
     (let currentIds = js_uniq (map cu_current_event_id pending);
          existingIds = existing_ids es currentIds;
          statuses = getCorrectionStatuses es currentIds None;
          results = map (\<lambda>c. (cu_original_event_id c, cursor_step existingIds statuses c)) pending
      in (concat (map (\<lambda>(_, r). case r of Inr c \<Rightarrow> [c] | Inl _ \<Rightarrow> []) results),
          foldl (\<lambda>o1 (i, r). case r of Inl t \<Rightarrow> AList.update i t o1 | Inr _ \<Rightarrow> o1) out results))"

definition cursor_measure :: "log_event list \<Rightarrow> truth_cursor \<Rightarrow> nat" where
  "cursor_measure es c = Suc (card (set (map e_id es) - set (cu_seen c)))"

definition pending_measure :: "log_event list \<Rightarrow> truth_cursor list \<Rightarrow> nat" where
  "pending_measure es pending = sum_list (map (cursor_measure es) pending)"

lemma set_existing_ids: "set (existing_ids es ids) = set (map e_id es) \<inter> set ids"
  by (auto simp: existing_ids_def)

lemma cursor_step_Inr:
  assumes "cursor_step ex sts c = Inr c'"
  shows "cu_current_event_id c \<in> set ex" "cu_current_event_id c \<notin> set (cu_seen c)"
    "cu_seen c' = cu_current_event_id c # cu_seen c" "cu_original_event_id c' = cu_original_event_id c"
  using assms
  by (auto simp: cursor_step_def Let_def split: if_splits CorrectionStatus.splits)

lemma cursor_measure_decreases:
  assumes "cursor_step (existing_ids es ids) sts c = Inr c'"
  shows "cursor_measure es c' < cursor_measure es c"
proof -
  note s = cursor_step_Inr [OF assms]
  have "set (map e_id es) - set (cu_seen c') = (set (map e_id es) - set (cu_seen c)) - {cu_current_event_id c}"
    using s(3) by auto
  moreover have "cu_current_event_id c \<in> set (map e_id es) - set (cu_seen c)"
    using s(1,2) by (simp add: set_existing_ids)
  ultimately show ?thesis
    by (simp add: cursor_measure_def card_Diff_singleton) (metis Diff_iff List.finite_set card_gt_0_iff
        diff_Suc_less empty_iff finite_Diff list.set_map)
qed

lemma truth_round_measure:
  assumes "pending \<noteq> []"
  shows "pending_measure es (fst (truth_round es pending out)) < pending_measure es pending"
proof -
  have "sum_list (map (cursor_measure es) (concat (map (\<lambda>(_, r). case r of Inr c \<Rightarrow> [c] | Inl _ \<Rightarrow> [])
      (map (\<lambda>c. (cu_original_event_id c, cursor_step (existing_ids es ids) sts c)) cs)))) + length cs
      \<le> sum_list (map (cursor_measure es) cs)" for ids sts cs
  proof (induction cs)
    case (Cons c cs)
    have "(case cursor_step (existing_ids es ids) sts c of Inl _ \<Rightarrow> 0 | Inr c' \<Rightarrow> cursor_measure es c')
        < cursor_measure es c"
      using cursor_measure_decreases [of es ids sts c]
      by (auto split: sum.splits simp: cursor_measure_def)
    then show ?case using Cons by (auto split: sum.splits)
  qed simp
  from this [of "js_uniq (map cu_current_event_id pending)"
      "getCorrectionStatuses es (js_uniq (map cu_current_event_id pending)) None" pending]
  show ?thesis
    using assms by (cases pending) (auto simp: truth_round_def pending_measure_def Let_def)
qed

function truth_loop ::
  "log_event list \<Rightarrow> truth_cursor list \<Rightarrow> (string \<times> EffectiveTruth) list \<Rightarrow>
     (string \<times> EffectiveTruth) list" where
  "truth_loop es pending out =
     (if pending = [] then out
      else truth_loop es (fst (truth_round es pending out)) (snd (truth_round es pending out)))"
  by pat_completeness auto
termination
  by (relation "measure (\<lambda>(es, pending, out). pending_measure es pending)") (auto simp: truth_round_measure case_prod_unfold)

declare truth_loop.simps [simp del]

definition getEffectiveTruths :: "log_event list \<Rightarrow> string list \<Rightarrow> (string \<times> EffectiveTruth) list" where
  "getEffectiveTruths es eventIds =
     truth_loop es
       (map (\<lambda>i. \<lparr>cu_original_event_id = i, cu_current_event_id = i, cu_seen = [], cu_chain = []\<rparr>)
         (js_uniq eventIds))
       []"

definition getEffectiveTruth :: "log_event list \<Rightarrow> string \<Rightarrow> EffectiveTruth" where
  "getEffectiveTruth es eventId =
     (case map_of (getEffectiveTruths es [eventId]) eventId of
        Some t \<Rightarrow> t | None \<Rightarrow> missingEffectiveTruth eventId [])"

section \<open>A batch resolves each event on its own\<close>

text \<open>One event followed alone, without rounds.\<close>

definition single_step :: "log_event list \<Rightarrow> truth_cursor \<Rightarrow> EffectiveTruth + truth_cursor" where
  "single_step es c = cursor_step (existing_ids es [cu_current_event_id c])
     [(cu_current_event_id c, latest_status es (cu_current_event_id c))] c"

lemma cursor_step_batch:
  assumes "cu_current_event_id c \<in> set ids"
  shows "cursor_step (existing_ids es ids) (getCorrectionStatuses es ids None) c = single_step es c"
  using assms
  by (simp add: single_step_def cursor_step_def Let_def set_existing_ids getCorrectionStatuses_map before_def)

function truth_walk :: "log_event list \<Rightarrow> truth_cursor \<Rightarrow> EffectiveTruth" where
  "truth_walk es c = (case single_step es c of Inl t \<Rightarrow> t | Inr c' \<Rightarrow> truth_walk es c')"
  by pat_completeness auto
termination
  by (relation "measure (\<lambda>(es, c). cursor_measure es c)")
    (auto simp: single_step_def dest: cursor_measure_decreases)

declare truth_walk.simps [simp del]

lemma truth_walk_step:
  "single_step es c = Inl t \<Longrightarrow> truth_walk es c = t"
  "single_step es c = Inr c' \<Longrightarrow> truth_walk es c = truth_walk es c'"
  by (simp_all add: truth_walk.simps [of es c])

definition survivors :: "log_event list \<Rightarrow> truth_cursor list \<Rightarrow> truth_cursor list" where
  "survivors es cs = concat (map (\<lambda>c. case single_step es c of Inr c' \<Rightarrow> [c'] | Inl _ \<Rightarrow> []) cs)"

definition settled :: "log_event list \<Rightarrow> truth_cursor list \<Rightarrow> (string \<times> EffectiveTruth) list \<Rightarrow>
    (string \<times> EffectiveTruth) list" where
  "settled es cs out = foldl (\<lambda>o1 c. case single_step es c of
      Inl t \<Rightarrow> AList.update (cu_original_event_id c) t o1 | Inr _ \<Rightarrow> o1) out cs"

lemma foldl_map: "foldl f a (map g xs) = foldl (\<lambda>a x. f a (g x)) a xs"
  by (induction xs arbitrary: a) auto

lemma truth_round_alt: "truth_round es pending out = (survivors es pending, settled es pending out)"
proof -
  let ?ids = "js_uniq (map cu_current_event_id pending)"
  have "cursor_step (existing_ids es ?ids) (getCorrectionStatuses es ?ids None) c = single_step es c"
    if "c \<in> set pending" for c
    using that by (intro cursor_step_batch) simp
  then have results: "map (\<lambda>c. (cu_original_event_id c,
        cursor_step (existing_ids es ?ids) (getCorrectionStatuses es ?ids None) c)) pending =
      map (\<lambda>c. (cu_original_event_id c, single_step es c)) pending"
    by simp
  show ?thesis
    unfolding truth_round_def Let_def results
    by (simp add: survivors_def settled_def comp_def foldl_map)
qed

lemma map_of_settled:
  "distinct (map cu_original_event_id cs) \<Longrightarrow>
     map_of (settled es cs out) i =
       (case find (\<lambda>c. cu_original_event_id c = i) cs of
          Some c \<Rightarrow> (case single_step es c of Inl t \<Rightarrow> Some t | Inr _ \<Rightarrow> map_of out i)
        | None \<Rightarrow> map_of out i)"
proof (induction cs arbitrary: out)
  case (Cons c cs)
  have "find (\<lambda>c. cu_original_event_id c = i) cs = None" if "cu_original_event_id c = i"
    unfolding find_None_iff using Cons.prems that by (metis distinct.simps(2) image_eqI list.simps(9) list.set_map)
  then show ?case
    using Cons by (auto simp: settled_def update_conv split: sum.splits option.splits)
qed (simp add: settled_def)

lemma single_step_original: "single_step es c = Inr c' \<Longrightarrow> cu_original_event_id c' = cu_original_event_id c"
  unfolding single_step_def by (rule cursor_step_Inr(4))

lemma survivors_simps:
  "survivors es [] = []"
  "survivors es (c # cs) = (case single_step es c of Inr c' \<Rightarrow> c' # survivors es cs | Inl _ \<Rightarrow> survivors es cs)"
  by (auto simp: survivors_def split: sum.splits)

lemma originals_survivors: "set (map cu_original_event_id (survivors es cs)) \<subseteq> set (map cu_original_event_id cs)"
proof (induction cs)
  case (Cons c cs)
  show ?case
  proof (cases "single_step es c")
    case (Inr c')
    then show ?thesis using Cons single_step_original [OF Inr] by (auto simp: survivors_simps)
  qed (use Cons in \<open>auto simp: survivors_simps\<close>)
qed (simp add: survivors_simps)

lemma distinct_survivors:
  "distinct (map cu_original_event_id cs) \<Longrightarrow> distinct (map cu_original_event_id (survivors es cs))"
proof (induction cs)
  case (Cons c cs)
  have IH: "distinct (map cu_original_event_id (survivors es cs))" using Cons by simp
  show ?case
  proof (cases "single_step es c")
    case (Inr c')
    have "cu_original_event_id c \<notin> set (map cu_original_event_id (survivors es cs))"
      using originals_survivors [of es cs] Cons.prems by auto
    then show ?thesis using IH Inr single_step_original [OF Inr] by (simp add: survivors_simps)
  qed (use IH in \<open>simp add: survivors_simps\<close>)
qed (simp add: survivors_simps)

lemma find_survivors:
  assumes "distinct (map cu_original_event_id cs)"
  shows "find (\<lambda>c. cu_original_event_id c = i) (survivors es cs) =
    (case find (\<lambda>c. cu_original_event_id c = i) cs of
       Some c \<Rightarrow> (case single_step es c of Inr c' \<Rightarrow> Some c' | Inl _ \<Rightarrow> None) | None \<Rightarrow> None)"
  using assms
proof (induction cs)
  case (Cons c cs)
  have none: "find (\<lambda>c. cu_original_event_id c = i) cs = None" if "cu_original_event_id c = i"
    unfolding find_None_iff using Cons.prems that by (metis distinct.simps(2) image_eqI list.simps(9) list.set_map)
  have IH: "find (\<lambda>c. cu_original_event_id c = i) (survivors es cs) =
    (case find (\<lambda>c. cu_original_event_id c = i) cs of
       Some c \<Rightarrow> (case single_step es c of Inr c' \<Rightarrow> Some c' | Inl _ \<Rightarrow> None) | None \<Rightarrow> None)"
    using Cons by simp
  show ?case
  proof (cases "single_step es c")
    case (Inl t)
    then show ?thesis using IH none by (simp add: survivors_simps)
  next
    case (Inr c')
    then show ?thesis using IH none single_step_original [OF Inr] by (simp add: survivors_simps)
  qed
qed (simp add: survivors_simps)

lemma truth_loop_map:
  "distinct (map cu_original_event_id pending) \<Longrightarrow>
     map_of (truth_loop es pending out) i =
       (case find (\<lambda>c. cu_original_event_id c = i) pending of
          Some c \<Rightarrow> Some (truth_walk es c) | None \<Rightarrow> map_of out i)"
proof (induction es pending out rule: truth_loop.induct)
  case (1 es pending out)
  show ?case
  proof (cases "pending = []")
    case True
    then show ?thesis by (simp add: truth_loop.simps)
  next
    case False
    have "map_of (truth_loop es pending out) i =
        map_of (truth_loop es (survivors es pending) (settled es pending out)) i"
      using False by (subst truth_loop.simps) (simp add: truth_round_alt)
    also have "\<dots> = (case find (\<lambda>c. cu_original_event_id c = i) (survivors es pending) of
        Some c \<Rightarrow> Some (truth_walk es c) | None \<Rightarrow> map_of (settled es pending out) i)"
      by (rule 1(1) [OF False, unfolded truth_round_alt fst_conv snd_conv, OF distinct_survivors [OF 1(2)]])
    also have "\<dots> = (case find (\<lambda>c. cu_original_event_id c = i) pending of
          Some c \<Rightarrow> Some (truth_walk es c) | None \<Rightarrow> map_of out i)"
    proof (cases "find (\<lambda>c. cu_original_event_id c = i) pending")
      case None
      then show ?thesis using 1(2) by (simp add: find_survivors map_of_settled)
    next
      case (Some c)
      then show ?thesis
        using 1(2) by (cases "single_step es c") (simp_all add: find_survivors map_of_settled truth_walk_step)
    qed
    finally show ?thesis .
  qed
qed

definition start_cursor :: "string \<Rightarrow> truth_cursor" where
  "start_cursor i = \<lparr>cu_original_event_id = i, cu_current_event_id = i, cu_seen = [], cu_chain = []\<rparr>"

lemma find_start:
  "find (\<lambda>c. cu_original_event_id c = i) (map start_cursor ids) = (if i \<in> set ids then Some (start_cursor i) else None)"
  by (induction ids) (auto simp: start_cursor_def)

lemma getEffectiveTruths_map:
  "map_of (getEffectiveTruths es ids) i = (if i \<in> set ids then Some (truth_walk es (start_cursor i)) else None)"
proof -
  have "distinct (map cu_original_event_id (map start_cursor (js_uniq ids)))"
    by (simp add: comp_def start_cursor_def)
  then show ?thesis
    unfolding getEffectiveTruths_def start_cursor_def [symmetric, abs_def]
    by (subst truth_loop_map) (auto simp: find_start)
qed

lemma getEffectiveTruth_walk: "getEffectiveTruth es i = truth_walk es (start_cursor i)"
  by (simp add: getEffectiveTruth_def getEffectiveTruths_map)

section \<open>What the walk finds\<close>

definition next_event :: "log_event list \<Rightarrow> string \<Rightarrow> string option" where
  "next_event es i = status_replacement (latest_status es i)"

definition in_log :: "log_event list \<Rightarrow> string \<Rightarrow> bool" where
  "in_log es i \<longleftrightarrow> i \<in> set (map e_id es)"

definition status_step_of :: "log_event list \<Rightarrow> string \<Rightarrow> EffectiveTruthStep" where
  "status_step_of es i = stepFromStatus i (latest_status es i)"

text \<open>
  The path an answer rests on: distinct events of the log, starting at the asked event, each
  superseded by the next.
\<close>

definition supersede_path :: "log_event list \<Rightarrow> string \<Rightarrow> string list \<Rightarrow> bool" where
  "supersede_path es i path \<longleftrightarrow>
     distinct path \<and> (\<forall>x \<in> set path. in_log es x) \<and>
     successively (\<lambda>a b. next_event es a = Some b) path \<and> (path \<noteq> [] \<longrightarrow> hd path = i)"

definition path_end :: "log_event list \<Rightarrow> string \<Rightarrow> string list \<Rightarrow> string option" where
  "path_end es i path = (if path = [] then Some i else next_event es (last path))"

definition resolves :: "log_event list \<Rightarrow> string \<Rightarrow> EffectiveTruth \<Rightarrow> bool" where
  "resolves es i t \<longleftrightarrow>
     (\<exists>path. supersede_path es i path \<and> t_original_event_id t = i \<and>
        t_chain t = map (status_step_of es) path \<and>
        t_state t = (if t_terminal_state t = TActive \<and> 1 < length path then TSuperseded
                     else t_terminal_state t) \<and>
        t_replacement_event_id t =
          (if t_effective_event_id t \<noteq> None \<and> 1 < length path then next_event es i else None) \<and>
        (case t_terminal_state t of
           TMissing \<Rightarrow> t_effective_event_id t = None \<and>
             (\<exists>j. path_end es i path = Some j \<and> \<not> in_log es j)
         | TCycle \<Rightarrow> t_effective_event_id t = None \<and>
             (\<exists>j. path_end es i path = Some j \<and> j \<in> set path)
         | TSuperseded \<Rightarrow> False
         | s \<Rightarrow> path \<noteq> [] \<and> t_effective_event_id t = Some (last path) \<and>
             s = truth_of_step (status_state (latest_status es (last path)))))"

definition cursor_on :: "log_event list \<Rightarrow> string \<Rightarrow> string list \<Rightarrow> truth_cursor \<Rightarrow> bool" where
  "cursor_on es i path c \<longleftrightarrow>
     supersede_path es i path \<and> path_end es i path = Some (cu_current_event_id c) \<and>
     cu_original_event_id c = i \<and> set (cu_seen c) = set path \<and> cu_chain c = map (status_step_of es) path"

lemma walk_resolves: "cursor_on es i path c \<Longrightarrow> resolves es i (truth_walk es c)"
proof (induction es c arbitrary: path rule: truth_walk.induct)
  case (1 es c)
  let ?cur = "cu_current_event_id c"
  let ?s = "latest_status es ?cur"
  note on = 1(2) [unfolded cursor_on_def]
  have ex: "?cur \<in> set (existing_ids es [?cur]) \<longleftrightarrow> in_log es ?cur"
    by (simp add: set_existing_ids in_log_def)
  consider (cycle) "?cur \<in> set path" | (missing) "?cur \<notin> set path" "\<not> in_log es ?cur"
    | (superseded) x r where "?cur \<notin> set path" "in_log es ?cur" "?s = Superseded x r"
    | (final) "?cur \<notin> set path" "in_log es ?cur" "status_state ?s \<noteq> StSuperseded"
    by (cases ?s) auto
  then show ?case
  proof cases
    case cycle
    then have "truth_walk es c = cycleEffectiveTruth i (map (status_step_of es) path)"
      using on by (subst truth_walk.simps) (simp add: single_step_def cursor_step_def)
    then show ?thesis
      using on cycle by (auto simp: resolves_def cycleEffectiveTruth_def intro!: exI [of _ path])
  next
    case missing
    then have "truth_walk es c = missingEffectiveTruth i (map (status_step_of es) path)"
      using on ex by (subst truth_walk.simps) (simp add: single_step_def cursor_step_def)
    then show ?thesis
      using on missing by (auto simp: resolves_def missingEffectiveTruth_def intro!: exI [of _ path])
  next
    case (superseded x r)
    let ?c = "c\<lparr>cu_current_event_id := r, cu_seen := ?cur # cu_seen c,
      cu_chain := cu_chain c @ [stepFromStatus ?cur ?s]\<rparr>"
    have step: "single_step es c = Inr ?c"
      using on ex superseded by (simp add: single_step_def cursor_step_def Let_def)
    have "supersede_path es i (path @ [?cur])"
      using on superseded
      by (auto simp: supersede_path_def path_end_def successively_append_iff split: if_splits)
    then have "cursor_on es i (path @ [?cur]) ?c"
      using on superseded by (simp add: cursor_on_def path_end_def next_event_def status_step_of_def)
    then have "resolves es i (truth_walk es ?c)" using 1(1) [OF step] by blast
    then show ?thesis using step by (simp add: truth_walk.simps [of es c])
  next
    case final
    let ?path = "path @ [?cur]"
    have path: "supersede_path es i ?path"
      using on final
      by (auto simp: supersede_path_def path_end_def successively_append_iff split: if_splits)
    have "truth_walk es c = finalTruth i ?cur ?s (map (status_step_of es) ?path)"
      using on ex final
      by (subst truth_walk.simps)
        (auto simp: single_step_def cursor_step_def Let_def status_step_of_def split: CorrectionStatus.splits)
    moreover have "find (\<lambda>s. st_state s = StSuperseded) (map (status_step_of es) ?path) =
        (if path = [] then None else Some (status_step_of es i))"
    proof (cases path)
      case Nil
      then show ?thesis using final by (simp add: status_step_of_def stepFromStatus_def)
    next
      case (Cons x xs)
      then have "x = i" "next_event es i \<noteq> None"
        using path by (auto simp: supersede_path_def successively_append_iff successively_Cons split: if_splits)
      then have "st_state (status_step_of es i) = StSuperseded"
        by (cases "latest_status es i") (auto simp: next_event_def status_step_of_def stepFromStatus_def)
      then show ?thesis using Cons \<open>x = i\<close> by simp
    qed
    moreover have "path \<noteq> [] \<Longrightarrow> next_event es i \<noteq> None"
      using path by (cases path) (auto simp: supersede_path_def successively_append_iff successively_Cons split: if_splits)
    ultimately show ?thesis
      using path final
      by (cases ?s) (auto simp: resolves_def finalTruth_def Let_def status_step_of_def
          stepFromStatus_def next_event_def intro!: exI [of _ ?path])
  qed
qed

lemma start_on: "cursor_on es i [] (start_cursor i)"
  by (simp add: cursor_on_def supersede_path_def path_end_def start_cursor_def)

section \<open>The properties\<close>

text \<open>
  C16. A batch resolves every event exactly as it would be resolved alone: the rounds of shared
  reads, the order of the ids, duplicates and the other ids of the batch make no difference.
\<close>

theorem truth_batch_is_single:
  "map_of (getEffectiveTruths es ids) i = (if i \<in> set ids then Some (getEffectiveTruth es i) else None)"
  by (simp add: getEffectiveTruths_map getEffectiveTruth_walk)

text \<open>
  C17. What a resolution means: the chain is a path of distinct events of the log from the asked
  event, each superseded by the next. The answer is missing exactly when the path leads out of
  the log, a cycle when it leads back into itself, and otherwise the path's last event with its
  own latest status, reported as superseded when an active event was reached through
  replacements, together with the first replacement. The loop always ends.
\<close>

theorem truth_resolution:
  "resolves es i (getEffectiveTruth es i)"
  unfolding getEffectiveTruth_walk by (rule walk_resolves [OF start_on])

end
