(* ===== verification/OrchestrationStore.thy ===== *)
theory OrchestrationStore
  imports Prelude
begin

text \<open>
  The scheduling tables of the nightly orchestrator: \<open>src/src/server/orchestration/store.ts\<close>
  and the tables \<open>dag_orchestration_run\<close> and \<open>dag_orchestration_node\<close> of
  \<open>src/src/db/schema/events.ts\<close>, with the steps any number of concurrent callers can take
  on them and what all of those steps preserve.

  Ids come from a generator outside the repository; \<open>newId\<close> maps the number of ids drawn so
  far to the next id. \<open>updated_at\<close>, which nothing reads, is left out.
\<close>

section \<open>Rows\<close>

datatype RunTrigger = Cron | Manual

datatype RunStatus = RunRunning | RunCompleted | RunAbandoned

datatype NodeStatus =
    NPending | NEnqueued | NRunning | NSucceeded | NFailed | NSkipped | NNotNeeded | NDegraded

definition TERMINAL_NODE_STATUSES :: "NodeStatus list" where
  "TERMINAL_NODE_STATUSES = [NSucceeded, NFailed, NSkipped, NNotNeeded, NDegraded]"

definition isTerminalNodeStatus :: "NodeStatus \<Rightarrow> bool" where
  "isTerminalNodeStatus s \<longleftrightarrow> s \<in> set TERMINAL_NODE_STATUSES"

lemma isTerminalNodeStatus_simps [simp]:
  "\<not> isTerminalNodeStatus NPending" "\<not> isTerminalNodeStatus NEnqueued" "\<not> isTerminalNodeStatus NRunning"
  "isTerminalNodeStatus NSucceeded" "isTerminalNodeStatus NFailed" "isTerminalNodeStatus NSkipped"
  "isTerminalNodeStatus NNotNeeded" "isTerminalNodeStatus NDegraded"
  by (simp_all add: isTerminalNodeStatus_def TERMINAL_NODE_STATUSES_def)

record RunRow =
  run_id :: string
  run_date :: string
  run_trigger :: RunTrigger
  run_status :: RunStatus
  run_started_at :: int
  run_finished_at :: "int option"

record NodeRow =
  node_id :: string
  node_run_id :: string
  node_job_name :: string
  node_status :: NodeStatus
  node_boss_job_id :: "string option"
  node_stale :: bool
  node_detail :: "string option"
  node_enqueued_at :: "int option"
  node_finished_at :: "int option"

record orch_db =
  o_runs :: "RunRow list"
  o_nodes :: "NodeRow list"
  o_next :: nat

datatype orch_error =
    ForeignKeyViolation string
  | BossError string
  | EligibilityError string
  | TickNotArmed string
  | ClockUnreadable
  | BadCatchUpWindow int

section \<open>Runs\<close>

definition createRun ::
  "(nat \<Rightarrow> string) \<Rightarrow> string \<Rightarrow> RunTrigger \<Rightarrow> int \<Rightarrow> orch_db \<Rightarrow> RunRow option \<times> orch_db" where
  "createRun newId runDate trigger now db =
     (let row = \<lparr>run_id = newId (o_next db), run_date = runDate, run_trigger = trigger,
                 run_status = RunRunning, run_started_at = now, run_finished_at = None\<rparr>;
          db' = db\<lparr>o_next := o_next db + 1\<rparr>
      in if list_ex (\<lambda>r. run_id r = run_id row \<or>
              (run_date r = runDate \<and> run_status r = RunRunning)) (o_runs db)
         then (None, db')
         else (Some row, db'\<lparr>o_runs := o_runs db @ [row]\<rparr>))"

definition getActiveRunById :: "string \<Rightarrow> orch_db \<Rightarrow> RunRow option" where
  "getActiveRunById i db = find (\<lambda>r. run_id r = i \<and> run_status r = RunRunning) (o_runs db)"

definition getActiveRunForDate :: "string \<Rightarrow> orch_db \<Rightarrow> RunRow option" where
  "getActiveRunForDate d db = find (\<lambda>r. run_date r = d \<and> run_status r = RunRunning) (o_runs db)"

definition listActiveRuns :: "orch_db \<Rightarrow> RunRow list" where
  "listActiveRuns db = filter (\<lambda>r. run_status r = RunRunning) (o_runs db)"

text \<open>\<open>ORDER BY started_at DESC LIMIT 1\<close>; the order of equal times is the database's.\<close>

definition getLatestRunForDate :: "string \<Rightarrow> orch_db \<Rightarrow> RunRow option" where
  "getLatestRunForDate d db =
     (case sort_key (\<lambda>r. - run_started_at r) (filter (\<lambda>r. run_date r = d) (o_runs db)) of
        [] \<Rightarrow> None | r # _ \<Rightarrow> Some r)"

definition finishRun :: "string \<Rightarrow> RunStatus \<Rightarrow> int \<Rightarrow> orch_db \<Rightarrow> bool \<times> orch_db" where
  "finishRun i status now db =
     (let p = (\<lambda>r. run_id r = i \<and> run_status r = RunRunning) in
      (list_ex p (o_runs db),
       db\<lparr>o_runs := update_where p (\<lambda>r. r\<lparr>run_status := status, run_finished_at := Some now\<rparr>)
            (o_runs db)\<rparr>))"

section \<open>Nodes\<close>

definition insert_node :: "string \<Rightarrow> string \<Rightarrow> string \<Rightarrow> NodeRow list \<Rightarrow> NodeRow list" where
  "insert_node i runId job ns =
     (if list_ex (\<lambda>n. node_id n = i \<or> (node_run_id n = runId \<and> node_job_name n = job)) ns then ns
      else ns @ [\<lparr>node_id = i, node_run_id = runId, node_job_name = job, node_status = NPending,
                  node_boss_job_id = None, node_stale = False, node_detail = None,
                  node_enqueued_at = None, node_finished_at = None\<rparr>])"

fun insert_nodes :: "(nat \<Rightarrow> string) \<Rightarrow> string \<Rightarrow> string list \<Rightarrow> orch_db \<Rightarrow> orch_db" where
  "insert_nodes newId runId [] db = db"
| "insert_nodes newId runId (job # jobs) db =
     insert_nodes newId runId jobs
       (db\<lparr>o_nodes := insert_node (newId (o_next db)) runId job (o_nodes db), o_next := o_next db + 1\<rparr>)"

definition insertNodes ::
  "(nat \<Rightarrow> string) \<Rightarrow> string \<Rightarrow> string list \<Rightarrow> orch_db \<Rightarrow> orch_error + orch_db" where
  "insertNodes newId runId jobNames db =
     (if jobNames = [] then Inr db
      else if \<not> list_ex (\<lambda>r. run_id r = runId) (o_runs db) then Inl (ForeignKeyViolation runId)
      else Inr (insert_nodes newId runId jobNames db))"

definition createRunWithNodes ::
  "(nat \<Rightarrow> string) \<Rightarrow> string \<Rightarrow> RunTrigger \<Rightarrow> string list \<Rightarrow> int \<Rightarrow> orch_db \<Rightarrow>
     orch_error + RunRow option \<times> orch_db" where
  "createRunWithNodes newId runDate trigger jobNames now db =
     (case createRun newId runDate trigger now db of
        (None, db') \<Rightarrow> Inr (None, db')
      | (Some run, db') \<Rightarrow>
          bind_result (insertNodes newId (run_id run) jobNames db') (\<lambda>db''. Inr (Some run, db'')))"

definition loadNode :: "orch_db \<Rightarrow> string \<Rightarrow> NodeRow option" where
  "loadNode db i = row_by node_id i (o_nodes db)"

definition loadNodes :: "orch_db \<Rightarrow> string \<Rightarrow> (string \<times> NodeRow) list" where
  "loadNodes db runId =
     foldl (\<lambda>m r. AList.update (node_job_name r) r m) [] (filter (\<lambda>n. node_run_id n = runId) (o_nodes db))"

text \<open>\<open>UPDATE .. WHERE .. RETURNING id\<close>: the new table and whether any row matched.\<close>

definition update_nodes ::
  "(NodeRow \<Rightarrow> bool) \<Rightarrow> (NodeRow \<Rightarrow> NodeRow) \<Rightarrow> orch_db \<Rightarrow> bool \<times> orch_db" where
  "update_nodes p f db = (list_ex p (o_nodes db), db\<lparr>o_nodes := update_where p f (o_nodes db)\<rparr>)"

definition claimNodePending ::
  "string \<Rightarrow> string \<Rightarrow> bool \<Rightarrow> int \<Rightarrow> orch_db \<Rightarrow> bool \<times> orch_db" where
  "claimNodePending nodeId bossJobId stale now db =
     update_nodes (\<lambda>n. node_id n = nodeId \<and> node_status n = NPending)
       (\<lambda>n. n\<lparr>node_status := NEnqueued, node_boss_job_id := Some bossJobId, node_stale := stale,
              node_enqueued_at := Some now\<rparr>) db"

definition claimNodeNotNeeded :: "string \<Rightarrow> string \<Rightarrow> int \<Rightarrow> orch_db \<Rightarrow> bool \<times> orch_db" where
  "claimNodeNotNeeded nodeId detail now db =
     update_nodes (\<lambda>n. node_id n = nodeId \<and> node_status n = NPending)
       (\<lambda>n. n\<lparr>node_status := NNotNeeded, node_detail := Some detail, node_finished_at := Some now\<rparr>) db"

text \<open>A \<open>detail\<close> of \<open>None\<close> is \<open>undefined\<close> (left as it is), \<open>Some None\<close> is \<open>null\<close>.\<close>

definition updateNodeStatus ::
  "string \<Rightarrow> NodeStatus \<Rightarrow> string option option \<Rightarrow> int \<Rightarrow> orch_db \<Rightarrow> bool \<times> orch_db" where
  "updateNodeStatus nodeId status detail now db =
     update_nodes (\<lambda>n. node_id n = nodeId \<and> node_status n \<notin> set TERMINAL_NODE_STATUSES)
       (\<lambda>n. n\<lparr>node_status := status,
              node_detail := (case detail of None \<Rightarrow> node_detail n | Some d \<Rightarrow> d),
              node_finished_at := (if isTerminalNodeStatus status then Some now else node_finished_at n)\<rparr>) db"

section \<open>The tables' constraints\<close>

definition node_inv :: "NodeRow \<Rightarrow> bool" where
  "node_inv n \<longleftrightarrow>
     (node_finished_at n = None \<longleftrightarrow> \<not> isTerminalNodeStatus (node_status n)) \<and>
     (node_status n = NPending \<longrightarrow> node_boss_job_id n = None) \<and>
     (node_status n \<in> {NEnqueued, NRunning, NSucceeded, NDegraded} \<longrightarrow> node_boss_job_id n \<noteq> None) \<and>
     (node_boss_job_id n = None \<longleftrightarrow> node_enqueued_at n = None)"

interpretation nod: keyed_table node_id .
interpretation njob: keyed_table "\<lambda>n. (node_run_id n, node_job_name n)" .
interpretation rn: keyed_table run_id .

definition orch_inv :: "orch_db \<Rightarrow> bool" where
  "orch_inv db \<longleftrightarrow>
     rn.wf (o_runs db) \<and> nod.wf (o_nodes db) \<and> njob.wf (o_nodes db) \<and>
     distinct (map run_date (listActiveRuns db)) \<and>
     (\<forall>r \<in> set (o_runs db). run_finished_at r = None \<longleftrightarrow> run_status r = RunRunning) \<and>
     (\<forall>n \<in> set (o_nodes db). node_inv n \<and> node_run_id n \<in> run_id ` set (o_runs db))"

lemma orch_invD:
  assumes "orch_inv db"
  shows "rn.wf (o_runs db)" "nod.wf (o_nodes db)" "njob.wf (o_nodes db)"
    "distinct (map run_date (listActiveRuns db))"
    "r \<in> set (o_runs db) \<Longrightarrow> run_finished_at r = None \<longleftrightarrow> run_status r = RunRunning"
    "n \<in> set (o_nodes db) \<Longrightarrow> node_inv n"
    "n \<in> set (o_nodes db) \<Longrightarrow> node_run_id n \<in> run_id ` set (o_runs db)"
  using assms by (auto simp: orch_inv_def)

section \<open>What a row may become\<close>

text \<open>The order of a node's life. Every statement moves a row forward or leaves it alone.\<close>

definition status_rank :: "NodeStatus \<Rightarrow> nat" where
  "status_rank s = (case s of NPending \<Rightarrow> 0 | NEnqueued \<Rightarrow> 1 | NRunning \<Rightarrow> 2 | _ \<Rightarrow> 3)"

definition node_step :: "NodeRow \<Rightarrow> NodeRow \<Rightarrow> bool" where
  "node_step n n' \<longleftrightarrow>
     node_id n' = node_id n \<and> node_run_id n' = node_run_id n \<and> node_job_name n' = node_job_name n \<and>
     (isTerminalNodeStatus (node_status n) \<longrightarrow> n' = n) \<and>
     (node_status n \<noteq> NPending \<longrightarrow>
        node_boss_job_id n' = node_boss_job_id n \<and> node_enqueued_at n' = node_enqueued_at n \<and>
        node_stale n' = node_stale n) \<and>
     status_rank (node_status n) \<le> status_rank (node_status n')"

lemma node_step_refl [simp]: "node_step n n"
  by (simp add: node_step_def)

lemma node_step_trans: "node_step n n' \<Longrightarrow> node_step n' n'' \<Longrightarrow> node_step n n''"
  by (cases "node_status n"; cases "node_status n'") (auto simp: node_step_def status_rank_def)

text \<open>How the whole tables evolve: rows are never removed.\<close>

definition db_evolves :: "orch_db \<Rightarrow> orch_db \<Rightarrow> bool" where
  "db_evolves db db' \<longleftrightarrow>
     (\<forall>n \<in> set (o_nodes db). \<exists>n' \<in> set (o_nodes db'). node_step n n') \<and>
     (\<forall>r \<in> set (o_runs db). \<exists>r' \<in> set (o_runs db'). run_id r' = run_id r \<and> run_date r' = run_date r \<and>
        (run_status r \<noteq> RunRunning \<longrightarrow> r' = r))"

lemma db_evolves_refl [simp]: "db_evolves db db"
  by (force simp: db_evolves_def)

definition run_step :: "RunRow \<Rightarrow> RunRow \<Rightarrow> bool" where
  "run_step r r' \<longleftrightarrow> run_id r' = run_id r \<and> run_date r' = run_date r \<and>
     (run_status r \<noteq> RunRunning \<longrightarrow> r' = r)"

lemma db_evolves_alt:
  "db_evolves db db' \<longleftrightarrow>
     (\<forall>n \<in> set (o_nodes db). \<exists>n' \<in> set (o_nodes db'). node_step n n') \<and>
     (\<forall>r \<in> set (o_runs db). \<exists>r' \<in> set (o_runs db'). run_step r r')"
  by (simp add: db_evolves_def run_step_def)

lemma run_step_trans: "run_step r r' \<Longrightarrow> run_step r' r'' \<Longrightarrow> run_step r r''"
  by (auto simp: run_step_def)

lemma db_evolves_trans: "db_evolves a b \<Longrightarrow> db_evolves b c \<Longrightarrow> db_evolves a c"
  unfolding db_evolves_alt by (meson node_step_trans run_step_trans)

section \<open>Statements of concurrent callers\<close>

text \<open>
  One statement of \<open>store.ts\<close>, issued by any caller with any arguments its type allows. The
  two premises on \<open>updateNodeStatus\<close> are what every caller checked on a row it had read
  before: only a node that has left \<open>pending\<close> is reported running, succeeded, failed or
  degraded, and a row that has left \<open>pending\<close> never returns to it.
\<close>

inductive store_step :: "(nat \<Rightarrow> string) \<Rightarrow> orch_db \<Rightarrow> orch_db \<Rightarrow> bool" for newId where
  create: "createRunWithNodes newId d t jobs now db = Inr (res, db') \<Longrightarrow> store_step newId db db'"
| insert: "insertNodes newId runId jobs db = Inr db' \<Longrightarrow> store_step newId db db'"
| finish: "status \<noteq> RunRunning \<Longrightarrow> finishRun i status now db = (b, db') \<Longrightarrow> store_step newId db db'"
| claim: "claimNodePending i bossJobId stale now db = (b, db') \<Longrightarrow> store_step newId db db'"
| not_needed: "claimNodeNotNeeded i detail now db = (b, db') \<Longrightarrow> store_step newId db db'"
| skip: "updateNodeStatus i NSkipped detail now db = (b, db') \<Longrightarrow> store_step newId db db'"
| report: "status \<in> {NRunning, NSucceeded, NFailed, NDegraded} \<Longrightarrow>
    \<forall>n \<in> set (o_nodes db). node_id n = i \<longrightarrow> node_status n \<noteq> NPending \<Longrightarrow>
    updateNodeStatus i status detail now db = (b, db') \<Longrightarrow> store_step newId db db'"

lemma update_nodes_simps [simp]:
  "o_runs (snd (update_nodes p f db)) = o_runs db"
  "o_nodes (snd (update_nodes p f db)) = update_where p f (o_nodes db)"
  "fst (update_nodes p f db) = list_ex p (o_nodes db)"
  "listActiveRuns (snd (update_nodes p f db)) = listActiveRuns db"
  by (simp_all add: update_nodes_def listActiveRuns_def)

lemma orch_inv_update:
  assumes inv: "orch_inv db"
    and step: "\<And>n. n \<in> set (o_nodes db) \<Longrightarrow> p n \<Longrightarrow> node_step n (f n) \<and> node_inv (f n)"
  shows "orch_inv (snd (update_nodes p f db))"
proof -
  note d = orch_invD [OF inv]
  have keys: "node_id (f n) = node_id n" "node_run_id (f n) = node_run_id n"
      "node_job_name (f n) = node_job_name n" if "n \<in> set (o_nodes db)" "p n" for n
    using step [OF that] by (simp_all add: node_step_def)
  have "nod.wf (update_where p f (o_nodes db))" "njob.wf (update_where p f (o_nodes db))"
    using nod.wf_update [OF d(2)] njob.wf_update [OF d(3)] keys by (metis, metis)
  then show ?thesis
    unfolding orch_inv_def update_nodes_simps
    using d step keys(2) by (auto simp: set_update_where)
qed

lemma bex_image: "(\<And>x. x \<in> A \<Longrightarrow> R x (g x)) \<Longrightarrow> \<forall>x \<in> A. \<exists>y \<in> g ` A. R x y"
  by blast

lemma evolves_update:
  assumes "\<And>n. n \<in> set (o_nodes db) \<Longrightarrow> p n \<Longrightarrow> node_step n (f n)"
  shows "db_evolves db (snd (update_nodes p f db))"
proof -
  have "node_step n (if p n then f n else n)" if "n \<in> set (o_nodes db)" for n using assms that by simp
  from bex_image [where R = node_step, OF this] show ?thesis
    unfolding db_evolves_def update_nodes_simps set_update_where by blast
qed

lemma set_insert_node:
  "set (insert_node i r j ns) \<subseteq> insert \<lparr>node_id = i, node_run_id = r, node_job_name = j,
     node_status = NPending, node_boss_job_id = None, node_stale = False, node_detail = None,
     node_enqueued_at = None, node_finished_at = None\<rparr> (set ns)"
  "set ns \<subseteq> set (insert_node i r j ns)"
  by (auto simp: insert_node_def)

lemma wf_insert_node:
  "nod.wf ns \<Longrightarrow> nod.wf (insert_node i r j ns)" "njob.wf ns \<Longrightarrow> njob.wf (insert_node i r j ns)"
  by (auto simp: insert_node_def list_ex_iff nod.wf_def njob.wf_def)

lemma orch_inv_insert_nodes:
  assumes "orch_inv db" "r \<in> run_id ` set (o_runs db)"
  shows "orch_inv (insert_nodes newId r jobs db) \<and> db_evolves db (insert_nodes newId r jobs db)"
  using assms
proof (induction newId r jobs db rule: insert_nodes.induct)
  case (2 newId r job jobs db)
  let ?db = "db\<lparr>o_nodes := insert_node (newId (o_next db)) r job (o_nodes db), o_next := o_next db + 1\<rparr>"
  have inv: "orch_inv ?db"
    using 2(2,3) wf_insert_node [of "o_nodes db"] set_insert_node(1) [of "newId (o_next db)" r job "o_nodes db"]
    unfolding orch_inv_def listActiveRuns_def by (auto simp: node_inv_def)
  have ev: "db_evolves db ?db"
    using set_insert_node(2) [of "o_nodes db"] unfolding db_evolves_def by force
  show ?case using 2(1) [OF inv] 2(3) db_evolves_trans [OF ev] by simp
qed simp

lemma insertNodes_Inr:
  "insertNodes newId r jobs db = Inr db' \<longleftrightarrow>
     (jobs = [] \<and> db' = db \<or> jobs \<noteq> [] \<and> r \<in> run_id ` set (o_runs db) \<and> db' = insert_nodes newId r jobs db)"
  by (auto simp: insertNodes_def list_ex_iff)

lemma orch_inv_insertNodes:
  "insertNodes newId r jobs db = Inr db' \<Longrightarrow> orch_inv db \<Longrightarrow> orch_inv db' \<and> db_evolves db db'"
  using orch_inv_insert_nodes by (auto simp: insertNodes_Inr)

lemma createRun_None: "createRun newId d t now db = (None, db') \<Longrightarrow> db' = db\<lparr>o_next := o_next db + 1\<rparr>"
  by (auto simp: createRun_def Let_def split: if_splits)

lemma createRun_Some:
  "createRun newId d t now db = (Some r, db') \<longleftrightarrow>
     r = \<lparr>run_id = newId (o_next db), run_date = d, run_trigger = t, run_status = RunRunning,
          run_started_at = now, run_finished_at = None\<rparr> \<and>
     db' = db\<lparr>o_next := o_next db + 1, o_runs := o_runs db @ [r]\<rparr> \<and>
     run_id r \<notin> run_id ` set (o_runs db) \<and>
     d \<notin> run_date ` set (listActiveRuns db)"
proof (cases "list_ex (\<lambda>r. run_id r = newId (o_next db) \<or> (run_date r = d \<and> run_status r = RunRunning)) (o_runs db)")
  case True
  then have "newId (o_next db) \<in> run_id ` set (o_runs db) \<or> d \<in> run_date ` set (listActiveRuns db)"
    by (auto simp: list_ex_iff listActiveRuns_def intro: rev_image_eqI)
  then show ?thesis using True by (auto simp: createRun_def Let_def)
next
  case False
  then have "newId (o_next db) \<notin> run_id ` set (o_runs db) \<and> d \<notin> run_date ` set (listActiveRuns db)"
    by (auto simp: list_ex_iff listActiveRuns_def)
  then show ?thesis using False by (auto simp: createRun_def Let_def)
qed

lemma orch_inv_next [simp]: "orch_inv (db\<lparr>o_next := k\<rparr>) = orch_inv db"
  by (simp add: orch_inv_def listActiveRuns_def)

lemma orch_inv_createRun:
  assumes "createRun newId d t now db = (Some r, db')" "orch_inv db"
  shows "orch_inv db'" "db_evolves db db'"
proof -
  note c = assms(1) [unfolded createRun_Some]
  have r: "run_id r = newId (o_next db)" "run_date r = d" "run_status r = RunRunning" "run_finished_at r = None"
    using c by simp_all
  note d = orch_invD [OF assms(2)]
  have runs: "o_runs db' = o_runs db @ [r]" and nodes: "o_nodes db' = o_nodes db" using c by auto
  have act: "listActiveRuns db' = listActiveRuns db @ [r]"
    using r(3) by (simp add: listActiveRuns_def runs)
  have wf: "rn.wf (o_runs db')"
    unfolding runs by (rule rn.wf_insert [OF d(1)]) (use c in \<open>auto simp: row_by_None_iff\<close>)
  show "orch_inv db'"
    unfolding orch_inv_def act nodes
    using wf d(2-) c r by (auto simp: runs)
  show "db_evolves db db'" unfolding db_evolves_def runs nodes by force
qed

lemma createRunWithNodes_Inr:
  "createRunWithNodes newId d t jobs now db = Inr (res, db') \<longleftrightarrow>
     (res = None \<and> createRun newId d t now db = (None, db')) \<or>
     (\<exists>r db1. res = Some r \<and> createRun newId d t now db = (Some r, db1) \<and>
        insertNodes newId (run_id r) jobs db1 = Inr db')"
  by (auto simp: createRunWithNodes_def bind_result_Inr_iff split: prod.splits option.splits)

lemma db_evolves_next [simp]: "db_evolves db (db\<lparr>o_next := k\<rparr>)"
  by (force simp: db_evolves_def)

lemma orch_inv_createRunWithNodes:
  assumes "createRunWithNodes newId d t jobs now db = Inr (res, db')" "orch_inv db"
  shows "orch_inv db' \<and> db_evolves db db'"
  using assms(1) unfolding createRunWithNodes_Inr
proof (elim disjE exE conjE)
  assume "createRun newId d t now db = (None, db')"
  then show ?thesis using assms(2) createRun_None [of newId d t now db db'] by simp
next
  fix r db1
  assume c: "createRun newId d t now db = (Some r, db1)" and i: "insertNodes newId (run_id r) jobs db1 = Inr db'"
  note cr = orch_inv_createRun [OF c assms(2)]
  show ?thesis using orch_inv_insertNodes [OF i cr(1)] db_evolves_trans [OF cr(2)] by blast
qed

lemma finishRun_Pair:
  "finishRun i s now db = (b, db') \<longleftrightarrow>
     b = list_ex (\<lambda>r. run_id r = i \<and> run_status r = RunRunning) (o_runs db) \<and>
     db' = db\<lparr>o_runs := update_where (\<lambda>r. run_id r = i \<and> run_status r = RunRunning)
            (\<lambda>r. r\<lparr>run_status := s, run_finished_at := Some now\<rparr>) (o_runs db)\<rparr>"
  by (auto simp: finishRun_def Let_def)

lemma listActiveRuns_finish:
  assumes "s \<noteq> RunRunning" "finishRun i s now db = (b, db')"
  shows "listActiveRuns db' = filter (\<lambda>r. run_id r \<noteq> i) (listActiveRuns db)"
proof -
  have "filter (\<lambda>r. run_status r = RunRunning)
        (update_where (\<lambda>r. run_id r = i \<and> run_status r = RunRunning)
          (\<lambda>r. r\<lparr>run_status := s, run_finished_at := Some now\<rparr>) rs) =
      filter (\<lambda>r. run_id r \<noteq> i) (filter (\<lambda>r. run_status r = RunRunning) rs)" for rs
    using assms(1) by (induction rs) auto
  then show ?thesis using assms(2) by (simp add: finishRun_Pair listActiveRuns_def)
qed

lemma orch_inv_finish:
  assumes "s \<noteq> RunRunning" "finishRun i s now db = (b, db')" "orch_inv db"
  shows "orch_inv db' \<and> db_evolves db db'"
proof -
  note d = orch_invD [OF assms(3)]
  let ?p = "\<lambda>r. run_id r = i \<and> run_status r = RunRunning"
  let ?f = "\<lambda>r. r\<lparr>run_status := s, run_finished_at := Some now\<rparr>"
  have runs: "o_runs db' = update_where ?p ?f (o_runs db)" and nodes: "o_nodes db' = o_nodes db"
    using assms(2) by (simp_all add: finishRun_Pair)
  have wf: "rn.wf (o_runs db')" unfolding runs by (rule rn.wf_update [OF d(1)]) simp
  have dates: "distinct (map run_date (listActiveRuns db'))"
    unfolding listActiveRuns_finish [OF assms(1,2)] by (rule distinct_map_filter [OF d(4)])
  have ids: "run_id ` set (o_runs db') = run_id ` set (o_runs db)"
    unfolding runs set_update_where image_image by (rule image_cong) auto
  show ?thesis
  proof
    show "orch_inv db'"
      unfolding orch_inv_def nodes ids
      using wf dates d assms(1) by (auto simp: runs set_update_where)
    show "db_evolves db db'"
      unfolding db_evolves_alt nodes runs set_update_where
      by (intro conjI bex_image) (blast intro: node_step_refl, auto simp: run_step_def)
  qed
qed

lemma claim_node_step:
  assumes "orch_inv db" "n \<in> set (o_nodes db)" "node_status n = NPending"
  shows "node_step n (n\<lparr>node_status := NEnqueued, node_boss_job_id := Some b, node_stale := st,
      node_enqueued_at := Some now\<rparr>) \<and>
    node_inv (n\<lparr>node_status := NEnqueued, node_boss_job_id := Some b, node_stale := st,
      node_enqueued_at := Some now\<rparr>)"
    and "node_step n (n\<lparr>node_status := NNotNeeded, node_detail := d, node_finished_at := Some now\<rparr>) \<and>
      node_inv (n\<lparr>node_status := NNotNeeded, node_detail := d, node_finished_at := Some now\<rparr>)"
  using orch_invD(6) [OF assms(1,2)] assms(3)
  by (auto simp: node_step_def node_inv_def status_rank_def)

lemma settle_node_step:
  assumes "orch_inv db" "n \<in> set (o_nodes db)" "node_status n \<notin> set TERMINAL_NODE_STATUSES"
    and "s = NSkipped \<or> (s \<in> {NRunning, NSucceeded, NFailed, NDegraded} \<and> node_status n \<noteq> NPending)"
  shows "node_step n (n\<lparr>node_status := s, node_detail := d,
      node_finished_at := (if isTerminalNodeStatus s then Some now else node_finished_at n)\<rparr>) \<and>
    node_inv (n\<lparr>node_status := s, node_detail := d,
      node_finished_at := (if isTerminalNodeStatus s then Some now else node_finished_at n)\<rparr>)"
  using orch_invD(6) [OF assms(1,2)] assms(3,4)
  by (cases "node_status n") (auto simp: node_step_def node_inv_def status_rank_def TERMINAL_NODE_STATUSES_def)

lemma snd_eqD: "m = (b, db') \<Longrightarrow> db' = snd m"
  by simp

lemma updateNodeStatus_inv:
  assumes inv: "orch_inv db" and u: "updateNodeStatus i s detail now db = (b, db')"
    and s: "\<And>n. n \<in> set (o_nodes db) \<Longrightarrow> node_id n = i \<Longrightarrow>
      s = NSkipped \<or> (s \<in> {NRunning, NSucceeded, NFailed, NDegraded} \<and> node_status n \<noteq> NPending)"
  shows "orch_inv db' \<and> db_evolves db db'"
proof -
  let ?p = "\<lambda>n. node_id n = i \<and> node_status n \<notin> set TERMINAL_NODE_STATUSES"
  let ?f = "\<lambda>n. n\<lparr>node_status := s,
              node_detail := (case detail of None \<Rightarrow> node_detail n | Some d \<Rightarrow> d),
              node_finished_at := (if isTerminalNodeStatus s then Some now else node_finished_at n)\<rparr>"
  have db': "db' = snd (update_nodes ?p ?f db)" using u by (simp add: updateNodeStatus_def)
  have step: "node_step n (?f n) \<and> node_inv (?f n)" if "n \<in> set (o_nodes db)" "?p n" for n
    using settle_node_step [OF inv that(1)] that s [OF that(1)] by blast
  show ?thesis
    unfolding db'
    by (intro conjI orch_inv_update [OF inv] evolves_update) (use step in \<open>blast+\<close>)
qed

lemma store_step_inv:
  "store_step newId db db' \<Longrightarrow> orch_inv db \<Longrightarrow> orch_inv db' \<and> db_evolves db db'"
proof (induction rule: store_step.induct)
  case (claim i bossJobId stale now db b db')
  then show ?case
    using claim_node_step(1) [OF claim.prems]
    by (auto simp: claimNodePending_def dest!: snd_eqD intro!: orch_inv_update evolves_update)
next
  case (not_needed i detail now db b db')
  then show ?case
    using claim_node_step(2) [OF not_needed.prems]
    by (auto simp: claimNodeNotNeeded_def dest!: snd_eqD intro!: orch_inv_update evolves_update)
next
  case (skip i detail now db b db')
  then show ?case
    by (intro updateNodeStatus_inv [OF skip.prems skip.hyps]) blast
next
  case (report status db i detail now b db')
  then show ?case
    by (intro updateNodeStatus_inv [OF report.prems report.hyps(3)]) blast
qed (simp_all add: orch_inv_createRunWithNodes orch_inv_insertNodes orch_inv_finish)

lemma store_steps_inv:
  "(store_step newId)\<^sup>*\<^sup>* db db' \<Longrightarrow> orch_inv db \<Longrightarrow> orch_inv db' \<and> db_evolves db db'"
  by (induction rule: rtranclp_induct) (auto dest: store_step_inv intro: db_evolves_trans)

text \<open>The row of a node, later.\<close>

lemma evolves_node:
  assumes "db_evolves db db'" "nod.wf (o_nodes db')" "n \<in> set (o_nodes db)" "n' \<in> set (o_nodes db')"
    "node_id n' = node_id n"
  shows "node_step n n'"
proof -
  obtain m where m: "m \<in> set (o_nodes db')" "node_step n m" using assms(1,3) by (auto simp: db_evolves_def)
  then have "node_id m = node_id n'" using assms(5) by (simp add: node_step_def)
  then have "m = n'" using nod.wf_same_row [OF assms(2)] m(1) assms(4) by blast
  then show ?thesis using m(2) by simp
qed

end
