(* ===== verification/JobDag.thy ===== *)
theory JobDag
  imports Prelude
begin

text \<open>
  The nightly job graph: \<open>src/src/kernel/job-dag.ts\<close>. A \<open>Map\<close> is an association list in
  insertion order. The eligibility function of a member is opaque to this module and is left
  out, as is the owner's use in error messages.
\<close>

section \<open>The module\<close>

datatype JobDependencyDecl = JobName string | JobDependency string "bool option"

record dependency =
  d_job :: string
  d_soft :: bool

fun normalizeJobDependency :: "JobDependencyDecl \<Rightarrow> dependency" where
  "normalizeJobDependency (JobName j) = \<lparr>d_job = j, d_soft = False\<rparr>"
| "normalizeJobDependency (JobDependency j soft) =
     \<lparr>d_job = j, d_soft = (case soft of None \<Rightarrow> False | Some b \<Rightarrow> b)\<rparr>"

record JobDagMemberInput =
  m_name :: string
  m_owner :: string
  m_dependsOn :: "JobDependencyDecl list"

record JobDagNode =
  n_name :: string
  n_owner :: string
  n_deps :: "dependency list"

record JobDag =
  nodes :: "(string \<times> JobDagNode) list"
  roots :: "string list"
  dependents :: "(string \<times> dependency list) list"

datatype JobDagError =
    DuplicateMember string
  | UndeclaredDependency string string
  | SelfDependency string
  | DuplicateDependency string string
  | UnknownJob string string
  | NotAMember string string
  | DependencyCycle "string list"

definition upstreams :: "JobDagMemberInput \<Rightarrow> string list" where
  "upstreams m = map (d_job \<circ> normalizeJobDependency) (m_dependsOn m)"

fun build_nodes ::
  "JobDagMemberInput list \<Rightarrow> (string \<times> JobDagNode) list \<Rightarrow> JobDagError + (string \<times> JobDagNode) list" where
  "build_nodes [] ns = Inr ns"
| "build_nodes (m # ms) ns =
     (if map_of ns (m_name m) \<noteq> None then Inl (DuplicateMember (m_name m))
      else build_nodes ms (ns @ [(m_name m,
             \<lparr>n_name = m_name m, n_owner = m_owner m,
              n_deps = map normalizeJobDependency (m_dependsOn m)\<rparr>)]))"

fun push_dependents ::
  "string \<Rightarrow> dependency list \<Rightarrow> (string \<times> dependency list) list \<Rightarrow>
     JobDagError + (string \<times> dependency list) list" where
  "push_dependents node [] dm = Inr dm"
| "push_dependents node (dep # deps) dm =
     (case map_of dm (d_job dep) of
        None \<Rightarrow> Inl (UndeclaredDependency (d_job dep) node)
      | Some xs \<Rightarrow>
          push_dependents node deps
            (AList.update (d_job dep) (xs @ [\<lparr>d_job = node, d_soft = d_soft dep\<rparr>]) dm))"

fun build_dependents ::
  "(string \<times> JobDagNode) list \<Rightarrow> (string \<times> dependency list) list \<Rightarrow>
     JobDagError + (string \<times> dependency list) list" where
  "build_dependents [] dm = Inr dm"
| "build_dependents ((k, n) # ns) dm =
     bind_result (push_dependents (n_name n) (n_deps n) dm) (build_dependents ns)"

definition buildJobDag :: "JobDagMemberInput list \<Rightarrow> JobDagError + JobDag" where
  "buildJobDag members =
     bind_result (build_nodes members []) (\<lambda>ns.
     bind_result (build_dependents ns (map (\<lambda>(k, n). (k, [])) ns)) (\<lambda>dm.
     Inr \<lparr>nodes = ns,
          roots = map (n_name \<circ> snd) (filter (\<lambda>(k, n). n_deps n = []) ns),
          dependents = dm\<rparr>))"

section \<open>Cycle search\<close>

fun build_adj ::
  "JobDagMemberInput list \<Rightarrow> (string \<times> string list) list \<Rightarrow> JobDagError + (string \<times> string list) list" where
  "build_adj [] adj = Inr adj"
| "build_adj (m # ms) adj =
     (if map_of adj (m_name m) \<noteq> None then Inl (DuplicateMember (m_name m))
      else build_adj ms (adj @ [(m_name m, upstreams m)]))"

text \<open>
  The depth-first search. The colours are two sets: \<open>stack\<close> holds the grey nodes (the current
  path, newest last), \<open>black\<close> the finished ones. \<open>dfs\<close> visits a white node and returns the
  cycle it closed, or the finished nodes; \<open>dfs_edges\<close> is its loop over the remaining edges.
  The recursion is bounded by fuel; \<open>findCycle\<close> supplies more than any search needs.
\<close>

datatype search = OutOfFuel | Cycle "string list" | Finished "string list"

definition index_of :: "string \<Rightarrow> string list \<Rightarrow> nat" where
  "index_of x xs = length (takeWhile (\<lambda>y. y \<noteq> x) xs)"

fun dfs :: "nat \<Rightarrow> (string \<times> string list) list \<Rightarrow> string list \<Rightarrow> string list \<Rightarrow> string \<Rightarrow> search"
  and dfs_edges ::
    "nat \<Rightarrow> (string \<times> string list) list \<Rightarrow> string list \<Rightarrow> string list \<Rightarrow> string list \<Rightarrow> search"
where
  "dfs 0 adj stack black name = OutOfFuel"
| "dfs (Suc n) adj stack black name =
     (case dfs_edges n adj (stack @ [name]) black
             (case map_of adj name of None \<Rightarrow> [] | Some xs \<Rightarrow> xs) of
        Finished black' \<Rightarrow> Finished (name # black')
      | r \<Rightarrow> r)"
| "dfs_edges 0 adj stack black edges = OutOfFuel"
| "dfs_edges (Suc n) adj stack black [] = Finished black"
| "dfs_edges (Suc n) adj stack black (next # rest) =
     (if map_of adj next = None then dfs_edges n adj stack black rest
      else if next \<in> set stack then Cycle (drop (index_of next stack) stack @ [next])
      else if next \<in> set black then dfs_edges n adj stack black rest
      else case dfs n adj stack black next of
             Finished black' \<Rightarrow> dfs_edges n adj stack black' rest
           | r \<Rightarrow> r)"

fun search_all :: "nat \<Rightarrow> (string \<times> string list) list \<Rightarrow> string list \<Rightarrow> string list \<Rightarrow> search" where
  "search_all n adj black [] = Finished black"
| "search_all n adj black (x # xs) =
     (if x \<in> set black then search_all n adj black xs
      else case dfs n adj [] black x of
             Finished black' \<Rightarrow> search_all n adj black' xs
           | r \<Rightarrow> r)"

definition search_fuel :: "(string \<times> string list) list \<Rightarrow> nat" where
  "search_fuel adj = 2 * length adj + sum_list (map (length \<circ> snd) adj) + 2"

text \<open>\<open>Inr None\<close> is \<open>null\<close>. The fuel is never exhausted (\<open>search_terminates\<close>).\<close>

definition findCycle :: "JobDagMemberInput list \<Rightarrow> JobDagError + string list option" where
  "findCycle members =
     bind_result (build_adj members []) (\<lambda>adj.
     case search_all (search_fuel adj) adj [] (map m_name members) of
       Cycle c \<Rightarrow> Inr (Some c)
     | _ \<Rightarrow> Inr None)"

section \<open>Validation\<close>

fun check_names :: "JobDagMemberInput list \<Rightarrow> string list \<Rightarrow> JobDagError + string list" where
  "check_names [] seen = Inr seen"
| "check_names (m # ms) seen =
     (if m_name m \<in> set seen then Inl (DuplicateMember (m_name m))
      else check_names ms (seen @ [m_name m]))"

fun check_edges ::
  "string list \<Rightarrow> string list \<Rightarrow> JobDagMemberInput \<Rightarrow> string list \<Rightarrow> JobDependencyDecl list \<Rightarrow>
     JobDagError + unit" where
  "check_edges allJobNames memberNames m seen [] = Inr ()"
| "check_edges allJobNames memberNames m seen (decl # decls) =
     (let upstream = d_job (normalizeJobDependency decl)
      in if upstream = m_name m then Inl (SelfDependency (m_name m))
         else if upstream \<in> set seen then Inl (DuplicateDependency (m_name m) upstream)
         else if upstream \<notin> set allJobNames then Inl (UnknownJob (m_name m) upstream)
         else if upstream \<notin> set memberNames then Inl (NotAMember (m_name m) upstream)
         else check_edges allJobNames memberNames m (upstream # seen) decls)"

fun check_members ::
  "string list \<Rightarrow> string list \<Rightarrow> JobDagMemberInput list \<Rightarrow> JobDagError + unit" where
  "check_members allJobNames memberNames [] = Inr ()"
| "check_members allJobNames memberNames (m # ms) =
     bind_result (check_edges allJobNames memberNames m [] (m_dependsOn m)) (\<lambda>_.
     check_members allJobNames memberNames ms)"

definition validateJobDag :: "JobDagMemberInput list \<Rightarrow> string list \<Rightarrow> JobDagError + unit" where
  "validateJobDag members allJobNames =
     bind_result (check_names members []) (\<lambda>memberNames.
     bind_result (check_members allJobNames memberNames members) (\<lambda>_.
     bind_result (findCycle members) (\<lambda>cycle.
     case cycle of
       Some c \<Rightarrow> Inl (DependencyCycle c)
     | None \<Rightarrow> Inr ())))"

section \<open>The search is sound and complete\<close>

definition edge :: "(string \<times> string list) list \<Rightarrow> (string \<times> string) set" where
  "edge adj = {(a, b). \<exists>xs. map_of adj a = Some xs \<and> b \<in> set xs \<and> map_of adj b \<noteq> None}"

text \<open>A closed walk, listed with its first node repeated at the end.\<close>

definition closed_walk :: "(string \<times> string list) list \<Rightarrow> string list \<Rightarrow> bool" where
  "closed_walk adj c \<longleftrightarrow> 2 \<le> length c \<and> hd c = last c \<and> successively (\<lambda>a b. (a, b) \<in> edge adj) c"

text \<open>The finished nodes: closed under edges, with no cycle through them, none on the current path.\<close>

definition finished_ok :: "(string \<times> string list) list \<Rightarrow> string list \<Rightarrow> string list \<Rightarrow> bool" where
  "finished_ok adj stack black \<longleftrightarrow>
     set black \<inter> set stack = {} \<and> (\<forall>x \<in> set black. \<forall>y. (x, y) \<in> edge adj \<longrightarrow> y \<in> set black) \<and>
     (\<forall>x \<in> set black. (x, x) \<notin> (edge adj)\<^sup>+)"

lemma closed_trancl:
  assumes "(x, y) \<in> (edge adj)\<^sup>+" "x \<in> B" "\<And>x y. x \<in> B \<Longrightarrow> (x, y) \<in> edge adj \<Longrightarrow> y \<in> B"
  shows "y \<in> B"
  using assms by (induction rule: trancl_induct) auto

lemma finished_ok_add:
  assumes "finished_ok adj (stack @ [name]) black" "name \<notin> set stack"
    and "\<And>y. (name, y) \<in> edge adj \<Longrightarrow> y \<in> set black"
  shows "finished_ok adj stack (name # black)"
proof -
  have fresh: "name \<notin> set black" and closed: "\<And>x y. x \<in> set black \<Longrightarrow> (x, y) \<in> edge adj \<Longrightarrow> y \<in> set black"
    using assms(1) by (auto simp: finished_ok_def)
  have "(name, name) \<notin> (edge adj)\<^sup>+"
  proof
    assume "(name, name) \<in> (edge adj)\<^sup>+"
    then obtain y where y: "(name, y) \<in> edge adj" "y = name \<or> (y, name) \<in> (edge adj)\<^sup>+"
      by (metis tranclD rtranclD)
    then have "y \<in> set black" using assms(3) by blast
    then have "name \<in> set black" using y(2) closed_trancl [of y name adj "set black"] closed by blast
    then show False using fresh by blast
  qed
  then show ?thesis using assms closed by (auto simp: finished_ok_def)
qed

lemma index_of_split:
  "x \<in> set xs \<Longrightarrow> \<exists>ys zs. xs = ys @ x # zs \<and> drop (index_of x xs) xs = x # zs"
proof (induction xs)
  case (Cons a xs)
  show ?case
  proof (cases "a = x")
    case True
    then show ?thesis by (intro exI [of _ "[]"] exI [of _ xs]) (simp add: index_of_def)
  next
    case False
    then obtain ys zs where "xs = ys @ x # zs" "drop (index_of x xs) xs = x # zs" using Cons by auto
    then show ?thesis using False by (intro exI [of _ "a # ys"] exI [of _ zs]) (simp add: index_of_def)
  qed
qed simp

lemma back_edge_walk:
  assumes "next \<in> set stack" "successively (\<lambda>a b. (a, b) \<in> edge adj) stack"
    and "(last stack, next) \<in> edge adj"
  shows "closed_walk adj (drop (index_of next stack) stack @ [next])"
proof -
  obtain ys zs where s: "stack = ys @ next # zs" "drop (index_of next stack) stack = next # zs"
    using index_of_split [OF assms(1)] by blast
  have "successively (\<lambda>a b. (a, b) \<in> edge adj) (next # zs)"
    using assms(2) unfolding s(1) by (simp add: successively_append_iff)
  moreover have "last stack = last (next # zs)" unfolding s(1) by simp
  ultimately show ?thesis
    using assms(3) by (simp add: closed_walk_def s(2) successively_append_iff del: append_Cons)
qed

definition path_ok :: "(string \<times> string list) list \<Rightarrow> string list \<Rightarrow> bool" where
  "path_ok adj stack \<longleftrightarrow> distinct stack \<and> successively (\<lambda>a b. (a, b) \<in> edge adj) stack"

text \<open>
  What a search returns: a genuine closed walk, or finished nodes that include what was
  searched; with enough fuel it returns one of the two.
\<close>

definition search_ok :: "(string \<times> string list) list \<Rightarrow> string list \<Rightarrow> string list \<Rightarrow> string set \<Rightarrow> search \<Rightarrow> bool" where
  "search_ok adj stack black targets r \<longleftrightarrow>
     (case r of
        OutOfFuel \<Rightarrow> True
      | Cycle c \<Rightarrow> closed_walk adj c
      | Finished black' \<Rightarrow> finished_ok adj stack black' \<and> set black \<subseteq> set black' \<and> targets \<subseteq> set black')"

definition known :: "(string \<times> string list) list \<Rightarrow> string list \<Rightarrow> string set" where
  "known adj xs = {x \<in> set xs. map_of adj x \<noteq> None}"

lemma search_sound:
  "path_ok adj stack \<Longrightarrow> finished_ok adj stack black \<Longrightarrow> name \<notin> set stack \<Longrightarrow> map_of adj name \<noteq> None \<Longrightarrow>
     (stack \<noteq> [] \<longrightarrow> (last stack, name) \<in> edge adj) \<Longrightarrow> name \<notin> set black \<Longrightarrow>
     search_ok adj stack black {name} (dfs n adj stack black name)"
  "path_ok adj stack \<Longrightarrow> finished_ok adj stack black \<Longrightarrow> stack \<noteq> [] \<Longrightarrow>
     \<forall>e \<in> known adj edges. (last stack, e) \<in> edge adj \<Longrightarrow>
     search_ok adj stack black (known adj edges) (dfs_edges n adj stack black edges)"
proof (induction n adj stack black name and n adj stack black edges rule: dfs_dfs_edges.induct)
  case (2 n adj stack black name)
  obtain xs where xs: "map_of adj name = Some xs" using 2 by auto
  have "path_ok adj (stack @ [name])"
    using 2(2,4,6) by (auto simp: path_ok_def successively_append_iff)
  moreover have "finished_ok adj (stack @ [name]) black" using 2(3,7) by (auto simp: finished_ok_def)
  moreover have "\<forall>e \<in> known adj xs. (last (stack @ [name]), e) \<in> edge adj"
    using xs by (auto simp: known_def edge_def)
  ultimately have r: "search_ok adj (stack @ [name]) black (known adj xs)
      (dfs_edges n adj (stack @ [name]) black xs)"
    using 2(1) xs by simp
  have targets: "y \<in> known adj xs" if "(name, y) \<in> edge adj" for y
    using that xs by (auto simp: known_def edge_def)
  show ?case
  proof (cases "dfs_edges n adj (stack @ [name]) black xs")
    case (Finished black')
    then have "finished_ok adj stack (name # black')"
      using r targets 2(4) by (intro finished_ok_add) (auto simp: search_ok_def)
    then show ?thesis using r Finished xs by (auto simp: search_ok_def)
  qed (use r xs in \<open>simp_all add: search_ok_def\<close>)
next
  case (5 n adj stack black nxt rest)
  note hyps = 5(5-8)
  have rest: "\<forall>e \<in> known adj rest. (last stack, e) \<in> edge adj" using 5(8) by (auto simp: known_def)
  consider (unknown) "map_of adj nxt = None" | (grey) "map_of adj nxt \<noteq> None" "nxt \<in> set stack"
    | (black) "map_of adj nxt \<noteq> None" "nxt \<notin> set stack" "nxt \<in> set black"
    | (white) "map_of adj nxt \<noteq> None" "nxt \<notin> set stack" "nxt \<notin> set black"
    by blast
  then show ?case
  proof cases
    case unknown
    then have "known adj (nxt # rest) = known adj rest" by (auto simp: known_def)
    then show ?thesis using 5(1) [OF unknown hyps(1-3) rest] unknown by simp
  next
    case grey
    then have "(last stack, nxt) \<in> edge adj" using 5(8) by (auto simp: known_def)
    then have "closed_walk adj (drop (index_of nxt stack) stack @ [nxt])"
      using back_edge_walk grey(2) hyps(1) by (simp add: path_ok_def)
    then show ?thesis using grey by (auto simp: search_ok_def)
  next
    case black
    have r: "search_ok adj stack black (known adj rest) (dfs_edges n adj stack black rest)"
      using 5(2) [OF black hyps(1-3) rest] .
    have "known adj (nxt # rest) \<subseteq> insert nxt (known adj rest)" by (auto simp: known_def)
    then show ?thesis using r black by (auto simp: search_ok_def split: search.splits)
  next
    case white
    have e: "(last stack, nxt) \<in> edge adj" using 5(8) white(1) by (auto simp: known_def)
    have r: "search_ok adj stack black {nxt} (dfs n adj stack black nxt)"
      using 5(3) [OF white hyps(1,2) white(2,1) _ white(3)] e by blast
    show ?thesis
    proof (cases "dfs n adj stack black nxt")
      case (Finished black')
      have b: "finished_ok adj stack black'" "set black \<subseteq> set black'" "nxt \<in> set black'"
        using r Finished by (auto simp: search_ok_def)
      have r': "search_ok adj stack black' (known adj rest) (dfs_edges n adj stack black' rest)"
        using 5(4) [OF white Finished hyps(1) b(1) hyps(3) rest] .
      have "known adj (nxt # rest) \<subseteq> insert nxt (known adj rest)" by (auto simp: known_def)
      then show ?thesis using r' b white Finished by (auto simp: search_ok_def split: search.splits)
    qed (use r white in \<open>auto simp: search_ok_def\<close>)
  qed
qed (auto simp: search_ok_def known_def)

section \<open>The fuel suffices\<close>

definition white :: "(string \<times> string list) list \<Rightarrow> string list \<Rightarrow> string list \<Rightarrow> string set" where
  "white adj stack black = dom (map_of adj) - set stack - set black"

definition work :: "(string \<times> string list) list \<Rightarrow> string set \<Rightarrow> nat" where
  "work adj W = (\<Sum>w \<in> W. 2 + length (the (map_of adj w)))"

lemma finite_white [simp]: "finite (white adj stack black)"
  by (simp add: white_def finite_dom_map_of)

lemma work_mono: "W \<subseteq> V \<Longrightarrow> finite V \<Longrightarrow> work adj W \<le> work adj V"
  unfolding work_def by (rule sum_mono2) auto

lemma dfs_black:
  "dfs n adj stack black name = Finished black' \<Longrightarrow> set black \<subseteq> set black'"
  "dfs_edges n adj stack black edges = Finished black' \<Longrightarrow> set black \<subseteq> set black'"
  by (induction n adj stack black name and n adj stack black edges
      arbitrary: black' and black' rule: dfs_dfs_edges.induct)
    (fastforce split: search.splits if_splits)+

lemma search_fuel_enough:
  "name \<in> white adj stack black \<Longrightarrow> work adj (white adj stack black) \<le> n \<Longrightarrow>
     dfs n adj stack black name \<noteq> OutOfFuel"
  "length edges + 1 + work adj (white adj stack black) \<le> n \<Longrightarrow>
     dfs_edges n adj stack black edges \<noteq> OutOfFuel"
proof (induction n adj stack black name and n adj stack black edges rule: dfs_dfs_edges.induct)
  case (1 adj stack black name)
  have "work adj {name} \<le> work adj (white adj stack black)" using 1(1) by (intro work_mono) auto
  then show ?case using 1(2) by (simp add: work_def)
next
  case (2 n adj stack black name)
  let ?W = "white adj stack black"
  obtain xs where xs: "map_of adj name = Some xs" using 2(2) by (auto simp: white_def)
  have "work adj ?W = 2 + length xs + work adj (?W - {name})"
    unfolding work_def using 2(2) xs by (subst sum.remove [of _ name]) auto
  moreover have "white adj (stack @ [name]) black = ?W - {name}" by (auto simp: white_def)
  ultimately have "dfs_edges n adj (stack @ [name]) black xs \<noteq> OutOfFuel"
    using 2(1) 2(3) xs by simp
  then show ?case using xs by (auto split: search.splits)
next
  case (5 n adj stack black nxt rest)
  have mono: "work adj (white adj stack black') \<le> work adj (white adj stack black)"
    if "set black \<subseteq> set black'" for black'
    using that by (intro work_mono finite_white) (auto simp: white_def)
  show ?case
  proof (cases "map_of adj nxt = None \<or> nxt \<in> set stack \<or> nxt \<in> set black")
    case True
    then show ?thesis using 5 by auto
  next
    case False
    then have w: "nxt \<in> white adj stack black" by (auto simp: white_def)
    have d: "dfs n adj stack black nxt \<noteq> OutOfFuel" using 5(3) [OF _ _ _ w] False 5(5) by simp
    show ?thesis
    proof (cases "dfs n adj stack black nxt")
      case (Finished black')
      then have "dfs_edges n adj stack black' rest \<noteq> OutOfFuel"
        using 5(4) [OF _ _ _ Finished] False 5(5) mono [OF dfs_black(1) [OF Finished]] by simp
      then show ?thesis using False Finished by auto
    qed (use d False in auto)
  qed
qed auto

lemma work_dom: "distinct (map fst adj) \<Longrightarrow> work adj (dom (map_of adj)) \<le> search_fuel adj"
proof -
  assume d: "distinct (map fst adj)"
  have "work adj (dom (map_of adj)) = (\<Sum>w \<in> set (map fst adj). 2 + length (the (map_of adj w)))"
    by (simp add: work_def dom_map_of_conv_image_fst)
  also have "\<dots> = sum_list (map (\<lambda>w. 2 + length (the (map_of adj w))) (map fst adj))"
    using d by (rule sum_list_distinct_conv_sum_set [symmetric])
  also have "map (\<lambda>w. 2 + length (the (map_of adj w))) (map fst adj) = map (\<lambda>e. 2 + length (snd e)) adj"
    using d by (auto simp: map_of_is_SomeI)
  also have "sum_list \<dots> = 2 * length adj + sum_list (map (length \<circ> snd) adj)"
    by (induction adj) auto
  finally show ?thesis by (simp add: search_fuel_def)
qed

lemma search_terminates:
  assumes "distinct (map fst adj)" "set xs \<subseteq> dom (map_of adj)" "search_fuel adj \<le> n"
  shows "search_all n adj black xs \<noteq> OutOfFuel"
  using assms(2)
proof (induction xs arbitrary: black)
  case (Cons x xs)
  have "dfs n adj [] black x \<noteq> OutOfFuel" if "x \<notin> set black"
  proof (rule search_fuel_enough(1))
    show "x \<in> white adj [] black" using that Cons.prems by (auto simp: white_def)
    have "work adj (white adj [] black) \<le> work adj (dom (map_of adj))"
      by (intro work_mono) (auto simp: white_def finite_dom_map_of)
    then show "work adj (white adj [] black) \<le> n" using work_dom [OF assms(1)] assms(3) by linarith
  qed
  then show ?case using Cons by (auto split: search.splits)
qed simp

lemma search_all_sound:
  "finished_ok adj [] black \<Longrightarrow> set xs \<subseteq> dom (map_of adj) \<Longrightarrow>
     search_ok adj [] black (set xs) (search_all n adj black xs)"
proof (induction xs arbitrary: black)
  case (Cons x xs)
  show ?case
  proof (cases "x \<in> set black")
    case True
    then show ?thesis using Cons.IH [OF Cons.prems(1)] Cons.prems(2) by (auto simp: search_ok_def split: search.splits)
  next
    case False
    have r: "search_ok adj [] black {x} (dfs n adj [] black x)"
      using Cons.prems False by (intro search_sound(1)) (auto simp: path_ok_def)
    show ?thesis
    proof (cases "dfs n adj [] black x")
      case (Finished black')
      then have b: "finished_ok adj [] black'" "set black \<subseteq> set black'" "x \<in> set black'"
        using r by (auto simp: search_ok_def)
      show ?thesis
        using Cons.IH [OF b(1)] Cons.prems(2) b False Finished by (auto simp: search_ok_def split: search.splits)
    qed (use r False in \<open>simp_all add: search_ok_def\<close>)
  qed
qed (simp add: search_ok_def)

lemma build_adj_Inr:
  "build_adj ms adj = Inr adj' \<Longrightarrow> distinct (map fst adj) \<Longrightarrow>
     adj' = adj @ map (\<lambda>m. (m_name m, upstreams m)) ms \<and> distinct (map fst adj')"
proof (induction ms arbitrary: adj)
  case (Cons m ms)
  then have "m_name m \<notin> set (map fst adj)"
    "build_adj ms (adj @ [(m_name m, upstreams m)]) = Inr adj'"
    by (auto simp: map_of_eq_None_iff split: if_splits)
  then have "adj' = (adj @ [(m_name m, upstreams m)]) @ map (\<lambda>m. (m_name m, upstreams m)) ms \<and>
      distinct (map fst adj')"
    using Cons.prems(2) by (intro Cons.IH) auto
  then show ?case by (elim conjE) (intro conjI, simp_all)
qed simp

lemma build_adj_Inl: "build_adj ms adj = Inl e \<Longrightarrow> \<exists>n. e = DuplicateMember n"
  by (induction ms arbitrary: adj) (auto split: if_splits)

lemma build_adj_distinct:
  "distinct (map fst adj @ map m_name ms) \<Longrightarrow>
     build_adj ms adj = Inr (adj @ map (\<lambda>m. (m_name m, upstreams m)) ms)"
  by (induction ms arbitrary: adj) (auto simp: map_of_eq_None_iff)

definition adjacency :: "JobDagMemberInput list \<Rightarrow> (string \<times> string list) list" where
  "adjacency ms = map (\<lambda>m. (m_name m, upstreams m)) ms"

lemma adjacency_keys: "map fst (adjacency ms) = map m_name ms"
  by (simp add: adjacency_def comp_def)

lemma dom_adjacency: "dom (map_of (adjacency ms)) = m_name ` set ms"
  by (simp add: dom_map_of_conv_image_fst adjacency_def image_image)

lemma map_of_adjacency:
  "distinct (map m_name ms) \<Longrightarrow> m \<in> set ms \<Longrightarrow> map_of (adjacency ms) (m_name m) = Some (upstreams m)"
  by (rule map_of_is_SomeI) (auto simp: adjacency_def comp_def)

lemma trancl_edge_dom: "(x, y) \<in> (edge adj)\<^sup>+ \<Longrightarrow> x \<in> dom (map_of adj)"
  by (induction rule: trancl_induct) (auto simp: edge_def)

lemma successively_trancl:
  "successively (\<lambda>a b. (a, b) \<in> r) xs \<Longrightarrow> 2 \<le> length xs \<Longrightarrow> (hd xs, last xs) \<in> r\<^sup>+"
proof (induction xs rule: induct_list012)
  case (3 x y zs)
  then show ?case by (cases zs) (auto intro: trancl_into_trancl2)
qed auto

lemma findCycle_spec:
  "(\<not> distinct (map m_name ms) \<longrightarrow> (\<exists>n. findCycle ms = Inl (DuplicateMember n))) \<and>
   (distinct (map m_name ms) \<longrightarrow>
      (\<exists>r. findCycle ms = Inr r \<and> (\<forall>c. r = Some c \<longrightarrow> closed_walk (adjacency ms) c) \<and>
         (r = None \<longleftrightarrow> acyclic (edge (adjacency ms)))))"
proof (intro conjI impI)
  assume nd: "\<not> distinct (map m_name ms)"
  show "\<exists>n. findCycle ms = Inl (DuplicateMember n)"
  proof (cases "build_adj ms []")
    case (Inl e)
    then show ?thesis using build_adj_Inl [OF Inl] by (auto simp: findCycle_def)
  next
    case (Inr adj)
    then have "distinct (map m_name ms)"
      using build_adj_Inr [OF Inr] by (auto simp: comp_def)
    then show ?thesis using nd by blast
  qed
next
  assume d: "distinct (map m_name ms)"
  let ?adj = "adjacency ms"
  have adj: "build_adj ms [] = Inr ?adj" using build_adj_distinct [of "[]" ms] d by (simp add: adjacency_def)
  let ?s = "search_all (search_fuel ?adj) ?adj [] (map m_name ms)"
  have ok: "search_ok ?adj [] [] (set (map m_name ms)) ?s"
    by (intro search_all_sound) (auto simp: finished_ok_def dom_adjacency)
  have fuel: "?s \<noteq> OutOfFuel"
    using d by (intro search_terminates) (auto simp: adjacency_keys dom_adjacency)
  show "\<exists>r. findCycle ms = Inr r \<and> (\<forall>c. r = Some c \<longrightarrow> closed_walk ?adj c) \<and>
         (r = None \<longleftrightarrow> acyclic (edge ?adj))"
  proof (cases ?s)
    case (Cycle c)
    then have c: "closed_walk ?adj c" using ok by (simp add: search_ok_def)
    then have "(hd c, hd c) \<in> (edge ?adj)\<^sup>+"
      using successively_trancl by (fastforce simp: closed_walk_def)
    then show ?thesis using Cycle adj c by (auto simp: findCycle_def acyclic_def)
  next
    case (Finished black)
    then have "\<forall>x \<in> m_name ` set ms. (x, x) \<notin> (edge ?adj)\<^sup>+"
      using ok by (auto simp: search_ok_def finished_ok_def)
    then have "acyclic (edge ?adj)"
      unfolding acyclic_def using trancl_edge_dom dom_adjacency by metis
    then show ?thesis using Finished adj by (simp add: findCycle_def)
  qed (use fuel in simp)
qed

text \<open>
  C18. The cycle search is exact: on members with distinct names it always returns, the list it
  returns is a genuine closed walk along the declared dependencies, and it returns \<open>null\<close>
  exactly when the dependency graph has no cycle.
\<close>

theorem findCycle_exact:
  assumes "distinct (map m_name ms)"
  shows "\<exists>r. findCycle ms = Inr r \<and> (\<forall>c. r = Some c \<longrightarrow> closed_walk (adjacency ms) c) \<and>
    (r = None \<longleftrightarrow> acyclic (edge (adjacency ms)))"
  using findCycle_spec [of ms] assms by blast

definition demo_members :: "JobDagMemberInput list" where
  "demo_members = [\<lparr>m_name = ''brief'', m_owner = ''shell'', m_dependsOn = [JobName ''digest'']\<rparr>,
     \<lparr>m_name = ''digest'', m_owner = ''agency'', m_dependsOn = [JobDependency ''brief'' (Some True)]\<rparr>]"

theorem findCycle_exact_witness:
  "\<exists>c. findCycle demo_members = Inr (Some c) \<and> closed_walk (adjacency demo_members) c"
proof -
  have "findCycle demo_members = Inr (Some [''brief'', ''digest'', ''brief''])" by code_simp
  then show ?thesis using findCycle_exact [of demo_members] by (auto simp: demo_members_def)
qed

section \<open>Validation and construction\<close>

lemma check_names_iff:
  "distinct seen \<Longrightarrow> check_names ms seen = Inr seen' \<longleftrightarrow>
     distinct (seen @ map m_name ms) \<and> seen' = seen @ map m_name ms"
  by (induction ms arbitrary: seen) auto

lemma check_edges_iff:
  "check_edges allJobs names m seen decls = Inr () \<longleftrightarrow>
     (let us = map (d_job \<circ> normalizeJobDependency) decls
      in distinct us \<and> (\<forall>u \<in> set us. u \<noteq> m_name m \<and> u \<notin> set seen \<and> u \<in> set allJobs \<and> u \<in> set names))"
proof (induction decls arbitrary: seen)
  case (Cons a decls)
  show ?case
    by (simp add: Cons.IH Let_def) (auto simp: image_iff; metis)
qed simp

lemma check_members_iff:
  "check_members allJobs names ms = Inr () \<longleftrightarrow>
     (\<forall>m \<in> set ms. distinct (upstreams m) \<and>
        (\<forall>u \<in> set (upstreams m). u \<noteq> m_name m \<and> u \<in> set allJobs \<and> u \<in> set names))"
proof (induction ms)
  case (Cons m ms)
  then show ?case
    using check_edges_iff [of allJobs names m "[]" "m_dependsOn m"]
    by (auto simp: bind_result_Inr_iff upstreams_def Let_def)
qed simp

lemma findCycle_None:
  "distinct (map m_name ms) \<Longrightarrow> findCycle ms = Inr None \<longleftrightarrow> acyclic (edge (adjacency ms))"
  using findCycle_spec [of ms] by auto

lemma validateJobDag_accepts:
  "validateJobDag ms allJobs = Inr () \<longleftrightarrow>
     distinct (map m_name ms) \<and>
     (\<forall>m \<in> set ms. distinct (upstreams m) \<and>
        (\<forall>u \<in> set (upstreams m). u \<noteq> m_name m \<and> u \<in> set allJobs \<and> u \<in> m_name ` set ms)) \<and>
     acyclic (edge (adjacency ms))"
proof (cases "distinct (map m_name ms)")
  case False
  then have "check_names ms [] \<noteq> Inr seen'" for seen' using check_names_iff [of "[]" ms seen'] by auto
  then show ?thesis using False by (simp add: validateJobDag_def bind_result_Inr_iff)
next
  case True
  then have names: "check_names ms [] = Inr (map m_name ms)" by (simp add: check_names_iff)
  obtain r where r: "findCycle ms = Inr r" using findCycle_spec [of ms] True by blast
  show ?thesis
    using True names r findCycle_None [OF True] check_members_iff [of allJobs "map m_name ms" ms]
    by (cases r) (auto simp: validateJobDag_def bind_result_Inr_iff)
qed

text \<open>
  Validation accepts exactly the well-formed graphs: member names distinct, every
  dependency a different, known job that is itself a member, no dependency listed twice, and no
  cycle.
\<close>

theorem validateJobDag_iff:
  "validateJobDag ms allJobs = Inr () \<longleftrightarrow>
     distinct (map m_name ms) \<and>
     (\<forall>m \<in> set ms. distinct (upstreams m) \<and>
        (\<forall>u \<in> set (upstreams m). u \<noteq> m_name m \<and> u \<in> set allJobs \<and> u \<in> m_name ` set ms)) \<and>
     acyclic (edge (adjacency ms))"
  by (rule validateJobDag_accepts)

definition demo_dag :: "JobDagMemberInput list" where
  "demo_dag = [\<lparr>m_name = ''brief'', m_owner = ''shell'', m_dependsOn = [JobDependency ''digest'' (Some True)]\<rparr>,
     \<lparr>m_name = ''digest'', m_owner = ''agency'', m_dependsOn = []\<rparr>]"

theorem validateJobDag_iff_witness:
  "acyclic (edge (adjacency demo_dag)) \<and> validateJobDag demo_dag [''brief''] \<noteq> Inr ()"
proof -
  have "validateJobDag demo_dag [''brief'', ''digest''] = Inr ()" by code_simp
  then have "acyclic (edge (adjacency demo_dag))" by (simp add: validateJobDag_iff)
  moreover have "validateJobDag demo_dag [''brief''] \<noteq> Inr ()"
    by (simp add: validateJobDag_iff demo_dag_def upstreams_def)
  ultimately show ?thesis by blast
qed

definition node_of :: "JobDagMemberInput \<Rightarrow> JobDagNode" where
  "node_of m = \<lparr>n_name = m_name m, n_owner = m_owner m, n_deps = map normalizeJobDependency (m_dependsOn m)\<rparr>"

lemma build_nodes_distinct:
  "distinct (map fst ns @ map m_name ms) \<Longrightarrow>
     build_nodes ms ns = Inr (ns @ map (\<lambda>m. (m_name m, node_of m)) ms)"
  by (induction ms arbitrary: ns) (auto simp: map_of_eq_None_iff node_of_def)

text \<open>The downstream edges a node's dependencies add under the upstream \<open>u\<close>.\<close>

definition edges_under :: "string \<Rightarrow> JobDagNode \<Rightarrow> dependency list" where
  "edges_under u n = map (\<lambda>d. \<lparr>d_job = n_name n, d_soft = d_soft d\<rparr>) (filter (\<lambda>d. d_job d = u) (n_deps n))"

lemma push_dependents_map:
  "\<forall>d \<in> set deps. map_of dm (d_job d) \<noteq> None \<Longrightarrow>
     \<exists>dm'. push_dependents node deps dm = Inr dm' \<and>
       (\<forall>u. map_of dm' u = map_option (\<lambda>xs. xs @ map (\<lambda>d. \<lparr>d_job = node, d_soft = d_soft d\<rparr>)
          (filter (\<lambda>d. d_job d = u) deps)) (map_of dm u))"
proof (induction deps arbitrary: dm)
  case Nil
  then show ?case by (simp add: option.map_ident)
next
  case (Cons d deps)
  then obtain xs where xs: "map_of dm (d_job d) = Some xs" by auto
  let ?dm = "AList.update (d_job d) (xs @ [\<lparr>d_job = node, d_soft = d_soft d\<rparr>]) dm"
  have "\<forall>d \<in> set deps. map_of ?dm (d_job d) \<noteq> None" using Cons.prems by (simp add: update_conv)
  from Cons.IH [OF this] obtain dm' where dm': "push_dependents node deps ?dm = Inr dm'"
    "\<And>u. map_of dm' u = map_option (\<lambda>xs. xs @ map (\<lambda>d. \<lparr>d_job = node, d_soft = d_soft d\<rparr>)
        (filter (\<lambda>d. d_job d = u) deps)) (map_of ?dm u)"
    by blast
  have "map_of dm' u = map_option (\<lambda>xs. xs @ map (\<lambda>d. \<lparr>d_job = node, d_soft = d_soft d\<rparr>)
        (filter (\<lambda>d. d_job d = u) (d # deps))) (map_of dm u)" for u
    using xs by (cases "u = d_job d") (simp_all add: dm'(2) update_conv)
  then show ?case using xs dm'(1) by simp
qed

lemma build_dependents_map:
  "\<forall>(k, n) \<in> set ns. \<forall>d \<in> set (n_deps n). map_of dm (d_job d) \<noteq> None \<Longrightarrow>
     \<exists>dm'. build_dependents ns dm = Inr dm' \<and>
       (\<forall>u. map_of dm' u = map_option (\<lambda>xs. xs @ concat (map (\<lambda>(k, n). edges_under u n) ns)) (map_of dm u))"
proof (induction ns arbitrary: dm)
  case Nil
  then show ?case by (simp add: option.map_ident)
next
  case (Cons e ns)
  obtain k n where e: "e = (k, n)" by force
  obtain dm1 where dm1: "push_dependents (n_name n) (n_deps n) dm = Inr dm1"
    "\<And>u. map_of dm1 u = map_option (\<lambda>xs. xs @ edges_under u n) (map_of dm u)"
    using push_dependents_map [of "n_deps n" dm "n_name n"] Cons.prems e by (auto simp: edges_under_def)
  have "\<forall>(k, n) \<in> set ns. \<forall>d \<in> set (n_deps n). map_of dm1 (d_job d) \<noteq> None"
    using Cons.prems by (auto simp: dm1(2))
  then obtain dm' where "build_dependents ns dm1 = Inr dm'"
    "\<And>u. map_of dm' u = map_option (\<lambda>xs. xs @ concat (map (\<lambda>(k, n). edges_under u n) ns)) (map_of dm1 u)"
    using Cons.IH by blast
  then show ?case using dm1 e by (simp add: option.map_comp comp_def)
qed

text \<open>The jobs a run can reach: the roots, and the dependents of reached jobs.\<close>

inductive scheduled :: "JobDag \<Rightarrow> string \<Rightarrow> bool" for dag where
  root: "r \<in> set (roots dag) \<Longrightarrow> scheduled dag r"
| dependent: "scheduled dag u \<Longrightarrow> map_of (dependents dag) u = Some ds \<Longrightarrow> d \<in> set ds \<Longrightarrow>
    scheduled dag (d_job d)"

lemma finite_edge: "finite (edge adj)"
proof (rule finite_subset)
  show "edge adj \<subseteq> (\<Union>e \<in> set adj. (\<lambda>b. (fst e, b)) ` set (snd e))"
    by (force simp: edge_def dest: map_of_SomeD)
qed simp

lemma built_dag:
  assumes "distinct (map m_name ms)"
    and deps: "\<And>m u. m \<in> set ms \<Longrightarrow> u \<in> set (upstreams m) \<Longrightarrow> u \<in> m_name ` set ms"
  obtains dag where "buildJobDag ms = Inr dag" "nodes dag = map (\<lambda>m. (m_name m, node_of m)) ms"
    "\<forall>u \<in> set ms. map_of (dependents dag) (m_name u) =
       Some (concat (map (\<lambda>m. edges_under (m_name u) (node_of m)) ms))"
    "roots dag = map m_name (filter (\<lambda>m. m_dependsOn m = []) ms)"
proof -
  let ?ns = "map (\<lambda>m. (m_name m, node_of m)) ms"
  let ?dm = "map (\<lambda>(k, n). (k, [])) ?ns :: (string \<times> dependency list) list"
  have ns: "build_nodes ms [] = Inr ?ns" using build_nodes_distinct [of "[]" ms] assms(1) by simp
  have dm: "map_of ?dm u = (if u \<in> m_name ` set ms then Some [] else None)" for u
    by (induction ms) auto
  have "\<forall>(k, n) \<in> set ?ns. \<forall>d \<in> set (n_deps n). map_of ?dm (d_job d) \<noteq> None"
    using deps unfolding dm by (fastforce simp: node_of_def upstreams_def)
  from build_dependents_map [OF this] obtain dm' where dm': "build_dependents ?ns ?dm = Inr dm'"
    "\<And>u. map_of dm' u = map_option (\<lambda>xs. xs @ concat (map (\<lambda>(k, n). edges_under u n) ?ns)) (map_of ?dm u)"
    by blast
  show ?thesis
  proof (rule that)
    show "buildJobDag ms = Inr \<lparr>nodes = ?ns,
        roots = map (n_name \<circ> snd) (filter (\<lambda>(k, n). n_deps n = []) ?ns), dependents = dm'\<rparr>"
      using ns dm'(1) by (simp add: buildJobDag_def)
  next
    show "\<forall>u \<in> set ms. map_of (dependents \<lparr>nodes = ?ns,
        roots = map (n_name \<circ> snd) (filter (\<lambda>(k, n). n_deps n = []) ?ns), dependents = dm'\<rparr>) (m_name u) =
        Some (concat (map (\<lambda>m. edges_under (m_name u) (node_of m)) ms))"
      unfolding JobDag.select_convs dm'(2) dm by (simp add: comp_def)
  qed (simp_all add: filter_map comp_def node_of_def)
qed

lemma everything_scheduled:
  assumes d: "distinct (map m_name ms)"
    and deps: "\<And>m u. m \<in> set ms \<Longrightarrow> u \<in> set (upstreams m) \<Longrightarrow> u \<in> m_name ` set ms"
    and acyc: "acyclic (edge (adjacency ms))"
    and under: "\<forall>u \<in> set ms. map_of (dependents dag) (m_name u) =
       Some (concat (map (\<lambda>m. edges_under (m_name u) (node_of m)) ms))"
    and roots: "roots dag = map m_name (filter (\<lambda>m. m_dependsOn m = []) ms)"
  shows "m \<in> set ms \<Longrightarrow> scheduled dag (m_name m)"
  using finite_acyclic_wf_converse [OF finite_edge acyc]
proof (induction "m_name m" arbitrary: m rule: wf_induct_rule)
  case less
  show ?case
  proof (cases "m_dependsOn m")
    case Nil
    then have "m_name m \<in> set (roots dag)" unfolding roots using less.prems by auto
    then show ?thesis by (rule scheduled.root)
  next
    case (Cons decl decls)
    let ?u = "d_job (normalizeJobDependency decl)"
    let ?e = "\<lparr>d_job = m_name m, d_soft = d_soft (normalizeJobDependency decl)\<rparr>"
    have u: "?u \<in> set (upstreams m)" using Cons by (simp add: upstreams_def)
    then have "?u \<in> m_name ` set ms" by (rule deps [OF less.prems])
    then obtain v where v: "v \<in> set ms" "m_name v = ?u" by (metis imageE)
    have "(m_name m, m_name v) \<in> edge (adjacency ms)"
      using map_of_adjacency [OF d less.prems] map_of_adjacency [OF d v(1)] u v(2) by (simp add: edge_def)
    then have "scheduled dag (m_name v)" using less.hyps [OF converseI] v(1) by blast
    moreover have "?e \<in> set (concat (map (\<lambda>m. edges_under (m_name v) (node_of m)) ms))"
      using less.prems v Cons by (auto simp: edges_under_def node_of_def intro!: bexI [of _ m])
    ultimately have "scheduled dag (d_job ?e)" using under v(1) by (blast intro: scheduled.dependent)
    then show ?thesis by simp
  qed
qed

text \<open>
  A validated graph is built completely: the construction succeeds, keeps the members in
  order with their normalised dependencies, lists under every job exactly the members that
  depend on it (once per declaration, with its softness), names as roots exactly the members
  without dependencies, and from the roots every member is reached along the dependents.
\<close>

theorem validated_dag_is_built:
  assumes "validateJobDag ms allJobs = Inr ()"
  shows "\<exists>dag. buildJobDag ms = Inr dag \<and> nodes dag = map (\<lambda>m. (m_name m, node_of m)) ms \<and>
    (\<forall>u \<in> set ms. map_of (dependents dag) (m_name u) =
       Some (concat (map (\<lambda>m. edges_under (m_name u) (node_of m)) ms))) \<and>
    roots dag = map m_name (filter (\<lambda>m. m_dependsOn m = []) ms) \<and>
    (\<forall>m \<in> set ms. scheduled dag (m_name m))"
proof -
  have wf: "distinct (map m_name ms)"
    "\<And>m u. m \<in> set ms \<Longrightarrow> u \<in> set (upstreams m) \<Longrightarrow> u \<in> m_name ` set ms"
    "acyclic (edge (adjacency ms))"
    using assms unfolding validateJobDag_accepts by blast+
  obtain dag where dag: "buildJobDag ms = Inr dag" "nodes dag = map (\<lambda>m. (m_name m, node_of m)) ms"
    "\<forall>u \<in> set ms. map_of (dependents dag) (m_name u) =
       Some (concat (map (\<lambda>m. edges_under (m_name u) (node_of m)) ms))"
    "roots dag = map m_name (filter (\<lambda>m. m_dependsOn m = []) ms)"
    by (rule built_dag [OF wf(1,2)])
  then show ?thesis using everything_scheduled [OF wf dag(3,4)] by (intro exI [of _ dag]) auto
qed

theorem validated_dag_is_built_witness:
  "\<exists>dag. buildJobDag demo_dag = Inr dag \<and> scheduled dag ''brief''"
proof -
  have "validateJobDag demo_dag [''brief'', ''digest''] = Inr ()" by code_simp
  from validated_dag_is_built [OF this] show ?thesis by (auto simp: demo_dag_def)
qed

end
