(* ===== verification/Orchestrator.thy ===== *)
theory Orchestrator
  imports OrchestrationStore JobDag Corrections
begin

text \<open>
  The nightly orchestrator: \<open>src/src/server/orchestration/orchestrator.ts\<close>, its constants and
  the yield reports it reads (\<open>src/src/server/boss/job-yield.ts\<close>).

  The queue is pg-boss, a third-party library: its three calls are the fields of \<open>boss_api\<close>
  over an abstract state. Random ids, the local calendar and the members' eligibility functions
  are further fields of the environment. A thrown error is \<open>Inl\<close> and keeps the effects made
  before it. Database statements do not fail here, apart from foreign keys. Log lines are left
  out. \<open>w_sends\<close> records every call of \<open>boss.send\<close>.
\<close>

section \<open>Constants\<close>

definition ORCHESTRATOR_QUEUE :: string where
  "ORCHESTRATOR_QUEUE = ''nightly_orchestrator''"

definition ORCHESTRATOR_ANCHOR_HOUR :: int where "ORCHESTRATOR_ANCHOR_HOUR = 2"
definition ORCHESTRATOR_ANCHOR_MINUTE :: int where "ORCHESTRATOR_ANCHOR_MINUTE = 30"
definition ORCHESTRATOR_CATCHUP_WINDOW_SECONDS :: int where
  "ORCHESTRATOR_CATCHUP_WINDOW_SECONDS = 5 * 60 * 60"
definition TICK_INTERVAL_SECONDS :: nat where "TICK_INTERVAL_SECONDS = 60"
definition NODE_TIMEOUT_SECONDS :: int where "NODE_TIMEOUT_SECONDS = 7 * 60 * 60"
definition LAYER_STAGGER_SECONDS :: nat where "LAYER_STAGGER_SECONDS = 120"
definition LAYER_STAGGER_MAX_SECONDS :: nat where "LAYER_STAGGER_MAX_SECONDS = 15 * 60"
definition MINUTES_PER_DAY :: int where "MINUTES_PER_DAY = 24 * 60"

section \<open>Yield reports\<close>

datatype JobYieldLevel = LIdle | LOk | LDegraded | LStalled

record JobYieldReport =
  y_job :: string
  y_level :: JobYieldLevel
  y_detail :: "string option"
  y_attempted :: nat
  y_succeeded :: nat
  y_failed :: nat

text \<open>
  Counts are doubles. \<open>count_of_text\<close> reads the \<open>Number::toString\<close> text of a non-negative
  integer, \<open>double_nat\<close> rounds to 53 significant bits, half to even.
\<close>

fun bit_size :: "nat \<Rightarrow> nat" where
  "bit_size n = (if n = 0 then 0 else Suc (bit_size (n div 2)))"

declare bit_size.simps [simp del]

definition double_nat :: "nat \<Rightarrow> nat" where
  "double_nat n =
     (let k = bit_size n - 53; q = n div 2 ^ k; r = n mod 2 ^ k
      in if k = 0 then n
         else if 2 * r > 2 ^ k \<or> (2 * r = 2 ^ k \<and> odd q) then (q + 1) * 2 ^ k else q * 2 ^ k)"

definition count_of_text :: "string \<Rightarrow> nat option" where
  "count_of_text t =
     (let m = takeWhile (\<lambda>c. c \<noteq> CHR ''e'') t; e = dropWhile (\<lambda>c. c \<noteq> CHR ''e'') t;
          i = takeWhile (\<lambda>c. c \<noteq> CHR ''.'') m; f = drop 1 (dropWhile (\<lambda>c. c \<noteq> CHR ''.'') m)
      in if i = [] then None
         else if e = [] then (if f = [] then map_option double_nat (digits_value 0 i) else None)
         else if take 2 e = ''e+'' then
           (case (digits_value 0 (i @ f), digits_value 0 (drop 2 e)) of
              (Some v, Some x) \<Rightarrow>
                (if length f \<le> x then Some (double_nat (v * 10 ^ (x - length f))) else None)
            | _ \<Rightarrow> None)
         else None)"

definition isCount :: "jsval \<Rightarrow> nat option" where
  "isCount v = (case v of JNum t \<Rightarrow> count_of_text t | JNegZero \<Rightarrow> Some 0 | _ \<Rightarrow> None)"

definition yield_level :: "jsval \<Rightarrow> JobYieldLevel option" where
  "yield_level v = (case v of
       JStr s \<Rightarrow>
         (if s = ''idle'' then Some LIdle else if s = ''ok'' then Some LOk
          else if s = ''degraded'' then Some LDegraded else if s = ''stalled'' then Some LStalled
          else None)
     | _ \<Rightarrow> None)"

definition readJobYieldReport :: "jsval \<Rightarrow> JobYieldReport option" where
  "readJobYieldReport output =
     (let r = js_field ''job_yield'' output in
      case (js_field ''job'' r, yield_level (js_field ''level'' r), isCount (js_field ''attempted'' r),
            isCount (js_field ''succeeded'' r), isCount (js_field ''failed'' r)) of
        (JStr job, Some level, Some a, Some s, Some f) \<Rightarrow>
          (if a \<noteq> double_nat (s + f) then None
           else Some \<lparr>y_job = job, y_level = level,
                      y_detail = (case js_field ''detail'' r of JStr d \<Rightarrow> Some d | _ \<Rightarrow> None),
                      y_attempted = a, y_succeeded = s, y_failed = f\<rparr>)
      | _ \<Rightarrow> None)"

section \<open>The queue and the environment\<close>

datatype send_payload = EmptyPayload | TickPayload string

record 'b boss_api =
  b_send :: "string \<Rightarrow> send_payload \<Rightarrow> nat option \<Rightarrow> string option \<Rightarrow> 'b \<Rightarrow> (string + string option) \<times> 'b"
  b_getJobById :: "string \<Rightarrow> string \<Rightarrow> 'b \<Rightarrow> string + (string \<times> jsval) option"
  b_cancel :: "string \<Rightarrow> string \<Rightarrow> 'b \<Rightarrow> (string + unit) \<times> 'b"

datatype eligibility = EligRun | EligSkip string | EligThrows string

record 'b orch_env =
  env_boss :: "'b boss_api"
  env_newId :: "nat \<Rightarrow> string"
  env_uuid :: "nat \<Rightarrow> string"
  env_dag :: JobDag
  env_eligibility :: "string \<Rightarrow> eligibility option"
  env_timeoutSeconds :: "int option"
  env_localDate :: "int \<Rightarrow> string"
  env_localMinuteOfDay :: "int \<Rightarrow> int option"

record boss_send =
  s_name :: string
  s_payload :: send_payload
  s_startAfter :: "nat option"
  s_id :: "string option"

record 'b world =
  w_db :: orch_db
  w_boss :: 'b
  w_uuids :: nat
  w_sends :: "boss_send list"

text \<open>Actions: state passing with thrown errors.\<close>

type_synonym ('w, 'a) act = "'w \<Rightarrow> (orch_error + 'a) \<times> 'w"

definition ret :: "'a \<Rightarrow> ('w, 'a) act" where "ret a w = (Inr a, w)"

definition throw :: "orch_error \<Rightarrow> ('w, 'a) act" where "throw e w = (Inl e, w)"

definition bind_act :: "('w, 'a) act \<Rightarrow> ('a \<Rightarrow> ('w, 'b) act) \<Rightarrow> ('w, 'b) act" where
  "bind_act m f w = (case m w of (Inl e, w') \<Rightarrow> (Inl e, w') | (Inr a, w') \<Rightarrow> f a w')"

definition catch_act :: "('w, 'a) act \<Rightarrow> (orch_error \<Rightarrow> ('w, 'a) act) \<Rightarrow> ('w, 'a) act" where
  "catch_act m h w = (case m w of (Inl e, w') \<Rightarrow> h e w' | (Inr a, w') \<Rightarrow> (Inr a, w'))"

fun for_each :: "('a \<Rightarrow> ('w, unit) act) \<Rightarrow> 'a list \<Rightarrow> ('w, unit) act" where
  "for_each f [] = ret ()"
| "for_each f (x # xs) = bind_act (f x) (\<lambda>_. for_each f xs)"

definition boss_send_call ::
  "'b orch_env \<Rightarrow> string \<Rightarrow> send_payload \<Rightarrow> nat option \<Rightarrow> string option \<Rightarrow> ('b world, string option) act"
where
  "boss_send_call env name payload startAfter i w =
     (let (r, b) = b_send (env_boss env) name payload startAfter i (w_boss w) in
      (case r of Inl e \<Rightarrow> Inl (BossError e) | Inr x \<Rightarrow> Inr x,
       w\<lparr>w_boss := b,
         w_sends := w_sends w @ [\<lparr>s_name = name, s_payload = payload, s_startAfter = startAfter, s_id = i\<rparr>]\<rparr>))"

definition boss_get_call :: "'b orch_env \<Rightarrow> string \<Rightarrow> string \<Rightarrow> ('b world, (string \<times> jsval) option) act" where
  "boss_get_call env name i w =
     (case b_getJobById (env_boss env) name i (w_boss w) of
        Inl e \<Rightarrow> (Inl (BossError e), w) | Inr x \<Rightarrow> (Inr x, w))"

text \<open>\<open>cancelBossJob\<close>: a failed cancel is logged, never thrown.\<close>

definition cancelBossJob :: "'b orch_env \<Rightarrow> string \<Rightarrow> string \<Rightarrow> ('b world, bool) act" where
  "cancelBossJob env name i w =
     (let (r, b) = b_cancel (env_boss env) name i (w_boss w) in
      (Inr (case r of Inl _ \<Rightarrow> False | Inr _ \<Rightarrow> True), w\<lparr>w_boss := b\<rparr>))"

definition run_db :: "(orch_db \<Rightarrow> 'a \<times> orch_db) \<Rightarrow> ('b world, 'a) act" where
  "run_db f w = (let (a, db) = f (w_db w) in (Inr a, w\<lparr>w_db := db\<rparr>))"

definition try_db :: "(orch_db \<Rightarrow> orch_error + 'a \<times> orch_db) \<Rightarrow> ('b world, 'a) act" where
  "try_db f w = (case f (w_db w) of Inl e \<Rightarrow> (Inl e, w) | Inr (a, db) \<Rightarrow> (Inr a, w\<lparr>w_db := db\<rparr>))"

definition randomUUID :: "'b orch_env \<Rightarrow> ('b world, string) act" where
  "randomUUID env w = (Inr (env_uuid env (w_uuids w)), w\<lparr>w_uuids := w_uuids w + 1\<rparr>)"

definition quoted :: "string \<Rightarrow> string" where
  "quoted s = CHR 0x27 # s @ [CHR 0x27]"

definition status_text :: "NodeStatus \<Rightarrow> string" where
  "status_text s = (case s of
       NPending \<Rightarrow> ''pending'' | NEnqueued \<Rightarrow> ''enqueued'' | NRunning \<Rightarrow> ''running''
     | NSucceeded \<Rightarrow> ''succeeded'' | NFailed \<Rightarrow> ''failed'' | NSkipped \<Rightarrow> ''skipped''
     | NNotNeeded \<Rightarrow> ''not_needed'' | NDegraded \<Rightarrow> ''degraded'')"

text \<open>A truthy string: neither \<open>null\<close> nor empty.\<close>

definition truthy :: "string option \<Rightarrow> bool" where
  "truthy s \<longleftrightarrow> (case s of None \<Rightarrow> False | Some t \<Rightarrow> t \<noteq> [])"

section \<open>Polling\<close>

definition mapBossState :: "string option \<Rightarrow> NodeStatus option" where
  "mapBossState st = (case st of
       None \<Rightarrow> None
     | Some s \<Rightarrow>
         (if s = ''completed'' then Some NSucceeded
          else if s \<in> {''failed'', ''cancelled'', ''expired''} then Some NFailed
          else if s = ''active'' then Some NRunning
          else if s \<in> {''created'', ''retry''} then Some NEnqueued
          else None))"

text \<open>\<open>settleNode\<close> returns the caller's row object, whose status it sets when the CAS won.\<close>

definition settleNode ::
  "NodeRow \<Rightarrow> NodeStatus \<Rightarrow> string option option \<Rightarrow> int \<Rightarrow> ('b world, NodeRow) act" where
  "settleNode node status detail now =
     bind_act (run_db (updateNodeStatus (node_id node) status detail now)) (\<lambda>applied.
     ret (if applied then node\<lparr>node_status := status\<rparr> else node))"

definition isNodeTimedOut :: "NodeRow \<Rightarrow> int \<Rightarrow> int \<Rightarrow> bool" where
  "isNodeTimedOut node now timeoutMs =
     (case node_enqueued_at node of None \<Rightarrow> False | Some t \<Rightarrow> now - t > timeoutMs)"

text \<open>The branch of a job that is missing or still queued.\<close>

definition poll_unresolved :: "'b orch_env \<Rightarrow> int \<Rightarrow> int \<Rightarrow> NodeRow \<Rightarrow> NodeStatus option \<Rightarrow> ('b world, unit) act" where
  "poll_unresolved env now timeoutMs node jobState =
     (if jobState = None \<and> truthy (node_boss_job_id node) \<and> \<not> isNodeTimedOut node now timeoutMs then
        bind_act (boss_send_call env (node_job_name node) EmptyPayload None (node_boss_job_id node))
          (\<lambda>_. ret ())
      else if isNodeTimedOut node now timeoutMs then
        bind_act (if jobState \<noteq> None \<and> truthy (node_boss_job_id node)
                  then bind_act (cancelBossJob env (node_job_name node) (the (node_boss_job_id node)))
                         (\<lambda>_. ret ())
                  else ret ()) (\<lambda>_.
        bind_act (settleNode node NFailed
            (Some (Some (if jobState = None then ''pg-boss job not found (timeout)'' else ''timeout''))) now)
          (\<lambda>_. ret ()))
      else ret ())"

text \<open>What a poll does with the job it found.\<close>

definition poll_job ::
  "'b orch_env \<Rightarrow> int \<Rightarrow> int \<Rightarrow> NodeRow \<Rightarrow> (string \<times> jsval) option \<Rightarrow> ('b world, unit) act" where
  "poll_job env now timeoutMs node job =
     (let jobState = mapBossState (map_option fst job) in
      if jobState = Some NSucceeded then
        let report = Option.bind job (readJobYieldReport \<circ> snd) in
        bind_act (settleNode node
            (if map_option y_level report = Some LStalled then NDegraded else NSucceeded)
            (map_option Some (Option.bind report y_detail)) now) (\<lambda>_. ret ())
      else if jobState = Some NFailed then
        bind_act (settleNode node NFailed (Some (Some ''pg-boss job failed'')) now) (\<lambda>_. ret ())
      else if jobState = Some NRunning \<and> node_status node \<noteq> NRunning then
        bind_act (run_db (updateNodeStatus (node_id node) NRunning None now)) (\<lambda>_. ret ())
      else if jobState = None \<or> jobState = Some NEnqueued then
        poll_unresolved env now timeoutMs node jobState
      else ret ())"

definition pollInflightNode :: "'b orch_env \<Rightarrow> int \<Rightarrow> int \<Rightarrow> NodeRow \<Rightarrow> ('b world, unit) act" where
  "pollInflightNode env now timeoutMs node =
     (if node_status node \<noteq> NEnqueued \<and> node_status node \<noteq> NRunning then ret ()
      else
        bind_act (if truthy (node_boss_job_id node)
                  then boss_get_call env (node_job_name node) (the (node_boss_job_id node))
                  else ret None) (poll_job env now timeoutMs node))"

section \<open>Advancing pending nodes\<close>

type_synonym snapshot = "(string \<times> NodeRow) list"

definition put_node :: "string \<Rightarrow> NodeRow \<Rightarrow> snapshot \<Rightarrow> snapshot" where
  "put_node job n ns = map (\<lambda>(k, m). (k, if k = job then n else m)) ns"

record upstream =
  u_soft :: bool
  u_job :: string
  u_row :: "NodeRow option"

definition upstreams_of :: "JobDagNode \<Rightarrow> snapshot \<Rightarrow> upstream list" where
  "upstreams_of dagNode ns =
     map (\<lambda>d. \<lparr>u_soft = d_soft d, u_job = d_job d, u_row = map_of ns (d_job d)\<rparr>) (n_deps dagNode)"

definition missing_hard :: "upstream \<Rightarrow> bool" where
  "missing_hard u \<longleftrightarrow> \<not> u_soft u \<and> u_row u = None"

definition blocked_by :: "upstream \<Rightarrow> bool" where
  "blocked_by u \<longleftrightarrow> \<not> u_soft u \<and>
     (case u_row u of None \<Rightarrow> False | Some up \<Rightarrow> node_status up \<in> {NFailed, NSkipped})"

definition upstream_terminal :: "upstream \<Rightarrow> bool" where
  "upstream_terminal u \<longleftrightarrow>
     (case u_row u of Some up \<Rightarrow> isTerminalNodeStatus (node_status up) | None \<Rightarrow> u_soft u)"

definition upstream_stale :: "upstream \<Rightarrow> bool" where
  "upstream_stale u \<longleftrightarrow> map_option node_status (u_row u) \<noteq> Some NSucceeded"

text \<open>
  A pass works on the database and on its own snapshot of the run's rows, which it updates in
  place; the updates stay when a later call throws.
\<close>

type_synonym 'b pass = "'b world \<times> snapshot"

definition on_world :: "('b world, 'a) act \<Rightarrow> ('b pass, 'a) act" where
  "on_world m ps = (let (r, w) = m (fst ps) in (r, (w, snd ps)))"

definition set_row :: "string \<Rightarrow> NodeRow \<Rightarrow> ('b pass, unit) act" where
  "set_row job n ps = (Inr (), (fst ps, put_node job n (snd ps)))"

definition settle_in :: "string \<Rightarrow> NodeRow \<Rightarrow> NodeStatus \<Rightarrow> string \<Rightarrow> int \<Rightarrow> ('b pass, bool) act" where
  "settle_in job node status detail now =
     bind_act (on_world (settleNode node status (Some (Some detail)) now)) (\<lambda>node'.
     bind_act (set_row job node') (\<lambda>_. ret False))"

definition start_after :: "nat \<Rightarrow> nat option" where
  "start_after staggerIndex =
     (let s = min (staggerIndex * LAYER_STAGGER_SECONDS) LAYER_STAGGER_MAX_SECONDS in
      if s > 0 then Some s else None)"

text \<open>From the stale flag to the end of \<open>advancePendingNode\<close>.\<close>

definition enqueue_node ::
  "'b orch_env \<Rightarrow> string \<Rightarrow> NodeRow \<Rightarrow> bool \<Rightarrow> int \<Rightarrow> nat \<Rightarrow> ('b pass, bool) act" where
  "enqueue_node env jobName node stale now staggerIndex =
     bind_act (on_world (randomUUID env)) (\<lambda>bossJobId.
     bind_act (on_world (run_db (claimNodePending (node_id node) bossJobId stale now))) (\<lambda>claimed.
     if \<not> claimed then ret False
     else
       let node' = node\<lparr>node_stale := stale\<rparr> in
       bind_act (set_row jobName node') (\<lambda>_.
       bind_act (on_world (boss_send_call env jobName EmptyPayload (start_after staggerIndex) (Some bossJobId)))
         (\<lambda>sentId.
       bind_act (if truthy sentId then ret True
                 else bind_act (on_world (boss_get_call env jobName bossJobId)) (\<lambda>existing.
                      ret (existing \<noteq> None))) (\<lambda>exists.
       if \<not> exists
       then settle_in jobName node' NFailed
              ''boss.send returned null and no job exists for the reserved id'' now
       else bind_act (set_row jobName (node'\<lparr>node_status := NEnqueued\<rparr>)) (\<lambda>_. ret True))))))"

definition advancePendingNode ::
  "'b orch_env \<Rightarrow> string \<Rightarrow> NodeRow \<Rightarrow> int \<Rightarrow> nat \<Rightarrow> ('b pass, bool) act" where
  "advancePendingNode env jobName node now staggerIndex ps =
     (case map_of (nodes (env_dag env)) jobName of
        None \<Rightarrow>
          settle_in jobName node NSkipped
            ''job is no longer a DAG member in the running build (manifest changed mid-run)'' now ps
      | Some dagNode \<Rightarrow>
          let ups = upstreams_of dagNode (snd ps) in
          case find missing_hard ups of
            Some u \<Rightarrow>
              settle_in jobName node NSkipped
                (''upstream '' @ quoted (u_job u) @ '' has no node row in this run'') now ps
          | None \<Rightarrow>
          (case find blocked_by ups of
            Some u \<Rightarrow>
              let up = the (u_row u) in
              settle_in jobName node NSkipped
                (''upstream '' @ quoted (node_job_name up) @ '' '' @ status_text (node_status up)) now ps
          | None \<Rightarrow>
              if \<not> list_all upstream_terminal ups then ret False ps
              else
                (case env_eligibility env jobName of
                   Some (EligThrows e) \<Rightarrow> throw (EligibilityError e) ps
                 | Some (EligSkip reason) \<Rightarrow>
                     bind_act (on_world (run_db (claimNodeNotNeeded (node_id node) reason now))) (\<lambda>applied.
                     if \<not> applied
                     then bind_act (on_world (run_db (\<lambda>db. (loadNode db (node_id node), db)))) (\<lambda>fresh.
                          case fresh of
                            None \<Rightarrow> ret False
                          | Some f \<Rightarrow> bind_act (set_row jobName f) (\<lambda>_. ret False))
                     else bind_act (set_row jobName (node\<lparr>node_status := NNotNeeded,
                            node_detail := Some reason, node_finished_at := Some now\<rparr>)) (\<lambda>_. ret False)) ps
                 | _ \<Rightarrow>
                     enqueue_node env jobName node (list_ex upstream_stale ups) now staggerIndex ps)))"

section \<open>One pass\<close>

record AdvanceSummary =
  sm_total :: nat
  sm_terminal :: nat
  sm_succeeded :: nat
  sm_notNeeded :: nat
  sm_degraded :: nat
  sm_failed :: nat
  sm_skipped :: nat
  sm_enqueued :: nat
  sm_running :: nat
  sm_pending :: nat
  sm_stale :: nat
  sm_complete :: bool

definition count_node :: "NodeRow \<Rightarrow> AdvanceSummary \<Rightarrow> AdvanceSummary" where
  "count_node node s0 =
     (let s1 = s0\<lparr>sm_total := sm_total s0 + 1\<rparr>;
          s = (if node_stale node then s1\<lparr>sm_stale := sm_stale s1 + 1\<rparr> else s1)
      in case node_status node of
        NSucceeded \<Rightarrow> s\<lparr>sm_succeeded := sm_succeeded s + 1, sm_terminal := sm_terminal s + 1\<rparr>
      | NNotNeeded \<Rightarrow> s\<lparr>sm_notNeeded := sm_notNeeded s + 1, sm_terminal := sm_terminal s + 1\<rparr>
      | NDegraded \<Rightarrow> s\<lparr>sm_degraded := sm_degraded s + 1, sm_terminal := sm_terminal s + 1\<rparr>
      | NFailed \<Rightarrow> s\<lparr>sm_failed := sm_failed s + 1, sm_terminal := sm_terminal s + 1\<rparr>
      | NSkipped \<Rightarrow> s\<lparr>sm_skipped := sm_skipped s + 1, sm_terminal := sm_terminal s + 1\<rparr>
      | NEnqueued \<Rightarrow> s\<lparr>sm_enqueued := sm_enqueued s + 1\<rparr>
      | NRunning \<Rightarrow> s\<lparr>sm_running := sm_running s + 1\<rparr>
      | NPending \<Rightarrow> s\<lparr>sm_pending := sm_pending s + 1\<rparr>)"

definition summarize :: "NodeRow list \<Rightarrow> AdvanceSummary" where
  "summarize ns =
     (let s = fold count_node ns
        \<lparr>sm_total = 0, sm_terminal = 0, sm_succeeded = 0, sm_notNeeded = 0, sm_degraded = 0,
         sm_failed = 0, sm_skipped = 0, sm_enqueued = 0, sm_running = 0, sm_pending = 0,
         sm_stale = 0, sm_complete = False\<rparr>
      in s\<lparr>sm_complete := sm_total s > 0 \<and> sm_terminal s = sm_total s\<rparr>)"

text \<open>The loop over the snapshot's entries; the rows are read when their turn comes.\<close>

fun advance_nodes :: "'b orch_env \<Rightarrow> int \<Rightarrow> string list \<Rightarrow> nat \<Rightarrow> ('b pass, unit) act" where
  "advance_nodes env now [] enq ps = (Inr (), ps)"
| "advance_nodes env now (jobName # jobs) enq ps =
     (case map_of (snd ps) jobName of
        None \<Rightarrow> advance_nodes env now jobs enq ps
      | Some node \<Rightarrow>
          if node_status node \<noteq> NPending then advance_nodes env now jobs enq ps
          else
            let (r, ps') = catch_act (advancePendingNode env jobName node now enq) (\<lambda>_. ret False) ps in
            advance_nodes env now jobs (if r = Inr True then enq + 1 else enq) ps')"

definition advanceRun :: "'b orch_env \<Rightarrow> RunRow \<Rightarrow> int \<Rightarrow> ('b world, AdvanceSummary) act" where
  "advanceRun env run now w0 =
     (let timeoutMs = (case env_timeoutSeconds env of None \<Rightarrow> NODE_TIMEOUT_SECONDS | Some t \<Rightarrow> t) * 1000;
          inflight = map snd (loadNodes (w_db w0) (run_id run));
          (_, w1) = for_each (\<lambda>node. catch_act (pollInflightNode env now timeoutMs node) (\<lambda>_. ret ())) inflight w0;
          ns = loadNodes (w_db w1) (run_id run);
          (_, (w2, ns2)) = advance_nodes env now (map fst ns) 0 (w1, ns)
      in (Inr (summarize (map snd ns2)), w2))"

section \<open>Abandoning a run\<close>

definition cancelRunInflightJobs :: "'b orch_env \<Rightarrow> RunRow \<Rightarrow> int \<Rightarrow> ('b world, unit) act" where
  "cancelRunInflightJobs env run now w0 =
     for_each (\<lambda>node.
        if isTerminalNodeStatus (node_status node) then ret ()
        else catch_act
          (if \<not> truthy (node_boss_job_id node)
           then bind_act (settleNode node NSkipped
                  (Some (Some ''run abandoned before this node was enqueued'')) now) (\<lambda>_. ret ())
           else bind_act (cancelBossJob env (node_job_name node) (the (node_boss_job_id node))) (\<lambda>cancelled.
                bind_act (settleNode node NFailed (Some (Some
                    (if cancelled then ''run abandoned; pg-boss job cancelled''
                     else ''run abandoned; pg-boss job cancel failed (job may still execute)''))) now)
                  (\<lambda>_. ret ())))
          (\<lambda>_. ret ()))
       (map snd (loadNodes (w_db w0) (run_id run))) w0"

section \<open>Driving a run\<close>

definition advanceAndContinue :: "'b orch_env \<Rightarrow> RunRow \<Rightarrow> int \<Rightarrow> ('b world, AdvanceSummary option) act" where
  "advanceAndContinue env run now =
     bind_act
       (catch_act
         (bind_act (advanceRun env run now) (\<lambda>summary.
          if sm_complete summary
          then bind_act (run_db (finishRun (run_id run) RunCompleted now)) (\<lambda>_. ret (Some summary, True))
          else ret (Some summary, False)))
         (\<lambda>_. ret (None, False)))
       (\<lambda>(summary, settled).
         if settled then ret summary
         else bind_act (boss_send_call env ORCHESTRATOR_QUEUE (TickPayload (run_id run))
                (Some TICK_INTERVAL_SECONDS) None) (\<lambda>tickId.
              if \<not> truthy tickId then throw (TickNotArmed (run_id run)) else ret summary))"

definition abandon_leftover :: "'b orch_env \<Rightarrow> string \<Rightarrow> int \<Rightarrow> RunRow \<Rightarrow> ('b world, unit) act" where
  "abandon_leftover env runDate now leftover =
     (if run_date leftover = runDate then ret ()
      else bind_act (run_db (finishRun (run_id leftover) RunAbandoned now)) (\<lambda>_.
           cancelRunInflightJobs env leftover now))"

definition member_names :: "'b orch_env \<Rightarrow> string list" where
  "member_names env = map fst (nodes (env_dag env))"

definition insert_members :: "'b orch_env \<Rightarrow> string \<Rightarrow> ('b world, unit) act" where
  "insert_members env runId =
     try_db (\<lambda>db. bind_result (insertNodes (env_newId env) runId (member_names env) db) (\<lambda>db'. Inr ((), db')))"

definition runOrchestratorStart ::
  "'b orch_env \<Rightarrow> RunTrigger \<Rightarrow> int \<Rightarrow> ('b world, RunRow option) act" where
  "runOrchestratorStart env trigger now w0 =
     (let runDate = env_localDate env now in
      bind_act (for_each (abandon_leftover env runDate now) (listActiveRuns (w_db w0))) (\<lambda>_.
      bind_act (run_db (\<lambda>db. (getActiveRunForDate runDate db, db))) (\<lambda>active.
      bind_act (run_db (\<lambda>db. (getLatestRunForDate runDate db, db))) (\<lambda>latest.
      if active = None \<and> trigger = Cron \<and> latest \<noteq> None then ret None
      else
        bind_act
          (if active \<noteq> None then ret active
           else bind_act (try_db (createRunWithNodes (env_newId env) runDate trigger (member_names env) now))
             (\<lambda>created.
              if created \<noteq> None then ret created
              else run_db (\<lambda>db. (getActiveRunForDate runDate db, db))))
          (\<lambda>run. case run of
             None \<Rightarrow> ret None
           | Some r \<Rightarrow>
               bind_act (insert_members env (run_id r)) (\<lambda>_.
               bind_act (advanceAndContinue env r now) (\<lambda>_. ret (Some r))))))) w0)"

definition runOrchestratorTick :: "'b orch_env \<Rightarrow> string option \<Rightarrow> int \<Rightarrow> ('b world, unit) act" where
  "runOrchestratorTick env runId now =
     bind_act (run_db (\<lambda>db. (if truthy runId then getActiveRunById (the runId) db
                             else getActiveRunForDate (env_localDate env now) db, db))) (\<lambda>run.
     case run of
       None \<Rightarrow> ret ()
     | Some r \<Rightarrow>
         bind_act (insert_members env (run_id r)) (\<lambda>_.
         bind_act (advanceAndContinue env r now) (\<lambda>_. ret ())))"

section \<open>Boot catch-up\<close>

text \<open>The remainder of JavaScript has the sign of the dividend.\<close>

definition js_rem :: "int \<Rightarrow> int \<Rightarrow> int" where
  "js_rem a b = (if a \<ge> 0 then a mod \<bar>b\<bar> else - ((- a) mod \<bar>b\<bar>))"

definition minutesSinceAnchor :: "'b orch_env \<Rightarrow> int \<Rightarrow> int option" where
  "minutesSinceAnchor env now =
     map_option (\<lambda>m. js_rem (m - (ORCHESTRATOR_ANCHOR_HOUR * 60 + ORCHESTRATOR_ANCHOR_MINUTE) + MINUTES_PER_DAY)
                  MINUTES_PER_DAY)
       (env_localMinuteOfDay env now)"

definition isWithinCatchUpWindow :: "int option \<Rightarrow> int \<Rightarrow> orch_error + bool" where
  "isWithinCatchUpWindow elapsedMinutes windowMinutes =
     (case elapsedMinutes of
        None \<Rightarrow> Inl ClockUnreadable
      | Some e \<Rightarrow>
          if \<not> (windowMinutes > 0 \<and> windowMinutes < MINUTES_PER_DAY)
          then Inl (BadCatchUpWindow windowMinutes)
          else Inr (e < windowMinutes))"

datatype CatchUpOutcome = CatchUpStarted RunRow | OutsideWindow | RunExists | CatchUpFailed

definition runOrchestratorCatchUp :: "'b orch_env \<Rightarrow> int \<Rightarrow> ('b world, CatchUpOutcome) act" where
  "runOrchestratorCatchUp env now =
     catch_act
       (case isWithinCatchUpWindow (minutesSinceAnchor env now)
               (ORCHESTRATOR_CATCHUP_WINDOW_SECONDS div 60) of
          Inl e \<Rightarrow> throw e
        | Inr within \<Rightarrow>
            if \<not> within then ret OutsideWindow
            else bind_act (run_db (\<lambda>db. (getLatestRunForDate (env_localDate env now) db, db))) (\<lambda>existing.
                 if existing \<noteq> None then ret RunExists
                 else bind_act (runOrchestratorStart env Cron now) (\<lambda>run.
                      ret (case run of None \<Rightarrow> RunExists | Some r \<Rightarrow> CatchUpStarted r))))
       (\<lambda>_. ret CatchUpFailed)"

end
