(* ===== verification/OrchestratorFacts.thy ===== *)
theory OrchestratorFacts
  imports Orchestrator
begin

text \<open>
  What the calls of the orchestrator preserve: the table invariant, the identity of the jobs
  sent, and the dependency gate. A caller works on rows it has read before; \<open>row_seen\<close> says what
  such a row still tells about the table, whatever other callers have done since.
\<close>

section \<open>Loading a run's nodes\<close>

lemma foldl_update_append:
  "distinct (map node_job_name ns) \<Longrightarrow> set (map node_job_name ns) \<inter> fst ` set m = {} \<Longrightarrow>
     foldl (\<lambda>m r. AList.update (node_job_name r) r m) m ns = m @ map (\<lambda>r. (node_job_name r, r)) ns"
proof (induction ns arbitrary: m)
  case (Cons n ns)
  have "AList.update (node_job_name n) n m = m @ [(node_job_name n, n)]"
    using Cons.prems(2) by (simp add: update_keys) (induction m; auto)
  then show ?case using Cons by auto
qed simp

definition run_nodes :: "orch_db \<Rightarrow> string \<Rightarrow> NodeRow list" where
  "run_nodes db r = filter (\<lambda>n. node_run_id n = r) (o_nodes db)"

lemma distinct_run_jobs:
  assumes "orch_inv db"
  shows "distinct (map node_job_name (run_nodes db r))"
proof -
  have "distinct (map (\<lambda>n. (node_run_id n, node_job_name n)) (run_nodes db r))"
    using orch_invD(3) [OF assms] distinct_map_filter unfolding njob.wf_def run_nodes_def by blast
  moreover have "inj_on snd (set (map (\<lambda>n. (node_run_id n, node_job_name n)) (run_nodes db r)))"
    by (auto simp: inj_on_def run_nodes_def)
  ultimately show ?thesis
    using distinct_map [of snd "map (\<lambda>n. (node_run_id n, node_job_name n)) (run_nodes db r)"]
    by (simp add: comp_def)
qed

lemma loadNodes_eq:
  "orch_inv db \<Longrightarrow> loadNodes db r = map (\<lambda>n. (node_job_name n, n)) (run_nodes db r)"
  using foldl_update_append [of "run_nodes db r" "[]"] distinct_run_jobs
  by (simp add: loadNodes_def run_nodes_def)

lemma map_of_loadNodes:
  assumes "orch_inv db"
  shows "map_of (loadNodes db r) j = Some n \<longleftrightarrow>
     n \<in> set (o_nodes db) \<and> node_run_id n = r \<and> node_job_name n = j"
proof -
  have "distinct (map fst (loadNodes db r))"
    using distinct_run_jobs [OF assms] by (simp add: loadNodes_eq [OF assms] comp_def)
  then have "map_of (loadNodes db r) j = Some n \<longleftrightarrow> (j, n) \<in> set (loadNodes db r)" by simp
  then show ?thesis by (auto simp: loadNodes_eq [OF assms] run_nodes_def)
qed

section \<open>Rows read earlier\<close>

definition row_seen :: "orch_db \<Rightarrow> NodeRow \<Rightarrow> bool" where
  "row_seen db n \<longleftrightarrow> (node_status n = NPending \<longrightarrow> node_boss_job_id n = None) \<and>
     (\<exists>m \<in> set (o_nodes db).
     node_id m = node_id n \<and> node_run_id m = node_run_id n \<and> node_job_name m = node_job_name n \<and>
     (node_status n \<noteq> NPending \<longrightarrow> node_status m \<noteq> NPending) \<and>
     (isTerminalNodeStatus (node_status n) \<longrightarrow> node_status m = node_status n) \<and>
     (node_boss_job_id n \<noteq> None \<longrightarrow> node_boss_job_id m = node_boss_job_id n \<and> node_status m \<noteq> NPending))"

lemma row_seen_self: "orch_inv db \<Longrightarrow> n \<in> set (o_nodes db) \<Longrightarrow> row_seen db n"
  using orch_invD(6) [of db n] unfolding row_seen_def node_inv_def by (intro conjI bexI [of _ n]) auto

lemma row_seen_evolves:
  assumes "db_evolves db db'" "row_seen db n"
  shows "row_seen db' n"
proof -
  obtain m where p: "node_status n = NPending \<longrightarrow> node_boss_job_id n = None"
    and m: "m \<in> set (o_nodes db)" "node_id m = node_id n" "node_run_id m = node_run_id n"
    "node_job_name m = node_job_name n" "node_status n \<noteq> NPending \<longrightarrow> node_status m \<noteq> NPending"
    "isTerminalNodeStatus (node_status n) \<longrightarrow> node_status m = node_status n"
    "node_boss_job_id n \<noteq> None \<longrightarrow> node_boss_job_id m = node_boss_job_id n \<and> node_status m \<noteq> NPending"
    using assms(2) by (auto simp: row_seen_def)
  obtain m' where m': "m' \<in> set (o_nodes db')" "node_step m m'"
    using assms(1) m(1) by (auto simp: db_evolves_def)
  have "node_status m \<noteq> NPending \<Longrightarrow> node_status m' \<noteq> NPending"
    using m'(2) by (cases "node_status m"; cases "node_status m'") (auto simp: node_step_def status_rank_def)
  then show ?thesis
    using p m m' unfolding row_seen_def by (intro conjI bexI [of _ m']) (auto simp: node_step_def)
qed

lemma row_seen_not_pending:
  assumes "orch_inv db" "row_seen db n" "node_status n \<noteq> NPending \<or> node_boss_job_id n \<noteq> None"
  shows "\<forall>m \<in> set (o_nodes db). node_id m = node_id n \<longrightarrow> node_status m \<noteq> NPending"
proof -
  obtain k where "k \<in> set (o_nodes db)" "node_id k = node_id n" "node_status k \<noteq> NPending"
    using assms(2,3) by (auto simp: row_seen_def)
  then show ?thesis using nod.wf_same_row [OF orch_invD(2) [OF assms(1)]] by metis
qed

section \<open>The invariant of a world\<close>

definition member_send_ok :: "orch_db \<Rightarrow> boss_send \<Rightarrow> bool" where
  "member_send_ok db s \<longleftrightarrow> s_payload s = EmptyPayload \<and>
     (\<exists>n \<in> set (o_nodes db). node_job_name n = s_name s \<and> node_boss_job_id n = s_id s \<and> s_id s \<noteq> None)"

definition tick_send_ok :: "orch_db \<Rightarrow> boss_send \<Rightarrow> bool" where
  "tick_send_ok db s \<longleftrightarrow> s_name s = ORCHESTRATOR_QUEUE \<and> s_id s = None \<and>
     (\<exists>r \<in> set (o_runs db). s_payload s = TickPayload (run_id r))"

definition ids_ok :: "'b orch_env \<Rightarrow> 'b world \<Rightarrow> bool" where
  "ids_ok env w \<longleftrightarrow>
     (\<forall>n \<in> set (o_nodes (w_db w)). \<forall>b. node_boss_job_id n = Some b \<longrightarrow>
        (\<exists>k < w_uuids w. b = env_uuid env k)) \<and>
     (\<forall>n \<in> set (o_nodes (w_db w)). \<forall>n' \<in> set (o_nodes (w_db w)).
        node_boss_job_id n = node_boss_job_id n' \<longrightarrow> node_boss_job_id n \<noteq> None \<longrightarrow> n = n')"

text \<open>The dependency gate, on the rows of the table.\<close>

definition settled_well :: "orch_db \<Rightarrow> string \<Rightarrow> string \<Rightarrow> bool" where
  "settled_well db r j \<longleftrightarrow> (\<exists>m \<in> set (o_nodes db). node_run_id m = r \<and> node_job_name m = j \<and>
     node_status m \<in> {NSucceeded, NNotNeeded, NDegraded})"

definition settled :: "orch_db \<Rightarrow> string \<Rightarrow> string \<Rightarrow> bool" where
  "settled db r j \<longleftrightarrow> (\<exists>m \<in> set (o_nodes db). node_run_id m = r \<and> node_job_name m = j \<and>
     isTerminalNodeStatus (node_status m))"

definition gate_ok :: "JobDag \<Rightarrow> orch_db \<Rightarrow> bool" where
  "gate_ok dag db \<longleftrightarrow> (\<forall>n \<in> set (o_nodes db). node_boss_job_id n \<noteq> None \<longrightarrow>
     (\<exists>dn. map_of (nodes dag) (node_job_name n) = Some dn \<and>
        (\<forall>d \<in> set (n_deps dn). \<not> d_soft d \<longrightarrow> settled_well db (node_run_id n) (d_job d))))"

definition winv :: "'b orch_env \<Rightarrow> 'b world \<Rightarrow> bool" where
  "winv env w \<longleftrightarrow> orch_inv (w_db w) \<and> ids_ok env w \<and> gate_ok (env_dag env) (w_db w) \<and>
     (\<forall>s \<in> set (w_sends w). member_send_ok (w_db w) s \<or> tick_send_ok (w_db w) s)"

definition wstep :: "'b orch_env \<Rightarrow> 'b world \<Rightarrow> 'b world \<Rightarrow> bool" where
  "wstep env w w' \<longleftrightarrow> (store_step (env_newId env))\<^sup>*\<^sup>* (w_db w) (w_db w') \<and>
     (\<exists>ss. w_sends w' = w_sends w @ ss) \<and> w_uuids w \<le> w_uuids w'"

lemma wstep_refl [simp]: "wstep env w w"
  by (simp add: wstep_def)

lemma wstep_trans: "wstep env a b \<Longrightarrow> wstep env b c \<Longrightarrow> wstep env a c"
  by (auto simp: wstep_def)

lemma wstep_evolves: "winv env w \<Longrightarrow> wstep env w w' \<Longrightarrow> db_evolves (w_db w) (w_db w')"
  using store_steps_inv by (auto simp: winv_def wstep_def)

lemma winv_orch: "winv env w \<Longrightarrow> orch_inv (w_db w)"
  by (simp add: winv_def)

lemma winv_uuid:
  "winv env w \<Longrightarrow> n \<in> set (o_nodes (w_db w)) \<Longrightarrow> node_boss_job_id n = Some b \<Longrightarrow>
     \<exists>k < w_uuids w. b = env_uuid env k"
  unfolding winv_def ids_ok_def by metis

lemma winv_same_id:
  "winv env w \<Longrightarrow> n \<in> set (o_nodes (w_db w)) \<Longrightarrow> n' \<in> set (o_nodes (w_db w)) \<Longrightarrow>
     node_boss_job_id n = node_boss_job_id n' \<Longrightarrow> node_boss_job_id n \<noteq> None \<Longrightarrow> n = n'"
  unfolding winv_def ids_ok_def by metis

lemma settled_well_evolves: "db_evolves db db' \<Longrightarrow> settled_well db r j \<Longrightarrow> settled_well db' r j"
  unfolding settled_well_def db_evolves_def
  by (metis (no_types, lifting) insertE isTerminalNodeStatus_simps(4,7,8) node_step_def singletonD)

lemma settled_evolves: "db_evolves db db' \<Longrightarrow> settled db r j \<Longrightarrow> settled db' r j"
  unfolding settled_def db_evolves_def node_step_def by metis

lemma send_ok_evolves:
  assumes "db_evolves db db'" "orch_inv db"
  shows "member_send_ok db s \<Longrightarrow> member_send_ok db' s" "tick_send_ok db s \<Longrightarrow> tick_send_ok db' s"
proof -
  show "tick_send_ok db s \<Longrightarrow> tick_send_ok db' s"
    using assms(1) unfolding tick_send_ok_def db_evolves_def by metis
  assume "member_send_ok db s"
  then obtain n where n: "s_payload s = EmptyPayload" "n \<in> set (o_nodes db)" "node_job_name n = s_name s"
    "node_boss_job_id n = s_id s" "s_id s \<noteq> None"
    by (auto simp: member_send_ok_def)
  then have "node_status n \<noteq> NPending" using orch_invD(6) [OF assms(2), of n] by (auto simp: node_inv_def)
  moreover obtain m where "m \<in> set (o_nodes db')" "node_step n m" using assms(1) n(2) by (auto simp: db_evolves_def)
  ultimately show "member_send_ok db' s"
    using n unfolding member_send_ok_def node_step_def by (intro conjI bexI [of _ m]) simp_all
qed

section \<open>Statements other than a claim\<close>

text \<open>Every dispatched row of the new table was dispatched under the same id before.\<close>

definition same_jobs :: "orch_db \<Rightarrow> orch_db \<Rightarrow> bool" where
  "same_jobs db db' \<longleftrightarrow> (\<forall>n' \<in> set (o_nodes db'). node_boss_job_id n' \<noteq> None \<longrightarrow>
     (\<exists>n \<in> set (o_nodes db). node_boss_job_id n = node_boss_job_id n' \<and> node_id n = node_id n' \<and>
        node_run_id n = node_run_id n' \<and> node_job_name n = node_job_name n'))"

lemma winv_statement:
  assumes inv: "winv env w" and step: "store_step (env_newId env) (w_db w) db'" and same: "same_jobs (w_db w) db'"
  shows "winv env (w\<lparr>w_db := db'\<rparr>)" "wstep env w (w\<lparr>w_db := db'\<rparr>)"
proof -
  have inv': "orch_inv db'" and ev: "db_evolves (w_db w) db'"
    using store_step_inv [OF step] inv by (auto simp: winv_def)
  note same = same [unfolded same_jobs_def, rule_format]
  have "ids_ok env (w\<lparr>w_db := db'\<rparr>)"
    unfolding ids_ok_def
  proof (intro conjI ballI allI impI)
    fix n b assume "n \<in> set (o_nodes (w_db (w\<lparr>w_db := db'\<rparr>)))" "node_boss_job_id n = Some b"
    then obtain m where "m \<in> set (o_nodes (w_db w))" "node_boss_job_id m = Some b" using same [of n] by auto
    then show "\<exists>k < w_uuids (w\<lparr>w_db := db'\<rparr>). b = env_uuid env k"
      using inv by (auto simp: winv_def ids_ok_def)
  next
    fix n n' assume n: "n \<in> set (o_nodes (w_db (w\<lparr>w_db := db'\<rparr>)))" "n' \<in> set (o_nodes (w_db (w\<lparr>w_db := db'\<rparr>)))"
      and b: "node_boss_job_id n = node_boss_job_id n'" "node_boss_job_id n \<noteq> None"
    obtain m where m: "m \<in> set (o_nodes (w_db w))" "node_boss_job_id m = node_boss_job_id n" "node_id m = node_id n"
      using same [of n] n(1) b(2) by auto
    obtain m' where m': "m' \<in> set (o_nodes (w_db w))" "node_boss_job_id m' = node_boss_job_id n'" "node_id m' = node_id n'"
      using same [of n'] n(2) b by auto
    have "node_boss_job_id m = node_boss_job_id m'" "node_boss_job_id m \<noteq> None" using m(2) m'(2) b by auto
    then have "m = m'" using inv m(1) m'(1) by (auto simp: winv_def ids_ok_def)
    then have "node_id n = node_id n'" using m(3) m'(3) by simp
    then show "n = n'" using nod.wf_same_row [OF orch_invD(2) [OF inv']] n by simp
  qed
  moreover have "gate_ok (env_dag env) db'"
    unfolding gate_ok_def
  proof (intro ballI impI)
    fix n assume "n \<in> set (o_nodes db')" "node_boss_job_id n \<noteq> None"
    then obtain m where m: "m \<in> set (o_nodes (w_db w))" "node_boss_job_id m \<noteq> None"
      "node_run_id m = node_run_id n" "node_job_name m = node_job_name n"
      using same [of n] by auto
    then show "\<exists>dn. map_of (nodes (env_dag env)) (node_job_name n) = Some dn \<and>
        (\<forall>d \<in> set (n_deps dn). \<not> d_soft d \<longrightarrow> settled_well db' (node_run_id n) (d_job d))"
      using inv settled_well_evolves [OF ev] unfolding winv_def gate_ok_def by metis
  qed
  moreover have "\<forall>s \<in> set (w_sends w). member_send_ok db' s \<or> tick_send_ok db' s"
    using send_ok_evolves [OF ev winv_orch [OF inv]] inv unfolding winv_def by blast
  ultimately show "winv env (w\<lparr>w_db := db'\<rparr>)" using inv' by (simp add: winv_def)
  show "wstep env w (w\<lparr>w_db := db'\<rparr>)" using step by (auto simp: wstep_def)
qed

lemma same_jobs_update:
  assumes "\<And>n. n \<in> set (o_nodes db) \<Longrightarrow> p n \<Longrightarrow> node_boss_job_id (f n) = node_boss_job_id n \<and>
    node_id (f n) = node_id n \<and> node_run_id (f n) = node_run_id n \<and> node_job_name (f n) = node_job_name n"
  shows "same_jobs db (snd (update_nodes p f db))"
  using assms by (auto simp: same_jobs_def set_update_where)

lemma same_jobs_refl [simp]: "same_jobs db db"
  unfolding same_jobs_def by blast

lemma same_jobs_insert_nodes: "same_jobs db (insert_nodes newId r jobs db)"
proof (induction newId r jobs db rule: insert_nodes.induct)
  case (2 newId r job jobs db)
  have *: "same_jobs db (db\<lparr>o_nodes := insert_node (newId (o_next db)) r job (o_nodes db), o_next := o_next db + 1\<rparr>)"
    using set_insert_node(1) [of "newId (o_next db)" r job "o_nodes db"] by (auto simp: same_jobs_def)
  have trans: "same_jobs a b \<Longrightarrow> same_jobs b c \<Longrightarrow> same_jobs a c" for a b c
    unfolding same_jobs_def by metis
  show ?case using trans [OF * 2] by simp
qed simp

lemma same_jobs_same: "o_nodes db' = o_nodes db \<Longrightarrow> same_jobs db db'"
  by (auto simp: same_jobs_def)

text \<open>\<open>moves\<close>: from a good world to a good world, by statements of the store.\<close>

definition moves :: "'b orch_env \<Rightarrow> 'b world \<Rightarrow> 'b world \<Rightarrow> bool" where
  "moves env w w' \<longleftrightarrow> winv env w' \<and> wstep env w w'"

lemma moves_refl: "winv env w \<Longrightarrow> moves env w w"
  by (simp add: moves_def)

lemma moves_trans: "moves env a b \<Longrightarrow> moves env b c \<Longrightarrow> moves env a c"
  using wstep_trans by (auto simp: moves_def)

lemma moves_boss: "winv env w \<Longrightarrow> moves env w (w\<lparr>w_boss := b\<rparr>)"
  by (simp add: moves_def winv_def ids_ok_def wstep_def)

lemma moves_update:
  assumes "winv env w" "updateNodeStatus i s detail now (w_db w) = (b, db')"
    and "s = NSkipped \<or> (s \<in> {NRunning, NSucceeded, NFailed, NDegraded} \<and>
      (\<forall>n \<in> set (o_nodes (w_db w)). node_id n = i \<longrightarrow> node_status n \<noteq> NPending))"
  shows "moves env w (w\<lparr>w_db := db'\<rparr>)"
proof -
  have "store_step (env_newId env) (w_db w) db'"
    using assms(2,3) store_step.skip store_step.report by metis
  moreover have "same_jobs (w_db w) db'"
    using same_jobs_update assms(2) by (auto simp: updateNodeStatus_def dest!: snd_eqD)
  ultimately show ?thesis using winv_statement [OF assms(1)] by (simp add: moves_def)
qed

lemma moves_not_needed:
  assumes "winv env w" "claimNodeNotNeeded i d now (w_db w) = (b, db')"
  shows "moves env w (w\<lparr>w_db := db'\<rparr>)"
proof -
  have "same_jobs (w_db w) db'"
    using same_jobs_update assms(2) by (auto simp: claimNodeNotNeeded_def dest!: snd_eqD)
  then show ?thesis using winv_statement [OF assms(1) store_step.not_needed [OF assms(2)]] by (simp add: moves_def)
qed

lemma moves_finish:
  assumes "winv env w" "s \<noteq> RunRunning" "finishRun i s now (w_db w) = (b, db')"
  shows "moves env w (w\<lparr>w_db := db'\<rparr>)"
proof -
  have "same_jobs (w_db w) db'" using assms(3) by (intro same_jobs_same) (simp add: finishRun_Pair)
  then show ?thesis using winv_statement [OF assms(1) store_step.finish [OF assms(2,3)]] by (simp add: moves_def)
qed

lemma moves_insert:
  assumes "winv env w" "insertNodes (env_newId env) r jobs (w_db w) = Inr db'"
  shows "moves env w (w\<lparr>w_db := db'\<rparr>)"
proof -
  have "same_jobs (w_db w) db'"
    using assms(2) same_jobs_insert_nodes by (auto simp: insertNodes_Inr intro: same_jobs_same)
  then show ?thesis using winv_statement [OF assms(1) store_step.insert [OF assms(2)]] by (simp add: moves_def)
qed

lemma createRun_nodes: "createRun newId d t now db = (res, db') \<Longrightarrow> o_nodes db' = o_nodes db"
  by (auto simp: createRun_def Let_def split: if_splits)

lemma moves_create:
  assumes "winv env w" "createRunWithNodes (env_newId env) d t jobs now (w_db w) = Inr (res, db')"
  shows "moves env w (w\<lparr>w_db := db'\<rparr>)"
proof -
  have "same_jobs (w_db w) db'"
    using assms(2) unfolding createRunWithNodes_Inr
  proof (elim disjE exE conjE)
    assume "createRun (env_newId env) d t now (w_db w) = (None, db')"
    then show ?thesis using createRun_nodes same_jobs_same by metis
  next
    fix r db1 assume 1: "createRun (env_newId env) d t now (w_db w) = (Some r, db1)"
      and 2: "insertNodes (env_newId env) (run_id r) jobs db1 = Inr db'"
    have "same_jobs db1 db'"
      using 2 same_jobs_insert_nodes by (auto simp: insertNodes_Inr intro: same_jobs_same)
    then show ?thesis using createRun_nodes [OF 1] by (simp add: same_jobs_def)
  qed
  then show ?thesis using winv_statement [OF assms(1) store_step.create [OF assms(2)]] by (simp add: moves_def)
qed

section \<open>Claim and send\<close>

lemma moves_claim:
  assumes inv: "winv env w" and inj: "inj (env_uuid env)"
    and claim: "claimNodePending i (env_uuid env (w_uuids w)) st now (w_db w) = (b, db')"
    and gate: "\<And>n. n \<in> set (o_nodes (w_db w)) \<Longrightarrow> node_id n = i \<Longrightarrow>
      \<exists>dn. map_of (nodes (env_dag env)) (node_job_name n) = Some dn \<and>
        (\<forall>d \<in> set (n_deps dn). \<not> d_soft d \<longrightarrow> settled_well (w_db w) (node_run_id n) (d_job d))"
  shows "moves env w (w\<lparr>w_db := db', w_uuids := w_uuids w + 1\<rparr>)"
proof -
  let ?u = "env_uuid env (w_uuids w)"
  let ?p = "\<lambda>n. node_id n = i \<and> node_status n = NPending"
  let ?f = "\<lambda>n. n\<lparr>node_status := NEnqueued, node_boss_job_id := Some ?u, node_stale := st, node_enqueued_at := Some now\<rparr>"
  let ?w = "w\<lparr>w_db := db', w_uuids := w_uuids w + 1\<rparr>"
  have step: "store_step (env_newId env) (w_db w) db'" by (rule store_step.claim [OF claim])
  have inv': "orch_inv db'" and ev: "db_evolves (w_db w) db'" using store_step_inv [OF step] winv_orch [OF inv] by auto
  have nodes: "o_nodes db' = update_where ?p ?f (o_nodes (w_db w))"
    using claim by (auto simp: claimNodePending_def update_nodes_def)
  have old: "\<exists>m \<in> set (o_nodes (w_db w)). node_id m = node_id n \<and> node_run_id m = node_run_id n \<and>
      node_job_name m = node_job_name n \<and> (node_boss_job_id n = node_boss_job_id m \<or>
        (node_boss_job_id n = Some ?u \<and> node_id m = i))"
    if "n \<in> set (o_nodes db')" for n
    using that unfolding nodes set_update_where by (auto split: if_splits)
  have fresh: "node_boss_job_id m \<noteq> Some ?u" if "m \<in> set (o_nodes (w_db w))" for m
  proof
    assume "node_boss_job_id m = Some ?u"
    from winv_uuid [OF inv that this] obtain k where "k < w_uuids w" "?u = env_uuid env k" by blast
    then show False using injD [OF inj] by fastforce
  qed
  have "ids_ok env ?w"
    unfolding ids_ok_def
  proof (intro conjI ballI allI impI)
    fix n b assume "n \<in> set (o_nodes (w_db ?w))" "node_boss_job_id n = Some b"
    then have "(\<exists>m \<in> set (o_nodes (w_db w)). node_boss_job_id m = Some b) \<or> b = ?u"
      using old [of n] by auto
    moreover have "\<exists>k < w_uuids w. b = env_uuid env k"
      if "m \<in> set (o_nodes (w_db w))" "node_boss_job_id m = Some b" for m
      using winv_uuid [OF inv that] .
    ultimately have "(\<exists>k < w_uuids w. b = env_uuid env k) \<or> b = ?u" by blast
    then show "\<exists>k < w_uuids ?w. b = env_uuid env k" by (auto simp: less_Suc_eq)
  next
    fix n n' assume n: "n \<in> set (o_nodes (w_db ?w))" "n' \<in> set (o_nodes (w_db ?w))"
      and b: "node_boss_job_id n = node_boss_job_id n'" "node_boss_job_id n \<noteq> None"
    obtain m where m: "m \<in> set (o_nodes (w_db w))" "node_id m = node_id n"
      "node_boss_job_id n = node_boss_job_id m \<or> (node_boss_job_id n = Some ?u \<and> node_id m = i)"
      using old [of n] n(1) by auto
    obtain m' where m': "m' \<in> set (o_nodes (w_db w))" "node_id m' = node_id n'"
      "node_boss_job_id n' = node_boss_job_id m' \<or> (node_boss_job_id n' = Some ?u \<and> node_id m' = i)"
      using old [of n'] n(2) by auto
    have "node_id n = node_id n'"
      using m m' b fresh [of m] fresh [of m'] winv_same_id [OF inv m(1) m'(1)] by metis
    then show "n = n'" using nod.wf_same_row [OF orch_invD(2) [OF inv']] n by simp
  qed
  moreover have "gate_ok (env_dag env) db'"
    unfolding gate_ok_def
  proof (intro ballI impI)
    fix n assume n: "n \<in> set (o_nodes db')" "node_boss_job_id n \<noteq> None"
    obtain m where m: "m \<in> set (o_nodes (w_db w))" "node_run_id m = node_run_id n" "node_job_name m = node_job_name n"
      "node_boss_job_id m \<noteq> None \<or> node_id m = i"
      using old [OF n(1)] n(2) by auto
    have "\<exists>dn. map_of (nodes (env_dag env)) (node_job_name m) = Some dn \<and>
        (\<forall>d \<in> set (n_deps dn). \<not> d_soft d \<longrightarrow> settled_well (w_db w) (node_run_id m) (d_job d))"
      using m(1,4) gate inv unfolding winv_def gate_ok_def by blast
    then show "\<exists>dn. map_of (nodes (env_dag env)) (node_job_name n) = Some dn \<and>
        (\<forall>d \<in> set (n_deps dn). \<not> d_soft d \<longrightarrow> settled_well db' (node_run_id n) (d_job d))"
      unfolding m(2,3) using settled_well_evolves [OF ev] by blast
  qed
  moreover have "\<forall>s \<in> set (w_sends w). member_send_ok db' s \<or> tick_send_ok db' s"
    using send_ok_evolves [OF ev winv_orch [OF inv]] inv unfolding winv_def by blast
  ultimately show ?thesis using inv' step by (auto simp: moves_def winv_def wstep_def)
qed

lemma moves_send:
  assumes "winv env w" "boss_send_call env name payload sa i w = (r, w')"
    and "member_send_ok (w_db w) \<lparr>s_name = name, s_payload = payload, s_startAfter = sa, s_id = i\<rparr> \<or>
      tick_send_ok (w_db w) \<lparr>s_name = name, s_payload = payload, s_startAfter = sa, s_id = i\<rparr>"
  shows "moves env w w'" "w_db w' = w_db w"
  using assms by (auto simp: boss_send_call_def moves_def winv_def ids_ok_def wstep_def split: prod.splits)

lemma boss_get_same: "boss_get_call env name i w = (r, w') \<Longrightarrow> w' = w"
  by (auto simp: boss_get_call_def split: sum.splits)

lemma moves_cancel: "winv env w \<Longrightarrow> cancelBossJob env name i w = (r, w') \<Longrightarrow> moves env w w' \<and> w_db w' = w_db w"
  using moves_boss by (auto simp: cancelBossJob_def split: prod.splits)

end
