(* ===== verification/OrchestratorRuns.thy ===== *)
theory OrchestratorRuns
  imports OrchestratorFacts
begin

text \<open>
  The operations of the orchestrator keep the invariant of a world: polling, advancing, abandoning,
  starting, ticking and catching up, each as a composition of store statements.
\<close>

section \<open>Settling and polling\<close>

lemma in_update_where: "x \<in> set xs \<Longrightarrow> p x \<Longrightarrow> f x \<in> set (update_where p f xs)"
  by (force simp: set_update_where)

lemma run_db_simps [simp]: "run_db f w = (Inr (fst (f (w_db w))), w\<lparr>w_db := snd (f (w_db w))\<rparr>)"
  by (simp add: run_db_def split: prod.split)

lemma act_simps [simp]:
  "ret a w = (Inr a, w)" "throw e w = (Inl e, w)"
  "bind_act (ret a) f w = f a w"
  by (simp_all add: ret_def throw_def bind_act_def)

lemma bind_act_cases:
  assumes "bind_act m f w = (r, w')"
  obtains (err) e where "m w = (Inl e, w')" "r = Inl e"
  | (ok) a w1 where "m w = (Inr a, w1)" "f a w1 = (r, w')"
  using assms by (auto simp: bind_act_def split: prod.splits sum.splits)

lemma catch_act_cases:
  assumes "catch_act m h w = (r, w')"
  obtains (err) e w1 where "m w = (Inl e, w1)" "h e w1 = (r, w')"
  | (ok) a where "m w = (Inr a, w')" "r = Inr a"
  using assms by (auto simp: catch_act_def split: prod.splits sum.splits)

definition may_settle :: "orch_db \<Rightarrow> NodeRow \<Rightarrow> NodeStatus \<Rightarrow> bool" where
  "may_settle db node s \<longleftrightarrow> s = NSkipped \<or> (s \<in> {NRunning, NSucceeded, NFailed, NDegraded} \<and>
     (\<forall>m \<in> set (o_nodes db). node_id m = node_id node \<longrightarrow> node_status m \<noteq> NPending))"

lemma may_settle_evolves:
  assumes "db_evolves db db'" "orch_inv db'" "row_seen db node" "may_settle db node s"
  shows "may_settle db' node s"
proof -
  obtain k where k: "k \<in> set (o_nodes db)" "node_id k = node_id node" using assms(3) by (auto simp: row_seen_def)
  have "node_status m \<noteq> NPending"
    if "\<forall>m \<in> set (o_nodes db). node_id m = node_id node \<longrightarrow> node_status m \<noteq> NPending"
      "m \<in> set (o_nodes db')" "node_id m = node_id node" for m
  proof -
    have "node_step k m"
      using evolves_node [OF assms(1) orch_invD(2) [OF assms(2)] k(1) that(2)] k(2) that(3) by simp
    moreover have "node_status k \<noteq> NPending" using that(1) k by blast
    ultimately show ?thesis
      by (cases "node_status k"; cases "node_status m") (auto simp: node_step_def status_rank_def)
  qed
  then show ?thesis using assms(4) unfolding may_settle_def by blast
qed

lemma settleNode_moves:
  assumes "winv env w" "row_seen (w_db w) node" "may_settle (w_db w) node s" "isTerminalNodeStatus s"
    and "settleNode node s d now w = (r, w')"
  shows "moves env w w'"
    and "\<exists>node'. r = Inr node' \<and> row_seen (w_db w') node' \<and> node_job_name node' = node_job_name node \<and>
      node_run_id node' = node_run_id node"
proof -
  obtain b db' where u: "updateNodeStatus (node_id node) s d now (w_db w) = (b, db')" by fastforce
  have w': "w' = w\<lparr>w_db := db'\<rparr>" and r: "r = Inr (if b then node\<lparr>node_status := s\<rparr> else node)"
    using assms(5) u by (auto simp: settleNode_def bind_act_def)
  show moves: "moves env w w'"
    unfolding w' using moves_update [OF assms(1) u] assms(3) by (simp add: may_settle_def)
  have seen: "row_seen db' node"
    using row_seen_evolves [OF wstep_evolves [OF assms(1)] assms(2)] moves unfolding moves_def w' by fastforce
  have "row_seen db' (node\<lparr>node_status := s\<rparr>)" if b
  proof -
    let ?f = "\<lambda>n. n\<lparr>node_status := s, node_detail := (case d of None \<Rightarrow> node_detail n | Some d \<Rightarrow> d),
              node_finished_at := (if isTerminalNodeStatus s then Some now else node_finished_at n)\<rparr>"
    let ?p = "\<lambda>n. node_id n = node_id node \<and> node_status n \<notin> set TERMINAL_NODE_STATUSES"
    have nodes: "o_nodes db' = update_where ?p ?f (o_nodes (w_db w))" and "list_ex ?p (o_nodes (w_db w))"
      using u that by (simp_all add: updateNodeStatus_def update_nodes_def) auto
    then obtain k where k: "k \<in> set (o_nodes (w_db w))" "?p k" by (auto simp: list_ex_iff)
    then have k': "?f k \<in> set (o_nodes db')" using in_update_where [OF k(1), of ?p ?f] nodes by simp
    obtain m where m: "m \<in> set (o_nodes (w_db w))" "node_id m = node_id node" "node_run_id m = node_run_id node"
      "node_job_name m = node_job_name node"
      "node_boss_job_id node \<noteq> None \<longrightarrow> node_boss_job_id m = node_boss_job_id node"
      using assms(2) by (auto simp: row_seen_def)
    have "m = k" using nod.wf_same_row [OF orch_invD(2) [OF winv_orch [OF assms(1)]] m(1) k(1)] m(2) k(2) by simp
    then show ?thesis
      unfolding row_seen_def using k' m assms(4) by (intro conjI bexI [of _ "?f k"]) auto
  qed
  then show "\<exists>node'. r = Inr node' \<and> row_seen (w_db w') node' \<and> node_job_name node' = node_job_name node \<and>
      node_run_id node' = node_run_id node"
    using seen r w' by simp
qed

lemma member_send_of_seen:
  assumes "row_seen db node" "node_boss_job_id node = Some i"
  shows "member_send_ok db \<lparr>s_name = node_job_name node, s_payload = EmptyPayload, s_startAfter = sa, s_id = Some i\<rparr>"
  using assms by (auto simp: row_seen_def member_send_ok_def)

lemma not_pending_seen:
  assumes "winv env w" "row_seen (w_db w) node" "node_status node \<noteq> NPending \<or> node_boss_job_id node \<noteq> None"
    "s \<in> {NRunning, NSucceeded, NFailed, NDegraded}"
  shows "may_settle (w_db w) node s"
  using row_seen_not_pending [OF winv_orch [OF assms(1)] assms(2,3)] assms(4) by (auto simp: may_settle_def)

text \<open>
  \<open>keeps env P m\<close>: from a good world where \<open>P\<close> holds, the action only moves. The conditions
  used here are about rows read earlier and stay true when the world moves.
\<close>

named_theorems keeps_intros \<open>rules for \<open>keeps\<close>\<close>

definition keeps :: "'b orch_env \<Rightarrow> ('b world \<Rightarrow> bool) \<Rightarrow> ('b world, 'a) act \<Rightarrow> bool" where
  "keeps env P m \<longleftrightarrow> (\<forall>w r w'. winv env w \<longrightarrow> P w \<longrightarrow> m w = (r, w') \<longrightarrow> moves env w w')"

definition stable :: "'b orch_env \<Rightarrow> ('b world \<Rightarrow> bool) \<Rightarrow> bool" where
  "stable env P \<longleftrightarrow> (\<forall>w w'. winv env w \<longrightarrow> P w \<longrightarrow> moves env w w' \<longrightarrow> P w')"

lemma keepsD: "keeps env P m \<Longrightarrow> winv env w \<Longrightarrow> P w \<Longrightarrow> m w = (r, w') \<Longrightarrow> moves env w w'"
  by (simp add: keeps_def)

lemma keeps_ret [keeps_intros]: "keeps env P (ret a)"
  by (simp add: keeps_def moves_refl)

lemma keeps_throw [keeps_intros]: "keeps env P (throw e)"
  by (simp add: keeps_def moves_refl)

lemma keeps_bind:
  assumes "stable env P" "keeps env P m" "\<And>a. keeps env P (f a)"
  shows "keeps env P (bind_act m f)"
  unfolding keeps_def
proof (intro allI impI)
  fix w r w' assume w: "winv env w" "P w" and b: "bind_act m f w = (r, w')"
  from b show "moves env w w'"
  proof (cases rule: bind_act_cases)
    case (err e)
    then show ?thesis using keepsD [OF assms(2) w] by blast
  next
    case (ok a w1)
    have m1: "moves env w w1" using keepsD [OF assms(2) w ok(1)] .
    then have "winv env w1" "P w1" using assms(1) w by (auto simp: moves_def stable_def)
    then show ?thesis using keepsD [OF assms(3)] ok(2) moves_trans [OF m1] by blast
  qed
qed

lemma keeps_catch:
  assumes "stable env P" "keeps env P m" "\<And>e. keeps env P (h e)"
  shows "keeps env P (catch_act m h)"
  unfolding keeps_def
proof (intro allI impI)
  fix w r w' assume w: "winv env w" "P w" and b: "catch_act m h w = (r, w')"
  from b show "moves env w w'"
  proof (cases rule: catch_act_cases)
    case (ok a)
    then show ?thesis using keepsD [OF assms(2) w] by blast
  next
    case (err e w1)
    have m1: "moves env w w1" using keepsD [OF assms(2) w err(1)] .
    then have "winv env w1" "P w1" using assms(1) w by (auto simp: moves_def stable_def)
    then show ?thesis using keepsD [OF assms(3)] err(2) moves_trans [OF m1] by blast
  qed
qed

lemma keeps_weaken: "keeps env P m \<Longrightarrow> (\<And>w. winv env w \<Longrightarrow> Q w \<Longrightarrow> P w) \<Longrightarrow> keeps env Q m"
  unfolding keeps_def by blast

lemma stable_seen: "stable env (\<lambda>w. row_seen (w_db w) node)"
  using row_seen_evolves wstep_evolves unfolding stable_def moves_def by fast

lemma stable_True: "stable env (\<lambda>w. True)"
  by (simp add: stable_def)

lemma keeps_for_each:
  assumes "stable env P" "\<And>x. x \<in> set xs \<Longrightarrow> keeps env P (f x)"
  shows "keeps env P (for_each f xs)"
  using assms(2) by (induction xs) (auto intro!: keeps_ret keeps_bind [OF assms(1)])

lemma keeps_if [keeps_intros]:
  "(b \<Longrightarrow> keeps env P m) \<Longrightarrow> (\<not> b \<Longrightarrow> keeps env P m') \<Longrightarrow> keeps env P (if b then m else m')"
  by simp

lemma keeps_get [keeps_intros]: "keeps env P (boss_get_call env' name i)"
  using boss_get_same moves_refl unfolding keeps_def by metis

lemma keeps_cancel [keeps_intros]: "keeps env P (cancelBossJob env name i)"
  using moves_cancel unfolding keeps_def by blast

lemma keeps_read [keeps_intros]: "keeps env P (run_db (\<lambda>db. (f db, db)))"
  by (simp add: keeps_def moves_refl)

lemma keeps_settle [keeps_intros]:
  assumes "s = NSkipped \<or> (s \<in> {NSucceeded, NFailed, NDegraded} \<and>
    (node_status node \<noteq> NPending \<or> node_boss_job_id node \<noteq> None))"
  shows "keeps env (\<lambda>w. row_seen (w_db w) node) (settleNode node s d now)"
  unfolding keeps_def
proof (intro allI impI)
  fix w r w' assume w: "winv env w" "row_seen (w_db w) node" "settleNode node s d now w = (r, w')"
  have "may_settle (w_db w) node s"
    using assms not_pending_seen [OF w(1,2), of s] by (auto simp: may_settle_def)
  then show "moves env w w'" using settleNode_moves(1) [OF w(1,2) _ _ w(3)] assms by auto
qed

lemma keeps_resend [keeps_intros]:
  assumes "truthy (node_boss_job_id node)"
  shows "keeps env (\<lambda>w. row_seen (w_db w) node)
    (boss_send_call env (node_job_name node) EmptyPayload None (node_boss_job_id node))"
proof -
  obtain i where "node_boss_job_id node = Some i" using assms by (auto simp: truthy_def split: option.splits)
  then show ?thesis
    unfolding keeps_def using moves_send(1) member_send_of_seen by fastforce
qed

lemma keeps_running [keeps_intros]:
  assumes "node_status node \<noteq> NPending"
  shows "keeps env (\<lambda>w. row_seen (w_db w) node) (run_db (updateNodeStatus (node_id node) NRunning None now))"
  unfolding keeps_def
proof (intro allI impI)
  fix w r w' assume w: "winv env w" "row_seen (w_db w) node"
    and u: "run_db (updateNodeStatus (node_id node) NRunning None now) w = (r, w')"
  obtain b db' where "updateNodeStatus (node_id node) NRunning None now (w_db w) = (b, db')" by fastforce
  then show "moves env w w'"
    using moves_update [OF w(1)] u not_pending_seen [OF w disjI1 [OF assms], of NRunning]
    by (auto simp: may_settle_def)
qed

lemma poll_unresolved_keeps:
  assumes "node_status node \<noteq> NPending"
  shows "keeps env (\<lambda>w. row_seen (w_db w) node) (poll_unresolved env now t node js)"
  unfolding poll_unresolved_def
  by (intro keeps_intros keeps_bind [OF stable_seen]) (use assms in auto)

lemma poll_job_keeps:
  assumes "node_status node \<noteq> NPending"
  shows "keeps env (\<lambda>w. row_seen (w_db w) node) (poll_job env now t node job)"
  unfolding poll_job_def Let_def
  by (intro keeps_intros keeps_bind [OF stable_seen] poll_unresolved_keeps) (use assms in auto)

lemma pollInflightNode_keeps: "keeps env (\<lambda>w. row_seen (w_db w) node) (pollInflightNode env now t node)"
  unfolding pollInflightNode_def
  by (intro keeps_intros keeps_bind [OF stable_seen] poll_job_keeps) auto

section \<open>Advancing one node\<close>

definition snap_ok :: "orch_db \<Rightarrow> string \<Rightarrow> snapshot \<Rightarrow> bool" where
  "snap_ok db r ns \<longleftrightarrow>
     (\<forall>(j, n) \<in> set ns. node_job_name n = j \<and> node_run_id n = r \<and> row_seen db n)"

lemma snap_ok_load: "orch_inv db \<Longrightarrow> snap_ok db r (loadNodes db r)"
  using row_seen_self by (auto simp: snap_ok_def loadNodes_eq run_nodes_def)

lemma snap_ok_evolves: "db_evolves db db' \<Longrightarrow> snap_ok db r ns \<Longrightarrow> snap_ok db' r ns"
  using row_seen_evolves by (fastforce simp: snap_ok_def)

lemma snap_okD:
  "snap_ok db r ns \<Longrightarrow> map_of ns j = Some n \<Longrightarrow> node_job_name n = j \<and> node_run_id n = r \<and> row_seen db n"
  by (auto simp: snap_ok_def dest!: map_of_SomeD)

lemma snap_ok_put:
  "snap_ok db r ns \<Longrightarrow> node_job_name n = j \<Longrightarrow> node_run_id n = r \<Longrightarrow> row_seen db n \<Longrightarrow> snap_ok db r (put_node j n ns)"
  by (auto simp: snap_ok_def put_node_def split: if_splits)

lemma map_fst_put_node [simp]: "map fst (put_node j n ns) = map fst ns"
  by (induction ns) (auto simp: put_node_def)

text \<open>\<open>pkeeps\<close> is \<open>keeps\<close> for a pass: the snapshot stays truthful as well.\<close>

definition pkeeps :: "'b orch_env \<Rightarrow> string \<Rightarrow> ('b world \<Rightarrow> bool) \<Rightarrow> ('b pass, 'a) act \<Rightarrow> bool" where
  "pkeeps env rid P m \<longleftrightarrow> (\<forall>w ns r w' ns'. winv env w \<longrightarrow> snap_ok (w_db w) rid ns \<longrightarrow> P w \<longrightarrow>
     m (w, ns) = (r, (w', ns')) \<longrightarrow> moves env w w' \<and> snap_ok (w_db w') rid ns' \<and> map fst ns' = map fst ns)"

lemma pkeepsD:
  "pkeeps env rid P m \<Longrightarrow> winv env w \<Longrightarrow> snap_ok (w_db w) rid ns \<Longrightarrow> P w \<Longrightarrow> m (w, ns) = (r, (w', ns')) \<Longrightarrow>
     moves env w w' \<and> snap_ok (w_db w') rid ns' \<and> map fst ns' = map fst ns"
  by (simp add: pkeeps_def)

lemma pkeeps_ret [keeps_intros]: "pkeeps env rid P (ret a)"
  by (auto simp: pkeeps_def moves_refl)

lemma pkeeps_throw [keeps_intros]: "pkeeps env rid P (throw e)"
  by (auto simp: pkeeps_def moves_refl)

lemma pkeeps_if [keeps_intros]:
  "(b \<Longrightarrow> pkeeps env rid P m) \<Longrightarrow> (\<not> b \<Longrightarrow> pkeeps env rid P m') \<Longrightarrow> pkeeps env rid P (if b then m else m')"
  by simp

lemma snap_ok_moves: "winv env w \<Longrightarrow> moves env w w' \<Longrightarrow> snap_ok (w_db w) r ns \<Longrightarrow> snap_ok (w_db w') r ns"
  unfolding moves_def by (blast intro: snap_ok_evolves wstep_evolves)

lemma pkeeps_on_world [keeps_intros]:
  assumes "keeps env P m"
  shows "pkeeps env rid P (on_world m)"
  unfolding pkeeps_def
proof (intro allI impI)
  fix w ns r w' ns' assume w: "winv env w" "snap_ok (w_db w) rid ns" "P w"
    and b: "on_world m (w, ns) = (r, (w', ns'))"
  then have "m w = (r, w')" "ns' = ns" by (auto simp: on_world_def split: prod.splits)
  then show "moves env w w' \<and> snap_ok (w_db w') rid ns' \<and> map fst ns' = map fst ns"
    using keepsD [OF assms w(1,3)] snap_ok_moves [OF w(1) _ w(2)] by blast
qed

lemma pkeeps_bind:
  assumes "stable env P" "pkeeps env rid P m" "\<And>a. pkeeps env rid P (f a)"
  shows "pkeeps env rid P (bind_act m f)"
  unfolding pkeeps_def
proof (intro allI impI)
  fix w ns r w' ns' assume w: "winv env w" "snap_ok (w_db w) rid ns" "P w"
    and b: "bind_act m f (w, ns) = (r, (w', ns'))"
  from b show "moves env w w' \<and> snap_ok (w_db w') rid ns' \<and> map fst ns' = map fst ns"
  proof (cases rule: bind_act_cases)
    case (err e)
    then show ?thesis using pkeepsD [OF assms(2) w] by blast
  next
    case (ok a p)
    obtain w1 ns1 where p: "p = (w1, ns1)" by (cases p)
    have m1: "moves env w w1" "snap_ok (w_db w1) rid ns1" "map fst ns1 = map fst ns"
      using pkeepsD [OF assms(2) w] ok(1) p by blast+
    then have "winv env w1" "P w1" using assms(1) w by (auto simp: moves_def stable_def)
    then show ?thesis using pkeepsD [OF assms(3)] ok(2) p m1 moves_trans [OF m1(1)] by metis
  qed
qed

lemma pkeeps_set_row:
  assumes "node_job_name n = j" "node_run_id n = rid"
  shows "pkeeps env rid (\<lambda>w. row_seen (w_db w) n) (set_row j n)"
  using assms by (auto simp: pkeeps_def set_row_def moves_refl intro: snap_ok_put)

lemma settle_in_pkeeps:
  assumes node: "node_job_name node = j" "node_run_id node = rid" and fin: "isTerminalNodeStatus s"
  shows "pkeeps env rid (\<lambda>w. row_seen (w_db w) node \<and> may_settle (w_db w) node s) (settle_in j node s d now)"
  unfolding pkeeps_def
proof (intro allI impI)
  fix w ns r w' ns'
  assume w: "winv env w" "snap_ok (w_db w) rid ns" "row_seen (w_db w) node \<and> may_settle (w_db w) node s"
    and b: "settle_in j node s d now (w, ns) = (r, (w', ns'))"
  obtain r1 w1 where 1: "settleNode node s (Some (Some d)) now w = (r1, w1)" by fastforce
  note sm = settleNode_moves [OF w(1) conjunct1 [OF w(3)] conjunct2 [OF w(3)] fin 1]
  obtain node' where n': "r1 = Inr node'" "row_seen (w_db w1) node'" "node_job_name node' = j" "node_run_id node' = rid"
    using sm(2) node by auto
  then have "w' = w1" "ns' = put_node j node' ns"
    using b 1 by (simp_all add: settle_in_def bind_act_def on_world_def set_row_def)
  then show "moves env w w' \<and> snap_ok (w_db w') rid ns' \<and> map fst ns' = map fst ns"
    using sm(1) snap_ok_put [OF snap_ok_moves [OF w(1) sm(1) w(2)] n'(3,4,2)] by simp
qed

lemma pkeeps_weaken:
  "pkeeps env rid P m \<Longrightarrow> (\<And>w. winv env w \<Longrightarrow> Q w \<Longrightarrow> P w) \<Longrightarrow> pkeeps env rid Q m"
  unfolding pkeeps_def by blast

text \<open>The node's row after a won claim.\<close>

definition claimed_row :: "NodeRow \<Rightarrow> string \<Rightarrow> orch_db \<Rightarrow> bool" where
  "claimed_row node u db \<longleftrightarrow> (\<exists>n \<in> set (o_nodes db). node_id n = node_id node \<and>
     node_run_id n = node_run_id node \<and> node_job_name n = node_job_name node \<and>
     node_status n \<noteq> NPending \<and> node_boss_job_id n = Some u)"

lemma stable_claimed: "stable env (\<lambda>w. claimed_row node u (w_db w))"
  unfolding stable_def
proof (intro allI impI)
  fix w w' assume w: "winv env w" "claimed_row node u (w_db w)" "moves env w w'"
  have ev: "db_evolves (w_db w) (w_db w')" using wstep_evolves w(1,3) by (auto simp: moves_def)
  obtain n where n: "n \<in> set (o_nodes (w_db w))" "node_id n = node_id node" "node_run_id n = node_run_id node"
    "node_job_name n = node_job_name node" "node_status n \<noteq> NPending" "node_boss_job_id n = Some u"
    using w(2) by (auto simp: claimed_row_def)
  obtain m where m: "m \<in> set (o_nodes (w_db w'))" "node_step n m" using ev n(1) by (auto simp: db_evolves_def)
  have "node_status m \<noteq> NPending"
    using m(2) n(5) by (cases "node_status n"; cases "node_status m") (auto simp: node_step_def status_rank_def)
  then show "claimed_row node u (w_db w')"
    using m n unfolding claimed_row_def by (intro bexI [of _ m]) (auto simp: node_step_def)
qed

lemma claimed_row_uses:
  assumes "winv env w" "claimed_row node u (w_db w)" "node_status node = NPending" "node_boss_job_id node = None"
  shows "row_seen (w_db w) (node\<lparr>node_stale := b\<rparr>)" "row_seen (w_db w) (node\<lparr>node_stale := b, node_status := NEnqueued\<rparr>)"
    "may_settle (w_db w) (node\<lparr>node_stale := b\<rparr>) NFailed"
    "member_send_ok (w_db w) \<lparr>s_name = node_job_name node, s_payload = EmptyPayload, s_startAfter = sa, s_id = Some u\<rparr>"
proof -
  obtain n where n: "n \<in> set (o_nodes (w_db w))" "node_id n = node_id node" "node_run_id n = node_run_id node"
    "node_job_name n = node_job_name node" "node_status n \<noteq> NPending" "node_boss_job_id n = Some u"
    using assms(2) by (auto simp: claimed_row_def)
  show "row_seen (w_db w) (node\<lparr>node_stale := b\<rparr>)" "row_seen (w_db w) (node\<lparr>node_stale := b, node_status := NEnqueued\<rparr>)"
    "member_send_ok (w_db w) \<lparr>s_name = node_job_name node, s_payload = EmptyPayload, s_startAfter = sa, s_id = Some u\<rparr>"
    using n assms(3,4) by (auto simp: row_seen_def member_send_ok_def)
  have "m = n" if "m \<in> set (o_nodes (w_db w))" "node_id m = node_id node" for m
    using nod.wf_same_row [OF orch_invD(2) [OF winv_orch [OF assms(1)]] that(1) n(1)] that(2) n(2) by simp
  then show "may_settle (w_db w) (node\<lparr>node_stale := b\<rparr>) NFailed"
    using n(5) by (auto simp: may_settle_def)
qed

text \<open>What makes a claim admissible: every hard upstream of the job is settled well.\<close>

definition may_claim :: "JobDag \<Rightarrow> NodeRow \<Rightarrow> orch_db \<Rightarrow> bool" where
  "may_claim dag node db \<longleftrightarrow> row_seen db node \<and>
     (\<exists>dn. map_of (nodes dag) (node_job_name node) = Some dn \<and>
       (\<forall>d \<in> set (n_deps dn). \<not> d_soft d \<longrightarrow> settled_well db (node_run_id node) (d_job d)))"

lemma claim_node:
  assumes inv: "winv env w" and inj: "inj (env_uuid env)" and may: "may_claim (env_dag env) node (w_db w)"
    and c: "claimNodePending (node_id node) (env_uuid env (w_uuids w)) st now (w_db w) = (b, db')"
  shows "moves env w (w\<lparr>w_db := db', w_uuids := w_uuids w + 1\<rparr>)"
    and "b \<Longrightarrow> claimed_row node (env_uuid env (w_uuids w)) db'"
proof -
  obtain k where k: "k \<in> set (o_nodes (w_db w))" "node_id k = node_id node" "node_run_id k = node_run_id node"
    "node_job_name k = node_job_name node"
    using may by (auto simp: may_claim_def row_seen_def)
  have only: "n = k" if "n \<in> set (o_nodes (w_db w))" "node_id n = node_id node" for n
    using nod.wf_same_row [OF orch_invD(2) [OF winv_orch [OF inv]] that(1) k(1)] that(2) k(2) by simp
  show "moves env w (w\<lparr>w_db := db', w_uuids := w_uuids w + 1\<rparr>)"
    by (rule moves_claim [OF inv inj c]) (use may k only in \<open>auto simp: may_claim_def\<close>)
  assume b
  then have "node_status k = NPending"
    using c only by (auto simp: claimNodePending_def update_nodes_def list_ex_iff)
  let ?p = "\<lambda>n. node_id n = node_id node \<and> node_status n = NPending"
  let ?f = "\<lambda>n. n\<lparr>node_status := NEnqueued, node_boss_job_id := Some (env_uuid env (w_uuids w)),
      node_stale := st, node_enqueued_at := Some now\<rparr>"
  have "o_nodes db' = update_where ?p ?f (o_nodes (w_db w))"
    using c by (auto simp: claimNodePending_def update_nodes_def)
  moreover have "?p k" using \<open>node_status k = NPending\<close> k(2) by simp
  ultimately have "?f k \<in> set (o_nodes db')" using in_update_where [OF k(1), of ?p ?f] by simp
  then show "claimed_row node (env_uuid env (w_uuids w)) db'"
    using k unfolding claimed_row_def by (intro bexI [of _ "?f k"]) simp_all
qed

lemma bind_pkeeps:
  assumes w: "winv env w" "snap_ok (w_db w) rid ns" and m: "m (w, ns) = (r1, (w1, ns1))"
    and 1: "moves env w w1" "snap_ok (w_db w1) rid ns1" "map fst ns1 = map fst ns"
    and 2: "\<And>a. r1 = Inr a \<Longrightarrow> pkeeps env rid (\<lambda>v. v = w1) (f a)"
    and b: "bind_act m f (w, ns) = (r, (w', ns'))"
  shows "moves env w w' \<and> snap_ok (w_db w') rid ns' \<and> map fst ns' = map fst ns"
  using b
proof (cases rule: bind_act_cases)
  case (err e)
  then show ?thesis using m 1 by simp
next
  case (ok a p)
  then have p: "p = (w1, ns1)" and r1: "r1 = Inr a" using m by auto
  have "winv env w1" using 1(1) by (simp add: moves_def)
  then show ?thesis
    using pkeepsD [OF 2 [OF r1]] ok(2) p 1 moves_trans [OF 1(1)] by metis
qed

text \<open>From the claimed row to the end of \<open>enqueue_node\<close>.\<close>

definition claimed_world :: "'b orch_env \<Rightarrow> NodeRow \<Rightarrow> string \<Rightarrow> 'b world \<Rightarrow> bool" where
  "claimed_world env node u w \<longleftrightarrow> winv env w \<and> claimed_row node u (w_db w)"

lemma stable_claimed_world: "stable env (claimed_world env node u)"
  using stable_claimed unfolding stable_def claimed_world_def moves_def by blast

lemma keeps_first_send:
  assumes "node_job_name node = j"
  shows "keeps env (claimed_world env node u) (boss_send_call env j EmptyPayload sa (Some u))"
  unfolding keeps_def
proof (intro allI impI)
  fix w r w' assume w: "winv env w" "claimed_world env node u w"
    and b: "boss_send_call env j EmptyPayload sa (Some u) w = (r, w')"
  have "member_send_ok (w_db w) \<lparr>s_name = j, s_payload = EmptyPayload, s_startAfter = sa, s_id = Some u\<rparr>"
    using w(2) assms by (auto simp: claimed_world_def claimed_row_def member_send_ok_def)
  then show "moves env w w'" using moves_send(1) [OF w(1) b] by blast
qed

lemma send_node_pkeeps:
  assumes node: "node_job_name node = j" "node_run_id node = rid" "node_status node = NPending" "node_boss_job_id node = None"
  shows "pkeeps env rid (claimed_world env node u)
      (bind_act (set_row j (node\<lparr>node_stale := b\<rparr>)) (\<lambda>_.
       bind_act (on_world (boss_send_call env j EmptyPayload sa (Some u)))
         (\<lambda>sentId.
       bind_act (if truthy sentId then ret True
                 else bind_act (on_world (boss_get_call env j u)) (\<lambda>existing.
                      ret (existing \<noteq> None))) (\<lambda>exists.
       if \<not> exists
       then settle_in j (node\<lparr>node_stale := b\<rparr>) NFailed
              ''boss.send returned null and no job exists for the reserved id'' now
       else bind_act (set_row j (node\<lparr>node_stale := b, node_status := NEnqueued\<rparr>)) (\<lambda>_. ret True)))))"
proof -
  note bind = pkeeps_bind [OF stable_claimed_world]
  have uses: "row_seen (w_db w) (node\<lparr>node_stale := b\<rparr>)"
      "row_seen (w_db w) (node\<lparr>node_stale := b, node_status := NEnqueued\<rparr>)"
      "may_settle (w_db w) (node\<lparr>node_stale := b\<rparr>) NFailed" if "claimed_world env node u w" for w
    using claimed_row_uses [OF _ _ node(3,4)] that by (auto simp: claimed_world_def)
  have set1: "pkeeps env rid (claimed_world env node u) (set_row j (node\<lparr>node_stale := b\<rparr>))"
    by (rule pkeeps_weaken [OF pkeeps_set_row]) (use node uses in auto)
  have set2: "pkeeps env rid (claimed_world env node u) (set_row j (node\<lparr>node_stale := b, node_status := NEnqueued\<rparr>))"
    by (rule pkeeps_weaken [OF pkeeps_set_row]) (use node uses in auto)
  have settle: "pkeeps env rid (claimed_world env node u) (settle_in j (node\<lparr>node_stale := b\<rparr>) NFailed d now)" for d
    by (rule pkeeps_weaken [OF settle_in_pkeeps]) (use node uses in auto)
  show ?thesis
    by (intro bind set1 set2 settle pkeeps_on_world keeps_first_send keeps_intros) (rule node(1))
qed

lemma enqueue_node_pkeeps:
  assumes inj: "inj (env_uuid env)"
    and node: "node_job_name node = j" "node_run_id node = rid" "node_status node = NPending" "node_boss_job_id node = None"
  shows "pkeeps env rid (\<lambda>w. may_claim (env_dag env) node (w_db w)) (enqueue_node env j node b now k)"
  unfolding pkeeps_def
proof (intro allI impI)
  fix w ns r w' ns'
  assume w: "winv env w" "snap_ok (w_db w) rid ns" "may_claim (env_dag env) node (w_db w)"
    and run: "enqueue_node env j node b now k (w, ns) = (r, (w', ns'))"
  obtain c db' where c: "claimNodePending (node_id node) (env_uuid env (w_uuids w)) b now (w_db w) = (c, db')" by fastforce
  let ?w1 = "w\<lparr>w_db := db', w_uuids := w_uuids w + 1\<rparr>"
  have eq: "w\<lparr>w_uuids := Suc (w_uuids w), w_db := db'\<rparr> = ?w1" by (cases w) simp
  note cl = claim_node [OF w(1) inj w(3) c]
  note sn = snap_ok_moves [OF w(1) cl(1) w(2)]
  show "moves env w w' \<and> snap_ok (w_db w') rid ns' \<and> map fst ns' = map fst ns"
  proof (cases c)
    case False
    then have "w' = ?w1" "ns' = ns"
      using run c eq by (simp_all add: enqueue_node_def bind_act_def on_world_def randomUUID_def)
    then show ?thesis using cl(1) sn by simp
  next
    case True
    let ?tail = "bind_act (set_row j (node\<lparr>node_stale := b\<rparr>)) (\<lambda>_.
       bind_act (on_world (boss_send_call env j EmptyPayload (start_after k) (Some (env_uuid env (w_uuids w)))))
         (\<lambda>sentId.
       bind_act (if truthy sentId then ret True
                 else bind_act (on_world (boss_get_call env j (env_uuid env (w_uuids w)))) (\<lambda>existing.
                      ret (existing \<noteq> None))) (\<lambda>exists.
       if \<not> exists
       then settle_in j (node\<lparr>node_stale := b\<rparr>) NFailed
              ''boss.send returned null and no job exists for the reserved id'' now
       else bind_act (set_row j (node\<lparr>node_stale := b, node_status := NEnqueued\<rparr>)) (\<lambda>_. ret True))))"
    have "enqueue_node env j node b now k (w, ns) = ?tail (?w1, ns)"
      using c True unfolding enqueue_node_def Let_def bind_act_def [of "on_world (randomUUID env)"]
        bind_act_def [of "on_world (run_db _)"]
      by (simp add: on_world_def randomUUID_def eq)
    then have tail: "?tail (?w1, ns) = (r, (w', ns'))" using run by metis
    have "claimed_world env node (env_uuid env (w_uuids w)) ?w1"
      using cl True by (simp add: claimed_world_def moves_def)
    moreover have "winv env ?w1" using cl(1) by (simp add: moves_def)
    ultimately show ?thesis
      using pkeepsD [OF send_node_pkeeps [OF node] _ sn _ tail] moves_trans [OF cl(1)] by blast
  qed
qed

lemma settled_well_seen:
  "row_seen db n \<Longrightarrow> node_status n \<in> {NSucceeded, NNotNeeded, NDegraded} \<Longrightarrow>
     settled_well db (node_run_id n) (node_job_name n)"
  by (auto simp: row_seen_def settled_well_def)

text \<open>The three checks before a claim establish the gate.\<close>

lemma ready_may_claim:
  assumes snap: "snap_ok db rid ns" and node: "map_of ns j = Some node"
    and dn: "map_of (nodes dag) j = Some dn"
    and ups: "find missing_hard (upstreams_of dn ns) = None" "find blocked_by (upstreams_of dn ns) = None"
      "list_all upstream_terminal (upstreams_of dn ns)"
  shows "may_claim dag node db"
proof -
  note n = snap_okD [OF snap node]
  have "settled_well db rid (d_job d)" if d: "d \<in> set (n_deps dn)" "\<not> d_soft d" for d
  proof -
    let ?u = "\<lparr>u_soft = d_soft d, u_job = d_job d, u_row = map_of ns (d_job d)\<rparr>"
    have u: "?u \<in> set (upstreams_of dn ns)" using d(1) by (auto simp: upstreams_of_def)
    have "\<not> missing_hard ?u" "\<not> blocked_by ?u" "upstream_terminal ?u"
      using u ups by (auto simp: find_None_iff list_all_iff)
    then obtain up where up: "map_of ns (d_job d) = Some up" "isTerminalNodeStatus (node_status up)"
      "node_status up \<notin> {NFailed, NSkipped}"
      using d(2) by (auto simp: missing_hard_def blocked_by_def upstream_terminal_def split: option.splits)
    then have "node_status up \<in> {NSucceeded, NNotNeeded, NDegraded}" by (cases "node_status up") auto
    then show ?thesis using settled_well_seen [of db up] snap_okD [OF snap up(1)] by auto
  qed
  then show ?thesis using n dn by (auto simp: may_claim_def)
qed

lemma skip_pkeeps:
  assumes "node_job_name node = j" "node_run_id node = rid"
  shows "pkeeps env rid (\<lambda>w. row_seen (w_db w) node) (settle_in j node NSkipped d now)"
  by (rule pkeeps_weaken [OF settle_in_pkeeps]) (use assms in \<open>auto simp: may_settle_def\<close>)

lemma keeps_not_needed: "keeps env P (run_db (claimNodeNotNeeded i d now))"
  unfolding keeps_def
proof (intro allI impI)
  fix w r w' assume w: "winv env w" and c: "run_db (claimNodeNotNeeded i d now) w = (r, w')"
  obtain b db' where "claimNodeNotNeeded i d now (w_db w) = (b, db')" by fastforce
  then show "moves env w w'" using moves_not_needed [OF w] c by auto
qed

lemma not_needed_pkeeps:
  assumes node: "node_job_name node = j" "node_run_id node = rid" "node_status node = NPending"
  shows "pkeeps env rid (\<lambda>w. row_seen (w_db w) node)
    (bind_act (on_world (run_db (claimNodeNotNeeded (node_id node) reason now))) (\<lambda>applied.
       if \<not> applied
       then bind_act (on_world (run_db (\<lambda>db. (loadNode db (node_id node), db)))) (\<lambda>fresh.
            case fresh of
              None \<Rightarrow> ret False
            | Some f \<Rightarrow> bind_act (set_row j f) (\<lambda>_. ret False))
       else bind_act (set_row j (node\<lparr>node_status := NNotNeeded,
              node_detail := Some reason, node_finished_at := Some now\<rparr>)) (\<lambda>_. ret False)))"
  unfolding pkeeps_def
proof (intro allI impI, goal_cases)
  case (1 w ns r w' ns')
  obtain b db' where c: "claimNodeNotNeeded (node_id node) reason now (w_db w) = (b, db')" by fastforce
  let ?w1 = "w\<lparr>w_db := db'\<rparr>" and ?p = "\<lambda>n. node_id n = node_id node \<and> node_status n = NPending"
  let ?f = "\<lambda>n. n\<lparr>node_status := NNotNeeded, node_detail := Some reason, node_finished_at := Some now\<rparr>"
  have m1: "moves env w ?w1" by (rule moves_not_needed [OF 1(1) c])
  have inv1: "orch_inv db'" using m1 by (simp add: moves_def winv_def)
  have sn: "snap_ok db' rid ns" using snap_ok_moves [OF 1(1) m1 1(2)] by simp
  have nodes: "o_nodes db' = update_where ?p ?f (o_nodes (w_db w))" and b: "b = list_ex ?p (o_nodes (w_db w))"
    using c by (auto simp: claimNodeNotNeeded_def update_nodes_def)
  obtain k where k: "k \<in> set (o_nodes (w_db w))" "node_id k = node_id node" "node_run_id k = rid" "node_job_name k = j"
    using 1(3) node by (auto simp: row_seen_def)
  have sn1: "snap_ok db' rid (put_node j (?f node) ns)" if applied: b
  proof -
    obtain k' where "k' \<in> set (o_nodes (w_db w))" "?p k'" using b applied by (auto simp: list_ex_iff)
    moreover then have "k' = k" using nod.wf_same_row [OF orch_invD(2) [OF winv_orch [OF 1(1)]]] k by simp
    ultimately have "?f k \<in> set (o_nodes db')" using in_update_where [OF k(1), of ?p ?f] nodes by simp
    moreover have "node_boss_job_id node = None" using 1(3) node(3) by (simp add: row_seen_def)
    ultimately have "row_seen db' (?f node)"
      unfolding row_seen_def using k node by (intro conjI bexI [of _ "?f k"]) auto
    then show ?thesis by (intro snap_ok_put [OF sn]) (use node in simp_all)
  qed
  have sn2: "snap_ok db' rid (put_node j f ns)" if "loadNode db' (node_id node) = Some f" for f
  proof -
    have f: "f \<in> set (o_nodes db')" "node_id f = node_id node"
      using row_by_SomeD [of node_id] that unfolding loadNode_def by blast+
    have "db_evolves (w_db w) db'" using wstep_evolves [OF 1(1), of ?w1] m1 by (simp add: moves_def)
    then have "node_step k f" using evolves_node [OF _ orch_invD(2) [OF inv1] k(1) f(1)] f(2) k(2) by simp
    then have "node_job_name f = j" "node_run_id f = rid" using k by (auto simp: node_step_def)
    then show ?thesis by (intro snap_ok_put [OF sn] row_seen_self [OF inv1 f(1)])
  qed
  show ?case
    using 1(4) c m1 sn sn1 sn2
    by (auto simp: bind_act_def on_world_def set_row_def split: if_splits option.splits)
qed

lemma advancePendingNode_keeps:
  assumes w: "winv env w" "snap_ok (w_db w) rid ns" and inj: "inj (env_uuid env)"
    and node: "map_of ns j = Some node" "node_status node = NPending"
    and run: "advancePendingNode env j node now k (w, ns) = (r, (w', ns'))"
  shows "moves env w w' \<and> snap_ok (w_db w') rid ns' \<and> map fst ns' = map fst ns"
proof -
  have n: "node_job_name node = j" "node_run_id node = rid" "row_seen (w_db w) node"
    using snap_okD [OF w(2) node(1)] by auto
  have boss: "node_boss_job_id node = None" using n(3) node(2) by (simp add: row_seen_def)
  note skip = pkeepsD [OF skip_pkeeps [OF n(1,2)] w n(3)]
  note none = pkeepsD [OF not_needed_pkeeps [OF n(1,2) node(2)] w n(3)]
  show ?thesis
  proof (cases "map_of (nodes (env_dag env)) j")
    case None
    then show ?thesis using run skip by (simp add: advancePendingNode_def)
  next
    case (Some dn)
    note run = run [unfolded advancePendingNode_def Some Let_def option.case snd_conv]
    show ?thesis
    proof (cases "find missing_hard (upstreams_of dn ns)")
      case (Some u)
      then show ?thesis using run skip by simp
    next
      case None
      note missing = None
      show ?thesis
      proof (cases "find blocked_by (upstreams_of dn ns)")
        case (Some u)
        then show ?thesis using run skip missing by simp
      next
        case None
        show ?thesis
        proof (cases "list_all upstream_terminal (upstreams_of dn ns)")
          case False
          then show ?thesis using run missing None w moves_refl by auto
        next
          case True
          have may: "may_claim (env_dag env) node (w_db w)"
            by (rule ready_may_claim [OF w(2) node(1) Some missing None True])
          note enq = pkeepsD [OF enqueue_node_pkeeps [OF inj n(1,2) node(2) boss] w may]
          show ?thesis
            using run missing None True enq none w moves_refl
            by (auto split: option.splits eligibility.splits)
        qed
      qed
    qed
  qed
qed

section \<open>Whole operations\<close>

lemma advance_nodes_keeps:
  assumes "winv env w" "snap_ok (w_db w) rid ns" "inj (env_uuid env)"
    and "advance_nodes env now jobs k (w, ns) = (r, (w', ns'))"
  shows "moves env w w' \<and> snap_ok (w_db w') rid ns' \<and> map fst ns' = map fst ns"
  using assms
proof (induction jobs arbitrary: k w ns)
  case Nil
  then show ?case using moves_refl by auto
next
  case (Cons j jobs)
  show ?case
  proof (cases "\<exists>node. map_of ns j = Some node \<and> node_status node = NPending")
    case False
    then have "advance_nodes env now jobs k (w, ns) = (r, (w', ns'))"
      using Cons.prems(4) by (auto split: option.splits)
    then show ?thesis using Cons.IH Cons.prems by blast
  next
    case True
    then obtain node where node: "map_of ns j = Some node" "node_status node = NPending" by blast
    obtain r1 w1 ns1 where 1: "advancePendingNode env j node now k (w, ns) = (r1, (w1, ns1))" by (metis surj_pair)
    note m1 = advancePendingNode_keeps [OF Cons.prems(1,2,3) node 1]
    have rest: "advance_nodes env now jobs (if r1 = Inr True then k + 1 else k) (w1, ns1) = (r, (w', ns'))"
      using Cons.prems(4) node 1 by (auto simp: catch_act_def split: sum.splits)
    have w1: "winv env w1" using m1 by (simp add: moves_def)
    from Cons.IH [OF w1 _ Cons.prems(3) rest] m1 show ?thesis using moves_trans [of env w w1 w'] by simp
  qed
qed

lemma keeps_catch_ret:
  assumes "stable env P" "keeps env P m"
  shows "keeps env P (catch_act m (\<lambda>_. ret a))"
  by (rule keeps_catch [OF assms keeps_ret])

text \<open>A condition about a list of rows read earlier.\<close>

definition rows_seen :: "NodeRow list \<Rightarrow> 'b world \<Rightarrow> bool" where
  "rows_seen ns w \<longleftrightarrow> (\<forall>n \<in> set ns. row_seen (w_db w) n)"

lemma stable_rows_seen: "stable env (rows_seen ns)"
  using stable_seen [of env] unfolding stable_def rows_seen_def by blast

lemma rows_seen_load: "orch_inv (w_db w) \<Longrightarrow> rows_seen (map snd (loadNodes (w_db w) r)) w"
  using row_seen_self by (auto simp: rows_seen_def loadNodes_eq run_nodes_def)

lemma keeps_seen_of_rows:
  "keeps env (\<lambda>w. row_seen (w_db w) n) m \<Longrightarrow> n \<in> set ns \<Longrightarrow> keeps env (rows_seen ns) m"
  by (erule keeps_weaken) (simp add: rows_seen_def)

lemma advanceRun_moves:
  assumes w: "winv env w" and inj: "inj (env_uuid env)" and run: "advanceRun env run now w = (r, w')"
  shows "moves env w w'" "\<exists>s. r = Inr s"
proof -
  define t where "t = (case env_timeoutSeconds env of None \<Rightarrow> NODE_TIMEOUT_SECONDS | Some t \<Rightarrow> t) * 1000"
  let ?inflight = "map snd (loadNodes (w_db w) (run_id run))"
  let ?poll = "for_each (\<lambda>node. catch_act (pollInflightNode env now t node) (\<lambda>_. ret ())) ?inflight"
  obtain r1 w1 where 1: "?poll w = (r1, w1)" by fastforce
  let ?ns = "loadNodes (w_db w1) (run_id run)"
  obtain r2 w2 ns2 where 2: "advance_nodes env now (map fst ?ns) 0 (w1, ?ns) = (r2, (w2, ns2))" by (metis surj_pair)
  have res: "r = Inr (summarize (map snd ns2))" and w': "w' = w2"
    using run 1 2 unfolding advanceRun_def Let_def t_def [symmetric] by simp_all
  show "\<exists>s. r = Inr s" using res by blast
  have "keeps env (rows_seen ?inflight) ?poll"
    by (intro keeps_for_each stable_rows_seen keeps_catch_ret keeps_seen_of_rows [OF pollInflightNode_keeps]) simp
  from keepsD [OF this w rows_seen_load [OF winv_orch [OF w]] 1] have m1: "moves env w w1" .
  then have w1: "winv env w1" by (simp add: moves_def)
  have "moves env w1 w2"
    using advance_nodes_keeps [OF w1 snap_ok_load [OF winv_orch [OF w1]] inj 2] by blast
  then show "moves env w w'" using w' moves_trans [OF m1] by simp
qed

lemma cancelRunInflightJobs_keeps: "keeps env P (cancelRunInflightJobs env run now)"
  unfolding keeps_def
proof (intro allI impI)
  fix w r w' assume w: "winv env w" and c: "cancelRunInflightJobs env run now w = (r, w')"
  let ?ns = "map snd (loadNodes (w_db w) (run_id run))"
  have body: "keeps env (\<lambda>w. row_seen (w_db w) node)
      (if isTerminalNodeStatus (node_status node) then ret ()
        else catch_act
          (if \<not> truthy (node_boss_job_id node)
           then bind_act (settleNode node NSkipped d1 now) (\<lambda>_. ret ())
           else bind_act (cancelBossJob env (node_job_name node) (the (node_boss_job_id node))) (\<lambda>cancelled.
                bind_act (settleNode node NFailed (d2 cancelled) now) (\<lambda>_. ret ())))
          (\<lambda>_. ret ()))" for node d1 d2
    by (intro keeps_intros keeps_catch_ret keeps_bind stable_seen)
      (auto simp: truthy_def split: option.splits)
  show "moves env w w'"
    using c unfolding cancelRunInflightJobs_def
    by (rule keepsD [OF keeps_for_each [OF stable_rows_seen keeps_seen_of_rows [OF body]] w
          rows_seen_load [OF winv_orch [OF w]], rotated]) simp
qed

lemma keeps_finish: "s \<noteq> RunRunning \<Longrightarrow> keeps env P (run_db (finishRun i s now))"
  unfolding keeps_def
proof (intro allI impI)
  fix w r w' assume s: "s \<noteq> RunRunning" and w: "winv env w" and f: "run_db (finishRun i s now) w = (r, w')"
  obtain b db' where "finishRun i s now (w_db w) = (b, db')" by fastforce
  then show "moves env w w'" using moves_finish [OF w s] f by auto
qed

lemma keeps_insert_members: "keeps env P (insert_members env r)"
  unfolding keeps_def insert_members_def
proof (intro allI impI)
  fix w res w' assume w: "winv env w"
    and t: "try_db (\<lambda>db. bind_result (insertNodes (env_newId env) r (member_names env) db) (\<lambda>db'. Inr ((), db'))) w = (res, w')"
  show "moves env w w'"
  proof (cases "insertNodes (env_newId env) r (member_names env) (w_db w)")
    case (Inl e)
    then show ?thesis using t moves_refl [OF w] by (simp add: try_db_def)
  next
    case (Inr db')
    then show ?thesis using t moves_insert [OF w Inr] by (simp add: try_db_def)
  qed
qed

lemma keeps_create: "keeps env P (try_db (createRunWithNodes (env_newId env) d t jobs now))"
  unfolding keeps_def
proof (intro allI impI)
  fix w r w' assume w: "winv env w" and c: "try_db (createRunWithNodes (env_newId env) d t jobs now) w = (r, w')"
  show "moves env w w'"
  proof (cases "createRunWithNodes (env_newId env) d t jobs now (w_db w)")
    case (Inl e)
    then show ?thesis using c moves_refl [OF w] by (simp add: try_db_def)
  next
    case (Inr x)
    obtain res db' where x: "x = (res, db')" by (cases x)
    then show ?thesis using c moves_create [OF w Inr [unfolded x]] Inr by (simp add: try_db_def)
  qed
qed

text \<open>The condition that a run's row exists; rows are never deleted.\<close>

definition run_exists :: "string \<Rightarrow> 'b world \<Rightarrow> bool" where
  "run_exists i w \<longleftrightarrow> i \<in> run_id ` set (o_runs (w_db w))"

lemma stable_run_exists: "stable env (run_exists i)"
  unfolding stable_def run_exists_def
proof (intro allI impI)
  fix w w' assume w: "winv env w" "i \<in> run_id ` set (o_runs (w_db w))" "moves env w w'"
  have ev: "db_evolves (w_db w) (w_db w')" using wstep_evolves w(1,3) by (auto simp: moves_def)
  obtain x where x: "x \<in> set (o_runs (w_db w))" "i = run_id x" using w(2) by auto
  obtain y where y: "y \<in> set (o_runs (w_db w'))" "run_step x y" using ev x(1) by (auto simp: db_evolves_alt)
  then have "i = run_id y" using x(2) by (simp add: run_step_def)
  with y(1) show "i \<in> run_id ` set (o_runs (w_db w'))" by simp
qed

lemma keeps_tick: "keeps env (run_exists i) (boss_send_call env ORCHESTRATOR_QUEUE (TickPayload i) sa None)"
  unfolding keeps_def
proof (intro allI impI)
  fix w r w' assume w: "winv env w" "run_exists i w"
    and b: "boss_send_call env ORCHESTRATOR_QUEUE (TickPayload i) sa None w = (r, w')"
  have "tick_send_ok (w_db w) \<lparr>s_name = ORCHESTRATOR_QUEUE, s_payload = TickPayload i, s_startAfter = sa, s_id = None\<rparr>"
    using w(2) by (auto simp: tick_send_ok_def run_exists_def)
  then show "moves env w w'" using moves_send(1) [OF w(1) b] by blast
qed

lemma keeps_advanceRun: "inj (env_uuid env) \<Longrightarrow> keeps env P (advanceRun env run now)"
  using advanceRun_moves(1) unfolding keeps_def by blast

lemma arm_tick_keeps:
  "keeps env (run_exists i)
      (if fin then ret summary
       else bind_act (boss_send_call env ORCHESTRATOR_QUEUE (TickPayload i) (Some TICK_INTERVAL_SECONDS) None)
              (\<lambda>tickId. if \<not> truthy tickId then throw (TickNotArmed i) else ret summary))"
  by (intro keeps_if keeps_ret keeps_bind stable_run_exists keeps_tick keeps_throw)

lemma advanceAndContinue_keeps:
  assumes "inj (env_uuid env)"
  shows "keeps env (run_exists (run_id run)) (advanceAndContinue env run now)"
proof -
  note bind = keeps_bind [OF stable_run_exists]
  have inner: "keeps env (run_exists (run_id run))
      (catch_act
         (bind_act (advanceRun env run now) (\<lambda>summary.
          if sm_complete summary
          then bind_act (run_db (finishRun (run_id run) RunCompleted now)) (\<lambda>_. ret (Some summary, True))
          else ret (Some summary, False)))
         (\<lambda>_. ret (None, False)))"
    by (intro keeps_catch_ret stable_run_exists bind keeps_advanceRun assms keeps_intros keeps_finish) simp
  show ?thesis
    unfolding advanceAndContinue_def
    by (rule bind [OF inner]) (simp only: split_beta arm_tick_keeps)
qed

text \<open>The run a lookup returns has a row.\<close>

lemma find_run_exists: "find p (o_runs (w_db w)) = Some r \<Longrightarrow> run_exists (run_id r) w"
  by (auto simp: run_exists_def find_Some_iff)

lemma drive_keeps:
  assumes "inj (env_uuid env)"
  shows "keeps env (run_exists (run_id run))
    (bind_act (insert_members env (run_id run)) (\<lambda>_. bind_act (advanceAndContinue env run now) (\<lambda>_. ret x)))"
  by (intro keeps_bind stable_run_exists keeps_insert_members advanceAndContinue_keeps assms keeps_ret)

lemma runOrchestratorTick_keeps:
  assumes inj: "inj (env_uuid env)"
  shows "keeps env P (runOrchestratorTick env i now)"
  unfolding keeps_def
proof (intro allI impI)
  fix w r w' assume w: "winv env w" and t: "runOrchestratorTick env i now w = (r, w')"
  let ?run = "if truthy i then getActiveRunById (the i) (w_db w) else getActiveRunForDate (env_localDate env now) (w_db w)"
  show "moves env w w'"
  proof (cases ?run)
    case None
    then show ?thesis using t moves_refl [OF w] by (auto simp: runOrchestratorTick_def bind_act_def split: if_splits)
  next
    case (Some x)
    then have ex: "run_exists (run_id x) w"
      using find_run_exists by (auto simp: getActiveRunById_def getActiveRunForDate_def split: if_splits)
    have "bind_act (insert_members env (run_id x)) (\<lambda>_. bind_act (advanceAndContinue env x now) (\<lambda>_. ret ())) w = (r, w')"
      using t Some by (simp add: runOrchestratorTick_def bind_act_def [of "run_db _"])
    from keepsD [OF drive_keeps [OF inj] w ex this] show ?thesis .
  qed
qed

lemma abandon_leftover_keeps: "keeps env P (abandon_leftover env d now run)"
proof -
  have "keeps env (\<lambda>w. True) (abandon_leftover env d now run)"
    unfolding abandon_leftover_def
    by (intro keeps_if keeps_ret keeps_bind stable_True keeps_finish cancelRunInflightJobs_keeps) simp
  then show ?thesis by (rule keeps_weaken) simp
qed

text \<open>\<open>runOrchestratorStart\<close> in three steps.\<close>

definition start_run :: "'b orch_env \<Rightarrow> RunTrigger \<Rightarrow> int \<Rightarrow> ('b world, RunRow option) act" where
  "start_run env trigger now w =
     (let runDate = env_localDate env now; active = getActiveRunForDate runDate (w_db w) in
      if active = None \<and> trigger = Cron \<and> getLatestRunForDate runDate (w_db w) \<noteq> None then (Inr None, w)
      else (if active \<noteq> None then ret active
           else bind_act (try_db (createRunWithNodes (env_newId env) runDate trigger (member_names env) now))
             (\<lambda>created.
              if created \<noteq> None then ret created
              else run_db (\<lambda>db. (getActiveRunForDate runDate db, db)))) w)"

definition drive_run :: "'b orch_env \<Rightarrow> int \<Rightarrow> RunRow option \<Rightarrow> ('b world, RunRow option) act" where
  "drive_run env now run = (case run of
       None \<Rightarrow> ret None
     | Some r \<Rightarrow>
         bind_act (insert_members env (run_id r)) (\<lambda>_.
         bind_act (advanceAndContinue env r now) (\<lambda>_. ret (Some r))))"

lemma runOrchestratorStart_alt:
  "runOrchestratorStart env trigger now w =
     bind_act (for_each (abandon_leftover env (env_localDate env now) now) (listActiveRuns (w_db w)))
       (\<lambda>_. bind_act (start_run env trigger now) (drive_run env now)) w"
proof -
  have "bind_act (run_db (\<lambda>db. (getActiveRunForDate d db, db))) (\<lambda>active.
      bind_act (run_db (\<lambda>db. (getLatestRunForDate d db, db))) (\<lambda>latest. k active latest)) v =
      k (getActiveRunForDate d (w_db v)) (getLatestRunForDate d (w_db v)) v" for d k v
    by (simp add: bind_act_def)
  then show ?thesis
    unfolding runOrchestratorStart_def Let_def drive_run_def
    by (intro arg_cong [where f = "\<lambda>f. bind_act _ f w"] ext)
      (auto simp: start_run_def Let_def bind_act_def drive_run_def ret_def split: prod.splits sum.splits option.splits)
qed

lemma createRunWithNodes_exists:
  assumes "createRunWithNodes newId d t jobs now db = Inr (Some r, db')"
  shows "run_id r \<in> run_id ` set (o_runs db')"
proof -
  obtain db1 where "createRun newId d t now db = (Some r, db1)" "insertNodes newId (run_id r) jobs db1 = Inr db'"
    using assms by (auto simp: createRunWithNodes_Inr)
  moreover have "o_runs (insert_nodes newId q jobs db1) = o_runs db1" for q
    by (induction newId q jobs db1 rule: insert_nodes.induct) auto
  ultimately show ?thesis by (auto simp: createRun_Some insertNodes_Inr)
qed

lemma start_run_moves:
  assumes w: "winv env w" and s: "start_run env trigger now w = (r, w')"
  shows "moves env w w'" "r = Inr (Some x) \<Longrightarrow> run_exists (run_id x) w'"
proof -
  let ?d = "env_localDate env now"
  let ?create = "createRunWithNodes (env_newId env) ?d trigger (member_names env) now (w_db w)"
  consider (active) y where "getActiveRunForDate ?d (w_db w) = Some y"
    | (guard) "getActiveRunForDate ?d (w_db w) = None" "trigger = Cron \<and> getLatestRunForDate ?d (w_db w) \<noteq> None"
    | (none) "getActiveRunForDate ?d (w_db w) = None" "\<not> (trigger = Cron \<and> getLatestRunForDate ?d (w_db w) \<noteq> None)"
    by (cases "getActiveRunForDate ?d (w_db w)") blast+
  then have c: "(w' = w \<and> (r = Inr None \<or> (\<exists>e. r = Inl e) \<or> r = Inr (getActiveRunForDate ?d (w_db w)))) \<or>
      (\<exists>y db'. ?create = Inr (Some y, db') \<and> w' = w\<lparr>w_db := db'\<rparr> \<and> r = Inr (Some y)) \<or>
      (\<exists>db'. ?create = Inr (None, db') \<and> w' = w\<lparr>w_db := db'\<rparr> \<and> r = Inr (getActiveRunForDate ?d db'))"
  proof cases
    case none
    then have g: "\<not> (getActiveRunForDate ?d (w_db w) = None \<and> trigger = Cron \<and>
        getLatestRunForDate ?d (w_db w) \<noteq> None)" by blast
    note s = s [unfolded start_run_def Let_def if_not_P [OF g]]
    show ?thesis
    proof (cases ?create)
      case (Inl e)
      then show ?thesis using s none(1) by (auto simp: bind_act_def try_db_def)
    next
      case (Inr z)
      obtain o1 db' where z: "z = (o1, db')" by (cases z)
      show ?thesis
        using s none(1) Inr unfolding z by (cases o1) (auto simp: bind_act_def try_db_def)
    qed
  qed (use s in \<open>simp_all add: start_run_def Let_def\<close>)
  show "moves env w w'"
    using c moves_refl [OF w] moves_create [OF w] by blast
  assume r: "r = Inr (Some x)"
  from c show "run_exists (run_id x) w'"
  proof (elim disjE exE conjE)
    fix y db' assume "?create = Inr (Some y, db')" "w' = w\<lparr>w_db := db'\<rparr>" "r = Inr (Some y)"
    then show ?thesis using r createRunWithNodes_exists [of _ _ _ _ _ _ y db'] by (simp add: run_exists_def)
  qed (use r find_run_exists [of _ w'] in \<open>auto simp: getActiveRunForDate_def\<close>)
qed

lemma runOrchestratorStart_moves:
  assumes w: "winv env w" and inj: "inj (env_uuid env)" and s: "runOrchestratorStart env trigger now w = (r, w')"
  shows "moves env w w'"
proof -
  let ?sweep = "for_each (abandon_leftover env (env_localDate env now) now) (listActiveRuns (w_db w))"
  have sweep: "keeps env (\<lambda>w. True) ?sweep"
    by (intro keeps_for_each stable_True abandon_leftover_keeps)
  from s [unfolded runOrchestratorStart_alt] show ?thesis
  proof (cases rule: bind_act_cases)
    case (err e)
    show ?thesis by (rule keepsD [OF sweep w TrueI err(1)])
  next
    case (ok u w1)
    have m1: "moves env w w1" by (rule keepsD [OF sweep w TrueI ok(1)])
    then have w1: "winv env w1" by (simp add: moves_def)
    from ok(2) show ?thesis
    proof (cases rule: bind_act_cases)
      case (err e)
      then show ?thesis using start_run_moves(1) [OF w1] moves_trans [OF m1] by blast
    next
      case (ok x w2)
      have m2: "moves env w w2" using start_run_moves(1) [OF w1 ok(1)] moves_trans [OF m1] by blast
      then have w2: "winv env w2" by (simp add: moves_def)
      show ?thesis
      proof (cases x)
        case None
        then show ?thesis using ok(2) m2 by (simp add: drive_run_def)
      next
        case (Some y)
        have ex: "run_exists (run_id y) w2" using start_run_moves(2) [OF w1 ok(1)] Some by simp
        have run: "bind_act (insert_members env (run_id y)) (\<lambda>_.
            bind_act (advanceAndContinue env y now) (\<lambda>_. ret (Some y))) w2 = (r, w')"
          using ok(2) Some by (simp add: drive_run_def)
        show ?thesis by (rule moves_trans [OF m2 keepsD [OF drive_keeps [OF inj] w2 ex run]])
      qed
    qed
  qed
qed

lemma runOrchestratorCatchUp_moves:
  assumes w: "winv env w" and inj: "inj (env_uuid env)" and s: "runOrchestratorCatchUp env now w = (r, w')"
  shows "moves env w w'"
proof -
  have start: "keeps env (\<lambda>w. True) (runOrchestratorStart env trigger now)" for trigger
    using runOrchestratorStart_moves [OF _ inj] unfolding keeps_def by blast
  have "keeps env (\<lambda>w. True) (runOrchestratorCatchUp env now)"
    unfolding runOrchestratorCatchUp_def
    by (intro keeps_catch_ret stable_True)
      (auto split: sum.splits intro!: keeps_throw keeps_ret keeps_bind stable_True start keeps_read)
  from keepsD [OF this w TrueI s] show ?thesis .
qed

section \<open>Interleaved passes\<close>

text \<open>
  The system: the tables, the queue and the passes in progress, each with the run it drives and
  the snapshot it works on. Several workers may be polling and advancing the same run at the same
  time, each one node at a time, while others create, abandon and close runs; the queue's own
  state may change at any point. The whole operations of one worker are steps as well.
\<close>

definition empty_world :: "'b world \<Rightarrow> bool" where
  "empty_world w \<longleftrightarrow> o_runs (w_db w) = [] \<and> o_nodes (w_db w) = [] \<and> w_sends w = []"

inductive orch_reach :: "'b orch_env \<Rightarrow> 'b world \<Rightarrow> (string \<times> snapshot) list \<Rightarrow> bool" for env where
  empty: "empty_world w \<Longrightarrow> orch_reach env w []"
| queue: "orch_reach env w ps \<Longrightarrow> orch_reach env (w\<lparr>w_boss := b\<rparr>) ps"
| open_pass: "orch_reach env w ps \<Longrightarrow> orch_reach env w ((rid, loadNodes (w_db w) rid) # ps)"
| poll: "orch_reach env w ps \<Longrightarrow> (rid, ns) \<in> set ps \<Longrightarrow> (j, n) \<in> set ns \<Longrightarrow>
    pollInflightNode env now t n w = (r, w') \<Longrightarrow> orch_reach env w' ps"
| advance: "orch_reach env w (ps @ (rid, ns) # qs) \<Longrightarrow> map_of ns j = Some n \<Longrightarrow> node_status n = NPending \<Longrightarrow>
    advancePendingNode env j n now k (w, ns) = (r, (w', ns')) \<Longrightarrow>
    orch_reach env w' (ps @ (rid, ns') # qs)"
| join: "orch_reach env w ps \<Longrightarrow> insert_members env rid w = (r, w') \<Longrightarrow> orch_reach env w' ps"
| create: "orch_reach env w ps \<Longrightarrow> start_run env trigger now w = (r, w') \<Longrightarrow> orch_reach env w' ps"
| finish: "orch_reach env w ps \<Longrightarrow> s \<noteq> RunRunning \<Longrightarrow> run_db (finishRun i s now) w = (r, w') \<Longrightarrow>
    orch_reach env w' ps"
| sweep: "orch_reach env w ps \<Longrightarrow> cancelRunInflightJobs env run now w = (r, w') \<Longrightarrow> orch_reach env w' ps"
| anchor: "orch_reach env w ps \<Longrightarrow> runOrchestratorStart env trigger now w = (r, w') \<Longrightarrow> orch_reach env w' ps"
| tick: "orch_reach env w ps \<Longrightarrow> runOrchestratorTick env i now w = (u, w') \<Longrightarrow> orch_reach env w' ps"
| boot: "orch_reach env w ps \<Longrightarrow> runOrchestratorCatchUp env now w = (out, w') \<Longrightarrow> orch_reach env w' ps"

definition passes_ok :: "'b world \<Rightarrow> (string \<times> snapshot) list \<Rightarrow> bool" where
  "passes_ok w ps \<longleftrightarrow> (\<forall>(rid, ns) \<in> set ps. snap_ok (w_db w) rid ns)"

lemma passes_ok_moves: "winv env w \<Longrightarrow> moves env w w' \<Longrightarrow> passes_ok w ps \<Longrightarrow> passes_ok w' ps"
  using snap_ok_moves unfolding passes_ok_def by fast

lemma winv_empty: "empty_world w \<Longrightarrow> winv env w"
  by (simp add: empty_world_def winv_def orch_inv_def ids_ok_def gate_ok_def listActiveRuns_def nod.wf_def
      njob.wf_def rn.wf_def)

lemma orch_reach_inv:
  assumes inj: "inj (env_uuid env)"
  shows "orch_reach env w ps \<Longrightarrow> winv env w \<and> passes_ok w ps"
proof (induction rule: orch_reach.induct)
  case (empty w)
  then show ?case using winv_empty by (auto simp: passes_ok_def)
next
  case (queue w ps b)
  then show ?case using moves_boss passes_ok_moves by (metis moves_def)
next
  case (open_pass w ps rid)
  then show ?case using snap_ok_load winv_orch by (auto simp: passes_ok_def)
next
  case (poll w ps rid ns j n now t r w')
  then have "row_seen (w_db w) n" by (auto simp: passes_ok_def snap_ok_def)
  then have "moves env w w'" using keepsD [OF pollInflightNode_keeps] poll by blast
  then show ?case using passes_ok_moves poll by (auto simp: moves_def)
next
  case (advance w ps rid ns qs j n now k r w' ns')
  then have "snap_ok (w_db w) rid ns" by (auto simp: passes_ok_def)
  then have "moves env w w'" "snap_ok (w_db w') rid ns'"
    using advancePendingNode_keeps [OF _ _ inj advance.hyps(2,3,4)] advance.IH by blast+
  then show ?case
    using passes_ok_moves [of env w w' "ps @ (rid, ns) # qs"] advance.IH by (auto simp: passes_ok_def moves_def)
next
  case (join w ps rid r w')
  then have "moves env w w'" using keepsD [OF keeps_insert_members _ TrueI] by blast
  then show ?case using passes_ok_moves join.IH by (auto simp: moves_def)
next
  case (create w ps trigger now r w')
  then have "moves env w w'" using start_run_moves(1) by blast
  then show ?case using passes_ok_moves create.IH by (auto simp: moves_def)
next
  case (finish w ps s i now r w')
  then have "moves env w w'" using keepsD [OF keeps_finish _ TrueI] by blast
  then show ?case using passes_ok_moves finish.IH by (auto simp: moves_def)
next
  case (sweep w ps run now r w')
  then have "moves env w w'" using keepsD [OF cancelRunInflightJobs_keeps _ TrueI] by blast
  then show ?case using passes_ok_moves sweep.IH by (auto simp: moves_def)
next
  case (anchor w ps trigger now r w')
  then have "moves env w w'" using runOrchestratorStart_moves inj by blast
  then show ?case using passes_ok_moves anchor.IH by (auto simp: moves_def)
next
  case (tick w ps i now u w')
  then have "moves env w w'" using keepsD [OF runOrchestratorTick_keeps [OF inj] _ TrueI] by blast
  then show ?case using passes_ok_moves tick.IH by (auto simp: moves_def)
next
  case (boot w ps now out w')
  then have "moves env w w'" using runOrchestratorCatchUp_moves inj by blast
  then show ?case using passes_ok_moves boot.IH by (auto simp: moves_def)
qed

end
