(* ===== verification/OrchestratorOutcomes.thy ===== *)
theory OrchestratorOutcomes
  imports OrchestratorRuns
begin

text \<open>
  What the operations achieve: which rows they leave alone, what a sweep settles, when a run is
  closed, and that a pass over a finished queue makes progress.
\<close>

section \<open>What an action can change\<close>

text \<open>\<open>within R m\<close>: the state after \<open>m\<close>, thrown or returned, is \<open>R\<close>-related to the state before.\<close>

definition within :: "('w \<Rightarrow> 'w \<Rightarrow> bool) \<Rightarrow> ('w, 'a) act \<Rightarrow> bool" where
  "within R m \<longleftrightarrow> (\<forall>w. R w (snd (m w)))"

lemma withinD: "within R m \<Longrightarrow> m w = (r, w') \<Longrightarrow> R w w'"
  unfolding within_def by (metis snd_conv)

lemma withinI: "(\<And>w r w'. m w = (r, w') \<Longrightarrow> R w w') \<Longrightarrow> within R m"
  unfolding within_def by (metis surj_pair snd_conv)

locale effect_order =
  fixes R :: "'w \<Rightarrow> 'w \<Rightarrow> bool"
  assumes refl: "R w w" and trans: "R a b \<Longrightarrow> R b c \<Longrightarrow> R a c"
begin

lemma basic: "within R (ret a)" "within R (throw e)"
  by (simp_all add: within_def refl)

lemma bind: "within R m \<Longrightarrow> (\<And>a. within R (f a)) \<Longrightarrow> within R (bind_act m f)"
  by (rule withinI) (auto elim!: bind_act_cases dest: withinD intro: trans)

lemma catch: "within R m \<Longrightarrow> (\<And>e. within R (h e)) \<Longrightarrow> within R (catch_act m h)"
  by (rule withinI) (auto elim!: catch_act_cases dest: withinD intro: trans)

lemma cond: "within R m \<Longrightarrow> within R m' \<Longrightarrow> within R (if b then m else m')"
  by simp

lemma loop: "(\<And>x. within R (f x)) \<Longrightarrow> within R (for_each f xs)"
  by (induction xs) (auto intro: basic bind)

end

section \<open>Passes neither create nor remove rows, and close no run\<close>

definition table_keys :: "'b world \<Rightarrow> RunRow list \<times> (string \<times> string \<times> string) list" where
  "table_keys w = (o_runs (w_db w), map (\<lambda>n. (node_id n, node_run_id n, node_job_name n)) (o_nodes (w_db w)))"

definition same_tables :: "'b world \<Rightarrow> 'b world \<Rightarrow> bool" where
  "same_tables w w' \<longleftrightarrow> table_keys w' = table_keys w"

abbreviation steady :: "('b world, 'a) act \<Rightarrow> bool" where
  "steady m \<equiv> within same_tables m"

interpretation st: effect_order same_tables
  by unfold_locales (simp_all add: same_tables_def)

named_theorems steady_intros \<open>rules for \<open>steady\<close>\<close>

lemmas [steady_intros] = st.basic st.bind st.catch st.cond st.loop

lemma steadyD: "steady m \<Longrightarrow> m w = (r, w') \<Longrightarrow> table_keys w' = table_keys w"
  using withinD [of same_tables] by (simp add: same_tables_def)

lemma steadyI: "(\<And>w r w'. m w = (r, w') \<Longrightarrow> table_keys w' = table_keys w) \<Longrightarrow> steady m"
  by (rule withinI) (simp add: same_tables_def)

lemma steady_queue [steady_intros]:
  "steady (boss_send_call env name p sa i)" "steady (boss_get_call env name j)" "steady (cancelBossJob env name j)"
  "steady (randomUUID env)"
  by (auto simp: within_def same_tables_def table_keys_def boss_send_call_def boss_get_call_def cancelBossJob_def
      randomUUID_def split: prod.splits sum.splits)

lemma steady_read [steady_intros]: "steady (run_db (\<lambda>db. (f db, db)))"
  by (simp add: within_def same_tables_def)

lemma map_update_where: "(\<And>x. p x \<Longrightarrow> key (f x) = key x) \<Longrightarrow> map key (update_where p f xs) = map key xs"
  by (induction xs) auto

lemma steady_updates [steady_intros]:
  "steady (run_db (updateNodeStatus i s d now))" "steady (run_db (claimNodePending i u st now))"
  "steady (run_db (claimNodeNotNeeded i e now))"
  by (auto simp: within_def same_tables_def table_keys_def updateNodeStatus_def claimNodePending_def claimNodeNotNeeded_def
      update_nodes_def Let_def intro!: map_update_where)

lemma steady_settle [steady_intros]: "steady (settleNode node s d now)"
  unfolding settleNode_def by (intro steady_intros)

lemma steady_poll [steady_intros]: "steady (pollInflightNode env now t node)"
  unfolding pollInflightNode_def poll_job_def poll_unresolved_def Let_def by (intro steady_intros)

definition same_pass_tables :: "'b pass \<Rightarrow> 'b pass \<Rightarrow> bool" where
  "same_pass_tables ps ps' \<longleftrightarrow> same_tables (fst ps) (fst ps')"

abbreviation psteady :: "('b pass, 'a) act \<Rightarrow> bool" where
  "psteady m \<equiv> within same_pass_tables m"

interpretation pst: effect_order same_pass_tables
  by unfold_locales (simp_all add: same_pass_tables_def same_tables_def)

lemmas [steady_intros] = pst.basic pst.bind pst.cond

lemma psteadyD: "psteady m \<Longrightarrow> m ps = (r, ps') \<Longrightarrow> table_keys (fst ps') = table_keys (fst ps)"
  using withinD [of same_pass_tables] by (simp add: same_pass_tables_def same_tables_def)

lemma psteady_set_row [steady_intros]: "psteady (set_row j n)"
  by (simp add: within_def same_pass_tables_def same_tables_def set_row_def)

lemma psteady_on_world [steady_intros]: "steady m \<Longrightarrow> psteady (on_world m)"
  by (auto simp: within_def same_pass_tables_def on_world_def split: prod.splits) (metis snd_conv)

lemma psteady_settle_in [steady_intros]: "psteady (settle_in j node s d now)"
  unfolding settle_in_def by (intro steady_intros)

lemma psteady_enqueue [steady_intros]: "psteady (enqueue_node env j node st now k)"
  unfolding enqueue_node_def Let_def by (intro steady_intros)

lemma psteady_not_needed:
  "psteady (bind_act (on_world (run_db (claimNodeNotNeeded i reason now))) (\<lambda>applied.
       if \<not> applied
       then bind_act (on_world (run_db (\<lambda>db. (loadNode db i, db)))) (\<lambda>fresh.
            case fresh of
              None \<Rightarrow> ret False
            | Some f \<Rightarrow> bind_act (set_row j f) (\<lambda>_. ret False))
       else bind_act (set_row j node') (\<lambda>_. ret False)))"
  by (intro steady_intros) (auto split: option.split intro!: steady_intros)

lemma psteady_advance [steady_intros]: "psteady (advancePendingNode env j node now k)"
proof -
  have *: "same_pass_tables ps (snd (m ps))" if "psteady m" for m :: "('b pass, bool) act" and ps
    using that unfolding within_def by blast
  show ?thesis
    unfolding within_def advancePendingNode_def Let_def
    by (simp add: * [OF psteady_settle_in] * [OF psteady_enqueue] * [OF psteady_not_needed] * [OF pst.basic(1)]
        * [OF pst.basic(2)] pst.refl split: option.split eligibility.split)
qed

text \<open>The loop of a pass, one entry at a time.\<close>

lemma advance_nodes_cases:
  assumes a: "advance_nodes env now (j # jobs) k ps = (r, ps')"
  obtains (skip) "\<And>node. map_of (snd ps) j = Some node \<Longrightarrow> node_status node \<noteq> NPending"
      "advance_nodes env now jobs k ps = (r, ps')"
  | (advance) node r1 ps1 k1 where "map_of (snd ps) j = Some node" "node_status node = NPending"
      "advancePendingNode env j node now k ps = (r1, ps1)" "advance_nodes env now jobs k1 ps1 = (r, ps')"
proof (cases "\<exists>node. map_of (snd ps) j = Some node \<and> node_status node = NPending")
  case False
  then show ?thesis using skip a by (auto split: option.splits)
next
  case True
  then obtain node where node: "map_of (snd ps) j = Some node" "node_status node = NPending" by blast
  obtain r1 ps1 where 1: "advancePendingNode env j node now k ps = (r1, ps1)" by (metis surj_pair)
  have "advance_nodes env now jobs (if r1 = Inr True then k + 1 else k) ps1 = (r, ps')"
    using a node 1 by (auto simp: catch_act_def split: sum.splits)
  then show ?thesis using advance node 1 by blast
qed

lemma psteady_advance_nodes: "psteady (advance_nodes env now jobs k)"
proof (induction jobs arbitrary: k)
  case Nil
  then show ?case by (simp add: within_def pst.refl)
next
  case (Cons j jobs)
  show ?case
    by (rule withinI, erule advance_nodes_cases)
      (use withinD [OF Cons.IH] withinD [OF psteady_advance] pst.trans in blast)+
qed

lemma advanceRun_split:
  obtains w1 ns r2 w2 ns2 where
    "for_each (\<lambda>node. catch_act (pollInflightNode env now
        ((case env_timeoutSeconds env of None \<Rightarrow> NODE_TIMEOUT_SECONDS | Some t \<Rightarrow> t) * 1000) node) (\<lambda>_. ret ()))
      (map snd (loadNodes (w_db w) (run_id run))) w = (Inr (), w1)"
    "ns = loadNodes (w_db w1) (run_id run)"
    "advance_nodes env now (map fst ns) 0 (w1, ns) = (r2, (w2, ns2))"
    "advanceRun env run now w = (Inr (summarize (map snd ns2)), w2)"
proof -
  define t where "t = (case env_timeoutSeconds env of None \<Rightarrow> NODE_TIMEOUT_SECONDS | Some t \<Rightarrow> t) * 1000"
  let ?poll = "for_each (\<lambda>node. catch_act (pollInflightNode env now t node) (\<lambda>_. ret ()))
      (map snd (loadNodes (w_db w) (run_id run)))"
  have ok: "\<exists>w'. for_each (\<lambda>node. catch_act (pollInflightNode env now t node) (\<lambda>_. ret ())) ns v = (Inr (), w')" for ns v
    by (induction ns arbitrary: v) (auto simp: bind_act_def catch_act_def split: prod.splits sum.splits)
  then obtain w1 where 1: "?poll w = (Inr (), w1)" by blast
  obtain r2 w2 ns2 where 2: "advance_nodes env now (map fst (loadNodes (w_db w1) (run_id run))) 0
      (w1, loadNodes (w_db w1) (run_id run)) = (r2, (w2, ns2))" by (metis surj_pair)
  have "advanceRun env run now w = (Inr (summarize (map snd ns2)), w2)"
    using 1 2 unfolding advanceRun_def Let_def t_def [symmetric] by simp
  then show ?thesis using that 1 2 unfolding t_def by blast
qed

lemma steady_advanceRun [steady_intros]: "steady (advanceRun env run now)"
proof (rule steadyI)
  fix w r w' assume a: "advanceRun env run now w = (r, w')"
  show "table_keys w' = table_keys w"
  proof (rule advanceRun_split [of env now w run])
    fix w1 ns r2 w2 ns2
    let ?poll = "for_each (\<lambda>node. catch_act (pollInflightNode env now
        ((case env_timeoutSeconds env of None \<Rightarrow> NODE_TIMEOUT_SECONDS | Some t \<Rightarrow> t) * 1000) node) (\<lambda>_. ret ()))
      (map snd (loadNodes (w_db w) (run_id run)))"
    assume 1: "?poll w = (Inr (), w1)"
      and 2: "advance_nodes env now (map fst ns) 0 (w1, ns) = (r2, (w2, ns2))"
      and 3: "advanceRun env run now w = (Inr (summarize (map snd ns2)), w2)"
    have "steady ?poll" by (intro steady_intros)
    from steadyD [OF this 1] have "table_keys w1 = table_keys w" .
    moreover have "table_keys w2 = table_keys w1" using psteadyD [OF psteady_advance_nodes 2] by simp
    ultimately show ?thesis using 3 a by simp
  qed
qed

lemma steady_sweep [steady_intros]: "steady (cancelRunInflightJobs env run now)"
  by (rule steadyI, unfold cancelRunInflightJobs_def, rule steadyD [rotated]) (assumption, intro steady_intros)

section \<open>Closing a run keeps the rows\<close>

definition row_keys :: "'b world \<Rightarrow> (string \<times> string) list \<times> (string \<times> string \<times> string) list" where
  "row_keys w = (map (\<lambda>r. (run_id r, run_date r)) (o_runs (w_db w)), snd (table_keys w))"

definition same_rows :: "'b world \<Rightarrow> 'b world \<Rightarrow> bool" where
  "same_rows w w' \<longleftrightarrow> row_keys w' = row_keys w"

abbreviation fixed :: "('b world, 'a) act \<Rightarrow> bool" where
  "fixed m \<equiv> within same_rows m"

interpretation fx: effect_order same_rows
  by unfold_locales (simp_all add: same_rows_def)

named_theorems fixed_intros \<open>rules for \<open>fixed\<close>\<close>

lemmas [fixed_intros] = fx.basic fx.bind fx.catch fx.cond fx.loop

lemma fixedD: "fixed m \<Longrightarrow> m w = (r, w') \<Longrightarrow> row_keys w' = row_keys w"
  using withinD [of same_rows] by (simp add: same_rows_def)

lemma steady_rows: "table_keys w' = table_keys w \<Longrightarrow> row_keys w' = row_keys w"
  by (simp add: row_keys_def table_keys_def)

lemma fixed_steady: "steady m \<Longrightarrow> fixed m"
  using steady_rows unfolding within_def same_tables_def same_rows_def by blast

lemmas fixed_sweep [fixed_intros] = fixed_steady [OF steady_sweep]

lemmas fixed_advanceRun [fixed_intros] = fixed_steady [OF steady_advanceRun]

lemma fixed_send [fixed_intros]: "fixed (boss_send_call env name p sa i)"
  by (rule fixed_steady) (rule steady_queue)

lemma fixed_finish [fixed_intros]: "fixed (run_db (finishRun i q now))"
  by (auto simp: within_def same_rows_def row_keys_def table_keys_def finishRun_def Let_def
      intro!: map_update_where)

lemma fixed_abandon [fixed_intros]: "fixed (abandon_leftover env d now run)"
  unfolding abandon_leftover_def by (intro fixed_intros)

lemma fixed_continue [fixed_intros]: "fixed (advanceAndContinue env run now)"
  unfolding advanceAndContinue_def split_beta by (intro fixed_intros)

section \<open>Loops that reach a goal for every element\<close>

lemma for_each_all:
  assumes stable: "stable env P" "\<And>x. stable env (Q x)"
    and step: "\<And>x w r w'. x \<in> set xs \<Longrightarrow> winv env w \<Longrightarrow> P w \<Longrightarrow> f x w = (r, w') \<Longrightarrow>
      moves env w w' \<and> r = Inr () \<and> Q x w'"
    and w: "winv env w" "P w" and run: "for_each f xs w = (r, w')"
  shows "moves env w w' \<and> r = Inr () \<and> (\<forall>x \<in> set xs. Q x w')"
  using step w run
proof (induction xs arbitrary: w)
  case Nil
  then show ?case by (auto simp: moves_refl)
next
  case (Cons x xs)
  obtain r1 w1 where 1: "f x w = (r1, w1)" by fastforce
  have s: "moves env w w1" "r1 = Inr ()" "Q x w1" using Cons.prems(1) [OF _ Cons.prems(2,3) 1] by auto
  have w1: "winv env w1" "P w1" using s(1) stable(1) Cons.prems(2,3) by (auto simp: moves_def stable_def)
  have rest: "for_each f xs w1 = (r, w')" using Cons.prems(4) 1 s(2) by (simp add: bind_act_def)
  have ih: "moves env w1 w' \<and> r = Inr () \<and> (\<forall>x \<in> set xs. Q x w')"
    by (rule Cons.IH [OF _ w1 rest]) (use Cons.prems(1) in auto)
  then have "Q x w'" using stable(2) s(3) w1(1) by (auto simp: stable_def)
  then show ?case using ih moves_trans [OF s(1)] by auto
qed

section \<open>Sweeping an abandoned run\<close>

definition node_settled :: "string \<Rightarrow> orch_db \<Rightarrow> bool" where
  "node_settled i db \<longleftrightarrow> (\<exists>m \<in> set (o_nodes db). node_id m = i \<and> isTerminalNodeStatus (node_status m))"

lemma node_settled_evolves: "db_evolves db db' \<Longrightarrow> node_settled i db \<Longrightarrow> node_settled i db'"
  unfolding node_settled_def db_evolves_def node_step_def by metis

lemma stable_node_settled: "stable env (\<lambda>w. node_settled i (w_db w))"
  using node_settled_evolves wstep_evolves unfolding stable_def moves_def by fast

lemma settleNode_settles:
  assumes "winv env w" "row_seen (w_db w) node" "isTerminalNodeStatus s" "settleNode node s d now w = (r, w')"
  shows "node_settled (node_id node) (w_db w')"
proof -
  let ?p = "\<lambda>n. node_id n = node_id node \<and> node_status n \<notin> set TERMINAL_NODE_STATUSES"
  let ?f = "\<lambda>n. n\<lparr>node_status := s, node_detail := (case d of None \<Rightarrow> node_detail n | Some d \<Rightarrow> d),
              node_finished_at := (if isTerminalNodeStatus s then Some now else node_finished_at n)\<rparr>"
  obtain k where k: "k \<in> set (o_nodes (w_db w))" "node_id k = node_id node"
    using assms(2) by (auto simp: row_seen_def)
  have nodes: "o_nodes (w_db w') = update_where ?p ?f (o_nodes (w_db w))"
    using assms(4) by (auto simp: settleNode_def bind_act_def updateNodeStatus_def update_nodes_def)
  show ?thesis
  proof (cases "?p k")
    case True
    have "?f k \<in> set (o_nodes (w_db w'))" using in_update_where [OF k(1), of ?p ?f] True nodes by simp
    then show ?thesis using assms(3) k unfolding node_settled_def by (intro bexI [of _ "?f k"]) simp_all
  next
    case False
    then have "k \<in> set (o_nodes (w_db w'))" using k(1) nodes by (force simp: set_update_where)
    then show ?thesis using False k unfolding node_settled_def isTerminalNodeStatus_def by (intro bexI [of _ k]) auto
  qed
qed

lemma settle_ret:
  assumes "winv env w" "row_seen (w_db w) node" "may_settle (w_db w) node s" "isTerminalNodeStatus s"
    and "bind_act (settleNode node s d now) (\<lambda>_. ret ()) w = (r, w')"
  shows "moves env w w' \<and> r = Inr () \<and> node_settled (node_id node) (w_db w')"
proof -
  obtain r1 w1 where 1: "settleNode node s d now w = (r1, w1)" by fastforce
  note m = settleNode_moves [OF assms(1-4) 1]
  then show ?thesis
    using assms(5) 1 settleNode_settles [OF assms(1,2,4) 1] by (auto simp: bind_act_def)
qed

lemma sweep_node:
  assumes w: "winv env w" and seen: "row_seen (w_db w) node"
    and run: "(if isTerminalNodeStatus (node_status node) then ret ()
        else catch_act
          (if \<not> truthy (node_boss_job_id node)
           then bind_act (settleNode node NSkipped d1 now) (\<lambda>_. ret ())
           else bind_act (cancelBossJob env (node_job_name node) (the (node_boss_job_id node))) (\<lambda>cancelled.
                bind_act (settleNode node NFailed (d2 cancelled) now) (\<lambda>_. ret ())))
          (\<lambda>_. ret ())) w = (r, w')"
  shows "moves env w w' \<and> r = Inr () \<and> node_settled (node_id node) (w_db w')"
proof (cases "isTerminalNodeStatus (node_status node)")
  case True
  then show ?thesis using run seen moves_refl [OF w] by (auto simp: row_seen_def node_settled_def)
next
  case False
  have body: "moves env w v \<and> q = Inr () \<and> node_settled (node_id node) (w_db v)"
    if "(if \<not> truthy (node_boss_job_id node)
           then bind_act (settleNode node NSkipped d1 now) (\<lambda>_. ret ())
           else bind_act (cancelBossJob env (node_job_name node) (the (node_boss_job_id node))) (\<lambda>cancelled.
                bind_act (settleNode node NFailed (d2 cancelled) now) (\<lambda>_. ret ()))) w = (q, v)" for q v
  proof (cases "truthy (node_boss_job_id node)")
    case False
    then show ?thesis
      using that settle_ret [OF w seen, of NSkipped] by (simp add: may_settle_def)
  next
    case True
    obtain c w1 where c: "cancelBossJob env (node_job_name node) (the (node_boss_job_id node)) w = (Inr c, w1)"
      by (cases "cancelBossJob env (node_job_name node) (the (node_boss_job_id node)) w")
        (auto simp: cancelBossJob_def split: prod.splits)
    have w1: "moves env w w1" "w_db w1 = w_db w" using moves_cancel [OF w c] by auto
    then have inv1: "winv env w1" by (simp add: moves_def)
    have "node_boss_job_id node \<noteq> None" using True by (auto simp: truthy_def split: option.splits)
    then have may: "may_settle (w_db w1) node NFailed"
      using not_pending_seen [OF w seen, of NFailed] w1(2) by simp
    have "bind_act (settleNode node NFailed (d2 c) now) (\<lambda>_. ret ()) w1 = (q, v)"
      using that True c by (simp add: bind_act_def [of "cancelBossJob _ _ _"])
    from settle_ret [OF inv1 _ may _ this] show ?thesis using seen w1 moves_trans [OF w1(1)] by simp
  qed
  from run False show ?thesis
    by (auto elim!: catch_act_cases dest: body)
qed

definition run_keys :: "string \<Rightarrow> 'b world \<Rightarrow> (string \<times> string) list" where
  "run_keys i w = map (\<lambda>n. (node_id n, node_job_name n)) (run_nodes (w_db w) i)"

lemma run_keys_alt: "run_keys i w = map (\<lambda>(a, b, c). (a, c)) (filter (\<lambda>(a, b, c). b = i) (snd (row_keys w)))"
  by (simp add: run_keys_def run_nodes_def row_keys_def table_keys_def filter_map comp_def)

lemma run_keys_cong: "row_keys w' = row_keys w \<Longrightarrow> run_keys i w' = run_keys i w"
  by (simp add: run_keys_alt)

lemma node_settled_all:
  assumes inv: "winv env w'" and keys: "run_keys rid w' = run_keys rid w"
    and all: "\<forall>n \<in> set (run_nodes (w_db w) rid). node_settled (node_id n) (w_db w')"
    and n: "n \<in> set (o_nodes (w_db w'))" "node_run_id n = rid"
  shows "isTerminalNodeStatus (node_status n)"
proof -
  have "(node_id n, node_job_name n) \<in> set (run_keys rid w')"
    using n by (auto simp: run_keys_def run_nodes_def)
  then obtain m where m: "m \<in> set (run_nodes (w_db w) rid)" "node_id m = node_id n"
    unfolding keys by (auto simp: run_keys_def)
  obtain k where k: "k \<in> set (o_nodes (w_db w'))" "node_id k = node_id m" "isTerminalNodeStatus (node_status k)"
    using all m(1) unfolding node_settled_def by blast
  have "k = n" using nod.wf_same_row [OF orch_invD(2) [OF winv_orch [OF inv]] k(1) n(1)] k(2) m(2) by simp
  then show ?thesis using k(3) by simp
qed

lemma sweep_settles:
  assumes w: "winv env w" and run: "cancelRunInflightJobs env run now w = (r, w')"
  shows "moves env w w'" "r = Inr ()"
    "\<And>n. n \<in> set (o_nodes (w_db w')) \<Longrightarrow> node_run_id n = run_id run \<Longrightarrow> isTerminalNodeStatus (node_status n)"
proof -
  let ?ns = "map snd (loadNodes (w_db w) (run_id run))"
  note loop = for_each_all [OF stable_rows_seen [of env ?ns], where Q = "\<lambda>n w. node_settled (node_id n) (w_db w)"
      and xs = ?ns, OF stable_node_settled _ w rows_seen_load [OF winv_orch [OF w]]]
  have res: "moves env w w' \<and> r = Inr () \<and> (\<forall>n \<in> set ?ns. node_settled (node_id n) (w_db w'))"
    using run unfolding cancelRunInflightJobs_def
    by (rule loop [rotated]) (rule sweep_node, auto simp: rows_seen_def)
  then show "moves env w w'" "r = Inr ()" by auto
  have "\<forall>n \<in> set (run_nodes (w_db w) (run_id run)). node_settled (node_id n) (w_db w')"
    using res by (simp add: loadNodes_eq [OF winv_orch [OF w]] comp_def)
  then show "isTerminalNodeStatus (node_status n)"
    if "n \<in> set (o_nodes (w_db w'))" "node_run_id n = run_id run" for n
    using node_settled_all [of env, OF _ run_keys_cong [OF fixedD [OF fixed_sweep run]] _ that] res by (simp add: moves_def)
qed

section \<open>Abandoning leftovers\<close>

definition run_over :: "string \<Rightarrow> orch_db \<Rightarrow> bool" where
  "run_over i db \<longleftrightarrow> (\<exists>r \<in> set (o_runs db). run_id r = i \<and> run_status r \<noteq> RunRunning)"

lemma run_over_evolves: "db_evolves db db' \<Longrightarrow> run_over i db \<Longrightarrow> run_over i db'"
  unfolding run_over_def db_evolves_alt run_step_def by metis

definition nodes_over :: "string \<Rightarrow> orch_db \<Rightarrow> bool" where
  "nodes_over i db \<longleftrightarrow> (\<forall>n \<in> set (o_nodes db). node_run_id n = i \<longrightarrow> isTerminalNodeStatus (node_status n))"

text \<open>A move that leaves the rows' keys as they are.\<close>

definition kmoves :: "'b orch_env \<Rightarrow> 'b world \<Rightarrow> 'b world \<Rightarrow> bool" where
  "kmoves env w w' \<longleftrightarrow> moves env w w' \<and> row_keys w' = row_keys w"

lemma nodes_over_moves:
  assumes "winv env w" "moves env w w'" "run_keys i w' = run_keys i w" "nodes_over i (w_db w)"
  shows "nodes_over i (w_db w')"
  unfolding nodes_over_def
proof (intro ballI impI)
  fix n assume n: "n \<in> set (o_nodes (w_db w'))" "node_run_id n = i"
  have ev: "db_evolves (w_db w) (w_db w')" using assms(1,2) wstep_evolves by (auto simp: moves_def)
  have "\<forall>m \<in> set (run_nodes (w_db w) i). node_settled (node_id m) (w_db w')"
  proof
    fix m assume m: "m \<in> set (run_nodes (w_db w) i)"
    then have "node_settled (node_id m) (w_db w)"
      using assms(4) by (auto simp: nodes_over_def node_settled_def run_nodes_def)
    then show "node_settled (node_id m) (w_db w')" by (rule node_settled_evolves [OF ev])
  qed
  then show "isTerminalNodeStatus (node_status n)"
    using node_settled_all [of env w' i w n] assms(2,3) n by (simp add: moves_def)
qed

lemma nodes_over_kmoves:
  "winv env w \<Longrightarrow> kmoves env w w' \<Longrightarrow> nodes_over i (w_db w) \<Longrightarrow> nodes_over i (w_db w')"
  using nodes_over_moves run_keys_cong unfolding kmoves_def by blast

lemma abandon_one:
  assumes w: "winv env w" and d: "run_date x \<noteq> d" and ex: "run_exists (run_id x) w"
    and run: "abandon_leftover env d now x w = (r, w')"
  shows "kmoves env w w' \<and> r = Inr () \<and> run_over (run_id x) (w_db w') \<and> nodes_over (run_id x) (w_db w')"
proof -
  obtain b db1 where f: "finishRun (run_id x) RunAbandoned now (w_db w) = (b, db1)" by fastforce
  let ?w1 = "w\<lparr>w_db := db1\<rparr>"
  have m1: "moves env w ?w1" by (rule moves_finish [OF w _ f]) simp
  have inv1: "winv env ?w1" using m1 by (simp add: moves_def)
  have c: "cancelRunInflightJobs env x now ?w1 = (r, w')"
    using run d f by (simp add: abandon_leftover_def bind_act_def)
  note s = sweep_settles [OF inv1 c]
  have over: "run_over (run_id x) db1"
  proof -
    obtain q where q: "q \<in> set (o_runs (w_db w))" "run_id q = run_id x" using ex by (auto simp: run_exists_def)
    let ?p = "\<lambda>r. run_id r = run_id x \<and> run_status r = RunRunning"
    let ?f = "\<lambda>r. r\<lparr>run_status := RunAbandoned, run_finished_at := Some now\<rparr>"
    have runs: "o_runs db1 = update_where ?p ?f (o_runs (w_db w))" using f by (simp add: finishRun_Pair)
    show ?thesis
    proof (cases "?p q")
      case True
      have "?f q \<in> set (o_runs db1)" using in_update_where [OF q(1), of ?p ?f] True runs by simp
      then show ?thesis unfolding run_over_def by (intro bexI [of _ "?f q"]) (simp_all add: q)
    next
      case False
      then have "q \<in> set (o_runs db1)" using q(1) unfolding runs by (force simp: set_update_where)
      then show ?thesis using False q unfolding run_over_def by auto
    qed
  qed
  have "db_evolves db1 (w_db w')" using wstep_evolves [OF inv1] s(1) by (simp add: moves_def)
  then have "run_over (run_id x) (w_db w')" using run_over_evolves over by blast
  moreover have "row_keys w' = row_keys w" by (rule fixedD [OF fixed_abandon run])
  ultimately show ?thesis
    using moves_trans [OF m1 s(1)] s(2,3) by (simp add: kmoves_def nodes_over_def)
qed

lemma kmoves_refl: "winv env w \<Longrightarrow> kmoves env w w"
  by (simp add: kmoves_def moves_refl)

lemma kmoves_trans: "kmoves env a b \<Longrightarrow> kmoves env b c \<Longrightarrow> kmoves env a c"
  using moves_trans by (auto simp: kmoves_def)

lemma kmoves_winv: "kmoves env w w' \<Longrightarrow> winv env w'"
  by (simp add: kmoves_def moves_def)

lemma kmoves_evolves: "winv env w \<Longrightarrow> kmoves env w w' \<Longrightarrow> db_evolves (w_db w) (w_db w')"
  using wstep_evolves by (auto simp: kmoves_def moves_def)

lemma abandon_all:
  assumes "winv env w" "\<forall>x \<in> set xs. run_exists (run_id x) w"
    and "for_each (abandon_leftover env d now) xs w = (r, w')"
  shows "kmoves env w w' \<and> r = Inr () \<and> (\<forall>x \<in> set xs. run_date x \<noteq> d \<longrightarrow>
     run_over (run_id x) (w_db w') \<and> nodes_over (run_id x) (w_db w'))"
  using assms
proof (induction xs arbitrary: w)
  case Nil
  then show ?case by (auto simp: kmoves_refl)
next
  case (Cons x xs)
  obtain r1 w1 where 1: "abandon_leftover env d now x w = (r1, w1)" by fastforce
  have one: "kmoves env w w1 \<and> r1 = Inr () \<and> (run_date x \<noteq> d \<longrightarrow>
      run_over (run_id x) (w_db w1) \<and> nodes_over (run_id x) (w_db w1))"
  proof (cases "run_date x = d")
    case True
    then show ?thesis using 1 kmoves_refl [OF Cons.prems(1)] by (auto simp: abandon_leftover_def)
  next
    case False
    then show ?thesis using abandon_one [OF Cons.prems(1) False _ 1] Cons.prems(2) by simp
  qed
  have w1: "winv env w1" using one kmoves_winv by blast
  have ex: "\<forall>y \<in> set xs. run_exists (run_id y) w1"
    using Cons.prems(1,2) one stable_run_exists [of env] unfolding stable_def kmoves_def by (meson list.set_intros(2))
  have rest: "for_each (abandon_leftover env d now) xs w1 = (r, w')"
    using Cons.prems(3) 1 one by (simp add: bind_act_def)
  note ih = Cons.IH [OF w1 ex rest]
  have "run_over (run_id x) (w_db w') \<and> nodes_over (run_id x) (w_db w')" if "run_date x \<noteq> d"
    using one ih that run_over_evolves [OF kmoves_evolves [OF w1]] nodes_over_kmoves [OF w1] by blast
  then show ?case using one ih kmoves_trans by auto
qed

lemma active_exists: "x \<in> set (listActiveRuns (w_db w)) \<Longrightarrow> run_exists (run_id x) w"
  by (auto simp: listActiveRuns_def run_exists_def)

lemma run_same_id: "orch_inv db \<Longrightarrow> r \<in> set (o_runs db) \<Longrightarrow> q \<in> set (o_runs db) \<Longrightarrow> run_id r = run_id q \<Longrightarrow> r = q"
  using rn.wf_same_row orch_invD(1) by blast

text \<open>While no run is created, a running run was running before.\<close>

lemma active_before:
  assumes w: "winv env w" and m: "moves env w w'"
    and keys: "map (\<lambda>r. (run_id r, run_date r)) (o_runs (w_db w')) = map (\<lambda>r. (run_id r, run_date r)) (o_runs (w_db w))"
    and x: "x \<in> set (listActiveRuns (w_db w'))"
  obtains y where "y \<in> set (listActiveRuns (w_db w))" "run_id y = run_id x" "run_date y = run_date x"
proof -
  have inv': "orch_inv (w_db w')" and ev: "db_evolves (w_db w) (w_db w')"
    using m wstep_evolves [OF w] winv_orch by (auto simp: moves_def)
  have x': "x \<in> set (o_runs (w_db w'))" "run_status x = RunRunning" using x by (auto simp: listActiveRuns_def)
  have "(run_id x, run_date x) \<in> set (map (\<lambda>r. (run_id r, run_date r)) (o_runs (w_db w)))"
    using x'(1) unfolding keys [symmetric] by simp
  then obtain y where y: "y \<in> set (o_runs (w_db w))" "run_id y = run_id x" "run_date y = run_date x" by auto
  obtain z where z: "z \<in> set (o_runs (w_db w'))" "run_step y z" using ev y(1) by (auto simp: db_evolves_alt)
  then have "z = x" using run_same_id [OF inv' z(1) x'(1)] y(2) by (simp add: run_step_def)
  then have "run_status y = RunRunning" using z(2) x'(2) by (auto simp: run_step_def)
  then show ?thesis using that [of y] y by (simp add: listActiveRuns_def)
qed

text \<open>After the sweep of a start, a run that is still running is tonight's.\<close>

lemma only_tonight:
  assumes w: "winv env w"
    and sweep: "for_each (abandon_leftover env d now) (listActiveRuns (w_db w)) w = (r, w')"
  shows "\<forall>x \<in> set (listActiveRuns (w_db w')). run_date x = d"
proof
  fix x assume x: "x \<in> set (listActiveRuns (w_db w'))"
  have all: "kmoves env w w' \<and> r = Inr () \<and> (\<forall>x \<in> set (listActiveRuns (w_db w)). run_date x \<noteq> d \<longrightarrow>
      run_over (run_id x) (w_db w') \<and> nodes_over (run_id x) (w_db w'))"
    by (rule abandon_all [OF w _ sweep]) (simp add: active_exists)
  then obtain y where y: "y \<in> set (listActiveRuns (w_db w))" "run_id y = run_id x" "run_date y = run_date x"
    using active_before [OF w _ _ x] by (auto simp: kmoves_def row_keys_def)
  show "run_date x = d"
  proof (rule ccontr)
    assume "run_date x \<noteq> d"
    then have "run_over (run_id y) (w_db w')" using all y by auto
    then obtain q where "q \<in> set (o_runs (w_db w'))" "run_id q = run_id x" "run_status q \<noteq> RunRunning"
      using y(2) by (auto simp: run_over_def)
    moreover have "orch_inv (w_db w')" "x \<in> set (o_runs (w_db w'))" "run_status x = RunRunning"
      using all x kmoves_winv winv_orch by (blast, auto simp: listActiveRuns_def)
    ultimately show False using run_same_id [of "w_db w'" q x] by simp
  qed
qed

lemma create_active:
  assumes "createRunWithNodes newId d t jobs now db = Inr (res, db')"
  shows "listActiveRuns db' = listActiveRuns db @ (case res of None \<Rightarrow> [] | Some r \<Rightarrow> [r])"
    and "res = Some r \<Longrightarrow> run_date r = d"
proof -
  have ins: "o_runs (insert_nodes newId q jobs db1) = o_runs db1" for q jobs db1
    by (induction newId q jobs db1 rule: insert_nodes.induct) auto
  show "listActiveRuns db' = listActiveRuns db @ (case res of None \<Rightarrow> [] | Some r \<Rightarrow> [r])"
    using assms unfolding createRunWithNodes_Inr
    by (auto simp: listActiveRuns_def createRun_Some insertNodes_Inr ins dest!: createRun_None)
  show "res = Some r \<Longrightarrow> run_date r = d"
    using assms unfolding createRunWithNodes_Inr by (auto simp: createRun_Some)
qed

text \<open>Inserting nodes for one run leaves the other runs' rows alone.\<close>

lemma insert_nodes_runs [simp]: "o_runs (insert_nodes newId q jobs db) = o_runs db"
  by (induction newId q jobs db rule: insert_nodes.induct) auto

lemma run_nodes_other [simp]:
  "run_nodes (db\<lparr>o_runs := rs\<rparr>) i = run_nodes db i" "run_nodes (db\<lparr>o_next := k\<rparr>) i = run_nodes db i"
  by (simp_all add: run_nodes_def)

lemma run_nodes_insert_nodes: "q \<noteq> i \<Longrightarrow> run_nodes (insert_nodes newId q jobs db) i = run_nodes db i"
  by (induction newId q jobs db rule: insert_nodes.induct) (auto simp: run_nodes_def insert_node_def)

lemma insert_members_keys:
  assumes "insert_members env q w = (r, w')"
  shows "o_runs (w_db w') = o_runs (w_db w)" "q \<noteq> i \<Longrightarrow> run_keys i w' = run_keys i w"
  using assms run_nodes_insert_nodes
  by (auto simp: insert_members_def try_db_def insertNodes_def run_keys_def split: sum.splits if_splits)

lemma drive_keys:
  assumes "drive_run env now x w = (r, w')"
  shows "map (\<lambda>r. (run_id r, run_date r)) (o_runs (w_db w')) = map (\<lambda>r. (run_id r, run_date r)) (o_runs (w_db w))"
    and "x = Some y \<Longrightarrow> run_id y \<noteq> i \<Longrightarrow> run_keys i w' = run_keys i w" "x = None \<Longrightarrow> w' = w"
    and "r = Inr z \<Longrightarrow> z = x"
proof -
  have *: "map (\<lambda>r. (run_id r, run_date r)) (o_runs (w_db w')) = map (\<lambda>r. (run_id r, run_date r)) (o_runs (w_db w)) \<and>
      (run_id y \<noteq> i \<longrightarrow> run_keys i w' = run_keys i w) \<and> (r = Inr z \<longrightarrow> z = x)" if x: "x = Some y" for y
  proof -
    have "bind_act (insert_members env (run_id y)) (\<lambda>_.
         bind_act (advanceAndContinue env y now) (\<lambda>_. ret (Some y))) w = (r, w')"
      using assms x by (simp add: drive_run_def)
    then show ?thesis
    proof (cases rule: bind_act_cases)
      case (err e)
      then show ?thesis using insert_members_keys [OF err(1)] by simp
    next
      case (ok u w1)
      have "fixed (bind_act (advanceAndContinue env y now) (\<lambda>_. ret (Some y)))" by (intro fixed_intros)
      from fixedD [OF this ok(2)] have k: "row_keys w' = row_keys w1" .
      have "r = Inr z \<longrightarrow> z = x" using ok(2) x by (auto elim!: bind_act_cases)
      then show ?thesis
        using insert_members_keys [OF ok(1)] k run_keys_cong [OF k] by (simp add: row_keys_def)
    qed
  qed
  then show "map (\<lambda>r. (run_id r, run_date r)) (o_runs (w_db w')) = map (\<lambda>r. (run_id r, run_date r)) (o_runs (w_db w))"
    "r = Inr z \<Longrightarrow> z = x"
    using assms by (cases x; auto simp: drive_run_def)+
  show "x = Some y \<Longrightarrow> run_id y \<noteq> i \<Longrightarrow> run_keys i w' = run_keys i w" using * by blast
  show "x = None \<Longrightarrow> w' = w" using assms by (simp add: drive_run_def)
qed

section \<open>What a start leaves behind\<close>

lemma start_run_cases:
  assumes s: "start_run env trigger now w = (r, w')"
  obtains (same) "w' = w" "r = Inr None \<or> (\<exists>e. r = Inl e) \<or> r = Inr (getActiveRunForDate (env_localDate env now) (w_db w))"
  | (created) res db' where "createRunWithNodes (env_newId env) (env_localDate env now) trigger (member_names env) now (w_db w) = Inr (res, db')"
      "w' = w\<lparr>w_db := db'\<rparr>" "r = Inr (if res = None then getActiveRunForDate (env_localDate env now) db' else res)"
proof -
  let ?d = "env_localDate env now"
  let ?create = "createRunWithNodes (env_newId env) ?d trigger (member_names env) now (w_db w)"
  let ?guard = "getActiveRunForDate ?d (w_db w) = None \<and> trigger = Cron \<and> getLatestRunForDate ?d (w_db w) \<noteq> None"
  show ?thesis
  proof (cases "?guard \<or> getActiveRunForDate ?d (w_db w) \<noteq> None")
    case True
    then show ?thesis using same s by (auto simp: start_run_def Let_def)
  next
    case False
    then have g: "\<not> ?guard" "\<not> getActiveRunForDate ?d (w_db w) \<noteq> None" by blast+
    note s = s [unfolded start_run_def Let_def if_not_P [OF g(1)] if_not_P [OF g(2)]]
    show ?thesis
    proof (cases ?create)
      case (Inl e)
      then show ?thesis using same s by (auto simp: bind_act_def try_db_def)
    next
      case (Inr z)
      obtain o1 db' where "z = (o1, db')" by (cases z)
      then show ?thesis using created [of o1 db'] s Inr by (cases o1) (auto simp: bind_act_def try_db_def)
    qed
  qed
qed

lemma active_date: "getActiveRunForDate d db = Some x \<Longrightarrow> x \<in> set (o_runs db) \<and> run_date x = d"
  by (auto simp: getActiveRunForDate_def find_Some_iff)

lemma start_run_outcome:
  assumes s: "start_run env trigger now w = (r, w')"
  shows "\<forall>x \<in> set (listActiveRuns (w_db w)). run_date x = env_localDate env now \<Longrightarrow>
      \<forall>x \<in> set (listActiveRuns (w_db w')). run_date x = env_localDate env now"
    and "i \<in> run_id ` set (o_runs (w_db w)) \<Longrightarrow> run_keys i w' = run_keys i w"
    and "r = Inr (Some x) \<Longrightarrow> x \<in> set (o_runs (w_db w')) \<and> run_date x = env_localDate env now"
  using s
proof (atomize (full), cases rule: start_run_cases)
  case same
  then show "((\<forall>x \<in> set (listActiveRuns (w_db w)). run_date x = env_localDate env now) \<longrightarrow>
      (\<forall>x \<in> set (listActiveRuns (w_db w')). run_date x = env_localDate env now)) \<and>
     (i \<in> run_id ` set (o_runs (w_db w)) \<longrightarrow> run_keys i w' = run_keys i w) \<and>
     (r = Inr (Some x) \<longrightarrow> x \<in> set (o_runs (w_db w')) \<and> run_date x = env_localDate env now)"
    using active_date by auto
next
  case (created res db')
  let ?d = "env_localDate env now"
  have runs: "o_runs db' = o_runs (w_db w) @ (case res of None \<Rightarrow> [] | Some y \<Rightarrow> [y])"
    using created(1) unfolding createRunWithNodes_Inr
    by (auto simp: createRun_Some insertNodes_Inr dest!: createRun_None)
  have keys: "run_keys i w' = run_keys i w" if "i \<in> run_id ` set (o_runs (w_db w))"
  proof -
    have "env_newId env (o_next (w_db w)) \<noteq> i \<or> res = None"
      using created(1) that unfolding createRunWithNodes_Inr by (auto simp: createRun_Some)
    then show ?thesis
      using created(1) unfolding createRunWithNodes_Inr created(2)
      by (auto simp: createRun_Some insertNodes_Inr run_keys_def run_nodes_insert_nodes dest!: createRun_None)
  qed
  show "((\<forall>x \<in> set (listActiveRuns (w_db w)). run_date x = ?d) \<longrightarrow>
      (\<forall>x \<in> set (listActiveRuns (w_db w')). run_date x = ?d)) \<and>
     (i \<in> run_id ` set (o_runs (w_db w)) \<longrightarrow> run_keys i w' = run_keys i w) \<and>
     (r = Inr (Some x) \<longrightarrow> x \<in> set (o_runs (w_db w')) \<and> run_date x = ?d)"
    using create_active [OF created(1)] created(2,3) runs keys active_date [of ?d db' x]
    by (auto split: option.splits if_splits)
qed


lemma start_leaves:
  assumes w: "winv env w" and inj: "inj (env_uuid env)" and s: "runOrchestratorStart env trigger now w = (r, w')"
  shows "\<forall>x \<in> set (listActiveRuns (w_db w')). run_date x = env_localDate env now"
    and "x \<in> set (listActiveRuns (w_db w)) \<Longrightarrow> run_date x \<noteq> env_localDate env now \<Longrightarrow>
      run_over (run_id x) (w_db w') \<and> nodes_over (run_id x) (w_db w')"
    and "r = Inr (Some y) \<Longrightarrow> run_date y = env_localDate env now"
proof -
  let ?d = "env_localDate env now"
  obtain r1 w1 where sweep: "for_each (abandon_leftover env ?d now) (listActiveRuns (w_db w)) w = (r1, w1)"
    by (metis surj_pair)
  have all: "kmoves env w w1 \<and> r1 = Inr () \<and> (\<forall>x \<in> set (listActiveRuns (w_db w)). run_date x \<noteq> ?d \<longrightarrow>
      run_over (run_id x) (w_db w1) \<and> nodes_over (run_id x) (w_db w1))"
    by (rule abandon_all [OF w _ sweep]) (simp add: active_exists)
  have w1: "winv env w1" using all kmoves_winv by blast
  have tonight: "\<forall>x \<in> set (listActiveRuns (w_db w1)). run_date x = ?d" by (rule only_tonight [OF w sweep])
  obtain r2 w2 where start: "start_run env trigger now w1 = (r2, w2)" by (metis surj_pair)
  note out = start_run_outcome [OF start]
  have m2: "moves env w1 w2" by (rule start_run_moves(1) [OF w1 start])
  have w2: "winv env w2" using m2 by (simp add: moves_def)
  have end_cases: "(\<exists>e. r2 = Inl e \<and> r = Inl e \<and> w' = w2) \<or> (\<exists>q. r2 = Inr q \<and> drive_run env now q w2 = (r, w'))"
    using s all sweep start unfolding runOrchestratorStart_alt by (auto simp: bind_act_def split: sum.splits)
  have m3: "moves env w2 w'"
  proof -
    have "moves env w2 w'" if q: "r2 = Inr (Some q)" "drive_run env now (Some q) w2 = (r, w')" for q
    proof -
      have run: "bind_act (insert_members env (run_id q)) (\<lambda>_.
            bind_act (advanceAndContinue env q now) (\<lambda>_. ret (Some q))) w2 = (r, w')"
        using q(2) by (simp add: drive_run_def)
      show ?thesis
        by (rule keepsD [OF drive_keeps [OF inj] w2 _ run]) (use start_run_moves(2) [OF w1 start] q(1) in simp)
    qed
    moreover have "w' = w2" if "drive_run env now None w2 = (r, w')" using that by (simp add: drive_run_def)
    ultimately show ?thesis using end_cases moves_refl [OF w2] by (metis not_None_eq)
  qed
  have ids: "map (\<lambda>r. (run_id r, run_date r)) (o_runs (w_db w')) = map (\<lambda>r. (run_id r, run_date r)) (o_runs (w_db w2))"
    using end_cases drive_keys(1) by auto
  show "\<forall>x \<in> set (listActiveRuns (w_db w')). run_date x = ?d"
  proof
    fix x assume "x \<in> set (listActiveRuns (w_db w'))"
    from active_before [OF w2 m3 ids this] show "run_date x = ?d" using out(1) [OF tonight] by metis
  qed
  show "run_date y = ?d" if "r = Inr (Some y)"
    using end_cases that out(3) drive_keys(4) by (metis Inl_Inr_False)
  assume x: "x \<in> set (listActiveRuns (w_db w))" "run_date x \<noteq> ?d"
  then have over: "run_over (run_id x) (w_db w1)" "nodes_over (run_id x) (w_db w1)" using all by auto
  have m: "moves env w1 w'" by (rule moves_trans [OF m2 m3])
  have "run_over (run_id x) (w_db w')"
    using over(1) run_over_evolves wstep_evolves [OF w1] m by (auto simp: moves_def)
  moreover have "nodes_over (run_id x) (w_db w')"
  proof -
    have "run_exists (run_id x) w1"
      using active_exists [OF x(1)] stable_run_exists w all unfolding stable_def kmoves_def by blast
    then have in1: "run_id x \<in> run_id ` set (o_runs (w_db w1))" by (auto simp: run_exists_def)
    have "run_keys (run_id x) w' = run_keys (run_id x) w2"
    proof -
      have "run_id q \<noteq> run_id x" if q: "r2 = Inr (Some q)" for q
      proof
        assume eq: "run_id q = run_id x"
        have q': "q \<in> set (o_runs (w_db w2))" "run_date q = ?d" using out(3) q by auto
        have "x \<in> set (o_runs (w_db w))" using x(1) by (simp add: listActiveRuns_def)
        then obtain z where z: "z \<in> set (o_runs (w_db w2))" "run_step x z"
          using wstep_evolves [OF w] moves_trans [OF _ m2, of w] all
          unfolding kmoves_def moves_def db_evolves_alt by blast
        then have "z = q" using run_same_id [OF winv_orch [OF w2] z(1) q'(1)] eq by (simp add: run_step_def)
        then show False using z(2) q'(2) x(2) by (simp add: run_step_def)
      qed
      then show ?thesis using end_cases drive_keys(2,3) by (metis not_None_eq)
    qed
    then show ?thesis
      using nodes_over_moves [OF w1 m _ over(2)] out(2) [OF in1] by simp
  qed
  ultimately show "run_over (run_id x) (w_db w') \<and> nodes_over (run_id x) (w_db w')" by simp
qed

end
