(* ===== verification/OrchestratorProgress.thy ===== *)
theory OrchestratorProgress
  imports OrchestratorOutcomes
begin

text \<open>
  When a pass closes a run, and that repeated ticks close it: with a queue that finishes the
  jobs it is asked about, every pass moves some row of the run forward until all are terminal.
\<close>

section \<open>Closing a run\<close>

lemma count_node_totals:
  "sm_total (fold count_node ns s) = sm_total s + length ns"
  "sm_terminal (fold count_node ns s) =
     sm_terminal s + length (filter (\<lambda>n. isTerminalNodeStatus (node_status n)) ns)"
proof -
  have one: "sm_total (count_node n s) = sm_total s + 1 \<and>
      sm_terminal (count_node n s) = sm_terminal s + (if isTerminalNodeStatus (node_status n) then 1 else 0)" for n s
    by (cases "node_status n") (simp_all add: count_node_def Let_def)
  show "sm_total (fold count_node ns s) = sm_total s + length ns"
    "sm_terminal (fold count_node ns s) =
     sm_terminal s + length (filter (\<lambda>n. isTerminalNodeStatus (node_status n)) ns)"
    by (induction ns arbitrary: s) (simp_all add: one)
qed

lemma summarize_complete:
  "sm_complete (summarize ns) \<longleftrightarrow> ns \<noteq> [] \<and> (\<forall>n \<in> set ns. isTerminalNodeStatus (node_status n))"
proof -
  have "length (filter P ns) = length ns \<longleftrightarrow> (\<forall>n \<in> set ns. P n)" for P and ns :: "NodeRow list"
    using sum_length_filter_compl [of P ns] by (auto simp: filter_empty_conv)
  then show ?thesis by (simp add: summarize_def Let_def count_node_totals)
qed

text \<open>The two halves of a pass, and what each preserves.\<close>

definition poll_rows :: "'b orch_env \<Rightarrow> int \<Rightarrow> NodeRow list \<Rightarrow> ('b world, unit) act" where
  "poll_rows env now = for_each (\<lambda>node. catch_act (pollInflightNode env now
        ((case env_timeoutSeconds env of None \<Rightarrow> NODE_TIMEOUT_SECONDS | Some t \<Rightarrow> t) * 1000) node) (\<lambda>_. ret ()))"

lemma pass_parts:
  assumes w: "winv env w" and inj: "inj (env_uuid env)" and run: "advanceRun env run now w = (r, w')"
  obtains w1 ns r2 ns2 where
    "poll_rows env now (map snd (loadNodes (w_db w) (run_id run))) w = (Inr (), w1)"
    "ns = loadNodes (w_db w1) (run_id run)"
    "advance_nodes env now (map fst ns) 0 (w1, ns) = (r2, (w', ns2))"
    "r = Inr (summarize (map snd ns2))"
    "moves env w w1" "moves env w1 w'" "snap_ok (w_db w1) (run_id run) ns" "snap_ok (w_db w') (run_id run) ns2"
    "map fst ns2 = map fst ns"
    "run_keys (run_id run) w1 = run_keys (run_id run) w" "run_keys (run_id run) w' = run_keys (run_id run) w1"
proof (rule advanceRun_split [of env now w run])
  fix w1 ns r2 w2 ns2
  let ?rows = "map snd (loadNodes (w_db w) (run_id run))"
  assume "for_each (\<lambda>node. catch_act (pollInflightNode env now
        ((case env_timeoutSeconds env of None \<Rightarrow> NODE_TIMEOUT_SECONDS | Some t \<Rightarrow> t) * 1000) node) (\<lambda>_. ret ())) ?rows w
      = (Inr (), w1)"
    and ns: "ns = loadNodes (w_db w1) (run_id run)"
    and 2: "advance_nodes env now (map fst ns) 0 (w1, ns) = (r2, (w2, ns2))"
    and 3: "advanceRun env run now w = (Inr (summarize (map snd ns2)), w2)"
  then have 1: "poll_rows env now ?rows w = (Inr (), w1)" by (simp add: poll_rows_def)
  have poll: "keeps env (rows_seen ?rows) (poll_rows env now ?rows)"
    unfolding poll_rows_def
    by (intro keeps_for_each stable_rows_seen keeps_catch_ret keeps_seen_of_rows [OF pollInflightNode_keeps])
  have m1: "moves env w w1"
    by (rule keepsD [OF poll w rows_seen_load [OF winv_orch [OF w]] 1])
  then have w1: "winv env w1" by (simp add: moves_def)
  have snap: "snap_ok (w_db w1) (run_id run) ns" unfolding ns by (rule snap_ok_load [OF winv_orch [OF w1]])
  have "steady (poll_rows env now ?rows)" unfolding poll_rows_def by (intro steady_intros)
  from steadyD [OF this 1] have k1: "run_keys (run_id run) w1 = run_keys (run_id run) w"
    by (intro run_keys_cong steady_rows)
  have k2: "run_keys (run_id run) w2 = run_keys (run_id run) w1"
    using psteadyD [OF psteady_advance_nodes 2] by (intro run_keys_cong steady_rows) simp
  have "w' = w2" "r = Inr (summarize (map snd ns2))" using run 3 by simp_all
  then show ?thesis
    using that [OF 1 ns _ _ m1] advance_nodes_keeps [OF w1 snap inj 2] 2 snap k1 k2 by blast
qed

text \<open>A pass that reports a complete run has seen every row of it in a terminal status.\<close>

lemma pass_closes:
  assumes w: "winv env w" and inj: "inj (env_uuid env)"
    and run: "advanceRun env run now w = (Inr s, w')" and complete: "sm_complete s"
  shows "nodes_over (run_id run) (w_db w')"
proof -
  obtain w1 ns r2 ns2 where ns: "ns = loadNodes (w_db w1) (run_id run)"
    and s: "Inr s = Inr (summarize (map snd ns2))"
    and m: "moves env w w1" "moves env w1 w'"
    and snap: "snap_ok (w_db w') (run_id run) ns2" and names: "map fst ns2 = map fst ns"
    and keys: "run_keys (run_id run) w' = run_keys (run_id run) w1"
    by (rule pass_parts [OF w inj run]) blast
  have w1: "winv env w1" and w': "winv env w'" using m by (simp_all add: moves_def)
  have "isTerminalNodeStatus (node_status n)"
    if n: "n \<in> set (o_nodes (w_db w'))" "node_run_id n = run_id run" for n
  proof -
    have "(node_id n, node_job_name n) \<in> set (run_keys (run_id run) w1)"
      using n unfolding keys [symmetric] by (auto simp: run_keys_def run_nodes_def)
    then have "node_job_name n \<in> set (map fst ns)"
      by (auto simp: run_keys_def ns loadNodes_eq [OF winv_orch [OF w1]])
    then obtain m where m: "(node_job_name n, m) \<in> set ns2" using names by (metis set_map imageE prod.collapse)
    then have t: "isTerminalNodeStatus (node_status m)" using complete s by (force simp: summarize_complete)
    have seen: "node_job_name m = node_job_name n" "node_run_id m = run_id run" "row_seen (w_db w') m"
      using snap m by (auto simp: snap_ok_def)
    then obtain q where q: "q \<in> set (o_nodes (w_db w'))" "node_run_id q = run_id run"
      "node_job_name q = node_job_name n" "node_status q = node_status m"
      using t by (auto simp: row_seen_def)
    have "q = n"
      using njob.wf_same_row [OF orch_invD(3) [OF winv_orch [OF w']] q(1) n(1)] q n by simp
    then show ?thesis using q t by simp
  qed
  then show ?thesis by (simp add: nodes_over_def)
qed

section \<open>Rows that have left pending\<close>

definition moved_on :: "string \<Rightarrow> orch_db \<Rightarrow> bool" where
  "moved_on i db \<longleftrightarrow> (\<exists>m \<in> set (o_nodes db). node_id m = i \<and> node_status m \<noteq> NPending)"

lemma step_not_pending: "node_step n n' \<Longrightarrow> node_status n \<noteq> NPending \<Longrightarrow> node_status n' \<noteq> NPending"
  by (cases "node_status n"; cases "node_status n'") (simp_all add: node_step_def status_rank_def)

lemma moved_on_evolves: "db_evolves db db' \<Longrightarrow> moved_on i db \<Longrightarrow> moved_on i db'"
  using step_not_pending unfolding moved_on_def db_evolves_def node_step_def by metis

text \<open>A statement that moves every row it matches out of \<open>pending\<close>.\<close>

lemma moved_on_update:
  assumes "\<And>n. p n \<Longrightarrow> node_id (f n) = node_id n \<and> node_status (f n) \<noteq> NPending"
  shows "moved_on i db \<Longrightarrow> moved_on i (snd (update_nodes p f db))"
    and "k \<in> set (o_nodes db) \<Longrightarrow> node_status k = NPending \<longrightarrow> p k \<Longrightarrow> moved_on (node_id k) (snd (update_nodes p f db))"
proof -
  have *: "moved_on (node_id k) (snd (update_nodes p f db))"
    if "k \<in> set (o_nodes db)" "node_status k = NPending \<longrightarrow> p k" for k
    unfolding moved_on_def update_nodes_simps set_update_where
    by (rule bexI [of _ "if p k then f k else k"]) (use that assms [of k] in auto)
  then show "k \<in> set (o_nodes db) \<Longrightarrow> node_status k = NPending \<longrightarrow> p k \<Longrightarrow>
      moved_on (node_id k) (snd (update_nodes p f db))" .
  show "moved_on i db \<Longrightarrow> moved_on i (snd (update_nodes p f db))"
    using * unfolding moved_on_def [of i db] by blast
qed

lemma moved_on_settled: "node_settled i db \<Longrightarrow> moved_on i db"
  by (force simp: node_settled_def moved_on_def)

definition onward :: "string \<Rightarrow> 'b pass \<Rightarrow> 'b pass \<Rightarrow> bool" where
  "onward i ps ps' \<longleftrightarrow> (moved_on i (w_db (fst ps)) \<longrightarrow> moved_on i (w_db (fst ps')))"

interpretation on: effect_order "onward i"
  by unfold_locales (auto simp: onward_def)

named_theorems onward_intros \<open>rules for \<open>within (onward i)\<close>\<close>

lemmas [onward_intros] = on.basic on.bind on.cond

lemma onward_set_row [onward_intros]: "within (onward i) (set_row j n)"
  by (simp add: within_def onward_def set_row_def)

lemma onward_queue [onward_intros]:
  "within (onward i) (on_world (boss_send_call env name p sa u))"
  "within (onward i) (on_world (boss_get_call env name u'))"
  by (auto simp: within_def onward_def on_world_def boss_send_call_def boss_get_call_def split: prod.splits sum.splits)

lemma onward_settle [onward_intros]:
  assumes "s \<noteq> NPending"
  shows "within (onward i) (on_world (settleNode node s d now))"
  using moved_on_update(1) [of "\<lambda>n. node_id n = node_id node \<and> node_status n \<notin> set TERMINAL_NODE_STATUSES"] assms
  by (simp add: within_def onward_def on_world_def settleNode_def bind_act_def updateNodeStatus_def)

lemma onward_settle_in [onward_intros]: "s \<noteq> NPending \<Longrightarrow> within (onward i) (settle_in j node s d now)"
  unfolding settle_in_def by (intro onward_intros)

section \<open>A pass touches one entry at a time\<close>

definition only_row :: "string \<Rightarrow> 'b pass \<Rightarrow> 'b pass \<Rightarrow> bool" where
  "only_row j ps ps' \<longleftrightarrow> (\<forall>k. k \<noteq> j \<longrightarrow> map_of (snd ps') k = map_of (snd ps) k)"

interpretation oro: effect_order "only_row j"
  by unfold_locales (auto simp: only_row_def)

named_theorems only_intros \<open>rules for \<open>within (only_row j)\<close>\<close>

lemmas [only_intros] = oro.basic oro.bind oro.cond

lemma map_of_put_node: "k \<noteq> j \<Longrightarrow> map_of (put_node j n ns) k = map_of ns k"
  by (induction ns) (auto simp: put_node_def)

lemma only_basic [only_intros]: "within (only_row j) (set_row j n)" "within (only_row j) (on_world m)"
  by (auto simp: within_def only_row_def set_row_def on_world_def map_of_put_node split: prod.splits)

lemma only_settle_in [only_intros]: "within (only_row j) (settle_in j node s d now)"
  unfolding settle_in_def by (intro only_intros)

lemma only_enqueue [only_intros]: "within (only_row j) (enqueue_node env j node st now k)"
  unfolding enqueue_node_def Let_def by (intro only_intros)

lemma only_not_needed [only_intros]:
  "within (only_row j) (bind_act (on_world (run_db (claimNodeNotNeeded i reason now))) (\<lambda>applied.
       if \<not> applied
       then bind_act (on_world (run_db (\<lambda>db. (loadNode db i, db)))) (\<lambda>fresh.
            case fresh of
              None \<Rightarrow> ret False
            | Some f \<Rightarrow> bind_act (set_row j f) (\<lambda>_. ret False))
       else bind_act (set_row j node') (\<lambda>_. ret False)))"
  by (intro only_intros) (auto split: option.split intro!: only_intros)

lemma only_advance: "within (only_row j) (advancePendingNode env j node now k)"
proof -
  have *: "only_row j ps (snd (m ps))" if "within (only_row j) m" for m :: "('b pass, bool) act" and ps
    using that unfolding within_def by blast
  show ?thesis
    unfolding within_def advancePendingNode_def Let_def
    by (simp add: * [OF only_settle_in] * [OF only_enqueue] * [OF only_not_needed] * [OF oro.basic(1)]
        * [OF oro.basic(2)] oro.refl split: option.split eligibility.split)
qed

section \<open>A node whose upstreams are terminal is moved on\<close>

definition ready :: "'b orch_env \<Rightarrow> snapshot \<Rightarrow> string \<Rightarrow> bool" where
  "ready env ns j \<longleftrightarrow> (\<forall>dn. map_of (nodes (env_dag env)) j = Some dn \<longrightarrow>
     (\<forall>d \<in> set (n_deps dn). \<forall>m. map_of ns (d_job d) = Some m \<longrightarrow> isTerminalNodeStatus (node_status m)))"

lemma settle_in_moves_on:
  assumes w: "winv env w" and n: "row_seen (w_db w) node" and s: "isTerminalNodeStatus s"
    and run: "settle_in j node s d now (w, ns) = (r, (w', ns'))"
  shows "moved_on (node_id node) (w_db w')"
proof -
  obtain r1 w1 where 1: "settleNode node s (Some (Some d)) now w = (r1, w1)" by (metis surj_pair)
  have "w' = w1"
    using run 1 by (auto simp: settle_in_def bind_act_def on_world_def set_row_def split: prod.splits sum.splits)
  then show ?thesis using moved_on_settled [OF settleNode_settles [OF w n s 1]] by simp
qed

lemma pass_onward:
  "within (onward i) m \<Longrightarrow> m (w, ns) = (r, (w', ns')) \<Longrightarrow> moved_on i (w_db w) \<Longrightarrow> moved_on i (w_db w')"
  by (drule (1) withinD) (simp add: onward_def)

lemma claim_moves_on:
  assumes n: "k \<in> set (o_nodes db)" "node_id k = i"
  shows "moved_on i (snd (claimNodePending i u st now db))" "moved_on i (snd (claimNodeNotNeeded i d now db))"
  using moved_on_update(2) [where k = k and db = db, OF _ n(1)] n(2)
  by (simp_all add: claimNodePending_def claimNodeNotNeeded_def)

lemma on_world_simps [simp]:
  "on_world (run_db f) (w, ns) = (Inr (fst (f (w_db w))), (w\<lparr>w_db := snd (f (w_db w))\<rparr>, ns))"
  "on_world (randomUUID env) (w, ns) = (Inr (env_uuid env (w_uuids w)), (w\<lparr>w_uuids := w_uuids w + 1\<rparr>, ns))"
  by (simp_all add: on_world_def randomUUID_def)

lemma bind_step: "m ps = (Inr a, ps') \<Longrightarrow> bind_act m f ps = f a ps'"
  by (simp add: bind_act_def)

lemma enqueue_moves_on:
  assumes k: "k \<in> set (o_nodes (w_db w))" "node_id k = node_id node"
    and run: "enqueue_node env j node st now e (w, ns) = (r, (w', ns'))"
  shows "moved_on (node_id node) (w_db w')"
proof -
  let ?db = "snd (claimNodePending (node_id node) (env_uuid env (w_uuids w)) st now (w_db w))"
  let ?w = "w\<lparr>w_uuids := w_uuids w + 1, w_db := ?db\<rparr>"
  have on: "moved_on (node_id node) (w_db ?w)" using claim_moves_on(1) [OF k] by simp
  have "within (onward (node_id node)) (if \<not> claimed then ret False
     else
       let node' = node\<lparr>node_stale := st\<rparr> in
       bind_act (set_row j node') (\<lambda>_.
       bind_act (on_world (boss_send_call env j EmptyPayload (start_after e) (Some u)))
         (\<lambda>sentId.
       bind_act (if truthy sentId then ret True
                 else bind_act (on_world (boss_get_call env j u)) (\<lambda>existing.
                      ret (existing \<noteq> None))) (\<lambda>exists.
       if \<not> exists
       then settle_in j node' NFailed
              ''boss.send returned null and no job exists for the reserved id'' now
       else bind_act (set_row j (node'\<lparr>node_status := NEnqueued\<rparr>)) (\<lambda>_. ret True)))))" for claimed u
    unfolding Let_def by (intro onward_intros) simp
  from pass_onward [OF this _ on] show ?thesis
    using run unfolding enqueue_node_def by (simp add: bind_step [of "on_world _"])
qed

lemma not_needed_moves_on:
  assumes k: "k \<in> set (o_nodes (w_db w))" "node_id k = i"
    and run: "bind_act (on_world (run_db (claimNodeNotNeeded i reason now))) (\<lambda>applied.
       if \<not> applied
       then bind_act (on_world (run_db (\<lambda>db. (loadNode db i, db)))) (\<lambda>fresh.
            case fresh of
              None \<Rightarrow> ret False
            | Some f \<Rightarrow> bind_act (set_row j f) (\<lambda>_. ret False))
       else bind_act (set_row j node') (\<lambda>_. ret False)) (w, ns) = (r, (w', ns'))"
  shows "moved_on i (w_db w')"
proof -
  have "w' = w\<lparr>w_db := snd (claimNodeNotNeeded i reason now (w_db w))\<rparr>"
    using run
    by (auto simp: bind_step [of "on_world _"] bind_step [of "set_row _ _"] set_row_def split: if_splits option.splits)
  then show ?thesis using claim_moves_on(2) [OF k] by simp
qed

lemma ready_moves_on:
  assumes w: "winv env w" "snap_ok (w_db w) rid ns" and node: "map_of ns j = Some n" "node_status n = NPending"
    and ready: "ready env ns j" and elig: "\<And>e. env_eligibility env j \<noteq> Some (EligThrows e)"
    and run: "advancePendingNode env j n now k (w, ns) = (r, (w', ns'))"
  shows "moved_on (node_id n) (w_db w')"
proof -
  have seen: "row_seen (w_db w) n" using snap_okD [OF w(2) node(1)] by simp
  then obtain m where m: "m \<in> set (o_nodes (w_db w))" "node_id m = node_id n" by (auto simp: row_seen_def)
  note settle = settle_in_moves_on [OF w(1) seen]
  show ?thesis
  proof (cases "map_of (nodes (env_dag env)) j")
    case None
    then show ?thesis using run settle [of NSkipped] by (simp add: advancePendingNode_def)
  next
    case (Some dn)
    let ?ups = "upstreams_of dn ns"
    note run = run [unfolded advancePendingNode_def Some Let_def snd_conv option.case]
    show ?thesis
    proof (cases "find missing_hard ?ups")
      case missing: (Some u)
      then show ?thesis using run settle [of NSkipped] by (simp add: Let_def)
    next
      case missing: None
      show ?thesis
      proof (cases "find blocked_by ?ups")
        case (Some u)
        then show ?thesis using run settle [of NSkipped] missing by (simp add: Let_def)
      next
        case None
        have "upstream_terminal u" if "u \<in> set ?ups" for u
          using that missing ready [unfolded ready_def] Some
          by (auto simp: upstreams_of_def upstream_terminal_def missing_hard_def find_None_iff split: option.split)
        then have t: "list_all upstream_terminal ?ups" by (simp add: list_all_iff)
        show ?thesis
        proof (cases "\<exists>reason. env_eligibility env j = Some (EligSkip reason)")
          case True
          then show ?thesis
            using run missing None t not_needed_moves_on [OF m] by (auto simp: Let_def)
        next
          case False
          then have "enqueue_node env j n (list_ex upstream_stale ?ups) now k (w, ns) = (r, (w', ns'))"
            using run missing None t elig by (auto simp: Let_def split: option.splits eligibility.splits)
          then show ?thesis by (rule enqueue_moves_on [OF m])
        qed
      qed
    qed
  qed
qed

lemma ready_reached:
  assumes "winv env w" "snap_ok (w_db w) rid ns" "inj (env_uuid env)" "distinct jobs" "j \<in> set jobs"
    and "map_of ns j = Some n" "node_status n = NPending" "ready env ns j"
    and elig: "\<And>e. env_eligibility env j \<noteq> Some (EligThrows e)"
    and "advance_nodes env now jobs k (w, ns) = (r, (w', ns'))"
  shows "moved_on (node_id n) (w_db w')"
  using assms(1,2,4-8,10)
proof (induction jobs arbitrary: k w ns)
  case (Cons x jobs)
  note inj = assms(3)
  from Cons.prems(8) show ?case
  proof (cases rule: advance_nodes_cases)
    case skip
    have "x \<noteq> j"
    proof
      assume "x = j"
      then show False using skip(1) Cons.prems(5,6) by simp
    qed
    then show ?thesis using Cons.IH [OF Cons.prems(1,2) _ _ Cons.prems(5-7) skip(2)] Cons.prems(3,4) by simp
  next
    case (advance node r1 ps1 k1)
    obtain w1 ns1 where ps1: "ps1 = (w1, ns1)" by (metis surj_pair)
    note adv = advance [unfolded ps1 snd_conv]
    have k: "moves env w w1 \<and> snap_ok (w_db w1) rid ns1 \<and> map fst ns1 = map fst ns"
      by (rule advancePendingNode_keeps [OF Cons.prems(1,2) inj adv(1-3)])
    then have w1: "winv env w1" "snap_ok (w_db w1) rid ns1" by (auto simp: moves_def)
    show ?thesis
    proof (cases "x = j")
      case True
      then have "moved_on (node_id n) (w_db w1)"
        using ready_moves_on [OF Cons.prems(1,2) adv(1,2) _ _ adv(3)] Cons.prems(5,7) elig adv(1) by simp
      moreover have "moves env w1 w'"
        using advance_nodes_keeps [OF w1 inj adv(4)] by blast
      ultimately show ?thesis using moved_on_evolves wstep_evolves [OF w1(1)] by (auto simp: moves_def)
    next
      case False
      have only: "map_of ns1 y = map_of ns y" if "y \<noteq> x" for y
        using withinD [OF only_advance adv(3)] that by (simp add: only_row_def)
      have "ready env ns1 j"
        unfolding ready_def
      proof (intro allI impI ballI)
        fix dn d m assume d: "map_of (nodes (env_dag env)) j = Some dn" "d \<in> set (n_deps dn)"
          and m: "map_of ns1 (d_job d) = Some m"
        have "d_job d \<noteq> x" using Cons.prems(7) d adv(1,2) by (auto simp: ready_def)
        then show "isTerminalNodeStatus (node_status m)"
          using Cons.prems(7) d m only [of "d_job d"] by (auto simp: ready_def)
      qed
      then show ?thesis
        using Cons.IH [OF w1 _ _ _ Cons.prems(6) _ adv(4)] Cons.prems(3-5) False only [of j] by simp
    qed
  qed
qed simp

section \<open>Counting what is left\<close>

definition remaining :: "string \<Rightarrow> 'b world \<Rightarrow> nat" where
  "remaining i w = (\<Sum>n \<leftarrow> run_nodes (w_db w) i. 3 - status_rank (node_status n))"

lemma status_rank_le: "status_rank s \<le> 3"
  by (cases s) (simp_all add: status_rank_def)

lemma run_nodes_in: "n \<in> set (run_nodes db i) \<Longrightarrow> n \<in> set (o_nodes db) \<and> node_run_id n = i"
  by (simp add: run_nodes_def)

lemma run_rows_step:
  assumes w: "winv env w" and m: "moves env w w'" and keys: "run_keys i w' = run_keys i w"
  shows "list_all2 node_step (run_nodes (w_db w) i) (run_nodes (w_db w') i)"
proof -
  have inv': "orch_inv (w_db w')" and ev: "db_evolves (w_db w) (w_db w')"
    using m wstep_evolves [OF w] winv_orch by (auto simp: moves_def)
  have len: "length (run_nodes (w_db w) i) = length (run_nodes (w_db w') i)"
    using arg_cong [OF keys, of length] by (simp add: run_keys_def)
  have "node_step (run_nodes (w_db w) i ! k) (run_nodes (w_db w') i ! k)" if k: "k < length (run_nodes (w_db w) i)" for k
  proof -
    have "run_keys i w' ! k = run_keys i w ! k" by (simp add: keys)
    then have id: "node_id (run_nodes (w_db w') i ! k) = node_id (run_nodes (w_db w) i ! k)"
      using k len by (simp add: run_keys_def)
    have "run_nodes (w_db w) i ! k \<in> set (o_nodes (w_db w))" "run_nodes (w_db w') i ! k \<in> set (o_nodes (w_db w'))"
      using run_nodes_in [OF nth_mem] k len by simp_all
    from evolves_node [OF ev orch_invD(2) [OF inv'] this id] show ?thesis .
  qed
  then show ?thesis using len by (simp add: list_all2_conv_all_nth)
qed

lemma remaining_mono:
  "list_all2 node_step xs ys \<Longrightarrow>
     (\<Sum>n \<leftarrow> ys. 3 - status_rank (node_status n)) \<le> (\<Sum>n \<leftarrow> xs. 3 - status_rank (node_status n))"
  by (induction rule: list_all2_induct) (auto simp: node_step_def intro!: add_mono diff_le_mono2)

lemma remaining_le:
  assumes "winv env w" "moves env w w'" "run_keys i w' = run_keys i w"
  shows "remaining i w' \<le> remaining i w"
  using remaining_mono [OF run_rows_step [OF assms]] by (simp add: remaining_def)

lemma remaining_less:
  assumes w: "winv env w" and m: "moves env w w'" and keys: "run_keys i w' = run_keys i w"
    and n: "n \<in> set (run_nodes (w_db w) i)" and n': "n' \<in> set (o_nodes (w_db w'))" "node_id n' = node_id n"
    and less: "status_rank (node_status n) < status_rank (node_status n')"
  shows "remaining i w' < remaining i w"
proof -
  have strict: "list_all2 node_step xs ys \<Longrightarrow> x \<in> set xs \<Longrightarrow>
      \<forall>y \<in> set ys. node_id y = node_id x \<longrightarrow> status_rank (node_status x) < status_rank (node_status y) \<Longrightarrow>
      (\<Sum>n \<leftarrow> ys. 3 - status_rank (node_status n)) < (\<Sum>n \<leftarrow> xs. 3 - status_rank (node_status n))" for x xs ys
  proof (induction arbitrary: x rule: list_all2_induct)
    case (Cons a as b bs)
    have le: "3 - status_rank (node_status b) \<le> 3 - status_rank (node_status a)"
      using Cons.hyps(1) by (auto simp: node_step_def)
    have les: "(\<Sum>n \<leftarrow> bs. 3 - status_rank (node_status n)) \<le> (\<Sum>n \<leftarrow> as. 3 - status_rank (node_status n))"
      by (rule remaining_mono [OF Cons.hyps(2)])
    show ?case
    proof (cases "x = a")
      case True
      then have "status_rank (node_status a) < status_rank (node_status b)"
        using Cons.prems(2) Cons.hyps(1) by (simp add: node_step_def)
      then show ?thesis using les status_rank_le [of "node_status b"] by simp
    next
      case False
      then show ?thesis using Cons.IH [of x] Cons.prems le by simp
    qed
  qed simp
  have inv': "orch_inv (w_db w')" using m winv_orch by (auto simp: moves_def)
  have "\<forall>y \<in> set (run_nodes (w_db w') i). node_id y = node_id n \<longrightarrow>
      status_rank (node_status n) < status_rank (node_status y)"
    using nod.wf_same_row [OF orch_invD(2) [OF inv']] n' less by (metis run_nodes_in)
  from strict [OF run_rows_step [OF w m keys] n this] show ?thesis by (simp add: remaining_def)
qed

section \<open>A queue that finishes its jobs\<close>

text \<open>
  Every job the queue is asked about is found finished: completed, failed, cancelled or expired.
  The ids given to the jobs are never empty.
\<close>

definition queue_finishes :: "'b boss_api \<Rightarrow> bool" where
  "queue_finishes boss \<longleftrightarrow> (\<forall>name i b. \<exists>st out. b_getJobById boss name i b = Inr (Some (st, out)) \<and>
     (mapBossState (Some st) = Some NSucceeded \<or> mapBossState (Some st) = Some NFailed))"

definition dag_edges :: "JobDag \<Rightarrow> (string \<times> string) set" where
  "dag_edges dag = {(u, j). \<exists>dn. map_of (nodes dag) j = Some dn \<and> (\<exists>d \<in> set (n_deps dn). u = d_job d)}"

definition good_env :: "'b orch_env \<Rightarrow> bool" where
  "good_env env \<longleftrightarrow> inj (env_uuid env) \<and> (\<forall>k. env_uuid env k \<noteq> []) \<and> queue_finishes (env_boss env) \<and>
     (\<forall>j e. env_eligibility env j \<noteq> Some (EligThrows e)) \<and> wf (dag_edges (env_dag env))"

abbreviation in_flight :: "NodeRow \<Rightarrow> bool" where
  "in_flight n \<equiv> node_status n = NEnqueued \<or> node_status n = NRunning"

lemma status_cases: "in_flight n \<or> node_status n = NPending \<or> isTerminalNodeStatus (node_status n)"
  by (cases "node_status n") simp_all

lemma in_flight_truthy:
  assumes "winv env w" "good_env env" "n \<in> set (o_nodes (w_db w))" "in_flight n"
  shows "truthy (node_boss_job_id n)"
proof -
  have "node_boss_job_id n \<noteq> None"
    using orch_invD(6) [OF winv_orch [OF assms(1)] assms(3)] assms(4) by (auto simp: node_inv_def)
  then obtain b where b: "node_boss_job_id n = Some b" by blast
  then show ?thesis using winv_uuid [OF assms(1,3) b] assms(2) by (auto simp: good_env_def truthy_def)
qed

lemma poll_settles:
  assumes w: "winv env w" and good: "good_env env" and seen: "row_seen (w_db w) n"
    and n: "in_flight n" "truthy (node_boss_job_id n)"
    and run: "pollInflightNode env now t n w = (r, w')"
  shows "moves env w w' \<and> r = Inr () \<and> node_settled (node_id n) (w_db w')"
proof -
  have "queue_finishes (env_boss env)" using good by (simp add: good_env_def)
  then obtain st out where get: "b_getJobById (env_boss env) (node_job_name n) (the (node_boss_job_id n)) (w_boss w)
        = Inr (Some (st, out))"
    "mapBossState (Some st) = Some NSucceeded \<or> mapBossState (Some st) = Some NFailed"
    unfolding queue_finishes_def by blast
  have poll: "poll_job env now t n (Some (st, out)) w = (r, w')"
    using run n get(1) by (auto simp: pollInflightNode_def bind_act_def boss_get_call_def)
  have ne: "node_status n \<noteq> NPending \<or> node_boss_job_id n \<noteq> None" using n(1) by auto
  note settle = settle_ret [OF w seen not_pending_seen [OF w seen ne]]
  from get(2) show ?thesis
  proof
    assume "mapBossState (Some st) = Some NSucceeded"
    then show ?thesis
      using poll settle [of NDegraded] settle [of NSucceeded]
      by (simp add: poll_job_def Let_def split: if_splits)
  next
    assume "mapBossState (Some st) = Some NFailed"
    then show ?thesis using poll settle [of NFailed] by (simp add: poll_job_def Let_def)
  qed
qed

lemma poll_idle: "\<not> in_flight n \<Longrightarrow> pollInflightNode env now t n w = (Inr (), w)"
  by (simp add: pollInflightNode_def)

lemma for_each_idle: "(\<And>x w. x \<in> set xs \<Longrightarrow> f x w = (Inr (), w)) \<Longrightarrow> for_each f xs w = (Inr (), w)"
  by (induction xs) (simp_all add: bind_act_def)

lemma poll_rows_idle: "\<forall>n \<in> set ns. \<not> in_flight n \<Longrightarrow> poll_rows env now ns w = (Inr (), w)"
  unfolding poll_rows_def by (rule for_each_idle) (simp add: catch_act_def poll_idle)

lemma poll_rows_settle:
  assumes w: "winv env w" and good: "good_env env" and rows: "set ns \<subseteq> set (o_nodes (w_db w))"
    and run: "poll_rows env now ns w = (r, w')" and n: "n \<in> set ns" "in_flight n"
  shows "node_settled (node_id n) (w_db w')"
proof -
  define t where "t = (case env_timeoutSeconds env of None \<Rightarrow> NODE_TIMEOUT_SECONDS | Some t \<Rightarrow> t) * 1000"
  let ?Q = "\<lambda>n w. in_flight n \<longrightarrow> node_settled (node_id n) (w_db w)"
  have stable: "stable env (?Q n)" for n
    using stable_node_settled [of env "node_id n"] unfolding stable_def by blast
  have "moves env w w' \<and> r = Inr () \<and> (\<forall>n \<in> set ns. ?Q n w')"
  proof (rule for_each_all [where P = "rows_seen ns"])
    show "for_each (\<lambda>n. catch_act (pollInflightNode env now t n) (\<lambda>_. ret ())) ns w = (r, w')"
      using run by (simp add: poll_rows_def t_def)
    show "rows_seen ns w" using rows row_seen_self [OF winv_orch [OF w]] by (auto simp: rows_seen_def)
    fix x v q v'
    assume x: "x \<in> set ns" "winv env v" "rows_seen ns v" and step: "catch_act (pollInflightNode env now t x) (\<lambda>_. ret ()) v = (q, v')"
    show "moves env v v' \<and> q = Inr () \<and> ?Q x v'"
    proof (cases "in_flight x")
      case False
      then show ?thesis using step moves_refl [OF x(2)] by (auto simp: catch_act_def poll_idle)
    next
      case True
      obtain q1 v1 where 1: "pollInflightNode env now t x v = (q1, v1)" by (metis surj_pair)
      have "truthy (node_boss_job_id x)" using in_flight_truthy [OF w good _ True] x(1) rows by blast
      then show ?thesis
        using poll_settles [OF x(2) good _ True _ 1] x(1,3) step 1 by (auto simp: rows_seen_def catch_act_def)
    qed
  qed (fact stable_rows_seen stable w)+
  then show ?thesis using n by blast
qed

lemma advance_nodes_idle:
  "(\<And>j n. j \<in> set jobs \<Longrightarrow> map_of ns j = Some n \<Longrightarrow> node_status n \<noteq> NPending) \<Longrightarrow>
     advance_nodes env now jobs k (w, ns) = (Inr (), (w, ns))"
  by (induction jobs) (auto split: option.split)

section \<open>Every pass makes progress\<close>

lemma pass_progress:
  assumes w: "winv env w" and good: "good_env env" and run: "advanceRun env run now w = (r, w')"
    and n: "n \<in> set (run_nodes (w_db w) (run_id run))" "\<not> isTerminalNodeStatus (node_status n)"
  shows "remaining (run_id run) w' < remaining (run_id run) w"
proof -
  have inj: "inj (env_uuid env)" using good by (simp add: good_env_def)
  obtain w1 ns r2 ns2 where poll: "poll_rows env now (map snd (loadNodes (w_db w) (run_id run))) w = (Inr (), w1)"
    and ns: "ns = loadNodes (w_db w1) (run_id run)"
    and adv: "advance_nodes env now (map fst ns) 0 (w1, ns) = (r2, (w', ns2))"
    and m: "moves env w w1" "moves env w1 w'" and snap: "snap_ok (w_db w1) (run_id run) ns"
    and keys: "run_keys (run_id run) w1 = run_keys (run_id run) w" "run_keys (run_id run) w' = run_keys (run_id run) w1"
    by (rule pass_parts [OF w inj run]) blast
  have w1: "winv env w1" and inv: "orch_inv (w_db w)" using m w winv_orch by (auto simp: moves_def)
  have rows: "map snd (loadNodes (w_db w) (run_id run)) = run_nodes (w_db w) (run_id run)"
    by (simp add: loadNodes_eq [OF inv] comp_def)
  show ?thesis
  proof (cases "\<exists>x \<in> set (run_nodes (w_db w) (run_id run)). in_flight x")
    case True
    then obtain x where x: "x \<in> set (run_nodes (w_db w) (run_id run))" "in_flight x" by blast
    have "node_settled (node_id x) (w_db w1)"
      by (rule poll_rows_settle [OF w good _ poll [unfolded rows] x]) (auto dest: run_nodes_in)
    then obtain y where y: "y \<in> set (o_nodes (w_db w1))" "node_id y = node_id x" "isTerminalNodeStatus (node_status y)"
      by (auto simp: node_settled_def)
    have "status_rank (node_status x) < status_rank (node_status y)"
      using x(2) y(3) by (cases "node_status y") (auto simp: status_rank_def)
    from remaining_less [OF w m(1) keys(1) x(1) y(1,2) this] show ?thesis
      using remaining_le [OF w1 m(2) keys(2)] by simp
  next
    case False
    then have w1w: "w1 = w" using poll by (simp add: rows poll_rows_idle)
    let ?S = "node_job_name ` {x \<in> set (run_nodes (w_db w) (run_id run)). node_status x = NPending}"
    have "node_job_name n \<in> ?S" using n status_cases [of n] False by blast
    moreover have "wf (dag_edges (env_dag env))" using good by (simp add: good_env_def)
    ultimately obtain j where j: "j \<in> ?S" "\<And>u. (u, j) \<in> dag_edges (env_dag env) \<Longrightarrow> u \<notin> ?S"
      by (meson wfE_min)
    then obtain x where x: "x \<in> set (run_nodes (w_db w) (run_id run))" "node_status x = NPending" "node_job_name x = j"
      by blast
    note mo = map_of_loadNodes [OF inv, of "run_id run", folded ns [unfolded w1w]]
    have mx: "map_of ns j = Some x" using mo x run_nodes_in by blast
    have ready: "ready env ns j"
      unfolding ready_def
    proof (intro allI impI ballI)
      fix dn d k assume d: "map_of (nodes (env_dag env)) j = Some dn" "d \<in> set (n_deps dn)" and k: "map_of ns (d_job d) = Some k"
      have "(d_job d, j) \<in> dag_edges (env_dag env)" using d by (auto simp: dag_edges_def)
      then have "d_job d \<notin> ?S" by (rule j(2))
      moreover have kin: "k \<in> set (run_nodes (w_db w) (run_id run))" "node_job_name k = d_job d"
        using k unfolding mo by (auto simp: run_nodes_def)
      ultimately have "node_status k \<noteq> NPending" by (metis (mono_tags, lifting) imageI mem_Collect_eq)
      then show "isTerminalNodeStatus (node_status k)" using status_cases [of k] False kin(1) by blast
    qed
    have jobs: "distinct (map fst ns)" "j \<in> set (map fst ns)"
      using distinct_run_jobs [OF inv, of "run_id run"] x
      by (auto simp: ns w1w loadNodes_eq [OF inv] comp_def)
    have "moved_on (node_id x) (w_db w')"
      using ready_reached [OF w1 snap inj jobs mx x(2) ready _ adv] good by (simp add: good_env_def)
    then obtain y where y: "y \<in> set (o_nodes (w_db w'))" "node_id y = node_id x" "node_status y \<noteq> NPending"
      by (auto simp: moved_on_def)
    have "status_rank (node_status x) < status_rank (node_status y)"
      using x(2) y(3) by (cases "node_status y") (auto simp: status_rank_def)
    from remaining_less [OF w m(2) [unfolded w1w] _ x(1) y(1,2) this] keys w1w show ?thesis by simp
  qed
qed

lemma pass_finishes:
  assumes w: "winv env w" and inj: "inj (env_uuid env)" and run: "advanceRun env run now w = (r, w')"
    and rows: "run_nodes (w_db w) (run_id run) \<noteq> []"
      "\<forall>n \<in> set (run_nodes (w_db w) (run_id run)). isTerminalNodeStatus (node_status n)"
  obtains s where "r = Inr s" "sm_complete s"
proof -
  obtain w1 ns r2 ns2 where poll: "poll_rows env now (map snd (loadNodes (w_db w) (run_id run))) w = (Inr (), w1)"
    and ns: "ns = loadNodes (w_db w1) (run_id run)"
    and adv: "advance_nodes env now (map fst ns) 0 (w1, ns) = (r2, (w', ns2))"
    and r: "r = Inr (summarize (map snd ns2))"
    by (rule pass_parts [OF w inj run]) blast
  note load = loadNodes_eq [OF winv_orch [OF w]]
  have "\<forall>n \<in> set (run_nodes (w_db w) (run_id run)). \<not> in_flight n" using rows(2) by force
  then have "w1 = w" using poll poll_rows_idle [of _ env now w] by (simp add: load comp_def)
  then have nsw: "ns = map (\<lambda>n. (node_job_name n, n)) (run_nodes (w_db w) (run_id run))" by (simp add: ns load)
  have "node_status n \<noteq> NPending" if "map_of ns j = Some n" for j n
    using map_of_SomeD [OF that] rows(2) by (auto simp: nsw)
  then have "ns2 = ns" using adv advance_nodes_idle [of "map fst ns" ns env now 0 w1] by simp
  then show ?thesis using that [OF r] rows by (simp add: summarize_complete nsw comp_def)
qed

section \<open>Ticks close a run\<close>

lemma tick_found:
  assumes i: "i \<noteq> []" and run: "getActiveRunById i (w_db w) = Some run"
  shows "runOrchestratorTick env (Some i) now w =
    bind_act (insert_members env (run_id run)) (\<lambda>_. bind_act (advanceAndContinue env run now) (\<lambda>_. ret ())) w"
  using assms by (simp add: runOrchestratorTick_def bind_step [of "run_db _"] truthy_def)

lemma tick_missing:
  "i \<noteq> [] \<Longrightarrow> getActiveRunById i (w_db w) = None \<Longrightarrow> runOrchestratorTick env (Some i) now w = (Inr (), w)"
  by (simp add: runOrchestratorTick_def bind_step [of "run_db _"] truthy_def)

lemma active_by_id: "getActiveRunById i db = Some run \<Longrightarrow> run \<in> set (o_runs db) \<and> run_id run = i \<and> run_status run = RunRunning"
  by (auto simp: getActiveRunById_def find_Some_iff)

text \<open>What driving a run after a pass changes: it closes the run exactly when the pass was complete.\<close>

lemma continue_after_pass:
  assumes run: "advanceRun env run now w = (Inr s, w1)" and cont: "advanceAndContinue env run now w = (r, w')"
  shows "sm_complete s \<Longrightarrow> r = Inr (Some s) \<and> w' = w1\<lparr>w_db := snd (finishRun (run_id run) RunCompleted now (w_db w1))\<rparr>"
    and "\<not> sm_complete s \<Longrightarrow> w_db w' = w_db w1 \<and>
      (\<exists>sends. w_sends w' = sends @ [\<lparr>s_name = ORCHESTRATOR_QUEUE, s_payload = TickPayload (run_id run),
          s_startAfter = Some TICK_INTERVAL_SECONDS, s_id = None\<rparr>])"
  using cont
  by (auto simp: advanceAndContinue_def bind_act_def catch_act_def run boss_send_call_def split: prod.splits sum.splits if_splits)

lemma finish_over:
  assumes "orch_inv db" "run \<in> set (o_runs db)"
  shows "run_over (run_id run) (snd (finishRun (run_id run) RunCompleted now db))"
proof -
  let ?p = "\<lambda>r. run_id r = run_id run \<and> run_status r = RunRunning"
  let ?f = "\<lambda>r. r\<lparr>run_status := RunCompleted, run_finished_at := Some now\<rparr>"
  have "(if ?p run then ?f run else run) \<in> set (o_runs (snd (finishRun (run_id run) RunCompleted now db)))"
    using assms(2) by (auto simp: finishRun_def Let_def set_update_where)
  then show ?thesis unfolding run_over_def by (rule rev_bexI) simp
qed

lemma nodes_over_finish [simp]: "nodes_over i (snd (finishRun j s now db)) = nodes_over i db"
  by (simp add: nodes_over_def finishRun_def Let_def)

definition run_closed :: "string \<Rightarrow> 'b world \<Rightarrow> bool" where
  "run_closed i w \<longleftrightarrow> run_over i (w_db w) \<and> nodes_over i (w_db w)"

text \<open>
  What is left of a run that may still gain rows: three moves for every member that has none. An
  insert that skips a row leaves it as it is.
\<close>

definition potential :: "string list \<Rightarrow> NodeRow list \<Rightarrow> nat" where
  "potential ms rows = (\<Sum>n \<leftarrow> rows. 3 - status_rank (node_status n)) + 3 * card (set ms - node_job_name ` set rows)"

lemma potential_insert_node:
  assumes "job \<in> set ms"
  shows "potential ms (run_nodes (db\<lparr>o_nodes := insert_node k i job (o_nodes db), o_next := c\<rparr>) i)
    \<le> potential ms (run_nodes db i)"
proof (cases "list_ex (\<lambda>n. node_id n = k \<or> (node_run_id n = i \<and> node_job_name n = job)) (o_nodes db)")
  case True
  then show ?thesis by (simp add: insert_node_def run_nodes_def)
next
  case False
  let ?B = "node_job_name ` set (run_nodes db i)"
  have job: "job \<in> set ms - ?B" using False assms by (auto simp: list_ex_iff run_nodes_def)
  have "set ms - insert job ?B = (set ms - ?B) - {job}" by blast
  then have card: "3 * card (set ms - insert job ?B) + 3 = 3 * card (set ms - ?B)"
    using card_Suc_Diff1 [OF _ job] by simp
  show ?thesis
    using False card by (simp add: insert_node_def potential_def run_nodes_def status_rank_def)
qed

lemma potential_insert_nodes:
  "set jobs \<subseteq> set ms \<Longrightarrow> potential ms (run_nodes (insert_nodes newId i jobs db) i) \<le> potential ms (run_nodes db i)"
proof (induction newId i jobs db rule: insert_nodes.induct)
  case (2 newId i job jobs db)
  then show ?case using potential_insert_node [where job = job and ms = ms and db = db and i = i] by (auto intro: order_trans)
qed simp

lemma potential_bound: "potential ms rows \<le> 3 * (length rows + length ms)"
proof -
  have "(\<Sum>n \<leftarrow> rows. 3 - status_rank (node_status n)) \<le> 3 * length rows"
    by (induction rows) auto
  moreover have "card (set ms - node_job_name ` set rows) \<le> length ms"
    using card_mono [of "set ms" "set ms - node_job_name ` set rows"] card_length [of ms] by simp
  ultimately show ?thesis by (simp add: potential_def)
qed

lemma run_nodes_insert_nonempty: "run_nodes db i \<noteq> [] \<Longrightarrow> run_nodes (insert_nodes newId j jobs db) i \<noteq> []"
  by (induction newId j jobs db rule: insert_nodes.induct) (auto simp: run_nodes_def insert_node_def)

lemma insert_members_outcome:
  assumes "run_exists i w"
  obtains db where "insert_members env i w = (Inr (), w\<lparr>w_db := db\<rparr>)" "o_runs db = o_runs (w_db w)"
    "potential (member_names env) (run_nodes db i) \<le> potential (member_names env) (run_nodes (w_db w) i)"
    "run_nodes (w_db w) i \<noteq> [] \<Longrightarrow> run_nodes db i \<noteq> []"
proof (cases "member_names env = []")
  case True
  then show ?thesis by (intro that [of "w_db w"]) (simp_all add: insert_members_def try_db_def insertNodes_def)
next
  case False
  let ?db = "insert_nodes (env_newId env) i (member_names env) (w_db w)"
  have "list_ex (\<lambda>r. run_id r = i) (o_runs (w_db w))" using assms by (auto simp: run_exists_def list_ex_iff)
  then have "insert_members env i w = (Inr (), w\<lparr>w_db := ?db\<rparr>)"
    using False by (simp add: insert_members_def try_db_def insertNodes_def)
  then show ?thesis
    using that [of ?db] potential_insert_nodes [of "member_names env" "member_names env"] run_nodes_insert_nonempty by simp
qed

lemma potential_keys:
  assumes "run_keys i w' = run_keys i w" "remaining i w' < remaining i w"
  shows "potential ms (run_nodes (w_db w') i) < potential ms (run_nodes (w_db w) i)"
proof -
  have "node_job_name ` set (run_nodes (w_db w) i) = snd ` set (run_keys i w)"
    "node_job_name ` set (run_nodes (w_db w') i) = snd ` set (run_keys i w')"
    by (simp_all add: run_keys_def image_image)
  then show ?thesis using assms by (simp add: potential_def remaining_def)
qed

text \<open>One tick for a running run closes it, or leaves it running with less to do.\<close>

lemma tick_progress:
  assumes w: "winv env w" and good: "good_env env" and i: "i \<noteq> []"
    and active: "getActiveRunById i (w_db w) = Some run" and rows: "run_nodes (w_db w) i \<noteq> []"
    and tick: "runOrchestratorTick env (Some i) now w = (r, w')"
  shows "run_closed i w' \<or> (getActiveRunById i (w_db w') = Some run \<and> run_nodes (w_db w') i \<noteq> [] \<and>
     potential (member_names env) (run_nodes (w_db w') i) < potential (member_names env) (run_nodes (w_db w) i))"
proof -
  have inj: "inj (env_uuid env)" using good by (simp add: good_env_def)
  note act = active_by_id [OF active]
  then have ex: "run_exists i w" by (auto simp: run_exists_def)
  obtain db where ins: "insert_members env i w = (Inr (), w\<lparr>w_db := db\<rparr>)" "o_runs db = o_runs (w_db w)"
    "potential (member_names env) (run_nodes db i) \<le> potential (member_names env) (run_nodes (w_db w) i)"
    "run_nodes db i \<noteq> []"
    by (rule insert_members_outcome [OF ex]) (use rows in blast)
  let ?w = "w\<lparr>w_db := db\<rparr>"
  have m0: "moves env w ?w" by (rule keepsD [OF keeps_insert_members w TrueI ins(1)])
  then have w0: "winv env ?w" by (simp add: moves_def)
  obtain q where cont: "advanceAndContinue env run now ?w = (q, w')"
  proof -
    have "bind_act (advanceAndContinue env run now) (\<lambda>_. ret ()) ?w = (r, w')"
      using tick act unfolding tick_found [OF i active] by (simp add: bind_step [where m = "insert_members env i", OF ins(1)])
    then show ?thesis by (rule bind_act_cases) (use that in auto)
  qed
  obtain p w1 where pass: "advanceRun env run now ?w = (p, w1)" by (metis surj_pair)
  then obtain s where p: "p = Inr s" using advanceRun_moves(2) [OF w0 inj] by blast
  have w1: "winv env w1" using advanceRun_moves(1) [OF w0 inj pass] by (simp add: moves_def)
  have tables: "table_keys w1 = table_keys ?w" by (rule steadyD [OF steady_advanceRun pass])
  then have runs: "o_runs (w_db w1) = o_runs (w_db w)" using ins(2) by (simp add: table_keys_def)
  have keys: "run_keys i w1 = run_keys i ?w" by (rule run_keys_cong [OF steady_rows [OF tables]])
  note after = continue_after_pass [OF pass [unfolded p] cont]
  show ?thesis
  proof (cases "sm_complete s")
    case True
    have "nodes_over i (w_db w1)" using pass_closes [OF w0 inj pass [unfolded p] True] act by simp
    moreover have "run_over i (snd (finishRun i RunCompleted now (w_db w1)))"
      using finish_over [OF winv_orch [OF w1], of run] act runs by simp
    ultimately show ?thesis using after(1) [OF True] act by (simp add: run_closed_def)
  next
    case False
    have "\<exists>n \<in> set (run_nodes (w_db ?w) (run_id run)). \<not> isTerminalNodeStatus (node_status n)"
    proof (rule ccontr)
      assume "\<not> ?thesis"
      then obtain s' where "p = Inr s'" "sm_complete s'"
        using pass_finishes [OF w0 inj pass] ins(4) act by auto
      then show False using False p by simp
    qed
    then have "remaining i w1 < remaining i ?w" using pass_progress [OF w0 good pass] act by blast
    from potential_keys [OF keys this, of "member_names env"]
    have "potential (member_names env) (run_nodes (w_db w1) i) < potential (member_names env) (run_nodes (w_db w) i)"
      using ins(3) by simp
    moreover have "run_nodes (w_db w1) i \<noteq> []" using keys ins(4) by (auto simp: run_keys_def)
    moreover have "getActiveRunById i (w_db w1) = Some run"
      using active runs by (simp add: getActiveRunById_def)
    ultimately show ?thesis using after(2) [OF False] by simp
  qed
qed

lemma closed_inactive:
  assumes "winv env w" "run_closed i w"
  shows "getActiveRunById i (w_db w) = None"
proof -
  obtain q where q: "q \<in> set (o_runs (w_db w))" "run_id q = i" "run_status q \<noteq> RunRunning"
    using assms(2) by (auto simp: run_closed_def run_over_def)
  have "run_status r \<noteq> RunRunning" if "r \<in> set (o_runs (w_db w))" "run_id r = i" for r
    using run_same_id [OF winv_orch [OF assms(1)] that(1) q(1)] that q by simp
  then show ?thesis by (auto simp: getActiveRunById_def find_None_iff)
qed

definition run_ticks :: "'b orch_env \<Rightarrow> string \<Rightarrow> int list \<Rightarrow> 'b world \<Rightarrow> 'b world" where
  "run_ticks env i nows w = fold (\<lambda>now w. snd (runOrchestratorTick env (Some i) now w)) nows w"

lemma ticks_closed:
  assumes "winv env w" "i \<noteq> []" "run_closed i w"
  shows "run_ticks env i nows w = w"
  using tick_missing [OF assms(2) closed_inactive [OF assms(1,3)]]
  by (induction nows) (simp_all add: run_ticks_def)

lemma ticks_close:
  assumes "winv env w" and good: "good_env env" and i: "i \<noteq> []"
    and "getActiveRunById i (w_db w) = Some run" "run_nodes (w_db w) i \<noteq> []"
    and "potential (member_names env) (run_nodes (w_db w) i) < length nows"
  shows "run_closed i (run_ticks env i nows w)"
  using assms(1,4-)
proof (induction nows arbitrary: w)
  case (Cons now nows)
  obtain r w1 where 1: "runOrchestratorTick env (Some i) now w = (r, w1)" by (metis surj_pair)
  have inj: "inj (env_uuid env)" using good by (simp add: good_env_def)
  have w1: "winv env w1"
    using keepsD [OF runOrchestratorTick_keeps [OF inj] Cons.prems(1) TrueI 1] by (simp add: moves_def)
  have rest: "run_ticks env i (now # nows) w = run_ticks env i nows w1" using 1 by (simp add: run_ticks_def)
  from tick_progress [OF Cons.prems(1) good i Cons.prems(2,3) 1] show ?case
  proof
    assume "run_closed i w1"
    then show ?thesis using ticks_closed [OF w1 i] rest by simp
  next
    assume "getActiveRunById i (w_db w1) = Some run \<and> run_nodes (w_db w1) i \<noteq> [] \<and>
     potential (member_names env) (run_nodes (w_db w1) i) < potential (member_names env) (run_nodes (w_db w) i)"
    then show ?thesis using Cons.IH [OF w1] Cons.prems(4) rest by simp
  qed
qed simp

text \<open>A validated graph has no dependency cycle.\<close>

lemma built_dag_wf:
  assumes "validateJobDag ms allJobs = Inr ()" "buildJobDag ms = Inr dag"
  shows "wf (dag_edges dag)"
proof -
  have v: "distinct (map m_name ms)"
    "\<And>m u. m \<in> set ms \<Longrightarrow> u \<in> set (upstreams m) \<Longrightarrow> u \<in> m_name ` set ms"
    "acyclic (edge (adjacency ms))"
    using assms(1) unfolding validateJobDag_accepts by blast+
  obtain dag' where "buildJobDag ms = Inr dag'" "nodes dag' = map (\<lambda>m. (m_name m, node_of m)) ms"
    by (rule built_dag [OF v(1,2)])
  then have nodes: "nodes dag = map (\<lambda>m. (m_name m, node_of m)) ms" using assms(2) by simp
  have "dag_edges dag \<subseteq> (edge (adjacency ms))\<inverse>"
  proof (clarsimp simp: dag_edges_def)
    fix j dn d assume "map_of (nodes dag) j = Some dn" and d: "d \<in> set (n_deps dn)"
    then obtain m where m: "m \<in> set ms" "m_name m = j" "dn = node_of m"
      by (auto simp: nodes dest!: map_of_SomeD)
    then have u: "d_job d \<in> set (upstreams m)" using d by (auto simp: node_of_def upstreams_def)
    then obtain v where v': "v \<in> set ms" "m_name v = d_job d" using v(2) [OF m(1)] by (metis imageE)
    show "(j, d_job d) \<in> edge (adjacency ms)"
      using map_of_adjacency [OF v(1) m(1)] map_of_adjacency [OF v(1) v'(1)] u m(2) v'(2) by (simp add: edge_def)
  qed
  moreover have "wf ((edge (adjacency ms))\<inverse>)" by (rule finite_acyclic_wf_converse [OF finite_edge v(3)])
  ultimately show ?thesis by (rule wf_subset [rotated])
qed

end
