(* ===== verification/OrchestratorProperties.thy ===== *)
theory OrchestratorProperties
  imports OrchestratorProgress
begin

text \<open>
  The properties of the nightly orchestrator, with a small concrete environment: two jobs, one
  depending hard on the other, and a queue that has finished every job it is asked about.
\<close>

definition demo_night :: "JobDagMemberInput list" where
  "demo_night = [\<lparr>m_name = ''brief'', m_owner = ''shell'', m_dependsOn = [JobName ''digest'']\<rparr>,
     \<lparr>m_name = ''digest'', m_owner = ''agency'', m_dependsOn = []\<rparr>]"

definition demo_boss :: "unit boss_api" where
  "demo_boss = \<lparr>b_send = (\<lambda>name payload startAfter i b. (Inr (Some ''job''), b)),
     b_getJobById = (\<lambda>name i b. Inr (Some (''completed'', JNull))),
     b_cancel = (\<lambda>name i b. (Inr (), b))\<rparr>"

definition demo_env :: "unit orch_env" where
  "demo_env = \<lparr>env_boss = demo_boss, env_newId = (\<lambda>k. CHR ''r'' # replicate k CHR ''i''),
     env_uuid = (\<lambda>k. replicate (Suc k) CHR ''u''), env_dag = projr (buildJobDag demo_night),
     env_eligibility = (\<lambda>j. None), env_timeoutSeconds = None,
     env_localDate = (\<lambda>now. if now < 1000 then ''d1'' else ''d2''),
     env_localMinuteOfDay = (\<lambda>now. Some 160)\<rparr>"

definition demo_world :: "unit world" where
  "demo_world = \<lparr>w_db = \<lparr>o_runs = [], o_nodes = [], o_next = 0\<rparr>, w_boss = (), w_uuids = 0, w_sends = []\<rparr>"

text \<open>A night that has started, and the same night after one tick and after three.\<close>

definition demo_started :: "unit world" where
  "demo_started = snd (runOrchestratorStart demo_env Cron 0 demo_world)"

definition demo_ticked :: "unit world" where
  "demo_ticked = snd (runOrchestratorTick demo_env (Some ''r'') 60 demo_started)"

lemma demo_inj: "inj (env_uuid demo_env)"
  by (auto simp: inj_def demo_env_def dest: arg_cong [where f = length])

lemma demo_reach: "orch_reach demo_env demo_started []" "orch_reach demo_env demo_ticked []"
proof -
  have "orch_reach demo_env demo_world []" by (rule orch_reach.empty) (simp add: empty_world_def demo_world_def)
  then show s: "orch_reach demo_env demo_started []"
    unfolding demo_started_def by (rule orch_reach.anchor) (rule surjective_pairing)
  then show "orch_reach demo_env demo_ticked []"
    unfolding demo_ticked_def by (rule orch_reach.tick) (rule surjective_pairing)
qed

lemma demo_sends: "w_sends demo_ticked =
    [\<lparr>s_name = ''digest'', s_payload = EmptyPayload, s_startAfter = None, s_id = Some ''u''\<rparr>,
     \<lparr>s_name = ORCHESTRATOR_QUEUE, s_payload = TickPayload ''r'', s_startAfter = Some 60, s_id = None\<rparr>,
     \<lparr>s_name = ''brief'', s_payload = EmptyPayload, s_startAfter = None, s_id = Some ''uu''\<rparr>,
     \<lparr>s_name = ORCHESTRATOR_QUEUE, s_payload = TickPayload ''r'', s_startAfter = Some 60, s_id = None\<rparr>]"
  by code_simp

lemma sent_row:
  assumes "winv env w" "x \<in> set (w_sends w)" "s_id x = Some u"
  obtains n where "n \<in> set (o_nodes (w_db w))" "node_job_name n = s_name x" "node_boss_job_id n = Some u"
  using assms unfolding winv_def member_send_ok_def tick_send_ok_def by (metis option.distinct(1))

text \<open>
  C20. The dependency gate, under any interleaving of anchors, boot catch-ups, ticks and passes
  of concurrent workers, and whatever the queue does: a job is only ever sent to the queue for a
  node row of its own, when every hard dependency the graph declares for it has, in the same
  run, a row that succeeded, was not needed, or finished degraded.
\<close>

theorem dispatch_respects_dependencies:
  assumes "inj (env_uuid env)" "orch_reach env w ps"
    and "x \<in> set (w_sends w)" "s_id x = Some u"
  shows "\<exists>n \<in> set (o_nodes (w_db w)). node_job_name n = s_name x \<and> node_boss_job_id n = Some u \<and>
    (\<exists>dn. map_of (nodes (env_dag env)) (s_name x) = Some dn \<and>
      (\<forall>d \<in> set (n_deps dn). \<not> d_soft d \<longrightarrow>
        (\<exists>m \<in> set (o_nodes (w_db w)). node_run_id m = node_run_id n \<and> node_job_name m = d_job d \<and>
           node_status m \<in> {NSucceeded, NNotNeeded, NDegraded})))"
proof -
  have w: "winv env w" using orch_reach_inv [OF assms(1,2)] by blast
  obtain n where n: "n \<in> set (o_nodes (w_db w))" "node_job_name n = s_name x" "node_boss_job_id n = Some u"
    by (rule sent_row [OF w assms(3,4)])
  then have "node_boss_job_id n \<noteq> None" by simp
  then show ?thesis
    using w n unfolding winv_def gate_ok_def settled_well_def by metis
qed

theorem dispatch_respects_dependencies_witness:
  "\<exists>m \<in> set (o_nodes (w_db demo_ticked)). node_job_name m = ''digest'' \<and>
     node_status m \<in> {NSucceeded, NNotNeeded, NDegraded}"
proof -
  let ?x = "\<lparr>s_name = ''brief'', s_payload = EmptyPayload, s_startAfter = None, s_id = Some ''uu''\<rparr>"
  have x: "?x \<in> set (w_sends demo_ticked)" "s_id ?x = Some ''uu''" by (simp_all add: demo_sends)
  have "map_of (nodes (env_dag demo_env)) ''brief'' =
      Some \<lparr>n_name = ''brief'', n_owner = ''shell'', n_deps = [\<lparr>d_job = ''digest'', d_soft = False\<rparr>]\<rparr>"
    by code_simp
  then show ?thesis
    using dispatch_respects_dependencies [OF demo_inj demo_reach(2) x] by fastforce
qed

text \<open>
  C21. One job per node: every id handed to the queue belongs to exactly one row, the row of that
  job, and a run has one row per job. So all sends for one job of one run, first dispatches and
  re-sends alike, carry the same id, and the queue cannot run it under two.
\<close>

theorem one_queue_job_per_node:
  assumes "inj (env_uuid env)" "orch_reach env w ps"
    and "x \<in> set (w_sends w)" "s_id x = Some u"
  shows "(\<exists>!n. n \<in> set (o_nodes (w_db w)) \<and> node_boss_job_id n = Some u) \<and>
    (\<exists>n \<in> set (o_nodes (w_db w)). node_boss_job_id n = Some u \<and> node_job_name n = s_name x \<and>
      (\<forall>m \<in> set (o_nodes (w_db w)). node_run_id m = node_run_id n \<and> node_job_name m = s_name x \<longrightarrow> m = n))"
proof -
  have w: "winv env w" using orch_reach_inv [OF assms(1,2)] by blast
  obtain n where n: "n \<in> set (o_nodes (w_db w))" "node_job_name n = s_name x" "node_boss_job_id n = Some u"
    by (rule sent_row [OF w assms(3,4)])
  have "\<exists>!n. n \<in> set (o_nodes (w_db w)) \<and> node_boss_job_id n = Some u"
    using n winv_same_id [OF w] by (intro ex1I [of _ n]) auto
  moreover have "\<exists>n \<in> set (o_nodes (w_db w)). node_boss_job_id n = Some u \<and> node_job_name n = s_name x \<and>
      (\<forall>m \<in> set (o_nodes (w_db w)). node_run_id m = node_run_id n \<and> node_job_name m = s_name x \<longrightarrow> m = n)"
    using n njob.wf_same_row [OF orch_invD(3) [OF winv_orch [OF w]]] by (intro bexI [of _ n]) auto
  ultimately show ?thesis by (rule conjI)
qed

theorem one_queue_job_per_node_witness:
  "\<exists>!n. n \<in> set (o_nodes (w_db demo_ticked)) \<and> node_boss_job_id n = Some ''u''"
proof -
  let ?x = "\<lparr>s_name = ''digest'', s_payload = EmptyPayload, s_startAfter = None, s_id = Some ''u''\<rparr>"
  have "?x \<in> set (w_sends demo_ticked)" "s_id ?x = Some ''u''" by (simp_all add: demo_sends)
  from conjunct1 [OF one_queue_job_per_node [OF demo_inj demo_reach(2) this]] show ?thesis .
qed

text \<open>
  C22. The scheduling tables under any sequence of statements of any number of callers: at most
  one running run per date, and every row moves forward only. A node that has reached a terminal
  status is never changed again, its queue id and its enqueue time are set once, when it leaves
  \<open>pending\<close>, and a closed run is never reopened.
\<close>

theorem scheduling_rows_move_forward:
  assumes "orch_inv db" "(store_step newId)\<^sup>*\<^sup>* db db'"
  shows "distinct (map run_date (listActiveRuns db')) \<and>
    (\<forall>n \<in> set (o_nodes db). \<exists>n' \<in> set (o_nodes db').
      node_id n' = node_id n \<and> node_run_id n' = node_run_id n \<and> node_job_name n' = node_job_name n \<and>
      (isTerminalNodeStatus (node_status n) \<longrightarrow> n' = n) \<and>
      (node_status n \<noteq> NPending \<longrightarrow> node_boss_job_id n' = node_boss_job_id n \<and>
         node_enqueued_at n' = node_enqueued_at n \<and> node_stale n' = node_stale n) \<and>
      status_rank (node_status n) \<le> status_rank (node_status n')) \<and>
    (\<forall>r \<in> set (o_runs db). run_status r \<noteq> RunRunning \<longrightarrow> r \<in> set (o_runs db'))"
proof -
  have inv': "orch_inv db'" and ev: "db_evolves db db'" using store_steps_inv [OF assms(2,1)] by auto
  have "\<forall>r \<in> set (o_runs db). run_status r \<noteq> RunRunning \<longrightarrow> r \<in> set (o_runs db')"
    using ev unfolding db_evolves_def by metis
  then show ?thesis using orch_invD(4) [OF inv'] ev unfolding db_evolves_def node_step_def by blast
qed

lemma demo_reach_inv: "winv demo_env demo_started"
  using orch_reach_inv [OF demo_inj demo_reach(1)] by blast

theorem scheduling_rows_move_forward_witness:
  "\<exists>n' \<in> set (o_nodes (snd (updateNodeStatus ''ri'' NSkipped None 5 (w_db demo_started)))). node_id n' = ''ri''"
proof -
  let ?db = "w_db demo_started"
  obtain n where n: "n \<in> set (o_nodes ?db)" "node_id n = ''ri''"
  proof -
    have "row_by node_id ''ri'' (o_nodes ?db) \<noteq> None" by code_simp
    then obtain n where "row_by node_id ''ri'' (o_nodes ?db) = Some n" by blast
    from row_by_SomeD [OF this] show ?thesis using that by blast
  qed
  have "(store_step (env_newId demo_env))\<^sup>*\<^sup>* ?db (snd (updateNodeStatus ''ri'' NSkipped None 5 ?db))"
    by (rule r_into_rtranclp, rule store_step.skip, rule surjective_pairing)
  from scheduling_rows_move_forward [OF winv_orch [OF demo_reach_inv] this] n show ?thesis by metis
qed

text \<open>An anchor of a night that has a run, running or closed, creates none.\<close>

lemma cron_creates_none:
  assumes w: "winv env w" and s: "runOrchestratorStart env Cron now w = (r, w')"
    and x: "x \<in> set (o_runs (w_db w))" "run_date x = env_localDate env now"
  shows "map run_id (o_runs (w_db w')) = map run_id (o_runs (w_db w))"
proof -
  let ?d = "env_localDate env now"
  obtain r1 w1 where sweep: "for_each (abandon_leftover env ?d now) (listActiveRuns (w_db w)) w = (r1, w1)"
    by (metis surj_pair)
  have "kmoves env w w1 \<and> r1 = Inr () \<and> (\<forall>x \<in> set (listActiveRuns (w_db w)). run_date x \<noteq> ?d \<longrightarrow>
      run_over (run_id x) (w_db w1) \<and> nodes_over (run_id x) (w_db w1))"
    by (rule abandon_all [OF w _ sweep]) (simp add: active_exists)
  then have r1: "r1 = Inr ()"
    and keys: "map (\<lambda>r. (run_id r, run_date r)) (o_runs (w_db w1)) = map (\<lambda>r. (run_id r, run_date r)) (o_runs (w_db w))"
    by (simp_all add: kmoves_def row_keys_def)
  have "(run_id x, run_date x) \<in> set (map (\<lambda>r. (run_id r, run_date r)) (o_runs (w_db w1)))"
    using x(1) unfolding keys by auto
  then have "filter (\<lambda>r. run_date r = ?d) (o_runs (w_db w1)) \<noteq> []"
    using x(2) by (auto simp: filter_empty_conv)
  then have "getLatestRunForDate ?d (w_db w1) \<noteq> None"
    by (auto simp: getLatestRunForDate_def split: list.split dest: arg_cong [where f = set])
  then have start: "start_run env Cron now w1 = (Inr (getActiveRunForDate ?d (w_db w1)), w1)"
    by (simp add: start_run_def Let_def)
  have "drive_run env now (getActiveRunForDate ?d (w_db w1)) w1 = (r, w')"
    using s unfolding runOrchestratorStart_alt by (simp add: bind_act_def sweep r1 start)
  from drive_keys(1) [OF this] have "map (\<lambda>r. (run_id r, run_date r)) (o_runs (w_db w')) =
      map (\<lambda>r. (run_id r, run_date r)) (o_runs (w_db w))" unfolding keys .
  from arg_cong [OF this, of "map fst"] show ?thesis by (simp add: comp_def)
qed

text \<open>
  C23. Start is single-flight: afterwards every running run, and there is at most one, is of the
  night the start was for; every run left over from another date is closed with all its node rows
  terminal; the run it returns is tonight's; and a cron start of a night that already has a run,
  running or closed, creates no other.
\<close>

theorem start_is_single_flight:
  assumes "inj (env_uuid env)" "orch_reach env w ps" "runOrchestratorStart env trigger now w = (r, w')"
  shows "(\<forall>x \<in> set (listActiveRuns (w_db w')). run_date x = env_localDate env now) \<and>
    (length (listActiveRuns (w_db w')) \<le> 1) \<and>
    (\<forall>x \<in> set (listActiveRuns (w_db w)). run_date x \<noteq> env_localDate env now \<longrightarrow>
      (\<exists>q \<in> set (o_runs (w_db w')). run_id q = run_id x \<and> run_status q \<noteq> RunRunning) \<and>
      (\<forall>n \<in> set (o_nodes (w_db w')). node_run_id n = run_id x \<longrightarrow> isTerminalNodeStatus (node_status n))) \<and>
    (\<forall>y. r = Inr (Some y) \<longrightarrow> run_date y = env_localDate env now) \<and>
    (trigger = Cron \<and> (\<exists>x \<in> set (o_runs (w_db w)). run_date x = env_localDate env now) \<longrightarrow>
      map run_id (o_runs (w_db w')) = map run_id (o_runs (w_db w)))"
proof -
  have w: "winv env w" using orch_reach_inv [OF assms(1,2)] by blast
  note left = start_leaves [OF w assms(1,3)]
  have "distinct (map run_date (listActiveRuns (w_db w')))"
    using runOrchestratorStart_moves [OF w assms(1,3)] winv_orch orch_invD(4) by (auto simp: moves_def)
  then have "length (listActiveRuns (w_db w')) = card (run_date ` set (listActiveRuns (w_db w')))"
    using distinct_card by fastforce
  also have "\<dots> \<le> card {env_localDate env now}" by (rule card_mono) (use left(1) in auto)
  finally have "length (listActiveRuns (w_db w')) \<le> 1" by simp
  then show ?thesis
    using left cron_creates_none [OF w] assms(3) unfolding run_over_def nodes_over_def by blast
qed

theorem start_is_single_flight_witness:
  "\<exists>q \<in> set (o_runs (w_db (snd (runOrchestratorStart demo_env Cron 5000 demo_started)))).
     run_id q = ''r'' \<and> run_status q \<noteq> RunRunning"
proof -
  let ?run = "\<lparr>run_id = ''r'', run_date = ''d1'', run_trigger = Cron, run_status = RunRunning,
      run_started_at = 0, run_finished_at = None\<rparr>"
  have active: "listActiveRuns (w_db demo_started) = [?run]" "env_localDate demo_env 5000 = ''d2''" by code_simp+
  from start_is_single_flight [OF demo_inj demo_reach(1) surjective_pairing, of Cron 5000] active show ?thesis by force
qed

lemma tick_outcome:
  assumes w: "winv env w" and inj: "inj (env_uuid env)" and i: "i \<noteq> []"
    and active: "getActiveRunById i (w_db w) = Some run"
    and tick: "runOrchestratorTick env (Some i) now w = (r, w')"
  shows "(r = Inr () \<and> run_closed i w') \<or>
    (getActiveRunById i (w_db w') = Some run \<and>
     (\<exists>sends. w_sends w' = sends @ [\<lparr>s_name = ORCHESTRATOR_QUEUE, s_payload = TickPayload i,
        s_startAfter = Some TICK_INTERVAL_SECONDS, s_id = None\<rparr>]))"
proof -
  note act = active_by_id [OF active]
  then have ex: "run_exists i w" by (auto simp: run_exists_def)
  obtain db where ins: "insert_members env i w = (Inr (), w\<lparr>w_db := db\<rparr>)" "o_runs db = o_runs (w_db w)"
    by (rule insert_members_outcome [OF ex]) blast
  let ?w = "w\<lparr>w_db := db\<rparr>"
  have w0: "winv env ?w" using keepsD [OF keeps_insert_members w TrueI ins(1)] by (simp add: moves_def)
  have run: "bind_act (advanceAndContinue env run now) (\<lambda>_. ret ()) ?w = (r, w')"
    using tick act unfolding tick_found [OF i active] by (simp add: bind_step [where m = "insert_members env i", OF ins(1)])
  obtain q where cont: "advanceAndContinue env run now ?w = (q, w')" "q = Inr x \<Longrightarrow> r = Inr ()" for x
    using run by (rule bind_act_cases) (use that in auto)
  obtain p w1 where pass: "advanceRun env run now ?w = (p, w1)" by (metis surj_pair)
  then obtain s where p: "p = Inr s" using advanceRun_moves(2) [OF w0 inj] by blast
  have w1: "winv env w1" using advanceRun_moves(1) [OF w0 inj pass] by (simp add: moves_def)
  have runs: "o_runs (w_db w1) = o_runs (w_db w)"
    using steadyD [OF steady_advanceRun pass] ins(2) by (simp add: table_keys_def)
  note after = continue_after_pass [OF pass [unfolded p] cont(1)]
  show ?thesis
  proof (cases "sm_complete s")
    case True
    have "nodes_over i (w_db w1)" using pass_closes [OF w0 inj pass [unfolded p] True] act by simp
    moreover have "run_over i (snd (finishRun i RunCompleted now (w_db w1)))"
      using finish_over [OF winv_orch [OF w1], of run] act runs by simp
    ultimately show ?thesis using after(1) [OF True] act cont(2) by (simp add: run_closed_def)
  next
    case False
    then show ?thesis using after(2) active act runs by (auto simp: getActiveRunById_def)
  qed
qed

text \<open>
  A tick never loses its run: it closes it, with every node row of the run in a terminal
  status, or leaves it running with the call that arms the next tick as the last thing it did. If
  it throws, the run is still running (and the queue retries the tick).
\<close>

theorem tick_closes_or_rearms:
  assumes "inj (env_uuid env)" "orch_reach env w ps" "i \<noteq> []" "getActiveRunById i (w_db w) = Some run"
    and "runOrchestratorTick env (Some i) now w = (r, w')"
  shows "(r = Inr () \<and>
      (\<exists>q \<in> set (o_runs (w_db w')). run_id q = i \<and> run_status q \<noteq> RunRunning) \<and>
      (\<forall>n \<in> set (o_nodes (w_db w')). node_run_id n = i \<longrightarrow> isTerminalNodeStatus (node_status n))) \<or>
    (getActiveRunById i (w_db w') = Some run \<and>
     (\<exists>sends. w_sends w' = sends @ [\<lparr>s_name = ORCHESTRATOR_QUEUE, s_payload = TickPayload i,
        s_startAfter = Some TICK_INTERVAL_SECONDS, s_id = None\<rparr>]))"
  using tick_outcome [OF conjunct1 [OF orch_reach_inv [OF assms(1,2)]] assms(1,3,4,5)]
  unfolding run_closed_def run_over_def nodes_over_def by blast

lemma demo_active: "getActiveRunById ''r'' (w_db demo_started) =
    Some \<lparr>run_id = ''r'', run_date = ''d1'', run_trigger = Cron, run_status = RunRunning,
      run_started_at = 0, run_finished_at = None\<rparr>"
  by code_simp

theorem tick_closes_or_rearms_witness:
  "getActiveRunById ''r'' (w_db demo_ticked) \<noteq> None"
proof -
  have "\<not> list_ex (\<lambda>q. run_id q = ''r'' \<and> run_status q \<noteq> RunRunning) (o_runs (w_db demo_ticked))" by code_simp
  then show ?thesis
    using tick_closes_or_rearms [OF demo_inj demo_reach(1) _ demo_active surjective_pairing, of 60]
    by (auto simp: demo_ticked_def list_ex_iff)
qed

text \<open>
  C25. A night ends: when the graph has no cycle, no eligibility check throws, and the queue has
  finished every job it is asked about, repeated ticks close the run, whatever state its rows
  were in. Three ticks for every row and every member of the graph, and one more, are enough.
\<close>

theorem ticks_close_the_run:
  assumes "orch_reach env w ps" "good_env env" "i \<noteq> []" "getActiveRunById i (w_db w) = Some run"
    and "run_nodes (w_db w) i \<noteq> []"
    and "3 * (length (run_nodes (w_db w) i) + length (member_names env)) < length nows"
  shows "(\<exists>q \<in> set (o_runs (w_db (run_ticks env i nows w))). run_id q = i \<and> run_status q \<noteq> RunRunning) \<and>
    (\<forall>n \<in> set (o_nodes (w_db (run_ticks env i nows w))). node_run_id n = i \<longrightarrow>
      isTerminalNodeStatus (node_status n))"
proof -
  have "inj (env_uuid env)" using assms(2) by (simp add: good_env_def)
  then have w: "winv env w" using orch_reach_inv assms(1) by blast
  have "potential (member_names env) (run_nodes (w_db w) i) < length nows"
    using potential_bound [of "member_names env" "run_nodes (w_db w) i"] assms(6) by simp
  from ticks_close [OF w assms(2-5) this] have "run_closed i (run_ticks env i nows w)" .
  then show ?thesis unfolding run_closed_def run_over_def nodes_over_def by blast
qed

lemma demo_good: "good_env demo_env"
proof -
  have "validateJobDag demo_night [''brief'', ''digest''] = Inr ()" by code_simp
  moreover have "buildJobDag demo_night = Inr (env_dag demo_env)" by code_simp
  ultimately have "wf (dag_edges (env_dag demo_env))" by (rule built_dag_wf)
  moreover have "queue_finishes (env_boss demo_env)"
    by (simp add: queue_finishes_def demo_env_def demo_boss_def mapBossState_def)
  moreover have "env_uuid demo_env k \<noteq> []" "env_eligibility demo_env j \<noteq> Some (EligThrows e)" for k j e
    by (simp_all add: demo_env_def)
  ultimately show ?thesis using demo_inj by (simp add: good_env_def)
qed

theorem ticks_close_the_run_witness:
  "\<exists>q \<in> set (o_runs (w_db (run_ticks demo_env ''r'' (replicate 13 60) demo_started))).
     run_id q = ''r'' \<and> run_status q \<noteq> RunRunning"
proof -
  have "length (run_nodes (w_db demo_started) ''r'') = 2" "length (member_names demo_env) = 2" by code_simp+
  then show ?thesis
    using ticks_close_the_run [OF demo_reach(1) demo_good _ demo_active, of "replicate 13 60"] by fastforce
qed

text \<open>
  The boot catch-up window: on a readable clock the minutes since the 02:30 anchor are taken
  modulo a day, and the catch-up does nothing at all exactly when the local time is outside 02:30
  to 07:29; it never throws.
\<close>

theorem catch_up_window:
  assumes "env_localMinuteOfDay env now = Some m" "0 \<le> m" "m < 1440"
  shows "(minutesSinceAnchor env now = Some ((m - 150) mod 1440)) \<and>
    (runOrchestratorCatchUp env now w = (Inr OutsideWindow, w) \<longleftrightarrow> \<not> (150 \<le> m \<and> m < 450)) \<and>
    (\<exists>out. fst (runOrchestratorCatchUp env now w) = Inr out)"
proof -
  note window_defs = ORCHESTRATOR_ANCHOR_HOUR_def ORCHESTRATOR_ANCHOR_MINUTE_def MINUTES_PER_DAY_def
    ORCHESTRATOR_CATCHUP_WINDOW_SECONDS_def
  have "js_rem (m - 150 + 1440) 1440 = (m - 150) mod 1440"
    using assms(2) by (simp add: js_rem_def mod_add_self2 [of "m - 150" 1440, symmetric] del: mod_add_self2)
  then have since: "minutesSinceAnchor env now = Some ((m - 150) mod 1440)"
    using assms(1) by (simp add: minutesSinceAnchor_def window_defs)
  have wrap: "(m - 150) mod 1440 < 300 \<longleftrightarrow> 150 \<le> m \<and> m < 450"
  proof (cases "150 \<le> m")
    case False
    then have "(m - 150) mod 1440 = m - 150 + 1440" using assms(2) mod_add_self2 [of "m - 150" 1440] mod_pos_pos_trivial [of "m - 150 + 1440" 1440] by simp
    then show ?thesis using False assms(2) by simp
  qed (use assms(3) in simp)
  have "\<exists>out. fst (runOrchestratorCatchUp env now w) = Inr out"
    by (auto simp: runOrchestratorCatchUp_def catch_act_def split: prod.splits sum.splits)
  moreover have "runOrchestratorCatchUp env now w = (Inr OutsideWindow, w) \<longleftrightarrow> \<not> (150 \<le> m \<and> m < 450)"
  proof (cases "150 \<le> m \<and> m < 450")
    case False
    then show ?thesis
      using wrap by (simp add: runOrchestratorCatchUp_def since isWithinCatchUpWindow_def window_defs catch_act_def)
  next
    case True
    then have "fst (runOrchestratorCatchUp env now w) \<noteq> Inr OutsideWindow"
      using wrap
      by (auto simp: runOrchestratorCatchUp_def since isWithinCatchUpWindow_def window_defs catch_act_def bind_act_def
          split: prod.splits sum.splits if_splits option.splits)
    then show ?thesis using True by auto
  qed
  ultimately show ?thesis using since by blast
qed

theorem catch_up_window_witness:
  "runOrchestratorCatchUp demo_env 0 demo_world \<noteq> (Inr OutsideWindow, demo_world)"
  using catch_up_window [of demo_env 0 160 demo_world] by (simp add: demo_env_def)

end
