(* ===== verification/TopologyGate.thy ===== *)
theory TopologyGate
  imports Prelude
begin

text \<open>
  The write-time topology gate of the knowledge mesh: \<open>src/src/core/topology-gate.ts\<close>. The
  human-readable reason of a verdict is left out; its gate is kept. An adjacency is a \<open>Map\<close> from
  a node to the \<open>Set\<close> of its successors, both in insertion order.
\<close>

section \<open>The gate\<close>

record TopologyEdge =
  from_knowledge_id :: string
  to_knowledge_id :: string
  relation_type :: string

record TreeParentLink =
  child_id :: string
  parent_id :: string

definition isDirectTreePair :: "string \<Rightarrow> string \<Rightarrow> TreeParentLink list \<Rightarrow> bool" where
  "isDirectTreePair a b links =
     list_ex (\<lambda>l. (child_id l = a \<and> parent_id l = b) \<or> (child_id l = b \<and> parent_id l = a)) links"

datatype TopologyGate = CycleGate | DirectionContradiction | TransitiveRedundancy | TreeRedundancy

datatype TopologyVerdict = Ok | Reject TopologyGate | Warn TopologyGate

definition ORDERED_RELATION :: string where
  "ORDERED_RELATION = ''prerequisite''"

type_synonym adjacency = "(string \<times> string list) list"

definition set_add :: "'a \<Rightarrow> 'a list \<Rightarrow> 'a list" where
  "set_add x xs = (if x \<in> set xs then xs else xs @ [x])"

definition successors :: "adjacency \<Rightarrow> string \<Rightarrow> string list" where
  "successors adj a = (case map_of adj a of None \<Rightarrow> [] | Some xs \<Rightarrow> xs)"

definition add_successor :: "adjacency \<Rightarrow> TopologyEdge \<Rightarrow> adjacency" where
  "add_successor adj e =
     (if relation_type e \<noteq> ORDERED_RELATION then adj
      else AList.update (from_knowledge_id e)
             (set_add (to_knowledge_id e) (successors adj (from_knowledge_id e))) adj)"

definition buildPrerequisiteAdjacency :: "TopologyEdge list \<Rightarrow> adjacency" where
  "buildPrerequisiteAdjacency existing = foldl add_successor [] existing"

lemma unseen_less:
  assumes "cur \<notin> set seen" "successors adj cur \<noteq> []"
  shows "card (fst ` set adj - insert cur (set seen)) < card (fst ` set adj - set seen)"
proof -
  have "cur \<in> fst ` set adj" using assms(2) by (force simp: successors_def split: option.splits dest: map_of_SomeD)
  then show ?thesis using assms(1) by (intro psubset_card_mono) auto
qed

text \<open>
  The loop of \<open>isReachable\<close>. The head of the list is the top of the stack; \<open>seen\<close> grows at every
  new node, and a node without successors only shrinks the stack.
\<close>

function reach_loop :: "adjacency \<Rightarrow> string \<Rightarrow> string list \<Rightarrow> string list \<Rightarrow> bool" where
  "reach_loop adj target seen [] = False"
| "reach_loop adj target seen (cur # stack) =
     (if cur = target then True
      else if cur \<in> set seen then reach_loop adj target seen stack
      else reach_loop adj target (cur # seen)
             (rev (filter (\<lambda>n. n \<notin> set (cur # seen)) (successors adj cur)) @ stack))"
  by pat_completeness auto

termination
proof (relation "measures [\<lambda>(adj, target, seen, stack). card (fst ` set adj - set seen),
    \<lambda>(adj, target, seen, stack). length stack]", goal_cases)
  case (3 adj target seen cur stack)
  show ?case
  proof (cases "successors adj cur = []")
    case False
    then show ?thesis using unseen_less [OF 3(2)] by simp
  next
    case True
    have "card (fst ` set adj - insert cur (set seen)) \<le> card (fst ` set adj - set seen)"
      by (rule card_mono) auto
    then show ?thesis using True by auto
  qed
qed simp_all

definition isReachable :: "adjacency \<Rightarrow> string \<Rightarrow> string \<Rightarrow> bool" where
  "isReachable adj start target = (if start = target then True else reach_loop adj target [] [start])"

definition isReachableViaIntermediate :: "adjacency \<Rightarrow> string \<Rightarrow> string \<Rightarrow> bool" where
  "isReachableViaIntermediate adj start target =
     list_ex (\<lambda>mid. mid \<noteq> target \<and> isReachable adj mid target) (successors adj start)"

definition checkEdgeTopology :: "TopologyEdge \<Rightarrow> TopologyEdge list \<Rightarrow> TreeParentLink list \<Rightarrow> TopologyVerdict" where
  "checkEdgeTopology candidate existing treeParentLinks =
     (let a = from_knowledge_id candidate; b = to_knowledge_id candidate; rel = relation_type candidate in
      if a = b then Reject CycleGate
      else if rel = ''derived_from'' then
        (if list_ex (\<lambda>e. relation_type e = ''derived_from'' \<and> from_knowledge_id e = b \<and> to_knowledge_id e = a) existing
         then Reject DirectionContradiction else Ok)
      else if rel \<noteq> ORDERED_RELATION then Ok
      else if isDirectTreePair a b treeParentLinks then Reject TreeRedundancy
      else
        let adj = buildPrerequisiteAdjacency existing in
        if a \<in> set (successors adj b) then Reject DirectionContradiction
        else if isReachable adj b a then Reject CycleGate
        else if b \<notin> set (successors adj a) \<and> isReachableViaIntermediate adj a b
        then Warn TransitiveRedundancy
        else Ok)"

section \<open>Reachability is exact\<close>

definition adj_rel :: "adjacency \<Rightarrow> (string \<times> string) set" where
  "adj_rel adj = {(a, b). b \<in> set (successors adj a)}"

lemma reach_loop_sound: "reach_loop adj target seen stack \<Longrightarrow> \<exists>x \<in> set stack. (x, target) \<in> (adj_rel adj)\<^sup>*"
proof (induction adj target seen stack rule: reach_loop.induct)
  case (2 adj target seen cur stack)
  let ?nexts = "filter (\<lambda>n. n \<notin> set (cur # seen)) (successors adj cur)"
  consider "cur = target" | "cur \<noteq> target" "cur \<in> set seen" | "cur \<noteq> target" "cur \<notin> set seen" by blast
  then show ?case
  proof cases
    case 1
    then show ?thesis by simp
  next
    case a: 2
    then show ?thesis using 2(1) [OF a] "2.prems" by simp
  next
    case a: 3
    then have "reach_loop adj target (cur # seen) (rev ?nexts @ stack)" using "2.prems" by simp
    from 2(2) [OF a this] obtain x where x: "x \<in> set (rev ?nexts @ stack)" "(x, target) \<in> (adj_rel adj)\<^sup>*" by blast
    then have "x \<in> set stack \<or> (cur, x) \<in> adj_rel adj" by (auto simp: adj_rel_def)
    then show ?thesis
    proof
      assume "(cur, x) \<in> adj_rel adj"
      then have "(cur, target) \<in> (adj_rel adj)\<^sup>*" using x(2) by (rule converse_rtrancl_into_rtrancl)
      then show ?thesis by simp
    qed (use x(2) in auto)
  qed
qed simp

text \<open>When the search gives up, what it has seen is closed and does not hold the target.\<close>

lemma reach_loop_complete:
  assumes "\<not> reach_loop adj target seen stack"
    and "target \<notin> set seen" "\<And>s y. s \<in> set seen \<Longrightarrow> (s, y) \<in> adj_rel adj \<Longrightarrow> y \<in> set seen \<union> set stack"
  shows "\<exists>S. set seen \<union> set stack \<subseteq> S \<and> target \<notin> S \<and> adj_rel adj `` S \<subseteq> S"
  using assms
proof (induction adj target seen stack rule: reach_loop.induct)
  case (1 adj target seen)
  then show ?case by (intro exI [of _ "set seen"]) auto
next
  case (2 adj target seen cur stack)
  show ?case
  proof (cases "cur \<in> set seen")
    case True
    then have ne: "cur \<noteq> target" using 2(4) by blast
    have "\<exists>S. set seen \<union> set stack \<subseteq> S \<and> target \<notin> S \<and> adj_rel adj `` S \<subseteq> S"
    proof (rule 2(1) [OF ne True])
      show "\<not> reach_loop adj target seen stack" using 2(3) True ne by simp
      show "target \<notin> set seen" by (rule 2(4))
      show "y \<in> set seen \<union> set stack" if "s \<in> set seen" "(s, y) \<in> adj_rel adj" for s y
        using 2(5) [OF that] True by auto
    qed
    then obtain S where "set seen \<union> set stack \<subseteq> S" "target \<notin> S" "adj_rel adj `` S \<subseteq> S" by blast
    moreover have "set (cur # stack) \<subseteq> set seen \<union> set stack" using True by simp
    ultimately show ?thesis by (intro exI [of _ S]) blast
  next
    case False
    have ne: "cur \<noteq> target" using 2(3) by auto
    let ?stack = "rev (filter (\<lambda>n. n \<notin> set (cur # seen)) (successors adj cur)) @ stack"
    have "\<exists>S. set (cur # seen) \<union> set ?stack \<subseteq> S \<and> target \<notin> S \<and> adj_rel adj `` S \<subseteq> S"
    proof (rule 2(2) [OF ne False])
      show "\<not> reach_loop adj target (cur # seen) ?stack" using 2(3) False ne by simp
      show "target \<notin> set (cur # seen)" using 2(4) ne by simp
      show "y \<in> set (cur # seen) \<union> set ?stack" if "s \<in> set (cur # seen)" "(s, y) \<in> adj_rel adj" for s y
        using that 2(5) [of s y] by (auto simp: adj_rel_def)
    qed
    then obtain S where "set (cur # seen) \<union> set ?stack \<subseteq> S" "target \<notin> S" "adj_rel adj `` S \<subseteq> S" by blast
    then show ?thesis by (intro exI [of _ S]) simp
  qed
qed

lemma closed_rtrancl: "(x, y) \<in> R\<^sup>* \<Longrightarrow> R `` S \<subseteq> S \<Longrightarrow> x \<in> S \<Longrightarrow> y \<in> S"
  by (induction rule: rtrancl_induct) auto

lemma isReachable_iff: "isReachable adj start target \<longleftrightarrow> (start, target) \<in> (adj_rel adj)\<^sup>*"
proof (cases "start = target")
  case True
  then show ?thesis by (simp add: isReachable_def)
next
  case False
  have "reach_loop adj target [] [start] \<longleftrightarrow> (start, target) \<in> (adj_rel adj)\<^sup>*"
  proof
    show "reach_loop adj target [] [start] \<Longrightarrow> (start, target) \<in> (adj_rel adj)\<^sup>*"
      using reach_loop_sound [of adj target "[]" "[start]"] by simp
    assume r: "(start, target) \<in> (adj_rel adj)\<^sup>*"
    show "reach_loop adj target [] [start]"
    proof (rule ccontr)
      assume "\<not> reach_loop adj target [] [start]"
      then obtain S where "start \<in> S" "target \<notin> S" "adj_rel adj `` S \<subseteq> S"
        using reach_loop_complete [of adj target "[]" "[start]"] by auto
      then show False using closed_rtrancl [OF r] by blast
    qed
  qed
  then show ?thesis using False by (simp add: isReachable_def)
qed

text \<open>The successors are the prerequisite edges.\<close>

definition prerequisite_rel :: "TopologyEdge list \<Rightarrow> (string \<times> string) set" where
  "prerequisite_rel es = {(from_knowledge_id e, to_knowledge_id e) | e. e \<in> set es \<and> relation_type e = ORDERED_RELATION}"

lemma successors_update: "successors (AList.update k v adj) a = (if a = k then v else successors adj a)"
  by (simp add: successors_def update_conv)

lemma adj_rel_add: "adj_rel (add_successor adj e) = adj_rel adj \<union> prerequisite_rel [e]"
  by (auto simp: adj_rel_def add_successor_def successors_update set_add_def prerequisite_rel_def split: if_splits)

lemma adj_rel_build: "adj_rel (buildPrerequisiteAdjacency es) = prerequisite_rel es"
proof -
  have "adj_rel (foldl add_successor adj es) = adj_rel adj \<union> prerequisite_rel es" for adj
    by (induction es arbitrary: adj) (auto simp: adj_rel_add prerequisite_rel_def)
  then show ?thesis by (simp add: buildPrerequisiteAdjacency_def adj_rel_def successors_def)
qed

section \<open>What the gate decides\<close>

text \<open>The verdict in terms of the edges alone.\<close>

definition topology_spec :: "TopologyEdge \<Rightarrow> TopologyEdge list \<Rightarrow> TreeParentLink list \<Rightarrow> TopologyVerdict \<Rightarrow> bool" where
  "topology_spec c es links v \<longleftrightarrow>
     (let a = from_knowledge_id c; b = to_knowledge_id c; R = prerequisite_rel es;
          tree = (\<exists>l \<in> set links. {child_id l, parent_id l} = {a, b});
          mutual = (\<exists>e \<in> set es. relation_type e = ''derived_from'' \<and> from_knowledge_id e = b \<and> to_knowledge_id e = a)
      in if a = b then v = Reject CycleGate
         else if relation_type c = ''derived_from'' then v = (if mutual then Reject DirectionContradiction else Ok)
         else if relation_type c \<noteq> ''prerequisite'' then v = Ok
         else if tree then v = Reject TreeRedundancy
         else if (b, a) \<in> R then v = Reject DirectionContradiction
         else if (b, a) \<in> R\<^sup>* then v = Reject CycleGate
         else if (a, b) \<in> R\<^sup>+ - R then v = Warn TransitiveRedundancy
         else v = Ok)"

lemma tree_pair_iff: "isDirectTreePair a b links \<longleftrightarrow> (\<exists>l \<in> set links. {child_id l, parent_id l} = {a, b})"
  by (auto simp: isDirectTreePair_def list_ex_iff doubleton_eq_iff)

lemma via_intermediate_iff:
  assumes "b \<notin> set (successors adj a)"
  shows "isReachableViaIntermediate adj a b \<longleftrightarrow> (a, b) \<in> (adj_rel adj)\<^sup>+"
proof -
  have "isReachableViaIntermediate adj a b \<longleftrightarrow> (\<exists>m. (a, m) \<in> adj_rel adj \<and> (m, b) \<in> (adj_rel adj)\<^sup>*)"
    using assms by (auto simp: isReachableViaIntermediate_def list_ex_iff isReachable_iff adj_rel_def)
  then show ?thesis by (auto intro: rtrancl_into_trancl2 dest: tranclD)
qed

lemma checkEdgeTopology_spec: "topology_spec c es links (checkEdgeTopology c es links)"
proof -
  let ?adj = "buildPrerequisiteAdjacency es"
  have succ: "b \<in> set (successors ?adj a) \<longleftrightarrow> (a, b) \<in> prerequisite_rel es" for a b
    using adj_rel_build [of es] by (auto simp: adj_rel_def)
  have via: "(a, b) \<notin> prerequisite_rel es \<Longrightarrow> isReachableViaIntermediate ?adj a b \<longleftrightarrow> (a, b) \<in> (prerequisite_rel es)\<^sup>+"
    for a b
    using via_intermediate_iff [of b ?adj a] by (simp add: succ adj_rel_build)
  show ?thesis
    unfolding topology_spec_def checkEdgeTopology_def Let_def
    by (cases "(from_knowledge_id c, to_knowledge_id c) \<in> prerequisite_rel es")
      (simp_all add: tree_pair_iff [symmetric] succ isReachable_iff adj_rel_build via
        ORDERED_RELATION_def list_ex_iff)
qed

text \<open>What an accepted candidate does to the mesh.\<close>

definition mutual_pair :: "TopologyEdge list \<Rightarrow> bool" where
  "mutual_pair es \<longleftrightarrow> (\<exists>e \<in> set es. \<exists>e' \<in> set es. relation_type e = ''derived_from'' \<and> relation_type e' = ''derived_from'' \<and>
     from_knowledge_id e = to_knowledge_id e' \<and> to_knowledge_id e = from_knowledge_id e')"

definition mesh_ok :: "TopologyEdge list \<Rightarrow> bool" where
  "mesh_ok es \<longleftrightarrow> (\<forall>e \<in> set es. from_knowledge_id e \<noteq> to_knowledge_id e) \<and>
     acyclic (prerequisite_rel es) \<and> \<not> mutual_pair es"

lemma prerequisite_rel_cong: "set es = set es' \<Longrightarrow> prerequisite_rel es = prerequisite_rel es'"
  by (simp add: prerequisite_rel_def)

lemma mesh_ok_subset:
  assumes "mesh_ok es" "set es' \<subseteq> set es"
  shows "mesh_ok es'"
proof -
  have "prerequisite_rel es' \<subseteq> prerequisite_rel es" using assms(2) by (auto simp: prerequisite_rel_def)
  then show ?thesis using assms acyclic_subset unfolding mesh_ok_def mutual_pair_def by blast
qed

lemma accepted_mesh_ok:
  assumes ok: "mesh_ok es" and v: "\<And>g. checkEdgeTopology c es links \<noteq> Reject g" and new: "set es' \<subseteq> insert c (set es)"
  shows "mesh_ok es'"
proof -
  note spec = checkEdgeTopology_spec [of c es links, unfolded topology_spec_def Let_def]
  have ne: "from_knowledge_id c \<noteq> to_knowledge_id c" using spec v by (auto split: if_splits)
  have rel: "prerequisite_rel (c # es) =
      (if relation_type c = ORDERED_RELATION then insert (from_knowledge_id c, to_knowledge_id c) (prerequisite_rel es)
       else prerequisite_rel es)"
    by (auto simp: prerequisite_rel_def)
  have "acyclic (prerequisite_rel (c # es))"
  proof (cases "relation_type c = ORDERED_RELATION")
    case True
    then have "relation_type c = ''prerequisite''" by (simp add: ORDERED_RELATION_def)
    then have "(to_knowledge_id c, from_knowledge_id c) \<notin> (prerequisite_rel es)\<^sup>*"
      using spec v ne by (auto split: if_splits)
    then show ?thesis using ok True rel by (simp add: mesh_ok_def)
  qed (use ok rel in \<open>simp add: mesh_ok_def\<close>)
  moreover have "\<not> mutual_pair (c # es)"
  proof
    assume "mutual_pair (c # es)"
    then obtain e e' where e: "e \<in> insert c (set es)" "e' \<in> insert c (set es)" "relation_type e = ''derived_from''"
      "relation_type e' = ''derived_from''" "from_knowledge_id e = to_knowledge_id e'" "to_knowledge_id e = from_knowledge_id e'"
      by (auto simp: mutual_pair_def)
    then have "e = c \<or> e' = c" using ok unfolding mesh_ok_def mutual_pair_def by blast
    then have d: "relation_type c = ''derived_from''" using e by auto
    then have none: "\<not> (\<exists>e \<in> set es. relation_type e = ''derived_from'' \<and>
        from_knowledge_id e = to_knowledge_id c \<and> to_knowledge_id e = from_knowledge_id c)"
      using spec v ne by (auto split: if_splits)
    from \<open>e = c \<or> e' = c\<close> show False
    proof
      assume "e = c"
      then show False using e none ne by auto
    next
      assume "e' = c"
      then show False using e none ne by auto
    qed
  qed
  ultimately have "mesh_ok (c # es)" using ok ne by (simp add: mesh_ok_def)
  then show ?thesis by (rule mesh_ok_subset) (use new in simp)
qed

end
