(* ===== verification/KnowledgeEdgeFold.thy ===== *)
theory KnowledgeEdgeFold
  imports TopologyGate Corrections
begin

text \<open>
  The projection of one knowledge edge from its events:
  \<open>src/src/core/projections/knowledge_edge.ts\<close>, with the schemas it parses
  (\<open>src/src/core/schema/event/genesis.ts\<close>) and the event shape of \<open>fold-event.ts\<close>.

  Payloads are \<open>jsonb\<close> values. JavaScript's \<open>new Date(v)\<close> is the parameter \<open>js_date\<close>; \<open>None\<close> is an
  invalid date. A schema is a function to an optional record, \<open>None\<close> being a failed parse. Warnings
  are left out.
\<close>

section \<open>Events and rows\<close>

record FoldEvent =
  fe_id :: string
  fe_created_at :: int
  fe_actor_kind :: string
  fe_actor_ref :: string
  fe_action :: string
  fe_subject_kind :: string
  fe_subject_id :: string
  fe_outcome :: "string option"
  fe_caused_by :: "string option"
  fe_payload :: jsval

record EdgeRow =
  ke_id :: string
  ke_from :: string
  ke_to :: string
  ke_relation :: string
  ke_weight :: jsval
  ke_created_by :: "(string \<times> jsval) list"
  ke_reasoning :: "string option"
  ke_created_at :: int
  ke_archived_at :: "int option"

section \<open>Schemas\<close>

definition js_number :: "jsval \<Rightarrow> jsval option" where
  "js_number v = (case v of JNum t \<Rightarrow> Some (JNum t) | JNegZero \<Rightarrow> Some JNegZero | _ \<Rightarrow> None)"

definition js_string :: "jsval \<Rightarrow> string option" where
  "js_string v = (case v of JStr s \<Rightarrow> Some s | _ \<Rightarrow> None)"

definition js_string1 :: "jsval \<Rightarrow> string option" where
  "js_string1 v = (case v of JStr s \<Rightarrow> if s = [] then None else Some s | _ \<Rightarrow> None)"

definition js_nullable :: "(jsval \<Rightarrow> 'a option) \<Rightarrow> jsval \<Rightarrow> 'a option option" where
  "js_nullable p v = (case v of JNull \<Rightarrow> Some None | _ \<Rightarrow> map_option Some (p v))"

definition js_optional :: "(jsval \<Rightarrow> 'a option) \<Rightarrow> jsval \<Rightarrow> 'a option option" where
  "js_optional p v = (case v of JUndefined \<Rightarrow> Some None | _ \<Rightarrow> map_option Some (p v))"

definition js_object :: "jsval \<Rightarrow> (string \<times> jsval) list option" where
  "js_object v = (case v of JObj es \<Rightarrow> Some es | _ \<Rightarrow> None)"

text \<open>\<open>z.number().int()\<close> accepts the safe integers.\<close>

definition safe_int :: "jsval \<Rightarrow> bool" where
  "safe_int v = (case v of
       JNegZero \<Rightarrow> True
     | JNum t \<Rightarrow>
         let ds = (case t of CHR ''-'' # u \<Rightarrow> u | _ \<Rightarrow> t) in
         ds \<noteq> [] \<and> (case digits_value 0 ds of None \<Rightarrow> False | Some n \<Rightarrow> n < 2 ^ 53)
     | _ \<Rightarrow> False)"

definition KnowledgeRowSnapshot_matches :: "(jsval \<Rightarrow> int option) \<Rightarrow> jsval \<Rightarrow> bool" where
  "KnowledgeRowSnapshot_matches js_date v \<longleftrightarrow> js_object v \<noteq> None \<and>
     js_string1 (js_field ''id'' v) \<noteq> None \<and>
     js_string (js_field ''name'' v) \<noteq> None \<and>
     js_nullable js_string (js_field ''domain'' v) \<noteq> None \<and>
     js_nullable js_string (js_field ''parent_id'' v) \<noteq> None \<and>
     (case js_field ''merged_from'' v of JArr xs \<Rightarrow> list_all (\<lambda>x. js_string x \<noteq> None) xs | _ \<Rightarrow> False) \<and>
     js_nullable js_date (js_field ''archived_at'' v) \<noteq> None \<and>
     (case js_field ''proposed_by_ai'' v of JBool _ \<Rightarrow> True | _ \<Rightarrow> False) \<and>
     js_field ''approval_status'' v \<in> JStr ` {''pending'', ''approved'', ''rejected''} \<and>
     js_field ''role'' v \<in> insert JUndefined (JStr ` {''kc'', ''goal'', ''container''}) \<and>
     js_date (js_field ''created_at'' v) \<noteq> None \<and>
     js_date (js_field ''updated_at'' v) \<noteq> None \<and>
     safe_int (js_field ''version'' v)"

definition KnowledgeEdgeRowSnapshot_parse :: "(jsval \<Rightarrow> int option) \<Rightarrow> jsval \<Rightarrow> EdgeRow option" where
  "KnowledgeEdgeRowSnapshot_parse js_date v =
     (case (js_object v, js_string1 (js_field ''id'' v), js_string1 (js_field ''from_knowledge_id'' v),
            js_string1 (js_field ''to_knowledge_id'' v), js_string (js_field ''relation_type'' v)) of
        (Some _, Some i, Some a, Some b, Some rel) \<Rightarrow>
          (case (js_number (js_field ''weight'' v), js_object (js_field ''created_by'' v),
                 js_nullable js_string (js_field ''reasoning'' v), js_date (js_field ''created_at'' v),
                 js_nullable js_date (js_field ''archived_at'' v)) of
             (Some wt, Some cb, Some rs, Some ca, Some aa) \<Rightarrow>
               Some \<lparr>ke_id = i, ke_from = a, ke_to = b, ke_relation = rel, ke_weight = wt, ke_created_by = cb,
                     ke_reasoning = rs, ke_created_at = ca, ke_archived_at = aa\<rparr>
           | _ \<Rightarrow> None)
      | _ \<Rightarrow> None)"

text \<open>
  A genesis event of an edge, parsed to its row. The union tries the node schema first and strips
  what it does not know, so a row that also matches that schema no longer parses as an edge; of
  the later schemas of the union none keeps the endpoints.
\<close>

definition GenesisExperimental_edge :: "(jsval \<Rightarrow> int option) \<Rightarrow> FoldEvent \<Rightarrow> EdgeRow option" where
  "GenesisExperimental_edge js_date ev =
     (let v = js_field ''row'' (fe_payload ev) in
      if fe_actor_kind ev = ''system'' \<and> fe_actor_ref ev \<noteq> [] \<and> fe_subject_id ev \<noteq> [] \<and>
         fe_outcome ev \<in> {None, Some ''success''} \<and> \<not> KnowledgeRowSnapshot_matches js_date v
      then (case KnowledgeEdgeRowSnapshot_parse js_date v of
              Some r \<Rightarrow> if ke_id r = fe_subject_id ev then Some r else None
            | None \<Rightarrow> None)
      else None)"

record GenerateEdgePayload =
  gp_archive :: bool
  gp_from :: "string option"
  gp_to :: "string option"
  gp_relation :: "string option"
  gp_weight :: "jsval option"
  gp_reasoning :: "string option"
  gp_propose_event_id :: "string option"

text \<open>\<open>null\<close> and absent reasoning both become \<open>null\<close> (\<open>reasonOrNull\<close>).\<close>

definition reasonOrNull :: "jsval \<Rightarrow> string option option" where
  "reasonOrNull v = (case v of JUndefined \<Rightarrow> Some None | _ \<Rightarrow> js_nullable js_string v)"

definition GenerateEdgePayload_parse :: "jsval \<Rightarrow> GenerateEdgePayload option" where
  "GenerateEdgePayload_parse v =
     (if js_field ''edge_op'' v \<notin> {JUndefined, JStr ''create'', JStr ''archive''} \<or> js_object v = None \<or>
         js_optional js_string (js_field ''archive_edge_id'' v) = None
      then None
      else case (js_optional js_string1 (js_field ''from_knowledge_id'' v),
                 js_optional js_string1 (js_field ''to_knowledge_id'' v),
                 js_optional js_string1 (js_field ''relation_type'' v),
                 js_optional js_number (js_field ''weight'' v), reasonOrNull (js_field ''reasoning'' v),
                 js_optional js_string (js_field ''propose_event_id'' v)) of
           (Some a, Some b, Some rel, Some wt, Some rs, Some p) \<Rightarrow>
             Some \<lparr>gp_archive = (js_field ''edge_op'' v = JStr ''archive''), gp_from = a, gp_to = b,
                   gp_relation = rel, gp_weight = wt, gp_reasoning = rs, gp_propose_event_id = p\<rparr>
         | _ \<Rightarrow> None)"

section \<open>The fold\<close>

definition edge_provenance :: "FoldEvent \<Rightarrow> string option \<Rightarrow> (string \<times> jsval) list" where
  "edge_provenance ev propose =
     [(''actor_kind'', JStr (fe_actor_kind ev)), (''actor_ref'', JStr (fe_actor_ref ev))] @
     (case propose of None \<Rightarrow> [] | Some p \<Rightarrow> if p = [] then [] else [(''propose_event_id'', JStr p)])"

definition rowFromGenerateEvent ::
  "string \<Rightarrow> FoldEvent \<Rightarrow> GenerateEdgePayload \<Rightarrow> string \<Rightarrow> string \<Rightarrow> string \<Rightarrow> EdgeRow" where
  "rowFromGenerateEvent edgeId ev p a b rel =
     \<lparr>ke_id = edgeId, ke_from = a, ke_to = b, ke_relation = rel,
      ke_weight = (case gp_weight p of None \<Rightarrow> JNum ''1'' | Some w \<Rightarrow> w),
      ke_created_by = edge_provenance ev (gp_propose_event_id p), ke_reasoning = gp_reasoning p,
      ke_created_at = fe_created_at ev, ke_archived_at = None\<rparr>"

definition archiveRowFromArchiveEvent ::
  "string \<Rightarrow> FoldEvent \<Rightarrow> GenerateEdgePayload \<Rightarrow> string \<Rightarrow> string \<Rightarrow> string \<Rightarrow> EdgeRow" where
  "archiveRowFromArchiveEvent edgeId ev p a b rel =
     (rowFromGenerateEvent edgeId ev p a b rel)\<lparr>ke_archived_at := Some (fe_created_at ev)\<rparr>"

definition mesh_edge :: "EdgeRow \<Rightarrow> TopologyEdge" where
  "mesh_edge r = \<lparr>from_knowledge_id = ke_from r, to_knowledge_id = ke_to r, relation_type = ke_relation r\<rparr>"

datatype EdgeTopologyMode = Enforce | Trust

datatype fold_error = TopologyRejected string TopologyGate

definition edge_create ::
  "EdgeTopologyMode \<Rightarrow> EdgeRow list \<Rightarrow> string \<Rightarrow> EdgeRow \<Rightarrow> fold_error + EdgeRow option" where
  "edge_create mode liveMesh edgeId projected =
     (if mode = Enforce then
        (case checkEdgeTopology (mesh_edge projected) (map mesh_edge liveMesh) [] of
           Reject g \<Rightarrow> Inl (TopologyRejected edgeId g)
         | _ \<Rightarrow> Inr (Some projected))
      else Inr (Some projected))"

text \<open>One turn of the loop.\<close>

definition edge_step ::
  "(jsval \<Rightarrow> int option) \<Rightarrow> EdgeTopologyMode \<Rightarrow> EdgeRow list \<Rightarrow> string \<Rightarrow> EdgeRow option \<Rightarrow> FoldEvent \<Rightarrow>
     fold_error + EdgeRow option" where
  "edge_step js_date mode liveMesh edgeId row ev =
     (if fe_subject_id ev \<noteq> edgeId then Inr row
      else if fe_action ev = ''experimental:genesis'' \<and> fe_subject_kind ev = ''knowledge_edge'' then
        (case GenesisExperimental_edge js_date ev of None \<Rightarrow> Inr row | Some r \<Rightarrow> Inr (Some r))
      else if fe_action ev = ''generate'' \<and> fe_subject_kind ev = ''knowledge_edge'' then
        (case GenerateEdgePayload_parse (fe_payload ev) of
           None \<Rightarrow> Inr row
         | Some p \<Rightarrow>
             (case (gp_archive p, row) of
                (True, Some r) \<Rightarrow> Inr (Some (r\<lparr>ke_archived_at := Some (fe_created_at ev)\<rparr>))
              | _ \<Rightarrow>
                  (case (gp_from p, gp_to p, gp_relation p) of
                     (Some a, Some b, Some rel) \<Rightarrow>
                       if gp_archive p then Inr (Some (archiveRowFromArchiveEvent edgeId ev p a b rel))
                       else edge_create mode liveMesh edgeId (rowFromGenerateEvent edgeId ev p a b rel)
                   | _ \<Rightarrow> Inr row)))
      else Inr row)"

fun edge_fold ::
  "(jsval \<Rightarrow> int option) \<Rightarrow> EdgeTopologyMode \<Rightarrow> EdgeRow list \<Rightarrow> string \<Rightarrow> EdgeRow option \<Rightarrow> FoldEvent list \<Rightarrow>
     fold_error + EdgeRow option" where
  "edge_fold js_date mode mesh i row [] = Inr row"
| "edge_fold js_date mode mesh i row (ev # evs) =
     bind_result (edge_step js_date mode mesh i row ev) (\<lambda>row'. edge_fold js_date mode mesh i row' evs)"

definition fold_key :: "FoldEvent \<Rightarrow> int \<times> string" where
  "fold_key ev = (fe_created_at ev, fe_id ev)"

definition foldKnowledgeEdge ::
  "(jsval \<Rightarrow> int option) \<Rightarrow> string \<Rightarrow> FoldEvent list \<Rightarrow> EdgeRow list \<Rightarrow> EdgeTopologyMode \<Rightarrow> fold_error + EdgeRow option" where
  "foldKnowledgeEdge js_date edgeId events liveMesh mode =
     edge_fold js_date mode liveMesh edgeId None (sort_key fold_key events)"

section \<open>Replay\<close>

text \<open>The trusting fold never fails; it is a reducer over the log.\<close>

definition trust_step :: "(jsval \<Rightarrow> int option) \<Rightarrow> string \<Rightarrow> EdgeRow option \<Rightarrow> FoldEvent \<Rightarrow> EdgeRow option" where
  "trust_step js_date i row ev = (case edge_step js_date Trust [] i row ev of Inr r \<Rightarrow> r | Inl _ \<Rightarrow> row)"

definition edge_relevant :: "string \<Rightarrow> FoldEvent \<Rightarrow> bool" where
  "edge_relevant i ev \<longleftrightarrow> fe_subject_id ev = i \<and> fe_subject_kind ev = ''knowledge_edge'' \<and>
     fe_action ev \<in> {''experimental:genesis'', ''generate''}"

interpretation ker: event_reducer fold_key "trust_step js_date i" None "edge_relevant i"
  for js_date :: "jsval \<Rightarrow> int option" and i :: string
  by unfold_locales (auto simp: trust_step_def edge_step_def edge_relevant_def split: if_splits)

lemma edge_step_trust: "edge_step js_date Trust mesh i row ev = Inr (trust_step js_date i row ev)"
  by (auto simp: trust_step_def edge_step_def edge_create_def split: option.splits bool.splits)

lemma edge_fold_trust: "edge_fold js_date Trust mesh i row evs = Inr (foldl (trust_step js_date i) row evs)"
  by (induction evs arbitrary: row) (simp_all add: edge_step_trust)

lemma fold_trust: "foldKnowledgeEdge js_date i events mesh Trust = Inr (ker.project js_date i events)"
  by (simp add: foldKnowledgeEdge_def edge_fold_trust ker.project_def)

text \<open>An enforcing step that succeeds is the trusting step.\<close>

lemma edge_create_enforce:
  "edge_create Enforce mesh i r = Inr row \<longleftrightarrow>
     row = Some r \<and> (\<forall>g. checkEdgeTopology (mesh_edge r) (map mesh_edge mesh) [] \<noteq> Reject g)"
  by (cases "checkEdgeTopology (mesh_edge r) (map mesh_edge mesh) []") (auto simp: edge_create_def)

lemma edge_step_enforce:
  assumes "edge_step js_date Enforce mesh i row ev = Inr row'"
  shows "row' = trust_step js_date i row ev"
  using assms
  by (auto simp: trust_step_def edge_step_def edge_create_enforce edge_create_def [of Trust]
      split: option.splits bool.splits if_splits)

lemma edge_fold_enforce:
  "edge_fold js_date Enforce mesh i row evs = Inr row' \<Longrightarrow> row' = foldl (trust_step js_date i) row evs"
  by (induction evs arbitrary: row) (auto simp: bind_result_Inr_iff dest: edge_step_enforce)

lemma edge_fold_append:
  "edge_fold js_date mode mesh i row (xs @ ys) =
     bind_result (edge_fold js_date mode mesh i row xs) (\<lambda>row'. edge_fold js_date mode mesh i row' ys)"
proof (induction xs arbitrary: row)
  case (Cons x xs)
  then show ?case by (cases "edge_step js_date mode mesh i row x") simp_all
qed simp

end
