(* ===== verification/KnowledgeEdgeFacts.thy ===== *)
theory KnowledgeEdgeFacts
  imports KnowledgeEdgeFold
begin

text \<open>
  The commands that write knowledge edges: \<open>src/src/kernel/records/knowledge-edge-facts.ts\<close>, over
  the tables \<open>knowledge\<close>, \<open>knowledge_edge\<close> and \<open>event\<close>. Every command is one transaction: \<open>Inl\<close>
  leaves the tables as they were.

  Ids returned by \<open>createId\<close> are arguments. Two parameters: JavaScript's \<open>new Date\<close> and the rounding
  of PostgreSQL's \<open>real\<close> column. Of a knowledge node only the columns these commands read are kept,
  of an error its code. The second endpoint check of \<open>createKnowledgeEdge\<close>, under share locks,
  repeats the first on the same tables and is left out.
\<close>

section \<open>Tables\<close>

record KnowledgeNode =
  kn_id :: string
  kn_parent_id :: "string option"
  kn_archived_at :: "int option"

record edge_db =
  d_nodes :: "KnowledgeNode list"
  d_edges :: "EdgeRow list"
  d_events :: "FoldEvent list"

record edge_env =
  ee_date :: "jsval \<Rightarrow> int option"
  ee_real :: "jsval \<Rightarrow> jsval"

datatype edge_error =
    ApiError string
  | InvalidEvent
  | UniqueViolation
  | EdgeForeignKeyViolation
  | EdgeFoldError fold_error
  | TreeRedundancyError

section \<open>Writing an event\<close>

definition RelationTypeSchema :: "string \<Rightarrow> bool" where
  "RelationTypeSchema rel \<longleftrightarrow>
     rel \<in> {''prerequisite'', ''related_to'', ''contrasts_with'', ''applied_in'', ''derived_from''} \<or>
     take 13 rel = ''experimental:''"

text \<open>
  A number between 0 and 1, by its \<open>Number::toString\<close> text: 0, 1, a decimal fraction, or a negative
  exponent.
\<close>

definition unit_interval :: "jsval \<Rightarrow> bool" where
  "unit_interval v = (case v of
       JNegZero \<Rightarrow> True
     | JNum t \<Rightarrow> t = ''0'' \<or> t = ''1'' \<or> take 2 t = ''0.'' \<or>
         (take 1 t \<noteq> ''-'' \<and> take 2 (dropWhile (\<lambda>c. c \<noteq> CHR ''e'') t) = ''e-'')
     | _ \<Rightarrow> False)"

text \<open>\<open>parseEvent\<close> on a \<open>generate\<close> event of an edge is the schema \<open>GenerateKnowledgeEdge\<close>.\<close>

definition GenerateKnowledgeEdge_ok :: "FoldEvent \<Rightarrow> bool" where
  "GenerateKnowledgeEdge_ok ev \<longleftrightarrow>
     (let p = fe_payload ev; reasoning = js_field ''reasoning'' p in
      fe_actor_kind ev \<in> {''agent'', ''user''} \<and> fe_action ev = ''generate'' \<and>
      fe_subject_kind ev = ''knowledge_edge'' \<and> fe_outcome ev \<in> {Some ''success'', Some ''failure''} \<and>
      js_string (js_field ''from_knowledge_id'' p) \<noteq> None \<and> js_string (js_field ''to_knowledge_id'' p) \<noteq> None \<and>
      (case js_string (js_field ''relation_type'' p) of None \<Rightarrow> False | Some rel \<Rightarrow> RelationTypeSchema rel) \<and>
      (js_field ''weight'' p = JUndefined \<or> unit_interval (js_field ''weight'' p)) \<and>
      reasonOrNull reasoning \<noteq> None \<and>
      js_optional js_string (js_field ''propose_event_id'' p) \<noteq> None \<and>
      (fe_actor_kind ev = ''agent'' \<longrightarrow> js_string1 reasoning \<noteq> None) \<and>
      stableActorRefAllowed (fe_actor_kind ev) (fe_actor_ref ev))"

text \<open>A duplicate id keeps the first write.\<close>

definition writeEvent :: "FoldEvent \<Rightarrow> edge_db \<Rightarrow> edge_error + edge_db" where
  "writeEvent ev db =
     (if \<not> GenerateKnowledgeEdge_ok ev then Inl InvalidEvent
      else if list_ex (\<lambda>e. fe_id e = fe_id ev) (d_events db) then Inr db
      else Inr (db\<lparr>d_events := d_events db @ [ev]\<rparr>))"

definition edge_events :: "edge_db \<Rightarrow> string \<Rightarrow> FoldEvent list" where
  "edge_events db i = filter (\<lambda>e. fe_subject_kind e = ''knowledge_edge'' \<and> fe_subject_id e = i) (d_events db)"

definition nextEdgeEventTime :: "edge_db \<Rightarrow> string \<Rightarrow> int \<Rightarrow> int" where
  "nextEdgeEventTime db i requested =
     max requested ((case edge_events db i of [] \<Rightarrow> -1 | e # es \<Rightarrow> foldl max (fe_created_at e) (map fe_created_at es)) + 1)"

section \<open>Projecting\<close>

definition live_edges :: "edge_db \<Rightarrow> EdgeRow list" where
  "live_edges db = filter (\<lambda>r. ke_archived_at r = None) (d_edges db)"

definition gatherAndFoldKnowledgeEdge ::
  "edge_env \<Rightarrow> string \<Rightarrow> EdgeTopologyMode \<Rightarrow> edge_db \<Rightarrow> fold_error + EdgeRow option" where
  "gatherAndFoldKnowledgeEdge env edgeId mode db =
     foldKnowledgeEdge (ee_date env) edgeId (edge_events db edgeId) (live_edges db) mode"

definition tree_links :: "KnowledgeNode list \<Rightarrow> TreeParentLink list" where
  "tree_links ns = concat (map (\<lambda>n. case kn_parent_id n of
       None \<Rightarrow> [] | Some p \<Rightarrow> if p = [] then [] else [\<lparr>child_id = kn_id n, parent_id = p\<rparr>]) ns)"

definition same_slot :: "EdgeRow \<Rightarrow> EdgeRow \<Rightarrow> bool" where
  "same_slot r q \<longleftrightarrow> ke_from q = ke_from r \<and> ke_to q = ke_to r \<and> ke_relation q = ke_relation r"

definition upsertProjectedKnowledgeEdge :: "edge_env \<Rightarrow> EdgeRow \<Rightarrow> edge_db \<Rightarrow> edge_error + edge_db" where
  "upsertProjectedKnowledgeEdge env projected db =
     (let endpoints = filter (\<lambda>n. kn_id n \<in> {ke_from projected, ke_to projected}) (d_nodes db);
          row = projected\<lparr>ke_weight := ee_real env (ke_weight projected)\<rparr>
      in if ke_archived_at projected = None \<and>
            isDirectTreePair (ke_from projected) (ke_to projected) (tree_links endpoints)
         then Inl TreeRedundancyError
         else if list_ex (\<lambda>q. ke_id q \<noteq> ke_id row \<and> same_slot row q) (d_edges db) then Inl UniqueViolation
         else if \<not> {ke_from row, ke_to row} \<subseteq> kn_id ` set (d_nodes db) then Inl EdgeForeignKeyViolation
         else if list_ex (\<lambda>q. ke_id q = ke_id row) (d_edges db)
         then Inr (db\<lparr>d_edges := update_where (\<lambda>q. ke_id q = ke_id row) (\<lambda>_. row) (d_edges db)\<rparr>)
         else Inr (db\<lparr>d_edges := d_edges db @ [row]\<rparr>))"

definition projectKnowledgeEdgeGuarded ::
  "edge_env \<Rightarrow> string \<Rightarrow> EdgeTopologyMode \<Rightarrow> edge_db \<Rightarrow> edge_error + edge_db" where
  "projectKnowledgeEdgeGuarded env edgeId mode db =
     (case gatherAndFoldKnowledgeEdge env edgeId mode db of
        Inl e \<Rightarrow> Inl (EdgeFoldError e)
      | Inr None \<Rightarrow> Inr db
      | Inr (Some r) \<Rightarrow> upsertProjectedKnowledgeEdge env r db)"

text \<open>The unguarded form, of deployments: no event means no row.\<close>

definition projectKnowledgeEdge ::
  "edge_env \<Rightarrow> string \<Rightarrow> EdgeTopologyMode \<Rightarrow> edge_db \<Rightarrow> edge_error + edge_db" where
  "projectKnowledgeEdge env edgeId mode db =
     (case gatherAndFoldKnowledgeEdge env edgeId mode db of
        Inl e \<Rightarrow> Inl (EdgeFoldError e)
      | Inr None \<Rightarrow> Inr (db\<lparr>d_edges := filter (\<lambda>r. ke_id r \<noteq> edgeId) (d_edges db)\<rparr>)
      | Inr (Some r) \<Rightarrow> upsertProjectedKnowledgeEdge env r db)"

definition gate_text :: "TopologyGate \<Rightarrow> string" where
  "gate_text g = (case g of
       CycleGate \<Rightarrow> ''cycle'' | DirectionContradiction \<Rightarrow> ''direction_contradiction''
     | TransitiveRedundancy \<Rightarrow> ''transitive_redundancy'' | TreeRedundancy \<Rightarrow> ''tree_redundancy'')"

definition runEdgeTopologyGate :: "edge_env \<Rightarrow> string \<Rightarrow> bool \<Rightarrow> edge_db \<Rightarrow> edge_error + edge_db" where
  "runEdgeTopologyGate env edgeId translateReject db =
     (case projectKnowledgeEdgeGuarded env edgeId Enforce db of
        Inl (EdgeFoldError (TopologyRejected i g)) \<Rightarrow>
          Inl (if translateReject then ApiError (gate_text g) else EdgeFoldError (TopologyRejected i g))
      | r \<Rightarrow> r)"

section \<open>The commands\<close>

record CreateKnowledgeEdgeInput =
  ci_generate_event_id :: "string option"
  ci_from :: string
  ci_to :: string
  ci_relation :: string
  ci_weight :: "jsval option"
  ci_reasoning :: "string option"
  ci_actor_kind :: "string option"
  ci_actor_ref :: "string option"
  ci_propose_event_id :: "string option"
  ci_created_at :: "int option"

text \<open>Values as \<open>jsonb\<close> stores them.\<close>

definition json_number :: "jsval \<Rightarrow> jsval" where
  "json_number v = (case v of JNegZero \<Rightarrow> JNum ''0'' | _ \<Rightarrow> v)"

definition json_opt :: "string option \<Rightarrow> jsval" where
  "json_opt s = (case s of None \<Rightarrow> JNull | Some t \<Rightarrow> JStr t)"

definition truthy_field :: "string \<Rightarrow> string option \<Rightarrow> (string \<times> jsval) list" where
  "truthy_field k s = (case s of None \<Rightarrow> [] | Some t \<Rightarrow> if t = [] then [] else [(k, JStr t)])"

definition create_event ::
  "string \<Rightarrow> string \<Rightarrow> string \<Rightarrow> string \<Rightarrow> string \<Rightarrow> string \<Rightarrow> string \<Rightarrow> jsval \<Rightarrow> string option \<Rightarrow> string option \<Rightarrow>
     int \<Rightarrow> FoldEvent" where
  "create_event eventId edgeId actorKind actorRef a b rel weight reasoning propose at =
     \<lparr>fe_id = eventId, fe_created_at = at, fe_actor_kind = actorKind, fe_actor_ref = actorRef,
      fe_action = ''generate'', fe_subject_kind = ''knowledge_edge'', fe_subject_id = edgeId,
      fe_outcome = Some ''success'', fe_caused_by = propose,
      fe_payload = JObj ([(''edge_op'', JStr ''create''), (''from_knowledge_id'', JStr a), (''to_knowledge_id'', JStr b),
         (''relation_type'', JStr rel), (''weight'', json_number weight), (''reasoning'', json_opt reasoning)] @
         truthy_field ''propose_event_id'' propose)\<rparr>"

definition createKnowledgeEdge ::
  "edge_env \<Rightarrow> string \<Rightarrow> string \<Rightarrow> int \<Rightarrow> CreateKnowledgeEdgeInput \<Rightarrow> edge_db \<Rightarrow> edge_error + edge_db" where
  "createKnowledgeEdge env edgeId freshEventId now input db =
     (if \<not> RelationTypeSchema (ci_relation input) then Inl (ApiError ''validation_error'')
      else
        let ids = js_uniq [ci_from input, ci_to input];
            found = filter (\<lambda>n. kn_id n \<in> set ids) (d_nodes db);
            foundActive = map kn_id (filter (\<lambda>n. kn_archived_at n = None) found)
        in if \<not> list_all (\<lambda>i. i \<in> set foundActive) ids then Inl (ApiError ''not_found'')
           else if isDirectTreePair (ci_from input) (ci_to input) (tree_links found)
           then Inl (ApiError ''tree_redundancy'')
           else
             let ev = create_event
                   (case ci_generate_event_id input of None \<Rightarrow> freshEventId | Some e \<Rightarrow> e) edgeId
                   (case ci_actor_kind input of None \<Rightarrow> ''user'' | Some k \<Rightarrow> k)
                   (case ci_actor_ref input of None \<Rightarrow> ''self'' | Some k \<Rightarrow> k)
                   (ci_from input) (ci_to input) (ci_relation input)
                   (case ci_weight input of None \<Rightarrow> JNum ''1'' | Some w \<Rightarrow> w)
                   (ci_reasoning input) (ci_propose_event_id input)
                   (case ci_created_at input of None \<Rightarrow> now | Some t \<Rightarrow> t)
             in (case bind_result (writeEvent ev db) (runEdgeTopologyGate env edgeId True) of
                   Inl UniqueViolation \<Rightarrow> Inl (ApiError ''conflict'')
                 | r \<Rightarrow> r))"

record ReactivateKnowledgeEdgeInput =
  ri_weight :: jsval
  ri_reasoning :: "string option"
  ri_actor_kind :: string
  ri_actor_ref :: string
  ri_created_at :: int

definition reactivateKnowledgeEdge ::
  "edge_env \<Rightarrow> string \<Rightarrow> string \<Rightarrow> ReactivateKnowledgeEdgeInput \<Rightarrow> edge_db \<Rightarrow> edge_error + edge_db" where
  "reactivateKnowledgeEdge env edgeId freshEventId input db =
     (case row_by ke_id edgeId (d_edges db) of
        None \<Rightarrow> Inl (ApiError ''conflict'')
      | Some current \<Rightarrow>
          if ke_archived_at current = None then Inl (ApiError ''conflict'')
          else bind_result
            (writeEvent
              (create_event freshEventId edgeId (ri_actor_kind input) (ri_actor_ref input)
                 (ke_from current) (ke_to current) (ke_relation current) (ri_weight input) (ri_reasoning input) None
                 (nextEdgeEventTime db edgeId (ri_created_at input))) db)
            (projectKnowledgeEdgeGuarded env edgeId Enforce))"

record EdgeArchiveProvenance =
  ep_event_id :: "string option"
  ep_caused_by_event_id :: "string option"
  ep_propose_event_id :: "string option"
  ep_reasoning :: "string option option"
  ep_created_at :: "int option"

definition archive_event ::
  "string \<Rightarrow> EdgeArchiveProvenance \<Rightarrow> EdgeRow \<Rightarrow> int \<Rightarrow> FoldEvent" where
  "archive_event eventId prov current at =
     \<lparr>fe_id = eventId, fe_created_at = at, fe_actor_kind = ''user'', fe_actor_ref = ''self'',
      fe_action = ''generate'', fe_subject_kind = ''knowledge_edge'', fe_subject_id = ke_id current,
      fe_outcome = Some ''success'', fe_caused_by = ep_caused_by_event_id prov,
      fe_payload = JObj ([(''edge_op'', JStr ''archive''), (''archive_edge_id'', JStr (ke_id current)),
         (''from_knowledge_id'', JStr (ke_from current)), (''to_knowledge_id'', JStr (ke_to current)),
         (''relation_type'', JStr (ke_relation current)),
         (''reasoning'', json_opt (case ep_reasoning prov of None \<Rightarrow> ke_reasoning current | Some r \<Rightarrow> r))] @
         truthy_field ''propose_event_id'' (ep_propose_event_id prov))\<rparr>"

text \<open>An event that can seed the edge's history.\<close>

definition seeds_edge :: "FoldEvent \<Rightarrow> bool" where
  "seeds_edge e \<longleftrightarrow> fe_action e = ''experimental:genesis'' \<or>
     (fe_action e = ''generate'' \<and> jsonb_text ''edge_op'' (fe_payload e) \<noteq> Some ''archive'')"

definition archiveKnowledgeEdgeFromEvents ::
  "edge_env \<Rightarrow> string \<Rightarrow> string \<Rightarrow> int \<Rightarrow> EdgeArchiveProvenance \<Rightarrow> edge_db \<Rightarrow> edge_error + bool \<times> edge_db" where
  "archiveKnowledgeEdgeFromEvents env edgeId freshEventId now prov db =
     (case row_by ke_id edgeId (d_edges db) of
        None \<Rightarrow> Inl (ApiError ''not_found'')
      | Some current \<Rightarrow>
          if ke_archived_at current \<noteq> None then Inr (False, db)
          else if \<not> list_ex seeds_edge (edge_events db edgeId) then Inl (ApiError ''conflict'')
          else (case gatherAndFoldKnowledgeEdge env edgeId Trust db of
              Inl e \<Rightarrow> Inl (EdgeFoldError e)
            | Inr None \<Rightarrow> Inl (ApiError ''conflict'')
            | Inr (Some _) \<Rightarrow>
                bind_result
                  (writeEvent
                    (archive_event (case ep_event_id prov of None \<Rightarrow> freshEventId | Some e \<Rightarrow> e) prov current
                       (nextEdgeEventTime db edgeId (case ep_created_at prov of None \<Rightarrow> now | Some t \<Rightarrow> t))) db)
                  (\<lambda>db1. bind_result (projectKnowledgeEdgeGuarded env edgeId Trust db1) (\<lambda>db2. Inr (True, db2)))))"

end
