(* ===== verification/KnowledgeEdgeInvariants.thy ===== *)
theory KnowledgeEdgeInvariants
  imports KnowledgeEdgeFacts
begin

text \<open>
  What the edge commands preserve: every row of \<open>knowledge_edge\<close> is the replay of its events, the
  unique keys hold, and the live mesh has no self-edge, no prerequisite cycle and no mutual
  derivation.
\<close>

interpretation ke: keyed_table ke_id .
interpretation slot: keyed_table "\<lambda>r. (ke_from r, ke_to r, ke_relation r)" .

definition stored :: "edge_env \<Rightarrow> EdgeRow \<Rightarrow> EdgeRow" where
  "stored env r = r\<lparr>ke_weight := ee_real env (ke_weight r)\<rparr>"

lemma stored_simps [simp]:
  "ke_id (stored env r) = ke_id r" "ke_from (stored env r) = ke_from r" "ke_to (stored env r) = ke_to r"
  "ke_relation (stored env r) = ke_relation r" "ke_archived_at (stored env r) = ke_archived_at r"
  "mesh_edge (stored env r) = mesh_edge r"
  by (simp_all add: stored_def mesh_edge_def)

definition replays :: "edge_env \<Rightarrow> FoldEvent list \<Rightarrow> EdgeRow \<Rightarrow> bool" where
  "replays env evs r \<longleftrightarrow> (\<exists>f. ker.project (ee_date env) (ke_id r) evs = Some f \<and> r = stored env f)"

definition edges_inv :: "edge_env \<Rightarrow> edge_db \<Rightarrow> bool" where
  "edges_inv env db \<longleftrightarrow> ke.wf (d_edges db) \<and> slot.wf (d_edges db) \<and>
     (\<forall>r \<in> set (d_edges db). replays env (d_events db) r \<and> {ke_from r, ke_to r} \<subseteq> kn_id ` set (d_nodes db)) \<and>
     mesh_ok (map mesh_edge (live_edges db))"

section \<open>The log\<close>

lemma gather_project: "ker.project jd i (edge_events db i) = ker.project jd i (d_events db)"
proof (rule ker.project_superset)
  show "filter (edge_relevant i) (edge_events db i) = filter (edge_relevant i) (d_events db)"
    unfolding edge_events_def filter_filter by (rule filter_cong) (auto simp: edge_relevant_def)
qed

lemma gather_trust: "gatherAndFoldKnowledgeEdge env i Trust db = Inr (ker.project (ee_date env) i (d_events db))"
  by (simp add: gatherAndFoldKnowledgeEdge_def fold_trust gather_project)

lemma sort_key_snoc:
  assumes "\<forall>x \<in> set xs. k x \<le> k e"
  shows "sort_key k (xs @ [e]) = sort_key k xs @ [e]"
proof (rule properties_for_sort_key)
  show "mset (sort_key k xs @ [e]) = mset (xs @ [e])" by simp
  show "sorted (map k (sort_key k xs @ [e]))" using assms by (auto simp: sorted_append)
  show "filter (\<lambda>x. k y = k x) (sort_key k xs @ [e]) = filter (\<lambda>x. k y = k x) (xs @ [e])" for y
    using sort_key_stable [of k "k y" xs] by (simp add: eq_commute)
qed

lemma project_other:
  assumes "fe_subject_id ev \<noteq> i"
  shows "ker.project jd i (evs @ [ev]) = ker.project jd i evs"
  by (rule ker.project_superset) (use assms in \<open>simp add: edge_relevant_def\<close>)

lemma project_snoc:
  assumes "\<forall>e \<in> set (filter (edge_relevant i) evs). fold_key e \<le> fold_key ev" "edge_relevant i ev"
  shows "ker.project jd i (evs @ [ev]) = trust_step jd i (ker.project jd i evs) ev"
proof -
  have "ker.project jd i (evs @ [ev]) = ker.project jd i (filter (edge_relevant i) evs @ [ev])"
    by (rule ker.project_superset) (use assms(2) in simp)
  also have "\<dots> = trust_step jd i (ker.project jd i (filter (edge_relevant i) evs)) ev"
    by (simp add: ker.project_def sort_key_snoc [OF assms(1)])
  also have "ker.project jd i (filter (edge_relevant i) evs) = ker.project jd i evs"
    by (rule ker.project_superset) simp
  finally show ?thesis .
qed

lemma next_time_later:
  assumes "e \<in> set (edge_events db i)"
  shows "fe_created_at e < nextEdgeEventTime db i t"
proof -
  obtain x xs where l: "edge_events db i = x # xs" using assms by (cases "edge_events db i") auto
  have "fe_created_at e = fe_created_at x \<or> fe_created_at e \<in> set (map fe_created_at xs)"
    using assms by (auto simp: l)
  then have "fe_created_at e \<le> foldl max (fe_created_at x) (map fe_created_at xs)"
    using foldl_max_start foldl_max_mem by metis
  then show ?thesis by (simp add: nextEdgeEventTime_def l)
qed

lemma later_key: "fe_created_at e < fe_created_at ev \<Longrightarrow> fold_key e \<le> fold_key ev"
  by (simp add: fold_key_def)

section \<open>One projection\<close>

lemma project_id:
  assumes "ker.project jd i evs = Some r"
  shows "ke_id r = i"
proof -
  have "case ker.project jd i evs of None \<Rightarrow> True | Some r \<Rightarrow> ke_id r = i"
  proof (rule ker.project_invariant)
    fix s :: "EdgeRow option" and e assume "case s of None \<Rightarrow> True | Some r \<Rightarrow> ke_id r = i"
    then show "case trust_step jd i s e of None \<Rightarrow> True | Some r \<Rightarrow> ke_id r = i"
      by (auto simp: trust_step_def edge_step_def edge_create_def rowFromGenerateEvent_def
          archiveRowFromArchiveEvent_def GenesisExperimental_edge_def Let_def split: option.splits bool.splits if_splits)
  qed simp
  then show ?thesis using assms by simp
qed

lemma upsert_Inr:
  assumes "upsertProjectedKnowledgeEdge env r db = Inr db'"
  shows "d_nodes db' = d_nodes db" "d_events db' = d_events db"
    and "{ke_from r, ke_to r} \<subseteq> kn_id ` set (d_nodes db)"
    and "\<And>q. q \<in> set (d_edges db) \<Longrightarrow> ke_id q \<noteq> ke_id r \<Longrightarrow> \<not> same_slot r q"
    and "set (d_edges db') = insert (stored env r) {q \<in> set (d_edges db). ke_id q \<noteq> ke_id r}"
    and "ke.wf (d_edges db) \<Longrightarrow> ke.wf (d_edges db')"
    and "ke.wf (d_edges db) \<Longrightarrow> slot.wf (d_edges db) \<Longrightarrow> slot.wf (d_edges db')"
proof -
  have no: "\<not> list_ex (\<lambda>q. ke_id q \<noteq> ke_id r \<and> same_slot (stored env r) q) (d_edges db)"
    and fk: "{ke_from r, ke_to r} \<subseteq> kn_id ` set (d_nodes db)"
    and db': "db' = (if list_ex (\<lambda>q. ke_id q = ke_id r) (d_edges db)
      then db\<lparr>d_edges := update_where (\<lambda>q. ke_id q = ke_id r) (\<lambda>_. stored env r) (d_edges db)\<rparr>
      else db\<lparr>d_edges := d_edges db @ [stored env r]\<rparr>)"
    using assms unfolding upsertProjectedKnowledgeEdge_def Let_def stored_def [symmetric]
    by (auto simp: stored_def split: if_splits)
  show "d_nodes db' = d_nodes db" "d_events db' = d_events db" by (simp_all add: db')
  show "{ke_from r, ke_to r} \<subseteq> kn_id ` set (d_nodes db)" by (rule fk)
  show free: "\<not> same_slot r q" if "q \<in> set (d_edges db)" "ke_id q \<noteq> ke_id r" for q
    using no that by (auto simp: list_ex_iff same_slot_def)
  show "set (d_edges db') = insert (stored env r) {q \<in> set (d_edges db). ke_id q \<noteq> ke_id r}"
    by (auto simp: db' set_update_where list_ex_iff)
  show "ke.wf (d_edges db')" if "ke.wf (d_edges db)"
    using that ke.wf_update [OF that, of "\<lambda>q. ke_id q = ke_id r" "\<lambda>_. stored env r"]
    by (auto simp: db' ke.wf_def list_ex_iff)
  show "slot.wf (d_edges db')" if wf: "ke.wf (d_edges db)" "slot.wf (d_edges db)"
  proof (cases "list_ex (\<lambda>q. ke_id q = ke_id r) (d_edges db)")
    case False
    then have "\<forall>q \<in> set (d_edges db). \<not> same_slot r q" using free by (auto simp: list_ex_iff)
    then show ?thesis using False wf(2) by (auto simp: db' slot.wf_def same_slot_def)
  next
    case True
    have "slot.wf (update_where (\<lambda>q. ke_id q = ke_id r) (\<lambda>_. stored env r) es)"
      if "ke.wf es" "slot.wf es" "\<forall>q \<in> set es. ke_id q \<noteq> ke_id r \<longrightarrow> \<not> same_slot r q" for es
      using that
    proof (induction es)
      case (Cons e es)
      have IH: "slot.wf (update_where (\<lambda>q. ke_id q = ke_id r) (\<lambda>_. stored env r) es)"
        using Cons by (auto simp: ke.wf_def slot.wf_def)
      show ?case
      proof (cases "ke_id e = ke_id r")
        case True
        then have others: "\<forall>q \<in> set es. ke_id q \<noteq> ke_id r" using Cons.prems(1) by (auto simp: ke.wf_def) (metis image_eqI)
        then have "update_where (\<lambda>q. ke_id q = ke_id r) (\<lambda>_. stored env r) es = es"
          by (rule update_where_none)
        then show ?thesis using True Cons.prems(2,3) others by (auto simp: slot.wf_def same_slot_def)
      next
        case False
        then show ?thesis
          using IH Cons.prems(2,3) by (auto simp: slot.wf_def set_update_where same_slot_def)
      qed
    qed (simp add: slot.wf_def)
    then show ?thesis using True wf free by (simp add: db')
  qed
qed

lemma edges_invD:
  assumes "edges_inv env db"
  shows "ke.wf (d_edges db)" "slot.wf (d_edges db)" "mesh_ok (map mesh_edge (live_edges db))"
    "r \<in> set (d_edges db) \<Longrightarrow> replays env (d_events db) r"
    "r \<in> set (d_edges db) \<Longrightarrow> {ke_from r, ke_to r} \<subseteq> kn_id ` set (d_nodes db)"
  using assms by (auto simp: edges_inv_def)

text \<open>What a projected row may be: archived, unchanged, or accepted by the gate.\<close>

definition projectable :: "edge_db \<Rightarrow> EdgeRow \<Rightarrow> bool" where
  "projectable db r \<longleftrightarrow> ke_archived_at r \<noteq> None \<or> mesh_edge r \<in> set (map mesh_edge (live_edges db)) \<or>
     (\<forall>g. checkEdgeTopology (mesh_edge r) (map mesh_edge (live_edges db)) [] \<noteq> Reject g)"

lemma projected_mesh:
  assumes ok: "mesh_ok (map mesh_edge (live_edges db))" and p: "projectable db r"
    and up: "upsertProjectedKnowledgeEdge env r db = Inr db'"
  shows "mesh_ok (map mesh_edge (live_edges db'))"
proof -
  have live: "set (live_edges db') \<subseteq> (if ke_archived_at r = None then insert (stored env r) (set (live_edges db))
      else set (live_edges db))"
    using upsert_Inr(5) [OF up] by (auto simp: live_edges_def)
  consider "set (map mesh_edge (live_edges db')) \<subseteq> set (map mesh_edge (live_edges db))"
    | "ke_archived_at r = None" "\<forall>g. checkEdgeTopology (mesh_edge r) (map mesh_edge (live_edges db)) [] \<noteq> Reject g"
      "set (map mesh_edge (live_edges db')) \<subseteq> insert (mesh_edge r) (set (map mesh_edge (live_edges db)))"
  proof (cases "ke_archived_at r = None \<and> mesh_edge r \<notin> set (map mesh_edge (live_edges db))")
    case True
    have "set (map mesh_edge (live_edges db')) \<subseteq> insert (mesh_edge r) (set (map mesh_edge (live_edges db)))"
      using live True by (auto split: if_splits)
    then show ?thesis using that(2) True p by (simp add: projectable_def)
  next
    case False
    then have "set (map mesh_edge (live_edges db')) \<subseteq> set (map mesh_edge (live_edges db))"
      using live by (auto split: if_splits)
    then show ?thesis by (rule that(1))
  qed
  then show ?thesis
  proof cases
    case 1
    then show ?thesis by (rule mesh_ok_subset [OF ok])
  next
    case 2
    then show ?thesis by (intro accepted_mesh_ok [OF ok]) auto
  qed
qed

text \<open>A new event of one edge and the re-projection of its row keep the tables well-formed.\<close>

lemma project_inv:
  assumes inv: "edges_inv env db"
    and others: "\<And>j. j \<noteq> i \<Longrightarrow> ker.project (ee_date env) j evs = ker.project (ee_date env) j (d_events db)"
    and proj: "ker.project (ee_date env) i evs = Some r"
    and p: "projectable db r"
    and up: "upsertProjectedKnowledgeEdge env r (db\<lparr>d_events := evs\<rparr>) = Inr db'"
  shows "edges_inv env db'"
proof -
  let ?db = "db\<lparr>d_events := evs\<rparr>"
  note u = upsert_Inr [OF up]
  have id: "ke_id r = i" by (rule project_id [OF proj])
  have live: "live_edges ?db = live_edges db" by (simp add: live_edges_def)
  have "replays env (d_events db') q \<and> {ke_from q, ke_to q} \<subseteq> kn_id ` set (d_nodes db')" if q: "q \<in> set (d_edges db')" for q
  proof (cases "q = stored env r")
    case True
    then show ?thesis using proj u(1,2,3) id by (auto simp: replays_def)
  next
    case False
    then have q': "q \<in> set (d_edges db)" "ke_id q \<noteq> i" using q u(5) id by auto
    then have "replays env evs q"
      using edges_invD(4) [OF inv q'(1)] others by (auto simp: replays_def)
    then show ?thesis using edges_invD(5) [OF inv q'(1)] u(1,2) by simp
  qed
  moreover have "mesh_ok (map mesh_edge (live_edges db'))"
    by (rule projected_mesh [OF _ _ up]) (use edges_invD(3) [OF inv] p live in \<open>simp_all add: projectable_def\<close>)
  ultimately show ?thesis
    using u(6,7) edges_invD(1,2) [OF inv] by (simp add: edges_inv_def)
qed

text \<open>A log that changes no edge's replay changes nothing.\<close>

lemma log_inv:
  assumes "edges_inv env db" "\<And>j. ker.project (ee_date env) j evs = ker.project (ee_date env) j (d_events db)"
  shows "edges_inv env (db\<lparr>d_events := evs\<rparr>)"
  using assms by (simp add: edges_inv_def replays_def live_edges_def)

section \<open>Creating and reviving\<close>

lemma trust_step_Some: "trust_step jd i (Some r) ev \<noteq> None"
  by (simp add: trust_step_def edge_step_def edge_create_def Let_def split: option.splits bool.splits)

lemma edge_step_create:
  assumes "edge_step jd Enforce mesh i row ev = Inr (Some r)"
    and "fe_action ev = ''generate''" "js_field ''edge_op'' (fe_payload ev) = JStr ''create''"
  shows "row = Some r \<or> (\<forall>g. checkEdgeTopology (mesh_edge r) (map mesh_edge mesh) [] \<noteq> Reject g)"
proof -
  have "\<not> gp_archive p" if "GenerateEdgePayload_parse (fe_payload ev) = Some p" for p
    using that assms(3) by (auto simp: GenerateEdgePayload_parse_def split: if_splits option.splits)
  then show ?thesis
    using assms(1,2) by (auto simp: edge_step_def edge_create_enforce split: option.splits if_splits bool.splits)
qed

definition edge_event :: "string \<Rightarrow> FoldEvent \<Rightarrow> bool" where
  "edge_event i ev \<longleftrightarrow> fe_subject_kind ev = ''knowledge_edge'' \<and> fe_subject_id ev = i \<and> fe_action ev = ''generate''"

lemma edge_event_relevant: "edge_event i ev \<Longrightarrow> edge_relevant i ev \<and> fe_subject_id ev = i"
  by (simp add: edge_event_def edge_relevant_def)

lemma edge_events_snoc:
  "edge_event i ev \<Longrightarrow> edge_events (db\<lparr>d_events := d_events db @ [ev]\<rparr>) i = edge_events db i @ [ev]"
  by (simp add: edge_events_def edge_event_def)

lemma enforce_last:
  assumes ev: "edge_event i ev" "js_field ''edge_op'' (fe_payload ev) = JStr ''create''"
    and later: "\<forall>e \<in> set (edge_events db i). fold_key e \<le> fold_key ev"
    and fold: "gatherAndFoldKnowledgeEdge env i Enforce (db\<lparr>d_events := d_events db @ [ev]\<rparr>) = Inr row"
  shows "ker.project (ee_date env) i (d_events db @ [ev]) = row"
    and "row = Some r \<Longrightarrow> ker.project (ee_date env) i (d_events db) = Some r \<or>
      (\<forall>g. checkEdgeTopology (mesh_edge r) (map mesh_edge (live_edges db)) [] \<noteq> Reject g)"
proof -
  have live: "live_edges (db\<lparr>d_events := es\<rparr>) = live_edges db" for es by (simp add: live_edges_def)
  have run: "edge_fold (ee_date env) Enforce (live_edges db) i None (sort_key fold_key (edge_events db i) @ [ev]) = Inr row"
    using fold by (simp add: gatherAndFoldKnowledgeEdge_def foldKnowledgeEdge_def edge_events_snoc [OF ev(1)]
        sort_key_snoc [OF later] live)
  then obtain row1 where r1: "edge_fold (ee_date env) Enforce (live_edges db) i None (sort_key fold_key (edge_events db i)) = Inr row1"
    "edge_step (ee_date env) Enforce (live_edges db) i row1 ev = Inr row"
    by (auto simp: edge_fold_append bind_result_Inr_iff)
  have old: "row1 = ker.project (ee_date env) i (d_events db)"
    using edge_fold_enforce [OF r1(1)] by (simp add: ker.project_def [symmetric] gather_project)
  have rel: "\<forall>e \<in> set (filter (edge_relevant i) (d_events db)). fold_key e \<le> fold_key ev"
    using later by (auto simp: edge_events_def edge_relevant_def)
  show "ker.project (ee_date env) i (d_events db @ [ev]) = row"
    using project_snoc [OF rel] edge_event_relevant [OF ev(1)] edge_step_enforce [OF r1(2)] old by simp
  show "ker.project (ee_date env) i (d_events db) = Some r \<or>
      (\<forall>g. checkEdgeTopology (mesh_edge r) (map mesh_edge (live_edges db)) [] \<noteq> Reject g)" if "row = Some r"
    using edge_step_create [OF r1(2) [unfolded that] _ ev(2)] ev(1) old by (simp add: edge_event_def)
qed

lemma create_event_simps [simp]:
  "edge_event i (create_event e i ak ar a b rel w rs p t)"
  "js_field ''edge_op'' (fe_payload (create_event e i ak ar a b rel w rs p t)) = JStr ''create''"
  "fe_id (create_event e i ak ar a b rel w rs p t) = e"
  "fe_created_at (create_event e i ak ar a b rel w rs p t) = t"
  "fe_subject_id (create_event e i ak ar a b rel w rs p t) = i"
  by (simp_all add: create_event_def edge_event_def js_field_def)

lemma writeEvent_fresh:
  "writeEvent ev db = Inr db1 \<Longrightarrow> fe_id ev \<notin> fe_id ` set (d_events db) \<Longrightarrow> db1 = db\<lparr>d_events := d_events db @ [ev]\<rparr>"
proof -
  assume w: "writeEvent ev db = Inr db1" and f: "fe_id ev \<notin> fe_id ` set (d_events db)"
  have "\<not> list_ex (\<lambda>e. fe_id e = fe_id ev) (d_events db)" using f by (auto simp: list_ex_iff) (metis imageI)
  then show ?thesis using w by (simp add: writeEvent_def split: if_splits)
qed

text \<open>
  The enforcing write of a create event for an edge that has no row, or an archived one.
\<close>

lemma enforce_inv:
  assumes inv: "edges_inv env db" and ev: "edge_event i ev" "js_field ''edge_op'' (fe_payload ev) = JStr ''create''"
    and later: "\<forall>e \<in> set (edge_events db i). fold_key e \<le> fold_key ev"
    and old: "\<And>r. ker.project (ee_date env) i (d_events db) = Some r \<Longrightarrow> ke_archived_at r \<noteq> None"
    and none: "i \<notin> ke_id ` set (d_edges db) \<or> ker.project (ee_date env) i (d_events db @ [ev]) \<noteq> None"
    and p: "projectKnowledgeEdgeGuarded env i Enforce (db\<lparr>d_events := d_events db @ [ev]\<rparr>) = Inr db'"
  shows "edges_inv env db'"
proof -
  let ?db = "db\<lparr>d_events := d_events db @ [ev]\<rparr>"
  obtain row where g: "gatherAndFoldKnowledgeEdge env i Enforce ?db = Inr row"
    using p by (auto simp: projectKnowledgeEdgeGuarded_def split: sum.splits)
  note last = enforce_last [OF ev later g]
  show ?thesis
  proof (cases row)
    case None
    then have db': "db' = ?db" using p g by (simp add: projectKnowledgeEdgeGuarded_def)
    have "i \<notin> ke_id ` set (d_edges db)" using none last(1) None by simp
    then have "replays env (d_events db @ [ev]) r" if "r \<in> set (d_edges db)" for r
    proof -
      have "fe_subject_id ev \<noteq> ke_id r" using that \<open>i \<notin> _\<close> ev(1) by (auto simp: edge_event_def)
      then show ?thesis using edges_invD(4) [OF inv that] by (simp add: replays_def project_other)
    qed
    then show ?thesis using inv unfolding db' edges_inv_def live_edges_def by simp
  next
    case (Some r)
    then have up: "upsertProjectedKnowledgeEdge env r ?db = Inr db'"
      using p g by (simp add: projectKnowledgeEdgeGuarded_def)
    have "projectable db r" using last(2) [OF Some] old by (auto simp: projectable_def)
    with last(1) Some edge_event_relevant [OF ev(1)] show ?thesis
      by (intro project_inv [OF inv _ _ _ up, where i = i]) (simp_all add: project_other)
  qed
qed

lemma no_events_none:
  assumes "\<forall>e \<in> set evs. \<not> edge_relevant i e"
  shows "ker.project jd i evs = None"
proof -
  have "ker.project jd i evs = ker.project jd i []" by (rule ker.project_superset) (use assms in simp)
  then show ?thesis by (simp add: ker.project_def)
qed

definition edge_unused :: "edge_db \<Rightarrow> string \<Rightarrow> bool" where
  "edge_unused db i \<longleftrightarrow> i \<notin> ke_id ` set (d_edges db) \<and> i \<notin> fe_subject_id ` set (d_events db)"

definition event_unused :: "edge_db \<Rightarrow> string \<Rightarrow> bool" where
  "event_unused db e \<longleftrightarrow> e \<notin> fe_id ` set (d_events db)"

lemma runGate_Inr: "runEdgeTopologyGate env i t db = Inr db' \<longleftrightarrow> projectKnowledgeEdgeGuarded env i Enforce db = Inr db'"
  by (auto simp: runEdgeTopologyGate_def split: sum.splits edge_error.splits fold_error.splits)

text \<open>What a successful create has done.\<close>

definition input_event :: "string \<Rightarrow> string \<Rightarrow> int \<Rightarrow> CreateKnowledgeEdgeInput \<Rightarrow> FoldEvent" where
  "input_event edgeId eid now input = create_event
     (case ci_generate_event_id input of None \<Rightarrow> eid | Some e \<Rightarrow> e) edgeId
     (case ci_actor_kind input of None \<Rightarrow> ''user'' | Some k \<Rightarrow> k)
     (case ci_actor_ref input of None \<Rightarrow> ''self'' | Some k \<Rightarrow> k)
     (ci_from input) (ci_to input) (ci_relation input)
     (case ci_weight input of None \<Rightarrow> JNum ''1'' | Some w \<Rightarrow> w)
     (ci_reasoning input) (ci_propose_event_id input)
     (case ci_created_at input of None \<Rightarrow> now | Some t \<Rightarrow> t)"

lemma create_Inr:
  assumes "createKnowledgeEdge env i eid now input db = Inr db'"
  shows "writeEvent (input_event i eid now input) db = Inr db1 \<Longrightarrow>
      projectKnowledgeEdgeGuarded env i Enforce db1 = Inr db'"
    and "\<exists>db1. writeEvent (input_event i eid now input) db = Inr db1"
    and "RelationTypeSchema (ci_relation input)"
    and "\<forall>x \<in> {ci_from input, ci_to input}. \<exists>n \<in> set (d_nodes db). kn_id n = x \<and> kn_archived_at n = None"
  using assms unfolding createKnowledgeEdge_def Let_def input_event_def [symmetric]
  by (auto simp: runGate_Inr list_all_iff image_iff bind_result_Inr_iff split: if_splits sum.splits edge_error.splits)

lemma input_event_simps [simp]:
  "edge_event i (input_event i eid now input)"
  "js_field ''edge_op'' (fe_payload (input_event i eid now input)) = JStr ''create''"
  by (simp_all add: input_event_def)

lemma writeEvent_Inr:
  assumes "writeEvent ev db = Inr db1"
  shows "db1 = db \<or> db1 = db\<lparr>d_events := d_events db @ [ev]\<rparr>"
  using assms by (auto simp: writeEvent_def split: if_splits)

lemma create_inv:
  assumes inv: "edges_inv env db" and c: "createKnowledgeEdge env i eid now input db = Inr db'"
    and fresh: "edge_unused db i"
  shows "edges_inv env db'"
proof -
  let ?ev = "input_event i eid now input"
  have none: "edge_events db i = []" using fresh by (auto simp: edge_events_def edge_unused_def filter_empty_conv)
  have fold: "ker.project (ee_date env) i (d_events db) = None"
    by (rule no_events_none) (use fresh in \<open>auto simp: edge_relevant_def edge_unused_def\<close>)
  obtain db1 where w: "writeEvent ?ev db = Inr db1" using create_Inr(2) [OF c] by blast
  note p = create_Inr(1) [OF c w]
  from writeEvent_Inr [OF w] show ?thesis
  proof
    assume "db1 = db"
    then have "db' = db"
      using p none by (simp add: projectKnowledgeEdgeGuarded_def gatherAndFoldKnowledgeEdge_def foldKnowledgeEdge_def)
    then show ?thesis using inv by simp
  next
    assume db1: "db1 = db\<lparr>d_events := d_events db @ [?ev]\<rparr>"
    show ?thesis
    proof (rule enforce_inv [OF inv input_event_simps])
      show "projectKnowledgeEdgeGuarded env i Enforce (db\<lparr>d_events := d_events db @ [?ev]\<rparr>) = Inr db'"
        using p by (simp only: db1)
      show "\<forall>e \<in> set (edge_events db i). fold_key e \<le> fold_key ?ev" by (simp add: none)
      show "i \<notin> ke_id ` set (d_edges db) \<or> ker.project (ee_date env) i (d_events db @ [?ev]) \<noteq> None"
        using fresh by (simp add: edge_unused_def)
      show "ke_archived_at r \<noteq> None" if "ker.project (ee_date env) i (d_events db) = Some r" for r
        using that fold by simp
    qed
  qed
qed

lemma current_row:
  assumes "edges_inv env db" "row_by ke_id i (d_edges db) = Some r"
  obtains f where "ker.project (ee_date env) i (d_events db) = Some f" "r = stored env f" "ke_id r = i"
proof -
  have r: "r \<in> set (d_edges db)" "ke_id r = i" using row_by_SomeD [OF assms(2)] by simp_all
  then show ?thesis using that edges_invD(4) [OF assms(1) r(1)] unfolding replays_def r(2) by blast
qed

lemma reactivate_inv:
  assumes inv: "edges_inv env db" and c: "reactivateKnowledgeEdge env i eid input db = Inr db'"
    and fresh: "event_unused db eid"
  shows "edges_inv env db'"
proof -
  obtain r where r: "row_by ke_id i (d_edges db) = Some r" "ke_archived_at r \<noteq> None"
    using c by (auto simp: reactivateKnowledgeEdge_def split: option.splits if_splits)
  define ev where "ev = create_event eid i (ri_actor_kind input) (ri_actor_ref input) (ke_from r) (ke_to r)
    (ke_relation r) (ri_weight input) (ri_reasoning input) None (nextEdgeEventTime db i (ri_created_at input))"
  have "bind_result (writeEvent ev db) (projectKnowledgeEdgeGuarded env i Enforce) = Inr db'"
    using c r by (simp add: reactivateKnowledgeEdge_def ev_def)
  then obtain db1 where w: "writeEvent ev db = Inr db1" and p: "projectKnowledgeEdgeGuarded env i Enforce db1 = Inr db'"
    by (auto simp: bind_result_Inr_iff)
  have db1: "db1 = db\<lparr>d_events := d_events db @ [ev]\<rparr>"
    using writeEvent_fresh [OF w] fresh by (simp add: event_unused_def ev_def)
  obtain f where f: "ker.project (ee_date env) i (d_events db) = Some f" "r = stored env f"
    by (rule current_row [OF inv r(1)])
  have ev: "edge_event i ev" "js_field ''edge_op'' (fe_payload ev) = JStr ''create''" by (simp_all add: ev_def)
  have later: "\<forall>e \<in> set (edge_events db i). fold_key e \<le> fold_key ev"
    by (auto intro!: later_key next_time_later simp: ev_def)
  have rel: "\<forall>e \<in> set (filter (edge_relevant i) (d_events db)). fold_key e \<le> fold_key ev"
    using later by (auto simp: edge_events_def edge_relevant_def)
  have some: "ker.project (ee_date env) i (d_events db @ [ev]) \<noteq> None"
    using project_snoc [OF rel] edge_event_relevant [OF ev(1)] f(1) by (simp add: trust_step_Some)
  show ?thesis
  proof (rule enforce_inv [OF inv ev later])
    show "projectKnowledgeEdgeGuarded env i Enforce (db\<lparr>d_events := d_events db @ [ev]\<rparr>) = Inr db'"
      using p by (simp only: db1)
    show "ke_archived_at q \<noteq> None" if "ker.project (ee_date env) i (d_events db) = Some q" for q
      using that f r(2) by simp
  qed (use some in simp)
qed

section \<open>Archiving\<close>

lemma archive_event_simps [simp]:
  "edge_event (ke_id r) (archive_event e prov r t)"
  "js_field ''edge_op'' (fe_payload (archive_event e prov r t)) = JStr ''archive''"
  "fe_id (archive_event e prov r t) = e"
  "fe_created_at (archive_event e prov r t) = t"
  by (simp_all add: archive_event_def edge_event_def js_field_def)

lemma trust_step_archive:
  assumes "js_field ''edge_op'' (fe_payload ev) = JStr ''archive''" "fe_action ev = ''generate''"
  shows "trust_step jd i (Some f) ev \<in> {Some f, Some (f\<lparr>ke_archived_at := Some (fe_created_at ev)\<rparr>)}"
proof -
  have "gp_archive p" if "GenerateEdgePayload_parse (fe_payload ev) = Some p" for p
    using that assms(1) by (auto simp: GenerateEdgePayload_parse_def split: if_splits option.splits)
  then show ?thesis using assms(2) by (auto simp: trust_step_def edge_step_def split: option.splits)
qed

lemma live_mesh: "r \<in> set (d_edges db) \<Longrightarrow> ke_archived_at r = None \<Longrightarrow> mesh_edge r \<in> set (map mesh_edge (live_edges db))"
  by (auto simp: live_edges_def)

lemma archive_Inr:
  assumes "archiveKnowledgeEdgeFromEvents env i eid now prov db = Inr (b, db')"
  obtains "\<not> b" "db' = db"
    | r db1 where "b" "row_by ke_id i (d_edges db) = Some r" "ke_archived_at r = None"
      "list_ex seeds_edge (edge_events db i)"
      "writeEvent (archive_event (case ep_event_id prov of None \<Rightarrow> eid | Some e \<Rightarrow> e) prov r
         (nextEdgeEventTime db i (case ep_created_at prov of None \<Rightarrow> now | Some t \<Rightarrow> t))) db = Inr db1"
      "projectKnowledgeEdgeGuarded env i Trust db1 = Inr db'"
  using assms unfolding archiveKnowledgeEdgeFromEvents_def
  by (auto simp: bind_result_Inr_iff gather_trust split: option.splits if_splits)

lemma archive_inv:
  assumes inv: "edges_inv env db" and c: "archiveKnowledgeEdgeFromEvents env i eid now prov db = Inr (b, db')"
  shows "edges_inv env db'"
  using c
proof (rule archive_Inr)
  assume "db' = db"
  then show ?thesis using inv by simp
next
  fix r db1
  let ?ev = "archive_event (case ep_event_id prov of None \<Rightarrow> eid | Some e \<Rightarrow> e) prov r
    (nextEdgeEventTime db i (case ep_created_at prov of None \<Rightarrow> now | Some t \<Rightarrow> t))"
  assume r: "row_by ke_id i (d_edges db) = Some r" and live: "ke_archived_at r = None"
    and w: "writeEvent ?ev db = Inr db1" and p: "projectKnowledgeEdgeGuarded env i Trust db1 = Inr db'"
  obtain f where f: "ker.project (ee_date env) i (d_events db) = Some f" "r = stored env f" "ke_id r = i"
    by (rule current_row [OF inv r])
  have rlive: "mesh_edge f \<in> set (map mesh_edge (live_edges db))"
    using live_mesh [of r db] row_by_SomeD [OF r] live f(2) by simp
  have ev: "edge_event i ?ev" using f(3) by auto
  have "db = db\<lparr>d_events := d_events db\<rparr>" by simp
  with writeEvent_Inr [OF w] obtain evs where db1: "db1 = db\<lparr>d_events := evs\<rparr>"
    and evs: "evs = d_events db \<or> evs = d_events db @ [?ev]" by blast
  have others: "ker.project (ee_date env) j evs = ker.project (ee_date env) j (d_events db)" if "j \<noteq> i" for j
    using evs that ev by (auto simp: edge_event_def project_other)
  have rel: "\<forall>e \<in> set (filter (edge_relevant i) (d_events db)). fold_key e \<le> fold_key ?ev"
  proof
    fix e assume "e \<in> set (filter (edge_relevant i) (d_events db))"
    then have "e \<in> set (edge_events db i)" by (auto simp: edge_events_def edge_relevant_def)
    then show "fold_key e \<le> fold_key ?ev" by (intro later_key) (simp add: next_time_later)
  qed
  have "ker.project (ee_date env) i evs \<in> {Some f, Some (f\<lparr>ke_archived_at := Some (fe_created_at ?ev)\<rparr>)}"
    using evs
  proof
    assume "evs = d_events db @ [?ev]"
    then show ?thesis
      using project_snoc [OF rel, of "ee_date env"] edge_event_relevant [OF ev] f(1)
        trust_step_archive [of ?ev "ee_date env" i f] ev by (simp add: edge_event_def)
  qed (use f(1) in simp)
  then obtain q where q: "ker.project (ee_date env) i evs = Some q" "q = f \<or> ke_archived_at q \<noteq> None" by auto
  have "projectable db q" using q(2) rlive by (auto simp: projectable_def)
  moreover have "upsertProjectedKnowledgeEdge env q (db\<lparr>d_events := evs\<rparr>) = Inr db'"
    using p q(1) by (simp add: projectKnowledgeEdgeGuarded_def gather_trust db1)
  ultimately show ?thesis using project_inv [OF inv others q(1)] by simp
qed

end
