(* ===== verification/KnowledgeEdgeEffects.thy ===== *)
theory KnowledgeEdgeEffects
  imports KnowledgeEdgeInvariants
begin

text \<open>
  What each edge command does to the rows, when it succeeds and its ids are new: a create adds one
  live row, an archive stamps one, a revival makes one live again, and no other row changes.
\<close>

section \<open>Payloads that parse\<close>

lemma json_opt_parse [simp]: "reasonOrNull (json_opt s) = Some s"
  by (simp add: reasonOrNull_def json_opt_def js_nullable_def js_string_def split: option.splits)

lemma RelationTypeSchema_nonempty: "RelationTypeSchema rel \<Longrightarrow> rel \<noteq> []"
  by (auto simp: RelationTypeSchema_def)

lemma create_event_ok:
  assumes "GenerateKnowledgeEdge_ok (create_event e i ak ar a b rel w rs p t)"
  shows "rel \<noteq> []" "js_optional js_number (json_number w) \<noteq> None"
  using assms by (auto simp: GenerateKnowledgeEdge_ok_def create_event_def js_field_def js_string_def Let_def
      json_number_def unit_interval_def js_number_def js_optional_def RelationTypeSchema_nonempty split: jsval.splits)

lemma propose_field: "\<exists>y. js_optional js_string (case map_of (truthy_field k p) k of None \<Rightarrow> JUndefined | Some v \<Rightarrow> v) = Some y"
  by (cases p) (simp_all add: truthy_field_def js_optional_def js_string_def)

text \<open>The row of a create event.\<close>

lemma create_event_step:
  assumes ok: "GenerateKnowledgeEdge_ok (create_event e i ak ar a b rel w rs p t)" and ne: "a \<noteq> []" "b \<noteq> []"
  shows "\<exists>r. trust_step jd i row (create_event e i ak ar a b rel w rs p t) = Some r \<and> ke_id r = i \<and>
    ke_from r = a \<and> ke_to r = b \<and> ke_relation r = rel \<and> ke_archived_at r = None \<and> ke_reasoning r = rs \<and>
    ke_created_at r = t"
proof -
  let ?p = "fe_payload (create_event e i ak ar a b rel w rs p t)"
  obtain wt where wt: "js_optional js_number (json_number w) = Some wt" using create_event_ok(2) [OF ok] by blast
  obtain pp where pp: "js_optional js_string (js_field ''propose_event_id'' ?p) = Some pp"
    using propose_field [of "''propose_event_id''" p] by (auto simp: js_field_def create_event_def)
  have f: "js_field ''edge_op'' ?p = JStr ''create''" "js_field ''from_knowledge_id'' ?p = JStr a"
    "js_field ''to_knowledge_id'' ?p = JStr b" "js_field ''relation_type'' ?p = JStr rel"
    "js_field ''weight'' ?p = json_number w" "js_field ''reasoning'' ?p = json_opt rs"
    "js_field ''archive_edge_id'' ?p = JUndefined" "js_object ?p \<noteq> None"
    by (simp_all add: create_event_def js_field_def js_object_def truthy_field_def split: option.splits)
  have "GenerateEdgePayload_parse ?p = Some \<lparr>gp_archive = False, gp_from = Some a, gp_to = Some b,
      gp_relation = Some rel, gp_weight = wt, gp_reasoning = rs, gp_propose_event_id = pp\<rparr>"
    using f ne create_event_ok(1) [OF ok] wt pp
    by (simp add: GenerateEdgePayload_parse_def js_optional_def js_string1_def)
  then show ?thesis
    by (simp add: trust_step_def edge_step_def edge_create_def rowFromGenerateEvent_def)
      (simp add: create_event_def)
qed

lemma archive_event_step:
  assumes ok: "GenerateKnowledgeEdge_ok (archive_event e prov r t)" and ne: "ke_from r \<noteq> []" "ke_to r \<noteq> []"
  shows "trust_step jd (ke_id r) (Some f) (archive_event e prov r t) = Some (f\<lparr>ke_archived_at := Some t\<rparr>)"
proof -
  let ?p = "fe_payload (archive_event e prov r t)"
  obtain pp where pp: "js_optional js_string (js_field ''propose_event_id'' ?p) = Some pp"
    using propose_field [of "''propose_event_id''" "ep_propose_event_id prov"] by (auto simp: js_field_def archive_event_def)
  have f: "js_field ''edge_op'' ?p = JStr ''archive''" "js_field ''from_knowledge_id'' ?p = JStr (ke_from r)"
    "js_field ''to_knowledge_id'' ?p = JStr (ke_to r)" "js_field ''relation_type'' ?p = JStr (ke_relation r)"
    "js_field ''weight'' ?p = JUndefined" "js_field ''reasoning'' ?p = json_opt (case ep_reasoning prov of None \<Rightarrow> ke_reasoning r | Some rs \<Rightarrow> rs)"
    "js_field ''archive_edge_id'' ?p = JStr (ke_id r)" "js_object ?p \<noteq> None"
    by (simp_all add: archive_event_def js_field_def js_object_def truthy_field_def split: option.splits)
  have "RelationTypeSchema (ke_relation r)"
    using ok f(4) by (simp add: GenerateKnowledgeEdge_ok_def Let_def js_string_def)
  then have rel: "ke_relation r \<noteq> []" by (rule RelationTypeSchema_nonempty)
  have "\<exists>p. GenerateEdgePayload_parse ?p = Some p \<and> gp_archive p"
    unfolding GenerateEdgePayload_parse_def f(1-5,7) pp
    using f(8) ne rel by (simp add: f(6) js_optional_def js_string1_def js_string_def)
  then obtain p where "GenerateEdgePayload_parse ?p = Some p" "gp_archive p" by blast
  moreover have "fe_action (archive_event e prov r t) = ''generate''" "fe_subject_id (archive_event e prov r t) = ke_id r"
    "fe_subject_kind (archive_event e prov r t) = ''knowledge_edge''"
    by (simp_all add: archive_event_def)
  ultimately show ?thesis by (simp add: trust_step_def edge_step_def)
qed

section \<open>The row a command writes\<close>

definition changes_row :: "edge_db \<Rightarrow> edge_db \<Rightarrow> EdgeRow \<Rightarrow> FoldEvent \<Rightarrow> bool" where
  "changes_row db db' r ev \<longleftrightarrow> d_nodes db' = d_nodes db \<and> d_events db' = d_events db @ [ev] \<and>
     set (d_edges db') = insert r {q \<in> set (d_edges db). ke_id q \<noteq> ke_id r}"

lemma row_endpoints:
  assumes "edges_inv env db" "r \<in> set (d_edges db)"
  shows "ke_from r \<noteq> []" "ke_to r \<noteq> []"
proof -
  let ?P = "\<lambda>s. case s of None \<Rightarrow> True | Some f \<Rightarrow> ke_from f \<noteq> [] \<and> ke_to f \<noteq> []"
  have string1: "js_string1 v = Some a \<Longrightarrow> a \<noteq> []" for v a by (auto simp: js_string1_def split: jsval.splits if_splits)
  have opt1: "js_optional js_string1 v = Some (Some a) \<Longrightarrow> a \<noteq> []" for v a
    using string1 by (auto simp: js_optional_def split: jsval.splits)
  have parse: "GenerateEdgePayload_parse v = Some p \<Longrightarrow> gp_from p \<noteq> Some [] \<and> gp_to p \<noteq> Some []" for v p
    using opt1 by (fastforce simp: GenerateEdgePayload_parse_def split: if_splits option.splits)
  have snap: "GenesisExperimental_edge jd e = Some f \<Longrightarrow> ke_from f \<noteq> [] \<and> ke_to f \<noteq> []" for jd e f
    using string1 by (fastforce simp: GenesisExperimental_edge_def KnowledgeEdgeRowSnapshot_parse_def Let_def
        split: if_splits option.splits)
  have step: "?P (trust_step jd i s e)" if s: "?P s" for jd i s e
  proof (cases "GenesisExperimental_edge jd e"; cases "GenerateEdgePayload_parse (fe_payload e)")
    fix g p assume a: "GenesisExperimental_edge jd e = Some g" "GenerateEdgePayload_parse (fe_payload e) = Some p"
    then show ?thesis using s parse [OF a(2)] snap [OF a(1)]
      by (cases s; cases "gp_archive p"; cases "gp_from p"; cases "gp_to p"; cases "gp_relation p")
        (simp_all add: trust_step_def edge_step_def edge_create_def rowFromGenerateEvent_def archiveRowFromArchiveEvent_def)
  next
    fix p assume a: "GenesisExperimental_edge jd e = None" "GenerateEdgePayload_parse (fe_payload e) = Some p"
    then show ?thesis using s parse [OF a(2)]
      by (cases s; cases "gp_archive p"; cases "gp_from p"; cases "gp_to p"; cases "gp_relation p")
        (simp_all add: trust_step_def edge_step_def edge_create_def rowFromGenerateEvent_def archiveRowFromArchiveEvent_def)
  next
    fix g assume a: "GenesisExperimental_edge jd e = Some g" "GenerateEdgePayload_parse (fe_payload e) = None"
    then show ?thesis using s snap [OF a(1)] by (simp add: trust_step_def edge_step_def)
  qed (use s in \<open>simp add: trust_step_def edge_step_def\<close>)
  have "?P (ker.project (ee_date env) (ke_id r) (d_events db))"
    by (rule ker.project_invariant [where P = ?P]) (use step in simp_all)
  then show "ke_from r \<noteq> []" "ke_to r \<noteq> []"
    using edges_invD(4) [OF assms] by (auto simp: replays_def)
qed

lemma relevant_later:
  assumes "\<forall>e \<in> set (edge_events db i). fold_key e \<le> fold_key ev"
  shows "\<forall>e \<in> set (filter (edge_relevant i) (d_events db)). fold_key e \<le> fold_key ev"
  using assms by (auto simp: edge_events_def edge_relevant_def)

lemma writeEvent_ok: "writeEvent ev db = Inr db1 \<Longrightarrow> GenerateKnowledgeEdge_ok ev"
  by (simp add: writeEvent_def split: if_splits)

text \<open>The row folded after a last event, and its projection.\<close>

lemma gathered_row:
  assumes g: "gatherAndFoldKnowledgeEdge env i mode (db\<lparr>d_events := d_events db @ [ev]\<rparr>) = Inr row"
    and later: "\<forall>e \<in> set (edge_events db i). fold_key e \<le> fold_key ev" and ev: "edge_event i ev"
  shows "row = trust_step (ee_date env) i (ker.project (ee_date env) i (d_events db)) ev"
proof -
  let ?db = "db\<lparr>d_events := d_events db @ [ev]\<rparr>"
  have "row = ker.project (ee_date env) i (edge_events ?db i)"
  proof (cases mode)
    case Enforce
    then show ?thesis
      using g edge_fold_enforce by (simp add: gatherAndFoldKnowledgeEdge_def foldKnowledgeEdge_def ker.project_def)
  qed (use g in \<open>simp add: gatherAndFoldKnowledgeEdge_def fold_trust\<close>)
  also have "\<dots> = ker.project (ee_date env) i (d_events db @ [ev])" by (simp add: gather_project)
  finally show ?thesis
    using project_snoc [OF relevant_later [OF later]] edge_event_relevant [OF ev] by simp
qed

lemma projected_row:
  assumes p: "projectKnowledgeEdgeGuarded env i mode (db\<lparr>d_events := d_events db @ [ev]\<rparr>) = Inr db'"
    and later: "\<forall>e \<in> set (edge_events db i). fold_key e \<le> fold_key ev" and ev: "edge_event i ev"
    and step: "trust_step (ee_date env) i (ker.project (ee_date env) i (d_events db)) ev = Some r" and id: "ke_id r = i"
  shows "changes_row db db' (stored env r) ev"
proof -
  let ?db = "db\<lparr>d_events := d_events db @ [ev]\<rparr>"
  obtain row where g: "gatherAndFoldKnowledgeEdge env i mode ?db = Inr row"
    using p by (auto simp: projectKnowledgeEdgeGuarded_def split: sum.splits)
  have "upsertProjectedKnowledgeEdge env r ?db = Inr db'"
    using p g gathered_row [OF g later ev] step by (simp add: projectKnowledgeEdgeGuarded_def)
  from upsert_Inr(1,2,5) [OF this] show ?thesis by (simp add: changes_row_def)
qed

lemma create_row:
  assumes c: "createKnowledgeEdge env i eid now input db = Inr db'"
    and fresh: "edge_unused db i" "event_unused db (fe_id (input_event i eid now input))"
    and ne: "ci_from input \<noteq> []" "ci_to input \<noteq> []"
  shows "\<exists>r. ke_id r = i \<and> ke_from r = ci_from input \<and> ke_to r = ci_to input \<and> ke_relation r = ci_relation input \<and>
    ke_archived_at r = None \<and> ke_reasoning r = ci_reasoning input \<and>
    changes_row db db' r (input_event i eid now input)"
proof -
  let ?ev = "input_event i eid now input"
  obtain db1 where w: "writeEvent ?ev db = Inr db1" using create_Inr(2) [OF c] by blast
  have db1: "db1 = db\<lparr>d_events := d_events db @ [?ev]\<rparr>"
    using writeEvent_fresh [OF w] fresh(2) by (simp add: event_unused_def)
  have none: "edge_events db i = []" using fresh(1) by (auto simp: edge_events_def edge_unused_def filter_empty_conv)
  obtain r where r: "trust_step (ee_date env) i (ker.project (ee_date env) i (d_events db)) ?ev = Some r"
    "ke_id r = i" "ke_from r = ci_from input" "ke_to r = ci_to input" "ke_relation r = ci_relation input"
    "ke_archived_at r = None" "ke_reasoning r = ci_reasoning input"
    using create_event_step [OF writeEvent_ok [OF w, unfolded input_event_def] ne] by (fold input_event_def) blast
  have "changes_row db db' (stored env r) ?ev"
    by (rule projected_row [OF create_Inr(1) [OF c w, unfolded db1] _ input_event_simps(1) r(1,2)]) (simp add: none)
  then show ?thesis using r by (intro exI [of _ "stored env r"]) (simp add: stored_def)
qed

lemma later_event:
  assumes "fe_created_at ev = nextEdgeEventTime db i t"
  shows "\<forall>e \<in> set (edge_events db i). fold_key e \<le> fold_key ev"
  using assms by (auto intro!: later_key simp: next_time_later)

lemma reactivate_row:
  assumes inv: "edges_inv env db" and c: "reactivateKnowledgeEdge env i eid input db = Inr db'"
    and fresh: "event_unused db eid"
  obtains r q ev where "row_by ke_id i (d_edges db) = Some r" "ke_archived_at r \<noteq> None" "ke_id q = i"
    "same_slot r q" "ke_archived_at q = None" "ke_reasoning q = ri_reasoning input" "changes_row db db' q ev"
    "fe_id ev = eid" "fe_subject_id ev = i"
proof -
  obtain r where r: "row_by ke_id i (d_edges db) = Some r" "ke_archived_at r \<noteq> None"
    using c by (auto simp: reactivateKnowledgeEdge_def split: option.splits if_splits)
  define ev where "ev = create_event eid i (ri_actor_kind input) (ri_actor_ref input) (ke_from r) (ke_to r)
    (ke_relation r) (ri_weight input) (ri_reasoning input) None (nextEdgeEventTime db i (ri_created_at input))"
  have "bind_result (writeEvent ev db) (projectKnowledgeEdgeGuarded env i Enforce) = Inr db'"
    using c r by (simp add: reactivateKnowledgeEdge_def ev_def)
  then obtain db1 where w: "writeEvent ev db = Inr db1" and p: "projectKnowledgeEdgeGuarded env i Enforce db1 = Inr db'"
    by (auto simp: bind_result_Inr_iff)
  have db1: "db1 = db\<lparr>d_events := d_events db @ [ev]\<rparr>"
    using writeEvent_fresh [OF w] fresh by (simp add: event_unused_def ev_def)
  have ne: "ke_from r \<noteq> []" "ke_to r \<noteq> []" using row_endpoints [OF inv] row_by_SomeD [OF r(1)] by auto
  obtain q where q: "trust_step (ee_date env) i (ker.project (ee_date env) i (d_events db)) ev = Some q"
    "ke_id q = i" "ke_from q = ke_from r" "ke_to q = ke_to r" "ke_relation q = ke_relation r"
    "ke_archived_at q = None" "ke_reasoning q = ri_reasoning input"
    using create_event_step [OF writeEvent_ok [OF w, unfolded ev_def] ne] by (fold ev_def) blast
  have "changes_row db db' (stored env q) ev"
    by (rule projected_row [OF p [unfolded db1] later_event _ q(1,2)]) (simp_all add: ev_def)
  then show ?thesis
    using that [OF r, of "stored env q" ev] q by (simp add: stored_def same_slot_def ev_def)
qed

lemma archive_row:
  assumes inv: "edges_inv env db" and c: "archiveKnowledgeEdgeFromEvents env i eid now prov db = Inr (True, db')"
    and fresh: "event_unused db (case ep_event_id prov of None \<Rightarrow> eid | Some e \<Rightarrow> e)"
  obtains r ev where "row_by ke_id i (d_edges db) = Some r" "ke_archived_at r = None"
    "changes_row db db' (r\<lparr>ke_archived_at := Some (fe_created_at ev)\<rparr>) ev"
    "fe_id ev = (case ep_event_id prov of None \<Rightarrow> eid | Some e \<Rightarrow> e)" "fe_subject_id ev = i"
  using c
proof (rule archive_Inr)
  fix r db1
  let ?ev = "archive_event (case ep_event_id prov of None \<Rightarrow> eid | Some e \<Rightarrow> e) prov r
    (nextEdgeEventTime db i (case ep_created_at prov of None \<Rightarrow> now | Some t \<Rightarrow> t))"
  assume r: "row_by ke_id i (d_edges db) = Some r" and live: "ke_archived_at r = None"
    and w: "writeEvent ?ev db = Inr db1" and p: "projectKnowledgeEdgeGuarded env i Trust db1 = Inr db'"
  have rid: "r \<in> set (d_edges db)" "ke_id r = i" using row_by_SomeD [OF r] by simp_all
  have db1: "db1 = db\<lparr>d_events := d_events db @ [?ev]\<rparr>"
    using writeEvent_fresh [OF w] fresh by (simp add: event_unused_def)
  obtain f where f: "ker.project (ee_date env) i (d_events db) = Some f" "r = stored env f" "ke_id r = i"
    by (rule current_row [OF inv r])
  let ?q = "f\<lparr>ke_archived_at := Some (fe_created_at ?ev)\<rparr>"
  have step: "trust_step (ee_date env) i (ker.project (ee_date env) i (d_events db)) ?ev = Some ?q"
    using archive_event_step [OF writeEvent_ok [OF w] row_endpoints [OF inv rid(1)]] f(1) rid(2) by simp
  have "changes_row db db' (stored env ?q) ?ev"
  proof (rule projected_row [OF p [unfolded db1] later_event _ step])
    show "edge_event i ?ev" using rid(2) by auto
    show "ke_id ?q = i" using f(2) rid(2) by simp
  qed simp
  moreover have "stored env ?q = r\<lparr>ke_archived_at := Some (fe_created_at ?ev)\<rparr>" by (simp add: f(2) stored_def)
  ultimately show ?thesis
    using that [OF r live, of ?ev] rid(2) by (simp add: archive_event_def)
qed simp

section \<open>Refusals\<close>

lemma gate_text_other: "gate_text g \<noteq> ''conflict''" "gate_text g \<noteq> ''not_found''"
  by (cases g; simp add: gate_text_def)+

lemma gate_api_error:
  "runEdgeTopologyGate env i True db = Inl (ApiError e) \<Longrightarrow> \<exists>g. e = gate_text g"
  by (auto simp: runEdgeTopologyGate_def projectKnowledgeEdgeGuarded_def upsertProjectedKnowledgeEdge_def Let_def
      split: sum.splits edge_error.splits fold_error.splits option.splits if_splits)

lemma run_error:
  assumes "bind_result (writeEvent ev db) (runEdgeTopologyGate env i True) = Inl err"
  shows "err = InvalidEvent \<or> (\<exists>db1. writeEvent ev db = Inr db1 \<and> runEdgeTopologyGate env i True db1 = Inl err)"
proof -
  have "writeEvent ev db = Inl e \<Longrightarrow> e = InvalidEvent" for e by (simp add: writeEvent_def split: if_splits)
  then show ?thesis using assms by (auto simp: bind_result_Inl_iff)
qed

definition active_nodes :: "edge_db \<Rightarrow> string set" where
  "active_nodes db = kn_id ` {n \<in> set (d_nodes db). kn_archived_at n = None}"

lemma conflict_of_unique:
  assumes "(case m of Inl UniqueViolation \<Rightarrow> Inl (ApiError ''conflict'') | r \<Rightarrow> r) = (Inl (ApiError e) :: edge_error + edge_db)"
  shows "m = Inl (ApiError e) \<or> m = Inl UniqueViolation \<and> e = ''conflict''"
proof (cases m)
  case (Inl x)
  then show ?thesis using assms by (cases x) simp_all
qed (use assms in simp)

lemma create_refused:
  assumes c: "createKnowledgeEdge env i eid now input db = Inl (ApiError e)"
  shows "e \<in> {''validation_error'', ''tree_redundancy''} \<or> (\<exists>g. e = gate_text g) \<or>
    (e = ''not_found'' \<and> \<not> {ci_from input, ci_to input} \<subseteq> active_nodes db) \<or>
    (e = ''conflict'' \<and> (\<exists>db1. writeEvent (input_event i eid now input) db = Inr db1 \<and>
      runEdgeTopologyGate env i True db1 = Inl UniqueViolation))"
proof -
  let ?run = "bind_result (writeEvent (input_event i eid now input) db) (runEdgeTopologyGate env i True)"
  let ?ids = "js_uniq [ci_from input, ci_to input]"
  let ?found = "filter (\<lambda>n. kn_id n \<in> set ?ids) (d_nodes db)"
  let ?active = "\<lambda>i. i \<in> set (map kn_id (filter (\<lambda>n. kn_archived_at n = None) ?found))"
  have "\<not> list_all ?active ?ids \<Longrightarrow> \<not> {ci_from input, ci_to input} \<subseteq> active_nodes db"
    by (auto simp: list_all_iff active_nodes_def image_iff)
  moreover have "createKnowledgeEdge env i eid now input db =
    (if \<not> RelationTypeSchema (ci_relation input) then Inl (ApiError ''validation_error'')
     else if \<not> list_all ?active ?ids then Inl (ApiError ''not_found'')
     else if isDirectTreePair (ci_from input) (ci_to input) (tree_links ?found) then Inl (ApiError ''tree_redundancy'')
     else case ?run of Inl UniqueViolation \<Rightarrow> Inl (ApiError ''conflict'') | r \<Rightarrow> r)"
    by (simp only: createKnowledgeEdge_def Let_def input_event_def)
  ultimately obtain P T X where X: "X = (case ?run of Inl UniqueViolation \<Rightarrow> Inl (ApiError ''conflict'') | r \<Rightarrow> r)"
    and missing: "\<not> P \<Longrightarrow> \<not> {ci_from input, ci_to input} \<subseteq> active_nodes db"
    and eq: "createKnowledgeEdge env i eid now input db =
    (if \<not> RelationTypeSchema (ci_relation input) then Inl (ApiError ''validation_error'')
     else if \<not> P then Inl (ApiError ''not_found'') else if T then Inl (ApiError ''tree_redundancy'') else X)"
    by blast
  note eq = trans [OF c [symmetric] eq]
  show ?thesis
  proof (cases "RelationTypeSchema (ci_relation input) \<and> P \<and> \<not> T")
    case True
    then have "Inl (ApiError e) = X" using eq by (simp only: if_True if_False simp_thms)
    then have "?run = Inl (ApiError e) \<or> ?run = Inl UniqueViolation \<and> e = ''conflict''"
      unfolding X by (intro conflict_of_unique) (rule sym)
    then show ?thesis
    proof
      assume "?run = Inl (ApiError e)"
      from run_error [OF this] obtain db1 where "runEdgeTopologyGate env i True db1 = Inl (ApiError e)" by auto
      then show ?thesis using gate_api_error by (intro disjI2 disjI1)
    next
      assume r: "?run = Inl UniqueViolation \<and> e = ''conflict''"
      from run_error [OF conjunct1 [OF r]] r show ?thesis by (intro disjI2 conjI) simp_all
    qed
  next
    case False
    then consider "\<not> RelationTypeSchema (ci_relation input)" | "RelationTypeSchema (ci_relation input)" "\<not> P"
      | "RelationTypeSchema (ci_relation input)" "P" "T" by blast
    then show ?thesis
    proof cases
      case 1
      then show ?thesis using eq by simp
    next
      case 2
      then have "e = ''not_found''" using eq by simp
      then show ?thesis using missing [OF 2(2)] by simp
    next
      case 3
      then show ?thesis using eq by simp
    qed
  qed
qed

lemma create_not_found:
  assumes "createKnowledgeEdge env i eid now input db = Inl (ApiError ''not_found'')"
  shows "\<not> {ci_from input, ci_to input} \<subseteq> active_nodes db"
  using create_refused [OF assms] gate_text_other(2) by (auto dest: sym)

lemma create_conflict:
  assumes c: "createKnowledgeEdge env i eid now input db = Inl (ApiError ''conflict'')"
    and fresh: "edge_unused db i" "event_unused db (fe_id (input_event i eid now input))"
    and ne: "ci_from input \<noteq> []" "ci_to input \<noteq> []"
  shows "\<exists>q \<in> set (d_edges db). ke_from q = ci_from input \<and> ke_to q = ci_to input \<and> ke_relation q = ci_relation input"
proof -
  let ?ev = "input_event i eid now input"
  obtain db1 where w: "writeEvent ?ev db = Inr db1" and g: "runEdgeTopologyGate env i True db1 = Inl UniqueViolation"
    using create_refused [OF c] gate_text_other(1) by (auto dest: sym)
  have db1: "db1 = db\<lparr>d_events := d_events db @ [?ev]\<rparr>"
    using writeEvent_fresh [OF w] fresh(2) by (simp add: event_unused_def)
  have none: "edge_events db i = []" using fresh(1) by (auto simp: edge_events_def edge_unused_def filter_empty_conv)
  have "projectKnowledgeEdgeGuarded env i Enforce db1 = Inl UniqueViolation"
    using g by (auto simp: runEdgeTopologyGate_def split: sum.splits edge_error.splits fold_error.splits)
  then obtain r where r: "gatherAndFoldKnowledgeEdge env i Enforce db1 = Inr (Some r)"
    "upsertProjectedKnowledgeEdge env r db1 = Inl UniqueViolation"
    by (auto simp: projectKnowledgeEdgeGuarded_def split: sum.splits option.splits)
  have "Some r = trust_step (ee_date env) i (ker.project (ee_date env) i (d_events db)) ?ev"
    by (rule gathered_row [OF r(1) [unfolded db1] _ input_event_simps(1)]) (simp add: none)
  then have "ke_from r = ci_from input" "ke_to r = ci_to input" "ke_relation r = ci_relation input"
    using create_event_step [OF writeEvent_ok [OF w, unfolded input_event_def] ne, of "ee_date env"
        "ker.project (ee_date env) i (d_events db)"] by (auto simp: input_event_def)
  moreover have "\<exists>q \<in> set (d_edges db). same_slot (stored env r) q"
    using r(2) unfolding upsertProjectedKnowledgeEdge_def Let_def stored_def [symmetric]
    by (auto simp: list_ex_iff db1 split: if_splits)
  ultimately show ?thesis by (auto simp: same_slot_def)
qed

end
