(* ===== verification/KnowledgeMergeRewire.thy ===== *)
theory KnowledgeMergeRewire
  imports KnowledgeEdgeEffects
begin

text \<open>
  The rewrite of a merged node's edges: \<open>rewireKnowledgeEdges\<close> of
  \<open>src/src/capabilities/knowledge/server/proposals.ts\<close> and the two readers it uses from
  \<open>edges.ts\<close>. It runs inside the merge's transaction; an error aborts the merge.

  Two things the code leaves open are arguments: \<open>scan\<close>, the order in which a \<open>SELECT\<close> without
  \<open>ORDER BY\<close> returns the touching rows, and \<open>fresh\<close>, the ids \<open>createId\<close> returns in the turn of one
  touching edge. The advisory lock and the warning of a dangling endpoint are left out.
\<close>

record fresh_ids =
  fi_archive :: string
  fi_edge :: string
  fi_create :: string
  fi_revive :: string

datatype rewire_error =
    EdgeCommand edge_error
  | ChangedBefore string
  | RewireRejected string TopologyGate

datatype rewire_outcome = CollapsedSelfLoop | Rewired | Reactivated | ArchivedDuplicate | ArchivedDangling

record EdgeRewired =
  er_old_edge :: string
  er_new_edge :: "string option"
  er_outcome :: rewire_outcome

definition edge_touches :: "string \<Rightarrow> EdgeRow \<Rightarrow> bool" where
  "edge_touches n r \<longleftrightarrow> ke_from r = n \<or> ke_to r = n"

definition listLiveEdgesTouchingNode :: "edge_db \<Rightarrow> string \<Rightarrow> EdgeRow list" where
  "listLiveEdgesTouchingNode db nodeId = filter (\<lambda>r. ke_archived_at r = None \<and> edge_touches nodeId r) (d_edges db)"

definition listAllLivePrerequisiteEdges :: "edge_db \<Rightarrow> TopologyEdge list" where
  "listAllLivePrerequisiteEdges db = map mesh_edge (filter (\<lambda>r. ke_relation r = ''prerequisite'') (live_edges db))"

definition mapEndpoint :: "string list \<Rightarrow> string \<Rightarrow> string \<Rightarrow> string" where
  "mapEndpoint mergeFromIds intoId i = (if i \<in> set mergeFromIds then intoId else i)"

definition prerequisite_edge :: "string \<Rightarrow> string \<Rightarrow> TopologyEdge" where
  "prerequisite_edge a b = \<lparr>from_knowledge_id = a, to_knowledge_id = b, relation_type = ''prerequisite''\<rparr>"

text \<open>Archive one touching edge; \<open>why\<close> it must still be live.\<close>

definition archive_touching ::
  "edge_env \<Rightarrow> fresh_ids \<Rightarrow> int \<Rightarrow> EdgeRow \<Rightarrow> edge_db \<Rightarrow> rewire_error + edge_db" where
  "archive_touching env fresh now edge db =
     (case archiveKnowledgeEdgeFromEvents env (ke_id edge) (fi_archive fresh) now
             \<lparr>ep_event_id = None, ep_caused_by_event_id = None, ep_propose_event_id = None,
              ep_reasoning = Some (Some ''merge: KC attribution rewrite (YUK-543)''), ep_created_at = Some now\<rparr> db of
        Inl e \<Rightarrow> Inl (EdgeCommand e)
      | Inr (archived, db') \<Rightarrow> if archived then Inr db' else Inl (ChangedBefore (ke_id edge)))"

definition rewired_input :: "string \<Rightarrow> string \<Rightarrow> EdgeRow \<Rightarrow> int \<Rightarrow> CreateKnowledgeEdgeInput" where
  "rewired_input newFrom newTo edge now =
     \<lparr>ci_generate_event_id = None, ci_from = newFrom, ci_to = newTo, ci_relation = ke_relation edge,
      ci_weight = Some (ke_weight edge), ci_reasoning = ke_reasoning edge, ci_actor_kind = Some ''user'',
      ci_actor_ref = Some ''self'', ci_propose_event_id = None, ci_created_at = Some now\<rparr>"

text \<open>The create in its savepoint, and what a refused create turns into.\<close>

definition place_rewired ::
  "edge_env \<Rightarrow> fresh_ids \<Rightarrow> int \<Rightarrow> EdgeRow \<Rightarrow> string \<Rightarrow> string \<Rightarrow> edge_db \<Rightarrow>
     rewire_error + (string option \<times> rewire_outcome \<times> edge_db)" where
  "place_rewired env fresh now edge newFrom newTo db =
     (case createKnowledgeEdge env (fi_edge fresh) (fi_create fresh) now (rewired_input newFrom newTo edge now) db of
        Inr db' \<Rightarrow> Inr (Some (fi_edge fresh), Rewired, db')
      | Inl (ApiError code) \<Rightarrow>
          if code = ''conflict'' then
            (case find (\<lambda>q. ke_from q = newFrom \<and> ke_to q = newTo \<and> ke_relation q = ke_relation edge) (d_edges db) of
               Some holder \<Rightarrow>
                 if ke_archived_at holder \<noteq> None then
                   (case reactivateKnowledgeEdge env (ke_id holder) (fi_revive fresh)
                           \<lparr>ri_weight = ke_weight edge, ri_reasoning = ke_reasoning edge, ri_actor_kind = ''user'',
                            ri_actor_ref = ''self'', ri_created_at = now\<rparr> db of
                      Inl e \<Rightarrow> Inl (EdgeCommand e)
                    | Inr db' \<Rightarrow> Inr (Some (ke_id holder), Reactivated, db'))
                 else Inr (None, ArchivedDuplicate, db)
             | None \<Rightarrow> Inr (None, ArchivedDuplicate, db))
          else if code = ''not_found'' then Inr (None, ArchivedDangling, db)
          else Inl (EdgeCommand (ApiError code))
      | Inl e \<Rightarrow> Inl (EdgeCommand e))"

text \<open>One turn of the loop, with the mesh it keeps in memory.\<close>

definition rewire_edge ::
  "edge_env \<Rightarrow> fresh_ids \<Rightarrow> int \<Rightarrow> string list \<Rightarrow> string \<Rightarrow> TreeParentLink list \<Rightarrow> EdgeRow \<Rightarrow>
     TopologyEdge list \<times> edge_db \<Rightarrow> rewire_error + (EdgeRewired \<times> TopologyEdge list \<times> edge_db)" where
  "rewire_edge env fresh now mergeFromIds intoId links edge s =
     (let (livePrereq, db) = s;
          oldFrom = ke_from edge; oldTo = ke_to edge;
          newFrom = mapEndpoint mergeFromIds intoId oldFrom; newTo = mapEndpoint mergeFromIds intoId oldTo;
          isPrereq = (ke_relation edge = ''prerequisite'');
          dropped = (if isPrereq then remove1 (prerequisite_edge oldFrom oldTo) livePrereq else livePrereq)
      in if newFrom = newTo then
           bind_result (archive_touching env fresh now edge db)
             (\<lambda>db1. Inr (\<lparr>er_old_edge = ke_id edge, er_new_edge = None, er_outcome = CollapsedSelfLoop\<rparr>, dropped, db1))
         else
           let verdict =
             (if isPrereq then
                checkEdgeTopology (prerequisite_edge newFrom newTo)
                  (filter (\<lambda>e. \<not> (from_knowledge_id e = oldFrom \<and> to_knowledge_id e = oldTo)) livePrereq) links
              else Ok)
           in (case verdict of
                 Reject g \<Rightarrow> Inl (RewireRejected (ke_id edge) g)
               | _ \<Rightarrow>
                   bind_result (archive_touching env fresh now edge db)
                     (\<lambda>db1. bind_result (place_rewired env fresh now edge newFrom newTo db1)
                       (\<lambda>(newEdgeId, outcome, db2).
                          Inr (\<lparr>er_old_edge = ke_id edge, er_new_edge = newEdgeId, er_outcome = outcome\<rparr>,
                               if isPrereq \<and> outcome \<in> {Rewired, Reactivated}
                               then dropped @ [prerequisite_edge newFrom newTo] else dropped, db2)))))"

fun rewire_loop ::
  "edge_env \<Rightarrow> (string \<Rightarrow> fresh_ids) \<Rightarrow> int \<Rightarrow> string list \<Rightarrow> string \<Rightarrow> TreeParentLink list \<Rightarrow> EdgeRow list \<Rightarrow>
     TopologyEdge list \<times> edge_db \<Rightarrow> rewire_error + (EdgeRewired list \<times> edge_db)" where
  "rewire_loop env fresh now mergeFromIds intoId links [] s = Inr ([], snd s)"
| "rewire_loop env fresh now mergeFromIds intoId links (edge # edges) s =
     bind_result (rewire_edge env (fresh (ke_id edge)) now mergeFromIds intoId links edge s)
       (\<lambda>(entry, s'). bind_result (rewire_loop env fresh now mergeFromIds intoId links edges s')
         (\<lambda>(entries, db'). Inr (entry # entries, db')))"

definition rewireKnowledgeEdges ::
  "edge_env \<Rightarrow> (EdgeRow list \<Rightarrow> EdgeRow list) \<Rightarrow> (string \<Rightarrow> fresh_ids) \<Rightarrow> string \<Rightarrow> string \<Rightarrow> int \<Rightarrow> string list \<Rightarrow> edge_db \<Rightarrow>
     rewire_error + (EdgeRewired list \<times> edge_db)" where
  "rewireKnowledgeEdges env scan fresh fromId intoId now mergeFromIds db =
     (let touching = scan (listLiveEdgesTouchingNode db fromId) in
      if touching = [] then Inr ([], db)
      else
        let endpointIds = js_uniq (intoId # concat (map (\<lambda>e. [ke_from e, ke_to e]) touching));
            links = tree_links (filter (\<lambda>n. kn_id n \<in> set endpointIds) (d_nodes db))
        in rewire_loop env fresh now mergeFromIds intoId links touching (listAllLivePrerequisiteEdges db, db))"

section \<open>One turn\<close>

definition used_edges :: "edge_db \<Rightarrow> string set" where
  "used_edges db = ke_id ` set (d_edges db) \<union> fe_subject_id ` set (d_events db)"

definition used_events :: "edge_db \<Rightarrow> string set" where
  "used_events db = fe_id ` set (d_events db)"

lemma unused_iff: "edge_unused db i \<longleftrightarrow> i \<notin> used_edges db" "event_unused db e \<longleftrightarrow> e \<notin> used_events db"
  by (auto simp: edge_unused_def event_unused_def used_edges_def used_events_def)

lemma changes_row_used:
  assumes "changes_row db db' r ev"
  shows "used_edges db' \<subseteq> insert (ke_id r) (insert (fe_subject_id ev) (used_edges db))"
    "used_events db' = insert (fe_id ev) (used_events db)"
  using assms by (auto simp: changes_row_def used_edges_def used_events_def)

definition in_slot :: "string \<Rightarrow> string \<Rightarrow> string \<Rightarrow> EdgeRow \<Rightarrow> bool" where
  "in_slot a b rel q \<longleftrightarrow> ke_from q = a \<and> ke_to q = b \<and> ke_relation q = rel"

lemma archive_touching_row:
  assumes inv: "edges_inv env db" and e: "edge \<in> set (d_edges db)" and fresh: "fi_archive fresh \<notin> used_events db"
    and a: "archive_touching env fresh now edge db = Inr db1"
  obtains t ev where "edges_inv env db1" "changes_row db db1 (edge\<lparr>ke_archived_at := Some t\<rparr>) ev"
    "fe_id ev = fi_archive fresh" "fe_subject_id ev = ke_id edge"
proof -
  let ?prov = "\<lparr>ep_event_id = None, ep_caused_by_event_id = None, ep_propose_event_id = None,
      ep_reasoning = Some (Some ''merge: KC attribution rewrite (YUK-543)''), ep_created_at = Some now\<rparr>"
  have c: "archiveKnowledgeEdgeFromEvents env (ke_id edge) (fi_archive fresh) now ?prov db = Inr (True, db1)"
    using a by (simp add: archive_touching_def split: sum.splits prod.splits if_splits)
  have r: "row_by ke_id (ke_id edge) (d_edges db) = Some edge"
    by (rule ke.row_by_eq [OF edges_invD(1) [OF inv] e])
  have f: "event_unused db (case ep_event_id ?prov of None \<Rightarrow> fi_archive fresh | Some e \<Rightarrow> e)"
    using fresh by (simp add: unused_iff)
  obtain r' ev where "row_by ke_id (ke_id edge) (d_edges db) = Some r'"
    "changes_row db db1 (r'\<lparr>ke_archived_at := Some (fe_created_at ev)\<rparr>) ev"
    "fe_id ev = fi_archive fresh" "fe_subject_id ev = ke_id edge"
    by (rule archive_row [OF inv c f]) auto
  then show ?thesis using that [OF archive_inv [OF inv c], of "fe_created_at ev" ev] r by simp
qed

text \<open>Where the relationship ended up.\<close>

definition outcome_ok :: "edge_db \<Rightarrow> string \<Rightarrow> string \<Rightarrow> string \<Rightarrow> string option \<Rightarrow> rewire_outcome \<Rightarrow> bool" where
  "outcome_ok db a b rel new outcome \<longleftrightarrow>
     (case outcome of
        CollapsedSelfLoop \<Rightarrow> a = b \<and> new = None
      | ArchivedDuplicate \<Rightarrow> new = None \<and> (\<exists>q \<in> set (d_edges db). ke_archived_at q = None \<and> in_slot a b rel q)
      | ArchivedDangling \<Rightarrow> new = None \<and> \<not> {a, b} \<subseteq> active_nodes db
      | _ \<Rightarrow> (\<exists>q \<in> set (d_edges db). ke_archived_at q = None \<and> in_slot a b rel q \<and> new = Some (ke_id q)))"

definition places :: "edge_db \<Rightarrow> edge_db \<Rightarrow> fresh_ids \<Rightarrow> string \<Rightarrow> string \<Rightarrow> string \<Rightarrow> bool" where
  "places db db' fresh a b rel \<longleftrightarrow> d_nodes db' = d_nodes db \<and>
     (\<forall>q \<in> set (d_edges db). ke_archived_at q = None \<or> \<not> in_slot a b rel q \<longrightarrow> q \<in> set (d_edges db')) \<and>
     (\<forall>q \<in> set (d_edges db'). q \<in> set (d_edges db) \<or> in_slot a b rel q) \<and>
     used_edges db' \<subseteq> insert (fi_edge fresh) (used_edges db) \<and>
     used_events db' \<subseteq> {fi_create fresh, fi_revive fresh} \<union> used_events db"

lemma place_rewired_spec:
  assumes inv: "edges_inv env db" and ne: "a \<noteq> []" "b \<noteq> []"
    and fresh: "fi_edge fresh \<notin> used_edges db" "fi_create fresh \<notin> used_events db" "fi_revive fresh \<notin> used_events db"
    and p: "place_rewired env fresh now edge a b db = Inr (new, outcome, db')"
  shows "edges_inv env db' \<and> places db db' fresh a b (ke_relation edge) \<and>
    outcome_ok db' a b (ke_relation edge) new outcome"
proof -
  let ?input = "rewired_input a b edge now"
  let ?ev = "input_event (fi_edge fresh) (fi_create fresh) now ?input"
  have ci: "ci_from ?input = a" "ci_to ?input = b" "ci_relation ?input = ke_relation edge" and id: "fe_id ?ev = fi_create fresh"
    and subj: "fe_subject_id ?ev = fi_edge fresh"
    by (simp_all add: rewired_input_def input_event_def)
  have f: "edge_unused db (fi_edge fresh)" "event_unused db (fe_id ?ev)" using fresh by (simp_all add: unused_iff id)
  show ?thesis
  proof (cases "createKnowledgeEdge env (fi_edge fresh) (fi_create fresh) now ?input db")
    case (Inr db1)
    then have eq: "new = Some (fi_edge fresh)" "outcome = Rewired" "db' = db1" using p by (simp_all add: place_rewired_def)
    obtain r where r: "ke_id r = fi_edge fresh" "in_slot a b (ke_relation edge) r" "ke_archived_at r = None"
      "changes_row db db1 r ?ev"
      using create_row [OF Inr f] ne ci by (auto simp: in_slot_def)
    have new: "ke_id q \<noteq> ke_id r" if "q \<in> set (d_edges db)" for q
      using imageI [OF that, of ke_id] fresh(1) r(1) by (auto simp: used_edges_def)
    have "places db db1 fresh a b (ke_relation edge)"
      using r new changes_row_used [OF r(4)] unfolding places_def
      by (auto simp: changes_row_def id subj)
    moreover have "outcome_ok db1 a b (ke_relation edge) new outcome"
      using r by (auto simp: outcome_ok_def eq changes_row_def)
    ultimately show ?thesis using create_inv [OF inv Inr f(1)] eq(3) by simp
  next
    case (Inl err)
    then obtain code where err: "err = ApiError code" and code: "code = ''conflict'' \<or> code = ''not_found''"
      using p by (auto simp: place_rewired_def split: edge_error.splits if_splits)
    from code show ?thesis
    proof
      assume nf: "code = ''not_found''"
      then have "new = None" "outcome = ArchivedDangling" "db' = db" using p Inl err by (simp_all add: place_rewired_def)
      moreover have "\<not> {a, b} \<subseteq> active_nodes db" using create_not_found Inl err nf ci by metis
      ultimately show ?thesis using inv by (auto simp: places_def outcome_ok_def)
    next
      assume cf: "code = ''conflict''"
      note conflict = Inl [unfolded err cf]
      let ?find = "find (\<lambda>q. ke_from q = a \<and> ke_to q = b \<and> ke_relation q = ke_relation edge) (d_edges db)"
      obtain holder where h: "?find = Some holder"
        using create_conflict [OF conflict f] ne ci by (cases ?find) (auto simp: find_None_iff)
      then have hin: "holder \<in> set (d_edges db)" "in_slot a b (ke_relation edge) holder"
        by (auto simp: find_Some_iff in_slot_def)
      show ?thesis
      proof (cases "ke_archived_at holder")
        case None
        then have "new = None" "outcome = ArchivedDuplicate" "db' = db" using p conflict h by (simp_all add: place_rewired_def)
        then show ?thesis using inv hin None by (auto simp: places_def outcome_ok_def)
      next
        case (Some t)
        let ?ri = "\<lparr>ri_weight = ke_weight edge, ri_reasoning = ke_reasoning edge, ri_actor_kind = ''user'',
            ri_actor_ref = ''self'', ri_created_at = now\<rparr>"
        obtain c: "reactivateKnowledgeEdge env (ke_id holder) (fi_revive fresh) ?ri db = Inr db'"
          and eq: "new = Some (ke_id holder)" "outcome = Reactivated"
          using p conflict h Some by (auto simp: place_rewired_def split: sum.splits)
        have fr: "event_unused db (fi_revive fresh)" using fresh(3) by (simp add: unused_iff)
        obtain r q ev where q: "row_by ke_id (ke_id holder) (d_edges db) = Some r" "ke_id q = ke_id holder" "same_slot r q"
          "ke_archived_at q = None" "changes_row db db' q ev" "fe_id ev = fi_revive fresh" "fe_subject_id ev = ke_id holder"
          by (rule reactivate_row [OF inv c fr])
        have "r = holder" using q(1) ke.row_by_eq [OF edges_invD(1) [OF inv] hin(1)] by simp
        then have slot: "in_slot a b (ke_relation edge) q" using q(3) hin(2) by (simp add: in_slot_def same_slot_def)
        have same: "x = holder" if "x \<in> set (d_edges db)" "ke_id x = ke_id holder" for x
          by (rule ke.wf_same_row [OF edges_invD(1) [OF inv] that(1) hin(1) that(2)])
        have others: "ke_id x \<noteq> ke_id holder"
          if "x \<in> set (d_edges db)" "ke_archived_at x = None \<or> \<not> in_slot a b (ke_relation edge) x" for x
          using same [OF that(1)] that(2) hin(2) Some by auto
        have "ke_id holder \<in> used_edges db" using hin(1) by (simp add: used_edges_def)
        then have "places db db' fresh a b (ke_relation edge)"
          using q(2,5,6,7) slot others changes_row_used [OF q(5)] unfolding places_def
          by (auto simp: changes_row_def)
        moreover have "outcome_ok db' a b (ke_relation edge) new outcome"
          using q slot by (auto simp: outcome_ok_def eq changes_row_def)
        ultimately show ?thesis using reactivate_inv [OF inv c fr] by simp
      qed
    qed
  qed
qed

text \<open>
  A turn archives its edge, keeps every other live row and every archived row of the absorbed node,
  leaves no new row at the absorbed node, and records where the relationship went.
\<close>

definition entry_ok ::
  "string list \<Rightarrow> string \<Rightarrow> edge_db \<Rightarrow> EdgeRow \<Rightarrow> EdgeRewired \<Rightarrow> bool" where
  "entry_ok mergeFromIds intoId db e entry \<longleftrightarrow> er_old_edge entry = ke_id e \<and>
     (\<exists>t. e\<lparr>ke_archived_at := Some t\<rparr> \<in> set (d_edges db)) \<and>
     outcome_ok db (mapEndpoint mergeFromIds intoId (ke_from e)) (mapEndpoint mergeFromIds intoId (ke_to e))
       (ke_relation e) (er_new_edge entry) (er_outcome entry)"

definition turn_ids :: "fresh_ids \<Rightarrow> string list" where
  "turn_ids f = [fi_archive f, fi_create f, fi_revive f]"

definition fresh_for :: "(string \<Rightarrow> fresh_ids) \<Rightarrow> EdgeRow list \<Rightarrow> edge_db \<Rightarrow> bool" where
  "fresh_for fresh es db \<longleftrightarrow>
     (let events = concat (map (\<lambda>e. turn_ids (fresh (ke_id e))) es); edges = map (\<lambda>e. fi_edge (fresh (ke_id e))) es in
      distinct events \<and> distinct edges \<and> set events \<inter> used_events db = {} \<and> set edges \<inter> used_edges db = {})"

definition absorbs :: "string list \<Rightarrow> string \<Rightarrow> string \<Rightarrow> bool" where
  "absorbs mergeFromIds fromId intoId \<longleftrightarrow> fromId \<in> set mergeFromIds \<and> intoId \<notin> set mergeFromIds \<and> intoId \<noteq> []"

definition keeps :: "string \<Rightarrow> edge_db \<Rightarrow> edge_db \<Rightarrow> bool" where
  "keeps fromId db db' \<longleftrightarrow> d_nodes db' = d_nodes db \<and>
     (\<forall>q \<in> set (d_edges db). (if ke_archived_at q = None then \<not> edge_touches fromId q else edge_touches fromId q) \<longrightarrow>
        q \<in> set (d_edges db'))"

lemma keeps_trans: "keeps n db db1 \<Longrightarrow> keeps n db1 db2 \<Longrightarrow> keeps n db db2"
  unfolding keeps_def by metis

lemma entry_kept:
  assumes k: "keeps fromId db db'" and ok: "entry_ok ms intoId db e entry"
    and ab: "absorbs ms fromId intoId" and t: "edge_touches fromId e"
  shows "entry_ok ms intoId db' e entry"
proof -
  have arch: "e\<lparr>ke_archived_at := Some t\<rparr> \<in> set (d_edges db) \<Longrightarrow> e\<lparr>ke_archived_at := Some t\<rparr> \<in> set (d_edges db')" for t
    using k assms(4) by (auto simp: keeps_def edge_touches_def)
  have ne: "mapEndpoint ms intoId x \<noteq> fromId" for x using ab by (auto simp: mapEndpoint_def absorbs_def)
  have live: "q \<in> set (d_edges db')" if "q \<in> set (d_edges db)" "ke_archived_at q = None"
      "in_slot (mapEndpoint ms intoId (ke_from e)) (mapEndpoint ms intoId (ke_to e)) (ke_relation e) q" for q
  proof -
    have "\<not> edge_touches fromId q" using that(3) ne by (simp add: in_slot_def edge_touches_def)
    then show ?thesis using k that(1,2) by (simp add: keeps_def)
  qed
  have "active_nodes db' = active_nodes db" using k by (simp add: keeps_def active_nodes_def)
  then show ?thesis using ok arch live unfolding entry_ok_def outcome_ok_def
    by (cases "er_outcome entry") (simp_all, blast+)
qed

lemma fresh_for_tl:
  assumes f: "fresh_for fresh (e # es) db"
    and "used_edges db' \<subseteq> insert (fi_edge (fresh (ke_id e))) (used_edges db)"
    and "used_events db' \<subseteq> set (turn_ids (fresh (ke_id e))) \<union> used_events db"
  shows "fresh_for fresh es db'"
proof -
  let ?ev = "concat (map (\<lambda>e. turn_ids (fresh (ke_id e))) es)" and ?ed = "map (\<lambda>e. fi_edge (fresh (ke_id e))) es"
  have "distinct (turn_ids (fresh (ke_id e)) @ ?ev)" "distinct (fi_edge (fresh (ke_id e)) # ?ed)"
    "set ?ev \<inter> used_events db = {}" "set ?ed \<inter> used_edges db = {}"
    using f unfolding fresh_for_def Let_def by (simp_all only: list.map concat.simps, auto)
  moreover have "set (turn_ids (fresh (ke_id e))) \<inter> set ?ev = {}" "fi_edge (fresh (ke_id e)) \<notin> set ?ed"
    using calculation(1,2) by simp_all
  ultimately have "distinct ?ev \<and> distinct ?ed \<and> set ?ev \<inter> used_events db' = {} \<and> set ?ed \<inter> used_edges db' = {}"
    using assms(2,3) by (simp only: distinct_append distinct.simps) blast
  then show ?thesis by (simp add: fresh_for_def)
qed

lemma rewire_edge_spec:
  assumes inv: "edges_inv env db" and e: "edge \<in> set (d_edges db)" "ke_archived_at edge = None" "edge_touches fromId edge"
    and ab: "absorbs ms fromId intoId" and f: "fresh_for fresh (edge # es) db"
    and turn: "rewire_edge env (fresh (ke_id edge)) now ms intoId links edge (mesh, db) = Inr (entry, mesh', db')"
  shows "edges_inv env db'" "keeps fromId db db'" "entry_ok ms intoId db' edge entry" "fresh_for fresh es db'"
    "\<forall>q \<in> set (d_edges db). ke_archived_at q = None \<and> q \<noteq> edge \<longrightarrow> q \<in> set (d_edges db')"
    "\<forall>q \<in> set (d_edges db'). ke_archived_at q = None \<and> edge_touches fromId q \<longrightarrow> q \<in> set (d_edges db) \<and> q \<noteq> edge"
proof -
  let ?a = "mapEndpoint ms intoId (ke_from edge)" and ?b = "mapEndpoint ms intoId (ke_to edge)"
  let ?f = "fresh (ke_id edge)"
  have ids: "distinct (turn_ids ?f)" "set (turn_ids ?f) \<inter> used_events db = {}" "fi_edge ?f \<notin> used_edges db"
    using f by (auto simp: fresh_for_def Let_def)
  obtain db1 where a1: "archive_touching env ?f now edge db = Inr db1"
    and rest: "(?a = ?b \<and> entry = \<lparr>er_old_edge = ke_id edge, er_new_edge = None, er_outcome = CollapsedSelfLoop\<rparr> \<and> db' = db1) \<or>
      (\<exists>new outcome. place_rewired env ?f now edge ?a ?b db1 = Inr (new, outcome, db') \<and>
        entry = \<lparr>er_old_edge = ke_id edge, er_new_edge = new, er_outcome = outcome\<rparr>)"
    using turn by (auto simp: rewire_edge_def Let_def bind_result_Inr_iff split: if_splits TopologyVerdict.splits)
  obtain t ev where arch: "edges_inv env db1" "changes_row db db1 (edge\<lparr>ke_archived_at := Some t\<rparr>) ev"
    "fe_id ev = fi_archive ?f" "fe_subject_id ev = ke_id edge"
    using archive_touching_row [OF inv e(1) _ a1] ids by (auto simp: turn_ids_def)
  have eu: "ke_id edge \<in> used_edges db" using e(1) by (simp add: used_edges_def)
  have used1: "used_edges db1 \<subseteq> used_edges db" "used_events db1 = insert (fi_archive ?f) (used_events db)"
    using changes_row_used [OF arch(2)] arch(3,4) eu by auto
  have nonempty: "?a \<noteq> []" "?b \<noteq> []"
    using row_endpoints [OF inv e(1)] ab by (auto simp: mapEndpoint_def absorbs_def)
  have unused: "fi_edge ?f \<notin> used_edges db1" "fi_create ?f \<notin> used_events db1" "fi_revive ?f \<notin> used_events db1"
    using ids used1 by (auto simp: turn_ids_def)
  from rest have "edges_inv env db' \<and> places db1 db' ?f ?a ?b (ke_relation edge) \<and>
    outcome_ok db' ?a ?b (ke_relation edge) (er_new_edge entry) (er_outcome entry) \<and> er_old_edge entry = ke_id edge"
  proof (elim disjE exE conjE)
    fix new outcome
    assume "place_rewired env ?f now edge ?a ?b db1 = Inr (new, outcome, db')"
      "entry = \<lparr>er_old_edge = ke_id edge, er_new_edge = new, er_outcome = outcome\<rparr>"
    then show ?thesis using place_rewired_spec [OF arch(1) nonempty unused] by simp
  qed (use arch(1) in \<open>auto simp: places_def outcome_ok_def\<close>)
  then have placed: "edges_inv env db'" "places db1 db' ?f ?a ?b (ke_relation edge)"
    "outcome_ok db' ?a ?b (ke_relation edge) (er_new_edge entry) (er_outcome entry)" "er_old_edge entry = ke_id edge"
    by blast+
  show "edges_inv env db'" by (rule placed(1))
  have set1: "set (d_edges db1) = insert (edge\<lparr>ke_archived_at := Some t\<rparr>) (set (d_edges db) - {edge})"
    using arch(2) ke.wf_same_row [OF edges_invD(1) [OF inv] _ e(1)] by (auto simp: changes_row_def)
  have ne: "?a \<noteq> fromId" "?b \<noteq> fromId" using ab by (auto simp: mapEndpoint_def absorbs_def)
  have slot: "in_slot ?a ?b (ke_relation edge) q \<Longrightarrow> \<not> edge_touches fromId q" for q
    using ne by (auto simp: in_slot_def edge_touches_def)
  have kept: "q \<in> set (d_edges db')" if "q \<in> set (d_edges db1)" "ke_archived_at q = None \<or> edge_touches fromId q" for q
    using placed(2) that slot unfolding places_def by blast
  show "keeps fromId db db'"
    unfolding keeps_def
  proof (intro conjI ballI impI)
    show "d_nodes db' = d_nodes db" using placed(2) arch(2) by (simp add: places_def changes_row_def)
    fix q assume q: "q \<in> set (d_edges db)"
      "if ke_archived_at q = None then \<not> edge_touches fromId q else edge_touches fromId q"
    then have "q \<noteq> edge" using e(2,3) by auto
    then show "q \<in> set (d_edges db')" using kept [of q] q set1 by (auto split: if_splits)
  qed
  have "edge_touches fromId (edge\<lparr>ke_archived_at := Some t\<rparr>)" using e(3) by (simp add: edge_touches_def)
  then have "edge\<lparr>ke_archived_at := Some t\<rparr> \<in> set (d_edges db')" using kept set1 by simp
  then show "entry_ok ms intoId db' edge entry" using placed(3,4) by (auto simp: entry_ok_def)
  show "\<forall>q \<in> set (d_edges db). ke_archived_at q = None \<and> q \<noteq> edge \<longrightarrow> q \<in> set (d_edges db')"
    using kept set1 by simp
  show "\<forall>q \<in> set (d_edges db'). ke_archived_at q = None \<and> edge_touches fromId q \<longrightarrow> q \<in> set (d_edges db) \<and> q \<noteq> edge"
  proof (intro ballI impI)
    fix q assume q: "q \<in> set (d_edges db')" "ke_archived_at q = None \<and> edge_touches fromId q"
    then have "q \<in> set (d_edges db1)" using placed(2) slot by (auto simp: places_def)
    moreover have "q \<noteq> edge\<lparr>ke_archived_at := Some t\<rparr>" using q(2) by auto
    ultimately show "q \<in> set (d_edges db) \<and> q \<noteq> edge" using set1 by auto
  qed
  have "used_edges db' \<subseteq> insert (fi_edge ?f) (used_edges db)" "used_events db' \<subseteq> set (turn_ids ?f) \<union> used_events db"
    using placed(2) used1 by (auto simp: places_def turn_ids_def)
  then show "fresh_for fresh es db'" by (rule fresh_for_tl [OF f])
qed

lemma rewire_loop_spec:
  assumes "edges_inv env db" "absorbs ms fromId intoId" "fresh_for fresh es db" "distinct es"
    and "set es = set (listLiveEdgesTouchingNode db fromId)"
    and "rewire_loop env fresh now ms intoId links es (mesh, db) = Inr (entries, db')"
  shows "edges_inv env db' \<and> keeps fromId db db' \<and> listLiveEdgesTouchingNode db' fromId = [] \<and>
    list_all2 (entry_ok ms intoId db') es entries"
  using assms
proof (induction es arbitrary: mesh db entries)
  case Nil
  then show ?case by (simp add: keeps_def)
next
  case (Cons e es)
  obtain entry mesh1 db1 entries1 where turn: "rewire_edge env (fresh (ke_id e)) now ms intoId links e (mesh, db) = Inr (entry, mesh1, db1)"
    and rest: "rewire_loop env fresh now ms intoId links es (mesh1, db1) = Inr (entries1, db')" and eq: "entries = entry # entries1"
    using Cons.prems(6) by (auto simp: bind_result_Inr_iff)
  have e: "e \<in> set (d_edges db)" "ke_archived_at e = None" "edge_touches fromId e"
    using Cons.prems(5) by (auto simp: listLiveEdgesTouchingNode_def)
  note t = rewire_edge_spec [OF Cons.prems(1) e Cons.prems(2,3) turn]
  have "set es = set (listLiveEdgesTouchingNode db1 fromId)"
  proof -
    have "set es = set (listLiveEdgesTouchingNode db fromId) - {e}" using Cons.prems(4,5) by auto
    also have "\<dots> = set (listLiveEdgesTouchingNode db1 fromId)"
      using t(5,6) by (auto simp: listLiveEdgesTouchingNode_def)
    finally show ?thesis .
  qed
  then have IH: "edges_inv env db' \<and> keeps fromId db1 db' \<and> listLiveEdgesTouchingNode db' fromId = [] \<and>
      list_all2 (entry_ok ms intoId db') es entries1"
    using Cons.IH [OF t(1) Cons.prems(2) t(4) _ _ rest] Cons.prems(4) by simp
  then show ?case
    using keeps_trans [OF t(2)] entry_kept [OF _ t(3) Cons.prems(2) e(3)] by (simp add: eq)
qed

lemma rewire_spec:
  assumes inv: "edges_inv env db" and ab: "absorbs ms fromId intoId"
    and scan: "mset (scan (listLiveEdgesTouchingNode db fromId)) = mset (listLiveEdgesTouchingNode db fromId)"
    and f: "fresh_for fresh (scan (listLiveEdgesTouchingNode db fromId)) db"
    and r: "rewireKnowledgeEdges env scan fresh fromId intoId now ms db = Inr (entries, db')"
  shows "edges_inv env db' \<and> keeps fromId db db' \<and> listLiveEdgesTouchingNode db' fromId = [] \<and>
    list_all2 (entry_ok ms intoId db') (scan (listLiveEdgesTouchingNode db fromId)) entries"
proof -
  let ?es = "scan (listLiveEdgesTouchingNode db fromId)"
  have "distinct (map ke_id (d_edges db))" using edges_invD(1) [OF inv] by (simp add: ke.wf_def)
  then have "distinct (listLiveEdgesTouchingNode db fromId)"
    by (auto simp: listLiveEdgesTouchingNode_def distinct_map)
  then have d: "distinct ?es" using mset_eq_imp_distinct_iff [OF scan] by simp
  have s: "set ?es = set (listLiveEdgesTouchingNode db fromId)" using mset_eq_setD [OF scan] .
  show ?thesis
  proof (cases "?es = []")
    case True
    then have "db' = db" "entries = []" using r by (simp_all add: rewireKnowledgeEdges_def)
    then show ?thesis using inv s True by (simp add: keeps_def)
  next
    case False
    then obtain links mesh where "rewire_loop env fresh now ms intoId links ?es (mesh, db) = Inr (entries, db')"
      using r by (auto simp: rewireKnowledgeEdges_def Let_def)
    from rewire_loop_spec [OF inv ab f d s this] show ?thesis .
  qed
qed

end
