(* ===== verification/KnowledgeEdgeRuns.thy ===== *)
theory KnowledgeEdgeRuns
  imports KnowledgeMergeRewire
begin

text \<open>
  Runs of the edge commands, one transaction after another, and the tables they can reach. The ids
  a command gets from \<open>createId\<close> are new. Beside the edge commands the log takes events of other
  subjects, and the node table changes while no node disappears.
\<close>

inductive edge_cmd :: "edge_env \<Rightarrow> edge_db \<Rightarrow> edge_db \<Rightarrow> bool" for env where
  create: "createKnowledgeEdge env i eid now input db = Inr db' \<Longrightarrow> edge_unused db i \<Longrightarrow> edge_cmd env db db'"
| reactivate: "reactivateKnowledgeEdge env i eid rinput db = Inr db' \<Longrightarrow> event_unused db eid \<Longrightarrow> edge_cmd env db db'"
| archive: "archiveKnowledgeEdgeFromEvents env i eid now prov db = Inr (b, db') \<Longrightarrow> edge_cmd env db db'"
| merge: "rewireKnowledgeEdges env scan fresh fromId intoId now ms db = Inr (entries, db') \<Longrightarrow>
    absorbs ms fromId intoId \<Longrightarrow> mset (scan (listLiveEdgesTouchingNode db fromId)) = mset (listLiveEdgesTouchingNode db fromId) \<Longrightarrow>
    fresh_for fresh (scan (listLiveEdgesTouchingNode db fromId)) db \<Longrightarrow> edge_cmd env db db'"
| other_event: "\<forall>j. \<not> edge_relevant j ev \<Longrightarrow> edge_cmd env db (db\<lparr>d_events := d_events db @ [ev]\<rparr>)"
| nodes: "kn_id ` set (d_nodes db) \<subseteq> kn_id ` set ns \<Longrightarrow> edge_cmd env db (db\<lparr>d_nodes := ns\<rparr>)"

definition no_edges :: edge_db where
  "no_edges = \<lparr>d_nodes = [], d_edges = [], d_events = []\<rparr>"

abbreviation edge_reachable :: "edge_env \<Rightarrow> edge_db \<Rightarrow> bool" where
  "edge_reachable env \<equiv> (edge_cmd env)\<^sup>*\<^sup>* no_edges"

lemma edge_cmd_inv:
  assumes "edge_cmd env db db'" "edges_inv env db"
  shows "edges_inv env db'"
  using assms
proof cases
  case (create i eid now input)
  then show ?thesis using assms(2) create_inv by blast
next
  case (reactivate i eid rinput)
  then show ?thesis using assms(2) reactivate_inv by blast
next
  case (archive i eid now prov b)
  then show ?thesis using assms(2) archive_inv by blast
next
  case (merge scan fresh fromId intoId now ms entries)
  then show ?thesis using rewire_spec [OF assms(2) merge(2,3,4,1)] by blast
next
  case (other_event ev)
  have "ker.project jd j (d_events db @ [ev]) = ker.project jd j (d_events db)" for jd j
    by (rule ker.project_superset) (use other_event in simp)
  then show ?thesis unfolding other_event(1) by (intro log_inv [OF assms(2)])
next
  case (nodes ns)
  then show ?thesis using assms(2) by (auto simp: edges_inv_def live_edges_def)
qed

lemma edge_reachable_inv: "edge_reachable env db \<Longrightarrow> edges_inv env db"
proof (induction rule: rtranclp_induct)
  case base
  then show ?case
    by (simp add: edges_inv_def no_edges_def live_edges_def ke.wf_def slot.wf_def mesh_ok_def mutual_pair_def
        prerequisite_rel_def acyclic_def)
next
  case (step db db')
  show ?case by (rule edge_cmd_inv [OF step(2,3)])
qed

end
