(* ===== verification/EdgeTransactions.thy ===== *)
theory EdgeTransactions
  imports KnowledgeEdgeEffects
begin

text \<open>
  Concurrent creations: \<open>edge-topology-write.ts\<close> and \<open>edge-create.ts\<close> of
  \<open>src/src/capabilities/knowledge/server\<close>, with the body schema of \<open>api/contracts.ts\<close>.

  A transaction reads committed rows only. Its locks are the endpoint rows \<open>FOR UPDATE\<close> and the
  advisory locks of the same ids, so two transactions are open together only when they share no
  endpoint; a row lock that is taken fails at once and the caller tries again. The pool's wake-up
  after a commit is left out, and so are the messages. The random jitter of a wait is left out; its
  base is kept.
\<close>

section \<open>The handler\<close>

record CreateKnowledgeEdgeBody =
  cb_from :: string
  cb_to :: string
  cb_relation :: string
  cb_weight :: "jsval option"
  cb_reasoning :: "string option"

definition CreateKnowledgeEdgeBodySchema :: "CreateKnowledgeEdgeBody \<Rightarrow> bool" where
  "CreateKnowledgeEdgeBodySchema b \<longleftrightarrow> cb_from b \<noteq> [] \<and> cb_to b \<noteq> [] \<and> RelationTypeSchema (cb_relation b) \<and>
     (case cb_weight b of None \<Rightarrow> True | Some w \<Rightarrow> unit_interval w)"

definition assertEdgeEndpointsValid :: "string \<Rightarrow> string \<Rightarrow> string list \<Rightarrow> edge_db \<Rightarrow> edge_error + unit" where
  "assertEdgeEndpointsValid fromId toId endpointIds db =
     (let rows = filter (\<lambda>n. kn_id n \<in> set endpointIds) (d_nodes db);
          active = map kn_id (filter (\<lambda>n. kn_archived_at n = None) rows)
      in if \<not> list_all (\<lambda>i. i \<in> set active) endpointIds then Inl (ApiError ''not_found'')
         else if isDirectTreePair fromId toId (tree_links rows) then Inl (ApiError ''tree_redundancy'')
         else Inr ())"

definition manual_input :: "CreateKnowledgeEdgeBody \<Rightarrow> int \<Rightarrow> CreateKnowledgeEdgeInput" where
  "manual_input b now =
     \<lparr>ci_generate_event_id = None, ci_from = cb_from b, ci_to = cb_to b, ci_relation = cb_relation b,
      ci_weight = cb_weight b, ci_reasoning = cb_reasoning b, ci_actor_kind = Some ''user'',
      ci_actor_ref = Some ''self'', ci_propose_event_id = None, ci_created_at = Some now\<rparr>"

text \<open>The transaction under its locks, and the keys it locks.\<close>

definition endpoint_keys :: "CreateKnowledgeEdgeBody \<Rightarrow> string list" where
  "endpoint_keys b = js_uniq [cb_from b, cb_to b]"

definition manual_edge_tx ::
  "edge_env \<Rightarrow> string \<Rightarrow> string \<Rightarrow> int \<Rightarrow> CreateKnowledgeEdgeBody \<Rightarrow> edge_db \<Rightarrow> edge_error + edge_db" where
  "manual_edge_tx env edgeId eid now b db =
     bind_result (assertEdgeEndpointsValid (cb_from b) (cb_to b) (endpoint_keys b) db)
       (\<lambda>_. createKnowledgeEdge env edgeId eid now (manual_input b now) db)"

section \<open>Retrying a contended lock\<close>

datatype tx_failure = LockNotAvailable | UniqueConflict | TxError edge_error

definition MAX_LOCK_ATTEMPTS :: nat where
  "MAX_LOCK_ATTEMPTS = 6"

definition backoffMs :: "nat \<Rightarrow> nat" where
  "backoffMs attempt = min (25 * 2 ^ (attempt - 1)) 500"

text \<open>
  \<open>runTx n\<close> is the outcome of the nth attempt. The result comes with the base of every wait, in order.
\<close>

function lock_retry_loop :: "(nat \<Rightarrow> tx_failure + 'a) \<Rightarrow> nat \<Rightarrow> (edge_error + 'a) \<times> nat list" where
  "lock_retry_loop runTx attempt =
     (case runTx attempt of
        Inr a \<Rightarrow> (Inr a, [])
      | Inl LockNotAvailable \<Rightarrow>
          if MAX_LOCK_ATTEMPTS \<le> attempt then (Inl (ApiError ''conflict''), [])
          else let (r, waits) = lock_retry_loop runTx (attempt + 1) in (r, backoffMs attempt # waits)
      | Inl UniqueConflict \<Rightarrow> (Inl (ApiError ''conflict''), [])
      | Inl (TxError e) \<Rightarrow> (Inl e, []))"
  by pat_completeness auto
termination by (relation "measure (\<lambda>(runTx, attempt). MAX_LOCK_ATTEMPTS - attempt)") auto

declare lock_retry_loop.simps [simp del]

definition withEdgeEndpointLockRetry :: "(nat \<Rightarrow> tx_failure + 'a) \<Rightarrow> (edge_error + 'a) \<times> nat list" where
  "withEdgeEndpointLockRetry runTx = lock_retry_loop runTx 1"

definition createManualKnowledgeEdge ::
  "(CreateKnowledgeEdgeBody \<Rightarrow> nat \<Rightarrow> tx_failure + 'a) \<Rightarrow> CreateKnowledgeEdgeBody option \<Rightarrow> edge_error + 'a" where
  "createManualKnowledgeEdge runTx parsed =
     (case parsed of
        None \<Rightarrow> Inl (ApiError ''validation_error'')
      | Some b \<Rightarrow> fst (withEdgeEndpointLockRetry (runTx b)))"

section \<open>Interleaved transactions\<close>

record open_tx =
  ot_keys :: "string list"
  ot_edges :: "EdgeRow list"
  ot_events :: "FoldEvent list"

record edge_system =
  es_db :: edge_db
  es_open :: "open_tx list"

definition add_writes :: "open_tx \<Rightarrow> edge_db \<Rightarrow> edge_db" where
  "add_writes t db = db\<lparr>d_edges := d_edges db @ ot_edges t, d_events := d_events db @ ot_events t\<rparr>"

definition pending :: "edge_system \<Rightarrow> edge_db" where
  "pending s = foldl (\<lambda>db t. add_writes t db) (es_db s) (es_open s)"

inductive tx_step :: "edge_env \<Rightarrow> edge_system \<Rightarrow> edge_system \<Rightarrow> bool" for env where
  opened: "CreateKnowledgeEdgeBodySchema b \<Longrightarrow>
    \<forall>t \<in> set (es_open s). set (ot_keys t) \<inter> set (endpoint_keys b) = {} \<Longrightarrow>
    edge_unused (pending s) i \<Longrightarrow> event_unused (pending s) eid \<Longrightarrow>
    manual_edge_tx env i eid now b (es_db s) = Inr db' \<Longrightarrow>
    tx_step env s (s\<lparr>es_open := es_open s @ [\<lparr>ot_keys = endpoint_keys b,
      ot_edges = drop (length (d_edges (es_db s))) (d_edges db'),
      ot_events = drop (length (d_events (es_db s))) (d_events db')\<rparr>]\<rparr>)"
| committed: "es_open s = ts @ t # us \<Longrightarrow>
    tx_step env s \<lparr>es_db = add_writes t (es_db s), es_open = ts @ us\<rparr>"
| rolled_back: "es_open s = ts @ t # us \<Longrightarrow> tx_step env s (s\<lparr>es_open := ts @ us\<rparr>)"

section \<open>What the locks guarantee\<close>

text \<open>No self-edge, no two opposite prerequisites, no two opposite derivations.\<close>

definition opposite :: "TopologyEdge \<Rightarrow> TopologyEdge \<Rightarrow> bool" where
  "opposite e e' \<longleftrightarrow> relation_type e = relation_type e' \<and> relation_type e \<in> {''prerequisite'', ''derived_from''} \<and>
     from_knowledge_id e = to_knowledge_id e' \<and> to_knowledge_id e = from_knowledge_id e'"

definition pairwise_ok :: "TopologyEdge set \<Rightarrow> bool" where
  "pairwise_ok E \<longleftrightarrow> (\<forall>e \<in> E. from_knowledge_id e \<noteq> to_knowledge_id e) \<and> (\<forall>e \<in> E. \<forall>e' \<in> E. \<not> opposite e e')"

lemma accepted_pairwise:
  assumes v: "\<forall>g. checkEdgeTopology c es links \<noteq> Reject g"
  shows "from_knowledge_id c \<noteq> to_knowledge_id c" "e \<in> set es \<Longrightarrow> \<not> opposite e c \<and> \<not> opposite c e"
proof -
  note spec = checkEdgeTopology_spec [of c es links, unfolded topology_spec_def Let_def]
  show ne: "from_knowledge_id c \<noteq> to_knowledge_id c" using spec v by (auto split: if_splits)
  have pre: "(to_knowledge_id c, from_knowledge_id c) \<notin> prerequisite_rel es" if "relation_type c = ''prerequisite''"
    using spec v ne that by (auto split: if_splits)
  have der: "\<not> (\<exists>e \<in> set es. relation_type e = ''derived_from'' \<and> from_knowledge_id e = to_knowledge_id c \<and>
      to_knowledge_id e = from_knowledge_id c)" if "relation_type c = ''derived_from''"
    using spec v ne that by (auto split: if_splits)
  show "\<not> opposite e c \<and> \<not> opposite c e" if "e \<in> set es"
    using that pre der by (auto simp: opposite_def prerequisite_rel_def ORDERED_RELATION_def)
qed

lemma opposite_keys: "opposite e e' \<Longrightarrow> {from_knowledge_id e, to_knowledge_id e} = {from_knowledge_id e', to_knowledge_id e'}"
  by (auto simp: opposite_def)

text \<open>What a transaction writes: at most one live row, accepted by the gate on the committed mesh.\<close>

lemma create_writes:
  assumes c: "createKnowledgeEdge env i eid now input db = Inr db'" and fresh: "edge_unused db i"
    and ev: "event_unused db (fe_id (input_event i eid now input))" and ne: "ci_from input \<noteq> []" "ci_to input \<noteq> []"
  shows "\<exists>r. db' = db\<lparr>d_edges := d_edges db @ [r], d_events := d_events db @ [input_event i eid now input]\<rparr> \<and>
    ke_from r = ci_from input \<and> ke_to r = ci_to input \<and> ke_archived_at r = None \<and>
    (\<forall>g. checkEdgeTopology (mesh_edge r) (map mesh_edge (live_edges db)) [] \<noteq> Reject g)"
proof -
  let ?ev = "input_event i eid now input"
  obtain db1 where w: "writeEvent ?ev db = Inr db1" using create_Inr(2) [OF c] by blast
  have db1: "db1 = db\<lparr>d_events := d_events db @ [?ev]\<rparr>"
    using writeEvent_fresh [OF w] ev by (simp add: event_unused_def)
  note p = create_Inr(1) [OF c w, unfolded db1]
  have later: "\<forall>e \<in> set (edge_events db i). fold_key e \<le> fold_key ?ev"
    using fresh by (auto simp: edge_events_def edge_unused_def)
  have none: "ker.project (ee_date env) i (d_events db) = None"
    by (rule no_events_none) (use fresh in \<open>auto simp: edge_relevant_def edge_unused_def\<close>)
  obtain row where g: "gatherAndFoldKnowledgeEdge env i Enforce (db\<lparr>d_events := d_events db @ [?ev]\<rparr>) = Inr row"
    using p by (auto simp: projectKnowledgeEdgeGuarded_def split: sum.splits)
  obtain f where f: "trust_step (ee_date env) i None ?ev = Some f" "ke_id f = i" "ke_from f = ci_from input"
    "ke_to f = ci_to input" "ke_archived_at f = None"
    using create_event_step [OF writeEvent_ok [OF w, unfolded input_event_def] ne] by (fold input_event_def) blast
  have row: "row = Some f" using gathered_row [OF g later input_event_simps(1)] none f(1) by simp
  have gate: "\<forall>g. checkEdgeTopology (mesh_edge f) (map mesh_edge (live_edges db)) [] \<noteq> Reject g"
    using enforce_last(2) [OF input_event_simps later g row] none by simp
  have "upsertProjectedKnowledgeEdge env f (db\<lparr>d_events := d_events db @ [?ev]\<rparr>) = Inr db'"
    using p g row by (simp add: projectKnowledgeEdgeGuarded_def)
  moreover have "\<not> list_ex (\<lambda>q. ke_id q = i) (d_edges db)"
    using fresh imageI [of _ "set (d_edges db)" ke_id] by (auto simp: edge_unused_def list_ex_iff)
  ultimately have "db' = db\<lparr>d_edges := d_edges db @ [stored env f], d_events := d_events db @ [?ev]\<rparr>"
    by (auto simp: upsertProjectedKnowledgeEdge_def Let_def stored_def f(2) split: if_splits)
  then show ?thesis using f gate by (intro exI [of _ "stored env f"]) simp
qed

definition all_edges :: "edge_system \<Rightarrow> TopologyEdge set" where
  "all_edges s = mesh_edge ` {r \<in> set (d_edges (pending s)). ke_archived_at r = None}"

lemma pending_edges: "set (d_edges (pending s)) = set (d_edges (es_db s)) \<union> (\<Union>t \<in> set (es_open s). set (ot_edges t))"
proof -
  have "set (d_edges (foldl (\<lambda>db t. add_writes t db) db ts)) = set (d_edges db) \<union> (\<Union>t \<in> set ts. set (ot_edges t))" for db ts
    by (induction ts arbitrary: db) (auto simp: add_writes_def)
  then show ?thesis by (simp add: pending_def)
qed

lemma pending_events: "set (d_events (pending s)) = set (d_events (es_db s)) \<union> (\<Union>t \<in> set (es_open s). set (ot_events t))"
proof -
  have "set (d_events (foldl (\<lambda>db t. add_writes t db) db ts)) = set (d_events db) \<union> (\<Union>t \<in> set ts. set (ot_events t))" for db ts
    by (induction ts arbitrary: db) (auto simp: add_writes_def)
  then show ?thesis by (simp add: pending_def)
qed

definition system_ok :: "edge_system \<Rightarrow> bool" where
  "system_ok s \<longleftrightarrow> pairwise_ok (all_edges s) \<and>
     (\<forall>t \<in> set (es_open s). \<forall>r \<in> set (ot_edges t). {ke_from r, ke_to r} \<subseteq> set (ot_keys t))"

lemma pairwise_subset: "pairwise_ok E \<Longrightarrow> E' \<subseteq> E \<Longrightarrow> pairwise_ok E'"
  unfolding pairwise_ok_def by blast

lemma pending_unused:
  assumes "edge_unused (pending s) i" "event_unused (pending s) e"
  shows "edge_unused (es_db s) i" "event_unused (es_db s) e"
  using assms by (auto simp: edge_unused_def event_unused_def pending_edges pending_events)

lemma tx_step_ok:
  assumes step: "tx_step env s s'" and ok: "system_ok s"
  shows "system_ok s'"
  using step
proof cases
  case (opened b i eid now db')
  let ?input = "manual_input b now"
  have ci: "ci_from ?input = cb_from b" "ci_to ?input = cb_to b" "fe_id (input_event i eid now ?input) = eid"
    by (simp_all add: manual_input_def input_event_def)
  have c: "createKnowledgeEdge env i eid now ?input (es_db s) = Inr db'"
    using opened(6) by (auto simp: manual_edge_tx_def bind_result_Inr_iff)
  have ne: "cb_from b \<noteq> []" "cb_to b \<noteq> []" using opened(2) by (auto simp: CreateKnowledgeEdgeBodySchema_def)
  obtain r where r: "db' = (es_db s)\<lparr>d_edges := d_edges (es_db s) @ [r], d_events := d_events (es_db s) @ [input_event i eid now ?input]\<rparr>"
    "ke_from r = cb_from b" "ke_to r = cb_to b" "ke_archived_at r = None"
    "\<forall>g. checkEdgeTopology (mesh_edge r) (map mesh_edge (live_edges (es_db s))) [] \<noteq> Reject g"
    using create_writes [OF c pending_unused(1) [OF opened(4,5)]] pending_unused(2) [OF opened(4,5)] ne ci by metis
  note acc = accepted_pairwise [OF r(5)]
  have keys: "{ke_from r, ke_to r} \<subseteq> set (endpoint_keys b)" by (simp add: endpoint_keys_def r(2,3))
  have all: "all_edges s' = insert (mesh_edge r) (all_edges s)"
    by (auto simp: all_edges_def pending_edges opened(1) r(1,4))
  have apart: "\<not> opposite e (mesh_edge r) \<and> \<not> opposite (mesh_edge r) e" if e: "e \<in> all_edges s" for e
  proof -
    obtain q where q: "e = mesh_edge q" "ke_archived_at q = None" "q \<in> set (d_edges (pending s))"
      using e by (auto simp: all_edges_def)
    show ?thesis
    proof (cases "q \<in> set (d_edges (es_db s))")
      case True
      then show ?thesis using acc(2) [of e] q by (auto simp: live_edges_def)
    next
      case False
      then obtain t where t: "t \<in> set (es_open s)" "q \<in> set (ot_edges t)" using q(3) by (auto simp: pending_edges)
      then have "{ke_from q, ke_to q} \<subseteq> set (ot_keys t)" using ok by (auto simp: system_ok_def)
      moreover have "set (ot_keys t) \<inter> set (endpoint_keys b) = {}" using opened(3) t(1) by blast
      ultimately have "ke_from q \<notin> {ke_from r, ke_to r}" using keys by blast
      then show ?thesis using opposite_keys [of e "mesh_edge r"] opposite_keys [of "mesh_edge r" e] q(1)
        by (auto simp: mesh_edge_def)
    qed
  qed
  have "\<not> opposite (mesh_edge r) (mesh_edge r)" using acc(1) by (auto simp: opposite_def)
  then have "pairwise_ok (all_edges s')" using ok acc(1) apart by (auto simp: all pairwise_ok_def system_ok_def)
  then show ?thesis using ok keys by (auto simp: system_ok_def opened(1) r(1))
next
  case (committed ts t us)
  have "all_edges s' = all_edges s" by (auto simp: all_edges_def pending_edges committed add_writes_def)
  then show ?thesis using ok by (auto simp: system_ok_def committed)
next
  case (rolled_back ts t us)
  have "all_edges s' \<subseteq> all_edges s" by (auto simp: all_edges_def pending_edges rolled_back)
  then show ?thesis using ok pairwise_subset by (auto simp: system_ok_def rolled_back)
qed

lemma tx_steps_ok:
  assumes "(tx_step env)\<^sup>*\<^sup>* s s'" "system_ok s"
  shows "system_ok s'"
  using assms by (induction rule: rtranclp_induct) (auto intro: tx_step_ok)

lemma mesh_ok_pairwise:
  assumes "mesh_ok es"
  shows "pairwise_ok (set es)"
proof -
  have rel: "x \<in> set es \<Longrightarrow> relation_type x = ''prerequisite'' \<Longrightarrow>
      (from_knowledge_id x, to_knowledge_id x) \<in> prerequisite_rel es" for x
    by (auto simp: prerequisite_rel_def ORDERED_RELATION_def)
  have "\<not> opposite e e'" if e: "e \<in> set es" "e' \<in> set es" for e e'
  proof
    assume o: "opposite e e'"
    show False
    proof (cases "relation_type e = ''prerequisite''")
      case True
      then have "(from_knowledge_id e, to_knowledge_id e) \<in> prerequisite_rel es"
        "(to_knowledge_id e, from_knowledge_id e) \<in> prerequisite_rel es"
        using o e rel [of e] rel [of e'] by (auto simp: opposite_def)
      then have "(from_knowledge_id e, from_knowledge_id e) \<in> (prerequisite_rel es)\<^sup>+" by (meson r_into_trancl' trancl_into_trancl)
      then show False using assms by (auto simp: mesh_ok_def acyclic_def)
    next
      case False
      then show False using o e assms by (auto simp: opposite_def mesh_ok_def mutual_pair_def)
    qed
  qed
  then show ?thesis using assms by (simp add: pairwise_ok_def mesh_ok_def)
qed

lemma start_ok:
  assumes "edges_inv env db"
  shows "system_ok \<lparr>es_db = db, es_open = []\<rparr>"
proof -
  have "all_edges \<lparr>es_db = db, es_open = []\<rparr> = set (map mesh_edge (live_edges db))"
    by (auto simp: all_edges_def pending_edges live_edges_def)
  then show ?thesis using mesh_ok_pairwise [OF edges_invD(3) [OF assms]] by (simp add: system_ok_def)
qed

lemma committed_edges: "set (map mesh_edge (live_edges (es_db s))) \<subseteq> all_edges s"
  by (auto simp: all_edges_def pending_edges live_edges_def)

section \<open>The retry ends\<close>

lemma lock_retry_waits:
  assumes "lock_retry_loop runTx attempt = (r, waits)" "1 \<le> attempt" "attempt \<le> MAX_LOCK_ATTEMPTS"
  shows "length waits \<le> MAX_LOCK_ATTEMPTS - attempt \<and> waits = map backoffMs [attempt..<attempt + length waits]"
  using assms
proof (induction runTx attempt arbitrary: r waits rule: lock_retry_loop.induct)
  case (1 runTx attempt)
  show ?case
  proof (cases "runTx attempt = Inl LockNotAvailable \<and> attempt < MAX_LOCK_ATTEMPTS")
    case True
    obtain r' ws where rec: "lock_retry_loop runTx (attempt + 1) = (r', ws)" by (cases "lock_retry_loop runTx (attempt + 1)")
    then have eq: "waits = backoffMs attempt # ws"
      using 1(2) True by (subst (asm) lock_retry_loop.simps) simp
    have IH: "length ws \<le> MAX_LOCK_ATTEMPTS - (attempt + 1) \<and> ws = map backoffMs [attempt + 1..<attempt + 1 + length ws]"
      using 1(1) [OF conjunct1 [OF True] _ _ rec] True by simp
    have "[attempt..<attempt + length waits] = attempt # [attempt + 1..<attempt + 1 + length ws]"
      by (simp add: eq upt_conv_Cons del: upt_Suc)
    then have "map backoffMs [attempt..<attempt + length waits] = waits" using IH eq by (metis list.map(2))
    moreover have "length waits \<le> MAX_LOCK_ATTEMPTS - attempt" 
      using conjunct1 [OF IH] conjunct2 [OF True] by (simp add: eq)
    ultimately show ?thesis by simp
  next
    case False
    then have "waits = []"
      using 1(2) by (subst (asm) lock_retry_loop.simps) (auto split: sum.splits tx_failure.splits if_splits)
    then show ?thesis by simp
  qed
qed

end
