(* ===== verification/KnowledgeEdgeFixtures.thy ===== *)
theory KnowledgeEdgeFixtures
  imports KnowledgeEdgeRuns EdgeTransactions
begin

text \<open>
  Small tables on which the witnesses run the edge commands: two creations that race, and a node
  merged into its neighbour.
\<close>

section \<open>Small tables\<close>

definition demo_env :: edge_env where
  "demo_env = \<lparr>ee_date = (\<lambda>_. None), ee_real = id\<rparr>"

definition demo_nodes :: "KnowledgeNode list" where
  "demo_nodes = map (\<lambda>i. \<lparr>kn_id = i, kn_parent_id = None, kn_archived_at = None\<rparr>) [''a'', ''b'', ''c'', ''d'']"

definition demo_body :: "string \<Rightarrow> string \<Rightarrow> string \<Rightarrow> CreateKnowledgeEdgeBody" where
  "demo_body a b rel = \<lparr>cb_from = a, cb_to = b, cb_relation = rel, cb_weight = None, cb_reasoning = None\<rparr>"

definition demo_create :: "string \<Rightarrow> string \<Rightarrow> string \<Rightarrow> string \<Rightarrow> string \<Rightarrow> edge_db \<Rightarrow> edge_db" where
  "demo_create i eid a b rel db =
     (case createKnowledgeEdge demo_env i eid 1 (manual_input (demo_body a b rel) 1) db of Inr db' \<Rightarrow> db' | Inl _ \<Rightarrow> db)"

definition demo_creates :: "string \<Rightarrow> string \<Rightarrow> string \<Rightarrow> string \<Rightarrow> string \<Rightarrow> edge_db \<Rightarrow> bool" where
  "demo_creates i eid a b rel db \<longleftrightarrow> edge_unused db i \<and>
     (case createKnowledgeEdge demo_env i eid 1 (manual_input (demo_body a b rel) 1) db of Inr _ \<Rightarrow> True | Inl _ \<Rightarrow> False)"

lemma demo_create_step:
  assumes "edge_reachable demo_env db" "demo_creates i eid a b rel db"
  shows "edge_reachable demo_env (demo_create i eid a b rel db)"
proof -
  obtain db' where c: "createKnowledgeEdge demo_env i eid 1 (manual_input (demo_body a b rel) 1) db = Inr db'"
    using assms(2) by (auto simp: demo_creates_def split: sum.splits)
  have "edge_cmd demo_env db db'" by (rule edge_cmd.create [OF c]) (use assms(2) in \<open>simp add: demo_creates_def\<close>)
  then show ?thesis using assms(1) c by (simp add: demo_create_def)
qed

definition demo_start :: edge_db where
  "demo_start = no_edges\<lparr>d_nodes := demo_nodes\<rparr>"

lemma demo_start_reachable: "edge_reachable demo_env demo_start"
  unfolding demo_start_def by (rule r_into_rtranclp, rule edge_cmd.nodes) (simp add: no_edges_def)

text \<open>Two prerequisites with no endpoint in common.\<close>

definition race_db :: edge_db where
  "race_db = demo_create ''e2'' ''g2'' ''c'' ''d'' ''prerequisite''
     (demo_create ''e1'' ''g1'' ''a'' ''b'' ''prerequisite'' demo_start)"

lemma race_steps:
  "demo_creates ''e1'' ''g1'' ''a'' ''b'' ''prerequisite'' demo_start"
  "demo_creates ''e2'' ''g2'' ''c'' ''d'' ''prerequisite'' (demo_create ''e1'' ''g1'' ''a'' ''b'' ''prerequisite'' demo_start)"
  by code_simp+

lemma race_reachable: "edge_reachable demo_env race_db"
  unfolding race_db_def by (intro demo_create_step demo_start_reachable race_steps)

text \<open>Two creations from it, opened on the same committed rows.\<close>

definition race_open :: "string \<Rightarrow> string \<Rightarrow> CreateKnowledgeEdgeBody \<Rightarrow> edge_db \<Rightarrow> open_tx" where
  "race_open i eid b db =
     (case manual_edge_tx demo_env i eid 2 b db of
        Inr db' \<Rightarrow> \<lparr>ot_keys = endpoint_keys b, ot_edges = drop (length (d_edges db)) (d_edges db'),
            ot_events = drop (length (d_events db)) (d_events db')\<rparr>
      | Inl _ \<Rightarrow> \<lparr>ot_keys = [], ot_edges = [], ot_events = []\<rparr>)"

definition opens :: "string \<Rightarrow> string \<Rightarrow> CreateKnowledgeEdgeBody \<Rightarrow> edge_system \<Rightarrow> bool" where
  "opens i eid b s \<longleftrightarrow> CreateKnowledgeEdgeBodySchema b \<and>
     list_all (\<lambda>t. list_all (\<lambda>k. k \<notin> set (endpoint_keys b)) (ot_keys t)) (es_open s) \<and>
     edge_unused (pending s) i \<and> event_unused (pending s) eid \<and>
     (case manual_edge_tx demo_env i eid 2 b (es_db s) of Inr _ \<Rightarrow> True | Inl _ \<Rightarrow> False)"

lemma opens_step:
  assumes "opens i eid b s"
  shows "tx_step demo_env s (s\<lparr>es_open := es_open s @ [race_open i eid b (es_db s)]\<rparr>)"
proof -
  obtain db' where c: "manual_edge_tx demo_env i eid 2 b (es_db s) = Inr db'"
    using assms by (auto simp: opens_def split: sum.splits)
  have eq: "race_open i eid b (es_db s) = \<lparr>ot_keys = endpoint_keys b,
      ot_edges = drop (length (d_edges (es_db s))) (d_edges db'),
      ot_events = drop (length (d_events (es_db s))) (d_events db')\<rparr>"
    by (simp add: race_open_def c)
  show ?thesis unfolding eq
    by (rule tx_step.opened [OF _ _ _ _ c]) (use assms in \<open>auto simp: opens_def list_all_iff\<close>)
qed

definition race_bc :: open_tx where
  "race_bc = race_open ''e3'' ''g3'' (demo_body ''b'' ''c'' ''prerequisite'') race_db"

definition race_da :: open_tx where
  "race_da = race_open ''e4'' ''g4'' (demo_body ''d'' ''a'' ''prerequisite'') race_db"

definition race_end :: edge_db where
  "race_end = add_writes race_da (add_writes race_bc race_db)"

lemma race_opens:
  "opens ''e3'' ''g3'' (demo_body ''b'' ''c'' ''prerequisite'') \<lparr>es_db = race_db, es_open = []\<rparr>"
  "opens ''e4'' ''g4'' (demo_body ''d'' ''a'' ''prerequisite'') \<lparr>es_db = race_db, es_open = [race_bc]\<rparr>"
  by code_simp+

lemma race_both_open:
  "(tx_step demo_env)\<^sup>*\<^sup>* \<lparr>es_db = race_db, es_open = []\<rparr> \<lparr>es_db = race_db, es_open = [race_bc, race_da]\<rparr>"
proof -
  have "tx_step demo_env \<lparr>es_db = race_db, es_open = []\<rparr> \<lparr>es_db = race_db, es_open = [race_bc]\<rparr>"
    using opens_step [OF race_opens(1)] by (simp add: race_bc_def)
  moreover have "tx_step demo_env \<lparr>es_db = race_db, es_open = [race_bc]\<rparr> \<lparr>es_db = race_db, es_open = [race_bc, race_da]\<rparr>"
    using opens_step [OF race_opens(2)] by (simp add: race_da_def)
  ultimately show ?thesis by (meson converse_rtranclp_into_rtranclp rtranclp.rtrancl_refl)
qed

lemma race_both_commit:
  "(tx_step demo_env)\<^sup>*\<^sup>* \<lparr>es_db = race_db, es_open = [race_bc, race_da]\<rparr> \<lparr>es_db = race_end, es_open = []\<rparr>"
proof -
  have "tx_step demo_env \<lparr>es_db = race_db, es_open = [race_bc, race_da]\<rparr>
      \<lparr>es_db = add_writes race_bc race_db, es_open = [race_da]\<rparr>"
    using tx_step.committed [of "\<lparr>es_db = race_db, es_open = [race_bc, race_da]\<rparr>" "[]" race_bc "[race_da]"] by simp
  moreover have "tx_step demo_env \<lparr>es_db = add_writes race_bc race_db, es_open = [race_da]\<rparr> \<lparr>es_db = race_end, es_open = []\<rparr>"
    using tx_step.committed [of "\<lparr>es_db = add_writes race_bc race_db, es_open = [race_da]\<rparr>" "[]" race_da "[]"]
    by (simp add: race_end_def)
  ultimately show ?thesis by (meson converse_rtranclp_into_rtranclp rtranclp.rtrancl_refl)
qed

lemma race_run: "(tx_step demo_env)\<^sup>*\<^sup>* \<lparr>es_db = race_db, es_open = []\<rparr> \<lparr>es_db = race_end, es_open = []\<rparr>"
  by (rule rtranclp_trans [OF race_both_open race_both_commit])

lemma race_disjoint:
  "list_all (\<lambda>k. k \<notin> set (endpoint_keys (demo_body ''d'' ''a'' ''prerequisite'')))
     (endpoint_keys (demo_body ''b'' ''c'' ''prerequisite''))"
  by code_simp

lemma race_passes:
  "case manual_edge_tx demo_env ''e3'' ''g3'' 2 (demo_body ''b'' ''c'' ''prerequisite'') race_db of Inr _ \<Rightarrow> True | Inl _ \<Rightarrow> False"
  "case manual_edge_tx demo_env ''e4'' ''g4'' 2 (demo_body ''d'' ''a'' ''prerequisite'') race_db of Inr _ \<Rightarrow> True | Inl _ \<Rightarrow> False"
  using race_opens by (simp_all add: opens_def)

definition has_prerequisite :: "string \<Rightarrow> string \<Rightarrow> edge_db \<Rightarrow> bool" where
  "has_prerequisite a b db \<longleftrightarrow>
     list_ex (\<lambda>r. ke_from r = a \<and> ke_to r = b \<and> ke_relation r = ''prerequisite'') (live_edges db)"

lemma race_edges:
  "has_prerequisite ''a'' ''b'' race_end" "has_prerequisite ''b'' ''c'' race_end"
  "has_prerequisite ''c'' ''d'' race_end" "has_prerequisite ''d'' ''a'' race_end"
  by code_simp+

text \<open>
  \<open>a\<close> is merged into \<open>b\<close>: one edge of \<open>a\<close> becomes a self-edge, one repeats an edge of \<open>b\<close>, one moves.
\<close>

definition merge_db1 :: edge_db where
  "merge_db1 = demo_create ''m1'' ''g1'' ''c'' ''a'' ''prerequisite'' demo_start"

definition merge_db2 :: edge_db where
  "merge_db2 = demo_create ''m2'' ''g2'' ''a'' ''d'' ''related_to'' merge_db1"

definition merge_db3 :: edge_db where
  "merge_db3 = demo_create ''m3'' ''g3'' ''b'' ''d'' ''related_to'' merge_db2"

definition merge_db :: edge_db where
  "merge_db = demo_create ''m4'' ''g4'' ''a'' ''b'' ''prerequisite'' merge_db3"

lemma merge_steps:
  "demo_creates ''m1'' ''g1'' ''c'' ''a'' ''prerequisite'' demo_start"
  "demo_creates ''m2'' ''g2'' ''a'' ''d'' ''related_to'' merge_db1"
  "demo_creates ''m3'' ''g3'' ''b'' ''d'' ''related_to'' merge_db2"
  "demo_creates ''m4'' ''g4'' ''a'' ''b'' ''prerequisite'' merge_db3"
  by code_simp+

lemma merge_reachable: "edge_reachable demo_env merge_db"
proof -
  have "edge_reachable demo_env merge_db1"
    unfolding merge_db1_def by (rule demo_create_step [OF demo_start_reachable merge_steps(1)])
  then have "edge_reachable demo_env merge_db2" unfolding merge_db2_def by (rule demo_create_step [OF _ merge_steps(2)])
  then have "edge_reachable demo_env merge_db3" unfolding merge_db3_def by (rule demo_create_step [OF _ merge_steps(3)])
  then show ?thesis unfolding merge_db_def by (rule demo_create_step [OF _ merge_steps(4)])
qed

definition merge_fresh :: "string \<Rightarrow> fresh_ids" where
  "merge_fresh i = \<lparr>fi_archive = CHR ''x'' # i, fi_edge = CHR ''n'' # i, fi_create = CHR ''y'' # i, fi_revive = CHR ''z'' # i\<rparr>"

definition merge_run :: "rewire_error + (EdgeRewired list \<times> edge_db)" where
  "merge_run = rewireKnowledgeEdges demo_env rev merge_fresh ''a'' ''b'' 5 [''a''] merge_db"

definition merge_outcomes :: "(string \<times> string option \<times> rewire_outcome) list" where
  "merge_outcomes = (case merge_run of Inl _ \<Rightarrow> []
     | Inr (entries, _) \<Rightarrow> map (\<lambda>e. (er_old_edge e, er_new_edge e, er_outcome e)) entries)"

lemma merge_outcomes_eq:
  "merge_outcomes = [(''m4'', None, CollapsedSelfLoop), (''m2'', None, ArchivedDuplicate), (''m1'', Some ''nm1'', Rewired)]"
  by code_simp

lemma merge_fresh_ok: "fresh_for merge_fresh (rev (listLiveEdgesTouchingNode merge_db ''a'')) merge_db"
  by code_simp

end
