(* ===== verification/KnowledgeEdgeProperties.thy ===== *)
theory KnowledgeEdgeProperties
  imports KnowledgeEdgeFixtures
begin

text \<open>
  The properties of the knowledge mesh: the topology gate, the runs of the edge commands, the merge
  rewrite, and concurrent creations.
\<close>

section \<open>The gate\<close>

text \<open>
  C26. The topology gate is exact: with R the prerequisite pairs of the existing edges, the verdict
  on a candidate from a to b is a function of R's closure alone. A self-edge is a cycle; a
  derivation is refused when its opposite exists; of a prerequisite the tree link comes first,
  then the opposite pair, then a path from b to a, and a path from a to b over an intermediate
  node only warns. The stack search over adjacency lists always ends and decides these closures.
\<close>

theorem topology_gate_exact:
  "checkEdgeTopology c es links =
     (let a = from_knowledge_id c; b = to_knowledge_id c;
          R = {(from_knowledge_id e, to_knowledge_id e) | e. e \<in> set es \<and> relation_type e = ''prerequisite''}
      in if a = b then Reject CycleGate
         else if relation_type c = ''derived_from'' then
           (if \<exists>e \<in> set es. relation_type e = ''derived_from'' \<and> from_knowledge_id e = b \<and> to_knowledge_id e = a
            then Reject DirectionContradiction else Ok)
         else if relation_type c \<noteq> ''prerequisite'' then Ok
         else if \<exists>l \<in> set links. {child_id l, parent_id l} = {a, b} then Reject TreeRedundancy
         else if (b, a) \<in> R then Reject DirectionContradiction
         else if (b, a) \<in> R\<^sup>* then Reject CycleGate
         else if (a, b) \<in> R\<^sup>+ - R then Warn TransitiveRedundancy
         else Ok)"
proof -
  have "prerequisite_rel es = {(from_knowledge_id e, to_knowledge_id e) | e. e \<in> set es \<and> relation_type e = ''prerequisite''}"
    by (simp add: prerequisite_rel_def ORDERED_RELATION_def)
  note R = this
  have d: "(if P then v = x else v = y) = (v = (if P then x else y))" for P and v x y :: TopologyVerdict by simp
  show ?thesis
    using checkEdgeTopology_spec [of c es links] unfolding topology_spec_def Let_def R d .
qed

section \<open>Runs\<close>

text \<open>
  C27. Whatever edge commands ran, one transaction after another, among other events and node
  changes: edge ids and the slots (from, to, relation) are unique, every stored row is what
  replaying the log gives for its id, both endpoints exist, no live edge points at itself, the
  live prerequisites have no cycle, and no two live derivations oppose each other.
\<close>

theorem edge_tables_well_formed:
  assumes "edge_reachable env db"
  shows "distinct (map ke_id (d_edges db)) \<and>
    distinct (map (\<lambda>r. (ke_from r, ke_to r, ke_relation r)) (d_edges db)) \<and>
    (\<forall>r \<in> set (d_edges db). {ke_from r, ke_to r} \<subseteq> kn_id ` set (d_nodes db) \<and>
       (\<exists>f. gatherAndFoldKnowledgeEdge env (ke_id r) Trust db = Inr (Some f) \<and>
            r = f\<lparr>ke_weight := ee_real env (ke_weight f)\<rparr>)) \<and>
    (\<forall>r \<in> set (live_edges db). ke_from r \<noteq> ke_to r) \<and>
    acyclic {(ke_from r, ke_to r) | r. r \<in> set (live_edges db) \<and> ke_relation r = ''prerequisite''} \<and>
    (\<forall>r \<in> set (live_edges db). \<forall>q \<in> set (live_edges db).
       ke_relation r = ''derived_from'' \<and> ke_relation q = ''derived_from'' \<longrightarrow> (ke_from q, ke_to q) \<noteq> (ke_to r, ke_from r))"
proof -
  have inv: "edges_inv env db" by (rule edge_reachable_inv [OF assms])
  have R: "prerequisite_rel (map mesh_edge (live_edges db)) =
      {(ke_from r, ke_to r) | r. r \<in> set (live_edges db) \<and> ke_relation r = ''prerequisite''}"
    by (force simp: prerequisite_rel_def mesh_edge_def ORDERED_RELATION_def)
  note mesh = edges_invD(3) [OF inv, unfolded mesh_ok_def R]
  have rows: "{ke_from r, ke_to r} \<subseteq> kn_id ` set (d_nodes db) \<and>
      (\<exists>f. gatherAndFoldKnowledgeEdge env (ke_id r) Trust db = Inr (Some f) \<and> r = f\<lparr>ke_weight := ee_real env (ke_weight f)\<rparr>)"
    if "r \<in> set (d_edges db)" for r
    using edges_invD(4,5) [OF inv that] by (auto simp: replays_def gather_trust stored_def)
  have mutual: "(ke_from q, ke_to q) \<noteq> (ke_to r, ke_from r)"
    if "r \<in> set (live_edges db)" "q \<in> set (live_edges db)" "ke_relation r = ''derived_from''" "ke_relation q = ''derived_from''" for r q
    using mesh that by (auto simp: mutual_pair_def mesh_edge_def)
  have self: "ke_from r \<noteq> ke_to r" if "r \<in> set (live_edges db)" for r
    using mesh that by (auto simp: mesh_edge_def)
  show ?thesis
    using edges_invD(1,2) [OF inv] rows mutual self mesh by (simp add: ke.wf_def slot.wf_def)
qed

theorem edge_tables_well_formed_witness:
  "acyclic {(ke_from r, ke_to r) | r. r \<in> set (live_edges merge_db) \<and> ke_relation r = ''prerequisite''} \<and>
   length (live_edges merge_db) = 4"
proof -
  have "length (live_edges merge_db) = 4" by code_simp
  then show ?thesis using edge_tables_well_formed [OF merge_reachable] by blast
qed

section \<open>Merging a node\<close>

text \<open>
  C28. Merging a node loses no relationship: when the rewrite of the edges of an absorbed node
  succeeds, no live edge touches that node any more, every other live edge is unchanged, and each
  of its edges, in the order they were read, is archived under its id and accounted for by its
  entry: it collapsed to a self-edge, or a live edge of the same relation joins the mapped
  endpoints (a new one, a revived one, whose id the entry reports, or one that was there), or a
  mapped endpoint is not an active node. The mesh stays well-formed.
\<close>

theorem merge_loses_no_relationship:
  assumes "edge_reachable env db"
    and "fromId \<in> set mergeFromIds" "intoId \<notin> set mergeFromIds" "intoId \<noteq> []"
    and "mset (scan (listLiveEdgesTouchingNode db fromId)) = mset (listLiveEdgesTouchingNode db fromId)"
    and "fresh_for fresh (scan (listLiveEdgesTouchingNode db fromId)) db"
    and "rewireKnowledgeEdges env scan fresh fromId intoId now mergeFromIds db = Inr (entries, db')"
  shows "(\<forall>q \<in> set (d_edges db'). ke_archived_at q = None \<longrightarrow> ke_from q \<noteq> fromId \<and> ke_to q \<noteq> fromId) \<and>
    (\<forall>q \<in> set (d_edges db). ke_archived_at q = None \<and> ke_from q \<noteq> fromId \<and> ke_to q \<noteq> fromId \<longrightarrow> q \<in> set (d_edges db')) \<and>
    list_all2 (\<lambda>e entry. er_old_edge entry = ke_id e \<and> (\<exists>t. e\<lparr>ke_archived_at := Some t\<rparr> \<in> set (d_edges db')) \<and>
        outcome_ok db' (mapEndpoint mergeFromIds intoId (ke_from e)) (mapEndpoint mergeFromIds intoId (ke_to e))
          (ke_relation e) (er_new_edge entry) (er_outcome entry))
      (scan (listLiveEdgesTouchingNode db fromId)) entries \<and>
    mesh_ok (map mesh_edge (live_edges db'))"
proof -
  have ab: "absorbs mergeFromIds fromId intoId" using assms(2-4) by (simp add: absorbs_def)
  note spec = rewire_spec [OF edge_reachable_inv [OF assms(1)] ab assms(5-7)]
  have "listLiveEdgesTouchingNode db' fromId = []" using spec by blast
  then have "\<forall>q \<in> set (d_edges db'). ke_archived_at q = None \<longrightarrow> ke_from q \<noteq> fromId \<and> ke_to q \<noteq> fromId"
    by (auto simp: listLiveEdgesTouchingNode_def filter_empty_conv edge_touches_def)
  moreover have "\<forall>q \<in> set (d_edges db). ke_archived_at q = None \<and> ke_from q \<noteq> fromId \<and> ke_to q \<noteq> fromId \<longrightarrow> q \<in> set (d_edges db')"
    using spec by (simp add: keeps_def edge_touches_def)
  moreover have "mesh_ok (map mesh_edge (live_edges db'))" using spec edges_invD(3) by blast
  ultimately show ?thesis using spec unfolding entry_ok_def by blast
qed

theorem merge_loses_no_relationship_witness:
  "\<exists>entries db'. merge_run = Inr (entries, db') \<and>
     map (\<lambda>e. (er_old_edge e, er_new_edge e, er_outcome e)) entries =
       [(''m4'', None, CollapsedSelfLoop), (''m2'', None, ArchivedDuplicate), (''m1'', Some ''nm1'', Rewired)] \<and>
     mesh_ok (map mesh_edge (live_edges db'))"
proof -
  obtain entries db' where run: "merge_run = Inr (entries, db')"
    using merge_outcomes_eq by (auto simp: merge_outcomes_def split: sum.splits)
  have "mesh_ok (map mesh_edge (live_edges db'))"
    using merge_loses_no_relationship [OF merge_reachable _ _ _ _ merge_fresh_ok run [unfolded merge_run_def]] by simp
  moreover have "map (\<lambda>e. (er_old_edge e, er_new_edge e, er_outcome e)) entries =
      [(''m4'', None, CollapsedSelfLoop), (''m2'', None, ArchivedDuplicate), (''m1'', Some ''nm1'', Rewired)]"
    using merge_outcomes_eq unfolding merge_outcomes_def run by simp
  ultimately show ?thesis using run by (intro exI [of _ entries] exI [of _ db'] conjI)
qed

section \<open>Concurrent creations\<close>

text \<open>
  C29. What the endpoint locks of concurrent creations guarantee. Under every interleaving of
  creation transactions that open, commit and roll back, starting from tables the commands reach,
  no committed live edge points at itself and no two committed live edges are opposite
  prerequisites or opposite derivations.
\<close>

theorem endpoint_locks_exclude_opposites:
  assumes "edge_reachable env db" "(tx_step env)\<^sup>*\<^sup>* \<lparr>es_db = db, es_open = []\<rparr> s"
  shows "(\<forall>r \<in> set (live_edges (es_db s)). ke_from r \<noteq> ke_to r) \<and>
    (\<forall>r \<in> set (live_edges (es_db s)). \<forall>q \<in> set (live_edges (es_db s)).
       ke_relation r = ke_relation q \<and> ke_relation r \<in> {''prerequisite'', ''derived_from''} \<longrightarrow>
       (ke_from q, ke_to q) \<noteq> (ke_to r, ke_from r))"
proof -
  have "system_ok s" by (rule tx_steps_ok [OF assms(2) start_ok [OF edge_reachable_inv [OF assms(1)]]])
  then have "pairwise_ok (set (map mesh_edge (live_edges (es_db s))))"
    using pairwise_subset [OF _ committed_edges] by (simp add: system_ok_def)
  then have self: "from_knowledge_id (mesh_edge r) \<noteq> to_knowledge_id (mesh_edge r)"
    and two: "\<not> opposite (mesh_edge r) (mesh_edge q)"
    if "r \<in> set (live_edges (es_db s))" "q \<in> set (live_edges (es_db s))" for r q
    using that by (auto simp: pairwise_ok_def)
  have "ke_from r \<noteq> ke_to r" if "r \<in> set (live_edges (es_db s))" for r
    using self [OF that that] by (simp add: mesh_edge_def)
  moreover have "(ke_from q, ke_to q) \<noteq> (ke_to r, ke_from r)"
    if "r \<in> set (live_edges (es_db s))" "q \<in> set (live_edges (es_db s))"
      "ke_relation r = ke_relation q \<and> ke_relation r \<in> {''prerequisite'', ''derived_from''}" for r q
    using two [OF that(1,2)] that(3) by (auto simp: opposite_def mesh_edge_def)
  ultimately show ?thesis by blast
qed

theorem endpoint_locks_exclude_opposites_witness:
  "race_end \<noteq> race_db \<and> ke_from (live_edges race_end ! 3) \<noteq> ke_to (live_edges race_end ! 3)"
proof -
  have n: "length (live_edges race_end) = 4" "length (live_edges race_db) = 2" by code_simp+
  then have "live_edges race_end ! 3 \<in> set (live_edges race_end)" by (intro nth_mem) simp
  then have "ke_from (live_edges race_end ! 3) \<noteq> ke_to (live_edges race_end ! 3)"
    using endpoint_locks_exclude_opposites [OF race_reachable race_run] by simp
  then show ?thesis using n by auto
qed

text \<open>
  The endpoint locks do not serialise the cycle check, which reads the whole mesh. From tables the commands
  reach, two creations lock disjoint endpoints, are open side by side, and each passes the whole transaction,
  gate included, on the rows it reads; both commit, and the committed prerequisites have a cycle.
\<close>

theorem concurrent_creations_close_a_cycle:
  "\<exists>b1 b2 db1 db2 t1 t2 end'. edge_reachable demo_env race_db \<and>
     set (endpoint_keys b1) \<inter> set (endpoint_keys b2) = {} \<and>
     manual_edge_tx demo_env ''e3'' ''g3'' 2 b1 race_db = Inr db1 \<and>
     manual_edge_tx demo_env ''e4'' ''g4'' 2 b2 race_db = Inr db2 \<and>
     (tx_step demo_env)\<^sup>*\<^sup>* \<lparr>es_db = race_db, es_open = []\<rparr> \<lparr>es_db = race_db, es_open = [t1, t2]\<rparr> \<and>
     (tx_step demo_env)\<^sup>*\<^sup>* \<lparr>es_db = race_db, es_open = [t1, t2]\<rparr> \<lparr>es_db = end', es_open = []\<rparr> \<and>
     \<not> acyclic {(ke_from r, ke_to r) | r. r \<in> set (live_edges end') \<and> ke_relation r = ''prerequisite''}"
proof -
  let ?R = "{(ke_from r, ke_to r) | r. r \<in> set (live_edges race_end) \<and> ke_relation r = ''prerequisite''}"
  have edge: "(a, b) \<in> ?R" if "has_prerequisite a b race_end" for a b
    using that by (auto simp: has_prerequisite_def list_ex_iff)
  have "(''a'', ''a'') \<in> ?R\<^sup>+"
    by (rule trancl_into_trancl [OF trancl_into_trancl [OF trancl_into_trancl [OF r_into_trancl]]])
      (rule edge [OF race_edges(1)] edge [OF race_edges(2)] edge [OF race_edges(3)] edge [OF race_edges(4)])+
  then have "\<not> acyclic ?R" by (auto simp: acyclic_def)
  moreover have "set (endpoint_keys (demo_body ''b'' ''c'' ''prerequisite'')) \<inter>
      set (endpoint_keys (demo_body ''d'' ''a'' ''prerequisite'')) = {}"
    using race_disjoint by (auto simp: list_all_iff)
  ultimately show ?thesis
    using race_reachable race_both_open race_both_commit race_passes by (auto split: sum.splits) blast
qed

end
