(* ===== verification/KnowledgeOperation.thy ===== *)
theory KnowledgeOperation
  imports KnowledgeEdgeFold
begin

text \<open>
  The knowledge operation carried by an accepting rate event: the strict decoder of
  \<open>src/src/core/projections/knowledge-operation.ts\<close>, and the payloads its two writers stamp
  (\<open>knowledge-create-operation.ts\<close>, \<open>knowledge-archive-operation.ts\<close> of
  \<open>src/src/capabilities/knowledge/server\<close>).

  A payload is a \<open>jsonb\<close> value, so no field of it is \<open>undefined\<close> and no object exotic. Versions are
  counters of an \<open>int4\<close> column: a version is the number its decimal text says. An error is its reason
  with the id of the event; the detail text for the log is left out.
\<close>

section \<open>Operations and reasons\<close>

datatype decode_reason =
    MalformedOperation
  | NotAcceptRate
  | UnknownVersion
  | UnknownKind
  | InvalidTargets
  | InvalidReference
  | MaterializedMismatch
  | EnvelopeMismatch
  | MissingFact
  | MismatchedFact

datatype op_error = UndecodableKnowledgeOperationError (oe_event: string) (oe_reason: decode_reason)

datatype target_kind = TKnowledge | TKnowledgeEdge

datatype op_kind = EffectCreate | EffectArchive

record KnowledgeOperationTarget =
  kt_kind :: target_kind
  kt_id :: string
  kt_effect :: op_kind
  kt_before_version :: "nat option"
  kt_after_version :: "nat option"
  kt_fact_event_id :: "string option"

datatype KnowledgeOperationV1 =
    OpCreate (op_proposal_event_id: string) (op_targets: "KnowledgeOperationTarget list")
  | OpArchive (op_retracts_accept_event_id: string) (op_correction_event_id: string)
      (op_targets: "KnowledgeOperationTarget list")

fun target_kind_text :: "target_kind \<Rightarrow> string" where
  "target_kind_text TKnowledge = ''knowledge''"
| "target_kind_text TKnowledgeEdge = ''knowledge_edge''"

fun op_kind_text :: "op_kind \<Rightarrow> string" where
  "op_kind_text EffectCreate = ''create''"
| "op_kind_text EffectArchive = ''archive''"

definition KNOWLEDGE_OPERATION_KEY :: string where
  "KNOWLEDGE_OPERATION_KEY = ''knowledge_operation''"

definition OPERATION_FIELDS :: "string list" where
  "OPERATION_FIELDS = [''version'', ''kind'', ''targets'', ''proposal_event_id'', ''retracts_accept_event_id'',
     ''correction_event_id'']"

definition TARGET_FIELDS :: "string list" where
  "TARGET_FIELDS = [''kind'', ''id'', ''effect'', ''before_version'', ''after_version'', ''fact_event_id'']"

section \<open>The decoder\<close>

definition js_keys :: "jsval \<Rightarrow> string list" where
  "js_keys v = (case v of JObj es \<Rightarrow> map fst es | _ \<Rightarrow> [])"

definition isRecord :: "jsval \<Rightarrow> bool" where
  "isRecord v = (case v of JObj _ \<Rightarrow> True | _ \<Rightarrow> False)"

text \<open>\<open>isVersion\<close>, with the number.\<close>

definition isVersion :: "jsval \<Rightarrow> nat option" where
  "isVersion v = (case v of
       JNegZero \<Rightarrow> Some 0
     | JNum t \<Rightarrow> if t = [] then None else digits_value 0 t
     | _ \<Rightarrow> None)"

text \<open>\<open>isId\<close> is \<open>js_string1\<close>: the non-empty strings.\<close>

definition createdTargetIds :: "KnowledgeOperationTarget list \<Rightarrow> target_kind \<Rightarrow> string list" where
  "createdTargetIds ts kind = map kt_id (filter (\<lambda>t. kt_kind t = kind \<and> kt_effect t = EffectCreate) ts)"

fun read_target_kind :: "jsval \<Rightarrow> target_kind option" where
  "read_target_kind (JStr s) =
     (if s = ''knowledge'' then Some TKnowledge else if s = ''knowledge_edge'' then Some TKnowledgeEdge else None)"
| "read_target_kind _ = None"

fun read_op_kind :: "jsval \<Rightarrow> op_kind option" where
  "read_op_kind (JStr s) =
     (if s = ''create'' then Some EffectCreate else if s = ''archive'' then Some EffectArchive else None)"
| "read_op_kind _ = None"

text \<open>
  \<open>Set.prototype.add\<close> returns the set itself, an object, and every object is truthy: the test
  \<open>!seen.add(..)\<close> is the negation of the first component.
\<close>

definition js_set_add :: "'a list \<Rightarrow> 'a \<Rightarrow> bool \<times> 'a list" where
  "js_set_add seen x = (True, if x \<in> set seen then seen else seen @ [x])"

text \<open>The version and reference rules of a target that has been read.\<close>

definition target_rules ::
  "op_kind \<Rightarrow> string option \<Rightarrow> KnowledgeOperationTarget \<Rightarrow> decode_reason option" where
  "target_rules opKind proposalEventId t =
     (let bv = kt_before_version t; av = kt_after_version t; fct = kt_fact_event_id t in
      if kt_kind t = TKnowledge \<and> kt_effect t = EffectArchive \<and>
         (bv = None \<or> av = None \<or> av \<noteq> map_option Suc bv)
      then Some InvalidTargets
      else if kt_kind t = TKnowledgeEdge \<and> (bv \<noteq> None \<or> av \<noteq> None) then Some InvalidTargets
      else if kt_kind t = TKnowledge \<and> kt_effect t = EffectCreate \<and>
         (bv \<noteq> None \<or> (av \<noteq> None \<and> av \<noteq> Some 0))
      then Some InvalidTargets
      else if kt_effect t = EffectArchive \<and> fct = None then Some InvalidReference
      else if opKind = EffectCreate \<and> fct \<noteq> None \<and> fct \<noteq> proposalEventId then Some InvalidReference
      else None)"

text \<open>One entry of \<open>targets\<close>, in the order of the checks.\<close>

definition decodeTarget ::
  "op_kind \<Rightarrow> string option \<Rightarrow> string list \<Rightarrow> jsval \<Rightarrow>
     decode_reason + KnowledgeOperationTarget \<times> string list" where
  "decodeTarget opKind proposalEventId seen entry =
     (if \<not> isRecord entry \<or> \<not> set (js_keys entry) \<subseteq> set TARGET_FIELDS then Inl InvalidTargets
      else case (read_target_kind (js_field ''kind'' entry), js_string1 (js_field ''id'' entry),
                 read_op_kind (js_field ''effect'' entry),
                 js_optional isVersion (js_field ''before_version'' entry),
                 js_optional isVersion (js_field ''after_version'' entry)) of
        (Some kind, Some i, Some effect, Some bv, Some av) \<Rightarrow>
          if effect \<noteq> opKind then Inl InvalidTargets
          else (case js_optional js_string1 (js_field ''fact_event_id'' entry) of
             None \<Rightarrow> Inl InvalidReference
           | Some fct \<Rightarrow>
               (let (added, seen') = js_set_add seen (target_kind_text kind @ '':'' @ i);
                    t = \<lparr>kt_kind = kind, kt_id = i, kt_effect = effect, kt_before_version = bv,
                         kt_after_version = av, kt_fact_event_id = fct\<rparr> in
                if \<not> added then Inl InvalidTargets
                else case target_rules opKind proposalEventId t of
                       Some r \<Rightarrow> Inl r | None \<Rightarrow> Inr (t, seen')))
      | _ \<Rightarrow> Inl InvalidTargets)"

fun decodeTargetEntries ::
  "op_kind \<Rightarrow> string option \<Rightarrow> string list \<Rightarrow> jsval list \<Rightarrow> decode_reason + KnowledgeOperationTarget list" where
  "decodeTargetEntries opKind proposalEventId seen [] = Inr []"
| "decodeTargetEntries opKind proposalEventId seen (e # es) =
     bind_result (decodeTarget opKind proposalEventId seen e) (\<lambda>(t, seen').
     bind_result (decodeTargetEntries opKind proposalEventId seen' es) (\<lambda>ts. Inr (t # ts)))"

definition decodeTargets ::
  "jsval \<Rightarrow> op_kind \<Rightarrow> string option \<Rightarrow> decode_reason + KnowledgeOperationTarget list" where
  "decodeTargets raw opKind proposalEventId =
     (case raw of
        JArr es \<Rightarrow> if es = [] then Inl InvalidTargets else decodeTargetEntries opKind proposalEventId [] es
      | _ \<Rightarrow> Inl InvalidTargets)"

text \<open>An id list of \<open>materialized_ids\<close>; absent is empty.\<close>

definition materialized_list :: "jsval \<Rightarrow> decode_reason + string list" where
  "materialized_list v =
     (case v of
        JUndefined \<Rightarrow> Inr []
      | JArr xs \<Rightarrow> if list_all (\<lambda>x. js_string1 x \<noteq> None) xs then Inr (map (the \<circ> js_string1) xs)
                   else Inl MaterializedMismatch
      | _ \<Rightarrow> Inl MaterializedMismatch)"

definition normaliseMaterializedIds :: "jsval \<Rightarrow> decode_reason + (target_kind \<Rightarrow> string list)" where
  "normaliseMaterializedIds payload =
     (let raw = js_field ''materialized_ids'' payload in
      if raw = JUndefined then Inr (\<lambda>_. [])
      else if \<not> isRecord raw \<or> \<not> set (js_keys raw) \<subseteq> {''knowledge'', ''knowledge_edge''}
      then Inl MaterializedMismatch
      else bind_result (materialized_list (js_field ''knowledge'' raw)) (\<lambda>ks.
           bind_result (materialized_list (js_field ''knowledge_edge'' raw)) (\<lambda>es.
           Inr (\<lambda>k. case k of TKnowledge \<Rightarrow> ks | TKnowledgeEdge \<Rightarrow> es))))"

definition materialized_agrees :: "string list \<Rightarrow> string list \<Rightarrow> bool" where
  "materialized_agrees declared legacy \<longleftrightarrow>
     length declared = length legacy \<and> length (js_uniq declared) = length declared \<and>
     list_all (\<lambda>i. i \<in> set legacy) declared"

definition decodeAndCheckTargets ::
  "jsval \<Rightarrow> op_kind \<Rightarrow> (target_kind \<Rightarrow> string list) \<Rightarrow> string option \<Rightarrow>
     decode_reason + KnowledgeOperationTarget list" where
  "decodeAndCheckTargets raw opKind materialized proposalId =
     bind_result (decodeTargets (js_field ''targets'' raw) opKind proposalId) (\<lambda>targets.
       if list_all (\<lambda>kind. materialized_agrees (createdTargetIds targets kind) (materialized kind))
            [TKnowledge, TKnowledgeEdge]
       then Inr targets else Inl MaterializedMismatch)"

definition decodeCreate ::
  "string \<Rightarrow> string option \<Rightarrow> jsval \<Rightarrow> (target_kind \<Rightarrow> string list) \<Rightarrow> decode_reason + KnowledgeOperationV1" where
  "decodeCreate subjectId causedBy raw materialized =
     (case js_string1 (js_field ''proposal_event_id'' raw) of
        None \<Rightarrow> Inl InvalidReference
      | Some p \<Rightarrow>
          if js_field ''retracts_accept_event_id'' raw \<noteq> JUndefined \<or>
             js_field ''correction_event_id'' raw \<noteq> JUndefined
          then Inl InvalidReference
          else bind_result (decodeAndCheckTargets raw EffectCreate materialized (Some p)) (\<lambda>targets.
            if causedBy \<noteq> Some p \<or> subjectId \<noteq> p then Inl EnvelopeMismatch
            else Inr (OpCreate p targets)))"

definition decodeArchive ::
  "string \<Rightarrow> string option \<Rightarrow> jsval \<Rightarrow> (target_kind \<Rightarrow> string list) \<Rightarrow> decode_reason + KnowledgeOperationV1" where
  "decodeArchive subjectId causedBy raw materialized =
     (case (js_string1 (js_field ''retracts_accept_event_id'' raw),
            js_string1 (js_field ''correction_event_id'' raw)) of
        (Some r, Some c) \<Rightarrow>
          if js_field ''proposal_event_id'' raw \<noteq> JUndefined then Inl InvalidReference
          else bind_result (decodeAndCheckTargets raw EffectArchive materialized None) (\<lambda>targets.
            if causedBy = None \<or> Some subjectId \<noteq> causedBy \<or>
               causedBy \<notin> kt_fact_event_id ` set (filter (\<lambda>t. kt_kind t = TKnowledge) targets)
            then Inl EnvelopeMismatch
            else Inr (OpArchive r c targets))
      | _ \<Rightarrow> Inl InvalidReference)"

definition decode_operation ::
  "string \<Rightarrow> string option \<Rightarrow> jsval \<Rightarrow> decode_reason + KnowledgeOperationV1 option" where
  "decode_operation subjectId causedBy payload =
     (if \<not> isRecord payload \<or> KNOWLEDGE_OPERATION_KEY \<notin> set (js_keys payload) then Inr None
      else if js_field ''rating'' payload \<noteq> JStr ''accept'' then Inl NotAcceptRate
      else let raw = js_field KNOWLEDGE_OPERATION_KEY payload in
        if \<not> isRecord raw \<or> \<not> set (js_keys raw) \<subseteq> set OPERATION_FIELDS then Inl MalformedOperation
        else if js_field ''version'' raw \<noteq> JNum ''1'' then Inl UnknownVersion
        else case read_op_kind (js_field ''kind'' raw) of
          None \<Rightarrow> Inl UnknownKind
        | Some opKind \<Rightarrow>
            bind_result (normaliseMaterializedIds payload) (\<lambda>materialized.
            bind_result
              (case opKind of
                 EffectCreate \<Rightarrow> decodeCreate subjectId causedBy raw materialized
               | EffectArchive \<Rightarrow> decodeArchive subjectId causedBy raw materialized)
              (\<lambda>op. Inr (Some op))))"

text \<open>\<open>None\<close> is \<open>'absent'\<close>.\<close>

definition decodeKnowledgeOperation ::
  "string \<Rightarrow> string \<Rightarrow> string option \<Rightarrow> jsval \<Rightarrow> op_error + KnowledgeOperationV1 option" where
  "decodeKnowledgeOperation eventId subjectId causedBy payload =
     (case decode_operation subjectId causedBy payload of
        Inl r \<Rightarrow> Inl (UndecodableKnowledgeOperationError eventId r) | Inr op \<Rightarrow> Inr op)"

section \<open>The writers\<close>

text \<open>The text of a counter.\<close>

fun nat_text :: "nat \<Rightarrow> string" where
  "nat_text n = (if n < 10 then [char_of (48 + n)] else nat_text (n div 10) @ [char_of (48 + n mod 10)])"

declare nat_text.simps [simp del]

text \<open>\<open>JSON\<close> drops the entries that are undefined.\<close>

definition present :: "string \<Rightarrow> jsval option \<Rightarrow> (string \<times> jsval) list" where
  "present k v = (case v of None \<Rightarrow> [] | Some x \<Rightarrow> [(k, x)])"

definition target_json :: "KnowledgeOperationTarget \<Rightarrow> jsval" where
  "target_json t = JObj
     ([(''kind'', JStr (target_kind_text (kt_kind t))), (''id'', JStr (kt_id t)),
       (''effect'', JStr (op_kind_text (kt_effect t)))] @
      present ''before_version'' (map_option (\<lambda>n. JNum (nat_text n)) (kt_before_version t)) @
      present ''after_version'' (map_option (\<lambda>n. JNum (nat_text n)) (kt_after_version t)) @
      present ''fact_event_id'' (map_option JStr (kt_fact_event_id t)))"

fun operation_json :: "KnowledgeOperationV1 \<Rightarrow> jsval" where
  "operation_json (OpCreate p ts) = JObj
     [(''version'', JNum ''1''), (''kind'', JStr ''create''), (''proposal_event_id'', JStr p),
      (''targets'', JArr (map target_json ts))]"
| "operation_json (OpArchive r c ts) = JObj
     [(''version'', JNum ''1''), (''kind'', JStr ''archive''), (''retracts_accept_event_id'', JStr r),
      (''correction_event_id'', JStr c), (''targets'', JArr (map target_json ts))]"

text \<open>The accepting rate of \<open>acceptKnowledgeCreate\<close>; \<open>writeRate\<close> adds the rating and the learner's note.\<close>

definition create_operation :: "string \<Rightarrow> string \<Rightarrow> KnowledgeOperationV1" where
  "create_operation proposalId newNodeId = OpCreate proposalId
     [\<lparr>kt_kind = TKnowledge, kt_id = newNodeId, kt_effect = EffectCreate, kt_before_version = None,
       kt_after_version = None, kt_fact_event_id = None\<rparr>]"

definition create_rate_payload :: "string option \<Rightarrow> string \<Rightarrow> string \<Rightarrow> jsval" where
  "create_rate_payload userNote proposalId newNodeId = JObj
     ([(''rating'', JStr ''accept'')] @
      present ''user_note'' (if userNote = Some [] then None else map_option JStr userNote) @
      [(''materialized_ids'', JObj [(''knowledge'', JArr [JStr newNodeId])]),
       (KNOWLEDGE_OPERATION_KEY, operation_json (create_operation proposalId newNodeId))])"

text \<open>The accepting rate of \<open>retractKnowledgeCreate\<close>: the node at its version, then the retired edges
  with the facts that archived them.\<close>

definition archive_operation ::
  "string \<Rightarrow> string \<Rightarrow> string \<Rightarrow> nat \<Rightarrow> string \<Rightarrow> (string \<times> string) list \<Rightarrow> KnowledgeOperationV1" where
  "archive_operation birthId correctionEventId nodeId version archiveEventId retiredEdges =
     OpArchive birthId correctionEventId
       (\<lparr>kt_kind = TKnowledge, kt_id = nodeId, kt_effect = EffectArchive, kt_before_version = Some version,
         kt_after_version = Some (version + 1), kt_fact_event_id = Some archiveEventId\<rparr> #
        map (\<lambda>(edge_id, event_id). \<lparr>kt_kind = TKnowledgeEdge, kt_id = edge_id, kt_effect = EffectArchive,
            kt_before_version = None, kt_after_version = None, kt_fact_event_id = Some event_id\<rparr>)
          retiredEdges)"

definition archive_rate_payload ::
  "string \<Rightarrow> string \<Rightarrow> string \<Rightarrow> nat \<Rightarrow> string \<Rightarrow> (string \<times> string) list \<Rightarrow> jsval" where
  "archive_rate_payload birthId correctionEventId nodeId version archiveEventId retiredEdges = JObj
     [(''rating'', JStr ''accept''),
      (KNOWLEDGE_OPERATION_KEY,
       operation_json (archive_operation birthId correctionEventId nodeId version archiveEventId retiredEdges))]"

end
