(* ===== verification/KnowledgeOperationFacts.thy ===== *)
theory KnowledgeOperationFacts
  imports KnowledgeOperation
begin

text \<open>
  What the decoder of knowledge operations accepts: exactly the well-formed operations, which it reads
  back from their JSON, and with them what the two writers stamp. One check of the code has no effect:
  an archive may name a target twice.
\<close>

section \<open>Counters\<close>

lemma digits_value_append:
  "digits_value acc (xs @ ys) = (case digits_value acc xs of None \<Rightarrow> None | Some n \<Rightarrow> digits_value n ys)"
  by (induction acc xs rule: digits_value.induct) auto

lemma digits_value_digit:
  assumes "d < 10"
  shows "digits_value acc [char_of (48 + d)] = Some (10 * acc + d)"
proof -
  have "(of_char (char_of (48 + d)) :: nat) = 48 + d"
    using assms by (simp add: of_char_of take_bit_eq_mod del: of_nat_add)
  then show ?thesis using assms by simp
qed

lemma nat_text_not_Nil [simp]: "nat_text n \<noteq> []"
  by (subst nat_text.simps) simp

lemma digits_value_nat_text [simp]: "digits_value 0 (nat_text n) = Some n"
proof (induction n rule: nat_text.induct)
  case (1 n)
  show ?case
  proof (cases "n < 10")
    case True
    then show ?thesis using digits_value_digit [of n 0] by (subst nat_text.simps) simp
  next
    case False
    have "digits_value 0 (nat_text n) = digits_value (n div 10) [char_of (48 + n mod 10)]"
      using 1 [OF False] False by (subst nat_text.simps) (simp add: digits_value_append)
    also have "\<dots> = Some n"
      by (subst digits_value_digit) auto
    finally show ?thesis .
  qed
qed

lemma isVersion_nat_text [simp]: "isVersion (JNum (nat_text n)) = Some n"
  by (simp add: isVersion_def)

section \<open>Well-formed operations\<close>

definition target_ok :: "op_kind \<Rightarrow> string option \<Rightarrow> KnowledgeOperationTarget \<Rightarrow> bool" where
  "target_ok opKind proposalId t \<longleftrightarrow>
     kt_id t \<noteq> [] \<and> kt_effect t = opKind \<and> kt_fact_event_id t \<noteq> Some [] \<and>
     (case (kt_kind t, opKind) of
        (TKnowledgeEdge, _) \<Rightarrow> kt_before_version t = None \<and> kt_after_version t = None
      | (TKnowledge, EffectCreate) \<Rightarrow> kt_before_version t = None \<and> kt_after_version t \<in> {None, Some 0}
      | (TKnowledge, EffectArchive) \<Rightarrow>
          kt_before_version t \<noteq> None \<and> kt_after_version t = map_option Suc (kt_before_version t)) \<and>
     (case opKind of
        EffectCreate \<Rightarrow> kt_fact_event_id t \<in> {None, proposalId}
      | EffectArchive \<Rightarrow> kt_fact_event_id t \<noteq> None)"

text \<open>An operation that fits the envelope of the rate carrying it: its subject and its cause.\<close>

fun operation_ok :: "string \<Rightarrow> string option \<Rightarrow> KnowledgeOperationV1 \<Rightarrow> bool" where
  "operation_ok subjectId causedBy (OpCreate p ts) \<longleftrightarrow>
     p \<noteq> [] \<and> subjectId = p \<and> causedBy = Some p \<and> ts \<noteq> [] \<and>
     (\<forall>t\<in>set ts. target_ok EffectCreate (Some p) t) \<and>
     distinct (createdTargetIds ts TKnowledge) \<and> distinct (createdTargetIds ts TKnowledgeEdge)"
| "operation_ok subjectId causedBy (OpArchive r c ts) \<longleftrightarrow>
     r \<noteq> [] \<and> c \<noteq> [] \<and> causedBy = Some subjectId \<and>
     (\<forall>t\<in>set ts. target_ok EffectArchive None t) \<and>
     (\<exists>t\<in>set ts. kt_kind t = TKnowledge \<and> kt_fact_event_id t = Some subjectId)"

text \<open>An accepting rate that carries an operation, with the ids it mints.\<close>

definition operation_payload :: "KnowledgeOperationV1 \<Rightarrow> jsval" where
  "operation_payload op = JObj
     [(''rating'', JStr ''accept''),
      (''materialized_ids'', JObj
        [(''knowledge'', JArr (map JStr (createdTargetIds (op_targets op) TKnowledge))),
         (''knowledge_edge'', JArr (map JStr (createdTargetIds (op_targets op) TKnowledgeEdge)))]),
      (KNOWLEDGE_OPERATION_KEY, operation_json op)]"

section \<open>Targets\<close>

lemma js_string1_JStr [simp]: "js_string1 (JStr s) = (if s = [] then None else Some s)"
  by (simp add: js_string1_def)

lemma js_string1_Some: "js_string1 v = Some s \<longleftrightarrow> v = JStr s \<and> s \<noteq> []"
  by (cases v) (auto simp: js_string1_def)

lemma read_target_kind_text [simp]: "read_target_kind (JStr (target_kind_text k)) = Some k"
  by (cases k) auto

lemma read_op_kind_text [simp]: "read_op_kind (JStr (op_kind_text k)) = Some k"
  by (cases k) auto

lemma read_op_kind_literals [simp]:
  "read_op_kind (JStr ''create'') = Some EffectCreate"
  "read_op_kind (JStr ''archive'') = Some EffectArchive"
  by simp_all

declare read_target_kind.simps [simp del] read_op_kind.simps [simp del]

lemma target_json_fields:
  "js_field ''kind'' (target_json t) = JStr (target_kind_text (kt_kind t))"
  "js_field ''id'' (target_json t) = JStr (kt_id t)"
  "js_field ''effect'' (target_json t) = JStr (op_kind_text (kt_effect t))"
  "js_field ''before_version'' (target_json t) =
     (case kt_before_version t of None \<Rightarrow> JUndefined | Some n \<Rightarrow> JNum (nat_text n))"
  "js_field ''after_version'' (target_json t) =
     (case kt_after_version t of None \<Rightarrow> JUndefined | Some n \<Rightarrow> JNum (nat_text n))"
  "js_field ''fact_event_id'' (target_json t) =
     (case kt_fact_event_id t of None \<Rightarrow> JUndefined | Some s \<Rightarrow> JStr s)"
  by (simp_all add: js_field_def target_json_def present_def map_add_def split: option.splits)

lemma target_json_record: "isRecord (target_json t)" "set (js_keys (target_json t)) \<subseteq> set TARGET_FIELDS"
  by (auto simp: isRecord_def js_keys_def target_json_def present_def TARGET_FIELDS_def split: option.splits)

lemma target_json_optional:
  "js_optional isVersion (js_field ''before_version'' (target_json t)) = Some (kt_before_version t)"
  "js_optional isVersion (js_field ''after_version'' (target_json t)) = Some (kt_after_version t)"
  "js_optional js_string1 (js_field ''fact_event_id'' (target_json t)) =
     (if kt_fact_event_id t = Some [] then None else Some (kt_fact_event_id t))"
  by (auto simp: target_json_fields js_optional_def split: option.splits)

lemma target_rules_ok:
  assumes "kt_id t \<noteq> []" "kt_effect t = opKind" "kt_fact_event_id t \<noteq> Some []"
  shows "target_rules opKind p t = None \<longleftrightarrow> target_ok opKind p t"
  using assms
  by (cases "kt_kind t"; cases opKind) (auto simp: target_rules_def target_ok_def Let_def)

lemma decodeTarget_read:
  assumes "isRecord e" "set (js_keys e) \<subseteq> set TARGET_FIELDS"
    and "read_target_kind (js_field ''kind'' e) = Some (kt_kind t)"
    and "js_string1 (js_field ''id'' e) = Some (kt_id t)"
    and "read_op_kind (js_field ''effect'' e) = Some (kt_effect t)"
    and "js_optional isVersion (js_field ''before_version'' e) = Some (kt_before_version t)"
    and "js_optional isVersion (js_field ''after_version'' e) = Some (kt_after_version t)"
    and "js_optional js_string1 (js_field ''fact_event_id'' e) = Some (kt_fact_event_id t)"
    and "kt_effect t = opKind" and "target_rules opKind p t = None"
  shows "decodeTarget opKind p seen e =
    Inr (t, snd (js_set_add seen (target_kind_text (kt_kind t) @ '':'' @ kt_id t)))"
  using assms by (cases t) (simp add: decodeTarget_def js_set_add_def Let_def)

lemma decodeTarget_json:
  assumes "target_ok opKind p t"
  shows "\<exists>seen'. decodeTarget opKind p seen (target_json t) = Inr (t, seen')"
proof -
  have basic: "kt_id t \<noteq> []" "kt_effect t = opKind" "kt_fact_event_id t \<noteq> Some []"
    using assms by (simp_all add: target_ok_def)
  then have "target_rules opKind p t = None"
    using assms by (simp add: target_rules_ok)
  then show ?thesis
    using basic decodeTarget_read [of "target_json t" t opKind p seen]
    by (simp add: target_json_record target_json_optional target_json_fields(1-3))
qed

lemma js_optional_string1_Nil: "js_optional js_string1 v \<noteq> Some (Some [])"
  by (cases v) (simp_all add: js_optional_def js_string1_def)

lemma decodeTarget_ok:
  assumes "decodeTarget opKind p seen e = Inr (t, seen')"
  shows "target_ok opKind p t"
proof -
  have "kt_id t \<noteq> [] \<and> kt_effect t = opKind \<and> kt_fact_event_id t \<noteq> Some [] \<and>
      target_rules opKind p t = None"
    using assms js_optional_string1_Nil [of "js_field ''fact_event_id'' e"]
    unfolding decodeTarget_def js_set_add_def
    by (auto simp: js_string1_Some Let_def split: if_splits option.splits)
  then show ?thesis using target_rules_ok by blast
qed

lemma decodeTargetEntries_json:
  assumes "\<forall>t\<in>set ts. target_ok opKind p t"
  shows "decodeTargetEntries opKind p seen (map target_json ts) = Inr ts"
  using assms
proof (induction ts arbitrary: seen)
  case (Cons t ts)
  then obtain seen' where "decodeTarget opKind p seen (target_json t) = Inr (t, seen')"
    using decodeTarget_json by fastforce
  then show ?case using Cons by simp
qed simp

lemma decodeTargetEntries_ok:
  assumes "decodeTargetEntries opKind p seen es = Inr ts"
  shows "(\<forall>t\<in>set ts. target_ok opKind p t) \<and> length ts = length es"
  using assms
  by (induction es arbitrary: seen ts) (auto simp: bind_result_Inr_iff dest: decodeTarget_ok)

lemma decodeTargets_json:
  assumes "ts \<noteq> []" "\<forall>t\<in>set ts. target_ok opKind p t"
  shows "decodeTargets (JArr (map target_json ts)) opKind p = Inr ts"
  using assms decodeTargetEntries_json by (simp add: decodeTargets_def)

lemma decodeTargets_ok:
  assumes "decodeTargets raw opKind p = Inr ts"
  shows "ts \<noteq> [] \<and> (\<forall>t\<in>set ts. target_ok opKind p t)"
  using assms by (auto simp: decodeTargets_def split: jsval.splits if_splits dest!: decodeTargetEntries_ok)

lemma createdTargetIds_archive:
  assumes "\<forall>t\<in>set ts. target_ok EffectArchive p t"
  shows "createdTargetIds ts k = []"
  using assms by (auto simp: createdTargetIds_def target_ok_def filter_empty_conv)

lemma createdTargetIds_ids:
  assumes "\<forall>t\<in>set ts. target_ok opKind p t"
  shows "[] \<notin> set (createdTargetIds ts k)"
  using assms by (auto simp: createdTargetIds_def target_ok_def)

section \<open>Operations\<close>

lemma normaliseMaterializedIds_payload:
  assumes "[] \<notin> set ks"
  shows "materialized_list (JArr (map JStr ks)) = Inr ks"
  using assms by (auto simp: materialized_list_def list_all_iff o_def intro!: map_idI)

lemma operation_payload_fields:
  "isRecord (operation_payload op)" "KNOWLEDGE_OPERATION_KEY \<in> set (js_keys (operation_payload op))"
  "js_field ''rating'' (operation_payload op) = JStr ''accept''"
  "js_field KNOWLEDGE_OPERATION_KEY (operation_payload op) = operation_json op"
  by (simp_all add: operation_payload_def isRecord_def js_keys_def js_field_def KNOWLEDGE_OPERATION_KEY_def)

lemma operation_json_fields:
  "isRecord (operation_json op)" "set (js_keys (operation_json op)) \<subseteq> set OPERATION_FIELDS"
  "js_field ''version'' (operation_json op) = JNum ''1''"
  "js_field ''targets'' (operation_json op) = JArr (map target_json (op_targets op))"
  by (cases op; simp add: isRecord_def js_keys_def js_field_def OPERATION_FIELDS_def)+

declare operation_json.simps [simp del]

lemma operation_json_create_fields:
  "js_field ''kind'' (operation_json (OpCreate p ts)) = JStr ''create''"
  "js_field ''proposal_event_id'' (operation_json (OpCreate p ts)) = JStr p"
  "js_field ''retracts_accept_event_id'' (operation_json (OpCreate p ts)) = JUndefined"
  "js_field ''correction_event_id'' (operation_json (OpCreate p ts)) = JUndefined"
  by (simp_all add: operation_json.simps js_field_def)

lemma operation_json_archive_fields:
  "js_field ''kind'' (operation_json (OpArchive r c ts)) = JStr ''archive''"
  "js_field ''proposal_event_id'' (operation_json (OpArchive r c ts)) = JUndefined"
  "js_field ''retracts_accept_event_id'' (operation_json (OpArchive r c ts)) = JStr r"
  "js_field ''correction_event_id'' (operation_json (OpArchive r c ts)) = JStr c"
  by (simp_all add: operation_json.simps js_field_def)

text \<open>The ids a payload mints agree with the declared ones, so declared ids are distinct.\<close>

lemma js_uniq_length: "length (js_uniq xs) = length xs \<longleftrightarrow> distinct xs"
  by (metis card_distinct distinct_card distinct_js_uniq js_uniq_id set_js_uniq)

lemma materialized_agrees_self: "materialized_agrees xs xs \<longleftrightarrow> distinct xs"
  by (simp add: materialized_agrees_def js_uniq_length list_all_iff)

lemma materialized_agrees_distinct: "materialized_agrees xs ys \<Longrightarrow> distinct xs"
  by (simp add: materialized_agrees_def js_uniq_length)

lemma all_target_kind: "(\<forall>k. P k) \<longleftrightarrow> P TKnowledge \<and> P TKnowledgeEdge"
  by (metis target_kind.exhaust)

lemma decodeAndCheckTargets_Inr:
  "decodeAndCheckTargets raw opKind m p = Inr ts \<longleftrightarrow>
     decodeTargets (js_field ''targets'' raw) opKind p = Inr ts \<and>
     (\<forall>k. materialized_agrees (createdTargetIds ts k) (m k))"
  by (auto simp: decodeAndCheckTargets_def bind_result_Inr_iff all_target_kind)

text \<open>A rate that carries the key either decodes or fails; without the key it carries no operation.\<close>

lemma decode_operation_Some:
  "decode_operation s c payload = Inr (Some op) \<longleftrightarrow>
     isRecord payload \<and> KNOWLEDGE_OPERATION_KEY \<in> set (js_keys payload) \<and>
     js_field ''rating'' payload = JStr ''accept'' \<and>
     (let raw = js_field KNOWLEDGE_OPERATION_KEY payload in
      isRecord raw \<and> set (js_keys raw) \<subseteq> set OPERATION_FIELDS \<and> js_field ''version'' raw = JNum ''1'' \<and>
      (\<exists>m. normaliseMaterializedIds payload = Inr m \<and>
        (case read_op_kind (js_field ''kind'' raw) of
           Some EffectCreate \<Rightarrow> decodeCreate s c raw m = Inr op
         | Some EffectArchive \<Rightarrow> decodeArchive s c raw m = Inr op
         | None \<Rightarrow> False)))"
  by (auto simp: decode_operation_def Let_def bind_result_Inr_iff split: option.splits op_kind.splits)

lemma decode_operation_None:
  "decode_operation s c payload = Inr None \<longleftrightarrow>
     \<not> (isRecord payload \<and> KNOWLEDGE_OPERATION_KEY \<in> set (js_keys payload))"
  by (auto simp: decode_operation_def Let_def bind_result_Inr_iff split: option.splits op_kind.splits)

lemma decodeCreate_Inr:
  "decodeCreate s c raw m = Inr op \<longleftrightarrow>
     (\<exists>p ts. op = OpCreate p ts \<and> js_field ''proposal_event_id'' raw = JStr p \<and> p \<noteq> [] \<and>
       js_field ''retracts_accept_event_id'' raw = JUndefined \<and> js_field ''correction_event_id'' raw = JUndefined \<and>
       decodeAndCheckTargets raw EffectCreate m (Some p) = Inr ts \<and> c = Some p \<and> s = p)"
  by (auto simp: decodeCreate_def bind_result_Inr_iff js_string1_Some split: option.splits if_splits)

lemma decodeArchive_Inr:
  "decodeArchive s c raw m = Inr op \<longleftrightarrow>
     (\<exists>r q ts. op = OpArchive r q ts \<and> js_field ''retracts_accept_event_id'' raw = JStr r \<and> r \<noteq> [] \<and>
       js_field ''correction_event_id'' raw = JStr q \<and> q \<noteq> [] \<and> js_field ''proposal_event_id'' raw = JUndefined \<and>
       decodeAndCheckTargets raw EffectArchive m None = Inr ts \<and> c = Some s \<and>
       (\<exists>t\<in>set ts. kt_kind t = TKnowledge \<and> kt_fact_event_id t = Some s))"
  by (auto simp: decodeArchive_def bind_result_Inr_iff js_string1_Some image_iff split: option.splits if_splits)
    force+

lemma decode_operation_branch:
  assumes "decode_operation s c payload = Inr (Some op)"
  shows "\<exists>m. decodeCreate s c (js_field KNOWLEDGE_OPERATION_KEY payload) m = Inr op \<or>
    decodeArchive s c (js_field KNOWLEDGE_OPERATION_KEY payload) m = Inr op"
proof -
  let ?raw = "js_field KNOWLEDGE_OPERATION_KEY payload"
  obtain m where m: "case read_op_kind (js_field ''kind'' ?raw) of
       Some EffectCreate \<Rightarrow> decodeCreate s c ?raw m = Inr op
     | Some EffectArchive \<Rightarrow> decodeArchive s c ?raw m = Inr op
     | None \<Rightarrow> False"
    using assms unfolding decode_operation_Some Let_def by blast
  then obtain k where "read_op_kind (js_field ''kind'' ?raw) = Some k"
    by (cases "read_op_kind (js_field ''kind'' ?raw)") auto
  with m show ?thesis
    by (cases k) auto
qed

lemma decode_operation_ok:
  assumes "decode_operation s c payload = Inr (Some op)"
  shows "operation_ok s c op"
  using decode_operation_branch [OF assms]
  by (auto simp: decodeCreate_Inr decodeArchive_Inr decodeAndCheckTargets_Inr all_target_kind
      dest: materialized_agrees_distinct dest!: decodeTargets_ok)

lemma normaliseMaterializedIds_operation:
  assumes "operation_ok s c op"
  shows "\<exists>m. normaliseMaterializedIds (operation_payload op) = Inr m \<and>
    (\<forall>k. m k = createdTargetIds (op_targets op) k)"
proof -
  have ids: "[] \<notin> set (createdTargetIds (op_targets op) k)" for k
    using assms by (cases op) (auto dest: createdTargetIds_ids)
  have "normaliseMaterializedIds (operation_payload op) =
      Inr (\<lambda>k. case k of TKnowledge \<Rightarrow> createdTargetIds (op_targets op) TKnowledge
                       | TKnowledgeEdge \<Rightarrow> createdTargetIds (op_targets op) TKnowledgeEdge)"
    by (simp add: normaliseMaterializedIds_def operation_payload_def js_field_def isRecord_def js_keys_def
        KNOWLEDGE_OPERATION_KEY_def normaliseMaterializedIds_payload ids)
  then show ?thesis by (intro exI conjI) (auto split: target_kind.splits)
qed

lemma decode_operation_payload:
  assumes "operation_ok s c op"
  shows "decode_operation s c (operation_payload op) = Inr (Some op)"
proof -
  obtain m where m: "normaliseMaterializedIds (operation_payload op) = Inr m"
      "\<And>k. m k = createdTargetIds (op_targets op) k"
    using normaliseMaterializedIds_operation [OF assms] by blast
  show ?thesis
  proof (cases op)
    case (OpCreate p ts)
    then show ?thesis
      using assms m
      by (auto simp: decode_operation_Some operation_payload_fields operation_json_fields Let_def
          operation_json_create_fields decodeCreate_Inr decodeAndCheckTargets_Inr decodeTargets_json
          materialized_agrees_self all_target_kind split: op_kind.splits)
  next
    case (OpArchive r q ts)
    then have "ts \<noteq> []" using assms by auto
    then show ?thesis
      using assms m OpArchive createdTargetIds_archive [of ts None]
      by (auto simp: decode_operation_Some operation_payload_fields operation_json_fields Let_def
          operation_json_archive_fields decodeArchive_Inr decodeAndCheckTargets_Inr decodeTargets_json
          materialized_agrees_self split: op_kind.splits)
  qed
qed

section \<open>The writers' payloads\<close>

lemma create_operation_ok:
  "operation_ok proposalId (Some proposalId) (create_operation proposalId newNodeId) \<longleftrightarrow>
     proposalId \<noteq> [] \<and> newNodeId \<noteq> []"
  by (auto simp: create_operation_def target_ok_def createdTargetIds_def)

lemma archive_operation_ok:
  "operation_ok archiveEventId (Some archiveEventId)
     (archive_operation birthId correctionEventId nodeId version archiveEventId retiredEdges) \<longleftrightarrow>
     birthId \<noteq> [] \<and> correctionEventId \<noteq> [] \<and> nodeId \<noteq> [] \<and> archiveEventId \<noteq> [] \<and>
     (\<forall>(e, f)\<in>set retiredEdges. e \<noteq> [] \<and> f \<noteq> [])"
  by (auto simp: archive_operation_def target_ok_def)

text \<open>A payload with the fields an operation's rate needs decodes as the canonical payload does.\<close>

lemma decode_operation_same_fields:
  assumes "isRecord payload" "KNOWLEDGE_OPERATION_KEY \<in> set (js_keys payload)"
    and "js_field ''rating'' payload = JStr ''accept''"
    and "js_field KNOWLEDGE_OPERATION_KEY payload = operation_json op"
    and "normaliseMaterializedIds payload = Inr m"
    and "\<And>k. m k = createdTargetIds (op_targets op) k"
    and "operation_ok s c op"
  shows "decode_operation s c payload = Inr (Some op)"
proof -
  obtain m' where m': "normaliseMaterializedIds (operation_payload op) = Inr m'"
      "\<And>k. m' k = createdTargetIds (op_targets op) k"
    using normaliseMaterializedIds_operation [OF assms(7)] by blast
  then have "m' = m" using assms(6) by auto
  moreover have "decode_operation s c (operation_payload op) = Inr (Some op)"
    by (rule decode_operation_payload [OF assms(7)])
  ultimately show ?thesis
    using assms(1-5) m'(1) by (simp add: decode_operation_Some operation_payload_fields Let_def)
qed

lemma decode_create_rate_payload:
  assumes "proposalId \<noteq> []" "newNodeId \<noteq> []"
  shows "decode_operation proposalId (Some proposalId) (create_rate_payload note proposalId newNodeId) =
    Inr (Some (create_operation proposalId newNodeId))"
proof (rule decode_operation_same_fields)
  let ?p = "create_rate_payload note proposalId newNodeId"
  show "normaliseMaterializedIds ?p = Inr (\<lambda>k. case k of TKnowledge \<Rightarrow> [newNodeId] | TKnowledgeEdge \<Rightarrow> [])"
    using assms
    by (auto simp: normaliseMaterializedIds_def create_rate_payload_def js_field_def present_def isRecord_def
        js_keys_def materialized_list_def KNOWLEDGE_OPERATION_KEY_def split: option.splits)
  show "(case k of TKnowledge \<Rightarrow> [newNodeId] | TKnowledgeEdge \<Rightarrow> []) =
      createdTargetIds (op_targets (create_operation proposalId newNodeId)) k" for k
    by (cases k) (simp_all add: createdTargetIds_def create_operation_def)
qed (use assms in \<open>auto simp: create_operation_ok create_rate_payload_def js_field_def present_def isRecord_def
    js_keys_def KNOWLEDGE_OPERATION_KEY_def split: option.splits\<close>)

lemma decode_archive_rate_payload:
  assumes "birthId \<noteq> []" "correctionEventId \<noteq> []" "nodeId \<noteq> []" "archiveEventId \<noteq> []"
    and "\<forall>(e, f)\<in>set retiredEdges. e \<noteq> [] \<and> f \<noteq> []"
  shows "decode_operation archiveEventId (Some archiveEventId)
      (archive_rate_payload birthId correctionEventId nodeId version archiveEventId retiredEdges) =
    Inr (Some (archive_operation birthId correctionEventId nodeId version archiveEventId retiredEdges))"
proof (rule decode_operation_same_fields)
  let ?op = "archive_operation birthId correctionEventId nodeId version archiveEventId retiredEdges"
  show "normaliseMaterializedIds
      (archive_rate_payload birthId correctionEventId nodeId version archiveEventId retiredEdges) = Inr (\<lambda>_. [])"
    by (simp add: normaliseMaterializedIds_def archive_rate_payload_def js_field_def KNOWLEDGE_OPERATION_KEY_def)
  show ok: "operation_ok archiveEventId (Some archiveEventId) ?op"
    using assms by (simp add: archive_operation_ok)
  show "[] = createdTargetIds (op_targets ?op) k" for k
    by (simp add: createdTargetIds_def archive_operation_def filter_empty_conv split_def)
qed (simp_all add: archive_rate_payload_def js_field_def isRecord_def js_keys_def KNOWLEDGE_OPERATION_KEY_def)

section \<open>Duplicate targets\<close>

text \<open>
  The decoder means to refuse a second target of the same kind and id. The test has no effect: an
  archive that names one edge twice, with two facts, decodes.
\<close>

theorem duplicate_archive_targets_decode:
  "decode_operation ''a'' (Some ''a'')
     (archive_rate_payload ''r'' ''c'' ''n'' 0 ''a'' [(''e'', ''f''), (''e'', ''g'')]) =
   Inr (Some (archive_operation ''r'' ''c'' ''n'' 0 ''a'' [(''e'', ''f''), (''e'', ''g'')]))"
  by (rule decode_archive_rate_payload) simp_all

end
