(* ===== verification/KnowledgeNodeFold.thy ===== *)
theory KnowledgeNodeFold
  imports KnowledgeOperationFacts
begin

text \<open>
  The projection of one knowledge node from its events: \<open>src/src/core/projections/knowledge.ts\<close>, with
  the schemas it parses (\<open>genesis.ts\<close>, \<open>knowledge-node-events.ts\<close>, \<open>known.ts\<close> of
  \<open>src/src/core/schema/event\<close>, and the mutation union of \<open>src/src/core/schema/proposal.ts\<close>).

  A schema is a function to an optional value, \<open>None\<close> being a failed parse; what a branch does not read
  of a parsed value is only checked. Warnings are left out, as are the columns no event row of a fold
  carries (\<open>task_run_id\<close>, \<open>cost_micro_usd\<close>), which every schema allows to be absent.
\<close>

section \<open>Rows\<close>

datatype approval_status = StatusPending | StatusApproved | StatusRejected

datatype node_role = RoleKc | RoleGoal | RoleContainer

record KnowledgeRow =
  nr_id :: string
  nr_name :: string
  nr_domain :: "string option"
  nr_parent_id :: "string option"
  nr_merged_from :: "string list"
  nr_archived_at :: "int option"
  nr_proposed_by_ai :: bool
  nr_approval_status :: approval_status
  nr_role :: node_role
  nr_created_at :: int
  nr_updated_at :: int
  nr_version :: int

section \<open>Schemas\<close>

definition zod_int :: "jsval \<Rightarrow> int option" where
  "zod_int v = (if \<not> safe_int v then None else
     case v of
       JNum t \<Rightarrow> Some (case t of CHR ''-'' # u \<Rightarrow> - int (the (digits_value 0 u)) | _ \<Rightarrow> int (the (digits_value 0 t)))
     | _ \<Rightarrow> Some 0)"

definition zod_nonneg :: "jsval \<Rightarrow> int option" where
  "zod_nonneg v = (case zod_int v of Some n \<Rightarrow> if 0 \<le> n then Some n else None | None \<Rightarrow> None)"

definition js_bool :: "jsval \<Rightarrow> bool option" where
  "js_bool v = (case v of JBool b \<Rightarrow> Some b | _ \<Rightarrow> None)"

definition js_array :: "(jsval \<Rightarrow> 'a option) \<Rightarrow> jsval \<Rightarrow> 'a list option" where
  "js_array p v = (case v of
       JArr xs \<Rightarrow> if list_all (\<lambda>x. p x \<noteq> None) xs then Some (map (the \<circ> p) xs) else None
     | _ \<Rightarrow> None)"

definition approval_status_parse :: "jsval \<Rightarrow> approval_status option" where
  "approval_status_parse v = map_of [(JStr ''pending'', StatusPending), (JStr ''approved'', StatusApproved),
     (JStr ''rejected'', StatusRejected)] v"

definition node_role_parse :: "jsval \<Rightarrow> node_role option" where
  "node_role_parse v = map_of [(JStr ''kc'', RoleKc), (JStr ''goal'', RoleGoal), (JStr ''container'', RoleContainer)] v"

text \<open>The row of a genesis payload; the fold defaults an absent role to \<open>kc\<close>.\<close>

definition KnowledgeRowSnapshot_parse :: "(jsval \<Rightarrow> int option) \<Rightarrow> jsval \<Rightarrow> KnowledgeRow option" where
  "KnowledgeRowSnapshot_parse js_date v =
     (case (js_object v, js_string1 (js_field ''id'' v), js_string (js_field ''name'' v),
            js_nullable js_string (js_field ''domain'' v), js_nullable js_string (js_field ''parent_id'' v),
            js_array js_string (js_field ''merged_from'' v), js_nullable js_date (js_field ''archived_at'' v)) of
        (Some _, Some i, Some n, Some d, Some p, Some m, Some arch) \<Rightarrow>
          (case (js_bool (js_field ''proposed_by_ai'' v), approval_status_parse (js_field ''approval_status'' v),
                 js_optional node_role_parse (js_field ''role'' v), js_date (js_field ''created_at'' v),
                 js_date (js_field ''updated_at'' v), zod_int (js_field ''version'' v)) of
             (Some ai, Some st, Some r, Some ca, Some ua, Some ver) \<Rightarrow>
               Some \<lparr>nr_id = i, nr_name = n, nr_domain = d, nr_parent_id = p, nr_merged_from = m,
                     nr_archived_at = arch, nr_proposed_by_ai = ai, nr_approval_status = st,
                     nr_role = (case r of None \<Rightarrow> RoleKc | Some x \<Rightarrow> x), nr_created_at = ca,
                     nr_updated_at = ua, nr_version = ver\<rparr>
           | _ \<Rightarrow> None)
      | _ \<Rightarrow> None)"

text \<open>
  A genesis event of a node, parsed to its row. The union of row shapes tries the node schema first; no
  later schema of the union keeps all columns a node needs.
\<close>

definition GenesisExperimental_node :: "(jsval \<Rightarrow> int option) \<Rightarrow> FoldEvent \<Rightarrow> KnowledgeRow option" where
  "GenesisExperimental_node js_date ev =
     (if fe_actor_kind ev = ''system'' \<and> fe_actor_ref ev \<noteq> [] \<and> fe_subject_kind ev = ''knowledge'' \<and>
         fe_subject_id ev \<noteq> [] \<and> fe_outcome ev \<in> {None, Some ''success''}
      then (case KnowledgeRowSnapshot_parse js_date (js_field ''row'' (fe_payload ev)) of
              Some r \<Rightarrow> if nr_id r = fe_subject_id ev then Some r else None
            | None \<Rightarrow> None)
      else None)"

text \<open>\<open>next_version === previous_version + 1\<close> on two counters; the previous one.\<close>

definition version_step :: "jsval \<Rightarrow> int option" where
  "version_step p =
     (case (zod_nonneg (js_field ''previous_version'' p), zod_nonneg (js_field ''next_version'' p)) of
        (Some a, Some b) \<Rightarrow> if 0 < b \<and> b = a + 1 then Some a else None
      | _ \<Rightarrow> None)"

definition root_id :: "string \<Rightarrow> string" where
  "root_id subject = ''seed:'' @ subject @ '':root''"

text \<open>The next name and the previous version.\<close>

definition SubjectRootNameUpdate_parse :: "FoldEvent \<Rightarrow> (string \<times> int) option" where
  "SubjectRootNameUpdate_parse ev =
     (let p = fe_payload ev in
      if fe_actor_kind ev = ''user'' \<and> fe_actor_ref ev = ''owner'' \<and> fe_outcome ev = Some ''success'' \<and>
         isRecord p \<and> set (js_keys p) \<subseteq> {''control_action'', ''subject_id'', ''previous_name'', ''next_name'',
           ''previous_version'', ''next_version''} \<and>
         js_field ''control_action'' p \<in> {JStr ''rename'', JStr ''reset''} \<and>
         js_string (js_field ''previous_name'' p) \<noteq> None \<and> fe_subject_id ev \<noteq> []
      then (case (js_string1 (js_field ''subject_id'' p), js_string1 (js_field ''next_name'' p), version_step p) of
              (Some s, Some n, Some v) \<Rightarrow> if fe_subject_id ev = root_id s then Some (n, v) else None
            | _ \<Rightarrow> None)
      else None)"

definition system_repair :: "FoldEvent \<Rightarrow> bool" where
  "system_repair ev \<longleftrightarrow> fe_actor_kind ev = ''system'' \<and> fe_actor_ref ev \<noteq> [] \<and> fe_subject_id ev \<noteq> [] \<and>
     fe_outcome ev = Some ''success'' \<and> isRecord (fe_payload ev) \<and>
     js_string1 (js_field ''reason'' (fe_payload ev)) \<noteq> None"

definition KnowledgeRoleUpdate_parse :: "FoldEvent \<Rightarrow> (node_role \<times> int) option" where
  "KnowledgeRoleUpdate_parse ev =
     (let p = fe_payload ev in
      if system_repair ev \<and> set (js_keys p) \<subseteq> {''role'', ''previous_role'', ''reason'', ''previous_version'',
           ''next_version''} \<and> node_role_parse (js_field ''previous_role'' p) \<noteq> None
      then (case (node_role_parse (js_field ''role'' p), version_step p) of
              (Some r, Some v) \<Rightarrow> Some (r, v) | _ \<Rightarrow> None)
      else None)"

definition KnowledgeApprovalUpdate_parse :: "FoldEvent \<Rightarrow> (approval_status \<times> int) option" where
  "KnowledgeApprovalUpdate_parse ev =
     (let p = fe_payload ev in
      if system_repair ev \<and> set (js_keys p) \<subseteq> {''approval_status'', ''previous_approval_status'', ''reason'',
           ''previous_version'', ''next_version''} \<and>
         approval_status_parse (js_field ''previous_approval_status'' p) \<noteq> None
      then (case (approval_status_parse (js_field ''approval_status'' p), version_step p) of
              (Some s, Some v) \<Rightarrow> Some (s, v) | _ \<Rightarrow> None)
      else None)"

text \<open>The node and the expected version.\<close>

definition KnowledgeArchivePayload_parse :: "jsval \<Rightarrow> (string \<times> int option) option" where
  "KnowledgeArchivePayload_parse p =
     (case (js_object p, js_string1 (js_field ''node_id'' p), js_optional zod_int (js_field ''expected_version'' p),
            js_optional (js_nullable js_string) (js_field ''reasoning'' p)) of
        (Some _, Some n, Some v, Some _) \<Rightarrow> Some (n, v)
      | _ \<Rightarrow> None)"

record ProposeKnowledgePayload =
  pk_name :: string
  pk_parent_id :: "string option"
  pk_domain :: "string option"

definition ProposeKnowledge_parse :: "FoldEvent \<Rightarrow> ProposeKnowledgePayload option" where
  "ProposeKnowledge_parse ev =
     (let p = fe_payload ev in
      if fe_actor_kind ev = ''agent'' \<and> fe_outcome ev \<in> {Some ''success'', Some ''partial''} \<and>
         js_object p \<noteq> None \<and> js_string (js_field ''reasoning'' p) \<noteq> None
      then (case (js_string (js_field ''name'' p), js_nullable js_string (js_field ''parent_id'' p),
                  js_optional js_string (js_field ''domain'' p)) of
              (Some n, Some par, Some d) \<Rightarrow> Some \<lparr>pk_name = n, pk_parent_id = par, pk_domain = d\<rparr>
            | _ \<Rightarrow> None)
      else None)"

datatype KnowledgeMutationChange =
    Reparent (mc_node: string) (mc_parent: "string option") (mc_expected: int)
  | Merge (mc_from_ids: "string list") (mc_into_id: string) (mc_versions: "(string \<times> jsval) list")
  | Split (mc_from_id: string) (mc_into: "(string \<times> string option) list") (mc_expected: int)

definition split_entry :: "jsval \<Rightarrow> (string \<times> string option) option" where
  "split_entry v =
     (case (js_object v, js_string1 (js_field ''name'' v), js_nullable js_string1 (js_field ''parent_id'' v)) of
        (Some _, Some n, Some p) \<Rightarrow> if length n \<le> 120 then Some (n, p) else None
      | _ \<Rightarrow> None)"

text \<open>\<open>{mutation: kind, ...payload}\<close>: an own \<open>mutation\<close> of the payload wins.\<close>

definition KnowledgeMutationProposalChange_parse :: "string \<Rightarrow> jsval \<Rightarrow> KnowledgeMutationChange option" where
  "KnowledgeMutationProposalChange_parse kind p =
     (let mutation = (if ''mutation'' \<in> set (js_keys p) then js_field ''mutation'' p else JStr kind) in
      if mutation = JStr ''reparent'' then
        (case (js_string1 (js_field ''node_id'' p), js_nullable js_string1 (js_field ''new_parent_id'' p),
               zod_nonneg (js_field ''expected_version'' p)) of
           (Some n, Some par, Some v) \<Rightarrow> Some (Reparent n par v)
         | _ \<Rightarrow> None)
      else if mutation = JStr ''merge'' then
        (case (js_array js_string1 (js_field ''from_ids'' p), js_string1 (js_field ''into_id'' p),
               js_object (js_field ''expected_versions'' p)) of
           (Some fs, Some i, Some vs) \<Rightarrow>
             if fs \<noteq> [] \<and> list_all (\<lambda>(_, v). zod_nonneg v \<noteq> None) vs then Some (Merge fs i vs) else None
         | _ \<Rightarrow> None)
      else if mutation = JStr ''split'' then
        (case (js_string1 (js_field ''from_id'' p), js_array split_entry (js_field ''into'' p),
               zod_nonneg (js_field ''expected_version'' p)) of
           (Some f, Some xs, Some v) \<Rightarrow> if xs \<noteq> [] then Some (Split f xs v) else None
         | _ \<Rightarrow> None)
      else None)"

section \<open>The rate schema\<close>

datatype rate_rating = RateAccept | RateDismiss | RateRollback

definition rate_rating_parse :: "jsval \<Rightarrow> rate_rating option" where
  "rate_rating_parse v = map_of [(JStr ''accept'', RateAccept), (JStr ''dismiss'', RateDismiss),
     (JStr ''rollback'', RateRollback)] v"

definition LearningItemStatus :: "string list" where
  "LearningItemStatus = [''pending'', ''in_progress'', ''done'', ''dismissed'', ''resting'', ''archived'']"

definition is_strings :: "jsval \<Rightarrow> bool" where
  "is_strings v \<longleftrightarrow> js_array js_string v \<noteq> None"

definition rewired_edge_ok :: "jsval \<Rightarrow> bool" where
  "rewired_edge_ok v \<longleftrightarrow> isRecord v \<and> set (js_keys v) \<subseteq> {''old_edge_id'', ''new_edge_id'', ''outcome''} \<and>
     js_string (js_field ''old_edge_id'' v) \<noteq> None \<and> js_nullable js_string (js_field ''new_edge_id'' v) \<noteq> None \<and>
     js_field ''outcome'' v \<in> JStr ` {''rewired'', ''reactivated'', ''collapsed_self_loop'', ''archived_duplicate'',
       ''archived_dangling''} \<and>
     (js_field ''outcome'' v \<in> JStr ` {''rewired'', ''reactivated''} \<longleftrightarrow> js_field ''new_edge_id'' v \<noteq> JNull)"

definition repair_state_ok :: "jsval \<Rightarrow> bool" where
  "repair_state_ok v \<longleftrightarrow> v \<in> JStr ` {''noop'', ''renamed'', ''frozen''}"

definition MergeRepairEntry_ok :: "jsval \<Rightarrow> bool" where
  "MergeRepairEntry_ok v \<longleftrightarrow> isRecord v \<and>
     set (js_keys v) \<subseteq> {''from_id'', ''question_ids_rewritten'', ''learning_item_ids_rewritten'', ''goal_ids_rewritten'',
       ''edges_rewired'', ''mastery_state'', ''fsrs_state'', ''axis_state'', ''kc_typed_state'',
       ''misconception_edges_rewritten''} \<and>
     js_string (js_field ''from_id'' v) \<noteq> None \<and> is_strings (js_field ''question_ids_rewritten'' v) \<and>
     is_strings (js_field ''learning_item_ids_rewritten'' v) \<and> is_strings (js_field ''goal_ids_rewritten'' v) \<and>
     (case js_field ''edges_rewired'' v of JArr es \<Rightarrow> list_all rewired_edge_ok es | _ \<Rightarrow> False) \<and>
     repair_state_ok (js_field ''mastery_state'' v) \<and> repair_state_ok (js_field ''fsrs_state'' v) \<and>
     repair_state_ok (js_field ''axis_state'' v) \<and> repair_state_ok (js_field ''kc_typed_state'' v) \<and>
     is_strings (js_field ''misconception_edges_rewritten'' v)"

text \<open>\<open>materialized_ids.knowledge\<close> of a strict object, \<open>None\<close> when either is absent.\<close>

definition materialized_parse :: "jsval \<Rightarrow> string list option option" where
  "materialized_parse v =
     (if isRecord v \<and> set (js_keys v) \<subseteq> {''knowledge'', ''knowledge_edge''} \<and>
         js_optional (js_array js_string) (js_field ''knowledge_edge'' v) \<noteq> None
      then js_optional (js_array js_string) (js_field ''knowledge'' v) else None)"

text \<open>The rating and the minted node ids.\<close>

definition RateEvent_parse :: "FoldEvent \<Rightarrow> (rate_rating \<times> string list option) option" where
  "RateEvent_parse ev =
     (let p = fe_payload ev in
      if fe_actor_kind ev \<in> {''user'', ''agent''} \<and> fe_actor_ref ev \<noteq> [] \<and> length (fe_actor_ref ev) \<le> 200 \<and>
         fe_action ev = ''rate'' \<and> fe_subject_kind ev = ''event'' \<and> fe_outcome ev = Some ''success'' \<and>
         isRecord p \<and> js_optional js_string (js_field ''user_note'' p) \<noteq> None \<and>
         js_optional js_string (js_field ''materialized_learning_item_id'' p) \<noteq> None \<and>
         js_field ''materialized_prior_status'' p \<in> insert JUndefined (JStr ` set LearningItemStatus) \<and>
         js_optional (js_nullable js_string) (js_field ''materialized_prior_completed_at'' p) \<noteq> None \<and>
         (case js_field ''merge_repair'' p of
            JUndefined \<Rightarrow> True | JArr es \<Rightarrow> list_all MergeRepairEntry_ok es | _ \<Rightarrow> False) \<and>
         stableActorRefAllowed (fe_actor_kind ev) (fe_actor_ref ev)
      then (case (rate_rating_parse (js_field ''rating'' p),
                  js_optional materialized_parse (js_field ''materialized_ids'' p)) of
              (Some r, Some m) \<Rightarrow> Some (r, case m of None \<Rightarrow> None | Some ids \<Rightarrow> ids)
            | _ \<Rightarrow> None)
      else None)"

section \<open>Pass 1: accepts\<close>

text \<open>
  \<open>acceptedAtByProposeId\<close> and \<open>materializedKnowledgeByProposeId\<close>, the latest entry first; the keys of the
  first are \<open>acceptedProposeIds\<close>.
\<close>

record Accepts =
  ac_at :: "(string \<times> int) list"
  ac_minted :: "(string \<times> string list) list"

definition accepted_at :: "Accepts \<Rightarrow> string \<Rightarrow> int option" where
  "accepted_at ac = map_of (ac_at ac)"

definition minted_ids :: "Accepts \<Rightarrow> string \<Rightarrow> string list" where
  "minted_ids ac i = (case map_of (ac_minted ac) i of None \<Rightarrow> [] | Some ids \<Rightarrow> ids)"

text \<open>The node ids an accept mints: its own operation decides, else the legacy field.\<close>

definition minted_by :: "KnowledgeOperationV1 option \<Rightarrow> string list option \<Rightarrow> string list" where
  "minted_by op legacy =
     (case op of
        Some (OpCreate _ ts) \<Rightarrow> createdTargetIds ts TKnowledge
      | Some (OpArchive _ _ _) \<Rightarrow> []
      | None \<Rightarrow> (case legacy of None \<Rightarrow> [] | Some ids \<Rightarrow> ids))"

text \<open>What one event accepts: the proposal, the time and the ids.\<close>

definition rate_accept :: "FoldEvent \<Rightarrow> op_error + (string \<times> int \<times> string list) option" where
  "rate_accept ev =
     (if fe_action ev \<noteq> ''rate'' then Inr None
      else bind_result
        (decodeKnowledgeOperation (fe_id ev) (fe_subject_id ev) (fe_caused_by ev) (fe_payload ev)) (\<lambda>op.
        case RateEvent_parse ev of
          None \<Rightarrow> if op \<noteq> None then Inl (UndecodableKnowledgeOperationError (fe_id ev) NotAcceptRate) else Inr None
        | Some (rating, legacy) \<Rightarrow>
            if rating \<noteq> RateAccept then Inr None
            else (case fe_caused_by ev of
                None \<Rightarrow> Inr None
              | Some p \<Rightarrow> if p = [] then Inr None else Inr (Some (p, fe_created_at ev, minted_by op legacy)))))"

definition note_accept :: "Accepts \<Rightarrow> string \<times> int \<times> string list \<Rightarrow> Accepts" where
  "note_accept ac a = (case a of (p, t, ids) \<Rightarrow>
     \<lparr>ac_at = (p, t) # ac_at ac, ac_minted = (if ids = [] then ac_minted ac else (p, ids) # ac_minted ac)\<rparr>)"

fun resolve_accepts :: "Accepts \<Rightarrow> FoldEvent list \<Rightarrow> op_error + Accepts" where
  "resolve_accepts ac [] = Inr ac"
| "resolve_accepts ac (ev # evs) =
     bind_result (rate_accept ev) (\<lambda>a.
       resolve_accepts (case a of None \<Rightarrow> ac | Some x \<Rightarrow> note_accept ac x) evs)"

definition no_accepts :: Accepts where
  "no_accepts = \<lparr>ac_at = [], ac_minted = []\<rparr>"

section \<open>Replay order\<close>

definition js_starts_with :: "string \<Rightarrow> string \<Rightarrow> bool" where
  "js_starts_with p s \<longleftrightarrow> take (length p) s = p"

definition mutation_kind :: "string \<Rightarrow> string" where
  "mutation_kind action =
     (if js_starts_with ''experimental:knowledge_'' action
      then drop (length ''experimental:knowledge_'') action else action)"

definition mutationPreviousVersionForNode :: "FoldEvent \<Rightarrow> string \<Rightarrow> int option" where
  "mutationPreviousVersionForNode ev nodeId =
     (if fe_subject_kind ev \<noteq> ''knowledge'' then None
      else if fe_action ev = ''experimental:subject_root_name_update'' \<and> fe_subject_id ev = nodeId then
        map_option snd (SubjectRootNameUpdate_parse ev)
      else if fe_action ev = ''experimental:knowledge_role_update'' \<and> fe_subject_id ev = nodeId then
        map_option snd (KnowledgeRoleUpdate_parse ev)
      else if fe_action ev = ''experimental:knowledge_approval_update'' \<and> fe_subject_id ev = nodeId then
        map_option snd (KnowledgeApprovalUpdate_parse ev)
      else if fe_action ev = ''experimental:knowledge_archive'' then
        (case KnowledgeArchivePayload_parse (fe_payload ev) of
           Some (n, v) \<Rightarrow> if n = nodeId then v else None | None \<Rightarrow> None)
      else if \<not> js_starts_with ''experimental:knowledge_'' (fe_action ev) then None
      else (case KnowledgeMutationProposalChange_parse (mutation_kind (fe_action ev)) (fe_payload ev) of
          Some (Reparent n _ v) \<Rightarrow> if n = nodeId then Some v else None
        | Some (Merge fs i vs) \<Rightarrow>
            if i = nodeId \<or> nodeId \<in> set fs then Option.bind (map_of vs nodeId) zod_int else None
        | Some (Split f _ v) \<Rightarrow> if f = nodeId then Some v else None
        | None \<Rightarrow> None))"

definition replayTieKey :: "string \<Rightarrow> Accepts \<Rightarrow> FoldEvent \<Rightarrow> nat \<times> int" where
  "replayTieKey nodeId ac ev =
     (if (fe_subject_kind ev = ''knowledge'' \<and> fe_subject_id ev = nodeId \<and>
          fe_action ev \<in> {''experimental:genesis'', ''experimental:auto_tag_kc_created''}) \<or>
         nodeId \<in> set (minted_ids ac (fe_id ev))
      then (0, 0)
      else case mutationPreviousVersionForNode ev nodeId of Some v \<Rightarrow> (1, v) | None \<Rightarrow> (2, 0))"

definition replay_time :: "Accepts \<Rightarrow> FoldEvent \<Rightarrow> int" where
  "replay_time ac ev = (case accepted_at ac (fe_id ev) of None \<Rightarrow> fe_created_at ev | Some t \<Rightarrow> t)"

text \<open>\<open>compareReplayEvents\<close> orders by this key.\<close>

definition replay_key :: "string \<Rightarrow> Accepts \<Rightarrow> FoldEvent \<Rightarrow> int \<times> (nat \<times> int) \<times> string" where
  "replay_key nodeId ac ev = (replay_time ac ev, replayTieKey nodeId ac ev, fe_id ev)"

section \<open>Pass 2: application\<close>

definition createRow :: "string \<Rightarrow> string \<Rightarrow> string option \<Rightarrow> string option \<Rightarrow> int \<Rightarrow> KnowledgeRow" where
  "createRow i name parent domain at =
     \<lparr>nr_id = i, nr_name = name, nr_domain = domain, nr_parent_id = parent, nr_merged_from = [],
      nr_archived_at = None, nr_proposed_by_ai = True, nr_approval_status = StatusApproved, nr_role = RoleKc,
      nr_created_at = at, nr_updated_at = at, nr_version = 0\<rparr>"

text \<open>Every mutation of an existing row stamps the time and counts one version.\<close>

definition bump :: "int \<Rightarrow> KnowledgeRow \<Rightarrow> KnowledgeRow" where
  "bump at r = r\<lparr>nr_updated_at := at, nr_version := nr_version r + 1\<rparr>"

definition retire_row :: "int \<Rightarrow> KnowledgeRow \<Rightarrow> KnowledgeRow" where
  "retire_row at r = bump at (r\<lparr>nr_archived_at := Some at\<rparr>)"

text \<open>The entries of a split whose minted id is this node, in order; the last one that has a parent wins.\<close>

definition split_births :: "string \<Rightarrow> string list \<Rightarrow> (string \<times> string option) list \<Rightarrow> int \<Rightarrow> KnowledgeRow option \<Rightarrow> KnowledgeRow option" where
  "split_births nodeId minted into at row =
     foldl (\<lambda>r (m, name, parent). if m = nodeId \<and> parent \<noteq> None then Some (createRow nodeId name parent None at) else r)
       row (zip minted into)"

definition apply_mutation :: "string \<Rightarrow> string list \<Rightarrow> int \<Rightarrow> KnowledgeMutationChange \<Rightarrow> KnowledgeRow option \<Rightarrow> KnowledgeRow option" where
  "apply_mutation nodeId minted at change row =
     (case change of
        Reparent n parent _ \<Rightarrow>
          if n \<noteq> nodeId \<or> parent = None then row
          else map_option (\<lambda>r. bump at (r\<lparr>nr_parent_id := parent, nr_domain := None\<rparr>)) row
      | Merge fs i _ \<Rightarrow>
          (let row1 = (if i = nodeId then map_option (\<lambda>r. bump at (r\<lparr>nr_merged_from := nr_merged_from r @ fs\<rparr>)) row
                       else row)
           in if nodeId \<in> set fs then map_option (retire_row at) row1 else row1)
      | Split f into _ \<Rightarrow>
          split_births nodeId minted into at (if f = nodeId then map_option (retire_row at) row else row))"

definition auto_tag_row :: "FoldEvent \<Rightarrow> KnowledgeRow option" where
  "auto_tag_row ev =
     (case (js_string1 (js_field ''name'' (fe_payload ev)), js_string (js_field ''parent_id'' (fe_payload ev))) of
        (Some n, Some p) \<Rightarrow>
          Some ((createRow (fe_subject_id ev) n (Some p) None (fe_created_at ev))
            \<lparr>nr_approval_status :=
               if js_field ''approval_status'' (fe_payload ev) = JStr ''pending'' then StatusPending else StatusApproved\<rparr>)
      | _ \<Rightarrow> None)"

text \<open>The control-plane repairs: what an accepted parse of role, approval status or name does to the row.\<close>

definition control_update :: "FoldEvent \<Rightarrow> (KnowledgeRow \<Rightarrow> KnowledgeRow) option" where
  "control_update ev =
     (if fe_action ev = ''experimental:knowledge_role_update'' then
        map_option (\<lambda>(role, _) r. bump (fe_created_at ev) (r\<lparr>nr_role := role\<rparr>)) (KnowledgeRoleUpdate_parse ev)
      else if fe_action ev = ''experimental:knowledge_approval_update'' then
        map_option (\<lambda>(st, _) r. bump (fe_created_at ev) (r\<lparr>nr_approval_status := st\<rparr>))
          (KnowledgeApprovalUpdate_parse ev)
      else
        map_option (\<lambda>(name, _) r. bump (fe_created_at ev) (r\<lparr>nr_name := name\<rparr>)) (SubjectRootNameUpdate_parse ev))"

text \<open>The branches that only an accepted proposal reaches; \<open>at\<close> is the time of the accept.\<close>

definition apply_proposal ::
  "string \<Rightarrow> string list \<Rightarrow> int \<Rightarrow> KnowledgeRow option \<Rightarrow> FoldEvent \<Rightarrow> KnowledgeRow option" where
  "apply_proposal nodeId minted at row ev =
     (if fe_action ev = ''propose'' then
        (case ProposeKnowledge_parse ev of
           None \<Rightarrow> row
         | Some p \<Rightarrow>
             (case minted of
                i # _ \<Rightarrow> if i \<noteq> [] \<and> i = nodeId then Some (createRow i (pk_name p) (pk_parent_id p) (pk_domain p) at)
                         else row
              | [] \<Rightarrow> row))
      else if fe_action ev = ''experimental:knowledge_archive'' then
        (case KnowledgeArchivePayload_parse (fe_payload ev) of
           None \<Rightarrow> row
         | Some (n, _) \<Rightarrow>
             if n \<noteq> fe_subject_id ev \<or> fe_subject_id ev \<noteq> nodeId then row else map_option (retire_row at) row)
      else if js_starts_with ''experimental:knowledge_'' (fe_action ev) then
        (case KnowledgeMutationProposalChange_parse (mutation_kind (fe_action ev)) (fe_payload ev) of
           None \<Rightarrow> row
         | Some change \<Rightarrow> apply_mutation nodeId minted at change row)
      else row)"

text \<open>One turn of the loop.\<close>

definition apply_event ::
  "(jsval \<Rightarrow> int option) \<Rightarrow> string \<Rightarrow> Accepts \<Rightarrow> KnowledgeRow option \<Rightarrow> FoldEvent \<Rightarrow> KnowledgeRow option" where
  "apply_event js_date nodeId ac row ev =
     (if fe_action ev = ''experimental:genesis'' then
        (case GenesisExperimental_node js_date ev of
           Some r \<Rightarrow> if fe_subject_id ev = nodeId then Some r else row | None \<Rightarrow> row)
      else if fe_subject_kind ev \<noteq> ''knowledge'' then row
      else if fe_subject_id ev = nodeId \<and> fe_action ev \<in> {''experimental:knowledge_role_update'',
          ''experimental:knowledge_approval_update'', ''experimental:subject_root_name_update''} then
        (case control_update ev of Some f \<Rightarrow> map_option f row | None \<Rightarrow> row)
      else if fe_subject_id ev = nodeId \<and> fe_action ev = ''experimental:auto_tag_kc_created'' then
        (case auto_tag_row ev of Some r \<Rightarrow> Some r | None \<Rightarrow> row)
      else (case accepted_at ac (fe_id ev) of
          None \<Rightarrow> row
        | Some at \<Rightarrow> apply_proposal nodeId (minted_ids ac (fe_id ev)) at row ev))"

definition foldKnowledgeNode ::
  "(jsval \<Rightarrow> int option) \<Rightarrow> string \<Rightarrow> FoldEvent list \<Rightarrow> op_error + KnowledgeRow option" where
  "foldKnowledgeNode js_date nodeId events =
     bind_result (resolve_accepts no_accepts events) (\<lambda>ac.
       Inr (foldl (apply_event js_date nodeId ac) None (sort_key (replay_key nodeId ac) events)))"

end
