(* ===== verification/KnowledgeNodeFacts.thy ===== *)
theory KnowledgeNodeFacts
  imports KnowledgeNodeFold
begin

text \<open>
  The fold of a knowledge node as a function of the set of its events: what the accept pass collects,
  which events can touch a node, and why neither the order of the events nor events of other nodes matter.
\<close>

section \<open>The accept pass\<close>

lemma rate_accept_Some:
  "rate_accept ev = Inr (Some (p, t, ids)) \<longleftrightarrow> fe_action ev = ''rate'' \<and>
     (\<exists>op legacy. decodeKnowledgeOperation (fe_id ev) (fe_subject_id ev) (fe_caused_by ev) (fe_payload ev) = Inr op \<and>
        RateEvent_parse ev = Some (RateAccept, legacy) \<and> fe_caused_by ev = Some p \<and> p \<noteq> [] \<and>
        t = fe_created_at ev \<and> ids = minted_by op legacy)"
proof (cases "RateEvent_parse ev")
  case None
  then show ?thesis by (auto simp: rate_accept_def bind_result_Inr_iff)
next
  case (Some r)
  then show ?thesis
    by (cases r; cases "fe_caused_by ev")
      (auto simp: rate_accept_def bind_result_Inr_iff)
qed

definition accepts_of :: "FoldEvent \<Rightarrow> (string \<times> int \<times> string list) list" where
  "accepts_of ev = (case rate_accept ev of Inr (Some a) \<Rightarrow> [a] | _ \<Rightarrow> [])"

lemma accepts_of_mem: "a \<in> set (accepts_of ev) \<longleftrightarrow> rate_accept ev = Inr (Some a)"
  by (cases a) (auto simp: accepts_of_def split: sum.splits option.splits)

definition accepts_in :: "FoldEvent list \<Rightarrow> (string \<times> int \<times> string list) list" where
  "accepts_in evs = concat (map accepts_of evs)"

text \<open>Each proposal is accepted by at most one event.\<close>

definition single_accepts :: "FoldEvent list \<Rightarrow> bool" where
  "single_accepts evs \<longleftrightarrow> distinct (map fst (accepts_in evs))"

lemma resolve_accepts_Inr:
  "resolve_accepts ac evs = Inr ac' \<longleftrightarrow>
     (\<forall>ev\<in>set evs. \<exists>a. rate_accept ev = Inr a) \<and> ac' = foldl note_accept ac (accepts_in evs)"
proof (induction evs arbitrary: ac)
  case (Cons ev evs)
  then show ?case
    by (cases "rate_accept ev")
      (auto simp: accepts_in_def accepts_of_def split: option.splits)
qed (auto simp: accepts_in_def)

text \<open>What the pass collects for a proposal depends on the accepts of that proposal only.\<close>

definition collected :: "FoldEvent list \<Rightarrow> Accepts" where
  "collected evs = foldl note_accept no_accepts (accepts_in evs)"

definition own_accepts :: "FoldEvent list \<Rightarrow> string \<Rightarrow> (string \<times> int \<times> string list) list" where
  "own_accepts evs p = filter (\<lambda>a. fst a = p) (accepts_in evs)"

lemma note_accept_lookup:
  "accepted_at (note_accept ac (q, t, ids)) p = (if q = p then Some t else accepted_at ac p)"
  "minted_ids (note_accept ac (q, t, ids)) p = (if q = p \<and> ids \<noteq> [] then ids else minted_ids ac p)"
  by (auto simp: note_accept_def accepted_at_def minted_ids_def)

lemma lookups_own:
  "accepted_at (foldl note_accept no_accepts as) p =
     accepted_at (foldl note_accept no_accepts (filter (\<lambda>a. fst a = p) as)) p"
  "minted_ids (foldl note_accept no_accepts as) p =
     minted_ids (foldl note_accept no_accepts (filter (\<lambda>a. fst a = p) as)) p"
  by (induction as rule: rev_induct) (auto simp: note_accept_lookup)

lemma collected_own:
  assumes "own_accepts evs p = own_accepts evs' p"
  shows "accepted_at (collected evs) p = accepted_at (collected evs') p"
    and "minted_ids (collected evs) p = minted_ids (collected evs') p"
  using assms lookups_own [of "accepts_in evs" p] lookups_own [of "accepts_in evs'" p]
  by (simp_all add: collected_def own_accepts_def)

lemma own_accepts_single:
  assumes "single_accepts evs" "(p, t, ids) \<in> set (accepts_in evs)"
  shows "own_accepts evs p = [(p, t, ids)]"
proof -
  have "distinct (map fst (own_accepts evs p))"
    using assms(1) distinct_map_filter by (auto simp: single_accepts_def own_accepts_def)
  moreover have "(p, t, ids) \<in> set (own_accepts evs p)" "\<forall>a\<in>set (own_accepts evs p). fst a = p"
    using assms(2) by (auto simp: own_accepts_def)
  ultimately show ?thesis
    by (cases "own_accepts evs p"; cases "tl (own_accepts evs p)") auto
qed

lemma own_accepts_none: "own_accepts evs p = [] \<longleftrightarrow> p \<notin> fst ` set (accepts_in evs)"
  by (auto simp: own_accepts_def filter_empty_conv)

lemma collected_none:
  assumes "p \<notin> fst ` set (accepts_in evs)"
  shows "accepted_at (collected evs) p = None" "minted_ids (collected evs) p = []"
  using assms own_accepts_none [of evs p] collected_own [of evs p "[]"]
  by (simp_all add: own_accepts_def accepts_in_def collected_def no_accepts_def accepted_at_def minted_ids_def)

lemma collected_single:
  assumes "single_accepts evs" "(p, t, ids) \<in> set (accepts_in evs)"
  shows "accepted_at (collected evs) p = Some t" "minted_ids (collected evs) p = ids"
  using own_accepts_single [OF assms] lookups_own [of "accepts_in evs" p]
  by (simp_all add: collected_def own_accepts_def note_accept_def no_accepts_def accepted_at_def minted_ids_def)

text \<open>Events with the same accepts of a proposal agree on it.\<close>

lemma own_accepts_eq:
  assumes "single_accepts evs" "single_accepts evs'"
    and "\<And>t ids. (p, t, ids) \<in> set (accepts_in evs) \<longleftrightarrow> (p, t, ids) \<in> set (accepts_in evs')"
  shows "own_accepts evs p = own_accepts evs' p"
proof (cases "p \<in> fst ` set (accepts_in evs)")
  case True
  then obtain t ids where "(p, t, ids) \<in> set (accepts_in evs)" by force
  then show ?thesis using assms own_accepts_single by metis
next
  case False
  then have "p \<notin> fst ` set (accepts_in evs')" using assms(3) by force
  then show ?thesis using False own_accepts_none by metis
qed

section \<open>Which events touch a node\<close>

fun mutation_touches :: "string \<Rightarrow> string list \<Rightarrow> KnowledgeMutationChange \<Rightarrow> bool" where
  "mutation_touches n minted (Reparent m _ _) = (m = n)"
| "mutation_touches n minted (Merge fs i _) = (i = n \<or> n \<in> set fs)"
| "mutation_touches n minted (Split f _ _) = (f = n \<or> n \<in> set minted)"

definition own_actions :: "string set" where
  "own_actions = {''experimental:genesis'', ''experimental:knowledge_role_update'',
     ''experimental:knowledge_approval_update'', ''experimental:subject_root_name_update'',
     ''experimental:auto_tag_kc_created''}"

definition mutation_of :: "FoldEvent \<Rightarrow> KnowledgeMutationChange option" where
  "mutation_of ev =
     (if fe_subject_kind ev = ''knowledge'' \<and> js_starts_with ''experimental:knowledge_'' (fe_action ev) \<and>
         fe_action ev \<noteq> ''experimental:knowledge_archive''
      then KnowledgeMutationProposalChange_parse (mutation_kind (fe_action ev)) (fe_payload ev) else None)"

definition touches :: "string \<Rightarrow> Accepts \<Rightarrow> FoldEvent \<Rightarrow> bool" where
  "touches n ac ev \<longleftrightarrow> fe_subject_kind ev = ''knowledge'' \<and>
     (fe_subject_id ev = n \<and> fe_action ev \<in> own_actions \<or>
      accepted_at ac (fe_id ev) \<noteq> None \<and>
      (fe_action ev = ''propose'' \<and> n \<in> set (take 1 (minted_ids ac (fe_id ev))) \<or>
       fe_action ev = ''experimental:knowledge_archive'' \<and> fe_subject_id ev = n \<or>
       (case mutation_of ev of Some c \<Rightarrow> mutation_touches n (minted_ids ac (fe_id ev)) c | None \<Rightarrow> False)))"

lemma split_births_other: "n \<notin> set minted \<Longrightarrow> split_births n minted into at row = row"
proof (induction minted into arbitrary: row rule: list_induct2')
  case (4 m ms e es)
  then show ?case by (cases e) (auto simp: split_births_def)
qed (simp_all add: split_births_def)

lemma apply_mutation_other: "\<not> mutation_touches n minted c \<Longrightarrow> apply_mutation n minted at c row = row"
  by (cases c) (auto simp: apply_mutation_def split_births_other)

lemma GenesisExperimental_node_kind:
  "GenesisExperimental_node js_date ev = Some r \<Longrightarrow> fe_subject_kind ev = ''knowledge'' \<and> nr_id r = fe_subject_id ev"
  by (auto simp: GenesisExperimental_node_def split: if_splits option.splits)

lemma apply_proposal_untouched:
  assumes "fe_subject_kind ev = ''knowledge''" "\<not> (fe_subject_id ev = n \<and> fe_action ev \<in> own_actions)"
    and "\<not> (fe_action ev = ''propose'' \<and> n \<in> set (take 1 minted))"
    and "\<not> (fe_action ev = ''experimental:knowledge_archive'' \<and> fe_subject_id ev = n)"
    and "\<And>c. mutation_of ev = Some c \<Longrightarrow> \<not> mutation_touches n minted c"
  shows "apply_proposal n minted at row ev = row"
proof (cases "fe_action ev = ''propose''")
  case True
  then show ?thesis using assms(3) by (auto simp: apply_proposal_def split: option.splits list.splits)
next
  case propose: False
  show ?thesis
  proof (cases "fe_action ev = ''experimental:knowledge_archive''")
    case True
    then have "fe_subject_id ev \<noteq> n" using assms(4) by simp
    then show ?thesis using True by (simp add: apply_proposal_def split: option.splits)
  next
    case False
    show ?thesis
    proof (cases "mutation_of ev")
      case None
      then show ?thesis
        using propose False assms(1) by (simp add: apply_proposal_def mutation_of_def split: if_splits)
    next
      case (Some c)
      then have "apply_proposal n minted at row ev = apply_mutation n minted at c row"
        using propose False by (simp add: apply_proposal_def mutation_of_def split: if_splits)
      then show ?thesis using assms(5) [OF Some] by (simp add: apply_mutation_other)
    qed
  qed
qed

lemma apply_event_untouched:
  assumes "\<not> touches n ac ev"
  shows "apply_event js_date n ac row ev = row"
proof (cases "fe_subject_kind ev = ''knowledge''")
  case False
  then show ?thesis
    by (auto simp: apply_event_def dest: GenesisExperimental_node_kind split: option.splits)
next
  case kind: True
  have own: "\<not> (fe_subject_id ev = n \<and> fe_action ev \<in> own_actions)"
    using assms kind by (simp add: touches_def)
  have "apply_proposal n (minted_ids ac (fe_id ev)) at row ev = row"
    if "accepted_at ac (fe_id ev) = Some at" for at
    using assms kind that by (intro apply_proposal_untouched [OF kind own]) (auto simp: touches_def)
  then show ?thesis
    using own kind by (auto simp: apply_event_def own_actions_def split: option.splits)
qed

section \<open>The fold as a function of a set\<close>

interpretation node: event_reducer "replay_key n ac" "apply_event js_date n ac" None "touches n ac"
  for n :: string and ac :: Accepts and js_date :: "jsval \<Rightarrow> int option"
  by unfold_locales (rule apply_event_untouched)

lemma foldKnowledgeNode_Inr:
  "foldKnowledgeNode js_date n evs = Inr row \<longleftrightarrow>
     (\<forall>ev\<in>set evs. \<exists>a. rate_accept ev = Inr a) \<and> row = node.project n (collected evs) js_date evs"
  by (auto simp: foldKnowledgeNode_def bind_result_Inr_iff resolve_accepts_Inr collected_def node.project_def)

lemma apply_event_cong:
  assumes "accepted_at ac (fe_id ev) = accepted_at ac' (fe_id ev)" "minted_ids ac (fe_id ev) = minted_ids ac' (fe_id ev)"
  shows "apply_event js_date n ac row ev = apply_event js_date n ac' row ev"
    and "replay_key n ac ev = replay_key n ac' ev"
    and "touches n ac ev = touches n ac' ev"
  unfolding apply_event_def replay_key_def replayTieKey_def replay_time_def touches_def
  by (simp_all only: assms)

lemma inj_replay_key: "distinct (map fe_id evs) \<Longrightarrow> inj_on (replay_key n ac) (set evs)"
  by (auto simp: inj_on_def replay_key_def distinct_map)

lemma project_filter: "node.project n ac js_date (filter (touches n ac) evs) = node.project n ac js_date evs"
  by (rule node.project_superset) simp

lemma insort_key_cong_on:
  assumes "\<And>y. y \<in> set (x # ys) \<Longrightarrow> f y = g y"
  shows "insort_key f x ys = insort_key g x ys"
  using assms by (induction ys) auto

lemma sort_key_cong_on:
  assumes "\<And>x. x \<in> set xs \<Longrightarrow> f x = g x"
  shows "sort_key f xs = sort_key g xs"
  using assms by (induction xs) (auto intro!: insort_key_cong_on)

lemma foldl_cong_on:
  assumes "\<And>x s. x \<in> set xs \<Longrightarrow> f s x = g s x"
  shows "foldl f s xs = foldl g s xs"
  using assms by (induction xs arbitrary: s) auto

text \<open>
  Two event lists whose touching events are the same, and that agree on the accepts of those, fold to
  the same row.
\<close>

lemma project_same_touching:
  assumes "distinct (map fe_id evs)" "distinct (map fe_id evs')"
    and same: "\<And>ev. touches n (collected evs) ev \<Longrightarrow> ev \<in> set evs \<longleftrightarrow> ev \<in> set evs'"
    and agree: "\<And>ev. ev \<in> set evs' \<Longrightarrow> own_accepts evs (fe_id ev) = own_accepts evs' (fe_id ev) \<or>
        \<not> touches n (collected evs) ev \<and> \<not> touches n (collected evs') ev"
  shows "node.project n (collected evs) js_date evs = node.project n (collected evs') js_date evs'"
proof -
  let ?ac = "collected evs" and ?ac' = "collected evs'"
  let ?xs = "filter (touches n ?ac) evs" and ?ys = "filter (touches n ?ac') evs'"
  have touch: "touches n ?ac ev = touches n ?ac' ev" if "ev \<in> set evs'" for ev
    using agree [OF that] collected_own [of evs "fe_id ev" evs'] apply_event_cong(3) by metis
  have "set ?xs = set ?ys" using same touch by auto
  moreover have "distinct ?xs" "distinct ?ys"
    using assms(1,2) by (simp_all add: distinct_map)
  ultimately have mset: "mset ?xs = mset ?ys"
    using set_eq_iff_mset_eq_distinct by blast
  have own: "own_accepts evs (fe_id ev) = own_accepts evs' (fe_id ev)" if "ev \<in> set ?ys" for ev
    using that agree by auto
  have cong: "apply_event js_date n ?ac row ev = apply_event js_date n ?ac' row ev"
      "replay_key n ?ac ev = replay_key n ?ac' ev" if "ev \<in> set ?ys" for ev row
    using own [OF that] collected_own apply_event_cong(1,2) by metis+
  have "node.project n ?ac js_date evs = node.project n ?ac js_date ?xs"
    by (simp add: project_filter)
  also have "\<dots> = node.project n ?ac js_date ?ys"
    using mset by (rule node.project_perm) (intro inj_replay_key, use assms(1) in \<open>simp add: distinct_map_filter\<close>)
  also have "\<dots> = node.project n ?ac' js_date ?ys"
  proof -
    have "sort_key (replay_key n ?ac) ?ys = sort_key (replay_key n ?ac') ?ys"
      using cong(2) by (intro sort_key_cong_on) auto
    then show ?thesis
      unfolding node.project_def by (simp only:) (rule foldl_cong_on, use cong(1) in auto)
  qed
  also have "\<dots> = node.project n ?ac' js_date evs'"
    by (simp add: project_filter)
  finally show ?thesis .
qed

text \<open>The order of the events does not matter.\<close>

lemma accepts_in_mset: "mset evs = mset evs' \<Longrightarrow> mset (accepts_in evs) = mset (accepts_in evs')"
proof -
  have "mset (accepts_in evs) = (\<Sum>ev\<in>#mset evs. mset (accepts_of ev))" for evs
    by (induction evs) (simp_all add: accepts_in_def)
  then show "mset evs = mset evs' \<Longrightarrow> mset (accepts_in evs) = mset (accepts_in evs')" by simp
qed

lemma single_accepts_mset: "mset evs = mset evs' \<Longrightarrow> single_accepts evs \<longleftrightarrow> single_accepts evs'"
  unfolding single_accepts_def by (metis accepts_in_mset mset_eq_imp_distinct_iff mset_map)

lemma node_project_perm:
  assumes "mset evs = mset evs'" "distinct (map fe_id evs)" "single_accepts evs"
  shows "node.project n (collected evs) js_date evs = node.project n (collected evs') js_date evs'"
proof (rule project_same_touching)
  show "distinct (map fe_id evs')"
    using assms(1,2) by (metis mset_eq_imp_distinct_iff mset_map)
  show "ev \<in> set evs \<longleftrightarrow> ev \<in> set evs'" for ev
    using assms(1) by (metis mset_eq_setD)
  have "set (accepts_in evs) = set (accepts_in evs')"
    using accepts_in_mset [OF assms(1)] by (rule mset_eq_setD)
  then show "own_accepts evs (fe_id ev) = own_accepts evs' (fe_id ev) \<or>
      \<not> touches n (collected evs) ev \<and> \<not> touches n (collected evs') ev" for ev
    using own_accepts_eq [of evs evs'] assms(3) single_accepts_mset [OF assms(1)] by simp
qed (fact assms(2))

end
