(* ===== verification/KnowledgeNodeHistory.thy ===== *)
theory KnowledgeNodeHistory
  imports KnowledgeNodeFacts
begin

text \<open>
  The history of a knowledge node: which events are read for it, how the operations that name it are
  found and checked against the facts they cite, and the row they project to
  (\<open>src/src/kernel/records/knowledge-operation.ts\<close>, \<open>knowledge-node-history.ts\<close>,
  \<open>materialized-id-index.ts\<close>).

  The \<open>event\<close> table is a list of rows, \<open>materialized_id_index\<close> a list of anchors with unique ids. A
  \<open>Map\<close> from event ids to rows of the table is the list of these rows, in insertion order: a row is
  never stored under another id, and a second insertion of an id stores the same row.
\<close>

section \<open>Tables\<close>

record AnchorRow =
  mx_materialized_id :: string
  mx_anchor_event_id :: string
  mx_subject_kind :: string

definition upsertMaterializedIdIndex :: "AnchorRow \<Rightarrow> AnchorRow list \<Rightarrow> AnchorRow list" where
  "upsertMaterializedIdIndex entry idx =
     (if list_ex (\<lambda>r. mx_materialized_id r = mx_materialized_id entry) idx then idx else idx @ [entry])"

definition getAnchorEventId :: "AnchorRow list \<Rightarrow> string \<Rightarrow> string option" where
  "getAnchorEventId idx i = map_option mx_anchor_event_id (row_by mx_materialized_id i idx)"

section \<open>Scanning for operations\<close>

record OperationEntry =
  en_rate :: FoldEvent
  en_op :: KnowledgeOperationV1

text \<open>A decoded operation must sit on a rate that the rate schema accepts as an accept.\<close>

definition decodeRateRow :: "FoldEvent \<Rightarrow> op_error + KnowledgeOperationV1 option" where
  "decodeRateRow row =
     bind_result (decodeKnowledgeOperation (fe_id row) (fe_subject_id row) (fe_caused_by row) (fe_payload row))
       (\<lambda>op. case op of
          None \<Rightarrow> Inr None
        | Some _ \<Rightarrow>
            (case RateEvent_parse row of
               Some (RateAccept, _) \<Rightarrow> Inr op
             | _ \<Rightarrow> Inl (UndecodableKnowledgeOperationError (fe_id row) NotAcceptRate)))"

text \<open>\<open>byRateId\<close>; \<open>targetsByEntity\<close> is read off it.\<close>

fun collectScan :: "FoldEvent list \<Rightarrow> op_error + OperationEntry list" where
  "collectScan [] = Inr []"
| "collectScan (row # rows) =
     bind_result (decodeRateRow row) (\<lambda>op.
     bind_result (collectScan rows) (\<lambda>entries.
       Inr (case op of None \<Rightarrow> entries | Some x \<Rightarrow> \<lparr>en_rate = row, en_op = x\<rparr> # entries)))"

definition targetsByEntity :: "OperationEntry list \<Rightarrow> target_kind \<Rightarrow> string \<Rightarrow> OperationEntry list" where
  "targetsByEntity entries kind i =
     concat (map (\<lambda>e. map (\<lambda>_. e) (filter (\<lambda>t. kt_kind t = kind \<and> kt_id t = i) (op_targets (en_op e)))) entries)"

text \<open>Every operation of the log; \<open>jsonb_exists\<close> is a test on the keys of the payload.\<close>

definition scanKnowledgeOperationRates :: "FoldEvent list \<Rightarrow> op_error + OperationEntry list" where
  "scanKnowledgeOperationRates log =
     collectScan (filter (\<lambda>e. fe_action e = ''rate'' \<and> jsonb_has KNOWLEDGE_OPERATION_KEY (fe_payload e)) log)"

text \<open>\<open>payload @> {"knowledge_operation": {"targets": [{"id": id}]}}\<close>.\<close>

definition mentions_target :: "string \<Rightarrow> jsval \<Rightarrow> bool" where
  "mentions_target i payload =
     (case js_field ''targets'' (js_field KNOWLEDGE_OPERATION_KEY payload) of
        JArr ts \<Rightarrow> list_ex (\<lambda>t. js_field ''id'' t = JStr i) ts
      | _ \<Rightarrow> False)"

definition scanKnowledgeOperationsForTarget :: "FoldEvent list \<Rightarrow> string \<Rightarrow> op_error + OperationEntry list" where
  "scanKnowledgeOperationsForTarget log i =
     collectScan (filter (\<lambda>e. fe_action e = ''rate'' \<and> mentions_target i (fe_payload e)) log)"

section \<open>Facts\<close>

definition some_id :: "string option \<Rightarrow> string list" where
  "some_id v = (case v of None \<Rightarrow> [] | Some i \<Rightarrow> if i = [] then [] else [i])"

definition referencedIds :: "OperationEntry \<Rightarrow> FoldEvent list \<Rightarrow> string list" where
  "referencedIds entry facts =
     js_uniq (some_id (fe_caused_by (en_rate entry)) @
       concat (map (\<lambda>t. some_id (kt_fact_event_id t)) (op_targets (en_op entry))) @
       (case en_op entry of
          OpCreate _ _ \<Rightarrow> []
        | OpArchive birth correction _ \<Rightarrow>
            [birth, correction] @
            (case row_by fe_id birth facts of None \<Rightarrow> [] | Some b \<Rightarrow> some_id (fe_caused_by b))))"

definition loadFactRows :: "FoldEvent list \<Rightarrow> string list \<Rightarrow> FoldEvent list \<Rightarrow> FoldEvent list" where
  "loadFactRows log ids into =
     into @ filter (\<lambda>r. fe_id r \<in> set (filter (\<lambda>i. row_by fe_id i into = None) ids)) log"

definition prefetch_round :: "FoldEvent list \<Rightarrow> OperationEntry list \<Rightarrow> FoldEvent list \<Rightarrow> FoldEvent list" where
  "prefetch_round log scan facts = loadFactRows log (concat (map (\<lambda>e. referencedIds e facts) scan)) facts"

definition prefetchFacts :: "FoldEvent list \<Rightarrow> OperationEntry list \<Rightarrow> FoldEvent list" where
  "prefetchFacts log scan = prefetch_round log scan (prefetch_round log scan (map en_rate scan))"

text \<open>The ids a rate minted: its own operation's when it carries one, else the legacy field.\<close>

definition createdKnowledgeIdsOfRate :: "FoldEvent \<Rightarrow> OperationEntry list \<Rightarrow> string list" where
  "createdKnowledgeIdsOfRate row scan =
     (case row_by (fe_id \<circ> en_rate) (fe_id row) scan of
        Some e \<Rightarrow> createdTargetIds (op_targets (en_op e)) TKnowledge
      | None \<Rightarrow>
          (case js_field ''knowledge'' (js_field ''materialized_ids'' (fe_payload row)) of
             JArr xs \<Rightarrow> concat (map (\<lambda>x. case js_string x of None \<Rightarrow> [] | Some s \<Rightarrow> [s]) xs)
           | _ \<Rightarrow> []))"

definition require_that :: "bool \<Rightarrow> decode_reason \<Rightarrow> decode_reason + unit" where
  "require_that b r = (if b then Inr () else Inl r)"

definition factOrThrow :: "FoldEvent list \<Rightarrow> string \<Rightarrow> decode_reason + FoldEvent" where
  "factOrThrow facts i = (case row_by fe_id i facts of None \<Rightarrow> Inl MissingFact | Some r \<Rightarrow> Inr r)"

text \<open>The fact of an archived target.\<close>

definition archive_fact_matches :: "KnowledgeOperationTarget \<Rightarrow> FoldEvent \<Rightarrow> bool" where
  "archive_fact_matches t f \<longleftrightarrow>
     (case kt_kind t of
        TKnowledge \<Rightarrow>
          fe_action f = ''experimental:knowledge_archive'' \<and> fe_subject_kind f = ''knowledge'' \<and>
          fe_subject_id f = kt_id t \<and> js_field ''node_id'' (fe_payload f) = JStr (kt_id t) \<and>
          isVersion (js_field ''expected_version'' (fe_payload f)) = kt_before_version t
      | TKnowledgeEdge \<Rightarrow>
          fe_action f = ''generate'' \<and> fe_subject_kind f = ''knowledge_edge'' \<and>
          fe_subject_id f = kt_id t \<and> js_field ''edge_op'' (fe_payload f) = JStr ''archive'' \<and>
          js_field ''archive_edge_id'' (fe_payload f) = JStr (kt_id t))"

fun verify_archive_targets :: "FoldEvent list \<Rightarrow> KnowledgeOperationTarget list \<Rightarrow> decode_reason + unit" where
  "verify_archive_targets facts [] = Inr ()"
| "verify_archive_targets facts (t # ts) =
     bind_result (factOrThrow facts (case kt_fact_event_id t of None \<Rightarrow> [] | Some i \<Rightarrow> i)) (\<lambda>f.
     bind_result (require_that (archive_fact_matches t f) MismatchedFact) (\<lambda>_.
       verify_archive_targets facts ts))"

definition retracts_proposal :: "string \<Rightarrow> FoldEvent \<Rightarrow> bool" where
  "retracts_proposal p c \<longleftrightarrow> fe_action c = ''correct'' \<and> fe_subject_kind c = ''event'' \<and> fe_subject_id c = p \<and>
     fe_caused_by c = Some p \<and> js_field ''correction_kind'' (fe_payload c) = JStr ''retract''"

definition verify_archive ::
  "FoldEvent \<Rightarrow> string \<Rightarrow> string \<Rightarrow> KnowledgeOperationTarget list \<Rightarrow> OperationEntry list \<Rightarrow> FoldEvent list \<Rightarrow>
     decode_reason + unit" where
  "verify_archive rate birth correction targets scan facts =
     bind_result (verify_archive_targets facts targets) (\<lambda>_.
     bind_result (factOrThrow facts birth) (\<lambda>birthAccept.
     bind_result (require_that (fe_action birthAccept = ''rate'' \<and>
         js_field ''rating'' (fe_payload birthAccept) = JStr ''accept'') MismatchedFact) (\<lambda>_.
     let minted = createdKnowledgeIdsOfRate birthAccept scan in
     bind_result (require_that (list_all (\<lambda>t. kt_kind t = TKnowledge \<longrightarrow> kt_id t \<in> set minted) targets)
         MismatchedFact) (\<lambda>_.
     case fe_caused_by birthAccept of
       None \<Rightarrow> Inl MismatchedFact
     | Some p \<Rightarrow>
         if p = [] \<or> fe_subject_id birthAccept \<noteq> p then Inl MismatchedFact
         else
           bind_result (factOrThrow facts p) (\<lambda>birthProposal.
           bind_result (require_that (fe_subject_kind birthProposal = ''knowledge'') MismatchedFact) (\<lambda>_.
           bind_result (factOrThrow facts (case fe_caused_by rate of None \<Rightarrow> [] | Some i \<Rightarrow> i)) (\<lambda>archiveFact.
           bind_result (require_that (fe_caused_by archiveFact = Some p) MismatchedFact) (\<lambda>_.
           bind_result (factOrThrow facts correction) (\<lambda>c.
             require_that (retracts_proposal p c) MismatchedFact)))))))))"

definition verify_references ::
  "OperationEntry \<Rightarrow> OperationEntry list \<Rightarrow> FoldEvent list \<Rightarrow> decode_reason + unit" where
  "verify_references entry scan facts =
     (case en_op entry of
        OpCreate p _ \<Rightarrow>
          bind_result (factOrThrow facts p) (\<lambda>proposal.
            require_that (fe_action proposal = ''propose'' \<and>
              fe_subject_kind proposal \<in> {''knowledge'', ''knowledge_edge''}) MismatchedFact)
      | OpArchive birth correction targets \<Rightarrow>
          verify_archive (en_rate entry) birth correction targets scan facts)"

definition verifyKnowledgeOperationReferences ::
  "OperationEntry \<Rightarrow> OperationEntry list \<Rightarrow> FoldEvent list \<Rightarrow> op_error + unit" where
  "verifyKnowledgeOperationReferences entry scan facts =
     (case verify_references entry scan facts of
        Inl r \<Rightarrow> Inl (UndecodableKnowledgeOperationError (fe_id (en_rate entry)) r) | Inr u \<Rightarrow> Inr u)"

fun verifyKnowledgeOperationFacts ::
  "OperationEntry list \<Rightarrow> FoldEvent list \<Rightarrow> OperationEntry list \<Rightarrow> op_error + FoldEvent list" where
  "verifyKnowledgeOperationFacts scan facts [] = Inr []"
| "verifyKnowledgeOperationFacts scan facts (entry # entries) =
     bind_result (verifyKnowledgeOperationReferences entry scan facts) (\<lambda>_.
     bind_result (verifyKnowledgeOperationFacts scan facts entries) (\<lambda>rows.
       Inr (concat (map (\<lambda>i. case row_by fe_id i facts of None \<Rightarrow> [] | Some r \<Rightarrow> [r]) (referencedIds entry facts))
         @ rows)))"

definition assertKnowledgeOperationsDecodable :: "FoldEvent list \<Rightarrow> op_error + unit" where
  "assertKnowledgeOperationsDecodable log =
     bind_result (scanKnowledgeOperationRates log) (\<lambda>scan.
     bind_result (verifyKnowledgeOperationFacts scan (prefetchFacts log scan) scan) (\<lambda>_. Inr ()))"

section \<open>The events of a node\<close>

text \<open>\<open>payload -> 'from_ids' @> [nodeId]\<close>.\<close>

definition absorbed_in_merge :: "string \<Rightarrow> FoldEvent \<Rightarrow> bool" where
  "absorbed_in_merge nodeId ev \<longleftrightarrow> fe_action ev = ''experimental:knowledge_merge'' \<and>
     (case js_field ''from_ids'' (fe_payload ev) of JArr xs \<Rightarrow> JStr nodeId \<in> set xs | _ \<Rightarrow> False)"

definition gather_base :: "FoldEvent list \<Rightarrow> AnchorRow list \<Rightarrow> FoldEvent list \<Rightarrow> string \<Rightarrow> FoldEvent list" where
  "gather_base log idx merged nodeId =
     filter (\<lambda>e. fe_subject_kind e = ''knowledge'' \<and> fe_subject_id e = nodeId) log @
     (case getAnchorEventId idx nodeId of
        None \<Rightarrow> []
      | Some a \<Rightarrow> if a = [] then [] else filter (\<lambda>e. fe_id e = a \<or> fe_caused_by e = Some a) log) @
     merged"

text \<open>
  The gathered rows, each once, then the rates that their ids caused. The scan with its facts, the
  merges that absorb the node and the rates caused by gathered rows are read for the node, or come
  from the prefetches of a caller that folds many nodes.
\<close>

definition gather_rows ::
  "FoldEvent list \<Rightarrow> AnchorRow list \<Rightarrow> OperationEntry list \<Rightarrow> FoldEvent list \<Rightarrow> FoldEvent list \<Rightarrow>
     (FoldEvent list \<Rightarrow> FoldEvent list) \<Rightarrow> string \<Rightarrow> op_error + FoldEvent list" where
  "gather_rows log idx scan facts merged chained nodeId =
     (let entries = targetsByEntity scan TKnowledge nodeId in
      bind_result (verifyKnowledgeOperationFacts scan facts entries) (\<lambda>opFacts.
        let base = js_uniq (gather_base log idx merged nodeId @ map en_rate entries @ opFacts) in
        Inr (js_uniq (base @ chained base))))"

definition gather ::
  "FoldEvent list \<Rightarrow> AnchorRow list \<Rightarrow> string \<Rightarrow> op_error + FoldEvent list" where
  "gather log idx nodeId =
     bind_result (scanKnowledgeOperationsForTarget log nodeId) (\<lambda>scan.
       gather_rows log idx scan (prefetchFacts log scan) (filter (absorbed_in_merge nodeId) log)
         (\<lambda>base. filter (\<lambda>e. fe_action e = ''rate'' \<and> fe_caused_by e \<in> Some ` fe_id ` set base) log) nodeId)"

definition gatherAndFoldKnowledgeNode ::
  "(jsval \<Rightarrow> int option) \<Rightarrow> FoldEvent list \<Rightarrow> AnchorRow list \<Rightarrow> string \<Rightarrow> op_error + KnowledgeRow option" where
  "gatherAndFoldKnowledgeNode js_date log idx nodeId =
     bind_result (gather log idx nodeId) (foldKnowledgeNode js_date nodeId)"

section \<open>Folding many nodes\<close>

text \<open>The merges that absorb a node, as the map of the prefetch returns them: once per mention.\<close>

definition prefetchKnowledgeMergeEvents :: "FoldEvent list \<Rightarrow> string \<Rightarrow> FoldEvent list" where
  "prefetchKnowledgeMergeEvents log fid =
     concat (map (\<lambda>m. case js_field ''from_ids'' (fe_payload m) of
          JArr xs \<Rightarrow> map (\<lambda>_. m) (filter (\<lambda>x. js_string x = Some fid) xs)
        | _ \<Rightarrow> [])
       (filter (\<lambda>e. fe_action e = ''experimental:knowledge_merge'') log))"

text \<open>The rates caused by an event, of those whose cause is a knowledge event: the inner join, grouped.\<close>

definition prefetchKnowledgeRates :: "FoldEvent list \<Rightarrow> string \<Rightarrow> FoldEvent list" where
  "prefetchKnowledgeRates log cause =
     concat (map (\<lambda>r. map (\<lambda>_. r)
         (filter (\<lambda>a. fe_caused_by r = Some (fe_id a) \<and> fe_subject_kind a = ''knowledge'') log))
       (filter (\<lambda>r. fe_action r = ''rate'' \<and> fe_caused_by r = Some cause) log))"

definition gather_prefetched ::
  "OperationEntry list \<Rightarrow> FoldEvent list \<Rightarrow> FoldEvent list \<Rightarrow> AnchorRow list \<Rightarrow> string \<Rightarrow> op_error + FoldEvent list" where
  "gather_prefetched scan facts log idx nodeId =
     gather_rows log idx scan facts (prefetchKnowledgeMergeEvents log nodeId)
       (\<lambda>base. concat (map (\<lambda>e. filter (\<lambda>r. fe_action r = ''rate'') (prefetchKnowledgeRates log (fe_id e))) base)) nodeId"

text \<open>\<open>makeFoldOne\<close> of the knowledge adapter: every operation is scanned and decoded once, then ids are folded.\<close>

definition knowledge_foldOne ::
  "(jsval \<Rightarrow> int option) \<Rightarrow> FoldEvent list \<Rightarrow> AnchorRow list \<Rightarrow>
     op_error + (string \<Rightarrow> op_error + KnowledgeRow option)" where
  "knowledge_foldOne js_date log idx =
     bind_result (scanKnowledgeOperationRates log) (\<lambda>scan. let facts = prefetchFacts log scan in
       Inr (\<lambda>nodeId. bind_result (gather_prefetched scan facts log idx nodeId) (foldKnowledgeNode js_date nodeId)))"

section \<open>Anchors\<close>

definition declares_birth :: "OperationEntry list \<Rightarrow> string \<Rightarrow> bool" where
  "declares_birth scan nodeId \<longleftrightarrow>
     list_ex (\<lambda>e. list_ex (\<lambda>t. kt_kind t = TKnowledge \<and> kt_id t = nodeId \<and> kt_effect t = EffectCreate)
       (op_targets (en_op e))) (targetsByEntity scan TKnowledge nodeId)"

definition hasKnowledgeNodeGenesisAnchor :: "FoldEvent list \<Rightarrow> AnchorRow list \<Rightarrow> string \<Rightarrow> op_error + bool" where
  "hasKnowledgeNodeGenesisAnchor log idx nodeId =
     (if list_ex (\<lambda>e. fe_subject_kind e = ''knowledge'' \<and> fe_subject_id e = nodeId \<and>
           fe_action e \<in> {''experimental:genesis'', ''experimental:auto_tag_kc_created''}) log
      then Inr True
      else if list_ex (\<lambda>r. mx_materialized_id r = nodeId \<and> mx_subject_kind r = ''knowledge'') idx then Inr True
      else bind_result (scanKnowledgeOperationsForTarget log nodeId) (\<lambda>scan.
        Inr (declares_birth scan nodeId)))"

text \<open>The batch form; the result is a set of ids.\<close>

definition knowledgeNodesWithGenesisAnchor ::
  "FoldEvent list \<Rightarrow> AnchorRow list \<Rightarrow> string list \<Rightarrow> op_error + string list" where
  "knowledgeNodesWithGenesisAnchor log idx nodeIds =
     (if nodeIds = [] then Inr []
      else let out = js_uniq
          (map fe_subject_id (filter (\<lambda>e. fe_subject_kind e = ''knowledge'' \<and> fe_subject_id e \<in> set nodeIds \<and>
             fe_action e \<in> {''experimental:genesis'', ''experimental:auto_tag_kc_created''}) log) @
           map mx_materialized_id (filter (\<lambda>r. mx_materialized_id r \<in> set nodeIds \<and>
             mx_subject_kind r = ''knowledge'') idx)) in
        bind_result (scanKnowledgeOperationRates log) (\<lambda>scan.
          Inr (out @ js_uniq (filter (\<lambda>i. i \<notin> set out \<and> declares_birth scan i) nodeIds))))"

end
