(* ===== verification/KnowledgeNodeGather.thy ===== *)
theory KnowledgeNodeGather
  imports KnowledgeNodeHistory
begin

text \<open>
  The history read for a node is complete: on a log whose operations pass the class-level check, the
  gather of any node succeeds, and folding what it gathers gives the same row as folding the whole log.
\<close>

interpretation log_tab: keyed_table "fe_id :: FoldEvent \<Rightarrow> string" .

section \<open>Scans\<close>

definition entry_of :: "FoldEvent \<Rightarrow> OperationEntry list" where
  "entry_of row = (case decodeRateRow row of Inr (Some op) \<Rightarrow> [\<lparr>en_rate = row, en_op = op\<rparr>] | _ \<Rightarrow> [])"

lemma collectScan_Inr:
  "collectScan rows = Inr entries \<longleftrightarrow>
     (\<forall>row\<in>set rows. \<exists>op. decodeRateRow row = Inr op) \<and> entries = concat (map entry_of rows)"
proof (induction rows arbitrary: entries)
  case (Cons row rows)
  then show ?case
    by (cases "decodeRateRow row") (auto simp: bind_result_Inr_iff entry_of_def split: option.splits)
qed auto

lemma entry_of_mem:
  "e \<in> set (entry_of row) \<longleftrightarrow> en_rate e = row \<and> decodeRateRow row = Inr (Some (en_op e))"
  by (cases e) (auto simp: entry_of_def split: sum.splits option.splits)

lemma decodeRateRow_Some:
  "decodeRateRow row = Inr (Some op) \<longleftrightarrow>
     decode_operation (fe_subject_id row) (fe_caused_by row) (fe_payload row) = Inr (Some op) \<and>
     (\<exists>ids. RateEvent_parse row = Some (RateAccept, ids))"
  by (auto simp: decodeRateRow_def decodeKnowledgeOperation_def bind_result_Inr_iff
      split: sum.splits option.splits rate_rating.splits)

text \<open>An operation on a target mentions it.\<close>

lemma decodeTarget_id: "decodeTarget opKind p seen e = Inr (t, seen') \<Longrightarrow> js_field ''id'' e = JStr (kt_id t)"
  by (auto simp: decodeTarget_def js_set_add_def Let_def js_string1_Some split: if_splits option.splits)

lemma decodeTargetEntries_ids:
  "decodeTargetEntries opKind p seen es = Inr ts \<Longrightarrow> t \<in> set ts \<Longrightarrow> \<exists>e\<in>set es. js_field ''id'' e = JStr (kt_id t)"
proof (induction es arbitrary: seen ts)
  case (Cons e es)
  then obtain t' seen' ts' where step: "decodeTarget opKind p seen e = Inr (t', seen')"
      "decodeTargetEntries opKind p seen' es = Inr ts'" "ts = t' # ts'"
    by (auto simp: bind_result_Inr_iff)
  show ?case
  proof (cases "t = t'")
    case True
    then show ?thesis using decodeTarget_id [OF step(1)] by simp
  next
    case False
    then show ?thesis using Cons.IH [OF step(2)] Cons.prems(2) step(3) by auto
  qed
qed simp

lemma decodeTargets_ids:
  "decodeTargets raw opKind p = Inr ts \<Longrightarrow> t \<in> set ts \<Longrightarrow>
     \<exists>es. raw = JArr es \<and> (\<exists>e\<in>set es. js_field ''id'' e = JStr (kt_id t))"
  by (auto simp: decodeTargets_def split: jsval.splits if_splits dest: decodeTargetEntries_ids)

lemma decode_operation_mentions:
  assumes "decode_operation s c payload = Inr (Some op)" "t \<in> set (op_targets op)"
  shows "mentions_target (kt_id t) payload"
proof -
  let ?raw = "js_field KNOWLEDGE_OPERATION_KEY payload"
  have "decodeTargets (js_field ''targets'' ?raw) k p = Inr (op_targets op) \<Longrightarrow> mentions_target (kt_id t) payload"
    for k p
    using assms(2) by (auto simp: mentions_target_def list_ex_iff dest!: decodeTargets_ids)
  moreover have "\<exists>k p. decodeTargets (js_field ''targets'' ?raw) k p = Inr (op_targets op)"
    using decode_operation_branch [OF assms(1)]
    by (elim exE disjE) (simp_all add: decodeCreate_Inr decodeArchive_Inr decodeAndCheckTargets_Inr, force+)
  ultimately show ?thesis by blast
qed

lemma mentions_has_key: "mentions_target i payload \<Longrightarrow> jsonb_has KNOWLEDGE_OPERATION_KEY payload"
  by (auto simp: mentions_target_def jsonb_has_def js_field_def split: jsval.splits option.splits)

lemma jsonb_has_key: "jsonb_has k v \<longleftrightarrow> isRecord v \<and> k \<in> set (js_keys v)"
  by (cases v) (auto simp: jsonb_has_def isRecord_def js_keys_def map_of_eq_None_iff image_iff)

text \<open>The scan for a node is the part of the whole scan that mentions it.\<close>

definition operations_in :: "FoldEvent list \<Rightarrow> OperationEntry list" where
  "operations_in log = concat (map entry_of (filter (\<lambda>e. fe_action e = ''rate'') log))"

definition operations_decode :: "FoldEvent list \<Rightarrow> bool" where
  "operations_decode log \<longleftrightarrow> (\<forall>e\<in>set log. fe_action e = ''rate'' \<longrightarrow> (\<exists>op. decodeRateRow e = Inr op))"

lemma decodeRateRow_absent:
  "\<not> jsonb_has KNOWLEDGE_OPERATION_KEY (fe_payload e) \<Longrightarrow> decodeRateRow e = Inr None"
  using decode_operation_None [of "fe_subject_id e" "fe_caused_by e" "fe_payload e"]
  by (simp add: decodeRateRow_def decodeKnowledgeOperation_def jsonb_has_key)

lemma concat_map_filter:
  assumes "\<And>x. x \<in> set xs \<Longrightarrow> \<not> p x \<Longrightarrow> f x = []"
  shows "concat (map f (filter p xs)) = concat (map f xs)"
  using assms by (induction xs) auto

lemma scan_all_Inr:
  "scanKnowledgeOperationRates log = Inr entries \<longleftrightarrow> operations_decode log \<and> entries = operations_in log"
proof -
  have "concat (map entry_of (filter (\<lambda>e. fe_action e = ''rate'' \<and> jsonb_has KNOWLEDGE_OPERATION_KEY (fe_payload e)) log)) =
      operations_in log"
    unfolding operations_in_def filter_filter [symmetric] by (rule concat_map_filter)
      (simp add: entry_of_def decodeRateRow_absent)
  then show ?thesis
    by (auto simp: scanKnowledgeOperationRates_def collectScan_Inr operations_decode_def)
      (metis decodeRateRow_absent)
qed

lemma operations_in_mem:
  "e \<in> set (operations_in log) \<longleftrightarrow>
     en_rate e \<in> set log \<and> fe_action (en_rate e) = ''rate'' \<and> decodeRateRow (en_rate e) = Inr (Some (en_op e))"
  by (auto simp: operations_in_def entry_of_mem)

lemma scan_node_Inr:
  assumes "operations_decode log"
  shows "scanKnowledgeOperationsForTarget log n =
    Inr (filter (\<lambda>e. mentions_target n (fe_payload (en_rate e))) (operations_in log))"
proof -
  have "concat (map entry_of (filter (\<lambda>e. fe_action e = ''rate'' \<and> mentions_target n (fe_payload e)) log)) =
      filter (\<lambda>e. mentions_target n (fe_payload (en_rate e))) (operations_in log)"
    by (induction log) (auto simp: operations_in_def entry_of_def filter_concat split: sum.splits option.splits)
  then show ?thesis
    using assms by (auto simp: scanKnowledgeOperationsForTarget_def collectScan_Inr operations_decode_def)
qed

section \<open>Facts\<close>

lemma row_by_subset:
  assumes "log_tab.wf log" "set facts \<subseteq> set log" "row_by fe_id i facts = Some r"
  shows "row_by fe_id i log = Some r"
  using assms by (auto simp: log_tab.row_by_iff dest!: row_by_SomeD)

lemma row_by_append: "row_by key k (xs @ ys) = (case row_by key k xs of None \<Rightarrow> row_by key k ys | Some r \<Rightarrow> Some r)"
  by (induction xs) (auto simp: row_by_def)

lemma row_by_filter:
  assumes "\<And>r. r \<in> set xs \<Longrightarrow> key r = k \<Longrightarrow> p r"
  shows "row_by key k (filter p xs) = row_by key k xs"
  using assms by (induction xs) (auto simp: row_by_def)

lemma loadFactRows_set: "set into \<subseteq> set log \<Longrightarrow> set (loadFactRows log ids into) \<subseteq> set log"
  by (auto simp: loadFactRows_def)

lemma row_by_load:
  assumes "log_tab.wf log" "set into \<subseteq> set log" "i \<in> set ids \<or> row_by fe_id i into = row_by fe_id i log"
  shows "row_by fe_id i (loadFactRows log ids into) = row_by fe_id i log"
proof (cases "row_by fe_id i into")
  case into: None
  show ?thesis
  proof (cases "row_by fe_id i log")
    case None
    then have "i \<notin> fe_id ` set (loadFactRows log ids into)"
      using loadFactRows_set [OF assms(2), of ids] by (auto simp: row_by_None_iff)
    then show ?thesis using None row_by_None_iff by metis
  next
    case (Some r)
    then have "i \<in> set ids" using assms(3) into by simp
    then show ?thesis using into by (simp add: loadFactRows_def row_by_append row_by_filter)
  qed
next
  case (Some r)
  then show ?thesis
    using row_by_subset [OF assms(1,2) Some] by (simp add: loadFactRows_def row_by_append)
qed

lemma referencedIds_cong:
  assumes "\<And>r c ts. en_op entry = OpArchive r c ts \<Longrightarrow> row_by fe_id r facts = row_by fe_id r facts'"
  shows "referencedIds entry facts = referencedIds entry facts'"
  using assms by (cases "en_op entry") (simp_all add: referencedIds_def)

lemma referencedIds_birth: "en_op entry = OpArchive r c ts \<Longrightarrow> r \<in> set (referencedIds entry facts)"
  by (simp add: referencedIds_def)

lemma prefetch_covers:
  assumes "log_tab.wf log" "en_rate ` set scan \<subseteq> set log" "entry \<in> set scan"
  shows "referencedIds entry (prefetchFacts log scan) = referencedIds entry log"
    and "i \<in> set (referencedIds entry log) \<Longrightarrow> row_by fe_id i (prefetchFacts log scan) = row_by fe_id i log"
proof -
  let ?f0 = "map en_rate scan"
  let ?f1 = "prefetch_round log scan ?f0"
  have s0: "set ?f0 \<subseteq> set log" using assms(2) by auto
  then have s1: "set ?f1 \<subseteq> set log" unfolding prefetch_round_def by (rule loadFactRows_set)
  have c1: "row_by fe_id i ?f1 = row_by fe_id i log" if "i \<in> set (referencedIds entry ?f0)" for i
    unfolding prefetch_round_def using assms(1,3) s0 that by (intro row_by_load) auto
  have r1: "referencedIds entry ?f1 = referencedIds entry log"
    by (rule referencedIds_cong) (use c1 referencedIds_birth in blast)
  have c2: "row_by fe_id i (prefetchFacts log scan) = row_by fe_id i log"
    if "i \<in> set (referencedIds entry log)" for i
    unfolding prefetchFacts_def prefetch_round_def [of _ _ "prefetch_round _ _ _"]
    by (rule row_by_load [OF assms(1) s1]) (use assms(3) that r1 in force)
  show "referencedIds entry (prefetchFacts log scan) = referencedIds entry log"
    by (rule referencedIds_cong) (use c2 referencedIds_birth in blast)
  show "i \<in> set (referencedIds entry log) \<Longrightarrow> row_by fe_id i (prefetchFacts log scan) = row_by fe_id i log"
    by (rule c2)
qed

section \<open>Verification against the log\<close>

lemma factOrThrow_cong: "row_by fe_id i facts = row_by fe_id i facts' \<Longrightarrow> factOrThrow facts i = factOrThrow facts' i"
  by (simp add: factOrThrow_def)

lemma factOrThrow_Inr: "factOrThrow facts i = Inr r \<longleftrightarrow> row_by fe_id i facts = Some r"
  by (simp add: factOrThrow_def split: option.splits)

lemma require_that_Inr [simp]: "require_that b r = Inr u \<longleftrightarrow> b"
  by (simp add: require_that_def)

lemma verify_archive_targets_Inr:
  "verify_archive_targets facts ts = Inr u \<longleftrightarrow>
     (\<forall>t\<in>set ts. \<exists>f. row_by fe_id (case kt_fact_event_id t of None \<Rightarrow> [] | Some i \<Rightarrow> i) facts = Some f \<and>
        archive_fact_matches t f)"
  by (induction ts) (auto simp: bind_result_Inr_iff factOrThrow_Inr)

text \<open>What a verified operation cites.\<close>

definition archive_verified ::
  "FoldEvent \<Rightarrow> string \<Rightarrow> string \<Rightarrow> KnowledgeOperationTarget list \<Rightarrow> OperationEntry list \<Rightarrow> FoldEvent list \<Rightarrow> bool" where
  "archive_verified rate birth correction targets scan facts \<longleftrightarrow>
     (\<forall>t\<in>set targets. \<exists>f. row_by fe_id (case kt_fact_event_id t of None \<Rightarrow> [] | Some i \<Rightarrow> i) facts = Some f \<and>
        archive_fact_matches t f) \<and>
     (\<exists>b p bp af c. row_by fe_id birth facts = Some b \<and> fe_action b = ''rate'' \<and>
        js_field ''rating'' (fe_payload b) = JStr ''accept'' \<and>
        (\<forall>t\<in>set targets. kt_kind t = TKnowledge \<longrightarrow> kt_id t \<in> set (createdKnowledgeIdsOfRate b scan)) \<and>
        fe_caused_by b = Some p \<and> p \<noteq> [] \<and> fe_subject_id b = p \<and>
        row_by fe_id p facts = Some bp \<and> fe_subject_kind bp = ''knowledge'' \<and>
        row_by fe_id (case fe_caused_by rate of None \<Rightarrow> [] | Some i \<Rightarrow> i) facts = Some af \<and> fe_caused_by af = Some p \<and>
        row_by fe_id correction facts = Some c \<and> retracts_proposal p c)"

lemma verify_archive_Inr:
  "verify_archive rate birth correction targets scan facts = Inr u \<longleftrightarrow>
     archive_verified rate birth correction targets scan facts"
  by (auto simp: verify_archive_def archive_verified_def bind_result_Inr_iff factOrThrow_Inr Let_def list_all_iff
      verify_archive_targets_Inr split: option.splits if_splits)

definition references_verified :: "OperationEntry \<Rightarrow> OperationEntry list \<Rightarrow> FoldEvent list \<Rightarrow> bool" where
  "references_verified entry scan facts \<longleftrightarrow>
     (case en_op entry of
        OpCreate p _ \<Rightarrow> (\<exists>f. row_by fe_id p facts = Some f \<and> fe_action f = ''propose'' \<and>
          fe_subject_kind f \<in> {''knowledge'', ''knowledge_edge''})
      | OpArchive birth correction targets \<Rightarrow> archive_verified (en_rate entry) birth correction targets scan facts)"

lemma verifyKnowledgeOperationReferences_Inr:
  "verifyKnowledgeOperationReferences entry scan facts = Inr u \<longleftrightarrow> references_verified entry scan facts"
proof -
  have "verify_references entry scan facts = Inr v \<longleftrightarrow> references_verified entry scan facts" for v
    by (cases "en_op entry")
      (auto simp: verify_references_def references_verified_def verify_archive_Inr bind_result_Inr_iff factOrThrow_Inr)
  moreover have "verifyKnowledgeOperationReferences entry scan facts = Inr u \<longleftrightarrow>
      verify_references entry scan facts = Inr u"
    by (simp add: verifyKnowledgeOperationReferences_def split: sum.splits)
  ultimately show ?thesis by blast
qed

lemma verifyKnowledgeOperationFacts_Inr:
  "verifyKnowledgeOperationFacts scan facts entries = Inr rows \<longleftrightarrow>
     (\<forall>e\<in>set entries. references_verified e scan facts) \<and>
     rows = concat (map (\<lambda>e. concat (map (\<lambda>i. case row_by fe_id i facts of None \<Rightarrow> [] | Some r \<Rightarrow> [r])
       (referencedIds e facts))) entries)"
  by (induction entries arbitrary: rows)
    (auto simp: bind_result_Inr_iff verifyKnowledgeOperationReferences_Inr)

lemma entry_operation_ok:
  assumes "e \<in> set (operations_in log)"
  shows "operation_ok (fe_subject_id (en_rate e)) (fe_caused_by (en_rate e)) (en_op e)"
  using assms by (auto simp: operations_in_mem decodeRateRow_Some dest: decode_operation_ok)

lemma in_concat_map: "x \<in> set (f t) \<Longrightarrow> t \<in> set ts \<Longrightarrow> x \<in> set (concat (map f ts))"
  by auto

lemma references_verified_log:
  assumes "log_tab.wf log" "set scan \<subseteq> set (operations_in log)" "e \<in> set scan"
  shows "references_verified e scan' (prefetchFacts log scan) = references_verified e scan' log"
proof -
  let ?F = "prefetchFacts log scan"
  have rates: "en_rate ` set scan \<subseteq> set log" using assms(2) by (auto simp: operations_in_mem)
  note covers = prefetch_covers(2) [OF assms(1) rates assms(3)]
  have ok: "operation_ok (fe_subject_id (en_rate e)) (fe_caused_by (en_rate e)) (en_op e)"
    using assms(2,3) entry_operation_ok by blast
  show ?thesis
  proof (cases "en_op e")
    case (OpCreate p ts)
    then have "p \<in> set (referencedIds e log)" using ok by (auto simp: referencedIds_def some_id_def)
    then show ?thesis using covers OpCreate by (simp add: references_verified_def)
  next
    case (OpArchive r c ts)
    have ids: "r \<in> set (referencedIds e log)" "c \<in> set (referencedIds e log)"
      using OpArchive by (simp_all add: referencedIds_def)
    have cause: "row_by fe_id (case fe_caused_by (en_rate e) of None \<Rightarrow> [] | Some i \<Rightarrow> i) ?F =
        row_by fe_id (case fe_caused_by (en_rate e) of None \<Rightarrow> [] | Some i \<Rightarrow> i) log"
      using ok OpArchive by (intro covers) (auto simp: referencedIds_def some_id_def target_ok_def)
    have targets: "row_by fe_id (case kt_fact_event_id t of None \<Rightarrow> [] | Some i \<Rightarrow> i) ?F =
        row_by fe_id (case kt_fact_event_id t of None \<Rightarrow> [] | Some i \<Rightarrow> i) log" if "t \<in> set ts" for t
    proof (rule covers)
      have "target_ok EffectArchive None t" using ok OpArchive that by auto
      then obtain i where i: "kt_fact_event_id t = Some i" "i \<noteq> []" by (auto simp: target_ok_def)
      then have "i \<in> set (some_id (kt_fact_event_id t))" by (simp add: some_id_def)
      then have "i \<in> set (concat (map (\<lambda>t. some_id (kt_fact_event_id t)) (op_targets (en_op e))))"
        by (rule in_concat_map) (simp add: OpArchive that)
      then show "(case kt_fact_event_id t of None \<Rightarrow> [] | Some i \<Rightarrow> i) \<in> set (referencedIds e log)"
        using i by (simp add: referencedIds_def del: set_concat)
    qed
    have birth: "row_by fe_id p ?F = row_by fe_id p log"
      if "row_by fe_id r log = Some b" "fe_caused_by b = Some p" "p \<noteq> []" for b p
      using that OpArchive by (intro covers) (simp add: referencedIds_def some_id_def)
    show ?thesis
      unfolding references_verified_def OpArchive KnowledgeOperationV1.case archive_verified_def
        covers [OF ids(1)] covers [OF ids(2)] cause
      by (rule arg_cong2 [where f = "(\<and>)"]; (rule ball_cong, rule refl, simp add: targets | auto simp: birth))
  qed
qed

text \<open>For a node the operation names, the smaller scan knows the birth as well as the whole scan does.\<close>

lemma created_ids_scan:
  assumes "log_tab.wf log" "n \<in> set (createdKnowledgeIdsOfRate b (operations_in log))"
  shows "createdKnowledgeIdsOfRate b (filter (\<lambda>e. mentions_target n (fe_payload (en_rate e))) (operations_in log)) =
    createdKnowledgeIdsOfRate b (operations_in log)"
proof (cases "row_by (fe_id \<circ> en_rate) (fe_id b) (operations_in log)")
  case None
  then have "row_by (fe_id \<circ> en_rate) (fe_id b)
      (filter (\<lambda>e. mentions_target n (fe_payload (en_rate e))) (operations_in log)) = None"
    by (auto simp: row_by_None_iff)
  then show ?thesis using None by (simp add: createdKnowledgeIdsOfRate_def)
next
  case (Some e)
  then have e: "e \<in> set (operations_in log)" "fe_id (en_rate e) = fe_id b" by (auto dest: row_by_SomeD)
  have "n \<in> set (createdTargetIds (op_targets (en_op e)) TKnowledge)"
    using assms(2) Some by (simp add: createdKnowledgeIdsOfRate_def)
  then have mentions: "mentions_target n (fe_payload (en_rate e))"
    using e(1) by (auto simp: createdTargetIds_def operations_in_mem decodeRateRow_Some
        intro: decode_operation_mentions)
  have "e' = e" if "e' \<in> set (operations_in log)" "fe_id (en_rate e') = fe_id b" for e'
  proof -
    have "en_rate e' = en_rate e"
      using that e assms(1) by (intro log_tab.wf_same_row [of log]) (auto simp: operations_in_mem)
    then show ?thesis using that(1) e(1) by (cases e; cases e') (auto simp: operations_in_mem)
  qed
  then have "row_by (fe_id \<circ> en_rate) (fe_id b)
      (filter (\<lambda>e. mentions_target n (fe_payload (en_rate e))) (operations_in log)) = Some e"
    using Some mentions by (subst row_by_filter) auto
  then show ?thesis using Some by (simp add: createdKnowledgeIdsOfRate_def)
qed

lemma references_verified_scan:
  assumes "log_tab.wf log" "references_verified e (operations_in log) log"
    and "t \<in> set (op_targets (en_op e))" "kt_kind t = TKnowledge" "kt_id t = n"
  shows "references_verified e (filter (\<lambda>e. mentions_target n (fe_payload (en_rate e))) (operations_in log)) log"
proof (cases "en_op e")
  case (OpCreate p ts)
  then show ?thesis using assms(2) by (simp add: references_verified_def)
next
  case (OpArchive r c ts)
  then have "archive_verified (en_rate e) r c ts (operations_in log) log" using assms(2) by (simp add: references_verified_def)
  then have "archive_verified (en_rate e) r c ts
      (filter (\<lambda>e. mentions_target n (fe_payload (en_rate e))) (operations_in log)) log"
    unfolding archive_verified_def
    using created_ids_scan [OF assms(1)] assms(3-5) OpArchive by force
  then show ?thesis using OpArchive by (simp add: references_verified_def)
qed

text \<open>The class-level check, against the log.\<close>

definition operations_verified :: "FoldEvent list \<Rightarrow> bool" where
  "operations_verified log \<longleftrightarrow> operations_decode log \<and>
     (\<forall>e\<in>set (operations_in log). references_verified e (operations_in log) log)"

lemma assertKnowledgeOperationsDecodable_iff:
  assumes "log_tab.wf log"
  shows "assertKnowledgeOperationsDecodable log = Inr u \<longleftrightarrow> operations_verified log"
  using references_verified_log [OF assms, of "operations_in log"]
  by (auto simp: assertKnowledgeOperationsDecodable_def bind_result_Inr_iff scan_all_Inr
      verifyKnowledgeOperationFacts_Inr operations_verified_def)

end
