(* ===== verification/KnowledgeNodeComplete.thy ===== *)
theory KnowledgeNodeComplete
  imports KnowledgeNodeGather
begin

text \<open>
  What is gathered for a node is all that matters for it. The writers keep three habits on which the
  gather relies: a decided mutation is filed under the node it mutates, a proposal is decided once, and
  the id a decision mints is anchored in the index or named by an operation.
\<close>

section \<open>The writers' habits\<close>

definition mutation_coherent :: "FoldEvent \<Rightarrow> bool" where
  "mutation_coherent ev \<longleftrightarrow>
     (case mutation_of ev of
        None \<Rightarrow> True
      | Some (Reparent m _ _) \<Rightarrow> fe_subject_id ev = m
      | Some (Merge _ i _) \<Rightarrow> fe_subject_id ev = i \<and> fe_action ev = ''experimental:knowledge_merge''
      | Some (Split f _ _) \<Rightarrow> fe_subject_id ev = f)"

definition anchored_node :: "AnchorRow list \<Rightarrow> string \<Rightarrow> string \<Rightarrow> bool" where
  "anchored_node idx n p \<longleftrightarrow>
     row_by mx_materialized_id n idx = Some \<lparr>mx_materialized_id = n, mx_anchor_event_id = p, mx_subject_kind = ''knowledge''\<rparr>"

lemma anchored_node_event: "anchored_node idx n p \<Longrightarrow> getAnchorEventId idx n = Some p"
  by (simp add: anchored_node_def getAnchorEventId_def)

definition history_ok :: "FoldEvent list \<Rightarrow> AnchorRow list \<Rightarrow> bool" where
  "history_ok log idx \<longleftrightarrow> log_tab.wf log \<and> [] \<notin> fe_id ` set log \<and> single_accepts log \<and>
     (\<forall>ev\<in>set log. fe_id ev \<in> fst ` set (accepts_in log) \<longrightarrow> mutation_coherent ev) \<and>
     (\<forall>rate\<in>set log. \<forall>(p, t, ids)\<in>set (accepts_of rate). \<forall>n\<in>set ids.
        anchored_node idx n p \<or> jsonb_has KNOWLEDGE_OPERATION_KEY (fe_payload rate))"

section \<open>Accepts of a decodable log\<close>

lemma rate_accept_decodes:
  assumes "operations_decode log" "ev \<in> set log"
  shows "\<exists>a. rate_accept ev = Inr a"
proof (cases "fe_action ev = ''rate''")
  case True
  then obtain op where op: "decodeRateRow ev = Inr op" using assms by (auto simp: operations_decode_def)
  then have decoded: "decodeKnowledgeOperation (fe_id ev) (fe_subject_id ev) (fe_caused_by ev) (fe_payload ev) = Inr op"
    by (auto simp: decodeRateRow_def bind_result_Inr_iff split: option.splits prod.splits rate_rating.splits)
  show ?thesis
  proof (cases "RateEvent_parse ev")
    case None
    then have "op = None" using op by (cases op) (auto simp: decodeRateRow_Some)
    then show ?thesis using True decoded None by (simp add: rate_accept_def)
  next
    case (Some r)
    then show ?thesis using True decoded by (cases r) (simp add: rate_accept_def split: option.splits)
  qed
qed (simp add: rate_accept_def)

lemma accepts_of_rate:
  "(p, t, ids) \<in> set (accepts_of ev) \<Longrightarrow> fe_action ev = ''rate'' \<and> fe_caused_by ev = Some p \<and> p \<noteq> []"
  by (auto simp: accepts_of_mem rate_accept_Some)

lemma accepts_in_mem: "a \<in> set (accepts_in evs) \<longleftrightarrow> (\<exists>ev\<in>set evs. a \<in> set (accepts_of ev))"
  by (simp add: accepts_in_def)

lemma accepts_in_subset:
  assumes "set G \<subseteq> set log" "distinct G" "distinct log" "single_accepts log"
  shows "single_accepts G"
proof -
  have "mset G \<subseteq># mset log"
    using assms(1-3) subset_imp_msubset_mset_set [of "set G" "set log"] by (simp add: mset_set_set)
  then obtain R where R: "mset log = mset G + R"
    by (auto simp: mset_subset_eq_exists_conv)
  have acc: "mset (accepts_in evs) = (\<Sum>ev\<in>#mset evs. mset (accepts_of ev))" for evs
    by (induction evs) (simp_all add: accepts_in_def)
  have "mset (accepts_in G) \<subseteq># mset (accepts_in log)"
    by (simp add: acc R)
  then have "mset (map fst (accepts_in G)) \<subseteq># mset (map fst (accepts_in log))"
    by (simp add: image_mset_subseteq_mono)
  then obtain ps where "mset (map fst (accepts_in log)) = mset (map fst (accepts_in G) @ ps)"
    by (metis ex_mset mset_append mset_subset_eq_exists_conv)
  then show ?thesis
    using assms(4) unfolding single_accepts_def
    by (metis distinct_append mset_eq_imp_distinct_iff)
qed

text \<open>An accept whose rate carries an operation mints what the operation creates.\<close>

lemma accepts_of_operation:
  assumes "(p, t, ids) \<in> set (accepts_of ev)" "jsonb_has KNOWLEDGE_OPERATION_KEY (fe_payload ev)" "n \<in> set ids"
  shows "\<exists>op. decodeRateRow ev = Inr (Some op) \<and> n \<in> set (createdTargetIds (op_targets op) TKnowledge)"
proof -
  obtain op legacy where op:
      "decodeKnowledgeOperation (fe_id ev) (fe_subject_id ev) (fe_caused_by ev) (fe_payload ev) = Inr op"
      "RateEvent_parse ev = Some (RateAccept, legacy)" "ids = minted_by op legacy"
    using assms(1) by (auto simp: accepts_of_mem rate_accept_Some)
  have "op \<noteq> None"
    using op(1) assms(2) decode_operation_None [of "fe_subject_id ev" "fe_caused_by ev" "fe_payload ev"]
    by (auto simp: decodeKnowledgeOperation_def jsonb_has_key split: sum.splits)
  then obtain x where x: "op = Some x" by auto
  then have "decodeRateRow ev = Inr (Some x)"
    using op by (simp add: decodeRateRow_def)
  moreover have "n \<in> set (createdTargetIds (op_targets x) TKnowledge)"
    using op(3) x assms(3) by (cases x) (auto simp: minted_by_def)
  ultimately show ?thesis by blast
qed

section \<open>What is gathered\<close>

lemma set_targetsByEntity:
  "e \<in> set (targetsByEntity scan k n) \<longleftrightarrow> e \<in> set scan \<and> (\<exists>t\<in>set (op_targets (en_op e)). kt_kind t = k \<and> kt_id t = n)"
  by (auto simp: targetsByEntity_def)

text \<open>The rows gathered before the rates are added.\<close>

definition gathered_base :: "FoldEvent list \<Rightarrow> AnchorRow list \<Rightarrow> string \<Rightarrow> FoldEvent set" where
  "gathered_base log idx n =
     set (gather_base log idx (filter (absorbed_in_merge n) log) n) \<union>
     (\<Union>e\<in>{e \<in> set (operations_in log). \<exists>t\<in>set (op_targets (en_op e)). kt_kind t = TKnowledge \<and> kt_id t = n}.
        insert (en_rate e) {r. \<exists>i\<in>set (referencedIds e log). row_by fe_id i log = Some r})"

lemma gathered_base_log:
  assumes "log_tab.wf log"
  shows "gathered_base log idx n \<subseteq> set log"
  by (auto simp: gathered_base_def gather_base_def operations_in_mem dest: row_by_SomeD split: option.splits if_splits)

text \<open>A scan that finds the operations on a node, and facts that cover what they cite.\<close>

definition scan_for :: "FoldEvent list \<Rightarrow> string \<Rightarrow> OperationEntry list \<Rightarrow> FoldEvent list \<Rightarrow> bool" where
  "scan_for log n scan facts \<longleftrightarrow>
     set (targetsByEntity scan TKnowledge n) =
       {e \<in> set (operations_in log). \<exists>t\<in>set (op_targets (en_op e)). kt_kind t = TKnowledge \<and> kt_id t = n} \<and>
     (\<forall>e\<in>set (targetsByEntity scan TKnowledge n). references_verified e scan facts \<and>
        referencedIds e facts = referencedIds e log \<and>
        (\<forall>i\<in>set (referencedIds e log). row_by fe_id i facts = row_by fe_id i log))"

lemma UN_insert_both: "A \<union> (f ` E \<union> (\<Union>e\<in>E. F e)) = A \<union> (\<Union>e\<in>E. insert (f e) (F e))"
  by blast

lemma gather_rows_Inr:
  assumes "scan_for log n scan facts" "set merged = set (filter (absorbed_in_merge n) log)"
  shows "\<exists>base. set base = gathered_base log idx n \<and>
    gather_rows log idx scan facts merged chained n = Inr (js_uniq (base @ chained base))"
proof -
  let ?entries = "targetsByEntity scan TKnowledge n"
  define opFacts where "opFacts = concat (map (\<lambda>e. concat (map
      (\<lambda>i. case row_by fe_id i facts of None \<Rightarrow> [] | Some r \<Rightarrow> [r]) (referencedIds e facts))) ?entries)"
  have verified: "verifyKnowledgeOperationFacts scan facts ?entries = Inr opFacts"
    using assms(1) by (simp add: scan_for_def verifyKnowledgeOperationFacts_Inr opFacts_def)
  have cover: "referencedIds e facts = referencedIds e log"
      "\<And>i. i \<in> set (referencedIds e log) \<Longrightarrow> row_by fe_id i facts = row_by fe_id i log" if "e \<in> set ?entries" for e
    using assms(1) that unfolding scan_for_def by blast+
  have facts: "set opFacts = (\<Union>e\<in>set ?entries. {r. \<exists>i\<in>set (referencedIds e log). row_by fe_id i log = Some r})"
    by (auto simp: opFacts_def cover split: option.splits) (metis option.inject)+
  have "set (gather_base log idx merged n) = set (gather_base log idx (filter (absorbed_in_merge n) log) n)"
    using assms(2) by (simp add: gather_base_def)
  moreover have "set ?entries = {e \<in> set (operations_in log). \<exists>t\<in>set (op_targets (en_op e)). kt_kind t = TKnowledge \<and> kt_id t = n}"
    using assms(1) by (simp add: scan_for_def)
  ultimately have "set (js_uniq (gather_base log idx merged n @ map en_rate ?entries @ opFacts)) = gathered_base log idx n"
    unfolding gathered_base_def set_js_uniq set_append facts set_map by (simp only: UN_insert_both)
  then show ?thesis
    unfolding gather_rows_def Let_def verified bind_result_simps by blast
qed

lemma scan_for_node:
  fixes n :: string
  assumes "log_tab.wf log" "operations_verified log"
  defines "scan \<equiv> filter (\<lambda>e. mentions_target n (fe_payload (en_rate e))) (operations_in log)"
  shows "scan_for log n scan (prefetchFacts log scan)"
  unfolding scan_for_def
proof (intro conjI ballI)
  have sub: "set scan \<subseteq> set (operations_in log)" "en_rate ` set scan \<subseteq> set log"
    by (auto simp: scan_def operations_in_mem)
  show entries: "set (targetsByEntity scan TKnowledge n) = {e \<in> set (operations_in log).
      \<exists>t\<in>set (op_targets (en_op e)). kt_kind t = TKnowledge \<and> kt_id t = n}"
    by (auto simp: scan_def set_targetsByEntity operations_in_mem decodeRateRow_Some dest: decode_operation_mentions)
  fix e assume entry: "e \<in> set (targetsByEntity scan TKnowledge n)"
  then have e: "e \<in> set scan" by (simp add: set_targetsByEntity)
  show "row_by fe_id i (prefetchFacts log scan) = row_by fe_id i log" if "i \<in> set (referencedIds e log)" for i
    using prefetch_covers [OF assms(1) sub(2) e] that by blast
  show "referencedIds e (prefetchFacts log scan) = referencedIds e log"
    using prefetch_covers [OF assms(1) sub(2) e] by blast
  obtain t where "t \<in> set (op_targets (en_op e))" "kt_kind t = TKnowledge" "kt_id t = n"
    using entry unfolding entries by blast
  moreover have "references_verified e (operations_in log) log"
    using assms(2) sub(1) e by (auto simp: operations_verified_def)
  ultimately show "references_verified e scan (prefetchFacts log scan)"
    using references_verified_log [OF assms(1) sub(1) e] references_verified_scan [OF assms(1)] by (simp add: scan_def)
qed

lemma scan_for_all:
  assumes "log_tab.wf log" "operations_verified log"
  shows "scan_for log n (operations_in log) (prefetchFacts log (operations_in log))"
proof -
  have sub: "en_rate ` set (operations_in log) \<subseteq> set log" by (auto simp: operations_in_mem)
  have "references_verified e (operations_in log) (prefetchFacts log (operations_in log))"
    if "e \<in> set (operations_in log)" for e
    using that assms(2) references_verified_log [OF assms(1) order_refl that] by (simp add: operations_verified_def)
  then show ?thesis
    using prefetch_covers [OF assms(1) sub] by (auto simp: scan_for_def set_targetsByEntity)
qed

lemma gather_Inr:
  assumes "log_tab.wf log" "operations_verified log"
  shows "\<exists>G. gather log idx n = Inr G \<and> distinct G \<and>
    set G = gathered_base log idx n \<union>
      {e \<in> set log. fe_action e = ''rate'' \<and> fe_caused_by e \<in> Some ` fe_id ` gathered_base log idx n}"
proof -
  have "scanKnowledgeOperationsForTarget log n =
      Inr (filter (\<lambda>e. mentions_target n (fe_payload (en_rate e))) (operations_in log))"
    using assms(2) by (simp add: scan_node_Inr operations_verified_def)
  moreover from gather_rows_Inr [OF scan_for_node [OF assms, of n] refl,
      of idx "\<lambda>base. filter (\<lambda>e. fe_action e = ''rate'' \<and> fe_caused_by e \<in> Some ` fe_id ` set base) log"]
  obtain base where "set base = gathered_base log idx n"
    "gather_rows log idx (filter (\<lambda>e. mentions_target n (fe_payload (en_rate e))) (operations_in log))
        (prefetchFacts log (filter (\<lambda>e. mentions_target n (fe_payload (en_rate e))) (operations_in log)))
        (filter (absorbed_in_merge n) log)
        (\<lambda>base. filter (\<lambda>e. fe_action e = ''rate'' \<and> fe_caused_by e \<in> Some ` fe_id ` set base) log) n =
      Inr (js_uniq (base @ filter (\<lambda>e. fe_action e = ''rate'' \<and> fe_caused_by e \<in> Some ` fe_id ` set base) log))"
    by blast
  ultimately show ?thesis by (simp add: gather_def)
qed

lemma set_prefetchKnowledgeMergeEvents:
  "set (prefetchKnowledgeMergeEvents log n) = set (filter (absorbed_in_merge n) log)"
proof -
  have "(js_string v = Some n) = (v = JStr n)" for v
    by (cases v) (simp_all add: js_string_def)
  then have "m \<in> set (case js_field ''from_ids'' (fe_payload m) of
        JArr xs \<Rightarrow> map (\<lambda>_. m) (filter (\<lambda>x. js_string x = Some n) xs) | _ \<Rightarrow> []) \<longleftrightarrow>
      (case js_field ''from_ids'' (fe_payload m) of JArr xs \<Rightarrow> JStr n \<in> set xs | _ \<Rightarrow> False)" for m
    by (auto split: jsval.splits)
  moreover have "x \<in> set (case js_field ''from_ids'' (fe_payload m) of
        JArr xs \<Rightarrow> map (\<lambda>_. m) (filter (\<lambda>x. js_string x = Some n) xs) | _ \<Rightarrow> []) \<Longrightarrow> x = m" for x m
    by (auto split: jsval.splits)
  ultimately show ?thesis
    unfolding prefetchKnowledgeMergeEvents_def absorbed_in_merge_def set_concat set_map set_filter by blast
qed

lemma set_prefetchKnowledgeRates:
  "r \<in> set (prefetchKnowledgeRates log i) \<longleftrightarrow> r \<in> set log \<and> fe_action r = ''rate'' \<and> fe_caused_by r = Some i \<and>
     (\<exists>a\<in>set log. fe_id a = i \<and> fe_subject_kind a = ''knowledge'')"
  by (auto simp: prefetchKnowledgeRates_def filter_empty_conv)

lemma gather_prefetched_Inr:
  assumes "log_tab.wf log" "operations_verified log"
  shows "\<exists>G. gather_prefetched (operations_in log) (prefetchFacts log (operations_in log)) log idx n = Inr G \<and> distinct G \<and>
    set G = gathered_base log idx n \<union> {e \<in> set log. fe_action e = ''rate'' \<and>
      (\<exists>a\<in>gathered_base log idx n. fe_subject_kind a = ''knowledge'' \<and> fe_caused_by e = Some (fe_id a))}"
proof -
  let ?chained = "\<lambda>base. concat (map (\<lambda>e. filter (\<lambda>r. fe_action r = ''rate'') (prefetchKnowledgeRates log (fe_id e))) base)"
  from gather_rows_Inr [OF scan_for_all [OF assms, of n] set_prefetchKnowledgeMergeEvents, of idx ?chained]
  obtain base where base: "set base = gathered_base log idx n"
    "gather_prefetched (operations_in log) (prefetchFacts log (operations_in log)) log idx n =
       Inr (js_uniq (base @ ?chained base))"
    unfolding gather_prefetched_def by blast
  have "set (?chained base) = {e \<in> set log. fe_action e = ''rate'' \<and>
      (\<exists>a\<in>gathered_base log idx n. fe_subject_kind a = ''knowledge'' \<and> fe_caused_by e = Some (fe_id a))}"
    using base(1) gathered_base_log [OF assms(1), of idx n] log_tab.wf_same_row [OF assms(1)]
    by (auto simp: set_prefetchKnowledgeRates) (metis subsetD)+
  then show ?thesis using base by auto
qed

section \<open>Every touching event is gathered\<close>

lemma gathered_subject:
  "ev \<in> set log \<Longrightarrow> fe_subject_kind ev = ''knowledge'' \<Longrightarrow> fe_subject_id ev = n \<Longrightarrow> ev \<in> gathered_base log idx n"
  by (simp add: gathered_base_def gather_base_def)

lemma gathered_absorbed: "ev \<in> set log \<Longrightarrow> absorbed_in_merge n ev \<Longrightarrow> ev \<in> gathered_base log idx n"
  by (simp add: gathered_base_def gather_base_def)

lemma merge_absorbed:
  assumes "mutation_of ev = Some (Merge fs i vs)" "n \<in> set fs" "fe_action ev = ''experimental:knowledge_merge''"
  shows "absorbed_in_merge n ev"
proof -
  have "js_array js_string1 (js_field ''from_ids'' (fe_payload ev)) = Some fs"
    using assms(1)
    by (auto simp: mutation_of_def KnowledgeMutationProposalChange_parse_def Let_def split: if_splits option.splits)
  then obtain xs where "js_field ''from_ids'' (fe_payload ev) = JArr xs" "fs = map (the \<circ> js_string1) xs"
      "list_all (\<lambda>x. js_string1 x \<noteq> None) xs"
    by (auto simp: js_array_def split: jsval.splits if_splits)
  then show ?thesis
    using assms(2,3) by (auto simp: absorbed_in_merge_def list_all_iff js_string1_Some)
qed

text \<open>The proposal whose decision minted the node.\<close>

lemma gathered_minting:
  assumes ok: "history_ok log idx" and dec: "operations_decode log"
    and ev: "ev \<in> set log" "n \<in> set (minted_ids (collected log) (fe_id ev))"
  shows "ev \<in> gathered_base log idx n"
proof -
  have wf: "log_tab.wf log" and single: "single_accepts log" and ids: "[] \<notin> fe_id ` set log"
    using ok by (simp_all add: history_ok_def)
  have "fe_id ev \<in> fst ` set (accepts_in log)"
    using ev(2) collected_none(2) [of "fe_id ev" log] by force
  then obtain t ids where "(fe_id ev, t, ids) \<in> set (accepts_in log)" by force
  moreover from this have "ids = minted_ids (collected log) (fe_id ev)"
    using collected_single(2) [OF single] by simp
  ultimately obtain rate where rate: "rate \<in> set log" "(fe_id ev, t, ids) \<in> set (accepts_of rate)" "n \<in> set ids"
    using ev(2) by (auto simp: accepts_in_mem)
  then consider "anchored_node idx n (fe_id ev)" | "jsonb_has KNOWLEDGE_OPERATION_KEY (fe_payload rate)"
    using ok by (fastforce simp: history_ok_def)
  then show ?thesis
  proof cases
    case 1
    have "fe_id ev \<noteq> []" using ids ev(1) by force
    then show ?thesis using anchored_node_event [OF 1] ev(1) by (simp add: gathered_base_def gather_base_def)
  next
    case 2
    obtain op where op: "decodeRateRow rate = Inr (Some op)" "n \<in> set (createdTargetIds (op_targets op) TKnowledge)"
      using accepts_of_operation [OF rate(2) 2 rate(3)] by blast
    let ?e = "\<lparr>en_rate = rate, en_op = op\<rparr>"
    have cause: "fe_action rate = ''rate''" "fe_caused_by rate = Some (fe_id ev)" "fe_id ev \<noteq> []"
      using accepts_of_rate [OF rate(2)] by auto
    then have "?e \<in> set (operations_in log)" "\<exists>t\<in>set (op_targets (en_op ?e)). kt_kind t = TKnowledge \<and> kt_id t = n"
      using op rate(1) by (auto simp: operations_in_mem createdTargetIds_def)
    moreover have "fe_id ev \<in> set (referencedIds ?e log)" "row_by fe_id (fe_id ev) log = Some ev"
      using cause wf ev(1) by (simp_all add: referencedIds_def some_id_def log_tab.row_by_eq)
    ultimately show ?thesis unfolding gathered_base_def by blast
  qed
qed

lemma touches_cases:
  assumes "touches n ac ev"
  shows "fe_subject_id ev = n \<or> n \<in> set (minted_ids ac (fe_id ev)) \<or>
    (\<exists>c. mutation_of ev = Some c \<and> mutation_touches n (minted_ids ac (fe_id ev)) c \<and>
      accepted_at ac (fe_id ev) \<noteq> None)"
proof (cases "fe_subject_id ev = n \<or> n \<in> set (minted_ids ac (fe_id ev))")
  case False
  then have "n \<notin> set (take 1 (minted_ids ac (fe_id ev)))" using in_set_takeD by metis
  then show ?thesis
    using assms False unfolding touches_def by (cases "mutation_of ev") simp_all
qed blast

lemma touching_gathered:
  assumes ok: "history_ok log idx" and dec: "operations_decode log"
    and ev: "ev \<in> set log" "touches n (collected log) ev"
  shows "ev \<in> gathered_base log idx n"
proof -
  have kind: "fe_subject_kind ev = ''knowledge''" using ev(2) by (simp add: touches_def)
  from touches_cases [OF ev(2)] show ?thesis
  proof (elim disjE exE conjE)
    assume "fe_subject_id ev = n"
    then show ?thesis by (rule gathered_subject [OF ev(1) kind])
  next
    assume "n \<in> set (minted_ids (collected log) (fe_id ev))"
    then show ?thesis by (rule gathered_minting [OF ok dec ev(1)])
  next
    fix c
    assume c: "mutation_of ev = Some c" "mutation_touches n (minted_ids (collected log) (fe_id ev)) c"
      and "accepted_at (collected log) (fe_id ev) \<noteq> None"
    then have "fe_id ev \<in> fst ` set (accepts_in log)" using collected_none(1) by metis
    then have coherent: "mutation_coherent ev" using ok ev(1) by (simp add: history_ok_def)
    show ?thesis
    proof (cases c)
      case (Reparent m p v)
      then show ?thesis using c coherent gathered_subject [OF ev(1) kind] by (simp add: mutation_coherent_def)
    next
      case (Merge fs i vs)
      then have "fe_subject_id ev = i" "fe_action ev = ''experimental:knowledge_merge''"
        using c(1) coherent by (simp_all add: mutation_coherent_def)
      then show ?thesis
        using c Merge merge_absorbed gathered_subject [OF ev(1) kind] gathered_absorbed [OF ev(1)] by auto
    next
      case (Split f xs v)
      then show ?thesis
        using c coherent gathered_subject [OF ev(1) kind] gathered_minting [OF ok dec ev(1)]
        by (auto simp: mutation_coherent_def)
    qed
  qed
qed

lemma rate_untouching: "fe_action ev = ''rate'' \<Longrightarrow> \<not> touches n ac ev"
  by (auto simp: touches_def own_actions_def mutation_of_def js_starts_with_def split: option.splits)

text \<open>What is gathered, with at least the rates of the knowledge events in it, folds as the log does.\<close>

lemma gathered_folds:
  assumes ok: "history_ok log idx" and verified: "operations_verified log"
    and G: "distinct G" "gathered_base log idx n \<subseteq> set G" "set G \<subseteq> set log"
      "\<And>e. e \<in> set G - gathered_base log idx n \<Longrightarrow> fe_action e = ''rate''"
      "\<And>a e. a \<in> gathered_base log idx n \<Longrightarrow> fe_subject_kind a = ''knowledge'' \<Longrightarrow> e \<in> set log \<Longrightarrow>
         fe_action e = ''rate'' \<Longrightarrow> fe_caused_by e = Some (fe_id a) \<Longrightarrow> e \<in> set G"
  shows "foldKnowledgeNode js_date n G = foldKnowledgeNode js_date n log"
    and "\<exists>row. foldKnowledgeNode js_date n log = Inr row"
proof -
  have wf: "log_tab.wf log" and single: "single_accepts log"
    using ok by (simp_all add: history_ok_def)
  have dec: "operations_decode log" using verified by (simp add: operations_verified_def)
  have "distinct log" using wf by (auto simp: log_tab.wf_def distinct_map)
  then have singleG: "single_accepts G" using accepts_in_subset [OF G(3,1) _ single] by blast
  have idsG: "distinct (map fe_id G)"
    using G(1,3) wf by (auto simp: log_tab.wf_def distinct_map inj_on_def)
  have own: "own_accepts log (fe_id ev) = own_accepts G (fe_id ev)"
    if "ev \<in> gathered_base log idx n" "fe_subject_kind ev = ''knowledge''" for ev
  proof (rule own_accepts_eq [OF single singleG])
    fix t ids
    have "rate \<in> set G" if "rate \<in> set log" "(fe_id ev, t, ids) \<in> set (accepts_of rate)" for rate
      using G(5) [OF \<open>ev \<in> gathered_base log idx n\<close> \<open>fe_subject_kind ev = ''knowledge''\<close> that(1)]
        accepts_of_rate [OF that(2)] by blast
    then show "(fe_id ev, t, ids) \<in> set (accepts_in log) \<longleftrightarrow> (fe_id ev, t, ids) \<in> set (accepts_in G)"
      using G(3) by (auto simp: accepts_in_mem)
  qed
  have kind: "fe_subject_kind ev = ''knowledge''" if "touches n ac ev" for ac ev
    using that by (simp add: touches_def)
  have project: "node.project n (collected log) js_date log = node.project n (collected G) js_date G"
  proof (rule project_same_touching)
    show "ev \<in> set log \<longleftrightarrow> ev \<in> set G" if "touches n (collected log) ev" for ev
      using that touching_gathered [OF ok dec] G(2,3) by blast
    show "own_accepts log (fe_id ev) = own_accepts G (fe_id ev) \<or>
        \<not> touches n (collected log) ev \<and> \<not> touches n (collected G) ev" if "ev \<in> set G" for ev
      using that own rate_untouching kind G(4) by (metis DiffI)
  qed (use wf idsG in \<open>simp_all add: log_tab.wf_def\<close>)
  have decoded: "\<forall>ev\<in>set log. \<exists>a. rate_accept ev = Inr a"
    using rate_accept_decodes [OF dec] by blast
  then have "foldKnowledgeNode js_date n log = Inr (node.project n (collected log) js_date log)"
    by (simp add: foldKnowledgeNode_Inr)
  moreover have "foldKnowledgeNode js_date n G = Inr (node.project n (collected log) js_date log)"
    using decoded G(3) project by (auto simp: foldKnowledgeNode_Inr)
  ultimately show "foldKnowledgeNode js_date n G = foldKnowledgeNode js_date n log"
      "\<exists>row. foldKnowledgeNode js_date n log = Inr row"
    by simp_all
qed

lemma gather_complete:
  assumes ok: "history_ok log idx" and verified: "operations_verified log"
  shows "gatherAndFoldKnowledgeNode js_date log idx n = foldKnowledgeNode js_date n log"
    and "\<exists>row. foldKnowledgeNode js_date n log = Inr row"
proof -
  have wf: "log_tab.wf log" using ok by (simp add: history_ok_def)
  obtain G where G: "gather log idx n = Inr G" "distinct G"
      "set G = gathered_base log idx n \<union>
        {e \<in> set log. fe_action e = ''rate'' \<and> fe_caused_by e \<in> Some ` fe_id ` gathered_base log idx n}"
    using gather_Inr [OF wf verified, of idx n] by (elim exE conjE)
  note folds = gathered_folds [OF ok verified G(2), of n js_date]
  show "gatherAndFoldKnowledgeNode js_date log idx n = foldKnowledgeNode js_date n log"
    unfolding gatherAndFoldKnowledgeNode_def G(1) bind_result_simps
    by (rule folds(1)) (use gathered_base_log [OF wf, of idx n] in \<open>auto simp: G(3)\<close>)
  show "\<exists>row. foldKnowledgeNode js_date n log = Inr row"
    by (rule folds(2)) (use gathered_base_log [OF wf, of idx n] in \<open>auto simp: G(3)\<close>)
qed

lemma foldOne_complete:
  assumes ok: "history_ok log idx" and verified: "operations_verified log"
  shows "\<exists>foldOne. knowledge_foldOne js_date log idx = Inr foldOne \<and>
    (\<forall>n. foldOne n = foldKnowledgeNode js_date n log)"
proof -
  have wf: "log_tab.wf log" using ok by (simp add: history_ok_def)
  have "bind_result (gather_prefetched (operations_in log) (prefetchFacts log (operations_in log)) log idx n)
      (foldKnowledgeNode js_date n) = foldKnowledgeNode js_date n log" for n
  proof -
    obtain G where G: "gather_prefetched (operations_in log) (prefetchFacts log (operations_in log)) log idx n = Inr G"
        "distinct G" "set G = gathered_base log idx n \<union> {e \<in> set log. fe_action e = ''rate'' \<and>
          (\<exists>a\<in>gathered_base log idx n. fe_subject_kind a = ''knowledge'' \<and> fe_caused_by e = Some (fe_id a))}"
      using gather_prefetched_Inr [OF wf verified, of idx n] by (elim exE conjE)
    have "foldKnowledgeNode js_date n G = foldKnowledgeNode js_date n log"
      by (rule gathered_folds(1) [OF ok verified G(2)])
        (use gathered_base_log [OF wf, of idx n] in \<open>auto simp: G(3)\<close>)
    then show ?thesis by (simp add: G(1))
  qed
  moreover have "scanKnowledgeOperationRates log = Inr (operations_in log)"
    using verified by (simp add: scan_all_Inr operations_verified_def)
  ultimately show ?thesis by (simp add: knowledge_foldOne_def Let_def)
qed

end
