(* ===== verification/KnowledgeNodeProjection.thy ===== *)
theory KnowledgeNodeProjection
  imports KnowledgeNodeComplete
begin

text \<open>
  The table \<open>knowledge\<close> as a projection of the log: the write-through of one node
  (\<open>src/src/kernel/records/knowledge-node-materialization.ts\<close>), the adapter of the kind in the registry
  (\<open>src/src/server/projections/entity-registry.ts\<close>), the rebuild (\<open>src/scripts/rebuild-projection.ts\<close>) and
  the two audits (\<open>src/src/server/projections/audit-kind.ts\<close>).

  An adapter is a record of the functions the registry names; the rebuild and the audits are written
  over any adapter, as in the code. The tables hold structural columns only. Texts for people (the
  rendering of a difference) are reduced to the field they name.
\<close>

section \<open>Tables\<close>

record knowledge_db =
  kd_log :: "FoldEvent list"
  kd_rows :: "KnowledgeRow list"
  kd_edges :: "EdgeRow list"
  kd_index :: "AnchorRow list"

datatype knowledge_error = Undecodable op_error | KnowledgeForeignKey

definition lift_op :: "op_error + 'a \<Rightarrow> knowledge_error + 'a" where
  "lift_op m = (case m of Inl e \<Rightarrow> Inl (Undecodable e) | Inr a \<Rightarrow> Inr a)"

section \<open>Write-through of one node\<close>

definition upsertProjectedKnowledgeNode :: "KnowledgeRow \<Rightarrow> knowledge_db \<Rightarrow> knowledge_db" where
  "upsertProjectedKnowledgeNode projected db =
     (if list_ex (\<lambda>r. nr_id r = nr_id projected) (kd_rows db)
      then db\<lparr>kd_rows := update_where (\<lambda>r. nr_id r = nr_id projected) (\<lambda>_. projected) (kd_rows db)\<rparr>
      else db\<lparr>kd_rows := kd_rows db @ [projected]\<rparr>)"

text \<open>\<open>DELETE\<close>; the endpoints of an edge are foreign keys without an action.\<close>

definition delete_node :: "string \<Rightarrow> knowledge_db \<Rightarrow> knowledge_error + knowledge_db" where
  "delete_node nodeId db =
     (if list_ex (\<lambda>r. nr_id r = nodeId) (kd_rows db) \<and>
         list_ex (\<lambda>e. ke_from e = nodeId \<or> ke_to e = nodeId) (kd_edges db)
      then Inl KnowledgeForeignKey
      else Inr (db\<lparr>kd_rows := filter (\<lambda>r. nr_id r \<noteq> nodeId) (kd_rows db)\<rparr>))"

definition projectKnowledgeNode ::
  "(jsval \<Rightarrow> int option) \<Rightarrow> string \<Rightarrow> knowledge_db \<Rightarrow> knowledge_error + knowledge_db" where
  "projectKnowledgeNode js_date nodeId db =
     bind_result (lift_op (gatherAndFoldKnowledgeNode js_date (kd_log db) (kd_index db) nodeId)) (\<lambda>projected.
       case projected of
         None \<Rightarrow> delete_node nodeId db
       | Some row \<Rightarrow> Inr (upsertProjectedKnowledgeNode row db))"

definition projectKnowledgeNodeGuarded ::
  "(jsval \<Rightarrow> int option) \<Rightarrow> string \<Rightarrow> knowledge_db \<Rightarrow> knowledge_error + knowledge_db" where
  "projectKnowledgeNodeGuarded js_date nodeId db =
     bind_result (lift_op (gatherAndFoldKnowledgeNode js_date (kd_log db) (kd_index db) nodeId)) (\<lambda>projected.
       case projected of
         None \<Rightarrow>
           bind_result (lift_op (hasKnowledgeNodeGenesisAnchor (kd_log db) (kd_index db) nodeId)) (\<lambda>anchored.
             if anchored then delete_node nodeId db else Inr db)
       | Some row \<Rightarrow> Inr (upsertProjectedKnowledgeNode row db))"

section \<open>Snapshots and their difference\<close>

text \<open>The values a node snapshot holds, and what \<open>normalize\<close> makes of them.\<close>

datatype snap_value = SnNull | SnText string | SnTexts "string list" | SnDate int | SnBool bool | SnNumber int

datatype stable_value = StNull | StText string | StNumber int | StBool bool | StArray "stable_value list"

type_synonym snapshot = "(string \<times> snap_value) list"

definition nullable_text :: "string option \<Rightarrow> snap_value" where
  "nullable_text v = (case v of None \<Rightarrow> SnNull | Some s \<Rightarrow> SnText s)"

fun approval_status_text :: "approval_status \<Rightarrow> string" where
  "approval_status_text StatusPending = ''pending''"
| "approval_status_text StatusApproved = ''approved''"
| "approval_status_text StatusRejected = ''rejected''"

fun node_role_text :: "node_role \<Rightarrow> string" where
  "node_role_text RoleKc = ''kc''"
| "node_role_text RoleGoal = ''goal''"
| "node_role_text RoleContainer = ''container''"

definition knowledgeLiveRowToSnapshot :: "KnowledgeRow \<Rightarrow> snapshot" where
  "knowledgeLiveRowToSnapshot r =
     [(''id'', SnText (nr_id r)), (''name'', SnText (nr_name r)), (''domain'', nullable_text (nr_domain r)),
      (''parent_id'', nullable_text (nr_parent_id r)), (''merged_from'', SnTexts (nr_merged_from r)),
      (''archived_at'', case nr_archived_at r of None \<Rightarrow> SnNull | Some t \<Rightarrow> SnDate t),
      (''proposed_by_ai'', SnBool (nr_proposed_by_ai r)),
      (''approval_status'', SnText (approval_status_text (nr_approval_status r))),
      (''role'', SnText (node_role_text (nr_role r))), (''created_at'', SnDate (nr_created_at r)),
      (''updated_at'', SnDate (nr_updated_at r)), (''version'', SnNumber (nr_version r))]"

text \<open>\<open>js_iso\<close> is the date test with \<open>Date.parse\<close>: the time of a text of that shape.\<close>

definition normalize_text :: "(string \<Rightarrow> int option) \<Rightarrow> string \<Rightarrow> stable_value" where
  "normalize_text js_iso s = (case js_iso s of None \<Rightarrow> StText s | Some t \<Rightarrow> StNumber t)"

fun normalize_value :: "(string \<Rightarrow> int option) \<Rightarrow> snap_value \<Rightarrow> stable_value" where
  "normalize_value js_iso SnNull = StNull"
| "normalize_value js_iso (SnText s) = normalize_text js_iso s"
| "normalize_value js_iso (SnTexts ss) = StArray (map (normalize_text js_iso) ss)"
| "normalize_value js_iso (SnDate t) = StNumber t"
| "normalize_value js_iso (SnBool b) = StBool b"
| "normalize_value js_iso (SnNumber n) = StNumber n"

text \<open>The fields that differ; \<open>None\<close> on one side only differs as a row. An absent field is \<open>None\<close>.\<close>

definition diffSnapshots ::
  "(string \<Rightarrow> int option) \<Rightarrow> snapshot option \<Rightarrow> snapshot option \<Rightarrow> string list" where
  "diffSnapshots js_iso live folded =
     (case (live, folded) of
        (None, None) \<Rightarrow> []
      | (None, Some _) \<Rightarrow> [''<row>'']
      | (Some _, None) \<Rightarrow> [''<row>'']
      | (Some a, Some b) \<Rightarrow>
          filter (\<lambda>k. map_option (normalize_value js_iso) (map_of a k) \<noteq> map_option (normalize_value js_iso) (map_of b k))
            (js_uniq (map fst a @ map fst b)))"

section \<open>Adapters\<close>

record ('db, 'e) ProjectionAdapter =
  pa_liveIds :: "'db \<Rightarrow> string list"
  pa_eventSubjectIds :: "'db \<Rightarrow> 'e + string list"
  pa_project :: "string \<Rightarrow> 'db \<Rightarrow> 'e + 'db"
  pa_withGenesisAnchor :: "'db \<Rightarrow> string list \<Rightarrow> 'e + string list"
  pa_gatherWithContext :: "'db \<Rightarrow> 'e + (string \<times> snapshot) list \<times> (string \<Rightarrow> 'e + snapshot option)"

definition allProjectionIds :: "('db, 'e) ProjectionAdapter \<Rightarrow> 'db \<Rightarrow> 'e + string list" where
  "allProjectionIds adapter db =
     bind_result (pa_eventSubjectIds adapter db) (\<lambda>subjects. Inr (js_uniq (pa_liveIds adapter db @ subjects)))"

text \<open>The subjects of a kind other than \<open>artifact\<close> and \<open>question_block\<close>, which have legs of their own.\<close>

definition eventSubjectIdSet ::
  "string \<Rightarrow> bool \<Rightarrow> FoldEvent list \<Rightarrow> AnchorRow list \<Rightarrow> op_error + string list" where
  "eventSubjectIdSet kind writesIndex log idx =
     (let out = map fe_subject_id (filter (\<lambda>e. fe_subject_kind e = kind) log) @
          (if writesIndex then map mx_materialized_id (filter (\<lambda>r. mx_subject_kind r = kind) idx) else []) in
      if kind \<in> {''knowledge'', ''knowledge_edge''}
      then bind_result (scanKnowledgeOperationRates log) (\<lambda>ops.
        Inr (js_uniq (out @ concat (map (\<lambda>e. map kt_id
          (filter (\<lambda>t. target_kind_text (kt_kind t) = kind) (op_targets (en_op e)))) ops))))
      else Inr (js_uniq out))"

definition gather_nodes_with_context ::
  "(jsval \<Rightarrow> int option) \<Rightarrow> knowledge_db \<Rightarrow>
     knowledge_error + (string \<times> snapshot) list \<times> (string \<Rightarrow> knowledge_error + snapshot option)" where
  "gather_nodes_with_context js_date db =
     (let live = foldl (\<lambda>m r. AList.update (nr_id r) (knowledgeLiveRowToSnapshot r) m) [] (kd_rows db) in
      bind_result (lift_op (knowledge_foldOne js_date (kd_log db) (kd_index db))) (\<lambda>foldOne.
        Inr (live, \<lambda>i. bind_result (lift_op (foldOne i)) (\<lambda>row. Inr (map_option knowledgeLiveRowToSnapshot row)))))"

definition knowledge_adapter :: "(jsval \<Rightarrow> int option) \<Rightarrow> (knowledge_db, knowledge_error) ProjectionAdapter" where
  "knowledge_adapter js_date =
     \<lparr>pa_liveIds = (\<lambda>db. js_uniq (map nr_id (kd_rows db))),
      pa_eventSubjectIds = (\<lambda>db. lift_op (eventSubjectIdSet ''knowledge'' True (kd_log db) (kd_index db))),
      pa_project = projectKnowledgeNode js_date,
      pa_withGenesisAnchor = (\<lambda>db ids. lift_op (knowledgeNodesWithGenesisAnchor (kd_log db) (kd_index db) ids)),
      pa_gatherWithContext = gather_nodes_with_context js_date\<rparr>"

section \<open>Rebuild\<close>

fun project_each :: "('db, 'e) ProjectionAdapter \<Rightarrow> string list \<Rightarrow> 'db \<Rightarrow> 'e + 'db" where
  "project_each adapter [] db = Inr db"
| "project_each adapter (i # ids) db = bind_result (pa_project adapter i db) (project_each adapter ids)"

fun rebuild_kinds ::
  "(string \<times> ('db, 'e) ProjectionAdapter) list \<Rightarrow> 'db \<Rightarrow> 'e + (string \<times> nat) list \<times> 'db" where
  "rebuild_kinds [] db = Inr ([], db)"
| "rebuild_kinds ((kind, adapter) # kinds) db =
     bind_result (allProjectionIds adapter db) (\<lambda>ids.
     bind_result (project_each adapter ids db) (\<lambda>db1.
     bind_result (rebuild_kinds kinds db1) (\<lambda>(counts, db2).
       Inr ((kind, length ids) # counts, db2))))"

text \<open>\<open>precheck\<close> is the class-level check of the knowledge operations, run before the first write.\<close>

definition rebuildProjectionForKinds ::
  "('db \<Rightarrow> 'e + unit) \<Rightarrow> (string \<times> ('db, 'e) ProjectionAdapter) list \<Rightarrow> 'db \<Rightarrow> 'e + (string \<times> nat) list \<times> 'db" where
  "rebuildProjectionForKinds precheck kinds db =
     bind_result (if list_ex (\<lambda>(kind, _). kind \<in> {''knowledge'', ''knowledge_edge''}) kinds then precheck db else Inr ())
       (\<lambda>_. rebuild_kinds kinds db)"

definition rebuild_knowledge ::
  "(jsval \<Rightarrow> int option) \<Rightarrow> knowledge_db \<Rightarrow> knowledge_error + (string \<times> nat) list \<times> knowledge_db" where
  "rebuild_knowledge js_date =
     rebuildProjectionForKinds (\<lambda>db. lift_op (assertKnowledgeOperationsDecodable (kd_log db)))
       [(''knowledge'', knowledge_adapter js_date)]"

section \<open>Audits\<close>

text \<open>The result of the value audit: the rows checked, and the drift that is not, or is, on the allowlist.\<close>

record KindAuditResult =
  ka_checked :: nat
  ka_drift :: "(string \<times> string list) list"
  ka_allowed :: "(string \<times> string list) list"

definition classify ::
  "string \<Rightarrow> string list \<Rightarrow> (string \<Rightarrow> bool) \<Rightarrow> KindAuditResult \<Rightarrow> KindAuditResult" where
  "classify i diffs allowlist res =
     (if diffs = [] then res
      else if allowlist i then res\<lparr>ka_allowed := ka_allowed res @ [(i, diffs)]\<rparr>
      else res\<lparr>ka_drift := ka_drift res @ [(i, diffs)]\<rparr>)"

fun audit_rows ::
  "(string \<Rightarrow> int option) \<Rightarrow> (string \<Rightarrow> bool) \<Rightarrow> (string \<Rightarrow> 'e + snapshot option) \<Rightarrow> (string \<times> snapshot) list \<Rightarrow>
     KindAuditResult \<Rightarrow> 'e + KindAuditResult" where
  "audit_rows js_iso allowlist foldOne [] res = Inr res"
| "audit_rows js_iso allowlist foldOne ((i, live) # rows) res =
     bind_result (foldOne i) (\<lambda>expected.
       audit_rows js_iso allowlist foldOne rows
         (classify i (diffSnapshots js_iso (Some live) expected) allowlist res))"

definition auditProjectionKind ::
  "(string \<Rightarrow> int option) \<Rightarrow> ('db, 'e) ProjectionAdapter \<Rightarrow> (string \<Rightarrow> bool) \<Rightarrow> 'db \<Rightarrow> 'e + KindAuditResult" where
  "auditProjectionKind js_iso adapter allowlist db =
     bind_result (pa_gatherWithContext adapter db) (\<lambda>(live, foldOne).
       audit_rows js_iso allowlist foldOne live \<lparr>ka_checked = length live, ka_drift = [], ka_allowed = []\<rparr>)"

datatype SymmetricVerdict = Ghost | Missing | FieldDrift

text \<open>The verdict on one id of the universe, \<open>None\<close> when it is clean; the marker texts are left out.\<close>

definition symmetric_verdict ::
  "(string \<Rightarrow> int option) \<Rightarrow> snapshot option \<Rightarrow> snapshot option \<Rightarrow> (SymmetricVerdict \<times> string list) option" where
  "symmetric_verdict js_iso live folded =
     (case (live, folded) of
        (Some _, None) \<Rightarrow> Some (Missing, [''<fold-null>''])
      | (Some _, Some _) \<Rightarrow>
          (let diffs = diffSnapshots js_iso live folded in if diffs = [] then None else Some (FieldDrift, diffs))
      | (None, Some _) \<Rightarrow> Some (Ghost, [''<ghost>''])
      | (None, None) \<Rightarrow> None)"

text \<open>A fold that throws is a drift of its row, unless the error is one that must fail closed.\<close>

fun audit_universe ::
  "(string \<Rightarrow> int option) \<Rightarrow> ('e \<Rightarrow> bool) \<Rightarrow> (string \<Rightarrow> bool) \<Rightarrow> string list \<Rightarrow> (string \<times> snapshot) list \<Rightarrow>
     (string \<Rightarrow> 'e + snapshot option) \<Rightarrow> string list \<Rightarrow> 'e + (string \<times> SymmetricVerdict \<times> string list) list" where
  "audit_universe js_iso fatal allowlist anchored live foldOne [] = Inr []"
| "audit_universe js_iso fatal allowlist anchored live foldOne (i # ids) =
     (if allowlist i \<or> i \<notin> set anchored then audit_universe js_iso fatal allowlist anchored live foldOne ids
      else bind_result
        (case foldOne i of
           Inl e \<Rightarrow> if fatal e then Inl e else Inr [(i, FieldDrift, [''<fold-threw>''])]
         | Inr folded \<Rightarrow> Inr (case symmetric_verdict js_iso (map_of live i) folded of
             None \<Rightarrow> [] | Some (verdict, diffs) \<Rightarrow> [(i, verdict, diffs)]))
        (\<lambda>found. bind_result (audit_universe js_iso fatal allowlist anchored live foldOne ids) (\<lambda>rest.
          Inr (found @ rest))))"

definition auditProjectionKindSymmetric ::
  "(string \<Rightarrow> int option) \<Rightarrow> ('e \<Rightarrow> bool) \<Rightarrow> ('db, 'e) ProjectionAdapter \<Rightarrow> (string \<Rightarrow> bool) \<Rightarrow> 'db \<Rightarrow>
     'e + (string \<times> SymmetricVerdict \<times> string list) list" where
  "auditProjectionKindSymmetric js_iso fatal adapter allowlist db =
     bind_result (pa_gatherWithContext adapter db) (\<lambda>(live, foldOne).
     bind_result (pa_eventSubjectIds adapter db) (\<lambda>subjects.
       let universe = js_uniq (map fst live @ subjects) in
       bind_result (pa_withGenesisAnchor adapter db universe) (\<lambda>anchored.
         audit_universe js_iso fatal allowlist anchored live foldOne universe)))"

fun undecodable :: "knowledge_error \<Rightarrow> bool" where
  "undecodable (Undecodable _) = True"
| "undecodable KnowledgeForeignKey = False"

definition audit_knowledge ::
  "(jsval \<Rightarrow> int option) \<Rightarrow> (string \<Rightarrow> int option) \<Rightarrow> (string \<Rightarrow> bool) \<Rightarrow> knowledge_db \<Rightarrow>
     knowledge_error + (string \<times> SymmetricVerdict \<times> string list) list" where
  "audit_knowledge js_date js_iso = auditProjectionKindSymmetric js_iso undecodable (knowledge_adapter js_date)"

end
