(* ===== verification/KnowledgeNodeRebuild.thy ===== *)
theory KnowledgeNodeRebuild
  imports KnowledgeNodeProjection
begin

text \<open>
  What a rebuild and an audit achieve. The interface \<open>projection_adapter\<close> states what a kind owes the
  registry: its write-through puts the fold in the row, its subjects and anchors cover every id the log
  folds to a row. Rebuild and audit are proved once against it, then for the knowledge adapter.
\<close>

section \<open>The interface\<close>

text \<open>The records of the value audit, in the order of the rows.\<close>

definition value_records :: "(string \<Rightarrow> int option) \<Rightarrow> (string \<Rightarrow> snapshot option) \<Rightarrow> (string \<times> snapshot) list \<Rightarrow> (string \<times> string list) list" where
  "value_records js_iso folds rows =
     filter (\<lambda>(i, d). d \<noteq> []) (map (\<lambda>(i, live). (i, diffSnapshots js_iso (Some live) (folds i))) rows)"

text \<open>\<open>log_row\<close> is the row the log gives an id, \<open>live_row\<close> the row of the table, both as snapshots.\<close>

locale projection_adapter =
  fixes adapter :: "('db, 'e) ProjectionAdapter"
    and ok :: "'db \<Rightarrow> bool"
    and log_row :: "'db \<Rightarrow> string \<Rightarrow> snapshot option"
    and live_row :: "'db \<Rightarrow> string \<Rightarrow> snapshot option"
    and anchored_ids :: "'db \<Rightarrow> string set"
  assumes project_row: "ok db \<Longrightarrow> pa_project adapter i db = Inr db' \<Longrightarrow>
      ok db' \<and> log_row db' = log_row db \<and> live_row db' = (live_row db)(i := log_row db i)"
    and live_ids: "set (pa_liveIds adapter db) = dom (live_row db)"
    and subjects: "ok db \<Longrightarrow> \<exists>s. pa_eventSubjectIds adapter db = Inr s \<and> dom (log_row db) \<subseteq> set s"
    and anchors: "ok db \<Longrightarrow> \<exists>a. pa_withGenesisAnchor adapter db ids = Inr a \<and> set a = set ids \<inter> anchored_ids db"
    and anchored: "ok db \<Longrightarrow> dom (log_row db) \<subseteq> anchored_ids db"
    and gathers: "ok db \<Longrightarrow> \<exists>live foldOne. pa_gatherWithContext adapter db = Inr (live, foldOne) \<and>
      map_of live = live_row db \<and> distinct (map fst live) \<and> (\<forall>i. foldOne i = Inr (log_row db i))"
begin

lemma project_each_rows:
  assumes "ok db" "project_each adapter ids db = Inr db'"
  shows "ok db' \<and> log_row db' = log_row db \<and>
    live_row db' = (\<lambda>i. if i \<in> set ids then log_row db i else live_row db i)"
  using assms
proof (induction ids arbitrary: db)
  case (Cons i ids)
  then obtain db1 where step: "pa_project adapter i db = Inr db1" "project_each adapter ids db1 = Inr db'"
    by (auto simp: bind_result_Inr_iff)
  then show ?case using project_row [OF Cons.prems(1) step(1)] Cons.IH [OF _ step(2)] by auto
qed auto

text \<open>A rebuild leaves exactly the rows of the log, whatever was in the table.\<close>

lemma rebuild_restores:
  assumes "ok db" "rebuild_kinds [(kind, adapter)] db = Inr (counts, db')"
  shows "ok db' \<and> log_row db' = log_row db \<and> live_row db' = log_row db"
proof -
  obtain s where s: "pa_eventSubjectIds adapter db = Inr s" "dom (log_row db) \<subseteq> set s"
    using subjects [OF assms(1)] by blast
  then have "project_each adapter (js_uniq (pa_liveIds adapter db @ s)) db = Inr db'"
    using assms(2) by (auto simp: allProjectionIds_def bind_result_Inr_iff)
  from project_each_rows [OF assms(1) this]
  have rows: "ok db'" "log_row db' = log_row db"
      "live_row db' = (\<lambda>i. if i \<in> set (js_uniq (pa_liveIds adapter db @ s)) then log_row db i else live_row db i)"
    by auto
  have "live_row db' i = log_row db i" for i
  proof (cases "i \<in> set (js_uniq (pa_liveIds adapter db @ s))")
    case False
    then have "i \<notin> dom (live_row db)" "i \<notin> dom (log_row db)" using s(2) live_ids [of db] by auto
    then show ?thesis by (simp add: rows(3) domIff)
  qed (simp add: rows(3))
  then show ?thesis using rows by blast
qed

lemma rebuild_total:
  assumes "ok db" "\<And>i db1. ok db1 \<Longrightarrow> log_row db1 = log_row db \<Longrightarrow> P db1 \<Longrightarrow> \<exists>db2. pa_project adapter i db1 = Inr db2 \<and> P db2"
    and "P db"
  shows "\<exists>counts db'. rebuild_kinds [(kind, adapter)] db = Inr (counts, db')"
proof -
  obtain s where s: "pa_eventSubjectIds adapter db = Inr s" using subjects [OF assms(1)] by blast
  have "\<exists>db'. project_each adapter ids db1 = Inr db'" if "ok db1" "log_row db1 = log_row db" "P db1" for ids db1
    using that
  proof (induction ids arbitrary: db1)
    case (Cons i ids)
    then obtain db2 where "pa_project adapter i db1 = Inr db2" "P db2" using assms(2) by blast
    moreover from this have "ok db2 \<and> log_row db2 = log_row db" using project_row Cons.prems by metis
    ultimately show ?case using Cons.IH by auto
  qed auto
  then obtain db' where "project_each adapter (js_uniq (pa_liveIds adapter db @ s)) db = Inr db'"
    using assms(1,3) by blast
  then show ?thesis by (simp add: allProjectionIds_def s)
qed

lemma audit_universe_Inr:
  assumes "\<And>i. foldOne i = Inr (folds i)"
  shows "audit_universe js_iso fatal allowlist a live foldOne ids =
    Inr (concat (map (\<lambda>i. case symmetric_verdict js_iso (map_of live i) (folds i) of
        None \<Rightarrow> [] | Some (v, d) \<Rightarrow> [(i, v, d)]) (filter (\<lambda>i. \<not> allowlist i \<and> i \<in> set a) ids)))"
  by (induction ids) (auto simp: assms split: option.splits)

text \<open>What the symmetric audit reports: for every anchored id that is not allowed, its verdict.\<close>

lemma symmetric_audit:
  assumes "ok db"
  shows "\<exists>found. auditProjectionKindSymmetric js_iso fatal adapter allowlist db = Inr found \<and>
    (\<forall>i v d. (i, v, d) \<in> set found \<longleftrightarrow> \<not> allowlist i \<and> i \<in> anchored_ids db \<and>
      symmetric_verdict js_iso (live_row db i) (log_row db i) = Some (v, d))"
proof -
  obtain live foldOne where ctx: "pa_gatherWithContext adapter db = Inr (live, foldOne)"
      "map_of live = live_row db" "\<And>i. foldOne i = Inr (log_row db i)"
    using gathers [OF assms] by blast
  obtain s where s: "pa_eventSubjectIds adapter db = Inr s" "dom (log_row db) \<subseteq> set s"
    using subjects [OF assms] by blast
  let ?u = "js_uniq (map fst live @ s)"
  obtain a where a: "pa_withGenesisAnchor adapter db ?u = Inr a" "set a = set ?u \<inter> anchored_ids db"
    using anchors [OF assms] by blast
  have dom: "fst ` set live = dom (live_row db)" by (simp add: ctx(2) [symmetric] dom_map_of_conv_image_fst)
  have found: "i \<in> set ?u" if "symmetric_verdict js_iso (live_row db i) (log_row db i) = Some vd" for i vd
    using that s(2) dom by (auto simp: symmetric_verdict_def dom_def split: option.splits)
  show ?thesis
    unfolding auditProjectionKindSymmetric_def ctx(1) s(1) a(1) bind_result_simps Let_def prod.case
      audit_universe_Inr [OF ctx(3)] ctx(2)
    by (intro exI conjI allI, rule refl) (use found a(2) in \<open>auto split: option.splits\<close>)
qed

lemma diff_same: "diffSnapshots js_iso v v = []"
  by (auto simp: diffSnapshots_def split: option.splits)

lemma clean_audit:
  assumes "ok db" "live_row db = log_row db"
  shows "auditProjectionKindSymmetric js_iso fatal adapter allowlist db = Inr []"
proof -
  have "symmetric_verdict js_iso v v = None" for v
    by (cases v) (simp_all add: symmetric_verdict_def diff_same)
  then obtain found where "auditProjectionKindSymmetric js_iso fatal adapter allowlist db = Inr found"
      "\<And>i v d. (i, v, d) \<notin> set found"
    using symmetric_audit [OF assms(1), of js_iso fatal allowlist] assms(2) by auto
  then show ?thesis by (cases found) auto
qed

lemma audit_rows_Inr:
  assumes "\<And>i. foldOne i = Inr (folds i)"
  shows "audit_rows js_iso allowlist foldOne rows res = Inr (res
    \<lparr>ka_drift := ka_drift res @ filter (\<lambda>r. \<not> allowlist (fst r)) (value_records js_iso folds rows),
     ka_allowed := ka_allowed res @ filter (\<lambda>r. allowlist (fst r)) (value_records js_iso folds rows)\<rparr>)"
proof (induction rows arbitrary: res)
  case (Cons r rows)
  then show ?case by (cases r) (simp add: assms classify_def value_records_def)
qed (simp add: value_records_def)

text \<open>The value audit compares the rows of the table only.\<close>

lemma value_audit:
  assumes "ok db"
  shows "\<exists>res. auditProjectionKind js_iso adapter allowlist db = Inr res \<and> ka_checked res = card (dom (live_row db)) \<and>
    (\<forall>i d. (i, d) \<in> set (ka_drift res) \<longleftrightarrow> \<not> allowlist i \<and> d \<noteq> [] \<and>
      (\<exists>live. live_row db i = Some live \<and> d = diffSnapshots js_iso (Some live) (log_row db i)))"
proof -
  obtain live foldOne where ctx: "pa_gatherWithContext adapter db = Inr (live, foldOne)"
      "map_of live = live_row db" "distinct (map fst live)" "\<And>i. foldOne i = Inr (log_row db i)"
    using gathers [OF assms] by blast
  have "length live = card (dom (live_row db))"
    using ctx(3) by (simp add: ctx(2) [symmetric] dom_map_of_conv_image_fst)
      (metis distinct_card length_map list.set_map)
  moreover have "(i, d) \<in> set (value_records js_iso (log_row db) live) \<longleftrightarrow> d \<noteq> [] \<and>
      (\<exists>l. live_row db i = Some l \<and> d = diffSnapshots js_iso (Some l) (log_row db i))" for i d
    using ctx(3) by (auto simp: value_records_def ctx(2) [symmetric] image_iff map_of_eq_Some_iff) force
  ultimately show ?thesis
    by (auto simp: auditProjectionKind_def ctx(1) audit_rows_Inr [OF ctx(4)])
qed

end

section \<open>Births\<close>

text \<open>The events that can give a node its first row.\<close>

definition births :: "string \<Rightarrow> Accepts \<Rightarrow> FoldEvent \<Rightarrow> bool" where
  "births n ac ev \<longleftrightarrow> fe_subject_kind ev = ''knowledge'' \<and>
     (fe_subject_id ev = n \<and> fe_action ev \<in> {''experimental:genesis'', ''experimental:auto_tag_kc_created''} \<or>
      n \<in> set (minted_ids ac (fe_id ev)))"

lemma createRow_id [simp]: "nr_id (createRow i name parent domain at) = i"
  by (simp add: createRow_def)

lemma retire_row_id [simp]: "nr_id (retire_row at r) = nr_id r" "nr_id (bump at r) = nr_id r"
  by (simp_all add: retire_row_def bump_def)

lemma control_update_id: "control_update ev = Some f \<Longrightarrow> nr_id (f r) = nr_id r"
  by (auto simp: control_update_def split: if_splits)

lemma auto_tag_row_id: "auto_tag_row ev = Some r \<Longrightarrow> nr_id r = fe_subject_id ev"
  by (auto simp: auto_tag_row_def split: option.splits)

lemma split_births_birth:
  "split_births n minted into at row = Some r \<Longrightarrow> row = Some r \<or> nr_id r = n \<and> n \<in> set minted"
proof (induction minted into arbitrary: row rule: list_induct2')
  case (4 m ms e es)
  obtain name parent where e: "e = (name, parent)" by (cases e)
  have "split_births n ms es at (if m = n \<and> parent \<noteq> None then Some (createRow n name parent None at) else row) = Some r"
    using "4.prems" by (simp add: split_births_def e)
  from "4.IH" [OF this] show ?case by (auto split: if_splits)
qed (simp_all add: split_births_def)

lemma apply_mutation_id:
  assumes "apply_mutation n minted at c row = Some r"
  shows "(\<exists>r0. row = Some r0 \<and> nr_id r = nr_id r0) \<or> nr_id r = n \<and> n \<in> set minted"
proof (cases c)
  case (Reparent m p v)
  then show ?thesis using assms by (auto simp: apply_mutation_def split: if_splits)
next
  case (Merge fs i vs)
  then show ?thesis using assms by (auto simp: apply_mutation_def Let_def split: if_splits)
next
  case (Split f into v)
  then show ?thesis
    using assms split_births_birth [of n minted into at "if f = n then map_option (retire_row at) row else row" r]
    by (auto simp: apply_mutation_def split: if_splits)
qed

lemma apply_proposal_id:
  assumes "apply_proposal n minted at row ev = Some r"
  shows "(\<exists>r0. row = Some r0 \<and> nr_id r = nr_id r0) \<or> nr_id r = n \<and> n \<in> set minted"
proof (cases "fe_action ev = ''propose''")
  case True
  then show ?thesis using assms by (auto simp: apply_proposal_def split: option.splits list.splits if_splits)
next
  case propose: False
  show ?thesis
  proof (cases "fe_action ev = ''experimental:knowledge_archive''")
    case True
    then show ?thesis using assms by (auto simp: apply_proposal_def split: option.splits if_splits)
  next
    case False
    then show ?thesis
      using assms propose apply_mutation_id [of n minted at _ row r]
      by (simp add: apply_proposal_def split: option.splits if_splits)
  qed
qed

lemma apply_event_id:
  assumes "apply_event js_date n ac row ev = Some r"
  shows "(\<exists>r0. row = Some r0 \<and> nr_id r = nr_id r0) \<or> nr_id r = n \<and> births n ac ev"
proof (cases "fe_action ev = ''experimental:genesis''")
  case True
  then show ?thesis
    using assms by (auto simp: apply_event_def births_def dest: GenesisExperimental_node_kind split: option.splits if_splits)
next
  case genesis: False
  show ?thesis
  proof (cases "fe_subject_kind ev = ''knowledge''")
    case kind: True
    show ?thesis
    proof (cases "fe_subject_id ev = n \<and> fe_action ev \<in> {''experimental:knowledge_role_update'',
        ''experimental:knowledge_approval_update'', ''experimental:subject_root_name_update''}")
      case True
      then show ?thesis
        using assms genesis kind by (auto simp: apply_event_def dest: control_update_id split: option.splits)
    next
      case control: False
      show ?thesis
      proof (cases "fe_subject_id ev = n \<and> fe_action ev = ''experimental:auto_tag_kc_created''")
        case True
        then show ?thesis
          using assms genesis kind control
          by (auto simp: apply_event_def births_def dest: auto_tag_row_id split: option.splits)
      next
        case False
        then have "apply_event js_date n ac row ev = (case accepted_at ac (fe_id ev) of
            None \<Rightarrow> row | Some at \<Rightarrow> apply_proposal n (minted_ids ac (fe_id ev)) at row ev)"
          using genesis kind control unfolding apply_event_def by (simp only: if_False simp_thms)
        then show ?thesis
          using assms kind apply_proposal_id [of n "minted_ids ac (fe_id ev)" _ row ev r]
          by (auto simp: births_def split: option.splits)
      qed
    qed
  qed (use assms genesis in \<open>auto simp: apply_event_def\<close>)
qed

lemma folded_birth:
  assumes "foldl (apply_event js_date n ac) None evs = Some r"
  shows "nr_id r = n \<and> (\<exists>ev\<in>set evs. births n ac ev)"
  using assms
proof (induction evs arbitrary: r rule: rev_induct)
  case (snoc ev evs)
  then show ?case
    using apply_event_id [of js_date n ac "foldl (apply_event js_date n ac) None evs" ev r] by auto
qed simp

lemma project_birth:
  assumes "foldKnowledgeNode js_date n evs = Inr (Some r)"
  shows "nr_id r = n \<and> (\<exists>ev\<in>set evs. births n (collected evs) ev)"
proof -
  have "foldl (apply_event js_date n (collected evs)) None (sort_key (replay_key n (collected evs)) evs) = Some r"
    using assms by (simp add: foldKnowledgeNode_Inr node.project_def)
  from folded_birth [OF this] show ?thesis by simp
qed

end
