(* ===== verification/KnowledgeNodeAudit.thy ===== *)
theory KnowledgeNodeAudit
  imports KnowledgeNodeRebuild
begin

text \<open>
  The knowledge adapter meets the interface of the registry, on a log that keeps the writers' habits:
  the write-through puts the fold in the row, and every node the log folds to a row is among the
  subjects and has an anchor.
\<close>

interpretation row_tab: keyed_table nr_id .

definition log_node :: "(jsval \<Rightarrow> int option) \<Rightarrow> FoldEvent list \<Rightarrow> string \<Rightarrow> KnowledgeRow option" where
  "log_node js_date log n = (case foldKnowledgeNode js_date n log of Inr row \<Rightarrow> row | Inl _ \<Rightarrow> None)"

definition knowledge_ok :: "knowledge_db \<Rightarrow> bool" where
  "knowledge_ok db \<longleftrightarrow> history_ok (kd_log db) (kd_index db) \<and> operations_verified (kd_log db) \<and> row_tab.wf (kd_rows db)"

lemma knowledge_ok_log: "knowledge_ok db \<Longrightarrow> log_tab.wf (kd_log db)"
  by (simp add: knowledge_ok_def history_ok_def)

lemma log_node_fold:
  assumes "history_ok log idx" "operations_verified log"
  shows "foldKnowledgeNode js_date n log = Inr (log_node js_date log n)"
  using gather_complete(2) [OF assms, of js_date n] by (auto simp: log_node_def)

lemma log_node_id: "log_node js_date log n = Some r \<Longrightarrow> nr_id r = n"
  by (auto simp: log_node_def split: sum.splits dest: project_birth)

lemma lift_op_simps [simp]: "lift_op (Inr a) = Inr a" "lift_op (Inl e) = Inl (Undecodable e)"
  by (simp_all add: lift_op_def)

section \<open>The write-through\<close>

lemma row_by_filter_other:
  "row_by key k (filter (\<lambda>r. key r \<noteq> k') rs) = (if k = k' then None else row_by key k rs)"
  by (induction rs) (auto simp: row_by_def)

lemma upsert_rows:
  "kd_log (upsertProjectedKnowledgeNode r db) = kd_log db"
  "kd_index (upsertProjectedKnowledgeNode r db) = kd_index db"
  "kd_edges (upsertProjectedKnowledgeNode r db) = kd_edges db"
  "row_tab.wf (kd_rows db) \<Longrightarrow> row_tab.wf (kd_rows (upsertProjectedKnowledgeNode r db))"
  "row_by nr_id n (kd_rows (upsertProjectedKnowledgeNode r db)) =
     (if n = nr_id r then Some r else row_by nr_id n (kd_rows db))"
proof -
  show "kd_log (upsertProjectedKnowledgeNode r db) = kd_log db"
    "kd_index (upsertProjectedKnowledgeNode r db) = kd_index db"
    "kd_edges (upsertProjectedKnowledgeNode r db) = kd_edges db"
    by (simp_all add: upsertProjectedKnowledgeNode_def)
  show "row_tab.wf (kd_rows db) \<Longrightarrow> row_tab.wf (kd_rows (upsertProjectedKnowledgeNode r db))"
    by (auto simp: upsertProjectedKnowledgeNode_def list_ex_key row_by_None_iff intro!: row_tab.wf_update row_tab.wf_insert)
  show "row_by nr_id n (kd_rows (upsertProjectedKnowledgeNode r db)) =
     (if n = nr_id r then Some r else row_by nr_id n (kd_rows db))"
  proof (cases "nr_id r \<in> nr_id ` set (kd_rows db)")
    case True
    then obtain r0 where "row_by nr_id (nr_id r) (kd_rows db) = Some r0"
      by (cases "row_by nr_id (nr_id r) (kd_rows db)") (auto simp: row_by_None_iff)
    moreover have "nr_id r' = n" if "row_by nr_id n (kd_rows db) = Some r'" for r'
      using row_by_SomeD [OF that] by simp
    ultimately show ?thesis
      using True by (cases "row_by nr_id n (kd_rows db)")
        (auto simp: upsertProjectedKnowledgeNode_def list_ex_key row_tab.row_by_update)
  next
    case False
    then show ?thesis
      by (auto simp: upsertProjectedKnowledgeNode_def list_ex_key row_tab.row_by_insert_other
          row_tab.row_by_insert_same row_by_None_iff)
  qed
qed

lemma delete_rows:
  assumes "delete_node n db = Inr db'"
  shows "kd_log db' = kd_log db" "kd_index db' = kd_index db" "kd_edges db' = kd_edges db"
    "row_tab.wf (kd_rows db) \<Longrightarrow> row_tab.wf (kd_rows db')"
    "row_by nr_id m (kd_rows db') = (if m = n then None else row_by nr_id m (kd_rows db))"
  using assms by (auto simp: delete_node_def row_by_filter_other row_tab.wf_def distinct_map_filter split: if_splits)

lemma project_node:
  assumes "knowledge_ok db" "projectKnowledgeNode js_date n db = Inr db'"
  shows "knowledge_ok db' \<and> kd_log db' = kd_log db \<and> kd_index db' = kd_index db \<and> kd_edges db' = kd_edges db \<and>
    row_by nr_id m (kd_rows db') = (if m = n then log_node js_date (kd_log db) n else row_by nr_id m (kd_rows db))"
proof -
  have hist: "history_ok (kd_log db) (kd_index db)" "operations_verified (kd_log db)" "row_tab.wf (kd_rows db)"
    using assms(1) by (simp_all add: knowledge_ok_def)
  have fold: "gatherAndFoldKnowledgeNode js_date (kd_log db) (kd_index db) n = Inr (log_node js_date (kd_log db) n)"
    using gather_complete(1) [OF hist(1,2)] log_node_fold [OF hist(1,2)] by simp
  show ?thesis
  proof (cases "log_node js_date (kd_log db) n")
    case None
    then have "delete_node n db = Inr db'" using assms(2) fold by (simp add: projectKnowledgeNode_def)
    from delete_rows [OF this] show ?thesis using hist None by (simp add: knowledge_ok_def)
  next
    case (Some r)
    then have "db' = upsertProjectedKnowledgeNode r db" using assms(2) fold by (simp add: projectKnowledgeNode_def)
    then show ?thesis using upsert_rows [where r = r and db = db] hist log_node_id [OF Some] Some by (simp add: knowledge_ok_def)
  qed
qed

lemma project_node_total:
  assumes "knowledge_ok db" "\<And>e. e \<in> set (kd_edges db) \<Longrightarrow> ke_from e = n \<or> ke_to e = n \<Longrightarrow>
      log_node js_date (kd_log db) n \<noteq> None"
  shows "\<exists>db'. projectKnowledgeNode js_date n db = Inr db'"
proof -
  have "gatherAndFoldKnowledgeNode js_date (kd_log db) (kd_index db) n = Inr (log_node js_date (kd_log db) n)"
    using assms(1) gather_complete(1) log_node_fold by (auto simp: knowledge_ok_def)
  then show ?thesis
    using assms(2) by (cases "log_node js_date (kd_log db) n")
      (auto simp: projectKnowledgeNode_def delete_node_def list_ex_iff)
qed

section \<open>Anchors and subjects\<close>

lemma declares_birth_iff:
  "declares_birth scan n \<longleftrightarrow> (\<exists>e\<in>set scan. n \<in> set (createdTargetIds (op_targets (en_op e)) TKnowledge))"
proof -
  have created: "n \<in> set (createdTargetIds ts TKnowledge) \<longleftrightarrow>
      (\<exists>t\<in>set ts. kt_kind t = TKnowledge \<and> kt_id t = n \<and> kt_effect t = EffectCreate)" for ts
    by (auto simp: createdTargetIds_def)
  show ?thesis
    unfolding declares_birth_def list_ex_iff created using set_targetsByEntity by blast
qed

definition anchored_nodes :: "FoldEvent list \<Rightarrow> AnchorRow list \<Rightarrow> string set" where
  "anchored_nodes log idx =
     {n. (\<exists>e\<in>set log. fe_subject_kind e = ''knowledge'' \<and> fe_subject_id e = n \<and>
          fe_action e \<in> {''experimental:genesis'', ''experimental:auto_tag_kc_created''}) \<or>
       (\<exists>r\<in>set idx. mx_materialized_id r = n \<and> mx_subject_kind r = ''knowledge'') \<or>
       declares_birth (operations_in log) n}"

lemma has_anchor:
  assumes "operations_decode log"
  shows "hasKnowledgeNodeGenesisAnchor log idx n = Inr (n \<in> anchored_nodes log idx)"
proof -
  let ?scan = "filter (\<lambda>e. mentions_target n (fe_payload (en_rate e))) (operations_in log)"
  have "mentions_target n (fe_payload (en_rate e))"
    if "e \<in> set (operations_in log)" "n \<in> set (createdTargetIds (op_targets (en_op e)) TKnowledge)" for e
    using that by (auto simp: operations_in_mem decodeRateRow_Some createdTargetIds_def dest: decode_operation_mentions)
  then have "declares_birth ?scan n = declares_birth (operations_in log) n"
    by (auto simp: declares_birth_iff)
  then show ?thesis
    by (auto simp: hasKnowledgeNodeGenesisAnchor_def scan_node_Inr [OF assms] anchored_nodes_def list_ex_iff)
qed

lemma with_anchors:
  assumes "operations_decode log"
  shows "\<exists>a. knowledgeNodesWithGenesisAnchor log idx ids = Inr a \<and> set a = set ids \<inter> anchored_nodes log idx"
  using assms
  by (auto simp: knowledgeNodesWithGenesisAnchor_def Let_def anchored_nodes_def
      scan_all_Inr [of log "operations_in log", THEN iffD2])

text \<open>A node with a row of the log has a birth, and the birth an anchor.\<close>

lemma born_anchored:
  assumes ok: "history_ok log idx" and dec: "operations_decode log" and born: "births n (collected log) ev" "ev \<in> set log"
  shows "n \<in> anchored_nodes log idx \<and>
    (n \<in> fe_subject_id ` {e \<in> set log. fe_subject_kind e = ''knowledge''} \<or>
     n \<in> mx_materialized_id ` {r \<in> set idx. mx_subject_kind r = ''knowledge''} \<or>
     (\<exists>e\<in>set (operations_in log). n \<in> set (createdTargetIds (op_targets (en_op e)) TKnowledge)))"
proof (cases "n \<in> set (minted_ids (collected log) (fe_id ev))")
  case False
  then show ?thesis using born by (auto simp: births_def anchored_nodes_def)
next
  case True
  have single: "single_accepts log" using ok by (simp add: history_ok_def)
  have "fe_id ev \<in> fst ` set (accepts_in log)" using True collected_none(2) [of "fe_id ev" log] by force
  then obtain t ids where acc: "(fe_id ev, t, ids) \<in> set (accepts_in log)" by force
  then have "n \<in> set ids" using True collected_single(2) [OF single acc] by simp
  then obtain rate where rate: "rate \<in> set log" "(fe_id ev, t, ids) \<in> set (accepts_of rate)" "n \<in> set ids"
    using acc by (auto simp: accepts_in_mem)
  then consider (index) "anchored_node idx n (fe_id ev)" | (op) "jsonb_has KNOWLEDGE_OPERATION_KEY (fe_payload rate)"
    using ok by (fastforce simp: history_ok_def)
  then show ?thesis
  proof cases
    case index
    then show ?thesis by (force simp: anchored_node_def anchored_nodes_def dest: row_by_SomeD)
  next
    case op
    obtain x where "decodeRateRow rate = Inr (Some x)" "n \<in> set (createdTargetIds (op_targets x) TKnowledge)"
      using accepts_of_operation [OF rate(2) op rate(3)] by blast
    moreover have "fe_action rate = ''rate''" using accepts_of_rate [OF rate(2)] by blast
    ultimately have "\<lparr>en_rate = rate, en_op = x\<rparr> \<in> set (operations_in log)"
        "n \<in> set (createdTargetIds (op_targets (en_op \<lparr>en_rate = rate, en_op = x\<rparr>)) TKnowledge)"
      using rate(1) by (auto simp: operations_in_mem)
    then show ?thesis unfolding anchored_nodes_def declares_birth_iff by blast
  qed
qed

lemma node_subjects:
  assumes "operations_decode log"
  shows "\<exists>s. eventSubjectIdSet ''knowledge'' True log idx = Inr s \<and>
    fe_subject_id ` {e \<in> set log. fe_subject_kind e = ''knowledge''} \<union>
    mx_materialized_id ` {r \<in> set idx. mx_subject_kind r = ''knowledge''} \<union>
    (\<Union>e\<in>set (operations_in log). set (createdTargetIds (op_targets (en_op e)) TKnowledge)) \<subseteq> set s"
proof -
  have kinds: "target_kind_text k = ''knowledge'' \<longleftrightarrow> k = TKnowledge" for k by (cases k) simp_all
  show ?thesis
    using assms
    by (auto simp: eventSubjectIdSet_def Let_def scan_all_Inr [of log "operations_in log", THEN iffD2] kinds createdTargetIds_def)
qed

section \<open>The adapter\<close>

definition node_snapshot :: "(jsval \<Rightarrow> int option) \<Rightarrow> knowledge_db \<Rightarrow> string \<Rightarrow> snapshot option" where
  "node_snapshot js_date db n = map_option knowledgeLiveRowToSnapshot (log_node js_date (kd_log db) n)"

definition live_snapshot :: "knowledge_db \<Rightarrow> string \<Rightarrow> snapshot option" where
  "live_snapshot db n = map_option knowledgeLiveRowToSnapshot (row_by nr_id n (kd_rows db))"

lemma live_map:
  assumes "row_tab.wf rows"
  shows "foldl (\<lambda>m r. AList.update (nr_id r) (knowledgeLiveRowToSnapshot r) m) [] rows =
    map (\<lambda>r. (nr_id r, knowledgeLiveRowToSnapshot r)) rows"
  using assms
proof (induction rows rule: rev_induct)
  case (snoc r rows)
  have "AList.update k v m = m @ [(k, v)]" if "k \<notin> fst ` set m" for k v and m :: "(string \<times> snapshot) list"
    using that by (induction m) auto
  moreover have "row_tab.wf rows" "nr_id r \<notin> nr_id ` set rows" using snoc.prems by (auto simp: row_tab.wf_def)
  ultimately show ?case using snoc.IH by (simp add: image_image)
qed simp

lemma map_of_rows: "map_of (map (\<lambda>r. (nr_id r, knowledgeLiveRowToSnapshot r)) rows) n =
  map_option knowledgeLiveRowToSnapshot (row_by nr_id n rows)"
  by (induction rows) (auto simp: row_by_def)

lemma adapter_simps:
  "pa_liveIds (knowledge_adapter js_date) db = js_uniq (map nr_id (kd_rows db))"
  "pa_eventSubjectIds (knowledge_adapter js_date) db = lift_op (eventSubjectIdSet ''knowledge'' True (kd_log db) (kd_index db))"
  "pa_project (knowledge_adapter js_date) = projectKnowledgeNode js_date"
  "pa_withGenesisAnchor (knowledge_adapter js_date) db ids =
     lift_op (knowledgeNodesWithGenesisAnchor (kd_log db) (kd_index db) ids)"
  "pa_gatherWithContext (knowledge_adapter js_date) = gather_nodes_with_context js_date"
  by (simp_all add: knowledge_adapter_def)

lemma knowledge_okD:
  assumes "knowledge_ok db"
  shows "history_ok (kd_log db) (kd_index db)" "operations_verified (kd_log db)" "operations_decode (kd_log db)"
    "row_tab.wf (kd_rows db)"
  using assms by (simp_all add: knowledge_ok_def operations_verified_def)

lemma logged_node_born:
  assumes "knowledge_ok db" "n \<in> dom (node_snapshot js_date db)"
  shows "\<exists>ev\<in>set (kd_log db). births n (collected (kd_log db)) ev"
proof -
  obtain r where "log_node js_date (kd_log db) n = Some r" using assms(2) by (auto simp: node_snapshot_def)
  then have "foldKnowledgeNode js_date n (kd_log db) = Inr (Some r)"
    using log_node_fold [OF knowledge_okD(1,2) [OF assms(1)]] by simp
  then show ?thesis using project_birth by blast
qed

lemma adapter_context:
  assumes "knowledge_ok db"
  shows "\<exists>live foldOne. gather_nodes_with_context js_date db = Inr (live, foldOne) \<and>
    map_of live = live_snapshot db \<and> distinct (map fst live) \<and> (\<forall>i. foldOne i = Inr (node_snapshot js_date db i))"
proof -
  note ok = knowledge_okD [OF assms]
  obtain foldOne where f: "knowledge_foldOne js_date (kd_log db) (kd_index db) = Inr foldOne"
      "\<And>n. foldOne n = Inr (log_node js_date (kd_log db) n)"
    using foldOne_complete [OF ok(1,2), of js_date] log_node_fold [OF ok(1,2)] by auto
  let ?live = "map (\<lambda>r. (nr_id r, knowledgeLiveRowToSnapshot r)) (kd_rows db)"
  have "distinct (map fst ?live)" using ok(4) by (simp add: row_tab.wf_def o_def)
  moreover have "map_of ?live = live_snapshot db" by (simp add: fun_eq_iff map_of_rows live_snapshot_def)
  ultimately show ?thesis
    by (simp add: gather_nodes_with_context_def live_map [OF ok(4)] f node_snapshot_def)
qed

lemma adapter_subjects:
  assumes "knowledge_ok db"
  shows "\<exists>s. eventSubjectIdSet ''knowledge'' True (kd_log db) (kd_index db) = Inr s \<and>
    dom (node_snapshot js_date db) \<subseteq> set s"
proof -
  note ok = knowledge_okD [OF assms]
  obtain s where s: "eventSubjectIdSet ''knowledge'' True (kd_log db) (kd_index db) = Inr s"
      "fe_subject_id ` {e \<in> set (kd_log db). fe_subject_kind e = ''knowledge''} \<union>
       mx_materialized_id ` {r \<in> set (kd_index db). mx_subject_kind r = ''knowledge''} \<union>
       (\<Union>e\<in>set (operations_in (kd_log db)). set (createdTargetIds (op_targets (en_op e)) TKnowledge)) \<subseteq> set s"
    using node_subjects [OF ok(3)] by blast
  have "n \<in> set s" if "n \<in> dom (node_snapshot js_date db)" for n
    using logged_node_born [OF assms that] born_anchored [OF ok(1,3)] s(2) by blast
  then show ?thesis using s(1) by blast
qed

interpretation nodes: projection_adapter "knowledge_adapter js_date" knowledge_ok "node_snapshot js_date"
  live_snapshot "\<lambda>db. anchored_nodes (kd_log db) (kd_index db)" for js_date :: "jsval \<Rightarrow> int option"
proof unfold_locales
  fix db db' :: knowledge_db and i
  assume "knowledge_ok db" "pa_project (knowledge_adapter js_date) i db = Inr db'"
  then have "knowledge_ok db' \<and> kd_log db' = kd_log db \<and> kd_index db' = kd_index db \<and> kd_edges db' = kd_edges db \<and>
      row_by nr_id m (kd_rows db') = (if m = i then log_node js_date (kd_log db) i else row_by nr_id m (kd_rows db))" for m
    by (intro project_node) (simp_all add: adapter_simps)
  then show "knowledge_ok db' \<and> node_snapshot js_date db' = node_snapshot js_date db \<and>
      live_snapshot db' = (live_snapshot db)(i := node_snapshot js_date db i)"
    by (simp add: node_snapshot_def live_snapshot_def fun_eq_iff)
next
  fix db :: knowledge_db
  show "set (pa_liveIds (knowledge_adapter js_date) db) = dom (live_snapshot db)"
    by (simp add: adapter_simps live_snapshot_def dom_def set_eq_iff row_by_None_iff flip: not_None_eq)
next
  fix db assume ok: "knowledge_ok db"
  show "\<exists>s. pa_eventSubjectIds (knowledge_adapter js_date) db = Inr s \<and> dom (node_snapshot js_date db) \<subseteq> set s"
    using adapter_subjects [OF ok, of js_date] by (auto simp: adapter_simps)
  show "dom (node_snapshot js_date db) \<subseteq> anchored_nodes (kd_log db) (kd_index db)"
    using logged_node_born [OF ok] born_anchored [OF knowledge_okD(1,3) [OF ok]] by blast
  show "\<exists>a. pa_withGenesisAnchor (knowledge_adapter js_date) db ids = Inr a \<and>
      set a = set ids \<inter> anchored_nodes (kd_log db) (kd_index db)" for ids
    using with_anchors [OF knowledge_okD(3) [OF ok], of "kd_index db" ids] by (auto simp: adapter_simps)
  show "\<exists>live foldOne. pa_gatherWithContext (knowledge_adapter js_date) db = Inr (live, foldOne) \<and>
      map_of live = live_snapshot db \<and> distinct (map fst live) \<and> (\<forall>i. foldOne i = Inr (node_snapshot js_date db i))"
    using adapter_context [OF ok] by (simp add: adapter_simps)
qed

section \<open>Rebuild and audit of the table\<close>

text \<open>On a table that already holds the rows of the log, the write-through changes nothing.\<close>

lemma project_node_same:
  assumes "knowledge_ok db" "\<And>m. row_by nr_id m (kd_rows db) = log_node js_date (kd_log db) m"
  shows "projectKnowledgeNode js_date n db = Inr db"
proof -
  note ok = knowledge_okD [OF assms(1)]
  have fold: "gatherAndFoldKnowledgeNode js_date (kd_log db) (kd_index db) n = Inr (log_node js_date (kd_log db) n)"
    using gather_complete(1) [OF ok(1,2)] log_node_fold [OF ok(1,2)] by simp
  show ?thesis
  proof (cases "log_node js_date (kd_log db) n")
    case None
    then have "\<forall>r\<in>set (kd_rows db). nr_id r \<noteq> n"
      using assms(2) [of n] by (auto simp: row_by_None_iff)
    then have "\<not> list_ex (\<lambda>r. nr_id r = n) (kd_rows db)" "filter (\<lambda>r. nr_id r \<noteq> n) (kd_rows db) = kd_rows db"
      by (auto simp: list_ex_iff filter_id_conv)
    then show ?thesis using fold None by (simp add: projectKnowledgeNode_def delete_node_def)
  next
    case (Some r)
    then have r: "r \<in> set (kd_rows db)" using assms(2) [of n] by (auto dest: row_by_SomeD)
    then have "update_where (\<lambda>x. nr_id x = nr_id r) (\<lambda>_. r) (kd_rows db) = kd_rows db"
      using row_tab.wf_same_row [OF ok(4)] by (auto simp: update_where_def intro!: map_idI)
    then show ?thesis
      using fold Some r by (auto simp: projectKnowledgeNode_def upsertProjectedKnowledgeNode_def list_ex_iff)
  qed
qed

lemma project_each_same:
  assumes "knowledge_ok db" "\<And>m. row_by nr_id m (kd_rows db) = log_node js_date (kd_log db) m"
  shows "project_each (knowledge_adapter js_date) ids db = Inr db"
  by (induction ids) (simp_all add: adapter_simps project_node_same [OF assms])

lemma rebuild_unfold:
  assumes "assertKnowledgeOperationsDecodable (kd_log db) = Inr ()"
  shows "rebuild_knowledge js_date db = rebuild_kinds [(''knowledge'', knowledge_adapter js_date)] db"
  by (simp add: rebuild_knowledge_def rebuildProjectionForKinds_def assms)

lemma rebuild_checks:
  "rebuild_knowledge js_date db = Inr r \<Longrightarrow> assertKnowledgeOperationsDecodable (kd_log db) = Inr ()"
  by (cases "assertKnowledgeOperationsDecodable (kd_log db)")
    (simp_all add: rebuild_knowledge_def rebuildProjectionForKinds_def)

lemma project_each_tables:
  assumes "knowledge_ok db" "project_each (knowledge_adapter js_date) ids db = Inr db'"
  shows "knowledge_ok db' \<and> kd_log db' = kd_log db \<and> kd_index db' = kd_index db \<and> kd_edges db' = kd_edges db \<and>
    row_by nr_id m (kd_rows db') = (if m \<in> set ids then log_node js_date (kd_log db) m else row_by nr_id m (kd_rows db))"
  using assms
proof (induction ids arbitrary: db)
  case (Cons i ids)
  then obtain db1 where step: "projectKnowledgeNode js_date i db = Inr db1"
      "project_each (knowledge_adapter js_date) ids db1 = Inr db'"
    by (auto simp: bind_result_Inr_iff adapter_simps)
  from project_node [OF Cons.prems(1) step(1), of m] Cons.IH [OF _ step(2)] show ?case by auto
qed simp

lemma snapshot_inj: "inj knowledgeLiveRowToSnapshot"
proof (rule injI)
  fix a b :: KnowledgeRow
  assume eq: "knowledgeLiveRowToSnapshot a = knowledgeLiveRowToSnapshot b"
  have inj: "approval_status_text s = approval_status_text t \<longleftrightarrow> s = t"
      "node_role_text p = node_role_text q \<longleftrightarrow> p = q" for s t p q
    by (cases s; cases t; simp) (cases p; cases q; simp)
  show "a = b"
    using eq by (cases a; cases b) (auto simp: knowledgeLiveRowToSnapshot_def inj nullable_text_def split: option.splits)
qed

lemma rebuild_spec:
  assumes "knowledge_ok db" "rebuild_knowledge js_date db = Inr (counts, db')"
  shows "(\<forall>n. foldKnowledgeNode js_date n (kd_log db) = Inr (row_by nr_id n (kd_rows db'))) \<and>
    kd_log db' = kd_log db \<and> kd_index db' = kd_index db \<and> kd_edges db' = kd_edges db \<and>
    audit_knowledge js_date js_iso allowlist db' = Inr [] \<and>
    (\<exists>counts'. rebuild_knowledge js_date db' = Inr (counts', db'))"
proof -
  note ok = knowledge_okD [OF assms(1)] and checks = rebuild_checks [OF assms(2)]
  have kinds: "rebuild_kinds [(''knowledge'', knowledge_adapter js_date)] db = Inr (counts, db')"
    using assms(2) rebuild_unfold [OF checks] by simp
  then obtain ids where ids: "project_each (knowledge_adapter js_date) ids db = Inr db'"
    by (auto simp: bind_result_Inr_iff)
  from project_each_tables [OF assms(1) ids]
  have tables: "knowledge_ok db'" "kd_log db' = kd_log db" "kd_index db' = kd_index db" "kd_edges db' = kd_edges db"
    by auto
  have live: "live_snapshot db' = node_snapshot js_date db'"
    using nodes.rebuild_restores [OF assms(1) kinds] by simp
  then have rows: "row_by nr_id n (kd_rows db') = log_node js_date (kd_log db') n" for n
    by (auto simp: live_snapshot_def node_snapshot_def fun_eq_iff dest: injD [OF option.inj_map [OF snapshot_inj]])
  have "foldKnowledgeNode js_date n (kd_log db) = Inr (row_by nr_id n (kd_rows db'))" for n
    using log_node_fold [OF ok(1,2)] rows tables(2) by simp
  moreover have "audit_knowledge js_date js_iso allowlist db' = Inr []"
    unfolding audit_knowledge_def by (rule nodes.clean_audit [OF tables(1) live])
  moreover obtain s where "eventSubjectIdSet ''knowledge'' True (kd_log db') (kd_index db') = Inr s"
    using adapter_subjects [OF tables(1)] by blast
  then have "\<exists>counts'. rebuild_knowledge js_date db' = Inr (counts', db')"
    using rebuild_unfold [of db' js_date] checks tables(2) project_each_same [OF tables(1) rows]
    by (simp add: allProjectionIds_def adapter_simps)
  ultimately show ?thesis using tables(2-4) by blast
qed

text \<open>A rebuild returns unless it would have to delete a node that an edge still names.\<close>

lemma rebuild_exists:
  assumes "knowledge_ok db" "\<And>e. e \<in> set (kd_edges db) \<Longrightarrow>
      log_node js_date (kd_log db) (ke_from e) \<noteq> None \<and> log_node js_date (kd_log db) (ke_to e) \<noteq> None"
  shows "\<exists>counts db'. rebuild_knowledge js_date db = Inr (counts, db')"
proof -
  have "assertKnowledgeOperationsDecodable (kd_log db) = Inr ()"
    using knowledge_okD(2) [OF assms(1)] knowledge_ok_log [OF assms(1)] by (simp add: assertKnowledgeOperationsDecodable_iff)
  moreover have "\<exists>counts db'. rebuild_kinds [(''knowledge'', knowledge_adapter js_date)] db = Inr (counts, db')"
  proof (rule nodes.rebuild_total [OF assms(1), where P = "\<lambda>d. kd_log d = kd_log db \<and> kd_edges d = kd_edges db"])
    fix i db1
    assume db1: "knowledge_ok db1" "kd_log db1 = kd_log db \<and> kd_edges db1 = kd_edges db"
    obtain db2 where db2: "projectKnowledgeNode js_date i db1 = Inr db2"
      using project_node_total [OF db1(1), of i js_date] assms(2) db1(2) by metis
    then show "\<exists>db2. pa_project (knowledge_adapter js_date) i db1 = Inr db2 \<and> kd_log db2 = kd_log db \<and> kd_edges db2 = kd_edges db"
      using project_node [OF db1(1) db2] db1(2) by (simp add: adapter_simps)
  qed simp
  ultimately show ?thesis by (simp add: rebuild_unfold)
qed

lemma audit_spec:
  assumes "knowledge_ok db"
  shows "\<exists>found. audit_knowledge js_date js_iso allowlist db = Inr found \<and>
    (\<forall>n row. foldKnowledgeNode js_date n (kd_log db) = Inr row \<longrightarrow>
       (\<forall>v d. (n, v, d) \<in> set found \<longleftrightarrow> \<not> allowlist n \<and>
          hasKnowledgeNodeGenesisAnchor (kd_log db) (kd_index db) n = Inr True \<and>
          symmetric_verdict js_iso (map_option knowledgeLiveRowToSnapshot (row_by nr_id n (kd_rows db)))
            (map_option knowledgeLiveRowToSnapshot row) = Some (v, d)) \<and>
       (row \<noteq> None \<longrightarrow> hasKnowledgeNodeGenesisAnchor (kd_log db) (kd_index db) n = Inr True))"
proof -
  note ok = knowledge_okD [OF assms]
  obtain found where found: "audit_knowledge js_date js_iso allowlist db = Inr found"
      "\<And>n v d. (n, v, d) \<in> set found \<longleftrightarrow> \<not> allowlist n \<and> n \<in> anchored_nodes (kd_log db) (kd_index db) \<and>
        symmetric_verdict js_iso (live_snapshot db n) (node_snapshot js_date db n) = Some (v, d)"
    using nodes.symmetric_audit [OF assms, where js_iso = js_iso and fatal = undecodable and allowlist = allowlist and js_date = js_date] unfolding audit_knowledge_def by blast
  have snap: "node_snapshot js_date db n = map_option knowledgeLiveRowToSnapshot row"
    if "foldKnowledgeNode js_date n (kd_log db) = Inr row" for n row
    using that by (simp add: node_snapshot_def log_node_def)
  have "n \<in> anchored_nodes (kd_log db) (kd_index db)" if "foldKnowledgeNode js_date n (kd_log db) = Inr (Some row)" for n row
    using that snap nodes.anchored [OF assms, of js_date] by (auto simp: dom_def)
  then show ?thesis
    using found snap by (intro exI [of _ found]) (auto simp: has_anchor [OF ok(3)] live_snapshot_def)
qed

end
