(* ===== verification/KnowledgeNodeProperties.thy ===== *)
theory KnowledgeNodeProperties
  imports KnowledgeNodeAudit
begin

text \<open>
  The properties of knowledge operations, of the projection of a knowledge node, and of the rebuild and
  the audit of the whole table, each with the tables on which it is evaluated.
\<close>

section \<open>Operations\<close>

text \<open>
  C10. Knowledge operations survive the trip through the log. For a rate with a given subject and cause,
  an operation written in the form the writers use is read back exactly when it is well formed and fits
  that envelope; whatever payload decodes to an operation, in any field order and with any other fields,
  the canonical form of that operation decodes to the same one. The rate of an accepted creation and the
  rate of a retracted creation decode to the operations their writers meant.
\<close>

theorem knowledge_operation_roundtrip:
  "(decodeKnowledgeOperation e s c (operation_payload op) = Inr (Some op) \<longleftrightarrow> operation_ok s c op) \<and>
   (decodeKnowledgeOperation e s c payload = Inr (Some op) \<longrightarrow>
      decodeKnowledgeOperation e s c (operation_payload op) = Inr (Some op)) \<and>
   (p \<noteq> [] \<and> i \<noteq> [] \<longrightarrow>
      decodeKnowledgeOperation e p (Some p) (create_rate_payload un p i) = Inr (Some (create_operation p i))) \<and>
   (b \<noteq> [] \<and> r \<noteq> [] \<and> i \<noteq> [] \<and> p \<noteq> [] \<and> (\<forall>(x, f)\<in>set retired. x \<noteq> [] \<and> f \<noteq> []) \<longrightarrow>
      decodeKnowledgeOperation e p (Some p) (archive_rate_payload b r i v p retired) =
        Inr (Some (archive_operation b r i v p retired)))"
proof -
  have lift: "decodeKnowledgeOperation e s c q = Inr (Some x) \<longleftrightarrow> decode_operation s c q = Inr (Some x)" for s c q x e
    by (simp add: decodeKnowledgeOperation_def split: sum.splits)
  show ?thesis
    unfolding lift
    using decode_operation_payload decode_operation_ok decode_create_rate_payload [of p i un]
      decode_archive_rate_payload [of b r i p retired v] by blast
qed

text \<open>An archive of a node with one edge, its fields in another order and with another rate field.\<close>

definition demo_archive :: KnowledgeOperationV1 where
  "demo_archive = archive_operation ''r1'' ''c1'' ''n1'' 12 ''a1'' [(''e1'', ''f1'')]"

definition demo_payload :: jsval where
  "demo_payload = JObj
     [(''user_note'', JStr ''no longer''),
      (''knowledge_operation'', JObj
        [(''targets'', JArr
           [JObj [(''id'', JStr ''n1''), (''kind'', JStr ''knowledge''), (''fact_event_id'', JStr ''a1''),
              (''effect'', JStr ''archive''), (''after_version'', JNum ''13''), (''before_version'', JNum ''12'')],
            JObj [(''kind'', JStr ''knowledge_edge''), (''id'', JStr ''e1''), (''effect'', JStr ''archive''),
              (''fact_event_id'', JStr ''f1'')]]),
         (''correction_event_id'', JStr ''c1''), (''retracts_accept_event_id'', JStr ''r1''),
         (''kind'', JStr ''archive''), (''version'', JNum ''1'')]),
      (''rating'', JStr ''accept'')]"

lemma demo_payload_decodes: "decodeKnowledgeOperation ''x1'' ''a1'' (Some ''a1'') demo_payload = Inr (Some demo_archive)"
  by code_simp

theorem knowledge_operation_roundtrip_witness:
  "decodeKnowledgeOperation ''x1'' ''a1'' (Some ''a1'') (operation_payload demo_archive) = Inr (Some demo_archive) \<and>
   decodeKnowledgeOperation ''x1'' ''p1'' (Some ''p1'') (create_rate_payload None ''p1'' ''n1'') =
     Inr (Some (create_operation ''p1'' ''n1''))"
  using knowledge_operation_roundtrip [of "''x1''" "''a1''" "Some ''a1''" demo_archive demo_payload]
    knowledge_operation_roundtrip [of "''x1''" "''a1''" "Some ''a1''" demo_archive demo_payload "''p1''" "''n1''" None]
    demo_payload_decodes
  by simp

section \<open>A small history\<close>

definition demo_event :: "string \<Rightarrow> int \<Rightarrow> string \<Rightarrow> string \<Rightarrow> string \<Rightarrow> string option \<Rightarrow> string option \<Rightarrow> jsval \<Rightarrow> FoldEvent" where
  "demo_event i at actor action subject outcome cause payload =
     \<lparr>fe_id = i, fe_created_at = at, fe_actor_kind = actor, fe_actor_ref = (if actor = ''user'' then ''self'' else ''dreaming''),
      fe_action = action, fe_subject_kind = (if action = ''rate'' then ''event'' else ''knowledge''),
      fe_subject_id = subject, fe_outcome = outcome, fe_caused_by = cause, fe_payload = payload\<rparr>"

text \<open>A proposed node is accepted and later retired.\<close>

definition demo_history :: "FoldEvent list" where
  "demo_history =
     [demo_event ''p1'' 1 ''agent'' ''propose'' ''k1'' (Some ''partial'') None
        (JObj [(''name'', JStr ''Limits''), (''parent_id'', JStr ''k0''), (''reasoning'', JStr ''missing'')]),
      demo_event ''r1'' 2 ''user'' ''rate'' ''p1'' (Some ''success'') (Some ''p1'') (create_rate_payload None ''p1'' ''n1''),
      demo_event ''p2'' 3 ''agent'' ''experimental:knowledge_archive'' ''n1'' (Some ''partial'') None
        (JObj [(''node_id'', JStr ''n1''), (''reasoning'', JStr ''duplicate'')]),
      demo_event ''r2'' 4 ''user'' ''rate'' ''p2'' (Some ''success'') (Some ''p2'') (JObj [(''rating'', JStr ''accept'')])]"

definition demo_anchors :: "AnchorRow list" where
  "demo_anchors = [\<lparr>mx_materialized_id = ''n1'', mx_anchor_event_id = ''p1'', mx_subject_kind = ''knowledge''\<rparr>]"

definition demo_row :: KnowledgeRow where
  "demo_row = retire_row 4 (createRow ''n1'' ''Limits'' (Some ''k0'') None 2)"

section \<open>The projection of a node\<close>

text \<open>
  C40. The row of a knowledge node does not depend on the order in which its events are read: if every
  proposal is accepted by at most one event of the list, any permutation of the events folds to the same
  row, births, mutations, control repairs and retirements included, and fails exactly when the list does.
\<close>

theorem node_fold_ignores_order:
  assumes "mset events = mset events'" "distinct (map fe_id events)" "single_accepts events"
  shows "foldKnowledgeNode js_date n events = Inr row \<longleftrightarrow> foldKnowledgeNode js_date n events' = Inr row"
  using assms(1) mset_eq_setD [OF assms(1)] node_project_perm [OF assms] by (simp add: foldKnowledgeNode_Inr)

definition demo_accepts :: Accepts where
  "demo_accepts = \<lparr>ac_at = [(''p2'', 4), (''p1'', 2)], ac_minted = [(''p1'', [''n1''])]\<rparr>"

lemma demo_accepts_of: "map accepts_of demo_history = [[], [(''p1'', 2, [''n1''])], [], [(''p2'', 4, [])]]"
  by code_simp

lemma demo_accepts_in: "accepts_in demo_history = [(''p1'', 2, [''n1'']), (''p2'', 4, [])]"
  by (simp add: accepts_in_def demo_accepts_of)

lemma demo_history_single: "distinct (map fe_id demo_history)" "single_accepts demo_history"
  by code_simp (simp add: single_accepts_def demo_accepts_in)

lemma demo_resolves: "resolve_accepts no_accepts demo_history = Inr demo_accepts"
  by code_simp

lemma demo_keys:
  "map (replay_key ''n1'' demo_accepts) demo_history =
     [(2, (0, 0), ''p1''), (2, (2, 0), ''r1''), (4, (2, 0), ''p2''), (4, (2, 0), ''r2'')]"
  by code_simp

lemma demo_sorted: "sort_key (replay_key ''n1'' demo_accepts) demo_history = demo_history"
  by (rule sort_key_id_if_sorted) (simp add: demo_keys)

lemma demo_history_folds: "foldKnowledgeNode (\<lambda>_. None) ''n1'' demo_history = Inr (Some demo_row)"
proof -
  have "foldl (apply_event (\<lambda>_. None) ''n1'' demo_accepts) None demo_history = Some demo_row"
    by code_simp
  then show ?thesis by (simp add: foldKnowledgeNode_def demo_resolves demo_sorted)
qed

theorem node_fold_ignores_order_witness:
  "foldKnowledgeNode (\<lambda>_. None) ''n1'' (rev demo_history) = Inr (Some demo_row)"
  using node_fold_ignores_order [of demo_history "rev demo_history" "\<lambda>_. None" "''n1''" "Some demo_row"]
    demo_history_single demo_history_folds by simp

text \<open>
  C24. What is read for a node is all that matters for it. On a log that passes the class-level check of
  the operations and keeps the writers' habits (a proposal decided once, mutations filed under the node
  they mutate, minted ids anchored or named by an operation), the bounded read of any node succeeds, its
  references verify, and folding what it read gives the row that folding the whole log gives; and the
  batch read of a full-table caller, with its prefetched merges, rates and operations, gives every node
  the same row.
\<close>

theorem gathered_history_is_complete:
  assumes "history_ok log idx" "assertKnowledgeOperationsDecodable log = Inr ()"
  shows "gatherAndFoldKnowledgeNode js_date log idx n = foldKnowledgeNode js_date n log \<and>
    (\<exists>row. gatherAndFoldKnowledgeNode js_date log idx n = Inr row) \<and>
    (\<exists>foldOne. knowledge_foldOne js_date log idx = Inr foldOne \<and>
       (\<forall>m. foldOne m = gatherAndFoldKnowledgeNode js_date log idx m))"
proof -
  have "log_tab.wf log" using assms(1) by (simp add: history_ok_def)
  then have "operations_verified log" using assms(2) by (simp add: assertKnowledgeOperationsDecodable_iff)
  from gather_complete [OF assms(1) this] foldOne_complete [OF assms(1) this] show ?thesis by simp
qed

lemma demo_history_ok: "history_ok demo_history demo_anchors"
  unfolding history_ok_def log_tab.wf_def
proof (intro conjI)
  show "single_accepts demo_history" by (rule demo_history_single)
  show "\<forall>ev\<in>set demo_history. fe_id ev \<in> fst ` set (accepts_in demo_history) \<longrightarrow> mutation_coherent ev"
    unfolding demo_accepts_in by code_simp
qed code_simp+

lemma demo_history_checks: "assertKnowledgeOperationsDecodable demo_history = Inr ()"
  by code_simp

theorem gathered_history_is_complete_witness:
  "gatherAndFoldKnowledgeNode (\<lambda>_. None) demo_history demo_anchors ''n1'' = Inr (Some demo_row) \<and>
   (\<exists>foldOne. knowledge_foldOne (\<lambda>_. None) demo_history demo_anchors = Inr foldOne \<and> foldOne ''n1'' = Inr (Some demo_row))"
  using gathered_history_is_complete [OF demo_history_ok demo_history_checks, of "\<lambda>_. None" "''n1''"]
    demo_history_folds by auto

section \<open>Rebuild and audit\<close>

lemma knowledge_okI:
  assumes "history_ok (kd_log db) (kd_index db)" "assertKnowledgeOperationsDecodable (kd_log db) = Inr ()"
    and "distinct (map nr_id (kd_rows db))"
  shows "knowledge_ok db"
  using assms by (simp add: knowledge_ok_def row_tab.wf_def history_ok_def assertKnowledgeOperationsDecodable_iff)

text \<open>
  C12. A rebuild of the kind knowledge restores what the log says. Assumed is a log with the writers' habits
  (\<open>history_ok\<close>: event ids are unique and not empty, a proposal is accepted at most once, a decided
  mutation is filed under the node it mutates, and an id that an accept mints is anchored to its proposal in
  the index or named by an operation) and distinct row ids; that the log passes the class-level check is not
  assumed, since the rebuild asks it first. Whatever rows the table holds for them (stale, invented,
  missing), when the rebuild returns, every id with a genesis anchor has exactly the row that folding the
  whole log gives it, and no row when the log gives none; every row the log gives is there; the log, the
  index and the edges are untouched, the symmetric audit finds nothing, and a second rebuild changes
  nothing. Rows of ids without an anchor are no part of the claim; what becomes of them is the case
  \<open>rebuild_deletes_unanchored_rows\<close> below.
\<close>

theorem rebuild_restores_the_log:
  assumes "history_ok (kd_log db) (kd_index db)" "distinct (map nr_id (kd_rows db))"
    and "rebuild_knowledge js_date db = Inr (counts, db')"
  shows "(\<forall>n. hasKnowledgeNodeGenesisAnchor (kd_log db) (kd_index db) n = Inr True \<longrightarrow>
      foldKnowledgeNode js_date n (kd_log db) = Inr (row_by nr_id n (kd_rows db'))) \<and>
    (\<forall>n row. foldKnowledgeNode js_date n (kd_log db) = Inr (Some row) \<longrightarrow> row_by nr_id n (kd_rows db') = Some row) \<and>
    kd_log db' = kd_log db \<and> kd_index db' = kd_index db \<and> kd_edges db' = kd_edges db \<and>
    audit_knowledge js_date js_iso allowlist db' = Inr [] \<and>
    (\<exists>counts'. rebuild_knowledge js_date db' = Inr (counts', db'))"
proof -
  have "knowledge_ok db" using assms knowledge_okI rebuild_checks [OF assms(3)] by blast
  from rebuild_spec [OF this assms(3), of js_iso allowlist] show ?thesis by simp
qed

theorem rebuild_restores_the_log_witness:
  "\<exists>counts db'. rebuild_knowledge (\<lambda>_. None) \<lparr>kd_log = demo_history, kd_rows = [createRow ''n9'' ''Stray'' None None 1],
       kd_edges = [], kd_index = demo_anchors\<rparr> = Inr (counts, db') \<and>
     row_by nr_id ''n1'' (kd_rows db') = Some demo_row"
proof -
  let ?db = "\<lparr>kd_log = demo_history, kd_rows = [createRow ''n9'' ''Stray'' None None 1], kd_edges = [], kd_index = demo_anchors\<rparr>"
  have ok: "knowledge_ok ?db" by (rule knowledge_okI) (simp_all add: demo_history_ok demo_history_checks)
  obtain counts db' where r: "rebuild_knowledge (\<lambda>_. None) ?db = Inr (counts, db')"
    using rebuild_exists [OF ok, of "\<lambda>_. None"] by auto
  have "\<forall>n row. foldKnowledgeNode (\<lambda>_. None) n demo_history = Inr (Some row) \<longrightarrow> row_by nr_id n (kd_rows db') = Some row"
    using rebuild_restores_the_log [OF _ _ r, of "\<lambda>_. None" "\<lambda>_. False"] demo_history_ok by simp
  then show ?thesis using r demo_history_folds by fastforce
qed

text \<open>
  C19. The symmetric audit is exact, over every id there is. On a log that passes the class-level check and
  keeps the writers' habits, and whatever the rows are, the audit returns; it reports an id with a verdict
  and the fields that differ exactly when the id is not allowed, has an anchor, and its row and the fold
  of the log disagree in that way. An id the log folds to a row always has an anchor, so a row that was
  deleted or altered behind the log's back cannot escape.
\<close>

theorem audit_is_exact:
  assumes "history_ok (kd_log db) (kd_index db)" "assertKnowledgeOperationsDecodable (kd_log db) = Inr ()"
    and "distinct (map nr_id (kd_rows db))"
  shows "\<exists>found. audit_knowledge js_date js_iso allowlist db = Inr found \<and>
    (\<forall>n row. foldKnowledgeNode js_date n (kd_log db) = Inr row \<longrightarrow>
       (\<forall>v d. (n, v, d) \<in> set found \<longleftrightarrow> \<not> allowlist n \<and>
          hasKnowledgeNodeGenesisAnchor (kd_log db) (kd_index db) n = Inr True \<and>
          symmetric_verdict js_iso (map_option knowledgeLiveRowToSnapshot (row_by nr_id n (kd_rows db)))
            (map_option knowledgeLiveRowToSnapshot row) = Some (v, d)) \<and>
       (row \<noteq> None \<longrightarrow> hasKnowledgeNodeGenesisAnchor (kd_log db) (kd_index db) n = Inr True))"
  by (rule audit_spec, rule knowledge_okI) (use assms in simp_all)

text \<open>A table that lost the row of an accepted node: the audit reports a ghost.\<close>

theorem audit_is_exact_witness:
  "\<exists>found. audit_knowledge (\<lambda>_. None) (\<lambda>_. None) (\<lambda>_. False)
       \<lparr>kd_log = demo_history, kd_rows = [], kd_edges = [], kd_index = demo_anchors\<rparr> = Inr found \<and>
     (''n1'', Ghost, [''<ghost>'']) \<in> set found"
proof -
  let ?db = "\<lparr>kd_log = demo_history, kd_rows = [], kd_edges = [], kd_index = demo_anchors\<rparr>"
  from audit_is_exact [of ?db "\<lambda>_. None" "\<lambda>_. None" "\<lambda>_. False"] demo_history_ok demo_history_checks
  obtain found where f: "audit_knowledge (\<lambda>_. None) (\<lambda>_. None) (\<lambda>_. False) ?db = Inr found"
    "\<And>n row v d. foldKnowledgeNode (\<lambda>_. None) n demo_history = Inr row \<Longrightarrow> (n, v, d) \<in> set found \<longleftrightarrow>
       hasKnowledgeNodeGenesisAnchor demo_history demo_anchors n = Inr True \<and>
       symmetric_verdict (\<lambda>_. None) None (map_option knowledgeLiveRowToSnapshot row) = Some (v, d)"
    "\<And>n row. foldKnowledgeNode (\<lambda>_. None) n demo_history = Inr (Some row) \<Longrightarrow>
       hasKnowledgeNodeGenesisAnchor demo_history demo_anchors n = Inr True"
    by (auto simp: row_by_def)
  from f(1) f(2) [OF demo_history_folds] f(3) [OF demo_history_folds] show ?thesis
    by (auto simp: symmetric_verdict_def)
qed

text \<open>
  The registry rebuilds nodes with the unguarded write-through. A row that predates the log, with no event
  and no anchor, is deleted by a rebuild, where the guarded write-through keeps it; and the audit, which
  skips ids without an anchor, then reports nothing.
\<close>

theorem rebuild_deletes_unanchored_rows:
  "rebuild_knowledge (\<lambda>_. None) \<lparr>kd_log = [], kd_rows = [demo_row], kd_edges = [], kd_index = []\<rparr> =
     Inr ([(''knowledge'', 1)], \<lparr>kd_log = [], kd_rows = [], kd_edges = [], kd_index = []\<rparr>) \<and>
   projectKnowledgeNodeGuarded (\<lambda>_. None) ''n1'' \<lparr>kd_log = [], kd_rows = [demo_row], kd_edges = [], kd_index = []\<rparr> =
     Inr \<lparr>kd_log = [], kd_rows = [demo_row], kd_edges = [], kd_index = []\<rparr>"
  by code_simp

end
