(* ===== verification/SubscriptionStore.thy ===== *)
theory SubscriptionStore
  imports Prelude Complex_Main
begin

text \<open>
  The durable event subscription bus: \<open>src/src/server/events/subscriptions/runtime.ts\<close> over the
  tables \<open>event_subscription_checkpoint\<close> and \<open>event_subscription_delivery\<close> of
  \<open>src/src/db/schema/events.ts\<close>. A checkpoint is one subscriber version, with a lease that
  makes one worker at a time its owner; a delivery is the fate of one event for one subscriber version.

  Times are in microseconds. Every statement that reads \<open>clock_timestamp()\<close> takes its reading as
  an argument, since the lease can run out between two statements of one transaction. Ids that
  \<open>randomUUID()\<close> draws are arguments too. The columns \<open>bootstrapped_at\<close>, \<open>activated_at\<close>,
  \<open>paused_at\<close>, \<open>discovered_at\<close>, \<open>created_at\<close> and \<open>updated_at\<close>, which nothing here reads,
  are left out. \<open>outcome\<close> holds the text of its JSON value. A transaction that throws returns
  \<open>Inl\<close> and leaves the tables as they were.
\<close>

section \<open>Rows\<close>

record LoggedEvent =
  ev_id :: string
  ev_dispatch_seq :: int
  ev_action :: string

datatype CheckpointStatus = Bootstrapping | Active | Paused

datatype DeliveryStatus =
  BootstrapSkipped | Pending | Claimed | RetryWait | Succeeded | Skipped | DeadLetter

record Checkpoint =
  cp_subscriber_id :: string
  cp_subscriber_version :: int
  cp_declaration_hash :: string
  cp_status :: CheckpointStatus
  cp_next_delivery_seq :: int
  cp_claim_owner :: "string option"
  cp_claim_token :: "string option"
  cp_claim_lease_until :: "int option"

record Delivery =
  dl_subscriber_id :: string
  dl_subscriber_version :: int
  dl_source_event_id :: string
  dl_source_dispatch_seq :: int
  dl_delivery_seq :: int
  dl_status :: DeliveryStatus
  dl_attempt_count :: int
  dl_redrive_count :: int
  dl_next_attempt_at :: "int option"
  dl_claim_owner :: "string option"
  dl_claim_token :: "string option"
  dl_claim_lease_until :: "int option"
  dl_last_error :: "string option"
  dl_outcome :: "string option"
  dl_claimed_at :: "int option"
  dl_completed_at :: "int option"

record sub_db =
  s_events :: "LoggedEvent list"
  s_checkpoints :: "Checkpoint list"
  s_deliveries :: "Delivery list"

datatype sub_error =
    UndeclaredSubscription string int
  | DeclarationHashMismatch string int
  | CheckpointVanished
  | SubscriptionPaused string int
  | LostLeaseDuringDiscovery string int
  | LeaseIdentityMismatch string int
  | NotPositiveFinite string
  | NotPositiveInteger string
  | HandlerTimeoutTooLong
  | UniqueViolation string
  | CheckViolation string

definition checkpoint_key :: "Checkpoint \<Rightarrow> string \<times> int" where
  "checkpoint_key c = (cp_subscriber_id c, cp_subscriber_version c)"

definition delivery_key :: "Delivery \<Rightarrow> string \<times> int \<times> string" where
  "delivery_key d = (dl_subscriber_id d, dl_subscriber_version d, dl_source_event_id d)"

definition local_seq :: "Delivery \<Rightarrow> string \<times> int \<times> int" where
  "local_seq d = (dl_subscriber_id d, dl_subscriber_version d, dl_delivery_seq d)"

definition of_version :: "string \<Rightarrow> int \<Rightarrow> Delivery \<Rightarrow> bool" where
  "of_version i v d \<longleftrightarrow> dl_subscriber_id d = i \<and> dl_subscriber_version d = v"

section \<open>The declarations\<close>

record LoadedSubscription =
  sub_id :: string
  sub_version :: int
  sub_actions :: "string list"
  sub_hash :: string

definition registry_get :: "LoadedSubscription list \<Rightarrow> string \<Rightarrow> int \<Rightarrow> LoadedSubscription option" where
  "registry_get reg i v = find (\<lambda>s. sub_id s = i \<and> sub_version s = v) (rev reg)"

definition getDeclaredSubscription ::
  "LoadedSubscription list \<Rightarrow> string \<Rightarrow> int \<Rightarrow> sub_error + LoadedSubscription" where
  "getDeclaredSubscription reg i v =
     (case registry_get reg i v of None \<Rightarrow> Inl (UndeclaredSubscription i v) | Some s \<Rightarrow> Inr s)"

text \<open>JavaScript numbers: \<open>None\<close> is \<open>NaN\<close> or an infinity, which both assertions reject.\<close>

type_synonym js_number = "rat option"

definition assertPositiveFinite :: "js_number \<Rightarrow> string \<Rightarrow> sub_error + unit" where
  "assertPositiveFinite value name =
     (case value of None \<Rightarrow> Inl (NotPositiveFinite name)
      | Some q \<Rightarrow> if q \<le> 0 then Inl (NotPositiveFinite name) else Inr ())"

definition assertPositiveInteger :: "js_number \<Rightarrow> string \<Rightarrow> sub_error + unit" where
  "assertPositiveInteger value name =
     (case value of None \<Rightarrow> Inl (NotPositiveInteger name)
      | Some q \<Rightarrow> if of_int \<lfloor>q\<rfloor> \<noteq> q \<or> q \<le> 0 then Inl (NotPositiveInteger name) else Inr ())"

definition js_int :: "js_number \<Rightarrow> int" where
  "js_int value = (case value of None \<Rightarrow> 0 | Some q \<Rightarrow> \<lfloor>q\<rfloor>)"

text \<open>\<open>x * interval '1 second'\<close>, at the microsecond resolution of the database's intervals.\<close>

definition seconds :: "js_number \<Rightarrow> int" where
  "seconds x = (case x of None \<Rightarrow> 0 | Some q \<Rightarrow> round (q * 1000000))"

definition DISCOVERY_BATCH_SIZE :: nat where
  "DISCOVERY_BATCH_SIZE = 1000"

definition LEASE_TTL_SECONDS :: rat where
  "LEASE_TTL_SECONDS = 120"

definition DEFAULT_HANDLER_TIMEOUT_MS :: rat where
  "DEFAULT_HANDLER_TIMEOUT_MS = 90000"

section \<open>Statements\<close>

definition lease_live :: "int option \<Rightarrow> int \<Rightarrow> bool" where
  "lease_live u now = (case u of None \<Rightarrow> False | Some t \<Rightarrow> now \<le> t)"

definition lease_expired :: "int option \<Rightarrow> int \<Rightarrow> bool" where
  "lease_expired u now = (case u of None \<Rightarrow> False | Some t \<Rightarrow> t < now)"

text \<open>\<open>INSERT .. ON CONFLICT (subscriber_id, subscriber_version, source_event_id) DO NOTHING
  RETURNING\<close>: a row whose key exists is dropped, a row whose local sequence number exists fails the
  statement. The result is the table and the rows inserted.\<close>

fun insert_deliveries :: "Delivery list \<Rightarrow> Delivery list \<Rightarrow> sub_error + Delivery list \<times> Delivery list" where
  "insert_deliveries t [] = Inr (t, [])"
| "insert_deliveries t (r # rs) =
     (if list_ex (\<lambda>d. delivery_key d = delivery_key r) t then insert_deliveries t rs
      else if list_ex (\<lambda>d. local_seq d = local_seq r) t
        then Inl (UniqueViolation ''event_subscription_delivery_local_seq_uq'')
      else bind_result (insert_deliveries (t @ [r]) rs) (\<lambda>(t', ins). Inr (t', r # ins)))"

text \<open>\<open>UPDATE .. SET .. WHERE .. RETURNING\<close>: the rows updated, as they are afterwards.\<close>

definition update_deliveries ::
  "(Delivery \<Rightarrow> bool) \<Rightarrow> (Delivery \<Rightarrow> Delivery) \<Rightarrow> sub_db \<Rightarrow> Delivery list \<times> sub_db" where
  "update_deliveries p f db =
     (map f (filter p (s_deliveries db)), db\<lparr>s_deliveries := update_where p f (s_deliveries db)\<rparr>)"

definition update_checkpoints ::
  "(Checkpoint \<Rightarrow> bool) \<Rightarrow> (Checkpoint \<Rightarrow> Checkpoint) \<Rightarrow> sub_db \<Rightarrow> Checkpoint list \<times> sub_db" where
  "update_checkpoints p f db =
     (map f (filter p (s_checkpoints db)), db\<lparr>s_checkpoints := update_where p f (s_checkpoints db)\<rparr>)"

text \<open>\<open>coalesce(max(delivery_seq), 0)\<close> over one subscriber version.\<close>

definition max_delivery_seq :: "string \<Rightarrow> int \<Rightarrow> Delivery list \<Rightarrow> int" where
  "max_delivery_seq i v ds =
     (case map dl_delivery_seq (filter (of_version i v) ds) of [] \<Rightarrow> 0 | s # ss \<Rightarrow> foldl max s ss)"

record CheckpointFence =
  fn_subscriber_id :: string
  fn_subscriber_version :: int
  fn_declaration_hash :: string
  fn_claim_owner :: string
  fn_claim_token :: string

definition fence_matches :: "CheckpointFence \<Rightarrow> int \<Rightarrow> Checkpoint \<Rightarrow> bool" where
  "fence_matches fn now c \<longleftrightarrow>
     cp_subscriber_id c = fn_subscriber_id fn \<and> cp_subscriber_version c = fn_subscriber_version fn \<and>
     cp_declaration_hash c = fn_declaration_hash fn \<and> cp_status c = Active \<and>
     cp_claim_owner c = Some (fn_claim_owner fn) \<and> cp_claim_token c = Some (fn_claim_token fn) \<and>
     lease_live (cp_claim_lease_until c) now"

definition withLockedCheckpoint ::
  "CheckpointFence \<Rightarrow> int \<Rightarrow> (sub_db \<Rightarrow> 'a \<times> sub_db) \<Rightarrow> sub_db \<Rightarrow> 'a option \<times> sub_db" where
  "withLockedCheckpoint fn now transition db =
     (if length (filter (fence_matches fn now) (s_checkpoints db)) \<noteq> 1 then (None, db)
      else (case transition db of (a, db') \<Rightarrow> (Some a, db')))"

section \<open>Bootstrap\<close>

definition outstanding_status :: "DeliveryStatus \<Rightarrow> bool" where
  "outstanding_status s \<longleftrightarrow> s = Pending \<or> s = Claimed \<or> s = RetryWait"

definition older_outstanding :: "string \<Rightarrow> int \<Rightarrow> Delivery \<Rightarrow> bool" where
  "older_outstanding i v d \<longleftrightarrow>
     dl_subscriber_id d = i \<and> dl_subscriber_version d < v \<and> outstanding_status (dl_status d)"

definition subscribed_event :: "LoadedSubscription \<Rightarrow> LoggedEvent list \<Rightarrow> string \<Rightarrow> bool" where
  "subscribed_event sub es e \<longleftrightarrow> list_ex (\<lambda>ev. ev_id ev = e \<and> ev_action ev \<in> set (sub_actions sub)) es"

definition translated_row :: "string \<Rightarrow> int \<Rightarrow> nat \<times> Delivery \<Rightarrow> Delivery" where
  "translated_row i v x = (case x of (n, od) \<Rightarrow>
     \<lparr>dl_subscriber_id = i, dl_subscriber_version = v, dl_source_event_id = dl_source_event_id od,
      dl_source_dispatch_seq = dl_source_dispatch_seq od, dl_delivery_seq = int n,
      dl_status = (if dl_status od = RetryWait then RetryWait else Pending),
      dl_attempt_count = dl_attempt_count od, dl_redrive_count = dl_redrive_count od,
      dl_next_attempt_at = (if dl_status od = RetryWait then dl_next_attempt_at od else None),
      dl_claim_owner = None, dl_claim_token = None, dl_claim_lease_until = None,
      dl_last_error = dl_last_error od, dl_outcome = None, dl_claimed_at = None, dl_completed_at = None\<rparr>)"

text \<open>\<open>row_number() OVER (ORDER BY dispatch_seq, id)\<close> numbers the rows from 1. \<open>dispatch_seq\<close> is
  unique, so the id decides nothing; rows of one event keep the table's order.\<close>

definition translated_rows :: "LoadedSubscription \<Rightarrow> sub_db \<Rightarrow> Delivery list" where
  "translated_rows sub db =
     map (translated_row (sub_id sub) (sub_version sub)) (enumerate 1 (sort_key dl_source_dispatch_seq
       (filter (\<lambda>od. older_outstanding (sub_id sub) (sub_version sub) od \<and>
                     subscribed_event sub (s_events db) (dl_source_event_id od)) (s_deliveries db))))"

definition new_row :: "string \<Rightarrow> int \<Rightarrow> LoggedEvent \<Rightarrow> int \<Rightarrow> DeliveryStatus \<Rightarrow> int option \<Rightarrow> Delivery" where
  "new_row i v e n st completed =
     \<lparr>dl_subscriber_id = i, dl_subscriber_version = v, dl_source_event_id = ev_id e,
      dl_source_dispatch_seq = ev_dispatch_seq e, dl_delivery_seq = n, dl_status = st,
      dl_attempt_count = 0, dl_redrive_count = 0, dl_next_attempt_at = None, dl_claim_owner = None,
      dl_claim_token = None, dl_claim_lease_until = None, dl_last_error = None, dl_outcome = None,
      dl_claimed_at = None, dl_completed_at = completed\<rparr>"

definition history_rows :: "LoadedSubscription \<Rightarrow> nat \<Rightarrow> int \<Rightarrow> sub_db \<Rightarrow> Delivery list" where
  "history_rows sub translatedCount now db =
     map (\<lambda>(n, e). new_row (sub_id sub) (sub_version sub) e (int translatedCount + int n)
                     BootstrapSkipped (Some now))
       (enumerate 1 (sort_key ev_dispatch_seq
         (filter (\<lambda>e. ev_action e \<in> set (sub_actions sub)) (s_events db))))"

text \<open>Decimal digits of a version, for \<open>'translated_to_v' || version::text\<close>.\<close>

fun nat_digits :: "nat \<Rightarrow> string" where
  "nat_digits n = (if n < 10 then [char_of (48 + n)] else nat_digits (n div 10) @ [char_of (48 + n mod 10)])"

definition superseded_row :: "string \<Rightarrow> int \<Rightarrow> Delivery list \<Rightarrow> int \<Rightarrow> Delivery \<Rightarrow> Delivery" where
  "superseded_row i v ds now od =
     od\<lparr>dl_status := Skipped, dl_claim_owner := None, dl_claim_token := None, dl_claim_lease_until := None,
        dl_claimed_at := None, dl_next_attempt_at := None, dl_completed_at := Some now,
        dl_last_error :=
          (if list_ex (\<lambda>nv. delivery_key nv = (i, v, dl_source_event_id od)) ds
           then Some (''translated_to_v'' @ nat_digits (nat v))
           else Some ''superseded_by_version_bootstrap'')\<rparr>"

record BootstrapTranslation =
  bt_translated :: nat
  bt_superseded :: nat

definition bootstrapSubscription ::
  "LoadedSubscription list \<Rightarrow> LoadedSubscription \<Rightarrow> int \<Rightarrow> int \<Rightarrow> sub_db \<Rightarrow>
     sub_error + BootstrapTranslation \<times> sub_db" where
  "bootstrapSubscription reg sub historyAt supersededAt db =
     (let i = sub_id sub; v = sub_version sub in
      bind_result (getDeclaredSubscription reg i v) (\<lambda>declared.
        if list_ex (\<lambda>c. checkpoint_key c = (i, v)) (s_checkpoints db) then
          (case find (\<lambda>c. checkpoint_key c = (i, v)) (s_checkpoints db) of
             None \<Rightarrow> Inl CheckpointVanished
           | Some c \<Rightarrow>
               if cp_declaration_hash c \<noteq> sub_hash declared then Inl (DeclarationHashMismatch i v)
               else Inr (\<lparr>bt_translated = 0, bt_superseded = 0\<rparr>, db))
        else if v \<le> 0 then Inl (CheckViolation ''event_subscription_checkpoint_version_positive'')
        else
          (let checkpoint = \<lparr>cp_subscriber_id = i, cp_subscriber_version = v,
                 cp_declaration_hash = sub_hash declared, cp_status = Active, cp_next_delivery_seq = 1,
                 cp_claim_owner = None, cp_claim_token = None, cp_claim_lease_until = None\<rparr>
           in bind_result (insert_deliveries (s_deliveries db) (translated_rows declared db))
                (\<lambda>(ds, translated).
              bind_result (insert_deliveries ds (history_rows declared (length translated) historyAt db))
                (\<lambda>(ds', _).
              let old = older_outstanding i v
              in Inr (\<lparr>bt_translated = length translated, bt_superseded = length (filter old ds')\<rparr>,
                      db\<lparr>s_checkpoints := s_checkpoints db @
                            [checkpoint\<lparr>cp_next_delivery_seq := 1 + max_delivery_seq i v ds'\<rparr>],
                         s_deliveries := update_where old (superseded_row i v ds' supersededAt) ds'\<rparr>))))))"

end
