(* ===== verification/SubscriptionRuntime.thy ===== *)
theory SubscriptionRuntime
  imports SubscriptionStore
begin

text \<open>
  The transactions of \<open>src/src/server/events/subscriptions/runtime.ts\<close> after the bootstrap: the
  checkpoint lease, discovery, the claim of the next delivery, its renewal, completion and failure,
  and the redrive of a dead letter.
\<close>

declare nat_digits.simps [simp del]

section \<open>The checkpoint lease\<close>

record SubscriptionLease =
  sl_subscriber_id :: string
  sl_subscriber_version :: int
  sl_declaration_hash :: string
  sl_claim_owner :: string
  sl_claim_token :: string
  sl_lease_until :: int

definition lease_ttl :: int where
  "lease_ttl = seconds (Some LEASE_TTL_SECONDS)"

lemma lease_ttl_eq [simp]: "lease_ttl = 120000000"
  by (simp add: lease_ttl_def seconds_def LEASE_TTL_SECONDS_def)

definition lease_claimable :: "string \<Rightarrow> int \<Rightarrow> string \<Rightarrow> int \<Rightarrow> Checkpoint \<Rightarrow> bool" where
  "lease_claimable i v h now c \<longleftrightarrow>
     cp_subscriber_id c = i \<and> cp_subscriber_version c = v \<and> cp_declaration_hash c = h \<and> cp_status c = Active \<and>
     (cp_claim_lease_until c = None \<or> lease_expired (cp_claim_lease_until c) now)"

definition leased :: "string \<Rightarrow> string \<Rightarrow> int \<Rightarrow> Checkpoint \<Rightarrow> Checkpoint" where
  "leased owner token now c =
     c\<lparr>cp_claim_owner := Some owner, cp_claim_token := Some token,
       cp_claim_lease_until := Some (now + lease_ttl)\<rparr>"

definition claimSubscriptionLease ::
  "LoadedSubscription list \<Rightarrow> string \<Rightarrow> int \<Rightarrow> string \<Rightarrow> string \<Rightarrow> int \<Rightarrow> sub_db \<Rightarrow>
     sub_error + SubscriptionLease option \<times> sub_db" where
  "claimSubscriptionLease reg i v owner token now db =
     bind_result (getDeclaredSubscription reg i v) (\<lambda>declared.
       let h = sub_hash declared;
           (rows, db') = update_checkpoints (lease_claimable i v h now) (leased owner token now) db
       in case rows of
            row # _ \<Rightarrow> Inr (Some \<lparr>sl_subscriber_id = i, sl_subscriber_version = v, sl_declaration_hash = h,
                                sl_claim_owner = owner, sl_claim_token = token,
                                sl_lease_until = now + lease_ttl\<rparr>, db')
          | [] \<Rightarrow>
              (case find (\<lambda>c. checkpoint_key c = (i, v)) (s_checkpoints db') of
                 None \<Rightarrow> Inr (None, db')
               | Some c \<Rightarrow>
                   if cp_declaration_hash c \<noteq> h then Inl (DeclarationHashMismatch i v)
                   else if cp_status c = Paused then Inl (SubscriptionPaused i v)
                   else Inr (None, db')))"

definition owns_checkpoint :: "SubscriptionLease \<Rightarrow> Checkpoint \<Rightarrow> bool" where
  "owns_checkpoint lease c \<longleftrightarrow>
     cp_subscriber_id c = sl_subscriber_id lease \<and> cp_subscriber_version c = sl_subscriber_version lease \<and>
     cp_declaration_hash c = sl_declaration_hash lease \<and>
     cp_claim_owner c = Some (sl_claim_owner lease) \<and> cp_claim_token c = Some (sl_claim_token lease)"

definition renewSubscriptionLease :: "SubscriptionLease \<Rightarrow> int \<Rightarrow> sub_db \<Rightarrow> bool \<times> sub_db" where
  "renewSubscriptionLease lease now db =
     (case update_checkpoints
             (\<lambda>c. owns_checkpoint lease c \<and> lease_live (cp_claim_lease_until c) now)
             (\<lambda>c. c\<lparr>cp_claim_lease_until := Some (now + lease_ttl)\<rparr>) db of
        (rows, db') \<Rightarrow> (length rows = 1, db'))"

definition releaseSubscriptionLease :: "SubscriptionLease \<Rightarrow> sub_db \<Rightarrow> sub_db" where
  "releaseSubscriptionLease lease db =
     snd (update_checkpoints (owns_checkpoint lease)
            (\<lambda>c. c\<lparr>cp_claim_owner := None, cp_claim_token := None, cp_claim_lease_until := None\<rparr>) db)"

section \<open>Discovery\<close>

definition lease_fence :: "LoadedSubscription \<Rightarrow> SubscriptionLease \<Rightarrow> CheckpointFence" where
  "lease_fence declared lease =
     \<lparr>fn_subscriber_id = sub_id declared, fn_subscriber_version = sub_version declared,
      fn_declaration_hash = sub_hash declared, fn_claim_owner = sl_claim_owner lease,
      fn_claim_token = sl_claim_token lease\<rparr>"

definition undelivered :: "LoadedSubscription \<Rightarrow> sub_db \<Rightarrow> LoggedEvent list" where
  "undelivered declared db =
     filter (\<lambda>e. ev_action e \<in> set (sub_actions declared) \<and>
        \<not> list_ex (\<lambda>d. delivery_key d = (sub_id declared, sub_version declared, ev_id e)) (s_deliveries db))
       (s_events db)"

definition discovered_rows :: "LoadedSubscription \<Rightarrow> int \<Rightarrow> sub_db \<Rightarrow> Delivery list" where
  "discovered_rows declared base db =
     map (\<lambda>(n, e). new_row (sub_id declared) (sub_version declared) e (base - 1 + int n) Pending None)
       (enumerate 1 (take DISCOVERY_BATCH_SIZE (sort_key ev_dispatch_seq (undelivered declared db))))"

text \<open>One batch is one transaction; \<open>lockedAt\<close> is the time of its lock, \<open>advancedAt\<close> that of the
  final statement. The result is the number of deliveries inserted.\<close>

definition discover_batch ::
  "LoadedSubscription \<Rightarrow> SubscriptionLease \<Rightarrow> int \<Rightarrow> int \<Rightarrow> sub_db \<Rightarrow> sub_error + nat \<times> sub_db" where
  "discover_batch declared lease lockedAt advancedAt db =
     (let fn = lease_fence declared lease; i = sub_id declared; v = sub_version declared in
      case filter (fence_matches fn lockedAt) (s_checkpoints db) of
        [] \<Rightarrow> Inr (0, db)
      | checkpoint # _ \<Rightarrow>
          bind_result
            (insert_deliveries (s_deliveries db)
              (discovered_rows declared (cp_next_delivery_seq checkpoint) db)) (\<lambda>(ds, inserted).
            let db' = db\<lparr>s_deliveries := ds\<rparr> in
            if inserted = [] then Inr (0, db')
            else (case update_checkpoints (fence_matches fn advancedAt)
                         (\<lambda>c. c\<lparr>cp_next_delivery_seq := max_delivery_seq i v ds + 1\<rparr>) db' of
                    (advanced, db'') \<Rightarrow>
                      if length advanced \<noteq> 1 then Inl (LostLeaseDuringDiscovery i v)
                      else Inr (length inserted, db''))))"

lemma insert_deliveries_table:
  "insert_deliveries t rows = Inr (t', ins) \<Longrightarrow> t' = t @ ins \<and> set ins \<subseteq> set rows"
  by (induction t rows arbitrary: t' ins rule: insert_deliveries.induct)
     (fastforce simp: bind_result_Inr_iff split: if_splits)+

lemma insert_deliveries_covers:
  "insert_deliveries t rows = Inr (t', ins) \<Longrightarrow> r \<in> set rows \<Longrightarrow> \<exists>d \<in> set t'. delivery_key d = delivery_key r"
proof (induction t rows arbitrary: t' ins rule: insert_deliveries.induct)
  case (2 t x rs)
  show ?case
  proof (cases "list_ex (\<lambda>d. delivery_key d = delivery_key x) t")
    case True
    with 2(3) have rest: "insert_deliveries t rs = Inr (t', ins)" by simp
    with 2(1) [OF True rest] 2(4) True insert_deliveries_table [OF rest] show ?thesis
      by (auto simp: list_ex_iff)
  next
    case False
    with 2(3) obtain ins' where new: "\<not> list_ex (\<lambda>d. local_seq d = local_seq x) t"
      and rest: "insert_deliveries (t @ [x]) rs = Inr (t', ins')"
      by (auto simp: bind_result_Inr_iff split: if_splits)
    from 2(2) [OF False new rest] 2(4) insert_deliveries_table [OF rest] show ?thesis by auto
  qed
qed simp

lemma insert_deliveries_distinct:
  "insert_deliveries t rows = Inr (t', ins) \<Longrightarrow> distinct (map delivery_key t) \<Longrightarrow> distinct (map delivery_key t')"
  "insert_deliveries t rows = Inr (t', ins) \<Longrightarrow> distinct (map local_seq t) \<Longrightarrow> distinct (map local_seq t')"
  by (induction t rows arbitrary: t' ins rule: insert_deliveries.induct)
     (fastforce simp: bind_result_Inr_iff list_ex_iff image_iff split: if_splits)+

lemma discover_batch_progress:
  assumes "discover_batch declared lease t0 t1 db = Inr (n, db')" "n \<noteq> 0"
  shows "length (undelivered declared db') < length (undelivered declared db)" "s_events db' = s_events db"
proof -
  let ?fn = "lease_fence declared lease"
  from assms obtain c cs where c: "filter (fence_matches ?fn t0) (s_checkpoints db) = c # cs"
    by (cases "filter (fence_matches ?fn t0) (s_checkpoints db)") (auto simp: discover_batch_def Let_def)
  with assms obtain ds ins where
    ins: "insert_deliveries (s_deliveries db) (discovered_rows declared (cp_next_delivery_seq c) db) = Inr (ds, ins)"
    by (auto simp: discover_batch_def Let_def bind_result_Inr_iff)
  from assms c ins have ne: "ins \<noteq> []" and ds': "s_deliveries db' = ds" and ev: "s_events db' = s_events db"
    by (auto simp: discover_batch_def Let_def update_checkpoints_def split: if_splits)
  note tab = insert_deliveries_table [OF ins] and cov = insert_deliveries_covers [OF ins]
  obtain r where r: "r \<in> set ins" using ne by (cases ins) auto
  with tab have "r \<in> set (discovered_rows declared (cp_next_delivery_seq c) db)" by auto
  then obtain n e where e: "(n, e) \<in> set (enumerate 1 (take DISCOVERY_BATCH_SIZE (sort_key ev_dispatch_seq (undelivered declared db))))"
    and re: "delivery_key r = (sub_id declared, sub_version declared, ev_id e)"
    by (auto simp: discovered_rows_def new_row_def delivery_key_def)
  from e have "e \<in> set (undelivered declared db)"
    by (metis in_set_takeD set_sort snd_conv enumerate_eq_zip set_zip_rightD)
  moreover have "e \<notin> set (undelivered declared db')"
    using r re tab ds' by (auto simp: undelivered_def list_ex_iff)
  moreover have sub: "undelivered declared db' = filter (\<lambda>e. e \<in> set (undelivered declared db')) (undelivered declared db)"
    unfolding undelivered_def ds' ev filter_filter using tab
    by (intro filter_cong) (auto simp: list_ex_iff)
  ultimately show "length (undelivered declared db') < length (undelivered declared db)"
    by (metis length_filter_less)
  show "s_events db' = s_events db" by (rule ev)
qed

text \<open>The loop over the batches; \<open>clock k\<close> is the \<open>k\<close>-th reading of the clock. Earlier batches stay
  committed when a later one throws.\<close>

function discover_loop ::
  "LoadedSubscription \<Rightarrow> SubscriptionLease \<Rightarrow> (nat \<Rightarrow> int) \<Rightarrow> nat \<Rightarrow> nat \<Rightarrow> sub_db \<Rightarrow>
     (sub_error + nat) \<times> sub_db" where
  "discover_loop declared lease clock k acc db =
     (case discover_batch declared lease (clock k) (clock (k + 1)) db of
        Inl e \<Rightarrow> (Inl e, db)
      | Inr (n, db') \<Rightarrow>
          if n = 0 then (Inr acc, db')
          else discover_loop declared lease clock (k + 2) (acc + n) db')"
  by pat_completeness auto
termination
  by (relation "measure (\<lambda>(declared, lease, clock, k, acc, db). length (undelivered declared db))")
     (auto dest: discover_batch_progress)

declare discover_loop.simps [simp del]

definition discoverSubscriptionDeliveries ::
  "LoadedSubscription list \<Rightarrow> LoadedSubscription \<Rightarrow> SubscriptionLease \<Rightarrow> (nat \<Rightarrow> int) \<Rightarrow> nat \<Rightarrow> sub_db \<Rightarrow>
     (sub_error + nat) \<times> sub_db" where
  "discoverSubscriptionDeliveries reg sub lease clock k db =
     (case getDeclaredSubscription reg (sub_id sub) (sub_version sub) of
        Inl e \<Rightarrow> (Inl e, db)
      | Inr declared \<Rightarrow> discover_loop declared lease clock k 0 db)"

section \<open>Deliveries\<close>

record SubscriptionDeliveryClaim =
  dc_subscriber_id :: string
  dc_subscriber_version :: int
  dc_declaration_hash :: string
  dc_source_event_id :: string
  dc_delivery_seq :: int
  dc_claim_owner :: string
  dc_claim_token :: string
  dc_checkpoint_claim_owner :: string
  dc_checkpoint_claim_token :: string
  dc_lease_until :: int

definition terminal_status :: "DeliveryStatus \<Rightarrow> bool" where
  "terminal_status s \<longleftrightarrow> s = BootstrapSkipped \<or> s = Succeeded \<or> s = Skipped \<or> s = DeadLetter"

definition claimable :: "int \<Rightarrow> Delivery \<Rightarrow> bool" where
  "claimable now d \<longleftrightarrow>
     dl_status d = Pending \<or>
     (dl_status d = RetryWait \<and> (case dl_next_attempt_at d of None \<Rightarrow> False | Some t \<Rightarrow> t \<le> now)) \<or>
     (dl_status d = Claimed \<and> lease_expired (dl_claim_lease_until d) now)"

text \<open>\<open>ORDER BY delivery_seq LIMIT 1\<close> over the deliveries that are not settled.\<close>

definition head_delivery :: "string \<Rightarrow> int \<Rightarrow> Delivery list \<Rightarrow> Delivery option" where
  "head_delivery i v ds =
     (case sort_key dl_delivery_seq (filter (\<lambda>d. of_version i v d \<and> \<not> terminal_status (dl_status d)) ds) of
        [] \<Rightarrow> None | d # _ \<Rightarrow> Some d)"

definition head_claim :: "string \<Rightarrow> int \<Rightarrow> int \<Rightarrow> Delivery list \<Rightarrow> Delivery \<Rightarrow> bool" where
  "head_claim i v now ds d \<longleftrightarrow>
     (case head_delivery i v ds of None \<Rightarrow> False
      | Some candidate \<Rightarrow> dl_source_event_id d = dl_source_event_id candidate) \<and>
     of_version i v d \<and> claimable now d"

definition claimed_row :: "string \<Rightarrow> string \<Rightarrow> int \<Rightarrow> Delivery \<Rightarrow> Delivery" where
  "claimed_row owner token now d =
     d\<lparr>dl_status := Claimed, dl_claim_owner := Some owner, dl_claim_token := Some token,
       dl_claim_lease_until := Some (now + lease_ttl), dl_claimed_at := Some now, dl_next_attempt_at := None\<rparr>"

definition claimNextSubscriptionDelivery ::
  "LoadedSubscription list \<Rightarrow> LoadedSubscription \<Rightarrow> SubscriptionLease \<Rightarrow> string \<Rightarrow> int \<Rightarrow> int \<Rightarrow> sub_db \<Rightarrow>
     sub_error + SubscriptionDeliveryClaim option \<times> sub_db" where
  "claimNextSubscriptionDelivery reg sub lease token lockedAt now db =
     (let i = sub_id sub; v = sub_version sub in
      bind_result (getDeclaredSubscription reg i v) (\<lambda>declared.
        if sl_subscriber_id lease \<noteq> i \<or> sl_subscriber_version lease \<noteq> v \<or>
           sl_declaration_hash lease \<noteq> sub_hash declared
        then Inl (LeaseIdentityMismatch i v)
        else
          (case withLockedCheckpoint (lease_fence declared lease) lockedAt (\<lambda>tx.
                  update_deliveries (head_claim i v now (s_deliveries tx))
                    (claimed_row (sl_claim_owner lease) token now) tx) db of
             (rows, db') \<Rightarrow>
               (case rows of
                  Some (row # _) \<Rightarrow>
                    Inr (Some \<lparr>dc_subscriber_id = i, dc_subscriber_version = v,
                               dc_declaration_hash = sub_hash declared,
                               dc_source_event_id = dl_source_event_id row,
                               dc_delivery_seq = dl_delivery_seq row,
                               dc_claim_owner = sl_claim_owner lease, dc_claim_token = token,
                               dc_checkpoint_claim_owner = sl_claim_owner lease,
                               dc_checkpoint_claim_token = sl_claim_token lease,
                               dc_lease_until = now + lease_ttl\<rparr>, db')
                | _ \<Rightarrow> Inr (None, db')))))"

definition claim_fence :: "SubscriptionDeliveryClaim \<Rightarrow> CheckpointFence" where
  "claim_fence claim =
     \<lparr>fn_subscriber_id = dc_subscriber_id claim, fn_subscriber_version = dc_subscriber_version claim,
      fn_declaration_hash = dc_declaration_hash claim, fn_claim_owner = dc_checkpoint_claim_owner claim,
      fn_claim_token = dc_checkpoint_claim_token claim\<rparr>"

definition holds_claim :: "SubscriptionDeliveryClaim \<Rightarrow> int \<Rightarrow> Delivery \<Rightarrow> bool" where
  "holds_claim claim now d \<longleftrightarrow>
     of_version (dc_subscriber_id claim) (dc_subscriber_version claim) d \<and>
     dl_source_event_id d = dc_source_event_id claim \<and> dl_status d = Claimed \<and>
     dl_claim_owner d = Some (dc_claim_owner claim) \<and> dl_claim_token d = Some (dc_claim_token claim) \<and>
     lease_live (dl_claim_lease_until d) now"

definition renewSubscriptionDeliveryLease ::
  "SubscriptionDeliveryClaim \<Rightarrow> int \<Rightarrow> int \<Rightarrow> sub_db \<Rightarrow> bool \<times> sub_db" where
  "renewSubscriptionDeliveryLease claim lockedAt now db =
     (case withLockedCheckpoint (claim_fence claim) lockedAt
             (update_deliveries (holds_claim claim now)
               (\<lambda>d. d\<lparr>dl_claim_lease_until := Some (now + lease_ttl)\<rparr>)) db of
        (rows, db') \<Rightarrow> (map_option length rows = Some 1, db'))"

text \<open>A handler's outcome; the detail is the text of its JSON value.\<close>

datatype SubscriptionOutcome =
    OutcomeSucceeded "string option"
  | OutcomeSkipped string "string option"

fun outcome_status :: "SubscriptionOutcome \<Rightarrow> DeliveryStatus" where
  "outcome_status (OutcomeSucceeded _) = Succeeded"
| "outcome_status (OutcomeSkipped _ _) = Skipped"

fun outcome_reason :: "SubscriptionOutcome \<Rightarrow> string option" where
  "outcome_reason (OutcomeSucceeded _) = None"
| "outcome_reason (OutcomeSkipped reason _) = Some reason"

fun outcome_detail :: "SubscriptionOutcome \<Rightarrow> string" where
  "outcome_detail (OutcomeSucceeded detail) = (case detail of None \<Rightarrow> ''{}'' | Some t \<Rightarrow> t)"
| "outcome_detail (OutcomeSkipped _ detail) = (case detail of None \<Rightarrow> ''{}'' | Some t \<Rightarrow> t)"

definition completed_row :: "SubscriptionOutcome \<Rightarrow> int \<Rightarrow> Delivery \<Rightarrow> Delivery" where
  "completed_row outcome now d =
     d\<lparr>dl_status := outcome_status outcome, dl_claim_owner := None, dl_claim_token := None,
       dl_claim_lease_until := None, dl_claimed_at := None, dl_next_attempt_at := None,
       dl_outcome := Some (outcome_detail outcome), dl_last_error := outcome_reason outcome,
       dl_completed_at := Some now\<rparr>"

definition completeSubscriptionDelivery ::
  "SubscriptionDeliveryClaim \<Rightarrow> SubscriptionOutcome \<Rightarrow> int \<Rightarrow> int \<Rightarrow> sub_db \<Rightarrow> bool \<times> sub_db" where
  "completeSubscriptionDelivery claim outcome lockedAt now db =
     (case withLockedCheckpoint (claim_fence claim) lockedAt
             (update_deliveries (holds_claim claim now) (completed_row outcome now)) db of
        (rows, db') \<Rightarrow> (map_option length rows = Some 1, db'))"

datatype FailTransition = ToRetryWait | ToDeadLetter | LostLease

definition failed_row :: "int \<Rightarrow> int \<Rightarrow> string \<Rightarrow> int \<Rightarrow> Delivery \<Rightarrow> Delivery" where
  "failed_row maxAttempts delay message now d =
     (let dead = dl_attempt_count d + 1 \<ge> maxAttempts in
      d\<lparr>dl_status := (if dead then DeadLetter else RetryWait), dl_attempt_count := dl_attempt_count d + 1,
        dl_claim_owner := None, dl_claim_token := None, dl_claim_lease_until := None, dl_claimed_at := None,
        dl_next_attempt_at := (if dead then None else Some (now + delay)), dl_last_error := Some message,
        dl_completed_at := (if dead then Some now else None)\<rparr>)"

definition failSubscriptionDelivery ::
  "SubscriptionDeliveryClaim \<Rightarrow> string \<Rightarrow> js_number \<Rightarrow> js_number option \<Rightarrow> int \<Rightarrow> int \<Rightarrow> sub_db \<Rightarrow>
     sub_error + FailTransition \<times> sub_db" where
  "failSubscriptionDelivery claim message maxAttempts retryDelaySeconds lockedAt now db =
     bind_result (assertPositiveInteger maxAttempts ''maxAttempts'') (\<lambda>_.
     bind_result (case retryDelaySeconds of None \<Rightarrow> Inr ()
                  | Some d \<Rightarrow> assertPositiveFinite d ''retryDelaySeconds'') (\<lambda>_.
       let delay = seconds (case retryDelaySeconds of None \<Rightarrow> Some 1 | Some d \<Rightarrow> d) in
       case withLockedCheckpoint (claim_fence claim) lockedAt
              (update_deliveries (holds_claim claim now)
                (failed_row (js_int maxAttempts) delay message now)) db of
         (rows, db') \<Rightarrow>
           (case rows of
              Some (row # _) \<Rightarrow>
                Inr (if dl_attempt_count row \<ge> js_int maxAttempts then ToDeadLetter else ToRetryWait, db')
            | _ \<Rightarrow> Inr (LostLease, db'))))"

definition redrivable :: "string \<Rightarrow> int \<Rightarrow> string \<Rightarrow> Delivery list \<Rightarrow> Delivery \<Rightarrow> bool" where
  "redrivable i v e ds d \<longleftrightarrow>
     of_version i v d \<and> dl_source_event_id d = e \<and> dl_status d = DeadLetter \<and>
     \<not> list_ex (\<lambda>later. of_version i v later \<and> dl_delivery_seq later > dl_delivery_seq d \<and>
          (dl_status later \<noteq> Pending \<or> dl_attempt_count later > 0 \<or> dl_redrive_count later > 0)) ds"

definition redriven_row :: "int \<Rightarrow> Delivery \<Rightarrow> Delivery" where
  "redriven_row now d =
     d\<lparr>dl_status := RetryWait, dl_redrive_count := dl_redrive_count d + 1, dl_claim_owner := None,
       dl_claim_token := None, dl_claim_lease_until := None, dl_claimed_at := None,
       dl_next_attempt_at := Some now, dl_completed_at := None\<rparr>"

definition redriveSubscriptionDelivery ::
  "LoadedSubscription list \<Rightarrow> string \<Rightarrow> int \<Rightarrow> string \<Rightarrow> int \<Rightarrow> sub_db \<Rightarrow> sub_error + bool \<times> sub_db" where
  "redriveSubscriptionDelivery reg i v sourceEventId now db =
     bind_result (getDeclaredSubscription reg i v) (\<lambda>declared.
       if length (filter (\<lambda>c. checkpoint_key c = (i, v) \<and> cp_declaration_hash c = sub_hash declared \<and>
                              cp_status c = Active) (s_checkpoints db)) \<noteq> 1
       then Inr (False, db)
       else (case update_deliveries (redrivable i v sourceEventId (s_deliveries db)) (redriven_row now) db of
               (rows, db') \<Rightarrow> Inr (length rows = 1, db')))"

end
