(* ===== verification/SubscriptionDispatch.thy ===== *)
theory SubscriptionDispatch
  imports SubscriptionRuntime
begin

text \<open>
  \<open>runSubscriptionDispatchCycle\<close> of \<open>src/src/server/events/subscriptions/runtime.ts\<close>, and the
  transactions of the bus as actions that any number of workers take in any order.

  A cycle runs one slice per declared subscription. Its environment is a parameter: the readings of
  the database clock and of \<open>performance.now()\<close>, the ids drawn, what the handlers do, and what every
  other connection (the handlers' own included) commits before the cycle's \<open>k\<close>-th transaction. The
  slices, which the code starts together, are run one after the other; what another slice commits
  meanwhile is part of the environment. Log lines are left out.
\<close>

section \<open>Handlers\<close>

text \<open>A handler's promise settles after some milliseconds with an outcome or the message of an
  error, or never.\<close>

datatype HandlerRun =
    Settles rat "string + SubscriptionOutcome"
  | NeverSettles

definition withTimeout :: "HandlerRun \<Rightarrow> rat \<Rightarrow> string \<Rightarrow> string + SubscriptionOutcome" where
  "withTimeout promise ms message =
     (case promise of
        NeverSettles \<Rightarrow> Inl message
      | Settles t r \<Rightarrow> if t < ms then r else Inl message)"

section \<open>A slice\<close>

record dispatch_env =
  de_clock :: "nat \<Rightarrow> nat \<Rightarrow> int"
  de_elapsed :: "nat \<Rightarrow> nat \<Rightarrow> rat"
  de_uuid :: "nat \<Rightarrow> string"
  de_others :: "nat \<Rightarrow> sub_db \<Rightarrow> sub_db"
  de_handler :: "LoadedSubscription \<Rightarrow> int \<Rightarrow> string \<Rightarrow> nat \<Rightarrow> HandlerRun"
  de_timeout_message :: "LoadedSubscription \<Rightarrow> string"

record DispatchOptions =
  op_owner :: string
  op_maxAttempts :: js_number
  op_handlerTimeoutMs :: "js_number option"
  op_retryDelaySeconds :: "js_number option"
  op_maxDeliveriesPerSubscription :: "js_number option"
  op_maxDispatchMs :: "js_number option"

record CycleResult =
  cr_dispatched :: nat
  cr_succeeded :: nat
  cr_skipped :: nat
  cr_retryScheduled :: nat
  cr_deadLettered :: nat
  cr_lostLease :: nat

definition no_result :: CycleResult where
  "no_result = \<lparr>cr_dispatched = 0, cr_succeeded = 0, cr_skipped = 0, cr_retryScheduled = 0,
     cr_deadLettered = 0, cr_lostLease = 0\<rparr>"

definition max_deliveries :: "DispatchOptions \<Rightarrow> nat" where
  "max_deliveries opts =
     (case op_maxDeliveriesPerSubscription opts of None \<Rightarrow> 1 | Some n \<Rightarrow> nat (js_int n))"

definition max_dispatch_ms :: "DispatchOptions \<Rightarrow> rat" where
  "max_dispatch_ms opts = (case op_maxDispatchMs opts of Some (Some q) \<Rightarrow> q | _ \<Rightarrow> 30000)"

definition handler_timeout :: "DispatchOptions \<Rightarrow> rat" where
  "handler_timeout opts = (case op_handlerTimeoutMs opts of Some (Some q) \<Rightarrow> q | _ \<Rightarrow> DEFAULT_HANDLER_TIMEOUT_MS)"

definition count_outcome :: "SubscriptionOutcome \<Rightarrow> CycleResult \<Rightarrow> CycleResult" where
  "count_outcome outcome r =
     (case outcome of
        OutcomeSucceeded _ \<Rightarrow> r\<lparr>cr_succeeded := cr_succeeded r + 1\<rparr>
      | OutcomeSkipped _ _ \<Rightarrow> r\<lparr>cr_skipped := cr_skipped r + 1\<rparr>)"

definition count_transition :: "FailTransition \<Rightarrow> CycleResult \<Rightarrow> CycleResult" where
  "count_transition t r =
     (case t of
        ToRetryWait \<Rightarrow> r\<lparr>cr_retryScheduled := cr_retryScheduled r + 1\<rparr>
      | ToDeadLetter \<Rightarrow> r\<lparr>cr_deadLettered := cr_deadLettered r + 1\<rparr>
      | LostLease \<Rightarrow> r\<lparr>cr_lostLease := cr_lostLease r + 1\<rparr>)"

text \<open>One pass of the delivery loop: whether the loop goes on, the counts and the tables. A throw
  ends the slice as a break does, since the catch around it only logs.\<close>

definition settle_claim ::
  "dispatch_env \<Rightarrow> LoadedSubscription \<Rightarrow> DispatchOptions \<Rightarrow> nat \<Rightarrow> SubscriptionDeliveryClaim \<Rightarrow>
     CycleResult \<Rightarrow> sub_db \<Rightarrow> bool \<times> CycleResult \<times> sub_db" where
  "settle_claim env sub opts k claim result db =
     (let t0 = de_clock env k 0; t1 = de_clock env k 1 in
      case withTimeout (de_handler env sub (dc_delivery_seq claim) (dc_source_event_id claim) k)
             (handler_timeout opts) (de_timeout_message env sub) of
        Inr outcome \<Rightarrow>
          (case completeSubscriptionDelivery claim outcome t0 t1 (de_others env k db) of
             (True, db') \<Rightarrow> (True, count_outcome outcome result, db')
           | (False, db') \<Rightarrow> (False, result\<lparr>cr_lostLease := cr_lostLease result + 1\<rparr>, db'))
      | Inl message \<Rightarrow>
          (case failSubscriptionDelivery claim message (op_maxAttempts opts) (op_retryDelaySeconds opts)
                  t0 t1 (de_others env k db) of
             Inl _ \<Rightarrow> (False, result, de_others env k db)
           | Inr (transition, db') \<Rightarrow> (False, count_transition transition result, db')))"

definition dispatch_one ::
  "dispatch_env \<Rightarrow> LoadedSubscription list \<Rightarrow> LoadedSubscription \<Rightarrow> DispatchOptions \<Rightarrow> SubscriptionLease \<Rightarrow>
     nat \<Rightarrow> CycleResult \<Rightarrow> sub_db \<Rightarrow> bool \<times> CycleResult \<times> sub_db" where
  "dispatch_one env reg sub opts lease k result db =
     (if de_elapsed env k 0 \<ge> max_dispatch_ms opts then (False, result, db)
      else case renewSubscriptionLease lease (de_clock env k 0) (de_others env k db) of
        (False, db1) \<Rightarrow> (False, result, db1)
      | (True, db1) \<Rightarrow>
          if de_elapsed env k 1 \<ge> max_dispatch_ms opts then (False, result, db1)
          else (let db1' = de_others env (k + 1) db1 in
            case claimNextSubscriptionDelivery reg sub lease (de_uuid env (k + 1))
                   (de_clock env (k + 1) 0) (de_clock env (k + 1) 1) db1' of
              Inl _ \<Rightarrow> (False, result, db1')
            | Inr (None, db2) \<Rightarrow> (False, result, db2)
            | Inr (Some claim, db2) \<Rightarrow>
                settle_claim env sub opts (k + 2) claim (result\<lparr>cr_dispatched := cr_dispatched result + 1\<rparr>) db2))"

definition reconciled :: "CycleResult \<Rightarrow> bool" where
  "reconciled r \<longleftrightarrow>
     cr_dispatched r = cr_succeeded r + cr_skipped r + cr_retryScheduled r + cr_deadLettered r + cr_lostLease r"

lemma count_simps [simp]:
  "cr_dispatched (count_outcome outcome r) = cr_dispatched r"
  "cr_dispatched (count_transition transition r) = cr_dispatched r"
  "reconciled r \<Longrightarrow> reconciled (count_outcome outcome (r\<lparr>cr_dispatched := Suc (cr_dispatched r)\<rparr>))"
  "reconciled r \<Longrightarrow> reconciled (count_transition transition (r\<lparr>cr_dispatched := Suc (cr_dispatched r)\<rparr>))"
  by (cases outcome; cases transition; simp add: count_outcome_def count_transition_def reconciled_def)+

lemma settle_claim_dispatched:
  "settle_claim env sub opts k claim r db = (go, r', db') \<Longrightarrow> cr_dispatched r' = cr_dispatched r"
  by (auto simp: settle_claim_def Let_def split: sum.splits prod.splits bool.splits)

lemma dispatch_one_dispatched:
  assumes "dispatch_one env reg sub opts lease k r db = (go, r', db')"
  shows "go \<Longrightarrow> cr_dispatched r' = cr_dispatched r + 1" "cr_dispatched r' \<le> cr_dispatched r + 1"
  using assms
  by (auto simp: dispatch_one_def Let_def dest: settle_claim_dispatched
      split: if_splits prod.splits bool.splits sum.splits option.splits)

text \<open>\<open>while (result.dispatched < maxDeliveries)\<close>: every pass that goes on has dispatched one.\<close>

function dispatch_loop ::
  "dispatch_env \<Rightarrow> LoadedSubscription list \<Rightarrow> LoadedSubscription \<Rightarrow> DispatchOptions \<Rightarrow> SubscriptionLease \<Rightarrow>
     nat \<Rightarrow> CycleResult \<Rightarrow> sub_db \<Rightarrow> nat \<times> CycleResult \<times> sub_db" where
  "dispatch_loop env reg sub opts lease k result db =
     (if cr_dispatched result < max_deliveries opts then
        (case dispatch_one env reg sub opts lease k result db of
           (True, result', db') \<Rightarrow> dispatch_loop env reg sub opts lease (k + 3) result' db'
         | (False, result', db') \<Rightarrow> (k + 3, result', db'))
      else (k, result, db))"
  by pat_completeness auto
termination
  by (relation "measure (\<lambda>(env, reg, sub, opts, lease, k, result, db). max_deliveries opts - cr_dispatched result)")
     (auto dest: dispatch_one_dispatched(1) [OF sym])

declare dispatch_loop.simps [simp del]

definition dispatch_slice ::
  "dispatch_env \<Rightarrow> LoadedSubscription list \<Rightarrow> DispatchOptions \<Rightarrow> LoadedSubscription \<Rightarrow> sub_db \<Rightarrow>
     CycleResult \<times> sub_db" where
  "dispatch_slice env reg opts sub db =
     (let db0 = de_others env 0 db in
      case bootstrapSubscription reg sub (de_clock env 0 0) (de_clock env 0 1) db0 of
        Inl _ \<Rightarrow> (no_result, db0)
      | Inr (_, db1) \<Rightarrow>
          (let db1' = de_others env 1 db1 in
           case claimSubscriptionLease reg (sub_id sub) (sub_version sub) (op_owner opts) (de_uuid env 1)
                  (de_clock env 1 0) db1' of
             Inl _ \<Rightarrow> (no_result, db1')
           | Inr (None, db2) \<Rightarrow> (no_result, db2)
           | Inr (Some lease, db2) \<Rightarrow>
               (case discoverSubscriptionDeliveries reg sub lease (de_clock env 2) 0 (de_others env 2 db2) of
                  (Inl _, db3) \<Rightarrow> (no_result, releaseSubscriptionLease lease (de_others env 3 db3))
                | (Inr _, db3) \<Rightarrow>
                    (case dispatch_loop env reg sub opts lease 3 no_result db3 of
                       (k, result, db4) \<Rightarrow> (result, releaseSubscriptionLease lease (de_others env k db4))))))"

fun dispatch_slices ::
  "(nat \<Rightarrow> dispatch_env) \<Rightarrow> nat \<Rightarrow> LoadedSubscription list \<Rightarrow> DispatchOptions \<Rightarrow> LoadedSubscription list \<Rightarrow> sub_db \<Rightarrow>
     CycleResult list \<times> sub_db" where
  "dispatch_slices envs n reg opts [] db = ([], db)"
| "dispatch_slices envs n reg opts (sub # subs) db =
     (case dispatch_slice (envs n) reg opts sub db of
        (r, db') \<Rightarrow> (case dispatch_slices envs (n + 1) reg opts subs db' of (rs, db'') \<Rightarrow> (r # rs, db'')))"

definition add_results :: "CycleResult \<Rightarrow> CycleResult \<Rightarrow> CycleResult" where
  "add_results total_result r =
     \<lparr>cr_dispatched = cr_dispatched total_result + cr_dispatched r,
      cr_succeeded = cr_succeeded total_result + cr_succeeded r,
      cr_skipped = cr_skipped total_result + cr_skipped r,
      cr_retryScheduled = cr_retryScheduled total_result + cr_retryScheduled r,
      cr_deadLettered = cr_deadLettered total_result + cr_deadLettered r,
      cr_lostLease = cr_lostLease total_result + cr_lostLease r\<rparr>"

definition assertDispatchOptions :: "DispatchOptions \<Rightarrow> sub_error + unit" where
  "assertDispatchOptions opts =
     bind_result (assertPositiveInteger (op_maxAttempts opts) ''maxAttempts'') (\<lambda>_.
     bind_result (assertPositiveInteger
       (case op_maxDeliveriesPerSubscription opts of None \<Rightarrow> Some 1 | Some n \<Rightarrow> n)
       ''maxDeliveriesPerSubscription'') (\<lambda>_.
     bind_result (assertPositiveFinite
       (case op_maxDispatchMs opts of None \<Rightarrow> Some 30000 | Some n \<Rightarrow> n) ''maxDispatchMs'') (\<lambda>_.
     bind_result (case op_handlerTimeoutMs opts of
         None \<Rightarrow> Inr ()
       | Some n \<Rightarrow> bind_result (assertPositiveFinite n ''handlerTimeoutMs'') (\<lambda>_.
           case n of None \<Rightarrow> Inr ()
           | Some q \<Rightarrow> if q \<ge> LEASE_TTL_SECONDS * 1000 then Inl HandlerTimeoutTooLong else Inr ())) (\<lambda>_.
     case op_retryDelaySeconds opts of
       None \<Rightarrow> Inr ()
     | Some n \<Rightarrow> assertPositiveFinite n ''retryDelaySeconds''))))"

definition runSubscriptionDispatchCycle ::
  "(nat \<Rightarrow> dispatch_env) \<Rightarrow> LoadedSubscription list \<Rightarrow> DispatchOptions \<Rightarrow> sub_db \<Rightarrow>
     sub_error + CycleResult \<times> sub_db" where
  "runSubscriptionDispatchCycle envs reg opts db =
     bind_result (assertDispatchOptions opts) (\<lambda>_.
       case dispatch_slices envs 0 reg opts reg db of
         (results, db') \<Rightarrow> Inr (foldl add_results no_result results, db'))"

section \<open>Actions\<close>

text \<open>What workers and writers of the event log do, one transaction at a time; every action carries
  the registry of the worker that takes it, so that releases with different declarations mix.\<close>

datatype sub_action =
    CommitEvent LoggedEvent
  | Bootstrap LoadedSubscription int int
  | ClaimLease string int string string int
  | RenewLease SubscriptionLease int
  | ReleaseLease SubscriptionLease
  | DiscoverBatch LoadedSubscription SubscriptionLease int int
  | ClaimNext LoadedSubscription SubscriptionLease string int int
  | RenewClaim SubscriptionDeliveryClaim int int
  | Complete SubscriptionDeliveryClaim SubscriptionOutcome int int
  | Fail SubscriptionDeliveryClaim string js_number "js_number option" int int
  | Redrive string int string int

text \<open>The log's own indexes: the id and \<open>dispatch_seq\<close>, which a sequence hands out, are unique. A
  commit may come in any order of \<open>dispatch_seq\<close>.\<close>

definition commit_event :: "LoggedEvent \<Rightarrow> sub_db \<Rightarrow> sub_db" where
  "commit_event e db =
     (if list_ex (\<lambda>x. ev_id x = ev_id e \<or> ev_dispatch_seq x = ev_dispatch_seq e) (s_events db) then db
      else db\<lparr>s_events := s_events db @ [e]\<rparr>)"

definition after :: "sub_db \<Rightarrow> 'e + 'a \<times> sub_db \<Rightarrow> sub_db" where
  "after db r = (case r of Inl _ \<Rightarrow> db | Inr (_, db') \<Rightarrow> db')"

fun perform :: "LoadedSubscription list \<Rightarrow> sub_action \<Rightarrow> sub_db \<Rightarrow> sub_db" where
  "perform reg (CommitEvent e) db = commit_event e db"
| "perform reg (Bootstrap sub t1 t2) db = after db (bootstrapSubscription reg sub t1 t2 db)"
| "perform reg (ClaimLease i v owner token t) db = after db (claimSubscriptionLease reg i v owner token t db)"
| "perform reg (RenewLease lease t) db = snd (renewSubscriptionLease lease t db)"
| "perform reg (ReleaseLease lease) db = releaseSubscriptionLease lease db"
| "perform reg (DiscoverBatch sub lease t0 t1) db =
     (case getDeclaredSubscription reg (sub_id sub) (sub_version sub) of
        Inl _ \<Rightarrow> db | Inr declared \<Rightarrow> after db (discover_batch declared lease t0 t1 db))"
| "perform reg (ClaimNext sub lease token t0 t1) db =
     after db (claimNextSubscriptionDelivery reg sub lease token t0 t1 db)"
| "perform reg (RenewClaim claim t0 t1) db = snd (renewSubscriptionDeliveryLease claim t0 t1 db)"
| "perform reg (Complete claim outcome t0 t1) db = snd (completeSubscriptionDelivery claim outcome t0 t1 db)"
| "perform reg (Fail claim message m delay t0 t1) db =
     after db (failSubscriptionDelivery claim message m delay t0 t1 db)"
| "perform reg (Redrive i v e t) db = after db (redriveSubscriptionDelivery reg i v e t db)"

fun run_actions :: "(LoadedSubscription list \<times> sub_action) list \<Rightarrow> sub_db \<Rightarrow> sub_db" where
  "run_actions [] db = db"
| "run_actions ((reg, a) # as) db = run_actions as (perform reg a db)"

definition empty_sub_db :: sub_db where
  "empty_sub_db = \<lparr>s_events = [], s_checkpoints = [], s_deliveries = []\<rparr>"

lemma run_actions_append: "run_actions (xs @ ys) db = run_actions ys (run_actions xs db)"
  by (induction xs db rule: run_actions.induct) auto

end
