(* ===== verification/SubscriptionInvariants.thy ===== *)
theory SubscriptionInvariants
  imports SubscriptionRuntime
begin

text \<open>
  The constraints the schema declares on the subscription tables, and the order in which deliveries
  of one subscriber version settle, as invariants of every transaction.
\<close>

interpretation evk: keyed_table ev_id .
interpretation evs: keyed_table ev_dispatch_seq .
interpretation cpk: keyed_table checkpoint_key .
interpretation dlk: keyed_table delivery_key .
interpretation dls: keyed_table local_seq .

section \<open>The constraints\<close>

definition checkpoint_shape :: "Checkpoint \<Rightarrow> bool" where
  "checkpoint_shape c \<longleftrightarrow>
     cp_subscriber_version c > 0 \<and> cp_next_delivery_seq c > 0 \<and>
     ((cp_claim_owner c = None \<and> cp_claim_token c = None \<and> cp_claim_lease_until c = None) \<or>
      (cp_claim_owner c \<noteq> None \<and> cp_claim_token c \<noteq> None \<and> cp_claim_lease_until c \<noteq> None))"

definition delivery_shape :: "Delivery \<Rightarrow> bool" where
  "delivery_shape d \<longleftrightarrow>
     dl_subscriber_version d > 0 \<and> dl_delivery_seq d > 0 \<and> dl_attempt_count d \<ge> 0 \<and> dl_redrive_count d \<ge> 0 \<and>
     ((dl_claim_owner d = None \<and> dl_claim_token d = None \<and> dl_claim_lease_until d = None \<and> dl_claimed_at d = None) \<or>
      (dl_claim_owner d \<noteq> None \<and> dl_claim_token d \<noteq> None \<and> dl_claim_lease_until d \<noteq> None \<and> dl_claimed_at d \<noteq> None)) \<and>
     (dl_status d = Claimed \<longleftrightarrow> dl_claim_owner d \<noteq> None) \<and>
     (dl_status d = RetryWait \<longleftrightarrow> dl_next_attempt_at d \<noteq> None) \<and>
     (terminal_status (dl_status d) \<longleftrightarrow> dl_completed_at d \<noteq> None)"

definition references_event :: "LoggedEvent list \<Rightarrow> Delivery \<Rightarrow> bool" where
  "references_event es d \<longleftrightarrow>
     (\<exists>e \<in> set es. ev_id e = dl_source_event_id d \<and> ev_dispatch_seq e = dl_source_dispatch_seq d)"

definition numbered_by :: "Checkpoint list \<Rightarrow> Delivery \<Rightarrow> bool" where
  "numbered_by cps d \<longleftrightarrow>
     (\<exists>c \<in> set cps. checkpoint_key c = (dl_subscriber_id d, dl_subscriber_version d) \<and>
        dl_delivery_seq d < cp_next_delivery_seq c)"

text \<open>While a delivery is unsettled, no later one of the same subscriber version is claimed or
  settled by work.\<close>

definition untouched :: "DeliveryStatus \<Rightarrow> bool" where
  "untouched s \<longleftrightarrow> s = BootstrapSkipped \<or> s = Pending \<or> s = RetryWait"

definition in_order :: "Delivery list \<Rightarrow> bool" where
  "in_order ds \<longleftrightarrow> (\<forall>d \<in> set ds. \<forall>later \<in> set ds.
     of_version (dl_subscriber_id d) (dl_subscriber_version d) later \<and> dl_delivery_seq d < dl_delivery_seq later \<and>
     \<not> terminal_status (dl_status d) \<longrightarrow> untouched (dl_status later))"

definition events_ok :: "LoggedEvent list \<Rightarrow> bool" where
  "events_ok es \<longleftrightarrow> evk.wf es \<and> evs.wf es"

definition checkpoints_ok :: "Checkpoint list \<Rightarrow> bool" where
  "checkpoints_ok cps \<longleftrightarrow> cpk.wf cps \<and> (\<forall>c \<in> set cps. checkpoint_shape c)"

definition deliveries_ok :: "LoggedEvent list \<Rightarrow> Delivery list \<Rightarrow> bool" where
  "deliveries_ok es ds \<longleftrightarrow>
     dlk.wf ds \<and> dls.wf ds \<and> in_order ds \<and> (\<forall>d \<in> set ds. delivery_shape d \<and> references_event es d)"

definition sub_inv :: "sub_db \<Rightarrow> bool" where
  "sub_inv db \<longleftrightarrow>
     events_ok (s_events db) \<and> checkpoints_ok (s_checkpoints db) \<and>
     deliveries_ok (s_events db) (s_deliveries db) \<and>
     (\<forall>d \<in> set (s_deliveries db). numbered_by (s_checkpoints db) d)"

named_theorems status_simps \<open>the classes of delivery status\<close>

lemma status_classes [status_simps]:
  "terminal_status BootstrapSkipped" "terminal_status Succeeded" "terminal_status Skipped" "terminal_status DeadLetter"
  "\<not> terminal_status Pending" "\<not> terminal_status Claimed" "\<not> terminal_status RetryWait"
  "untouched BootstrapSkipped" "untouched Pending" "untouched RetryWait"
  "\<not> untouched Claimed" "\<not> untouched Succeeded" "\<not> untouched Skipped" "\<not> untouched DeadLetter"
  "outstanding_status s \<longleftrightarrow> \<not> terminal_status s"
  by (simp_all add: terminal_status_def untouched_def outstanding_status_def) (cases s; simp)

section \<open>Updates of deliveries\<close>

text \<open>An update that meets one row only.\<close>

lemma set_update_single:
  assumes "h \<in> set rs" "p h" "\<forall>x \<in> set rs. p x \<longrightarrow> x = h"
  shows "x \<in> set (update_where p f rs) \<longleftrightarrow> x = f h \<or> (x \<in> set rs \<and> x \<noteq> h)"
proof -
  have "x \<in> set (update_where p f rs) \<longleftrightarrow> (\<exists>y \<in> set rs. x = (if y = h then f h else y))"
    unfolding set_update_where image_iff using assms by (metis (no_types, lifting))
  then show ?thesis using assms(1) by auto
qed

definition same_identity :: "Delivery \<Rightarrow> Delivery \<Rightarrow> bool" where
  "same_identity d d' \<longleftrightarrow>
     dl_subscriber_id d' = dl_subscriber_id d \<and> dl_subscriber_version d' = dl_subscriber_version d \<and>
     dl_source_event_id d' = dl_source_event_id d \<and> dl_source_dispatch_seq d' = dl_source_dispatch_seq d \<and>
     dl_delivery_seq d' = dl_delivery_seq d"

lemma same_identity_keys:
  "same_identity d d' \<Longrightarrow> delivery_key d' = delivery_key d"
  "same_identity d d' \<Longrightarrow> local_seq d' = local_seq d"
  "same_identity d d' \<Longrightarrow> references_event es d' = references_event es d"
  "same_identity d d' \<Longrightarrow> numbered_by cps d' = numbered_by cps d"
  "same_identity d d' \<Longrightarrow> of_version i v d' = of_version i v d"
  by (simp_all add: same_identity_def delivery_key_def local_seq_def references_event_def numbered_by_def of_version_def)

lemma sub_inv_update:
  assumes "sub_inv db"
    and same: "\<And>d. d \<in> set (s_deliveries db) \<Longrightarrow> p d \<Longrightarrow> same_identity d (f d)"
    and shape: "\<And>d. d \<in> set (s_deliveries db) \<Longrightarrow> p d \<Longrightarrow> delivery_shape d \<Longrightarrow> delivery_shape (f d)"
    and order: "in_order (update_where p f (s_deliveries db))"
  shows "sub_inv (db\<lparr>s_deliveries := update_where p f (s_deliveries db)\<rparr>)"
proof -
  let ?ds = "s_deliveries db"
  have wf: "dlk.wf ?ds" "dls.wf ?ds" using assms(1) by (simp_all add: sub_inv_def deliveries_ok_def)
  have "dlk.wf (update_where p f ?ds)"
    by (rule dlk.wf_update [OF wf(1)]) (simp add: same same_identity_keys)
  moreover have "dls.wf (update_where p f ?ds)"
    by (rule dls.wf_update [OF wf(2)]) (simp add: same same_identity_keys)
  moreover have "delivery_shape d \<and> references_event (s_events db) d \<and> numbered_by (s_checkpoints db) d"
    if "d \<in> set (update_where p f ?ds)" for d
  proof -
    from that obtain r where r: "r \<in> set ?ds" "d = (if p r then f r else r)"
      by (auto simp: set_update_where)
    have ok: "delivery_shape r" "references_event (s_events db) r" "numbered_by (s_checkpoints db) r"
      using r(1) assms(1) by (auto simp: sub_inv_def deliveries_ok_def)
    show ?thesis
      using r ok shape [OF r(1)] same_identity_keys(3,4) [OF same [OF r(1)]] by (cases "p r") auto
  qed
  ultimately show ?thesis using assms(1) order by (simp add: sub_inv_def deliveries_ok_def)
qed

lemma in_orderD:
  "in_order ds \<Longrightarrow> d \<in> set ds \<Longrightarrow> later \<in> set ds \<Longrightarrow>
     of_version (dl_subscriber_id d) (dl_subscriber_version d) later \<Longrightarrow>
     dl_delivery_seq d < dl_delivery_seq later \<Longrightarrow> \<not> terminal_status (dl_status d) \<Longrightarrow> untouched (dl_status later)"
  unfolding in_order_def by blast

lemma in_order_update:
  assumes "in_order ds" and same: "\<And>d. d \<in> set ds \<Longrightarrow> p d \<Longrightarrow> same_identity d (f d)"
    and early: "\<And>d later. d \<in> set ds \<Longrightarrow> later \<in> set ds \<Longrightarrow> p d \<or> p later \<Longrightarrow>
       of_version (dl_subscriber_id d) (dl_subscriber_version d) later \<Longrightarrow> dl_delivery_seq d < dl_delivery_seq later \<Longrightarrow>
       \<not> terminal_status (dl_status (if p d then f d else d)) \<Longrightarrow>
       untouched (dl_status (if p later then f later else later))"
  shows "in_order (update_where p f ds)"
  unfolding in_order_def set_update_where
proof (intro ballI impI; elim imageE)
  fix d' later' d later
  assume d: "d' = (if p d then f d else d)" "d \<in> set ds"
    and l: "later' = (if p later then f later else later)" "later \<in> set ds"
    and h: "of_version (dl_subscriber_id d') (dl_subscriber_version d') later' \<and>
       dl_delivery_seq d' < dl_delivery_seq later' \<and> \<not> terminal_status (dl_status d')"
  have "of_version (dl_subscriber_id d) (dl_subscriber_version d) later" "dl_delivery_seq d < dl_delivery_seq later"
    using h d l same by (auto simp: same_identity_def of_version_def split: if_splits)
  moreover have "\<not> terminal_status (dl_status (if p d then f d else d))" using h d by auto
  ultimately show "untouched (dl_status later')"
    using early [OF d(2) l(2)] l(1) in_orderD [OF assms(1) d(2) l(2)] by (cases "p d \<or> p later") auto
qed

text \<open>A claimed delivery may take any status: everything before it is settled.\<close>

lemma in_order_settle:
  assumes "in_order ds" "\<And>d. d \<in> set ds \<Longrightarrow> p d \<Longrightarrow> dl_status d = Claimed \<and> same_identity d (f d)"
  shows "in_order (update_where p f ds)"
proof (rule in_order_update [OF assms(1)])
  fix d later
  assume h: "d \<in> set ds" "later \<in> set ds" "p d \<or> p later"
    "of_version (dl_subscriber_id d) (dl_subscriber_version d) later" "dl_delivery_seq d < dl_delivery_seq later"
    "\<not> terminal_status (dl_status (if p d then f d else d))"
  have "\<not> p later"
  proof
    assume "p later"
    then have "dl_status later = Claimed" using assms(2) h by blast
    moreover have "\<not> terminal_status (dl_status d)"
      using h assms(2) by (auto simp: status_simps split: if_splits)
    ultimately show False using in_orderD [OF assms(1) h(1,2,4,5)] by (simp add: status_simps)
  qed
  moreover from this h have "p d" by simp
  then have "\<not> terminal_status (dl_status d)" using assms(2) h by (simp add: status_simps)
  ultimately show "untouched (dl_status (if p later then f later else later))"
    using in_orderD [OF assms(1) h(1,2,4,5)] by simp
qed (use assms(2) in blast)

lemma holds_claim_status: "holds_claim claim now d \<Longrightarrow> dl_status d = Claimed"
  by (simp add: holds_claim_def)

lemma sub_inv_settle:
  assumes "sub_inv db"
    and "\<And>d. same_identity d (f d)"
    and "\<And>d. delivery_shape d \<Longrightarrow> dl_status d = Claimed \<Longrightarrow> delivery_shape (f d)"
  shows "sub_inv (snd (withLockedCheckpoint fn t0 (update_deliveries (holds_claim claim t1) f) db))"
proof -
  have "sub_inv (db\<lparr>s_deliveries := update_where (holds_claim claim t1) f (s_deliveries db)\<rparr>)"
    using assms holds_claim_status in_order_settle [of "s_deliveries db" "holds_claim claim t1" f]
    by (intro sub_inv_update) (auto simp: sub_inv_def deliveries_ok_def)
  then show ?thesis using assms(1) by (simp add: withLockedCheckpoint_def update_deliveries_def)
qed

end
