(* ===== verification/SubscriptionPreservation.thy ===== *)
theory SubscriptionPreservation
  imports SubscriptionInvariants
begin

text \<open>
  Every transaction on the subscription tables preserves \<open>sub_inv\<close>; a discovery never violates the
  local sequence index.
\<close>

section \<open>Inserts\<close>

lemma in_order_insert:
  assumes "in_order ds" "\<forall>r \<in> set ins. untouched (dl_status r)"
    and "\<And>r later. r \<in> set ins \<Longrightarrow> later \<in> set ds \<Longrightarrow> \<not> terminal_status (dl_status r) \<Longrightarrow>
      of_version (dl_subscriber_id r) (dl_subscriber_version r) later \<Longrightarrow>
      dl_delivery_seq later \<le> dl_delivery_seq r"
  shows "in_order (ds @ ins)"
  using assms(1,2) unfolding in_order_def by (auto dest: assms(3))

lemma deliveries_ok_insert:
  assumes ok: "deliveries_ok es ds" and ins: "insert_deliveries ds rows = Inr (ds', ins)"
    and rows: "\<And>r. r \<in> set rows \<Longrightarrow> delivery_shape r \<and> references_event es r \<and> untouched (dl_status r)"
    and last: "\<And>r later. r \<in> set rows \<Longrightarrow> later \<in> set ds \<Longrightarrow> \<not> terminal_status (dl_status r) \<Longrightarrow>
      of_version (dl_subscriber_id r) (dl_subscriber_version r) later \<Longrightarrow>
      dl_delivery_seq later \<le> dl_delivery_seq r"
  shows "deliveries_ok es ds'"
proof -
  from insert_deliveries_table [OF ins] have ds': "ds' = ds @ ins" and sub: "set ins \<subseteq> set rows" by auto
  have "in_order (ds @ ins)"
    using ok rows last sub by (intro in_order_insert) (auto simp: deliveries_ok_def)
  moreover have "dlk.wf ds'" "dls.wf ds'"
    using ok insert_deliveries_distinct [OF ins] by (simp_all add: deliveries_ok_def dlk.wf_def dls.wf_def)
  ultimately show ?thesis using ok rows sub unfolding deliveries_ok_def ds' by auto
qed

text \<open>Rows with new keys and new numbers are all inserted.\<close>

lemma insert_deliveries_fresh:
  assumes "distinct (map delivery_key rows)" "distinct (map local_seq rows)"
    "delivery_key ` set rows \<inter> delivery_key ` set t = {}" "local_seq ` set rows \<inter> local_seq ` set t = {}"
  shows "insert_deliveries t rows = Inr (t @ rows, rows)"
  using assms
proof (induction rows arbitrary: t)
  case (Cons r rs)
  have "insert_deliveries (t @ [r]) rs = Inr ((t @ [r]) @ rs, rs)"
    by (rule Cons.IH) (use Cons.prems in auto)
  moreover have "\<not> list_ex (\<lambda>d. delivery_key d = delivery_key r) t" "\<not> list_ex (\<lambda>d. local_seq d = local_seq r) t"
    using Cons.prems(3,4) by (auto simp: list_ex_key)
  ultimately show ?case by simp
qed simp

section \<open>The last number\<close>

lemma max_delivery_seq_ge:
  assumes "d \<in> set ds" "of_version i v d"
  shows "dl_delivery_seq d \<le> max_delivery_seq i v ds"
proof -
  have "dl_delivery_seq d \<in> set (map dl_delivery_seq (filter (of_version i v) ds))" using assms by auto
  then show ?thesis
    by (cases "map dl_delivery_seq (filter (of_version i v) ds)")
       (auto simp: max_delivery_seq_def foldl_max_mem foldl_max_start)
qed

lemma max_delivery_seq_nonneg:
  assumes "\<forall>d \<in> set ds. delivery_shape d"
  shows "0 \<le> max_delivery_seq i v ds"
proof (cases "filter (of_version i v) ds")
  case Nil
  then show ?thesis by (simp add: max_delivery_seq_def)
next
  case (Cons d xs)
  then have "d \<in> set (filter (of_version i v) ds)" by simp
  then have "d \<in> set ds" "of_version i v d" by auto
  then show ?thesis using assms max_delivery_seq_ge [of d ds i v] by (auto simp: delivery_shape_def)
qed

section \<open>Checkpoints\<close>

lemma sub_inv_checkpoints:
  assumes inv: "sub_inv db"
    and key: "\<And>c. c \<in> set (s_checkpoints db) \<Longrightarrow> p c \<Longrightarrow> checkpoint_key (f c) = checkpoint_key c"
    and shape: "\<And>c. c \<in> set (s_checkpoints db) \<Longrightarrow> p c \<Longrightarrow> checkpoint_shape c \<Longrightarrow> checkpoint_shape (f c)"
    and nxt: "\<And>c. c \<in> set (s_checkpoints db) \<Longrightarrow> p c \<Longrightarrow> cp_next_delivery_seq (f c) = cp_next_delivery_seq c"
  shows "sub_inv (db\<lparr>s_checkpoints := update_where p f (s_checkpoints db)\<rparr>)"
proof -
  have "checkpoints_ok (update_where p f (s_checkpoints db))"
    using inv key shape cpk.wf_update [of "s_checkpoints db" p f]
    by (auto simp: sub_inv_def checkpoints_ok_def set_update_where)
  moreover have "numbered_by (update_where p f (s_checkpoints db)) d"
    if "numbered_by (s_checkpoints db) d" for d
  proof -
    from that obtain c where c: "c \<in> set (s_checkpoints db)"
      "checkpoint_key c = (dl_subscriber_id d, dl_subscriber_version d)" "dl_delivery_seq d < cp_next_delivery_seq c"
      by (auto simp: numbered_by_def)
    show ?thesis unfolding numbered_by_def
      by (rule bexI [where x = "if p c then f c else c"])
         (use c key nxt in \<open>auto simp: set_update_where\<close>)
  qed
  ultimately show ?thesis using inv by (simp add: sub_inv_def)
qed

lemmas lease_columns = checkpoint_key_def checkpoint_shape_def

lemma claimSubscriptionLease_inv:
  assumes "sub_inv db" "claimSubscriptionLease reg i v owner token now db = Inr (r, db')"
  shows "sub_inv db'"
proof -
  from assms(2) obtain declared where decl: "getDeclaredSubscription reg i v = Inr declared"
    by (auto simp: claimSubscriptionLease_def bind_result_Inr_iff)
  define h where "h = sub_hash declared"
  have "db' = db\<lparr>s_checkpoints :=
      update_where (lease_claimable i v h now) (leased owner token now) (s_checkpoints db)\<rparr>"
    using assms(2) unfolding claimSubscriptionLease_def update_checkpoints_def decl
    by (cases "filter (lease_claimable i v h now) (s_checkpoints db)")
       (auto simp: h_def Let_def split: option.splits if_splits)
  then show ?thesis
    using sub_inv_checkpoints [OF assms(1), of "lease_claimable i v h now" "leased owner token now"]
    by (simp add: lease_columns leased_def)
qed

lemma renewSubscriptionLease_inv: "sub_inv db \<Longrightarrow> sub_inv (snd (renewSubscriptionLease lease now db))"
  unfolding renewSubscriptionLease_def update_checkpoints_def prod.case snd_conv
  by (rule sub_inv_checkpoints) (auto simp: lease_columns owns_checkpoint_def)

lemma releaseSubscriptionLease_inv: "sub_inv db \<Longrightarrow> sub_inv (releaseSubscriptionLease lease db)"
  unfolding releaseSubscriptionLease_def update_checkpoints_def snd_conv
  by (rule sub_inv_checkpoints) (auto simp: lease_columns)

section \<open>Discovery\<close>

lemma distinct_singleton_set: "distinct xs \<Longrightarrow> set xs = {c} \<Longrightarrow> xs = [c]"
  by (cases xs; cases "tl xs") auto

lemma fence_unique:
  assumes "checkpoints_ok cps" "c \<in> set cps" "fence_matches fn t c"
  shows "filter (fence_matches fn t) cps = [c]"
proof -
  have wf: "cpk.wf cps" using assms(1) by (simp add: checkpoints_ok_def)
  have same: "c' = c" if "c' \<in> set cps" "fence_matches fn t c'" for c'
    by (rule cpk.wf_same_row [OF wf that(1) assms(2)])
       (use that(2) assms(3) in \<open>simp add: fence_matches_def checkpoint_key_def\<close>)
  have "distinct (filter (fence_matches fn t) cps)"
    using wf by (simp add: cpk.wf_def distinct_map)
  moreover have "set (filter (fence_matches fn t) cps) = {c}"
    using assms(2,3) by (auto dest: same)
  ultimately show ?thesis by (rule distinct_singleton_set)
qed

lemma enumerated: "(n, e) \<in> set (enumerate k xs) \<Longrightarrow> e \<in> set xs \<and> k \<le> n \<and> n < k + length xs"
  by (auto simp: enumerate_eq_zip dest: set_zip_leftD set_zip_rightD)

lemma undelivered_iff:
  "e \<in> set (undelivered declared db) \<longleftrightarrow> e \<in> set (s_events db) \<and> ev_action e \<in> set (sub_actions declared) \<and>
     (sub_id declared, sub_version declared, ev_id e) \<notin> delivery_key ` set (s_deliveries db)"
  by (auto simp: undelivered_def list_ex_key)

lemma new_row_simps [simp]:
  "delivery_key (new_row i v e n st t) = (i, v, ev_id e)" "local_seq (new_row i v e n st t) = (i, v, n)"
  "dl_status (new_row i v e n st t) = st" "dl_delivery_seq (new_row i v e n st t) = n"
  "dl_subscriber_id (new_row i v e n st t) = i" "dl_subscriber_version (new_row i v e n st t) = v"
  "dl_attempt_count (new_row i v e n st t) = 0" "dl_redrive_count (new_row i v e n st t) = 0"
  "dl_source_event_id (new_row i v e n st t) = ev_id e"
  "e \<in> set es \<Longrightarrow> references_event es (new_row i v e n st t)"
  by (auto simp: new_row_def delivery_key_def local_seq_def references_event_def)

lemma distinct_map_enumerate:
  assumes "distinct (map k xs)"
  shows "distinct (map (\<lambda>(n, e). k e) (enumerate m xs))"
  using assms by (simp add: enumerate_eq_zip case_prod_beta' map_snd_zip flip: map_map [of k snd, unfolded comp_def])

lemma discovered_rowsD:
  assumes "r \<in> set (discovered_rows declared base db)"
  obtains n e where "r = new_row (sub_id declared) (sub_version declared) e (base - 1 + int n) Pending None"
    "1 \<le> n" "e \<in> set (undelivered declared db)"
proof -
  from assms obtain n e where
    e: "(n, e) \<in> set (enumerate 1 (take DISCOVERY_BATCH_SIZE (sort_key ev_dispatch_seq (undelivered declared db))))"
    and r: "r = new_row (sub_id declared) (sub_version declared) e (base - 1 + int n) Pending None"
    by (auto simp: discovered_rows_def)
  from enumerated [OF e] have "1 \<le> n" "e \<in> set (undelivered declared db)" by (auto dest: in_set_takeD)
  with r show ?thesis by (rule that)
qed

lemma fence_checkpoint:
  assumes "filter (fence_matches (lease_fence declared lease) t) cps = c # cs"
  shows "c \<in> set cps" "fence_matches (lease_fence declared lease) t c"
    "checkpoint_key c = (sub_id declared, sub_version declared)"
proof -
  have "c \<in> set (filter (fence_matches (lease_fence declared lease) t) cps)" using assms by simp
  then show "c \<in> set cps" "fence_matches (lease_fence declared lease) t c" by auto
  then show "checkpoint_key c = (sub_id declared, sub_version declared)"
    by (simp add: fence_matches_def lease_fence_def checkpoint_key_def)
qed

lemma numbered_below:
  assumes "sub_inv db" "d \<in> set (s_deliveries db)" "c \<in> set (s_checkpoints db)"
    "checkpoint_key c = (dl_subscriber_id d, dl_subscriber_version d)"
  shows "dl_delivery_seq d < cp_next_delivery_seq c"
proof -
  from assms(1,2) obtain c' where "c' \<in> set (s_checkpoints db)"
    "checkpoint_key c' = (dl_subscriber_id d, dl_subscriber_version d)" "dl_delivery_seq d < cp_next_delivery_seq c'"
    by (auto simp: sub_inv_def numbered_by_def)
  moreover have "cpk.wf (s_checkpoints db)" using assms(1) by (simp add: sub_inv_def checkpoints_ok_def)
  ultimately show ?thesis using assms(3,4) by (metis cpk.wf_same_row)
qed

lemma discovered_rows_ok:
  assumes inv: "sub_inv db" and c: "c \<in> set (s_checkpoints db)"
    "checkpoint_key c = (sub_id declared, sub_version declared)"
    and r: "r \<in> set (discovered_rows declared (cp_next_delivery_seq c) db)"
  shows "delivery_shape r" "references_event (s_events db) r" "dl_status r = Pending"
    "of_version (sub_id declared) (sub_version declared) r"
    "later \<in> set (s_deliveries db) \<Longrightarrow> of_version (sub_id declared) (sub_version declared) later \<Longrightarrow>
       dl_delivery_seq later < dl_delivery_seq r"
proof -
  from r obtain n e where
    row: "r = new_row (sub_id declared) (sub_version declared) e (cp_next_delivery_seq c - 1 + int n) Pending None"
    and n: "1 \<le> n" and e: "e \<in> set (undelivered declared db)" by (rule discovered_rowsD)
  have "checkpoint_shape c" using inv c(1) by (simp add: sub_inv_def checkpoints_ok_def)
  then show "delivery_shape r" using row n c(2)
    by (simp add: new_row_def delivery_shape_def status_simps checkpoint_shape_def checkpoint_key_def)
  show "references_event (s_events db) r" "dl_status r = Pending"
    "of_version (sub_id declared) (sub_version declared) r"
    using row e by (auto simp: undelivered_iff of_version_def)
  assume "later \<in> set (s_deliveries db)" "of_version (sub_id declared) (sub_version declared) later"
  then show "dl_delivery_seq later < dl_delivery_seq r"
    using numbered_below [OF inv _ c(1)] c(2) row n by (fastforce simp: of_version_def)
qed

lemma sub_inv_advance:
  assumes inv: "sub_inv db" and ds: "deliveries_ok (s_events db) ds"
    and grown: "\<And>d. d \<in> set ds \<Longrightarrow> \<not> of_version i v d \<Longrightarrow> d \<in> set (s_deliveries db)"
    and p: "\<And>c. p c \<Longrightarrow> checkpoint_key c = (i, v)" and one: "filter p (s_checkpoints db) \<noteq> []"
  shows "sub_inv (db\<lparr>s_deliveries := ds, s_checkpoints := update_where p
           (\<lambda>c. c\<lparr>cp_next_delivery_seq := max_delivery_seq i v ds + 1\<rparr>) (s_checkpoints db)\<rparr>)"
proof -
  let ?f = "\<lambda>c. c\<lparr>cp_next_delivery_seq := max_delivery_seq i v ds + 1\<rparr>"
  have key: "checkpoint_key (?f c) = checkpoint_key c" for c by (simp add: checkpoint_key_def)
  have "0 \<le> max_delivery_seq i v ds"
    using ds by (intro max_delivery_seq_nonneg) (simp add: deliveries_ok_def)
  then have "checkpoints_ok (update_where p ?f (s_checkpoints db))"
    using inv cpk.wf_update [of "s_checkpoints db" p ?f] key
    by (auto simp: sub_inv_def checkpoints_ok_def set_update_where checkpoint_shape_def)
  moreover have "numbered_by (update_where p ?f (s_checkpoints db)) d" if d: "d \<in> set ds" for d
  proof (cases "of_version i v d")
    case True
    from one obtain c where c: "c \<in> set (s_checkpoints db)" "p c" by (auto simp: filter_empty_conv)
    have "?f c \<in> set (update_where p ?f (s_checkpoints db))"
      using c by (auto simp: set_update_where)
    moreover have "dl_delivery_seq d < cp_next_delivery_seq (?f c)"
      using max_delivery_seq_ge [OF d True] by simp
    ultimately show ?thesis
      using True p [OF c(2)] key unfolding numbered_by_def of_version_def by metis
  next
    case False
    then have "d \<in> set (s_deliveries db)" using d grown by blast
    then obtain c where c: "c \<in> set (s_checkpoints db)"
      "checkpoint_key c = (dl_subscriber_id d, dl_subscriber_version d)" "dl_delivery_seq d < cp_next_delivery_seq c"
      using inv by (auto simp: sub_inv_def numbered_by_def)
    then have "\<not> p c" using False p by (auto simp: of_version_def)
    then have "c \<in> set (update_where p ?f (s_checkpoints db))"
      using c(1) by (force simp: set_update_where)
    with c show ?thesis unfolding numbered_by_def by blast
  qed
  ultimately show ?thesis using inv ds by (simp add: sub_inv_def)
qed

lemma discover_batch_inv:
  assumes inv: "sub_inv db" and batch: "discover_batch declared lease t0 t1 db = Inr (n, db')"
  shows "sub_inv db'"
proof (cases "filter (fence_matches (lease_fence declared lease) t0) (s_checkpoints db)")
  case Nil
  then show ?thesis using assms by (simp add: discover_batch_def)
next
  case (Cons c cs)
  let ?p = "fence_matches (lease_fence declared lease) t1"
  let ?rows = "discovered_rows declared (cp_next_delivery_seq c) db"
  note c = fence_checkpoint [OF Cons]
  note row = discovered_rows_ok [OF inv c(1,3)]
  from batch Cons obtain ds ins where ins: "insert_deliveries (s_deliveries db) ?rows = Inr (ds, ins)"
    by (auto simp: discover_batch_def Let_def bind_result_Inr_iff)
  have ds: "deliveries_ok (s_events db) ds"
  proof (rule deliveries_ok_insert [OF _ ins])
    show "deliveries_ok (s_events db) (s_deliveries db)" using inv by (simp add: sub_inv_def)
  next
    fix r assume r: "r \<in> set ?rows"
    show "delivery_shape r \<and> references_event (s_events db) r \<and> untouched (dl_status r)"
      using row(1-3) [OF r] by (simp add: status_simps)
  next
    fix r later
    assume r: "r \<in> set ?rows" "later \<in> set (s_deliveries db)"
      "of_version (dl_subscriber_id r) (dl_subscriber_version r) later"
    then show "dl_delivery_seq later \<le> dl_delivery_seq r"
      using row(4,5) [OF r(1)] by (fastforce simp: of_version_def)
  qed
  have grown: "d \<in> set (s_deliveries db)"
    if "d \<in> set ds" "\<not> of_version (sub_id declared) (sub_version declared) d" for d
    using that insert_deliveries_table [OF ins] row(4) by auto
  show ?thesis
  proof (cases "ins = []")
    case True
    then show ?thesis using batch Cons ins inv insert_deliveries_table [OF ins]
      by (auto simp: discover_batch_def Let_def)
  next
    case False
    then have "filter ?p (s_checkpoints db) \<noteq> []" and
      "db' = db\<lparr>s_deliveries := ds, s_checkpoints := update_where ?p
         (\<lambda>c. c\<lparr>cp_next_delivery_seq := max_delivery_seq (sub_id declared) (sub_version declared) ds + 1\<rparr>)
         (s_checkpoints db)\<rparr>"
      using batch Cons ins by (auto simp: discover_batch_def Let_def update_checkpoints_def split: if_splits)
    moreover have "checkpoint_key c = (sub_id declared, sub_version declared)" if "?p c" for c
      using that by (simp add: fence_matches_def lease_fence_def checkpoint_key_def)
    ultimately show ?thesis using sub_inv_advance [OF inv ds grown, where p = ?p] by simp
  qed
qed

lemma discover_loop_inv:
  "sub_inv db \<Longrightarrow> sub_inv (snd (discover_loop declared lease clock k acc db))"
proof (induction declared lease clock k acc db rule: discover_loop.induct)
  case (1 declared lease clock k acc db)
  show ?case
  proof (cases "discover_batch declared lease (clock k) (clock (k + 1)) db")
    case (Inl e)
    then show ?thesis using 1 by (simp add: discover_loop.simps [of declared lease clock k])
  next
    case (Inr r)
    obtain n db' where r: "r = (n, db')" by (cases r)
    have inv: "sub_inv db'" using discover_batch_inv 1(2) Inr r by blast
    show ?thesis
      using 1(1) [OF Inr r [symmetric]] inv Inr r by (simp add: discover_loop.simps [of declared lease clock k])
  qed
qed

section \<open>Deliveries\<close>

lemma head_delivery_SomeD:
  assumes "head_delivery i v ds = Some d"
  shows "d \<in> set ds" "of_version i v d" "\<not> terminal_status (dl_status d)"
    "d' \<in> set ds \<Longrightarrow> of_version i v d' \<Longrightarrow> \<not> terminal_status (dl_status d') \<Longrightarrow>
       dl_delivery_seq d \<le> dl_delivery_seq d'"
proof -
  let ?open = "filter (\<lambda>d. of_version i v d \<and> \<not> terminal_status (dl_status d)) ds"
  from assms obtain xs where xs: "sort_key dl_delivery_seq ?open = d # xs"
    by (auto simp: head_delivery_def split: list.splits)
  then have "d \<in> set (sort_key dl_delivery_seq ?open)" by simp
  then show "d \<in> set ds" "of_version i v d" "\<not> terminal_status (dl_status d)" by auto
  assume "d' \<in> set ds" "of_version i v d'" "\<not> terminal_status (dl_status d')"
  then have "d' \<in> set (sort_key dl_delivery_seq ?open)" by simp
  moreover have "sorted (map dl_delivery_seq (d # xs))" unfolding xs [symmetric] by simp
  ultimately show "dl_delivery_seq d \<le> dl_delivery_seq d'" unfolding xs by auto
qed

lemma head_claim_unique:
  assumes "dlk.wf ds" "d \<in> set ds" "head_claim i v now ds d"
  shows "head_delivery i v ds = Some d"
proof -
  from assms(3) obtain c where c: "head_delivery i v ds = Some c"
    "dl_source_event_id d = dl_source_event_id c" "of_version i v d"
    by (auto simp: head_claim_def split: option.splits)
  then have "delivery_key d = delivery_key c"
    using head_delivery_SomeD(2) [OF c(1)] by (simp add: delivery_key_def of_version_def)
  then have "d = c" using dlk.wf_same_row assms(1,2) head_delivery_SomeD(1) [OF c(1)] by blast
  with c(1) show ?thesis by simp
qed

lemma in_order_claim:
  assumes ok: "dlk.wf ds" "in_order ds" and same: "\<And>d. same_identity d (f d)"
  shows "in_order (update_where (head_claim i v now ds) f ds)"
proof (rule in_order_update [OF ok(2)])
  fix d later
  assume h: "d \<in> set ds" "later \<in> set ds"
    "of_version (dl_subscriber_id d) (dl_subscriber_version d) later" "dl_delivery_seq d < dl_delivery_seq later"
    "\<not> terminal_status (dl_status (if head_claim i v now ds d then f d else d))"
  have open': "\<not> terminal_status (dl_status d)"
    using h(5) head_delivery_SomeD(3) [OF head_claim_unique [OF ok(1) h(1)]]
    by (cases "head_claim i v now ds d") auto
  have "\<not> head_claim i v now ds later"
  proof
    assume hl: "head_claim i v now ds later"
    note head = head_delivery_SomeD [OF head_claim_unique [OF ok(1) h(2) hl]]
    have "of_version i v d" using head(2) h(3) by (simp add: of_version_def)
    with head(4) [OF h(1)] open' h(4) show False by simp
  qed
  then show "untouched (dl_status (if head_claim i v now ds later then f later else later))"
    using in_orderD [OF ok(2) h(1-4) open'] by simp
qed (rule same)

lemma claimed_row_same: "same_identity d (claimed_row owner token now d)"
  by (simp add: same_identity_def claimed_row_def)

lemma claimed_row_shape: "delivery_shape d \<Longrightarrow> claimable now d \<Longrightarrow> delivery_shape (claimed_row owner token t d)"
  by (auto simp: claimed_row_def delivery_shape_def claimable_def status_simps)

lemma claimNext_deliveries:
  assumes "claimNextSubscriptionDelivery reg sub lease token t0 t1 db = Inr (r, db')"
  shows "db' = db \<or> db' = db\<lparr>s_deliveries := update_where
    (head_claim (sub_id sub) (sub_version sub) t1 (s_deliveries db))
    (claimed_row (sl_claim_owner lease) token t1) (s_deliveries db)\<rparr>"
proof -
  from assms obtain declared where "getDeclaredSubscription reg (sub_id sub) (sub_version sub) = Inr declared"
    by (auto simp: claimNextSubscriptionDelivery_def Let_def bind_result_Inr_iff)
  with assms show ?thesis
    by (auto simp: claimNextSubscriptionDelivery_def Let_def withLockedCheckpoint_def update_deliveries_def
        split: if_splits list.splits)
qed

lemma claimNextSubscriptionDelivery_inv:
  assumes inv: "sub_inv db"
    and claim: "claimNextSubscriptionDelivery reg sub lease token t0 t1 db = Inr (r, db')"
  shows "sub_inv db'"
proof -
  let ?p = "head_claim (sub_id sub) (sub_version sub) t1 (s_deliveries db)"
  let ?f = "claimed_row (sl_claim_owner lease) token t1"
  have "in_order (update_where ?p ?f (s_deliveries db))"
    using inv by (intro in_order_claim) (auto simp: sub_inv_def deliveries_ok_def claimed_row_same)
  then have "sub_inv (db\<lparr>s_deliveries := update_where ?p ?f (s_deliveries db)\<rparr>)"
    by (rule sub_inv_update [OF inv, rotated 2])
       (auto simp: claimed_row_same head_claim_def intro: claimed_row_shape)
  then show ?thesis using inv claimNext_deliveries [OF claim] by auto
qed

lemma renewSubscriptionDeliveryLease_inv:
  "sub_inv db \<Longrightarrow> sub_inv (snd (renewSubscriptionDeliveryLease claim t0 t1 db))"
  unfolding renewSubscriptionDeliveryLease_def case_prod_beta snd_conv
  by (rule sub_inv_settle) (auto simp: same_identity_def delivery_shape_def)

lemma completed_row_same: "same_identity d (completed_row outcome now d)"
  by (simp add: same_identity_def completed_row_def)

lemma failed_row_same: "same_identity d (failed_row m delay message now d)"
  by (simp add: same_identity_def failed_row_def Let_def)

lemma completed_row_shape:
  "delivery_shape d \<Longrightarrow> delivery_shape (completed_row outcome now d)"
  by (cases outcome) (auto simp: completed_row_def delivery_shape_def status_simps)

lemma completeSubscriptionDelivery_inv:
  "sub_inv db \<Longrightarrow> sub_inv (snd (completeSubscriptionDelivery claim outcome t0 t1 db))"
  unfolding completeSubscriptionDelivery_def case_prod_beta snd_conv
  by (rule sub_inv_settle) (simp_all add: completed_row_same completed_row_shape)

lemma failed_row_shape:
  "delivery_shape d \<Longrightarrow> delivery_shape (failed_row m delay message now d)"
  by (auto simp: failed_row_def Let_def delivery_shape_def status_simps)

lemma failSubscriptionDelivery_inv:
  assumes inv: "sub_inv db"
    and r: "failSubscriptionDelivery claim message maxAttempts delay t0 t1 db = Inr (x, db')"
  shows "sub_inv db'"
proof -
  let ?d = "seconds (case delay of None \<Rightarrow> Some 1 | Some d \<Rightarrow> d)"
  let ?f = "failed_row (js_int maxAttempts) ?d message t1"
  have "db' = snd (withLockedCheckpoint (claim_fence claim) t0 (update_deliveries (holds_claim claim t1) ?f) db)"
    using r unfolding failSubscriptionDelivery_def
    by (auto simp: bind_result_Inr_iff Let_def case_prod_beta split: option.splits list.splits)
  moreover have "sub_inv \<dots>"
    by (rule sub_inv_settle [OF inv]) (simp_all add: failed_row_same failed_row_shape)
  ultimately show ?thesis by simp
qed

lemma redriveSubscriptionDelivery_inv:
  assumes inv: "sub_inv db" and r: "redriveSubscriptionDelivery reg i v e now db = Inr (x, db')"
  shows "sub_inv db'"
proof -
  let ?ds = "s_deliveries db"
  let ?p = "redrivable i v e ?ds"
  have "in_order (update_where ?p (redriven_row now) ?ds)"
  proof (rule in_order_update)
    show "in_order ?ds" using inv by (simp add: sub_inv_def deliveries_ok_def)
  next
    fix d later
    assume h: "later \<in> set ?ds" "?p d \<or> ?p later" "dl_delivery_seq d < dl_delivery_seq later"
      "of_version (dl_subscriber_id d) (dl_subscriber_version d) later"
    show "untouched (dl_status (if ?p later then redriven_row now later else later))"
    proof (cases "?p later")
      case True
      then show ?thesis by (simp add: redriven_row_def status_simps)
    next
      case False
      with h have "dl_status later = Pending"
        by (auto simp: redrivable_def list_ex_iff of_version_def)
      with False show ?thesis by (simp add: status_simps)
    qed
  qed (simp add: same_identity_def redriven_row_def)
  then have "sub_inv (db\<lparr>s_deliveries := update_where ?p (redriven_row now) ?ds\<rparr>)"
    by (rule sub_inv_update [OF inv, rotated 2])
       (auto simp: same_identity_def redriven_row_def delivery_shape_def status_simps redrivable_def)
  then show ?thesis using inv r
    by (auto simp: redriveSubscriptionDelivery_def bind_result_Inr_iff update_deliveries_def split: if_splits)
qed

section \<open>Bootstrap\<close>

lemma getDeclaredSubscription_InrD:
  "getDeclaredSubscription reg i v = Inr declared \<Longrightarrow> declared \<in> set reg \<and> sub_id declared = i \<and> sub_version declared = v"
  by (auto simp: getDeclaredSubscription_def registry_get_def find_Some_iff in_set_conv_nth rev_nth
      split: option.splits) (metis diff_Suc_less length_pos_if_in_set nth_mem)

lemma translated_rowsD:
  assumes "r \<in> set (translated_rows sub db)"
  obtains n od where "r = translated_row (sub_id sub) (sub_version sub) (n, od)" "1 \<le> n"
    "od \<in> set (s_deliveries db)" "older_outstanding (sub_id sub) (sub_version sub) od"
    "subscribed_event sub (s_events db) (dl_source_event_id od)"
  using assms unfolding translated_rows_def by (auto dest: enumerated)

lemma history_rowsD:
  assumes "r \<in> set (history_rows sub m now db)"
  obtains n e where "r = new_row (sub_id sub) (sub_version sub) e (int m + int n) BootstrapSkipped (Some now)"
    "1 \<le> n" "e \<in> set (s_events db)" "ev_action e \<in> set (sub_actions sub)"
  using assms unfolding history_rows_def by (auto dest: enumerated)

lemma in_order_supersede:
  assumes "in_order ds"
  shows "in_order (update_where (older_outstanding i v) (superseded_row i v ds' now) ds)"
proof (rule in_order_update [OF assms])
  fix d later
  assume h: "older_outstanding i v d \<or> older_outstanding i v later"
    "of_version (dl_subscriber_id d) (dl_subscriber_version d) later"
    "\<not> terminal_status (dl_status (if older_outstanding i v d then superseded_row i v ds' now d else d))"
  then have "\<not> older_outstanding i v d" by (auto simp: superseded_row_def status_simps)
  with h show "untouched (dl_status (if older_outstanding i v later then superseded_row i v ds' now later else later))"
    by (auto simp: older_outstanding_def of_version_def status_simps)
qed (simp add: same_identity_def superseded_row_def)

lemma bootstrapSubscription_inv:
  assumes inv: "sub_inv db" and boot: "bootstrapSubscription reg sub t1 t2 db = Inr (x, db')"
  shows "sub_inv db'"
proof (cases "list_ex (\<lambda>c. checkpoint_key c = (sub_id sub, sub_version sub)) (s_checkpoints db)")
  case True
  then show ?thesis using assms
    by (auto simp: bootstrapSubscription_def Let_def bind_result_Inr_iff split: option.splits if_splits)
next
  case new: False
  let ?i = "sub_id sub" and ?v = "sub_version sub"
  from boot new obtain declared ds ins ds' ins' where
    decl: "getDeclaredSubscription reg ?i ?v = Inr declared" and pos: "?v > 0"
    and ins: "insert_deliveries (s_deliveries db) (translated_rows declared db) = Inr (ds, ins)"
    and ins': "insert_deliveries ds (history_rows declared (length ins) t1 db) = Inr (ds', ins')"
    and db': "db' = db\<lparr>s_checkpoints := s_checkpoints db @
        [\<lparr>cp_subscriber_id = ?i, cp_subscriber_version = ?v, cp_declaration_hash = sub_hash declared,
          cp_status = Active, cp_next_delivery_seq = 1 + max_delivery_seq ?i ?v ds', cp_claim_owner = None,
          cp_claim_token = None, cp_claim_lease_until = None\<rparr>],
        s_deliveries := update_where (older_outstanding ?i ?v) (superseded_row ?i ?v ds' t2) ds'\<rparr>"
    by (auto simp: bootstrapSubscription_def Let_def bind_result_Inr_iff split: if_splits prod.splits)
  have d: "sub_id declared = ?i" "sub_version declared = ?v"
    using getDeclaredSubscription_InrD [OF decl] by simp_all
  have none: "\<not> of_version ?i ?v d" if "d \<in> set (s_deliveries db)" for d
    using inv new that by (fastforce simp: sub_inv_def numbered_by_def list_ex_iff of_version_def)
  have ok: "deliveries_ok (s_events db) ds"
  proof (rule deliveries_ok_insert [OF _ ins])
    show "deliveries_ok (s_events db) (s_deliveries db)" using inv by (simp add: sub_inv_def)
  next
    fix r assume "r \<in> set (translated_rows declared db)"
    then show "delivery_shape r \<and> references_event (s_events db) r \<and> untouched (dl_status r)"
    proof (rule translated_rowsD)
      fix n od
      assume r: "r = translated_row (sub_id declared) (sub_version declared) (n, od)" "1 \<le> n"
        and od: "od \<in> set (s_deliveries db)"
      have "delivery_shape od \<and> references_event (s_events db) od"
        using inv od by (simp add: sub_inv_def deliveries_ok_def)
      then show ?thesis using r pos d
        by (auto simp: translated_row_def delivery_shape_def references_event_def status_simps)
    qed
  next
    fix r later
    assume "r \<in> set (translated_rows declared db)" "later \<in> set (s_deliveries db)"
      "of_version (dl_subscriber_id r) (dl_subscriber_version r) later"
    then show "dl_delivery_seq later \<le> dl_delivery_seq r"
      using none d by (auto elim!: translated_rowsD simp: translated_row_def)
  qed
  have ok': "deliveries_ok (s_events db) ds'"
  proof (rule deliveries_ok_insert [OF ok ins'])
    fix r assume "r \<in> set (history_rows declared (length ins) t1 db)"
    then show "delivery_shape r \<and> references_event (s_events db) r \<and> untouched (dl_status r)"
    proof (rule history_rowsD)
      fix n e
      assume r: "r = new_row (sub_id declared) (sub_version declared) e (int (length ins) + int n) BootstrapSkipped (Some t1)"
        "1 \<le> n" "e \<in> set (s_events db)"
      have "delivery_shape r" unfolding r using r(2) pos d by (simp add: new_row_def delivery_shape_def status_simps)
      with r show ?thesis by (simp add: status_simps)
    qed
  qed (auto elim!: history_rowsD simp: status_simps)
  have grown: "d \<in> set (s_deliveries db)" if "d \<in> set ds'" "\<not> of_version ?i ?v d" for d
    using that d insert_deliveries_table [OF ins] insert_deliveries_table [OF ins']
    by (fastforce elim!: translated_rowsD history_rowsD simp: translated_row_def of_version_def)
  define cp where "cp = \<lparr>cp_subscriber_id = ?i, cp_subscriber_version = ?v, cp_declaration_hash = sub_hash declared,
          cp_status = Active, cp_next_delivery_seq = 1 + max_delivery_seq ?i ?v ds', cp_claim_owner = None,
          cp_claim_token = None, cp_claim_lease_until = None\<rparr>"
  have "0 \<le> max_delivery_seq ?i ?v ds'"
    using ok' by (intro max_delivery_seq_nonneg) (simp add: deliveries_ok_def)
  then have "checkpoint_shape cp" using pos by (simp add: checkpoint_shape_def cp_def)
  moreover have "checkpoint_key cp = (?i, ?v)" by (simp add: cp_def checkpoint_key_def)
  moreover have "(?i, ?v) \<notin> checkpoint_key ` set (s_checkpoints db)" using new by (simp add: list_ex_key)
  ultimately have cps: "checkpoints_ok (s_checkpoints db @ [cp])"
    using inv by (auto simp: sub_inv_def checkpoints_ok_def cpk.wf_def)
  have "numbered_by (s_checkpoints db @ [cp]) d" if d: "d \<in> set ds'" for d
  proof (cases "of_version ?i ?v d")
    case True
    with max_delivery_seq_ge [OF d True] show ?thesis
      by (auto simp: numbered_by_def cp_def checkpoint_key_def of_version_def)
  next
    case False
    with grown [OF d] inv show ?thesis by (auto simp: sub_inv_def numbered_by_def)
  qed
  then have "sub_inv (db\<lparr>s_checkpoints := s_checkpoints db @ [cp], s_deliveries := ds'\<rparr>)" (is "sub_inv ?db2")
    using inv cps ok' by (simp add: sub_inv_def)
  then have "sub_inv (?db2\<lparr>s_deliveries := update_where (older_outstanding ?i ?v) (superseded_row ?i ?v ds' t2)
      (s_deliveries ?db2)\<rparr>)"
    by (rule sub_inv_update)
       (use ok' in \<open>auto simp: same_identity_def superseded_row_def delivery_shape_def status_simps deliveries_ok_def
         intro: in_order_supersede\<close>)
  then show ?thesis by (simp add: db' cp_def)
qed

end
