(* ===== verification/SubscriptionRuns.thy ===== *)
theory SubscriptionRuns
  imports SubscriptionDispatch SubscriptionPreservation
begin

text \<open>
  Runs of the bus: what one action may do to the deliveries, as an inductive relation, and what every
  sequence of actions by any number of workers preserves.
\<close>

section \<open>The effect of an action\<close>

inductive delivery_effect :: "sub_action \<Rightarrow> sub_db \<Rightarrow> Delivery list \<Rightarrow> bool" where
  unchanged: "delivery_effect a db (s_deliveries db)"
| discovered: "c \<in> set (s_checkpoints db) \<Longrightarrow> checkpoint_key c = (sub_id sub, sub_version sub) \<Longrightarrow>
    insert_deliveries (s_deliveries db) (discovered_rows sub (cp_next_delivery_seq c) db) = Inr (ds, ins) \<Longrightarrow>
    sub_id sub' = sub_id sub \<Longrightarrow> sub_version sub' = sub_version sub \<Longrightarrow>
    delivery_effect (DiscoverBatch sub' lease t0 t1) db ds"
| claimed: "delivery_effect (ClaimNext sub lease token t0 t1) db
    (update_where (head_claim (sub_id sub) (sub_version sub) t1 (s_deliveries db))
       (claimed_row (sl_claim_owner lease) token t1) (s_deliveries db))"
| renewed: "delivery_effect (RenewClaim claim t0 t1) db
    (update_where (holds_claim claim t1) (\<lambda>d. d\<lparr>dl_claim_lease_until := Some (t1 + lease_ttl)\<rparr>) (s_deliveries db))"
| completed: "delivery_effect (Complete claim outcome t0 t1) db
    (update_where (holds_claim claim t1) (completed_row outcome t1) (s_deliveries db))"
| failed: "js_int m > 0 \<Longrightarrow> delivery_effect (Fail claim message m delay t0 t1) db
    (update_where (holds_claim claim t1) (failed_row (js_int m) wait message t1) (s_deliveries db))"
| redriven: "delivery_effect (Redrive i v e t) db
    (update_where (redrivable i v e (s_deliveries db)) (redriven_row t) (s_deliveries db))"
| bootstrapped: "(sub_id sub, sub_version sub) \<notin> checkpoint_key ` set (s_checkpoints db) \<Longrightarrow>
    sub_id sub' = sub_id sub \<Longrightarrow> sub_version sub' = sub_version sub \<Longrightarrow>
    insert_deliveries (s_deliveries db) (translated_rows sub' db) = Inr (ds, ins) \<Longrightarrow>
    insert_deliveries ds (history_rows sub' (length ins) t1 db) = Inr (ds', ins') \<Longrightarrow>
    delivery_effect (Bootstrap sub t1 t2) db
      (update_where (older_outstanding (sub_id sub) (sub_version sub))
         (superseded_row (sub_id sub) (sub_version sub) ds' t2) ds')"

lemma positive_integer_js_int: "assertPositiveInteger m name = Inr u \<Longrightarrow> js_int m > 0"
proof (cases m)
  case (Some q)
  assume "assertPositiveInteger m name = Inr u"
  with Some have "of_int \<lfloor>q\<rfloor> = q" "q > 0" by (auto simp: assertPositiveInteger_def split: if_splits)
  then have "\<lfloor>q\<rfloor> > 0" by (metis of_int_0_less_iff)
  then show ?thesis using Some by (simp only: js_int_def option.case)
qed (simp add: assertPositiveInteger_def)

lemma bootstrap_cases:
  assumes "bootstrapSubscription reg sub t1 t2 db = Inr (x, db')"
  obtains "db' = db" "x = \<lparr>bt_translated = 0, bt_superseded = 0\<rparr>"
    "(sub_id sub, sub_version sub) \<in> checkpoint_key ` set (s_checkpoints db)"
  | declared ds ins ds' ins' where
    "getDeclaredSubscription reg (sub_id sub) (sub_version sub) = Inr declared"
    "sub_id declared = sub_id sub" "sub_version declared = sub_version sub"
    "(sub_id sub, sub_version sub) \<notin> checkpoint_key ` set (s_checkpoints db)"
    "insert_deliveries (s_deliveries db) (translated_rows declared db) = Inr (ds, ins)"
    "insert_deliveries ds (history_rows declared (length ins) t1 db) = Inr (ds', ins')"
    "x = \<lparr>bt_translated = length ins,
          bt_superseded = length (filter (older_outstanding (sub_id sub) (sub_version sub)) ds')\<rparr>"
    "s_events db' = s_events db"
    "s_deliveries db' = update_where (older_outstanding (sub_id sub) (sub_version sub))
       (superseded_row (sub_id sub) (sub_version sub) ds' t2) ds'"
proof (cases "list_ex (\<lambda>c. checkpoint_key c = (sub_id sub, sub_version sub)) (s_checkpoints db)")
  case True
  then have "db' = db" "x = \<lparr>bt_translated = 0, bt_superseded = 0\<rparr>" using assms
    by (auto simp: bootstrapSubscription_def Let_def bind_result_Inr_iff split: option.splits if_splits)
  with True show ?thesis by (intro that(1)) (simp_all add: list_ex_key)
next
  case False
  from assms obtain declared where decl: "getDeclaredSubscription reg (sub_id sub) (sub_version sub) = Inr declared"
    by (auto simp: bootstrapSubscription_def Let_def bind_result_Inr_iff)
  from assms decl False obtain ds ins where
    ins: "insert_deliveries (s_deliveries db) (translated_rows declared db) = Inr (ds, ins)"
    by (auto simp: bootstrapSubscription_def Let_def bind_result_Inr_iff split: if_splits)
  from assms decl False ins obtain ds' ins' where
    ins': "insert_deliveries ds (history_rows declared (length ins) t1 db) = Inr (ds', ins')"
    by (auto simp: bootstrapSubscription_def Let_def bind_result_Inr_iff split: if_splits)
  show ?thesis
    by (rule that(2) [OF decl _ _ _ ins ins'])
       (use assms decl False ins ins' getDeclaredSubscription_InrD [OF decl] in
         \<open>auto simp: bootstrapSubscription_def Let_def list_ex_key split: if_splits\<close>)
qed

lemma discover_batch_cases:
  assumes "discover_batch declared lease t0 t1 db = Inr (n, db')"
  obtains "db' = db"
  | c ds ins where "c \<in> set (s_checkpoints db)" "checkpoint_key c = (sub_id declared, sub_version declared)"
    "insert_deliveries (s_deliveries db) (discovered_rows declared (cp_next_delivery_seq c) db) = Inr (ds, ins)"
    "s_deliveries db' = ds" "s_events db' = s_events db" "n = length ins"
proof (cases "filter (fence_matches (lease_fence declared lease) t0) (s_checkpoints db)")
  case Nil
  then show ?thesis using assms by (intro that(1)) (simp add: discover_batch_def)
next
  case (Cons c cs)
  from assms Cons obtain ds ins where
    ins: "insert_deliveries (s_deliveries db) (discovered_rows declared (cp_next_delivery_seq c) db) = Inr (ds, ins)"
    by (auto simp: discover_batch_def Let_def bind_result_Inr_iff)
  from assms Cons ins show ?thesis
    by (intro that(2) [OF fence_checkpoint(1,3) [OF Cons] ins])
       (auto simp: discover_batch_def Let_def update_checkpoints_def split: if_splits)
qed

lemma fail_cases:
  assumes "failSubscriptionDelivery claim message m delay t0 t1 db = Inr (x, db')"
  obtains wait where "js_int m > 0" "db' = snd (withLockedCheckpoint (claim_fence claim) t0
    (update_deliveries (holds_claim claim t1) (failed_row (js_int m) wait message t1)) db)"
  using assms unfolding failSubscriptionDelivery_def
  by (auto simp: bind_result_Inr_iff Let_def case_prod_beta dest: positive_integer_js_int
      split: option.splits list.splits)

lemma locked_update_deliveries:
  "s_deliveries (snd (withLockedCheckpoint fn t0 (update_deliveries p f) db)) = s_deliveries db \<or>
   s_deliveries (snd (withLockedCheckpoint fn t0 (update_deliveries p f) db)) = update_where p f (s_deliveries db)"
  by (simp add: withLockedCheckpoint_def update_deliveries_def)

lemma perform_effect: "delivery_effect a db (s_deliveries (perform reg a db))"
proof (cases a)
  case (CommitEvent e)
  then show ?thesis using unchanged [of a db] by (simp add: commit_event_def)
next
  case (Bootstrap sub t1 t2)
  show ?thesis
  proof (cases "bootstrapSubscription reg sub t1 t2 db")
    case (Inr r)
    obtain x db' where r: "r = (x, db')" by (cases r)
    from Inr [unfolded r] show ?thesis
      by (rule bootstrap_cases) (auto simp: Bootstrap Inr r after_def intro: unchanged bootstrapped)
  qed (simp add: Bootstrap after_def unchanged)
next
  case (ClaimLease i v owner token t)
  then show ?thesis using unchanged [of a db]
    by (auto simp: after_def claimSubscriptionLease_def Let_def update_checkpoints_def bind_result_def
        split: sum.splits list.splits option.splits if_splits)
next
  case (DiscoverBatch sub lease t0 t1)
  show ?thesis
  proof (cases "getDeclaredSubscription reg (sub_id sub) (sub_version sub)")
    case (Inr declared)
    show ?thesis
    proof (cases "discover_batch declared lease t0 t1 db")
      case r: (Inr r)
      obtain n db' where db': "r = (n, db')" by (cases r)
      from r [unfolded db'] show ?thesis
      proof (cases rule: discover_batch_cases)
        case 1
        then show ?thesis by (simp add: DiscoverBatch Inr r db' after_def unchanged)
      next
        case (2 c ds ins)
        then show ?thesis
          using discovered [OF 2(1-3), of sub lease t0 t1] getDeclaredSubscription_InrD [OF Inr]
          by (simp add: DiscoverBatch Inr r db' after_def)
      qed
    qed (simp add: DiscoverBatch Inr after_def unchanged)
  qed (simp add: DiscoverBatch unchanged)
next
  case (ClaimNext sub lease token t0 t1)
  show ?thesis
  proof (cases "claimNextSubscriptionDelivery reg sub lease token t0 t1 db")
    case (Inr r)
    obtain x db' where r: "r = (x, db')" by (cases r)
    from claimNext_deliveries [OF Inr [unfolded r]] show ?thesis
      by (auto simp: ClaimNext Inr r after_def intro: unchanged claimed)
  qed (simp add: ClaimNext after_def unchanged)
next
  case (RenewClaim claim t0 t1)
  then show ?thesis
    using locked_update_deliveries [of "claim_fence claim" t0 "holds_claim claim t1"] unchanged [of a db] renewed [of claim t0 t1 db]
    by (simp add: renewSubscriptionDeliveryLease_def case_prod_beta) metis
next
  case (Complete claim outcome t0 t1)
  then show ?thesis
    using locked_update_deliveries [of "claim_fence claim" t0 "holds_claim claim t1"] unchanged [of a db] completed [of claim outcome t0 t1 db]
    by (simp add: completeSubscriptionDelivery_def case_prod_beta) metis
next
  case (Fail claim message m delay t0 t1)
  show ?thesis
  proof (cases "failSubscriptionDelivery claim message m delay t0 t1 db")
    case (Inr r)
    obtain x db' where r: "r = (x, db')" by (cases r)
    from Inr [unfolded r] obtain wait where w: "js_int m > 0" "db' = snd (withLockedCheckpoint (claim_fence claim) t0
      (update_deliveries (holds_claim claim t1) (failed_row (js_int m) wait message t1)) db)" by (rule fail_cases)
    then show ?thesis
      using locked_update_deliveries [of "claim_fence claim" t0 "holds_claim claim t1" "failed_row (js_int m) wait message t1" db]
        unchanged [of a db] failed [OF w(1), of claim message delay t0 t1 db wait]
      by (auto simp: Fail Inr r after_def)
  qed (simp add: Fail after_def unchanged)
next
  case (Redrive i v e t)
  then show ?thesis using unchanged [of a db] redriven [of i v e t db]
    by (auto simp: after_def redriveSubscriptionDelivery_def bind_result_def update_deliveries_def
        split: sum.splits if_splits)
qed (use unchanged [of a db] in \<open>simp_all add: renewSubscriptionLease_def releaseSubscriptionLease_def
    update_checkpoints_def\<close>)

section \<open>The constraints along a run\<close>

lemma commit_event_inv: "sub_inv db \<Longrightarrow> sub_inv (commit_event e db)"
  by (auto simp: commit_event_def sub_inv_def events_ok_def evk.wf_def evs.wf_def list_ex_iff
      deliveries_ok_def references_event_def)

lemma perform_inv: "sub_inv db \<Longrightarrow> sub_inv (perform reg a db)"
proof (cases a)
  case (DiscoverBatch sub lease t0 t1)
  then show "sub_inv db \<Longrightarrow> sub_inv (perform reg a db)"
    by (auto simp: after_def split: sum.splits intro: discover_batch_inv)
qed (auto simp: after_def split: sum.splits intro: commit_event_inv bootstrapSubscription_inv
    claimSubscriptionLease_inv renewSubscriptionLease_inv releaseSubscriptionLease_inv
    claimNextSubscriptionDelivery_inv renewSubscriptionDeliveryLease_inv completeSubscriptionDelivery_inv
    failSubscriptionDelivery_inv redriveSubscriptionDelivery_inv)

lemma run_actions_inv: "sub_inv db \<Longrightarrow> sub_inv (run_actions as db)"
  by (induction as db rule: run_actions.induct) (auto intro: perform_inv)

lemma empty_sub_db_inv: "sub_inv empty_sub_db"
  by (simp add: sub_inv_def empty_sub_db_def events_ok_def checkpoints_ok_def deliveries_ok_def in_order_def)

lemmas reachable_inv = run_actions_inv [OF empty_sub_db_inv]

section \<open>Settled deliveries\<close>

definition settled :: "Delivery \<Rightarrow> bool" where
  "settled d \<longleftrightarrow> dl_status d \<in> {BootstrapSkipped, Succeeded, Skipped}"

lemma update_where_keeps: "d \<in> set ds \<Longrightarrow> \<not> p d \<Longrightarrow> d \<in> set (update_where p f ds)"
  by (force simp: set_update_where)

lemma settled_untouched:
  assumes "settled d"
  shows "\<not> claimable t d" "\<not> holds_claim claim t d" "\<not> redrivable i v e ds d" "\<not> older_outstanding i v d"
  using assms by (auto simp: settled_def claimable_def holds_claim_def redrivable_def older_outstanding_def status_simps)

lemma perform_settled:
  assumes "settled d" "d \<in> set (s_deliveries db)"
  shows "d \<in> set (s_deliveries (perform reg a db))"
  using perform_effect [of a db reg]
proof (cases rule: delivery_effect.cases)
  case (discovered c sub ins)
  then show ?thesis using assms insert_deliveries_table [OF discovered(4)] by simp
next
  case (bootstrapped sub sub' ds ins t1 ds' ins')
  from insert_deliveries_table [OF bootstrapped(6)] insert_deliveries_table [OF bootstrapped(7)] assms(2)
  have "d \<in> set ds'" by auto
  then show ?thesis unfolding bootstrapped(2) by (rule update_where_keeps) (rule settled_untouched(4) [OF assms(1)])
qed (use assms settled_untouched [OF assms(1)] in \<open>simp_all add: update_where_keeps head_claim_def\<close>)

lemma run_actions_settled:
  "settled d \<Longrightarrow> d \<in> set (s_deliveries db) \<Longrightarrow> d \<in> set (s_deliveries (run_actions as db))"
  by (induction as db rule: run_actions.induct) (auto dest: perform_settled)

section \<open>Stale claims\<close>

text \<open>A token that a delivery no longer carries never comes back to it: claims draw new tokens.\<close>

fun draws_token :: "string \<Rightarrow> sub_action \<Rightarrow> bool" where
  "draws_token k (ClaimNext _ _ token _ _) \<longleftrightarrow> token = k"
| "draws_token k _ \<longleftrightarrow> False"

definition without_token :: "string \<times> int \<times> string \<Rightarrow> string \<Rightarrow> Delivery list \<Rightarrow> bool" where
  "without_token key k ds \<longleftrightarrow> (\<forall>d \<in> set ds. delivery_key d = key \<longrightarrow> dl_claim_token d \<noteq> Some k)"

lemma without_token_update:
  assumes "without_token key k ds"
    and "\<And>d. same_identity d (f d)" "\<And>d. dl_claim_token (f d) = dl_claim_token d \<or> dl_claim_token (f d) \<noteq> Some k"
  shows "without_token key k (update_where p f ds)"
  unfolding without_token_def set_update_where
proof (intro ballI impI; elim imageE)
  fix d' d assume "d' = (if p d then f d else d)" "d \<in> set ds" "delivery_key d' = key"
  then show "dl_claim_token d' \<noteq> Some k"
    using assms same_identity_keys(1) [OF assms(2)] unfolding without_token_def by (metis (no_types))
qed

lemma perform_without_token:
  assumes "without_token key k (s_deliveries db)" "\<not> draws_token k a"
  shows "without_token key k (s_deliveries (perform reg a db))"
  using perform_effect [of a db reg]
proof (cases rule: delivery_effect.cases)
  case (discovered c sub ins)
  note tab = insert_deliveries_table [OF discovered(4)]
  have "dl_claim_token r = None" if "r \<in> set ins" for r
    using that tab by (auto elim!: discovered_rowsD simp: new_row_def dest!: subsetD)
  then show ?thesis using tab assms(1) by (auto simp: without_token_def)
next
  case (bootstrapped sub sub' ds ins t1 ds' ins')
  have "dl_claim_token r = None" if "r \<in> set ins \<union> set ins'" for r
    using that insert_deliveries_table [OF bootstrapped(6)] insert_deliveries_table [OF bootstrapped(7)]
    by (auto elim!: translated_rowsD history_rowsD simp: new_row_def translated_row_def dest!: subsetD)
  then have "without_token key k ds'"
    using assms(1) insert_deliveries_table [OF bootstrapped(6)] insert_deliveries_table [OF bootstrapped(7)]
    by (auto simp: without_token_def)
  then show ?thesis unfolding bootstrapped(2)
    by (rule without_token_update) (simp_all add: same_identity_def superseded_row_def)
qed (use assms in \<open>auto intro!: without_token_update
    simp: completed_row_same failed_row_same claimed_row_same claimed_row_def completed_row_def failed_row_def
      redriven_row_def same_identity_def Let_def\<close>)

lemma run_actions_without_token:
  "without_token key k (s_deliveries db) \<Longrightarrow> \<forall>(reg, a) \<in> set as. \<not> draws_token k a \<Longrightarrow>
     without_token key k (s_deliveries (run_actions as db))"
  by (induction as db rule: run_actions.induct) (auto dest: perform_without_token)

lemma claimed_token:
  assumes inv: "sub_inv db" and claim: "claimNextSubscriptionDelivery reg sub lease token t0 t1 db = Inr (Some claim, db')"
    and d: "d \<in> set (s_deliveries db')"
    and key: "delivery_key d = (dc_subscriber_id claim, dc_subscriber_version claim, dc_source_event_id claim)"
  shows "dl_claim_token d = Some token"
proof -
  let ?p = "head_claim (sub_id sub) (sub_version sub) t1 (s_deliveries db)"
  let ?f = "claimed_row (sl_claim_owner lease) token t1"
  from claim obtain declared where decl: "getDeclaredSubscription reg (sub_id sub) (sub_version sub) = Inr declared"
    by (auto simp: claimNextSubscriptionDelivery_def Let_def bind_result_Inr_iff)
  obtain rows db1 where w: "withLockedCheckpoint (lease_fence declared lease) t0 (\<lambda>tx. update_deliveries
      (head_claim (sub_id sub) (sub_version sub) t1 (s_deliveries tx)) ?f tx) db = (rows, db1)"
    by (rule prod.exhaust)
  note cl' = claim [unfolded claimNextSubscriptionDelivery_def Let_def decl bind_result_simps w prod.case]
  obtain row rest where rows: "rows = Some (row # rest)"
  proof (cases rows)
    case None
    then show ?thesis using cl' by (simp split: if_splits)
  next
    case (Some l)
    then show ?thesis using cl' that by (cases l) (simp_all split: if_splits)
  qed
  then have db1: "db1 = db'" and cl: "dc_subscriber_id claim = sub_id sub" "dc_subscriber_version claim = sub_version sub"
      "dc_source_event_id claim = dl_source_event_id row"
    using cl' by (auto simp del: lease_ttl_eq split: if_splits)
  from w rows have upd: "map ?f (filter ?p (s_deliveries db)) = row # rest"
    and ds: "s_deliveries db1 = update_where ?p ?f (s_deliveries db)"
    by (auto simp: withLockedCheckpoint_def update_deliveries_def split: if_splits)
  have "row \<in> set (map ?f (filter ?p (s_deliveries db)))" unfolding upd by simp
  then obtain h where h: "h \<in> set (s_deliveries db)" "?p h" "row = ?f h" by auto
  from d obtain x where x: "x \<in> set (s_deliveries db)" "d = (if ?p x then ?f x else x)"
    unfolding db1 [symmetric] ds by (auto simp: set_update_where)
  have "delivery_key x = delivery_key d" using x(2) same_identity_keys(1) [OF claimed_row_same] by simp
  moreover have "delivery_key h = delivery_key d"
    using key cl h(2,3) by (simp add: delivery_key_def head_claim_def of_version_def claimed_row_def)
  moreover have "dlk.wf (s_deliveries db)" using inv by (simp add: sub_inv_def deliveries_ok_def)
  ultimately have "x = h" using dlk.wf_same_row [of "s_deliveries db" x h] x(1) h(1) by simp
  then show ?thesis using x(2) h(2) by (simp add: claimed_row_def)
qed

lemma fenced_claim:
  assumes "without_token (dc_subscriber_id old, dc_subscriber_version old, dc_source_event_id old)
    (dc_claim_token old) (s_deliveries db)"
  shows "completeSubscriptionDelivery old outcome t2 t3 db = (False, db) \<and>
    renewSubscriptionDeliveryLease old t2 t3 db = (False, db) \<and>
    failSubscriptionDelivery old message m delay t2 t3 db \<in>
      {Inl (NotPositiveInteger ''maxAttempts''), Inl (NotPositiveFinite ''retryDelaySeconds''), Inr (LostLease, db)}"
proof -
  have none: "\<forall>d \<in> set (s_deliveries db). \<not> holds_claim old t3 d"
    using assms by (auto simp: without_token_def holds_claim_def delivery_key_def of_version_def)
  then have upd: "update_deliveries (holds_claim old t3) f db = ([], db)" for f
    by (simp add: update_deliveries_def update_where_none)
  have locked: "\<exists>r. withLockedCheckpoint fn t2 (update_deliveries (holds_claim old t3) f) db = (r, db) \<and> r \<in> {None, Some []}" for fn f
    by (simp add: withLockedCheckpoint_def upd)
  show ?thesis
    using locked [of "claim_fence old" "completed_row outcome t3"]
      locked [of "claim_fence old" "\<lambda>d. d\<lparr>dl_claim_lease_until := Some (t3 + lease_ttl)\<rparr>"]
      locked [of "claim_fence old" "failed_row (js_int m) (seconds (case delay of None \<Rightarrow> Some 1 | Some d \<Rightarrow> d)) message t3"]
    by (auto simp: completeSubscriptionDelivery_def renewSubscriptionDeliveryLease_def failSubscriptionDelivery_def
        bind_result_def Let_def assertPositiveInteger_def assertPositiveFinite_def split: option.splits sum.splits if_splits)
qed

end
