(* ===== verification/SubscriptionQueue.thy ===== *)
theory SubscriptionQueue
  imports SubscriptionRuns
begin

text \<open>
  The abstract view of a subscriber version: a first-in first-out queue of the events it has still to
  handle. Every transaction of the bus is a step of the queue, whoever takes it.
\<close>

definition open_deliveries :: "string \<Rightarrow> int \<Rightarrow> Delivery list \<Rightarrow> Delivery list" where
  "open_deliveries i v ds =
     sort_key dl_delivery_seq (filter (\<lambda>d. of_version i v d \<and> \<not> terminal_status (dl_status d)) ds)"

definition outstanding :: "string \<Rightarrow> int \<Rightarrow> sub_db \<Rightarrow> string list" where
  "outstanding i v db = map dl_source_event_id (open_deliveries i v (s_deliveries db))"

text \<open>The queue: discovery appends, a claim or a retry leaves it as it is, only the head settles, a
  redrive puts a dead letter back in front, a bootstrap starts the queue of a new version and empties
  those of the older ones.\<close>

inductive queue_step :: "sub_action \<Rightarrow> string \<Rightarrow> int \<Rightarrow> string list \<Rightarrow> string list \<Rightarrow> bool" where
  idle: "queue_step a i v q q"
| enqueue: "queue_step (DiscoverBatch sub lease t0 t1) (sub_id sub) (sub_version sub) q (q @ es)"
| settle: "dc_subscriber_id claim = i \<Longrightarrow> dc_subscriber_version claim = v \<Longrightarrow> dc_source_event_id claim = e \<Longrightarrow>
    queue_step (Complete claim outcome t0 t1) i v (e # q) q"
| give_up: "dc_subscriber_id claim = i \<Longrightarrow> dc_subscriber_version claim = v \<Longrightarrow> dc_source_event_id claim = e \<Longrightarrow>
    queue_step (Fail claim message m delay t0 t1) i v (e # q) q"
| redrive: "queue_step (Redrive i v e t) i v q (e # q)"
| initial: "queue_step (Bootstrap sub t1 t2) (sub_id sub) (sub_version sub) [] es"
| supersede: "v < sub_version sub \<Longrightarrow> queue_step (Bootstrap sub t1 t2) (sub_id sub) v q []"

lemma open_deliveries_set:
  "d \<in> set (open_deliveries i v ds) \<longleftrightarrow> d \<in> set ds \<and> of_version i v d \<and> \<not> terminal_status (dl_status d)"
  by (auto simp: open_deliveries_def)

lemma open_deliveries_distinct:
  assumes "dls.wf ds"
  shows "distinct (map dl_delivery_seq (open_deliveries i v ds))"
proof -
  have "distinct ds" "inj_on local_seq (set ds)" using assms by (auto simp: dls.wf_def distinct_map)
  then have "inj_on dl_delivery_seq (set (open_deliveries i v ds))" "distinct (open_deliveries i v ds)"
    by (auto simp: inj_on_def open_deliveries_set local_seq_def of_version_def) (simp add: open_deliveries_def)
  then show ?thesis by (simp add: distinct_map)
qed

lemma open_deliveries_sorted: "sorted (map dl_delivery_seq (open_deliveries i v ds))"
  by (simp add: open_deliveries_def)

lemma open_deliveries_eqI:
  assumes "dls.wf ds" "sorted (map dl_delivery_seq xs)" "distinct (map dl_delivery_seq xs)"
    "\<And>d. d \<in> set xs \<longleftrightarrow> d \<in> set ds \<and> of_version i v d \<and> \<not> terminal_status (dl_status d)"
  shows "open_deliveries i v ds = xs"
  by (rule sorted_distinct_eq [where k = dl_delivery_seq])
     (use assms open_deliveries_distinct open_deliveries_sorted in \<open>auto simp: open_deliveries_set\<close>)

lemma dls_update:
  assumes "dls.wf ds" "\<And>d. same_identity d (f d)"
  shows "dls.wf (update_where p f ds)"
  using assms by (intro dls.wf_update) (simp_all add: same_identity_keys)

text \<open>Updates that settle nothing keep the queue.\<close>

lemma open_deliveries_update:
  assumes wf: "dls.wf ds" and same: "\<And>d. same_identity d (f d)"
    and stays: "\<And>d. d \<in> set ds \<Longrightarrow> p d \<Longrightarrow> terminal_status (dl_status (f d)) = terminal_status (dl_status d)"
  shows "map dl_source_event_id (open_deliveries i v (update_where p f ds)) =
         map dl_source_event_id (open_deliveries i v ds)"
proof -
  define g where "g d = (if p d then f d else d)" for d
  have upd: "set (update_where p f ds) = g ` set ds" by (simp add: set_update_where g_def)
  have same': "dl_delivery_seq (g d) = dl_delivery_seq d" "dl_source_event_id (g d) = dl_source_event_id d"
    "of_version i v (g d) = of_version i v d" for d
    using same [of d] by (auto simp: g_def same_identity_def of_version_def)
  have stays': "terminal_status (dl_status (g d)) = terminal_status (dl_status d)" if "d \<in> set ds" for d
    using stays that by (simp add: g_def)
  have "open_deliveries i v (update_where p f ds) = map g (open_deliveries i v ds)"
  proof (rule open_deliveries_eqI)
    show "dls.wf (update_where p f ds)" using wf same by (rule dls_update)
    show "sorted (map dl_delivery_seq (map g (open_deliveries i v ds)))"
      "distinct (map dl_delivery_seq (map g (open_deliveries i v ds)))"
      using open_deliveries_sorted open_deliveries_distinct [OF wf] by (simp_all add: comp_def same')
    show "d \<in> set (map g (open_deliveries i v ds)) \<longleftrightarrow>
      d \<in> set (update_where p f ds) \<and> of_version i v d \<and> \<not> terminal_status (dl_status d)" for d
      unfolding upd set_map image_iff by (auto simp: open_deliveries_set same' stays')
  qed
  then show ?thesis by (simp add: comp_def same')
qed

lemma open_deliveries_frame:
  assumes "\<And>d. d \<in> set ds \<Longrightarrow> p d \<Longrightarrow> \<not> of_version i v d" "\<And>d. same_identity d (f d)"
  shows "open_deliveries i v (update_where p f ds) = open_deliveries i v ds"
proof -
  have "filter (\<lambda>d. of_version i v d \<and> \<not> terminal_status (dl_status d)) (update_where p f ds) =
      filter (\<lambda>d. of_version i v d \<and> \<not> terminal_status (dl_status d)) ds"
    using assms(1) same_identity_keys(5) [OF assms(2)] by (induction ds) auto
  then show ?thesis by (simp add: open_deliveries_def)
qed

lemma claimed_is_head:
  assumes ok: "deliveries_ok es ds" and d: "d \<in> set ds" "of_version i v d" "dl_status d = Claimed"
  obtains rest where "open_deliveries i v ds = d # rest"
proof -
  have "d \<in> set (open_deliveries i v ds)" using d by (simp add: open_deliveries_set status_simps)
  then obtain h rest where h: "open_deliveries i v ds = h # rest" by (cases "open_deliveries i v ds") auto
  then have hd: "h \<in> set ds" "of_version i v h" "\<not> terminal_status (dl_status h)"
    using open_deliveries_set [of h i v ds] by auto
  have "d = h"
  proof (rule ccontr)
    assume "d \<noteq> h"
    with \<open>d \<in> set (open_deliveries i v ds)\<close> h have "d \<in> set rest" by simp
    moreover have "sorted (map dl_delivery_seq (h # rest))" "distinct (map dl_delivery_seq (h # rest))"
      using open_deliveries_sorted open_deliveries_distinct [of ds i v] ok h by (metis, simp add: deliveries_ok_def)
    ultimately have "dl_delivery_seq h < dl_delivery_seq d" by (fastforce simp: less_le)
    then have "untouched (dl_status d)"
      using ok hd d by (intro in_orderD [of ds h d]) (auto simp: deliveries_ok_def of_version_def)
    with d(3) show False by (simp add: status_simps)
  qed
  with h that show ?thesis by blast
qed

lemma holds_claim_unique:
  assumes "dlk.wf ds" "d \<in> set ds" "d' \<in> set ds" "holds_claim claim t d" "holds_claim claim t d'"
  shows "d' = d"
  using assms(4,5) by (intro dlk.wf_same_row [OF assms(1,3,2)]) (simp add: holds_claim_def delivery_key_def of_version_def)

text \<open>Recording the result of a claim settles the head or leaves the queue as it is.\<close>

lemma open_deliveries_settle:
  assumes ok: "deliveries_ok es ds" and same: "\<And>d. same_identity d (f d)"
  shows "map dl_source_event_id (open_deliveries i v (update_where (holds_claim claim t) f ds)) =
           map dl_source_event_id (open_deliveries i v ds) \<or>
         (dc_subscriber_id claim = i \<and> dc_subscriber_version claim = v \<and>
          map dl_source_event_id (open_deliveries i v ds) = dc_source_event_id claim #
            map dl_source_event_id (open_deliveries i v (update_where (holds_claim claim t) f ds)))"
proof (cases "\<exists>d \<in> set ds. holds_claim claim t d \<and> of_version i v d \<and> terminal_status (dl_status (f d))")
  case True
  have wf: "dlk.wf ds" "dls.wf ds" using ok by (simp_all add: deliveries_ok_def)
  from True obtain d where d: "d \<in> set ds" "holds_claim claim t d" "of_version i v d" "terminal_status (dl_status (f d))"
    by blast
  then obtain rest where rest: "open_deliveries i v ds = d # rest"
    using claimed_is_head [OF ok d(1,3) holds_claim_status] by blast
  have only: "d' = d" if "d' \<in> set ds" "holds_claim claim t d'" for d'
    using holds_claim_unique [OF wf(1) d(1) that(1) d(2)] that(2) by blast
  have "sorted (map dl_delivery_seq (d # rest))" "distinct (map dl_delivery_seq (d # rest))"
    using open_deliveries_sorted [of i v ds] open_deliveries_distinct [OF wf(2), of i v] unfolding rest by auto
  then have srt: "sorted (map dl_delivery_seq rest)" "distinct (map dl_delivery_seq rest)" "d \<notin> set rest" by auto
  have "open_deliveries i v (update_where (holds_claim claim t) f ds) = rest"
  proof (rule open_deliveries_eqI)
    show "dls.wf (update_where (holds_claim claim t) f ds)" using wf(2) same by (rule dls_update)
    fix x
    have "x \<in> set rest \<longleftrightarrow> x \<noteq> d \<and> x \<in> set ds \<and> of_version i v x \<and> \<not> terminal_status (dl_status x)"
      using open_deliveries_set [of x i v ds] srt(3) unfolding rest by auto
    moreover have "x \<in> set (update_where (holds_claim claim t) f ds) \<longleftrightarrow> x = f d \<or> (x \<in> set ds \<and> x \<noteq> d)"
      by (rule set_update_single) (use d only in blast)+
    ultimately show "x \<in> set rest \<longleftrightarrow> x \<in> set (update_where (holds_claim claim t) f ds) \<and> of_version i v x \<and>
        \<not> terminal_status (dl_status x)"
      using d(4) by auto
  qed (rule srt)+
  then show ?thesis using rest d(2,3) by (auto simp: holds_claim_def of_version_def)
next
  case False
  let ?p = "\<lambda>d. holds_claim claim t d"
  have wf: "dls.wf ds" using ok by (simp add: deliveries_ok_def)
  show ?thesis
  proof (cases "dc_subscriber_id claim = i \<and> dc_subscriber_version claim = v")
    case True
    then have "terminal_status (dl_status (f d)) = terminal_status (dl_status d)" if "d \<in> set ds" "?p d" for d
      using that False by (auto simp: holds_claim_def status_simps)
    from open_deliveries_update [OF wf same this] show ?thesis by blast
  next
    case other: False
    then have "open_deliveries i v (update_where ?p f ds) = open_deliveries i v ds"
      using same by (intro open_deliveries_frame) (auto simp: holds_claim_def of_version_def)
    then show ?thesis by simp
  qed
qed

lemma open_deliveries_redrive:
  assumes ok: "deliveries_ok es ds" and d: "d \<in> set ds" "redrivable i v e ds d"
  shows "open_deliveries i v (update_where (redrivable i v e ds) (redriven_row t) ds) =
    redriven_row t d # open_deliveries i v ds"
proof (rule open_deliveries_eqI)
  have wf: "dlk.wf ds" "dls.wf ds" using ok by (simp_all add: deliveries_ok_def)
  have dead: "dl_status d = DeadLetter" "of_version i v d" using d(2) by (simp_all add: redrivable_def)
  have only: "d' = d" if "d' \<in> set ds" "redrivable i v e ds d'" for d'
    using that d by (intro dlk.wf_same_row [OF wf(1) that(1) d(1)]) (simp add: redrivable_def delivery_key_def of_version_def)
  have same: "same_identity d' (redriven_row t d')" for d' by (simp add: same_identity_def redriven_row_def)
  show "dls.wf (update_where (redrivable i v e ds) (redriven_row t) ds)" using wf(2) same by (rule dls_update)
  have "dl_delivery_seq d < dl_delivery_seq x" if "x \<in> set (open_deliveries i v ds)" for x
  proof (rule ccontr)
    assume not: "\<not> dl_delivery_seq d < dl_delivery_seq x"
    have x: "x \<in> set ds" "of_version i v x" "\<not> terminal_status (dl_status x)" using that by (simp_all add: open_deliveries_set)
    then have "x \<noteq> d" using dead by (auto simp: status_simps)
    then have "local_seq x \<noteq> local_seq d" using dls.wf_same_row [OF wf(2) x(1) d(1)] by blast
    then have "dl_delivery_seq x < dl_delivery_seq d"
      using not x(2) dead(2) by (auto simp: local_seq_def of_version_def)
    then have "untouched (dl_status d)"
      using ok x d dead(2) by (intro in_orderD [of ds x d]) (auto simp: deliveries_ok_def of_version_def)
    with dead(1) show False by (simp add: status_simps)
  qed
  then show "sorted (map dl_delivery_seq (redriven_row t d # open_deliveries i v ds))"
    "distinct (map dl_delivery_seq (redriven_row t d # open_deliveries i v ds))"
    using open_deliveries_sorted open_deliveries_distinct [OF wf(2)] same [of d]
    by (fastforce simp: same_identity_def)+
  fix x
  have "x \<in> set (update_where (redrivable i v e ds) (redriven_row t) ds) \<longleftrightarrow> x = redriven_row t d \<or> (x \<in> set ds \<and> \<not> redrivable i v e ds x)"
    using set_update_single [of d ds "redrivable i v e ds"] d only by blast
  moreover have "of_version i v (redriven_row t d)" "\<not> terminal_status (dl_status (redriven_row t d))"
    using dead(2) by (simp_all add: redriven_row_def of_version_def status_simps)
  ultimately show "x \<in> set (redriven_row t d # open_deliveries i v ds) \<longleftrightarrow>
      x \<in> set (update_where (redrivable i v e ds) (redriven_row t) ds) \<and> of_version i v x \<and> \<not> terminal_status (dl_status x)"
    using dead by (auto simp: open_deliveries_set redrivable_def status_simps)
qed

lemma open_deliveries_other:
  assumes "\<forall>r \<in> set ins. \<not> of_version i v r"
  shows "open_deliveries i v (ds @ ins) = open_deliveries i v ds"
proof -
  have "filter (\<lambda>d. of_version i v d \<and> \<not> terminal_status (dl_status d)) ins = []"
    using assms by (auto simp: filter_empty_conv)
  then show ?thesis by (simp add: open_deliveries_def)
qed

lemma open_deliveries_append:
  assumes "dls.wf (ds @ ins)"
    and last: "\<And>d r. d \<in> set ds \<Longrightarrow> r \<in> set ins \<Longrightarrow> of_version i v d \<Longrightarrow> of_version i v r \<Longrightarrow> dl_delivery_seq d < dl_delivery_seq r"
  shows "open_deliveries i v (ds @ ins) = open_deliveries i v ds @ open_deliveries i v ins"
proof (rule open_deliveries_eqI [OF assms(1)])
  have wf: "dls.wf ds" "dls.wf ins" using assms(1) by (simp_all add: dls.wf_def)
  have lt: "dl_delivery_seq d < dl_delivery_seq r"
    if "d \<in> set (open_deliveries i v ds)" "r \<in> set (open_deliveries i v ins)" for d r
    using that last by (simp add: open_deliveries_set)
  show "sorted (map dl_delivery_seq (open_deliveries i v ds @ open_deliveries i v ins))"
    using open_deliveries_sorted lt by (fastforce simp: sorted_append)
  show "distinct (map dl_delivery_seq (open_deliveries i v ds @ open_deliveries i v ins))"
    using open_deliveries_distinct [OF wf(1)] open_deliveries_distinct [OF wf(2)] lt by fastforce
qed (auto simp: open_deliveries_set)

lemma open_deliveries_supersede:
  "open_deliveries i' v' (update_where (older_outstanding i v) (superseded_row i v ds'' t) ds) =
     (if i' = i \<and> v' < v then [] else open_deliveries i' v' ds)"
proof -
  have "filter (\<lambda>d. of_version i' v' d \<and> \<not> terminal_status (dl_status d))
      (update_where (older_outstanding i v) (superseded_row i v ds'' t) ds) =
    (if i' = i \<and> v' < v then [] else filter (\<lambda>d. of_version i' v' d \<and> \<not> terminal_status (dl_status d)) ds)"
    by (induction ds) (auto simp: older_outstanding_def superseded_row_def of_version_def status_simps)
  then show ?thesis by (simp add: open_deliveries_def)
qed

lemma unregistered_version:
  assumes inv: "sub_inv db" and new: "(i, v) \<notin> checkpoint_key ` set (s_checkpoints db)" and d: "d \<in> set (s_deliveries db)"
  shows "\<not> of_version i v d"
proof
  assume iv: "of_version i v d"
  from inv d obtain c where "c \<in> set (s_checkpoints db)" "checkpoint_key c = (dl_subscriber_id d, dl_subscriber_version d)"
    by (auto simp: sub_inv_def numbered_by_def)
  with iv have "(i, v) \<in> checkpoint_key ` set (s_checkpoints db)" by (metis image_eqI of_version_def)
  with new show False by simp
qed

lemma discovered_version:
  assumes "insert_deliveries t (discovered_rows sub base db) = Inr (t', ins)" "r \<in> set ins"
  shows "of_version i v r \<longleftrightarrow> i = sub_id sub \<and> v = sub_version sub"
proof -
  have "r \<in> set (discovered_rows sub base db)" using assms insert_deliveries_table by blast
  then show ?thesis by (rule discovered_rowsD) (auto simp: of_version_def)
qed

lemma queue_refinement:
  assumes inv: "sub_inv db"
  shows "queue_step a i v (outstanding i v db) (outstanding i v (perform reg a db))"
proof -
  let ?ds = "s_deliveries db"
  have ok: "deliveries_ok (s_events db) ?ds" and wf: "dlk.wf ?ds" "dls.wf ?ds"
    using inv by (simp_all add: sub_inv_def deliveries_ok_def)
  show ?thesis using perform_effect [of a db reg]
  proof (cases rule: delivery_effect.cases)
    case unchanged
    then show ?thesis by (simp add: outstanding_def idle)
  next
    case (discovered c sub ins sub' lease t0 t1)
    note tab = insert_deliveries_table [OF discovered(4)]
    show ?thesis
    proof (cases "i = sub_id sub \<and> v = sub_version sub")
      case True
      have "dls.wf (?ds @ ins)"
        using insert_deliveries_distinct(2) [OF discovered(4)] wf(2) tab by (simp add: dls.wf_def)
      then have "open_deliveries i v (?ds @ ins) = open_deliveries i v ?ds @ open_deliveries i v ins"
        using discovered_rows_ok(5) [OF inv discovered(2,3)] tab True by (intro open_deliveries_append) blast+
      then show ?thesis using True discovered enqueue [of sub' lease t0 t1] tab by (simp add: outstanding_def)
    next
      case False
      then have "open_deliveries i v (?ds @ ins) = open_deliveries i v ?ds"
        using discovered_version [OF discovered(4)] by (intro open_deliveries_other) auto
      then show ?thesis using tab by (simp add: outstanding_def idle)
    qed
  next
    case (claimed sub lease token t0 t1)
    have "map dl_source_event_id (open_deliveries i v (s_deliveries (perform reg a db))) =
        map dl_source_event_id (open_deliveries i v ?ds)"
      unfolding claimed(2)
      by (rule open_deliveries_update [OF wf(2) claimed_row_same])
         (auto simp: head_claim_def claimable_def claimed_row_def status_simps)
    then show ?thesis by (simp add: outstanding_def idle)
  next
    case (renewed claim t0 t1)
    have "map dl_source_event_id (open_deliveries i v (s_deliveries (perform reg a db))) =
        map dl_source_event_id (open_deliveries i v ?ds)"
      unfolding renewed(2)
      by (rule open_deliveries_update [OF wf(2)]) (simp_all add: same_identity_def)
    then show ?thesis by (simp add: outstanding_def idle)
  next
    case (completed claim outcome t0 t1)
    show ?thesis
      using open_deliveries_settle [where f = "completed_row outcome t1", OF ok completed_row_same, of i v claim t1]
      unfolding outstanding_def completed(2) by (auto simp: completed(1) intro: idle settle)
  next
    case (failed m claim message delay t0 t1 wait)
    show ?thesis
      using open_deliveries_settle [where f = "failed_row (js_int m) wait message t1", OF ok failed_row_same, of i v claim t1]
      unfolding outstanding_def failed(2) by (auto simp: failed(1) intro: idle give_up)
  next
    case (redriven i' v' e t)
    show ?thesis
    proof (cases "\<exists>d \<in> set ?ds. redrivable i' v' e ?ds d")
      case True
      then obtain d where d: "d \<in> set ?ds" "redrivable i' v' e ?ds d" by blast
      show ?thesis
      proof (cases "i' = i \<and> v' = v")
        case True
        then show ?thesis using open_deliveries_redrive [OF ok d] d redriven redrive [of i v e t]
          by (simp add: outstanding_def redriven_row_def redrivable_def)
      next
        case False
        have "open_deliveries i v (s_deliveries (perform reg a db)) = open_deliveries i v ?ds"
          unfolding redriven(2)
          by (rule open_deliveries_frame)
             (use False in \<open>auto simp: redrivable_def redriven_row_def of_version_def same_identity_def\<close>)
        then show ?thesis by (simp add: outstanding_def idle)
      qed
    next
      case False
      then show ?thesis using redriven by (simp add: outstanding_def update_where_none idle)
    qed
  next
    case (bootstrapped sub sub' ds ins t1 ds' ins' t2)
    note tab = insert_deliveries_table [OF bootstrapped(6)] insert_deliveries_table [OF bootstrapped(7)]
    have old: "\<forall>d \<in> set ?ds. \<not> of_version (sub_id sub) (sub_version sub) d"
      using unregistered_version [OF inv bootstrapped(3)] by blast
    have new: "of_version i v r \<longleftrightarrow> i = sub_id sub \<and> v = sub_version sub" if "r \<in> set (ins @ ins')" for r
      using that tab bootstrapped(4,5)
      by (auto elim!: translated_rowsD history_rowsD simp: of_version_def translated_row_def dest!: subsetD)
    show ?thesis
    proof (cases "i = sub_id sub \<and> v = sub_version sub")
      case True
      then have "open_deliveries i v ?ds = []" using old by (simp add: open_deliveries_def filter_empty_conv)
      then show ?thesis using True initial [of sub t1 t2] bootstrapped(1) by (simp add: outstanding_def)
    next
      case False
      then have "open_deliveries i v ds' = open_deliveries i v ?ds"
        using tab new open_deliveries_other [of "ins @ ins'" i v ?ds] by auto
      then show ?thesis
        unfolding outstanding_def bootstrapped(2) open_deliveries_supersede
        using bootstrapped(1) by (auto intro: idle supersede)
    qed
  qed
qed

lemma queue_after_run:
  "queue_step a i v (outstanding i v (run_actions as empty_sub_db))
     (outstanding i v (perform reg a (run_actions as empty_sub_db)))"
  by (rule queue_refinement) (rule reachable_inv)

end
