(* ===== verification/SubscriptionOutcomes.thy ===== *)
theory SubscriptionOutcomes
  imports SubscriptionQueue
begin

text \<open>
  What the operations of the bus achieve: the bound on attempts, the completeness of a discovery, the
  translation of a version bump, and the counts of a dispatch cycle.
\<close>

section \<open>Attempts\<close>

definition within_attempts :: "int \<Rightarrow> Delivery \<Rightarrow> bool" where
  "within_attempts m d \<longleftrightarrow>
     0 \<le> dl_redrive_count d \<and> dl_attempt_count d \<le> m + dl_redrive_count d \<and>
     (\<not> terminal_status (dl_status d) \<longrightarrow> dl_attempt_count d < m + dl_redrive_count d)"

fun fails_within :: "int \<Rightarrow> sub_action \<Rightarrow> bool" where
  "fails_within m (Fail _ _ maxAttempts _ _ _) \<longleftrightarrow> js_int maxAttempts \<le> m"
| "fails_within m _ \<longleftrightarrow> True"

lemma update_where_all:
  assumes "\<forall>d \<in> set ds. P d" "\<And>d. d \<in> set ds \<Longrightarrow> p d \<Longrightarrow> P d \<Longrightarrow> P (f d)"
  shows "\<forall>d \<in> set (update_where p f ds). P d"
  using assms by (auto simp: set_update_where)

lemma perform_attempts:
  assumes "\<forall>d \<in> set (s_deliveries db). within_attempts m d" "1 \<le> m" "fails_within m a"
  shows "\<forall>d \<in> set (s_deliveries (perform reg a db)). within_attempts m d"
  using perform_effect [of a db reg]
proof (cases rule: delivery_effect.cases)
  case unchanged
  then show ?thesis using assms(1) by simp
next
  case (discovered c sub ins)
  then show ?thesis using assms(1,2) insert_deliveries_table [OF discovered(4)]
    by (auto elim!: discovered_rowsD simp: within_attempts_def dest!: subsetD)
next
  case (claimed sub lease token t0 t1)
  show ?thesis unfolding claimed(2)
    by (rule update_where_all [OF assms(1)])
       (auto simp: within_attempts_def head_claim_def claimable_def claimed_row_def status_simps)
next
  case (renewed claim t0 t1)
  show ?thesis unfolding renewed(2)
    by (rule update_where_all [OF assms(1)]) (simp add: within_attempts_def)
next
  case (completed claim outcome t0 t1)
  show ?thesis unfolding completed(2)
    by (rule update_where_all [OF assms(1)])
       (cases outcome; simp add: within_attempts_def completed_row_def status_simps)
next
  case (failed mx claim message delay t0 t1 wait)
  then have "js_int mx \<le> m" using assms(3) by simp
  then show ?thesis unfolding failed(2)
    by (intro update_where_all [OF assms(1)])
       (auto simp: within_attempts_def failed_row_def Let_def holds_claim_def status_simps)
next
  case (redriven i v e t)
  show ?thesis unfolding redriven(2)
    by (rule update_where_all [OF assms(1)]) (auto simp: within_attempts_def redriven_row_def redrivable_def)
next
  case (bootstrapped sub sub' ds ins t1 ds' ins' t2)
  have "\<forall>d \<in> set ds'. within_attempts m d"
    using assms(1,2) insert_deliveries_table [OF bootstrapped(6)] insert_deliveries_table [OF bootstrapped(7)]
    by (auto elim!: translated_rowsD history_rowsD
        simp: within_attempts_def translated_row_def older_outstanding_def status_simps dest!: subsetD)
  then show ?thesis unfolding bootstrapped(2)
    by (rule update_where_all) (auto simp: within_attempts_def superseded_row_def status_simps)
qed

lemma run_actions_attempts:
  "\<forall>d \<in> set (s_deliveries db). within_attempts m d \<Longrightarrow> 1 \<le> m \<Longrightarrow> \<forall>(reg, a) \<in> set as. fails_within m a \<Longrightarrow>
     \<forall>d \<in> set (s_deliveries (run_actions as db)). within_attempts m d"
proof (induction as db rule: run_actions.induct)
  case (2 reg a as db)
  have "\<forall>d \<in> set (s_deliveries (perform reg a db)). within_attempts m d"
    by (rule perform_attempts) (use 2(2-4) in auto)
  then show ?case using 2 by simp
qed simp

section \<open>Discovery\<close>

lemma fence_matches_next [simp]: "fence_matches fn t (c\<lparr>cp_next_delivery_seq := n\<rparr>) = fence_matches fn t c"
  by (simp add: fence_matches_def)

lemma map_enumerate_fst: fixes xs :: "'a list" shows "map (\<lambda>(n, e). f n) (enumerate k xs) = map f [k..<k + length xs]"
proof -
  have "map (\<lambda>(n, e). f n) zs = map f (map fst zs)" for zs :: "(nat \<times> 'a) list" by (induction zs) auto
  from this [of "enumerate k xs"] show ?thesis by (simp only: map_fst_enumerate)
qed

lemma map_enumerate_snd: "map (\<lambda>(n, e). f e) (enumerate k xs) = map f xs"
  by (induction xs arbitrary: k) simp_all

lemma distinct_enumerate_fst: "inj f \<Longrightarrow> distinct (map (\<lambda>(n, e). f n) (enumerate k xs))"
  by (simp add: map_enumerate_fst distinct_map inj_on_def)

lemma distinct_enumerate_snd: "distinct (map f xs) \<Longrightarrow> distinct (map (\<lambda>(n, e). f e) (enumerate k xs))"
  by (simp add: map_enumerate_snd)

lemma discovered_rows_fresh:
  assumes inv: "sub_inv db" and c: "c \<in> set (s_checkpoints db)" "checkpoint_key c = (sub_id declared, sub_version declared)"
  defines "rows \<equiv> discovered_rows declared (cp_next_delivery_seq c) db"
  shows "insert_deliveries (s_deliveries db) rows = Inr (s_deliveries db @ rows, rows)"
proof (rule insert_deliveries_fresh)
  let ?todo = "take DISCOVERY_BATCH_SIZE (sort_key ev_dispatch_seq (undelivered declared db))"
  have "distinct (map ev_id (s_events db))" using inv by (simp add: sub_inv_def events_ok_def evk.wf_def)
  then have "distinct (map ev_id (undelivered declared db))" unfolding undelivered_def by (rule distinct_map_filter)
  then have "distinct (map ev_id (sort_key ev_dispatch_seq (undelivered declared db)))" by (simp add: distinct_map)
  then have "distinct (map ev_id ?todo)" by (simp add: take_map [symmetric] distinct_take)
  then have "distinct (map (\<lambda>e. (sub_id declared, sub_version declared, ev_id e)) ?todo)"
    by (auto simp: distinct_map inj_on_def)
  from distinct_enumerate_snd [OF this, of 1]
  show "distinct (map delivery_key rows)" by (simp add: rows_def discovered_rows_def comp_def case_prod_beta')
  have "inj (\<lambda>n. (sub_id declared, sub_version declared, cp_next_delivery_seq c - 1 + int n))" by (simp add: inj_on_def)
  from distinct_enumerate_fst [OF this, of 1 ?todo]
  show "distinct (map local_seq rows)" by (simp add: rows_def discovered_rows_def comp_def case_prod_beta')
  show "delivery_key ` set rows \<inter> delivery_key ` set (s_deliveries db) = {}"
    unfolding rows_def by (auto elim!: discovered_rowsD simp: undelivered_iff) (metis image_eqI)
  show "local_seq ` set rows \<inter> local_seq ` set (s_deliveries db) = {}"
    unfolding rows_def using discovered_rows_ok(4,5) [OF inv c]
    by (fastforce simp: local_seq_def of_version_def)
qed

lemma discover_batch_live:
  assumes inv: "sub_inv db" and c: "c \<in> set (s_checkpoints db)"
    and live: "fence_matches (lease_fence declared lease) t0 c" "fence_matches (lease_fence declared lease) t1 c"
  defines "rows \<equiv> discovered_rows declared (cp_next_delivery_seq c) db"
  obtains db' where "discover_batch declared lease t0 t1 db = Inr (length rows, db')"
    "s_deliveries db' = s_deliveries db @ rows" "s_events db' = s_events db"
    "\<exists>n. c\<lparr>cp_next_delivery_seq := n\<rparr> \<in> set (s_checkpoints db')"
    "rows = [] \<longleftrightarrow> undelivered declared db = []"
proof -
  let ?fn = "lease_fence declared lease"
  have cps: "checkpoints_ok (s_checkpoints db)" using inv by (simp add: sub_inv_def)
  have key: "checkpoint_key c = (sub_id declared, sub_version declared)"
    using live(1) by (simp add: fence_matches_def lease_fence_def checkpoint_key_def)
  note ins = discovered_rows_fresh [OF inv c key, folded rows_def]
  note one = fence_unique [OF cps c live(1)] fence_unique [OF cps c live(2)]
  have "length rows = min DISCOVERY_BATCH_SIZE (length (undelivered declared db))"
    by (simp add: rows_def discovered_rows_def min.commute)
  then have "length rows = 0 \<longleftrightarrow> length (undelivered declared db) = 0"
    by (cases "undelivered declared db") (simp_all add: DISCOVERY_BATCH_SIZE_def)
  then have empty: "rows = [] \<longleftrightarrow> undelivered declared db = []" by (simp only: length_0_conv)
  show ?thesis
  proof (cases "rows = []")
    case True
    then show ?thesis using ins one c empty
      by (intro that [of db]) (auto simp: discover_batch_def Let_def rows_def [symmetric] intro!: exI [of _ "cp_next_delivery_seq c"])
  next
    case False
    let ?f = "\<lambda>x. x\<lparr>cp_next_delivery_seq := max_delivery_seq (sub_id declared) (sub_version declared) (s_deliveries db @ rows) + 1\<rparr>"
    let ?db = "db\<lparr>s_deliveries := s_deliveries db @ rows, s_checkpoints := update_where (fence_matches ?fn t1) ?f (s_checkpoints db)\<rparr>"
    have "discover_batch declared lease t0 t1 db = Inr (length rows, ?db)"
      using ins one False by (simp add: discover_batch_def Let_def update_checkpoints_def rows_def [symmetric])
    moreover have "?f c \<in> set (s_checkpoints ?db)" using c live(2) by (auto simp: set_update_where)
    ultimately show ?thesis using empty by (intro that [of ?db]) auto
  qed
qed

lemma discover_loop_complete:
  assumes "sub_inv db" "c \<in> set (s_checkpoints db)" "\<And>j. fence_matches (lease_fence declared lease) (clock j) c"
  shows "\<exists>xs db'. discover_loop declared lease clock k acc db = (Inr (acc + length xs), db') \<and>
     s_deliveries db' = s_deliveries db @ xs \<and> s_events db' = s_events db \<and> undelivered declared db' = [] \<and>
     (\<exists>n. c\<lparr>cp_next_delivery_seq := n\<rparr> \<in> set (s_checkpoints db')) \<and>
     (\<forall>d \<in> set xs. dl_status d = Pending \<and> of_version (sub_id declared) (sub_version declared) d \<and>
        dl_source_event_id d \<in> ev_id ` set (undelivered declared db))"
  using assms
proof (induction declared lease clock k acc db arbitrary: c rule: discover_loop.induct)
  case (1 declared lease clock k acc db)
  let ?rows = "discovered_rows declared (cp_next_delivery_seq c) db"
  obtain db1 where batch: "discover_batch declared lease (clock k) (clock (k + 1)) db = Inr (length ?rows, db1)"
    and ds: "s_deliveries db1 = s_deliveries db @ ?rows" "s_events db1 = s_events db"
    and c1: "\<exists>n. c\<lparr>cp_next_delivery_seq := n\<rparr> \<in> set (s_checkpoints db1)"
    and empty: "?rows = [] \<longleftrightarrow> undelivered declared db = []"
    by (rule discover_batch_live [OF 1(2,3) 1(4) 1(4)])
  show ?case
  proof (cases "?rows = []")
    case True
    have "discover_loop declared lease clock k acc db = (Inr acc, db1)"
      using batch True by (simp add: discover_loop.simps [of declared lease clock k])
    moreover have "undelivered declared db1 = []" using empty True ds by (simp add: undelivered_def)
    ultimately show ?thesis using ds True c1 by (intro exI [of _ "[]"]) auto
  next
    case False
    obtain n where n: "c\<lparr>cp_next_delivery_seq := n\<rparr> \<in> set (s_checkpoints db1)" using c1 by blast
    have inv1: "sub_inv db1" by (rule discover_batch_inv [OF 1(2) batch])
    have step: "discover_loop declared lease clock k acc db = discover_loop declared lease clock (k + 2) (acc + length ?rows) db1"
      using batch False by (simp add: discover_loop.simps [of declared lease clock k])
    from 1(1) [OF batch refl _ inv1 n] 1(4) False obtain xs db' where
      IH: "discover_loop declared lease clock (k + 2) (acc + length ?rows) db1 = (Inr (acc + length ?rows + length xs), db')"
      "s_deliveries db' = s_deliveries db1 @ xs" "s_events db' = s_events db1" "undelivered declared db' = []"
      "\<exists>n. c\<lparr>cp_next_delivery_seq := n\<rparr> \<in> set (s_checkpoints db')"
      "\<forall>d \<in> set xs. dl_status d = Pending \<and> of_version (sub_id declared) (sub_version declared) d \<and>
        dl_source_event_id d \<in> ev_id ` set (undelivered declared db1)"
      by auto
    have key: "checkpoint_key c = (sub_id declared, sub_version declared)"
      using 1(4) [of 0] by (simp add: fence_matches_def lease_fence_def checkpoint_key_def)
    have "dl_status d = Pending \<and> of_version (sub_id declared) (sub_version declared) d \<and>
        dl_source_event_id d \<in> ev_id ` set (undelivered declared db)" if "d \<in> set ?rows" for d
      using discovered_rows_ok(3,4) [OF 1(2,3) key that] that by (auto elim!: discovered_rowsD)
    moreover have "set (undelivered declared db1) \<subseteq> set (undelivered declared db)"
      using ds by (auto simp: undelivered_iff)
    then have "ev_id ` set (undelivered declared db1) \<subseteq> ev_id ` set (undelivered declared db)" by (rule image_mono)
    ultimately have "\<forall>d \<in> set (?rows @ xs). dl_status d = Pending \<and> of_version (sub_id declared) (sub_version declared) d \<and>
        dl_source_event_id d \<in> ev_id ` set (undelivered declared db)" using IH(6) by auto
    then show ?thesis using IH(1-5) ds step
      by (intro exI [of _ "?rows @ xs"] exI [of _ db']) (simp add: add.assoc)
  qed
qed

end
