(* ===== verification/SubscriptionVersions.thy ===== *)
theory SubscriptionVersions
  imports SubscriptionOutcomes
begin

text \<open>
  The bootstrap of a version: when it succeeds, what becomes of every event of the log, and the counts
  of a dispatch cycle.
\<close>

section \<open>When a bootstrap succeeds\<close>

lemma insert_deliveries_ok:
  assumes "distinct (map local_seq rows)" "local_seq ` set rows \<inter> local_seq ` set t = {}"
  shows "\<exists>ins. insert_deliveries t rows = Inr (t @ ins, ins)"
  using assms
proof (induction rows arbitrary: t)
  case (Cons r rs)
  show ?case
  proof (cases "delivery_key r \<in> delivery_key ` set t")
    case True
    then show ?thesis using Cons by (simp add: list_ex_key)
  next
    case False
    have "\<exists>ins. insert_deliveries (t @ [r]) rs = Inr ((t @ [r]) @ ins, ins)"
      by (rule Cons.IH) (use Cons.prems in auto)
    then show ?thesis using False Cons.prems(2) by (auto simp: list_ex_key)
  qed
qed simp

lemma history_rows_seqs:
  "map local_seq (history_rows sub m now db) =
     map (\<lambda>n. (sub_id sub, sub_version sub, int m + int n)) [1..<1 + length (history_rows sub m now db)]"
proof -
  let ?es = "sort_key ev_dispatch_seq (filter (\<lambda>e. ev_action e \<in> set (sub_actions sub)) (s_events db))"
  have "map local_seq (history_rows sub m now db) =
      map (\<lambda>(n, e). (sub_id sub, sub_version sub, int m + int n)) (enumerate 1 ?es)"
    by (simp add: history_rows_def comp_def case_prod_beta')
  also have "\<dots> = map (\<lambda>n. (sub_id sub, sub_version sub, int m + int n)) [1..<1 + length ?es]"
    by (rule map_enumerate_fst)
  finally show ?thesis by (simp add: history_rows_def)
qed

lemma translated_row_simps [simp]:
  "delivery_key (translated_row i v x) = (i, v, dl_source_event_id (snd x))"
  "local_seq (translated_row i v x) = (i, v, int (fst x))"
  by (cases x; simp add: translated_row_def delivery_key_def local_seq_def)+

lemma translated_rows_seqs:
  "map local_seq (translated_rows sub db) =
     map (\<lambda>n. (sub_id sub, sub_version sub, int n)) [1..<1 + length (translated_rows sub db)]"
proof -
  let ?ods = "sort_key dl_source_dispatch_seq (filter (\<lambda>od. older_outstanding (sub_id sub) (sub_version sub) od \<and>
      subscribed_event sub (s_events db) (dl_source_event_id od)) (s_deliveries db))"
  have "map local_seq (translated_rows sub db) =
      map (\<lambda>(n, od). (sub_id sub, sub_version sub, int n)) (enumerate 1 ?ods)"
    by (simp add: translated_rows_def comp_def case_prod_beta')
  also have "\<dots> = map (\<lambda>n. (sub_id sub, sub_version sub, int n)) [1..<1 + length ?ods]"
    by (rule map_enumerate_fst)
  finally show ?thesis by (simp add: translated_rows_def)
qed

text \<open>No event is outstanding in two older versions.\<close>

definition outstanding_once :: "string \<Rightarrow> int \<Rightarrow> Delivery list \<Rightarrow> bool" where
  "outstanding_once i v ds \<longleftrightarrow> distinct (map dl_source_event_id (filter (older_outstanding i v) ds))"

lemma translated_rows_keys:
  assumes "outstanding_once (sub_id sub) (sub_version sub) (s_deliveries db)"
  shows "distinct (map delivery_key (translated_rows sub db))"
proof -
  let ?ods = "filter (\<lambda>od. older_outstanding (sub_id sub) (sub_version sub) od \<and>
      subscribed_event sub (s_events db) (dl_source_event_id od)) (s_deliveries db)"
  have "?ods = filter (\<lambda>od. subscribed_event sub (s_events db) (dl_source_event_id od))
      (filter (older_outstanding (sub_id sub) (sub_version sub)) (s_deliveries db))"
    by (simp add: conj_commute)
  then have "distinct (map dl_source_event_id ?ods)"
    using distinct_map_filter assms unfolding outstanding_once_def by metis
  then have "distinct (map dl_source_event_id (sort_key dl_source_dispatch_seq ?ods))" by (simp add: distinct_map)
  then have "distinct (map (\<lambda>od. (sub_id sub, sub_version sub, dl_source_event_id od)) (sort_key dl_source_dispatch_seq ?ods))"
    by (auto simp: distinct_map inj_on_def)
  from distinct_enumerate_snd [OF this, of 1]
  show ?thesis by (simp add: translated_rows_def comp_def case_prod_beta')
qed

lemma bootstrap_inserts:
  assumes inv: "sub_inv db" and new: "(sub_id sub, sub_version sub) \<notin> checkpoint_key ` set (s_checkpoints db)"
    and once: "outstanding_once (sub_id sub) (sub_version sub) (s_deliveries db)"
  defines "carried \<equiv> translated_rows sub db"
  shows "insert_deliveries (s_deliveries db) carried = Inr (s_deliveries db @ carried, carried)"
    and "\<exists>hist. insert_deliveries (s_deliveries db @ carried) (history_rows sub (length carried) t1 db) =
           Inr (s_deliveries db @ carried @ hist, hist)"
proof -
  have none: "local_seq d \<noteq> (sub_id sub, sub_version sub, n)" "delivery_key d \<noteq> (sub_id sub, sub_version sub, e)"
    if "d \<in> set (s_deliveries db)" for d n e
    using unregistered_version [OF inv new that] by (auto simp: local_seq_def delivery_key_def of_version_def)
  have seqs: "local_seq ` set carried = (\<lambda>n. (sub_id sub, sub_version sub, int n)) ` {1..<1 + length carried}"
    using arg_cong [where f = set, OF translated_rows_seqs [of sub db]]
    by (simp only: carried_def set_map set_upt)
  have "distinct (map local_seq carried)"
    unfolding carried_def translated_rows_seqs by (simp add: distinct_map inj_on_def)
  then show "insert_deliveries (s_deliveries db) carried = Inr (s_deliveries db @ carried, carried)"
    using translated_rows_keys [OF once] none seqs
    by (intro insert_deliveries_fresh) (fastforce simp: carried_def elim!: translated_rowsD)+
  have hseqs: "local_seq ` set (history_rows sub (length carried) t1 db) =
      (\<lambda>n. (sub_id sub, sub_version sub, int (length carried) + int n)) ` {1..<1 + length (history_rows sub (length carried) t1 db)}"
    using arg_cong [where f = set, OF history_rows_seqs [of sub "length carried" t1 db]]
    by (simp only: set_map set_upt)
  have "distinct (map local_seq (history_rows sub (length carried) t1 db))"
    unfolding history_rows_seqs by (simp add: distinct_map inj_on_def)
  moreover have "local_seq ` set (history_rows sub (length carried) t1 db) \<inter> local_seq ` set (s_deliveries db @ carried) = {}"
    unfolding hseqs set_append image_Un seqs by (auto simp: none(1) none(1) [THEN not_sym])
  ultimately have "\<exists>hist. insert_deliveries (s_deliveries db @ carried) (history_rows sub (length carried) t1 db) =
           Inr ((s_deliveries db @ carried) @ hist, hist)" by (rule insert_deliveries_ok)
  then show "\<exists>hist. insert_deliveries (s_deliveries db @ carried) (history_rows sub (length carried) t1 db) =
           Inr (s_deliveries db @ carried @ hist, hist)" by simp
qed

lemma bootstrap_succeeds:
  assumes "sub_inv db" "(sub_id sub, sub_version sub) \<notin> checkpoint_key ` set (s_checkpoints db)"
    and "outstanding_once (sub_id sub) (sub_version sub) (s_deliveries db)"
    and "getDeclaredSubscription reg (sub_id sub) (sub_version sub) = Inr declared" "sub_version sub > 0"
  obtains db' where "bootstrapSubscription reg sub t1 t2 db =
    Inr (\<lparr>bt_translated = length (translated_rows declared db),
          bt_superseded = length (filter (older_outstanding (sub_id sub) (sub_version sub)) (s_deliveries db))\<rparr>, db')"
proof -
  have d: "sub_id declared = sub_id sub" "sub_version declared = sub_version sub"
    using getDeclaredSubscription_InrD [OF assms(4)] by simp_all
  note ins = bootstrap_inserts [of db declared, unfolded d, OF assms(1-3)]
  let ?carried = "translated_rows declared db"
  obtain hist where hist: "insert_deliveries (s_deliveries db @ ?carried) (history_rows declared (length ?carried) t1 db) =
      Inr (s_deliveries db @ ?carried @ hist, hist)" using ins(2) by blast
  have "set hist \<subseteq> set (history_rows declared (length ?carried) t1 db)"
    using insert_deliveries_table [OF hist] by simp
  then have "\<not> older_outstanding (sub_id sub) (sub_version sub) r" if "r \<in> set (?carried @ hist)" for r
    using that d by (auto elim!: translated_rowsD history_rowsD simp: older_outstanding_def translated_row_def dest!: subsetD)
  then have "filter (older_outstanding (sub_id sub) (sub_version sub)) (?carried @ hist) = []"
    by (simp add: filter_empty_conv)
  then have old: "filter (older_outstanding (sub_id sub) (sub_version sub)) (s_deliveries db @ ?carried @ hist) =
      filter (older_outstanding (sub_id sub) (sub_version sub)) (s_deliveries db)" by simp
  show ?thesis
    by (rule that) (use assms(2,4,5) ins(1) hist old in
      \<open>simp add: bootstrapSubscription_def Let_def list_ex_key del: filter_append\<close>)
qed

section \<open>What a bootstrap does with the log\<close>

definition carries_over :: "Delivery \<Rightarrow> Delivery \<Rightarrow> bool" where
  "carries_over od d \<longleftrightarrow>
     dl_source_event_id d = dl_source_event_id od \<and>
     dl_status d = (if dl_status od = RetryWait then RetryWait else Pending) \<and>
     dl_attempt_count d = dl_attempt_count od \<and> dl_redrive_count d = dl_redrive_count od \<and>
     dl_next_attempt_at d = (if dl_status od = RetryWait then dl_next_attempt_at od else None)"

lemma translated_keys:
  "delivery_key ` set (translated_rows sub db) = (\<lambda>od. (sub_id sub, sub_version sub, dl_source_event_id od)) `
     {od \<in> set (s_deliveries db). older_outstanding (sub_id sub) (sub_version sub) od \<and>
        subscribed_event sub (s_events db) (dl_source_event_id od)}"
proof -
  have "map delivery_key (translated_rows sub db) = map (\<lambda>od. (sub_id sub, sub_version sub, dl_source_event_id od))
      (sort_key dl_source_dispatch_seq (filter (\<lambda>od. older_outstanding (sub_id sub) (sub_version sub) od \<and>
        subscribed_event sub (s_events db) (dl_source_event_id od)) (s_deliveries db)))" (is "_ = map ?k ?xs")
    unfolding map_enumerate_snd [of ?k 1 ?xs, symmetric]
    by (simp add: translated_rows_def comp_def case_prod_beta')
  from arg_cong [where f = set, OF this] show ?thesis by simp
qed

lemma history_keys:
  "delivery_key ` set (history_rows sub m now db) = (\<lambda>e. (sub_id sub, sub_version sub, ev_id e)) `
     {e \<in> set (s_events db). ev_action e \<in> set (sub_actions sub)}"
proof -
  have "map delivery_key (history_rows sub m now db) = map (\<lambda>e. (sub_id sub, sub_version sub, ev_id e))
      (sort_key ev_dispatch_seq (filter (\<lambda>e. ev_action e \<in> set (sub_actions sub)) (s_events db)))" (is "_ = map ?k ?xs")
    unfolding map_enumerate_snd [of ?k 1 ?xs, symmetric]
    by (simp add: history_rows_def comp_def case_prod_beta')
  from arg_cong [where f = set, OF this] show ?thesis by simp
qed

lemma superseded_not_version:
  "of_version i v d \<Longrightarrow> d \<in> set (update_where (older_outstanding i v) (superseded_row i v ds'' t) ds) \<Longrightarrow> d \<in> set ds"
proof -
  assume d: "of_version i v d" "d \<in> set (update_where (older_outstanding i v) (superseded_row i v ds'' t) ds)"
  then obtain x where x: "x \<in> set ds" "d = (if older_outstanding i v x then superseded_row i v ds'' t x else x)"
    by (auto simp: set_update_where)
  then have "dl_subscriber_version x = dl_subscriber_version d" by (simp add: superseded_row_def)
  with d(1) have "\<not> older_outstanding i v x" by (simp add: older_outstanding_def of_version_def)
  with x show ?thesis by simp
qed

lemma superseded_covers:
  "d \<in> set ds \<Longrightarrow> of_version i v d \<Longrightarrow> d \<in> set (update_where (older_outstanding i v) (superseded_row i v ds'' t) ds)"
  by (rule update_where_keeps) (auto simp: older_outstanding_def of_version_def)

lemma superseded_none:
  "d \<in> set (update_where (older_outstanding i v) (superseded_row i v ds'' t) ds) \<Longrightarrow> \<not> older_outstanding i v d"
  by (auto simp: set_update_where older_outstanding_def superseded_row_def status_simps split: if_splits)

lemma bootstrap_partition:
  assumes inv: "sub_inv db" and boot: "bootstrapSubscription reg sub t1 t2 db = Inr (x, db')"
    and new: "(sub_id sub, sub_version sub) \<notin> checkpoint_key ` set (s_checkpoints db)"
    and decl: "getDeclaredSubscription reg (sub_id sub) (sub_version sub) = Inr declared"
  shows "e \<in> set (s_events db) \<Longrightarrow> ev_action e \<in> set (sub_actions declared) \<Longrightarrow>
      \<exists>d \<in> set (s_deliveries db'). delivery_key d = (sub_id sub, sub_version sub, ev_id e)"
    and "d \<in> set (s_deliveries db') \<Longrightarrow> of_version (sub_id sub) (sub_version sub) d \<Longrightarrow>
      (\<exists>od \<in> set (s_deliveries db). older_outstanding (sub_id sub) (sub_version sub) od \<and> carries_over od d) \<or>
      (dl_status d = BootstrapSkipped \<and> (\<forall>od \<in> set (s_deliveries db).
         older_outstanding (sub_id sub) (sub_version sub) od \<longrightarrow> dl_source_event_id od \<noteq> dl_source_event_id d))"
    and "d \<in> set (s_deliveries db') \<Longrightarrow> \<not> older_outstanding (sub_id sub) (sub_version sub) d"
proof -
  let ?i = "sub_id sub" and ?v = "sub_version sub"
  from boot obtain ds ins ds' ins' where
    ids: "sub_id declared = ?i" "sub_version declared = ?v"
    and ins: "insert_deliveries (s_deliveries db) (translated_rows declared db) = Inr (ds, ins)"
    and ins': "insert_deliveries ds (history_rows declared (length ins) t1 db) = Inr (ds', ins')"
    and db': "s_deliveries db' = update_where (older_outstanding ?i ?v) (superseded_row ?i ?v ds' t2) ds'"
    by (cases rule: bootstrap_cases) (use new decl in auto)
  note tab = insert_deliveries_table [OF ins] insert_deliveries_table [OF ins']
  have "dlk.wf (s_deliveries db)" using inv by (simp add: sub_inv_def deliveries_ok_def)
  then have wf: "distinct (map delivery_key ds')"
    using insert_deliveries_distinct(1) [OF ins'] insert_deliveries_distinct(1) [OF ins] by (simp add: dlk.wf_def)
  show "d \<in> set (s_deliveries db') \<Longrightarrow> \<not> older_outstanding ?i ?v d"
    unfolding db' by (rule superseded_none)
  show "\<exists>d \<in> set (s_deliveries db'). delivery_key d = (?i, ?v, ev_id e)"
    if e: "e \<in> set (s_events db)" "ev_action e \<in> set (sub_actions declared)"
  proof -
    have "(?i, ?v, ev_id e) \<in> delivery_key ` set (history_rows declared (length ins) t1 db)"
      unfolding history_keys using e ids by auto
    then obtain r where "r \<in> set (history_rows declared (length ins) t1 db)" "delivery_key r = (?i, ?v, ev_id e)" by auto
    then obtain d where d: "d \<in> set ds'" "delivery_key d = (?i, ?v, ev_id e)"
      using insert_deliveries_covers [OF ins'] by metis
    then have "of_version ?i ?v d" by (simp add: delivery_key_def of_version_def)
    with d show ?thesis unfolding db' using superseded_covers by blast
  qed
  assume d: "d \<in> set (s_deliveries db')" "of_version ?i ?v d"
  then have "d \<in> set ds'" unfolding db' using superseded_not_version by blast
  moreover have "d \<notin> set (s_deliveries db)" using unregistered_version [OF inv new] d(2) by blast
  ultimately consider "d \<in> set ins" | "d \<in> set ins'" using tab by auto
  then show "(\<exists>od \<in> set (s_deliveries db). older_outstanding ?i ?v od \<and> carries_over od d) \<or>
      (dl_status d = BootstrapSkipped \<and> (\<forall>od \<in> set (s_deliveries db). older_outstanding ?i ?v od \<longrightarrow>
         dl_source_event_id od \<noteq> dl_source_event_id d))"
  proof cases
    case 1
    then have "d \<in> set (translated_rows declared db)" using tab by blast
    then show ?thesis using ids by (auto elim!: translated_rowsD simp: carries_over_def translated_row_def)
  next
    case 2
    then have "d \<in> set (history_rows declared (length ins) t1 db)" using tab by blast
    then obtain e n where e: "d = new_row ?i ?v e n BootstrapSkipped (Some t1)" "e \<in> set (s_events db)"
      "ev_action e \<in> set (sub_actions declared)"
      using ids by (auto elim!: history_rowsD)
    have "dl_source_event_id od \<noteq> ev_id e" if od: "od \<in> set (s_deliveries db)" "older_outstanding ?i ?v od" for od
    proof
      assume eq: "dl_source_event_id od = ev_id e"
      then have "subscribed_event declared (s_events db) (dl_source_event_id od)"
        using e by (auto simp: subscribed_event_def list_ex_iff)
      then have "(?i, ?v, ev_id e) \<in> delivery_key ` set (translated_rows declared db)"
        unfolding translated_keys using od ids eq by (auto simp: image_iff)
      then obtain r where "r \<in> set (translated_rows declared db)" "delivery_key r = (?i, ?v, ev_id e)" by auto
      then obtain y where "y \<in> set ds" "delivery_key y = delivery_key d"
        using insert_deliveries_covers [OF ins] e(1) by (metis new_row_simps(1))
      then show False using wf tab 2 by (auto simp: image_iff)
    qed
    then show ?thesis using e(1) by simp
  qed
qed

section \<open>The counts of a dispatch cycle\<close>

lemma fail_total:
  assumes "assertDispatchOptions opts = Inr u"
  obtains r where "failSubscriptionDelivery claim message (op_maxAttempts opts) (op_retryDelaySeconds opts) t0 t1 db = Inr r"
proof -
  from assms obtain a b where "assertPositiveInteger (op_maxAttempts opts) ''maxAttempts'' = Inr a"
    "(case op_retryDelaySeconds opts of None \<Rightarrow> Inr () | Some n \<Rightarrow> assertPositiveFinite n ''retryDelaySeconds'') = Inr b"
    by (auto simp: assertDispatchOptions_def bind_result_Inr_iff)
  then have "\<exists>r. failSubscriptionDelivery claim message (op_maxAttempts opts) (op_retryDelaySeconds opts) t0 t1 db = Inr r"
    unfolding failSubscriptionDelivery_def by (auto simp: Let_def split: prod.splits option.splits list.splits)
  with that show ?thesis by blast
qed

lemma lost_reconciled:
  "reconciled r \<Longrightarrow> reconciled (r\<lparr>cr_dispatched := Suc (cr_dispatched r), cr_lostLease := Suc (cr_lostLease r)\<rparr>)"
  by (simp add: reconciled_def)

lemma settle_claim_reconciled:
  assumes "assertDispatchOptions opts = Inr u" "reconciled r"
    and "settle_claim env sub opts k claim (r\<lparr>cr_dispatched := Suc (cr_dispatched r)\<rparr>) db = (go, r', db')"
  shows "reconciled r'"
proof (cases "withTimeout (de_handler env sub (dc_delivery_seq claim) (dc_source_event_id claim) k)
             (handler_timeout opts) (de_timeout_message env sub)")
  case (Inl message)
  obtain t db1 where "failSubscriptionDelivery claim message (op_maxAttempts opts) (op_retryDelaySeconds opts)
      (de_clock env k 0) (de_clock env k 1) (de_others env k db) = Inr (t, db1)"
    using fail_total [OF assms(1)] by (metis surj_pair)
  with Inl assms(2,3) show ?thesis by (auto simp: settle_claim_def)
next
  case (Inr outcome)
  with assms(2,3) show ?thesis
    by (auto simp: settle_claim_def Let_def lost_reconciled split: prod.splits bool.splits)
qed

lemma dispatch_one_reconciled:
  assumes "assertDispatchOptions opts = Inr u" "reconciled r"
    and "dispatch_one env reg sub opts lease k r db = (go, r', db')"
  shows "reconciled r'"
  using assms(2,3) settle_claim_reconciled [OF assms(1,2)]
  by (auto simp: dispatch_one_def Let_def split: if_splits prod.splits bool.splits sum.splits option.splits)

lemma dispatch_loop_counts:
  assumes "assertDispatchOptions opts = Inr u"
  shows "reconciled r \<Longrightarrow> cr_dispatched r \<le> max_deliveries opts \<Longrightarrow>
    dispatch_loop env reg sub opts lease k r db = (k', r', db') \<Longrightarrow>
    reconciled r' \<and> cr_dispatched r' \<le> max_deliveries opts"
  using assms
proof (induction env reg sub opts lease k r db arbitrary: k' r' db' rule: dispatch_loop.induct)
  case (1 env reg sub opts lease k r db)
  show ?case
  proof (cases "cr_dispatched r < max_deliveries opts")
    case True
    obtain go r1 db1 where one: "dispatch_one env reg sub opts lease k r db = (go, r1, db1)" by (metis surj_pair)
    have r1: "reconciled r1" "cr_dispatched r1 \<le> max_deliveries opts"
      using dispatch_one_reconciled [OF 1(5,2) one] dispatch_one_dispatched(2) [OF one] True by auto
    show ?thesis
    proof (cases go)
      case go: True
      have "dispatch_loop env reg sub opts lease (k + 3) r1 db1 = (k', r', db')"
        using 1(4) one True go by (simp add: dispatch_loop.simps [of env reg sub opts lease k r])
      from 1(1) [OF True one [symmetric] _ refl r1 this 1(5)] go show ?thesis by simp
    next
      case False
      then show ?thesis using 1(4) one True r1 by (simp add: dispatch_loop.simps [of env reg sub opts lease k r])
    qed
  next
    case False
    then show ?thesis using 1(2-4) by (simp add: dispatch_loop.simps [of env reg sub opts lease k r])
  qed
qed

lemma no_result_reconciled: "reconciled no_result" "cr_dispatched no_result = 0"
  by (simp_all add: reconciled_def no_result_def)

lemma dispatch_slice_counts:
  assumes "assertDispatchOptions opts = Inr u" "dispatch_slice env reg opts sub db = (r, db')"
  shows "reconciled r" "cr_dispatched r \<le> max_deliveries opts"
proof -
  have "reconciled r' \<and> cr_dispatched r' \<le> max_deliveries opts"
    if "dispatch_loop env reg sub opts lease 3 no_result db3 = (k', r', db4)" for lease db3 k' r' db4
    by (rule dispatch_loop_counts [OF assms(1) _ _ that]) (simp_all add: no_result_reconciled)
  then have "reconciled r \<and> cr_dispatched r \<le> max_deliveries opts"
    using assms(2) no_result_reconciled
    by (auto simp: dispatch_slice_def Let_def split: sum.splits prod.splits option.splits)
  then show "reconciled r" "cr_dispatched r \<le> max_deliveries opts" by simp_all
qed

lemma dispatch_slices_counts:
  "assertDispatchOptions opts = Inr u \<Longrightarrow> dispatch_slices envs n reg opts subs db = (rs, db') \<Longrightarrow>
    length rs = length subs \<and> (\<forall>r \<in> set rs. reconciled r \<and> cr_dispatched r \<le> max_deliveries opts)"
proof (induction envs n reg opts subs db arbitrary: rs db' rule: dispatch_slices.induct)
  case (2 envs n reg opts sub subs db)
  obtain r1 db1 where one: "dispatch_slice (envs n) reg opts sub db = (r1, db1)" by (cases "dispatch_slice (envs n) reg opts sub db")
  obtain rs1 db2 where more: "dispatch_slices envs (n + 1) reg opts subs db1 = (rs1, db2)"
    by (cases "dispatch_slices envs (n + 1) reg opts subs db1")
  have "rs = r1 # rs1" using 2(3) one more by simp
  then show ?case using 2(1) [OF one [symmetric] 2(2) more] dispatch_slice_counts [OF 2(2) one] by auto
qed auto

lemma add_results_counts:
  assumes "\<forall>r \<in> set rs. reconciled r \<and> cr_dispatched r \<le> m" "reconciled r0"
  shows "reconciled (foldl add_results r0 rs) \<and> cr_dispatched (foldl add_results r0 rs) \<le> cr_dispatched r0 + length rs * m"
  using assms
proof (induction rs arbitrary: r0)
  case (Cons r rs)
  have "reconciled (add_results r0 r)" "cr_dispatched (add_results r0 r) \<le> cr_dispatched r0 + m"
    using Cons.prems by (auto simp: reconciled_def add_results_def)
  with Cons show ?case by fastforce
qed simp

lemma cycle_counts:
  assumes "runSubscriptionDispatchCycle envs reg opts db = Inr (r, db')"
  shows "reconciled r" "cr_dispatched r \<le> length reg * max_deliveries opts"
proof -
  from assms obtain u rs where opts: "assertDispatchOptions opts = Inr u"
    and rs: "dispatch_slices envs 0 reg opts reg db = (rs, db')" "r = foldl add_results no_result rs"
    by (auto simp: runSubscriptionDispatchCycle_def bind_result_Inr_iff split: prod.splits)
  have "length rs = length reg \<and> (\<forall>r \<in> set rs. reconciled r \<and> cr_dispatched r \<le> max_deliveries opts)"
    by (rule dispatch_slices_counts [OF opts rs(1)])
  then show "reconciled r" "cr_dispatched r \<le> length reg * max_deliveries opts"
    using add_results_counts [of rs "max_deliveries opts" no_result] rs(2) no_result_reconciled by auto
qed

end
