(* ===== verification/SubscriptionLiveness.thy ===== *)
theory SubscriptionLiveness
  imports SubscriptionVersions
begin

text \<open>
  A slice that nobody disturbs hands out every event: it discovers what is missing and settles the
  whole queue in order, up to its delivery limit. The clock of the database runs on meanwhile, and a
  slice may take many times the life of a lease: what it needs is that no more than 120 seconds pass
  from the claim of its lease to the first renewal, and from each renewal to the next.
\<close>

text \<open>Microseconds, as everywhere in the model. The number is stated and not taken from the code, so
  that the life of a lease (\<open>LEASE_TTL_SECONDS\<close>) is part of what the lemmas below rest on.\<close>

definition steady_clock :: "dispatch_env \<Rightarrow> bool" where
  "steady_clock env \<longleftrightarrow>
     (\<forall>k j k' j'. k < k' \<or> k = k' \<and> j \<le> j' \<longrightarrow> de_clock env k j \<le> de_clock env k' j') \<and>
     de_clock env 3 0 \<le> de_clock env 1 0 + 120000000 \<and>
     (\<forall>n. de_clock env (3 * n + 6) 0 \<le> de_clock env (3 * n + 3) 0 + 120000000)"

text \<open>The budget is asked twice in every pass; pass \<open>n\<close> starts with transaction \<open>3 * n + 3\<close>.\<close>

definition quiet_env :: "dispatch_env \<Rightarrow> DispatchOptions \<Rightarrow> LoadedSubscription \<Rightarrow> bool" where
  "quiet_env env opts sub \<longleftrightarrow>
     steady_clock env \<and>
     (\<forall>n < max_deliveries opts. \<forall>j. de_elapsed env (3 * n + 3) j < max_dispatch_ms opts) \<and>
     (\<forall>k db. de_others env k db = db) \<and>
     (\<forall>n e k. \<exists>t outcome. de_handler env sub n e k = Settles t (Inr outcome) \<and> t < handler_timeout opts)"

definition lease_of :: "LoadedSubscription \<Rightarrow> SubscriptionLease \<Rightarrow> bool" where
  "lease_of declared lease \<longleftrightarrow>
     sl_subscriber_id lease = sub_id declared \<and> sl_subscriber_version lease = sub_version declared \<and>
     sl_declaration_hash lease = sub_hash declared"

definition holds_lease :: "SubscriptionLease \<Rightarrow> int \<Rightarrow> sub_db \<Rightarrow> bool" where
  "holds_lease lease now db \<longleftrightarrow>
     (\<exists>c \<in> set (s_checkpoints db). owns_checkpoint lease c \<and> cp_status c = Active \<and>
        lease_live (cp_claim_lease_until c) now)"

lemma holds_lease_earlier: "holds_lease lease t db \<Longrightarrow> t' \<le> t \<Longrightarrow> holds_lease lease t' db"
  by (fastforce simp: holds_lease_def lease_live_def split: option.splits)

lemma holds_lease_fence:
  assumes "lease_of declared lease"
  shows "holds_lease lease now db \<longleftrightarrow> (\<exists>c \<in> set (s_checkpoints db). fence_matches (lease_fence declared lease) now c)"
  using assms by (auto simp: holds_lease_def lease_of_def owns_checkpoint_def fence_matches_def lease_fence_def)

lemma locked_when_held:
  assumes "sub_inv db" "\<exists>c \<in> set (s_checkpoints db). fence_matches fn now c"
  shows "withLockedCheckpoint fn now f db = (case f db of (a, db') \<Rightarrow> (Some a, db'))"
proof -
  from assms(2) obtain c where "c \<in> set (s_checkpoints db)" "fence_matches fn now c" by blast
  then have "filter (fence_matches fn now) (s_checkpoints db) = [c]"
    using assms(1) by (intro fence_unique) (simp_all add: sub_inv_def)
  then show ?thesis by (simp add: withLockedCheckpoint_def)
qed

lemma singleton_filter:
  assumes "distinct (map k xs)" "h \<in> set xs" "p h" "\<forall>x \<in> set xs. p x \<longrightarrow> x = h"
  shows "filter p xs = [h]"
proof (rule distinct_singleton_set)
  show "distinct (filter p xs)" using assms(1) by (simp add: distinct_map)
  have "{x. x \<in> set xs \<and> p x} = {h}" using assms(2-4) by blast
  then show "set (filter p xs) = {h}" by (simp only: set_filter)
qed

lemma renew_held:
  assumes inv: "sub_inv db" and held: "holds_lease lease now db"
  obtains db' where "renewSubscriptionLease lease now db = (True, db')" "s_deliveries db' = s_deliveries db"
    "s_events db' = s_events db" "sub_inv db'" "holds_lease lease (now + lease_ttl) db'"
proof -
  let ?p = "\<lambda>c. owns_checkpoint lease c \<and> lease_live (cp_claim_lease_until c) now"
  let ?f = "\<lambda>c. c\<lparr>cp_claim_lease_until := Some (now + lease_ttl)\<rparr>"
  from held obtain c where c: "c \<in> set (s_checkpoints db)" "?p c" "cp_status c = Active" by (auto simp: holds_lease_def)
  have wf: "cpk.wf (s_checkpoints db)" using inv by (simp add: sub_inv_def checkpoints_ok_def)
  have only: "\<forall>x \<in> set (s_checkpoints db). ?p x \<longrightarrow> x = c"
  proof (intro ballI impI)
    fix x assume x: "x \<in> set (s_checkpoints db)" "?p x"
    show "x = c"
      by (rule cpk.wf_same_row [OF wf x(1) c(1)]) (use x(2) c(2) in \<open>simp add: owns_checkpoint_def checkpoint_key_def\<close>)
  qed
  have one: "filter ?p (s_checkpoints db) = [c]"
    by (rule singleton_filter [OF _ c(1,2) only]) (use wf in \<open>simp add: cpk.wf_def\<close>)
  let ?db = "db\<lparr>s_checkpoints := update_where ?p ?f (s_checkpoints db)\<rparr>"
  have r: "renewSubscriptionLease lease now db = (True, ?db)"
    using one by (simp add: renewSubscriptionLease_def update_checkpoints_def)
  moreover have "?f c \<in> set (s_checkpoints ?db)" using c by (auto simp: set_update_where)
  then have "holds_lease lease (now + lease_ttl) ?db" unfolding holds_lease_def
    by (rule bexI [rotated]) (use c in \<open>simp add: owns_checkpoint_def lease_live_def\<close>)
  moreover have "sub_inv ?db" using renewSubscriptionLease_inv [OF inv, of lease now] r by simp
  ultimately show ?thesis by (intro that [of ?db]) simp_all
qed

lemma head_is_first: "open_deliveries i v ds = h # rest \<Longrightarrow> head_delivery i v ds = Some h"
  by (simp add: open_deliveries_def head_delivery_def)

definition first_claim ::
  "LoadedSubscription \<Rightarrow> LoadedSubscription \<Rightarrow> SubscriptionLease \<Rightarrow> string \<Rightarrow> int \<Rightarrow> Delivery \<Rightarrow>
     SubscriptionDeliveryClaim" where
  "first_claim sub declared lease token now h =
     \<lparr>dc_subscriber_id = sub_id sub, dc_subscriber_version = sub_version sub,
      dc_declaration_hash = sub_hash declared, dc_source_event_id = dl_source_event_id h,
      dc_delivery_seq = dl_delivery_seq h, dc_claim_owner = sl_claim_owner lease, dc_claim_token = token,
      dc_checkpoint_claim_owner = sl_claim_owner lease, dc_checkpoint_claim_token = sl_claim_token lease,
      dc_lease_until = now + lease_ttl\<rparr>"

lemma claim_and_complete:
  assumes inv: "sub_inv db" and held: "holds_lease lease until db" and lease: "lease_of declared lease"
    and decl: "getDeclaredSubscription reg (sub_id sub) (sub_version sub) = Inr declared"
    and head: "open_deliveries (sub_id sub) (sub_version sub) (s_deliveries db) = h # rest" and due: "claimable now h"
    and times: "t0 \<le> until" "u0 \<le> until" "u1 \<le> now + lease_ttl"
  obtains db1 db2 where
    "claimNextSubscriptionDelivery reg sub lease token t0 now db =
       Inr (Some (first_claim sub declared lease token now h), db1)"
    "completeSubscriptionDelivery (first_claim sub declared lease token now h) outcome u0 u1 db1 = (True, db2)"
    "open_deliveries (sub_id sub) (sub_version sub) (s_deliveries db2) = rest"
    "holds_lease lease until db2" "sub_inv db2" "s_events db2 = s_events db"
    "delivery_key ` set (s_deliveries db2) = delivery_key ` set (s_deliveries db)"
proof -
  let ?i = "sub_id sub" and ?v = "sub_version sub" and ?ds = "s_deliveries db"
  let ?p = "head_claim ?i ?v now ?ds" and ?f = "claimed_row (sl_claim_owner lease) token now"
  have ids: "sub_id declared = ?i" "sub_version declared = ?v"
    using getDeclaredSubscription_InrD [OF decl] by simp_all
  have wf: "dlk.wf ?ds" "dls.wf ?ds" using inv by (simp_all add: sub_inv_def deliveries_ok_def)
  have h: "h \<in> set ?ds" "of_version ?i ?v h"
    using open_deliveries_set [of h ?i ?v ?ds] by (simp_all add: head)
  have ph: "?p h" using h(2) due head_is_first [OF head] by (simp add: head_claim_def)
  have only: "x = h" if "x \<in> set ?ds" "?p x" for x
    using head_claim_unique [OF wf(1) that] head_is_first [OF head] by simp
  have filt: "filter ?p ?ds = [h]"
  proof (rule singleton_filter [where k = delivery_key])
    show "distinct (map delivery_key ?ds)" using wf(1) by (simp add: dlk.wf_def)
    show "\<forall>x \<in> set ?ds. ?p x \<longrightarrow> x = h" using only by blast
  qed (rule h(1) ph)+
  let ?db1 = "db\<lparr>s_deliveries := update_where ?p ?f ?ds\<rparr>"
  have fence: "\<exists>c \<in> set (s_checkpoints db). fence_matches (lease_fence declared lease) t c" if "t \<le> until" for t
    using holds_lease_earlier [OF held that] holds_lease_fence [OF lease] by blast
  define claim where "claim = first_claim sub declared lease token now h"
  note claim_defs = claim_def first_claim_def
  have cf: "claim_fence claim = lease_fence declared lease" "dc_subscriber_id claim = ?i" "dc_subscriber_version claim = ?v"
      "dc_source_event_id claim = dl_source_event_id h" "dc_claim_owner claim = sl_claim_owner lease" "dc_claim_token claim = token"
    by (simp_all add: claim_defs claim_fence_def lease_fence_def ids)
  have upd: "update_deliveries ?p ?f db = ([?f h], ?db1)" by (simp add: update_deliveries_def filt)
  have ident: "sl_subscriber_id lease = ?i" "sl_subscriber_version lease = ?v" "sl_declaration_hash lease = sub_hash declared"
    using lease ids by (simp_all add: lease_of_def)
  have row: "dl_source_event_id (?f h) = dl_source_event_id h" "dl_delivery_seq (?f h) = dl_delivery_seq h"
    by (simp_all add: claimed_row_def)
  have claim: "claimNextSubscriptionDelivery reg sub lease token t0 now db = Inr (Some claim, ?db1)"
    unfolding claimNextSubscriptionDelivery_def Let_def decl bind_result_simps locked_when_held [OF inv fence [OF times(1)]]
    by (simp add: upd ident row claim_defs del: lease_ttl_eq)
  have inv1: "sub_inv ?db1" by (rule claimNextSubscriptionDelivery_inv [OF inv claim])
  let ?ds1 = "update_where ?p ?f ?ds"
  have set1: "x \<in> set ?ds1 \<longleftrightarrow> x = ?f h \<or> (x \<in> set ?ds \<and> x \<noteq> h)" for x
    by (rule set_update_single) (use h(1) ph only in blast)+
  have hf: "holds_claim claim u1 (?f h)"
    using cf h(2) times(3) by (simp add: holds_claim_def claimed_row_def of_version_def lease_live_def)
  have wf1: "dlk.wf ?ds1" "dls.wf ?ds1" using inv1 by (simp_all add: sub_inv_def deliveries_ok_def)
  have only1: "x = ?f h" if "x \<in> set ?ds1" "holds_claim claim u1 x" for x
    by (rule holds_claim_unique [OF wf1(1) _ that(1) hf that(2)]) (simp add: set1)
  have filt1: "filter (holds_claim claim u1) ?ds1 = [?f h]"
  proof (rule singleton_filter [where k = delivery_key])
    show "distinct (map delivery_key ?ds1)" using wf1(1) by (simp add: dlk.wf_def)
    show "\<forall>x \<in> set ?ds1. holds_claim claim u1 x \<longrightarrow> x = ?f h" using only1 by blast
    show "?f h \<in> set ?ds1" by (simp add: set1)
  qed (rule hf)
  let ?g = "completed_row outcome u1"
  let ?db2 = "?db1\<lparr>s_deliveries := update_where (holds_claim claim u1) ?g ?ds1\<rparr>"
  have upd1: "update_deliveries (holds_claim claim u1) ?g ?db1 = ([?g (?f h)], ?db2)"
    by (simp add: update_deliveries_def filt1)
  have fence1: "\<exists>c \<in> set (s_checkpoints ?db1). fence_matches (lease_fence declared lease) u0 c"
    using fence [OF times(2)] by simp
  have done': "completeSubscriptionDelivery claim outcome u0 u1 ?db1 = (True, ?db2)"
    unfolding completeSubscriptionDelivery_def cf(1) locked_when_held [OF inv1 fence1] upd1 by simp
  have inv2: "sub_inv ?db2" using completeSubscriptionDelivery_inv [OF inv1, of claim outcome u0 u1] done' by simp
  have ds2: "s_deliveries ?db2 = update_where (holds_claim claim u1) ?g ?ds1" by simp
  have set2: "x \<in> set (s_deliveries ?db2) \<longleftrightarrow> x = ?g (?f h) \<or> (x \<in> set ?ds1 \<and> x \<noteq> ?f h)" for x
    unfolding ds2 by (rule set_update_single) (use hf only1 set1 in blast)+
  have srt: "sorted (map dl_delivery_seq (h # rest))" "distinct (map dl_delivery_seq (h # rest))"
    using open_deliveries_sorted [of ?i ?v ?ds] open_deliveries_distinct [OF wf(2), of ?i ?v] by (simp_all only: head)
  have "open_deliveries ?i ?v (s_deliveries ?db2) = rest"
  proof (rule open_deliveries_eqI)
    show "dls.wf (s_deliveries ?db2)" using inv2 by (simp add: sub_inv_def deliveries_ok_def)
    fix x
    have "x \<in> set rest \<longleftrightarrow> x \<noteq> h \<and> x \<in> set ?ds \<and> of_version ?i ?v x \<and> \<not> terminal_status (dl_status x)"
      using open_deliveries_set [of x ?i ?v ?ds] srt(2) unfolding head by auto
    moreover have "terminal_status (dl_status (?g (?f h)))"
      by (cases outcome) (simp_all add: completed_row_def status_simps)
    moreover have "x \<noteq> ?f h" if "x \<in> set ?ds" "x \<noteq> h"
    proof
      assume "x = ?f h"
      then have "delivery_key x = delivery_key h" using same_identity_keys(1) [OF claimed_row_same] by simp
      then show False using dlk.wf_same_row [OF wf(1) that(1) h(1)] that(2) by simp
    qed
    ultimately show "x \<in> set rest \<longleftrightarrow> x \<in> set (s_deliveries ?db2) \<and> of_version ?i ?v x \<and> \<not> terminal_status (dl_status x)"
      unfolding set2 set1 by auto
  qed (use srt in simp_all)
  moreover have "map delivery_key (s_deliveries ?db2) = map delivery_key ?ds"
    using same_identity_keys(1) [OF claimed_row_same] same_identity_keys(1) [OF completed_row_same]
    by (simp add: map_key_update_where)
  then have "delivery_key ` set (s_deliveries ?db2) = delivery_key ` set ?ds" by (metis set_map)
  ultimately show ?thesis
    using held inv2
    by (intro that [folded claim_def, OF claim done']) (simp_all add: holds_lease_def)
qed

lemma quiet_envD:
  assumes "quiet_env env opts sub"
  shows "steady_clock env" "n < max_deliveries opts \<Longrightarrow> \<not> max_dispatch_ms opts \<le> de_elapsed env (3 * n + 3) j"
    "de_others env k db = db"
    "\<exists>outcome. withTimeout (de_handler env sub m e k) (handler_timeout opts) msg = Inr outcome"
proof -
  show "steady_clock env" "n < max_deliveries opts \<Longrightarrow> \<not> max_dispatch_ms opts \<le> de_elapsed env (3 * n + 3) j"
    "de_others env k db = db"
    using assms by (simp_all add: quiet_env_def not_le)
  obtain t outcome where "de_handler env sub m e k = Settles t (Inr outcome)" "t < handler_timeout opts"
    using assms unfolding quiet_env_def by blast
  then show "\<exists>outcome. withTimeout (de_handler env sub m e k) (handler_timeout opts) msg = Inr outcome"
    by (simp add: withTimeout_def)
qed

lemma steady_clockD:
  assumes "steady_clock env"
  shows "k < k' \<or> k = k' \<and> j \<le> j' \<Longrightarrow> de_clock env k j \<le> de_clock env k' j'"
    "k < 3 \<Longrightarrow> de_clock env k j \<le> de_clock env 1 0 + lease_ttl"
    "k < 3 * n + 6 \<Longrightarrow> de_clock env k j \<le> de_clock env (3 * n + 3) 0 + lease_ttl"
    "de_clock env 3 0 \<le> de_clock env 1 0 + lease_ttl"
    "de_clock env (3 * n + 6) 0 \<le> de_clock env (3 * n + 3) 0 + lease_ttl"
proof -
  show mono: "k < k' \<or> k = k' \<and> j \<le> j' \<Longrightarrow> de_clock env k j \<le> de_clock env k' j'" for k k' j j'
    using assms unfolding steady_clock_def by blast
  show first: "de_clock env 3 0 \<le> de_clock env 1 0 + lease_ttl"
    and renewal: "de_clock env (3 * n + 6) 0 \<le> de_clock env (3 * n + 3) 0 + lease_ttl" for n
    using assms by (simp_all add: steady_clock_def)
  show "de_clock env k j \<le> de_clock env 1 0 + lease_ttl" if "k < 3"
    using mono [of k 3 j 0] that first by (simp del: lease_ttl_eq)
  show "de_clock env k j \<le> de_clock env (3 * n + 3) 0 + lease_ttl" if "k < 3 * n + 6"
    using mono [of k "3 * n + 6" j 0] that renewal [of n] by (simp del: lease_ttl_eq)
qed

lemma claim_nothing:
  assumes "open_deliveries (sub_id sub) (sub_version sub) (s_deliveries db) = []" "lease_of declared lease"
    and decl: "getDeclaredSubscription reg (sub_id sub) (sub_version sub) = Inr declared"
  shows "claimNextSubscriptionDelivery reg sub lease token t0 t1 db = Inr (None, db)"
proof -
  have ids: "sub_id declared = sub_id sub" "sub_version declared = sub_version sub"
    using getDeclaredSubscription_InrD [OF decl] by simp_all
  have "head_delivery (sub_id sub) (sub_version sub) (s_deliveries db) = None"
    using assms(1) by (simp add: open_deliveries_def head_delivery_def)
  then have "\<not> head_claim (sub_id sub) (sub_version sub) t1 (s_deliveries db) d" for d by (simp add: head_claim_def)
  then have "update_deliveries (head_claim (sub_id sub) (sub_version sub) t1 (s_deliveries db)) f db = ([], db)" for f
    by (simp add: update_deliveries_def update_where_none)
  then show ?thesis using assms(2) ids
    unfolding claimNextSubscriptionDelivery_def Let_def decl bind_result_simps
    by (simp add: withLockedCheckpoint_def lease_of_def)
qed

definition all_due :: "int \<Rightarrow> string \<Rightarrow> int \<Rightarrow> sub_db \<Rightarrow> bool" where
  "all_due now i v db \<longleftrightarrow> (\<forall>d \<in> set (open_deliveries i v (s_deliveries db)). claimable now d)"

lemma in_tl: "x \<in> set (tl xs) \<Longrightarrow> x \<in> set xs"
  by (cases xs) auto

lemma all_due_later: "all_due now i v db \<Longrightarrow> now \<le> now' \<Longrightarrow> all_due now' i v db"
  by (fastforce simp: all_due_def claimable_def lease_expired_def split: option.splits)

lemma dispatch_one_quiet:
  assumes quiet: "quiet_env env opts sub" and inv: "sub_inv db" and n: "n < max_deliveries opts"
    and held: "holds_lease lease (de_clock env (3 * n + 3) 0) db" and lease: "lease_of declared lease"
    and decl: "getDeclaredSubscription reg (sub_id sub) (sub_version sub) = Inr declared"
    and due: "all_due (de_clock env (3 * n + 3) 0) (sub_id sub) (sub_version sub) db"
  obtains go r' db' where "dispatch_one env reg sub opts lease (3 * n + 3) r db = (go, r', db')"
    "go \<longleftrightarrow> open_deliveries (sub_id sub) (sub_version sub) (s_deliveries db) \<noteq> []"
    "open_deliveries (sub_id sub) (sub_version sub) (s_deliveries db') =
       tl (open_deliveries (sub_id sub) (sub_version sub) (s_deliveries db))"
    "holds_lease lease (de_clock env (3 * n + 6) 0) db'" "sub_inv db'" "s_events db' = s_events db"
    "delivery_key ` set (s_deliveries db') = delivery_key ` set (s_deliveries db)"
proof -
  let ?i = "sub_id sub" and ?v = "sub_version sub" and ?k = "3 * n + 3" and ?c = "de_clock env"
  let ?until = "?c ?k 0 + lease_ttl"
  note q = quiet_envD [OF quiet] and clock = steady_clockD [OF quiet_envD(1) [OF quiet]]
  note budget = q(2) [OF n]
  obtain db1 where renew: "renewSubscriptionLease lease (?c ?k 0) db = (True, db1)" "s_deliveries db1 = s_deliveries db"
    "s_events db1 = s_events db" "sub_inv db1" "holds_lease lease ?until db1"
    by (rule renew_held [OF inv held])
  show ?thesis
  proof (cases "open_deliveries ?i ?v (s_deliveries db)")
    case Nil
    then have "claimNextSubscriptionDelivery reg sub lease (de_uuid env (?k + 1)) (?c (?k + 1) 0) (?c (?k + 1) 1) db1 =
        Inr (None, db1)"
      using renew(2) by (intro claim_nothing [OF _ lease decl]) simp
    then have "dispatch_one env reg sub opts lease ?k r db = (False, r, db1)"
      using renew(1) q(3) budget by (simp add: dispatch_one_def)
    moreover have "holds_lease lease (?c (3 * n + 6) 0) db1" by (rule holds_lease_earlier [OF renew(5) clock(5)])
    ultimately show ?thesis using Nil renew by (intro that [of False r db1]) simp_all
  next
    case (Cons h rest)
    have "?c ?k 0 \<le> ?c (?k + 1) 1" by (rule clock(1)) simp
    then have h: "claimable (?c (?k + 1) 1) h" using all_due_later [OF due] Cons by (simp add: all_due_def)
    have times: "?c (?k + 1) 0 \<le> ?until" "?c (?k + 2) 0 \<le> ?until" by (rule clock(3), simp)+
    have "?c (?k + 2) 1 \<le> ?until" by (rule clock(3)) simp
    moreover have "?c ?k 0 \<le> ?c (?k + 1) 1" by (rule clock(1)) simp
    ultimately have last: "?c (?k + 2) 1 \<le> ?c (?k + 1) 1 + lease_ttl" by linarith
    define claim where "claim = first_claim sub declared lease (de_uuid env (?k + 1)) (?c (?k + 1) 1) h"
    obtain outcome where o: "withTimeout (de_handler env sub (dc_delivery_seq claim) (dc_source_event_id claim) (?k + 2))
        (handler_timeout opts) (de_timeout_message env sub) = Inr outcome" using q(4) by blast
    have heads: "open_deliveries ?i ?v (s_deliveries db1) = h # rest" using Cons renew(2) by simp
    obtain db2 db3 where
      claim: "claimNextSubscriptionDelivery reg sub lease (de_uuid env (?k + 1)) (?c (?k + 1) 0) (?c (?k + 1) 1) db1 =
          Inr (Some claim, db2)"
      and db3: "completeSubscriptionDelivery claim outcome (?c (?k + 2) 0) (?c (?k + 2) 1) db2 = (True, db3)"
        "open_deliveries ?i ?v (s_deliveries db3) = rest" "holds_lease lease ?until db3" "sub_inv db3"
        "s_events db3 = s_events db1" "delivery_key ` set (s_deliveries db3) = delivery_key ` set (s_deliveries db1)"
      using claim_and_complete [OF renew(4,5) lease decl heads h times last, of "de_uuid env (?k + 1)" outcome]
      unfolding claim_def by metis
    have "dispatch_one env reg sub opts lease ?k r db =
        (True, count_outcome outcome (r\<lparr>cr_dispatched := cr_dispatched r + 1\<rparr>), db3)"
      using renew(1) claim q(3) budget o db3(1) by (simp add: dispatch_one_def settle_claim_def)
    moreover have "holds_lease lease (?c (3 * n + 6) 0) db3" by (rule holds_lease_earlier [OF db3(3) clock(5)])
    ultimately show ?thesis using Cons renew(2,3) db3 by (intro that [of True _ db3]) simp_all
  qed
qed

lemma dispatch_loop_drains:
  assumes "quiet_env env opts sub" "sub_inv db" "k = 3 * cr_dispatched r + 3"
    and "holds_lease lease (de_clock env k 0) db" "lease_of declared lease"
    and "getDeclaredSubscription reg (sub_id sub) (sub_version sub) = Inr declared"
    and "all_due (de_clock env k 0) (sub_id sub) (sub_version sub) db"
    and "dispatch_loop env reg sub opts lease k r db = (k', r', db')"
  shows "open_deliveries (sub_id sub) (sub_version sub) (s_deliveries db') =
       drop (max_deliveries opts - cr_dispatched r) (open_deliveries (sub_id sub) (sub_version sub) (s_deliveries db)) \<and>
     s_events db' = s_events db \<and> delivery_key ` set (s_deliveries db') = delivery_key ` set (s_deliveries db)"
  using assms
proof (induction env reg sub opts lease k r db arbitrary: k' r' db' rule: dispatch_loop.induct)
  case (1 env reg sub opts lease k r db)
  let ?open = "\<lambda>db. open_deliveries (sub_id sub) (sub_version sub) (s_deliveries db)"
  note k = 1(4)
  show ?case
  proof (cases "cr_dispatched r < max_deliveries opts")
    case True
    obtain go r1 db1 where one: "dispatch_one env reg sub opts lease k r db = (go, r1, db1)"
      "go \<longleftrightarrow> ?open db \<noteq> []" "?open db1 = tl (?open db)" "holds_lease lease (de_clock env (k + 3) 0) db1" "sub_inv db1"
      "s_events db1 = s_events db" "delivery_key ` set (s_deliveries db1) = delivery_key ` set (s_deliveries db)"
      using dispatch_one_quiet [OF 1(2,3) True 1(5) [unfolded k] 1(6,7) 1(8) [unfolded k], of r]
      unfolding k by (simp add: add.assoc) metis
    have "de_clock env k 0 \<le> de_clock env (k + 3) 0"
      by (rule steady_clockD(1) [OF quiet_envD(1) [OF 1(2)]]) simp
    from all_due_later [OF 1(8) this] have due: "all_due (de_clock env (k + 3) 0) (sub_id sub) (sub_version sub) db1"
      using one(3) by (auto simp: all_due_def dest: in_tl)
    show ?thesis
    proof (cases go)
      case go: True
      have loop: "dispatch_loop env reg sub opts lease (k + 3) r1 db1 = (k', r', db')"
        using 1(9) one(1) True go by (simp add: dispatch_loop.simps [of env reg sub opts lease k r])
      have r1: "cr_dispatched r1 = cr_dispatched r + 1" using dispatch_one_dispatched(1) [OF one(1) go] .
      then have n: "max_deliveries opts - cr_dispatched r = Suc (max_deliveries opts - cr_dispatched r1)" using True by simp
      have k1: "k + 3 = 3 * cr_dispatched r1 + 3" using k r1 by simp
      from 1(1) [OF True one(1) [symmetric] _ refl 1(2) one(5) k1 one(4) 1(6,7) due loop] go
      show ?thesis unfolding n one(3) using one(6,7) by (simp add: drop_Suc)
    next
      case False
      then have "db' = db1" using 1(9) one(1) True by (simp add: dispatch_loop.simps [of env reg sub opts lease k r])
      with one False show ?thesis by simp
    qed
  next
    case False
    then show ?thesis using 1(9) by (simp add: dispatch_loop.simps [of env reg sub opts lease k r])
  qed
qed

lemma claim_lease_free:
  assumes inv: "sub_inv db" and decl: "getDeclaredSubscription reg i v = Inr declared"
    and c: "c \<in> set (s_checkpoints db)" "checkpoint_key c = (i, v)" "cp_declaration_hash c = sub_hash declared"
      "cp_status c = Active" "cp_claim_lease_until c = None \<or> lease_expired (cp_claim_lease_until c) now"
  obtains lease db' where "claimSubscriptionLease reg i v owner token now db = Inr (Some lease, db')"
    "lease_of declared lease" "holds_lease lease (now + lease_ttl) db'" "s_deliveries db' = s_deliveries db" "s_events db' = s_events db"
proof -
  let ?p = "lease_claimable i v (sub_hash declared) now" and ?f = "leased owner token now"
  let ?db = "db\<lparr>s_checkpoints := update_where ?p ?f (s_checkpoints db)\<rparr>"
  let ?lease = "\<lparr>sl_subscriber_id = i, sl_subscriber_version = v, sl_declaration_hash = sub_hash declared,
      sl_claim_owner = owner, sl_claim_token = token, sl_lease_until = now + lease_ttl\<rparr>"
  have ids: "sub_id declared = i" "sub_version declared = v" using getDeclaredSubscription_InrD [OF decl] by simp_all
  have p: "?p c" using c by (simp add: lease_claimable_def checkpoint_key_def)
  then have "filter ?p (s_checkpoints db) \<noteq> []" using c(1) by (auto simp: filter_empty_conv)
  then obtain x xs where "filter ?p (s_checkpoints db) = x # xs" by (cases "filter ?p (s_checkpoints db)") auto
  then have "claimSubscriptionLease reg i v owner token now db = Inr (Some ?lease, ?db)"
    unfolding claimSubscriptionLease_def Let_def decl bind_result_simps update_checkpoints_def by simp
  moreover have "?f c \<in> set (s_checkpoints ?db)" using c(1) p by (auto simp: set_update_where)
  then have "holds_lease ?lease (now + lease_ttl) ?db" unfolding holds_lease_def
    by (rule bexI [rotated])
       (use c in \<open>simp add: owns_checkpoint_def leased_def lease_live_def checkpoint_key_def\<close>)
  ultimately show ?thesis using ids by (intro that [of ?lease ?db]) (simp_all add: lease_of_def)
qed

lemma existing_bootstrap:
  assumes inv: "sub_inv db" and decl: "getDeclaredSubscription reg (sub_id sub) (sub_version sub) = Inr declared"
    and c: "c \<in> set (s_checkpoints db)" "checkpoint_key c = (sub_id sub, sub_version sub)"
      "cp_declaration_hash c = sub_hash declared"
  shows "bootstrapSubscription reg sub t1 t2 db = Inr (\<lparr>bt_translated = 0, bt_superseded = 0\<rparr>, db)"
proof -
  let ?k = "(sub_id sub, sub_version sub)"
  have ex: "list_ex (\<lambda>c. checkpoint_key c = ?k) (s_checkpoints db)" using c by (auto simp: list_ex_iff)
  obtain x where x: "find (\<lambda>c. checkpoint_key c = ?k) (s_checkpoints db) = Some x"
    using c by (cases "find (\<lambda>c. checkpoint_key c = ?k) (s_checkpoints db)") (auto simp: find_None_iff)
  have "cpk.wf (s_checkpoints db)" using inv by (simp add: sub_inv_def checkpoints_ok_def)
  then have "x = c" using row_by_SomeD [of checkpoint_key ?k "s_checkpoints db" x] x c cpk.wf_same_row
    unfolding row_by_def by metis
  then show ?thesis using decl ex x c(3) by (simp add: bootstrapSubscription_def Let_def)
qed

lemma length_le_card_keys:
  assumes "distinct (map k xs)" "k ` set xs \<subseteq> g ` set ys"
  shows "length xs \<le> length ys"
proof -
  have "length xs = card (k ` set xs)" using distinct_card [OF assms(1)] by simp
  also have "\<dots> \<le> card (g ` set ys)" by (rule card_mono) (use assms(2) in auto)
  also have "\<dots> \<le> card (set ys)" by (rule card_image_le) simp
  also have "\<dots> \<le> length ys" by (rule card_length)
  finally show ?thesis .
qed

lemma slice_drains:
  assumes quiet: "quiet_env env opts sub" and inv: "sub_inv db"
    and decl: "getDeclaredSubscription reg (sub_id sub) (sub_version sub) = Inr declared"
    and c: "c \<in> set (s_checkpoints db)" "checkpoint_key c = (sub_id sub, sub_version sub)"
      "cp_declaration_hash c = sub_hash declared" "cp_status c = Active"
      "cp_claim_lease_until c = None \<or> lease_expired (cp_claim_lease_until c) (de_clock env 1 0)"
    and due: "all_due (de_clock env 0 0) (sub_id sub) (sub_version sub) db"
    and enough: "length (outstanding (sub_id sub) (sub_version sub) db) + length (undelivered declared db) \<le> max_deliveries opts"
    and slice: "dispatch_slice env reg opts sub db = (r, db')"
  shows "outstanding (sub_id sub) (sub_version sub) db' = []"
    and "e \<in> set (s_events db) \<Longrightarrow> ev_action e \<in> set (sub_actions declared) \<Longrightarrow>
      \<exists>d \<in> set (s_deliveries db'). delivery_key d = (sub_id sub, sub_version sub, ev_id e)"
proof -
  let ?i = "sub_id sub" and ?v = "sub_version sub"
  note q = quiet_envD [OF quiet] and clock = steady_clockD [OF quiet_envD(1) [OF quiet]]
  let ?until = "de_clock env 1 0 + lease_ttl"
  have ids: "sub_id declared = ?i" "sub_version declared = ?v"
    using getDeclaredSubscription_InrD [OF decl] by simp_all
  obtain lease db1 where lease: "claimSubscriptionLease reg ?i ?v (op_owner opts) (de_uuid env 1) (de_clock env 1 0) db = Inr (Some lease, db1)"
    "lease_of declared lease" "holds_lease lease ?until db1" "s_deliveries db1 = s_deliveries db" "s_events db1 = s_events db"
    by (rule claim_lease_free [OF inv decl c])
  have inv1: "sub_inv db1" by (rule claimSubscriptionLease_inv [OF inv lease(1)])
  obtain c1 where c1: "c1 \<in> set (s_checkpoints db1)" "fence_matches (lease_fence declared lease) ?until c1"
    using lease(3) holds_lease_fence [OF lease(2)] by blast
  have fence: "fence_matches (lease_fence declared lease) t c1" if "t \<le> ?until" for t
    using c1(2) that by (auto simp: fence_matches_def lease_live_def split: option.splits)
  have reading: "de_clock env 2 j \<le> ?until" for j by (rule clock(2)) simp
  obtain xs db2 where disc: "discover_loop declared lease (de_clock env 2) 0 0 db1 = (Inr (length xs), db2)"
    and d2: "s_deliveries db2 = s_deliveries db1 @ xs" "s_events db2 = s_events db1" "undelivered declared db2 = []"
      "\<exists>n. c1\<lparr>cp_next_delivery_seq := n\<rparr> \<in> set (s_checkpoints db2)"
      "\<forall>d \<in> set xs. dl_status d = Pending \<and> of_version ?i ?v d \<and>
        dl_source_event_id d \<in> ev_id ` set (undelivered declared db1)"
    using discover_loop_complete [OF inv1 c1(1), of declared lease "de_clock env 2" 0 0, OF fence [OF reading]] ids by auto
  have inv2: "sub_inv db2" using discover_loop_inv [OF inv1, of declared lease "de_clock env 2" 0 0] disc by simp
  have held2: "holds_lease lease (de_clock env 3 0) db2"
    using d2(4) fence [OF clock(4)] holds_lease_fence [OF lease(2)] by (auto intro: bexI [rotated])
  have "de_clock env 0 0 \<le> de_clock env 3 0" by (rule clock(1)) simp
  from all_due_later [OF due this] have due2: "all_due (de_clock env 3 0) ?i ?v db2"
    using d2(1,5) lease(4) by (auto simp: all_due_def open_deliveries_set claimable_def)
  obtain k' r' db3 where loop: "dispatch_loop env reg sub opts lease 3 no_result db2 = (k', r', db3)"
    by (metis surj_pair)
  have first: "3 = 3 * cr_dispatched no_result + 3" by (simp add: no_result_reconciled)
  note drained = dispatch_loop_drains [OF quiet inv2 first held2 lease(2) decl due2 loop]
  have db': "s_deliveries db' = s_deliveries db3"
    using slice lease(1) disc loop q(3) existing_bootstrap [OF inv decl c(1-3)] decl
    by (auto simp: dispatch_slice_def Let_def discoverSubscriptionDeliveries_def releaseSubscriptionLease_def
        update_checkpoints_def)
  have "dlk.wf (s_deliveries db2)" using inv2 by (simp add: sub_inv_def deliveries_ok_def)
  then have "distinct (map delivery_key xs)" using d2(1) by (simp add: dlk.wf_def)
  then have "length xs \<le> length (undelivered declared db1)"
    by (rule length_le_card_keys [where g = "\<lambda>e. (?i, ?v, ev_id e)"])
       (use d2(5) in \<open>auto simp: delivery_key_def of_version_def\<close>)
  then have "length xs \<le> length (undelivered declared db)" using lease(4,5) by (simp add: undelivered_def)
  moreover have "length (open_deliveries ?i ?v (s_deliveries db2)) =
      length (outstanding ?i ?v db) + length (filter (\<lambda>d. of_version ?i ?v d \<and> \<not> terminal_status (dl_status d)) xs)"
    using d2(1) lease(4) by (simp add: outstanding_def open_deliveries_def)
  moreover have "length (filter (\<lambda>d. of_version ?i ?v d \<and> \<not> terminal_status (dl_status d)) xs) \<le> length xs"
    by (rule length_filter_le)
  ultimately have "length (open_deliveries ?i ?v (s_deliveries db2)) \<le> max_deliveries opts"
    using enough by linarith
  then have "open_deliveries ?i ?v (s_deliveries db3) = []" using drained by (simp add: no_result_reconciled)
  then show "outstanding ?i ?v db' = []" by (simp add: outstanding_def db')
  assume e: "e \<in> set (s_events db)" "ev_action e \<in> set (sub_actions declared)"
  then have "e \<notin> set (undelivered declared db2)" "e \<in> set (s_events db2)" using d2 lease by simp_all
  then have "(?i, ?v, ev_id e) \<in> delivery_key ` set (s_deliveries db2)" using e ids by (auto simp: undelivered_iff)
  then have "(?i, ?v, ev_id e) \<in> delivery_key ` set (s_deliveries db')" using drained db' by simp
  then show "\<exists>d \<in> set (s_deliveries db'). delivery_key d = (?i, ?v, ev_id e)" by auto
qed

end
