(* ===== verification/SubscriptionFixtures.thy ===== *)
theory SubscriptionFixtures
  imports SubscriptionLiveness
begin

text \<open>Concrete runs of the bus, evaluated in the kernel, at which the properties are applied.\<close>

definition mail_v1 :: LoadedSubscription where
  "mail_v1 = \<lparr>sub_id = ''mail'', sub_version = 1, sub_actions = [''attempt''], sub_hash = ''h1''\<rparr>"

definition mail_v2 :: LoadedSubscription where
  "mail_v2 = \<lparr>sub_id = ''mail'', sub_version = 2, sub_actions = [''attempt''], sub_hash = ''h2''\<rparr>"

definition mail_v3 :: LoadedSubscription where
  "mail_v3 = \<lparr>sub_id = ''mail'', sub_version = 3, sub_actions = [''attempt''], sub_hash = ''h3''\<rparr>"

definition event_a :: LoggedEvent where
  "event_a = \<lparr>ev_id = ''a'', ev_dispatch_seq = 1, ev_action = ''attempt''\<rparr>"

definition event_b :: LoggedEvent where
  "event_b = \<lparr>ev_id = ''b'', ev_dispatch_seq = 2, ev_action = ''attempt''\<rparr>"

definition event_c :: LoggedEvent where
  "event_c = \<lparr>ev_id = ''c'', ev_dispatch_seq = 3, ev_action = ''attempt''\<rparr>"

definition lease_v1 :: SubscriptionLease where
  "lease_v1 = \<lparr>sl_subscriber_id = ''mail'', sl_subscriber_version = 1, sl_declaration_hash = ''h1'',
     sl_claim_owner = ''w1'', sl_claim_token = ''k1'', sl_lease_until = 120000010\<rparr>"

definition claim_a :: SubscriptionDeliveryClaim where
  "claim_a = \<lparr>dc_subscriber_id = ''mail'', dc_subscriber_version = 1, dc_declaration_hash = ''h1'',
     dc_source_event_id = ''a'', dc_delivery_seq = 1, dc_claim_owner = ''w1'', dc_claim_token = ''t1'',
     dc_checkpoint_claim_owner = ''w1'', dc_checkpoint_claim_token = ''k1'', dc_lease_until = 120000012\<rparr>"

text \<open>A version is started on an empty log, two events arrive, a worker takes the lease, discovers
  both and claims the first.\<close>

definition mail_started :: sub_db where
  "mail_started = run_actions
     [([mail_v1], Bootstrap mail_v1 1 1), ([mail_v1], CommitEvent event_b), ([mail_v1], CommitEvent event_a),
      ([mail_v1], ClaimLease ''mail'' 1 ''w1'' ''k1'' 10)] empty_sub_db"

definition mail_claimed :: sub_db where
  "mail_claimed = run_actions
     [([mail_v1], DiscoverBatch mail_v1 lease_v1 11 11), ([mail_v1], ClaimNext mail_v1 lease_v1 ''t1'' 12 12)] mail_started"

lemma mail_started_eq:
  "mail_started = \<lparr>s_events = [event_b, event_a], s_checkpoints =
     [\<lparr>cp_subscriber_id = ''mail'', cp_subscriber_version = 1, cp_declaration_hash = ''h1'', cp_status = Active,
       cp_next_delivery_seq = 1, cp_claim_owner = Some ''w1'', cp_claim_token = Some ''k1'',
       cp_claim_lease_until = Some 120000010\<rparr>], s_deliveries = []\<rparr>"
  by code_simp

lemma mail_claimed_eq:
  "mail_claimed = \<lparr>s_events = [event_b, event_a], s_checkpoints =
     [\<lparr>cp_subscriber_id = ''mail'', cp_subscriber_version = 1, cp_declaration_hash = ''h1'', cp_status = Active,
       cp_next_delivery_seq = 3, cp_claim_owner = Some ''w1'', cp_claim_token = Some ''k1'',
       cp_claim_lease_until = Some 120000010\<rparr>], s_deliveries =
     [claimed_row ''w1'' ''t1'' 12 (new_row ''mail'' 1 event_a 1 Pending None), new_row ''mail'' 1 event_b 2 Pending None]\<rparr>"
  by code_simp

lemma mail_claim:
  "claimNextSubscriptionDelivery [mail_v1] mail_v1 lease_v1 ''t1'' 12 12
     (perform [mail_v1] (DiscoverBatch mail_v1 lease_v1 11 11) mail_started) = Inr (Some claim_a, mail_claimed)"
  by code_simp

text \<open>The first delivery is handled; the second stays at the head.\<close>

definition mail_actions :: "(LoadedSubscription list \<times> sub_action) list" where
  "mail_actions =
     [([mail_v1], Bootstrap mail_v1 1 1), ([mail_v1], CommitEvent event_b), ([mail_v1], CommitEvent event_a),
      ([mail_v1], ClaimLease ''mail'' 1 ''w1'' ''k1'' 10), ([mail_v1], DiscoverBatch mail_v1 lease_v1 11 11),
      ([mail_v1], ClaimNext mail_v1 lease_v1 ''t1'' 12 12)]"

lemma mail_actions_eq: "run_actions mail_actions empty_sub_db = mail_claimed"
  by (simp add: mail_actions_def mail_claimed_def mail_started_def)

lemma mail_completed_eq:
  "s_deliveries (perform [mail_v1] (Complete claim_a (OutcomeSucceeded None) 13 13) mail_claimed) =
     [completed_row (OutcomeSucceeded None) 13 (claimed_row ''w1'' ''t1'' 12 (new_row ''mail'' 1 event_a 1 Pending None)),
      new_row ''mail'' 1 event_b 2 Pending None]"
  unfolding mail_claimed_eq by code_simp

text \<open>A version bump while one delivery is claimed and one pending.\<close>

lemma mail_bump_eq:
  "case bootstrapSubscription [mail_v2] mail_v2 20 21 mail_claimed of
     Inl _ \<Rightarrow> False
   | Inr (x, db) \<Rightarrow> x = \<lparr>bt_translated = 2, bt_superseded = 2\<rparr> \<and>
       map (\<lambda>d. (dl_subscriber_version d, dl_source_event_id d, dl_delivery_seq d, dl_status d, dl_last_error d))
         (s_deliveries db) =
       [(1, ''a'', 1, Skipped, Some ''translated_to_v2''), (1, ''b'', 2, Skipped, Some ''translated_to_v2''),
        (2, ''a'', 1, Pending, None), (2, ''b'', 2, Pending, None)]"
  unfolding mail_claimed_eq by code_simp

text \<open>An event that the old version had not discovered yet when the new one is bootstrapped.\<close>

definition late_actions :: "(LoadedSubscription list \<times> sub_action) list" where
  "late_actions = [([mail_v1], Bootstrap mail_v1 1 1), ([mail_v1], CommitEvent event_a), ([mail_v2], Bootstrap mail_v2 2 2)]"

lemma late_eq:
  "s_deliveries (run_actions late_actions empty_sub_db) = [new_row ''mail'' 2 event_a 1 BootstrapSkipped (Some 2)]"
  by code_simp

text \<open>A rolling release: workers of versions 1 and 2 both discover event b, then only version 2
  discovers event c. Event a is older than both versions.\<close>

definition lease_v2 :: SubscriptionLease where
  "lease_v2 = \<lparr>sl_subscriber_id = ''mail'', sl_subscriber_version = 2, sl_declaration_hash = ''h2'',
     sl_claim_owner = ''w2'', sl_claim_token = ''k2'', sl_lease_until = 120000010\<rparr>"

definition rolling_actions :: "(LoadedSubscription list \<times> sub_action) list" where
  "rolling_actions =
     [([mail_v1], CommitEvent event_a), ([mail_v1], Bootstrap mail_v1 1 1), ([mail_v2], Bootstrap mail_v2 2 2),
      ([mail_v1], CommitEvent event_b),
      ([mail_v1], ClaimLease ''mail'' 1 ''w1'' ''k1'' 10), ([mail_v1], DiscoverBatch mail_v1 lease_v1 11 11),
      ([mail_v2], ClaimLease ''mail'' 2 ''w2'' ''k2'' 10), ([mail_v2], DiscoverBatch mail_v2 lease_v2 11 11),
      ([mail_v2], CommitEvent event_c), ([mail_v2], DiscoverBatch mail_v2 lease_v2 12 12)]"

lemma rolling_eq:
  "bootstrapSubscription [mail_v3] mail_v3 20 21 (run_actions rolling_actions empty_sub_db) =
     Inl (UniqueViolation ''event_subscription_delivery_local_seq_uq'')"
  by code_simp

section \<open>A worker that nobody disturbs\<close>

text \<open>Each transaction comes 25 seconds after the one before: three passes take longer than a lease lives.\<close>

definition quiet_demo :: dispatch_env where
  "quiet_demo = \<lparr>de_clock = (\<lambda>k _. 200000000 + 25000000 * int k), de_elapsed = (\<lambda>k _. 25000 * of_nat k),
     de_uuid = (\<lambda>_. ''u''), de_others = (\<lambda>_ db. db), de_handler = (\<lambda>_ _ _ _. Settles 24000 (Inr (OutcomeSucceeded None))),
     de_timeout_message = (\<lambda>_. ''timeout'')\<rparr>"

definition demo_options :: DispatchOptions where
  "demo_options = \<lparr>op_owner = ''w1'', op_maxAttempts = Some 5, op_handlerTimeoutMs = None, op_retryDelaySeconds = None,
     op_maxDeliveriesPerSubscription = Some (Some 4), op_maxDispatchMs = Some (Some 600000)\<rparr>"

lemma demo_limit: "max_deliveries demo_options = 4"
  by (simp add: max_deliveries_def demo_options_def js_int_def)

lemma quiet_demo: "quiet_env quiet_demo demo_options mail_v1"
  unfolding quiet_env_def demo_limit
  by (auto simp: steady_clock_def quiet_demo_def demo_options_def max_dispatch_ms_def handler_timeout_def
      DEFAULT_HANDLER_TIMEOUT_MS_def less_Suc_eq numeral_eq_Suc)

lemma demo_cycle:
  "case runSubscriptionDispatchCycle (\<lambda>_. quiet_demo) [mail_v1] demo_options mail_started of
     Inl _ \<Rightarrow> False
   | Inr (r, db) \<Rightarrow> cr_dispatched r = 2 \<and> cr_succeeded r = 2 \<and>
       map (\<lambda>d. (dl_source_event_id d, dl_status d)) (s_deliveries db) = [(''a'', Succeeded), (''b'', Succeeded)]"
  unfolding mail_started_eq by code_simp

end
