(* ===== verification/SubscriptionProperties.thy ===== *)
theory SubscriptionProperties
  imports SubscriptionFixtures
begin

text \<open>
  The properties of the event subscription bus, for every sequence of transactions that any number of
  workers, of any releases, take on tables that start empty.
\<close>

text \<open>
  C31. The schema of the subscription bus holds in every reachable state: checkpoints and deliveries have
  unique keys, local sequence numbers are unique within a subscriber version and below the number the
  checkpoint hands out next, every row has the claim, retry and completion shape its status demands
  and refers to its event and its checkpoint, and while a delivery is unsettled no later one of its
  subscriber version is claimed or settled by work.
\<close>

theorem subscription_tables_well_formed: "sub_inv (run_actions as empty_sub_db)"
  by (rule reachable_inv)

text \<open>
  C32. The bus refines a first-in first-out queue per subscriber version: whatever transaction a worker
  takes in a reachable state, the list of unsettled events of any subscriber version stays as it is or
  takes the step of the queue that belongs to the transaction. Discovery appends, completion and a
  final failure take the head off and nothing else, a redrive puts its dead letter in front, a
  bootstrap fills the empty queue of its own version and empties those of older versions.
\<close>

theorem bus_refines_queue:
  "queue_step a i v (outstanding i v (run_actions as empty_sub_db))
     (outstanding i v (perform reg a (run_actions as empty_sub_db)))"
  by (rule queue_refinement) (rule reachable_inv)

text \<open>
  C33. A settled delivery is final: once an event succeeded, was skipped or was passed over by the
  bootstrap for a subscriber version, no sequence of transactions changes its row or adds another row
  for it, so no outcome is recorded twice.
\<close>

theorem settled_delivery_is_final:
  assumes "d \<in> set (s_deliveries (run_actions as empty_sub_db))" "settled d"
  shows "filter (\<lambda>x. delivery_key x = delivery_key d) (s_deliveries (run_actions (as @ bs) empty_sub_db)) = [d]"
proof (rule singleton_filter [where k = delivery_key])
  let ?ds = "s_deliveries (run_actions (as @ bs) empty_sub_db)"
  have "dlk.wf ?ds" using reachable_inv [of "as @ bs"] by (simp add: sub_inv_def deliveries_ok_def)
  then show "distinct (map delivery_key ?ds)" by (simp add: dlk.wf_def)
  show d: "d \<in> set ?ds" using run_actions_settled [OF assms(2,1)] by (simp add: run_actions_append)
  show "\<forall>x \<in> set ?ds. delivery_key x = delivery_key d \<longrightarrow> x = d"
    using dlk.wf_same_row [OF \<open>dlk.wf ?ds\<close> _ d] by blast
qed simp

theorem settled_delivery_is_final_witness:
  "filter (\<lambda>x. delivery_key x = (''mail'', 2, ''a''))
     (s_deliveries (run_actions (late_actions @ [([mail_v2], ClaimLease ''mail'' 2 ''w2'' ''k2'' 10)]) empty_sub_db)) =
   [new_row ''mail'' 2 event_a 1 BootstrapSkipped (Some 2)]"
  using settled_delivery_is_final [of "new_row ''mail'' 2 event_a 1 BootstrapSkipped (Some 2)" late_actions
      "[([mail_v2], ClaimLease ''mail'' 2 ''w2'' ''k2'' 10)]"]
  by (simp add: late_eq settled_def event_a_def)

text \<open>
  C34. A claim that was taken over is fenced for good: after a delivery has been claimed with a new
  token, an older claim of it can neither complete, fail nor renew the delivery, at any time and
  whatever happens meanwhile, as long as no later claim draws the old token again.
\<close>

theorem stale_claim_is_fenced:
  assumes "claimNextSubscriptionDelivery reg sub lease token t0 t1 (run_actions as empty_sub_db) = Inr (Some claim, db)"
    and "dc_subscriber_id old = dc_subscriber_id claim" "dc_subscriber_version old = dc_subscriber_version claim"
    and "dc_source_event_id old = dc_source_event_id claim" "dc_claim_token old \<noteq> token"
    and "\<forall>(reg, a) \<in> set bs. \<not> draws_token (dc_claim_token old) a"
  shows "completeSubscriptionDelivery old outcome t2 t3 (run_actions bs db) = (False, run_actions bs db) \<and>
    renewSubscriptionDeliveryLease old t2 t3 (run_actions bs db) = (False, run_actions bs db) \<and>
    failSubscriptionDelivery old message m delay t2 t3 (run_actions bs db) \<in>
      {Inl (NotPositiveInteger ''maxAttempts''), Inl (NotPositiveFinite ''retryDelaySeconds''),
       Inr (LostLease, run_actions bs db)}"
proof -
  let ?key = "(dc_subscriber_id old, dc_subscriber_version old, dc_source_event_id old)"
  have "without_token ?key (dc_claim_token old) (s_deliveries db)"
    using claimed_token [OF reachable_inv assms(1)] assms(2-5) by (simp add: without_token_def)
  then have "without_token ?key (dc_claim_token old) (s_deliveries (run_actions bs db))"
    using assms(6) by (rule run_actions_without_token)
  then show ?thesis by (rule fenced_claim)
qed

theorem stale_claim_is_fenced_witness:
  "completeSubscriptionDelivery (claim_a\<lparr>dc_claim_token := ''t0''\<rparr>) (OutcomeSucceeded None) 13 13
     (run_actions [] mail_claimed) = (False, run_actions [] mail_claimed)"
proof -
  have "claimNextSubscriptionDelivery [mail_v1] mail_v1 lease_v1 ''t1'' 12 12 (run_actions (butlast mail_actions) empty_sub_db) =
      Inr (Some claim_a, mail_claimed)"
    using mail_claim by (simp add: mail_actions_def mail_started_def)
  from stale_claim_is_fenced [OF this, of "claim_a\<lparr>dc_claim_token := ''t0''\<rparr>" "[]" "OutcomeSucceeded None" 13 13 _ None None]
  show ?thesis by (simp add: claim_a_def)
qed

text \<open>
  C35. Discovery ends and is complete: while the worker holds the lease, the loop over the batches ends,
  reports the number of deliveries it added, adds only pending ones for events that had none, and
  leaves no event of a subscribed action without a delivery, whatever the order of commit and of
  \<open>dispatch_seq\<close>.
\<close>

theorem discovery_complete:
  assumes "getDeclaredSubscription reg (sub_id sub) (sub_version sub) = Inr declared"
    and "c \<in> set (s_checkpoints (run_actions as empty_sub_db))"
    and "\<And>j. fence_matches (lease_fence declared lease) (clock j) c"
  shows "\<exists>xs db'. discoverSubscriptionDeliveries reg sub lease clock k (run_actions as empty_sub_db) = (Inr (length xs), db') \<and>
     s_deliveries db' = s_deliveries (run_actions as empty_sub_db) @ xs \<and>
     (\<forall>d \<in> set xs. dl_status d = Pending \<and>
        dl_source_event_id d \<in> ev_id ` set (undelivered declared (run_actions as empty_sub_db))) \<and>
     (\<forall>e \<in> set (s_events (run_actions as empty_sub_db)). ev_action e \<in> set (sub_actions declared) \<longrightarrow>
        (\<exists>d \<in> set (s_deliveries db'). delivery_key d = (sub_id sub, sub_version sub, ev_id e)))"
proof -
  let ?db = "run_actions as empty_sub_db"
  have ids: "sub_id declared = sub_id sub" "sub_version declared = sub_version sub"
    using getDeclaredSubscription_InrD [OF assms(1)] by simp_all
  obtain xs db' where loop: "discover_loop declared lease clock k 0 ?db = (Inr (0 + length xs), db')"
    "s_deliveries db' = s_deliveries ?db @ xs" "s_events db' = s_events ?db" "undelivered declared db' = []"
    "\<forall>d \<in> set xs. dl_status d = Pending \<and> of_version (sub_id declared) (sub_version declared) d \<and>
       dl_source_event_id d \<in> ev_id ` set (undelivered declared ?db)"
    using discover_loop_complete [where lease = lease and clock = clock, OF reachable_inv assms(2,3)] by metis
  have "\<exists>d \<in> set (s_deliveries db'). delivery_key d = (sub_id sub, sub_version sub, ev_id e)"
    if "e \<in> set (s_events ?db)" "ev_action e \<in> set (sub_actions declared)" for e
    using that loop(3) undelivered_iff [of e declared db'] ids by (auto simp: loop(4))
  then show ?thesis using loop assms(1) by (auto simp: discoverSubscriptionDeliveries_def)
qed

theorem discovery_complete_witness:
  "\<exists>n db'. discoverSubscriptionDeliveries [mail_v1] mail_v1 lease_v1 (\<lambda>_. 11) 0 (run_actions (take 4 mail_actions) empty_sub_db) =
     (Inr n, db') \<and>
     (\<exists>d \<in> set (s_deliveries db'). delivery_key d = (''mail'', 1, ''a''))"
proof -
  have start: "run_actions (take 4 mail_actions) empty_sub_db = mail_started"
    by (simp add: mail_actions_def mail_started_def)
  have decl: "getDeclaredSubscription [mail_v1] (sub_id mail_v1) (sub_version mail_v1) = Inr mail_v1"
    by (simp add: getDeclaredSubscription_def registry_get_def mail_v1_def)
  let ?c = "\<lparr>cp_subscriber_id = ''mail'', cp_subscriber_version = 1, cp_declaration_hash = ''h1'', cp_status = Active,
       cp_next_delivery_seq = 1, cp_claim_owner = Some ''w1'', cp_claim_token = Some ''k1'',
       cp_claim_lease_until = Some 120000010\<rparr>"
  have c: "?c \<in> set (s_checkpoints (run_actions (take 4 mail_actions) empty_sub_db))"
    by (simp add: start mail_started_eq)
  have fence: "fence_matches (lease_fence mail_v1 lease_v1) ((\<lambda>_. 11) j) ?c" for j :: nat
    by (simp add: fence_matches_def lease_fence_def mail_v1_def lease_v1_def lease_live_def)
  have a: "event_a \<in> set (s_events (run_actions (take 4 mail_actions) empty_sub_db))"
    "ev_action event_a \<in> set (sub_actions mail_v1)" "ev_id event_a = ''a''" "sub_id mail_v1 = ''mail''" "sub_version mail_v1 = 1"
    by (simp_all add: start mail_started_eq) (simp_all add: event_a_def mail_v1_def)
  from discovery_complete [where lease = lease_v1 and clock = "\<lambda>_. 11" and k = 0, OF decl c fence]
  obtain xs :: "Delivery list" and db' where r: "discoverSubscriptionDeliveries [mail_v1] mail_v1 lease_v1 (\<lambda>_. 11) 0
      (run_actions (take 4 mail_actions) empty_sub_db) = (Inr (length xs), db')"
    and covered: "\<forall>e \<in> set (s_events (run_actions (take 4 mail_actions) empty_sub_db)).
      ev_action e \<in> set (sub_actions mail_v1) \<longrightarrow>
        (\<exists>d \<in> set (s_deliveries db'). delivery_key d = (sub_id mail_v1, sub_version mail_v1, ev_id e))"
    by (elim exE conjE) (rule that)
  from bspec [OF covered a(1)] a(2-5) have "\<exists>d \<in> set (s_deliveries db'). delivery_key d = (''mail'', 1, ''a'')" by simp
  with r show ?thesis by blast
qed

text \<open>
  C36. A version bump loses no discovered work: a successful first bootstrap of a version leaves exactly
  one delivery of that version for every event of a subscribed action; an event that an older version
  had still to handle becomes pending, or waits for its retry, with its attempts and redrives kept, every
  other event is passed over, and no older version has anything left to handle.
\<close>

theorem version_bump_translates:
  assumes "bootstrapSubscription reg sub t1 t2 (run_actions as empty_sub_db) = Inr (x, db)"
    and "(sub_id sub, sub_version sub) \<notin> checkpoint_key ` set (s_checkpoints (run_actions as empty_sub_db))"
    and "getDeclaredSubscription reg (sub_id sub) (sub_version sub) = Inr declared"
  shows "(\<forall>e \<in> set (s_events (run_actions as empty_sub_db)). ev_action e \<in> set (sub_actions declared) \<longrightarrow>
      (\<exists>!d. d \<in> set (s_deliveries db) \<and> delivery_key d = (sub_id sub, sub_version sub, ev_id e))) \<and>
    (\<forall>d \<in> set (s_deliveries db). \<not> older_outstanding (sub_id sub) (sub_version sub) d \<and>
      (of_version (sub_id sub) (sub_version sub) d \<longrightarrow>
        (\<exists>od \<in> set (s_deliveries (run_actions as empty_sub_db)).
           older_outstanding (sub_id sub) (sub_version sub) od \<and> carries_over od d) \<or>
        (dl_status d = BootstrapSkipped \<and> (\<forall>od \<in> set (s_deliveries (run_actions as empty_sub_db)).
           older_outstanding (sub_id sub) (sub_version sub) od \<longrightarrow> dl_source_event_id od \<noteq> dl_source_event_id d))))"
proof (intro conjI ballI impI)
  note part = bootstrap_partition [OF reachable_inv assms]
  have wf: "dlk.wf (s_deliveries db)"
    using bootstrapSubscription_inv [OF reachable_inv assms(1)] by (simp add: sub_inv_def deliveries_ok_def)
  fix e assume "e \<in> set (s_events (run_actions as empty_sub_db))" "ev_action e \<in> set (sub_actions declared)"
  from part(1) [OF this] obtain d where
    d: "d \<in> set (s_deliveries db)" "delivery_key d = (sub_id sub, sub_version sub, ev_id e)" by blast
  show "\<exists>!d. d \<in> set (s_deliveries db) \<and> delivery_key d = (sub_id sub, sub_version sub, ev_id e)"
  proof (rule ex1I)
    fix y assume y: "y \<in> set (s_deliveries db) \<and> delivery_key y = (sub_id sub, sub_version sub, ev_id e)"
    show "y = d" by (rule dlk.wf_same_row [OF wf _ d(1)]) (use y d(2) in simp_all)
  qed (use d in simp)
qed (use bootstrap_partition(2,3) [OF reachable_inv assms] in blast)+

theorem version_bump_translates_witness:
  "\<exists>x db. bootstrapSubscription [mail_v2] mail_v2 20 21 (run_actions mail_actions empty_sub_db) = Inr (x, db) \<and>
     (\<forall>d \<in> set (s_deliveries db). \<not> older_outstanding ''mail'' 2 d)"
proof -
  obtain x db where r: "bootstrapSubscription [mail_v2] mail_v2 20 21 (run_actions mail_actions empty_sub_db) = Inr (x, db)"
    using mail_bump_eq unfolding mail_actions_eq by (auto split: sum.splits prod.splits)
  have k: "sub_id mail_v2 = ''mail''" "sub_version mail_v2 = 2" by (simp_all add: mail_v2_def)
  have new: "(sub_id mail_v2, sub_version mail_v2) \<notin> checkpoint_key ` set (s_checkpoints (run_actions mail_actions empty_sub_db))"
    by (simp add: mail_actions_eq mail_claimed_eq k checkpoint_key_def)
  have decl: "getDeclaredSubscription [mail_v2] (sub_id mail_v2) (sub_version mail_v2) = Inr mail_v2"
    by (simp add: getDeclaredSubscription_def registry_get_def)
  from version_bump_translates [OF r new decl] r show ?thesis by (simp add: k)
qed

text \<open>
  C37. A first bootstrap succeeds, and reports how many deliveries it translated and closed, whenever no
  event is outstanding in two older versions at once.
\<close>

theorem bootstrap_total:
  assumes "(sub_id sub, sub_version sub) \<notin> checkpoint_key ` set (s_checkpoints (run_actions as empty_sub_db))"
    and "outstanding_once (sub_id sub) (sub_version sub) (s_deliveries (run_actions as empty_sub_db))"
    and "getDeclaredSubscription reg (sub_id sub) (sub_version sub) = Inr declared" "sub_version sub > 0"
  shows "\<exists>db. bootstrapSubscription reg sub t1 t2 (run_actions as empty_sub_db) =
    Inr (\<lparr>bt_translated = length (translated_rows declared (run_actions as empty_sub_db)),
          bt_superseded = length (filter (older_outstanding (sub_id sub) (sub_version sub))
            (s_deliveries (run_actions as empty_sub_db)))\<rparr>, db)"
  by (rule bootstrap_succeeds [OF reachable_inv assms]) blast

theorem bootstrap_total_witness:
  "\<exists>db. bootstrapSubscription [mail_v2] mail_v2 20 21 (run_actions mail_actions empty_sub_db) =
    Inr (\<lparr>bt_translated = length (translated_rows mail_v2 (run_actions mail_actions empty_sub_db)),
          bt_superseded = length (filter (older_outstanding (sub_id mail_v2) (sub_version mail_v2))
            (s_deliveries (run_actions mail_actions empty_sub_db)))\<rparr>, db)"
  by (rule bootstrap_total)
     (simp_all add: mail_actions_eq mail_claimed_eq mail_v2_def checkpoint_key_def getDeclaredSubscription_def
       registry_get_def outstanding_once_def claimed_row_def new_row_def event_a_def event_b_def)

text \<open>When two older versions both have to handle an event, which a rolling release brings about, the
  bootstrap of the next version violates the local sequence index, and so does every repetition of it.\<close>

theorem double_outstanding_blocks_bootstrap:
  "bootstrapSubscription [mail_v3] mail_v3 20 21 (run_actions rolling_actions empty_sub_db) =
     Inl (UniqueViolation ''event_subscription_delivery_local_seq_uq'')"
  by (rule rolling_eq)

text \<open>An event that was committed before a version bump but not yet discovered by the old version is
  passed over by the new one, and nothing that happens later hands it out.\<close>

theorem undiscovered_event_is_passed_over:
  "new_row ''mail'' 2 event_a 1 BootstrapSkipped (Some 2) \<in>
     set (s_deliveries (run_actions (late_actions @ as) empty_sub_db))"
  unfolding run_actions_append by (rule run_actions_settled) (simp_all add: settled_def late_eq)

text \<open>
  C38. A slice that nobody disturbs hands out every event, however long it takes. No other worker commits
  in between and the slice's time budget does not run out. The database clock never runs backwards; no more
  than 120 seconds pass from the claim of the checkpoint lease to its first renewal and from each
  renewal to the next, while the slice as a whole may take any multiple of that. Every handler settles
  successfully within its timeout. The checkpoint is active and free (no lease, or an expired one) when the
  slice claims it, every unsettled delivery is due when it starts, and the delivery limit covers the
  backlog. Then the leases hold, no delivery is lost, and the slice leaves no unsettled delivery and a
  delivery for every event of a subscribed action.
\<close>

theorem slice_hands_out_every_event:
  assumes "quiet_env env opts sub"
    and "getDeclaredSubscription reg (sub_id sub) (sub_version sub) = Inr declared"
    and "c \<in> set (s_checkpoints (run_actions as empty_sub_db))" "checkpoint_key c = (sub_id sub, sub_version sub)"
    and "cp_declaration_hash c = sub_hash declared" "cp_status c = Active"
    and "cp_claim_lease_until c = None \<or> lease_expired (cp_claim_lease_until c) (de_clock env 1 0)"
    and "all_due (de_clock env 0 0) (sub_id sub) (sub_version sub) (run_actions as empty_sub_db)"
    and "length (outstanding (sub_id sub) (sub_version sub) (run_actions as empty_sub_db)) +
      length (undelivered declared (run_actions as empty_sub_db)) \<le> max_deliveries opts"
  shows "outstanding (sub_id sub) (sub_version sub) (snd (dispatch_slice env reg opts sub (run_actions as empty_sub_db))) = [] \<and>
    (\<forall>e \<in> set (s_events (run_actions as empty_sub_db)). ev_action e \<in> set (sub_actions declared) \<longrightarrow>
      (\<exists>d \<in> set (s_deliveries (snd (dispatch_slice env reg opts sub (run_actions as empty_sub_db)))).
         delivery_key d = (sub_id sub, sub_version sub, ev_id e)))"
  using slice_drains [OF assms(1) reachable_inv assms(2-9) prod.collapse [symmetric]] by blast

text \<open>A slice with two deliveries that runs for more than 200 seconds, longer than the lease it claimed
  at its start would have lasted.\<close>

theorem slice_hands_out_every_event_witness:
  "outstanding ''mail'' 1 (snd (dispatch_slice quiet_demo [mail_v1] demo_options mail_v1
     (run_actions (take 4 mail_actions) empty_sub_db))) = []"
proof -
  have start: "run_actions (take 4 mail_actions) empty_sub_db = mail_started"
    by (simp add: mail_actions_def mail_started_def)
  let ?c = "\<lparr>cp_subscriber_id = ''mail'', cp_subscriber_version = 1, cp_declaration_hash = ''h1'', cp_status = Active,
       cp_next_delivery_seq = 1, cp_claim_owner = Some ''w1'', cp_claim_token = Some ''k1'',
       cp_claim_lease_until = Some 120000010\<rparr>"
  have v1: "sub_id mail_v1 = ''mail''" "sub_version mail_v1 = 1" "sub_hash mail_v1 = ''h1''" by (simp_all add: mail_v1_def)
  have clock: "de_clock quiet_demo k j = 200000000 + 25000000 * int k" for k j by (simp add: quiet_demo_def)
  have "outstanding (sub_id mail_v1) (sub_version mail_v1) (snd (dispatch_slice quiet_demo [mail_v1] demo_options mail_v1
     (run_actions (take 4 mail_actions) empty_sub_db))) = []"
    by (rule slice_hands_out_every_event [where declared = mail_v1 and c = ?c, THEN conjunct1])
       (simp_all add: start mail_started_eq v1 checkpoint_key_def quiet_demo getDeclaredSubscription_def registry_get_def
         clock lease_expired_def all_due_def open_deliveries_def outstanding_def undelivered_def demo_limit)
  then show ?thesis by (simp add: v1)
qed

text \<open>
  C39. Recorded failures are bounded. When no worker records a failure with a limit above m, the failures
  recorded on a delivery (\<open>attempt_count\<close>) are at most m plus the number of its redrives, and strictly fewer
  while it is not settled. Only recorded failures are counted: a claim whose lease runs out is taken over
  and the event handled again without one, so the number of times a handler runs has no such bound.
\<close>

theorem recorded_failures_bounded:
  assumes "1 \<le> m" "\<forall>(reg, a) \<in> set as. fails_within m a" "d \<in> set (s_deliveries (run_actions as empty_sub_db))"
  shows "within_attempts m d"
  using run_actions_attempts [of empty_sub_db m as] assms by (simp add: empty_sub_db_def)

theorem recorded_failures_bounded_witness:
  "within_attempts 2 (claimed_row ''w1'' ''t1'' 12 (new_row ''mail'' 1 event_a 1 Pending None))"
  by (rule recorded_failures_bounded [of 2 mail_actions]) (simp_all add: mail_actions_eq mail_claimed_eq, simp add: mail_actions_def)

text \<open>
  The counts of a dispatch cycle add up: whatever the handlers, the clock and the other workers do, a
  cycle that accepts its options reports as dispatched the sum of the succeeded, skipped, retried,
  dead and lost deliveries, and no more than the limit per subscription allows.
\<close>

theorem cycle_counts_reconcile:
  assumes "runSubscriptionDispatchCycle envs reg opts db = Inr (r, db')"
  shows "cr_dispatched r = cr_succeeded r + cr_skipped r + cr_retryScheduled r + cr_deadLettered r + cr_lostLease r \<and>
    cr_dispatched r \<le> length reg * max_deliveries opts"
  using cycle_counts [OF assms] by (simp add: reconciled_def)

theorem cycle_counts_reconcile_witness:
  "\<exists>r db'. runSubscriptionDispatchCycle (\<lambda>_. quiet_demo) [mail_v1] demo_options mail_started = Inr (r, db') \<and>
     cr_dispatched r = 2 \<and> cr_succeeded r + cr_skipped r + cr_retryScheduled r + cr_deadLettered r + cr_lostLease r = 2"
proof -
  obtain r db' where r: "runSubscriptionDispatchCycle (\<lambda>_. quiet_demo) [mail_v1] demo_options mail_started = Inr (r, db')"
    "cr_dispatched r = 2"
    using demo_cycle by (auto split: sum.splits prod.splits)
  with cycle_counts_reconcile [OF r(1)] show ?thesis by auto
qed

end
