(* ===== verification/ProposalSignals.thy ===== *)
theory ProposalSignals
  imports KnowledgeEdgeFold Complex_Main
begin

text \<open>
  The decision signals of proposals: \<open>src/src/kernel/proposals/signals.ts\<close> over the table
  \<open>proposal_signals\<close> of \<open>src/src/db/schema/events.ts\<close>. One row per pair of kind and cooldown key
  counts the learner's accepts and dismisses and holds the cooldown of the last dismiss.

  Each writer takes the advisory lock of its key for its whole transaction, so it is one function
  on the table. Random ids and clock readings are arguments; \<open>real4\<close> rounds to a \<open>real\<close> column. The
  rows that a query without a total order returns are in the order of the list.
\<close>

section \<open>Rows\<close>

record signal_row =
  ps_id :: string
  ps_kind :: string
  ps_cooldown_key :: string
  ps_accept_count :: int
  ps_dismiss_count :: int
  ps_acceptance_rate :: rat
  ps_dismiss_reason :: "string option"
  ps_cooldown_until :: "int option"
  ps_created_at :: int
  ps_updated_at :: int

definition signal_key :: "signal_row \<Rightarrow> string \<times> string" where
  "signal_key r = (ps_kind r, ps_cooldown_key r)"

record ProposalSignalSource =
  src_id :: string
  src_kind :: string
  src_cooldown_key :: "string option"
  src_suggestion_kind :: "string option"

text \<open>The key a source names; an absent and an empty key are the same.\<close>

definition cooldown_key :: "ProposalSignalSource \<Rightarrow> string option" where
  "cooldown_key p = (case src_cooldown_key p of Some k \<Rightarrow> if k = [] then None else Some k | None \<Rightarrow> None)"

definition is_corrective :: "ProposalSignalSource \<Rightarrow> bool" where
  "is_corrective p \<longleftrightarrow> src_suggestion_kind p = Some ''corrective''"

datatype ProposalSignalDecision = SAccept | SDismiss

datatype signal_error = NotNullViolation

definition PROPOSAL_DISMISS_COOLDOWN_DAYS :: int where
  "PROPOSAL_DISMISS_COOLDOWN_DAYS = 7"

definition dismissCooldownUntil :: "int \<Rightarrow> int" where
  "dismissCooldownUntil now = now + PROPOSAL_DISMISS_COOLDOWN_DAYS * 24 * 60 * 60 * 1000"

text \<open>\<open>num / NULLIF(den, 0)\<close>: \<open>None\<close> is \<open>NULL\<close>.\<close>

definition sql_ratio :: "int \<Rightarrow> int \<Rightarrow> rat option" where
  "sql_ratio num den = (if den = 0 then None else Some (of_int num / of_int den))"

text \<open>\<open>INSERT .. ON CONFLICT (kind, cooldown_key) DO UPDATE SET\<close>, where the new values may fail.\<close>

definition upsert_signal ::
  "signal_row \<Rightarrow> (signal_row \<Rightarrow> signal_error + signal_row) \<Rightarrow> signal_row list \<Rightarrow> signal_error + signal_row list" where
  "upsert_signal new upd tab =
     (case row_by signal_key (signal_key new) tab of
        None \<Rightarrow> Inr (tab @ [new])
      | Some old \<Rightarrow>
          bind_result (upd old) (\<lambda>r. Inr (update_where (\<lambda>x. signal_key x = signal_key new) (\<lambda>_. r) tab)))"

section \<open>The increment\<close>

definition recordProposalDecisionSignalLocked ::
  "(rat \<Rightarrow> rat) \<Rightarrow> string \<Rightarrow> int \<Rightarrow> ProposalSignalSource \<Rightarrow> string \<Rightarrow> ProposalSignalDecision \<Rightarrow> string option \<Rightarrow>
     bool \<Rightarrow> signal_row list \<Rightarrow> signal_error + signal_row list" where
  "recordProposalDecisionSignalLocked real4 sid now proposal key decision dismissReason countsTowardKpi tab =
     (let acceptDelta = (if countsTowardKpi \<and> decision = SAccept then 1 else 0);
          dismissDelta = (if countsTowardKpi \<and> decision = SDismiss then 1 else 0);
          totalDelta = acceptDelta + dismissDelta;
          initialAcceptanceRate = (if totalDelta = 0 then 0 else of_int acceptDelta / of_int totalDelta);
          ratio = (\<lambda>old. sql_ratio (ps_accept_count old + acceptDelta)
                     (ps_accept_count old + ps_dismiss_count old + acceptDelta + dismissDelta));
          new = \<lparr>ps_id = sid, ps_kind = src_kind proposal, ps_cooldown_key = key,
                 ps_accept_count = acceptDelta, ps_dismiss_count = dismissDelta,
                 ps_acceptance_rate = real4 initialAcceptanceRate, ps_dismiss_reason = None,
                 ps_cooldown_until = None, ps_created_at = now, ps_updated_at = now\<rparr>
      in if decision = SAccept then
           upsert_signal new
             (\<lambda>old. case ratio old of
                None \<Rightarrow> Inl NotNullViolation
              | Some q \<Rightarrow> Inr (old\<lparr>ps_accept_count := ps_accept_count old + acceptDelta,
                  ps_dismiss_count := ps_dismiss_count old + dismissDelta,
                  ps_acceptance_rate := real4 q, ps_cooldown_until := None, ps_updated_at := now\<rparr>)) tab
         else
           upsert_signal
             (new\<lparr>ps_dismiss_reason := dismissReason, ps_cooldown_until := Some (dismissCooldownUntil now)\<rparr>)
             (\<lambda>old. Inr (old\<lparr>ps_accept_count := ps_accept_count old + acceptDelta,
                ps_dismiss_count := ps_dismiss_count old + dismissDelta,
                ps_acceptance_rate := real4 (case ratio old of None \<Rightarrow> 0 | Some q \<Rightarrow> q),
                ps_dismiss_reason := dismissReason,
                ps_cooldown_until := Some (dismissCooldownUntil now), ps_updated_at := now\<rparr>)) tab)"

definition recordProposalDecisionSignal ::
  "(rat \<Rightarrow> rat) \<Rightarrow> string \<Rightarrow> int \<Rightarrow> ProposalSignalSource \<Rightarrow> ProposalSignalDecision \<Rightarrow> string option \<Rightarrow>
     signal_row list \<Rightarrow> signal_error + signal_row list" where
  "recordProposalDecisionSignal real4 sid now proposal decision dismissReason tab =
     (case cooldown_key proposal of
        None \<Rightarrow> Inr tab
      | Some key \<Rightarrow>
          if is_corrective proposal \<and> decision = SAccept then Inr tab
          else recordProposalDecisionSignalLocked real4 sid now proposal key decision dismissReason
                 (\<not> is_corrective proposal) tab)"

section \<open>The rebuild from the log\<close>

fun decision_of_rating :: "jsval \<Rightarrow> ProposalSignalDecision option" where
  "decision_of_rating (JStr s) =
     (if s = ''accept'' \<or> s = ''reverse'' \<or> s = ''change_type'' then Some SAccept
      else if s = ''dismiss'' then Some SDismiss else None)"
| "decision_of_rating _ = None"

definition decisionFromRate :: "FoldEvent \<Rightarrow> ProposalSignalDecision option" where
  "decisionFromRate row = decision_of_rating (js_field ''rating'' (fe_payload row))"

definition newerRate :: "FoldEvent option \<Rightarrow> FoldEvent \<Rightarrow> FoldEvent" where
  "newerRate a b = (case a of
       None \<Rightarrow> b
     | Some a' \<Rightarrow> if fe_created_at b > fe_created_at a' \<or>
                    fe_created_at b = fe_created_at a' \<and> fe_id b > fe_id a' then b else a')"

definition ai_proposal_text :: "string \<Rightarrow> FoldEvent \<Rightarrow> string option" where
  "ai_proposal_text field row = jsonb_text field (js_field ''ai_proposal'' (fe_payload row))"

text \<open>The proposals of one kind and key, and the learner's rates on them, newest first.\<close>

definition sibling_rows :: "string \<Rightarrow> string \<Rightarrow> FoldEvent list \<Rightarrow> FoldEvent list" where
  "sibling_rows kind key es =
     filter (\<lambda>e. ai_proposal_text ''kind'' e = Some kind \<and> ai_proposal_text ''cooldown_key'' e = Some key) es"

definition correctiveProposalIds :: "ProposalSignalSource \<Rightarrow> FoldEvent list \<Rightarrow> string list" where
  "correctiveProposalIds proposal proposalRows =
     map fe_id (filter (\<lambda>e. ai_proposal_text ''suggestion_kind'' e = Some ''corrective'') proposalRows) @
     (if is_corrective proposal then [src_id proposal] else [])"

definition user_rate_on :: "string list \<Rightarrow> FoldEvent \<Rightarrow> bool" where
  "user_rate_on ids e \<longleftrightarrow> fe_action e = ''rate'' \<and> fe_actor_kind e = ''user'' \<and>
     (case fe_caused_by e of None \<Rightarrow> False | Some p \<Rightarrow> p \<in> set ids)"

definition rate_order :: "FoldEvent \<Rightarrow> int \<times> string" where
  "rate_order e = (fe_created_at e, fe_id e)"

definition rate_rows :: "string list \<Rightarrow> FoldEvent list \<Rightarrow> FoldEvent list" where
  "rate_rows ids es = rev (sort_key rate_order (filter (user_rate_on ids) es))"

text \<open>\<open>latestRateByProposal\<close>: the first row of each proposal, in the order of the rows.\<close>

fun latest_rates :: "string list \<Rightarrow> FoldEvent list \<Rightarrow> FoldEvent list" where
  "latest_rates seen [] = []"
| "latest_rates seen (row # rows) =
     (case fe_caused_by row of
        None \<Rightarrow> latest_rates seen rows
      | Some p \<Rightarrow> if p = [] \<or> p \<in> set seen then latest_rates seen rows
                  else row # latest_rates (p # seen) rows)"

text \<open>One turn of the loop over the latest rates.\<close>

definition count_rate ::
  "string list \<Rightarrow> int \<times> int \<times> FoldEvent option \<Rightarrow> FoldEvent \<Rightarrow> int \<times> int \<times> FoldEvent option" where
  "count_rate corrective acc row =
     (case acc of (acceptCount, dismissCount, keyLatest) \<Rightarrow>
      case decisionFromRate row of
        None \<Rightarrow> acc
      | Some decision \<Rightarrow>
          let isCorrective = (case fe_caused_by row of None \<Rightarrow> False | Some p \<Rightarrow> p \<in> set corrective);
              acceptCount' = (if \<not> isCorrective \<and> decision = SAccept then acceptCount + 1 else acceptCount);
              dismissCount' = (if \<not> isCorrective \<and> decision = SDismiss then dismissCount + 1 else dismissCount)
          in if isCorrective \<and> decision = SAccept then (acceptCount', dismissCount', keyLatest)
             else (acceptCount', dismissCount', Some (newerRate keyLatest row)))"

definition rebuild_dismiss_reason :: "ProposalSignalSource \<Rightarrow> string option \<Rightarrow> FoldEvent \<Rightarrow> string option" where
  "rebuild_dismiss_reason proposal dismissReason latest =
     (case js_field ''user_note'' (fe_payload latest) of
        JStr s \<Rightarrow> Some s
      | _ \<Rightarrow> if fe_caused_by latest = Some (src_id proposal) then dismissReason else None)"

definition rebuildProposalDecisionSignal ::
  "(rat \<Rightarrow> rat) \<Rightarrow> string \<Rightarrow> int \<Rightarrow> FoldEvent list \<Rightarrow> ProposalSignalSource \<Rightarrow> string option \<Rightarrow>
     signal_row list \<Rightarrow> signal_error + signal_row list" where
  "rebuildProposalDecisionSignal real4 sid now es proposal dismissReason tab =
     (case cooldown_key proposal of
        None \<Rightarrow> Inr tab
      | Some key \<Rightarrow>
          (let proposalRows = sibling_rows (src_kind proposal) key es;
               proposalIds = js_uniq (map fe_id proposalRows @ [src_id proposal]);
               corrective = correctiveProposalIds proposal proposalRows;
               latest = latest_rates [] (rate_rows proposalIds es)
           in case foldl (count_rate corrective) (0, 0, None) latest of
             (acceptCount, dismissCount, keyLatest) \<Rightarrow>
               let total = acceptCount + dismissCount;
                   acceptanceRate = of_int acceptCount / of_int total;
                   dismissed = (case keyLatest of
                      None \<Rightarrow> None | Some r \<Rightarrow> if decisionFromRate r = Some SDismiss then Some r else None);
                   reason = (case dismissed of
                      None \<Rightarrow> None | Some r \<Rightarrow> rebuild_dismiss_reason proposal dismissReason r);
                   cooldownUntil = map_option (\<lambda>r. dismissCooldownUntil (fe_created_at r)) dismissed
               in if total = 0 then Inr tab
                  else upsert_signal
                    \<lparr>ps_id = sid, ps_kind = src_kind proposal, ps_cooldown_key = key,
                     ps_accept_count = acceptCount, ps_dismiss_count = dismissCount,
                     ps_acceptance_rate = real4 acceptanceRate, ps_dismiss_reason = reason,
                     ps_cooldown_until = cooldownUntil, ps_created_at = now, ps_updated_at = now\<rparr>
                    (\<lambda>old. Inr (old\<lparr>ps_accept_count := acceptCount, ps_dismiss_count := dismissCount,
                       ps_acceptance_rate := real4 acceptanceRate, ps_dismiss_reason := reason,
                       ps_cooldown_until := cooldownUntil, ps_updated_at := now\<rparr>)) tab))"

definition ensureProposalDecisionSignal ::
  "(rat \<Rightarrow> rat) \<Rightarrow> string \<Rightarrow> int \<Rightarrow> FoldEvent list \<Rightarrow> ProposalSignalSource \<Rightarrow> string option \<Rightarrow>
     signal_row list \<Rightarrow> signal_error + signal_row list" where
  "ensureProposalDecisionSignal real4 sid now es proposal dismissReason tab =
     (case cooldown_key proposal of
        None \<Rightarrow> Inr tab
      | Some _ \<Rightarrow> rebuildProposalDecisionSignal real4 sid now es proposal dismissReason tab)"

section \<open>Readers\<close>

record ProposalSignalSnapshot =
  sn_acceptance_rate :: rat
  sn_dismiss_reason :: "string option"
  sn_cooldown_until :: "int option"
  sn_accept_count :: int
  sn_dismiss_count :: int

definition toSnapshot :: "signal_row \<Rightarrow> ProposalSignalSnapshot" where
  "toSnapshot r =
     \<lparr>sn_acceptance_rate = ps_acceptance_rate r, sn_dismiss_reason = ps_dismiss_reason r,
      sn_cooldown_until = ps_cooldown_until r, sn_accept_count = ps_accept_count r,
      sn_dismiss_count = ps_dismiss_count r\<rparr>"

text \<open>A map from the ids of the sources; the later of two equal ids wins.\<close>

definition loadProposalSignalsForRows ::
  "signal_row list \<Rightarrow> ProposalSignalSource list \<Rightarrow> (string \<times> ProposalSignalSnapshot) list" where
  "loadProposalSignalsForRows tab rows =
     (let cooldownKeys = js_uniq (List.map_filter cooldown_key rows);
          signalRows = filter (\<lambda>r. ps_cooldown_key r \<in> set cooldownKeys) tab
      in foldl (\<lambda>out row. case cooldown_key row of
             None \<Rightarrow> out
           | Some key \<Rightarrow>
               (case row_by signal_key (src_kind row, key) signalRows of
                  None \<Rightarrow> out
                | Some r \<Rightarrow> AList.update (src_id row) (toSnapshot r) out)) [] rows)"

text \<open>
  The newest running cooldown on any of the keys. \<open>gt(cooldown_until, now)\<close> is false on \<open>NULL\<close>.
\<close>

definition findActiveProposalCooldown ::
  "signal_row list \<Rightarrow> string \<Rightarrow> string list \<Rightarrow> int \<Rightarrow> (string \<times> int) option" where
  "findActiveProposalCooldown tab kind cooldownKeys now =
     (if cooldownKeys = [] then None
      else case rev (sort_key (\<lambda>r. case ps_cooldown_until r of None \<Rightarrow> 0 | Some t \<Rightarrow> t)
                  (filter (\<lambda>r. ps_kind r = kind \<and> ps_cooldown_key r \<in> set cooldownKeys \<and>
                     (case ps_cooldown_until r of None \<Rightarrow> False | Some t \<Rightarrow> now < t)) tab)) of
             [] \<Rightarrow> None
           | r # _ \<Rightarrow> map_option (Pair (ps_cooldown_key r)) (ps_cooldown_until r))"

record ProposalKindAcceptanceRate =
  kr_kind :: string
  kr_accept_count :: int
  kr_dismiss_count :: int
  kr_total :: int
  kr_acceptance_rate :: rat

text \<open>The sums per kind; the order by rate and total, both descending, is stable.\<close>

definition kind_rate :: "signal_row list \<Rightarrow> string \<Rightarrow> ProposalKindAcceptanceRate" where
  "kind_rate tab kind =
     (let rows = filter (\<lambda>r. ps_kind r = kind) tab;
          acceptCount = sum_list (map ps_accept_count rows);
          dismissCount = sum_list (map ps_dismiss_count rows);
          total = acceptCount + dismissCount
      in \<lparr>kr_kind = kind, kr_accept_count = acceptCount, kr_dismiss_count = dismissCount, kr_total = total,
          kr_acceptance_rate = (if total = 0 then 0 else of_int acceptCount / of_int total)\<rparr>)"

definition getProposalAcceptanceRates :: "signal_row list \<Rightarrow> ProposalKindAcceptanceRate list" where
  "getProposalAcceptanceRates tab =
     sort_key (\<lambda>r. (- kr_acceptance_rate r, - kr_total r))
       (filter (\<lambda>r. kr_total r > 0) (map (kind_rate tab) (js_uniq (map ps_kind tab))))"

end
