(* ===== verification/ProposalDecision.thy ===== *)
theory ProposalDecision
  imports ProposalSignals KnowledgeNodeFold KnowledgeEdgeFacts
begin

text \<open>
  The one decision transaction of proposals: \<open>src/src/kernel/proposals/decision-protocol.ts\<close> with
  \<open>applier-helpers.ts\<close>, the retraction of \<open>src/src/server/proposals/retract-action.ts\<close>, and the stale
  marker that \<open>acceptProposal\<close> of \<open>src/src/capabilities/knowledge/server/proposals.ts\<close> writes.

  The database is the event log in the order of insertion (\<open>dispatch_seq\<close> is the position), the signal
  table, and the state of all other tables, whose type is left open: the steps of an owner are programs over
  it. An owner's program is a tree of what it does, with the results of each action as the branches, so
  that it can read anything but writes rates only through the function it is handed. Ids, clock readings and
  the rounding of a \<open>real\<close> column are arguments; usage fields (\<open>task_run_id\<close>, cost) are left out.
\<close>

section \<open>The log\<close>

definition log_row :: "nat \<times> FoldEvent \<Rightarrow> log_event" where
  "log_row = (\<lambda>(i, e). \<lparr>e_id = fe_id e, e_dispatch_seq = int i, e_actor_kind = fe_actor_kind e,
     e_actor_ref = fe_actor_ref e, e_action = fe_action e, e_subject_kind = fe_subject_kind e,
     e_subject_id = fe_subject_id e, e_outcome = fe_outcome e, e_payload = fe_payload e,
     e_created_at = fe_created_at e\<rparr>)"

definition log_view :: "FoldEvent list \<Rightarrow> log_event list" where
  "log_view es = map log_row (enumerate 0 es)"

datatype decision_error =
    ConflictWith string
  | CorrectedAccept CorrectionStatus
  | SecondRate
  | RateCountMismatch
  | MalformedEvent
  | SignalError signal_error
  | StaleCorrectionClock int
  | TargetKeepsChanging
  | OwnerError string

text \<open>The two schemas an event with action \<open>rate\<close> can match.\<close>

definition RateKnowledgeEdge_ok :: "FoldEvent \<Rightarrow> bool" where
  "RateKnowledgeEdge_ok ev \<longleftrightarrow>
     (let p = fe_payload ev in
      fe_actor_kind ev = ''user'' \<and> stableActorRefAllowed ''user'' (fe_actor_ref ev) \<and>
      fe_action ev = ''rate'' \<and> fe_subject_kind ev = ''knowledge_edge'' \<and> fe_outcome ev = Some ''success'' \<and>
      isRecord p \<and>
      js_field ''rating'' p \<in> JStr ` {''accept'', ''dismiss'', ''reverse'', ''change_type'', ''rollback''} \<and>
      (case js_field ''new_relation_type'' p of
         JUndefined \<Rightarrow> js_field ''rating'' p \<noteq> JStr ''change_type''
       | JStr rel \<Rightarrow> RelationTypeSchema rel
       | _ \<Rightarrow> False) \<and>
      (case js_field ''new_direction_reversed'' p of
         JUndefined \<Rightarrow> True | JBool _ \<Rightarrow> True | _ \<Rightarrow> False) \<and>
      (js_field ''rating'' p = JStr ''reverse'' \<longrightarrow> js_field ''new_direction_reversed'' p = JBool True) \<and>
      js_optional js_string (js_field ''user_note'' p) \<noteq> None)"

text \<open>\<open>parseEvent\<close> on rates and on corrections of events; \<open>other\<close> stands for the schemas of all other events.\<close>

definition event_ok :: "(FoldEvent \<Rightarrow> bool) \<Rightarrow> FoldEvent \<Rightarrow> bool" where
  "event_ok other ev =
     (if fe_action ev = ''rate'' then RateEvent_parse ev \<noteq> None \<or> RateKnowledgeEdge_ok ev
      else if fe_action ev = ''correct'' \<and> fe_subject_kind ev = ''event''
        then CorrectEvent_parse (log_row (0, ev)) \<noteq> None
      else other ev)"

text \<open>A duplicate id keeps the first write.\<close>

definition insertEvent :: "(FoldEvent \<Rightarrow> bool) \<Rightarrow> FoldEvent \<Rightarrow> FoldEvent list \<Rightarrow> decision_error + FoldEvent list" where
  "insertEvent other ev es =
     (if \<not> event_ok other ev then Inl MalformedEvent
      else if fe_id ev \<in> fe_id ` set es then Inr es
      else Inr (es @ [ev]))"

fun insertEvents :: "(FoldEvent \<Rightarrow> bool) \<Rightarrow> FoldEvent list \<Rightarrow> FoldEvent list \<Rightarrow> decision_error + FoldEvent list" where
  "insertEvents other [] es = Inr es"
| "insertEvents other (ev # evs) es = bind_result (insertEvent other ev es) (insertEvents other evs)"

section \<open>The recorded rate\<close>

datatype ExistingRateDecision = RAccept | RDismiss | RReverse | RChangeType | RRollback

fun rating_text :: "ExistingRateDecision \<Rightarrow> string" where
  "rating_text RAccept = ''accept''"
| "rating_text RDismiss = ''dismiss''"
| "rating_text RReverse = ''reverse''"
| "rating_text RChangeType = ''change_type''"
| "rating_text RRollback = ''rollback''"

definition recorded_rating :: "jsval \<Rightarrow> ExistingRateDecision option" where
  "recorded_rating v = find (\<lambda>d. v = JStr (rating_text d)) [RAccept, RDismiss, RReverse, RChangeType, RRollback]"

type_synonym RecordedProposalRate = "FoldEvent \<times> ExistingRateDecision"

definition rates_of :: "string \<Rightarrow> FoldEvent list \<Rightarrow> FoldEvent list" where
  "rates_of p es = filter (\<lambda>e. fe_action e = ''rate'' \<and> fe_caused_by e = Some p) es"

definition findExistingRateEvent :: "FoldEvent list \<Rightarrow> string \<Rightarrow> RecordedProposalRate option" where
  "findExistingRateEvent es p =
     (case rates_of p es of
        [] \<Rightarrow> None
      | e # _ \<Rightarrow> map_option (Pair e) (recorded_rating (js_field ''rating'' (fe_payload e))))"

record ProposalDecisionActor =
  pa_kind :: string
  pa_ref :: string

definition USER_DECISION_ACTOR :: ProposalDecisionActor where
  "USER_DECISION_ACTOR = \<lparr>pa_kind = ''user'', pa_ref = ''self''\<rparr>"

record ProposalRateWrite =
  rw_id :: "string option"
  rw_rating :: "ExistingRateDecision option"
  rw_subject :: "(string \<times> string) option"
  rw_created_at :: "int option"
  rw_payload :: "(string \<times> jsval) list"
  rw_omit_user_note :: bool

definition plain_rate :: ProposalRateWrite where
  "plain_rate = \<lparr>rw_id = None, rw_rating = None, rw_subject = None, rw_created_at = None, rw_payload = [],
     rw_omit_user_note = False\<rparr>"

definition js_spread :: "(string \<times> jsval) list \<Rightarrow> (string \<times> jsval) list \<Rightarrow> (string \<times> jsval) list" where
  "js_spread base ext = foldl (\<lambda>b (k, v). AList.update k v b) base ext"

definition rate_event ::
  "string \<Rightarrow> int \<Rightarrow> string \<Rightarrow> ExistingRateDecision \<Rightarrow> string option \<Rightarrow> ProposalRateWrite \<Rightarrow> ProposalDecisionActor \<Rightarrow>
     FoldEvent" where
  "rate_event mint now proposalId rating userNote rate actor =
     \<lparr>fe_id = (case rw_id rate of None \<Rightarrow> mint | Some i \<Rightarrow> i),
      fe_created_at = (case rw_created_at rate of None \<Rightarrow> now | Some t \<Rightarrow> t),
      fe_actor_kind = pa_kind actor, fe_actor_ref = pa_ref actor, fe_action = ''rate'',
      fe_subject_kind = (case rw_subject rate of None \<Rightarrow> ''event'' | Some (k, _) \<Rightarrow> k),
      fe_subject_id = (case rw_subject rate of None \<Rightarrow> proposalId | Some (_, i) \<Rightarrow> i),
      fe_outcome = Some ''success'', fe_caused_by = Some proposalId,
      fe_payload = JObj (js_spread
        ((''rating'', JStr (rating_text rating)) #
         (case userNote of
            Some n \<Rightarrow> if n \<noteq> [] \<and> \<not> rw_omit_user_note rate then [(''user_note'', JStr n)] else []
          | None \<Rightarrow> []))
        (rw_payload rate))\<rparr>"

definition writeRateEvent ::
  "(FoldEvent \<Rightarrow> bool) \<Rightarrow> string \<Rightarrow> int \<Rightarrow> string \<Rightarrow> ExistingRateDecision \<Rightarrow> string option \<Rightarrow> ProposalRateWrite \<Rightarrow>
     ProposalDecisionActor \<Rightarrow> FoldEvent list \<Rightarrow> decision_error + string \<times> FoldEvent list" where
  "writeRateEvent other mint now proposalId rating userNote rate actor es =
     (let ev = rate_event mint now proposalId rating userNote rate actor
      in bind_result (insertEvent other ev es) (\<lambda>es'. Inr (fe_id ev, es')))"

section \<open>Databases and owners' programs\<close>

record 's proposal_db =
  pd_events :: "FoldEvent list"
  pd_signals :: "signal_row list"
  pd_state :: 's

text \<open>What an owner does to the other tables, with the events it writes.\<close>

type_synonym 's owner_write = "FoldEvent list \<Rightarrow> 's \<Rightarrow> decision_error + FoldEvent list \<times> 's"

datatype ('s, 'r) effect =
    Return bool 'r
  | Throw decision_error
  | WriteRate ProposalRateWrite "decision_error + string \<Rightarrow> ('s, 'r) effect"
  | Owner "'s owner_write" "FoldEvent list \<Rightarrow> 's \<Rightarrow> ('s, 'r) effect"

text \<open>
  A preflight: what it reads, and the transactions it commits on its own, each of which begins with the write
  guard. An absent preflight is \<open>Prepared\<close>.
\<close>

datatype ('s, 'p, 'r) preflight =
    Prepared 'p
  | Skip 'r
  | Fail decision_error
  | Look "FoldEvent list \<Rightarrow> 's \<Rightarrow> ('s, 'p, 'r) preflight"
  | Commit "'s owner_write" "decision_error option \<Rightarrow> ('s, 'p, 'r) preflight"

datatype ProposalSignalTiming = InTransaction | AfterCommit

record ('s, 'p, 'r) ProposalAcceptPlan =
  ap_proposal :: ProposalSignalSource
  ap_user_note :: "string option"
  ap_actor :: "ProposalDecisionActor option"
  ap_signal :: ProposalSignalTiming
  ap_rating :: "ExistingRateDecision option"
  ap_replay :: "RecordedProposalRate \<Rightarrow> FoldEvent list \<Rightarrow> 's \<Rightarrow> decision_error + 'r"
  ap_prepare :: "('s, 'p, 'r) preflight"
  ap_effect :: "'p \<Rightarrow> ('s, 'r) effect"

definition requestedRating :: "('s, 'p, 'r) ProposalAcceptPlan \<Rightarrow> ExistingRateDecision" where
  "requestedRating plan = (case ap_rating plan of None \<Rightarrow> RAccept | Some d \<Rightarrow> d)"

definition decision_actor :: "('s, 'p, 'r) ProposalAcceptPlan \<Rightarrow> ProposalDecisionActor" where
  "decision_actor plan = (case ap_actor plan of None \<Rightarrow> USER_DECISION_ACTOR | Some a \<Rightarrow> a)"

definition recordsLearnerSignal :: "('s, 'p, 'r) ProposalAcceptPlan \<Rightarrow> bool" where
  "recordsLearnerSignal plan \<longleftrightarrow> (case ap_actor plan of None \<Rightarrow> True | Some a \<Rightarrow> pa_kind a \<noteq> ''agent'')"

text \<open>One reading of the world outside: schemas, rounding, a fresh rate id, a fresh signal id, the clocks.\<close>

record decision_env =
  dv_other :: "FoldEvent \<Rightarrow> bool"
  dv_real4 :: "rat \<Rightarrow> rat"
  dv_rate_id :: string
  dv_rate_now :: int
  dv_signal_id :: string
  dv_signal_now :: int

section \<open>Under the lock\<close>

datatype LockedDecision = Open | Decided RecordedProposalRate | Corrected CorrectionStatus

definition readDecisionUnderLock :: "FoldEvent list \<Rightarrow> string \<Rightarrow> LockedDecision" where
  "readDecisionUnderLock es proposalId =
     (case findExistingRateEvent es proposalId of
        Some rate \<Rightarrow> Decided rate
      | None \<Rightarrow> let st = getCorrectionStatus (log_view es) proposalId
                in if st \<noteq> Active then Corrected st else Open)"

definition conflictWith :: "RecordedProposalRate \<Rightarrow> decision_error" where
  "conflictWith rate = ConflictWith (rating_text (snd rate))"

definition acceptable :: "ExistingRateDecision \<Rightarrow> LockedDecision \<Rightarrow> decision_error + LockedDecision" where
  "acceptable requested locked =
     (case locked of
        Decided rate \<Rightarrow> if snd rate \<noteq> requested then Inl (conflictWith rate) else Inr locked
      | Corrected st \<Rightarrow> Inl (CorrectedAccept st)
      | Open \<Rightarrow> Inr locked)"

section \<open>Accepting\<close>

definition recordSignal ::
  "decision_env \<Rightarrow> ProposalSignalSource \<Rightarrow> ProposalSignalDecision \<Rightarrow> string option \<Rightarrow> 's proposal_db \<Rightarrow>
     decision_error + 's proposal_db" where
  "recordSignal env proposal decision reason db =
     (case recordProposalDecisionSignal (dv_real4 env) (dv_signal_id env) (dv_signal_now env) proposal decision reason
             (pd_signals db) of
        Inl e \<Rightarrow> Inl (SignalError e) | Inr tab \<Rightarrow> Inr (db\<lparr>pd_signals := tab\<rparr>))"

definition ensureSignal ::
  "decision_env \<Rightarrow> ProposalSignalSource \<Rightarrow> string option \<Rightarrow> 's proposal_db \<Rightarrow> decision_error + 's proposal_db" where
  "ensureSignal env proposal reason db =
     (case ensureProposalDecisionSignal (dv_real4 env) (dv_signal_id env) (dv_signal_now env) (pd_events db) proposal
             reason (pd_signals db) of
        Inl e \<Rightarrow> Inl (SignalError e) | Inr tab \<Rightarrow> Inr (db\<lparr>pd_signals := tab\<rparr>))"

text \<open>The function \<open>writeRate\<close> of the effect context, with its counter.\<close>

definition ctx_writeRate ::
  "decision_env \<Rightarrow> string \<Rightarrow> ('s, 'p, 'r) ProposalAcceptPlan \<Rightarrow> ProposalRateWrite \<Rightarrow> nat \<Rightarrow> FoldEvent list \<Rightarrow>
     (decision_error + string) \<times> FoldEvent list" where
  "ctx_writeRate env proposalId plan rate rateWrites es =
     (if rateWrites > 1 then (Inl SecondRate, es)
      else case writeRateEvent (dv_other env) (dv_rate_id env) (dv_rate_now env) proposalId
                  (case rw_rating rate of None \<Rightarrow> requestedRating plan | Some d \<Rightarrow> d) (ap_user_note plan) rate
                  (decision_actor plan) es of
             Inl e \<Rightarrow> (Inl e, es)
           | Inr (i, es') \<Rightarrow> (Inr i, es'))"

definition owner_step ::
  "(FoldEvent \<Rightarrow> bool) \<Rightarrow> 's owner_write \<Rightarrow> FoldEvent list \<Rightarrow> 's \<Rightarrow> decision_error + FoldEvent list \<times> 's" where
  "owner_step other f es s =
     bind_result (f es s) (\<lambda>(evs, s'). bind_result (insertEvents other evs es) (\<lambda>es'. Inr (es', s')))"

text \<open>The effect in its transaction: whether it accepted, its result, the number of rates, and the tables.\<close>

primrec run_effect ::
  "('s, 'r) effect \<Rightarrow> decision_env \<Rightarrow> string \<Rightarrow> ('s, 'p, 'r) ProposalAcceptPlan \<Rightarrow> nat \<Rightarrow> FoldEvent list \<Rightarrow> 's \<Rightarrow>
     decision_error + (bool \<times> 'r) \<times> nat \<times> FoldEvent list \<times> 's" where
  "run_effect (Return accepted r) env p plan n es s = Inr ((accepted, r), n, es, s)"
| "run_effect (Throw e) env p plan n es s = Inl e"
| "run_effect (WriteRate w k) env p plan n es s =
     (let (res, es') = ctx_writeRate env p plan w (n + 1) es in run_effect (k res) env p plan (n + 1) es' s)"
| "run_effect (Owner f k) env p plan n es s =
     (case owner_step (dv_other env) f es s of
        Inl e \<Rightarrow> Inl e
      | Inr (es', s') \<Rightarrow> run_effect (k es' s') env p plan n es' s')"

text \<open>The rest of the transaction once the proposal is found open.\<close>

definition accept_open ::
  "decision_env \<Rightarrow> string \<Rightarrow> ('s, 'p, 'r) ProposalAcceptPlan \<Rightarrow> 'p \<Rightarrow> 's proposal_db \<Rightarrow>
     decision_error + (bool \<times> 'r) \<times> 's proposal_db" where
  "accept_open env proposalId plan prepared db =
     bind_result (run_effect (ap_effect plan prepared) env proposalId plan 0 (pd_events db) (pd_state db))
       (\<lambda>((accepted, r), rateWrites, es, s).
         let db' = db\<lparr>pd_events := es, pd_state := s\<rparr> in
         if rateWrites \<noteq> (if accepted then 1 else 0) then Inl RateCountMismatch
         else if accepted \<and> ap_signal plan = InTransaction \<and> recordsLearnerSignal plan then
           bind_result (recordSignal env (ap_proposal plan) SAccept (ap_user_note plan) db')
             (\<lambda>db''. Inr ((accepted, r), db''))
         else Inr ((accepted, r), db'))"

datatype 'r ProposalAcceptRun = RunAccepted 'r | RunReplayed 'r | RunSkipped 'r

definition replay_accept ::
  "decision_env \<Rightarrow> ('s, 'p, 'r) ProposalAcceptPlan \<Rightarrow> RecordedProposalRate \<Rightarrow> 's proposal_db \<Rightarrow>
     (decision_error + 'r ProposalAcceptRun) \<times> 's proposal_db" where
  "replay_accept env plan rate db =
     (case (if recordsLearnerSignal plan then ensureSignal env (ap_proposal plan) (ap_user_note plan) db
            else Inr db) of
        Inl e \<Rightarrow> (Inl e, db)
      | Inr db' \<Rightarrow>
          (bind_result (ap_replay plan rate (pd_events db') (pd_state db')) (\<lambda>r. Inr (RunReplayed r)), db'))"

text \<open>The transaction of a preflight, after the lock: the guard, then the owner's writes.\<close>

definition prepare_tx ::
  "decision_env \<Rightarrow> string \<Rightarrow> ExistingRateDecision \<Rightarrow> 's owner_write \<Rightarrow> 's proposal_db \<Rightarrow>
     decision_error + 's proposal_db" where
  "prepare_tx env proposalId requested f db =
     bind_result (acceptable requested (readDecisionUnderLock (pd_events db) proposalId)) (\<lambda>_.
       bind_result (owner_step (dv_other env) f (pd_events db) (pd_state db)) (\<lambda>(es, s).
         Inr (db\<lparr>pd_events := es, pd_state := s\<rparr>)))"

primrec run_preflight ::
  "('s, 'p, 'r) preflight \<Rightarrow> decision_env \<Rightarrow> string \<Rightarrow> ExistingRateDecision \<Rightarrow> 's proposal_db \<Rightarrow>
     (decision_error + 'p + 'r) \<times> 's proposal_db" where
  "run_preflight (Prepared x) env p requested db = (Inr (Inl x), db)"
| "run_preflight (Skip r) env p requested db = (Inr (Inr r), db)"
| "run_preflight (Fail e) env p requested db = (Inl e, db)"
| "run_preflight (Look k) env p requested db =
     run_preflight (k (pd_events db) (pd_state db)) env p requested db"
| "run_preflight (Commit f k) env p requested db =
     (case prepare_tx env p requested f db of
        Inl e \<Rightarrow> run_preflight (k (Some e)) env p requested db
      | Inr db' \<Rightarrow> run_preflight (k None) env p requested db')"

text \<open>The signal of an accept that has just been committed.\<close>

definition signal_after_commit ::
  "decision_env \<Rightarrow> ('s, 'p, 'r) ProposalAcceptPlan \<Rightarrow> 's proposal_db \<Rightarrow> decision_error + 's proposal_db" where
  "signal_after_commit env plan db =
     (if ap_signal plan = AfterCommit \<and> recordsLearnerSignal plan
      then recordSignal env (ap_proposal plan) SAccept (ap_user_note plan) db else Inr db)"

definition accept_transaction ::
  "decision_env \<Rightarrow> string \<Rightarrow> ('s, 'p, 'r) ProposalAcceptPlan \<Rightarrow> 'p \<Rightarrow> 's proposal_db \<Rightarrow>
     decision_error + (RecordedProposalRate + bool \<times> 'r) \<times> 's proposal_db" where
  "accept_transaction env proposalId plan prepared db =
     bind_result (acceptable (requestedRating plan) (readDecisionUnderLock (pd_events db) proposalId)) (\<lambda>locked.
       case locked of
         Decided rate \<Rightarrow> Inr (Inl rate, db)
       | _ \<Rightarrow> bind_result (accept_open env proposalId plan prepared db) (\<lambda>(out, db'). Inr (Inr out, db')))"

definition runProposalAccept ::
  "decision_env \<Rightarrow> string \<Rightarrow> ('s, 'p, 'r) ProposalAcceptPlan \<Rightarrow> 's proposal_db \<Rightarrow>
     (decision_error + 'r ProposalAcceptRun) \<times> 's proposal_db" where
  "runProposalAccept env proposalId plan db =
     (case findExistingRateEvent (pd_events db) proposalId of
        Some recorded \<Rightarrow>
          if snd recorded \<noteq> requestedRating plan then (Inl (conflictWith recorded), db)
          else replay_accept env plan recorded db
      | None \<Rightarrow>
          (case run_preflight (ap_prepare plan) env proposalId (requestedRating plan) db of
             (Inl e, db1) \<Rightarrow> (Inl e, db1)
           | (Inr (Inr r), db1) \<Rightarrow> (Inr (RunSkipped r), db1)
           | (Inr (Inl prepared), db1) \<Rightarrow>
               (case accept_transaction env proposalId plan prepared db1 of
                  Inl e \<Rightarrow> (Inl e, db1)
                | Inr (Inl rate, db2) \<Rightarrow> replay_accept env plan rate db2
                | Inr (Inr (False, r), db2) \<Rightarrow> (Inr (RunSkipped r), db2)
                | Inr (Inr (True, r), db2) \<Rightarrow>
                    (case signal_after_commit env plan db2 of
                       Inl e \<Rightarrow> (Inl e, db2)
                     | Inr db3 \<Rightarrow> (Inr (RunAccepted r), db3)))))"

section \<open>Dismissing\<close>

record 's ProposalDismissPlan =
  dp_proposal :: ProposalSignalSource
  dp_user_note :: "string option"
  dp_signal :: ProposalSignalTiming
  dp_rate_subject :: "(string \<times> string) option"
  dp_effect :: "'s owner_write option"

record ProposalDismissedResult =
  dr_rate_event_id :: "string option"
  dr_idempotent :: bool

definition dismiss_open ::
  "decision_env \<Rightarrow> string \<Rightarrow> 's ProposalDismissPlan \<Rightarrow> 's proposal_db \<Rightarrow>
     decision_error + ProposalDismissedResult \<times> 's proposal_db" where
  "dismiss_open env proposalId plan db =
     bind_result (writeRateEvent (dv_other env) (dv_rate_id env) (dv_rate_now env) proposalId RDismiss
         (dp_user_note plan) (plain_rate\<lparr>rw_subject := dp_rate_subject plan\<rparr>) USER_DECISION_ACTOR (pd_events db))
       (\<lambda>(i, es). bind_result
          (case dp_effect plan of
             None \<Rightarrow> Inr (es, pd_state db)
           | Some f \<Rightarrow> owner_step (dv_other env) f es (pd_state db))
          (\<lambda>(es', s). let db' = db\<lparr>pd_events := es', pd_state := s\<rparr>;
                          out = \<lparr>dr_rate_event_id = Some i, dr_idempotent = False\<rparr>
             in if dp_signal plan = InTransaction then
                  bind_result (recordSignal env (dp_proposal plan) SDismiss (dp_user_note plan) db') (\<lambda>db''. Inr (out, db''))
                else Inr (out, db')))"

definition dismiss_transaction ::
  "decision_env \<Rightarrow> string \<Rightarrow> 's ProposalDismissPlan \<Rightarrow> 's proposal_db \<Rightarrow>
     decision_error + ProposalDismissedResult \<times> 's proposal_db" where
  "dismiss_transaction env proposalId plan db =
     (case readDecisionUnderLock (pd_events db) proposalId of
        Decided rate \<Rightarrow>
          if snd rate \<noteq> RDismiss then Inl (conflictWith rate)
          else Inr (\<lparr>dr_rate_event_id = Some (fe_id (fst rate)), dr_idempotent = True\<rparr>, db)
      | Corrected _ \<Rightarrow> Inr (\<lparr>dr_rate_event_id = None, dr_idempotent = True\<rparr>, db)
      | Open \<Rightarrow> dismiss_open env proposalId plan db)"

definition dismiss_after_commit ::
  "decision_env \<Rightarrow> 's ProposalDismissPlan \<Rightarrow> ProposalDismissedResult \<Rightarrow> 's proposal_db \<Rightarrow>
     decision_error + 's proposal_db" where
  "dismiss_after_commit env plan out db =
     (if \<not> dr_idempotent out \<and> dp_signal plan = AfterCommit
      then recordSignal env (dp_proposal plan) SDismiss (dp_user_note plan) db else Inr db)"

definition runProposalDismiss ::
  "decision_env \<Rightarrow> string \<Rightarrow> 's ProposalDismissPlan \<Rightarrow> 's proposal_db \<Rightarrow>
     (decision_error + ProposalDismissedResult) \<times> 's proposal_db" where
  "runProposalDismiss env proposalId plan db =
     (case dismiss_transaction env proposalId plan db of
        Inl e \<Rightarrow> (Inl e, db)
      | Inr (out, db') \<Rightarrow>
          (case dismiss_after_commit env plan out db' of
             Inl e \<Rightarrow> (Inl e, db')
           | Inr db'' \<Rightarrow> (Inr out, db'')))"

section \<open>Retracting, and the stale marker\<close>

text \<open>The retraction of a proposal; the guard, the owner's reversal and the records are the owner's writes.\<close>

record 's RetractPlan =
  rp_correction_id :: string
  rp_reason_md :: "string option"
  rp_affected_refs :: jsval
  rp_guard :: "FoldEvent list \<Rightarrow> 's \<Rightarrow> decision_error option"
  rp_applier :: "int \<Rightarrow> 's owner_write"

definition correction_event :: "string \<Rightarrow> 's RetractPlan \<Rightarrow> int \<Rightarrow> FoldEvent" where
  "correction_event proposalId plan correctionAt =
     \<lparr>fe_id = rp_correction_id plan, fe_created_at = correctionAt, fe_actor_kind = ''user'', fe_actor_ref = ''self'',
      fe_action = ''correct'', fe_subject_kind = ''event'', fe_subject_id = proposalId,
      fe_outcome = Some ''success'', fe_caused_by = Some proposalId,
      fe_payload = JObj [(''correction_kind'', JStr ''retract''),
        (''reason_md'', JStr (case rp_reason_md plan of
            None \<Rightarrow> ''proposal retracted from inbox'' | Some r \<Rightarrow> r)),
        (''affected_refs'', rp_affected_refs plan)]\<rparr>"

definition retract_tx ::
  "(FoldEvent \<Rightarrow> bool) \<Rightarrow> string \<Rightarrow> 's RetractPlan \<Rightarrow> int \<Rightarrow> 's proposal_db \<Rightarrow> decision_error + 's proposal_db" where
  "retract_tx other proposalId plan correctionAt db =
     (case rp_guard plan (pd_events db) (pd_state db) of
        Some e \<Rightarrow> Inl e
      | None \<Rightarrow>
          bind_result (insertEvent other (correction_event proposalId plan correctionAt) (pd_events db)) (\<lambda>es.
            bind_result (owner_step other (rp_applier plan correctionAt) es (pd_state db)) (\<lambda>(es', s).
              Inr (db\<lparr>pd_events := es', pd_state := s\<rparr>))))"

text \<open>Three attempts; \<open>clocks\<close> are the readings of the clock, and the floor moves past the observed state.\<close>

fun retract_attempts ::
  "(FoldEvent \<Rightarrow> bool) \<Rightarrow> string \<Rightarrow> 's RetractPlan \<Rightarrow> int list \<Rightarrow> int \<Rightarrow> 's proposal_db \<Rightarrow>
     (decision_error + string) \<times> 's proposal_db" where
  "retract_attempts other p plan [] correctionFloor db = (Inr (rp_correction_id plan), db)"
| "retract_attempts other p plan (now # clocks) correctionFloor db =
     (case retract_tx other p plan (max now correctionFloor) db of
        Inr db' \<Rightarrow> (Inr (rp_correction_id plan), db')
      | Inl (StaleCorrectionClock requiredAt) \<Rightarrow>
          if clocks = [] then (Inl TargetKeepsChanging, db)
          else retract_attempts other p plan clocks (max correctionFloor requiredAt) db
      | Inl e \<Rightarrow> (Inl e, db))"

definition retractAiProposal ::
  "(FoldEvent \<Rightarrow> bool) \<Rightarrow> string \<Rightarrow> 's RetractPlan \<Rightarrow> int \<times> int \<times> int \<Rightarrow> 's proposal_db \<Rightarrow>
     (decision_error + string) \<times> 's proposal_db" where
  "retractAiProposal other p plan clocks db =
     (case clocks of (a, b, c) \<Rightarrow> retract_attempts other p plan [a, b, c] 0 db)"

text \<open>The rollback marker of a stale accept, written only while no rate on the event is recorded.\<close>

definition stale_marker :: "decision_env \<Rightarrow> string \<Rightarrow> 's proposal_db \<Rightarrow> decision_error + 's proposal_db" where
  "stale_marker env proposalId db =
     (if list_ex (\<lambda>e. fe_action e = ''rate'' \<and> fe_subject_kind e = ''event'' \<and> fe_caused_by e = Some proposalId)
           (pd_events db) then Inr db
      else bind_result (insertEvent (dv_other env)
          (rate_event (dv_rate_id env) (dv_rate_now env) proposalId RRollback None plain_rate USER_DECISION_ACTOR)
          (pd_events db)) (\<lambda>es. Inr (db\<lparr>pd_events := es\<rparr>)))"

end
