(* ===== verification/ProposalDecisionRuns.thy ===== *)
theory ProposalDecisionRuns
  imports ProposalDecision
begin

text \<open>
  Decisions side by side. Any number of callers accept, dismiss, retract and mark proposals; each caller is
  a program counter, and a step moves one of them over one read, one lock, or one transaction's writes and
  commit. A proposal's advisory lock is held from the step that takes it to the commit or the rollback, so
  two callers never hold it together; everything between those steps may interleave with anything else.
  Any caller may vanish at any moment. Writers outside the protocol append events of their own, and,
  where \<open>unlocked\<close> says so, corrections written without the lock
  (\<open>createEventCorrection\<close> of \<open>src/src/capabilities/observability/server/event-detail.ts\<close>).
\<close>

section \<open>Callers\<close>

datatype ('s, 'p, 'r) caller =
    Idle
  | AcceptStart string "('s, 'p, 'r) ProposalAcceptPlan"
  | Preparing string "('s, 'p, 'r) ProposalAcceptPlan" "('s, 'p, 'r) preflight"
  | PrepareLocked string "('s, 'p, 'r) ProposalAcceptPlan" "'s owner_write" "decision_error option \<Rightarrow> ('s, 'p, 'r) preflight"
  | AcceptReady string "('s, 'p, 'r) ProposalAcceptPlan" 'p
  | AcceptLocked string "('s, 'p, 'r) ProposalAcceptPlan" 'p
  | AcceptUnrated string "('s, 'p, 'r) ProposalAcceptPlan" 'p
  | AcceptOpen string "('s, 'p, 'r) ProposalAcceptPlan" 'p
  | AcceptCommitted string "('s, 'p, 'r) ProposalAcceptPlan" 'r
  | Replaying string "('s, 'p, 'r) ProposalAcceptPlan" RecordedProposalRate
  | AcceptEnded string "'r ProposalAcceptRun"
  | DismissStart string "'s ProposalDismissPlan"
  | DismissLocked string "'s ProposalDismissPlan"
  | DismissUnrated string "'s ProposalDismissPlan"
  | DismissOpen string "'s ProposalDismissPlan"
  | DismissCommitted string "'s ProposalDismissPlan" ProposalDismissedResult
  | DismissEnded string ProposalDismissedResult
  | RetractStart string "'s RetractPlan" int
  | RetractLocked string "'s RetractPlan" int
  | RetractEnded string
  | MarkerStart string
  | MarkerLocked string
  | MarkerEnded string
  | Failed decision_error
  | Vanished

text \<open>The lock a caller holds, the lock it needs for its next move, and the proposal it has decided.\<close>

fun locked_on :: "('s, 'p, 'r) caller \<Rightarrow> string option" where
  "locked_on (PrepareLocked p plan f k) = Some p"
| "locked_on (AcceptLocked p plan x) = Some p"
| "locked_on (AcceptUnrated p plan x) = Some p"
| "locked_on (AcceptOpen p plan x) = Some p"
| "locked_on (DismissLocked p plan) = Some p"
| "locked_on (DismissUnrated p plan) = Some p"
| "locked_on (DismissOpen p plan) = Some p"
| "locked_on (RetractLocked p plan t) = Some p"
| "locked_on (MarkerLocked p) = Some p"
| "locked_on _ = None"

fun needs_lock :: "('s, 'p, 'r) caller \<Rightarrow> string option" where
  "needs_lock (Preparing p plan (Commit f k)) = Some p"
| "needs_lock (AcceptReady p plan x) = Some p"
| "needs_lock (DismissStart p plan) = Some p"
| "needs_lock (RetractStart p plan t) = Some p"
| "needs_lock (MarkerStart p) = Some p"
| "needs_lock _ = None"

fun decided_by :: "('s, 'p, 'r) caller \<Rightarrow> string option" where
  "decided_by (AcceptCommitted p plan r) = Some p"
| "decided_by (AcceptEnded p (RunAccepted r)) = Some p"
| "decided_by (DismissCommitted p plan out) = (if dr_idempotent out then None else Some p)"
| "decided_by (DismissEnded p out) = (if dr_idempotent out then None else Some p)"
| "decided_by _ = None"

fun works_on :: "('s, 'p, 'r) caller \<Rightarrow> string option" where
  "works_on Idle = None"
| "works_on (AcceptStart p plan) = Some p"
| "works_on (Preparing p plan pre) = Some p"
| "works_on (PrepareLocked p plan f k) = Some p"
| "works_on (AcceptReady p plan x) = Some p"
| "works_on (AcceptLocked p plan x) = Some p"
| "works_on (AcceptUnrated p plan x) = Some p"
| "works_on (AcceptOpen p plan x) = Some p"
| "works_on (AcceptCommitted p plan r) = Some p"
| "works_on (Replaying p plan rate) = Some p"
| "works_on (AcceptEnded p out) = Some p"
| "works_on (DismissStart p dplan) = Some p"
| "works_on (DismissLocked p dplan) = Some p"
| "works_on (DismissUnrated p dplan) = Some p"
| "works_on (DismissOpen p dplan) = Some p"
| "works_on (DismissCommitted p dplan out') = Some p"
| "works_on (DismissEnded p out') = Some p"
| "works_on (RetractStart p rplan t) = Some p"
| "works_on (RetractLocked p rplan t) = Some p"
| "works_on (RetractEnded p) = Some p"
| "works_on (MarkerStart p) = Some p"
| "works_on (MarkerLocked p) = Some p"
| "works_on (MarkerEnded p) = Some p"
| "works_on (Failed e) = None"
| "works_on Vanished = None"

text \<open>The proposal a caller has found unrated, and open, under its lock.\<close>

fun unrated_on :: "('s, 'p, 'r) caller \<Rightarrow> string option" where
  "unrated_on (AcceptUnrated p plan x) = Some p"
| "unrated_on (AcceptOpen p plan x) = Some p"
| "unrated_on (DismissUnrated p dplan) = Some p"
| "unrated_on (DismissOpen p dplan) = Some p"
| "unrated_on _ = None"

fun open_on :: "('s, 'p, 'r) caller \<Rightarrow> string option" where
  "open_on (AcceptOpen p plan x) = Some p"
| "open_on (DismissOpen p dplan) = Some p"
| "open_on _ = None"

fun starting :: "('s, 'p, 'r) caller \<Rightarrow> bool" where
  "starting (AcceptStart p plan) = True"
| "starting (DismissStart p plan) = True"
| "starting (RetractStart p plan t) = True"
| "starting (MarkerStart p) = True"
| "starting _ = False"

section \<open>One move of a caller\<close>

definition take_out :: "('s proposal_db \<Rightarrow> 'a \<Rightarrow> 's proposal_db \<times> ('s, 'p, 'r) caller) \<Rightarrow> 's proposal_db \<Rightarrow>
    decision_error + 'a \<times> 's proposal_db \<Rightarrow> 's proposal_db \<times> ('s, 'p, 'r) caller" where
  "take_out f db res = (case res of Inl e \<Rightarrow> (db, Failed e) | Inr (a, db') \<Rightarrow> f db' a)"

fun advance :: "decision_env \<Rightarrow> 's proposal_db \<Rightarrow> ('s, 'p, 'r) caller \<Rightarrow> 's proposal_db \<times> ('s, 'p, 'r) caller" where
  "advance env db (AcceptStart p plan) =
     (case findExistingRateEvent (pd_events db) p of
        None \<Rightarrow> (db, Preparing p plan (ap_prepare plan))
      | Some rate \<Rightarrow> if snd rate \<noteq> requestedRating plan then (db, Failed (conflictWith rate))
                     else (db, Replaying p plan rate))"
| "advance env db (Preparing p plan (Prepared x)) = (db, AcceptReady p plan x)"
| "advance env db (Preparing p plan (Skip r)) = (db, AcceptEnded p (RunSkipped r))"
| "advance env db (Preparing p plan (Fail e)) = (db, Failed e)"
| "advance env db (Preparing p plan (Look k)) = (db, Preparing p plan (k (pd_events db) (pd_state db)))"
| "advance env db (Preparing p plan (Commit f k)) = (db, PrepareLocked p plan f k)"
| "advance env db (PrepareLocked p plan f k) =
     (case prepare_tx env p (requestedRating plan) f db of
        Inl e \<Rightarrow> (db, Preparing p plan (k (Some e)))
      | Inr db' \<Rightarrow> (db', Preparing p plan (k None)))"
| "advance env db (AcceptReady p plan x) = (db, AcceptLocked p plan x)"
| "advance env db (AcceptLocked p plan x) =
     (case findExistingRateEvent (pd_events db) p of
        None \<Rightarrow> (db, AcceptUnrated p plan x)
      | Some rate \<Rightarrow> if snd rate \<noteq> requestedRating plan then (db, Failed (conflictWith rate))
                     else (db, Replaying p plan rate))"
| "advance env db (AcceptUnrated p plan x) =
     (let st = getCorrectionStatus (log_view (pd_events db)) p
      in if st \<noteq> Active then (db, Failed (CorrectedAccept st)) else (db, AcceptOpen p plan x))"
| "advance env db (AcceptOpen p plan x) =
     take_out (\<lambda>db' (accepted, r).
         (db', if accepted then AcceptCommitted p plan r else AcceptEnded p (RunSkipped r))) db
       (accept_open env p plan x db)"
| "advance env db (AcceptCommitted p plan r) =
     take_out (\<lambda>db' _. (db', AcceptEnded p (RunAccepted r))) db
       (bind_result (signal_after_commit env plan db) (\<lambda>db'. Inr ((), db')))"
| "advance env db (Replaying p plan rate) =
     (case replay_accept env plan rate db of
        (Inl e, db') \<Rightarrow> (db', Failed e)
      | (Inr out, db') \<Rightarrow> (db', AcceptEnded p out))"
| "advance env db (DismissStart p dplan) = (db, DismissLocked p dplan)"
| "advance env db (DismissLocked p dplan) =
     (case findExistingRateEvent (pd_events db) p of
        None \<Rightarrow> (db, DismissUnrated p dplan)
      | Some rate \<Rightarrow>
          if snd rate \<noteq> RDismiss then (db, Failed (conflictWith rate))
          else (db, DismissEnded p \<lparr>dr_rate_event_id = Some (fe_id (fst rate)), dr_idempotent = True\<rparr>))"
| "advance env db (DismissUnrated p dplan) =
     (if getCorrectionStatus (log_view (pd_events db)) p \<noteq> Active
      then (db, DismissEnded p \<lparr>dr_rate_event_id = None, dr_idempotent = True\<rparr>)
      else (db, DismissOpen p dplan))"
| "advance env db (DismissOpen p dplan) =
     take_out (\<lambda>db' out. (db', DismissCommitted p dplan out)) db (dismiss_open env p dplan db)"
| "advance env db (DismissCommitted p dplan out) =
     take_out (\<lambda>db' _. (db', DismissEnded p out)) db
       (bind_result (dismiss_after_commit env dplan out db) (\<lambda>db'. Inr ((), db')))"
| "advance env db (RetractStart p rplan t) = (db, RetractLocked p rplan t)"
| "advance env db (RetractLocked p rplan t) =
     (case retract_tx (dv_other env) p rplan (max (dv_rate_now env) t) db of
        Inr db' \<Rightarrow> (db', RetractEnded p)
      | Inl (StaleCorrectionClock t') \<Rightarrow> (db, RetractStart p rplan (max t t'))
      | Inl e \<Rightarrow> (db, Failed e))"
| "advance env db (MarkerStart p) = (db, MarkerLocked p)"
| "advance env db (MarkerLocked p) =
     (case stale_marker env p db of Inl e \<Rightarrow> (db, Failed e) | Inr db' \<Rightarrow> (db', MarkerEnded p))"
| "advance env db pc = (db, pc)"

section \<open>What owners and others are trusted with\<close>

text \<open>
  Events written outside \<open>writeRate\<close>: a rate only decides an event written with it, and none corrects
  a proposal of \<open>P\<close>, the ids the protocol is asked about.
\<close>

abbreviation ids :: "FoldEvent list \<Rightarrow> string set" where
  "ids es \<equiv> fe_id ` set es"

definition corrects :: "string \<Rightarrow> FoldEvent \<Rightarrow> bool" where
  "corrects p e \<longleftrightarrow> fe_action e = ''correct'' \<and> fe_subject_kind e = ''event'' \<and> fe_subject_id e = p"

definition quiet :: "string set \<Rightarrow> FoldEvent list \<Rightarrow> FoldEvent list \<Rightarrow> bool" where
  "quiet P es evs \<longleftrightarrow>
     (\<forall>ev\<in>set evs. fe_action ev = ''rate'' \<longrightarrow>
        (case fe_caused_by ev of None \<Rightarrow> False | Some q \<Rightarrow> q \<notin> ids es \<and> q \<in> ids evs)) \<and>
     distinct (map fe_caused_by (filter (\<lambda>e. fe_action e = ''rate'') evs)) \<and>
     (\<forall>ev\<in>set evs. \<forall>p\<in>P. \<not> corrects p ev)"

definition owner_quiet :: "string set \<Rightarrow> 's owner_write \<Rightarrow> FoldEvent list \<Rightarrow> 's \<Rightarrow> bool" where
  "owner_quiet P f es s \<longleftrightarrow> (case f es s of Inl _ \<Rightarrow> True | Inr (evs, _) \<Rightarrow> quiet P es evs)"

definition rate_id :: "decision_env \<Rightarrow> ProposalRateWrite \<Rightarrow> string" where
  "rate_id env w = (case rw_id w of None \<Rightarrow> dv_rate_id env | Some i \<Rightarrow> i)"

text \<open>Along a run of the effect: its rate has a new id, and an error of \<open>writeRate\<close> is not caught.\<close>

primrec effect_quiet ::
  "('s, 'r) effect \<Rightarrow> decision_env \<Rightarrow> string \<Rightarrow> ('s, 'p, 'r) ProposalAcceptPlan \<Rightarrow> string set \<Rightarrow> nat \<Rightarrow>
     FoldEvent list \<Rightarrow> 's \<Rightarrow> bool" where
  "effect_quiet (Return accepted r) env p plan P n es s \<longleftrightarrow> True"
| "effect_quiet (Throw e) env p plan P n es s \<longleftrightarrow> True"
| "effect_quiet (WriteRate w k) env p plan P n es s \<longleftrightarrow>
     (\<forall>e. k (Inl e) = Throw e) \<and> (n = 0 \<longrightarrow> rate_id env w \<notin> ids es) \<and>
     (let (res, es') = ctx_writeRate env p plan w (n + 1) es in effect_quiet (k res) env p plan P (n + 1) es' s)"
| "effect_quiet (Owner f k) env p plan P n es s \<longleftrightarrow>
     owner_quiet P f es s \<and>
     (case owner_step (dv_other env) f es s of
        Inl e \<Rightarrow> True | Inr (es', s') \<Rightarrow> effect_quiet (k es' s') env p plan P n es' s')"

fun trusted :: "string set \<Rightarrow> decision_env \<Rightarrow> 's proposal_db \<Rightarrow> ('s, 'p, 'r) caller \<Rightarrow> bool" where
  "trusted P env db (PrepareLocked p plan f k) \<longleftrightarrow> owner_quiet P f (pd_events db) (pd_state db)"
| "trusted P env db (AcceptOpen p plan x) \<longleftrightarrow>
     effect_quiet (ap_effect plan x) env p plan P 0 (pd_events db) (pd_state db)"
| "trusted P env db (DismissOpen p dplan) \<longleftrightarrow>
     dv_rate_id env \<notin> ids (pd_events db) \<and>
     (case dp_effect dplan of
        None \<Rightarrow> True
      | Some f \<Rightarrow>
          (case writeRateEvent (dv_other env) (dv_rate_id env) (dv_rate_now env) p RDismiss (dp_user_note dplan)
                  (plain_rate\<lparr>rw_subject := dp_rate_subject dplan\<rparr>) USER_DECISION_ACTOR (pd_events db) of
             Inl e \<Rightarrow> True
           | Inr (i, es) \<Rightarrow> owner_quiet P f es (pd_state db)))"
| "trusted P env db (RetractLocked p rplan t) \<longleftrightarrow>
     (case insertEvent (dv_other env) (correction_event p rplan (max (dv_rate_now env) t)) (pd_events db) of
        Inl e \<Rightarrow> True
      | Inr es \<Rightarrow> owner_quiet P (rp_applier rplan (max (dv_rate_now env) t)) es (pd_state db))"
| "trusted P env db (MarkerLocked p) \<longleftrightarrow> (\<forall>e\<in>set (rates_of p (pd_events db)). fe_subject_kind e = ''event'')"
| "trusted P env db pc \<longleftrightarrow> True"

section \<open>Steps\<close>

record ('s, 'p, 'r) decision_system =
  sy_db :: "'s proposal_db"
  sy_pc :: "nat \<Rightarrow> ('s, 'p, 'r) caller"

inductive decision_step ::
  "string set \<Rightarrow> bool \<Rightarrow> ('s, 'p, 'r) decision_system \<Rightarrow> ('s, 'p, 'r) decision_system \<Rightarrow> bool"
  for P unlocked where
  submit: "sy_pc s c = Idle \<Longrightarrow> starting x \<Longrightarrow> works_on x = Some p \<Longrightarrow> p \<in> P \<Longrightarrow>
    p \<in> ids (pd_events (sy_db s)) \<Longrightarrow>
    decision_step P unlocked s (s\<lparr>sy_pc := (sy_pc s)(c := x)\<rparr>)"
| move: "\<forall>p d. needs_lock (sy_pc s c) = Some p \<longrightarrow> locked_on (sy_pc s d) \<noteq> Some p \<Longrightarrow>
    trusted P env (sy_db s) (sy_pc s c) \<Longrightarrow> advance env (sy_db s) (sy_pc s c) = (db', x) \<Longrightarrow>
    decision_step P unlocked s \<lparr>sy_db = db', sy_pc = (sy_pc s)(c := x)\<rparr>"
| vanish: "sy_pc s c \<noteq> Idle \<Longrightarrow> decision_step P unlocked s (s\<lparr>sy_pc := (sy_pc s)(c := Vanished)\<rparr>)"
| outside: "quiet P (pd_events (sy_db s)) evs \<Longrightarrow> insertEvents other evs (pd_events (sy_db s)) = Inr es' \<Longrightarrow>
    decision_step P unlocked s (s\<lparr>sy_db := (sy_db s)\<lparr>pd_events := es', pd_state := st'\<rparr>\<rparr>)"
| correct: "unlocked \<Longrightarrow> corrects q ev \<Longrightarrow> insertEvent other ev (pd_events (sy_db s)) = Inr es' \<Longrightarrow>
    decision_step P unlocked s (s\<lparr>sy_db := (sy_db s)\<lparr>pd_events := es'\<rparr>\<rparr>)"

inductive decision_run ::
  "string set \<Rightarrow> bool \<Rightarrow> ('s, 'p, 'r) decision_system \<Rightarrow> ('s, 'p, 'r) decision_system \<Rightarrow> bool"
  for P unlocked s where
  none: "decision_run P unlocked s s"
| more: "decision_run P unlocked s s' \<Longrightarrow> decision_step P unlocked s' s'' \<Longrightarrow> decision_run P unlocked s s''"

definition quiescent :: "('s, 'p, 'r) decision_system \<Rightarrow> bool" where
  "quiescent s \<longleftrightarrow> (\<forall>c. sy_pc s c = Idle)"

end
