(* ===== verification/ProposalDecisionInvariants.thy ===== *)
theory ProposalDecisionInvariants
  imports ProposalDecisionRuns "HOL-Library.Sublist"
begin

text \<open>
  What every step of the decision protocol keeps: the log only grows, a proposal is rated at most once,
  a caller that has found the proposal unrated under its lock is right until it lets go, and at most one
  caller has decided it.
\<close>

section \<open>Logs that grow\<close>

definition log_ok :: "FoldEvent list \<Rightarrow> bool" where
  "log_ok es \<longleftrightarrow> distinct (map fe_id es) \<and> (\<forall>p. length (rates_of p es) \<le> 1) \<and>
     (\<forall>e\<in>set es. fe_action e = ''rate'' \<longrightarrow>
        (\<exists>q\<in>ids es. fe_caused_by e = Some q) \<and> recorded_rating (js_field ''rating'' (fe_payload e)) \<noteq> None)"

lemma rates_of_append [simp]: "rates_of p (xs @ ys) = rates_of p xs @ rates_of p ys"
  by (simp add: rates_of_def)

lemma rates_of_simps [simp]:
  "rates_of p [] = []"
  "rates_of p (e # es) =
     (if fe_action e = ''rate'' \<and> fe_caused_by e = Some p then e # rates_of p es else rates_of p es)"
  by (simp_all add: rates_of_def)

lemma log_ok_unrated: "log_ok es \<Longrightarrow> q \<notin> ids es \<Longrightarrow> rates_of q es = []"
  by (force simp: log_ok_def rates_of_def filter_empty_conv)

lemma log_okD:
  "log_ok es \<Longrightarrow> length (rates_of p es) \<le> 1"
  "log_ok es \<Longrightarrow> e \<in> set es \<Longrightarrow> fe_action e = ''rate'' \<Longrightarrow> \<exists>q\<in>ids es. fe_caused_by e = Some q"
  "log_ok es \<Longrightarrow> e \<in> set es \<Longrightarrow> fe_action e = ''rate'' \<Longrightarrow>
     recorded_rating (js_field ''rating'' (fe_payload e)) \<noteq> None"
  "log_ok es \<Longrightarrow> distinct (map fe_id es)"
  unfolding log_ok_def by blast+

lemma recorded_rating_text [simp]: "recorded_rating (JStr (rating_text d)) = Some d"
  by (cases d) (simp_all add: recorded_rating_def)

lemma rated_event_ok:
  assumes "event_ok other ev" "fe_action ev = ''rate''"
  shows "recorded_rating (js_field ''rating'' (fe_payload ev)) \<noteq> None"
proof -
  have "js_field ''rating'' (fe_payload ev) \<in>
      JStr ` {''accept'', ''dismiss'', ''reverse'', ''change_type'', ''rollback''}"
  proof (cases "RateEvent_parse ev")
    case None
    then show ?thesis using assms by (simp add: event_ok_def RateKnowledgeEdge_ok_def Let_def)
  next
    case (Some r)
    then have "rate_rating_parse (js_field ''rating'' (fe_payload ev)) \<noteq> None"
      by (auto simp: RateEvent_parse_def Let_def split: if_splits option.splits)
    then show ?thesis by (auto simp: rate_rating_parse_def split: if_splits)
  qed
  then show ?thesis by (auto simp: recorded_rating_def)
qed

lemma insertEvent_Inr:
  "insertEvent other ev es = Inr es' \<longleftrightarrow>
     event_ok other ev \<and> es' = (if fe_id ev \<in> ids es then es else es @ [ev])"
  by (auto simp: insertEvent_def)

lemma insertEvent_distinct:
  "insertEvent other ev es = Inr es' \<Longrightarrow> distinct (map fe_id es) \<Longrightarrow> distinct (map fe_id es')"
  by (auto simp: insertEvent_Inr)

lemma insertEvents_distinct:
  "insertEvents other evs es = Inr es' \<Longrightarrow> distinct (map fe_id es) \<Longrightarrow> distinct (map fe_id es')"
  by (induction evs arbitrary: es) (auto simp: bind_result_Inr_iff dest: insertEvent_distinct)

text \<open>
  \<open>grows P D es es'\<close>: the log grew, is still in order, no rate changed for ids it knew except those
  in \<open>D\<close>, and no proposal of \<open>P\<close> was corrected.
\<close>

definition grows :: "string set \<Rightarrow> string set \<Rightarrow> FoldEvent list \<Rightarrow> FoldEvent list \<Rightarrow> bool" where
  "grows P D es es' \<longleftrightarrow> log_ok es' \<and>
     (\<exists>new. es' = es @ new \<and> (\<forall>e\<in>set new. \<forall>p\<in>P. \<not> corrects p e)) \<and>
     (\<forall>q\<in>ids es. q \<notin> D \<longrightarrow> rates_of q es' = rates_of q es)"

lemma grows_refl: "log_ok es \<Longrightarrow> grows P D es es"
  by (simp add: grows_def)

lemma grows_trans: "grows P D es es' \<Longrightarrow> grows P D es' es'' \<Longrightarrow> grows P D es es''"
  by (fastforce simp: grows_def)

lemma grows_mono: "grows P D es es' \<Longrightarrow> D \<subseteq> E \<Longrightarrow> grows P E es es'"
  by (auto simp: grows_def)

lemma grows_ids: "grows P D es es' \<Longrightarrow> ids es \<subseteq> ids es'"
  by (auto simp: grows_def)

lemma grows_log_ok: "grows P D es es' \<Longrightarrow> log_ok es'"
  by (simp add: grows_def)

lemma grows_rates: "grows P D es es' \<Longrightarrow> q \<in> ids es \<Longrightarrow> q \<notin> D \<Longrightarrow> rates_of q es' = rates_of q es"
  unfolding grows_def by blast

text \<open>The correction status reads the corrections of its target only.\<close>

lemma log_view_append:
  "log_view (xs @ ys) = log_view xs @ map log_row (enumerate (length xs) ys)"
  by (simp add: log_view_def enumerate_append_eq)

lemma correction_rows_append:
  assumes "\<forall>e\<in>set new. \<not> corrects p e"
  shows "getCorrectionStatus (log_view (es @ new)) p = getCorrectionStatus (log_view es) p"
proof -
  have "filter (\<lambda>e. e_action e = ''correct'' \<and> e_subject_kind e = ''event'' \<and> e_subject_id e = p)
      (map log_row (enumerate (length es) new)) = []"
    using assms by (auto simp: filter_empty_conv log_row_def corrects_def enumerate_eq_zip dest!: set_zip_rightD)
  then show ?thesis
    by (simp add: getCorrectionStatus_def getCorrectionStatuses_def correction_rows_def log_view_append js_uniq_def)
qed

lemma grows_status:
  "grows P D es es' \<Longrightarrow> p \<in> P \<Longrightarrow> getCorrectionStatus (log_view es') p = getCorrectionStatus (log_view es) p"
  by (auto simp: grows_def correction_rows_append)

section \<open>Events of owners\<close>

lemma insertEvents_Inr:
  "insertEvents other evs es = Inr es' \<Longrightarrow>
     \<exists>new. es' = es @ new \<and> subseq new evs \<and> (\<forall>e\<in>set new. event_ok other e) \<and> ids es' = ids es \<union> ids evs"
proof (induction evs arbitrary: es)
  case Nil
  then show ?case by simp
next
  case (Cons ev evs)
  then obtain es1 where i: "insertEvent other ev es = Inr es1" "insertEvents other evs es1 = Inr es'"
    by (auto simp: bind_result_Inr_iff)
  obtain new where n: "es' = es1 @ new" "subseq new evs" "\<forall>e\<in>set new. event_ok other e"
      "ids es' = ids es1 \<union> ids evs"
    using Cons.IH [OF i(2)] by blast
  show ?case
  proof (cases "fe_id ev \<in> ids es")
    case True
    then have "es1 = es" using i(1) by (simp add: insertEvent_Inr)
    then show ?thesis using n True by (intro exI [of _ new]) auto
  next
    case False
    then have "es1 = es @ [ev]" "event_ok other ev" using i(1) by (simp_all add: insertEvent_Inr)
    then show ?thesis using n by (intro exI [of _ "ev # new"]) auto
  qed
qed

lemma distinct_key_filter: "distinct (map f xs) \<Longrightarrow> length (filter (\<lambda>x. f x = v) xs) \<le> 1"
proof (induction xs)
  case (Cons a xs)
  show ?case
  proof (cases "f a = v")
    case True
    then have "filter (\<lambda>x. f x = v) xs = []" using Cons.prems by (auto simp: filter_empty_conv image_iff)
    then show ?thesis by simp
  next
    case False
    then show ?thesis using Cons by simp
  qed
qed simp

lemma quiet_rates:
  assumes "quiet P es evs" "subseq new evs"
  shows "length (rates_of q new) \<le> 1" "q \<in> ids es \<Longrightarrow> rates_of q new = []"
proof -
  have "length (filter (\<lambda>x. fe_caused_by x = Some q) (filter (\<lambda>e. fe_action e = ''rate'') evs)) \<le> 1"
    using assms(1) by (intro distinct_key_filter) (simp add: quiet_def)
  then have one: "length (rates_of q evs) \<le> 1" by (simp add: rates_of_def conj_commute)
  have sub: "subseq (rates_of q new) (rates_of q evs)" using assms(2) by (simp add: rates_of_def)
  show "length (rates_of q new) \<le> 1" using one list_emb_length [OF sub] by simp
  show "rates_of q new = []" if "q \<in> ids es"
  proof -
    have "rates_of q evs = []"
      using assms(1) that by (fastforce simp: quiet_def rates_of_def filter_empty_conv split: option.splits)
    then show ?thesis using sub by simp
  qed
qed

lemma quiet_grows:
  assumes ok: "log_ok es" and q: "quiet P es evs" and ins: "insertEvents other evs es = Inr es'"
  shows "grows P {} es es'"
proof -
  obtain new where n: "es' = es @ new" "subseq new evs" "\<forall>e\<in>set new. event_ok other e"
      "ids es' = ids es \<union> ids evs"
    using insertEvents_Inr [OF ins] by blast
  have sub: "set new \<subseteq> set evs" using n(2) by (auto elim: list_emb_set)
  note rates = quiet_rates [OF q n(2)]
  have "length (rates_of p es') \<le> 1" for p
    using rates [of p] log_okD(1) [OF ok, of p] log_ok_unrated [OF ok, of p] n(1) by (cases "p \<in> ids es") simp_all
  moreover have "(\<exists>p\<in>ids es'. fe_caused_by e = Some p) \<and> recorded_rating (js_field ''rating'' (fe_payload e)) \<noteq> None"
    if e: "e \<in> set es'" "fe_action e = ''rate''" for e
  proof (cases "e \<in> set es")
    case True
    then show ?thesis using log_okD(2,3) [OF ok True e(2)] n(1) by auto
  next
    case False
    then have new: "e \<in> set new" using e(1) n(1) by simp
    then have "case fe_caused_by e of None \<Rightarrow> False | Some q \<Rightarrow> q \<notin> ids es \<and> q \<in> ids evs"
      using sub q e(2) unfolding quiet_def by blast
    then obtain p where "fe_caused_by e = Some p" "p \<in> ids evs" by (auto split: option.splits)
    then show ?thesis using rated_event_ok [of other e] n(3,4) new e(2) by blast
  qed
  ultimately have "log_ok es'"
    using insertEvents_distinct [OF ins log_okD(4) [OF ok]] by (simp add: log_ok_def)
  moreover have "\<forall>e\<in>set new. \<forall>p\<in>P. \<not> corrects p e" using sub q unfolding quiet_def by blast
  moreover have "\<forall>p\<in>ids es. rates_of p es' = rates_of p es" using rates(2) n(1) by simp
  ultimately show ?thesis using n(1) unfolding grows_def by blast
qed

lemma owner_step_grows:
  assumes "log_ok es" "owner_quiet P f es s" "owner_step other f es s = Inr (es', s')"
  shows "grows P {} es es'"
  using assms quiet_grows [OF assms(1)]
  by (auto simp: owner_step_def owner_quiet_def bind_result_Inr_iff split: prod.splits)

section \<open>Rates\<close>

lemma rate_event_simps [simp]:
  "fe_action (rate_event mint now p d note w actor) = ''rate''"
  "fe_caused_by (rate_event mint now p d note w actor) = Some p"
  "fe_id (rate_event mint now p d note w actor) = (case rw_id w of None \<Rightarrow> mint | Some i \<Rightarrow> i)"
  by (simp_all add: rate_event_def)

lemma rate_grows:
  assumes ok: "log_ok es" and p: "p \<in> ids es" "rates_of p es = []"
    and w: "insertEvent other (rate_event mint now p d note w actor) es = Inr es'"
  shows "grows P {p} es es'"
    and "(case rw_id w of None \<Rightarrow> mint | Some i \<Rightarrow> i) \<notin> ids es \<Longrightarrow> length (rates_of p es') = 1"
proof -
  let ?ev = "rate_event mint now p d note w actor"
  have ev: "event_ok other ?ev" and es': "es' = (if fe_id ?ev \<in> ids es then es else es @ [?ev])"
    using w by (simp_all add: insertEvent_Inr)
  have rating: "recorded_rating (js_field ''rating'' (fe_payload ?ev)) \<noteq> None"
    by (rule rated_event_ok [OF ev]) simp
  have len: "length (rates_of q es) \<le> 1" for q using ok by (simp add: log_ok_def)
  have "fe_id ?ev \<notin> ids es \<Longrightarrow> log_ok (es @ [?ev])"
    using ok p rating len by (auto simp: log_ok_def)
  then have "log_ok es'" using es' ok by simp
  then show "grows P {p} es es'"
    using es' by (auto simp: grows_def corrects_def)
  show "length (rates_of p es') = 1" if "(case rw_id w of None \<Rightarrow> mint | Some i \<Rightarrow> i) \<notin> ids es"
    using that es' p by simp
qed

text \<open>The effect: a rate of its own proposal exactly when its counter moved.\<close>

lemma run_effect_grows:
  assumes "run_effect eff env p plan n es s = Inr ((accepted, r), n', es', s')"
    and "effect_quiet eff env p plan P n es s" "log_ok es" "p \<in> ids es" "n = 0 \<Longrightarrow> rates_of p es = []"
  shows "grows P {p} es es' \<and> n \<le> n' \<and> (n' = n \<longrightarrow> rates_of p es' = rates_of p es) \<and>
         (n \<noteq> 0 \<longrightarrow> n' = n) \<and> (n = 0 \<and> n' = 1 \<longrightarrow> length (rates_of p es') = 1)"
  using assms
proof (induction eff arbitrary: n es s)
  case (Return a r)
  then show ?case by (auto simp: grows_refl)
next
  case (Throw e)
  then show ?case by simp
next
  case (WriteRate w k)
  obtain res es1 where c: "ctx_writeRate env p plan w (n + 1) es = (res, es1)" by force
  have run: "run_effect (k res) env p plan (n + 1) es1 s = Inr ((accepted, r), n', es', s')"
    and quiet1: "effect_quiet (k res) env p plan P (n + 1) es1 s"
    and caught: "\<forall>e. k (Inl e) = Throw e" and fresh: "n = 0 \<longrightarrow> rate_id env w \<notin> ids es"
    using WriteRate.prems(1,2) c by simp_all
  show ?case
  proof (cases res)
    case (Inl e)
    then show ?thesis using run caught by simp
  next
    case (Inr i)
    then have n: "n = 0" and ins: "insertEvent (dv_other env) (rate_event (dv_rate_id env) (dv_rate_now env) p
        (case rw_rating w of None \<Rightarrow> requestedRating plan | Some d \<Rightarrow> d) (ap_user_note plan) w (decision_actor plan)) es = Inr es1"
      using c by (auto simp: ctx_writeRate_def writeRateEvent_def Let_def bind_result_def split: if_splits sum.splits)
    have unrated: "rates_of p es = []" using WriteRate.prems(5) n by simp
    note g = rate_grows [OF WriteRate.prems(3,4) unrated ins]
    have ok1: "log_ok es1" using g(1) [of P] by (rule grows_log_ok)
    have p1: "p \<in> ids es1" using g(1) [of P] WriteRate.prems(4) grows_ids by blast
    have one: "length (rates_of p es1) = 1" using g(2) fresh n by (simp add: rate_id_def)
    from WriteRate.IH [OF rangeI run quiet1 ok1 p1] n
    have "grows P {p} es1 es' \<and> n + 1 \<le> n' \<and> n' = n + 1 \<and> rates_of p es' = rates_of p es1" by simp
    then show ?thesis using one n grows_trans [OF g(1) [of P]] by auto
  qed
next
  case (Owner f k)
  then obtain es1 s1 where o: "owner_step (dv_other env) f es s = Inr (es1, s1)"
      "run_effect (k es1 s1) env p plan n es1 s1 = Inr ((accepted, r), n', es', s')"
    by (auto split: sum.splits)
  have g: "grows P {} es es1" using owner_step_grows [OF Owner.prems(3) _ o(1)] Owner.prems(2) by simp
  have q: "effect_quiet (k es1 s1) env p plan P n es1 s1" using Owner.prems(2) o(1) by simp
  have same: "rates_of p es1 = rates_of p es" using grows_rates [OF g Owner.prems(4)] by simp
  have ok1: "log_ok es1" by (rule grows_log_ok [OF g])
  have p1: "p \<in> ids es1" using grows_ids [OF g] Owner.prems(4) by blast
  have "grows P {p} es1 es' \<and> n \<le> n' \<and> (n' = n \<longrightarrow> rates_of p es' = rates_of p es1) \<and>
      (n \<noteq> 0 \<longrightarrow> n' = n) \<and> (n = 0 \<and> n' = 1 \<longrightarrow> length (rates_of p es') = 1)"
    using Owner.IH [OF rangeI rangeI o(2) q ok1 p1] Owner.prems(5) same by simp
  then show ?case using same grows_trans [OF grows_mono [OF g, of "{p}"]] by auto
qed

section \<open>One move\<close>

lemma findExisting_None:
  assumes "log_ok es" "findExistingRateEvent es p = None"
  shows "rates_of p es = []"
proof (rule ccontr)
  assume "rates_of p es \<noteq> []"
  then obtain e rest where e: "rates_of p es = e # rest" by (cases "rates_of p es") auto
  then have "e \<in> set (rates_of p es)" by simp
  then have "e \<in> set es" "fe_action e = ''rate''" by (simp_all add: rates_of_def)
  then show False using assms e log_okD(3) by (auto simp: findExistingRateEvent_def)
qed

lemma findExisting_rates: "findExistingRateEvent es p \<noteq> None \<Longrightarrow> rates_of p es \<noteq> []"
  by (auto simp: findExistingRateEvent_def)

text \<open>What a move of a caller working on \<open>p\<close> does to the log.\<close>

definition moves :: "string set \<Rightarrow> string \<Rightarrow> ('s, 'p, 'r) caller \<Rightarrow> FoldEvent list \<Rightarrow> FoldEvent list \<Rightarrow> bool" where
  "moves P p pc es es' \<longleftrightarrow> log_ok es' \<and> ids es \<subseteq> ids es' \<and>
     (\<forall>q\<in>ids es. q \<noteq> p \<longrightarrow> rates_of q es' = rates_of q es) \<and>
     (rates_of p es' = rates_of p es \<or> locked_on pc = Some p \<and> rates_of p es = []) \<and>
     (\<forall>q\<in>P. q \<noteq> p \<or> locked_on pc \<noteq> Some p \<longrightarrow>
        getCorrectionStatus (log_view es') q = getCorrectionStatus (log_view es) q)"

lemma movesD:
  assumes "moves P p pc es es'"
  shows "log_ok es'" "ids es \<subseteq> ids es'" "q \<in> ids es \<Longrightarrow> q \<noteq> p \<Longrightarrow> rates_of q es' = rates_of q es"
    and "rates_of p es' = rates_of p es \<or> locked_on pc = Some p \<and> rates_of p es = []"
    and "q \<in> P \<Longrightarrow> q \<noteq> p \<or> locked_on pc \<noteq> Some p \<Longrightarrow>
       getCorrectionStatus (log_view es') q = getCorrectionStatus (log_view es) q"
  using assms unfolding moves_def by blast+

lemma log_moves_refl: "log_ok es \<Longrightarrow> moves P p pc es es"
  by (simp add: moves_def)

lemma moves_grows:
  assumes "grows P {} es es'" "p \<in> ids es"
  shows "moves P p pc es es'"
  using grows_log_ok [OF assms(1)] grows_ids [OF assms(1)] grows_rates [OF assms(1)]
    grows_status [OF assms(1)] assms(2)
  by (simp add: moves_def)

lemma moves_decides:
  assumes "grows P {p} es es'" "locked_on pc = Some p" "rates_of p es = []"
  shows "moves P p pc es es'"
  using grows_log_ok [OF assms(1)] grows_ids [OF assms(1)] grows_rates [OF assms(1)]
    grows_status [OF assms(1)] assms(2,3)
  by (simp add: moves_def)

lemma recordSignal_frame:
  "recordSignal env src d reason db = Inr db' \<Longrightarrow> pd_events db' = pd_events db \<and> pd_state db' = pd_state db"
  by (auto simp: recordSignal_def split: sum.splits)

lemma ensureSignal_frame:
  "ensureSignal env src reason db = Inr db' \<Longrightarrow> pd_events db' = pd_events db \<and> pd_state db' = pd_state db"
  by (auto simp: ensureSignal_def split: sum.splits)

lemma accept_open_run:
  assumes "accept_open env p plan x db = Inr ((accepted, r), db')"
  shows "run_effect (ap_effect plan x) env p plan 0 (pd_events db) (pd_state db) =
      Inr ((accepted, r), if accepted then 1 else 0, pd_events db', pd_state db')"
proof -
  obtain a r' n es s where run: "run_effect (ap_effect plan x) env p plan 0 (pd_events db) (pd_state db) =
      Inr ((a, r'), n, es, s)" and rest: "(let d = db\<lparr>pd_events := es, pd_state := s\<rparr> in
        if n \<noteq> (if a then 1 else 0) then Inl RateCountMismatch
        else if a \<and> ap_signal plan = InTransaction \<and> recordsLearnerSignal plan then
          bind_result (recordSignal env (ap_proposal plan) SAccept (ap_user_note plan) d) (\<lambda>d'. Inr ((a, r'), d'))
        else Inr ((a, r'), d)) = Inr ((accepted, r), db')"
    using assms by (auto simp: accept_open_def bind_result_Inr_iff)
  show ?thesis
    using run rest by (auto simp: Let_def bind_result_Inr_iff split: if_splits dest!: recordSignal_frame)
qed

lemma accept_open_grows:
  assumes "accept_open env p plan x db = Inr ((accepted, r), db')"
    and "effect_quiet (ap_effect plan x) env p plan P 0 (pd_events db) (pd_state db)"
    and "log_ok (pd_events db)" "p \<in> ids (pd_events db)" "rates_of p (pd_events db) = []"
  shows "grows P {p} (pd_events db) (pd_events db')"
    and "length (rates_of p (pd_events db')) = (if accepted then 1 else 0)"
proof -
  note g = run_effect_grows [OF accept_open_run [OF assms(1)] assms(2-4)] assms(5)
  show "grows P {p} (pd_events db) (pd_events db')" using g by simp
  show "length (rates_of p (pd_events db')) = (if accepted then 1 else 0)" using g by (cases accepted) auto
qed

lemma prepare_tx_grows:
  assumes "prepare_tx env p d f db = Inr db'" "owner_quiet P f (pd_events db) (pd_state db)" "log_ok (pd_events db)"
  shows "grows P {} (pd_events db) (pd_events db')"
  using assms by (auto simp: prepare_tx_def bind_result_Inr_iff intro: owner_step_grows)

lemma dismiss_open_grows:
  assumes "dismiss_open env p dplan db = Inr (out, db')" "trusted P env db (DismissOpen p dplan)"
    and "log_ok (pd_events db)" "p \<in> ids (pd_events db)" "rates_of p (pd_events db) = []"
  shows "grows P {p} (pd_events db) (pd_events db')" "rates_of p (pd_events db') \<noteq> []" "\<not> dr_idempotent out"
proof -
  let ?w = "plain_rate\<lparr>rw_subject := dp_rate_subject dplan\<rparr>"
  obtain i es where w: "writeRateEvent (dv_other env) (dv_rate_id env) (dv_rate_now env) p RDismiss
      (dp_user_note dplan) ?w USER_DECISION_ACTOR (pd_events db) = Inr (i, es)"
    and rest: "pd_events db' = es \<and> dp_effect dplan = None \<or>
       (\<exists>f s. dp_effect dplan = Some f \<and> owner_step (dv_other env) f es (pd_state db) = Inr (pd_events db', s))"
    and out: "\<not> dr_idempotent out"
    using assms(1)
    by (auto simp: dismiss_open_def bind_result_Inr_iff Let_def split: if_splits option.splits
        dest!: recordSignal_frame)
  have ins: "insertEvent (dv_other env) (rate_event (dv_rate_id env) (dv_rate_now env) p RDismiss (dp_user_note dplan)
      ?w USER_DECISION_ACTOR) (pd_events db) = Inr es"
    using w by (auto simp: writeRateEvent_def Let_def bind_result_Inr_iff)
  note g = rate_grows [OF assms(3-5) ins]
  have one: "length (rates_of p es) = 1" using g(2) assms(2) by (simp add: plain_rate_def)
  have ok: "log_ok es" using g(1) [of P] by (rule grows_log_ok)
  have pin: "p \<in> ids es" using g(1) [of P] assms(4) grows_ids by blast
  have "grows P {} es (pd_events db')"
    using rest
  proof (elim disjE exE conjE)
    fix f s assume f: "dp_effect dplan = Some f" "owner_step (dv_other env) f es (pd_state db) = Inr (pd_events db', s)"
    have "owner_quiet P f es (pd_state db)" using assms(2) f(1) w by simp
    then show ?thesis using owner_step_grows [OF ok _ f(2)] by simp
  qed (simp add: grows_refl ok)
  then show "grows P {p} (pd_events db) (pd_events db')" "rates_of p (pd_events db') \<noteq> []"
    using grows_trans [OF g(1)] grows_mono [of P "{}" es "pd_events db'" "{p}"] grows_rates [of P "{}" es] pin one
    by auto
  show "\<not> dr_idempotent out" by (rule out)
qed

lemma retract_tx_moves:
  assumes "retract_tx other p rplan t db = Inr db'" "log_ok (pd_events db)" "p \<in> ids (pd_events db)"
    and "case insertEvent other (correction_event p rplan t) (pd_events db) of
        Inl e \<Rightarrow> True | Inr es \<Rightarrow> owner_quiet P (rp_applier rplan t) es (pd_state db)"
    and pc: "locked_on pc = Some p"
  shows "moves P p pc (pd_events db) (pd_events db')"
    and "rates_of p (pd_events db') = rates_of p (pd_events db)"
proof -
  obtain es s where ins: "insertEvent other (correction_event p rplan t) (pd_events db) = Inr es"
    and o: "owner_step other (rp_applier rplan t) es (pd_state db) = Inr (pd_events db', s)"
    using assms(1) by (auto simp: retract_tx_def bind_result_Inr_iff split: option.splits)
  let ?ev = "correction_event p rplan t"
  have ev: "fe_action ?ev = ''correct''" "fe_subject_id ?ev = p" by (simp_all add: correction_event_def)
  have es: "es = pd_events db \<or> es = pd_events db @ [?ev]" using ins by (auto simp: insertEvent_Inr)
  have rates: "rates_of q es = rates_of q (pd_events db)" for q using es ev by auto
  have sub: "ids (pd_events db) \<subseteq> ids es" using es by auto
  have ok: "log_ok es" using es assms(2) ev insertEvent_distinct [OF ins] by (auto simp: log_ok_def)
  have g: "grows P {} es (pd_events db')" using owner_step_grows [OF ok _ o] assms(4) ins by simp
  have status: "getCorrectionStatus (log_view (pd_events db')) q = getCorrectionStatus (log_view (pd_events db)) q"
    if "q \<in> P" "q \<noteq> p" for q
    using grows_status [OF g that(1)] es that(2) ev correction_rows_append [of "[?ev]" q "pd_events db"]
    by (auto simp: corrects_def)
  have same: "rates_of q (pd_events db') = rates_of q (pd_events db)" if "q \<in> ids (pd_events db)" for q
    using grows_rates [OF g] that sub rates by auto
  show "moves P p pc (pd_events db) (pd_events db')"
    using grows_log_ok [OF g] grows_ids [OF g] sub same status assms(3) pc by (auto simp: moves_def)
  show "rates_of p (pd_events db') = rates_of p (pd_events db)" by (rule same [OF assms(3)])
qed

lemma stale_marker_moves:
  assumes "stale_marker env p db = Inr db'" "log_ok (pd_events db)" "p \<in> ids (pd_events db)"
    and "\<forall>e\<in>set (rates_of p (pd_events db)). fe_subject_kind e = ''event''" and pc: "locked_on pc = Some p"
  shows "moves P p pc (pd_events db) (pd_events db')"
proof (cases "rates_of p (pd_events db)")
  case Nil
  have none: "\<not> list_ex (\<lambda>e. fe_action e = ''rate'' \<and> fe_subject_kind e = ''event'' \<and> fe_caused_by e = Some p) (pd_events db)"
    using Nil by (auto simp: rates_of_def filter_empty_conv list_ex_iff)
  then have "insertEvent (dv_other env) (rate_event (dv_rate_id env) (dv_rate_now env) p RRollback None plain_rate
      USER_DECISION_ACTOR) (pd_events db) = Inr (pd_events db')"
    using assms(1) by (auto simp: stale_marker_def bind_result_Inr_iff)
  then show ?thesis using moves_decides [OF rate_grows(1) pc Nil] assms(2,3) Nil by blast
next
  case (Cons e es)
  then have e: "e \<in> set (rates_of p (pd_events db))" by simp
  then have "e \<in> set (pd_events db)" "fe_action e = ''rate''" "fe_caused_by e = Some p" "fe_subject_kind e = ''event''"
    using assms(4) by (auto simp: rates_of_def)
  then have "list_ex (\<lambda>e. fe_action e = ''rate'' \<and> fe_subject_kind e = ''event'' \<and> fe_caused_by e = Some p) (pd_events db)"
    by (auto simp: list_ex_iff)
  then have "db' = db" using assms(1) by (simp add: stale_marker_def)
  then show ?thesis using assms(2) by (simp add: log_moves_refl)
qed

lemma replay_accept_frame:
  assumes "replay_accept env plan rate db = (out, db')"
  shows "pd_events db' = pd_events db" "out = Inr x \<Longrightarrow> \<exists>r. x = RunReplayed r"
  using assms
  by (auto simp: replay_accept_def bind_result_def split: if_splits sum.splits dest!: ensureSignal_frame)

lemma take_out_cases:
  "take_out f db res = (db', x) \<Longrightarrow>
     (\<exists>e. res = Inl e \<and> db' = db \<and> x = Failed e) \<or> (\<exists>a d. res = Inr (a, d) \<and> f d a = (db', x))"
  by (auto simp: take_out_def split: sum.splits)

text \<open>Moves that do not touch the log.\<close>

lemma advance_reads:
  assumes "advance env db pc = (db', x)" and pc: "locked_on pc = None \<or> (\<exists>p plan y. pc \<in> {AcceptLocked p plan y, AcceptUnrated p plan y}) \<or>
      (\<exists>p dplan. pc \<in> {DismissLocked p dplan, DismissUnrated p dplan})"
  shows "pd_events db' = pd_events db"
  using assms
  by (cases "(env, db, pc)" rule: advance.cases)
    (auto simp: Let_def signal_after_commit_def dismiss_after_commit_def bind_result_Inr_iff
      split: option.splits if_splits prod.splits sum.splits
      dest!: take_out_cases recordSignal_frame dest: replay_accept_frame(1))

lemma advance_moves:
  assumes adv: "advance env db pc = (db', x)" and w: "works_on pc = Some p" "p \<in> ids (pd_events db)"
    and ok: "log_ok (pd_events db)" and tr: "trusted P env db pc"
    and un: "unrated_on pc = Some p \<Longrightarrow> rates_of p (pd_events db) = []"
  shows "moves P p pc (pd_events db) (pd_events db')"
proof (cases pc)
  case (PrepareLocked q plan f k)
  show ?thesis
  proof (cases "prepare_tx env q (requestedRating plan) f db")
    case (Inr db1)
    then show ?thesis
      using PrepareLocked adv tr w(2) moves_grows [OF prepare_tx_grows [OF Inr _ ok]] by simp
  qed (use PrepareLocked adv ok in \<open>simp add: log_moves_refl\<close>)
next
  case (AcceptOpen q plan y)
  then have q: "q = p" using w(1) by simp
  show ?thesis
  proof (cases "accept_open env p plan y db")
    case (Inr out)
    obtain a r db1 where o: "accept_open env p plan y db = Inr ((a, r), db1)" using Inr by (cases out) auto
    have eff: "effect_quiet (ap_effect plan y) env p plan P 0 (pd_events db) (pd_state db)"
      and none: "rates_of p (pd_events db) = []"
      using AcceptOpen q tr un by auto
    have "moves P p pc (pd_events db) (pd_events db1)"
      by (rule moves_decides [OF accept_open_grows(1) [OF o eff ok w(2) none] _ none]) (simp add: AcceptOpen q)
    then show ?thesis using o adv AcceptOpen q by (simp add: take_out_def)
  qed (use AcceptOpen q adv ok in \<open>simp add: log_moves_refl take_out_def\<close>)
next
  case (DismissOpen q dplan)
  then have q: "q = p" using w(1) by simp
  show ?thesis
  proof (cases "dismiss_open env p dplan db")
    case (Inr out)
    obtain r db1 where o: "dismiss_open env p dplan db = Inr (r, db1)" using Inr by (cases out) auto
    have none: "rates_of p (pd_events db) = []" using DismissOpen q un by auto
    have "moves P p pc (pd_events db) (pd_events db1)"
      by (rule moves_decides [OF dismiss_open_grows(1) [OF o _ ok w(2) none] _ none])
        (use tr in \<open>simp_all add: DismissOpen q\<close>)
    then show ?thesis using o adv DismissOpen q by (simp add: take_out_def)
  qed (use DismissOpen q adv ok in \<open>simp add: log_moves_refl take_out_def\<close>)
next
  case (RetractLocked q rplan t)
  then have q: "q = p" using w(1) by simp
  show ?thesis
  proof (cases "retract_tx (dv_other env) p rplan (max (dv_rate_now env) t) db")
    case (Inr db1)
    have "moves P p pc (pd_events db) (pd_events db1)"
      by (rule retract_tx_moves(1) [OF Inr ok w(2)]) (use tr in \<open>simp_all add: RetractLocked q\<close>)
    then show ?thesis using RetractLocked q adv Inr by simp
  qed (use RetractLocked q adv ok in \<open>auto simp: log_moves_refl split: decision_error.splits\<close>)
next
  case (MarkerLocked q)
  then have q: "q = p" using w(1) by simp
  show ?thesis
  proof (cases "stale_marker env p db")
    case (Inr db1)
    have "moves P p pc (pd_events db) (pd_events db1)"
      by (rule stale_marker_moves [OF Inr ok w(2)]) (use tr in \<open>simp_all add: MarkerLocked q\<close>)
    then show ?thesis using MarkerLocked q adv Inr by simp
  qed (use MarkerLocked q adv ok in \<open>simp add: log_moves_refl\<close>)
qed (use advance_reads [OF adv] ok in \<open>simp_all add: log_moves_refl\<close>)

text \<open>Where a move leads.\<close>

lemma unrated_locked: "unrated_on pc = Some p \<Longrightarrow> locked_on pc = Some p"
  by (cases pc) simp_all

lemma open_unrated: "open_on pc = Some p \<Longrightarrow> unrated_on pc = Some p"
  by (cases pc) simp_all

lemma locked_works: "locked_on pc = Some p \<Longrightarrow> works_on pc = Some p"
  by (cases pc) simp_all

lemma decided_works: "decided_by pc = Some p \<Longrightarrow> works_on pc = Some p"
  by (cases pc rule: decided_by.cases) (auto split: if_splits)

lemma decided_not_locked: "decided_by pc = Some p \<Longrightarrow> locked_on pc = None"
  by (cases pc rule: decided_by.cases) (auto split: if_splits)

lemmas advance_splits = option.splits if_splits prod.splits sum.splits decision_error.splits

lemma advance_next:
  assumes adv: "advance env db pc = (db', x)" and w: "works_on pc = Some p"
  shows "works_on x = None \<or> works_on x = Some p"
    and "locked_on x = None \<or> locked_on x = Some p \<and> (locked_on pc = Some p \<or> needs_lock pc = Some p)"
    and "open_on x = None \<or> open_on x = Some p \<and> (getCorrectionStatus (log_view (pd_events db')) p = Active)"
  using adv w
  by (cases "(env, db, pc)" rule: advance.cases;
      auto simp: Let_def split: advance_splits dest!: take_out_cases dest: replay_accept_frame(2))+

lemma advance_unrated:
  assumes adv: "advance env db pc = (db', x)" and w: "works_on pc = Some p" and x: "unrated_on x \<noteq> None"
    and ok: "log_ok (pd_events db)" and un: "unrated_on pc = Some p \<Longrightarrow> rates_of p (pd_events db) = []"
  shows "rates_of p (pd_events db') = []"
  using adv w x un findExisting_None [OF ok, of p]
  by (cases "(env, db, pc)" rule: advance.cases)
    (auto simp: Let_def split: advance_splits dest!: take_out_cases dest: replay_accept_frame(2))

text \<open>A decision is made by the commit of a caller that found the proposal open, or was made before.\<close>

lemma advance_decided:
  assumes adv: "advance env db pc = (db', x)" and w: "works_on pc = Some p" "p \<in> ids (pd_events db)"
    and x: "decided_by x \<noteq> None" and ok: "log_ok (pd_events db)" and tr: "trusted P env db pc"
    and un: "unrated_on pc = Some p \<Longrightarrow> rates_of p (pd_events db) = []"
  shows "decided_by pc = Some p \<and> rates_of p (pd_events db') = rates_of p (pd_events db) \<or>
         unrated_on pc = Some p \<and> rates_of p (pd_events db') \<noteq> []"
proof (cases pc)
  case (AcceptOpen q plan y)
  then have q: "q = p" using w(1) by simp
  obtain r where o: "accept_open env p plan y db = Inr ((True, r), db')"
    using adv x AcceptOpen q by (auto split: if_splits dest!: take_out_cases)
  have "length (rates_of p (pd_events db')) = 1"
    using accept_open_grows(2) [OF o _ ok w(2)] tr un AcceptOpen q by simp
  then show ?thesis using AcceptOpen q by auto
next
  case (DismissOpen q dplan)
  then have q: "q = p" using w(1) by simp
  obtain out where o: "dismiss_open env p dplan db = Inr (out, db')"
    using adv x DismissOpen q by (auto dest!: take_out_cases)
  have none: "rates_of p (pd_events db) = []" using un DismissOpen q by simp
  have "rates_of p (pd_events db') \<noteq> []"
    by (rule dismiss_open_grows(2) [where P = P, OF o _ ok w(2) none]) (use tr in \<open>simp add: DismissOpen q\<close>)
  then show ?thesis using DismissOpen q by simp
next
  case (Preparing q plan pre)
  then show ?thesis using adv x by (cases pre) auto
next
  case (AcceptEnded q out)
  then show ?thesis using adv x w by (cases out) auto
qed (use adv w x in \<open>auto simp: Let_def signal_after_commit_def dismiss_after_commit_def bind_result_Inr_iff
    split: advance_splits dest!: take_out_cases recordSignal_frame dest: replay_accept_frame(2)\<close>)

section \<open>The system\<close>

definition system_ok :: "string set \<Rightarrow> ('s, 'p, 'r) decision_system \<Rightarrow> bool" where
  "system_ok P s \<longleftrightarrow> log_ok (pd_events (sy_db s)) \<and>
     (\<forall>c p. works_on (sy_pc s c) = Some p \<longrightarrow> p \<in> P \<and> p \<in> ids (pd_events (sy_db s))) \<and>
     (\<forall>c d p. locked_on (sy_pc s c) = Some p \<longrightarrow> locked_on (sy_pc s d) = Some p \<longrightarrow> c = d) \<and>
     (\<forall>c p. unrated_on (sy_pc s c) = Some p \<longrightarrow> rates_of p (pd_events (sy_db s)) = []) \<and>
     (\<forall>c p. decided_by (sy_pc s c) = Some p \<longrightarrow> rates_of p (pd_events (sy_db s)) \<noteq> []) \<and>
     (\<forall>c d p. decided_by (sy_pc s c) = Some p \<longrightarrow> decided_by (sy_pc s d) = Some p \<longrightarrow> c = d)"

lemma system_okD:
  assumes "system_ok P s"
  shows "log_ok (pd_events (sy_db s))"
    and "works_on (sy_pc s c) = Some p \<Longrightarrow> p \<in> P \<and> p \<in> ids (pd_events (sy_db s))"
    and "locked_on (sy_pc s c) = Some p \<Longrightarrow> locked_on (sy_pc s d) = Some p \<Longrightarrow> c = d"
    and "unrated_on (sy_pc s c) = Some p \<Longrightarrow> rates_of p (pd_events (sy_db s)) = []"
    and "decided_by (sy_pc s c) = Some p \<Longrightarrow> rates_of p (pd_events (sy_db s)) \<noteq> []"
    and "decided_by (sy_pc s c) = Some p \<Longrightarrow> decided_by (sy_pc s d) = Some p \<Longrightarrow> c = d"
  using assms unfolding system_ok_def by blast+

lemma advance_idle: "works_on pc = None \<Longrightarrow> advance env db pc = (db, pc)"
  by (cases pc) simp_all

text \<open>A step that grows the log around the callers, and a caller that starts or stops.\<close>

lemma system_ok_outside:
  assumes ok: "system_ok P s" and log: "log_ok es'" "ids (pd_events (sy_db s)) \<subseteq> ids es'"
    and same: "\<forall>q\<in>ids (pd_events (sy_db s)). rates_of q es' = rates_of q (pd_events (sy_db s))"
  shows "system_ok P (s\<lparr>sy_db := (sy_db s)\<lparr>pd_events := es', pd_state := st\<rparr>\<rparr>)"
proof -
  note D = system_okD [OF ok]
  have known: "rates_of p es' = rates_of p (pd_events (sy_db s))" "p \<in> P" "p \<in> ids es'"
    if "works_on (sy_pc s c) = Some p" for c p
    using D(2) [OF that] same log(2) by blast+
  have un: "rates_of p es' = []" if "unrated_on (sy_pc s c) = Some p" for c p
    using known(1) [OF locked_works [OF unrated_locked [OF that]]] D(4) [OF that] by simp
  have dec: "rates_of p es' \<noteq> []" if "decided_by (sy_pc s c) = Some p" for c p
    using known(1) [OF decided_works [OF that]] D(5) [OF that] by simp
  show ?thesis
    using log(1) known(2,3) D(3,6) un dec by (simp add: system_ok_def)
qed

lemma system_ok_stop:
  assumes ok: "system_ok P s" and x: "locked_on x = None" "decided_by x = None"
    and w: "\<And>p. works_on x = Some p \<Longrightarrow> p \<in> P \<and> p \<in> ids (pd_events (sy_db s))"
  shows "system_ok P (s\<lparr>sy_pc := (sy_pc s)(c := x)\<rparr>)"
proof -
  have "unrated_on x = None" using x(1) unrated_locked by (metis not_None_eq)
  then show ?thesis using system_okD [OF ok] x w unfolding system_ok_def by auto
qed

lemma system_ok_move:
  assumes ok: "system_ok P s" and adv: "advance env (sy_db s) (sy_pc s c) = (db', x)"
    and lock: "\<forall>p d. needs_lock (sy_pc s c) = Some p \<longrightarrow> locked_on (sy_pc s d) \<noteq> Some p"
    and tr: "trusted P env (sy_db s) (sy_pc s c)"
  shows "system_ok P \<lparr>sy_db = db', sy_pc = (sy_pc s)(c := x)\<rparr>"
proof (cases "works_on (sy_pc s c)")
  case None
  then have "db' = sy_db s" "x = sy_pc s c" using adv advance_idle [OF None] by auto
  then show ?thesis using ok by (simp add: system_ok_def)
next
  case (Some p)
  note D = system_okD [OF ok]
  let ?es = "pd_events (sy_db s)" and ?es' = "pd_events db'"
  have p: "p \<in> P" "p \<in> ids ?es" using D(2) [OF Some] by auto
  have un_c: "unrated_on (sy_pc s c) = Some p \<Longrightarrow> rates_of p ?es = []" by (rule D(4))
  have m: "moves P p (sy_pc s c) ?es ?es'" using advance_moves [OF adv Some p(2) D(1) tr D(4)] .
  note nx = advance_next [OF adv Some]
  have other: "rates_of q ?es' = rates_of q ?es" if "q \<in> ids ?es" "q \<noteq> p" for q
    by (rule movesD(3) [OF m that])
  have held: "rates_of p ?es' = rates_of p ?es \<or> locked_on (sy_pc s c) = Some p \<and> rates_of p ?es = []"
    by (rule movesD(4) [OF m])
  have alone: "d = c" if "locked_on (sy_pc s d) = Some p" "locked_on (sy_pc s c) = Some p" for d
    using D(3) that by blast
  have un: "rates_of q ?es' = []" if "unrated_on (sy_pc s d) = Some q" "d \<noteq> c" for d q
  proof (cases "q = p")
    case True
    then show ?thesis using held D(4) [OF that(1)] unrated_locked [OF that(1)] alone that(2) by auto
  next
    case False
    then show ?thesis using other D(2) [OF locked_works [OF unrated_locked [OF that(1)]]] D(4) [OF that(1)] by simp
  qed
  have dec: "rates_of q ?es' \<noteq> []" if "decided_by (sy_pc s d) = Some q" for d q
    using D(5) [OF that] other D(2) [OF decided_works [OF that]] held by (cases "q = p") auto
  have xu: "rates_of q ?es' = []" if "unrated_on x = Some q" for q
    using advance_unrated [OF adv Some _ D(1) un_c] nx(1) locked_works [OF unrated_locked [OF that]] that by auto
  have xd: "q = p \<and> rates_of p ?es' \<noteq> [] \<and> (\<forall>d. decided_by (sy_pc s d) = Some p \<longrightarrow> d = c)"
    if q0: "decided_by x = Some q" for q
  proof -
    have q: "q = p" using nx(1) decided_works [OF q0] by auto
    consider "decided_by (sy_pc s c) = Some p" | "unrated_on (sy_pc s c) = Some p" "rates_of p ?es' \<noteq> []"
      using advance_decided [OF adv Some p(2) _ D(1) tr un_c] q0 by auto
    then show ?thesis
    proof cases
      case 1
      then show ?thesis using q dec D(6) by blast
    next
      case 2
      then show ?thesis using q D(4) [OF 2(1)] D(5) by blast
    qed
  qed
  show ?thesis
    unfolding system_ok_def
  proof (simp only: decision_system.simps, intro conjI allI impI)
    show "log_ok ?es'" by (rule movesD(1) [OF m])
    fix d q assume w: "works_on (((sy_pc s)(c := x)) d) = Some q"
    then have "q \<in> P \<and> q \<in> ids ?es" using D(2) nx(1) p by (cases "d = c") auto
    then show "q \<in> P" "q \<in> ids ?es'" using movesD(2) [OF m] by blast+
  next
    fix d e q assume "locked_on (((sy_pc s)(c := x)) d) = Some q" "locked_on (((sy_pc s)(c := x)) e) = Some q"
    then show "d = e" using D(3) nx(2) lock by (cases "d = c"; cases "e = c") auto
  next
    fix d q assume "unrated_on (((sy_pc s)(c := x)) d) = Some q"
    then show "rates_of q ?es' = []" using un xu by (cases "d = c") auto
  next
    fix d q assume "decided_by (((sy_pc s)(c := x)) d) = Some q"
    then show "rates_of q ?es' \<noteq> []" using dec xd by (cases "d = c") auto
  next
    fix d e q assume "decided_by (((sy_pc s)(c := x)) d) = Some q" "decided_by (((sy_pc s)(c := x)) e) = Some q"
    then show "d = e" using D(6) xd by (cases "d = c"; cases "e = c") auto
  qed
qed

lemma starting_idle:
  "starting x \<Longrightarrow> locked_on x = None \<and> decided_by x = None \<and> open_on x = None"
  by (cases x) simp_all

lemma correct_log_ok:
  assumes "log_ok es" "corrects q ev" "insertEvent other ev es = Inr es'"
  shows "log_ok es'" "ids es \<subseteq> ids es'" "rates_of p es' = rates_of p es"
  using assms by (auto simp: insertEvent_Inr log_ok_def corrects_def split: if_splits)

lemma step_system_ok: "decision_step P unlocked s s' \<Longrightarrow> system_ok P s \<Longrightarrow> system_ok P s'"
proof (induction rule: decision_step.induct)
  case (submit s c x p)
  then show ?case using starting_idle [of x] by (intro system_ok_stop) auto
next
  case (move s c env db' x)
  then show ?case using system_ok_move by blast
next
  case (vanish s c)
  then show ?case by (intro system_ok_stop) auto
next
  case (outside s evs other es' st')
  have g: "grows P {} (pd_events (sy_db s)) es'"
    using quiet_grows [OF system_okD(1) [OF outside.prems] outside.hyps(1,2)] .
  show ?case
    using system_ok_outside [OF outside.prems grows_log_ok [OF g] grows_ids [OF g]] grows_rates [OF g] by simp
next
  case (correct q ev other s es')
  note c = correct_log_ok [OF system_okD(1) [OF correct.prems] correct.hyps(2,3)]
  show ?case
    using system_ok_outside [OF correct.prems c(1,2), of "pd_state (sy_db s)"] c(3) by simp
qed

lemma run_system_ok: "decision_run P unlocked s s' \<Longrightarrow> system_ok P s \<Longrightarrow> system_ok P s'"
  by (induction rule: decision_run.induct) (auto intro: step_system_ok)

lemma quiescent_system_ok: "quiescent s \<Longrightarrow> log_ok (pd_events (sy_db s)) \<Longrightarrow> system_ok P s"
  by (simp add: quiescent_def system_ok_def)

end
