(* ===== verification/ProposalSignalFacts.thy ===== *)
theory ProposalSignalFacts
  imports ProposalSignals
begin

text \<open>
  What the signal table says. The decisions recorded one by one, each when its rate is written, and
  the rebuild from the log arrive at the same counts, rate and cooldown: both are the summary of the
  learner's rates on the proposals of the key, in which corrective proposals count for nothing and only
  their dismisses move the cooldown.
\<close>

interpretation sig_tab: keyed_table signal_key .

section \<open>The summary of a list of rates\<close>

text \<open>\<open>corr\<close> holds of the rates on corrective proposals.\<close>

definition accepts :: "(FoldEvent \<Rightarrow> bool) \<Rightarrow> FoldEvent list \<Rightarrow> int" where
  "accepts corr rs = int (length (filter (\<lambda>r. decisionFromRate r = Some SAccept \<and> \<not> corr r) rs))"

definition dismisses :: "(FoldEvent \<Rightarrow> bool) \<Rightarrow> FoldEvent list \<Rightarrow> int" where
  "dismisses corr rs = int (length (filter (\<lambda>r. decisionFromRate r = Some SDismiss \<and> \<not> corr r) rs))"

text \<open>The rates that write the row.\<close>

definition writes_row :: "(FoldEvent \<Rightarrow> bool) \<Rightarrow> FoldEvent \<Rightarrow> bool" where
  "writes_row corr r \<longleftrightarrow> decisionFromRate r \<noteq> None \<and> \<not> (corr r \<and> decisionFromRate r = Some SAccept)"

definition newest :: "(FoldEvent \<Rightarrow> bool) \<Rightarrow> FoldEvent list \<Rightarrow> FoldEvent option" where
  "newest corr rs = (let ws = filter (writes_row corr) rs in if ws = [] then None else Some (last ws))"

definition cooldown_of :: "FoldEvent option \<Rightarrow> int option" where
  "cooldown_of r = (case r of None \<Rightarrow> None
     | Some r \<Rightarrow> if decisionFromRate r = Some SDismiss then Some (dismissCooldownUntil (fe_created_at r)) else None)"

definition share :: "(rat \<Rightarrow> rat) \<Rightarrow> int \<Rightarrow> int \<Rightarrow> rat" where
  "share real4 a d = real4 (if a + d = 0 then 0 else of_int a / of_int (a + d))"

definition signal_view :: "signal_row \<Rightarrow> int \<times> int \<times> rat \<times> int option" where
  "signal_view r = (ps_accept_count r, ps_dismiss_count r, ps_acceptance_rate r, ps_cooldown_until r)"

definition summary :: "(rat \<Rightarrow> rat) \<Rightarrow> (FoldEvent \<Rightarrow> bool) \<Rightarrow> FoldEvent list \<Rightarrow> int \<times> int \<times> rat \<times> int option" where
  "summary real4 corr rs =
     (accepts corr rs, dismisses corr rs, share real4 (accepts corr rs) (dismisses corr rs),
      cooldown_of (newest corr rs))"

lemma summary_snoc:
  "accepts corr (rs @ [r]) = accepts corr rs + (if decisionFromRate r = Some SAccept \<and> \<not> corr r then 1 else 0)"
  "dismisses corr (rs @ [r]) = dismisses corr rs + (if decisionFromRate r = Some SDismiss \<and> \<not> corr r then 1 else 0)"
  "newest corr (rs @ [r]) = (if writes_row corr r then Some r else newest corr rs)"
  by (simp_all add: accepts_def dismisses_def newest_def)

lemma counts_nonneg [simp]: "0 \<le> accepts corr rs" "0 \<le> dismisses corr rs"
  by (simp_all add: accepts_def dismisses_def)

lemma newest_None_iff: "newest corr rs = None \<longleftrightarrow> \<not> list_ex (writes_row corr) rs"
  by (simp add: newest_def list_ex_iff filter_empty_conv)

lemma newest_None_counts:
  "newest corr rs = None \<Longrightarrow> accepts corr rs = 0 \<and> dismisses corr rs = 0"
  by (auto simp: newest_None_iff accepts_def dismisses_def writes_row_def list_ex_iff filter_empty_conv)

section \<open>Recording decision by decision\<close>

text \<open>An upsert whose update cannot fail.\<close>

definition put_row :: "signal_row \<Rightarrow> (signal_row \<Rightarrow> signal_row) \<Rightarrow> signal_row list \<Rightarrow> signal_row list" where
  "put_row new f tab =
     (case row_by signal_key (signal_key new) tab of
        None \<Rightarrow> tab @ [new]
      | Some old \<Rightarrow> update_where (\<lambda>x. signal_key x = signal_key new) (\<lambda>_. f old) tab)"

lemma upsert_put:
  "new = new' \<Longrightarrow> (\<And>old. row_by signal_key (signal_key new) tab = Some old \<Longrightarrow> upd old = Inr (f old)) \<Longrightarrow>
     upsert_signal new upd tab = Inr (put_row new' f tab)"
  by (simp add: upsert_signal_def put_row_def split: option.splits)

lemma put_row_row_by:
  assumes "\<And>old. signal_key old = signal_key new \<Longrightarrow> signal_key (f old) = signal_key new"
  shows "row_by signal_key k (put_row new f tab) =
     (if k = signal_key new
      then Some (case row_by signal_key k tab of None \<Rightarrow> new | Some old \<Rightarrow> f old)
      else row_by signal_key k tab)"
proof (cases "row_by signal_key (signal_key new) tab")
  case None
  then show ?thesis
    using sig_tab.row_by_insert_same [of new tab] sig_tab.row_by_insert_other [of k new tab]
    by (simp add: put_row_def)
next
  case (Some old)
  have old: "signal_key (f old) = signal_key new" using assms Some by (blast dest: row_by_SomeD)
  have "row_by signal_key k (update_where (\<lambda>x. signal_key x = signal_key new) (\<lambda>_. f old) tab) =
      map_option (\<lambda>r. if signal_key r = signal_key new then f old else r) (row_by signal_key k tab)"
    by (rule sig_tab.row_by_update) (simp add: old)
  then show ?thesis
    using Some by (cases "row_by signal_key k tab") (auto simp: put_row_def dest: row_by_SomeD)
qed

lemma put_row_wf:
  assumes "sig_tab.wf tab" "\<And>old. signal_key old = signal_key new \<Longrightarrow> signal_key (f old) = signal_key new"
  shows "sig_tab.wf (put_row new f tab)"
proof (cases "row_by signal_key (signal_key new) tab")
  case None
  then show ?thesis using sig_tab.wf_insert [OF assms(1)] by (simp add: put_row_def)
next
  case (Some old)
  then have "signal_key (f old) = signal_key new" using assms(2) by (blast dest: row_by_SomeD)
  then show ?thesis using Some sig_tab.wf_update [OF assms(1)] by (simp add: put_row_def)
qed

text \<open>What one decision does to the row of its key. Counts are never negative.\<close>

definition recorded :: "(rat \<Rightarrow> rat) \<Rightarrow> int \<Rightarrow> bool \<Rightarrow> ProposalSignalDecision \<Rightarrow> string option \<Rightarrow> signal_row \<Rightarrow> signal_row" where
  "recorded real4 now counts d reason old =
     (let a = ps_accept_count old + (if counts \<and> d = SAccept then 1 else 0);
          ds = ps_dismiss_count old + (if counts \<and> d = SDismiss then 1 else 0)
      in old\<lparr>ps_accept_count := a, ps_dismiss_count := ds, ps_acceptance_rate := share real4 a ds,
             ps_dismiss_reason := (if d = SAccept then ps_dismiss_reason old else reason),
             ps_cooldown_until := (if d = SAccept then None else Some (dismissCooldownUntil now)),
             ps_updated_at := now\<rparr>)"

definition fresh_row :: "(rat \<Rightarrow> rat) \<Rightarrow> string \<Rightarrow> int \<Rightarrow> string \<times> string \<Rightarrow> signal_row" where
  "fresh_row real4 sid now k =
     \<lparr>ps_id = sid, ps_kind = fst k, ps_cooldown_key = snd k, ps_accept_count = 0, ps_dismiss_count = 0,
      ps_acceptance_rate = share real4 0 0, ps_dismiss_reason = None, ps_cooldown_until = None,
      ps_created_at = now, ps_updated_at = now\<rparr>"

lemma recorded_key [simp]: "signal_key (recorded real4 now counts d reason old) = signal_key old"
  by (simp add: recorded_def signal_key_def Let_def)

lemma fresh_row_key [simp]: "signal_key (fresh_row real4 sid now k) = k"
  by (simp add: fresh_row_def signal_key_def)

definition counts_ok :: "signal_row list \<Rightarrow> bool" where
  "counts_ok tab \<longleftrightarrow> (\<forall>r\<in>set tab. 0 \<le> ps_accept_count r \<and> 0 \<le> ps_dismiss_count r)"

lemma record_effect:
  assumes "cooldown_key p = Some key" "counts_ok tab" "\<not> (is_corrective p \<and> d = SAccept)"
  shows "recordProposalDecisionSignal real4 sid now p d reason tab =
     Inr (put_row (recorded real4 now (\<not> is_corrective p) d reason (fresh_row real4 sid now (src_kind p, key)))
            (recorded real4 now (\<not> is_corrective p) d reason) tab)"
proof -
  have nn: "0 \<le> ps_accept_count old \<and> 0 \<le> ps_dismiss_count old"
    if "row_by signal_key k tab = Some old" for k old
    using assms(2) row_by_SomeD [OF that] by (auto simp: counts_ok_def)
  show ?thesis
    using assms(1,3)
    by (cases d; cases "is_corrective p";
        simp add: recordProposalDecisionSignal_def recordProposalDecisionSignalLocked_def Let_def)
      ((rule upsert_put, auto dest!: nn
         simp: recorded_def fresh_row_def share_def sql_ratio_def Let_def add_ac)[1])+
qed

lemma put_row_mem: "r \<in> set (put_row new f tab) \<Longrightarrow> r = new \<or> r \<in> set tab \<or> (\<exists>old\<in>set tab. r = f old)"
  by (auto simp: put_row_def set_update_where dest!: row_by_SomeD split: option.splits if_splits)

lemma counts_ok_put:
  "counts_ok tab \<Longrightarrow> counts_ok (put_row (recorded real4 now c d reason (fresh_row real4 sid now k))
     (recorded real4 now c d reason) tab)"
  unfolding counts_ok_def
  by (auto dest!: put_row_mem simp: recorded_def fresh_row_def Let_def)

lemma recorded_view:
  "signal_view (recorded real4 now c d reason old) =
     (let a = ps_accept_count old + (if c \<and> d = SAccept then 1 else 0);
          ds = ps_dismiss_count old + (if c \<and> d = SDismiss then 1 else 0)
      in (a, ds, share real4 a ds, if d = SAccept then None else Some (dismissCooldownUntil now)))"
  by (simp add: recorded_def signal_view_def Let_def)

text \<open>The decisions of a list of rates, each recorded when its rate is written.\<close>

definition source_of :: "string \<Rightarrow> string \<Rightarrow> (FoldEvent \<Rightarrow> bool) \<Rightarrow> FoldEvent \<Rightarrow> ProposalSignalSource" where
  "source_of kind key corr r =
     \<lparr>src_id = (case fe_caused_by r of None \<Rightarrow> [] | Some p \<Rightarrow> p), src_kind = kind, src_cooldown_key = Some key,
      src_suggestion_kind = (if corr r then Some ''corrective'' else None)\<rparr>"

definition user_note :: "FoldEvent \<Rightarrow> string option" where
  "user_note r = (case js_field ''user_note'' (fe_payload r) of JStr s \<Rightarrow> Some s | _ \<Rightarrow> None)"

fun record_decisions ::
  "(rat \<Rightarrow> rat) \<Rightarrow> string \<Rightarrow> string \<times> string \<Rightarrow> (FoldEvent \<Rightarrow> bool) \<Rightarrow> FoldEvent list \<Rightarrow> signal_row list \<Rightarrow>
     signal_error + signal_row list" where
  "record_decisions real4 sid k corr [] tab = Inr tab"
| "record_decisions real4 sid k corr (r # rs) tab =
     bind_result
       (case decisionFromRate r of
          None \<Rightarrow> Inr tab
        | Some d \<Rightarrow> recordProposalDecisionSignal real4 sid (fe_created_at r)
                     (source_of (fst k) (snd k) corr r) d (user_note r) tab)
       (record_decisions real4 sid k corr rs)"

lemma source_of_simps [simp]:
  "key \<noteq> [] \<Longrightarrow> cooldown_key (source_of kind key corr r) = Some key"
  "is_corrective (source_of kind key corr r) = corr r"
  "src_kind (source_of kind key corr r) = kind"
  by (simp_all add: source_of_def cooldown_key_def is_corrective_def)

text \<open>The table after the rates \<open>rs\<close>, seen through the row of the key.\<close>

definition row_matches ::
  "(rat \<Rightarrow> rat) \<Rightarrow> (FoldEvent \<Rightarrow> bool) \<Rightarrow> string \<times> string \<Rightarrow> FoldEvent list \<Rightarrow> signal_row list \<Rightarrow> bool" where
  "row_matches real4 corr k rs tab \<longleftrightarrow>
     map_option signal_view (row_by signal_key k tab) =
       (if newest corr rs = None then None else Some (summary real4 corr rs))"

lemma record_one:
  assumes k: "snd k \<noteq> []" and inv: "counts_ok tab" "row_matches real4 corr k rs tab"
    and d: "decisionFromRate r = Some d" "writes_row corr r"
  shows "\<exists>tab'. recordProposalDecisionSignal real4 sid (fe_created_at r) (source_of (fst k) (snd k) corr r) d
           (user_note r) tab = Inr tab' \<and> counts_ok tab' \<and> row_matches real4 corr k (rs @ [r]) tab' \<and>
         (\<forall>j. j \<noteq> k \<longrightarrow> row_by signal_key j tab' = row_by signal_key j tab)"
proof -
  let ?p = "source_of (fst k) (snd k) corr r"
  let ?f = "recorded real4 (fe_created_at r) (\<not> corr r) d (user_note r)"
  let ?new = "?f (fresh_row real4 sid (fe_created_at r) k)"
  have new: "signal_key ?new = k" "signal_key (?f old) = signal_key old" for old by simp_all
  have eff: "recordProposalDecisionSignal real4 sid (fe_created_at r) ?p d (user_note r) tab =
      Inr (put_row ?new ?f tab)"
    using record_effect [of ?p "snd k" tab d real4 sid "fe_created_at r" "user_note r"] k inv(1) d
    by (simp add: writes_row_def)
  have row: "row_by signal_key j (put_row ?new ?f tab) =
      (if j = k then Some (case row_by signal_key k tab of None \<Rightarrow> ?new | Some old \<Rightarrow> ?f old)
       else row_by signal_key j tab)" for j
    using put_row_row_by [of ?new ?f j tab] new by simp
  have "row_matches real4 corr k (rs @ [r]) (put_row ?new ?f tab)"
  proof (cases "row_by signal_key k tab")
    case None
    then have "newest corr rs = None" using inv(2) by (simp add: row_matches_def split: if_splits)
    then show ?thesis
      using None d row [of k] newest_None_counts [of corr rs]
      by (cases d)
        (auto simp: row_matches_def summary_def summary_snoc recorded_view fresh_row_def cooldown_of_def Let_def
          writes_row_def)
  next
    case (Some old)
    then have "signal_view old = summary real4 corr rs" using inv(2) by (auto simp: row_matches_def split: if_splits)
    then have "ps_accept_count old = accepts corr rs" "ps_dismiss_count old = dismisses corr rs"
      by (simp_all add: signal_view_def summary_def)
    then show ?thesis
      using Some d row [of k]
      by (cases d)
        (auto simp: row_matches_def summary_def summary_snoc recorded_view cooldown_of_def Let_def writes_row_def)
  qed
  then show ?thesis using eff row counts_ok_put [OF inv(1)] by simp
qed

lemma record_decisions_matches:
  assumes "snd k \<noteq> []" "counts_ok tab" "row_matches real4 corr k done tab"
  shows "\<exists>tab'. record_decisions real4 sid k corr rs tab = Inr tab' \<and> counts_ok tab' \<and>
           row_matches real4 corr k (done @ rs) tab' \<and>
           (\<forall>j. j \<noteq> k \<longrightarrow> row_by signal_key j tab' = row_by signal_key j tab)"
  using assms(2,3)
proof (induction rs arbitrary: tab "done")
  case (Cons r rs)
  show ?case
  proof (cases "writes_row corr r")
    case True
    then obtain d where d: "decisionFromRate r = Some d" by (auto simp: writes_row_def)
    obtain tab1 where t: "recordProposalDecisionSignal real4 sid (fe_created_at r)
        (source_of (fst k) (snd k) corr r) d (user_note r) tab = Inr tab1" "counts_ok tab1"
        "row_matches real4 corr k (done @ [r]) tab1"
        "\<forall>j. j \<noteq> k \<longrightarrow> row_by signal_key j tab1 = row_by signal_key j tab"
      using record_one [OF assms(1) Cons.prems d True, of sid] by blast
    show ?thesis using Cons.IH [OF t(2,3)] t(1,4) d by auto
  next
    case False
    then have same: "row_matches real4 corr k (done @ [r]) tab"
      using Cons.prems(2)
      by (auto simp: row_matches_def summary_def summary_snoc writes_row_def)
    have "(case decisionFromRate r of None \<Rightarrow> Inr tab
        | Some d \<Rightarrow> recordProposalDecisionSignal real4 sid (fe_created_at r)
                     (source_of (fst k) (snd k) corr r) d (user_note r) tab) = Inr tab"
      using False assms(1)
      by (auto simp: writes_row_def recordProposalDecisionSignal_def split: option.splits)
    then show ?thesis using Cons.IH [OF Cons.prems(1) same] by simp
  qed
qed simp

section \<open>The rebuild\<close>

definition sibling_ids :: "ProposalSignalSource \<Rightarrow> string \<Rightarrow> FoldEvent list \<Rightarrow> string list" where
  "sibling_ids p key es = js_uniq (map fe_id (sibling_rows (src_kind p) key es) @ [src_id p])"

text \<open>The learner's rates on the proposals of the key, oldest first, and which are on corrective ones.\<close>

definition decision_rates :: "ProposalSignalSource \<Rightarrow> string \<Rightarrow> FoldEvent list \<Rightarrow> FoldEvent list" where
  "decision_rates p key es = sort_key rate_order (filter (user_rate_on (sibling_ids p key es)) es)"

definition on_corrective :: "ProposalSignalSource \<Rightarrow> string \<Rightarrow> FoldEvent list \<Rightarrow> FoldEvent \<Rightarrow> bool" where
  "on_corrective p key es r \<longleftrightarrow> (case fe_caused_by r of None \<Rightarrow> False
     | Some q \<Rightarrow> q \<in> set (correctiveProposalIds p (sibling_rows (src_kind p) key es)))"

lemma latest_rates_distinct:
  assumes "distinct (map fe_caused_by rs)"
    "\<forall>r\<in>set rs. \<exists>q. fe_caused_by r = Some q \<and> q \<noteq> [] \<and> q \<notin> set seen"
  shows "latest_rates seen rs = rs"
  using assms
proof (induction rs arbitrary: seen)
  case (Cons r rs)
  then obtain q where q: "fe_caused_by r = Some q" "q \<noteq> []" "q \<notin> set seen" by auto
  have "\<forall>x\<in>set rs. \<exists>p. fe_caused_by x = Some p \<and> p \<noteq> [] \<and> p \<notin> set (q # seen)"
    using Cons.prems q by (fastforce simp: image_iff)
  then show ?case using Cons q by simp
qed simp

lemma newest_Cons:
  "newest corr (r # rs) =
     (case newest corr rs of None \<Rightarrow> if writes_row corr r then Some r else None | Some x \<Rightarrow> Some x)"
  by (simp add: newest_def Let_def)

lemma newest_mem: "newest corr rs = Some x \<Longrightarrow> x \<in> set rs"
  by (auto simp: newest_def Let_def split: if_splits dest: last_in_set [of "filter (writes_row corr) rs"])

lemma newerRate_older:
  "rate_order r \<le> rate_order x \<Longrightarrow> newerRate (Some x) r = x"
  by (auto simp: newerRate_def rate_order_def)

lemma count_rates:
  assumes "sorted (map rate_order rs)"
    and corr: "\<And>r. corr r \<longleftrightarrow> (case fe_caused_by r of None \<Rightarrow> False | Some q \<Rightarrow> q \<in> set corrective)"
  shows "foldl (count_rate corrective) (0, 0, None) (rev rs) =
     (accepts corr rs, dismisses corr rs, newest corr rs)"
  using assms(1)
proof (induction rs)
  case (Cons r rs)
  have older: "newest corr rs = Some x \<Longrightarrow> newerRate (Some x) r = x" for x
    using Cons.prems newest_mem [of corr rs x] by (auto intro: newerRate_older)
  have none: "newerRate None r = r" by (simp add: newerRate_def)
  show ?case
  proof (cases "decisionFromRate r")
    case None
    then show ?thesis
      using Cons by (simp add: count_rate_def newest_Cons accepts_def dismisses_def writes_row_def
          split: option.splits)
  next
    case (Some d)
    then show ?thesis
      using Cons older none
      by (cases d; cases "corr r"; cases "newest corr rs")
        (simp_all add: count_rate_def newest_Cons accepts_def dismisses_def writes_row_def Let_def
          corr [of r, symmetric])
  qed
qed (simp add: accepts_def dismisses_def newest_def)

lemma rebuild_effect:
  assumes key: "cooldown_key p = Some key" and ids: "[] \<notin> fe_id ` set es" "src_id p \<noteq> []"
    and once: "distinct (map fe_caused_by (decision_rates p key es))"
  defines "rs \<equiv> decision_rates p key es" and "corr \<equiv> on_corrective p key es"
  shows "ensureProposalDecisionSignal real4 sid now es p reason tab =
     (if accepts corr rs + dismisses corr rs = 0 then Inr tab
      else Inr (put_row
        (let reason' = (case newest corr rs of None \<Rightarrow> None
              | Some r \<Rightarrow> if decisionFromRate r = Some SDismiss then rebuild_dismiss_reason p reason r else None)
         in \<lparr>ps_id = sid, ps_kind = src_kind p, ps_cooldown_key = key, ps_accept_count = accepts corr rs,
             ps_dismiss_count = dismisses corr rs, ps_acceptance_rate = share real4 (accepts corr rs) (dismisses corr rs),
             ps_dismiss_reason = reason', ps_cooldown_until = cooldown_of (newest corr rs),
             ps_created_at = now, ps_updated_at = now\<rparr>)
        (\<lambda>old. old\<lparr>ps_accept_count := accepts corr rs, ps_dismiss_count := dismisses corr rs,
             ps_acceptance_rate := share real4 (accepts corr rs) (dismisses corr rs),
             ps_dismiss_reason := (case newest corr rs of None \<Rightarrow> None
               | Some r \<Rightarrow> if decisionFromRate r = Some SDismiss then rebuild_dismiss_reason p reason r else None),
             ps_cooldown_until := cooldown_of (newest corr rs), ps_updated_at := now\<rparr>) tab))"
proof -
  let ?ids = "sibling_ids p key es"
  have rows: "rate_rows ?ids es = rev rs" by (simp add: rate_rows_def rs_def decision_rates_def)
  have mem: "\<exists>q. fe_caused_by r = Some q \<and> q \<noteq> []" if "r \<in> set rs" for r
  proof -
    have "user_rate_on ?ids r" using that by (simp add: rs_def decision_rates_def)
    then obtain q where "fe_caused_by r = Some q" "q \<in> set ?ids"
      by (auto simp: user_rate_on_def split: option.splits)
    moreover have "[] \<notin> set ?ids" using ids by (auto simp: sibling_ids_def sibling_rows_def)
    ultimately show ?thesis by metis
  qed
  have latest: "latest_rates [] (rev rs) = rev rs"
    using once mem by (intro latest_rates_distinct) (auto simp: rs_def rev_map [symmetric])
  have fold: "foldl (count_rate (correctiveProposalIds p (sibling_rows (src_kind p) key es))) (0, 0, None) (rev rs) =
      (accepts corr rs, dismisses corr rs, newest corr rs)"
    by (rule count_rates) (simp_all add: rs_def decision_rates_def corr_def on_corrective_def)
  show ?thesis
    by (simp add: ensureProposalDecisionSignal_def rebuildProposalDecisionSignal_def key
        sibling_ids_def [symmetric] rows latest fold Let_def share_def cooldown_of_def
        split: option.split)
      (auto intro!: upsert_put)
qed

end
