(* ===== verification/ProposalDecisionFacts.thy ===== *)
theory ProposalDecisionFacts
  imports ProposalDecisionInvariants ProposalSignalFacts KnowledgeNodeFacts
begin

text \<open>
  Consequences of the invariant: decisions are final, a decision commits on an open proposal, a caller alone
  computes the protocol's function, and the log of accepts is one the folds of the knowledge nodes
  can rely on.
\<close>

section \<open>Decisions are final\<close>

lemma step_rates_final:
  assumes st: "decision_step P unlocked s s'" and ok: "system_ok P s" and r: "rates_of p (pd_events (sy_db s)) \<noteq> []"
    and p: "p \<in> ids (pd_events (sy_db s))"
  shows "rates_of p (pd_events (sy_db s')) = rates_of p (pd_events (sy_db s)) \<and> p \<in> ids (pd_events (sy_db s'))"
  using st ok r p
proof (induction rule: decision_step.induct)
  case (move s c env db' x)
  note D = system_okD [OF move.prems(1)]
  show ?case
  proof (cases "works_on (sy_pc s c)")
    case None
    then show ?thesis using move.prems(3) move.hyps(3) by (simp add: advance_idle)
  next
    case (Some q)
    have q: "q \<in> ids (pd_events (sy_db s))" using D(2) [OF Some] by blast
    have m: "moves P q (sy_pc s c) (pd_events (sy_db s)) (pd_events db')"
      using advance_moves [OF move.hyps(3) Some q D(1) move.hyps(2) D(4)] .
    show ?thesis
      using movesD(2) [OF m] movesD(3) [OF m move.prems(3)] movesD(4) [OF m] move.prems(2,3)
      by (cases "p = q") auto
  qed
next
  case (outside s evs other es' st')
  have g: "grows P {} (pd_events (sy_db s)) es'"
    using quiet_grows [OF system_okD(1) [OF outside.prems(1)] outside.hyps(1,2)] .
  show ?case using grows_rates [OF g outside.prems(3)] grows_ids [OF g] outside.prems(3) by auto
next
  case (correct q ev other s es')
  note c = correct_log_ok [OF system_okD(1) [OF correct.prems(1)] correct.hyps(2,3)]
  show ?case using c(2,3) correct.prems(3) by auto
qed simp_all

lemma run_rates_final:
  "decision_run P unlocked s s' \<Longrightarrow> system_ok P s \<Longrightarrow> rates_of p (pd_events (sy_db s)) \<noteq> [] \<Longrightarrow>
   p \<in> ids (pd_events (sy_db s)) \<Longrightarrow>
     rates_of p (pd_events (sy_db s')) = rates_of p (pd_events (sy_db s)) \<and> p \<in> ids (pd_events (sy_db s'))"
proof (induction rule: decision_run.induct)
  case (more s' s'')
  have "system_ok P s'" using run_system_ok [OF more.hyps(1) more.prems(1)] .
  then show ?case using step_rates_final [OF more.hyps(2), of p] more by simp
qed simp

lemma rated_in_log: "log_ok es \<Longrightarrow> rates_of p es \<noteq> [] \<Longrightarrow> p \<in> ids es"
  using log_ok_unrated by blast

section \<open>A decision commits on an open proposal\<close>

definition opens_active :: "('s, 'p, 'r) decision_system \<Rightarrow> bool" where
  "opens_active s \<longleftrightarrow>
     (\<forall>c p. open_on (sy_pc s c) = Some p \<longrightarrow> getCorrectionStatus (log_view (pd_events (sy_db s))) p = Active)"

lemma step_opens_active:
  "decision_step P unlocked s s' \<Longrightarrow> \<not> unlocked \<Longrightarrow> system_ok P s \<Longrightarrow> opens_active s \<Longrightarrow> opens_active s'"
proof (induction rule: decision_step.induct)
  case (submit s c x p)
  then show ?case using starting_idle [of x] by (auto simp: opens_active_def)
next
  case (move s c env db' x)
  note D = system_okD [OF move.prems(2)]
  show ?case
  proof (cases "works_on (sy_pc s c)")
    case None
    then show ?thesis using move.prems(3) move.hyps(3) by (auto simp: advance_idle opens_active_def)
  next
    case (Some q)
    have q: "q \<in> ids (pd_events (sy_db s))" using D(2) [OF Some] by blast
    have m: "moves P q (sy_pc s c) (pd_events (sy_db s)) (pd_events db')"
      using advance_moves [OF move.hyps(3) Some q D(1) move.hyps(2) D(4)] .
    have "getCorrectionStatus (log_view (pd_events db')) p = Active"
      if o: "open_on (((sy_pc s)(c := x)) d) = Some p" for d p
    proof (cases "d = c")
      case True
      then show ?thesis using o advance_next(3) [OF move.hyps(3) Some] by auto
    next
      case False
      then have od: "open_on (sy_pc s d) = Some p" using o by simp
      then have ld: "locked_on (sy_pc s d) = Some p" using open_unrated unrated_locked by blast
      have "p \<in> P" using D(2) [OF locked_works [OF ld]] by blast
      moreover have "p \<noteq> q \<or> locked_on (sy_pc s c) \<noteq> Some q" using D(3) ld False by blast
      ultimately show ?thesis using movesD(5) [OF m] move.prems(3) od by (simp add: opens_active_def)
    qed
    then show ?thesis by (simp add: opens_active_def)
  qed
next
  case (vanish s c)
  then show ?case by (auto simp: opens_active_def)
next
  case (outside s evs other es' st')
  have g: "grows P {} (pd_events (sy_db s)) es'"
    using quiet_grows [OF system_okD(1) [OF outside.prems(2)] outside.hyps(1,2)] .
  have "p \<in> P" if "open_on (sy_pc s c) = Some p" for c p
    using system_okD(2) [OF outside.prems(2)] locked_works [OF unrated_locked [OF open_unrated [OF that]]] by blast
  then show ?case using grows_status [OF g] outside.prems(3) by (simp add: opens_active_def)
qed simp

lemma run_opens_active:
  "decision_run P unlocked s s' \<Longrightarrow> \<not> unlocked \<Longrightarrow> system_ok P s \<Longrightarrow> opens_active s \<Longrightarrow> opens_active s'"
proof (induction rule: decision_run.induct)
  case (more s' s'')
  then show ?case using step_opens_active run_system_ok by blast
qed

lemma step_decides:
  assumes st: "decision_step P unlocked s s'" and ok: "system_ok P s"
    and before: "decided_by (sy_pc s c) = None" and after: "decided_by (sy_pc s' c) = Some p"
  shows "open_on (sy_pc s c) = Some p \<and> rates_of p (pd_events (sy_db s)) = [] \<and>
         length (rates_of p (pd_events (sy_db s'))) = 1"
  using st ok before after
proof (induction rule: decision_step.induct)
  case (submit s d x q)
  then show ?case using starting_idle [of x] by (auto split: if_splits)
next
  case (move s d env db' x)
  then have dc: "d = c" and x: "decided_by x = Some p" by (auto split: if_splits)
  note D = system_okD [OF move.prems(1)]
  obtain q where w: "works_on (sy_pc s c) = Some q"
    using move.hyps(3) move.prems(2) x dc advance_idle [of "sy_pc s c" env "sy_db s"]
    by (cases "works_on (sy_pc s c)") auto
  have q: "q = p" using advance_next(1) [of env "sy_db s" "sy_pc s c"] move.hyps(3) dc w decided_works [OF x] by auto
  have pin: "p \<in> ids (pd_events (sy_db s))" using D(2) [OF w] q by blast
  have un: "unrated_on (sy_pc s c) = Some p \<and> rates_of p (pd_events db') \<noteq> []"
    using advance_decided [of env "sy_db s" "sy_pc s c" db' x p P] move.hyps(2,3) move.prems(2) w q pin x D(1,4) dc
    by auto
  have op: "open_on (sy_pc s c) = Some p"
    using un move.hyps(3) x dc
    by (cases "sy_pc s c") (auto simp: Let_def split: if_splits)
  have "system_ok P \<lparr>sy_db = db', sy_pc = (sy_pc s)(d := x)\<rparr>"
    using system_ok_move [OF move.prems(1) move.hyps(3,1,2)] .
  then have "length (rates_of p (pd_events db')) \<le> 1"
    using log_okD(1) [OF system_okD(1)] by fastforce
  then show ?case using un op D(4) by (cases "rates_of p (pd_events db')") auto
qed (auto split: if_splits)

section \<open>A caller alone\<close>

definition alone :: "decision_env \<Rightarrow> nat \<Rightarrow> 's proposal_db \<times> ('s, 'p, 'r) caller \<Rightarrow> 's proposal_db \<times> ('s, 'p, 'r) caller" where
  "alone env n = (\<lambda>(db, pc). advance env db pc) ^^ n"

lemma alone_simps [simp]:
  "alone env 0 st = st"
  "alone env (Suc n) (db, pc) = alone env n (advance env db pc)"
  by (simp_all add: alone_def funpow_Suc_right del: funpow.simps(2))

lemma alone_add: "alone env (m + n) st = alone env n (alone env m st)"
  unfolding alone_def by (metis add.commute comp_apply funpow_add)

definition accept_end :: "string \<Rightarrow> (decision_error + 'r ProposalAcceptRun) \<times> 's proposal_db \<Rightarrow>
    's proposal_db \<times> ('s, 'p, 'r) caller" where
  "accept_end p res = (snd res, case fst res of Inl e \<Rightarrow> Failed e | Inr out \<Rightarrow> AcceptEnded p out)"

lemma advance_replay: "advance env db (Replaying p plan rate) = accept_end p (replay_accept env plan rate db)"
  by (simp add: accept_end_def split: prod.splits sum.splits)

lemma alone_preflight:
  "\<exists>n. alone env n (db, Preparing p plan pre) =
     (case run_preflight pre env p (requestedRating plan) db of
        (Inl e, db1) \<Rightarrow> (db1, Failed e)
      | (Inr (Inr r), db1) \<Rightarrow> (db1, AcceptEnded p (RunSkipped r))
      | (Inr (Inl x), db1) \<Rightarrow> (db1, AcceptReady p plan x))"
proof (induction pre arbitrary: db)
  case (Prepared x)
  show ?case by (rule exI [of _ 1]) simp
next
  case (Skip r)
  show ?case by (rule exI [of _ 1]) simp
next
  case (Fail e)
  show ?case by (rule exI [of _ 1]) simp
next
  case (Look k)
  obtain n where "alone env n (db, Preparing p plan (k (pd_events db) (pd_state db))) =
     (case run_preflight (k (pd_events db) (pd_state db)) env p (requestedRating plan) db of
        (Inl e, db1) \<Rightarrow> (db1, Failed e)
      | (Inr (Inr r), db1) \<Rightarrow> (db1, AcceptEnded p (RunSkipped r))
      | (Inr (Inl x), db1) \<Rightarrow> (db1, AcceptReady p plan x))"
    using Look [OF rangeI rangeI] by blast
  then show ?case by (intro exI [of _ "Suc n"]) simp
next
  case (Commit f k)
  obtain db1 e where tx: "(case prepare_tx env p (requestedRating plan) f db of
      Inl e \<Rightarrow> (db, Some e) | Inr db' \<Rightarrow> (db', None)) = (db1, e)" by force
  obtain n where n: "alone env n (db1, Preparing p plan (k e)) =
     (case run_preflight (k e) env p (requestedRating plan) db1 of
        (Inl e, db1) \<Rightarrow> (db1, Failed e)
      | (Inr (Inr r), db1) \<Rightarrow> (db1, AcceptEnded p (RunSkipped r))
      | (Inr (Inl x), db1) \<Rightarrow> (db1, AcceptReady p plan x))"
    using Commit [OF rangeI] by blast
  then show ?case
    using tx by (intro exI [of _ "Suc (Suc n)"]) (auto split: sum.splits)
qed

lemma alone_ready:
  "\<exists>n. alone env n (db, AcceptReady p plan x) =
     accept_end p (case accept_transaction env p plan x db of
        Inl e \<Rightarrow> (Inl e, db)
      | Inr (Inl rate, db2) \<Rightarrow> replay_accept env plan rate db2
      | Inr (Inr (False, r), db2) \<Rightarrow> (Inr (RunSkipped r), db2)
      | Inr (Inr (True, r), db2) \<Rightarrow>
          (case signal_after_commit env plan db2 of
             Inl e \<Rightarrow> (Inl e, db2)
           | Inr db3 \<Rightarrow> (Inr (RunAccepted r), db3)))"
proof (cases "findExistingRateEvent (pd_events db) p")
  case (Some rate)
  show ?thesis
  proof (cases "snd rate = requestedRating plan")
    case True
    then show ?thesis
      using Some
      by (intro exI [of _ "Suc (Suc (Suc 0))"])
        (simp add: accept_transaction_def readDecisionUnderLock_def acceptable_def advance_replay del: advance.simps(13))
  next
    case False
    then show ?thesis
      using Some
      by (intro exI [of _ "Suc (Suc 0)"])
        (simp add: accept_transaction_def readDecisionUnderLock_def acceptable_def accept_end_def)
  qed
next
  case None
  show ?thesis
  proof (cases "getCorrectionStatus (log_view (pd_events db)) p = Active")
    case True
    have tx: "accept_transaction env p plan x db =
        bind_result (accept_open env p plan x db) (\<lambda>(out, db'). Inr (Inr out, db'))"
      using None True by (simp add: accept_transaction_def readDecisionUnderLock_def acceptable_def)
    show ?thesis
    proof (cases "accept_open env p plan x db")
      case (Inl e)
      then show ?thesis
        using None True tx by (intro exI [of _ "Suc (Suc (Suc (Suc 0)))"]) (simp add: accept_end_def take_out_def)
    next
      case (Inr out)
      obtain a r db2 where o: "accept_open env p plan x db = Inr ((a, r), db2)" using Inr by (cases out) auto
      show ?thesis
      proof (cases a)
        case True
        then show ?thesis
          using None \<open>getCorrectionStatus (log_view (pd_events db)) p = Active\<close> tx o
          by (intro exI [of _ "Suc (Suc (Suc (Suc (Suc 0))))"])
            (auto simp: accept_end_def take_out_def bind_result_def split: sum.splits)
      next
        case False
        then show ?thesis
          using None \<open>getCorrectionStatus (log_view (pd_events db)) p = Active\<close> tx o
          by (intro exI [of _ "Suc (Suc (Suc (Suc 0)))"]) (simp add: accept_end_def take_out_def)
      qed
    qed
  next
    case False
    then show ?thesis
      using None
      by (intro exI [of _ "Suc (Suc (Suc 0))"])
        (simp add: accept_transaction_def readDecisionUnderLock_def acceptable_def accept_end_def Let_def)
  qed
qed

lemma alone_accept:
  "\<exists>n. alone env n (db, AcceptStart p plan) = accept_end p (runProposalAccept env p plan db)"
proof (cases "findExistingRateEvent (pd_events db) p")
  case (Some rate)
  show ?thesis
  proof (cases "snd rate = requestedRating plan")
    case True
    then show ?thesis
      using Some
      by (intro exI [of _ "Suc (Suc 0)"])
        (simp add: runProposalAccept_def advance_replay del: advance.simps(13))
  next
    case False
    then show ?thesis
      using Some by (intro exI [of _ "Suc 0"]) (simp add: runProposalAccept_def accept_end_def)
  qed
next
  case None
  obtain n where n: "alone env n (db, Preparing p plan (ap_prepare plan)) =
     (case run_preflight (ap_prepare plan) env p (requestedRating plan) db of
        (Inl e, db1) \<Rightarrow> (db1, Failed e)
      | (Inr (Inr r), db1) \<Rightarrow> (db1, AcceptEnded p (RunSkipped r))
      | (Inr (Inl x), db1) \<Rightarrow> (db1, AcceptReady p plan x))"
    using alone_preflight by blast
  obtain res db1 where pre: "run_preflight (ap_prepare plan) env p (requestedRating plan) db = (res, db1)" by force
  have start: "alone env (Suc n) (db, AcceptStart p plan) = alone env n (db, Preparing p plan (ap_prepare plan))"
    using None by simp
  consider e where "res = Inl e" | r where "res = Inr (Inr r)" | x where "res = Inr (Inl x)"
    by (cases res) (auto split: sum.splits, metis sumE)
  then show ?thesis
  proof cases
    case 1
    then show ?thesis
      using start n pre None by (intro exI [of _ "Suc n"]) (simp add: runProposalAccept_def accept_end_def)
  next
    case 2
    then show ?thesis
      using start n pre None by (intro exI [of _ "Suc n"]) (simp add: runProposalAccept_def accept_end_def)
  next
    case (3 x)
    obtain m where "alone env m (db1, AcceptReady p plan x) = accept_end p (runProposalAccept env p plan db)"
      using alone_ready [of env db1 p plan x] 3 pre None by (auto simp: runProposalAccept_def)
    then have "alone env (Suc n + m) (db, AcceptStart p plan) = accept_end p (runProposalAccept env p plan db)"
      using start n pre 3 by (simp only: alone_add) simp
    then show ?thesis by blast
  qed
qed

lemma alone_dismiss:
  "\<exists>n. alone env n (db, DismissStart p dplan) =
     (snd (runProposalDismiss env p dplan db),
      case fst (runProposalDismiss env p dplan db) of Inl e \<Rightarrow> Failed e | Inr out \<Rightarrow> DismissEnded p out)"
proof (cases "readDecisionUnderLock (pd_events db) p")
  case Open
  then have o: "findExistingRateEvent (pd_events db) p = None"
      "getCorrectionStatus (log_view (pd_events db)) p = Active"
    by (auto simp: readDecisionUnderLock_def Let_def split: option.splits if_splits)
  show ?thesis
    using o Open
    by (intro exI [of _ "Suc (Suc (Suc (Suc (Suc 0))))"])
      (auto simp: runProposalDismiss_def dismiss_transaction_def take_out_def bind_result_def split: sum.splits)
next
  case (Decided rate)
  then have "findExistingRateEvent (pd_events db) p = Some rate"
    by (auto simp: readDecisionUnderLock_def Let_def split: option.splits if_splits)
  then show ?thesis
    using Decided
    by (intro exI [of _ "Suc (Suc 0)"])
      (auto simp: runProposalDismiss_def dismiss_transaction_def dismiss_after_commit_def)
next
  case (Corrected st)
  then have "findExistingRateEvent (pd_events db) p = None"
      "getCorrectionStatus (log_view (pd_events db)) p \<noteq> Active"
    by (auto simp: readDecisionUnderLock_def Let_def split: option.splits if_splits)
  then show ?thesis
    using Corrected
    by (intro exI [of _ "Suc (Suc (Suc 0))"])
      (auto simp: runProposalDismiss_def dismiss_transaction_def dismiss_after_commit_def)
qed

section \<open>The log of accepts\<close>

lemma distinct_keyI: "(\<And>v. length (filter (\<lambda>x. f x = v) xs) \<le> 1) \<Longrightarrow> distinct (map f xs)"
proof (induction xs)
  case (Cons x xs)
  have "distinct (map f xs)"
  proof (rule Cons.IH)
    fix v show "length (filter (\<lambda>y. f y = v) xs) \<le> 1" using Cons.prems [of v] by (simp split: if_splits)
  qed
  moreover have "f x \<notin> f ` set xs" using Cons.prems [of "f x"] by (auto simp: filter_empty_conv)
  ultimately show ?case by simp
qed simp

lemma log_ok_single_accepts:
  assumes "log_ok es"
  shows "single_accepts es"
  unfolding single_accepts_def
proof (rule distinct_keyI)
  fix p
  have "length (filter (\<lambda>a. fst a = p) (accepts_in es)) \<le> length (rates_of p es)" for es
  proof (induction es)
    case (Cons e es)
    have "length (filter (\<lambda>a. fst a = p) (accepts_of e)) \<le> length (rates_of p [e])"
      by (cases "rate_accept e")
        (auto simp: accepts_of_def rate_accept_Some split: option.splits)
    then show ?case using Cons by (auto simp: accepts_in_def split: if_splits)
  qed (simp add: accepts_in_def)
  then show "length (filter (\<lambda>a. fst a = p) (accepts_in es)) \<le> 1"
    using log_okD(1) [OF assms, of p] le_trans by blast
qed

end
