(* ===== verification/ProposalDecisionProperties.thy ===== *)
theory ProposalDecisionProperties
  imports ProposalDecisionFacts
begin

text \<open>
  The properties of the decision protocol and of its signals, with a proposal that two callers accept.
\<close>

section \<open>A proposal and two callers\<close>

definition demo_proposal :: FoldEvent where
  "demo_proposal = \<lparr>fe_id = ''p1'', fe_created_at = 1, fe_actor_kind = ''agent'', fe_actor_ref = ''coach'',
     fe_action = ''experimental:proposal'', fe_subject_kind = ''event'', fe_subject_id = ''p1'',
     fe_outcome = Some ''partial'', fe_caused_by = None,
     fe_payload = JObj [(''ai_proposal'', JObj [(''kind'', JStr ''note_update''), (''cooldown_key'', JStr ''k'')])]\<rparr>"

definition demo_source :: ProposalSignalSource where
  "demo_source = \<lparr>src_id = ''p1'', src_kind = ''note_update'', src_cooldown_key = Some ''k'', src_suggestion_kind = None\<rparr>"

definition demo_effect :: "(unit, string) effect" where
  "demo_effect = WriteRate plain_rate (\<lambda>res. case res of Inl e \<Rightarrow> Throw e | Inr i \<Rightarrow> Return True i)"

definition demo_plan :: "(unit, unit, string) ProposalAcceptPlan" where
  "demo_plan = \<lparr>ap_proposal = demo_source, ap_user_note = None, ap_actor = None, ap_signal = AfterCommit,
     ap_rating = None, ap_replay = (\<lambda>rate es s. Inr (fe_id (fst rate))), ap_prepare = Prepared (),
     ap_effect = (\<lambda>_. demo_effect)\<rparr>"

definition demo_decision_env :: decision_env where
  "demo_decision_env = \<lparr>dv_other = (\<lambda>_. True), dv_real4 = id, dv_rate_id = ''r1'', dv_rate_now = 2,
     dv_signal_id = ''s1'', dv_signal_now = 3\<rparr>"

definition demo_rate :: FoldEvent where
  "demo_rate = \<lparr>fe_id = ''r1'', fe_created_at = 2, fe_actor_kind = ''user'', fe_actor_ref = ''self'',
     fe_action = ''rate'', fe_subject_kind = ''event'', fe_subject_id = ''p1'', fe_outcome = Some ''success'',
     fe_caused_by = Some ''p1'', fe_payload = JObj [(''rating'', JStr ''accept'')]\<rparr>"

definition demo_signal :: "int \<Rightarrow> signal_row" where
  "demo_signal n = \<lparr>ps_id = ''s1'', ps_kind = ''note_update'', ps_cooldown_key = ''k'', ps_accept_count = n,
     ps_dismiss_count = 0, ps_acceptance_rate = 1, ps_dismiss_reason = None, ps_cooldown_until = None,
     ps_created_at = 3, ps_updated_at = 3\<rparr>"

definition demo_db :: "unit proposal_db" where
  "demo_db = \<lparr>pd_events = [demo_proposal], pd_signals = [], pd_state = ()\<rparr>"

definition demo_db1 :: "unit proposal_db" where
  "demo_db1 = demo_db\<lparr>pd_events := [demo_proposal, demo_rate]\<rparr>"

lemma demo_reads:
  "findExistingRateEvent (pd_events demo_db) ''p1'' = None"
  "getCorrectionStatus (log_view (pd_events demo_db)) ''p1'' = Active"
  "findExistingRateEvent (pd_events demo_db1) ''p1'' = Some (demo_rate, RAccept)"
  "ids (pd_events demo_db) = {''p1''}"
  by code_simp+

lemma demo_commit:
  "accept_open demo_decision_env ''p1'' demo_plan () demo_db = Inr ((True, ''r1''), demo_db1)"
  by code_simp

lemma demo_replay:
  "replay_accept demo_decision_env demo_plan (demo_rate, RAccept) demo_db1 =
     (Inr (RunReplayed ''r1''), demo_db1\<lparr>pd_signals := [demo_signal 1]\<rparr>)"
  by code_simp

lemma demo_late_signal:
  "signal_after_commit demo_decision_env demo_plan (demo_db1\<lparr>pd_signals := [demo_signal 1]\<rparr>) =
     Inr (demo_db1\<lparr>pd_signals := [demo_signal 2]\<rparr>)"
  by code_simp

text \<open>A system with two callers, and their moves.\<close>

definition duo ::
  "'s proposal_db \<Rightarrow> ('s, 'p, 'r) caller \<Rightarrow> ('s, 'p, 'r) caller \<Rightarrow> ('s, 'p, 'r) decision_system" where
  "duo db a b = \<lparr>sy_db = db, sy_pc = (\<lambda>c. if c = 0 then a else if c = 1 then b else Idle)\<rparr>"

lemma duo_simps [simp]:
  "sy_db (duo db a b) = db" "sy_pc (duo db a b) 0 = a" "sy_pc (duo db a b) (Suc 0) = b"
  by (simp_all add: duo_def)

lemma duo_upd:
  "\<lparr>sy_db = db', sy_pc = (sy_pc (duo db a b))(0 := x)\<rparr> = duo db' x b"
  "\<lparr>sy_db = db', sy_pc = (sy_pc (duo db a b))(1 := x)\<rparr> = duo db' a x"
  by (auto simp: duo_def)

lemma duo_locked: "locked_on a = None \<Longrightarrow> locked_on b = None \<Longrightarrow> locked_on (sy_pc (duo db a b) d) = None"
  by (simp add: duo_def)

lemma duo_submit:
  assumes "starting x" "works_on x = Some p" "p \<in> P" "p \<in> ids (pd_events db)"
  shows "decision_step P u (duo db Idle b) (duo db x b)" "decision_step P u (duo db a Idle) (duo db a x)"
proof -
  have "(duo db Idle b)\<lparr>sy_pc := (sy_pc (duo db Idle b))(0 := x)\<rparr> = duo db x b"
    "(duo db a Idle)\<lparr>sy_pc := (sy_pc (duo db a Idle))(1 := x)\<rparr> = duo db a x"
    by (auto simp: duo_def)
  then show "decision_step P u (duo db Idle b) (duo db x b)" "decision_step P u (duo db a Idle) (duo db a x)"
    using decision_step.submit [of "duo db Idle b" 0 x p P u] decision_step.submit [of "duo db a Idle" 1 x p P u] assms
    by simp_all
qed

lemma duo_move0:
  assumes "needs_lock a = None \<or> locked_on a = None \<and> locked_on b = None" "trusted P env db a"
    "advance env db a = (db', x)"
  shows "decision_step P u (duo db a b) (duo db' x b)"
  using decision_step.move [of "duo db a b" 0 P env db' x u] assms duo_locked [of a b db]
  by (auto simp: duo_upd(1))

lemma duo_move1:
  assumes "needs_lock b = None \<or> locked_on a = None \<and> locked_on b = None" "trusted P env db b"
    "advance env db b = (db', x)"
  shows "decision_step P u (duo db a b) (duo db' a x)"
  using decision_step.move [of "duo db a b" 1 P env db' x u] assms duo_locked [of a b db]
  by (auto simp: duo_upd(2) [unfolded One_nat_def])

abbreviation demo_run :: "bool \<Rightarrow> (unit, unit, string) decision_system \<Rightarrow> bool" where
  "demo_run u s \<equiv> decision_run {''p1''} u (duo demo_db Idle Idle) s"

lemma demo_rated: "requestedRating demo_plan = RAccept"
  by code_simp

lemma demo_trusted: "trusted {''p1''} demo_decision_env demo_db (AcceptOpen ''p1'' demo_plan ())"
  by (simp add: demo_plan_def demo_effect_def rate_id_def plain_rate_def demo_decision_env_def demo_reads Let_def
      split: sum.splits prod.splits)

lemma demo_run_open: "demo_run u (duo demo_db (AcceptOpen ''p1'' demo_plan ()) Idle)"
proof -
  note more = decision_run.more [OF _ duo_move0 [where env = demo_decision_env]]
  have "demo_run u (duo demo_db (AcceptStart ''p1'' demo_plan) Idle)"
    by (rule decision_run.more [OF decision_run.none duo_submit(1) [of _ "''p1''"]]) (simp_all add: demo_reads)
  then have "demo_run u (duo demo_db (Preparing ''p1'' demo_plan (Prepared ())) Idle)"
    by (rule more) (simp_all add: demo_reads demo_plan_def)
  then have "demo_run u (duo demo_db (AcceptReady ''p1'' demo_plan ()) Idle)"
    by (rule more) simp_all
  then have "demo_run u (duo demo_db (AcceptLocked ''p1'' demo_plan ()) Idle)"
    by (rule more) simp_all
  then have "demo_run u (duo demo_db (AcceptUnrated ''p1'' demo_plan ()) Idle)"
    by (rule more) (simp_all add: demo_reads)
  then show ?thesis
    by (rule more) (simp_all add: demo_reads Let_def)
qed

lemma demo_run_committed: "demo_run u (duo demo_db1 (AcceptCommitted ''p1'' demo_plan ''r1'') Idle)"
  by (rule decision_run.more [OF demo_run_open duo_move0 [where env = demo_decision_env]])
    (simp_all add: demo_trusted del: trusted.simps, simp add: demo_commit take_out_def)

lemma demo_run_twice:
  "demo_run u (duo (demo_db1\<lparr>pd_signals := [demo_signal 2]\<rparr>) (AcceptEnded ''p1'' (RunAccepted ''r1''))
     (AcceptEnded ''p1'' (RunReplayed ''r1'')))"
proof -
  note more = decision_run.more [OF _ duo_move1 [where env = demo_decision_env]]
  have "demo_run u (duo demo_db1 (AcceptCommitted ''p1'' demo_plan ''r1'') (AcceptStart ''p1'' demo_plan))"
    by (rule decision_run.more [OF demo_run_committed duo_submit(2) [of _ "''p1''"]])
      (simp_all add: demo_db1_def demo_db_def demo_proposal_def)
  then have "demo_run u (duo demo_db1 (AcceptCommitted ''p1'' demo_plan ''r1'')
      (Replaying ''p1'' demo_plan (demo_rate, RAccept)))"
    by (rule more) (simp_all add: demo_reads demo_rated)
  then have "demo_run u (duo (demo_db1\<lparr>pd_signals := [demo_signal 1]\<rparr>) (AcceptCommitted ''p1'' demo_plan ''r1'')
      (AcceptEnded ''p1'' (RunReplayed ''r1'')))"
    by (rule more) (simp_all add: demo_replay)
  then show ?thesis
    by (rule decision_run.more [OF _ duo_move0 [where env = demo_decision_env]])
      (simp_all add: demo_late_signal take_out_def)
qed

lemma demo_start: "quiescent (duo demo_db Idle Idle)" "log_ok (pd_events (sy_db (duo demo_db Idle Idle)))"
  by (simp add: quiescent_def duo_def) (simp add: log_ok_def demo_db_def demo_proposal_def rates_of_def)

section \<open>Decided once\<close>

text \<open>
  C30. A proposal is decided once. Any number of callers accept, dismiss, retract and mark proposals, through
  any interleaving of their reads, locks, preflight commits, decision transactions and late signals, and any
  of them may vanish at any point. It starts with no caller at work, on a log whose event ids are unique,
  in which every rate names an event of the log and has one of the five ratings, and no event has two rates
  (\<open>log_ok\<close>). The owners' code is trusted with this much, and so are the writers outside the protocol:
  a rate on an event that is already in the log comes from \<open>writeRate\<close>, under an id that is not in use,
  whose error is not caught; a correction of a proposal the callers work on comes from the retraction
  (where \<open>unlocked\<close> is set, from anywhere at any time); and the stale marker is asked for only on proposals
  whose rates have the event as their subject. Then every proposal has at most one rate; a caller that
  reports a decision of its own has left one, and no other caller reports one on the same proposal; the step
  by which it comes to do so finds the proposal without a rate and, unless corrections bypass the lock,
  uncorrected, and leaves exactly one rate; and the rates of a proposal, once there are any, are the same
  ever after.
\<close>

theorem proposals_are_decided_once:
  assumes "quiescent s0" "log_ok (pd_events (sy_db s0))" "decision_run P unlocked s0 s"
  shows "(\<forall>p. length (rates_of p (pd_events (sy_db s))) \<le> 1) \<and>
    (\<forall>c p. decided_by (sy_pc s c) = Some p \<longrightarrow> length (rates_of p (pd_events (sy_db s))) = 1 \<and>
       (\<forall>d. decided_by (sy_pc s d) = Some p \<longrightarrow> d = c)) \<and>
    (\<forall>s' c p. decision_step P unlocked s s' \<and> decided_by (sy_pc s c) = None \<and> decided_by (sy_pc s' c) = Some p \<longrightarrow>
       rates_of p (pd_events (sy_db s)) = [] \<and> length (rates_of p (pd_events (sy_db s'))) = 1 \<and>
       (\<not> unlocked \<longrightarrow> getCorrectionStatus (log_view (pd_events (sy_db s))) p = Active)) \<and>
    (\<forall>s' p. decision_run P unlocked s s' \<and> rates_of p (pd_events (sy_db s)) \<noteq> [] \<longrightarrow>
       rates_of p (pd_events (sy_db s')) = rates_of p (pd_events (sy_db s)))"
proof -
  have start: "system_ok P s0" by (rule quiescent_system_ok [OF assms(1,2)])
  have ok: "system_ok P s" by (rule run_system_ok [OF assms(3) start])
  note D = system_okD [OF ok]
  have one: "length (rates_of p (pd_events (sy_db s))) \<le> 1" for p by (rule log_okD(1) [OF D(1)])
  have opens: "opens_active s" if "\<not> unlocked"
    using run_opens_active [OF assms(3) that start] assms(1) by (simp add: quiescent_def opens_active_def)
  have exact: "length (rates_of p (pd_events (sy_db s))) = 1" if "decided_by (sy_pc s c) = Some p" for c p
    using D(5) [OF that] one [of p] by (cases "rates_of p (pd_events (sy_db s))") simp_all
  show ?thesis
  proof (intro conjI allI impI; (elim conjE)?)
    fix p show "length (rates_of p (pd_events (sy_db s))) \<le> 1" by (rule one)
  next
    fix c d p
    assume c: "decided_by (sy_pc s c) = Some p"
    show "length (rates_of p (pd_events (sy_db s))) = 1" by (rule exact [OF c])
    show "d = c" if "decided_by (sy_pc s d) = Some p" by (rule D(6) [OF that c])
  next
    fix s' c p
    assume "decision_step P unlocked s s'" "decided_by (sy_pc s c) = None" "decided_by (sy_pc s' c) = Some p"
    note decides = step_decides [OF this(1) ok this(2,3)]
    then show "rates_of p (pd_events (sy_db s)) = []" "length (rates_of p (pd_events (sy_db s'))) = 1" by simp_all
    show "getCorrectionStatus (log_view (pd_events (sy_db s))) p = Active" if "\<not> unlocked"
      using opens [OF that] decides unfolding opens_active_def by blast
  next
    fix s' p
    assume "decision_run P unlocked s s'" "rates_of p (pd_events (sy_db s)) \<noteq> []"
    then show "rates_of p (pd_events (sy_db s')) = rates_of p (pd_events (sy_db s))"
      using run_rates_final [OF _ ok] rated_in_log [OF D(1)] by blast
  qed
qed

text \<open>An accept and, while its signal is still to come, a repetition of it: one decides, the other replays.\<close>

theorem proposals_are_decided_once_witness:
  "length (rates_of ''p1'' (pd_events (sy_db (duo (demo_db1\<lparr>pd_signals := [demo_signal 2]\<rparr>)
     (AcceptEnded ''p1'' (RunAccepted ''r1'')) (AcceptEnded ''p1'' (RunReplayed ''r1'')))))) = 1"
  using proposals_are_decided_once [OF demo_start demo_run_twice [of False], THEN conjunct2, THEN conjunct1,
      rule_format, of 0 "''p1''"] by simp

text \<open>
  What this gives the projections: the log of a reachable system accepts each proposal at most once, as the
  folds of nodes ask for.
\<close>

theorem decided_logs_accept_once:
  assumes "quiescent s0" "log_ok (pd_events (sy_db s0))" "decision_run P unlocked s0 s"
  shows "single_accepts (pd_events (sy_db s))"
  using log_ok_single_accepts system_okD(1) run_system_ok [OF assms(3) quiescent_system_ok [OF assms(1,2)]] by blast

theorem decided_logs_accept_once_witness:
  "single_accepts (pd_events (sy_db (duo demo_db1 (AcceptCommitted ''p1'' demo_plan ''r1'') Idle)))"
  by (rule decided_logs_accept_once [OF demo_start demo_run_committed])

section \<open>Two ways around the care taken\<close>

text \<open>
  A signal recorded after the commit is not covered by the decision lock. A repetition of the accept that
  comes between the commit and the late signal rebuilds the row from the log, which has the rate already;
  the late signal then adds it a second time.
\<close>

theorem replay_counts_an_accept_twice:
  "\<exists>s :: (unit, unit, string) decision_system. decision_run {''p1''} False (duo demo_db Idle Idle) s \<and>
     length (rates_of ''p1'' (pd_events (sy_db s))) = 1 \<and> map ps_accept_count (pd_signals (sy_db s)) = [2]"
  by (intro exI conjI, rule demo_run_twice)
    (simp_all add: demo_db1_def demo_db_def demo_signal_def demo_proposal_def demo_rate_def)

definition late_correction :: FoldEvent where
  "late_correction = correction_event ''p1''
     \<lparr>rp_correction_id = ''x1'', rp_reason_md = Some ''wrong'', rp_affected_refs = JArr [JObj [(''kind'', JStr ''record''), (''id'', JStr ''rec'')]],
      rp_guard = (\<lambda>_ _. None), rp_applier = (\<lambda>_ _ (s::unit). Inr ([], s))\<rparr> 2"

definition demo_db2 :: "unit proposal_db" where
  "demo_db2 = demo_db\<lparr>pd_events := [demo_proposal, late_correction]\<rparr>"

lemma late_corrected:
  "insertEvent (\<lambda>_. True) late_correction (pd_events demo_db) = Inr (pd_events demo_db2)"
  "getCorrectionStatus (log_view (pd_events demo_db2)) ''p1'' \<noteq> Active"
  "accept_open demo_decision_env ''p1'' demo_plan () demo_db2 =
     Inr ((True, ''r1''), demo_db2\<lparr>pd_events := [demo_proposal, late_correction, demo_rate]\<rparr>)"
  by code_simp+

lemma demo_trusted2: "trusted {''p1''} demo_decision_env demo_db2 (AcceptOpen ''p1'' demo_plan ())"
  by (simp add: demo_plan_def demo_effect_def rate_id_def plain_rate_def demo_decision_env_def demo_db2_def demo_db_def
      demo_proposal_def late_correction_def correction_event_def Let_def split: sum.splits prod.splits)

text \<open>
  A correction written without the decision lock can commit between the check of an accept and its rate: the
  proposal is retracted and then accepted.
\<close>

theorem correction_overtakes_an_accept:
  "\<exists>s. decision_run {''p1''} True (duo demo_db Idle Idle) s \<and> sy_pc s 0 = AcceptCommitted ''p1'' demo_plan ''r1'' \<and>
     pd_events (sy_db s) = [demo_proposal, late_correction, demo_rate] \<and>
     getCorrectionStatus (log_view [demo_proposal, late_correction]) ''p1'' \<noteq> Active"
proof -
  have c: "corrects ''p1'' late_correction" by code_simp
  have db2: "(duo demo_db a b)\<lparr>sy_db := (sy_db (duo demo_db a b))\<lparr>pd_events := pd_events demo_db2\<rparr>\<rparr> = duo demo_db2 a b"
    for a b :: "(unit, unit, string) caller"
    by (simp add: duo_def demo_db2_def)
  have "decision_step {''p1''} True (duo demo_db (AcceptOpen ''p1'' demo_plan ()) Idle)
      (duo demo_db2 (AcceptOpen ''p1'' demo_plan ()) Idle)"
    using decision_step.correct [of True "''p1''" late_correction "\<lambda>_. True" "duo demo_db (AcceptOpen ''p1'' demo_plan ()) Idle"
        "pd_events demo_db2" "{''p1''}"] c late_corrected(1) db2 by simp
  then have open': "demo_run True (duo demo_db2 (AcceptOpen ''p1'' demo_plan ()) Idle)"
    by (rule decision_run.more [OF demo_run_open])
  have "demo_run True (duo (demo_db2\<lparr>pd_events := [demo_proposal, late_correction, demo_rate]\<rparr>)
      (AcceptCommitted ''p1'' demo_plan ''r1'') Idle)"
    by (rule decision_run.more [OF open' duo_move0 [where env = demo_decision_env]])
      (simp_all add: demo_trusted2 del: trusted.simps, simp add: late_corrected(3) take_out_def)
  then show ?thesis using late_corrected(2) by (intro exI conjI) (assumption | simp add: demo_db2_def)+
qed

end
