(* ===== verification/Spec2Isabelle.thy ===== *)
theory Spec2Isabelle
  imports PaidEffectProperties EffectiveTruth OrchestratorProperties KnowledgeEdgeProperties KnowledgeNodeProperties
    SubscriptionProperties ProposalDecisionProperties
begin

text \<open>
  A verification library for the event-sourced core of the learning project, a TypeScript monolith over
  PostgreSQL. The application writes an append-only event log (table \<open>event\<close>), derives its state from
  the log by reducers, and runs its background work through three durable mechanisms whose state is
  in SQL tables: paid calls to providers, the nightly orchestrator, and the event subscription bus.
  These mechanisms, four of the reducers and the decision of proposals are modelled here, from the
  source, statement by statement.

  \<^bold>\<open>The parts and their theories.\<close>

  \<^item> Paid effects (\<open>src/src/core/paid-work\<close>). A call that costs money is an obligation row with a
    content-addressed identity, a fence and a state. \<open>CanonicalJson\<close>, \<open>CanonicalJsonFacts\<close>: canonical
    JSON text, digests and semantic equality; \<open>PaidEffectProtocol\<close>: the state machine, the entity gate and
    the admission by a backend's control row (all of it \<open>paid-effect-protocol.ts\<close>). A string of the JSON
    model holds code units below 256, a number is its text.
    \<open>PaidEffectStore\<close>: the tables and every operation of \<open>server/paid-effect-store.ts\<close>, one definition
    per exported function, each one transaction. \<open>PaidEffectInvariants\<close>, \<open>PaidEffectPreservation\<close>,
    \<open>PaidEffectSuccession\<close>: the store invariant and its preservation by each operation.
    \<open>PaidEffectRuns\<close>: runs of operations in any order, with the sends they admit.
  \<^item> Events and their truth (\<open>src/src/kernel/events\<close>). \<open>Corrections\<close>: the newest schema-valid correction
    of an event decides its status. \<open>EffectiveTruth\<close>: supersede chains resolved in rounds of
    batched reads, equal to following each event alone.
  \<^item> The nightly orchestrator (\<open>src/src/server/orchestration\<close>). \<open>JobDag\<close>: validation and construction
    of the job graph. \<open>OrchestrationStore\<close>: the run and node tables and every statement of \<open>store.ts\<close>.
    \<open>Orchestrator\<close>: polling, advancing, ticks, start and boot catch-up of \<open>orchestrator.ts\<close>, against a
    queue given by its calls. \<open>OrchestratorFacts\<close>, \<open>OrchestratorRuns\<close>, \<open>OrchestratorOutcomes\<close>,
    \<open>OrchestratorProgress\<close>: what a pass does, what any interleaving of callers preserves, what a start and
    a tick achieve, and why ticks end a night.
  \<^item> The knowledge mesh (\<open>src/src/core/topology-gate.ts\<close>, \<open>src/src/core/projections\<close>,
    \<open>src/src/kernel/records\<close>, \<open>src/src/capabilities/knowledge\<close>). \<open>TopologyGate\<close>: the reachability check on
    prerequisite edges. \<open>KnowledgeEdgeFold\<close>: an edge row as the fold of its events. \<open>KnowledgeEdgeFacts\<close>:
    creation, revival, archiving and guarded projection. \<open>KnowledgeEdgeInvariants\<close>,
    \<open>KnowledgeEdgeEffects\<close>, \<open>KnowledgeEdgeRuns\<close>: what the commands preserve and do, and their runs.
    \<open>KnowledgeMergeRewire\<close>: the rewrite of edges when a node is absorbed. \<open>EdgeTransactions\<close>: the
    endpoint locks and the interleavings of concurrent creations.
  \<^item> Knowledge nodes (\<open>src/src/core/projections\<close>, \<open>src/src/kernel/records\<close>, \<open>src/src/server/projections\<close>,
    \<open>src/scripts/rebuild-projection.ts\<close>). \<open>KnowledgeOperation\<close>, \<open>KnowledgeOperationFacts\<close>: the strict
    decoder of the operation an accepting rate carries (\<open>knowledge-operation.ts\<close>), what its writers stamp, and
    the round trip. \<open>KnowledgeNodeFold\<close>: a node row as the fold of its events (\<open>knowledge.ts\<close>), accepts
    first, then the events in replay order. \<open>KnowledgeNodeFacts\<close>: which events touch a node, and the
    fold as a function of the set of events. \<open>KnowledgeNodeHistory\<close>: the anchor index, the scans for
    operations, the facts they cite, the bounded read of one node and the prefetched read of many
    (\<open>knowledge-node-history.ts\<close>). \<open>KnowledgeNodeGather\<close>, \<open>KnowledgeNodeComplete\<close>: verification against the
    log, and why the bounded reads lose nothing. \<open>KnowledgeNodeProjection\<close>: write-through, rebuild and
    audits over an adapter of the registry. \<open>KnowledgeNodeRebuild\<close>: the interface \<open>projection_adapter\<close> and
    what rebuild and audit achieve on it, and the births of nodes. \<open>KnowledgeNodeAudit\<close>: the interpretation on
    the knowledge adapter.
  \<^item> The event subscription bus (\<open>src/src/server/events/subscriptions/runtime.ts\<close>). \<open>SubscriptionStore\<close>:
    checkpoints, deliveries and the bootstrap of a version. \<open>SubscriptionRuntime\<close>: leases, discovery,
    claim, completion, failure, redrive. \<open>SubscriptionDispatch\<close>: the dispatch cycle, and the
    transactions as actions. \<open>SubscriptionInvariants\<close>, \<open>SubscriptionPreservation\<close>, \<open>SubscriptionRuns\<close>:
    the schema's constraints, their preservation and what any run keeps. \<open>SubscriptionQueue\<close>: the bus
    as a queue. \<open>SubscriptionOutcomes\<close>, \<open>SubscriptionVersions\<close>, \<open>SubscriptionLiveness\<close>: recorded
    failures, discovery, version bumps, counts, and the slice that drains its queue while the clock runs on.
    The bootstrap of a version is one transaction, and so is each batch of discovery; in
    \<open>discoverSubscriptionDeliveries\<close> the batches follow each other with nothing in between, while the runs
    take single batches, so that there anything may commit between two of them.
  \<^item> The decision of proposals (\<open>src/src/kernel/proposals\<close>, \<open>src/src/server/proposals/retract-action.ts\<close>).
    \<open>ProposalSignals\<close>, \<open>ProposalSignalFacts\<close>: the counters and cooldowns of decisions (\<open>signals.ts\<close>), recorded
    one by one or rebuilt from the log, and why the two agree. \<open>ProposalDecision\<close>: accepting and
    dismissing in one transaction under the decision lock (\<open>decision-protocol.ts\<close>,
    \<open>applier-helpers.ts\<close>), retracting, and the stale marker; what an owner does is a program, a tree of its
    reads, its writes and its rate. \<open>ProposalDecisionRuns\<close>: callers as program counters that move over one
    read, one lock or one transaction's writes at a time, and what owners and other writers are trusted with.
    \<open>ProposalDecisionInvariants\<close>, \<open>ProposalDecisionFacts\<close>: what every step keeps, and that a caller who is
    alone does what \<open>runProposalAccept\<close> and \<open>runProposalDismiss\<close> say.

  The parts meet in the event log and in the queue: the orchestrator and the bus both drive handlers
  that write events; corrections, effective truth and the projections of edges and nodes read the log; an edge
  command writes the log and its projection in one transaction.

  \<^bold>\<open>How the model corresponds to the code.\<close> A table is a list of rows, a row is a record whose fields are
  the columns (prefixed, in the order of the schema), a nullable column is an option. A statement reads
  or updates the list by the predicate of its \<open>WHERE\<close> clause; \<open>INSERT .. ON CONFLICT\<close> looks for the
  key and fails on every other unique index the schema declares. A transaction is a function from tables
  to \<open>error + result \<times> tables\<close>; one that throws leaves the tables as they were. Names are the
  source's. \<open>Prelude\<close> holds the result combinators, JavaScript sets and maps, the table operations with
  the interface \<open>keyed_table\<close> (a table with a unique key, interpreted for every key of every table) and
  the interface \<open>event_reducer\<close> (a reducer that sorts its events, interpreted for corrections and for
  the folds of edges and nodes). Further interfaces stand with the components that use them.

  Concurrency is a sequence of transactions: \<open>PaidEffectRuns\<close>, \<open>OrchestratorRuns\<close>, \<open>KnowledgeEdgeRuns\<close>
  and \<open>SubscriptionRuns\<close> let any number of callers take any transaction at any time, with arguments of
  their choice, so their theorems cover every interleaving at the grain of a transaction.
  \<open>EdgeTransactions\<close> goes below that grain: it interleaves the open transactions themselves, with
  advisory locks held to the commit; the body of a transaction runs at the instant it opens, on the rows
  committed then, and a creation's second look at its endpoints under share locks is left out.
  \<open>ProposalDecisionRuns\<close> goes below it too: the lock, each read and the commit are steps of their own.

  \<^bold>\<open>Loops and bounds.\<close> Loops over rows are structural. The reachability search of
  the gate ends by a measure on the nodes not yet seen, the rounds of the truth resolution by a measure on
  the ids not yet followed. The cycle search of the job graph carries fuel, twice the nodes plus the edges
  plus two, which \<open>search_fuel_enough\<close> shows to suffice. The lock retry
  has the code's own bound. Discovery ends because every batch that inserts makes the undelivered events
  fewer, the delivery loop because every pass that goes on has dispatched one more. Integers of the code are
  JavaScript numbers used as counters, sequence numbers and times: they are \<open>int\<close> or \<open>nat\<close>; options that
  may be fractional or not finite are \<open>rat option\<close>.

  \<^bold>\<open>Parameters.\<close> What the code calls outside the repository is an argument: SHA-256 (a function on text),
  \<open>new Date\<close> on text, random ids, the rounding of a \<open>real\<close> column, the pg-boss queue, handlers and eligibility checks, and every reading of a clock. The order in
  which the database returns unordered rows is the order of the list, and theorems that must not depend
  on it quantify over permutations or use the order the statement asks for.

  \<^bold>\<open>What the lemma groups show.\<close> For every store: an invariant that contains all constraints of the schema
  and holds in every reachable state; for the operations: the exact effect on every branch; for the
  protocols: at most one send per obligation, mutual exclusion of the gate, fences that stay closed, rows
  that only move forward, one queue job per node, deliveries in order and settled once; for the pure
  algorithms: equivalence with reachability, with a single resolution, with the authoritative fold, with
  the fold of the whole log, and the round trip of an encoding; for the tables derived from the log: a
  rebuild gives the row of the log for every id that has an anchor, and the audit reports exactly what
  deviates; for proposals: one decision each, under every interleaving; for the loops: that they end and what they have then achieved. Each property stands in a \<open>Properties\<close> theory
  (or beside the small component it is about) with a concrete instance that is evaluated in the kernel.

  \<^bold>\<open>Where the code falls short.\<close> Eight theorems show behaviour the code does not intend:
  \<open>record_on_voided_reports_recorded\<close> (a receipt reported as recorded that is not stored),
  \<open>concurrent_creations_close_a_cycle\<close> (the endpoint locks do not serialise the cycle check),
  \<open>double_outstanding_blocks_bootstrap\<close> (a version bump after a rolling release that can never succeed),
  \<open>undiscovered_event_is_passed_over\<close> (an event that no version of a subscriber hands out),
  \<open>duplicate_archive_targets_decode\<close> (a check for repeated targets that never fires),
  \<open>rebuild_deletes_unanchored_rows\<close> (a rebuild deletes a node that predates the log),
  \<open>replay_counts_an_accept_twice\<close> (a late signal added to a count that has it already) and
  \<open>correction_overtakes_an_accept\<close> (a proposal corrected, then accepted).

  \<^bold>\<open>Not modelled.\<close> The user interface, HTTP routes and the generated API client; provider clients, prompts
  and tool loops; document ingestion; scripts and migrations; read models and dashboards, which only
  query; the estimators (FSRS, calibration, psychometrics), which are floating-point numerics or a third
  party's library. Of the modelled files: log lines and texts for people; \<open>created_at\<close> and
  \<open>updated_at\<close> columns that nothing reads; failures of the database connection; the parallelism of
  \<open>Promise.all\<close>, whose members run one after the other here, with the effects of the others as part
  of the environment where it matters. The rebuild covers the kind of knowledge
  nodes, the first of the cluster with the edges that the command line rebuilds in one transaction. Effects
  of the owners of proposals, the other kinds of records and the cascade of corrections are left out.
\<close>

end
